(* ===== verification/Prelude.thy ===== *)
theory Prelude
  imports Complex_Main "HOL-Library.Char_ord" "HOL-Library.List_Lexorder" "HOL-Library.Multiset"
begin

text \<open>
  What every component shares: JavaScript numbers and strings as the sources use them, and the
  generic list lemmas of the development.

  \<^item> A string is a list of code units, written as Isabelle's \<open>string\<close>; the code units
    modelled are 0 to 255 (Latin-1), so one character is one code unit and one code point.
  \<^item> A \<open>number\<close> that the source tests with \<open>Number.isFinite\<close> or
    \<open>Number.isInteger\<close> is a \<open>jsnum\<close>, whose finite values are rationals. A number that
    the source only uses as an index, a count or a time is an \<open>int\<close> or a \<open>nat\<close>.
  \<^item> Where a digit string becomes a number, the conversion rounds to a double
    (\<open>dbl\<close>): above \<open>2^53\<close> two integers may become the same number.
\<close>

named_theorems js_simps \<open>rewriting of the JavaScript string and number helpers\<close>

section \<open>Numbers\<close>

datatype jsnum = NaN | PosInf | NegInf | Fin rat

fun is_finite :: "jsnum \<Rightarrow> bool" where
  "is_finite (Fin _) = True"
| "is_finite _ = False"

fun is_integer :: "jsnum \<Rightarrow> bool" where
  "is_integer (Fin q) = (of_int \<lfloor>q\<rfloor> = q)"
| "is_integer _ = False"

text \<open>The integer an integral number stands for (0 for the others, which callers exclude).\<close>

fun int_of :: "jsnum \<Rightarrow> int" where
  "int_of (Fin q) = \<lfloor>q\<rfloor>"
| "int_of _ = 0"

text \<open>\<open>Math.trunc\<close> rounds towards zero; \<open>Math.round\<close> rounds a half up.\<close>

definition js_trunc :: "rat \<Rightarrow> int" where
  "js_trunc q = (if 0 \<le> q then \<lfloor>q\<rfloor> else \<lceil>q\<rceil>)"

definition js_round :: "rat \<Rightarrow> int" where
  "js_round q = \<lfloor>q + 1 / 2\<rfloor>"

lemma js_round_of_int [simp]: "js_round (of_int n) = n"
  unfolding js_round_def by (simp add: floor_eq_iff)

lemma js_trunc_of_int [simp]: "js_trunc (of_int n) = n"
  by (simp add: js_trunc_def)

lemma is_integer_of_int [simp]: "is_integer (Fin (of_int n))"
  by simp

text \<open>\<open>n | 0\<close>: the low 32 bits of an integer, read as two's complement.\<close>

definition to_int32 :: "int \<Rightarrow> int" where
  "to_int32 n = (n + 2 ^ 31) mod 2 ^ 32 - 2 ^ 31"

lemma to_int32_id: "- (2 ^ 31) \<le> n \<Longrightarrow> n < 2 ^ 31 \<Longrightarrow> to_int32 n = n"
  unfolding to_int32_def by simp

lemma to_int32_bounds: "- (2 ^ 31) \<le> to_int32 n" "to_int32 n < 2 ^ 31"
  unfolding to_int32_def by (simp_all add: pos_mod_bound pos_mod_sign)

text \<open>
  The double nearest to a natural number, ties to even: 53 significant bits are kept.
  Numbers with more than 1024 bits, where a double overflows, do not occur: every digit
  string the sources convert is shorter than 309 digits.
\<close>

fun bit_length :: "nat \<Rightarrow> nat" where
  "bit_length n = (if n = 0 then 0 else Suc (bit_length (n div 2)))"

declare bit_length.simps [simp del]

definition dbl :: "nat \<Rightarrow> nat" where
  "dbl n = (if n < 2 ^ 53 then n
     else let u = 2 ^ (bit_length n - 53); q = n div u; r = n mod u
          in (if u < 2 * r \<or> (u = 2 * r \<and> odd q) then Suc q else q) * u)"

lemma dbl_exact [simp]: "n < 2 ^ 53 \<Longrightarrow> dbl n = n"
  by (simp add: dbl_def)

section \<open>Arrays\<close>

text \<open>Reading \<open>xs[i]\<close>: \<open>undefined\<close> outside the array.\<close>

definition nth_opt :: "'a list \<Rightarrow> int \<Rightarrow> 'a option" where
  "nth_opt xs i = (if 0 \<le> i \<and> i < int (length xs) then Some (xs ! nat i) else None)"

lemma nth_opt_nat [simp]: "nth_opt xs (int i) = (if i < length xs then Some (xs ! i) else None)"
  by (simp add: nth_opt_def)

lemma nth_opt_SomeD: "nth_opt xs i = Some x \<Longrightarrow> 0 \<le> i \<and> nat i < length xs \<and> xs ! nat i = x"
  by (auto simp: nth_opt_def split: if_splits)

text \<open>\<open>findIndex\<close>: the first index whose element satisfies the test, else -1.\<close>

fun find_index :: "('a \<Rightarrow> bool) \<Rightarrow> 'a list \<Rightarrow> int" where
  "find_index P [] = -1"
| "find_index P (x # xs) =
     (if P x then 0 else let i = find_index P xs in if i < 0 then -1 else i + 1)"

lemma find_index_ge: "-1 \<le> find_index P xs"
  by (induction xs) (auto simp: Let_def)

lemma find_index_neg_iff: "find_index P xs < 0 \<longleftrightarrow> (\<forall>x \<in> set xs. \<not> P x)"
  by (induction xs) (auto simp: Let_def)

lemma find_index_nonneg:
  assumes "0 \<le> find_index P xs"
  shows "nat (find_index P xs) < length xs \<and> P (xs ! nat (find_index P xs))"
  using assms
proof (induction xs)
  case (Cons x xs)
  show ?case
  proof (cases "P x \<or> find_index P xs < 0")
    case True
    with Cons.prems show ?thesis by (auto simp: Let_def split: if_splits)
  next
    case False
    then have "0 \<le> find_index P xs" by simp
    with Cons.IH False show ?thesis by (simp add: Let_def nat_add_distrib)
  qed
qed simp

lemma find_index_first:
  assumes "0 \<le> find_index P xs" and "j < nat (find_index P xs)"
  shows "\<not> P (xs ! j)"
  using assms
proof (induction xs arbitrary: j)
  case (Cons x xs)
  show ?case
  proof (cases "P x \<or> find_index P xs < 0")
    case True
    with Cons.prems show ?thesis by (auto simp: Let_def split: if_splits)
  next
    case False
    then have "0 \<le> find_index P xs" by simp
    with Cons False show ?thesis by (cases j) (auto simp: Let_def nat_add_distrib)
  qed
qed simp

lemma find_Some_in: "List.find P xs = Some x \<Longrightarrow> x \<in> set xs \<and> P x"
  by (metis find_Some_iff nth_mem)

lemma find_is_nth:
  assumes "List.find P xs = Some x"
  shows "0 \<le> find_index P xs \<and> xs ! nat (find_index P xs) = x"
  using assms
proof (induction xs)
  case (Cons y xs)
  show ?case
  proof (cases "P y")
    case False
    with Cons have "0 \<le> find_index P xs \<and> xs ! nat (find_index P xs) = x" by simp
    with False show ?thesis by (simp add: Let_def nat_add_distrib)
  qed (use Cons.prems in simp)
qed simp

lemma find_unique: "distinct (map f xs) \<Longrightarrow> x \<in> set xs \<Longrightarrow> List.find (\<lambda>y. f y = f x) xs = Some x"
  by (induction xs) auto

lemma find_map_of: "map_option g (List.find (\<lambda>y. f y = k) xs) = map_of (map (\<lambda>y. (f y, g y)) xs) k"
  by (induction xs) auto

lemma map_of_rev_distinct: "distinct (map fst ps) \<Longrightarrow> map_of (rev ps) = map_of ps"
  by (subst map_of_inject_set) (simp_all add: rev_map [symmetric])

lemma find_None_index: "List.find P xs = None \<longleftrightarrow> find_index P xs < 0"
  by (auto simp: find_None_iff find_index_neg_iff)

section \<open>Strings\<close>

abbreviation code :: "char \<Rightarrow> nat" where
  "code c \<equiv> of_char c"

definition starts_with :: "string \<Rightarrow> string \<Rightarrow> bool" where
  "starts_with s p = (take (length p) s = p)"

definition ends_with :: "string \<Rightarrow> string \<Rightarrow> bool" where
  "ends_with s p = (length p \<le> length s \<and> drop (length s - length p) s = p)"

lemma starts_with_append [simp]: "starts_with (p @ s) p"
  by (simp add: starts_with_def)

lemma starts_withE: "starts_with s p \<Longrightarrow> (\<And>r. s = p @ r \<Longrightarrow> thesis) \<Longrightarrow> thesis"
  unfolding starts_with_def by (metis append_take_drop_id)

text \<open>\<open>indexOf\<close> of one character: -1 when it is absent.\<close>

definition index_of :: "string \<Rightarrow> char \<Rightarrow> int" where
  "index_of s c = find_index (\<lambda>d. d = c) s"

lemma index_of_absent [js_simps]: "c \<notin> set s \<Longrightarrow> index_of s c < 0"
  unfolding index_of_def find_index_neg_iff by auto

lemma index_of_present [js_simps]: "c \<notin> set w \<Longrightarrow> index_of (w @ c # s) c = int (length w)"
  unfolding index_of_def by (induction w) (auto simp: Let_def)

text \<open>\<open>split\<close> at one character: always at least one piece.\<close>

fun js_split :: "char \<Rightarrow> string \<Rightarrow> string list" where
  "js_split c [] = [[]]"
| "js_split c (d # ds) =
     (if d = c then [] # js_split c ds
      else case js_split c ds of [] \<Rightarrow> [[d]] | w # ws \<Rightarrow> (d # w) # ws)"

fun js_join :: "string \<Rightarrow> string list \<Rightarrow> string" where
  "js_join sep [] = []"
| "js_join sep [w] = w"
| "js_join sep (w # ws) = w @ sep @ js_join sep ws"

lemma js_split_not_Nil [simp]: "js_split c s \<noteq> []"
  by (induction s) (auto split: list.splits)

lemma js_split_no_sep: "w \<in> set (js_split c s) \<Longrightarrow> c \<notin> set w"
proof (induction s arbitrary: w)
  case (Cons d s)
  then show ?case by (fastforce split: if_splits list.splits)
qed simp

lemma js_split_word: "c \<notin> set w \<Longrightarrow> js_split c w = [w]"
  by (induction w) auto

lemma js_split_append_sep:
  "c \<notin> set w \<Longrightarrow> js_split c (w @ c # s) = w # js_split c s"
  by (induction w) auto

lemma js_split_join:
  assumes "ws \<noteq> []" and "\<forall>w \<in> set ws. c \<notin> set w"
  shows "js_split c (js_join [c] ws) = ws"
  using assms
  by (induction "[c]" ws rule: js_join.induct) (auto simp: js_split_word js_split_append_sep)

lemma js_join_split: "js_join [c] (js_split c s) = s"
proof (induction s)
  case (Cons d s)
  then show ?case
    by (cases "js_split c s" rule: list.exhaust; cases "tl (js_split c s)") (auto split: list.splits)
qed simp

lemma append_sep_inject:
  "c \<notin> set v \<Longrightarrow> c \<notin> set w \<Longrightarrow> v @ c # s = w @ c # t \<longleftrightarrow> v = w \<and> s = t"
proof (induction v arbitrary: w)
  case Nil
  then show ?case by (cases w) auto
next
  case (Cons d v)
  then show ?case by (cases w) auto
qed

definition is_digit :: "char \<Rightarrow> bool" where
  "is_digit c = (48 \<le> code c \<and> code c \<le> 57)"

definition is_upper :: "char \<Rightarrow> bool" where
  "is_upper c = (65 \<le> code c \<and> code c \<le> 90)"

definition is_lower :: "char \<Rightarrow> bool" where
  "is_lower c = (97 \<le> code c \<and> code c \<le> 122)"

definition is_alnum :: "char \<Rightarrow> bool" where
  "is_alnum c = (is_digit c \<or> is_upper c \<or> is_lower c)"

text \<open>\<open>[0-9a-f]\<close> under the \<open>i\<close> flag.\<close>

definition is_hex :: "char \<Rightarrow> bool" where
  "is_hex c = (is_digit c \<or> (65 \<le> code c \<and> code c \<le> 70) \<or> (97 \<le> code c \<and> code c \<le> 102))"

text \<open>\<open>toLowerCase\<close>: ASCII and the Latin-1 capitals, which lie 32 below their small letters.\<close>

definition lower_char :: "char \<Rightarrow> char" where
  "lower_char c =
     (if is_upper c \<or> (192 \<le> code c \<and> code c \<le> 222 \<and> code c \<noteq> 215) then char_of (code c + 32) else c)"

definition to_lower :: "string \<Rightarrow> string" where
  "to_lower s = map lower_char s"

text \<open>The white space and line terminators that \<open>trim\<close> removes.\<close>

definition is_space :: "char \<Rightarrow> bool" where
  "is_space c = ((9 \<le> code c \<and> code c \<le> 13) \<or> code c = 32 \<or> code c = 160)"

definition js_trim :: "string \<Rightarrow> string" where
  "js_trim s = rev (dropWhile is_space (rev (dropWhile is_space s)))"

lemma length_to_lower [simp]: "length (to_lower s) = length s"
  by (simp add: to_lower_def)

lemma to_lower_Nil_iff [simp]: "to_lower s = [] \<longleftrightarrow> s = []"
  by (simp add: to_lower_def)

section \<open>Digit strings\<close>

definition digit_val :: "char \<Rightarrow> nat" where
  "digit_val c = code c - 48"

definition digit_char :: "nat \<Rightarrow> char" where
  "digit_char d = char_of (48 + d)"

definition nat_of_str :: "string \<Rightarrow> nat" where
  "nat_of_str s = foldl (\<lambda>a c. 10 * a + digit_val c) 0 s"

fun nat_str :: "nat \<Rightarrow> string" where
  "nat_str n = (if n < 10 then [digit_char n] else nat_str (n div 10) @ [digit_char (n mod 10)])"

declare nat_str.simps [simp del]

lemma code_digit_char: "d < 10 \<Longrightarrow> code (digit_char d) = 48 + d"
  by (simp add: digit_char_def)

lemma is_digit_digit_char: "d < 10 \<Longrightarrow> is_digit (digit_char d)"
  by (simp add: is_digit_def code_digit_char)

lemma digit_val_char: "d < 10 \<Longrightarrow> digit_val (digit_char d) = d"
  by (simp add: digit_val_def code_digit_char)

lemma nat_of_str_snoc [simp]: "nat_of_str (s @ [c]) = 10 * nat_of_str s + digit_val c"
  by (simp add: nat_of_str_def)

lemma nat_of_str_nat_str [simp]: "nat_of_str (nat_str n) = n"
proof (induction n rule: nat_str.induct)
  case (1 n)
  show ?case
  proof (cases "n < 10")
    case True
    then show ?thesis by (simp add: nat_str.simps [of n] nat_of_str_def digit_val_char)
  next
    case False
    with 1 show ?thesis by (simp add: nat_str.simps [of n] digit_val_char)
  qed
qed

lemma nat_str_digits: "\<forall>c \<in> set (nat_str n). is_digit c"
proof (induction n rule: nat_str.induct)
  case (1 n)
  then show ?case
    by (cases "n < 10") (auto simp: nat_str.simps [of n] is_digit_digit_char)
qed

lemma nat_str_not_Nil [simp]: "nat_str n \<noteq> []"
  by (cases "n < 10") (auto simp: nat_str.simps [of n])

lemma nat_str_inject [simp]: "nat_str m = nat_str n \<longleftrightarrow> m = n"
  by (metis nat_of_str_nat_str)

lemma nat_str_no_char [simp]: "\<not> is_digit c \<Longrightarrow> c \<notin> set (nat_str n)"
  using nat_str_digits by blast

text \<open>No leading zero: \<open>nat_str\<close> prints the canonical decimal form.\<close>

lemma nat_str_canonical: "hd (nat_str n) = CHR ''0'' \<longleftrightarrow> n = 0"
proof (induction n rule: nat_str.induct)
  case (1 n)
  show ?case
  proof (cases "n < 10")
    case True
    have "digit_char n = CHR ''0'' \<Longrightarrow> n = 0"
      using arg_cong [of "digit_char n" "CHR ''0''" code] code_digit_char [OF True] by simp
    moreover have "digit_char 0 = CHR ''0''"
      by (simp add: digit_char_def char_of_eq_iff)
    ultimately show ?thesis using True by (auto simp: nat_str.simps [of n])
  next
    case False
    then have "n div 10 \<noteq> 0" by auto
    with 1 False show ?thesis by (simp add: nat_str.simps [of n])
  qed
qed

lemmas js_string_defs = starts_with_def ends_with_def index_of_def is_digit_def is_upper_def
  is_lower_def is_alnum_def is_hex_def is_space_def

text \<open>\<open>Number\<close> of a digit string.\<close>

definition js_number :: "string \<Rightarrow> nat" where
  "js_number s = dbl (nat_of_str s)"

lemma js_number_nat_str: "n < 2 ^ 53 \<Longrightarrow> js_number (nat_str n) = n"
  by (simp add: js_number_def)

section \<open>Values of unknown type\<close>

text \<open>
  What the sources type as \<open>unknown\<close>: a value read from JSON or received from a caller.
  Reading a property that is absent, or any property of a value that is not an object, gives
  \<open>undefined\<close> (the sources read no inherited property this way).
\<close>

datatype jsval = Undefined | JNull | JBool bool | JNum jsnum | JStr string
  | JArr "jsval list" | JObj "(string \<times> jsval) list"

fun js_get :: "jsval \<Rightarrow> string \<Rightarrow> jsval" where
  "js_get (JObj kvs) k = (case map_of kvs k of Some v \<Rightarrow> v | None \<Rightarrow> Undefined)"
| "js_get _ k = Undefined"

text \<open>\<open>v \<and> typeof v = 'object'\<close>: arrays are objects, \<open>null\<close> is not.\<close>

fun is_object :: "jsval \<Rightarrow> bool" where
  "is_object (JObj _) = True"
| "is_object (JArr _) = True"
| "is_object _ = False"

fun as_string :: "jsval \<Rightarrow> string option" where
  "as_string (JStr s) = Some s"
| "as_string _ = None"

fun as_bool :: "jsval \<Rightarrow> bool option" where
  "as_bool (JBool b) = Some b"
| "as_bool _ = None"

fun as_number :: "jsval \<Rightarrow> jsnum option" where
  "as_number (JNum x) = Some x"
| "as_number _ = None"

fun as_array :: "jsval \<Rightarrow> jsval list option" where
  "as_array (JArr vs) = Some vs"
| "as_array _ = None"

text \<open>\<open>Number.isFinite(v)\<close> and \<open>Number.isInteger(v)\<close> on an unknown value.\<close>

fun finite_val :: "jsval \<Rightarrow> rat option" where
  "finite_val (JNum (Fin q)) = Some q"
| "finite_val _ = None"

fun integer_val :: "jsval \<Rightarrow> int option" where
  "integer_val (JNum x) = (if is_integer x then Some (int_of x) else None)"
| "integer_val _ = None"

text \<open>A string, possibly absent, in a condition: absent and empty are both false.\<close>

definition truthy :: "string option \<Rightarrow> bool" where
  "truthy v = (v \<noteq> None \<and> v \<noteq> Some [])"

lemma truthy_simps [simp]: "\<not> truthy None" "truthy (Some s) \<longleftrightarrow> s \<noteq> []"
  by (simp_all add: truthy_def)

text \<open>
  \<open>String(v)\<close>. A number that is not an integer is printed in decimal notation with at most 17
  decimals: exact for the numbers of at most 15 significant digits between 1e-6 and 1e21 that a
  JSON text spells in decimal notation, which is where JavaScript prints the same digits.
\<close>

fun frac_digits :: "nat \<Rightarrow> rat \<Rightarrow> string" where
  "frac_digits 0 r = []"
| "frac_digits (Suc k) r =
     (if r = 0 then [] else digit_char (nat \<lfloor>10 * r\<rfloor>) # frac_digits k (10 * r - of_int \<lfloor>10 * r\<rfloor>))"

fun num_String :: "jsnum \<Rightarrow> string" where
  "num_String NaN = ''NaN''"
| "num_String PosInf = ''Infinity''"
| "num_String NegInf = ''-Infinity''"
| "num_String (Fin q) =
     (let a = \<bar>q\<bar>; whole = nat \<lfloor>a\<rfloor>; frac = a - of_int \<lfloor>a\<rfloor> in
      (if q < 0 then ''-'' else []) @ nat_str whole
      @ (if frac = 0 then [] else CHR ''.'' # frac_digits 17 frac))"

fun js_String :: "jsval \<Rightarrow> string" where
  "js_String Undefined = ''undefined''"
| "js_String JNull = ''null''"
| "js_String (JBool b) = (if b then ''true'' else ''false'')"
| "js_String (JNum x) = num_String x"
| "js_String (JStr s) = s"
| "js_String (JArr vs) =
     js_join '','' (map (\<lambda>v. if v = Undefined \<or> v = JNull then [] else js_String v) vs)"
| "js_String (JObj _) = ''[object Object]''"

text \<open>\<open>v ?? d\<close>.\<close>

definition nullish_or :: "jsval \<Rightarrow> jsval \<Rightarrow> jsval" where
  "nullish_or v d = (if v = Undefined \<or> v = JNull then d else v)"

text \<open>A field of an object that \<open>JSON.stringify\<close> leaves out when it is absent.\<close>

definition opt_field :: "string \<Rightarrow> jsval option \<Rightarrow> (string \<times> jsval) list" where
  "opt_field k v = (case v of None \<Rightarrow> [] | Some x \<Rightarrow> [(k, x)])"

lemma opt_field_simps [simp]: "opt_field k None = []" "opt_field k (Some x) = [(k, x)]"
  by (simp_all add: opt_field_def)

lemma map_of_opt_field [simp]:
  "map_of (opt_field k v @ r) k' =
     (if k' = k \<and> v \<noteq> None then v else map_of r k')"
  by (cases v) simp_all

section \<open>Codecs\<close>

text \<open>
  The contract between a writer and a reader: what is written of a good value is read back. Every
  stored or printed form of the development interprets it.
\<close>

locale codec =
  fixes enc :: "'a \<Rightarrow> 'b"
    and dec :: "'b \<Rightarrow> 'a option"
    and good :: "'a \<Rightarrow> bool"
  assumes dec_enc: "good x \<Longrightarrow> dec (enc x) = Some x"
begin

lemma enc_inj: "good x \<Longrightarrow> good y \<Longrightarrow> enc x = enc y \<Longrightarrow> x = y"
  by (metis dec_enc option.inject)

lemma dec_enc_all: "list_all good xs \<Longrightarrow> map dec (map enc xs) = map Some xs"
  by (induction xs) (simp_all add: dec_enc)

end

end
