(* ===== verification/Ordering.thy ===== *)
theory Ordering
  imports Prelude
begin

text \<open>
  Comparison functions and \<open>Array.prototype.sort\<close>. A comparison function returns a
  negative number, zero or a positive number; \<open>sort\<close> with a consistent one is stable, and
  its result is then determined: the lemmas of the locale \<open>comparator\<close> say that
  \<open>js_sort\<close> is that result. Every component that sorts interprets the locale on its own
  comparison function; \<open>localeCompare\<close>, whose collation the host's locale data decide, is a
  parameter of the model that is assumed to be a \<open>comparator\<close>.
\<close>

section \<open>Sorting with a comparison function\<close>

type_synonym 'a cmp = "'a \<Rightarrow> 'a \<Rightarrow> int"

fun js_insert :: "'a cmp \<Rightarrow> 'a \<Rightarrow> 'a list \<Rightarrow> 'a list" where
  "js_insert cmp x [] = [x]"
| "js_insert cmp x (y # ys) = (if cmp x y \<le> 0 then x # y # ys else y # js_insert cmp x ys)"

definition js_sort :: "'a cmp \<Rightarrow> 'a list \<Rightarrow> 'a list" where
  "js_sort cmp xs = foldr (js_insert cmp) xs []"

lemma js_sort_simps [simp]:
  "js_sort cmp [] = []"
  "js_sort cmp (x # xs) = js_insert cmp x (js_sort cmp xs)"
  by (simp_all add: js_sort_def)

lemma mset_js_insert [simp]: "mset (js_insert cmp x xs) = add_mset x (mset xs)"
  by (induction xs) auto

lemma mset_js_sort [simp]: "mset (js_sort cmp xs) = mset xs"
  by (induction xs) auto

lemma set_js_insert [simp]: "set (js_insert cmp x xs) = insert x (set xs)"
  by (induction xs) auto

lemma set_js_sort [simp]: "set (js_sort cmp xs) = set xs"
  by (induction xs) auto

lemma length_js_sort [simp]: "length (js_sort cmp xs) = length xs"
  by (metis mset_js_sort size_mset)

lemma distinct_js_sort [simp]: "distinct (js_sort cmp xs) = distinct xs"
  by (metis mset_eq_imp_distinct_iff mset_js_sort)

lemma distinct_map_js_sort: "distinct (map f (js_sort cmp xs)) = distinct (map f xs)"
  by (metis mset_eq_imp_distinct_iff mset_js_sort mset_map)

lemma sorted_wrt_take_drop:
  assumes "sorted_wrt P xs" and "x \<in> set (take n xs)" and "y \<in> set (drop n xs)"
  shows "P x y"
proof -
  have "sorted_wrt P (take n xs @ drop n xs)" using assms(1) by (simp only: append_take_drop_id)
  then show ?thesis using assms(2,3) unfolding sorted_wrt_append by blast
qed

section \<open>The contract of a comparison function\<close>

locale comparator =
  fixes cmp :: "'a cmp"
  assumes cmp_antisym: "sgn (cmp a b) = - sgn (cmp b a)"
    and cmp_trans: "cmp a b \<le> 0 \<Longrightarrow> cmp b c \<le> 0 \<Longrightarrow> cmp a c \<le> 0"
begin

lemma cmp_refl: "cmp a a = 0"
  using cmp_antisym [of a a] by (simp add: sgn_if split: if_splits)

lemma cmp_total: "cmp a b \<le> 0 \<or> cmp b a \<le> 0"
  using cmp_antisym [of a b] by (auto simp: sgn_if split: if_splits)

lemma cmp_pos_iff: "0 < cmp a b \<longleftrightarrow> cmp b a < 0"
  using cmp_antisym [of a b] by (auto simp: sgn_if split: if_splits)

lemma cmp_both_le: "cmp a b \<le> 0 \<Longrightarrow> cmp b a \<le> 0 \<Longrightarrow> cmp a b = 0"
  using cmp_antisym [of a b] by (auto simp: sgn_if split: if_splits)

lemma cmp_zero_sym: "cmp a b = 0 \<Longrightarrow> cmp b a = 0"
  using cmp_antisym [of a b] by (auto simp: sgn_if split: if_splits)

lemma cmp_zero_left: "cmp a b = 0 \<Longrightarrow> cmp a c \<le> 0 \<longleftrightarrow> cmp b c \<le> 0"
  by (metis cmp_trans cmp_zero_sym order_refl)

lemma cmp_zero_right: "cmp a b = 0 \<Longrightarrow> cmp c a \<le> 0 \<longleftrightarrow> cmp c b \<le> 0"
  by (metis cmp_trans cmp_zero_sym order_refl)

lemma cmp_zero_trans: "cmp a b = 0 \<Longrightarrow> cmp b c = 0 \<Longrightarrow> cmp a c = 0"
proof -
  assume "cmp a b = 0" and "cmp b c = 0"
  then have "cmp a c \<le> 0" and "cmp c a \<le> 0"
    using cmp_trans [of a b c] cmp_trans [of c b a] cmp_zero_sym by simp_all
  then show ?thesis by (rule cmp_both_le)
qed

abbreviation ordered :: "'a list \<Rightarrow> bool" where
  "ordered \<equiv> sorted_wrt (\<lambda>a b. cmp a b \<le> 0)"

lemma ordered_js_insert: "ordered xs \<Longrightarrow> ordered (js_insert cmp x xs)"
proof (induction xs)
  case (Cons y ys)
  then show ?case
    using cmp_total [of x y] cmp_trans by auto
qed simp

lemma ordered_js_sort: "ordered (js_sort cmp xs)"
  by (induction xs) (auto intro: ordered_js_insert)

text \<open>Stability: the elements that compare equal to \<open>k\<close> keep their order.\<close>

lemma js_insert_class:
  "filter (\<lambda>y. cmp k y = 0) (js_insert cmp x xs) =
     (if cmp k x = 0 then x # filter (\<lambda>y. cmp k y = 0) xs else filter (\<lambda>y. cmp k y = 0) xs)"
proof (induction xs)
  case (Cons y ys)
  have "cmp k x = 0 \<Longrightarrow> cmp k y = 0 \<Longrightarrow> cmp x y = 0"
    by (meson cmp_zero_sym cmp_zero_trans)
  with Cons show ?case by auto
qed simp

lemma js_sort_stable: "filter (\<lambda>y. cmp k y = 0) (js_sort cmp xs) = filter (\<lambda>y. cmp k y = 0) xs"
  by (induction xs) (simp_all add: js_insert_class)

lemma js_insert_first: "\<forall>y \<in> set xs. cmp x y \<le> 0 \<Longrightarrow> js_insert cmp x xs = x # xs"
  by (cases xs) auto

lemma js_sort_ordered: "ordered xs \<Longrightarrow> js_sort cmp xs = xs"
  by (induction xs) (auto simp: js_insert_first)

lemma js_sort_idem: "js_sort cmp (js_sort cmp xs) = js_sort cmp xs"
  by (simp add: js_sort_ordered ordered_js_sort)

text \<open>
  What the language promises of \<open>sort\<close> determines it: an ordered list in which every
  class of equal elements is in its original order is \<open>js_sort\<close>.
\<close>

lemma js_sort_unique:
  assumes "ordered ys" and "\<And>k. filter (\<lambda>y. cmp k y = 0) ys = filter (\<lambda>y. cmp k y = 0) xs"
  shows "ys = js_sort cmp xs"
proof -
  have "ys = zs" if "ordered ys" "ordered zs"
    and "\<And>k. filter (\<lambda>y. cmp k y = 0) ys = filter (\<lambda>y. cmp k y = 0) zs" for ys zs
    using that
  proof (induction ys arbitrary: zs)
    case Nil
    then have "filter (\<lambda>y. cmp (hd zs) y = 0) zs = []" by simp
    then show ?case using cmp_refl by (cases zs) auto
  next
    case (Cons y ys)
    have "y \<in> set (filter (\<lambda>x. cmp y x = 0) zs)"
      using Cons.prems(3) [of y, symmetric] cmp_refl by simp
    then have "y \<in> set zs" by simp
    then obtain z zs' where zs: "zs = z # zs'" by (cases zs) auto
    have "z \<in> set (filter (\<lambda>x. cmp z x = 0) (y # ys))"
      unfolding Cons.prems(3) [of z] using cmp_refl zs by simp
    then have "z \<in> set (y # ys)" by (auto split: if_splits)
    then have "cmp y z \<le> 0" using Cons.prems(1) cmp_refl by auto
    moreover have "cmp z y \<le> 0" using Cons.prems(2) \<open>y \<in> set zs\<close> cmp_refl zs by auto
    ultimately have "cmp y z = 0" by (rule cmp_both_le)
    then have "y = z" using Cons.prems(3) [of y] zs cmp_refl by simp
    moreover have "filter (\<lambda>x. cmp k x = 0) ys = filter (\<lambda>x. cmp k x = 0) zs'" for k
      using Cons.prems(3) [of k] zs \<open>y = z\<close> by (auto split: if_splits)
    ultimately show ?case using Cons.IH [of zs'] Cons.prems zs by simp
  qed
  then show ?thesis using assms js_sort_stable ordered_js_sort by metis
qed

text \<open>Where only equal elements compare equal, any ordered permutation is the result.\<close>

lemma ordered_perm_unique:
  assumes "ordered xs" and "ordered ys" and "mset xs = mset ys"
    and "\<And>a b. a \<in> set xs \<Longrightarrow> b \<in> set xs \<Longrightarrow> cmp a b = 0 \<Longrightarrow> a = b"
  shows "xs = ys"
  using assms
proof (induction xs arbitrary: ys)
  case (Cons x xs)
  then obtain y ys' where ys: "ys = y # ys'" by (cases ys) auto
  have "x \<in> set ys" and "y \<in> set (x # xs)"
    using mset_eq_setD [OF Cons.prems(3)] ys by auto
  then have "cmp x y \<le> 0" and "cmp y x \<le> 0"
    using Cons.prems(1,2) ys cmp_refl by auto
  then have "x = y"
    using Cons.prems(4) [of x y] \<open>y \<in> set (x # xs)\<close> cmp_both_le by simp
  with Cons show ?case by (simp add: ys)
qed simp

lemma js_sort_perm_unique:
  assumes "ordered ys" and "mset ys = mset xs"
    and "\<And>a b. a \<in> set xs \<Longrightarrow> b \<in> set xs \<Longrightarrow> cmp a b = 0 \<Longrightarrow> a = b"
  shows "js_sort cmp xs = ys"
  by (rule ordered_perm_unique) (use assms ordered_js_sort in auto)

end

section \<open>Comparison functions of the sources\<close>

text \<open>\<open>a - b\<close> on a numeric key, and code-unit order on strings (\<open>a < b ? -1 : 1\<close>).\<close>

definition by_key :: "('a \<Rightarrow> int) \<Rightarrow> 'a cmp" where
  "by_key f a b = f a - f b"

definition str_cmp :: "string cmp" where
  "str_cmp a b = (if a = b then 0 else if a < b then -1 else 1)"

text \<open>\<open>first || second\<close>: the second comparison decides the ties of the first.\<close>

definition then_by :: "'a cmp \<Rightarrow> 'a cmp \<Rightarrow> 'a cmp" where
  "then_by c d a b = (if c a b \<noteq> 0 then c a b else d a b)"

lemma comparator_by_key: "comparator (by_key f)"
  by unfold_locales (auto simp: by_key_def sgn_if)

interpretation strings: comparator str_cmp
proof
  fix a b c :: string
  show "sgn (str_cmp a b) = - sgn (str_cmp b a)"
    using linorder_less_linear [of a b] by (auto simp: str_cmp_def)
  assume "str_cmp a b \<le> 0" and "str_cmp b c \<le> 0"
  then have "a \<le> b" and "b \<le> c" by (auto simp: str_cmp_def split: if_splits)
  then have "a \<le> c" by (rule order_trans)
  then show "str_cmp a c \<le> 0" by (auto simp: str_cmp_def)
qed

lemma comparator_on: "comparator c \<Longrightarrow> comparator (\<lambda>a b. c (f a) (f b))"
  unfolding comparator_def by blast

lemma comparator_flip:
  assumes "comparator c"
  shows "comparator (\<lambda>a b. - c a b)"
proof
  fix a b d
  show "sgn (- c a b) = - sgn (- c b a)"
    using comparator.cmp_antisym [OF assms, of a b] by (simp add: sgn_minus)
  assume "- c a b \<le> 0" and "- c b d \<le> 0"
  then have "c b a \<le> 0" and "c d b \<le> 0"
    using comparator.cmp_pos_iff [OF assms] by (smt (verit))+
  then have "c d a \<le> 0" using comparator.cmp_trans [OF assms] by blast
  then show "- c a d \<le> 0" using comparator.cmp_pos_iff [OF assms, of d a] by linarith
qed

lemma comparator_then_by:
  assumes "comparator c" and "comparator d"
  shows "comparator (then_by c d)"
proof
  fix a b e
  show "sgn (then_by c d a b) = - sgn (then_by c d b a)"
    using comparator.cmp_antisym [OF assms(1), of a b] comparator.cmp_antisym [OF assms(2), of a b]
      comparator.cmp_zero_sym [OF assms(1)]
    by (auto simp: then_by_def)
  assume ab: "then_by c d a b \<le> 0" and be: "then_by c d b e \<le> 0"
  then have le: "c a b \<le> 0" "c b e \<le> 0" by (auto simp: then_by_def split: if_splits)
  then have ae: "c a e \<le> 0" using comparator.cmp_trans [OF assms(1)] by blast
  show "then_by c d a e \<le> 0"
  proof (cases "c a e = 0")
    case True
    then have "c e a \<le> 0" using comparator.cmp_zero_sym [OF assms(1)] by fastforce
    then have "c b a \<le> 0" and "c e b \<le> 0"
      using le comparator.cmp_trans [OF assms(1)] by blast+
    then have "c a b = 0" and "c b e = 0"
      using le comparator.cmp_both_le [OF assms(1)] by blast+
    then have "d a e \<le> 0"
      using ab be comparator.cmp_trans [OF assms(2), of a b e] by (simp add: then_by_def)
    with True show ?thesis by (simp add: then_by_def)
  qed (use ae in \<open>simp add: then_by_def\<close>)
qed

end
