(* ===== verification/Semver.thy ===== *)
theory Semver
  imports Ordering "HOL-Library.Product_Lexorder"
begin

text \<open>
  \<^verbatim>\<open>packages/protocol/src/semver.ts\<close>: parsing a version string, comparing two versions, and the
  badge of an agent's version. The specification is a linear order on \<open>precedence\<close> values;
  \<open>compareSemver\<close> is proved to compare by it.
\<close>

section \<open>Versions and their parser\<close>

record semver =
  major :: nat
  minor :: nat
  patch :: nat
  prerelease :: "string list"
  build :: "string list"

definition MIN_SUPPORTED_AGENT :: string where
  "MIN_SUPPORTED_AGENT = ''0.1.0-0''"

text \<open>\<open>NUMERIC\<close>, \<open>DIGITS\<close> and \<open>IDENTIFIER\<close>, the three patterns.\<close>

definition is_numeric :: "string \<Rightarrow> bool" where
  "is_numeric s = (s = ''0'' \<or> (s \<noteq> [] \<and> hd s \<noteq> CHR ''0'' \<and> list_all is_digit s))"

definition all_digits :: "string \<Rightarrow> bool" where
  "all_digits s = (s \<noteq> [] \<and> list_all is_digit s)"

definition is_identifier :: "string \<Rightarrow> bool" where
  "is_identifier s = (s \<noteq> [] \<and> list_all (\<lambda>c. is_alnum c \<or> c = CHR ''-'') s)"

definition parseSemver :: "string option \<Rightarrow> semver option" where
  "parseSemver v = (case v of None \<Rightarrow> None | Some value \<Rightarrow>
     if length value = 0 \<or> length value > 256 then None else
     let plus = index_of value (CHR ''+'');
         build = (if plus \<ge> 0 then js_split (CHR ''.'') (drop (nat plus + 1) value) else []);
         rest = (if plus \<ge> 0 then take (nat plus) value else value) in
     if \<not> list_all is_identifier build then None else
     let dash = index_of rest (CHR ''-'');
         pre = (if dash \<ge> 0 then js_split (CHR ''.'') (drop (nat dash + 1) rest) else []);
         rest = (if dash \<ge> 0 then take (nat dash) rest else rest) in
     if \<not> list_all is_identifier pre then None else
     if list_ex (\<lambda>id. all_digits id \<and> \<not> is_numeric id) pre then None else
     let core = js_split (CHR ''.'') rest in
     if length core \<noteq> 3 \<or> \<not> list_all is_numeric core then None
     else Some \<lparr>major = js_number (core ! 0), minor = js_number (core ! 1),
       patch = js_number (core ! 2), prerelease = pre, build = build\<rparr>)"

section \<open>Comparison\<close>

definition compareIdentifiers :: "string \<Rightarrow> string \<Rightarrow> int" where
  "compareIdentifiers a b =
     (let aNum = is_numeric a; bNum = is_numeric b in
      if aNum \<and> \<not> bNum then -1
      else if \<not> aNum \<and> bNum then 1
      else if aNum \<and> bNum then
        (let left = js_number a; right = js_number b in
         if left = right then 0 else if left < right then -1 else 1)
      else if a = b then 0 else if a < b then -1 else 1)"

text \<open>The loop over the shared identifiers: the first verdict that is not 0.\<close>

fun first_verdict :: "(string \<times> string) list \<Rightarrow> int" where
  "first_verdict [] = 0"
| "first_verdict ((a, b) # ps) =
     (let verdict = compareIdentifiers a b in
      if verdict \<noteq> 0 then (if verdict < 0 then -1 else 1) else first_verdict ps)"

text \<open>The loop over the three numbers.\<close>

fun first_difference :: "(nat \<times> nat) list \<Rightarrow> int" where
  "first_difference [] = 0"
| "first_difference ((left, right) # ps) =
     (if left \<noteq> right then (if left < right then -1 else 1) else first_difference ps)"

definition compareSemver :: "semver \<Rightarrow> semver \<Rightarrow> int" where
  "compareSemver a b =
     (let d = first_difference [(major a, major b), (minor a, minor b), (patch a, patch b)] in
      if d \<noteq> 0 then d else
      let aPre = 0 < length (prerelease a); bPre = 0 < length (prerelease b) in
      if aPre \<noteq> bPre then (if aPre then -1 else 1)
      else if \<not> aPre then 0 else
      let v = first_verdict (zip (prerelease a) (prerelease b)) in
      if v \<noteq> 0 then v
      else if length (prerelease a) = length (prerelease b) then 0
      else if length (prerelease a) < length (prerelease b) then -1 else 1)"

definition compareVersionStrings :: "string \<Rightarrow> string \<Rightarrow> int option" where
  "compareVersionStrings a b =
     (case (parseSemver (Some a), parseSemver (Some b)) of
        (Some left, Some right) \<Rightarrow> Some (compareSemver left right)
      | _ \<Rightarrow> None)"

section \<open>The badge of an agent's version\<close>

datatype agent_version_state = Current | Outdated | Ahead | Unknown | Incompatible

record agent_version_input =
  agentVersion :: "string option"
  protocolVersion :: "int option"
  latest :: "string option"
  protocolVersionSupported :: int

definition agentVersionState :: "agent_version_input \<Rightarrow> agent_version_state" where
  "agentVersionState i =
     (let current = parseSemver (agentVersion i) in
      if protocolVersion i \<noteq> None \<and> protocolVersion i \<noteq> Some (protocolVersionSupported i)
      then Incompatible else
      let floor = parseSemver (Some MIN_SUPPORTED_AGENT) in
      if current \<noteq> None \<and> floor \<noteq> None \<and> compareSemver (the current) (the floor) < 0
      then Incompatible else
      case current of None \<Rightarrow> Unknown | Some cur \<Rightarrow>
      (case parseSemver (latest i) of None \<Rightarrow> Unknown | Some lat \<Rightarrow>
        let verdict = compareSemver cur lat in
        if verdict > 0 then Ahead else if verdict < 0 then Outdated else Current))"

section \<open>Specification: a linear order of precedences\<close>

text \<open>An identifier is a number or a word, and every number precedes every word.\<close>

datatype ident = Num nat | Word string

instantiation ident :: linorder
begin

fun less_ident :: "ident \<Rightarrow> ident \<Rightarrow> bool" where
  "less_ident (Num m) (Num n) = (m < n)"
| "less_ident (Num _) (Word _) = True"
| "less_ident (Word _) (Num _) = False"
| "less_ident (Word s) (Word t) = (s < t)"

definition less_eq_ident :: "ident \<Rightarrow> ident \<Rightarrow> bool" where
  "less_eq_ident x y = (x = y \<or> x < y)"

instance
proof
  fix x y z :: ident
  show "(x < y) = (x \<le> y \<and> \<not> y \<le> x)"
    by (cases x; cases y) (auto simp: less_eq_ident_def)
  show "x \<le> x" by (simp add: less_eq_ident_def)
  show "x \<le> z" if "x \<le> y" "y \<le> z"
    using that by (cases x; cases y; cases z) (auto simp: less_eq_ident_def)
  show "x = y" if "x \<le> y" "y \<le> x"
    using that by (cases x; cases y) (auto simp: less_eq_ident_def)
  show "x \<le> y \<or> y \<le> x"
    by (cases x; cases y) (auto simp: less_eq_ident_def)
qed

end

text \<open>A prerelease precedes the release it leads to.\<close>

datatype stage = Pre "ident list" | Release

instantiation stage :: linorder
begin

fun less_stage :: "stage \<Rightarrow> stage \<Rightarrow> bool" where
  "less_stage (Pre xs) (Pre ys) = (xs < ys)"
| "less_stage (Pre _) Release = True"
| "less_stage Release _ = False"

definition less_eq_stage :: "stage \<Rightarrow> stage \<Rightarrow> bool" where
  "less_eq_stage x y = (x = y \<or> x < y)"

instance
proof
  fix x y z :: stage
  show "(x < y) = (x \<le> y \<and> \<not> y \<le> x)"
    by (cases x; cases y) (auto simp: less_eq_stage_def)
  show "x \<le> x" by (simp add: less_eq_stage_def)
  show "x \<le> z" if "x \<le> y" "y \<le> z"
    using that by (cases x; cases y; cases z) (auto simp: less_eq_stage_def)
  show "x = y" if "x \<le> y" "y \<le> x"
    using that by (cases x; cases y) (auto simp: less_eq_stage_def)
  show "x \<le> y \<or> y \<le> x"
    by (cases x; cases y) (auto simp: less_eq_stage_def)
qed

end

definition ident_of :: "string \<Rightarrow> ident" where
  "ident_of s = (if is_numeric s then Num (js_number s) else Word s)"

definition precedence :: "semver \<Rightarrow> nat \<times> nat \<times> nat \<times> stage" where
  "precedence v = (major v, minor v, patch v,
     if prerelease v = [] then Release else Pre (map ident_of (prerelease v)))"

text \<open>The verdict of a linear order.\<close>

definition verdict_of :: "'a::linorder \<Rightarrow> 'a \<Rightarrow> int" where
  "verdict_of x y = (if x = y then 0 else if x < y then -1 else 1)"

lemma compareIdentifiers_verdict: "compareIdentifiers a b = verdict_of (ident_of a) (ident_of b)"
  by (auto simp: compareIdentifiers_def verdict_of_def ident_of_def Let_def)

lemma compare_pre_verdict:
  "(let v = first_verdict (zip xs ys) in
    if v \<noteq> 0 then v else if length xs = length ys then 0 else if length xs < length ys then -1 else 1)
   = verdict_of (map ident_of xs) (map ident_of ys)"
proof (induction xs ys rule: list_induct2')
  case (4 x xs y ys)
  then show ?case
    by (cases "ident_of x" "ident_of y" rule: linorder_cases)
      (auto simp: Let_def compareIdentifiers_verdict verdict_of_def split: if_splits)
qed (simp_all add: verdict_of_def)

lemma compareSemver_verdict: "compareSemver a b = verdict_of (precedence a) (precedence b)"
proof -
  have pre: "(let v = first_verdict (zip (prerelease a) (prerelease b)) in
      if v \<noteq> 0 then v else if length (prerelease a) = length (prerelease b) then 0
      else if length (prerelease a) < length (prerelease b) then -1 else 1)
     = verdict_of (Pre (map ident_of (prerelease a))) (Pre (map ident_of (prerelease b)))"
    by (subst compare_pre_verdict) (simp add: verdict_of_def)
  show ?thesis
    unfolding compareSemver_def precedence_def
    by (subst pre) (auto simp: verdict_of_def Let_def)
qed

interpretation versions: comparator compareSemver
proof
  fix a b c
  show "sgn (compareSemver a b) = - sgn (compareSemver b a)"
    by (auto simp: compareSemver_verdict verdict_of_def)
  assume "compareSemver a b \<le> 0" and "compareSemver b c \<le> 0"
  then have "precedence a \<le> precedence b" and "precedence b \<le> precedence c"
    by (auto simp: compareSemver_verdict verdict_of_def split: if_splits)
  then have "precedence a \<le> precedence c" by (rule order_trans)
  then show "compareSemver a c \<le> 0"
    by (auto simp: compareSemver_verdict verdict_of_def)
qed

section \<open>Printing and parsing\<close>

text \<open>The canonical text of a version, and the versions that have one.\<close>

definition show_semver :: "semver \<Rightarrow> string" where
  "show_semver v =
     js_join ''.'' [nat_str (major v), nat_str (minor v), nat_str (patch v)]
     @ (if prerelease v = [] then [] else CHR ''-'' # js_join ''.'' (prerelease v))
     @ (if build v = [] then [] else CHR ''+'' # js_join ''.'' (build v))"

definition wf_semver :: "semver \<Rightarrow> bool" where
  "wf_semver v =
     (major v < 2 ^ 53 \<and> minor v < 2 ^ 53 \<and> patch v < 2 ^ 53
      \<and> list_all is_identifier (prerelease v) \<and> list_all is_identifier (build v)
      \<and> list_all (\<lambda>id. all_digits id \<longrightarrow> is_numeric id) (prerelease v)
      \<and> length (show_semver v) \<le> 256)"

lemma set_js_join: "set (js_join [c] ws) \<subseteq> insert c (\<Union> (set ` set ws))"
  by (induction "[c]" ws rule: js_join.induct) auto

lemma identifier_no_char:
  "is_identifier s \<Longrightarrow> \<not> is_alnum c \<Longrightarrow> c \<noteq> CHR ''-'' \<Longrightarrow> c \<notin> set s"
  by (auto simp: is_identifier_def list_all_iff)

lemma joined_identifiers_no_char:
  "list_all is_identifier ws \<Longrightarrow> \<not> is_alnum c \<Longrightarrow> c \<noteq> CHR ''-'' \<Longrightarrow> c \<noteq> d
   \<Longrightarrow> c \<notin> set (js_join [d] ws)"
  using set_js_join [of d ws] identifier_no_char by (fastforce simp: list_all_iff)

lemma is_numeric_nat_str [simp]: "is_numeric (nat_str n)"
proof (cases "n = 0")
  case True
  then show ?thesis by (simp add: is_numeric_def nat_str.simps [of 0] digit_char_def char_of_eq_iff)
next
  case False
  then show ?thesis
    using nat_str_canonical [of n] nat_str_digits [of n] by (simp add: is_numeric_def list_all_iff)
qed

lemma separators_not_alnum [simp]:
  "\<not> is_alnum CHR ''.''" "\<not> is_alnum CHR ''+''" "\<not> is_alnum CHR ''-''"
  "\<not> is_digit CHR ''.''" "\<not> is_digit CHR ''+''" "\<not> is_digit CHR ''-''"
  by (simp_all add: js_string_defs)

lemma split_identifiers:
  "list_all is_identifier ws \<Longrightarrow> ws \<noteq> [] \<Longrightarrow> js_split CHR ''.'' (js_join ''.'' ws) = ws"
  by (rule js_split_join) (auto simp: list_all_iff identifier_no_char)

lemma parse_show:
  assumes "wf_semver v"
  shows "parseSemver (Some (show_semver v)) = Some v"
proof -
  define core where "core = js_join ''.'' [nat_str (major v), nat_str (minor v), nat_str (patch v)]"
  define rest where
    "rest = core @ (if prerelease v = [] then [] else CHR ''-'' # js_join ''.'' (prerelease v))"
  have core_chars: "CHR ''-'' \<notin> set core" "CHR ''+'' \<notin> set core"
    by (auto simp: core_def)
  have split_core: "js_split CHR ''.'' core = [nat_str (major v), nat_str (minor v), nat_str (patch v)]"
    unfolding core_def by (rule js_split_join) auto
  have rest_chars: "CHR ''+'' \<notin> set rest"
    using assms core_chars joined_identifiers_no_char [of "prerelease v" "CHR ''+''" "CHR ''.''"]
    by (auto simp: rest_def wf_semver_def)
  have shown: "show_semver v = rest @ (if build v = [] then [] else CHR ''+'' # js_join ''.'' (build v))"
    by (simp add: show_semver_def rest_def core_def)
  have len: "0 < length (show_semver v)" "length (show_semver v) \<le> 256"
    using assms by (auto simp: wf_semver_def shown rest_def core_def)
  have plus: "index_of (show_semver v) CHR ''+'' = (if build v = [] then index_of rest CHR ''+'' else int (length rest))"
    using rest_chars by (simp add: shown js_simps)
  have dash: "index_of rest CHR ''-'' = (if prerelease v = [] then index_of core CHR ''-'' else int (length core))"
    using core_chars by (simp add: rest_def js_simps)
  have wf: "list_all is_identifier (prerelease v)" "list_all is_identifier (build v)"
    "\<not> list_ex (\<lambda>id. all_digits id \<and> \<not> is_numeric id) (prerelease v)"
    "major v < 2 ^ 53" "minor v < 2 ^ 53" "patch v < 2 ^ 53"
    using assms by (auto simp: wf_semver_def list_all_iff list_ex_iff)
  have neg: "index_of rest CHR ''+'' < 0" "index_of core CHR ''-'' < 0"
    using rest_chars core_chars by (simp_all add: js_simps)
  have build_part: "(if 0 \<le> index_of (show_semver v) CHR ''+''
      then js_split CHR ''.'' (drop (nat (index_of (show_semver v) CHR ''+'') + 1) (show_semver v)) else [])
     = build v"
    using neg wf(2) by (simp add: plus) (simp add: shown split_identifiers)
  have rest_part: "(if 0 \<le> index_of (show_semver v) CHR ''+''
      then take (nat (index_of (show_semver v) CHR ''+'')) (show_semver v) else show_semver v) = rest"
    using neg by (simp add: plus) (simp add: shown)
  have pre_part: "(if 0 \<le> index_of rest CHR ''-''
      then js_split CHR ''.'' (drop (nat (index_of rest CHR ''-'') + 1) rest) else []) = prerelease v"
    using neg wf(1) by (simp add: dash) (simp add: rest_def split_identifiers)
  have core_part: "(if 0 \<le> index_of rest CHR ''-'' then take (nat (index_of rest CHR ''-'')) rest else rest)
     = core"
    using neg by (simp add: dash) (simp add: rest_def)
  show ?thesis
    unfolding parseSemver_def option.case Let_def rest_part build_part pre_part core_part split_core
    using len wf by (simp add: js_number_def)
qed

interpretation version_text: codec show_semver "\<lambda>s. parseSemver (Some s)" wf_semver
  by unfold_locales (rule parse_show)

lemma precedence_build: "precedence (v\<lparr>build := bs\<rparr>) = precedence v"
  by (simp add: precedence_def)

lemma compareSemver_sign:
  "compareSemver a b < 0 \<longleftrightarrow> precedence a < precedence b"
  "compareSemver a b = 0 \<longleftrightarrow> precedence a = precedence b"
  "compareSemver a b > 0 \<longleftrightarrow> precedence b < precedence a"
  by (auto simp: compareSemver_verdict verdict_of_def)

section \<open>The floor\<close>

lemmas parse_eval = parseSemver_def js_string_defs is_numeric_def is_identifier_def all_digits_def
  js_number_def nat_of_str_def digit_val_def Let_def

lemma floor_parses:
  "parseSemver (Some MIN_SUPPORTED_AGENT) =
     Some \<lparr>major = 0, minor = 1, patch = 0, prerelease = [''0''], build = []\<rparr>"
  by (simp add: MIN_SUPPORTED_AGENT_def parse_eval)

text \<open>No identifier precedes the number 0, so \<open>x.y.z-0\<close> is the lowest version of \<open>x.y.z\<close>.\<close>

lemma Pre_zero_least: "ids \<noteq> [] \<Longrightarrow> \<not> Pre ids < Pre [Num 0]"
proof (cases ids)
  case (Cons i js)
  then show "\<not> Pre ids < Pre [Num 0]" by (cases i) auto
qed simp

lemma below_floor_iff:
  "compareSemver v (the (parseSemver (Some MIN_SUPPORTED_AGENT))) < 0
   \<longleftrightarrow> (major v, minor v, patch v) < (0, 1, 0)"
  using Pre_zero_least [of "map ident_of (prerelease v)"]
  by (auto simp: floor_parses compareSemver_sign precedence_def ident_of_def is_numeric_def js_number_def
      nat_of_str_def digit_val_def)

section \<open>Properties\<close>

text \<open>
  C35 (\<open>compareSemver_is_precedence_order\<close>): the comparison of two versions is the verdict of
  one linear order: major, minor and patch numbers first, a prerelease below the release it leads
  to, prereleases by their identifiers with numbers below words and a longer list above its own
  prefix. Build metadata never take part.
\<close>

theorem compareSemver_is_precedence_order:
  "compareSemver a b =
     (if precedence a = precedence b then 0 else if precedence a < precedence b then -1 else 1)
   \<and> compareSemver (a\<lparr>build := bs\<rparr>) (b\<lparr>build := cs\<rparr>) = compareSemver a b"
  by (simp only: compareSemver_verdict verdict_of_def precedence_build)

text \<open>
  Parsing the canonical text of a well-formed version of at
  most 256 characters gives back exactly that version, build metadata included.
\<close>

theorem parse_show_roundtrip:
  assumes "wf_semver v"
  shows "parseSemver (Some (show_semver v)) = Some v"
  using assms by (rule version_text.dec_enc)

theorem parse_show_roundtrip_witness:
  "parseSemver (Some ''1.0.12-rc.1+g1a'') =
     Some \<lparr>major = 1, minor = 0, patch = 12, prerelease = [''rc'', ''1''], build = [''g1a'']\<rparr>"
proof -
  let ?v = "\<lparr>major = 1, minor = 0, patch = 12, prerelease = [''rc'', ''1''], build = [''g1a'']\<rparr>"
  have "show_semver ?v = ''1.0.12-rc.1+g1a''"
    by (simp add: show_semver_def nat_str.simps digit_char_def char_of_eq_iff)
  moreover from this have "wf_semver ?v"
    by (simp add: wf_semver_def parse_eval)
  ultimately show ?thesis using parse_show_roundtrip [of ?v] by simp
qed

text \<open>
  An agent whose version parses is \<open>Incompatible\<close> exactly
  when it speaks another protocol version or its numbers are below 0.1.0 (so every prerelease of
  0.1.0 is admitted); otherwise the badge is the verdict of the precedence order against the newest
  published build, and \<open>Unknown\<close> when none is published.
\<close>

theorem agent_badge_spec:
  assumes "parseSemver (agentVersion i) = Some cur"
  shows "agentVersionState i =
    (if (protocolVersion i \<noteq> None \<and> protocolVersion i \<noteq> Some (protocolVersionSupported i))
        \<or> (major cur, minor cur, patch cur) < (0, 1, 0) then Incompatible
     else case parseSemver (latest i) of None \<Rightarrow> Unknown
       | Some lat \<Rightarrow> if precedence cur = precedence lat then Current
           else if precedence cur < precedence lat then Outdated else Ahead)"
  using assms below_floor_iff [of cur]
  by (auto simp: agentVersionState_def Let_def floor_parses compareSemver_sign split: option.splits)

theorem agent_badge_spec_witness:
  "agentVersionState \<lparr>agentVersion = Some ''0.1.0-dev.3+g1'', protocolVersion = Some 1,
     latest = Some ''0.1.0'', protocolVersionSupported = 1\<rparr> = Outdated"
proof -
  have v: "parseSemver (Some ''0.1.0-dev.3+g1'') =
      Some \<lparr>major = 0, minor = 1, patch = 0, prerelease = [''dev'', ''3''], build = [''g1'']\<rparr>"
    by (simp add: parse_eval)
  have l: "parseSemver (Some ''0.1.0'') =
      Some \<lparr>major = 0, minor = 1, patch = 0, prerelease = [], build = []\<rparr>"
    by (simp add: parse_eval)
  show ?thesis
    by (subst agent_badge_spec [OF trans [OF _ v]]) (simp_all add: l precedence_def)
qed

end
