(* ===== verification/Slots.thy ===== *)
theory Slots
  imports Ordering
begin

text \<open>
  \<^verbatim>\<open>packages/core/src/terminal-grid.ts\<close>, its first half: what a cell of the terminal grid points
  at, the personal label and tags of a cell, how a cell follows a live session, and the wire
  target a cell opens.
\<close>

section \<open>Modes, cells and the fleet\<close>

datatype grid_mode = Tab | Split2 | Split4 | Split9

fun GRID_SIZE :: "grid_mode \<Rightarrow> nat" where
  "GRID_SIZE Tab = 1"
| "GRID_SIZE Split2 = 2"
| "GRID_SIZE Split4 = 4"
| "GRID_SIZE Split9 = 9"

fun GRID_COLUMNS :: "grid_mode \<Rightarrow> nat" where
  "GRID_COLUMNS Tab = 1"
| "GRID_COLUMNS Split2 = 2"
| "GRID_COLUMNS Split4 = 2"
| "GRID_COLUMNS Split9 = 3"

lemma GRID_SIZE_pos [simp]: "0 < GRID_SIZE m" "GRID_SIZE m \<noteq> 0" "Suc 0 \<le> GRID_SIZE m"
  by (cases m; simp)+

datatype slot_kind = Attach | NewSession | Shell
datatype backend = Native | Tmux
datatype intent = Create | AttachTo | Ensure

record terminal_tag =
  tag_name :: string
  tag_color :: string
  tag_text :: "string option"

text \<open>\<open>tags\<close> is absent exactly when the list is empty.\<close>

record presentation =
  p_label :: "string option"
  p_tags :: "terminal_tag list"

record terminal_slot =
  s_id :: string
  s_host :: string
  s_kind :: slot_kind
  s_session :: "string option"
  s_backend :: "backend option"
  s_sessionId :: "string option"
  s_tmuxId :: "string option"
  s_intent :: "intent option"
  s_label :: "string option"
  s_tags :: "terminal_tag list"

type_synonym grid_cell = "terminal_slot option"

text \<open>The fields of a live session and of a host that the grid reads.\<close>

record grid_session =
  gs_backend :: "backend option"
  gs_sessionId :: "string option"
  gs_tmuxId :: "string option"
  gs_name :: string
  gs_previous :: "string list"

record grid_host =
  h_id :: string
  h_name :: string
  h_online :: bool
  h_native :: bool
  h_sessions :: "grid_session list"
  h_update :: "(string \<times> string option) option"

section \<open>Label and tags\<close>

definition TERMINAL_LABEL_MAX :: nat where "TERMINAL_LABEL_MAX = 64"
definition TERMINAL_TAG_NAME_MAX :: nat where "TERMINAL_TAG_NAME_MAX = 32"
definition TERMINAL_TAGS_MAX :: nat where "TERMINAL_TAGS_MAX = 6"

text \<open>The characters removed from a label: \<open>[\u0000-\u001f\u007f]\<close>.\<close>

definition is_control :: "char \<Rightarrow> bool" where
  "is_control c = (code c < 32 \<or> code c = 127)"

definition clean_text :: "jsval \<Rightarrow> nat \<Rightarrow> string" where
  "clean_text v mx =
     (case as_string v of Some s \<Rightarrow> take mx (js_trim (filter (\<lambda>c. \<not> is_control c) s)) | None \<Rightarrow> [])"

text \<open>\<open>/^#[0-9a-f]{6}$/i\<close>.\<close>

definition is_color :: "string \<Rightarrow> bool" where
  "is_color s = (length s = 7 \<and> hd s = CHR ''#'' \<and> list_all is_hex (tl s))"

definition color_of :: "jsval \<Rightarrow> string option" where
  "color_of v = (case as_string v of Some s \<Rightarrow> if is_color s then Some (to_lower s) else None | None \<Rightarrow> None)"

text \<open>One turn of the loop over the tags: the tag an item stands for, if it is usable.\<close>

definition tag_of :: "jsval \<Rightarrow> terminal_tag option" where
  "tag_of item =
     (if \<not> is_object item then None else
      let name = clean_text (js_get item ''name'') TERMINAL_TAG_NAME_MAX in
      case color_of (js_get item ''color'') of None \<Rightarrow> None
      | Some color \<Rightarrow> if name = [] then None
          else Some \<lparr>tag_name = name, tag_color = color, tag_text = color_of (js_get item ''textColor'')\<rparr>)"

definition same_tag :: "terminal_tag \<Rightarrow> terminal_tag \<Rightarrow> bool" where
  "same_tag a b = (tag_name a = tag_name b \<and> tag_color a = tag_color b)"

fun collect_tags :: "jsval list \<Rightarrow> terminal_tag list \<Rightarrow> terminal_tag list" where
  "collect_tags [] tags = tags"
| "collect_tags (item # items) tags =
     (case tag_of item of None \<Rightarrow> collect_tags items tags
      | Some tag \<Rightarrow>
          let tags = (if list_ex (same_tag tag) tags then tags else tags @ [tag]) in
          if length tags = TERMINAL_TAGS_MAX then tags else collect_tags items tags)"

definition normalizeTerminalPresentation :: "jsval \<Rightarrow> presentation" where
  "normalizeTerminalPresentation raw =
     (if \<not> is_object raw then \<lparr>p_label = None, p_tags = []\<rparr> else
      let label = clean_text (js_get raw ''label'') TERMINAL_LABEL_MAX in
      \<lparr>p_label = (if label = [] then None else Some label),
       p_tags = (case as_array (js_get raw ''tags'') of
           Some items \<Rightarrow> collect_tags items [] | None \<Rightarrow> [])\<rparr>)"

section \<open>Following a live session\<close>

definition host_of :: "grid_host list \<Rightarrow> string \<Rightarrow> grid_host option" where
  "host_of hosts hostId = List.find (\<lambda>h. h_id h = hostId) hosts"

definition sessions_of :: "grid_host list \<Rightarrow> string \<Rightarrow> grid_session list" where
  "sessions_of hosts hostId = (case host_of hosts hostId of Some h \<Rightarrow> h_sessions h | None \<Rightarrow> [])"

definition resolveSessionSlot :: "terminal_slot \<Rightarrow> grid_host list \<Rightarrow> terminal_slot" where
  "resolveSessionSlot slot hosts =
     (if s_kind slot = Shell then slot else
      let sessions = sessions_of hosts (s_host slot) in
      if s_backend slot = Some Native then
        (case (if truthy (s_sessionId slot)
               then List.find (\<lambda>g. gs_backend g = Some Native \<and> gs_sessionId g = s_sessionId slot) sessions
               else None) of
           Some live \<Rightarrow>
             if Some (gs_name live) \<noteq> s_session slot then slot\<lparr>s_session := Some (gs_name live)\<rparr> else slot
         | None \<Rightarrow> slot)
      else if truthy (s_tmuxId slot) then
        (case List.find (\<lambda>g. gs_backend g \<noteq> Some Native \<and> gs_tmuxId g = s_tmuxId slot) sessions of
           Some renamed \<Rightarrow>
             if Some (gs_name renamed) \<noteq> s_session slot \<and> truthy (s_session slot)
               \<and> the (s_session slot) \<in> set (gs_previous renamed)
             then slot\<lparr>s_session := Some (gs_name renamed)\<rparr> else slot
         | None \<Rightarrow> slot)
      else
        (case List.find (\<lambda>g. gs_backend g \<noteq> Some Native \<and> Some (gs_name g) = s_session slot) sessions of
           Some live \<Rightarrow> if truthy (gs_tmuxId live) then slot\<lparr>s_tmuxId := gs_tmuxId live\<rparr> else slot
         | None \<Rightarrow> slot))"

text \<open>The two maps over the slots of a layout that a session's identity changes.\<close>

definition adopt_slot :: "string \<Rightarrow> string \<Rightarrow> terminal_slot \<Rightarrow> terminal_slot" where
  "adopt_slot slotId sessionId slot =
     (if s_id slot \<noteq> slotId \<or> s_kind slot = Shell then slot
      else if s_backend slot = Some Native \<and> s_sessionId slot = Some sessionId \<and> s_kind slot = Attach
        \<and> s_intent slot = Some AttachTo \<and> \<not> truthy (s_tmuxId slot) then slot
      else slot\<lparr>s_kind := Attach, s_backend := Some Native, s_sessionId := Some sessionId,
        s_tmuxId := None, s_intent := Some AttachTo\<rparr>)"

record rename_target =
  rt_sessionId :: "string option"
  rt_tmuxId :: "string option"

definition rename_slot :: "string \<Rightarrow> rename_target \<Rightarrow> string \<Rightarrow> terminal_slot \<Rightarrow> terminal_slot" where
  "rename_slot hostId target name slot =
     (if s_host slot \<noteq> hostId \<or> s_kind slot = Shell \<or> s_session slot = Some name then slot
      else let same = (if truthy (rt_sessionId target)
             then s_backend slot = Some Native \<and> s_sessionId slot = rt_sessionId target
             else truthy (rt_tmuxId target) \<and> s_backend slot \<noteq> Some Native
               \<and> s_tmuxId slot = rt_tmuxId target)
        in if same then slot\<lparr>s_session := Some name\<rparr> else slot)"

section \<open>Slot identity\<close>

text \<open>
  \<open>/^s(\d+)$/\<close> and the number of its digits; the number printed back is exact below \<open>10^21\<close>,
  and \<open>max + 1\<close> is rounded to a double like every sum.
\<close>

definition id_number :: "string \<Rightarrow> nat option" where
  "id_number i = (case i of c # ds \<Rightarrow>
       if c = CHR ''s'' \<and> ds \<noteq> [] \<and> list_all is_digit ds then Some (js_number ds) else None
     | [] \<Rightarrow> None)"

fun max_id :: "grid_cell list \<Rightarrow> nat \<Rightarrow> nat" where
  "max_id [] mx = mx"
| "max_id (cell # cells) mx =
     max_id cells (case cell of None \<Rightarrow> mx
       | Some slot \<Rightarrow> (case id_number (s_id slot) of None \<Rightarrow> mx | Some n \<Rightarrow> max mx n))"

definition nextSlotId :: "grid_cell list \<Rightarrow> string" where
  "nextSlotId slots = CHR ''s'' # nat_str (dbl (max_id slots 0 + 1))"

definition slotIdentityLabel :: "terminal_slot \<Rightarrow> string \<Rightarrow> string \<Rightarrow> string" where
  "slotIdentityLabel slot hostName shellWord =
     hostName @ [char_of (183::nat)] @ (if s_kind slot = Shell then shellWord
       else case s_session slot of Some n \<Rightarrow> n | None \<Rightarrow> [])"

definition slotLabel :: "terminal_slot \<Rightarrow> string \<Rightarrow> string \<Rightarrow> string" where
  "slotLabel slot hostName shellWord =
     (if truthy (s_label slot) then the (s_label slot) else slotIdentityLabel slot hostName shellWord)"

definition slotAgentUpdate :: "terminal_slot \<Rightarrow> grid_host list \<Rightarrow> (string \<times> string option) option" where
  "slotAgentUpdate slot hosts = (case host_of hosts (s_host slot) of Some h \<Rightarrow> h_update h | None \<Rightarrow> None)"

definition isSlotReachable :: "terminal_slot \<Rightarrow> grid_host list \<Rightarrow> bool" where
  "isSlotReachable slot hosts = list_ex (\<lambda>h. h_id h = s_host slot \<and> h_online h) hosts"

section \<open>Wire targets\<close>

datatype target_kind = TSession | TShell

record protocol_target =
  t_kind :: target_kind
  t_session :: "string option"
  t_backend :: "backend option"
  t_sessionId :: "string option"
  t_tmuxId :: "string option"
  t_intent :: "intent option"

definition shell_target :: protocol_target where
  "shell_target = \<lparr>t_kind = TShell, t_session = None, t_backend = None, t_sessionId = None,
     t_tmuxId = None, t_intent = None\<rparr>"

text \<open>\<open>/^[A-Za-z0-9_-]{1,32}$/\<close>.\<close>

definition target_session_name :: "string \<Rightarrow> bool" where
  "target_session_name s = (1 \<le> length s \<and> length s \<le> 32
     \<and> list_all (\<lambda>c. is_alnum c \<or> c = CHR ''_'' \<or> c = CHR ''-'') s)"

definition toProtocolTarget :: "terminal_slot \<Rightarrow> protocol_target" where
  "toProtocolTarget slot =
     (if s_kind slot = Shell then shell_target
      else if truthy (s_tmuxId slot) then
        shell_target\<lparr>t_kind := TSession, t_backend := Some Tmux, t_tmuxId := s_tmuxId slot,
          t_session := (if truthy (s_session slot) \<and> target_session_name (the (s_session slot))
            then s_session slot else None)\<rparr>
      else let target = shell_target\<lparr>t_kind := TSession,
             t_session := Some (case s_session slot of Some n \<Rightarrow> n | None \<Rightarrow> ''main''),
             t_backend := s_backend slot\<rparr>
        in if truthy (s_sessionId slot)
           then target\<lparr>t_sessionId := s_sessionId slot, t_intent := Some AttachTo\<rparr>
           else if s_backend slot = Some Native
           then target\<lparr>t_intent := Some (case s_intent slot of Some i \<Rightarrow> i
             | None \<Rightarrow> if s_kind slot = NewSession then Create else AttachTo)\<rparr>
           else target)"

definition missingSessionTarget :: "terminal_slot \<Rightarrow> protocol_target option" where
  "missingSessionTarget slot =
     (if s_kind slot = Shell \<or> s_backend slot \<noteq> Some Native \<or> \<not> truthy (s_session slot)
        \<or> \<not> target_session_name (the (s_session slot)) then None
      else Some (shell_target\<lparr>t_kind := TSession, t_session := s_session slot,
        t_backend := Some Native, t_intent := Some Ensure\<rparr>))"

section \<open>Session names and default arrangements\<close>

definition session_names :: "grid_host list \<Rightarrow> string \<Rightarrow> string list" where
  "session_names hosts hostId = map gs_name (sessions_of hosts hostId)"

definition w_name :: "nat \<Rightarrow> string" where
  "w_name i = CHR ''w'' # nat_str i"

text \<open>The unbounded search of \<open>nextSessionName\<close>; \<open>nextSessionName_least\<close> shows that
  one try more than there are used names always finds a free one.\<close>

fun first_free :: "nat \<Rightarrow> string list \<Rightarrow> nat \<Rightarrow> string" where
  "first_free 0 used i = w_name i"
| "first_free (Suc fuel) used i = (if w_name i \<notin> set used then w_name i else first_free fuel used (Suc i))"

definition nextSessionName :: "grid_host list \<Rightarrow> string \<Rightarrow> string list \<Rightarrow> string" where
  "nextSessionName hosts hostId taken =
     (let used = session_names hosts hostId @ taken in first_free (length used) used 1)"

text \<open>\<open>count\<close> and \<open>prefer\<close> are \<open>None\<close> where the option is not usable.\<close>

definition starterCells :: "grid_host list \<Rightarrow> int option \<Rightarrow> string option \<Rightarrow> grid_cell list" where
  "starterCells hosts optCount optPrefer =
     (let count = (case optCount of Some n \<Rightarrow> if 0 \<le> n then nat n else 4 | None \<Rightarrow> 4);
          prefer = (if truthy optPrefer then the optPrefer else ''main'');
          first = (case List.find h_online hosts of None \<Rightarrow> None
            | Some host \<Rightarrow> (case List.find (\<lambda>g. gs_name g = prefer) (h_sessions host) of None \<Rightarrow> None
              | Some joined \<Rightarrow> Some \<lparr>s_id = nextSlotId [], s_host = h_id host, s_kind = Attach,
                  s_session = Some prefer, s_backend = gs_backend joined,
                  s_sessionId = (if truthy (gs_sessionId joined) then gs_sessionId joined else None),
                  s_tmuxId = (if truthy (gs_tmuxId joined) then gs_tmuxId joined else None),
                  s_intent = None, s_label = None, s_tags = []\<rparr>))
      in map (\<lambda>index. if index = 0 then first else None) [0..<count])"

definition main_first :: "string cmp \<Rightarrow> grid_session cmp" where
  "main_first lc a b =
     (if gs_name a = ''main'' then -1 else if gs_name b = ''main'' then 1 else lc (gs_name a) (gs_name b))"

text \<open>The cells of one host: its live sessions, then \<open>pad\<close> spare new sessions.\<close>

definition attach_cell :: "nat \<Rightarrow> string \<Rightarrow> grid_session \<Rightarrow> terminal_slot" where
  "attach_cell sq hostId g = \<lparr>s_id = CHR ''s'' # nat_str sq, s_host = hostId, s_kind = Attach,
     s_session = Some (gs_name g), s_backend = gs_backend g,
     s_sessionId = (if truthy (gs_sessionId g) then gs_sessionId g else None),
     s_tmuxId = (if truthy (gs_tmuxId g) then gs_tmuxId g else None),
     s_intent = None, s_label = None, s_tags = []\<rparr>"

fun spare_cells :: "grid_host list \<Rightarrow> grid_host \<Rightarrow> nat \<Rightarrow> nat \<Rightarrow> string list \<Rightarrow> grid_cell list" where
  "spare_cells hosts host 0 sq taken = []"
| "spare_cells hosts host (Suc pad) sq taken =
     (let session = nextSessionName hosts (h_id host) taken in
      Some \<lparr>s_id = CHR ''s'' # nat_str sq, s_host = h_id host, s_kind = NewSession,
        s_session = Some session, s_backend = (if h_native host then Some Native else None),
        s_sessionId = None, s_tmuxId = None, s_intent = None, s_label = None, s_tags = []\<rparr>
      # spare_cells hosts host pad (Suc sq) (taken @ [session]))"

fun host_cells :: "string cmp \<Rightarrow> grid_host list \<Rightarrow> nat \<Rightarrow> string \<Rightarrow> grid_host list \<Rightarrow> nat \<Rightarrow> grid_cell list" where
  "host_cells lc hosts pad skip [] sq = []"
| "host_cells lc hosts pad skip (host # rest) sq =
     (if \<not> h_online host then host_cells lc hosts pad skip rest sq else
      let live = js_sort (main_first lc)
            (filter (\<lambda>g. \<not> (skip \<noteq> [] \<and> starts_with (gs_name g) skip)) (h_sessions host));
          attached = map (\<lambda>(i, g). Some (attach_cell i (h_id host) g)) (enumerate sq live);
          spare = spare_cells hosts host pad (sq + length live) []
      in attached @ spare @ host_cells lc hosts pad skip rest (sq + length live + pad))"

definition buildDefaultSlots ::
  "string cmp \<Rightarrow> grid_host list \<Rightarrow> int option \<Rightarrow> string option \<Rightarrow> grid_cell list" where
  "buildDefaultSlots lc hosts optPad optSkip =
     (let pad = (case optPad of Some n \<Rightarrow> nat n | None \<Rightarrow> 2);
          skip = (case optSkip of Some s \<Rightarrow> s | None \<Rightarrow> [])
      in host_cells lc hosts pad skip (js_sort (\<lambda>a b. lc (h_name a) (h_name b)) hosts) 1)"

section \<open>Properties\<close>

lemma w_name_inject [simp]: "w_name i = w_name j \<longleftrightarrow> i = j"
  by (simp add: w_name_def)

lemma first_free_spec:
  assumes "j \<in> {i..i + fuel}" and "w_name j \<notin> set used"
  shows "\<exists>n \<ge> i. first_free fuel used i = w_name n \<and> w_name n \<notin> set used
    \<and> (\<forall>m \<in> {i..<n}. w_name m \<in> set used)"
  using assms
proof (induction fuel arbitrary: i)
  case (Suc fuel)
  show ?case
  proof (cases "w_name i \<in> set used")
    case True
    then have "j \<in> {Suc i..Suc i + fuel}"
      using Suc.prems by (auto simp: Suc_le_eq le_less)
    from Suc.IH [OF this Suc.prems(2)] obtain n where n: "n \<ge> Suc i"
      "first_free fuel used (Suc i) = w_name n" "w_name n \<notin> set used"
      "\<forall>m \<in> {Suc i..<n}. w_name m \<in> set used" by blast
    moreover have "m \<in> {i..<n} \<Longrightarrow> w_name m \<in> set used" for m
      using True n(4) by (cases "m = i") auto
    ultimately show ?thesis using True by (intro exI [of _ n]) auto
  qed (auto intro!: exI [of _ i])
qed (auto intro!: exI [of _ i])

text \<open>Among one more names than there are used ones, one is free.\<close>

lemma free_name_exists: "\<exists>j \<in> {i..i + length used}. w_name j \<notin> set used"
proof (rule ccontr)
  assume "\<not> ?thesis"
  then have "w_name ` {i..i + length used} \<subseteq> set used" by auto
  then have "card (w_name ` {i..i + length used}) \<le> card (set used)" by (rule card_mono [rotated]) simp
  moreover have "card (w_name ` {i..i + length used}) = Suc (length used)"
    by (subst card_image) (auto simp: inj_on_def)
  ultimately show False using card_length [of used] by simp
qed

text \<open>
  The search for a session name ends, and its answer is the
  lowest \<open>w<N>\<close>, counting from 1, that no live session of the host and no taken name has.
\<close>

theorem nextSessionName_least:
  "\<exists>n \<ge> 1. nextSessionName hosts hostId taken = w_name n
    \<and> w_name n \<notin> set (session_names hosts hostId) \<union> set taken
    \<and> {w_name m |m. 1 \<le> m \<and> m < n} \<subseteq> set (session_names hosts hostId) \<union> set taken"
proof -
  let ?used = "session_names hosts hostId @ taken"
  obtain j where "j \<in> {1..1 + length ?used}" "w_name j \<notin> set ?used"
    using free_name_exists [of 1 ?used] by blast
  from first_free_spec [OF this] obtain n where n: "n \<ge> 1" "first_free (length ?used) ?used 1 = w_name n"
    "w_name n \<notin> set ?used" "\<forall>m \<in> {1..<n}. w_name m \<in> set ?used" by blast
  then have "{w_name m |m. 1 \<le> m \<and> m < n} \<subseteq> set ?used" by auto
  with n show ?thesis by (intro exI [of _ n]) (simp add: nextSessionName_def Let_def)
qed

text \<open>
  Following a live session never changes the identity
  of a saved slot that has one: its host, kind, engine, native UUID and tmux id stay, and only the
  name may change. A saved tmux slot takes a new name only from a live session with its id that
  lists its saved name among the names it was renamed from.
\<close>

theorem resolveSessionSlot_same_identity:
  assumes "truthy (s_tmuxId slot) \<or> s_backend slot = Some Native"
  shows "\<exists>name. resolveSessionSlot slot hosts = slot\<lparr>s_session := name\<rparr>
    \<and> (name = s_session slot \<or>
      (\<exists>live \<in> set (sessions_of hosts (s_host slot)). name = Some (gs_name live)
        \<and> (if s_backend slot = Some Native
           then gs_backend live = Some Native \<and> gs_sessionId live = s_sessionId slot \<and> truthy (s_sessionId slot)
           else gs_backend live \<noteq> Some Native \<and> gs_tmuxId live = s_tmuxId slot
             \<and> the (s_session slot) \<in> set (gs_previous live))))"
proof -
  have same: "slot = slot\<lparr>s_session := s_session slot\<rparr>" by simp
  show ?thesis
  proof (cases "resolveSessionSlot slot hosts = slot")
    case True
    then show ?thesis using same by metis
  next
    case False
    then show ?thesis using assms
      by (fastforce simp: resolveSessionSlot_def Let_def dest: find_Some_in split: if_splits option.splits)
  qed
qed

theorem resolveSessionSlot_same_identity_witness:
  "resolveSessionSlot
     \<lparr>s_id = ''s1'', s_host = ''h'', s_kind = Attach, s_session = Some ''old'', s_backend = Some Tmux,
      s_sessionId = None, s_tmuxId = Some ''$0'', s_intent = None, s_label = None, s_tags = []\<rparr>
     [\<lparr>h_id = ''h'', h_name = ''h'', h_online = True, h_native = False, h_sessions =
        [\<lparr>gs_backend = Some Tmux, gs_sessionId = None, gs_tmuxId = Some ''$0'', gs_name = ''other'', gs_previous = []\<rparr>],
       h_update = None\<rparr>] =
     \<lparr>s_id = ''s1'', s_host = ''h'', s_kind = Attach, s_session = Some ''old'', s_backend = Some Tmux,
      s_sessionId = None, s_tmuxId = Some ''$0'', s_intent = None, s_label = None, s_tags = []\<rparr>"
  (is "resolveSessionSlot ?s ?h = _")
proof -
  have "truthy (s_tmuxId ?s) \<or> s_backend ?s = Some Native" by simp
  then obtain name where r: "resolveSessionSlot ?s ?h = ?s\<lparr>s_session := name\<rparr>"
    and n: "name = s_session ?s \<or>
      (\<exists>live \<in> set (sessions_of ?h (s_host ?s)). name = Some (gs_name live)
        \<and> (if s_backend ?s = Some Native
           then gs_backend live = Some Native \<and> gs_sessionId live = s_sessionId ?s \<and> truthy (s_sessionId ?s)
           else gs_backend live \<noteq> Some Native \<and> gs_tmuxId live = s_tmuxId ?s
             \<and> the (s_session ?s) \<in> set (gs_previous live)))"
    using resolveSessionSlot_same_identity [of ?s ?h] by blast
  from n have "name = Some ''old''" by (auto simp: sessions_of_def host_of_def)
  with r show ?thesis by simp
qed

end
