(* ===== verification/Cards.thy ===== *)
theory Cards
  imports Ordering "HOL-Library.AList"
begin

text \<open>
  \<^verbatim>\<open>packages/core/src/cards.ts\<close>: which widgets a host card shows, whether it is open, and its
  place in the column. A \<open>CardPrefsMap\<close> is an association list from host id to record, in
  the order of the object's keys; writing a key replaces its record in place or appends it.
\<close>

section \<open>Records and their defaults\<close>

datatype card_widget = Agents | Resources | Links

definition CARD_WIDGETS :: "card_widget list" where
  "CARD_WIDGETS = [Agents, Resources, Links]"

fun widget_of_string :: "string \<Rightarrow> card_widget option" where
  "widget_of_string s =
     (if s = ''agents'' then Some Agents else if s = ''resources'' then Some Resources
      else if s = ''links'' then Some Links else None)"

record card_prefs =
  agents :: bool
  resources :: bool
  links :: bool

record card_record =
  c_agents :: "bool option"
  c_resources :: "bool option"
  c_links :: "bool option"
  c_open :: "bool option"
  c_order :: "jsnum option"

type_synonym card_map = "(string \<times> card_record) list"

definition no_card :: card_record where
  "no_card = \<lparr>c_agents = None, c_resources = None, c_links = None, c_open = None, c_order = None\<rparr>"

definition DEFAULT_CARDS :: card_prefs where
  "DEFAULT_CARDS = \<lparr>agents = True, resources = True, links = False\<rparr>"

definition stored :: "card_map \<Rightarrow> string \<Rightarrow> card_record" where
  "stored m hostId = (case map_of m hostId of Some saved \<Rightarrow> saved | None \<Rightarrow> no_card)"

definition or_default :: "'a option \<Rightarrow> 'a \<Rightarrow> 'a" where
  "or_default v d = (case v of Some x \<Rightarrow> x | None \<Rightarrow> d)"

lemma or_default_simps [simp]: "or_default None d = d" "or_default (Some x) d = x"
  by (simp_all add: or_default_def)

definition cardPrefs :: "card_map \<Rightarrow> string \<Rightarrow> card_prefs" where
  "cardPrefs m hostId =
     (case map_of m hostId of None \<Rightarrow> DEFAULT_CARDS
      | Some saved \<Rightarrow>
          \<lparr>agents = or_default (c_agents saved) (agents DEFAULT_CARDS),
           resources = or_default (c_resources saved) (resources DEFAULT_CARDS),
           links = or_default (c_links saved) (links DEFAULT_CARDS)\<rparr>)"

section \<open>Operations on one card\<close>

fun set_widget :: "card_widget \<Rightarrow> bool \<Rightarrow> card_record \<Rightarrow> card_record" where
  "set_widget Agents b r = r\<lparr>c_agents := Some b\<rparr>"
| "set_widget Resources b r = r\<lparr>c_resources := Some b\<rparr>"
| "set_widget Links b r = r\<lparr>c_links := Some b\<rparr>"

fun get_widget :: "card_widget \<Rightarrow> card_prefs \<Rightarrow> bool" where
  "get_widget Agents p = agents p"
| "get_widget Resources p = resources p"
| "get_widget Links p = links p"

text \<open>\<open>{ ...record, ...current }\<close>: the resolved widgets written over the record.\<close>

definition spread_prefs :: "card_record \<Rightarrow> card_prefs \<Rightarrow> card_record" where
  "spread_prefs r p =
     r\<lparr>c_agents := Some (agents p), c_resources := Some (resources p), c_links := Some (links p)\<rparr>"

definition toggleCardWidget :: "card_map \<Rightarrow> string \<Rightarrow> string \<Rightarrow> card_map" where
  "toggleCardWidget m hostId widget =
     (case widget_of_string widget of None \<Rightarrow> m
      | Some w \<Rightarrow> if hostId = [] then m
          else let current = cardPrefs m hostId in
            AList.update hostId
              (set_widget w (\<not> get_widget w current) (spread_prefs (stored m hostId) current)) m)"

definition cardCollapsed :: "card_map \<Rightarrow> string \<Rightarrow> bool" where
  "cardCollapsed m hostId = (c_open (stored m hostId) \<noteq> Some True)"

definition toggleCardCollapsed :: "card_map \<Rightarrow> string \<Rightarrow> card_map" where
  "toggleCardCollapsed m hostId =
     (if hostId = [] then m
      else AList.update hostId ((stored m hostId)\<lparr>c_open := Some (cardCollapsed m hostId)\<rparr>) m)"

definition cardOrder :: "card_map \<Rightarrow> string \<Rightarrow> int option" where
  "cardOrder m hostId =
     (case c_order (stored m hostId) of
        Some x \<Rightarrow> if is_integer x \<and> 0 \<le> int_of x then Some (int_of x) else None
      | None \<Rightarrow> None)"

section \<open>The column\<close>

text \<open>A row of the sort in \<open>orderHosts\<close>: the host, its index and its position.\<close>

type_synonym 'h order_row = "'h \<times> int \<times> int option"

definition order_cmp :: "'h order_row cmp" where
  "order_cmp = (\<lambda>(_, i, oa) (_, j, ob).
     case (oa, ob) of
       (Some a, Some b) \<Rightarrow> if a - b \<noteq> 0 then a - b else i - j
     | (Some _, None) \<Rightarrow> -1
     | (None, Some _) \<Rightarrow> 1
     | (None, None) \<Rightarrow> i - j)"

definition orderHosts :: "('h \<Rightarrow> string) \<Rightarrow> 'h list \<Rightarrow> card_map \<Rightarrow> 'h list" where
  "orderHosts hid hosts m =
     map fst (js_sort order_cmp
       (map (\<lambda>(index, host). (host, int index, cardOrder m (hid host))) (enumerate 0 hosts)))"

text \<open>\<open>splice(from, 1)\<close> followed by \<open>splice(to, 0, moved)\<close>.\<close>

definition splice_move :: "'a list \<Rightarrow> nat \<Rightarrow> nat \<Rightarrow> 'a list" where
  "splice_move ids fr to =
     (let rest = take fr ids @ drop (Suc fr) ids in take to rest @ ids ! fr # drop to rest)"

text \<open>The loop that gives every card of the column a position.\<close>

fun renumber :: "card_map \<Rightarrow> nat \<Rightarrow> string list \<Rightarrow> card_map \<times> string list \<Rightarrow> card_map \<times> string list" where
  "renumber m order [] (nxt, changed) = (nxt, changed)"
| "renumber m order (i # ids) (nxt, changed) =
     renumber m (Suc order) ids
       (if cardOrder m i = Some (int order) then (nxt, changed)
        else (AList.update i ((stored m i)\<lparr>c_order := Some (Fin (of_nat order))\<rparr>) nxt, changed @ [i]))"

definition moveCard :: "card_map \<Rightarrow> string list \<Rightarrow> int \<Rightarrow> int \<Rightarrow> card_map \<times> string list" where
  "moveCard m orderedIds fr to =
     (if fr = to \<or> fr < 0 \<or> to < 0 \<or> fr \<ge> int (length orderedIds) \<or> to \<ge> int (length orderedIds)
      then (m, [])
      else renumber m 0 (splice_move orderedIds (nat fr) (nat to)) (m, []))"

section \<open>Cleaning a persisted map\<close>

definition clean_card :: "jsval \<Rightarrow> card_record" where
  "clean_card prefs =
     \<lparr>c_agents = as_bool (js_get prefs ''agents''), c_resources = as_bool (js_get prefs ''resources''),
      c_links = as_bool (js_get prefs ''links''), c_open = as_bool (js_get prefs ''open''),
      c_order = (case integer_val (js_get prefs ''order'') of
          Some n \<Rightarrow> if 0 \<le> n then Some (Fin (of_int n)) else None | None \<Rightarrow> None)\<rparr>"

text \<open>
  The entries of an array are its elements under their decimal indices. The keys of an object
  are distinct, so writing \<open>out[hostId]\<close> appends.
\<close>

fun js_entries :: "jsval \<Rightarrow> (string \<times> jsval) list" where
  "js_entries (JObj kvs) = kvs"
| "js_entries (JArr vs) = map (\<lambda>(i, v). (nat_str i, v)) (enumerate 0 vs)"
| "js_entries _ = []"

fun clean_cards :: "(string \<times> jsval) list \<Rightarrow> card_map \<Rightarrow> card_map" where
  "clean_cards [] out = out"
| "clean_cards ((hostId, prefs) # kvs) out =
     clean_cards kvs
       (if hostId = [] \<or> \<not> is_object prefs then out
        else let clean = clean_card prefs in
          if clean \<noteq> no_card then AList.update hostId clean out else out)"

definition sanitizeCardPrefs :: "jsval \<Rightarrow> card_map" where
  "sanitizeCardPrefs raw = (if is_object raw then clean_cards (js_entries raw) [] else [])"

section \<open>The order of the column\<close>

interpretation column: comparator order_cmp
proof
  fix a b c :: "'h order_row"
  obtain x i oa where a: "a = (x, i, oa)" by (cases a)
  obtain y j ob where b: "b = (y, j, ob)" by (cases b)
  obtain z k oc where c: "c = (z, k, oc)" by (cases c)
  show "sgn (order_cmp a b) = - sgn (order_cmp b a)"
    by (auto simp: a b order_cmp_def sgn_if split: option.splits)
  show "order_cmp a c \<le> 0" if "order_cmp a b \<le> 0" "order_cmp b c \<le> 0"
    using that by (auto simp: a b c order_cmp_def split: option.splits if_splits)
qed

text \<open>
  Over distinct hosts a row of the sort is a function of its host, so the rows of a permuted
  column are a permutation of the rows.
\<close>

definition order_row :: "('h \<Rightarrow> string) \<Rightarrow> 'h list \<Rightarrow> card_map \<Rightarrow> 'h \<Rightarrow> 'h order_row" where
  "order_row hid hosts m h = (h, find_index (\<lambda>g. g = h) hosts, cardOrder m (hid h))"

lemma find_index_distinct: "distinct xs \<Longrightarrow> i < length xs \<Longrightarrow> find_index (\<lambda>y. y = xs ! i) xs = int i"
proof (induction xs arbitrary: i)
  case (Cons x xs)
  then show ?case by (cases i) (auto simp: Let_def)
qed simp

lemma orderHosts_rows:
  assumes "distinct hosts"
  shows "orderHosts hid hosts m = map fst (js_sort order_cmp (map (order_row hid hosts m) hosts))"
proof -
  have "map (\<lambda>(index, host). (host, int index, cardOrder m (hid host))) (enumerate 0 hosts)
      = map (order_row hid hosts m) hosts"
    using assms by (intro nth_equalityI) (auto simp: nth_enumerate_eq order_row_def find_index_distinct)
  then show ?thesis by (simp add: orderHosts_def)
qed

lemma fst_order_row [simp]: "fst \<circ> order_row hid hosts m = id" "fst (order_row hid hosts m h) = h"
  by (auto simp: order_row_def)

lemma mset_orderHosts: "distinct hosts \<Longrightarrow> mset (orderHosts hid hosts m) = mset hosts"
proof -
  assume d: "distinct hosts"
  have "mset (map fst (js_sort order_cmp (map (order_row hid hosts m) hosts)))
      = image_mset fst (mset (map (order_row hid hosts m) hosts))"
    by (simp only: mset_map mset_js_sort)
  also have "\<dots> = mset hosts"
    by (simp only: flip: mset_map) simp
  finally show ?thesis using d by (simp add: orderHosts_rows)
qed

lemma orderHosts_eqI:
  assumes "distinct hosts" and "mset hs = mset hosts"
    and pos: "\<And>j. j < length hs \<Longrightarrow> cardOrder m (hid (hs ! j)) = Some (int j)"
  shows "orderHosts hid hosts m = hs"
proof -
  have "js_sort order_cmp (map (order_row hid hosts m) hosts) = map (order_row hid hosts m) hs"
  proof (rule column.js_sort_perm_unique)
    show "column.ordered (map (order_row hid hosts m) hs)"
      by (simp add: sorted_wrt_iff_nth_less order_row_def order_cmp_def pos)
    show "mset (map (order_row hid hosts m) hs) = mset (map (order_row hid hosts m) hosts)"
      using assms(2) by simp
    fix a b
    assume ab: "a \<in> set (map (order_row hid hosts m) hosts)" "b \<in> set (map (order_row hid hosts m) hosts)"
      and eq: "order_cmp a b = 0"
    have "set hosts = set hs" using assms(2) by (metis mset_eq_setD)
    with ab obtain i j where "i < length hs" "j < length hs"
      and "a = order_row hid hosts m (hs ! i)" "b = order_row hid hosts m (hs ! j)"
      by (auto simp: in_set_conv_nth)
    with eq pos show "a = b" by (auto simp: order_row_def order_cmp_def split: if_splits)
  qed
  then show ?thesis using assms(1) by (simp add: orderHosts_rows)
qed

lemma stored_update [simp]:
  "stored (AList.update k r m) hostId = (if hostId = k then r else stored m hostId)"
  by (simp add: stored_def update_conv)

lemma cardOrder_update [simp]:
  "cardOrder (AList.update k r m) hostId =
     (if hostId = k then cardOrder [(k, r)] k else cardOrder m hostId)"
  by (simp add: cardOrder_def stored_def update_conv)

lemma cardOrder_Fin [simp]: "cardOrder [(k, r\<lparr>c_order := Some (Fin (of_nat n))\<rparr>)] k = Some (int n)"
proof -
  have "(of_nat n :: rat) = of_int (int n)" by simp
  then show ?thesis unfolding cardOrder_def stored_def by (simp del: of_int_of_nat_eq)
qed

text \<open>
  The loop reads the old map and writes the new one; where the new map agrees with the old on
  the cards still to come, it gives each of them its index.
\<close>

lemma renumber_order:
  assumes "distinct ids" and "\<forall>i \<in> set ids. cardOrder nxt i = cardOrder m i"
  shows "(\<forall>j < length ids. cardOrder (fst (renumber m n ids (nxt, ch))) (ids ! j) = Some (int (n + j)))
    \<and> (\<forall>h. h \<notin> set ids \<longrightarrow> cardOrder (fst (renumber m n ids (nxt, ch))) h = cardOrder nxt h)"
  using assms
proof (induction ids arbitrary: n nxt ch)
  case (Cons i ids)
  let ?nxt = "if cardOrder m i = Some (int n) then nxt
    else AList.update i ((stored m i)\<lparr>c_order := Some (Fin (of_nat n))\<rparr>) nxt"
  let ?ch = "if cardOrder m i = Some (int n) then ch else ch @ [i]"
  have head: "cardOrder ?nxt i = Some (int n)"
    and other: "\<And>k. k \<noteq> i \<Longrightarrow> cardOrder ?nxt k = cardOrder nxt k"
    using Cons.prems by auto
  have "distinct ids" "i \<notin> set ids" "\<forall>k \<in> set ids. cardOrder ?nxt k = cardOrder m k"
    using Cons.prems other by auto
  note tail = this Cons.IH [OF this(1,3), of "Suc n" ?ch]
  have step: "renumber m n (i # ids) (nxt, ch) = renumber m (Suc n) ids (?nxt, ?ch)"
    by simp
  show ?case
    unfolding step using tail head other by (auto simp: nth_Cons split: nat.split)
qed simp

lemma splice_move_map: "fr < length xs \<Longrightarrow> splice_move (map f xs) fr to = map f (splice_move xs fr to)"
  by (simp add: splice_move_def Let_def take_map drop_map)

lemma mset_splice_move: "fr < length xs \<Longrightarrow> mset (splice_move xs fr to) = mset xs"
proof -
  assume "fr < length xs"
  then have xs: "xs = take fr xs @ xs ! fr # drop (Suc fr) xs" by (rule id_take_nth_drop)
  have "mset (splice_move xs fr to) = add_mset (xs ! fr) (mset (take fr xs @ drop (Suc fr) xs))"
    unfolding splice_move_def Let_def
    by (metis append_take_drop_id mset.simps(2) mset_append union_mset_add_mset_right)
  also have "\<dots> = mset (take fr xs @ xs ! fr # drop (Suc fr) xs)" by simp
  also have "\<dots> = mset xs" by (simp only: flip: xs)
  finally show ?thesis .
qed

lemma splice_move_same: "fr < length xs \<Longrightarrow> splice_move xs fr fr = xs"
  by (simp add: splice_move_def Let_def flip: id_take_nth_drop)

section \<open>Round trip of a stored map\<close>

text \<open>The object a map is stored as: a key that is absent is not written.\<close>

definition card_json :: "card_record \<Rightarrow> jsval" where
  "card_json r = JObj (opt_field ''agents'' (map_option JBool (c_agents r))
     @ opt_field ''resources'' (map_option JBool (c_resources r))
     @ opt_field ''links'' (map_option JBool (c_links r))
     @ opt_field ''open'' (map_option JBool (c_open r))
     @ opt_field ''order'' (map_option JNum (c_order r)))"

definition cards_json :: "card_map \<Rightarrow> jsval" where
  "cards_json m = JObj (map (\<lambda>(k, r). (k, card_json r)) m)"

definition wf_card :: "card_record \<Rightarrow> bool" where
  "wf_card r = (r \<noteq> no_card \<and> (case c_order r of None \<Rightarrow> True
     | Some x \<Rightarrow> is_integer x \<and> 0 \<le> int_of x))"

definition wf_cards :: "card_map \<Rightarrow> bool" where
  "wf_cards m = (distinct (map fst m) \<and> list_all (\<lambda>(k, r). k \<noteq> [] \<and> wf_card r) m)"

lemma clean_card_json: "wf_card r \<Longrightarrow> clean_card (card_json r) = r"
proof -
  assume wf: "wf_card r"
  have order: "(case integer_val (case c_order r of None \<Rightarrow> Undefined | Some x \<Rightarrow> JNum x) of
      Some n \<Rightarrow> if 0 \<le> n then Some (Fin (of_int n)) else None | None \<Rightarrow> None) = c_order r"
    using wf by (cases "c_order r"; cases "the (c_order r)") (auto simp: wf_card_def)
  show ?thesis
    unfolding clean_card_def
    by (cases r; cases "c_agents r"; cases "c_resources r"; cases "c_links r"; cases "c_open r";
        cases "c_order r") (use order in \<open>auto simp: card_json_def\<close>)
qed

lemma update_append: "k \<notin> set (map fst m) \<Longrightarrow> AList.update k v m = m @ [(k, v)]"
  by (induction m) auto

lemma clean_cards_json:
  assumes "distinct (map fst (out @ m))" and "list_all (\<lambda>(k, r). k \<noteq> [] \<and> wf_card r) m"
  shows "clean_cards (map (\<lambda>(k, r). (k, card_json r)) m) out = out @ m"
  using assms
proof (induction m arbitrary: out)
  case (Cons kr m)
  obtain k r where kr: "kr = (k, r)" by (cases kr)
  have wf: "k \<noteq> []" "wf_card r" "clean_card (card_json r) = r" "r \<noteq> no_card"
    using Cons.prems kr clean_card_json by (auto simp: wf_card_def)
  have "clean_cards (map (\<lambda>(k, r). (k, card_json r)) (kr # m)) out
      = clean_cards (map (\<lambda>(k, r). (k, card_json r)) m) (AList.update k r out)"
    using wf by (simp add: kr card_json_def [of r, THEN arg_cong [of _ _ is_object]])
  also have "AList.update k r out = out @ [(k, r)]"
    using Cons.prems(1) kr by (intro update_append) auto
  finally show ?case using Cons.IH [of "out @ [(k, r)]"] Cons.prems kr by simp
qed simp

lemma sanitize_cards_json: "wf_cards m \<Longrightarrow> sanitizeCardPrefs (cards_json m) = m"
  using clean_cards_json [of "[]" m] by (simp add: wf_cards_def sanitizeCardPrefs_def cards_json_def)

interpretation stored_cards: codec cards_json "\<lambda>v. Some (sanitizeCardPrefs v)" wf_cards
  by unfold_locales (simp add: sanitize_cards_json)

text \<open>Whatever is read, what comes out is well formed.\<close>

lemma wf_clean_card: "clean_card v \<noteq> no_card \<Longrightarrow> wf_card (clean_card v)"
  by (auto simp: wf_card_def clean_card_def split: option.splits)

lemma wf_cards_update: "wf_cards m \<Longrightarrow> k \<noteq> [] \<Longrightarrow> wf_card r \<Longrightarrow> wf_cards (AList.update k r m)"
  unfolding wf_cards_def
proof (intro conjI)
  assume "distinct (map fst m) \<and> list_all (\<lambda>(k, r). k \<noteq> [] \<and> wf_card r) m" "k \<noteq> []" "wf_card r"
  then show "distinct (map fst (AList.update k r m))" by (simp add: distinct_update)
  show "list_all (\<lambda>(k, r). k \<noteq> [] \<and> wf_card r) (AList.update k r m)"
    using \<open>distinct _ \<and> _\<close> \<open>k \<noteq> []\<close> \<open>wf_card r\<close> by (induction m) auto
qed

lemma wf_clean_cards: "wf_cards out \<Longrightarrow> wf_cards (clean_cards kvs out)"
proof (induction kvs out rule: clean_cards.induct)
  case (2 hostId prefs kvs out)
  then show ?case using wf_cards_update [of out hostId] wf_clean_card [of prefs] by (simp add: Let_def)
qed simp

lemma wf_sanitizeCardPrefs: "wf_cards (sanitizeCardPrefs raw)"
  by (auto simp: sanitizeCardPrefs_def intro!: wf_clean_cards) (simp_all add: wf_cards_def)

section \<open>Properties\<close>

text \<open>
  Dragging the card at one index of the drawn column to another makes
  the next drawing of the column exactly the old one with that card moved; no other card changes
  its relative place, whatever positions were stored before.
\<close>

theorem moveCard_moves:
  assumes "distinct (map hid hosts)" and "0 \<le> fr" and "fr < int (length hosts)"
    and "0 \<le> to" and "to < int (length hosts)"
  shows "orderHosts hid hosts (fst (moveCard m (map hid (orderHosts hid hosts m)) fr to))
    = splice_move (orderHosts hid hosts m) (nat fr) (nat to)"
proof -
  let ?old = "orderHosts hid hosts m"
  let ?new = "splice_move ?old (nat fr) (nat to)"
  have d: "distinct hosts" using assms(1) by (simp add: distinct_map)
  have ms: "mset ?old = mset hosts" using d by (rule mset_orderHosts)
  then have len: "length ?old = length hosts" by (metis size_mset)
  have ms': "mset ?new = mset hosts" using assms ms len by (simp add: mset_splice_move)
  then have dn: "distinct (map hid ?new)"
    using assms(1) by (metis mset_eq_imp_distinct_iff mset_map)
  show ?thesis
  proof (cases "fr = to")
    case True
    then show ?thesis using assms len by (simp add: moveCard_def splice_move_same)
  next
    case False
    then have mv: "moveCard m (map hid ?old) fr to = renumber m 0 (map hid ?new) (m, [])"
      using assms len by (simp add: moveCard_def splice_move_map)
    show ?thesis unfolding mv
      by (rule orderHosts_eqI [OF d ms']) (use renumber_order [OF dn, of m m 0 "[]"] in auto)
  qed
qed

theorem moveCard_moves_witness:
  "orderHosts (\<lambda>s. s) [''a'', ''b'', ''c''] (fst (moveCard [] [''a'', ''b'', ''c''] 2 0))
     = [''c'', ''a'', ''b'']"
proof -
  have "orderHosts (\<lambda>s. s) [''a'', ''b'', ''c''] [] = [''a'', ''b'', ''c'']"
    by (simp add: orderHosts_def order_cmp_def cardOrder_def stored_def no_card_def)
  then show ?thesis
    using moveCard_moves [of "\<lambda>s. s" "[''a'', ''b'', ''c'']" 2 0 "[]"]
    by (simp add: splice_move_def)
qed

text \<open>
  Flipping one widget of one card flips exactly that widget, keeps
  the card's own fold state and position, and leaves every other card as it was; folding flips the
  fold state only.
\<close>

theorem card_toggles_local:
  assumes "widget_of_string widget = Some w" and "hostId \<noteq> []"
  shows "get_widget v (cardPrefs (toggleCardWidget m hostId widget) h) =
      (if h = hostId \<and> v = w then \<not> get_widget v (cardPrefs m h) else get_widget v (cardPrefs m h))
    \<and> cardCollapsed (toggleCardWidget m hostId widget) h = cardCollapsed m h
    \<and> cardOrder (toggleCardWidget m hostId widget) h = cardOrder m h
    \<and> cardCollapsed (toggleCardCollapsed m hostId) h =
        (if h = hostId then \<not> cardCollapsed m h else cardCollapsed m h)
    \<and> cardPrefs (toggleCardCollapsed m hostId) h = cardPrefs m h
    \<and> cardOrder (toggleCardCollapsed m hostId) h = cardOrder m h"
proof -
  have prefs: "cardPrefs (toggleCardCollapsed m hostId) h = cardPrefs m h"
    using assms(2)
    by (auto simp: toggleCardCollapsed_def cardPrefs_def update_conv stored_def no_card_def
        DEFAULT_CARDS_def split: option.splits)
  show ?thesis
    using assms prefs
    by (cases w; cases v)
      (auto simp: toggleCardWidget_def toggleCardCollapsed_def cardPrefs_def cardCollapsed_def
        cardOrder_def update_conv spread_prefs_def stored_def Let_def split: option.splits)
qed

theorem card_toggles_local_witness:
  "get_widget Links (cardPrefs (toggleCardWidget [] ''h1'' ''links'') ''h1'')"
  using card_toggles_local [of "''links''" Links "''h1''" Links "[]" "''h1''"]
  by (simp add: cardPrefs_def DEFAULT_CARDS_def)

end
