(* ===== verification/Machines.thy ===== *)
theory Machines
  imports Prelude
begin

text \<open>
  The contract of a component that lives through a sequence of operations: a step function that
  keeps an invariant. Each stateful component interprets one of these locales on its own step
  function, and its properties over whole runs rest on the facts proved here once.
\<close>

section \<open>Runs of a step function\<close>

abbreviation run :: "('s \<Rightarrow> 'e \<Rightarrow> 's) \<Rightarrow> 's \<Rightarrow> 'e list \<Rightarrow> 's" where
  "run step s es \<equiv> foldl step s es"

locale invariant_machine =
  fixes step :: "'s \<Rightarrow> 'e \<Rightarrow> 's"
    and inv :: "'s \<Rightarrow> bool"
  assumes step_inv: "inv s \<Longrightarrow> inv (step s e)"
begin

lemma run_inv: "inv s \<Longrightarrow> inv (run step s es)"
  by (induction es arbitrary: s) (auto intro: step_inv)

text \<open>A fact that every step keeps in states satisfying the invariant is kept by every run.\<close>

lemma run_kept:
  assumes "\<And>s e. inv s \<Longrightarrow> P s \<Longrightarrow> P (step s e)" and "inv s" and "P s"
  shows "P (run step s es)"
  using assms(2,3)
proof (induction es arbitrary: s)
  case (Cons e es)
  then show ?case using assms(1) step_inv by simp
qed simp

end

text \<open>
  Some invariants hold only while a counter is below a limit (the numbers a counter prints stay
  exact below \<open>2^53\<close>). Each step may spend one unit.
\<close>

locale budget_machine =
  fixes step :: "'s \<Rightarrow> 'e \<Rightarrow> 's"
    and ok :: "nat \<Rightarrow> 's \<Rightarrow> bool"
    and limit :: nat
    and proper :: "'e \<Rightarrow> bool"
  assumes step_ok: "n < limit \<Longrightarrow> proper e \<Longrightarrow> ok n s \<Longrightarrow> ok (Suc n) (step s e)"
begin

lemma run_ok: "ok n s \<Longrightarrow> list_all proper es \<Longrightarrow> n + length es \<le> limit \<Longrightarrow> ok (n + length es) (run step s es)"
proof (induction es arbitrary: n s)
  case (Cons e es)
  then have "ok (Suc n) (step s e)" by (auto intro: step_ok)
  with Cons.IH [of "Suc n" "step s e"] Cons.prems show ?case by simp
qed simp

end

text \<open>An unconditional invariant is the case of a budget that nothing spends.\<close>

sublocale invariant_machine \<subseteq> unlimited: budget_machine step "\<lambda>_. inv" limit "\<lambda>_. True" for limit
  by unfold_locales (rule step_inv)

section \<open>Runs that end\<close>

text \<open>
  A potential that every step allowed by the environment decreases until an end is reached, which
  is not left again: every allowed run that is long enough has ended.
\<close>

primrec allowed_run :: "('s \<Rightarrow> 'e \<Rightarrow> bool) \<Rightarrow> ('s \<Rightarrow> 'e \<Rightarrow> 's) \<Rightarrow> 's \<Rightarrow> 'e list \<Rightarrow> bool" where
  "allowed_run allowed step s [] = True"
| "allowed_run allowed step s (e # es) = (allowed s e \<and> allowed_run allowed step (step s e) es)"

locale ranked_machine =
  fixes step :: "'s \<Rightarrow> 'e \<Rightarrow> 's"
    and allowed :: "'s \<Rightarrow> 'e \<Rightarrow> bool"
    and rank :: "'s \<Rightarrow> nat"
    and ended :: "'s \<Rightarrow> bool"
  assumes ended_stays: "ended s \<Longrightarrow> ended (step s e)"
    and rank_less: "\<not> ended s \<Longrightarrow> allowed s e \<Longrightarrow> rank (step s e) < rank s"
begin

lemma run_stays_ended: "ended s \<Longrightarrow> ended (run step s es)"
  by (induction es arbitrary: s) (auto intro: ended_stays)

lemma run_ends: "allowed_run allowed step s es \<Longrightarrow> rank s < length es \<Longrightarrow> ended (run step s es)"
proof (induction es arbitrary: s)
  case (Cons e es)
  show ?case
  proof (cases "ended s")
    case True
    then show ?thesis by (rule run_stays_ended)
  next
    case False
    then have "rank (step s e) < rank s" using Cons.prems(1) by (simp add: rank_less)
    then show ?thesis using Cons by (cases es) auto
  qed
qed simp

end

section \<open>What must come first\<close>

text \<open>
  A machine that answers every event with outputs. As long as it is before the gate it stays there,
  and puts out nothing that is guarded, unless an event passes the gate.
\<close>

primrec outputs :: "('s \<Rightarrow> 'e \<Rightarrow> 's \<times> 'o list) \<Rightarrow> 's \<Rightarrow> 'e list \<Rightarrow> 'o list" where
  "outputs step s [] = []"
| "outputs step s (e # es) = snd (step s e) @ outputs step (fst (step s e)) es"

primrec passes :: "('s \<Rightarrow> 'e \<Rightarrow> bool) \<Rightarrow> ('s \<Rightarrow> 'e \<Rightarrow> 's \<times> 'o list) \<Rightarrow> 's \<Rightarrow> 'e list \<Rightarrow> bool" where
  "passes pass step s [] = False"
| "passes pass step s (e # es) = (pass s e \<or> passes pass step (fst (step s e)) es)"

locale gated_machine =
  fixes step :: "'s \<Rightarrow> 'e \<Rightarrow> 's \<times> 'o list"
    and before :: "'s \<Rightarrow> bool"
    and pass :: "'s \<Rightarrow> 'e \<Rightarrow> bool"
    and guarded :: "'o \<Rightarrow> bool"
  assumes stays: "before s \<Longrightarrow> \<not> pass s e \<Longrightarrow> before (fst (step s e))"
    and quiet: "before s \<Longrightarrow> \<not> pass s e \<Longrightarrow> x \<in> set (snd (step s e)) \<Longrightarrow> \<not> guarded x"
begin

lemma guarded_after_pass: "before s \<Longrightarrow> x \<in> set (outputs step s es) \<Longrightarrow> guarded x \<Longrightarrow> passes pass step s es"
proof (induction es arbitrary: s)
  case (Cons e es)
  then show ?case using stays [of s e] quiet [of s e x] by (cases "pass s e") auto
qed simp

end

section \<open>What a sequence of steps may touch\<close>

text \<open>
  A relation between the state before and after that holds of nothing at all and of two steps in a
  row holds of every loop whose body keeps it.
\<close>

locale frame_rule =
  fixes ok :: "'s \<Rightarrow> 's \<Rightarrow> bool"
  assumes ok_refl: "ok s s"
    and ok_trans: "ok s t \<Longrightarrow> ok t u \<Longrightarrow> ok s u"
begin

lemma ok_foldl: "(\<And>s x. x \<in> set xs \<Longrightarrow> ok s (f s x)) \<Longrightarrow> ok s (foldl f s xs)"
proof (induction xs arbitrary: s)
  case Nil
  then show ?case by (simp add: ok_refl)
next
  case (Cons x xs)
  then show ?case using ok_trans [of s "f s x"] by simp
qed

end

end
