(* ===== verification/Grid.thy ===== *)
theory Grid
  imports Slots Cards Machines
begin

text \<open>
  \<^verbatim>\<open>packages/core/src/terminal-grid.ts\<close>, the layout and its reducers: the positional cells,
  paging, zoom and focus, the panels beside the grid, and the release of mounted panes. A reducer
  returns the new layout. A number the source tests with \<open>Number.isInteger\<close> or
  \<open>Number.isFinite\<close> is a \<open>jsnum\<close>; the other indices are integers.
\<close>

section \<open>The layout\<close>

datatype click_action = ClickZoom | ClickFocus

record files_target =
  ft_host :: string
  ft_path :: string

record dock_target =
  dt_host :: string
  dt_repo :: "string option"

record layout =
  mode :: grid_mode
  page :: int
  slots :: "grid_cell list"
  zoomId :: "string option"
  focusId :: "string option"
  clickAction :: click_action
  sidebarOpen :: bool
  sidebarWidth :: int
  dockOpen :: bool
  dockWidth :: int
  filesOpen :: bool
  filesShare :: int
  filesTarget :: "files_target option"
  dockRefsHidden :: bool
  dockDetailHeight :: "int option"
  dockTarget :: "dock_target option"
  cards :: card_map

definition defaultLayout :: layout where
  "defaultLayout = \<lparr>mode = Split4, page = 0, slots = [], zoomId = None, focusId = None,
     clickAction = ClickZoom, sidebarOpen = True, sidebarWidth = 300, dockOpen = False,
     dockWidth = 420, filesOpen = False, filesShare = 50, filesTarget = None,
     dockRefsHidden = False, dockDetailHeight = None, dockTarget = None, cards = []\<rparr>"

section \<open>Bounds\<close>

definition SIDEBAR_WIDTH_MIN :: int where "SIDEBAR_WIDTH_MIN = 180"
definition SIDEBAR_WIDTH_MAX :: int where "SIDEBAR_WIDTH_MAX = 720"
definition DOCK_WIDTH_MIN :: int where "DOCK_WIDTH_MIN = 260"
definition DOCK_WIDTH_MAX :: int where "DOCK_WIDTH_MAX = 900"
definition DETAIL_HEIGHT_MIN :: int where "DETAIL_HEIGHT_MIN = 120"
definition DETAIL_HEIGHT_MAX :: int where "DETAIL_HEIGHT_MAX = 900"
definition FILES_SHARE_MIN :: int where "FILES_SHARE_MIN = 20"
definition FILES_SHARE_MAX :: int where "FILES_SHARE_MAX = 80"
definition DRAG_PX :: rat where "DRAG_PX = 6"
definition DRAG_MS :: rat where "DRAG_MS = 400"

lemmas bound_defs = SIDEBAR_WIDTH_MIN_def SIDEBAR_WIDTH_MAX_def DOCK_WIDTH_MIN_def
  DOCK_WIDTH_MAX_def DETAIL_HEIGHT_MIN_def DETAIL_HEIGHT_MAX_def FILES_SHARE_MIN_def FILES_SHARE_MAX_def

definition clamp :: "rat \<Rightarrow> int \<Rightarrow> int \<Rightarrow> int" where
  "clamp px mn mx = min mx (max mn (js_round px))"

section \<open>Views\<close>

definition live_ids :: "grid_cell list \<Rightarrow> string list" where
  "live_ids list = map (\<lambda>cell. s_id (the cell)) (filter (\<lambda>cell. cell \<noteq> None) list)"

definition has_id :: "string option \<Rightarrow> grid_cell \<Rightarrow> bool" where
  "has_id i cell = (case cell of None \<Rightarrow> False | Some s \<Rightarrow> Some (s_id s) = i)"

text \<open>Drop trailing empty cells.\<close>

definition trimTail :: "grid_cell list \<Rightarrow> grid_cell list" where
  "trimTail list = rev (dropWhile (\<lambda>cell. cell = None) (rev list))"

definition pageCount :: "layout \<Rightarrow> int" where
  "pageCount l =
     (let size = GRID_SIZE (mode l); used = length (slots l) in
      if used = 0 then 1
      else int ((used + size - 1) div size) + (if used mod size = 0 then 1 else 0))"

definition clampedPage :: "layout \<Rightarrow> int" where
  "clampedPage l = min (max 0 (to_int32 (page l))) (pageCount l - 1)"

definition zoomed_index :: "layout \<Rightarrow> int" where
  "zoomed_index l = (if truthy (zoomId l) then find_index (has_id (zoomId l)) (slots l) else -1)"

definition cell_at :: "layout \<Rightarrow> int \<Rightarrow> grid_cell" where
  "cell_at l i = (case nth_opt (slots l) i of Some cell \<Rightarrow> cell | None \<Rightarrow> None)"

text \<open>The cells from \<open>start\<close> on that fill one window.\<close>

definition window_start :: "layout \<Rightarrow> int" where
  "window_start l = clampedPage l * int (GRID_SIZE (mode l))"

definition visibleSlots :: "layout \<Rightarrow> grid_cell list" where
  "visibleSlots l =
     (case (if truthy (zoomId l) then List.find (has_id (zoomId l)) (slots l) else None) of
        Some zoomed \<Rightarrow> [zoomed]
      | None \<Rightarrow> map (\<lambda>i. cell_at l (window_start l + int i)) [0..<GRID_SIZE (mode l)])"

definition visibleIndexes :: "layout \<Rightarrow> int list" where
  "visibleIndexes l =
     (if 0 \<le> zoomed_index l then [zoomed_index l]
      else map (\<lambda>i. window_start l + int i) [0..<GRID_SIZE (mode l)])"

definition anchorIndex :: "layout \<Rightarrow> int" where
  "anchorIndex l =
     (let focused = (if focusId l \<noteq> None then focusId l else zoomId l);
          index = (if truthy focused then find_index (has_id focused) (slots l) else -1)
      in if 0 \<le> index then index else window_start l)"

abbreviation soloIndex :: "layout \<Rightarrow> int" where
  "soloIndex \<equiv> anchorIndex"

definition firstEmptyIndex :: "layout \<Rightarrow> int" where
  "firstEmptyIndex l =
     (let hole = find_index (\<lambda>cell. cell = None) (slots l) in
      if 0 \<le> hole then hole else int (length (slots l)))"

datatype empty_kind = Hole | Padding

text \<open>A negative index reads \<open>undefined\<close>, which counts as a hole.\<close>

definition emptyCellKind :: "layout \<Rightarrow> int \<Rightarrow> empty_kind option" where
  "emptyCellKind l index =
     (if index \<ge> int (length (slots l)) then Some Padding
      else if cell_at l index \<noteq> None then None else Some Hole)"

section \<open>Paging and zoom\<close>

definition withPage :: "layout \<Rightarrow> layout" where
  "withPage l = l\<lparr>page := min (max 0 (to_int32 (page l))) (pageCount l - 1)\<rparr>"

text \<open>\<open>None\<close> stands for a value that is not a key of \<open>GRID_SIZE\<close>.\<close>

definition cycleMode :: "layout \<Rightarrow> grid_mode option \<Rightarrow> layout" where
  "cycleMode l m' =
     (case m' of None \<Rightarrow> l
      | Some m \<Rightarrow>
        if mode l = m then
          let nxt = l\<lparr>zoomId := None\<rparr> in nxt\<lparr>page := (clampedPage nxt + 1) mod pageCount nxt\<rparr>
        else
          let anchor = anchorIndex l; nxt = l\<lparr>mode := m, zoomId := None\<rparr> in
          nxt\<lparr>page := min (anchor div int (GRID_SIZE m)) (pageCount nxt - 1)\<rparr>)"

text \<open>
  The remainder of JavaScript has the sign of the dividend; adding the divisor and taking it again
  gives the remainder of HOL. The sum is exact for the step sizes a pager sends (below \<open>2^52\<close>).
\<close>

definition js_rem :: "int \<Rightarrow> int \<Rightarrow> int" where
  "js_rem a b = sgn a * (\<bar>a\<bar> mod \<bar>b\<bar>)"

fun finite_step :: "jsnum \<Rightarrow> int" where
  "finite_step (Fin q) = js_trunc q"
| "finite_step _ = 0"

definition movePage :: "layout \<Rightarrow> jsnum \<Rightarrow> layout" where
  "movePage l delta =
     (let count = pageCount l; step = finite_step delta in
      l\<lparr>page := js_rem (js_rem (clampedPage l + step) count + count) count\<rparr>)"

definition soloLayout :: "layout \<Rightarrow> jsnum \<Rightarrow> layout" where
  "soloLayout l index =
     (let pos = min (max 0 (finite_step index)) (int (length (slots l))) in
      l\<lparr>mode := Tab, page := pos, zoomId := None\<rparr>)"

definition soloStep :: "layout \<Rightarrow> jsnum \<Rightarrow> jsnum \<Rightarrow> int" where
  "soloStep l index delta = page (movePage (soloLayout l index) delta)"

definition toggleZoom :: "layout \<Rightarrow> string option \<Rightarrow> layout" where
  "toggleZoom l slotId =
     (if \<not> truthy slotId then l
      else l\<lparr>zoomId := (if zoomId l = slotId then None else slotId), focusId := slotId\<rparr>)"

definition focusSlot :: "layout \<Rightarrow> string option \<Rightarrow> layout" where
  "focusSlot l slotId = l\<lparr>focusId := slotId\<rparr>"

definition revealSlot :: "layout \<Rightarrow> int \<Rightarrow> layout" where
  "revealSlot l index =
     (case cell_at l index of None \<Rightarrow> l
      | Some slot \<Rightarrow>
        l\<lparr>page := index div int (GRID_SIZE (mode l)),
          zoomId := (if truthy (zoomId l) \<and> zoomId l \<noteq> Some (s_id slot) then None else zoomId l),
          focusId := Some (s_id slot)\<rparr>)"

section \<open>Cells\<close>

text \<open>What the picker writes into a cell; \<open>ct_host\<close> is absent when it is not a string.\<close>

record cell_target =
  ct_host :: "string option"
  ct_kind :: slot_kind
  ct_session :: "string option"
  ct_backend :: "backend option"
  ct_sessionId :: "string option"
  ct_tmuxId :: "string option"
  ct_intent :: "intent option"

definition keep_truthy :: "string option \<Rightarrow> string option" where
  "keep_truthy v = (if truthy v then v else None)"

definition target_slot :: "string \<Rightarrow> string \<Rightarrow> cell_target \<Rightarrow> terminal_slot" where
  "target_slot i host t =
     \<lparr>s_id = i, s_host = host, s_kind = ct_kind t,
      s_session = (if ct_kind t = Shell then None
        else Some (case ct_session t of Some n \<Rightarrow> n | None \<Rightarrow> ''main'')),
      s_backend = ct_backend t, s_sessionId = keep_truthy (ct_sessionId t),
      s_tmuxId = keep_truthy (ct_tmuxId t), s_intent = ct_intent t, s_label = None, s_tags = []\<rparr>"

text \<open>\<open>while (list.length < n) list.push(null)\<close>, and writing at an index up to the length.\<close>

definition pad_cells :: "grid_cell list \<Rightarrow> nat \<Rightarrow> grid_cell list" where
  "pad_cells list n = list @ replicate (n - length list) None"

definition write_cell :: "grid_cell list \<Rightarrow> nat \<Rightarrow> grid_cell \<Rightarrow> grid_cell list" where
  "write_cell list i cell = (if i < length list then list[i := cell] else list @ [cell])"

definition assignSlot :: "layout \<Rightarrow> jsnum \<Rightarrow> cell_target option \<Rightarrow> layout" where
  "assignSlot l index target =
     (case target of None \<Rightarrow> l
      | Some t \<Rightarrow> (case ct_host t of None \<Rightarrow> l
        | Some host \<Rightarrow>
          if \<not> is_integer index \<or> int_of index < 0 then l
          else let i = nat (int_of index); list = pad_cells (slots l) i
            in l\<lparr>slots := write_cell list i (Some (target_slot (nextSlotId list) host t))\<rparr>))"

definition unless_gone :: "string option \<Rightarrow> string \<Rightarrow> string option" where
  "unless_gone v gone = (if v = Some gone then None else v)"

definition clearSlot :: "layout \<Rightarrow> int \<Rightarrow> layout" where
  "clearSlot l index =
     (case cell_at l index of None \<Rightarrow> l
      | Some gone \<Rightarrow>
        withPage (l\<lparr>slots := trimTail ((slots l)[nat index := None]),
          zoomId := unless_gone (zoomId l) (s_id gone),
          focusId := unless_gone (focusId l) (s_id gone)\<rparr>))"

text \<open>\<open>slice(0, n)\<close> and \<open>slice(n)\<close>: a negative position counts from the end.\<close>

definition slice_pos :: "'a list \<Rightarrow> int \<Rightarrow> nat" where
  "slice_pos xs n = nat (if n < 0 then int (length xs) + n else n)"

definition removeSlot :: "layout \<Rightarrow> int \<Rightarrow> layout" where
  "removeSlot l index =
     (if emptyCellKind l index \<noteq> Some Hole then l
      else let list = slots l in
        withPage (l\<lparr>slots := trimTail (take (slice_pos list index) list
          @ drop (slice_pos list (index + 1)) list)\<rparr>))"

definition swapSlots :: "layout \<Rightarrow> jsnum \<Rightarrow> jsnum \<Rightarrow> layout" where
  "swapSlots l i j =
     (if \<not> is_integer i \<or> \<not> is_integer j \<or> int_of i < 0 \<or> int_of j < 0 \<or> int_of i = int_of j then l
      else let a = nat (int_of i); b = nat (int_of j); list = pad_cells (slots l) (Suc (max a b))
        in l\<lparr>slots := trimTail (list[a := list ! b, b := list ! a])\<rparr>)"

definition pickerApply :: "layout \<Rightarrow> jsnum option \<Rightarrow> cell_target option \<Rightarrow> layout" where
  "pickerApply l index target =
     assignSlot l (case index of Some n \<Rightarrow> if is_integer n then n else Fin (of_int (firstEmptyIndex l))
       | None \<Rightarrow> Fin (of_int (firstEmptyIndex l))) target"

section \<open>Maps over the cells\<close>

definition map_slots :: "(terminal_slot \<Rightarrow> terminal_slot) \<Rightarrow> layout \<Rightarrow> layout" where
  "map_slots f l = l\<lparr>slots := map (map_option f) (slots l)\<rparr>"

definition adoptNativeSession :: "layout \<Rightarrow> string \<Rightarrow> string \<Rightarrow> layout" where
  "adoptNativeSession l slotId sessionId = map_slots (adopt_slot slotId sessionId) l"

definition renameSlotSessions :: "layout \<Rightarrow> string \<Rightarrow> rename_target \<Rightarrow> string \<Rightarrow> layout" where
  "renameSlotSessions l hostId target name = map_slots (rename_slot hostId target name) l"

definition present_slot :: "string \<Rightarrow> presentation \<Rightarrow> terminal_slot \<Rightarrow> terminal_slot" where
  "present_slot slotId p slot =
     (if s_id slot \<noteq> slotId then slot else slot\<lparr>s_label := p_label p, s_tags := p_tags p\<rparr>)"

definition setSlotPresentation :: "layout \<Rightarrow> string \<Rightarrow> jsval \<Rightarrow> layout" where
  "setSlotPresentation l slotId v = map_slots (present_slot slotId (normalizeTerminalPresentation v)) l"

section \<open>Panels\<close>

definition toggleSidebar :: "layout \<Rightarrow> layout" where
  "toggleSidebar l = l\<lparr>sidebarOpen := \<not> sidebarOpen l\<rparr>"

definition setSidebarWidth :: "layout \<Rightarrow> jsnum \<Rightarrow> layout" where
  "setSidebarWidth l px =
     (case px of Fin q \<Rightarrow> l\<lparr>sidebarWidth := clamp q SIDEBAR_WIDTH_MIN SIDEBAR_WIDTH_MAX\<rparr> | _ \<Rightarrow> l)"

definition setClickAction :: "layout \<Rightarrow> string \<Rightarrow> layout" where
  "setClickAction l action =
     (if action = ''zoom'' then l\<lparr>clickAction := ClickZoom\<rparr>
      else if action = ''focus'' then l\<lparr>clickAction := ClickFocus\<rparr> else l)"

definition toggleFiles :: "layout \<Rightarrow> layout" where
  "toggleFiles l = l\<lparr>filesOpen := \<not> filesOpen l\<rparr>"

definition setFilesShare :: "layout \<Rightarrow> jsnum \<Rightarrow> layout" where
  "setFilesShare l share =
     (case share of Fin q \<Rightarrow> l\<lparr>filesShare := clamp (of_int (js_round q)) FILES_SHARE_MIN FILES_SHARE_MAX\<rparr>
      | _ \<Rightarrow> l)"

definition setFilesTarget :: "layout \<Rightarrow> string option \<Rightarrow> string \<Rightarrow> layout" where
  "setFilesTarget l hostId path =
     l\<lparr>filesTarget := (if truthy hostId then Some \<lparr>ft_host = the hostId, ft_path = path\<rparr> else None)\<rparr>"

definition toggleDock :: "layout \<Rightarrow> layout" where
  "toggleDock l = l\<lparr>dockOpen := \<not> dockOpen l\<rparr>"

definition setDockWidth :: "layout \<Rightarrow> jsnum \<Rightarrow> layout" where
  "setDockWidth l px =
     (case px of Fin q \<Rightarrow> l\<lparr>dockWidth := clamp q DOCK_WIDTH_MIN DOCK_WIDTH_MAX\<rparr> | _ \<Rightarrow> l)"

definition setDockDetailHeight :: "layout \<Rightarrow> jsnum \<Rightarrow> layout" where
  "setDockDetailHeight l px =
     (case px of Fin q \<Rightarrow> l\<lparr>dockDetailHeight := Some (clamp q DETAIL_HEIGHT_MIN DETAIL_HEIGHT_MAX)\<rparr> | _ \<Rightarrow> l)"

definition clearDockDetailHeight :: "layout \<Rightarrow> layout" where
  "clearDockDetailHeight l = l\<lparr>dockDetailHeight := None\<rparr>"

definition toggleDockRefs :: "layout \<Rightarrow> layout" where
  "toggleDockRefs l = l\<lparr>dockRefsHidden := \<not> dockRefsHidden l\<rparr>"

text \<open>The target is an unknown value: \<open>null\<close> and junk read as no target.\<close>

definition setDockTarget :: "layout \<Rightarrow> jsval \<Rightarrow> layout" where
  "setDockTarget l target =
     (let hostId = as_string (js_get target ''hostId''); repo = as_string (js_get target ''repo'') in
      l\<lparr>dockTarget := (if truthy hostId then Some \<lparr>dt_host = the hostId, dt_repo = repo\<rparr> else None)\<rparr>)"

section \<open>Gestures\<close>

record pointer =
  px :: rat
  py :: rat
  pt :: rat

datatype gesture = Click | Drag

text \<open>\<open>Math.hypot(dx, dy) <= 6\<close>, with both sides squared.\<close>

definition guardIntent :: "pointer \<Rightarrow> pointer \<Rightarrow> gesture" where
  "guardIntent down up =
     (if (px up - px down) ^ 2 + (py up - py down) ^ 2 \<le> DRAG_PX ^ 2 \<and> pt up - pt down \<le> DRAG_MS
      then Click else Drag)"

record rect =
  left :: rat
  top :: rat
  right :: rat
  bottom :: rat

definition inside :: "rat \<Rightarrow> rat \<Rightarrow> rect \<Rightarrow> bool" where
  "inside x y r = (x \<ge> left r \<and> x < right r \<and> y \<ge> top r \<and> y < bottom r)"

definition dropTargetIndex :: "(int \<times> rect) list \<Rightarrow> rat \<Rightarrow> rat \<Rightarrow> int option" where
  "dropTargetIndex rects x y = map_option fst (List.find (\<lambda>(index, r). inside x y r) rects)"

section \<open>Mounted panes\<close>

record mounted_pane =
  mp_id :: string
  mp_hidden :: "int option"

abbreviation hidden_since :: "mounted_pane \<Rightarrow> int" where
  "hidden_since p \<equiv> the (mp_hidden p)"

definition stalePaneIds :: "mounted_pane list \<Rightarrow> int \<Rightarrow> int option \<Rightarrow> nat option \<Rightarrow> string list" where
  "stalePaneIds panes now optTtl optMax =
     (let ttlMs = (case optTtl of Some t \<Rightarrow> t | None \<Rightarrow> 10 * 60000);
          mx = (case optMax of Some m \<Rightarrow> m | None \<Rightarrow> 12);
          hidden = js_sort (by_key hidden_since) (filter (\<lambda>p. mp_hidden p \<noteq> None) panes);
          stale = map mp_id (filter (\<lambda>p. now - hidden_since p \<ge> ttlMs) hidden);
          over = length panes - mx;
          capped = map mp_id (take over (filter (\<lambda>p. mp_id p \<notin> set stale) hidden))
      in stale @ capped)"

definition orphanPaneIds :: "string list \<Rightarrow> grid_cell list \<Rightarrow> string list" where
  "orphanPaneIds mounted cs = filter (\<lambda>i. i \<notin> set (live_ids cs)) mounted"

definition shouldDetachAll :: "int option \<Rightarrow> int \<Rightarrow> int option \<Rightarrow> bool" where
  "shouldDetachAll tabHiddenSince now optTtl =
     (case tabHiddenSince of None \<Rightarrow> False
      | Some since \<Rightarrow> now - since \<ge> (case optTtl of Some t \<Rightarrow> t | None \<Rightarrow> 10 * 60000))"

section \<open>Lists of cells\<close>

lemma live_ids_simps [simp]:
  "live_ids [] = []"
  "live_ids (None # cs) = live_ids cs"
  "live_ids (Some s # cs) = s_id s # live_ids cs"
  "live_ids (cs @ ds) = live_ids cs @ live_ids ds"
  "live_ids (replicate n None) = []"
  by (simp_all add: live_ids_def)

lemma set_live_ids: "set (live_ids cs) = {s_id s |s. Some s \<in> set cs}"
  by (force simp: live_ids_def)

lemma has_id_Some [simp]: "has_id i (Some s) \<longleftrightarrow> i = Some (s_id s)" "\<not> has_id i None"
  by (auto simp: has_id_def)

lemma find_index_has_id: "0 \<le> find_index (has_id (Some i)) cs \<longleftrightarrow> i \<in> set (live_ids cs)"
proof -
  have "find_index (has_id (Some i)) cs < 0 \<longleftrightarrow> i \<notin> set (live_ids cs)"
    by (auto simp: find_index_neg_iff set_live_ids has_id_def split: option.splits)
  then show ?thesis by linarith
qed

lemma trimTail_eq: "\<exists>n. cs = trimTail cs @ replicate n None"
proof -
  let ?t = "takeWhile (\<lambda>cell. cell = None) (rev cs)"
  have "\<forall>c \<in> set (rev ?t). c = None" by (auto dest: set_takeWhileD)
  then have t: "replicate (length (rev ?t)) None = rev ?t" by (rule replicate_length_same)
  have "cs = rev (?t @ dropWhile (\<lambda>cell. cell = None) (rev cs))"
    by (simp only: takeWhile_dropWhile_id rev_rev_ident)
  then have "cs = trimTail cs @ rev ?t" unfolding trimTail_def by (simp only: rev_append)
  then show ?thesis by (subst (asm) t [symmetric]) blast
qed

definition trimmed :: "grid_cell list \<Rightarrow> bool" where
  "trimmed cs = (cs = [] \<or> last cs \<noteq> None)"

lemma trimmed_trimTail: "trimmed (trimTail cs)"
  using hd_dropWhile [of "\<lambda>cell. cell = None" "rev cs"]
  by (auto simp add: trimmed_def trimTail_def last_rev simp del: not_None_eq dropWhile_eq_Nil_conv)

lemma live_ids_trimTail [simp]: "live_ids (trimTail cs) = live_ids cs"
proof -
  obtain n where "cs = trimTail cs @ replicate n None" using trimTail_eq by blast
  then have "live_ids cs = live_ids (trimTail cs) @ live_ids (replicate n None)"
    by (simp only: flip: live_ids_simps(4))
  then show ?thesis by simp
qed

lemma length_trimTail: "length (trimTail cs) \<le> length cs"
  by (metis length_rev length_dropWhile_le trimTail_def)

text \<open>Reading a cell past the end reads an empty one, so dropping the tail changes no reading.\<close>

definition cell_of :: "grid_cell list \<Rightarrow> nat \<Rightarrow> grid_cell" where
  "cell_of cs i = (if i < length cs then cs ! i else None)"

lemma cell_at_nat [simp]: "cell_at l (int i) = cell_of (slots l) i"
  by (simp add: cell_at_def cell_of_def)

lemma cell_at_neg: "i < 0 \<Longrightarrow> cell_at l i = None"
  by (simp add: cell_at_def nth_opt_def)

lemma cell_of_append: "cell_of (cs @ ds) i = (if i < length cs then cs ! i else cell_of ds (i - length cs))"
  by (auto simp: cell_of_def nth_append)

lemma cell_of_replicate [simp]: "cell_of (replicate n None) i = None"
  by (simp add: cell_of_def)

lemma cell_of_trimTail [simp]: "cell_of (trimTail cs) i = cell_of cs i"
proof -
  obtain n where n: "cs = trimTail cs @ replicate n None" using trimTail_eq by blast
  have "cell_of (trimTail cs @ replicate n None) i = cell_of (trimTail cs) i"
    by (simp add: cell_of_append) (simp add: cell_of_def)
  with n show ?thesis by simp
qed

lemma cell_of_pad [simp]: "cell_of (pad_cells cs n) i = cell_of cs i"
  by (simp add: pad_cells_def cell_of_append) (simp add: cell_of_def)

lemma cell_of_update: "cell_of (cs[j := c]) i = (if i = j \<and> j < length cs then c else cell_of cs i)"
  by (auto simp: cell_of_def)

lemma length_pad [simp]: "length (pad_cells cs n) = max (length cs) n"
  by (simp add: pad_cells_def)

lemma live_ids_pad [simp]: "live_ids (pad_cells cs n) = live_ids cs"
  by (simp add: pad_cells_def)

lemma cell_of_write:
  "cell_of (write_cell (pad_cells cs i) i c) j = (if j = i then c else cell_of cs j)"
  by (simp add: write_cell_def cell_of_update cell_of_append) (auto simp: cell_of_def pad_cells_def nth_append)

lemma cell_of_Some_in: "cell_of cs i = Some s \<Longrightarrow> Some s \<in> set cs"
  by (auto simp: cell_of_def split: if_splits) (metis nth_mem)

lemma live_ids_mset: "mset cs = mset ds \<Longrightarrow> mset (live_ids cs) = mset (live_ids ds)"
  by (simp add: live_ids_def)

text \<open>Writing a cell with a fresh id keeps the ids distinct.\<close>

lemma distinct_write:
  assumes "distinct (live_ids cs)" and "\<forall>s. c = Some s \<longrightarrow> s_id s \<notin> set (live_ids cs)"
  shows "distinct (live_ids (write_cell cs i c))"
proof (cases "i < length cs")
  case True
  then have "live_ids cs = live_ids (take i cs) @ live_ids [cs ! i] @ live_ids (drop (Suc i) cs)"
    by (metis id_take_nth_drop live_ids_simps(4) append_Cons append_Nil)
  moreover have "live_ids (write_cell cs i c) = live_ids (take i cs) @ live_ids [c] @ live_ids (drop (Suc i) cs)"
    using True by (simp add: write_cell_def upd_conv_take_nth_drop flip: live_ids_simps(4))
  ultimately show ?thesis using assms by (cases c) auto
next
  case False
  with assms show ?thesis by (cases c) (auto simp: write_cell_def)
qed

lemma set_live_ids_write: "set (live_ids (write_cell cs i c)) \<subseteq> set (live_ids [c]) \<union> set (live_ids cs)"
  by (cases c) (auto simp: write_cell_def set_live_ids dest!: set_update_subset_insert [THEN subsetD])

section \<open>Pages\<close>

lemma ceil_div_spare:
  fixes n s :: nat
  assumes "0 < n" and "0 < s"
  shows "(n + s - 1) div s + (if n mod s = 0 then 1 else 0) = n div s + 1"
proof -
  define q where "q = n div s"
  define r where "r = n mod s"
  have "q * s + r = n" unfolding q_def r_def by (rule div_mult_mod_eq)
  then have n: "n + s - 1 = (r + s - 1) + q * s" using assms by linarith
  have e: "(n + s - 1) div s = q + (r + s - 1) div s"
    unfolding n by (rule div_mult_self1) (use assms(2) in simp)
  have "r < s" unfolding r_def using assms(2) by simp
  then have "(r + s - 1) div s = (if r = 0 then 0 else 1)"
    using div_nat_eqI [of s 1 "r + s - 1"] by auto
  then show ?thesis unfolding e unfolding q_def r_def by simp
qed

lemma pageCount_eq: "pageCount l = int (length (slots l) div GRID_SIZE (mode l)) + 1"
proof (cases "slots l = []")
  case False
  then show ?thesis
    using ceil_div_spare [of "length (slots l)" "GRID_SIZE (mode l)"]
    by (simp add: pageCount_def Let_def split: if_splits)
qed (simp add: pageCount_def)

lemma pageCount_pos [simp]: "0 < pageCount l" "1 \<le> pageCount l" "pageCount l \<noteq> 0"
  by (simp_all add: pageCount_eq)

lemma clampedPage_bounds: "0 \<le> clampedPage l" "clampedPage l < pageCount l"
  unfolding clampedPage_def using pageCount_pos(1) [of l] by (simp_all add: min_def max_def)

text \<open>\<open>n | 0\<close> is \<open>n\<close> below \<open>2^31\<close>; the grids that fit there are \<open>small\<close>.\<close>

definition small :: "layout \<Rightarrow> bool" where
  "small l = (length (slots l) < 2 ^ 31)"

lemma small_pageCount: "small l \<Longrightarrow> pageCount l \<le> 2 ^ 31"
proof -
  assume "small l"
  then have "length (slots l) div GRID_SIZE (mode l) < 2 ^ 31"
    unfolding small_def by (meson div_le_dividend le_less_trans)
  then have "int (length (slots l) div GRID_SIZE (mode l)) < 2 ^ 31" by simp
  then show ?thesis unfolding pageCount_eq by linarith
qed

lemma clampedPage_id: "small l \<Longrightarrow> 0 \<le> page l \<Longrightarrow> page l < pageCount l \<Longrightarrow> clampedPage l = page l"
  using small_pageCount [of l] by (simp add: clampedPage_def to_int32_id)

lemma small_page [simp]:
  "small (l\<lparr>page := p\<rparr>) = small l" "small (l\<lparr>zoomId := z\<rparr>) = small l"
  "small (l\<lparr>mode := m\<rparr>) = small l" "small (l\<lparr>focusId := z\<rparr>) = small l"
  by (simp_all add: small_def)

lemma pageCount_fields [simp]:
  "pageCount (l\<lparr>page := p\<rparr>) = pageCount l" "pageCount (l\<lparr>zoomId := z\<rparr>) = pageCount l"
  "pageCount (l\<lparr>focusId := z\<rparr>) = pageCount l"
  by (simp_all add: pageCount_def)

lemma js_rem_nonneg: "0 \<le> a \<Longrightarrow> 0 < b \<Longrightarrow> js_rem a b = a mod b"
  by (cases "a = 0") (simp_all add: js_rem_def)

lemma js_rem_wrap: "0 < c \<Longrightarrow> js_rem (js_rem a c + c) c = a mod c"
proof -
  assume c: "0 < c"
  have b: "\<bar>a\<bar> mod c < c" "0 \<le> \<bar>a\<bar> mod c" using c by simp_all
  have "0 \<le> js_rem a c + c" using b c less_imp_le [OF b(1)]
    by (cases "0 \<le> a") (auto simp: js_rem_def sgn_if)
  moreover have "js_rem a c mod c = a mod c"
    using c by (auto simp: js_rem_def sgn_if mod_minus_eq)
  ultimately show ?thesis using c by (simp add: js_rem_nonneg)
qed

lemma page_movePage: "page (movePage l delta) = (clampedPage l + finite_step delta) mod pageCount l"
  by (simp add: movePage_def Let_def js_rem_wrap)

lemma clampedPage_movePage:
  "small l \<Longrightarrow> clampedPage (movePage l delta) = (clampedPage l + finite_step delta) mod pageCount l"
proof -
  assume "small l"
  moreover have "small (movePage l delta) = small l" "pageCount (movePage l delta) = pageCount l"
    by (simp_all add: movePage_def Let_def)
  ultimately show ?thesis
    using clampedPage_id [of "movePage l delta"] by (simp add: page_movePage)
qed

lemma finite_step_of_int [simp]: "finite_step (Fin (of_int d)) = d"
  by simp

lemma window_start_bounds: "0 \<le> window_start l" "window_start l \<le> int (length (slots l))"
proof -
  let ?s = "GRID_SIZE (mode l)"
  have "clampedPage l \<le> int (length (slots l) div ?s)"
    using clampedPage_bounds(2) [of l] by (simp add: pageCount_eq)
  then have "window_start l \<le> int (length (slots l) div ?s) * int ?s"
    unfolding window_start_def by (simp add: mult_right_mono)
  also have "\<dots> = int (length (slots l) div ?s * ?s)" by simp
  also have "\<dots> \<le> int (length (slots l))" by (simp only: of_nat_le_iff) simp
  finally show "window_start l \<le> int (length (slots l))" .
  show "0 \<le> window_start l" using clampedPage_bounds(1) [of l] by (simp add: window_start_def)
qed

lemma anchorIndex_bounds: "0 \<le> anchorIndex l" "anchorIndex l \<le> int (length (slots l))"
  using window_start_bounds [of l] find_index_nonneg [of _ "slots l"]
  by (auto simp: anchorIndex_def Let_def split: if_splits) (metis less_imp_le nat_less_iff)+

text \<open>The window of a page holds exactly the indexes whose quotient by the window size is the page.\<close>

lemma window_member:
  assumes "0 \<le> i"
  shows "i \<in> set (map (\<lambda>k. window_start l + int k) [0..<GRID_SIZE (mode l)])
    \<longleftrightarrow> clampedPage l = i div int (GRID_SIZE (mode l))"
proof -
  let ?s = "int (GRID_SIZE (mode l))"
  have "i \<in> set (map (\<lambda>k. window_start l + int k) [0..<GRID_SIZE (mode l)])
    \<longleftrightarrow> window_start l \<le> i \<and> i < window_start l + ?s"
    by (auto simp: image_iff) (rule bexI [of _ "nat (i - window_start l)"], auto)
  also have "\<dots> \<longleftrightarrow> clampedPage l = i div ?s"
    unfolding window_start_def
    by (cases "mode l") auto
  finally show ?thesis .
qed

lemma quotient_below_pageCount: "i \<le> int (length (slots l)) \<Longrightarrow> i div int (GRID_SIZE (mode l)) < pageCount l"
proof -
  assume "i \<le> int (length (slots l))"
  then have "i div int (GRID_SIZE (mode l)) \<le> int (length (slots l)) div int (GRID_SIZE (mode l))"
    by (rule zdiv_mono1) simp
  then show ?thesis by (simp add: pageCount_eq zdiv_int)
qed

lemma cell_at_SomeD: "cell_at l i = Some s \<Longrightarrow> 0 \<le> i \<and> i < int (length (slots l)) \<and> slots l ! nat i = Some s"
  by (auto simp: cell_at_def nth_opt_def split: if_splits)

lemma cell_at_fields [simp]:
  "cell_at (l\<lparr>page := p\<rparr>) i = cell_at l i" "cell_at (l\<lparr>zoomId := z\<rparr>) i = cell_at l i"
  "cell_at (l\<lparr>focusId := z\<rparr>) i = cell_at l i" "cell_at (l\<lparr>mode := m\<rparr>) i = cell_at l i"
  by (simp_all add: cell_at_def)

lemma cell_at_slots [simp]: "cell_at (l\<lparr>slots := cs\<rparr>) i = (if i < 0 then None else cell_of cs (nat i))"
  by (auto simp: cell_at_def nth_opt_def cell_of_def)

lemma cell_at_cell_of: "cell_at l i = (if i < 0 then None else cell_of (slots l) (nat i))"
  by (auto simp: cell_at_def nth_opt_def cell_of_def)

lemma withPage_fields [simp]:
  "slots (withPage l) = slots l" "mode (withPage l) = mode l" "zoomId (withPage l) = zoomId l"
  "focusId (withPage l) = focusId l" "cell_at (withPage l) i = cell_at l i"
  by (simp_all add: withPage_def)

section \<open>Properties of the views and the pager\<close>

text \<open>
  The cells drawn are exactly the cells at the indexes reported for
  them, in order; there is one of them while a live cell is zoomed and a full window of the mode
  otherwise, and the first index of a window is a multiple of its size inside the grid.
\<close>

theorem visible_window:
  "visibleSlots l = map (cell_at l) (visibleIndexes l)
   \<and> length (visibleIndexes l) = (if 0 \<le> zoomed_index l then 1 else GRID_SIZE (mode l))
   \<and> window_start l mod int (GRID_SIZE (mode l)) = 0
   \<and> 0 \<le> window_start l \<and> window_start l \<le> int (length (slots l))"
proof -
  have "visibleSlots l = map (cell_at l) (visibleIndexes l)"
  proof (cases "if truthy (zoomId l) then List.find (has_id (zoomId l)) (slots l) else None")
    case None
    then have "zoomed_index l < 0"
      by (auto simp: zoomed_index_def find_None_index split: if_splits)
    then show ?thesis using None by (simp add: visibleSlots_def visibleIndexes_def)
  next
    case (Some z)
    then have f: "List.find (has_id (zoomId l)) (slots l) = Some z" and t: "truthy (zoomId l)"
      by (simp_all split: if_splits)
    have "0 \<le> zoomed_index l" "slots l ! nat (zoomed_index l) = z"
      using find_is_nth [OF f] t by (simp_all add: zoomed_index_def)
    moreover from this have "nat (zoomed_index l) < length (slots l)"
      using find_index_nonneg [of "has_id (zoomId l)" "slots l"] t by (simp add: zoomed_index_def)
    ultimately have "cell_at l (zoomed_index l) = z"
      by (simp add: cell_at_cell_of cell_of_def)
    with Some \<open>0 \<le> zoomed_index l\<close> show ?thesis by (simp add: visibleSlots_def visibleIndexes_def)
  qed
  then show ?thesis
    using window_start_bounds [of l] by (simp add: visibleIndexes_def) (simp add: window_start_def)
qed

text \<open>
  The pager steps around the ring of pages: a step of any sign lands
  on the page modulo the page count, the opposite step comes back, and no cell is touched.
\<close>

theorem movePage_wraps:
  assumes "small l"
  shows "clampedPage (movePage l (Fin (of_int d))) = (clampedPage l + d) mod pageCount l
    \<and> clampedPage (movePage (movePage l (Fin (of_int d))) (Fin (of_int (- d)))) = clampedPage l
    \<and> slots (movePage l (Fin (of_int d))) = slots l"
proof -
  let ?n = "movePage l (Fin (of_int d))"
  have n: "small ?n" "pageCount ?n = pageCount l" "slots ?n = slots l"
    using assms by (simp_all add: movePage_def Let_def)
  have "((clampedPage l + d) mod pageCount l + - d) mod pageCount l = clampedPage l mod pageCount l"
    by (simp add: mod_simps)
  also have "\<dots> = clampedPage l" using clampedPage_bounds [of l] by simp
  finally show ?thesis
    using clampedPage_movePage [OF assms, of "Fin (of_int d)"]
      clampedPage_movePage [OF n(1), of "Fin (of_int (- d))"] n
    by (simp only: finite_step_of_int)
qed

text \<open>
  Changing to another mode leaves zoom and draws a window of
  the new size that contains the cell the user was at, focused, zoomed or first of the page.
\<close>

theorem cycleMode_keeps_anchor:
  assumes "small l" and "m \<noteq> mode l"
  shows "anchorIndex l \<in> set (visibleIndexes (cycleMode l (Some m)))
    \<and> length (visibleIndexes (cycleMode l (Some m))) = GRID_SIZE m
    \<and> slots (cycleMode l (Some m)) = slots l"
proof -
  let ?n = "l\<lparr>mode := m, zoomId := None\<rparr>" and ?a = "anchorIndex l"
  have a: "0 \<le> ?a" "?a \<le> int (length (slots ?n))" using anchorIndex_bounds [of l] by simp_all
  then have lt: "?a div int (GRID_SIZE m) < pageCount ?n"
    using quotient_below_pageCount [of ?a ?n] by simp
  then have c: "cycleMode l (Some m) = ?n\<lparr>page := ?a div int (GRID_SIZE m)\<rparr>" (is "_ = ?c")
    using assms(2) by (simp add: cycleMode_def Let_def min_def)
  have "0 \<le> ?a div int (GRID_SIZE m)" using a(1) by (simp add: pos_imp_zdiv_nonneg_iff)
  then have "clampedPage ?c = ?a div int (GRID_SIZE m)"
    using clampedPage_id [of ?c] assms(1) lt by simp
  then have "?a \<in> set (map (\<lambda>k. window_start ?c + int k) [0..<GRID_SIZE (mode ?c)])"
    using a(1) by (subst window_member) simp_all
  moreover have "visibleIndexes ?c = map (\<lambda>k. window_start ?c + int k) [0..<GRID_SIZE (mode ?c)]"
    by (simp add: visibleIndexes_def zoomed_index_def)
  ultimately show ?thesis unfolding c by simp
qed

text \<open>A concrete layout: five terminals on a 2x2 grid, the third cell empty.\<close>

definition sample_slot :: "string \<Rightarrow> terminal_slot" where
  "sample_slot i = \<lparr>s_id = i, s_host = ''h1'', s_kind = Attach, s_session = Some ''main'',
     s_backend = None, s_sessionId = None, s_tmuxId = None, s_intent = None, s_label = None, s_tags = []\<rparr>"

definition sample_layout :: layout where
  "sample_layout = defaultLayout\<lparr>slots := [Some (sample_slot ''s1''), Some (sample_slot ''s2''), None,
     Some (sample_slot ''s4''), Some (sample_slot ''s5'')], page := 1, focusId := Some ''s4''\<rparr>"

lemmas sample_defs = sample_layout_def sample_slot_def defaultLayout_def

lemma max_id_sample: "max_id (slots sample_layout) 0 = 5"
  by (simp add: sample_defs id_number_def is_digit_def js_number_def nat_of_str_def digit_val_def)

lemma small_sample [simp]: "small sample_layout"
  by (simp add: small_def sample_defs)

theorem movePage_wraps_witness: "clampedPage (movePage sample_layout (Fin (of_int 3))) = 0"
proof -
  have "clampedPage sample_layout = 1" "pageCount sample_layout = 2"
    by (simp_all add: clampedPage_def pageCount_def sample_defs to_int32_def)
  then show ?thesis using movePage_wraps [OF small_sample, of 3] by simp
qed

theorem cycleMode_keeps_anchor_witness:
  "3 \<in> set (visibleIndexes (cycleMode sample_layout (Some Split2)))"
proof -
  have "anchorIndex sample_layout = 3"
    by (simp add: anchorIndex_def sample_defs)
  then show ?thesis
    using cycleMode_keeps_anchor [OF small_sample, of Split2] by (simp add: sample_defs)
qed

section \<open>Properties of the cells\<close>

text \<open>
  Closing a pane empties its own cell and moves no other terminal,
  and leaves neither zoom nor focus on a terminal that was closed.
\<close>

theorem clearSlot_in_place:
  "cell_at (clearSlot l i) j = (if j = i then None else cell_at l j)
   \<and> (case cell_at l i of None \<Rightarrow> clearSlot l i = l
      | Some gone \<Rightarrow> zoomId (clearSlot l i) \<noteq> Some (s_id gone) \<and> focusId (clearSlot l i) \<noteq> Some (s_id gone))"
proof (cases "cell_at l i")
  case None
  then show ?thesis by (auto simp: clearSlot_def)
next
  case (Some gone)
  note d = cell_at_SomeD [OF Some]
  have "cell_at (clearSlot l i) j = (if j = i then None else cell_at l j)"
    using d Some by (auto simp: clearSlot_def cell_of_update cell_at_cell_of)
  then show ?thesis using Some by (simp add: clearSlot_def unless_gone_def)
qed

text \<open>
  Closing an empty cell inside the grid pulls every later
  cell forward by one and keeps the earlier ones; a filled cell and the padding stay as they are.
\<close>

theorem removeSlot_pulls_forward:
  assumes "0 \<le> i"
  shows "cell_at (removeSlot l i) j =
    (if emptyCellKind l i = Some Hole \<and> i \<le> j then cell_at l (j + 1) else cell_at l j)"
proof (cases "emptyCellKind l i = Some Hole")
  case True
  then have "i < int (length (slots l))" by (simp add: emptyCellKind_def split: if_splits)
  then obtain k where k: "i = int k" "k < length (slots l)"
    using assms by (metis of_nat_less_iff nonneg_int_cases)
  have "cell_of (take k (slots l) @ drop (Suc k) (slots l)) n
      = (if k \<le> n then cell_of (slots l) (Suc n) else cell_of (slots l) n)" for n
    using k(2) by (auto simp: cell_of_append) (auto simp: cell_of_def)
  then show ?thesis
    using True k by (auto simp: removeSlot_def Let_def slice_pos_def cell_at_cell_of nat_add_distrib)
qed (simp add: removeSlot_def)

theorem removeSlot_pulls_forward_witness:
  "cell_at (removeSlot sample_layout 2) 2 = Some (sample_slot ''s4'')"
  by (subst removeSlot_pulls_forward)
    (simp_all add: emptyCellKind_def cell_at_def nth_opt_def sample_layout_def defaultLayout_def)

text \<open>
  With the index -1, which is not a cell, the reducer
  does not leave the layout alone: \<open>slice\<close> counts from the end, and a grid of two terminals
  becomes one of three cells of which two carry the same id.
\<close>

theorem removeSlot_negative_duplicates:
  "slots (removeSlot (defaultLayout\<lparr>slots := [Some a, Some b]\<rparr>) (-1)) = [Some a, Some a, Some b]"
  by (simp add: removeSlot_def emptyCellKind_def cell_at_neg slice_pos_def trimTail_def Let_def)

lemma trimTail_trimmed: "trimmed cs \<Longrightarrow> trimTail cs = cs"
  by (cases cs rule: rev_cases) (auto simp: trimmed_def trimTail_def)

lemma cell_of_eqI:
  assumes "trimmed cs" and "trimmed ds" and "\<And>k. cell_of cs k = cell_of ds k"
  shows "cs = ds"
proof -
  have le: "length xs \<le> length ys" if "trimmed xs" "\<And>k. cell_of xs k = cell_of ys k" for xs ys
  proof (rule ccontr)
    assume "\<not> length xs \<le> length ys"
    then have "cell_of ys (length xs - 1) = None" and ne: "xs \<noteq> []" by (auto simp: cell_of_def)
    then have "cell_of xs (length xs - 1) = None" using that(2) by simp
    then show False using that(1) ne by (simp add: trimmed_def cell_of_def last_conv_nth)
  qed
  have len: "length cs = length ds"
    using le [OF assms(1)] le [OF assms(2)] assms(3) by (simp add: le_antisym)
  show ?thesis
  proof (rule nth_equalityI [OF len])
    fix k assume "k < length cs"
    then show "cs ! k = ds ! k" using assms(3) [of k] len by (simp add: cell_of_def)
  qed
qed

lemma swapSlots_cells:
  assumes "0 \<le> i" and "0 \<le> j"
  shows "cell_at (swapSlots l (Fin (of_int i)) (Fin (of_int j))) k =
      (if k = i then cell_at l j else if k = j then cell_at l i else cell_at l k)"
proof (cases "i = j")
  case False
  then obtain a b where ab: "i = int a" "j = int b" "a \<noteq> b"
    using assms by (metis nonneg_int_cases)
  let ?p = "pad_cells (slots l) (Suc (max a b))"
  have len: "a < length ?p" "b < length ?p" by auto
  then have "?p ! a = cell_of ?p a" "?p ! b = cell_of ?p b" by (simp_all only: cell_of_def if_True)
  then have n: "?p ! a = cell_of (slots l) a" "?p ! b = cell_of (slots l) b" by simp_all
  have "cell_of (trimTail (?p[a := ?p ! b, b := ?p ! a])) m =
      (if m = a then cell_of (slots l) b else if m = b then cell_of (slots l) a else cell_of (slots l) m)" for m
    using ab(3) len by (simp add: cell_of_update n del: length_pad)
  then show ?thesis
    using ab by (auto simp: swapSlots_def Let_def cell_at_cell_of max_def)
qed (simp add: swapSlots_def)

lemma swapSlots_trimmed: "trimmed (slots l) \<Longrightarrow> trimmed (slots (swapSlots l i j))"
  by (simp add: swapSlots_def Let_def trimmed_trimTail)

lemma swapSlots_other:
  "swapSlots l i j = l\<lparr>slots := slots (swapSlots l i j)\<rparr>"
  by (simp add: swapSlots_def Let_def)

text \<open>
  Dropping a header on another cell exchanges the two cells and
  moves no other, zoom and focus stay with their terminals, and the same drag again restores a
  grid without trailing empty cells.
\<close>

theorem swapSlots_exchanges:
  assumes "0 \<le> i" and "0 \<le> j" and "trimmed (slots l)"
  shows "cell_at (swapSlots l (Fin (of_int i)) (Fin (of_int j))) k =
      (if k = i then cell_at l j else if k = j then cell_at l i else cell_at l k)
    \<and> swapSlots (swapSlots l (Fin (of_int i)) (Fin (of_int j))) (Fin (of_int i)) (Fin (of_int j)) = l"
proof -
  let ?sw = "\<lambda>l. swapSlots l (Fin (of_int i)) (Fin (of_int j))"
  have "slots (?sw (?sw l)) = slots l"
  proof (rule cell_of_eqI)
    fix n
    have "cell_at (?sw (?sw l)) (int n) = cell_at l (int n)"
      using assms(1,2) by (simp add: swapSlots_cells del: cell_at_nat)
    from this [unfolded cell_at_nat] show "cell_of (slots (?sw (?sw l))) n = cell_of (slots l) n" .
  qed (use assms(3) in \<open>simp_all add: swapSlots_trimmed\<close>)
  then have "?sw (?sw l) = l"
    by (metis swapSlots_other layout.surjective layout.update_convs(3))
  then show ?thesis using assms(1,2) by (simp add: swapSlots_cells)
qed

theorem swapSlots_exchanges_witness:
  "cell_at (swapSlots sample_layout (Fin (of_int 4)) (Fin (of_int 7))) 7 = Some (sample_slot ''s5'')"
  using swapSlots_exchanges [of 4 7 sample_layout 7]
  by (simp add: trimmed_def cell_at_def nth_opt_def sample_layout_def defaultLayout_def)

section \<open>Fresh ids\<close>

definition id_below :: "nat \<Rightarrow> string \<Rightarrow> bool" where
  "id_below n i = (case id_number i of None \<Rightarrow> True | Some k \<Rightarrow> k \<le> n)"

lemma max_id_le: "max_id cs mx \<le> n \<longleftrightarrow> mx \<le> n \<and> (\<forall>i \<in> set (live_ids cs). id_below n i)"
proof (induction cs arbitrary: mx)
  case (Cons c cs)
  then show ?case by (cases c) (auto simp: id_below_def split: option.splits)
qed simp

lemma id_below_max_id: "i \<in> set (live_ids cs) \<Longrightarrow> id_below (max_id cs 0) i"
  using max_id_le [of cs 0 "max_id cs 0"] by blast

lemma id_number_s: "id_number (CHR ''s'' # nat_str n) = Some (js_number (nat_str n))"
  using nat_str_digits [of n] by (simp add: id_number_def list_all_iff)

lemma nextSlotId_number:
  "max_id cs 0 + 1 < 2 ^ 53 \<Longrightarrow> id_number (nextSlotId cs) = Some (max_id cs 0 + 1)"
  by (simp add: nextSlotId_def id_number_s js_number_nat_str)

lemma nextSlotId_fresh: "max_id cs 0 + 1 < 2 ^ 53 \<Longrightarrow> nextSlotId cs \<notin> set (live_ids cs)"
  using id_below_max_id [of "nextSlotId cs" cs] nextSlotId_number [of cs] by (auto simp: id_below_def)

lemma nextSlotId_not_Nil [simp]: "nextSlotId cs \<noteq> []"
  by (simp add: nextSlotId_def)

lemma max_id_pad [simp]: "max_id (pad_cells cs n) 0 = max_id cs 0"
  by (rule antisym; subst max_id_le) (simp_all add: max_id_le [symmetric] id_below_max_id)

lemma nextSlotId_pad [simp]: "nextSlotId (pad_cells cs n) = nextSlotId cs"
  by (simp add: nextSlotId_def)

lemma bit_length_Suc: "0 < n \<Longrightarrow> bit_length n = Suc (bit_length (n div 2))"
  by (subst bit_length.simps) simp

lemma bit_length_bounds: "2 ^ k \<le> n \<Longrightarrow> n < 2 ^ Suc k \<Longrightarrow> bit_length n = Suc k"
proof (induction k arbitrary: n)
  case 0
  then have "n = 1" by simp
  then show ?case by (simp add: bit_length_Suc) (simp add: bit_length.simps)
next
  case (Suc k)
  have "2 ^ k \<le> n div 2" "n div 2 < 2 ^ Suc k" using Suc.prems by auto
  then have "bit_length (n div 2) = Suc k" by (rule Suc.IH)
  moreover have "0 < n" using Suc.prems(1) by (metis gr0I less_le_trans zero_less_numeral zero_less_power)
  ultimately show ?case by (simp add: bit_length_Suc)
qed

lemma dbl_edge: "dbl (2 ^ 53) = 2 ^ 53" "dbl (2 ^ 53 + 1) = 2 ^ 53"
  using bit_length_bounds [of 53 "2 ^ 53"] bit_length_bounds [of 53 "2 ^ 53 + 1"]
  by (simp_all add: dbl_def)

text \<open>
  A stored id that spells \<open>2^53\<close> breaks the promise of
  a fresh id: the next id of that grid is the same id again, because the sum is rounded.
\<close>

theorem nextSlotId_collides:
  "nextSlotId [Some (sample_slot (CHR ''s'' # nat_str (2 ^ 53)))] = CHR ''s'' # nat_str (2 ^ 53)"
proof -
  have "js_number (nat_str (2 ^ 53)) = 2 ^ 53"
    using dbl_edge(1) by (simp only: js_number_def nat_of_str_nat_str)
  then have "id_number (CHR ''s'' # nat_str (2 ^ 53)) = Some (2 ^ 53)"
    by (simp only: id_number_s)
  moreover have "s_id (sample_slot i) = i" for i by (simp add: sample_slot_def)
  ultimately have "max_id [Some (sample_slot (CHR ''s'' # nat_str (2 ^ 53)))] 0 = 2 ^ 53"
    by (simp only: max_id.simps option.case max_0L)
  then show ?thesis using dbl_edge(2) by (simp only: nextSlotId_def)
qed

section \<open>The grid as a machine\<close>

text \<open>The reducers, as the actions a user interface sends.\<close>

datatype grid_action =
    CycleMode "grid_mode option" | MovePage jsnum | ToggleZoom "string option"
  | FocusSlot "string option" | RevealSlot int | AssignSlot jsnum "cell_target option"
  | PickerApply "jsnum option" "cell_target option" | ClearSlot int | RemoveSlot int
  | SwapSlots jsnum jsnum | SetPresentation string jsval | AdoptNative string string
  | RenameSessions string rename_target string | ToggleSidebar | SetSidebarWidth jsnum
  | SetClickAction string | ToggleFiles | SetFilesShare jsnum | SetFilesTarget "string option" string
  | ToggleDock | SetDockWidth jsnum | SetDetailHeight jsnum | ClearDetailHeight | ToggleDockRefs
  | SetDockTarget jsval

fun grid_step :: "layout \<Rightarrow> grid_action \<Rightarrow> layout" where
  "grid_step l (CycleMode m) = cycleMode l m"
| "grid_step l (MovePage d) = movePage l d"
| "grid_step l (ToggleZoom i) = toggleZoom l i"
| "grid_step l (FocusSlot i) = focusSlot l i"
| "grid_step l (RevealSlot i) = revealSlot l i"
| "grid_step l (AssignSlot i t) = assignSlot l i t"
| "grid_step l (PickerApply i t) = pickerApply l i t"
| "grid_step l (ClearSlot i) = clearSlot l i"
| "grid_step l (RemoveSlot i) = removeSlot l i"
| "grid_step l (SwapSlots i j) = swapSlots l i j"
| "grid_step l (SetPresentation i v) = setSlotPresentation l i v"
| "grid_step l (AdoptNative i sid) = adoptNativeSession l i sid"
| "grid_step l (RenameSessions h t n) = renameSlotSessions l h t n"
| "grid_step l ToggleSidebar = toggleSidebar l"
| "grid_step l (SetSidebarWidth x) = setSidebarWidth l x"
| "grid_step l (SetClickAction a) = setClickAction l a"
| "grid_step l ToggleFiles = toggleFiles l"
| "grid_step l (SetFilesShare x) = setFilesShare l x"
| "grid_step l (SetFilesTarget h p) = setFilesTarget l h p"
| "grid_step l ToggleDock = toggleDock l"
| "grid_step l (SetDockWidth x) = setDockWidth l x"
| "grid_step l (SetDetailHeight x) = setDockDetailHeight l x"
| "grid_step l ClearDetailHeight = clearDockDetailHeight l"
| "grid_step l ToggleDockRefs = toggleDockRefs l"
| "grid_step l (SetDockTarget v) = setDockTarget l v"

definition cells_ok :: "nat \<Rightarrow> grid_cell list \<Rightarrow> bool" where
  "cells_ok n cs = (distinct (live_ids cs) \<and> max_id cs 0 \<le> n \<and> trimmed cs)"

definition panels_ok :: "layout \<Rightarrow> bool" where
  "panels_ok l = (sidebarWidth l \<in> {180..720} \<and> dockWidth l \<in> {260..900} \<and> filesShare l \<in> {20..80}
     \<and> (case dockDetailHeight l of None \<Rightarrow> True | Some h \<Rightarrow> h \<in> {120..900}))"

definition layout_ok :: "nat \<Rightarrow> layout \<Rightarrow> bool" where
  "layout_ok n l = (cells_ok n (slots l) \<and> panels_ok l \<and> 0 \<le> page l)"

lemma clamp_bounds: "mn \<le> mx \<Longrightarrow> clamp q mn mx \<in> {mn..mx}"
  by (auto simp: clamp_def)

lemma trimmed_write: "trimmed cs \<Longrightarrow> trimmed (write_cell (pad_cells cs i) i (Some s))"
  by (cases cs rule: rev_cases)
    (auto simp: trimmed_def write_cell_def pad_cells_def list_update_append split: nat.splits)

lemma cells_ok_write:
  assumes "cells_ok n cs" and "n + 1 < 2 ^ 53" and "s_id s = nextSlotId (pad_cells cs i)"
  shows "cells_ok (Suc n) (write_cell (pad_cells cs i) i (Some s))"
proof -
  let ?p = "pad_cells cs i"
  have m: "max_id ?p 0 + 1 < 2 ^ 53" "max_id ?p 0 \<le> n" using assms(1,2) by (simp_all add: cells_ok_def)
  have "id_below (Suc n) (s_id s)"
    using nextSlotId_number [OF m(1)] m(2) assms(3) by (simp add: id_below_def)
  moreover have "id_below (Suc n) j" if "j \<in> set (live_ids cs)" for j
    using that assms(1) max_id_le [of cs 0 n] by (fastforce simp: cells_ok_def id_below_def split: option.splits)
  ultimately have "max_id (write_cell ?p i (Some s)) 0 \<le> Suc n"
    using set_live_ids_write [of ?p i "Some s"] by (auto simp: max_id_le)
  moreover have "distinct (live_ids (write_cell ?p i (Some s)))"
    using assms(1,3) nextSlotId_fresh [OF m(1)] by (intro distinct_write) (auto simp: cells_ok_def)
  ultimately show ?thesis using assms(1) trimmed_write by (simp add: cells_ok_def)
qed

lemma cells_ok_Suc: "cells_ok n cs \<Longrightarrow> cells_ok (Suc n) cs"
  by (simp add: cells_ok_def)

text \<open>Cells whose ids are a subsequence or a permutation of the old ones, and whose tail is trimmed.\<close>

lemma max_id_subset: "set (live_ids ds) \<subseteq> set (live_ids cs) \<Longrightarrow> max_id cs 0 \<le> n \<Longrightarrow> max_id ds 0 \<le> n"
  by (auto simp: max_id_le)

lemma cells_ok_trim:
  assumes "cells_ok n cs" and "mset (live_ids ds) \<subseteq># mset (live_ids cs)"
  shows "cells_ok n (trimTail ds)"
proof -
  have "set (live_ids ds) \<subseteq> set (live_ids cs)" using assms(2) by (metis set_mset_mono set_mset_mset)
  moreover obtain rest where "mset (live_ids cs) = mset (live_ids ds @ rest)"
    using assms(2) ex_mset by (metis mset_append mset_subset_eq_exists_conv)
  then have "distinct (live_ids ds)"
    using assms(1) by (metis cells_ok_def distinct_append mset_eq_imp_distinct_iff)
  ultimately show ?thesis
    using assms(1) trimmed_trimTail max_id_subset [of "trimTail ds" cs] by (simp add: cells_ok_def)
qed

lemma cells_ok_map:
  assumes "\<And>s. s_id (f s) = s_id s"
  shows "cells_ok n (map (map_option f) cs) = cells_ok n cs"
proof -
  have ids: "live_ids (map (map_option f) cs) = live_ids cs"
  proof (induction cs)
    case (Cons c cs)
    then show ?case by (cases c) (simp_all add: assms)
  qed simp
  then have "max_id (map (map_option f) cs) 0 \<le> n \<longleftrightarrow> max_id cs 0 \<le> n"
    by (simp add: max_id_le)
  with ids show ?thesis by (cases "cs = []") (auto simp: cells_ok_def trimmed_def last_map)
qed

lemma map_slots_ok: "(\<And>s. s_id (f s) = s_id s) \<Longrightarrow> layout_ok n (map_slots f l) = layout_ok n l"
  by (simp add: layout_ok_def map_slots_def cells_ok_map panels_ok_def)

lemma slot_maps_keep_id [simp]:
  "s_id (adopt_slot i sid s) = s_id s" "s_id (rename_slot h t nm s) = s_id s"
  "s_id (present_slot i p s) = s_id s"
  by (simp_all add: adopt_slot_def rename_slot_def present_slot_def Let_def)

lemma page_withPage: "0 \<le> page (withPage l)"
  using clampedPage_bounds(1) [of l] by (simp add: withPage_def clampedPage_def)

lemma withPage_ok: "cells_ok n (slots l) \<Longrightarrow> panels_ok l \<Longrightarrow> layout_ok n (withPage l)"
  using page_withPage [of l] by (simp add: layout_ok_def) (simp add: withPage_def panels_ok_def)

lemma withPage_okI:
  assumes "layout_ok n l" and "cells_ok n cs"
  shows "layout_ok n (withPage (l\<lparr>slots := cs\<rparr>))"
    and "layout_ok n (withPage (l\<lparr>slots := cs, zoomId := z, focusId := f\<rparr>))"
  by (rule withPage_ok; use assms in \<open>simp add: layout_ok_def panels_ok_def\<close>)+

lemma layout_ok_Suc: "layout_ok n l \<Longrightarrow> layout_ok (Suc n) l"
  by (simp add: layout_ok_def cells_ok_Suc)

lemma assignSlot_ok:
  assumes "n + 1 < 2 ^ 53" and "layout_ok n l"
  shows "layout_ok (Suc n) (assignSlot l index target)"
proof -
  have "cells_ok (Suc n) (write_cell (pad_cells (slots l) i) i
      (Some (target_slot (nextSlotId (pad_cells (slots l) i)) host t)))" for i host t
    by (rule cells_ok_write) (use assms in \<open>simp_all add: layout_ok_def target_slot_def\<close>)
  then show ?thesis using assms(2) layout_ok_Suc
    by (auto simp: assignSlot_def layout_ok_def panels_ok_def cells_ok_Suc Let_def split: option.splits)
qed

lemma clearSlot_ok:
  assumes "layout_ok n l" shows "layout_ok n (clearSlot l i)"
proof (cases "cell_at l i")
  case (Some gone)
  note d = cell_at_SomeD [OF Some]
  have "live_ids ((slots l)[nat i := None]) = live_ids (take (nat i) (slots l)) @ live_ids (drop (Suc (nat i)) (slots l))"
    using d by (simp add: upd_conv_take_nth_drop nat_less_iff)
  moreover have "live_ids (slots l) = live_ids (take (nat i) (slots l)) @ s_id gone # live_ids (drop (Suc (nat i)) (slots l))"
    using d id_take_nth_drop [of "nat i" "slots l"] by (metis live_ids_simps(3,4) nat_less_iff)
  ultimately have "mset (live_ids ((slots l)[nat i := None])) \<subseteq># mset (live_ids (slots l))" by simp
  then have "cells_ok n (trimTail ((slots l)[nat i := None]))"
    using assms by (auto simp: layout_ok_def intro: cells_ok_trim)
  then show ?thesis using assms Some
    by (simp add: clearSlot_def withPage_okI)
qed (use assms in \<open>simp add: clearSlot_def\<close>)

lemma removeSlot_ok:
  assumes "layout_ok n l" and "0 \<le> j" shows "layout_ok n (removeSlot l j)"
proof -
  obtain i where j: "j = int i" using assms(2) nonneg_int_cases by blast
  have "live_ids (take i cs) @ live_ids (drop i cs) = live_ids cs" for cs
    by (metis append_take_drop_id live_ids_simps(4))
  moreover have "mset (live_ids (drop (Suc i) cs)) \<subseteq># mset (live_ids (drop i cs))" for cs
    by (metis append_take_drop_id drop_drop live_ids_simps(4) mset_append mset_subset_eq_add_right plus_1_eq_Suc)
  ultimately have "mset (live_ids (take i cs @ drop (Suc i) cs)) \<subseteq># mset (live_ids cs)" for cs
    by (metis live_ids_simps(4) mset_append mset_subset_eq_mono_add_left_cancel)
  then have "cells_ok n (trimTail (take i (slots l) @ drop (Suc i) (slots l)))"
    using assms(1) by (auto simp: layout_ok_def intro: cells_ok_trim)
  then show ?thesis using assms
    unfolding j by (simp add: removeSlot_def Let_def slice_pos_def nat_add_distrib withPage_okI)
qed

lemma swapSlots_ok:
  assumes "layout_ok n l" shows "layout_ok n (swapSlots l i j)"
proof -
  have "mset (live_ids ((pad_cells cs (Suc (max a b)))[a := pad_cells cs (Suc (max a b)) ! b,
      b := pad_cells cs (Suc (max a b)) ! a])) = mset (live_ids cs)" for a b cs
    using live_ids_mset [OF mset_swap [of b "pad_cells cs (Suc (max a b))" a]] by simp
  then show ?thesis using assms
    by (auto simp: swapSlots_def layout_ok_def Let_def panels_ok_def intro!: cells_ok_trim)
qed

text \<open>A cell is removed at a position of the grid, not at a negative one.\<close>

fun proper_action :: "grid_action \<Rightarrow> bool" where
  "proper_action (RemoveSlot i) = (0 \<le> i)"
| "proper_action _ = True"

lemma grid_step_ok:
  assumes "n + 1 < 2 ^ 53" and "proper_action a" and ok: "layout_ok n l"
  shows "layout_ok (Suc n) (grid_step l a)"
proof (cases a)
  case (CycleMode m)
  have "layout_ok n (cycleMode l m)"
    using ok anchorIndex_bounds(1) [of l]
    by (auto simp: cycleMode_def layout_ok_def panels_ok_def Let_def pos_imp_zdiv_nonneg_iff le_diff_eq
        split: option.splits)
  then show ?thesis using CycleMode by (simp add: layout_ok_Suc)
next
  case (MovePage d)
  have "0 \<le> page (movePage l d)" by (simp add: page_movePage)
  then show ?thesis using MovePage ok
    by (simp add: layout_ok_def cells_ok_Suc panels_ok_def movePage_def Let_def)
next
  case (RevealSlot i)
  then show ?thesis using ok
    by (auto simp: revealSlot_def layout_ok_def cells_ok_Suc panels_ok_def pos_imp_zdiv_nonneg_iff
        dest: cell_at_SomeD split: option.splits)
next
  case (AssignSlot i t)
  then show ?thesis using assms(1) ok by (simp add: assignSlot_ok)
next
  case (PickerApply i t)
  then show ?thesis using assms(1) ok by (simp add: pickerApply_def assignSlot_ok)
next
  case (ClearSlot i)
  then show ?thesis using ok by (simp add: layout_ok_Suc clearSlot_ok)
next
  case (RemoveSlot i)
  then show ?thesis using ok assms(2) by (simp add: layout_ok_Suc removeSlot_ok)
next
  case (SwapSlots i j)
  then show ?thesis using ok by (simp add: layout_ok_Suc swapSlots_ok)
next
  case (SetPresentation i v)
  then show ?thesis using ok by (simp add: layout_ok_Suc setSlotPresentation_def map_slots_ok)
next
  case (AdoptNative i s)
  then show ?thesis using ok by (simp add: layout_ok_Suc adoptNativeSession_def map_slots_ok)
next
  case (RenameSessions h t m)
  then show ?thesis using ok by (simp add: layout_ok_Suc renameSlotSessions_def map_slots_ok)
next
  case (SetSidebarWidth x)
  have "clamp q SIDEBAR_WIDTH_MIN SIDEBAR_WIDTH_MAX \<in> {180..720}" for q
    using clamp_bounds [of SIDEBAR_WIDTH_MIN SIDEBAR_WIDTH_MAX q] by (simp add: bound_defs)
  then show ?thesis using SetSidebarWidth ok
    by (cases x) (simp_all add: setSidebarWidth_def layout_ok_def cells_ok_Suc panels_ok_def)
next
  case (SetFilesShare x)
  have "clamp q FILES_SHARE_MIN FILES_SHARE_MAX \<in> {20..80}" for q
    using clamp_bounds [of FILES_SHARE_MIN FILES_SHARE_MAX q] by (simp add: bound_defs)
  then show ?thesis using SetFilesShare ok
    by (cases x) (simp_all add: setFilesShare_def layout_ok_def cells_ok_Suc panels_ok_def)
next
  case (SetDockWidth x)
  have "clamp q DOCK_WIDTH_MIN DOCK_WIDTH_MAX \<in> {260..900}" for q
    using clamp_bounds [of DOCK_WIDTH_MIN DOCK_WIDTH_MAX q] by (simp add: bound_defs)
  then show ?thesis using SetDockWidth ok
    by (cases x) (simp_all add: setDockWidth_def layout_ok_def cells_ok_Suc panels_ok_def)
next
  case (SetDetailHeight x)
  have "clamp q DETAIL_HEIGHT_MIN DETAIL_HEIGHT_MAX \<in> {120..900}" for q
    using clamp_bounds [of DETAIL_HEIGHT_MIN DETAIL_HEIGHT_MAX q] by (simp add: bound_defs)
  then show ?thesis using SetDetailHeight ok
    by (cases x) (simp_all add: setDockDetailHeight_def layout_ok_def cells_ok_Suc panels_ok_def)
qed (use ok in \<open>simp_all add: layout_ok_def cells_ok_Suc panels_ok_def toggleZoom_def focusSlot_def
    toggleSidebar_def setClickAction_def toggleFiles_def setFilesTarget_def toggleDock_def
    clearDockDetailHeight_def toggleDockRefs_def setDockTarget_def Let_def\<close>)

interpretation grid: budget_machine grid_step layout_ok "2 ^ 53 - 1" proper_action
  by unfold_locales (rule grid_step_ok; simp)

text \<open>What holds at whatever position a cell is removed, and however large the ids have become.\<close>

definition shape_ok :: "layout \<Rightarrow> bool" where
  "shape_ok l = (trimmed (slots l) \<and> panels_ok l \<and> 0 \<le> page l)"

lemma shape_okI:
  "trimmed (slots l) \<Longrightarrow> panels_ok l \<Longrightarrow> shape_ok (withPage l)"
  using page_withPage [of l] by (simp add: shape_ok_def) (simp add: withPage_def panels_ok_def)

lemma shape_map_slots: "shape_ok l \<Longrightarrow> shape_ok (map_slots f l)"
  by (cases "slots l = []") (auto simp: shape_ok_def map_slots_def panels_ok_def trimmed_def last_map)

lemma shape_assign: "shape_ok l \<Longrightarrow> shape_ok (assignSlot l i t)"
  by (auto simp: shape_ok_def assignSlot_def Let_def panels_ok_def intro: trimmed_write split: option.splits)

lemma clamps_ok:
  "clamp q SIDEBAR_WIDTH_MIN SIDEBAR_WIDTH_MAX \<in> {180..720}" "clamp q FILES_SHARE_MIN FILES_SHARE_MAX \<in> {20..80}"
  "clamp q DOCK_WIDTH_MIN DOCK_WIDTH_MAX \<in> {260..900}" "clamp q DETAIL_HEIGHT_MIN DETAIL_HEIGHT_MAX \<in> {120..900}"
  using clamp_bounds [of SIDEBAR_WIDTH_MIN SIDEBAR_WIDTH_MAX q] clamp_bounds [of FILES_SHARE_MIN FILES_SHARE_MAX q]
    clamp_bounds [of DOCK_WIDTH_MIN DOCK_WIDTH_MAX q] clamp_bounds [of DETAIL_HEIGHT_MIN DETAIL_HEIGHT_MAX q]
  by (simp_all add: bound_defs)

lemma shape_step: 
  assumes ok: "shape_ok l" shows "shape_ok (grid_step l a)"
proof (cases a)
  case (CycleMode m)
  then show ?thesis using ok anchorIndex_bounds(1) [of l]
    by (auto simp: cycleMode_def shape_ok_def panels_ok_def Let_def pos_imp_zdiv_nonneg_iff le_diff_eq split: option.splits)
next
  case (MovePage d)
  have "0 \<le> page (movePage l d)" by (simp add: page_movePage)
  then show ?thesis using MovePage ok by (simp add: shape_ok_def panels_ok_def movePage_def Let_def)
next
  case (RevealSlot i)
  then show ?thesis using ok
    by (auto simp: revealSlot_def shape_ok_def panels_ok_def pos_imp_zdiv_nonneg_iff dest: cell_at_SomeD split: option.splits)
next
  case (AssignSlot i t)
  then show ?thesis using ok by (simp add: shape_assign)
next
  case (PickerApply i t)
  then show ?thesis using ok by (simp add: pickerApply_def shape_assign)
next
  case (ClearSlot i)
  have "panels_ok (l\<lparr>slots := cs, zoomId := z, focusId := f\<rparr>)" for cs z f using ok by (simp add: shape_ok_def panels_ok_def)
  then show ?thesis using ok ClearSlot by (auto simp: clearSlot_def trimmed_trimTail intro!: shape_okI split: option.split)
next
  case (RemoveSlot i)
  have "panels_ok (l\<lparr>slots := cs\<rparr>)" for cs using ok by (simp add: shape_ok_def panels_ok_def)
  then show ?thesis using ok RemoveSlot by (auto simp: removeSlot_def Let_def trimmed_trimTail intro!: shape_okI)
next
  case (SwapSlots i j)
  then show ?thesis using ok by (auto simp: swapSlots_def shape_ok_def Let_def panels_ok_def trimmed_trimTail)
next
  case (SetSidebarWidth x)
  then show ?thesis using ok clamps_ok(1) by (cases x) (simp_all add: setSidebarWidth_def shape_ok_def panels_ok_def)
next
  case (SetFilesShare x)
  then show ?thesis using ok clamps_ok(2) by (cases x) (simp_all add: setFilesShare_def shape_ok_def panels_ok_def)
next
  case (SetDockWidth x)
  then show ?thesis using ok clamps_ok(3) by (cases x) (simp_all add: setDockWidth_def shape_ok_def panels_ok_def)
next
  case (SetDetailHeight x)
  then show ?thesis using ok clamps_ok(4) by (cases x) (simp_all add: setDockDetailHeight_def shape_ok_def panels_ok_def)
qed (use ok in \<open>simp_all add: setSlotPresentation_def adoptNativeSession_def renameSlotSessions_def shape_map_slots\<close>,
  (use ok in \<open>simp add: shape_ok_def panels_ok_def toggleZoom_def focusSlot_def toggleSidebar_def setClickAction_def
    toggleFiles_def setFilesTarget_def toggleDock_def clearDockDetailHeight_def toggleDockRefs_def setDockTarget_def Let_def\<close>)+)

interpretation shapes: invariant_machine grid_step shape_ok
  by unfold_locales (rule shape_step)

text \<open>
  C1 (\<open>grid_run_invariant\<close>): whatever sequence of reducers a user interface runs on whole-numbered cells,
  no empty cell trails the grid, the page is not negative and the panel sizes stay within their bounds;
  and no two cells carry the same id, as long as cells are removed at positions of the grid (at a negative
  one the code repeats cells, \<open>removeSlot_negative_duplicates\<close>) and the numbers of the ids, one more at
  most for every action, stay below \<open>2^53\<close>.
\<close>

theorem grid_run_invariant:
  assumes "layout_ok n l"
  shows "trimmed (slots (run grid_step l as)) \<and> panels_ok (run grid_step l as) \<and> 0 \<le> page (run grid_step l as)
    \<and> (list_all proper_action as \<and> n + length as < 2 ^ 53 \<longrightarrow> distinct (live_ids (slots (run grid_step l as))))"
proof -
  have "shape_ok (run grid_step l as)"
    by (rule shapes.run_inv) (use assms in \<open>simp add: shape_ok_def layout_ok_def cells_ok_def\<close>)
  moreover have "distinct (live_ids (slots (run grid_step l as)))" if "list_all proper_action as" "n + length as < 2 ^ 53"
    using grid.run_ok [OF assms that(1)] that(2) by (simp add: layout_ok_def cells_ok_def)
  ultimately show ?thesis by (simp add: shape_ok_def)
qed

theorem grid_run_invariant_witness:
  "distinct (live_ids (slots (run grid_step sample_layout
     [AssignSlot (Fin (of_int 2)) (Some \<lparr>ct_host = Some ''h1'', ct_kind = Shell, ct_session = None,
        ct_backend = None, ct_sessionId = None, ct_tmuxId = None, ct_intent = None\<rparr>),
      SwapSlots (Fin (of_int 0)) (Fin (of_int 4)), ClearSlot 1, RemoveSlot 1])))"
  (is "distinct (live_ids (slots (run grid_step sample_layout ?as)))")
proof -
  have "layout_ok 5 sample_layout"
    by (simp add: layout_ok_def cells_ok_def max_id_sample)
      (simp add: panels_ok_def sample_defs trimmed_def)
  moreover have "list_all proper_action ?as \<and> 5 + length ?as < 2 ^ 53" by simp
  ultimately show ?thesis using grid_run_invariant [of 5 sample_layout ?as] by blast
qed

text \<open>
  Assigning a target to a cell writes that cell and no other, under an
  id that no terminal of the grid had before; the name of a session is kept and a shell has none.
\<close>

theorem assignSlot_fresh:
  assumes "0 \<le> i" and "ct_host t = Some host" and "max_id (slots l) 0 + 1 < 2 ^ 53"
  shows "cell_at (assignSlot l (Fin (of_int i)) (Some t)) j =
      (if j = i then Some (target_slot (nextSlotId (slots l)) host t) else cell_at l j)
    \<and> nextSlotId (slots l) \<notin> set (live_ids (slots l))"
proof -
  obtain k where k: "i = int k" using assms(1) by (metis nonneg_int_cases)
  have "cell_at (assignSlot l (Fin (of_int i)) (Some t)) j =
      (if j = i then Some (target_slot (nextSlotId (slots l)) host t) else cell_at l j)"
    using assms(2) k by (auto simp: assignSlot_def Let_def cell_of_write cell_at_cell_of)
  then show ?thesis using nextSlotId_fresh [OF assms(3)] by simp
qed

theorem assignSlot_fresh_witness:
  "cell_at (assignSlot sample_layout (Fin (of_int 8)) (Some \<lparr>ct_host = Some ''h1'', ct_kind = NewSession,
     ct_session = Some ''w1'', ct_backend = None, ct_sessionId = None, ct_tmuxId = None, ct_intent = None\<rparr>)) 3
   = Some (sample_slot ''s4'')"
  using assignSlot_fresh [of 8 "\<lparr>ct_host = Some ''h1'', ct_kind = NewSession,
      ct_session = Some ''w1'', ct_backend = None, ct_sessionId = None, ct_tmuxId = None, ct_intent = None\<rparr>"
      "''h1''" sample_layout 3] max_id_sample
  by (simp add: cell_at_def nth_opt_def sample_layout_def defaultLayout_def)

section \<open>Releasing mounted panes\<close>

interpretation hidden_order: comparator "by_key f" for f :: "'a \<Rightarrow> int"
  by (rule comparator_by_key)

text \<open>
  Of the mounted panes, whose ids are distinct, the released ones
  are hidden, every pane hidden for the whole time-to-live is among them, and beyond those exactly
  as many of the rest as the mounted count exceeds the cap, the longest hidden first.
\<close>

theorem stalePaneIds_releases:
  fixes panes now ttl mx
  defines "hidden \<equiv> {p \<in> set panes. mp_hidden p \<noteq> None}"
  defines "expired \<equiv> {p \<in> hidden. now - hidden_since p \<ge> ttl}"
  assumes "distinct (map mp_id panes)"
  shows "\<exists>capped \<subseteq> hidden - expired.
      set (stalePaneIds panes now (Some ttl) (Some mx)) = mp_id ` (expired \<union> capped)
    \<and> distinct (stalePaneIds panes now (Some ttl) (Some mx))
    \<and> card capped = min (length panes - mx) (card (hidden - expired))
    \<and> (\<forall>p \<in> capped. \<forall>q \<in> hidden - expired - capped. hidden_since p \<le> hidden_since q)"
proof -
  let ?h = "js_sort (by_key hidden_since) (filter (\<lambda>p. mp_hidden p \<noteq> None) panes)"
  let ?e = "filter (\<lambda>p. now - hidden_since p \<ge> ttl) ?h"
  let ?r = "filter (\<lambda>p. mp_id p \<notin> set (map mp_id ?e)) ?h"
  let ?c = "take (length panes - mx) ?r"
  have inj: "inj_on mp_id (set panes)" and dp: "distinct panes"
    using assms(3) by (simp_all add: distinct_map)
  have sub: "set ?h \<subseteq> set panes" by auto
  have he: "set ?h = hidden" "set ?e = expired" by (auto simp: hidden_def expired_def)
  have dh: "distinct ?h" using dp by simp
  have "mp_id p \<in> mp_id ` set ?e \<longleftrightarrow> p \<in> set ?e" if "p \<in> set ?h" for p
    using that inj sub by (intro inj_on_image_mem_iff [of _ "set panes"]) auto
  then have r: "set ?r = hidden - expired" using he by auto
  have dr: "distinct ?r" using dh by simp
  have srt: "sorted_wrt (\<lambda>a b. by_key hidden_since a b \<le> 0) ?r"
    by (rule sorted_wrt_filter) (rule hidden_order.ordered_js_sort)
  have eq: "stalePaneIds panes now (Some ttl) (Some mx) = map mp_id (?e @ ?c)"
    by (simp add: stalePaneIds_def Let_def)
  have cr: "set ?c \<subseteq> hidden - expired" using r set_take_subset [of _ ?r] by blast
  have "distinct (?e @ ?c)" using dh dr cr he(2) by auto
  moreover have "inj_on mp_id (set (?e @ ?c))"
    using cr he sub by (intro inj_on_subset [OF inj]) auto
  ultimately have "distinct (map mp_id (?e @ ?c))" by (simp only: distinct_map)
  moreover have "card (set ?c) = min (length panes - mx) (card (hidden - expired))"
    using dr r distinct_card [of ?r] distinct_card [of ?c] by (simp add: min.commute)
  moreover have "hidden_since p \<le> hidden_since q" if "p \<in> set ?c" "q \<in> hidden - expired - set ?c" for p q
  proof -
    have "q \<in> set (drop (length panes - mx) ?r)"
      using that(2) r by (metis Diff_iff Un_iff append_take_drop_id set_append)
    with sorted_wrt_take_drop [OF srt that(1)] show ?thesis by (simp add: by_key_def)
  qed
  ultimately show ?thesis
    using cr he(2) unfolding eq by (intro exI [of _ "set ?c"]) auto
qed

theorem stalePaneIds_releases_witness:
  "set (stalePaneIds [\<lparr>mp_id = ''a'', mp_hidden = None\<rparr>, \<lparr>mp_id = ''b'', mp_hidden = Some 90\<rparr>,
     \<lparr>mp_id = ''c'', mp_hidden = Some 10\<rparr>] 100 (Some 60) (Some 3)) = {''c''}"
proof -
  let ?p = "[\<lparr>mp_id = ''a'', mp_hidden = None\<rparr>, \<lparr>mp_id = ''b'', mp_hidden = Some 90\<rparr>,
     \<lparr>mp_id = ''c'', mp_hidden = Some 10\<rparr>]"
  let ?h = "{p \<in> set ?p. mp_hidden p \<noteq> None}"
  let ?e = "{p \<in> ?h. 100 - hidden_since p \<ge> 60}"
  have d: "distinct (map mp_id ?p)" by simp
  obtain capped where c: "capped \<subseteq> ?h - ?e" and n: "card capped = min (length ?p - 3) (card (?h - ?e))"
    and s: "set (stalePaneIds ?p 100 (Some 60) (Some 3)) = mp_id ` (?e \<union> capped)"
    using stalePaneIds_releases [OF d, where now = 100 and ttl = 60 and mx = 3] by (elim exE conjE) (rule that)
  have "finite capped" by (rule finite_subset [OF c]) simp
  moreover have "card capped = 0" using n by simp
  ultimately have "capped = {}" by simp
  moreover have "?e = {\<lparr>mp_id = ''c'', mp_hidden = Some 10\<rparr>}" by auto
  ultimately show ?thesis using s by simp
qed

end
