(* ===== verification/Wire.thy ===== *)
theory Wire
  imports Slots
begin

text \<open>
  The spelled forms of the small types of a terminal slot, shared by the stored layout
  (\<open>packages/core/src/terminal-grid.ts\<close>) and the terminal frames
  (\<open>packages/protocol/src/terminal.ts\<close>): kinds, backends and intents, session UUIDs and tmux ids.
\<close>

section \<open>Readers\<close>

fun kind_of_string :: "string \<Rightarrow> slot_kind option" where
  "kind_of_string s =
     (if s = ''attach'' then Some Attach else if s = ''new'' then Some NewSession
      else if s = ''shell'' then Some Shell else None)"

fun backend_of_string :: "string \<Rightarrow> backend option" where
  "backend_of_string s =
     (if s = ''native'' then Some Native else if s = ''tmux'' then Some Tmux else None)"

fun intent_of_string :: "string \<Rightarrow> intent option" where
  "intent_of_string s =
     (if s = ''ensure'' then Some Ensure else if s = ''create'' then Some Create
      else if s = ''attach'' then Some AttachTo else None)"

text \<open>An unknown value read through one of the readers above.\<close>

definition read_with :: "(string \<Rightarrow> 'a option) \<Rightarrow> jsval \<Rightarrow> 'a option" where
  "read_with f v = (case as_string v of Some s \<Rightarrow> f s | None \<Rightarrow> None)"

text \<open>\<open>/^[0-9a-f]{8}-[0-9a-f]{4}-[1-8][0-9a-f]{3}-[89ab][0-9a-f]{3}-[0-9a-f]{12}$/i\<close>.\<close>

definition uuid_char :: "nat \<Rightarrow> char \<Rightarrow> bool" where
  "uuid_char i c =
     (if i \<in> {8, 13, 18, 23} then c = CHR ''-''
      else if i = 14 then 49 \<le> code c \<and> code c \<le> 56
      else if i = 19 then c \<in> set ''89abAB''
      else is_hex c)"

definition is_uuid :: "string \<Rightarrow> bool" where
  "is_uuid s = (length s = 36 \<and> list_all (\<lambda>(i, c). uuid_char i c) (enumerate 0 s))"

text \<open>\<open>/^\$[0-9]{1,16}$/\<close>.\<close>

definition is_tmux_id :: "string \<Rightarrow> bool" where
  "is_tmux_id s = (s \<noteq> [] \<and> hd s = CHR ''$'' \<and> 1 \<le> length (tl s) \<and> length (tl s) \<le> 16
     \<and> list_all is_digit (tl s))"

definition only_if :: "(string \<Rightarrow> bool) \<Rightarrow> string \<Rightarrow> string option" where
  "only_if P s = (if P s then Some s else None)"

section \<open>Writers\<close>

fun kind_string :: "slot_kind \<Rightarrow> string" where
  "kind_string Attach = ''attach''"
| "kind_string NewSession = ''new''"
| "kind_string Shell = ''shell''"

fun backend_string :: "backend \<Rightarrow> string" where
  "backend_string Native = ''native''"
| "backend_string Tmux = ''tmux''"

fun intent_string :: "intent \<Rightarrow> string" where
  "intent_string Ensure = ''ensure''"
| "intent_string Create = ''create''"
| "intent_string AttachTo = ''attach''"

interpretation kind_text: codec kind_string kind_of_string "\<lambda>_. True"
proof
  fix k show "kind_of_string (kind_string k) = Some k" by (cases k) simp_all
qed

interpretation backend_text: codec backend_string backend_of_string "\<lambda>_. True"
proof
  fix b show "backend_of_string (backend_string b) = Some b" by (cases b) simp_all
qed

interpretation intent_text: codec intent_string intent_of_string "\<lambda>_. True"
proof
  fix i show "intent_of_string (intent_string i) = Some i" by (cases i) simp_all
qed

end
