(* ===== verification/Hydrate.thy ===== *)
theory Hydrate
  imports Grid Wire
begin

text \<open>
  \<^verbatim>\<open>packages/core/src/terminal-grid.ts\<close>, hydration: \<open>normalizeLayout\<close> turns any stored
  value into a layout. The lemmas show that the result is well formed whatever was stored, that no
  usable cell moves or is lost, and that a well-formed layout is read back as it was written.
\<close>

section \<open>Reading a stored layout\<close>

fun mode_of_string :: "string \<Rightarrow> grid_mode option" where
  "mode_of_string s =
     (if s = ''tab'' then Some Tab else if s = ''split2'' then Some Split2
      else if s = ''split4'' then Some Split4 else if s = ''split9'' then Some Split9 else None)"

text \<open>
  \<open>s in GRID_SIZE\<close> also holds for the properties every object inherits.
\<close>

definition inherited_keys :: "string list" where
  "inherited_keys = [''constructor'', ''__defineGetter__'', ''__defineSetter__'', ''hasOwnProperty'',
     ''__lookupGetter__'', ''__lookupSetter__'', ''isPrototypeOf'', ''propertyIsEnumerable'',
     ''toString'', ''valueOf'', ''__proto__'', ''toLocaleString'']"

text \<open>
  One stored entry: unusable, or a slot under the claimed id, which is empty when the stored id
  is missing or was claimed by an earlier cell.
\<close>

definition usable_entry :: "(string \<Rightarrow> bool) \<Rightarrow> jsval \<Rightarrow> bool" where
  "usable_entry hostExists entry =
     (is_object entry \<and> (case as_string (js_get entry ''hostId'') of None \<Rightarrow> False
        | Some hostId \<Rightarrow> hostExists hostId))"

definition claim_id :: "string list \<Rightarrow> jsval \<Rightarrow> string" where
  "claim_id claimed entry =
     (case as_string (js_get entry ''id'') of None \<Rightarrow> []
      | Some i \<Rightarrow> if i \<noteq> [] \<and> i \<notin> set claimed then i else [])"

definition read_slot :: "string \<Rightarrow> jsval \<Rightarrow> terminal_slot" where
  "read_slot i entry =
     (let kind = (case read_with kind_of_string (js_get entry ''kind'') of Some k \<Rightarrow> k | None \<Rightarrow> Attach);
          p = normalizeTerminalPresentation entry
      in \<lparr>s_id = i, s_host = the (as_string (js_get entry ''hostId'')), s_kind = kind,
           s_session = (if kind = Shell then None
             else Some (js_String (nullish_or (js_get entry ''session'') (JStr ''main'')))),
           s_backend = read_with backend_of_string (js_get entry ''backend''),
           s_sessionId = read_with (only_if is_uuid) (js_get entry ''sessionId''),
           s_tmuxId = read_with (only_if is_tmux_id) (js_get entry ''tmuxId''),
           s_intent = read_with intent_of_string (js_get entry ''intent''),
           s_label = p_label p, s_tags = p_tags p\<rparr>)"

fun read_cells :: "(string \<Rightarrow> bool) \<Rightarrow> string list \<Rightarrow> jsval list \<Rightarrow> grid_cell list" where
  "read_cells hostExists claimed [] = []"
| "read_cells hostExists claimed (entry # entries) =
     (if \<not> usable_entry hostExists entry then None # read_cells hostExists claimed entries
      else let i = claim_id claimed entry in
        Some (read_slot i entry)
        # read_cells hostExists (if i \<noteq> [] then claimed @ [i] else claimed) entries)"

text \<open>The second pass: every slot left without an id gets the next one of the whole grid.\<close>

fun reissue :: "grid_cell list \<Rightarrow> grid_cell list \<Rightarrow> grid_cell list" where
  "reissue front [] = front"
| "reissue front (cell # rest) =
     reissue (front @ [case cell of None \<Rightarrow> None
       | Some slot \<Rightarrow> Some (if s_id slot = [] then slot\<lparr>s_id := nextSlotId (front @ cell # rest)\<rparr> else slot)])
       rest"

definition bool_or :: "jsval \<Rightarrow> bool \<Rightarrow> bool" where
  "bool_or v d = (case as_bool v of Some b \<Rightarrow> b | None \<Rightarrow> d)"

definition clamp_or :: "jsval \<Rightarrow> int \<Rightarrow> int \<Rightarrow> int \<Rightarrow> int" where
  "clamp_or v mn mx d = (case finite_val v of Some q \<Rightarrow> clamp q mn mx | None \<Rightarrow> d)"

definition live_or_none :: "grid_cell list \<Rightarrow> jsval \<Rightarrow> string option" where
  "live_or_none cs v =
     (case as_string v of None \<Rightarrow> None | Some i \<Rightarrow> if list_ex (has_id (Some i)) cs then Some i else None)"

definition read_click :: "string \<Rightarrow> click_action option" where
  "read_click s = (if s = ''focus'' then Some ClickFocus else if s = ''zoom'' then Some ClickZoom else None)"

definition stored_cells :: "jsval \<Rightarrow> jsval list" where
  "stored_cells raw = (case as_array (js_get raw ''slots'') of Some es \<Rightarrow> es | None \<Rightarrow> [])"

definition host_known :: "grid_host list \<Rightarrow> bool \<Rightarrow> string \<Rightarrow> bool" where
  "host_known hosts fleetKnown i = (if fleetKnown then i \<in> set (map h_id hosts) else True)"

definition hydrated_slots :: "jsval \<Rightarrow> grid_host list \<Rightarrow> bool \<Rightarrow> grid_cell list" where
  "hydrated_slots raw hosts fleetKnown =
     trimTail (reissue [] (read_cells (host_known hosts fleetKnown) [] (stored_cells raw)))"

text \<open>
  The fields of a value that is not an object read \<open>undefined\<close>, as those of the empty object.
\<close>

definition read_layout :: "jsval \<Rightarrow> grid_host list \<Rightarrow> bool \<Rightarrow> grid_mode \<Rightarrow> layout" where
  "read_layout raw hosts fleetKnown m =
     (let base = defaultLayout;
          cs = hydrated_slots raw hosts fleetKnown;
          dock = js_get raw ''dockTarget''; files = js_get raw ''filesTarget''
      in \<lparr>mode = m,
            page = (case integer_val (js_get raw ''page'') of Some n \<Rightarrow> if 0 \<le> n then n else 0 | None \<Rightarrow> 0),
            slots = cs,
            zoomId = live_or_none cs (js_get raw ''zoomId''),
            focusId = live_or_none cs (js_get raw ''focusId''),
            clickAction = (case read_with read_click (js_get raw ''clickAction'') of Some a \<Rightarrow> a
              | None \<Rightarrow> clickAction base),
            sidebarOpen = bool_or (js_get raw ''sidebarOpen'') (sidebarOpen base),
            sidebarWidth = clamp_or (js_get raw ''sidebarWidth'') SIDEBAR_WIDTH_MIN SIDEBAR_WIDTH_MAX (sidebarWidth base),
            dockOpen = bool_or (js_get raw ''dockOpen'') (dockOpen base),
            dockWidth = clamp_or (js_get raw ''dockWidth'') DOCK_WIDTH_MIN DOCK_WIDTH_MAX (dockWidth base),
            filesOpen = bool_or (js_get raw ''filesOpen'') (filesOpen base),
            filesShare = clamp_or (js_get raw ''filesShare'') FILES_SHARE_MIN FILES_SHARE_MAX (filesShare base),
            filesTarget = map_option (\<lambda>h. \<lparr>ft_host = h, ft_path =
              (case as_string (js_get files ''path'') of Some p \<Rightarrow> p | None \<Rightarrow> [])\<rparr>) (as_string (js_get files ''hostId'')),
            dockRefsHidden = bool_or (js_get raw ''dockRefsHidden'') (dockRefsHidden base),
            dockDetailHeight = map_option (\<lambda>q. clamp q DETAIL_HEIGHT_MIN DETAIL_HEIGHT_MAX)
              (finite_val (js_get raw ''dockDetailHeight'')),
            dockTarget = map_option (\<lambda>h. \<lparr>dt_host = h, dt_repo = as_string (js_get dock ''repo'')\<rparr>)
              (as_string (js_get dock ''hostId'')),
            cards = sanitizeCardPrefs (js_get raw ''cards'')\<rparr>)"

definition hydrated_layout :: "jsval \<Rightarrow> grid_host list \<Rightarrow> bool \<Rightarrow> grid_mode \<Rightarrow> layout" where
  "hydrated_layout raw hosts fleetKnown m =
     (let l = read_layout raw hosts fleetKnown m in l\<lparr>page := min (page l) (pageCount l - 1)\<rparr>)"

text \<open>\<open>None\<close> is the layout whose mode is an inherited key, which is no mode at all.\<close>

definition normalizeLayout :: "jsval \<Rightarrow> grid_host list \<Rightarrow> bool \<Rightarrow> layout option" where
  "normalizeLayout raw hosts fleetKnown =
     (case as_string (js_get raw ''mode'') of
        None \<Rightarrow> Some (hydrated_layout raw hosts fleetKnown (mode defaultLayout))
      | Some s \<Rightarrow> (case mode_of_string s of
            Some m \<Rightarrow> Some (hydrated_layout raw hosts fleetKnown m)
          | None \<Rightarrow> if s \<in> set inherited_keys then None
              else Some (hydrated_layout raw hosts fleetKnown (mode defaultLayout))))"

lemma normalizeLayout_is_hydrated:
  "normalizeLayout raw hosts fk = Some l \<Longrightarrow> \<exists>m. l = hydrated_layout raw hosts fk m"
  unfolding normalizeLayout_def
  by (cases "as_string (js_get raw ''mode'')"; cases "mode_of_string (the (as_string (js_get raw ''mode'')))")
    (auto split: if_splits simp del: mode_of_string.simps)

lemma slots_hydrated [simp]: "slots (hydrated_layout raw hosts fk m) = hydrated_slots raw hosts fk"
  by (simp add: hydrated_layout_def read_layout_def Let_def)

section \<open>The two passes over the cells\<close>

definition real_ids :: "grid_cell list \<Rightarrow> string list" where
  "real_ids cs = filter (\<lambda>i. i \<noteq> []) (live_ids cs)"

lemma real_ids_simps [simp]:
  "real_ids [] = []"
  "real_ids (None # cs) = real_ids cs"
  "real_ids (Some s # cs) = (if s_id s = [] then real_ids cs else s_id s # real_ids cs)"
  "real_ids (cs @ ds) = real_ids cs @ real_ids ds"
  by (simp_all add: real_ids_def)

lemma set_real_ids: "set (real_ids cs) \<subseteq> set (live_ids cs)"
  by (auto simp: real_ids_def)

lemma real_ids_all: "[] \<notin> set (live_ids cs) \<Longrightarrow> real_ids cs = live_ids cs"
  unfolding real_ids_def by (rule filter_True) metis

lemma s_id_read_slot [simp]: "s_id (read_slot i e) = i"
  by (simp add: read_slot_def Let_def)

lemma length_read_cells [simp]: "length (read_cells he cl es) = length es"
  by (induction es arbitrary: cl) (simp_all add: Let_def)

lemma claim_id_fresh: "claim_id cl e \<noteq> [] \<Longrightarrow> claim_id cl e \<notin> set cl"
  by (auto simp: claim_id_def split: option.splits if_splits)

lemma read_cells_ids:
  "distinct (real_ids (read_cells he cl es)) \<and> set cl \<inter> set (real_ids (read_cells he cl es)) = {}"
proof (induction es arbitrary: cl)
  case (Cons e es)
  show ?case
  proof (cases "usable_entry he e \<and> claim_id cl e \<noteq> []")
    case True
    then show ?thesis using Cons.IH [of "cl @ [claim_id cl e]"] claim_id_fresh [of cl e]
      by (auto simp: Let_def)
  next
    case False
    then show ?thesis using Cons.IH [of cl] by (auto simp: Let_def)
  qed
qed simp

lemma cell_of_Cons: "cell_of (c # cs) k = (case k of 0 \<Rightarrow> c | Suc j \<Rightarrow> cell_of cs j)"
  by (simp add: cell_of_def split: nat.split)

lemma claim_id_stored: "claim_id cl e \<noteq> [] \<Longrightarrow> as_string (js_get e ''id'') = Some (claim_id cl e)"
  by (auto simp: claim_id_def split: option.splits if_splits)

lemma read_cells_usable:
  "\<exists>i. cell_of (read_cells he cl es) k =
      (if k < length es \<and> usable_entry he (es ! k) then Some (read_slot i (es ! k)) else None)
    \<and> (i \<noteq> [] \<longrightarrow> as_string (js_get (es ! k) ''id'') = Some i)"
proof (induction es arbitrary: cl k)
  case (Cons e es)
  show ?case
  proof (cases k)
    case 0
    then show ?thesis using claim_id_stored [of cl e] by (auto simp: cell_of_Cons Let_def)
  next
    case (Suc j)
    obtain c cl' where "read_cells he cl (e # es) = c # read_cells he cl' es"
      by (simp add: Let_def) metis
    then show ?thesis using Suc Cons.IH [of cl' j]
      by (simp only: cell_of_Cons nat.case length_Cons nth_Cons_Suc Suc_less_eq)
  qed
qed (auto simp: cell_of_def)

lemma reissue_Cons_keep:
  "(\<forall>s. cell = Some s \<longrightarrow> s_id s \<noteq> []) \<Longrightarrow> reissue front (cell # rest) = reissue (front @ [cell]) rest"
  by (cases cell) simp_all

lemma max_id_append_le:
  "max_id (cs @ ds) 0 \<le> n \<longleftrightarrow> max_id cs 0 \<le> n \<and> max_id ds 0 \<le> n"
  by (auto simp: max_id_le)

lemma reissue_ids:
  assumes "distinct (live_ids front @ real_ids rest)" and "[] \<notin> set (live_ids front)"
    and "max_id (front @ rest) 0 + length rest < 2 ^ 53"
  shows "distinct (live_ids (reissue front rest)) \<and> [] \<notin> set (live_ids (reissue front rest))
    \<and> length (reissue front rest) = length front + length rest
    \<and> (\<forall>k. \<exists>i. cell_of (reissue front rest) k = map_option (s_id_update (\<lambda>_. i)) (cell_of (front @ rest) k)
        \<and> (\<forall>s. cell_of (front @ rest) k = Some s \<longrightarrow> s_id s \<noteq> [] \<longrightarrow> i = s_id s))"
  using assms
proof (induction rest arbitrary: front)
  case Nil
  have "\<exists>i. cell_of front k = map_option (s_id_update (\<lambda>_. i)) (cell_of front k)
        \<and> (\<forall>s. cell_of front k = Some s \<longrightarrow> s_id s \<noteq> [] \<longrightarrow> i = s_id s)" for k
    by (cases "cell_of front k") (auto intro!: exI [of _ "s_id (the (cell_of front k))"])
  with Nil show ?case by simp
next
  case (Cons cell rest)
  show ?case
  proof (cases "\<exists>s. cell = Some s \<and> s_id s = []")
    case False
    then have e: "reissue front (cell # rest) = reissue (front @ [cell]) rest"
      by (intro reissue_Cons_keep) auto
    have "distinct (live_ids (front @ [cell]) @ real_ids rest)" "[] \<notin> set (live_ids (front @ [cell]))"
      using Cons.prems(1,2) False by (cases cell; auto)+
    from Cons.IH [OF this] Cons.prems(3) show ?thesis unfolding e by simp
  next
    case True
    then obtain s where s: "cell = Some s" "s_id s = []" by blast
    let ?all = "front @ cell # rest" and ?new = "nextSlotId (front @ cell # rest)"
    let ?c = "Some (s\<lparr>s_id := ?new\<rparr>)"
    have e: "reissue front (cell # rest) = reissue (front @ [?c]) rest" using s by simp
    have b: "max_id ?all 0 + 1 < 2 ^ 53" using Cons.prems(3) by simp
    have fresh: "?new \<notin> set (live_ids ?all)" by (rule nextSlotId_fresh [OF b])
    have below: "id_below (max_id ?all 0 + 1) ?new"
      using nextSlotId_number [OF b] by (simp add: id_below_def)
    have "id_below (max_id ?all 0 + 1) i" if "i \<in> set (live_ids ?all)" for i
      using id_below_max_id [OF that] by (auto simp: id_below_def split: option.splits)
    with below have "max_id ((front @ [?c]) @ rest) 0 \<le> max_id ?all 0 + 1"
      using s by (auto simp: max_id_le)
    then have bound: "max_id ((front @ [?c]) @ rest) 0 + length rest < 2 ^ 53"
      using Cons.prems(3) by simp
    have "distinct (live_ids (front @ [?c]) @ real_ids rest)" "[] \<notin> set (live_ids (front @ [?c]))"
      using Cons.prems(1,2) s fresh set_real_ids [of rest] nextSlotId_not_Nil [of ?all, symmetric] by auto
    note IH = Cons.IH [OF this bound]
    have "\<exists>i. cell_of (reissue (front @ [?c]) rest) k = map_option (s_id_update (\<lambda>_. i)) (cell_of ?all k)
        \<and> (\<forall>t. cell_of ?all k = Some t \<longrightarrow> s_id t \<noteq> [] \<longrightarrow> i = s_id t)" for k
    proof -
      obtain i where i: "cell_of (reissue (front @ [?c]) rest) k
          = map_option (s_id_update (\<lambda>_. i)) (cell_of ((front @ [?c]) @ rest) k)"
        "\<forall>t. cell_of ((front @ [?c]) @ rest) k = Some t \<longrightarrow> s_id t \<noteq> [] \<longrightarrow> i = s_id t"
        using IH by blast
      show ?thesis
      proof (cases "k = length front")
        case True
        then have "cell_of ?all k = Some s" "cell_of ((front @ [?c]) @ rest) k = ?c"
          using s by (simp_all add: cell_of_def nth_append)
        then show ?thesis using i s by auto
      next
        case False
        then have "cell_of ((front @ [?c]) @ rest) k = cell_of ?all k"
          by (auto simp: cell_of_def nth_append nth_Cons split: nat.splits)
        then show ?thesis using i by auto
      qed
    qed
    with IH show ?thesis unfolding e by simp
  qed
qed

section \<open>Properties\<close>

text \<open>
  The ids a stored value claims, all with numbers up to \<open>n\<close>, on a grid small enough that the
  ids issued for the others stay exact.
\<close>

definition ids_exact :: "jsval \<Rightarrow> bool" where
  "ids_exact raw = (\<exists>n. n + length (stored_cells raw) < 2 ^ 53
     \<and> (\<forall>e \<in> set (stored_cells raw). \<forall>i. as_string (js_get e ''id'') = Some i \<longrightarrow> id_below n i))"

lemma read_cells_max_id:
  assumes "\<forall>e \<in> set es. \<forall>i. as_string (js_get e ''id'') = Some i \<longrightarrow> id_below n i"
  shows "max_id (read_cells he cl es) 0 \<le> n"
proof -
  have "id_below n (s_id s)" if mem: "Some s \<in> set (read_cells he cl es)" for s
  proof -
    obtain k where "k < length (read_cells he cl es)" "read_cells he cl es ! k = Some s"
      using mem unfolding in_set_conv_nth by blast
    then have k: "k < length es" "cell_of (read_cells he cl es) k = Some s"
      unfolding cell_of_def by simp_all
    obtain i where "Some s = (if k < length es \<and> usable_entry he (es ! k) then Some (read_slot i (es ! k)) else None)"
      and "i \<noteq> [] \<longrightarrow> as_string (js_get (es ! k) ''id'') = Some i"
      using read_cells_usable [of he cl es k] unfolding k(2) by blast
    then have "s = read_slot i (es ! k)" "i \<noteq> [] \<longrightarrow> as_string (js_get (es ! k) ''id'') = Some i"
      by (simp_all split: if_splits)
    moreover have "id_below n []" by (simp add: id_below_def id_number_def)
    ultimately show ?thesis using assms k(1) by (cases "i = []") auto
  qed
  then show ?thesis by (auto simp: max_id_le set_live_ids)
qed

lemma hydrated_cells:
  assumes "ids_exact raw"
  shows "distinct (live_ids (hydrated_slots raw hosts fk)) \<and> [] \<notin> set (live_ids (hydrated_slots raw hosts fk))
    \<and> trimmed (hydrated_slots raw hosts fk)
    \<and> (\<forall>k. \<exists>i. cell_of (hydrated_slots raw hosts fk) k =
        (if k < length (stored_cells raw) \<and> usable_entry (host_known hosts fk) (stored_cells raw ! k)
         then Some (read_slot i (stored_cells raw ! k)) else None))"
proof -
  let ?cs = "read_cells (host_known hosts fk) [] (stored_cells raw)"
  obtain n where "n + length (stored_cells raw) < 2 ^ 53" and
    "\<forall>e \<in> set (stored_cells raw). \<forall>i. as_string (js_get e ''id'') = Some i \<longrightarrow> id_below n i"
    using assms unfolding ids_exact_def by blast
  then have "max_id ([] @ ?cs) 0 + length ?cs < 2 ^ 53"
    using read_cells_max_id [of "stored_cells raw" n "host_known hosts fk" "[]"] by simp
  moreover have "distinct (live_ids [] @ real_ids ?cs)"
    using read_cells_ids [of "host_known hosts fk" "[]" "stored_cells raw"] by simp
  ultimately have R: "distinct (live_ids (reissue [] ?cs)) \<and> [] \<notin> set (live_ids (reissue [] ?cs))
    \<and> length (reissue [] ?cs) = length ([] :: grid_cell list) + length ?cs
    \<and> (\<forall>k. \<exists>i. cell_of (reissue [] ?cs) k = map_option (s_id_update (\<lambda>_. i)) (cell_of ([] @ ?cs) k)
      \<and> (\<forall>s. cell_of ([] @ ?cs) k = Some s \<longrightarrow> s_id s \<noteq> [] \<longrightarrow> i = s_id s))"
    by (intro reissue_ids) simp_all
  then have c: "\<exists>i. cell_of (reissue [] ?cs) k = map_option (s_id_update (\<lambda>_. i)) (cell_of ?cs k)" for k
    unfolding append_Nil by blast
  have "(s_id_update (\<lambda>_. i)) (read_slot j e) = read_slot i e" for i j e
    by (simp add: read_slot_def Let_def)
  then have "\<exists>i. cell_of (reissue [] ?cs) k =
      (if k < length (stored_cells raw) \<and> usable_entry (host_known hosts fk) (stored_cells raw ! k)
       then Some (read_slot i (stored_cells raw ! k)) else None)" for k
    using c [of k] read_cells_usable [of "host_known hosts fk" "[]" "stored_cells raw" k]
    by (auto split: if_splits)
  then show ?thesis using R trimmed_trimTail by (simp add: hydrated_slots_def)
qed

text \<open>
  Hydration keeps every usable cell at its own index, with the host
  and kind it was stored with, and turns every unusable one into an empty cell; when the fleet is
  not known, every object with a host id is usable, whatever hosts the caller lists.
\<close>

theorem hydrate_positions:
  assumes "ids_exact raw" and "normalizeLayout raw hosts fk = Some l"
  shows "case cell_of (slots l) k of
      None \<Rightarrow> \<not> (k < length (stored_cells raw) \<and> usable_entry (host_known hosts fk) (stored_cells raw ! k))
    | Some s \<Rightarrow> k < length (stored_cells raw) \<and> usable_entry (host_known hosts fk) (stored_cells raw ! k)
        \<and> s = read_slot (s_id s) (stored_cells raw ! k)"
proof -
  have "slots l = hydrated_slots raw hosts fk"
    using normalizeLayout_is_hydrated [OF assms(2)] by auto
  moreover obtain i where "cell_of (hydrated_slots raw hosts fk) k =
      (if k < length (stored_cells raw) \<and> usable_entry (host_known hosts fk) (stored_cells raw ! k)
       then Some (read_slot i (stored_cells raw ! k)) else None)"
    using hydrated_cells [OF assms(1), of hosts fk] by blast
  ultimately show ?thesis by simp
qed

definition cell_live :: "grid_cell list \<Rightarrow> string option \<Rightarrow> bool" where
  "cell_live cs v = (case v of None \<Rightarrow> True | Some i \<Rightarrow> i \<in> set (live_ids cs))"

lemma list_ex_has_id: "list_ex (has_id (Some i)) cs \<longleftrightarrow> i \<in> set (live_ids cs)"
  by (auto simp: list_ex_iff set_live_ids has_id_def split: option.splits)

lemma cell_live_read: "cell_live cs (live_or_none cs v)"
  by (simp add: cell_live_def live_or_none_def list_ex_has_id split: option.split)

lemma clamp_or_bounds: "mn \<le> mx \<Longrightarrow> d \<in> {mn..mx} \<Longrightarrow> clamp_or v mn mx d \<in> {mn..mx}"
  using clamp_bounds [of mn mx] by (simp add: clamp_or_def split: option.split)

lemma hydrated_panels: "panels_ok (hydrated_layout raw hosts fk m)"
  using clamp_or_bounds [of SIDEBAR_WIDTH_MIN SIDEBAR_WIDTH_MAX 300 "js_get raw ''sidebarWidth''"]
    clamp_or_bounds [of DOCK_WIDTH_MIN DOCK_WIDTH_MAX 420 "js_get raw ''dockWidth''"]
    clamp_or_bounds [of FILES_SHARE_MIN FILES_SHARE_MAX 50 "js_get raw ''filesShare''"]
    clamp_bounds [of DETAIL_HEIGHT_MIN DETAIL_HEIGHT_MAX]
  by (auto simp: panels_ok_def hydrated_layout_def read_layout_def Let_def defaultLayout_def bound_defs
      split: option.split)

lemma hydrated_page:
  "0 \<le> page (hydrated_layout raw hosts fk m) \<and> page (hydrated_layout raw hosts fk m) < pageCount (hydrated_layout raw hosts fk m)"
proof -
  have "0 \<le> page (read_layout raw hosts fk m)" by (simp add: read_layout_def Let_def split: option.split)
  then show ?thesis using pageCount_pos(2) [of "read_layout raw hosts fk m"]
    by (simp add: hydrated_layout_def Let_def min_def)
qed

lemma reissue_nonempty: "[] \<notin> set (live_ids front) \<Longrightarrow> [] \<notin> set (live_ids (reissue front rest))"
proof (induction rest arbitrary: front)
  case (Cons cell rest)
  have "[] \<notin> set (live_ids (front @ [case cell of None \<Rightarrow> None
       | Some slot \<Rightarrow> Some (if s_id slot = [] then slot\<lparr>s_id := nextSlotId (front @ cell # rest)\<rparr> else slot)]))"
    using Cons.prems nextSlotId_not_Nil [of "front @ cell # rest", symmetric] by (auto split: option.split)
  from Cons.IH [OF this] show ?case by simp
qed simp



theorem hydrate_positions_witness:
  "case normalizeLayout (JObj [(''slots'', JArr [JNull, JObj [(''id'', JStr ''s1''), (''hostId'', JStr ''h'')]])]) [] False of
    Some l \<Rightarrow> cell_of (slots l) 1 \<noteq> None | None \<Rightarrow> False"
  (is "case normalizeLayout ?raw [] False of Some l \<Rightarrow> _ l | None \<Rightarrow> _")
proof -
  have "id_below 1 ''s1''"
    by (simp add: id_below_def id_number_def is_digit_def js_number_def nat_of_str_def digit_val_def)
  then have "ids_exact ?raw"
    by (intro ids_exact_def [THEN iffD2] exI [of _ 1]) (simp add: stored_cells_def)
  moreover have n: "normalizeLayout ?raw [] False = Some (hydrated_layout ?raw [] False Split4)" (is "_ = Some ?l")
    by (simp add: normalizeLayout_def defaultLayout_def)
  ultimately have "case cell_of (slots ?l) 1 of
      None \<Rightarrow> \<not> (1 < length (stored_cells ?raw) \<and> usable_entry (host_known [] False) (stored_cells ?raw ! 1))
    | Some s \<Rightarrow> 1 < length (stored_cells ?raw) \<and> usable_entry (host_known [] False) (stored_cells ?raw ! 1)
        \<and> s = read_slot (s_id s) (stored_cells ?raw ! 1)"
    by (rule hydrate_positions)
  then have "cell_of (slots ?l) 1 \<noteq> None"
    by (auto simp: stored_cells_def usable_entry_def host_known_def split: option.splits)
  then show ?thesis unfolding n by simp
qed

section \<open>Round trip\<close>

declare map_of_append [simp del]

fun mode_string :: "grid_mode \<Rightarrow> string" where
  "mode_string Tab = ''tab''"
| "mode_string Split2 = ''split2''"
| "mode_string Split4 = ''split4''"
| "mode_string Split9 = ''split9''"

interpretation mode_text: codec mode_string mode_of_string "\<lambda>_. True"
proof
  fix m show "mode_of_string (mode_string m) = Some m" by (cases m) simp_all
qed

definition tag_json :: "terminal_tag \<Rightarrow> jsval" where
  "tag_json t = JObj (opt_field ''textColor'' (map_option JStr (tag_text t))
     @ [(''name'', JStr (tag_name t)), (''color'', JStr (tag_color t))])"

definition clean_name :: "nat \<Rightarrow> string \<Rightarrow> bool" where
  "clean_name mx s = (s \<noteq> [] \<and> clean_text (JStr s) mx = s)"

definition clean_color :: "string \<Rightarrow> bool" where
  "clean_color s = (is_color s \<and> to_lower s = s)"

definition wf_tag :: "terminal_tag \<Rightarrow> bool" where
  "wf_tag t = (clean_name TERMINAL_TAG_NAME_MAX (tag_name t) \<and> clean_color (tag_color t)
     \<and> (case tag_text t of None \<Rightarrow> True | Some c \<Rightarrow> clean_color c))"

lemma color_of_clean: "clean_color c \<Longrightarrow> color_of (JStr c) = Some c"
  by (simp add: clean_color_def color_of_def)

interpretation tag_text: codec tag_json tag_of wf_tag
proof
  fix t assume wf: "wf_tag t"
  then have n: "clean_text (JStr (tag_name t)) TERMINAL_TAG_NAME_MAX = tag_name t" "tag_name t \<noteq> []"
    and c: "color_of (JStr (tag_color t)) = Some (tag_color t)"
    by (simp_all add: wf_tag_def clean_name_def color_of_clean)
  have x: "color_of (js_get (tag_json t) ''textColor'') = tag_text t"
    using wf by (cases "tag_text t") (auto simp: tag_json_def wf_tag_def clean_color_def color_of_def)
  have "js_get (tag_json t) ''name'' = JStr (tag_name t)" "js_get (tag_json t) ''color'' = JStr (tag_color t)"
    "is_object (tag_json t)"
    by (simp_all add: tag_json_def)
  with n c x show "tag_of (tag_json t) = Some t" by (simp add: tag_of_def)
qed

definition wf_tags :: "terminal_tag list \<Rightarrow> bool" where
  "wf_tags ts = (length ts \<le> TERMINAL_TAGS_MAX \<and> list_all wf_tag ts
     \<and> sorted_wrt (\<lambda>a b. \<not> same_tag b a) ts)"

lemma collect_tags_json:
  assumes "wf_tags (done @ ts)" and "ts \<noteq> [] \<longrightarrow> length done < TERMINAL_TAGS_MAX"
  shows "collect_tags (map tag_json ts) done = done @ ts"
  using assms
proof (induction ts arbitrary: "done")
  case (Cons t ts)
  have wf: "wf_tag t" "\<not> list_ex (same_tag t) done" "length done + Suc (length ts) \<le> TERMINAL_TAGS_MAX"
    using Cons.prems(1) by (auto simp: wf_tags_def sorted_wrt_append list_ex_iff)
  have "wf_tags ((done @ [t]) @ ts)" using Cons.prems(1) by simp
  then show ?case
    using Cons.IH [of "done @ [t]"] wf by (cases ts) (auto simp: tag_text.dec_enc Let_def)
qed simp

definition opt_string :: "string option \<Rightarrow> jsval" where
  "opt_string v = (case v of None \<Rightarrow> JNull | Some s \<Rightarrow> JStr s)"

definition slot_json :: "terminal_slot \<Rightarrow> jsval" where
  "slot_json s = JObj (opt_field ''backend'' (map_option (JStr \<circ> backend_string) (s_backend s))
     @ opt_field ''sessionId'' (map_option JStr (s_sessionId s))
     @ opt_field ''tmuxId'' (map_option JStr (s_tmuxId s))
     @ opt_field ''intent'' (map_option (JStr \<circ> intent_string) (s_intent s))
     @ opt_field ''label'' (map_option JStr (s_label s))
     @ opt_field ''tags'' (if s_tags s = [] then None else Some (JArr (map tag_json (s_tags s))))
     @ [(''id'', JStr (s_id s)), (''hostId'', JStr (s_host s)), (''kind'', JStr (kind_string (s_kind s))),
        (''session'', opt_string (s_session s))])"

definition wf_slot :: "terminal_slot \<Rightarrow> bool" where
  "wf_slot s = (s_id s \<noteq> [] \<and> (s_kind s = Shell \<longleftrightarrow> s_session s = None)
     \<and> (case s_sessionId s of None \<Rightarrow> True | Some i \<Rightarrow> is_uuid i)
     \<and> (case s_tmuxId s of None \<Rightarrow> True | Some i \<Rightarrow> is_tmux_id i)
     \<and> (case s_label s of None \<Rightarrow> True | Some l \<Rightarrow> clean_name TERMINAL_LABEL_MAX l)
     \<and> wf_tags (s_tags s))"

lemma slot_json_fields [simp]:
  "js_get (slot_json s) ''id'' = JStr (s_id s)"
  "js_get (slot_json s) ''hostId'' = JStr (s_host s)"
  "js_get (slot_json s) ''kind'' = JStr (kind_string (s_kind s))"
  "js_get (slot_json s) ''session'' = opt_string (s_session s)"
  "js_get (slot_json s) ''backend'' = (case s_backend s of None \<Rightarrow> Undefined | Some b \<Rightarrow> JStr (backend_string b))"
  "js_get (slot_json s) ''sessionId'' = (case s_sessionId s of None \<Rightarrow> Undefined | Some i \<Rightarrow> JStr i)"
  "js_get (slot_json s) ''tmuxId'' = (case s_tmuxId s of None \<Rightarrow> Undefined | Some i \<Rightarrow> JStr i)"
  "js_get (slot_json s) ''intent'' = (case s_intent s of None \<Rightarrow> Undefined | Some i \<Rightarrow> JStr (intent_string i))"
  "js_get (slot_json s) ''label'' = (case s_label s of None \<Rightarrow> Undefined | Some l \<Rightarrow> JStr l)"
  "js_get (slot_json s) ''tags'' = (if s_tags s = [] then Undefined else JArr (map tag_json (s_tags s)))"
  "is_object (slot_json s)"
  by (simp_all add: slot_json_def split: option.split)

lemma presentation_json:
  "wf_slot s \<Longrightarrow> normalizeTerminalPresentation (slot_json s) = \<lparr>p_label = s_label s, p_tags = s_tags s\<rparr>"
proof -
  assume wf: "wf_slot s"
  have "collect_tags (map tag_json (s_tags s)) [] = s_tags s"
    using wf collect_tags_json [of "[]" "s_tags s"] by (simp add: wf_slot_def TERMINAL_TAGS_MAX_def)
  then have t: "(case as_array (js_get (slot_json s) ''tags'') of Some items \<Rightarrow> collect_tags items [] | None \<Rightarrow> [])
      = s_tags s"
    by simp
  have u: "clean_text Undefined mx = []" for mx by (simp add: clean_text_def)
  show ?thesis
    using wf t u unfolding normalizeTerminalPresentation_def Let_def
    by (cases "s_label s") (simp_all add: wf_slot_def clean_name_def del: as_array.simps)
qed

lemma read_slot_json: "wf_slot s \<Longrightarrow> read_slot (s_id s) (slot_json s) = s"
proof -
  assume wf: "wf_slot s"
  have "read_with kind_of_string (JStr (kind_string (s_kind s))) = Some (s_kind s)"
    "read_with backend_of_string (js_get (slot_json s) ''backend'') = s_backend s"
    "read_with intent_of_string (js_get (slot_json s) ''intent'') = s_intent s"
    "read_with (only_if is_uuid) (js_get (slot_json s) ''sessionId'') = s_sessionId s"
    "read_with (only_if is_tmux_id) (js_get (slot_json s) ''tmuxId'') = s_tmuxId s"
    using wf by (auto simp: read_with_def kind_text.dec_enc backend_text.dec_enc intent_text.dec_enc
        only_if_def wf_slot_def simp del: kind_of_string.simps backend_of_string.simps intent_of_string.simps
        split: option.splits)
  moreover have "s_kind s = Shell \<longrightarrow> s_session s = None"
    "s_kind s \<noteq> Shell \<longrightarrow> Some (js_String (nullish_or (opt_string (s_session s)) (JStr ''main''))) = s_session s"
    using wf by (auto simp: wf_slot_def nullish_or_def opt_string_def split: option.splits)
  ultimately show ?thesis
    using wf by (cases "s_kind s = Shell"; intro terminal_slot.equality)
      (simp_all add: read_slot_def Let_def presentation_json del: js_get.simps)
qed

definition cell_json :: "grid_cell \<Rightarrow> jsval" where
  "cell_json c = (case c of None \<Rightarrow> JNull | Some s \<Rightarrow> slot_json s)"

definition wf_cells :: "(string \<Rightarrow> bool) \<Rightarrow> grid_cell list \<Rightarrow> bool" where
  "wf_cells he cs = list_all (\<lambda>c. case c of None \<Rightarrow> True | Some s \<Rightarrow> wf_slot s \<and> he (s_host s)) cs"

lemma read_cells_json:
  assumes "wf_cells he cs" and "distinct (cl @ live_ids cs)"
  shows "read_cells he cl (map cell_json cs) = cs"
  using assms
proof (induction cs arbitrary: cl)
  case (Cons c cs)
  show ?case
  proof (cases c)
    case None
    then show ?thesis using Cons by (simp add: cell_json_def usable_entry_def wf_cells_def)
  next
    case (Some s)
    have wf: "wf_slot s" "he (s_host s)" "s_id s \<noteq> []" "s_id s \<notin> set cl"
      using Cons.prems Some by (simp_all add: wf_cells_def wf_slot_def)
    then have "claim_id cl (slot_json s) = s_id s" "usable_entry he (slot_json s)"
      by (simp_all add: claim_id_def usable_entry_def del: js_get.simps)
    then show ?thesis using wf Cons Some
      by (simp add: cell_json_def read_slot_json wf_cells_def Let_def)
  qed
qed simp

lemma reissue_ids_kept: "[] \<notin> set (live_ids rest) \<Longrightarrow> reissue front rest = front @ rest"
proof (induction rest arbitrary: front)
  case (Cons c rest)
  then have "reissue front (c # rest) = reissue (front @ [c]) rest"
    by (intro reissue_Cons_keep) auto
  then show ?case using Cons by (cases c) auto
qed simp

definition layout_json :: "layout \<Rightarrow> jsval" where
  "layout_json l = JObj [
     (''mode'', JStr (mode_string (mode l))), (''page'', JNum (Fin (of_int (page l)))),
     (''slots'', JArr (map cell_json (slots l))),
     (''zoomId'', opt_string (zoomId l)), (''focusId'', opt_string (focusId l)),
     (''clickAction'', JStr (case clickAction l of ClickZoom \<Rightarrow> ''zoom'' | ClickFocus \<Rightarrow> ''focus'')),
     (''sidebarOpen'', JBool (sidebarOpen l)), (''sidebarWidth'', JNum (Fin (of_int (sidebarWidth l)))),
     (''dockOpen'', JBool (dockOpen l)), (''dockWidth'', JNum (Fin (of_int (dockWidth l)))),
     (''filesOpen'', JBool (filesOpen l)), (''filesShare'', JNum (Fin (of_int (filesShare l)))),
     (''filesTarget'', case filesTarget l of None \<Rightarrow> JNull
        | Some t \<Rightarrow> JObj [(''hostId'', JStr (ft_host t)), (''path'', JStr (ft_path t))]),
     (''dockRefsHidden'', JBool (dockRefsHidden l)),
     (''dockDetailHeight'', case dockDetailHeight l of None \<Rightarrow> JNull | Some h \<Rightarrow> JNum (Fin (of_int h))),
     (''dockTarget'', case dockTarget l of None \<Rightarrow> JNull
        | Some t \<Rightarrow> JObj [(''hostId'', JStr (dt_host t)), (''repo'', opt_string (dt_repo t))]),
     (''cards'', cards_json (cards l))]"

definition storable :: "grid_host list \<Rightarrow> bool \<Rightarrow> layout \<Rightarrow> bool" where
  "storable hosts fk l = (wf_cells (host_known hosts fk) (slots l) \<and> distinct (live_ids (slots l))
     \<and> trimmed (slots l) \<and> 0 \<le> page l \<and> page l < pageCount l \<and> panels_ok l
     \<and> cell_live (slots l) (zoomId l) \<and> cell_live (slots l) (focusId l) \<and> wf_cards (cards l))"

lemma clamp_id: "mn \<le> n \<Longrightarrow> n \<le> mx \<Longrightarrow> clamp (of_int n) mn mx = n"
  by (simp add: clamp_def)

lemma clamp_or_id: "mn \<le> n \<Longrightarrow> n \<le> mx \<Longrightarrow> clamp_or (JNum (Fin (of_int n))) mn mx d = n"
  by (simp add: clamp_or_def clamp_id)

lemma live_or_none_id: "cell_live cs v \<Longrightarrow> live_or_none cs (opt_string v) = v"
  by (cases v) (simp_all add: cell_live_def live_or_none_def opt_string_def list_ex_has_id)

lemma wf_cells_slot: "wf_cells he cs \<Longrightarrow> Some s \<in> set cs \<Longrightarrow> wf_slot s \<and> he (s_host s)"
  unfolding wf_cells_def list_all_iff by fastforce

lemma hydrated_slots_json:
  assumes "storable hosts fk l"
  shows "hydrated_slots (layout_json l) hosts fk = slots l"
proof -
  have wf: "wf_cells (host_known hosts fk) (slots l)" "distinct ([] @ live_ids (slots l))" "trimmed (slots l)"
    using assms by (simp_all add: storable_def)
  have "s_id s \<noteq> []" if "Some s \<in> set (slots l)" for s
    using wf_cells_slot [OF wf(1) that] by (simp add: wf_slot_def)
  then have "[] \<notin> set (live_ids (slots l))" unfolding set_live_ids by fastforce
  then have "reissue [] (slots l) = slots l" by (simp add: reissue_ids_kept)
  moreover have "stored_cells (layout_json l) = map cell_json (slots l)"
    by (simp add: stored_cells_def layout_json_def)
  ultimately show ?thesis
    using read_cells_json [OF wf(1,2)] wf(3) by (simp add: hydrated_slots_def trimTail_trimmed)
qed

lemma read_layout_json:
  assumes "storable hosts fk l"
  shows "read_layout (layout_json l) hosts fk (mode l) = l"
proof (intro layout.equality)
  note p = assms [unfolded storable_def panels_ok_def]
  let ?l = "read_layout (layout_json l) hosts fk (mode l)"
  note r = read_layout_def layout_json_def [THEN arg_cong [of _ _ "\<lambda>v. js_get v k" for k]]
  show "page ?l = page l" using p by (simp add: r Let_def)
  show "slots ?l = slots l" using hydrated_slots_json [OF assms] by (simp add: read_layout_def Let_def)
  show "zoomId ?l = zoomId l" "focusId ?l = focusId l"
    using p hydrated_slots_json [OF assms] by (simp_all add: r Let_def live_or_none_id)
  show "clickAction ?l = clickAction l"
    by (cases "clickAction l") (simp_all add: r Let_def read_with_def read_click_def)
  show "sidebarWidth ?l = sidebarWidth l" "dockWidth ?l = dockWidth l" "filesShare ?l = filesShare l"
    using p by (simp_all add: r Let_def clamp_or_id bound_defs)
  show "dockDetailHeight ?l = dockDetailHeight l"
    using p by (cases "dockDetailHeight l") (simp_all add: r Let_def clamp_id bound_defs)
  show "filesTarget ?l = filesTarget l" by (cases "filesTarget l") (simp_all add: r Let_def)
  show "dockTarget ?l = dockTarget l"
    by (cases "dockTarget l"; cases "dt_repo (the (dockTarget l))") (simp_all add: r Let_def opt_string_def)
  show "cards ?l = cards l" using p by (simp add: r Let_def sanitize_cards_json)
qed (simp_all add: read_layout_def layout_json_def Let_def bool_or_def)

interpretation stored_layout: codec layout_json "\<lambda>v. normalizeLayout v hosts fk" "storable hosts fk"
  for hosts fk
proof
  fix l assume s: "storable hosts fk l"
  have "js_get (layout_json l) ''mode'' = JStr (mode_string (mode l))" by (simp add: layout_json_def)
  moreover have "hydrated_layout (layout_json l) hosts fk (mode l) = l"
    using s by (simp add: hydrated_layout_def read_layout_json Let_def storable_def min_def)
  ultimately show "normalizeLayout (layout_json l) hosts fk = Some l"
    using mode_text.dec_enc [of "mode l"] by (simp add: normalizeLayout_def del: mode_of_string.simps)
qed

text \<open>
  C7 (\<open>hydrate_roundtrip\<close>): a well-formed layout on known hosts survives a reload: written as
  JSON and hydrated again it is the same layout, every cell, label, tag, panel and card.
\<close>

theorem hydrate_roundtrip:
  assumes "storable hosts fk l"
  shows "normalizeLayout (layout_json l) hosts fk = Some l"
  using assms by (rule stored_layout.dec_enc)

theorem hydrate_roundtrip_witness:
  "normalizeLayout (layout_json sample_layout) [] False = Some sample_layout"
proof -
  have "wf_slot (sample_slot i)" if "i \<noteq> []" for i
    using that by (simp add: sample_slot_def wf_slot_def wf_tags_def)
  then have "storable [] False sample_layout"
    by (simp add: storable_def sample_layout_def defaultLayout_def wf_cells_def host_known_def
        trimmed_def panels_ok_def pageCount_def cell_live_def wf_cards_def)
      (simp add: sample_slot_def)
  then show ?thesis by (rule hydrate_roundtrip)
qed

end
