(* ===== verification/PQueue.thy ===== *)
theory PQueue
  imports Prelude
begin

text \<open>
  The binary heap of \<^verbatim>\<open>apps/api/src/git/commit-order.ts\<close>: an array of positions in
  which no element is below its parent. The locale \<open>priority_queue\<close> is the contract its client,
  the ordering of a commit window, relies on; the heap interprets it.
\<close>

section \<open>The contract\<close>

locale priority_queue =
  fixes empty :: "'q"
    and push :: "nat \<Rightarrow> 'q \<Rightarrow> 'q"
    and pop :: "'q \<Rightarrow> (nat \<times> 'q) option"
    and inv :: "'q \<Rightarrow> bool"
    and items :: "'q \<Rightarrow> nat multiset"
  assumes inv_empty: "inv empty" and items_empty: "items empty = {#}"
    and inv_push: "inv q \<Longrightarrow> inv (push x q)"
    and items_push: "inv q \<Longrightarrow> items (push x q) = add_mset x (items q)"
    and pop_None: "inv q \<Longrightarrow> pop q = None \<longleftrightarrow> items q = {#}"
    and pop_Some: "inv q \<Longrightarrow> pop q = Some (x, q') \<Longrightarrow>
      inv q' \<and> items q = add_mset x (items q') \<and> (\<forall>y \<in># items q'. x \<le> y)"
begin

lemma pop_least: "inv q \<Longrightarrow> pop q = Some (x, q') \<Longrightarrow> y \<in># items q \<Longrightarrow> x \<le> y"
  using pop_Some [of q x q'] by auto

text \<open>Pushing a list of values one after the other.\<close>

lemma push_all:
  "inv q \<Longrightarrow> inv (fold push xs q) \<and> items (fold push xs q) = mset xs + items q"
  by (induction xs arbitrary: q) (simp_all add: inv_push items_push)

end

section \<open>The heap\<close>

definition swap_at :: "'a list \<Rightarrow> nat \<Rightarrow> nat \<Rightarrow> 'a list" where
  "swap_at h i j = h[i := h ! j, j := h ! i]"

text \<open>The parent of an index, \<open>(c - 1) >> 1\<close>.\<close>

definition up :: "nat \<Rightarrow> nat" where
  "up c = (c - 1) div 2"

lemma up_less [termination_simp]: "0 < i \<Longrightarrow> up i < i"
  unfolding up_def by (metis One_nat_def Suc_pred div_le_dividend le_imp_less_Suc)

text \<open>The loop of \<open>push\<close>.\<close>

fun sift_up :: "nat list \<Rightarrow> nat \<Rightarrow> nat list" where
  "sift_up h child =
     (if child = 0 then h
      else let parent = up child in
        if h ! parent \<le> h ! child then h else sift_up (swap_at h parent child) parent)"

declare sift_up.simps [simp del]

definition heap_push :: "nat \<Rightarrow> nat list \<Rightarrow> nat list" where
  "heap_push x h = sift_up (h @ [x]) (length h)"

definition smaller_child :: "nat list \<Rightarrow> nat \<Rightarrow> nat" where
  "smaller_child h parent =
     (let left = 2 * parent + 1;
          s = (if left < length h \<and> h ! left < h ! parent then left else parent)
      in if left + 1 < length h \<and> h ! (left + 1) < h ! s then left + 1 else s)"

lemma smaller_child_ge: "parent \<le> smaller_child h parent"
  by (auto simp: smaller_child_def Let_def)

lemma smaller_child_less: "smaller_child h parent \<noteq> parent \<Longrightarrow>
  parent < smaller_child h parent \<and> smaller_child h parent < length h"
  by (auto simp: smaller_child_def Let_def split: if_splits)

lemma length_swap_at [simp]: "length (swap_at h i j) = length h"
  by (simp add: swap_at_def)

text \<open>The loop of \<open>pop\<close>.\<close>

function sift_down :: "nat list \<Rightarrow> nat \<Rightarrow> nat list" where
  "sift_down h parent =
     (let smallest = smaller_child h parent in
      if smallest = parent then h else sift_down (swap_at h parent smallest) smallest)"
  by auto

termination
proof (relation "measure (\<lambda>(h, parent). length h - parent)")
  fix h parent x
  assume "x = smaller_child h parent" "x \<noteq> parent"
  then have "parent < x" "x < length h" using smaller_child_less [of h parent] by auto
  then show "((swap_at h parent x, x), h, parent) \<in> measure (\<lambda>(h, parent). length h - parent)" by simp
qed simp

declare sift_down.simps [simp del]

definition heap_pop :: "nat list \<Rightarrow> (nat \<times> nat list) option" where
  "heap_pop h =
     (if h = [] then None
      else let rest = butlast h in
        Some (hd h, if 0 < length rest then sift_down (rest[0 := last h]) 0 else rest))"

section \<open>The heap order\<close>

definition is_heap :: "nat list \<Rightarrow> bool" where
  "is_heap h = (\<forall>i. 0 < i \<longrightarrow> i < length h \<longrightarrow> h ! (up i) \<le> h ! i)"

text \<open>The heap order except between \<open>c\<close> and its parent, respectively \<open>p\<close> and its children.\<close>

definition up_ok :: "nat list \<Rightarrow> nat \<Rightarrow> bool" where
  "up_ok h c = ((\<forall>i. 0 < i \<longrightarrow> i < length h \<longrightarrow> i \<noteq> c \<longrightarrow> h ! (up i) \<le> h ! i)
     \<and> (\<forall>i. 0 < i \<longrightarrow> i < length h \<longrightarrow> up i = c \<longrightarrow> 0 < c \<longrightarrow> h ! (up c) \<le> h ! i))"

definition down_ok :: "nat list \<Rightarrow> nat \<Rightarrow> bool" where
  "down_ok h p = ((\<forall>i. 0 < i \<longrightarrow> i < length h \<longrightarrow> up i \<noteq> p \<longrightarrow> h ! (up i) \<le> h ! i)
     \<and> (\<forall>i. 0 < i \<longrightarrow> i < length h \<longrightarrow> up i = p \<longrightarrow> 0 < p \<longrightarrow> h ! (up p) \<le> h ! i))"

lemma nth_swap_at:
  "i < length h \<Longrightarrow> j < length h \<Longrightarrow> k < length h \<Longrightarrow>
   swap_at h i j ! k = (if k = i then h ! j else if k = j then h ! i else h ! k)"
  by (auto simp: swap_at_def nth_list_update)

lemma mset_swap_at: "i < length h \<Longrightarrow> j < length h \<Longrightarrow> mset (swap_at h i j) = mset h"
  using mset_swap [of j h i] by (simp add: swap_at_def)

lemma up_less': "0 < i \<Longrightarrow> i < n \<Longrightarrow> up i < n"
  using up_less less_trans by blast

lemma up_ok_swap:
  assumes ok: "up_ok h c" and c: "0 < c" "c < length h" and gt: "h ! c < h ! (up c)"
  shows "up_ok (swap_at h (up c) c) (up c)"
proof -
  let ?p = "up c"
  let ?h = "swap_at h ?p c"
  have p: "?p < c" "?p < length h" using c up_less up_less' by auto
  have n: "?h ! k = (if k = ?p then h ! c else if k = c then h ! ?p else h ! k)" if "k < length h" for k
    by (rule nth_swap_at) (use p c that in auto)
  have a: "h ! (up i) \<le> h ! i" if "0 < i" "i < length h" "i \<noteq> c" for i
    using ok that unfolding up_ok_def by blast
  have b: "h ! ?p \<le> h ! i" if "0 < i" "i < length h" "up i = c" for i
    using ok that c(1) unfolding up_ok_def by blast
  have "?h ! (up i) \<le> ?h ! i" if i: "0 < i" "i < length h" "i \<noteq> ?p" for i
  proof -
    have q: "up i < length h" using i up_less' by blast
    consider "i = c" | "i \<noteq> c" "up i = ?p" | "i \<noteq> c" "up i = c"
      | "i \<noteq> c" "up i \<noteq> ?p" "up i \<noteq> c" by blast
    then show ?thesis
    proof cases
      case 1
      then show ?thesis using gt n [OF i(2)] n [OF q] p by simp
    next
      case 2
      have "h ! ?p \<le> h ! i" using a [OF i(1,2) 2(1)] 2(2) by simp
      then show ?thesis using gt n [OF i(2)] n [OF q] 2 i(3) by simp
    next
      case 3
      then show ?thesis using b [OF i(1,2) 3(2)] n [OF i(2)] n [OF q] i(3) p by simp
    next
      case 4
      then show ?thesis using a [OF i(1,2)] n [OF i(2)] n [OF q] i(3) by simp
    qed
  qed
  moreover have "?h ! (up ?p) \<le> ?h ! i"
    if i: "0 < i" "i < length h" "up i = ?p" and p0: "0 < ?p" for i
  proof -
    have g: "up ?p < ?p" using p0 by (rule up_less)
    then have gl: "up ?p < length h" using p by simp
    have gp: "h ! (up ?p) \<le> h ! ?p" using a [of ?p] p0 p by simp
    have hg: "?h ! (up ?p) = h ! (up ?p)" using n [OF gl] g p by simp
    have ip: "i \<noteq> ?p" using i(1,3) up_less [of i] by auto
    show ?thesis
    proof (cases "i = c")
      case True
      then show ?thesis using hg gp n [OF i(2)] p by simp
    next
      case False
      then show ?thesis using hg gp a [OF i(1,2) False] i(3) n [OF i(2)] ip by simp
    qed
  qed
  ultimately show ?thesis unfolding up_ok_def by (simp only: length_swap_at) blast
qed

lemma sift_up_heap:
  assumes "up_ok h c" and "c < length h"
  shows "is_heap (sift_up h c) \<and> mset (sift_up h c) = mset h"
  using assms
proof (induction h c rule: sift_up.induct)
  case (1 h c)
  let ?p = "up c"
  show ?case
  proof (cases "c = 0 \<or> h ! ?p \<le> h ! c")
    case True
    then have "sift_up h c = h" by (auto simp: sift_up.simps [of h c])
    moreover have "is_heap h" using True 1(2) unfolding is_heap_def up_ok_def by auto
    ultimately show ?thesis by simp
  next
    case False
    then have e: "sift_up h c = sift_up (swap_at h ?p c) ?p" by (simp add: sift_up.simps [of h c] Let_def)
    have "up_ok (swap_at h ?p c) ?p" by (rule up_ok_swap) (use False 1 in auto)
    moreover have "?p < length h" using 1(3) False up_less' by auto
    ultimately show ?thesis unfolding e using 1 False by (simp add: mset_swap_at)
  qed
qed

lemma heap_push_correct:
  assumes "is_heap h"
  shows "is_heap (heap_push x h) \<and> mset (heap_push x h) = add_mset x (mset h)"
proof -
  have "(h @ [x]) ! (up i) \<le> (h @ [x]) ! i" if "0 < i" "i < length h" for i
  proof -
    have "up i < length h" using that up_less' by blast
    then show ?thesis using assms that by (simp add: is_heap_def nth_append)
  qed
  then have "(h @ [x]) ! up i \<le> (h @ [x]) ! i" if "0 < i" "i < length (h @ [x])" "i \<noteq> length h" for i
    using that by simp
  moreover have "up i \<noteq> length h" if "0 < i" "i < length (h @ [x])" for i
    using that up_less [of i] by simp
  ultimately have "up_ok (h @ [x]) (length h)" unfolding up_ok_def by blast
  then show ?thesis using sift_up_heap [of "h @ [x]" "length h"] by (simp add: heap_push_def)
qed

lemma child_cases: "0 < i \<Longrightarrow> up i = p \<Longrightarrow> i = 2 * p + 1 \<or> i = 2 * p + 2"
  by (auto simp: up_def)

lemma up_children [simp]: "up (Suc (2 * p)) = p" "up (Suc (Suc (2 * p))) = p"
  by (simp_all add: up_def)

lemma smaller_child_least:
  assumes "smaller_child h p \<noteq> p"
  shows "up (smaller_child h p) = p \<and> h ! smaller_child h p < h ! p
    \<and> (\<forall>i. 0 < i \<longrightarrow> i < length h \<longrightarrow> up i = p \<longrightarrow> h ! smaller_child h p \<le> h ! i)"
  using assms by (auto simp: smaller_child_def Let_def split: if_splits dest!: child_cases)

lemma smaller_child_none:
  assumes "smaller_child h p = p" and "0 < i" and "i < length h" and "up i = p"
  shows "h ! p \<le> h ! i"
  using assms by (auto simp: smaller_child_def Let_def not_less split: if_splits dest!: child_cases)

lemma down_ok_swap:
  assumes ok: "down_ok h p" and s: "smaller_child h p = s" "s \<noteq> p"
  shows "down_ok (swap_at h p s) s"
proof -
  let ?h = "swap_at h p s"
  have sl: "p < s" "s < length h" using smaller_child_less [of h p] s by auto
  have up_s: "up s = p" and less: "h ! s < h ! p"
    and least: "\<And>i. 0 < i \<Longrightarrow> i < length h \<Longrightarrow> up i = p \<Longrightarrow> h ! s \<le> h ! i"
    using smaller_child_least [of h p] s by auto
  have n: "?h ! k = (if k = p then h ! s else if k = s then h ! p else h ! k)" if "k < length h" for k
    by (rule nth_swap_at) (use sl that in auto)
  have a: "h ! up i \<le> h ! i" if "0 < i" "i < length h" "up i \<noteq> p" for i
    using ok that unfolding down_ok_def by blast
  have b: "0 < p \<Longrightarrow> h ! up p \<le> h ! s" using ok sl up_s unfolding down_ok_def by (metis less_nat_zero_code neq0_conv)
  have "?h ! up i \<le> ?h ! i" if i: "0 < i" "i < length h" "up i \<noteq> s" for i
  proof -
    have u: "up i < length h" "up i \<noteq> i" using i up_less' up_less [of i] by auto
    consider "up i = p" "i = s" | "up i = p" "i \<noteq> s" | "i = p" | "up i \<noteq> p" "i \<noteq> p" "i \<noteq> s"
      using up_s by blast
    then show ?thesis
    proof cases
      case 1
      then show ?thesis using n [OF i(2)] n [OF u(1)] less s(2) by simp
    next
      case 2
      then show ?thesis using n [OF i(2)] n [OF u(1)] least [OF i(1,2)] u(2) by simp
    next
      case 3
      then show ?thesis using n [OF i(2)] n [OF u(1)] b i u(2) by simp
    next
      case 4
      then show ?thesis using n [OF i(2)] n [OF u(1)] a [OF i(1,2)] i(3) by simp
    qed
  qed
  moreover have "?h ! up s \<le> ?h ! i" if i: "0 < i" "i < length h" "up i = s" for i
  proof -
    have "i \<noteq> p" "i \<noteq> s" using up_less [OF i(1)] i(3) sl(1) by auto
    moreover have "h ! s \<le> h ! i" using a [OF i(1,2)] i(3) s(2) by simp
    ultimately show ?thesis using n [OF i(2)] n [of p] sl up_s by simp
  qed
  ultimately show ?thesis unfolding down_ok_def by (simp only: length_swap_at) blast
qed

lemma sift_down_heap:
  assumes "down_ok h p"
  shows "is_heap (sift_down h p) \<and> mset (sift_down h p) = mset h"
  using assms
proof (induction h p rule: sift_down.induct)
  case (1 h p)
  show ?case
  proof (cases "smaller_child h p = p")
    case True
    then have "sift_down h p = h" by (simp add: sift_down.simps [of h p] Let_def)
    moreover have "is_heap h"
      using 1(2) smaller_child_none [OF True] unfolding is_heap_def down_ok_def by metis
    ultimately show ?thesis by simp
  next
    case False
    let ?s = "smaller_child h p"
    have e: "sift_down h p = sift_down (swap_at h p ?s) ?s"
      using False by (simp add: sift_down.simps [of h p] Let_def)
    have "p < length h" "?s < length h" using smaller_child_less [OF False] by auto
    then show ?thesis unfolding e using 1 False down_ok_swap [OF 1(2) refl False]
      by (simp add: mset_swap_at)
  qed
qed

lemma heap_root_least:
  assumes "is_heap h" and "i < length h"
  shows "h ! 0 \<le> h ! i"
  using assms(2)
proof (induction i rule: less_induct)
  case (less i)
  show ?case
  proof (cases "i = 0")
    case False
    then have "h ! 0 \<le> h ! up i" "h ! up i \<le> h ! i"
      using less up_less [of i] assms(1) unfolding is_heap_def by auto
    then show ?thesis by simp
  qed simp
qed

lemma heap_pop_correct:
  assumes "is_heap h" and "heap_pop h = Some (x, h')"
  shows "is_heap h' \<and> mset h = add_mset x (mset h') \<and> (\<forall>y \<in># mset h'. x \<le> y)"
proof -
  have ne: "h \<noteq> []" and x: "x = hd h" using assms(2) by (auto simp: heap_pop_def Let_def split: if_splits)
  let ?r = "butlast h"
  have "is_heap h' \<and> mset h = add_mset x (mset h')"
  proof (cases "?r = []")
    case True
    then show ?thesis using assms(2) x ne
      by (cases h) (auto simp: heap_pop_def is_heap_def split: if_splits)
  next
    case False
    let ?g = "?r[0 := last h]"
    have h': "h' = sift_down ?g 0" using assms(2) False by (auto simp: heap_pop_def Let_def split: if_splits)
    have "?g ! up i \<le> ?g ! i" if i: "0 < i" "i < length ?g" "up i \<noteq> 0" for i
    proof -
      have "up i < length ?r" using i up_less' [of i "length ?r"] by simp
      then show ?thesis using i assms(1) by (simp add: nth_butlast is_heap_def)
    qed
    then have "down_ok ?g 0" by (auto simp: down_ok_def)
    then have "is_heap h'" "mset h' = mset ?g" using sift_down_heap h' by auto
    moreover have "mset h = add_mset x (mset ?g)"
    proof -
      obtain ys where r: "?r = x # ys"
        using False x by (cases ?r) (metis append_butlast_last_id hd_append2 list.sel(1) ne, 
          metis append_butlast_last_id hd_append2 list.sel(1) ne)
      have "mset h = mset (?r @ [last h])" using ne by simp
      also have "\<dots> = add_mset x (mset ?g)" unfolding r by simp
      finally show ?thesis .
    qed
    ultimately show ?thesis by simp
  qed
  moreover from this have "x \<le> y" if "y \<in># mset h'" for y
  proof -
    have "y \<in> set h" using that calculation by (metis insertI2 insert_iff set_mset_add_mset_insert set_mset_mset)
    then show ?thesis using heap_root_least [OF assms(1)] x ne by (metis hd_conv_nth in_set_conv_nth)
  qed
  ultimately show ?thesis by blast
qed

interpretation heap: priority_queue "[]" heap_push heap_pop is_heap mset
proof
  show "is_heap []" by (simp add: is_heap_def)
  fix h x h'
  show "is_heap (heap_push x h)" "mset (heap_push x h) = add_mset x (mset h)" if "is_heap h"
    using heap_push_correct [OF that] by auto
  show "heap_pop h = None \<longleftrightarrow> mset h = {#}" by (simp add: heap_pop_def Let_def)
  show "is_heap h' \<and> mset h = add_mset x (mset h') \<and> (\<forall>y \<in># mset h'. x \<le> y)"
    if "is_heap h" "heap_pop h = Some (x, h')"
    using heap_pop_correct [OF that] .
qed simp

end
