(* ===== verification/CommitOrder.thy ===== *)
theory CommitOrder
  imports PQueue
begin

text \<open>
  \<^verbatim>\<open>apps/api/src/git/commit-order.ts\<close>: a stable topological order of one window of
  commits. Kahn's walk is proved over any priority queue; the last section rests on the heap of
  \<open>PQueue\<close>. The walk emits positions of the window; the commits are read at them at the end.
\<close>

section \<open>The window as a graph\<close>

record commit =
  sha :: string
  parents :: "string list"

text \<open>\<open>at.get(s)\<close>: the first position of a sha.\<close>

definition at_sha :: "commit list \<Rightarrow> string \<Rightarrow> nat option" where
  "at_sha cs s = (let i = find_index (\<lambda>c. sha c = s) cs in if i < 0 then None else Some (nat i))"

text \<open>The loop over the parents of the commit at \<open>i\<close>; \<open>seen\<close> holds what \<open>targets\<close> holds.\<close>

fun collect_targets :: "commit list \<Rightarrow> nat \<Rightarrow> string list \<Rightarrow> nat list \<Rightarrow> nat list" where
  "collect_targets cs i [] targets = targets"
| "collect_targets cs i (p # ps) targets =
     collect_targets cs i ps
       (case at_sha cs p of None \<Rightarrow> targets
        | Some index \<Rightarrow> if index = i \<or> index \<in> set targets then targets else targets @ [index])"

definition parentsOf :: "commit list \<Rightarrow> nat list list" where
  "parentsOf cs = map (\<lambda>i. collect_targets cs i (parents (cs ! i)) []) [0..<length cs]"

text \<open>\<open>waiting[index] += 1\<close> for every target of every commit.\<close>

definition count_up :: "nat list \<Rightarrow> int list \<Rightarrow> int list" where
  "count_up targets waiting = fold (\<lambda>t w. w[t := w ! t + 1]) targets waiting"

definition waiting_counts :: "commit list \<Rightarrow> int list" where
  "waiting_counts cs = fold count_up (parentsOf cs) (replicate (length cs) 0)"

section \<open>Kahn's walk\<close>

record 'q walk =
  queue :: 'q
  waiting :: "int list"
  out :: "nat list"

text \<open>The loop over the parents of an emitted commit.\<close>

fun release :: "(nat \<Rightarrow> 'q \<Rightarrow> 'q) \<Rightarrow> nat list \<Rightarrow> 'q \<times> int list \<Rightarrow> 'q \<times> int list" where
  "release push [] (q, w) = (q, w)"
| "release push (p # ps) (q, w) =
     (let left = w ! p - 1 in
      release push ps (if left = 0 then push p q else q, w[p := left]))"

definition emit :: "(nat \<Rightarrow> 'q \<Rightarrow> 'q) \<Rightarrow> nat list list \<Rightarrow> nat \<Rightarrow> 'q \<Rightarrow> 'q walk \<Rightarrow> 'q walk" where
  "emit push ps index q s =
     (let (q', w') = release push (ps ! index) (q, waiting s)
      in s\<lparr>queue := q', waiting := w', out := out s @ [index]\<rparr>)"

text \<open>
  The unbounded loop of the source. Every turn emits a position that was not emitted before, so
  one turn more than there are positions always empties the queue (\<open>kahn_done\<close>).
\<close>

fun kahn :: "(nat \<Rightarrow> 'q \<Rightarrow> 'q) \<Rightarrow> ('q \<Rightarrow> (nat \<times> 'q) option) \<Rightarrow> nat list list \<Rightarrow> nat \<Rightarrow> 'q walk \<Rightarrow> 'q walk" where
  "kahn push pop ps 0 s = s"
| "kahn push pop ps (Suc fuel) s =
     (case pop (queue s) of None \<Rightarrow> s
      | Some (index, q) \<Rightarrow> kahn push pop ps fuel (emit push ps index q s))"

definition ready :: "int list \<Rightarrow> nat list" where
  "ready w = filter (\<lambda>i. w ! i = 0) [0..<length w]"

definition walk_start :: "(nat \<Rightarrow> 'q \<Rightarrow> 'q) \<Rightarrow> 'q \<Rightarrow> commit list \<Rightarrow> 'q walk" where
  "walk_start push q0 cs =
     \<lparr>queue = fold push (ready (waiting_counts cs)) q0, waiting = waiting_counts cs, out = []\<rparr>"

definition topo_positions ::
  "(nat \<Rightarrow> 'q \<Rightarrow> 'q) \<Rightarrow> ('q \<Rightarrow> (nat \<times> 'q) option) \<Rightarrow> 'q \<Rightarrow> commit list \<Rightarrow> nat list" where
  "topo_positions push pop q0 cs =
     (let emitted = out (kahn push pop (parentsOf cs) (Suc (length cs)) (walk_start push q0 cs))
      in emitted @ filter (\<lambda>i. i \<notin> set emitted) [0..<length cs])"

definition stableTopoOrder :: "commit list \<Rightarrow> commit list" where
  "stableTopoOrder cs =
     (if length cs < 2 then cs
      else map (\<lambda>i. cs ! i) (topo_positions heap_push heap_pop [] cs))"

section \<open>Counting children\<close>

text \<open>\<open>edge cs i p\<close>: the commit at \<open>p\<close> is a parent of the one at \<open>i\<close>.\<close>

definition edge :: "commit list \<Rightarrow> nat \<Rightarrow> nat \<Rightarrow> bool" where
  "edge cs i p = (i < length cs \<and> p \<noteq> i \<and> (\<exists>s \<in> set (parents (cs ! i)). at_sha cs s = Some p))"

lemma at_sha_less: "at_sha cs s = Some p \<Longrightarrow> p < length cs \<and> sha (cs ! p) = s"
  using find_index_nonneg [of "\<lambda>c. sha c = s" cs] by (auto simp: at_sha_def Let_def split: if_splits)

lemma edge_less: "edge cs i p \<Longrightarrow> i < length cs \<and> p < length cs"
  by (auto simp: edge_def dest: at_sha_less)

lemma collect_targets_spec:
  assumes "distinct ts"
  shows "distinct (collect_targets cs i ss ts)
    \<and> set (collect_targets cs i ss ts) = set ts \<union> {p. p \<noteq> i \<and> (\<exists>s \<in> set ss. at_sha cs s = Some p)}"
  using assms
proof (induction ss arbitrary: ts)
  case (Cons s ss)
  then show ?case by (auto split: option.splits)
qed simp

lemma length_parentsOf [simp]: "length (parentsOf cs) = length cs"
  by (simp add: parentsOf_def)

lemma parentsOf_spec:
  assumes "i < length cs"
  shows "distinct (parentsOf cs ! i) \<and> set (parentsOf cs ! i) = {p. edge cs i p}"
  using assms collect_targets_spec [of "[]" cs i "parents (cs ! i)"]
  by (simp add: parentsOf_def edge_def)

lemma count_up_spec:
  assumes "distinct ts" and "\<forall>t \<in> set ts. t < length w"
  shows "length (count_up ts w) = length w
    \<and> (\<forall>p < length w. count_up ts w ! p = w ! p + (if p \<in> set ts then 1 else 0))"
  using assms
proof (induction ts arbitrary: w)
  case (Cons t ts)
  then show ?case using Cons.IH [of "w[t := w ! t + 1]"] by (auto simp: count_up_def nth_list_update)
qed (simp add: count_up_def)

definition children :: "commit list \<Rightarrow> nat \<Rightarrow> nat set" where
  "children cs p = {i. edge cs i p}"

lemma finite_children [simp]: "finite (children cs p)"
  by (rule finite_subset [of _ "{..<length cs}"]) (auto simp: children_def dest: edge_less)

lemma waiting_counts_spec:
  "length (waiting_counts cs) = length cs
   \<and> (\<forall>p < length cs. waiting_counts cs ! p = int (card (children cs p)))"
proof -
  let ?w = "\<lambda>n. fold count_up (take n (parentsOf cs)) (replicate (length cs) 0)"
  have "length (?w n) = length cs \<and> (\<forall>p < length cs. ?w n ! p = int (card {i. i < n \<and> edge cs i p}))"
    if "n \<le> length cs" for n
    using that
  proof (induction n)
    case (Suc n)
    then have n: "n < length cs" and IH: "length (?w n) = length cs"
      "\<forall>p < length cs. ?w n ! p = int (card {i. i < n \<and> edge cs i p})" by auto
    have w: "?w (Suc n) = count_up (parentsOf cs ! n) (?w n)"
      using n by (simp add: take_Suc_conv_app_nth)
    have sp: "distinct (parentsOf cs ! n)" "set (parentsOf cs ! n) = {p. edge cs n p}"
      using parentsOf_spec [OF n] by auto
    have card: "card {i. i < Suc n \<and> edge cs i p} = card {i. i < n \<and> edge cs i p} + (if edge cs n p then 1 else 0)" for p
    proof -
      have "{i. i < Suc n \<and> edge cs i p} = {i. i < n \<and> edge cs i p} \<union> (if edge cs n p then {n} else {})"
        by (auto simp: less_Suc_eq)
      then show ?thesis by simp
    qed
    have "\<forall>t \<in> set (parentsOf cs ! n). t < length (?w n)"
      using sp(2) edge_less [of cs n] IH(1) by auto
    from count_up_spec [OF sp(1) this] show ?case
      unfolding w card using IH sp(2) by auto
  qed simp
  from this [of "length cs"] show ?thesis
    unfolding waiting_counts_def children_def
    by (simp add: Collect_conj_eq [symmetric] edge_def conj_commute cong: conj_cong)
qed

section \<open>The walk over any priority queue\<close>

text \<open>
  What holds between two turns: the counts are those of the children still to come, the queue holds
  the commits that are free and not emitted, and no emitted commit precedes a child of its own.
\<close>

definition topo :: "commit list \<Rightarrow> nat list \<Rightarrow> bool" where
  "topo cs xs = (distinct xs \<and> set xs \<subseteq> {..<length cs}
     \<and> (\<forall>k < length xs. children cs (xs ! k) \<subseteq> set (take k xs)))"

lemma topo_snoc:
  "topo cs xs \<Longrightarrow> i < length cs \<Longrightarrow> i \<notin> set xs \<Longrightarrow> children cs i \<subseteq> set xs \<Longrightarrow> topo cs (xs @ [i])"
  by (auto simp: topo_def nth_append less_Suc_eq)

definition free_now :: "commit list \<Rightarrow> nat set \<Rightarrow> nat set" where
  "free_now cs E = {p. p < length cs \<and> p \<notin> E \<and> children cs p \<subseteq> E}"

lemma finite_free_now [simp]: "finite (free_now cs E)"
  by (rule finite_subset [of _ "{..<length cs}"]) (auto simp: free_now_def)

definition counts_ok :: "commit list \<Rightarrow> nat set \<Rightarrow> int list \<Rightarrow> bool" where
  "counts_ok cs E w = (length w = length cs \<and> (\<forall>p < length cs. w ! p = int (card (children cs p - E))))"

lemma counts_zero: "counts_ok cs E w \<Longrightarrow> p < length cs \<Longrightarrow> w ! p = 0 \<longleftrightarrow> children cs p \<subseteq> E"
  by (simp add: counts_ok_def)

context priority_queue
begin

definition walk_ok :: "commit list \<Rightarrow> 'q walk \<Rightarrow> bool" where
  "walk_ok cs s = (topo cs (out s) \<and> counts_ok cs (set (out s)) (waiting s)
     \<and> inv (queue s) \<and> items (queue s) = mset_set (free_now cs (set (out s))))"

text \<open>Releasing distinct parents lowers each of their counts by one and queues those that reach 0.\<close>

lemma release_spec:
  assumes "inv q" and "distinct ps" and "\<forall>p \<in> set ps. p < length w"
  shows "case release push ps (q, w) of (q', w') \<Rightarrow> inv q' \<and> length w' = length w
    \<and> (\<forall>p < length w. w' ! p = w ! p - (if p \<in> set ps then 1 else 0))
    \<and> items q' = items q + mset_set {p \<in> set ps. w ! p = 1}"
  using assms
proof (induction ps arbitrary: q w)
  case (Cons p ps)
  let ?q = "if w ! p - 1 = 0 then push p q else q" and ?w = "w[p := w ! p - 1]"
  have q: "inv ?q" "items ?q = items q + (if w ! p = 1 then {#p#} else {#})"
    using Cons.prems(1) by (auto simp: inv_push items_push)
  have same: "{r \<in> set ps. ?w ! r = 1} = {r \<in> set ps. w ! r = 1}"
  proof -
    have "?w ! r = w ! r" if "r \<in> set ps" for r
      using that Cons.prems(2) by (metis distinct.simps(2) nth_list_update_neq)
    then show ?thesis by auto
  qed
  have split: "{r \<in> set (p # ps). w ! r = 1} = (if w ! p = 1 then {p} else {}) \<union> {r \<in> set ps. w ! r = 1}"
    by auto
  have new: "mset_set {r \<in> set (p # ps). w ! r = 1}
      = (if w ! p = 1 then {#p#} else {#}) + mset_set {r \<in> set ps. w ! r = 1}"
    unfolding split using Cons.prems(2) by (subst mset_set_Union) auto
  have "case release push ps (?q, ?w) of (q', w') \<Rightarrow> inv q' \<and> length w' = length ?w
    \<and> (\<forall>r < length ?w. w' ! r = ?w ! r - (if r \<in> set ps then 1 else 0))
    \<and> items q' = items ?q + mset_set {r \<in> set ps. ?w ! r = 1}"
    by (rule Cons.IH) (use q(1) Cons.prems in auto)
  moreover have "p < length w" using Cons.prems(3) by simp
  ultimately show ?case
    using Cons.prems(2) q(2) same new
    by (auto simp: Let_def nth_list_update split: prod.splits)
qed simp

lemma emit_ok:
  assumes ok: "walk_ok cs s" and pop: "pop (queue s) = Some (i, q)"
  shows "walk_ok cs (emit push (parentsOf cs) i q s)
    \<and> out (emit push (parentsOf cs) i q s) = out s @ [i] \<and> i \<in> free_now cs (set (out s))
    \<and> (\<forall>j \<in> free_now cs (set (out s)). i \<le> j)"
proof -
  let ?E = "set (out s)" and ?ps = "parentsOf cs ! i"
  have inv: "inv (queue s)" and items: "items (queue s) = mset_set (free_now cs ?E)"
    and t: "topo cs (out s)" and c: "counts_ok cs ?E (waiting s)"
    using ok by (simp_all add: walk_ok_def)
  have q: "inv q" "items (queue s) = add_mset i (items q)" using pop_Some [OF inv pop] by auto
  have "i \<in># mset_set (free_now cs ?E)" using q(2) items by simp
  then have i: "i \<in> free_now cs ?E" by simp
  then have il: "i < length cs" "i \<notin> ?E" "children cs i \<subseteq> ?E" by (simp_all add: free_now_def)
  have least: "i \<le> j" if "j \<in> free_now cs ?E" for j
    using pop_least [OF inv pop, of j] that items by simp
  have iq: "items q = mset_set (free_now cs ?E - {i})"
    using q(2) items i by (metis add_mset_remove_trivial finite_free_now mset_set.remove)
  have ps: "distinct ?ps" "set ?ps = {p. edge cs i p}" using parentsOf_spec [OF il(1)] by auto
  have len: "length (waiting s) = length cs" using c by (simp add: counts_ok_def)
  then have "\<forall>p \<in> set ?ps. p < length (waiting s)" using ps(2) edge_less [of cs i] by auto
  note r = release_spec [OF q(1) ps(1) this]
  obtain q' w' where qw: "release push ?ps (q, waiting s) = (q', w')" by fastforce
  have r: "inv q'" "length w' = length cs"
    "\<And>p. p < length cs \<Longrightarrow> w' ! p = waiting s ! p - (if edge cs i p then 1 else 0)"
    "items q' = items q + mset_set {p. edge cs i p \<and> waiting s ! p = 1}"
    using r ps(2) len unfolding qw by auto
  have cd: "card (children cs p - insert i ?E) = card (children cs p - ?E) - (if edge cs i p then 1 else 0)" for p
  proof -
    have "children cs p - insert i ?E = (children cs p - ?E) - {i}" by auto
    then show ?thesis using il(2) by (auto simp: children_def card_Diff_singleton_if)
  qed
  have pos: "0 < card (children cs p - ?E)" if "edge cs i p" for p
  proof -
    have "i \<in> children cs p - ?E" using that il(2) by (simp add: children_def)
    then show ?thesis by (metis card_gt_0_iff empty_iff finite_Diff finite_children)
  qed
  have "int (card (children cs p - insert i ?E)) = w' ! p" if "p < length cs" for p
    using that r(3) [OF that] c pos [of p] by (auto simp: cd counts_ok_def)
  then have c': "counts_ok cs (insert i ?E) w'" using r(2) by (simp add: counts_ok_def)
  have "{p. edge cs i p \<and> waiting s ! p = 1} = free_now cs (insert i ?E) - (free_now cs ?E - {i})"
  proof (intro set_eqI iffI)
    fix p assume p: "p \<in> {p. edge cs i p \<and> waiting s ! p = 1}"
    then have pl: "p < length cs" "edge cs i p" using edge_less by auto
    have "w' ! p = 0" using p r(3) [OF pl(1)] by simp
    then have "children cs p \<subseteq> insert i ?E" using counts_zero [OF c' pl(1)] by simp
    moreover have "p \<noteq> i" "i \<in> children cs p" using pl(2) by (auto simp: edge_def children_def)
    moreover have "p \<notin> ?E"
    proof
      assume "p \<in> ?E"
      then obtain k where "k < length (out s)" "out s ! k = p" by (auto simp: in_set_conv_nth)
      then have "children cs p \<subseteq> ?E" using t by (auto simp: topo_def dest: in_set_takeD)
      then show False using \<open>i \<in> children cs p\<close> il(2) by auto
    qed
    ultimately show "p \<in> free_now cs (insert i ?E) - (free_now cs ?E - {i})"
      using pl il(2) by (auto simp: free_now_def)
  next
    fix p assume p: "p \<in> free_now cs (insert i ?E) - (free_now cs ?E - {i})"
    then have pl: "p < length cs" "p \<notin> ?E" "p \<noteq> i" "children cs p \<subseteq> insert i ?E" "\<not> children cs p \<subseteq> ?E"
      by (auto simp: free_now_def)
    then have "edge cs i p" by (auto simp: children_def)
    moreover have "w' ! p = 0" using counts_zero [OF c' pl(1)] pl(4) by simp
    ultimately show "p \<in> {p. edge cs i p \<and> waiting s ! p = 1}" using r(3) [OF pl(1)] by simp
  qed
  moreover have "free_now cs ?E - {i} \<subseteq> free_now cs (insert i ?E)" by (auto simp: free_now_def)
  ultimately have "items q' = mset_set (free_now cs (insert i ?E))"
    unfolding r(4) iq by (subst mset_set_Union [symmetric]) (auto simp: Un_absorb1)
  then have "walk_ok cs (emit push (parentsOf cs) i q s)"
    using t il c' r(1) by (simp add: walk_ok_def emit_def qw topo_snoc)
  then show ?thesis using i least by (simp add: emit_def qw)
qed

lemma start_ok: "walk_ok cs (walk_start push empty cs)"
proof -
  let ?r = "ready (waiting_counts cs)"
  have w: "length (waiting_counts cs) = length cs" "\<forall>p < length cs. waiting_counts cs ! p = int (card (children cs p))"
    using waiting_counts_spec [of cs] by auto
  then have c: "counts_ok cs {} (waiting_counts cs)" by (simp add: counts_ok_def)
  have "set ?r = free_now cs {}"
    using counts_zero [OF c] w(1) by (auto simp: ready_def free_now_def)
  moreover have "distinct ?r" by (simp add: ready_def)
  ultimately have "mset ?r = mset_set (free_now cs {})" by (metis mset_set_set)
  then show ?thesis
    using push_all [OF inv_empty, of ?r] c by (simp add: walk_ok_def walk_start_def topo_def items_empty)
qed

lemma kahn_ok: "walk_ok cs s \<Longrightarrow> walk_ok cs (kahn push pop (parentsOf cs) fuel s)"
proof (induction fuel arbitrary: s)
  case (Suc fuel)
  show ?case
  proof (cases "pop (queue s)")
    case (Some a)
    then show ?thesis using Suc emit_ok [OF Suc.prems] by (cases a) simp
  qed (use Suc in simp)
qed simp

lemma walk_ok_length: "walk_ok cs s \<Longrightarrow> length (out s) \<le> length cs"
proof -
  assume "walk_ok cs s"
  then have "distinct (out s)" "set (out s) \<subseteq> {..<length cs}" by (simp_all add: walk_ok_def topo_def)
  then show ?thesis using card_mono [of "{..<length cs}" "set (out s)"] by (simp add: distinct_card)
qed

lemma kahn_done:
  "walk_ok cs s \<Longrightarrow> length cs < fuel + length (out s) \<Longrightarrow>
   pop (queue (kahn push pop (parentsOf cs) fuel s)) = None"
proof (induction fuel arbitrary: s)
  case 0
  then show ?case using walk_ok_length [of cs s] by simp
next
  case (Suc fuel)
  show ?case
  proof (cases "pop (queue s)")
    case (Some a)
    then obtain i q where a: "pop (queue s) = Some (i, q)" by (cases a) auto
    note e = emit_ok [OF Suc.prems(1) a]
    have "pop (queue (kahn push pop (parentsOf cs) fuel (emit push (parentsOf cs) i q s))) = None"
      by (rule Suc.IH) (use e Suc.prems(2) in auto)
    then show ?thesis using a by simp
  qed simp
qed

definition final :: "commit list \<Rightarrow> 'q walk" where
  "final cs = kahn push pop (parentsOf cs) (Suc (length cs)) (walk_start push empty cs)"

lemma final_ok: "walk_ok cs (final cs)"
  unfolding final_def by (rule kahn_ok [OF start_ok])

lemma final_done: "free_now cs (set (out (final cs))) = {}"
proof -
  have "pop (queue (final cs)) = None"
    unfolding final_def by (rule kahn_done [OF start_ok]) (simp add: walk_start_def)
  then have "mset_set (free_now cs (set (out (final cs)))) = {#}"
    using final_ok [of cs] pop_None by (auto simp: walk_ok_def)
  then show ?thesis by (simp add: mset_set_empty_iff)
qed

lemma topo_positions_perm: "mset (topo_positions push pop empty cs) = mset [0..<length cs]"
proof -
  have t: "distinct (out (final cs))" "set (out (final cs)) \<subseteq> {..<length cs}"
    using final_ok [of cs] by (simp_all add: walk_ok_def topo_def)
  let ?xs = "topo_positions push pop empty cs"
  have "?xs = out (final cs) @ filter (\<lambda>i. i \<notin> set (out (final cs))) [0..<length cs]"
    by (simp only: topo_positions_def final_def Let_def)
  then have "distinct ?xs" "set ?xs = {..<length cs}" using t by auto
  then show ?thesis by (metis atLeast_upt distinct_upt set_eq_iff_mset_eq_distinct)
qed

text \<open>On an acyclic window the walk reaches every commit.\<close>

lemma acyclic_all:
  assumes "acyclic {(i, p). edge cs i p}"
  shows "set (out (final cs)) = {..<length cs}"
proof (rule ccontr)
  let ?E = "set (out (final cs))" and ?r = "{(i, p). edge cs i p}"
  assume ne: "?E \<noteq> {..<length cs}"
  have "?r \<subseteq> {..<length cs} \<times> {..<length cs}" using edge_less by auto
  then have "wf ?r" using assms finite_acyclic_wf finite_subset by (metis finite_SigmaI finite_lessThan)
  moreover have "?E \<subseteq> {..<length cs}" using final_ok [of cs] by (simp add: walk_ok_def topo_def)
  then obtain p where "p \<in> {..<length cs} - ?E" using ne by auto
  ultimately obtain p where p: "p \<in> {..<length cs} - ?E"
    "\<And>i. (i, p) \<in> ?r \<Longrightarrow> i \<notin> {..<length cs} - ?E" by (rule wfE_min) blast
  then have "children cs p \<subseteq> ?E" using edge_less by (fastforce simp: children_def)
  then have "p \<in> free_now cs ?E" using p(1) by (simp add: free_now_def)
  then show False using final_done [of cs] by simp
qed

lemma topo_positions_topo:
  assumes "acyclic {(i, p). edge cs i p}"
  shows "topo cs (topo_positions push pop empty cs)"
proof -
  have "filter (\<lambda>i. i \<notin> set (out (final cs))) [0..<length cs] = []"
    using acyclic_all [OF assms] by (simp add: filter_empty_conv)
  then have "topo_positions push pop empty cs = out (final cs)"
    by (simp only: topo_positions_def final_def Let_def append_Nil2)
  then show ?thesis using final_ok [of cs] by (simp add: walk_ok_def)
qed

text \<open>Where every commit precedes its parents, the walk emits the positions as they come.\<close>

lemma kahn_in_order:
  assumes "\<And>i p. edge cs i p \<Longrightarrow> i < p"
  shows "walk_ok cs s \<Longrightarrow> out s = [0..<k] \<Longrightarrow> \<exists>k'. out (kahn push pop (parentsOf cs) fuel s) = [0..<k']"
proof (induction fuel arbitrary: s k)
  case (Suc fuel)
  show ?case
  proof (cases "pop (queue s)")
    case (Some a)
    then obtain i q where a: "pop (queue s) = Some (i, q)" by (cases a) auto
    note e = emit_ok [OF Suc.prems(1) a]
    have i: "i \<in> free_now cs {0..<k}" "\<forall>j \<in> free_now cs {0..<k}. i \<le> j"
      using e Suc.prems(2) by auto
    then have "k \<le> i" "i < length cs" by (auto simp: free_now_def)
    then have "k \<in> free_now cs {0..<k}" using assms by (auto simp: free_now_def children_def)
    then have "i = k" using i \<open>k \<le> i\<close> by auto
    then have "out (emit push (parentsOf cs) i q s) = [0..<Suc k]" using e Suc.prems(2) by simp
    then have "\<exists>k'. out (kahn push pop (parentsOf cs) fuel (emit push (parentsOf cs) i q s)) = [0..<k']"
      by (rule Suc.IH [rotated]) (use e in blast)
    then show ?thesis using a by simp
  qed (use Suc.prems in auto)
qed auto

lemma topo_positions_noop:
  assumes "\<And>i p. edge cs i p \<Longrightarrow> i < p"
  shows "topo_positions push pop empty cs = [0..<length cs]"
proof -
  obtain k where k: "out (final cs) = [0..<k]"
    unfolding final_def using kahn_in_order [OF assms start_ok, where k = 0 and fuel = "Suc (length cs)"]
    by (auto simp: walk_start_def)
  have "{(i, p). edge cs i p} \<subseteq> less_than" using assms by auto
  then have "acyclic {(i, p). edge cs i p}" by (meson acyclic_subset wf_acyclic wf_less_than)
  from acyclic_all [OF this] have "{0..<k} = {0..<length cs}" using k by (simp add: atLeast0LessThan)
  then have "k = length cs" by (metis card_atLeastLessThan diff_zero)
  then show ?thesis using k
    by (simp only: topo_positions_def final_def [symmetric] Let_def) (simp add: filter_empty_conv)
qed

end

section \<open>Properties\<close>

lemma mset_stableTopoOrder: "mset (stableTopoOrder cs) = mset cs"
proof (cases "length cs < 2")
  case False
  have "mset (map (\<lambda>i. cs ! i) (topo_positions heap_push heap_pop [] cs)) = mset (map (\<lambda>i. cs ! i) [0..<length cs])"
    using heap.topo_positions_perm [of cs] by (simp only: mset_map)
  with False show ?thesis by (simp add: stableTopoOrder_def map_nth)
qed (simp add: stableTopoOrder_def)

text \<open>
  No commit is lost, repeated or invented, even in a window
  with repeated shas or a cycle.
\<close>

theorem stableTopoOrder_permutes: "mset (stableTopoOrder cs) = mset cs"
  by (rule mset_stableTopoOrder)

text \<open>A window without cycles: no commit is its own ancestor inside it.\<close>

definition acyclic_window :: "commit list \<Rightarrow> bool" where
  "acyclic_window cs = acyclic {(i, p). edge cs i p}"

lemma at_sha_distinct: "distinct (map sha cs) \<Longrightarrow> p < length cs \<Longrightarrow> at_sha cs (sha (cs ! p)) = Some p"
proof -
  assume d: "distinct (map sha cs)" and p: "p < length cs"
  have "\<not> find_index (\<lambda>c. sha c = sha (cs ! p)) cs < 0" using p by (auto simp: find_index_neg_iff)
  then obtain q where q: "at_sha cs (sha (cs ! p)) = Some q" by (simp add: at_sha_def Let_def)
  then have "q < length cs" "sha (cs ! q) = sha (cs ! p)" using at_sha_less by auto
  then have "q = p" using d p by (metis length_map nth_eq_iff_index_eq nth_map)
  then show ?thesis using q by simp
qed

lemma stable_sorted:
  assumes "distinct (map sha cs)" and "acyclic_window cs"
  shows "sorted_wrt (\<lambda>c d. sha c \<notin> set (parents d)) (stableTopoOrder cs)"
proof (cases "length cs < 2")
  case True
  then show ?thesis by (cases cs; cases "tl cs") (auto simp: stableTopoOrder_def)
next
  case False
  let ?xs = "topo_positions heap_push heap_pop [] cs"
  have t: "topo cs ?xs"
    using assms(2) unfolding acyclic_window_def by (rule heap.topo_positions_topo)
  have "sha (cs ! (?xs ! k)) \<notin> set (parents (cs ! (?xs ! l)))" if kl: "k < l" "l < length ?xs" for k l
  proof
    assume m: "sha (cs ! (?xs ! k)) \<in> set (parents (cs ! (?xs ! l)))"
    have len: "?xs ! k < length cs" "?xs ! l < length cs" "?xs ! k \<noteq> ?xs ! l"
      using t kl by (auto simp: topo_def nth_eq_iff_index_eq) (metis lessThan_iff less_trans nth_mem subsetD)+
    then have "edge cs (?xs ! l) (?xs ! k)"
      using m at_sha_distinct [OF assms(1) len(1)] by (auto simp: edge_def)
    then have "?xs ! l \<in> children cs (?xs ! k)" by (simp add: children_def)
    moreover have "children cs (?xs ! k) \<subseteq> set (take k ?xs)" using t kl by (simp add: topo_def)
    ultimately have "?xs ! l \<in> set (take k ?xs)" by blast
    moreover have "?xs ! l \<in> set (drop k ?xs)" using kl by (auto simp: in_set_conv_nth intro!: exI [of _ "l - k"])
    moreover have "distinct (take k ?xs @ drop k ?xs)" using t by (simp add: topo_def)
    ultimately show False unfolding distinct_append by blast
  qed
  then show ?thesis using False by (simp add: stableTopoOrder_def sorted_wrt_iff_nth_less)
qed

text \<open>
  In a window of distinct commits without a cycle no commit
  comes out before one of its own children.
\<close>

theorem stableTopoOrder_topological:
  assumes "distinct (map sha cs)" and "acyclic_window cs"
  shows "sorted_wrt (\<lambda>c d. sha c \<notin> set (parents d)) (stableTopoOrder cs)"
  using assms by (rule stable_sorted)

text \<open>A parent that arrives before both of its children, as two rows of one second may.\<close>

definition sample_window :: "commit list" where
  "sample_window = [\<lparr>sha = ''p'', parents = [''q'']\<rparr>, \<lparr>sha = ''a'', parents = [''p'']\<rparr>,
     \<lparr>sha = ''b'', parents = [''p'', ''z'']\<rparr>]"

lemma acyclic_sample: "acyclic_window sample_window"
proof -
  have "{(i, p). edge sample_window i p} \<subseteq> {(1, 0), (2, 0)}"
    by (auto simp: edge_def at_sha_def sample_window_def Let_def nth_Cons split: nat.splits if_splits)
  moreover have "acyclic {(1 :: nat, 0 :: nat), (2, 0)}"
    by (rule acyclic_subset [of "less_than\<inverse>"]) (auto intro: wf_acyclic simp: acyclic_converse)
  ultimately show ?thesis unfolding acyclic_window_def by (rule acyclic_subset [rotated])
qed

theorem stableTopoOrder_topological_witness:
  "sorted_wrt (\<lambda>c d. sha c \<notin> set (parents d)) (stableTopoOrder sample_window)"
  by (rule stableTopoOrder_topological [OF _ acyclic_sample]) (simp add: sample_window_def)

text \<open>
  A window in which every commit already precedes its parents comes
  out unchanged, so running the pass again changes nothing.
\<close>

theorem stableTopoOrder_noop:
  assumes "sorted_wrt (\<lambda>c d. sha c \<notin> set (parents d)) cs"
  shows "stableTopoOrder cs = cs"
proof -
  have "i < p" if e: "edge cs i p" for i p
  proof (rule ccontr)
    assume "\<not> i < p"
    then have "p < i" "i < length cs" using e by (auto simp: edge_def)
    then have "sha (cs ! p) \<notin> set (parents (cs ! i))" using assms by (simp add: sorted_wrt_iff_nth_less)
    then show False using e at_sha_less by (auto simp: edge_def)
  qed
  then have "topo_positions heap_push heap_pop [] cs = [0..<length cs]"
    by (rule heap.topo_positions_noop)
  then show ?thesis by (simp add: stableTopoOrder_def map_nth)
qed

theorem stableTopoOrder_noop_witness:
  "stableTopoOrder [\<lparr>sha = ''a'', parents = [''p'']\<rparr>, \<lparr>sha = ''b'', parents = [''p'', ''z'']\<rparr>,
     \<lparr>sha = ''p'', parents = [''q'']\<rparr>]
   = [\<lparr>sha = ''a'', parents = [''p'']\<rparr>, \<lparr>sha = ''b'', parents = [''p'', ''z'']\<rparr>,
     \<lparr>sha = ''p'', parents = [''q'']\<rparr>]"
  by (rule stableTopoOrder_noop) simp

end
