(* ===== verification/CommitGraph.thy ===== *)
theory CommitGraph
  imports CommitOrder Ordering
begin

text \<open>
  \<^verbatim>\<open>packages/core/src/commit-graph.ts\<close>: lanes, rows and edges of the commit graph, the chips of
  a commit's refs, and the small summaries beside the graph. Coordinates are exact rationals; the
  commits are those left after the array filter of the source.
\<close>

section \<open>Geometry\<close>

definition LANE_COLORS :: "string list" where
  "LANE_COLORS = [''#2563eb'', ''#16a34a'', ''#ea580c'', ''#9333ea'', ''#0891b2'', ''#ca8a04'', ''#dc2626'']"

definition GEOM_row :: rat where "GEOM_row = 24"
definition GEOM_lane :: rat where "GEOM_lane = 14"
definition GEOM_pad :: rat where "GEOM_pad = 8"

definition rowGeom :: "jsnum option \<Rightarrow> rat \<times> rat" where
  "rowGeom rowHeight =
     (let row = (case rowHeight of Some (Fin q) \<Rightarrow> if q > 0 then q else GEOM_row | _ \<Rightarrow> GEOM_row)
      in (row, row / 2))"

definition UNCOMMITTED :: string where "UNCOMMITTED = ''uncommitted''"

definition laneColor :: "nat \<Rightarrow> string" where
  "laneColor lane = LANE_COLORS ! (((lane mod length LANE_COLORS) + length LANE_COLORS) mod length LANE_COLORS)"

section \<open>Lanes\<close>

datatype row_kind = RCommit | RUncommitted

record graph_row =
  r_sha :: string
  r_kind :: row_kind
  r_lane :: nat
  r_color :: string
  r_row :: nat
  r_x :: rat
  r_y :: rat

record graph_edge =
  e_from :: string
  e_to :: string
  e_fromLane :: nat
  e_toLane :: nat
  e_color :: string
  e_open :: bool
  e_dashed :: bool

record graph_layout =
  g_rows :: "graph_row list"
  g_edges :: "graph_edge list"
  g_lanes :: nat

record graph_opts =
  o_uncommitted :: bool
  o_head :: "string option"
  o_rowHeight :: "jsnum option"

text \<open>The variables of \<open>layoutGraph\<close>; a free lane is \<open>None\<close>.\<close>

record lane_state =
  ls_lanes :: "string option list"
  ls_max :: nat
  ls_rows :: "graph_row list"
  ls_edges :: "graph_edge list"
  ls_row :: nat

definition claim_index :: "string option list \<Rightarrow> string \<Rightarrow> nat" where
  "claim_index ls s =
     (let i = find_index (\<lambda>l. l = Some s) ls; j = find_index (\<lambda>l. l = None) ls in
      if 0 \<le> i then nat i else if 0 \<le> j then nat j else length ls)"

definition claim :: "lane_state \<Rightarrow> string \<Rightarrow> nat \<times> lane_state" where
  "claim st s =
     (let index = claim_index (ls_lanes st) s;
          ls = (if index < length (ls_lanes st) then (ls_lanes st)[index := Some s] else ls_lanes st @ [Some s])
      in (index, st\<lparr>ls_lanes := ls, ls_max := max (ls_max st) (length ls)\<rparr>))"

definition graph_row_at :: "jsnum option \<Rightarrow> string \<Rightarrow> row_kind \<Rightarrow> nat \<Rightarrow> nat \<Rightarrow> graph_row" where
  "graph_row_at rowHeight s kind lane row =
     (case rowGeom rowHeight of (rowH, padY) \<Rightarrow>
       \<lparr>r_sha = s, r_kind = kind, r_lane = lane, r_color = laneColor lane, r_row = row,
        r_x = GEOM_pad + of_nat lane * GEOM_lane, r_y = rowH * of_nat row + padY\<rparr>)"

definition draw_uncommitted :: "graph_opts \<Rightarrow> commit list \<Rightarrow> lane_state \<Rightarrow> lane_state" where
  "draw_uncommitted opts cs st =
     (let head = (if truthy (o_head opts) then o_head opts
             else (case cs of [] \<Rightarrow> None | c # _ \<Rightarrow> Some (sha c)));
          (lane, st) = claim st (case head of Some h \<Rightarrow> h | None \<Rightarrow> UNCOMMITTED);
          st = st\<lparr>ls_rows := ls_rows st @ [graph_row_at (o_rowHeight opts) UNCOMMITTED RUncommitted lane (ls_row st)]\<rparr>;
          st = (if truthy head then st\<lparr>ls_edges := ls_edges st @ [\<lparr>e_from = UNCOMMITTED, e_to = the head,
              e_fromLane = lane, e_toLane = lane, e_color = laneColor lane, e_open = False, e_dashed = True\<rparr>]\<rparr>
            else st)
      in st\<lparr>ls_row := ls_row st + 1\<rparr>)"

text \<open>The loop over the parents of one commit drawn in \<open>lane\<close>.\<close>

fun draw_parents :: "string set \<Rightarrow> string \<Rightarrow> nat \<Rightarrow> nat \<Rightarrow> string list \<Rightarrow> lane_state \<Rightarrow> lane_state" where
  "draw_parents known s lane i [] st = st"
| "draw_parents known s lane i (p # ps) st =
     (let (parentLane, st) = (if i = 0 then (lane, st\<lparr>ls_lanes := (ls_lanes st)[lane := Some p]\<rparr>) else claim st p)
      in draw_parents known s lane (Suc i) ps
        (st\<lparr>ls_edges := ls_edges st @ [\<lparr>e_from = s, e_to = p, e_fromLane = lane, e_toLane = parentLane,
           e_color = laneColor parentLane, e_open = p \<notin> known, e_dashed = False\<rparr>]\<rparr>))"

definition free_lanes :: "string \<Rightarrow> string option list \<Rightarrow> string option list" where
  "free_lanes s ls = map (\<lambda>l. if l = Some s then None else l) ls"

definition trim_lanes :: "string option list \<Rightarrow> string option list" where
  "trim_lanes ls = rev (dropWhile (\<lambda>l. l = None) (rev ls))"

definition draw_commit :: "graph_opts \<Rightarrow> string set \<Rightarrow> lane_state \<Rightarrow> commit \<Rightarrow> lane_state" where
  "draw_commit opts known st c =
     (let (lane, st) = claim st (sha c);
          st = st\<lparr>ls_rows := ls_rows st @ [graph_row_at (o_rowHeight opts) (sha c) RCommit lane (ls_row st)]\<rparr>;
          st = st\<lparr>ls_lanes := free_lanes (sha c) (ls_lanes st)\<rparr>;
          st = draw_parents known (sha c) lane 0 (parents c) st;
          st = st\<lparr>ls_lanes := trim_lanes (ls_lanes st)\<rparr>
      in st\<lparr>ls_row := ls_row st + 1\<rparr>)"

text \<open>\<open>new Map(rows)\<close>: the last row of a sha wins.\<close>

definition lane_of :: "graph_row list \<Rightarrow> string \<Rightarrow> nat option" where
  "lane_of rs s = map_of (rev (map (\<lambda>r. (r_sha r, r_lane r)) rs)) s"

definition settle_edge :: "graph_row list \<Rightarrow> graph_edge \<Rightarrow> graph_edge" where
  "settle_edge rs e =
     (case lane_of rs (e_to e) of None \<Rightarrow> e
      | Some lane \<Rightarrow> e\<lparr>e_toLane := lane, e_color := laneColor lane\<rparr>)"

definition start_lanes :: lane_state where
  "start_lanes = \<lparr>ls_lanes = [], ls_max = 0, ls_rows = [], ls_edges = [], ls_row = 0\<rparr>"

definition layoutGraph :: "commit list \<Rightarrow> graph_opts \<Rightarrow> graph_layout" where
  "layoutGraph cs opts =
     (let st = (if o_uncommitted opts then draw_uncommitted opts cs start_lanes else start_lanes);
          st = foldl (draw_commit opts (set (map sha cs))) st cs
      in \<lparr>g_rows = ls_rows st, g_edges = map (settle_edge (ls_rows st)) (ls_edges st), g_lanes = max 1 (ls_max st)\<rparr>)"

definition graphSize :: "graph_layout \<Rightarrow> jsnum option \<Rightarrow> rat \<times> rat" where
  "graphSize g rowHeight =
     (let (row, _) = rowGeom rowHeight
      in (GEOM_pad * 2 + of_nat (max 1 (g_lanes g)) * GEOM_lane, row * of_nat (length (g_rows g))))"

text \<open>The path of an edge as its segments: nothing, a line, or a curve that ends in a line.\<close>

datatype edge_path = NoPath | Line "rat \<times> rat" "rat \<times> rat"
  | Curve "rat \<times> rat" "rat \<times> rat" "rat \<times> rat" "rat \<times> rat" "rat \<times> rat"

definition edgePath :: "graph_edge \<Rightarrow> graph_row list \<Rightarrow> jsnum option \<Rightarrow> edge_path" where
  "edgePath e rs rowHeight =
     (case List.find (\<lambda>r. r_sha r = e_from e) rs of None \<Rightarrow> NoPath
      | Some from \<Rightarrow>
        let (row, _) = rowGeom rowHeight; x = (\<lambda>lane. GEOM_pad + of_nat lane * GEOM_lane);
            x1 = x (e_fromLane e); y1 = r_y from
        in (case List.find (\<lambda>r. r_sha r = e_to e) rs of
              None \<Rightarrow> Line (x1, y1) (x1, y1 + row * 7 / 10)
            | Some to \<Rightarrow>
              let x2 = x (e_toLane e); y2 = r_y to; mid = y1 + row * 6 / 10 in
              if x1 = x2 then Line (x1, y1) (x2, y2)
              else Curve (x1, y1) (x1, mid) (x2, mid) (x2, min y2 (mid + row * 4 / 10)) (x2, y2)))"

section \<open>Refs\<close>

datatype ref_kind = RLocal | RRemote | RTag
datatype chip_kind = CLocal | CRemote | CTag | CHead

record ref_chip =
  chip_label :: string
  chip_kind :: chip_kind

text \<open>One decoration, already turned into text; \<open>known\<close> are the remote names.\<close>

definition chip_of :: "string set \<Rightarrow> string \<Rightarrow> ref_chip option" where
  "chip_of known raw =
     (let text = js_trim raw in
      if text = [] then None
      else if starts_with text ''HEAD -> '' then Some \<lparr>chip_label = drop 8 text, chip_kind = CHead\<rparr>
      else if text = ''HEAD'' then Some \<lparr>chip_label = ''HEAD'', chip_kind = CHead\<rparr>
      else if starts_with text ''tag: '' then Some \<lparr>chip_label = drop 5 text, chip_kind = CTag\<rparr>
      else if hd (js_split (CHR ''/'') text) \<in> known then Some \<lparr>chip_label = text, chip_kind = CRemote\<rparr>
      else Some \<lparr>chip_label = text, chip_kind = CLocal\<rparr>)"

definition refChips :: "jsval \<Rightarrow> string list option \<Rightarrow> ref_chip list" where
  "refChips refs remotes =
     (let known = (case remotes of Some ns \<Rightarrow> set ns | None \<Rightarrow> {''origin''})
      in List.map_filter (\<lambda>raw. chip_of known (js_String raw))
        (case as_array refs of Some vs \<Rightarrow> vs | None \<Rightarrow> []))"

record ref_input =
  ref_name :: string
  ref_kind :: ref_kind
  ref_sha :: "string option"
  ref_ahead :: "int option"
  ref_behind :: "int option"
  ref_gone :: bool

definition remoteNames :: "ref_input list \<Rightarrow> string list" where
  "remoteNames refs = remdups (map (\<lambda>r. hd (js_split (CHR ''/'') (ref_name r)))
     (filter (\<lambda>r. ref_kind r = RRemote \<and> CHR ''/'' \<in> set (ref_name r)) refs))"

definition or_zero :: "int option \<Rightarrow> int" where
  "or_zero v = (case v of Some n \<Rightarrow> n | None \<Rightarrow> 0)"

text \<open>\<open>lc\<close> is \<open>localeCompare\<close>.\<close>

definition diverged_first :: "string cmp \<Rightarrow> ref_input cmp" where
  "diverged_first lc = then_by
     (\<lambda>a b. or_zero (ref_ahead b) + or_zero (ref_behind b) - (or_zero (ref_ahead a) + or_zero (ref_behind a)))
     (\<lambda>a b. lc (ref_name a) (ref_name b))"

record ref_groups =
  grp_local :: "ref_input list"
  grp_remote :: "ref_input list"
  grp_tag :: "ref_input list"

definition groupRefs :: "string cmp \<Rightarrow> ref_input list \<Rightarrow> ref_groups" where
  "groupRefs lc refs =
     \<lparr>grp_local = js_sort (diverged_first lc) (filter (\<lambda>r. ref_kind r = RLocal) refs),
      grp_remote = js_sort (\<lambda>a b. lc (ref_name a) (ref_name b)) (filter (\<lambda>r. ref_kind r = RRemote) refs),
      grp_tag = js_sort (\<lambda>a b. lc (ref_name b) (ref_name a)) (filter (\<lambda>r. ref_kind r = RTag) refs)\<rparr>"

section \<open>Working tree, diff lines and notes\<close>

datatype uncommitted_kind = Staged | Unstaged | Untracked | Conflicts

fun kind_key :: "uncommitted_kind \<Rightarrow> string" where
  "kind_key Staged = ''staged''"
| "kind_key Unstaged = ''unstaged''"
| "kind_key Untracked = ''untracked''"
| "kind_key Conflicts = ''conflicts''"

text \<open>The counts are integers, as the agent sends them.\<close>

definition uncommittedSummary :: "jsval \<Rightarrow> ((uncommitted_kind \<times> int) list \<times> int) option" where
  "uncommittedSummary v =
     (if \<not> is_object v then None
      else let parts = List.map_filter (\<lambda>k. case integer_val (js_get v (kind_key k)) of
               Some n \<Rightarrow> if n > 0 then Some (k, n) else None | None \<Rightarrow> None)
             [Staged, Unstaged, Untracked, Conflicts]
        in if parts = [] then None else Some (parts, sum_list (map snd parts)))"

datatype diff_line_kind = LHunk | LAdd | LDel | LMeta | LCtx

definition diffLineKind :: "jsval \<Rightarrow> diff_line_kind" where
  "diffLineKind line =
     (let text = js_String (nullish_or line (JStr [])) in
      if starts_with text ''@@'' then LHunk
      else if starts_with text ''+'' then LAdd
      else if starts_with text ''-'' then LDel
      else if starts_with text [char_of (92 :: nat)] then LMeta
      else LCtx)"

datatype file_status = StA | StM | StD | StR | StUnknown

record diff_file_title =
  df_status :: file_status
  df_path :: string
  df_oldPath :: "string option"
  df_binary :: bool
  df_add :: jsnum
  df_del :: jsnum
  df_truncated :: bool

definition diffFileTitle :: "jsval \<Rightarrow> diff_file_title" where
  "diffFileTitle file =
     (let status = as_string (js_get file ''status'') in
      \<lparr>df_status = (if status = Some ''A'' then StA else if status = Some ''M'' then StM
         else if status = Some ''D'' then StD else if status = Some ''R'' then StR else StUnknown),
       df_path = (case as_string (js_get file ''path'') of Some p \<Rightarrow> p | None \<Rightarrow> []),
       df_oldPath = (let old = as_string (js_get file ''oldPath'') in if truthy old then old else None),
       df_binary = (as_bool (js_get file ''binary'') = Some True),
       df_add = (case as_number (js_get file ''add'') of Some n \<Rightarrow> n | None \<Rightarrow> Fin 0),
       df_del = (case as_number (js_get file ''del'') of Some n \<Rightarrow> n | None \<Rightarrow> Fin 0),
       df_truncated = (as_bool (js_get file ''truncated'') = Some True)\<rparr>)"

datatype note_kind = Collecting | Missing | Timeout

record pending_note =
  pn_kind :: note_kind
  pn_pending :: rat
  pn_shortSha :: string

definition pendingNote :: "jsval \<Rightarrow> jsval \<Rightarrow> pending_note" where
  "pendingNote snapshot s =
     (let pending = (case finite_val (js_get snapshot ''pending'') of Some q \<Rightarrow> max 0 q | None \<Rightarrow> 0) in
      \<lparr>pn_kind = (if pending > 0 then Collecting else Missing), pn_pending = pending,
       pn_shortSha = take 12 (js_String (nullish_or s (JStr [])))\<rparr>)"

section \<open>What one commit adds\<close>

lemma graph_row_at_fields [simp]:
  "r_sha (graph_row_at h s k lane n) = s" "r_kind (graph_row_at h s k lane n) = k"
  "r_lane (graph_row_at h s k lane n) = lane" "r_row (graph_row_at h s k lane n) = n"
  by (simp_all add: graph_row_at_def split: prod.split)

lemma claim_index_le: "claim_index ls s \<le> length ls"
  using find_index_nonneg [of "\<lambda>l. l = Some s" ls] find_index_nonneg [of "\<lambda>l. l = None" ls]
  by (auto simp: claim_index_def Let_def less_imp_le)

text \<open>The lane list never outgrows the widest point recorded so far.\<close>

definition lanes_ok :: "lane_state \<Rightarrow> bool" where
  "lanes_ok st = (length (ls_lanes st) \<le> ls_max st)"

lemma claim_spec:
  assumes "lanes_ok st" and "claim st s = (lane, st')"
  shows "lanes_ok st' \<and> ls_max st \<le> ls_max st' \<and> lane < length (ls_lanes st') \<and> lane < ls_max st'
    \<and> ls_rows st' = ls_rows st \<and> ls_edges st' = ls_edges st \<and> ls_row st' = ls_row st"
  using assms claim_index_le [of "ls_lanes st" s]
  by (auto simp: claim_def Let_def lanes_ok_def split: if_splits)

definition parent_edge :: "string set \<Rightarrow> string \<Rightarrow> nat \<Rightarrow> nat \<Rightarrow> graph_edge \<Rightarrow> bool" where
  "parent_edge known s lane width e = (e_from e = s \<and> e_fromLane e = lane \<and> e_toLane e < width
     \<and> e_color e = laneColor (e_toLane e) \<and> e_open e = (e_to e \<notin> known) \<and> \<not> e_dashed e)"

lemma parent_edge_mono: "parent_edge known s lane w e \<Longrightarrow> w \<le> w' \<Longrightarrow> parent_edge known s lane w' e"
  by (auto simp: parent_edge_def)

lemma draw_parents_spec:
  assumes "lanes_ok st" and "lane < ls_max st"
  shows "lanes_ok (draw_parents known s lane i ps st) \<and> ls_max st \<le> ls_max (draw_parents known s lane i ps st)
    \<and> ls_rows (draw_parents known s lane i ps st) = ls_rows st
    \<and> ls_row (draw_parents known s lane i ps st) = ls_row st
    \<and> (\<exists>es. ls_edges (draw_parents known s lane i ps st) = ls_edges st @ es \<and> map e_to es = ps
        \<and> list_all (parent_edge known s lane (ls_max (draw_parents known s lane i ps st))) es)"
  using assms
proof (induction ps arbitrary: i st)
  case (Cons p ps)
  obtain pl st1 where c: "(if i = 0 then (lane, st\<lparr>ls_lanes := (ls_lanes st)[lane := Some p]\<rparr>) else claim st p) = (pl, st1)"
    by fastforce
  have s1: "lanes_ok st1" "ls_max st \<le> ls_max st1" "pl < ls_max st1" "ls_rows st1 = ls_rows st"
    "ls_edges st1 = ls_edges st" "ls_row st1 = ls_row st"
    using c Cons.prems claim_spec [of st p pl st1] by (auto simp: lanes_ok_def split: if_splits)
  define e where "e = \<lparr>e_from = s, e_to = p, e_fromLane = lane, e_toLane = pl,
           e_color = laneColor pl, e_open = p \<notin> known, e_dashed = False\<rparr>"
  define st2 where "st2 = st1\<lparr>ls_edges := ls_edges st1 @ [e]\<rparr>"
  have d: "draw_parents known s lane i (p # ps) st = draw_parents known s lane (Suc i) ps st2"
    by (simp only: draw_parents.simps c Let_def prod.case st2_def e_def)
  have "lanes_ok st2" "lane < ls_max st2" using s1 Cons.prems by (simp_all add: st2_def lanes_ok_def)
  note IH = Cons.IH [OF this, of "Suc i"]
  then obtain es where es: "ls_edges (draw_parents known s lane (Suc i) ps st2) = ls_edges st2 @ es"
    "map e_to es = ps" "list_all (parent_edge known s lane (ls_max (draw_parents known s lane (Suc i) ps st2))) es"
    by blast
  have w: "ls_max st1 \<le> ls_max (draw_parents known s lane (Suc i) ps st2)" using IH by (simp add: st2_def)
  then have "pl < ls_max (draw_parents known s lane (Suc i) ps st2)" using s1(3) by simp
  then have "parent_edge known s lane (ls_max (draw_parents known s lane (Suc i) ps st2)) e"
    by (simp add: e_def parent_edge_def)
  moreover have "e_to e = p" by (simp add: e_def)
  ultimately have "ls_edges (draw_parents known s lane (Suc i) ps st2) = ls_edges st @ (e # es)
      \<and> map e_to (e # es) = p # ps
      \<and> list_all (parent_edge known s lane (ls_max (draw_parents known s lane (Suc i) ps st2))) (e # es)"
    using es s1 by (simp add: st2_def)
  then show ?case using IH s1 w unfolding d by (auto simp: st2_def intro!: exI [of _ "e # es"])
qed (auto intro!: exI [of _ "[]"])

lemma length_free_lanes [simp]: "length (free_lanes s ls) = length ls"
  by (simp add: free_lanes_def)

lemma length_trim_lanes: "length (trim_lanes ls) \<le> length ls"
  by (metis length_rev length_dropWhile_le trim_lanes_def)

lemma draw_commit_spec:
  assumes "lanes_ok st"
  shows "\<exists>lane es. lanes_ok (draw_commit opts known st c) \<and> ls_max st \<le> ls_max (draw_commit opts known st c)
    \<and> lane < ls_max (draw_commit opts known st c)
    \<and> ls_rows (draw_commit opts known st c)
        = ls_rows st @ [graph_row_at (o_rowHeight opts) (sha c) RCommit lane (ls_row st)]
    \<and> ls_edges (draw_commit opts known st c) = ls_edges st @ es \<and> map e_to es = parents c
    \<and> list_all (parent_edge known (sha c) lane (ls_max (draw_commit opts known st c))) es
    \<and> ls_row (draw_commit opts known st c) = Suc (ls_row st)"
proof -
  obtain lane st1 where c: "claim st (sha c) = (lane, st1)" by fastforce
  note s1 = claim_spec [OF assms c]
  define st2 where "st2 = st1\<lparr>ls_rows := ls_rows st1 @
      [graph_row_at (o_rowHeight opts) (sha c) RCommit lane (ls_row st1)], ls_lanes := free_lanes (sha c) (ls_lanes st1)\<rparr>"
  define st3 where "st3 = draw_parents known (sha c) lane 0 (parents c) st2"
  have d: "draw_commit opts known st c = st3\<lparr>ls_lanes := trim_lanes (ls_lanes st3), ls_row := ls_row st3 + 1\<rparr>"
    by (simp add: draw_commit_def c Let_def st2_def st3_def)
  have "lanes_ok st2" "lane < ls_max st2" using s1 by (simp_all add: st2_def lanes_ok_def)
  note s3 = draw_parents_spec [OF this, of known "sha c" 0 "parents c", folded st3_def]
  then obtain es where "ls_edges st3 = ls_edges st2 @ es" "map e_to es = parents c"
    "list_all (parent_edge known (sha c) lane (ls_max st3)) es" by blast
  moreover have "length (trim_lanes (ls_lanes st3)) \<le> ls_max st3"
    using s3 length_trim_lanes [of "ls_lanes st3"] by (simp add: lanes_ok_def)
  ultimately show ?thesis
    using s1 s3 unfolding d by (intro exI [of _ lane] exI [of _ es]) (simp add: st2_def lanes_ok_def)
qed

section \<open>The whole window\<close>

definition drawn :: "graph_opts \<Rightarrow> string set \<Rightarrow> lane_state \<Rightarrow> commit list \<Rightarrow> lane_state" where
  "drawn opts known st cs = foldl (draw_commit opts known) st cs"

definition commit_rows :: "graph_opts \<Rightarrow> nat \<Rightarrow> commit list \<Rightarrow> nat list \<Rightarrow> graph_row list" where
  "commit_rows opts base cs lns =
     map (\<lambda>k. graph_row_at (o_rowHeight opts) (sha (cs ! k)) RCommit (lns ! k) (base + k)) [0..<length cs]"

lemma drawn_spec:
  assumes "lanes_ok st"
  shows "\<exists>lns ess. lanes_ok (drawn opts known st cs) \<and> ls_max st \<le> ls_max (drawn opts known st cs)
    \<and> length lns = length cs \<and> (\<forall>n \<in> set lns. n < ls_max (drawn opts known st cs))
    \<and> ls_row (drawn opts known st cs) = ls_row st + length cs
    \<and> ls_rows (drawn opts known st cs) = ls_rows st @ commit_rows opts (ls_row st) cs lns
    \<and> length ess = length cs \<and> ls_edges (drawn opts known st cs) = ls_edges st @ concat ess
    \<and> (\<forall>k < length cs. map e_to (ess ! k) = parents (cs ! k)
        \<and> list_all (parent_edge known (sha (cs ! k)) (lns ! k) (ls_max (drawn opts known st cs))) (ess ! k))"
proof (induction cs rule: rev_induct)
  case Nil
  show ?case using assms by (intro exI [of _ "[]"]) (simp add: drawn_def commit_rows_def)
next
  case (snoc c cs)
  let ?st = "drawn opts known st cs"
  obtain lns ess where I: "lanes_ok ?st" "ls_max st \<le> ls_max ?st" "length lns = length cs"
    "\<forall>n \<in> set lns. n < ls_max ?st" "ls_row ?st = ls_row st + length cs"
    "ls_rows ?st = ls_rows st @ commit_rows opts (ls_row st) cs lns"
    "length ess = length cs" "ls_edges ?st = ls_edges st @ concat ess"
    "\<forall>k < length cs. map e_to (ess ! k) = parents (cs ! k)
      \<and> list_all (parent_edge known (sha (cs ! k)) (lns ! k) (ls_max ?st)) (ess ! k)"
    using snoc by blast
  have d: "drawn opts known st (cs @ [c]) = draw_commit opts known ?st c" by (simp add: drawn_def)
  obtain lane es where C: "lanes_ok (draw_commit opts known ?st c)"
    "ls_max ?st \<le> ls_max (draw_commit opts known ?st c)" "lane < ls_max (draw_commit opts known ?st c)"
    "ls_rows (draw_commit opts known ?st c)
        = ls_rows ?st @ [graph_row_at (o_rowHeight opts) (sha c) RCommit lane (ls_row ?st)]"
    "ls_edges (draw_commit opts known ?st c) = ls_edges ?st @ es" "map e_to es = parents c"
    "list_all (parent_edge known (sha c) lane (ls_max (draw_commit opts known ?st c))) es"
    "ls_row (draw_commit opts known ?st c) = Suc (ls_row ?st)"
    using draw_commit_spec [OF I(1), of opts known c] by blast
  have rows: "commit_rows opts (ls_row st) (cs @ [c]) (lns @ [lane])
      = commit_rows opts (ls_row st) cs lns @ [graph_row_at (o_rowHeight opts) (sha c) RCommit lane (ls_row ?st)]"
    using I(3,5) by (simp add: commit_rows_def nth_append)
  have wide: "list_all (parent_edge known s l (ls_max ?st)) xs
      \<Longrightarrow> list_all (parent_edge known s l (ls_max (draw_commit opts known ?st c))) xs" for s l xs
    using C(2) by (auto simp: list_all_iff intro: parent_edge_mono)
  have "\<forall>k < length (cs @ [c]). map e_to ((ess @ [es]) ! k) = parents ((cs @ [c]) ! k)
      \<and> list_all (parent_edge known (sha ((cs @ [c]) ! k)) ((lns @ [lane]) ! k)
          (ls_max (draw_commit opts known ?st c))) ((ess @ [es]) ! k)"
    using I(3,7,9) C(6,7) wide by (auto simp: nth_append less_Suc_eq)
  moreover have "\<forall>n \<in> set (lns @ [lane]). n < ls_max (draw_commit opts known ?st c)"
    using I(4) C(2,3) by auto
  ultimately show ?case
    unfolding d using I C rows by (intro exI [of _ "lns @ [lane]"] exI [of _ "ess @ [es]"]) simp
qed

definition first_state :: "commit list \<Rightarrow> graph_opts \<Rightarrow> lane_state" where
  "first_state cs opts = (if o_uncommitted opts then draw_uncommitted opts cs start_lanes else start_lanes)"

definition first_rows :: "graph_opts \<Rightarrow> graph_row list" where
  "first_rows opts = (if o_uncommitted opts
     then [graph_row_at (o_rowHeight opts) UNCOMMITTED RUncommitted 0 0] else [])"

lemma first_state_spec:
  "lanes_ok (first_state cs opts) \<and> ls_rows (first_state cs opts) = first_rows opts
    \<and> ls_row (first_state cs opts) = length (first_rows opts)
    \<and> ls_max (first_state cs opts) = length (first_rows opts)
    \<and> (\<forall>e \<in> set (ls_edges (first_state cs opts)). o_uncommitted opts \<and> e_from e = UNCOMMITTED
        \<and> e_fromLane e = 0 \<and> e_toLane e = 0 \<and> e_color e = laneColor 0 \<and> e_dashed e \<and> \<not> e_open e)"
  by (auto simp: first_state_def draw_uncommitted_def start_lanes_def first_rows_def claim_def
      claim_index_def lanes_ok_def Let_def split: option.splits)

lemma layoutGraph_drawn:
  "layoutGraph cs opts =
     \<lparr>g_rows = ls_rows (drawn opts (set (map sha cs)) (first_state cs opts) cs),
      g_edges = map (settle_edge (ls_rows (drawn opts (set (map sha cs)) (first_state cs opts) cs)))
        (ls_edges (drawn opts (set (map sha cs)) (first_state cs opts) cs)),
      g_lanes = max 1 (ls_max (drawn opts (set (map sha cs)) (first_state cs opts) cs))\<rparr>"
  by (simp add: layoutGraph_def first_state_def drawn_def Let_def)

text \<open>The rows and edges of a layout, once for the properties that follow.\<close>

lemma layoutGraph_shape:
  "\<exists>lns ess. length lns = length cs \<and> length ess = length cs
    \<and> (\<forall>n \<in> set lns. n < g_lanes (layoutGraph cs opts))
    \<and> g_rows (layoutGraph cs opts) = first_rows opts @ commit_rows opts (length (first_rows opts)) cs lns
    \<and> g_edges (layoutGraph cs opts)
        = map (settle_edge (g_rows (layoutGraph cs opts))) (ls_edges (first_state cs opts) @ concat ess)
    \<and> (\<forall>k < length cs. map e_to (ess ! k) = parents (cs ! k)
        \<and> list_all (parent_edge (set (map sha cs)) (sha (cs ! k)) (lns ! k) (g_lanes (layoutGraph cs opts))) (ess ! k))"
proof -
  let ?known = "set (map sha cs)"
  let ?d = "drawn opts ?known (first_state cs opts) cs"
  note f = first_state_spec [of cs opts]
  obtain lns ess where D: "length lns = length cs" "\<forall>n \<in> set lns. n < ls_max ?d"
    "ls_rows ?d = ls_rows (first_state cs opts) @ commit_rows opts (ls_row (first_state cs opts)) cs lns"
    "length ess = length cs" "ls_edges ?d = ls_edges (first_state cs opts) @ concat ess"
    "\<forall>k < length cs. map e_to (ess ! k) = parents (cs ! k)
        \<and> list_all (parent_edge ?known (sha (cs ! k)) (lns ! k) (ls_max ?d)) (ess ! k)"
    using drawn_spec [of "first_state cs opts" opts ?known cs] f by blast
  have "list_all (parent_edge ?known s l (ls_max ?d)) xs \<Longrightarrow> list_all (parent_edge ?known s l (max 1 (ls_max ?d))) xs" for s l xs
    by (auto simp: list_all_iff intro: parent_edge_mono)
  then show ?thesis
    using D f unfolding layoutGraph_drawn
    by (intro exI [of _ lns] exI [of _ ess]) (auto simp: less_max_iff_disj)
qed

section \<open>Properties\<close>

lemma rows_shas:
  "map r_sha (g_rows (layoutGraph cs opts)) = (if o_uncommitted opts then [UNCOMMITTED] else []) @ map sha cs"
proof -
  obtain lns where "length lns = length cs"
    and rows: "g_rows (layoutGraph cs opts) = first_rows opts @ commit_rows opts (length (first_rows opts)) cs lns"
    using layoutGraph_shape [of cs opts] by blast
  have "map r_sha (commit_rows opts b cs lns) = map sha cs" for b
    by (rule nth_equalityI) (simp_all add: commit_rows_def)
  then show ?thesis unfolding rows by (simp add: first_rows_def)
qed

text \<open>
  The graph has one row per commit, in the order of the feed, after the
  row of the working tree when one is asked for; the row with number \<open>k\<close> is drawn on the centre
  line of the \<open>k\<close>-th row of the list beside it, in a lane inside the graph.
\<close>

theorem layoutGraph_rows:
  "map r_sha (g_rows (layoutGraph cs opts)) = (if o_uncommitted opts then [UNCOMMITTED] else []) @ map sha cs
   \<and> list_all (\<lambda>(k, r). r = graph_row_at (o_rowHeight opts) (r_sha r) (r_kind r) (r_lane r) k
        \<and> r_lane r < g_lanes (layoutGraph cs opts)) (enumerate 0 (g_rows (layoutGraph cs opts)))"
proof -
  obtain lns where l: "length lns = length cs" "\<forall>n \<in> set lns. n < g_lanes (layoutGraph cs opts)"
    and rows: "g_rows (layoutGraph cs opts) = first_rows opts @ commit_rows opts (length (first_rows opts)) cs lns"
    using layoutGraph_shape [of cs opts] by blast
  have "0 < g_lanes (layoutGraph cs opts)" by (simp add: layoutGraph_drawn)
  then have "let r = g_rows (layoutGraph cs opts) ! k in
      r = graph_row_at (o_rowHeight opts) (r_sha r) (r_kind r) (r_lane r) k \<and> r_lane r < g_lanes (layoutGraph cs opts)"
    if "k < length (g_rows (layoutGraph cs opts))" for k
    using that l unfolding rows
    by (cases "o_uncommitted opts"; cases k)
      (auto simp: first_rows_def commit_rows_def Let_def nth_Cons split: nat.splits)
  then show ?thesis
    using rows_shas [of cs opts] unfolding rows by (auto simp: list_all_length nth_enumerate_eq Let_def)
qed

lemma settle_edge_fields [simp]:
  "e_from (settle_edge rs e) = e_from e" "e_to (settle_edge rs e) = e_to e"
  "e_fromLane (settle_edge rs e) = e_fromLane e" "e_open (settle_edge rs e) = e_open e"
  "e_dashed (settle_edge rs e) = e_dashed e"
  by (simp_all add: settle_edge_def split: option.split)

lemma lane_of_find:
  assumes "distinct (map r_sha rs)"
  shows "lane_of rs s = map_option r_lane (List.find (\<lambda>r. r_sha r = s) rs)"
proof -
  have "distinct (map fst (map (\<lambda>r. (r_sha r, r_lane r)) rs))" using assms by (simp add: comp_def)
  then show ?thesis unfolding lane_of_def by (simp add: map_of_rev_distinct find_map_of)
qed

text \<open>Every edge is the dashed one of the working tree, or goes from a commit to one of its parents.\<close>

lemma edge_cases:
  assumes "e \<in> set (g_edges (layoutGraph cs opts))"
  obtains (working) "o_uncommitted opts" "e_from e = UNCOMMITTED" "e_fromLane e = 0" "e_dashed e" "\<not> e_open e"
  | (parent) k r where "k < length cs" "e_from e = sha (cs ! k)" "e_to e \<in> set (parents (cs ! k))"
      "e_open e = (e_to e \<notin> set (map sha cs))" "\<not> e_dashed e"
      "r \<in> set (g_rows (layoutGraph cs opts))" "r_sha r = e_from e" "r_lane r = e_fromLane e"
proof -
  let ?g = "layoutGraph cs opts"
  obtain lns ess where S: "length lns = length cs" "length ess = length cs"
    "g_rows ?g = first_rows opts @ commit_rows opts (length (first_rows opts)) cs lns"
    "g_edges ?g = map (settle_edge (g_rows ?g)) (ls_edges (first_state cs opts) @ concat ess)"
    "\<forall>k < length cs. map e_to (ess ! k) = parents (cs ! k)
      \<and> list_all (parent_edge (set (map sha cs)) (sha (cs ! k)) (lns ! k) (g_lanes ?g)) (ess ! k)"
    using layoutGraph_shape [of cs opts] by blast
  from assms obtain e0 where e0: "e = settle_edge (g_rows ?g) e0"
    "e0 \<in> set (ls_edges (first_state cs opts)) \<or> e0 \<in> set (concat ess)"
    unfolding S(4) by auto
  from e0(2) show thesis
  proof
    assume "e0 \<in> set (ls_edges (first_state cs opts))"
    then show thesis using working first_state_spec [of cs opts] e0(1) by simp
  next
    assume "e0 \<in> set (concat ess)"
    then obtain es where "es \<in> set ess" "e0 \<in> set es" by auto
    then obtain k where k: "k < length cs" "e0 \<in> set (ess ! k)" using S(2) by (metis in_set_conv_nth)
    then have pe: "parent_edge (set (map sha cs)) (sha (cs ! k)) (lns ! k) (g_lanes ?g) e0"
      and to: "e_to e0 \<in> set (parents (cs ! k))"
      using S(5) by (auto simp: list_all_iff) (metis image_eqI list.set_map)
    let ?r = "graph_row_at (o_rowHeight opts) (sha (cs ! k)) RCommit (lns ! k) (length (first_rows opts) + k)"
    have "?r \<in> set (g_rows ?g)" using k(1) unfolding S(3) by (simp add: commit_rows_def)
    then show thesis using parent [OF k(1), of ?r] pe to e0(1) by (simp add: parent_edge_def)
  qed
qed

text \<open>
  Over commits with distinct shas every edge starts on the dot of its
  commit and ends on the dot of its parent, in that parent's colour; an edge whose parent has no row
  is marked open (a faded stub), except the dashed one of a working tree whose head is not in the
  window.
\<close>

theorem edges_end_on_dots:
  assumes "distinct (UNCOMMITTED # map sha cs)"
  shows "\<forall>e \<in> set (g_edges (layoutGraph cs opts)).
    (case List.find (\<lambda>r. r_sha r = e_from e) (g_rows (layoutGraph cs opts)) of
       None \<Rightarrow> False | Some r \<Rightarrow> r_lane r = e_fromLane e)
    \<and> (case List.find (\<lambda>r. r_sha r = e_to e) (g_rows (layoutGraph cs opts)) of
       None \<Rightarrow> e_open e \<noteq> e_dashed e
     | Some r \<Rightarrow> r_lane r = e_toLane e \<and> e_color e = laneColor (r_lane r))"
proof
  let ?g = "layoutGraph cs opts"
  fix e assume e: "e \<in> set (g_edges ?g)"
  have shas: "map r_sha (g_rows ?g) = (if o_uncommitted opts then [UNCOMMITTED] else []) @ map sha cs"
    by (rule rows_shas)
  then have d: "distinct (map r_sha (g_rows ?g))" using assms by simp
  note row_of = find_unique [OF d]
  have ends: "case List.find (\<lambda>r. r_sha r = e_to e) (g_rows ?g) of None \<Rightarrow> True
      | Some r \<Rightarrow> r_lane r = e_toLane e \<and> e_color e = laneColor (r_lane r)"
  proof -
    obtain es where "g_edges ?g = map (settle_edge (g_rows ?g)) es"
      using layoutGraph_shape [of cs opts] by blast
    then obtain e0 where e0: "e = settle_edge (g_rows ?g) e0" using e by auto
    show ?thesis unfolding e0
      by (cases "List.find (\<lambda>r. r_sha r = e_to e0) (g_rows ?g)")
        (simp_all add: settle_edge_def lane_of_find [OF d])
  qed
  have present: "List.find (\<lambda>r. r_sha r = s) (g_rows ?g) \<noteq> None" if "s \<in> set (map sha cs)" for s
  proof -
    have "s \<in> r_sha ` set (g_rows ?g)" using that arg_cong [OF shas, of set] by auto
    then show ?thesis by (auto simp: find_None_iff)
  qed
  from e show "(case List.find (\<lambda>r. r_sha r = e_from e) (g_rows ?g) of
       None \<Rightarrow> False | Some r \<Rightarrow> r_lane r = e_fromLane e)
    \<and> (case List.find (\<lambda>r. r_sha r = e_to e) (g_rows ?g) of
       None \<Rightarrow> e_open e \<noteq> e_dashed e
     | Some r \<Rightarrow> r_lane r = e_toLane e \<and> e_color e = laneColor (r_lane r))"
  proof (cases rule: edge_cases)
    case working
    let ?w = "graph_row_at (o_rowHeight opts) UNCOMMITTED RUncommitted 0 0"
    have "?w \<in> set (g_rows ?g)"
      using working(1) layoutGraph_shape [of cs opts] by (auto simp: first_rows_def)
    from row_of [OF this] show ?thesis using working ends by (auto split: option.splits)
  next
    case (parent k r)
    then show ?thesis using row_of [OF parent(6)] ends present [of "e_to e"]
      by (auto split: option.splits)
  qed
qed

definition plain_opts :: graph_opts where
  "plain_opts = \<lparr>o_uncommitted = True, o_head = None, o_rowHeight = None\<rparr>"

definition merge_window :: "commit list" where
  "merge_window = [\<lparr>sha = ''m'', parents = [''a'', ''b'']\<rparr>, \<lparr>sha = ''b'', parents = [''r'']\<rparr>,
     \<lparr>sha = ''a'', parents = [''r'']\<rparr>]"

theorem edges_end_on_dots_witness:
  "list_all (\<lambda>e. List.find (\<lambda>r. r_sha r = e_from e) (g_rows (layoutGraph merge_window plain_opts)) \<noteq> None)
     (g_edges (layoutGraph merge_window plain_opts))"
proof -
  have "distinct (UNCOMMITTED # map sha merge_window)" by (simp add: UNCOMMITTED_def merge_window_def)
  from edges_end_on_dots [OF this, of plain_opts] show ?thesis
    by (auto simp: list_all_iff split: option.splits)
qed

lemma downward_edge:
  assumes "sorted_wrt (\<lambda>c d. sha c \<notin> set (parents d)) cs" and "\<forall>c \<in> set cs. sha c \<notin> set (parents c)"
    and "k < length cs" and "e_from e = sha (cs ! k)" and "e_to e \<in> set (parents (cs ! k))"
    and "e_open e = (e_to e \<notin> set (map sha cs))"
  shows "e_open e \<or> (\<exists>from \<in> set (g_rows (layoutGraph cs opts)). \<exists>to \<in> set (g_rows (layoutGraph cs opts)).
      r_sha from = e_from e \<and> r_sha to = e_to e \<and> r_row from < r_row to \<and> r_y from < r_y to)"
proof (cases "e_open e")
  case False
  then obtain j where j: "j < length cs" "e_to e = sha (cs ! j)" using assms(6) by (auto simp: in_set_conv_nth)
  have "k < j"
  proof (rule ccontr)
    assume "\<not> k < j"
    moreover have "j \<noteq> k" using assms(2,3,5) j by auto
    ultimately have "sha (cs ! j) \<notin> set (parents (cs ! k))"
      using assms(1,3) by (simp add: sorted_wrt_iff_nth_less)
    then show False using assms(5) j by simp
  qed
  obtain lns where rows: "g_rows (layoutGraph cs opts)
      = first_rows opts @ commit_rows opts (length (first_rows opts)) cs lns"
    using layoutGraph_shape [of cs opts] by blast
  let ?row = "\<lambda>k. graph_row_at (o_rowHeight opts) (sha (cs ! k)) RCommit (lns ! k) (length (first_rows opts) + k)"
  have "?row i \<in> set (g_rows (layoutGraph cs opts))" if "i < length cs" for i
    using that unfolding rows by (simp add: commit_rows_def)
  moreover have "0 < fst (rowGeom (o_rowHeight opts))"
    by (auto simp: rowGeom_def GEOM_row_def Let_def split: option.split jsnum.split)
  then have "r_y (?row k) < r_y (?row j)"
    using \<open>k < j\<close> by (cases "rowGeom (o_rowHeight opts)") (simp add: graph_row_at_def)
  ultimately show ?thesis
    using assms(3,4) j \<open>k < j\<close> by (intro disjI2 bexI [of _ "?row k"] bexI [of _ "?row j"]) auto
qed simp

text \<open>Where every commit precedes its parents, every edge between two rows goes down.\<close>

lemma points_down:
  assumes "sorted_wrt (\<lambda>c d. sha c \<notin> set (parents d)) cs" and "\<forall>c \<in> set cs. sha c \<notin> set (parents c)"
  shows "\<forall>e \<in> set (g_edges (layoutGraph cs opts)). e_open e \<or> e_dashed e \<or>
    (\<exists>from \<in> set (g_rows (layoutGraph cs opts)). \<exists>to \<in> set (g_rows (layoutGraph cs opts)).
      r_sha from = e_from e \<and> r_sha to = e_to e \<and> r_row from < r_row to \<and> r_y from < r_y to)"
proof
  fix e assume "e \<in> set (g_edges (layoutGraph cs opts))"
  then show "e_open e \<or> e_dashed e \<or>
    (\<exists>from \<in> set (g_rows (layoutGraph cs opts)). \<exists>to \<in> set (g_rows (layoutGraph cs opts)).
      r_sha from = e_from e \<and> r_sha to = e_to e \<and> r_row from < r_row to \<and> r_y from < r_y to)"
  proof (cases rule: edge_cases)
    case (parent k r)
    then show ?thesis using downward_edge [OF assms parent(1,2,3,4)] by blast
  qed simp
qed
section \<open>Linear history\<close>

fun linear :: "commit list \<Rightarrow> bool" where
  "linear [] = True"
| "linear [c] = (length (parents c) \<le> 1)"
| "linear (c # d # cs) = (parents c = [sha d] \<and> linear (d # cs))"

definition waits_for :: "lane_state \<Rightarrow> string \<Rightarrow> bool" where
  "waits_for st s = (ls_max st \<le> 1 \<and> (ls_lanes st = [] \<or> ls_lanes st = [Some s]))"

lemma draw_commit_linear:
  assumes "waits_for st (sha c)" and "length (parents c) \<le> 1"
  shows "ls_max (draw_commit opts known st c) \<le> 1
    \<and> ls_lanes (draw_commit opts known st c) = map Some (parents c)"
  using assms
  by (cases "parents c")
    (auto simp: waits_for_def draw_commit_def claim_def claim_index_def free_lanes_def trim_lanes_def Let_def)

lemma drawn_linear:
  "linear cs \<Longrightarrow> cs = [] \<or> waits_for st (sha (hd cs)) \<Longrightarrow> ls_max st \<le> 1 \<Longrightarrow>
   ls_max (foldl (draw_commit opts known) st cs) \<le> 1"
proof (induction cs arbitrary: st rule: linear.induct)
  case (2 c)
  then show ?case using draw_commit_linear [of st c opts known] by simp
next
  case (3 c d cs)
  then have "waits_for (draw_commit opts known st c) (sha d)"
    using draw_commit_linear [of st c opts known] by (simp add: waits_for_def)
  then show ?case using 3 by (simp add: waits_for_def)
qed simp

text \<open>
  A linear history, each commit the only parent of the one before
  it, is drawn in a single lane, with or without the row of the working tree on its first commit.
\<close>

theorem linear_history_one_lane:
  assumes "linear cs" and "o_head opts = None"
  shows "g_lanes (layoutGraph cs opts) = 1"
proof -
  have "(cs = [] \<or> waits_for (first_state cs opts) (sha (hd cs))) \<and> ls_max (first_state cs opts) \<le> 1"
    using assms(2)
    by (cases cs) (auto simp: first_state_def draw_uncommitted_def start_lanes_def claim_def claim_index_def
        waits_for_def Let_def)
  then have "ls_max (foldl (draw_commit opts (set (map sha cs))) (first_state cs opts) cs) \<le> 1"
    using drawn_linear [OF assms(1)] by blast
  then show ?thesis by (simp add: layoutGraph_drawn drawn_def)
qed

theorem linear_history_one_lane_witness:
  "g_lanes (layoutGraph [\<lparr>sha = ''c'', parents = [''b'']\<rparr>, \<lparr>sha = ''b'', parents = [''a'']\<rparr>] plain_opts) = 1"
  by (rule linear_history_one_lane) (simp_all add: plain_opts_def)

end
