(* ===== verification/Frames.thy ===== *)
theory Frames
  imports Wire
begin

text \<open>
  \<^verbatim>\<open>packages/protocol/src/terminal.ts\<close> and the terminal section of
  \<^verbatim>\<open>packages/protocol/src/index.ts\<close>: the frames of a terminal connection, browser to server to
  agent (\<open>client_frame\<close>) and back (\<open>server_frame\<close>), and the validator the browser bundle uses
  for the second kind. The server's own validator is a schema of a third-party package; where a
  component reads a frame through it, the outcome of the validation is an argument.
\<close>

section \<open>Frames\<close>

record wire_target = protocol_target +
  t_cols :: int
  t_rows :: int

datatype control_action = History | Terminate | Rename

datatype client_frame =
    Viewport string int int bool int
  | SessionControl string control_action string "string option"
  | Open string wire_target
  | Input string string bool
  | Resize string int int
  | CloseTerm string

fun client_term :: "client_frame \<Rightarrow> string" where
  "client_term (Viewport t _ _ _ _) = t"
| "client_term (SessionControl t _ _ _) = t"
| "client_term (Open t _) = t"
| "client_term (Input t _ _) = t"
| "client_term (Resize t _ _) = t"
| "client_term (CloseTerm t) = t"

text \<open>\<open>{ ...frame, termId }\<close>.\<close>

fun with_term :: "string \<Rightarrow> client_frame \<Rightarrow> client_frame" where
  "with_term t (Viewport _ x y follow h) = Viewport t x y follow h"
| "with_term t (SessionControl _ a i n) = SessionControl t a i n"
| "with_term t (Open _ g) = Open t g"
| "with_term t (Input _ d w) = Input t d w"
| "with_term t (Resize _ c r) = Resize t c r"
| "with_term t (CloseTerm _) = CloseTerm t"

lemma client_term_with_term [simp]: "client_term (with_term t f) = t"
  by (cases f) simp_all

record screen_frame =
  sc_data :: string
  sc_sequence :: int
  sc_cols :: int
  sc_rows :: int
  sc_canvasCols :: int
  sc_canvasRows :: int
  sc_x :: int
  sc_y :: int
  sc_follow :: bool
  sc_alternate :: "bool option"
  sc_history :: "int option"

text \<open>\<open>restored\<close> has one possible reason, so it is present or absent.\<close>

record ready_frame =
  rd_pid :: "int option"
  rd_backend :: "backend option"
  rd_sessionId :: "string option"
  rd_tmuxId :: "string option"
  rd_restored :: bool

record result_frame =
  rs_lines :: "string list"
  rs_screenOnly :: bool
  rs_error :: string
  rs_name :: "string option"

datatype server_frame =
    Ready string ready_frame
  | Screen string screen_frame
  | SessionResult string result_frame
  | Output string string int
  | Exit string "int option"
  | ErrorFrame string string

fun server_term :: "server_frame \<Rightarrow> string" where
  "server_term (Ready t _) = t"
| "server_term (Screen t _) = t"
| "server_term (SessionResult t _) = t"
| "server_term (Output t _ _) = t"
| "server_term (Exit t _) = t"
| "server_term (ErrorFrame t _) = t"

fun server_with_term :: "string \<Rightarrow> server_frame \<Rightarrow> server_frame" where
  "server_with_term t (Ready _ r) = Ready t r"
| "server_with_term t (Screen _ s) = Screen t s"
| "server_with_term t (SessionResult _ r) = SessionResult t r"
| "server_with_term t (Output _ d n) = Output t d n"
| "server_with_term t (Exit _ c) = Exit t c"
| "server_with_term t (ErrorFrame _ m) = ErrorFrame t m"

lemma server_term_with_term [simp]: "server_term (server_with_term t f) = t"
  by (cases f) simp_all

section \<open>The browser's validator\<close>

text \<open>\<open>recordOf\<close>: an object that is not an array.\<close>

fun recordOf :: "jsval \<Rightarrow> jsval option" where
  "recordOf (JObj kvs) = Some (JObj kvs)"
| "recordOf _ = None"

text \<open>Outer \<open>None\<close> stands for \<open>undefined\<close> (invalid), inner \<open>None\<close> for \<open>null\<close>.\<close>

definition integerOrNull :: "jsval \<Rightarrow> int option option" where
  "integerOrNull v = (if v = Undefined \<or> v = JNull then Some None else map_option Some (integer_val v))"

definition int_within :: "int \<Rightarrow> int \<Rightarrow> jsval \<Rightarrow> bool" where
  "int_within low high v = (case integer_val v of Some n \<Rightarrow> low \<le> n \<and> n \<le> high | None \<Rightarrow> False)"

definition absent_or :: "(jsval \<Rightarrow> bool) \<Rightarrow> jsval \<Rightarrow> bool" where
  "absent_or P v = (v = Undefined \<or> P v)"

definition text_where :: "(string \<Rightarrow> bool) \<Rightarrow> jsval \<Rightarrow> bool" where
  "text_where P v = (case as_string v of Some s \<Rightarrow> P s | None \<Rightarrow> False)"

definition is_restored :: "jsval \<Rightarrow> bool" where
  "is_restored v = (case recordOf v of Some r \<Rightarrow> js_get r ''reason'' = JStr ''reboot'' | None \<Rightarrow> False)"

definition parse_ready :: "string \<Rightarrow> jsval \<Rightarrow> string + server_frame" where
  "parse_ready term f =
     (if \<not> absent_or (text_where is_tmux_id) (js_get f ''tmuxId'') then Inl ''tmuxId: invalid session id''
      else case integerOrNull (js_get f ''pid'') of
        None \<Rightarrow> Inl ''pid: expected integer or null''
      | Some pid \<Rightarrow>
         if \<not> absent_or (text_where (\<lambda>s. backend_of_string s \<noteq> None)) (js_get f ''backend'')
         then Inl ''backend: invalid''
         else if \<not> absent_or (text_where is_uuid) (js_get f ''sessionId'') then Inl ''sessionId: invalid''
         else Inr (Ready term \<lparr>rd_pid = pid, rd_backend = read_with backend_of_string (js_get f ''backend''),
           rd_sessionId = as_string (js_get f ''sessionId''), rd_tmuxId = as_string (js_get f ''tmuxId''),
           rd_restored = is_restored (js_get f ''restored'')\<rparr>))"

definition MAX_SAFE_INTEGER :: int where "MAX_SAFE_INTEGER = 2 ^ 53 - 1"

definition screen_fields :: "(string \<times> int \<times> int) list" where
  "screen_fields = [(''sequence'', 0, MAX_SAFE_INTEGER), (''cols'', 1, 1000), (''rows'', 1, 500),
     (''canvasCols'', 1, 1000), (''canvasRows'', 1, 500), (''x'', 0, 1000), (''y'', 0, 500)]"

definition bad_field :: "jsval \<Rightarrow> string option" where
  "bad_field f = map_option fst
     (List.find (\<lambda>(key, low, high). \<not> int_within low high (js_get f key)) screen_fields)"

text \<open>\<open>frame[key] as number\<close>, once every field has been checked.\<close>

definition int_field :: "jsval \<Rightarrow> string \<Rightarrow> int" where
  "int_field f key = (case integer_val (js_get f key) of Some n \<Rightarrow> n | None \<Rightarrow> 0)"

definition parse_screen :: "string \<Rightarrow> jsval \<Rightarrow> string + server_frame" where
  "parse_screen term f =
     (if \<not> absent_or (\<lambda>v. as_bool v \<noteq> None) (js_get f ''alternate'') then Inl ''screen.alternate: invalid boolean''
      else if \<not> absent_or (int_within 0 5000) (js_get f ''history'') then Inl ''screen.history: invalid integer''
      else if \<not> text_where (\<lambda>s. length s \<le> 65536) (js_get f ''data'') \<or> as_bool (js_get f ''follow'') = None
      then Inl ''screen: invalid payload''
      else case bad_field f of
        Some key \<Rightarrow> Inl (''screen.'' @ key @ '': invalid integer'')
      | None \<Rightarrow> Inr (Screen term \<lparr>sc_data = the (as_string (js_get f ''data'')),
          sc_sequence = int_field f ''sequence'', sc_cols = int_field f ''cols'', sc_rows = int_field f ''rows'',
          sc_canvasCols = int_field f ''canvasCols'', sc_canvasRows = int_field f ''canvasRows'',
          sc_x = int_field f ''x'', sc_y = int_field f ''y'', sc_follow = the (as_bool (js_get f ''follow'')),
          sc_alternate = as_bool (js_get f ''alternate''), sc_history = integer_val (js_get f ''history'')\<rparr>))"

definition parse_result :: "string \<Rightarrow> jsval \<Rightarrow> string + server_frame" where
  "parse_result term f =
     (if \<not> absent_or (text_where target_session_name) (js_get f ''name'') then Inl ''name: invalid session name''
      else if (case as_array (js_get f ''lines'') of None \<Rightarrow> True
          | Some vs \<Rightarrow> \<not> list_all (\<lambda>v. as_string v \<noteq> None) vs)
        \<or> \<not> absent_or (\<lambda>v. as_bool v \<noteq> None) (js_get f ''screenOnly'')
        \<or> \<not> absent_or (text_where (\<lambda>s. length s \<le> 512)) (js_get f ''error'')
      then Inl ''session-result: invalid payload''
      else Inr (SessionResult term \<lparr>rs_lines = map (the \<circ> as_string) (the (as_array (js_get f ''lines''))),
        rs_screenOnly = (js_get f ''screenOnly'' = JBool True),
        rs_error = (case as_string (js_get f ''error'') of Some s \<Rightarrow> s | None \<Rightarrow> []),
        rs_name = as_string (js_get f ''name'')\<rparr>))"

definition parse_output :: "string \<Rightarrow> jsval \<Rightarrow> string + server_frame" where
  "parse_output term f =
     (case as_string (js_get f ''data'') of
        None \<Rightarrow> Inl ''data: expected string''
      | Some data \<Rightarrow>
          (case integer_val (nullish_or (js_get f ''dropped'') (JNum (Fin 0))) of
             None \<Rightarrow> Inl ''dropped: expected non-negative integer''
           | Some dropped \<Rightarrow> if dropped < 0 then Inl ''dropped: expected non-negative integer''
               else Inr (Output term data dropped)))"

definition parse_exit :: "string \<Rightarrow> jsval \<Rightarrow> string + server_frame" where
  "parse_exit term f =
     (case integerOrNull (js_get f ''code'') of
        None \<Rightarrow> Inl ''code: expected integer or null''
      | Some c \<Rightarrow> Inr (Exit term c))"

definition parse_error :: "string \<Rightarrow> jsval \<Rightarrow> string + server_frame" where
  "parse_error term f =
     (if text_where (\<lambda>s. length s \<le> 512) (js_get f ''message'')
      then Inr (ErrorFrame term (the (as_string (js_get f ''message''))))
      else Inl ''message: expected string of at most 512 characters'')"

definition parseTerminalServerFrame :: "jsval \<Rightarrow> string + server_frame" where
  "parseTerminalServerFrame v =
     (case recordOf v of
        None \<Rightarrow> Inl ''(root): expected object''
      | Some f \<Rightarrow>
          (case as_string (js_get f ''termId'') of
             None \<Rightarrow> Inl ''termId: expected string''
           | Some term \<Rightarrow>
               if js_get f ''type'' = JStr ''ready'' then parse_ready term f
               else if js_get f ''type'' = JStr ''screen'' then parse_screen term f
               else if js_get f ''type'' = JStr ''session-result'' then parse_result term f
               else if js_get f ''type'' = JStr ''output'' then parse_output term f
               else if js_get f ''type'' = JStr ''exit'' then parse_exit term f
               else if js_get f ''type'' = JStr ''error'' then parse_error term f
               else Inl ''type: unknown terminal frame''))"

section \<open>What is written is read back\<close>

declare map_of_append [simp del]

text \<open>
  The object that \<open>JSON.stringify\<close> writes for a frame: an optional field that is
  \<open>undefined\<close> is left out.
\<close>

definition num_json :: "int \<Rightarrow> jsval" where
  "num_json n = JNum (Fin (of_int n))"

definition opt_int_json :: "int option \<Rightarrow> jsval" where
  "opt_int_json v = (case v of None \<Rightarrow> JNull | Some n \<Rightarrow> num_json n)"

fun server_frame_json :: "server_frame \<Rightarrow> jsval" where
  "server_frame_json (Ready t r) = JObj
     (opt_field ''backend'' (map_option (JStr \<circ> backend_string) (rd_backend r))
      @ opt_field ''sessionId'' (map_option JStr (rd_sessionId r))
      @ opt_field ''tmuxId'' (map_option JStr (rd_tmuxId r))
      @ opt_field ''restored'' (if rd_restored r then Some (JObj [(''reason'', JStr ''reboot'')]) else None)
      @ [(''type'', JStr ''ready''), (''termId'', JStr t), (''pid'', opt_int_json (rd_pid r))])"
| "server_frame_json (Screen t s) = JObj
     (opt_field ''alternate'' (map_option JBool (sc_alternate s))
      @ opt_field ''history'' (map_option num_json (sc_history s))
      @ [(''type'', JStr ''screen''), (''termId'', JStr t), (''data'', JStr (sc_data s)),
         (''sequence'', num_json (sc_sequence s)), (''cols'', num_json (sc_cols s)), (''rows'', num_json (sc_rows s)),
         (''canvasCols'', num_json (sc_canvasCols s)), (''canvasRows'', num_json (sc_canvasRows s)),
         (''x'', num_json (sc_x s)), (''y'', num_json (sc_y s)), (''follow'', JBool (sc_follow s))])"
| "server_frame_json (SessionResult t r) = JObj
     (opt_field ''name'' (map_option JStr (rs_name r))
      @ [(''type'', JStr ''session-result''), (''termId'', JStr t), (''lines'', JArr (map JStr (rs_lines r))),
         (''screenOnly'', JBool (rs_screenOnly r)), (''error'', JStr (rs_error r))])"
| "server_frame_json (Output t d n) = JObj [(''type'', JStr ''output''), (''termId'', JStr t),
     (''data'', JStr d), (''dropped'', num_json n)]"
| "server_frame_json (Exit t c) = JObj [(''type'', JStr ''exit''), (''termId'', JStr t), (''code'', opt_int_json c)]"
| "server_frame_json (ErrorFrame t m) = JObj [(''type'', JStr ''error''), (''termId'', JStr t), (''message'', JStr m)]"

definition opt_all :: "('a \<Rightarrow> bool) \<Rightarrow> 'a option \<Rightarrow> bool" where
  "opt_all P v = (case v of None \<Rightarrow> True | Some x \<Rightarrow> P x)"

lemma opt_all_simps [simp]: "opt_all P None" "opt_all P (Some x) = P x"
  by (simp_all add: opt_all_def)

text \<open>The bounds of the browser's validator: those the type of the source cannot express.\<close>

definition wf_screen :: "screen_frame \<Rightarrow> bool" where
  "wf_screen s = (length (sc_data s) \<le> 65536
     \<and> 0 \<le> sc_sequence s \<and> sc_sequence s \<le> MAX_SAFE_INTEGER
     \<and> 1 \<le> sc_cols s \<and> sc_cols s \<le> 1000 \<and> 1 \<le> sc_rows s \<and> sc_rows s \<le> 500
     \<and> 1 \<le> sc_canvasCols s \<and> sc_canvasCols s \<le> 1000 \<and> 1 \<le> sc_canvasRows s \<and> sc_canvasRows s \<le> 500
     \<and> 0 \<le> sc_x s \<and> sc_x s \<le> 1000 \<and> 0 \<le> sc_y s \<and> sc_y s \<le> 500
     \<and> opt_all (\<lambda>h. 0 \<le> h \<and> h \<le> 5000) (sc_history s))"

fun wf_server_frame :: "server_frame \<Rightarrow> bool" where
  "wf_server_frame (Ready _ r) = (opt_all is_tmux_id (rd_tmuxId r) \<and> opt_all is_uuid (rd_sessionId r))"
| "wf_server_frame (Screen _ s) = wf_screen s"
| "wf_server_frame (SessionResult _ r) = (opt_all target_session_name (rs_name r) \<and> length (rs_error r) \<le> 512)"
| "wf_server_frame (Output _ _ n) = (0 \<le> n)"
| "wf_server_frame (Exit _ _) = True"
| "wf_server_frame (ErrorFrame _ m) = (length m \<le> 512)"

lemma num_json_simps [simp]:
  "integer_val (num_json n) = Some n" "num_json n \<noteq> Undefined" "num_json n \<noteq> JNull"
  "int_within l h (num_json n) \<longleftrightarrow> l \<le> n \<and> n \<le> h"
  by (simp_all add: num_json_def int_within_def)

lemma integerOrNull_json [simp]: "integerOrNull (opt_int_json c) = Some c"
  by (cases c) (simp_all add: integerOrNull_def opt_int_json_def)

lemma integerOrNull_Some: "integerOrNull v = Some c \<Longrightarrow> integerOrNull (opt_int_json c) = Some c"
  by simp

lemmas frame_readers = absent_or_def text_where_def read_with_def is_restored_def

lemma parse_ready_json:
  assumes "wf_server_frame (Ready t r)"
  shows "parse_ready t (server_frame_json (Ready t r)) = Inr (Ready t r)"
proof -
  let ?j = "server_frame_json (Ready t r)"
  have "js_get ?j ''tmuxId'' = (case rd_tmuxId r of None \<Rightarrow> Undefined | Some i \<Rightarrow> JStr i)"
    "js_get ?j ''sessionId'' = (case rd_sessionId r of None \<Rightarrow> Undefined | Some i \<Rightarrow> JStr i)"
    "js_get ?j ''backend'' = (case rd_backend r of None \<Rightarrow> Undefined | Some b \<Rightarrow> JStr (backend_string b))"
    "js_get ?j ''restored'' = (if rd_restored r then JObj [(''reason'', JStr ''reboot'')] else Undefined)"
    "js_get ?j ''pid'' = opt_int_json (rd_pid r)"
    by (simp_all split: option.splits)
  then show ?thesis using assms unfolding parse_ready_def frame_readers
    by (cases "rd_tmuxId r"; cases "rd_sessionId r"; cases "rd_backend r"; cases "rd_restored r")
      (simp_all add: backend_text.dec_enc ready_frame.equality del: backend_of_string.simps)
qed

lemma parse_screen_json:
  assumes "wf_screen s"
  shows "parse_screen t (server_frame_json (Screen t s)) = Inr (Screen t s)"
proof -
  let ?j = "server_frame_json (Screen t s)"
  have opt: "js_get ?j ''alternate'' = (case sc_alternate s of None \<Rightarrow> Undefined | Some b \<Rightarrow> JBool b)"
    "js_get ?j ''history'' = (case sc_history s of None \<Rightarrow> Undefined | Some n \<Rightarrow> num_json n)"
    by (simp_all split: option.splits)
  have f: "js_get ?j ''data'' = JStr (sc_data s)" "js_get ?j ''sequence'' = num_json (sc_sequence s)"
    "js_get ?j ''cols'' = num_json (sc_cols s)" "js_get ?j ''rows'' = num_json (sc_rows s)"
    "js_get ?j ''canvasCols'' = num_json (sc_canvasCols s)" "js_get ?j ''canvasRows'' = num_json (sc_canvasRows s)"
    "js_get ?j ''x'' = num_json (sc_x s)" "js_get ?j ''y'' = num_json (sc_y s)"
    "js_get ?j ''follow'' = JBool (sc_follow s)"
    by simp_all
  have "bad_field ?j = None"
    using assms by (simp add: bad_field_def screen_fields_def f wf_screen_def del: server_frame_json.simps)
  then show ?thesis using assms f opt
    by (cases "sc_alternate s"; cases "sc_history s")
      (simp_all add: parse_screen_def int_field_def frame_readers wf_screen_def screen_frame.equality
        del: server_frame_json.simps)
qed

lemma parse_result_json:
  assumes "wf_server_frame (SessionResult t r)"
  shows "parse_result t (server_frame_json (SessionResult t r)) = Inr (SessionResult t r)"
proof -
  let ?j = "server_frame_json (SessionResult t r)"
  have f: "js_get ?j ''name'' = (case rs_name r of None \<Rightarrow> Undefined | Some n \<Rightarrow> JStr n)"
    "js_get ?j ''lines'' = JArr (map JStr (rs_lines r))" "js_get ?j ''screenOnly'' = JBool (rs_screenOnly r)"
    "js_get ?j ''error'' = JStr (rs_error r)"
    by (simp_all split: option.splits)
  have "map (the \<circ> as_string) (map JStr (rs_lines r)) = rs_lines r" by (simp add: comp_def)
  then show ?thesis using assms f
    by (cases "rs_name r")
      (simp_all add: parse_result_def frame_readers list_all_iff result_frame.equality del: server_frame_json.simps)
qed

lemma server_frame_type:
  "js_get (server_frame_json f) ''type'' = JStr (case f of Ready _ _ \<Rightarrow> ''ready'' | Screen _ _ \<Rightarrow> ''screen''
     | SessionResult _ _ \<Rightarrow> ''session-result'' | Output _ _ _ \<Rightarrow> ''output'' | Exit _ _ \<Rightarrow> ''exit''
     | ErrorFrame _ _ \<Rightarrow> ''error'')"
  "js_get (server_frame_json f) ''termId'' = JStr (server_term f)"
  "recordOf (server_frame_json f) = Some (server_frame_json f)"
  by (cases f; simp)+

lemma parse_server_frame_json:
  assumes "wf_server_frame f"
  shows "parseTerminalServerFrame (server_frame_json f) = Inr f"
proof -
  note shape = parseTerminalServerFrame_def server_frame_type [of f]
  show ?thesis
  proof (cases f)
    case (Ready t r)
    with assms parse_ready_json [of t r] show ?thesis unfolding shape by simp
  next
    case (Screen t s)
    with assms parse_screen_json [of s t] show ?thesis unfolding shape by simp
  next
    case (SessionResult t r)
    with assms parse_result_json [of t r] show ?thesis unfolding shape by simp
  next
    case (Output t d n)
    with assms show ?thesis unfolding shape by (simp add: parse_output_def nullish_or_def)
  next
    case (Exit t c)
    with assms show ?thesis unfolding shape by (simp add: parse_exit_def)
  next
    case (ErrorFrame t m)
    with assms show ?thesis unfolding shape by (simp add: parse_error_def text_where_def)
  qed
qed

lemma backend_string_text: "backend_of_string s = Some b \<Longrightarrow> backend_string b = s"
  by (auto split: if_splits)

interpretation server_frame_text: codec server_frame_json
  "\<lambda>v. case parseTerminalServerFrame v of Inr f \<Rightarrow> Some f | Inl _ \<Rightarrow> None" wf_server_frame
  by unfold_locales (simp add: parse_server_frame_json)

lemma parse_screen_bounds: "parse_screen t f = Inr r \<Longrightarrow> wf_server_frame r \<and> server_term r = t"
proof -
  assume p: "parse_screen t f = Inr r"
  have b: "bad_field f = None" and opt: "absent_or (int_within 0 5000) (js_get f ''history'')"
    and d: "text_where (\<lambda>s. length s \<le> 65536) (js_get f ''data'')"
    using p by (auto simp: parse_screen_def split: if_splits option.splits)
  have within: "int_within low high (js_get f key)" if "(key, low, high) \<in> set screen_fields" for key low high
    using b that by (auto simp: bad_field_def find_None_iff)
  have bound: "low \<le> int_field f key \<and> int_field f key \<le> high" if "(key, low, high) \<in> set screen_fields" for key low high
    using within [OF that] by (auto simp: int_within_def int_field_def split: option.splits)
  have "opt_all (\<lambda>h. 0 \<le> h \<and> h \<le> 5000) (integer_val (js_get f ''history''))"
    using opt by (auto simp: absent_or_def int_within_def split: option.splits)
  moreover have "length (the (as_string (js_get f ''data''))) \<le> 65536"
    using d by (auto simp: text_where_def split: option.splits)
  ultimately show ?thesis
    using p b opt d bound [of "''sequence''" 0 MAX_SAFE_INTEGER] bound [of "''cols''" 1 1000] bound [of "''rows''" 1 500]
      bound [of "''canvasCols''" 1 1000] bound [of "''canvasRows''" 1 500] bound [of "''x''" 0 1000] bound [of "''y''" 0 500]
    by (auto simp: parse_screen_def wf_screen_def screen_fields_def split: if_splits)
qed

lemma parse_wf:
  assumes "parseTerminalServerFrame v = Inr r"
  shows "wf_server_frame r \<and> as_string (js_get v ''termId'') = Some (server_term r)"
proof -
  obtain f t where f: "recordOf v = Some f" and t: "as_string (js_get f ''termId'') = Some t"
    using assms by (auto simp: parseTerminalServerFrame_def split: option.splits)
  have v: "v = f" using f by (cases v) auto
  have "wf_server_frame r \<and> server_term r = t"
  proof -
    consider "parse_ready t f = Inr r" | "parse_screen t f = Inr r" | "parse_result t f = Inr r"
      | "parse_output t f = Inr r" | "parse_exit t f = Inr r" | "parse_error t f = Inr r"
      using assms by (auto simp: parseTerminalServerFrame_def f t split: if_splits)
    then show ?thesis
    proof cases
      case 2
      then show ?thesis by (rule parse_screen_bounds)
    qed (auto simp: parse_ready_def parse_result_def parse_output_def parse_exit_def parse_error_def
        frame_readers opt_all_def split: if_splits option.splits)
  qed
  with t v show ?thesis by simp
qed

text \<open>
  The server's schema of a frame: an id in the form of a UUID of any version, and every integer a safe one,
  as the schema package documents its \<open>guid\<close> and \<open>int\<close>.
\<close>

definition is_guid :: "string \<Rightarrow> bool" where
  "is_guid s = (length s = 36 \<and> list_all (\<lambda>(i, c). if i \<in> {8, 13, 18, 23} then c = CHR ''-'' else is_hex c) (enumerate 0 s))"

definition safe_int :: "int \<Rightarrow> bool" where
  "safe_int n = (- MAX_SAFE_INTEGER \<le> n \<and> n \<le> MAX_SAFE_INTEGER)"

fun schema_frame :: "server_frame \<Rightarrow> bool" where
  "schema_frame (Ready _ r) = (opt_all safe_int (rd_pid r) \<and> opt_all is_guid (rd_sessionId r) \<and> opt_all is_tmux_id (rd_tmuxId r))"
| "schema_frame (Screen _ s) = wf_screen s"
| "schema_frame (SessionResult _ r) = (opt_all target_session_name (rs_name r) \<and> length (rs_error r) \<le> 512)"
| "schema_frame (Output _ _ n) = (0 \<le> n \<and> safe_int n)"
| "schema_frame (Exit _ c) = opt_all safe_int c"
| "schema_frame (ErrorFrame _ m) = (length m \<le> 512)"

lemma uuid_is_guid: "is_uuid s \<Longrightarrow> is_guid s"
proof -
  have "is_hex c" if "49 \<le> code c \<and> code c \<le> 56" for c using that by (simp add: is_hex_def is_digit_def)
  moreover have "is_hex c" if "c \<in> set ''89abAB''" for c using that by (auto simp: is_hex_def is_digit_def)
  ultimately have "uuid_char i c \<Longrightarrow> (if i \<in> {8, 13, 18, 23} then c = CHR ''-'' else is_hex c)" for i c
    by (auto simp: uuid_char_def split: if_splits)
  then show "is_uuid s \<Longrightarrow> is_guid s" unfolding is_uuid_def is_guid_def list_all_iff by fast
qed

definition versioned :: "server_frame \<Rightarrow> bool" where
  "versioned f = (case f of Ready _ r \<Rightarrow> opt_all is_uuid (rd_sessionId r) | _ \<Rightarrow> True)"

lemma unversioned_refused:
  assumes "\<not> versioned f"
  shows "\<exists>e. parseTerminalServerFrame (server_frame_json f) = Inl e"
proof -
  obtain t r i where f: "f = Ready t r" "rd_sessionId r = Some i" "\<not> is_uuid i"
    using assms by (cases f) (auto simp: versioned_def opt_all_def split: option.splits)
  have id: "js_get (server_frame_json f) ''sessionId'' = JStr i" using f by (simp split: option.splits)
  have "\<exists>e. parse_ready t (server_frame_json f) = Inl e"
    unfolding parse_ready_def using f(3)
    by (simp add: id absent_or_def text_where_def del: server_frame_json.simps split: option.split)
  moreover have "parseTerminalServerFrame (server_frame_json f) = parse_ready t (server_frame_json f)"
    unfolding parseTerminalServerFrame_def server_frame_type [of f] using server_frame_type [of f]
    by (simp add: f(1) del: server_frame_json.simps)
  ultimately show ?thesis by simp
qed

lemma schema_reads: "schema_frame f \<Longrightarrow> wf_server_frame f \<longleftrightarrow> versioned f"
  by (cases f) (auto simp: versioned_def)

text \<open>
  C34 (\<open>server_frame_roundtrip\<close>): a frame of the server's schema, written as JSON, is read back by the
  browser field for field, unless it is a \<open>ready\<close> whose session id is a UUID of no known version: that one,
  which the schema lets through, and no other, the browser refuses. And whatever the browser accepts from an
  arbitrary value keeps the browser's bounds, is addressed to the terminal the value names, and is a frame of
  the schema if its integers are safe ones.
\<close>

theorem server_frame_roundtrip:
  "(schema_frame f \<longrightarrow> (if versioned f then parseTerminalServerFrame (server_frame_json f) = Inr f
      else \<exists>e. parseTerminalServerFrame (server_frame_json f) = Inl e))
   \<and> (parseTerminalServerFrame v = Inr r \<longrightarrow>
      wf_server_frame r \<and> as_string (js_get v ''termId'') = Some (server_term r)
      \<and> (schema_frame r \<longleftrightarrow> (case r of Ready _ d \<Rightarrow> opt_all safe_int (rd_pid d) | Output _ _ n \<Rightarrow> safe_int n
          | Exit _ c \<Rightarrow> opt_all safe_int c | _ \<Rightarrow> True)))"
proof (intro conjI impI)
  assume s: "schema_frame f"
  show "if versioned f then parseTerminalServerFrame (server_frame_json f) = Inr f
      else \<exists>e. parseTerminalServerFrame (server_frame_json f) = Inl e"
    using parse_server_frame_json [of f] unversioned_refused [of f] schema_reads [OF s] by presburger
next
  assume p: "parseTerminalServerFrame v = Inr r"
  note wf = parse_wf [OF p]
  show "wf_server_frame r" "as_string (js_get v ''termId'') = Some (server_term r)" using wf by simp_all
  show "schema_frame r \<longleftrightarrow> (case r of Ready _ d \<Rightarrow> opt_all safe_int (rd_pid d) | Output _ _ n \<Rightarrow> safe_int n
      | Exit _ c \<Rightarrow> opt_all safe_int c | _ \<Rightarrow> True)"
    using wf uuid_is_guid by (cases r) (auto simp: opt_all_def split: option.splits)
qed

definition zero_id :: string where
  "zero_id = ''00000000-0000-0000-0000-000000000000''"

theorem server_frame_roundtrip_witness:
  "parseTerminalServerFrame (server_frame_json (Output ''t1'' ''ok'' 3)) = Inr (Output ''t1'' ''ok'' 3)
   \<and> server_term (Output ''t1'' ''ok'' 3) = ''t1''
   \<and> (let f = Ready ''t1'' \<lparr>rd_pid = None, rd_backend = Some Native, rd_sessionId = Some zero_id, rd_tmuxId = None, rd_restored = False\<rparr>
      in schema_frame f \<and> (\<exists>e. parseTerminalServerFrame (server_frame_json f) = Inl e))"
proof -
  have "is_guid zero_id" by code_simp
  moreover have "\<not> is_uuid zero_id" by code_simp
  ultimately show ?thesis
    using server_frame_roundtrip [of "Output ''t1'' ''ok'' 3" "server_frame_json (Output ''t1'' ''ok'' 3)" "Output ''t1'' ''ok'' 3"]
      server_frame_roundtrip [of "Ready ''t1'' \<lparr>rd_pid = None, rd_backend = Some Native, rd_sessionId = Some zero_id, rd_tmuxId = None, rd_restored = False\<rparr>"]
    by (simp add: versioned_def safe_int_def MAX_SAFE_INTEGER_def del: server_frame_json.simps)
qed

end
