(* ===== verification/Registry.thy ===== *)
theory Registry
  imports Machines "HOL-Library.AList"
begin

text \<open>
  \<^verbatim>\<open>apps/api/src/agents/agent-registry.service.ts\<close>: which hosts have an agent attached, and the
  one way to talk to them. A JavaScript \<open>Map\<close> is an association list in insertion order
  (\<open>AList.update\<close> replaces in place or appends). A socket is a number; what a socket does when it
  is written to or closed, and what the subscribers do, is an argument, so the registry is a
  function of the state \<open>'w\<close> of whoever owns them.
\<close>

section \<open>Maps in insertion order\<close>

declare AList.update_conv' [simp] AList.delete_conv' [simp]
declare map_of_eq_Some_iff [simp del] Some_eq_map_of_iff [simp del]

lemma distinct_keys_update [simp]: "distinct (map fst m) \<Longrightarrow> distinct (map fst (AList.update k v m))"
  by (rule AList.distinct_update)

lemma distinct_keys_delete [simp]: "distinct (map fst m) \<Longrightarrow> distinct (map fst (AList.delete k m))"
  by (rule AList.distinct_delete)

lemma update_fresh: "k \<notin> set (map fst m) \<Longrightarrow> AList.update k v m = m @ [(k, v)]"
  by (induction m) auto

lemma distinct_keys_filter [simp]: "distinct (map fst m) \<Longrightarrow> distinct (map fst (filter P m))"
  by (induction m) auto

lemma map_of_filter_values:
  assumes "distinct (map fst m)"
  shows "map_of (filter (\<lambda>(k, v). P v) m) k = (case map_of m k of Some v \<Rightarrow> if P v then Some v else None | None \<Rightarrow> None)"
  using assms by (induction m) (auto simp: map_of_eq_None_iff split: option.splits)

definition map_values :: "('v \<Rightarrow> 'u) \<Rightarrow> ('k \<times> 'v) list \<Rightarrow> ('k \<times> 'u) list" where
  "map_values f m = map (\<lambda>(k, v). (k, f v)) m"

lemma keys_map_values [simp]: "map fst (map_values f m) = map fst m"
  by (simp add: map_values_def split_def)

lemma map_of_map_values [simp]: "map_of (map_values f m) k = map_option f (map_of m k)"
  by (induction m) (auto simp: map_values_def)

section \<open>State\<close>

record agent_connection =
  k_socket :: nat
  k_token :: string

record terminal_ability =
  ab_native :: bool
  ab_screen :: nat
  ab_rename :: "bool option"

record registry =
  r_conns :: "(string \<times> agent_connection) list"
  r_abil :: "(string \<times> terminal_ability) list"

datatype drop_reason = Closed | Replaced

datatype registry_event = Connected string | Disconnected string drop_reason

fun event_host :: "registry_event \<Rightarrow> string" where
  "event_host (Connected h) = h"
| "event_host (Disconnected h _) = h"

definition AGENT_CLOSE_REPLACED :: int where "AGENT_CLOSE_REPLACED = 4000"

definition no_registry :: registry where
  "no_registry = \<lparr>r_conns = [], r_abil = []\<rparr>"

text \<open>
  What the registry calls: closing a socket (which cannot fail, since \<open>closeQuietly\<close> catches), and
  the subscribers in the order they subscribed. A subscriber that throws is cut short and the
  others still run, so a handler here returns the state it reached.
\<close>

record 'w hub =
  hub_close :: "nat \<Rightarrow> int \<Rightarrow> string \<Rightarrow> 'w \<Rightarrow> 'w"
  hub_handlers :: "(registry \<Rightarrow> registry_event \<Rightarrow> 'w \<Rightarrow> 'w) list"

definition emit_event :: "'w hub \<Rightarrow> registry \<Rightarrow> registry_event \<Rightarrow> 'w \<Rightarrow> 'w" where
  "emit_event hub reg ev w = foldl (\<lambda>w handler. handler reg ev w) w (hub_handlers hub)"

section \<open>Operations\<close>

definition hasHello :: "registry \<Rightarrow> string \<Rightarrow> bool" where
  "hasHello reg host = (map_of (r_abil reg) host \<noteq> None)"

definition isConnected :: "registry \<Rightarrow> string \<Rightarrow> bool" where
  "isConnected reg host = (map_of (r_conns reg) host \<noteq> None)"

definition no_ability :: terminal_ability where
  "no_ability = \<lparr>ab_native = False, ab_screen = 0, ab_rename = None\<rparr>"

definition terminalAbility :: "registry \<Rightarrow> string \<Rightarrow> terminal_ability" where
  "terminalAbility reg host = (if isConnected reg host then
     (case map_of (r_abil reg) host of Some a \<Rightarrow> a | None \<Rightarrow> no_ability) else no_ability)"

definition setTerminalAbility :: "'w hub \<Rightarrow> string \<Rightarrow> terminal_ability \<Rightarrow> registry \<times> 'w \<Rightarrow> registry \<times> 'w" where
  "setTerminalAbility hub host ability s =
     (let reg = (fst s)\<lparr>r_abil := AList.update host ability (r_abil (fst s))\<rparr>
      in (reg, emit_event hub reg (Connected host) (snd s)))"

definition register :: "'w hub \<Rightarrow> string \<Rightarrow> nat \<Rightarrow> string \<Rightarrow> registry \<times> 'w \<Rightarrow> registry \<times> 'w" where
  "register hub host socket token s =
     (let reg = (fst s)\<lparr>r_abil := AList.delete host (r_abil (fst s))\<rparr>;
          w = (case map_of (r_conns reg) host of
                 None \<Rightarrow> snd s
               | Some existing \<Rightarrow>
                   if k_socket existing \<noteq> socket
                   then emit_event hub reg (Disconnected host Replaced)
                     (hub_close hub (k_socket existing) AGENT_CLOSE_REPLACED ''replaced by a newer connection'' (snd s))
                   else snd s);
          reg' = reg\<lparr>r_conns := AList.update host \<lparr>k_socket = socket, k_token = token\<rparr> (r_conns reg)\<rparr>
      in (reg', emit_event hub reg' (Connected host) w))"

definition forget_conn :: "string \<Rightarrow> registry \<Rightarrow> registry" where
  "forget_conn host reg = reg\<lparr>r_conns := AList.delete host (r_conns reg)\<rparr>"

definition unregister :: "'w hub \<Rightarrow> string \<Rightarrow> nat \<Rightarrow> registry \<times> 'w \<Rightarrow> registry \<times> 'w" where
  "unregister hub host socket s =
     (if map_option k_socket (map_of (r_conns (fst s)) host) \<noteq> Some socket then s
      else let reg = forget_conn host (fst s) in (reg, emit_event hub reg (Disconnected host Closed) (snd s)))"

definition closeHost :: "'w hub \<Rightarrow> string \<Rightarrow> int \<Rightarrow> string \<Rightarrow> registry \<times> 'w \<Rightarrow> bool \<times> registry \<times> 'w" where
  "closeHost hub host status reason s =
     (case map_of (r_conns (fst s)) host of
        None \<Rightarrow> (False, s)
      | Some existing \<Rightarrow>
          let reg = forget_conn host (fst s)
          in (True, reg, emit_event hub reg (Disconnected host Closed)
                (hub_close hub (k_socket existing) status reason (snd s))))"

definition token_hosts :: "registry \<Rightarrow> string \<Rightarrow> string list" where
  "token_hosts reg token = map fst (filter (\<lambda>(_, c). k_token c = token) (r_conns reg))"

definition closeForToken :: "'w hub \<Rightarrow> string \<Rightarrow> int \<Rightarrow> string \<Rightarrow> registry \<times> 'w \<Rightarrow> string list \<times> registry \<times> 'w" where
  "closeForToken hub token status reason s =
     (let affected = token_hosts (fst s) token
      in (affected, foldl (\<lambda>s host. snd (closeHost hub host status reason s)) s affected))"

definition connectedTokenId :: "registry \<Rightarrow> string \<Rightarrow> string option" where
  "connectedTokenId reg host = map_option k_token (map_of (r_conns reg) host)"

definition connectedHostIds :: "registry \<Rightarrow> string list" where
  "connectedHostIds reg = map fst (r_conns reg)"

text \<open>
  \<open>sendToHost\<close>: the write is an argument that reports whether the socket accepted the frame
  (a throw is caught and reported as not sent).
\<close>

definition sendToHost :: "(nat \<Rightarrow> 'f \<Rightarrow> 'w \<Rightarrow> bool \<times> 'w) \<Rightarrow> registry \<Rightarrow> string \<Rightarrow> 'f \<Rightarrow> 'w \<Rightarrow> bool \<times> 'w" where
  "sendToHost snd_frame reg host frame w =
     (case map_of (r_conns reg) host of
        None \<Rightarrow> (False, w)
      | Some c \<Rightarrow> snd_frame (k_socket c) frame w)"

section \<open>One agent per host\<close>

datatype registry_op =
    Register string nat string
  | Unregister string nat
  | CloseHost string int string
  | CloseForToken string int string
  | SetAbility string terminal_ability

fun registry_step :: "'w hub \<Rightarrow> registry \<times> 'w \<Rightarrow> registry_op \<Rightarrow> registry \<times> 'w" where
  "registry_step hub s (Register h k t) = register hub h k t s"
| "registry_step hub s (Unregister h k) = unregister hub h k s"
| "registry_step hub s (CloseHost h c r) = snd (closeHost hub h c r s)"
| "registry_step hub s (CloseForToken t c r) = snd (closeForToken hub t c r s)"
| "registry_step hub s (SetAbility h a) = setTerminalAbility hub h a s"

definition registry_ok :: "registry \<Rightarrow> bool" where
  "registry_ok reg = (distinct (map fst (r_conns reg)) \<and> distinct (map fst (r_abil reg)))"

lemma registry_ok_forget [simp]: "registry_ok reg \<Longrightarrow> registry_ok (forget_conn h reg)"
  by (simp add: registry_ok_def forget_conn_def)

lemma conns_forget [simp]: "map_of (r_conns (forget_conn h reg)) = (map_of (r_conns reg))(h := None)"
  by (simp add: forget_conn_def)

lemma forget_abil [simp]: "r_abil (forget_conn h reg) = r_abil reg"
  by (simp add: forget_conn_def)

lemma closeHost_conns:
  "map_of (r_conns (fst (snd (closeHost hub h c r s)))) = (map_of (r_conns (fst s)))(h := None)"
  by (auto simp: closeHost_def Let_def split: option.splits)

lemma closeHost_ok: "registry_ok (fst s) \<Longrightarrow> registry_ok (fst (snd (closeHost hub h c r s)))"
  by (auto simp: closeHost_def Let_def split: option.splits)

lemma closeHosts_conns:
  "map_of (r_conns (fst (foldl (\<lambda>s h. snd (closeHost hub h c r s)) s hs)))
   = (\<lambda>h. if h \<in> set hs then None else map_of (r_conns (fst s)) h)"
  by (induction hs arbitrary: s) (auto simp: closeHost_conns)

lemma closeHosts_ok:
  "registry_ok (fst s) \<Longrightarrow> registry_ok (fst (foldl (\<lambda>s h. snd (closeHost hub h c r s)) s hs))"
  by (induction hs arbitrary: s) (auto simp: closeHost_ok)

lemma registry_step_ok: "registry_ok (fst s) \<Longrightarrow> registry_ok (fst (registry_step hub s op))"
proof (cases op)
  case (CloseHost h c r)
  then show "registry_ok (fst s) \<Longrightarrow> ?thesis" by (simp add: closeHost_ok)
next
  case (CloseForToken t c r)
  then show "registry_ok (fst s) \<Longrightarrow> ?thesis" by (simp add: closeForToken_def Let_def closeHosts_ok)
qed (simp_all add: register_def unregister_def setTerminalAbility_def registry_ok_def forget_conn_def Let_def)

interpretation registry_machine: invariant_machine "registry_step hub" "\<lambda>s. registry_ok (fst s)" for hub
  by unfold_locales (rule registry_step_ok)

lemma mem_token_hosts:
  "registry_ok reg \<Longrightarrow> h \<in> set (token_hosts reg t) \<longleftrightarrow> connectedTokenId reg h = Some t"
  by (force simp: token_hosts_def connectedTokenId_def registry_ok_def map_of_eq_Some_iff image_iff)

text \<open>
  The contract the callers rely on: one connection per host, the newest, each identified by the
  credential that opened it.
\<close>

type_synonym agents = "string \<rightharpoonup> agent_connection"

fun agents_spec :: "registry_op \<Rightarrow> agents \<Rightarrow> agents" where
  "agents_spec (Register h k t) m = m(h \<mapsto> \<lparr>k_socket = k, k_token = t\<rparr>)"
| "agents_spec (Unregister h k) m = (if map_option k_socket (m h) = Some k then m(h := None) else m)"
| "agents_spec (CloseHost h c r) m = m(h := None)"
| "agents_spec (CloseForToken t c r) m = (\<lambda>h. if map_option k_token (m h) = Some t then None else m h)"
| "agents_spec (SetAbility h a) m = m"

lemma registry_refines_step:
  assumes "registry_ok (fst s)"
  shows "map_of (r_conns (fst (registry_step hub s op))) = agents_spec op (map_of (r_conns (fst s)))"
proof (cases op)
  case (CloseForToken t c r)
  then show ?thesis using mem_token_hosts [OF assms]
    by (auto simp: closeForToken_def Let_def closeHosts_conns connectedTokenId_def)
qed (auto simp: register_def unregister_def setTerminalAbility_def closeHost_conns Let_def)

lemma registry_refines_run:
  assumes "registry_ok (fst s)"
  shows "map_of (r_conns (fst (run (registry_step hub) s ops)))
    = foldl (\<lambda>m op. agents_spec op m) (map_of (r_conns (fst s))) ops"
  using assms by (induction ops arbitrary: s) (simp_all add: registry_refines_step registry_step_ok)

text \<open>
  C5 (\<open>registry_refines\<close>): whatever the sockets and the subscribers do, after any sequence of
  registrations, disconnections, hang-ups, revocations and hellos the registry is the map in which
  the newest registration of a host wins, a stale unregister changes nothing, a hang-up removes
  one host and a revocation removes exactly the connections its token opened, and the list of
  connected hosts has no duplicate.
\<close>

theorem registry_refines:
  "map_of (r_conns (fst (run (registry_step hub) (no_registry, w) ops)))
     = foldl (\<lambda>m op. agents_spec op m) Map.empty ops
   \<and> distinct (connectedHostIds (fst (run (registry_step hub) (no_registry, w) ops)))"
proof -
  have "registry_ok (fst (no_registry, w))" by (simp add: registry_ok_def no_registry_def)
  with registry_refines_run [OF this, of hub ops] registry_machine.run_inv [OF this, of hub ops]
  show ?thesis by (simp add: registry_ok_def connectedHostIds_def no_registry_def)
qed

section \<open>What the subscribers keep\<close>

text \<open>
  The contract of the subscribers and sockets: what they keep of their own state when they are told
  something or closed is kept by every operation of the registry.
\<close>

locale subscriber =
  fixes hub :: "'w hub"
    and good :: "'w \<Rightarrow> bool"
  assumes told_good: "good w \<Longrightarrow> good (emit_event hub reg ev w)"
    and close_good: "good w \<Longrightarrow> good (hub_close hub socket status reason w)"
begin

lemma closeHost_good: "good (snd s) \<Longrightarrow> good (snd (snd (closeHost hub h c r s)))"
  by (auto simp: closeHost_def Let_def told_good close_good split: option.splits)

lemma closeHosts_good: "good (snd s) \<Longrightarrow> good (snd (foldl (\<lambda>s h. snd (closeHost hub h c r s)) s hs))"
  by (induction hs arbitrary: s) (simp_all add: closeHost_good)

lemma step_good: "good (snd s) \<Longrightarrow> good (snd (registry_step hub s op))"
proof (cases op)
  case (Register h k t)
  then show "good (snd s) \<Longrightarrow> ?thesis"
    by (simp add: register_def Let_def told_good close_good split: option.split)
next
  case (CloseForToken t c r)
  then show "good (snd s) \<Longrightarrow> ?thesis" by (simp add: closeForToken_def Let_def closeHosts_good)
qed (simp_all add: unregister_def setTerminalAbility_def closeHost_good Let_def told_good)

end

section \<open>What the subscribers are told\<close>

text \<open>A subscriber that keeps the events it is given, in order.\<close>

definition recorder :: "registry_event list hub" where
  "recorder = \<lparr>hub_close = \<lambda>_ _ _ w. w, hub_handlers = [\<lambda>_ ev w. w @ [ev]]\<rparr>"

lemma emit_recorder [simp]: "emit_event recorder reg ev w = w @ [ev]"
  by (simp add: emit_event_def recorder_def)

lemma close_recorder [simp]: "hub_close recorder k c r w = w"
  by (simp add: recorder_def)

definition last_about :: "string \<Rightarrow> registry_event list \<Rightarrow> registry_event option" where
  "last_about h evs = List.find (\<lambda>ev. event_host ev = h) (rev evs)"

lemma last_about_snoc [simp]:
  "last_about h (evs @ [ev]) = (if event_host ev = h then Some ev else last_about h evs)"
  by (simp add: last_about_def)

definition told :: "registry \<times> registry_event list \<Rightarrow> bool" where
  "told s = (\<forall>h. map_of (r_conns (fst s)) h \<noteq> None \<longrightarrow> last_about h (snd s) = Some (Connected h))"

lemma told_closeHost: "told s \<Longrightarrow> told (snd (closeHost recorder h c r s))"
  by (auto simp: told_def closeHost_def Let_def split: option.splits)

lemma told_closeHosts: "told s \<Longrightarrow> told (foldl (\<lambda>s h. snd (closeHost recorder h c r s)) s hs)"
  by (induction hs arbitrary: s) (auto simp: told_closeHost)

lemma told_step: "told s \<Longrightarrow> told (registry_step recorder s op)"
proof (cases op)
  case (CloseForToken t c r)
  then show "told s \<Longrightarrow> ?thesis" by (simp add: closeForToken_def Let_def told_closeHosts)
next
  case (CloseHost h c r)
  then show "told s \<Longrightarrow> ?thesis" by (simp add: told_closeHost)
next
  case (Register h k t)
  then show "told s \<Longrightarrow> ?thesis"
    by (auto simp: told_def register_def Let_def split: option.splits)
qed (auto simp: told_def unregister_def setTerminalAbility_def Let_def)

interpretation told_machine: invariant_machine "registry_step recorder" told
  by unfold_locales (rule told_step)

text \<open>
  After any sequence of operations, the last thing a subscriber
  was told about a host that has an agent attached is that it connected: a replacement, a stale
  close or a revocation of another credential never leaves it believing a live host is gone.
\<close>

theorem registry_tells_subscribers:
  assumes "isConnected (fst (run (registry_step recorder) (no_registry, []) ops)) h"
  shows "last_about h (snd (run (registry_step recorder) (no_registry, []) ops)) = Some (Connected h)"
proof -
  have "told (no_registry, [])" by (simp add: told_def no_registry_def)
  from told_machine.run_inv [OF this, of ops] assms show ?thesis
    by (auto simp: told_def isConnected_def)
qed

theorem registry_tells_subscribers_witness:
  "last_about ''h'' (snd (run (registry_step recorder) (no_registry, [])
     [Register ''h'' 1 ''a'', Register ''h'' 2 ''b'', Unregister ''h'' 1, CloseForToken ''a'' 4003 ''revoked'']))
   = Some (Connected ''h'')"
  by (rule registry_tells_subscribers)
    (simp add: register_def unregister_def closeForToken_def token_hosts_def no_registry_def
      isConnected_def Let_def)

end
