(* ===== verification/Relay.thy ===== *)
theory Relay
  imports Registry Frames
begin

text \<open>
  \<^verbatim>\<open>apps/api/src/terminal/terminal-relay.service.ts\<close>: the relay between browser sockets and the
  agents of the hosts. Its state is the map of connections, each with its map of panes; what it
  does to the outside (frames to an agent, frames to a browser, closing a browser, audit records)
  is the log of the state, oldest first. The outside is an argument: whether a socket accepts a
  write given everything written before, how much a browser socket still has buffered, the time.
\<close>

declare map_of_eq_Some_iff [simp del] Some_eq_map_of_iff [simp del]

section \<open>State\<close>

record pane =
  pn_client :: string
  pn_agent :: string
  pn_kind :: target_kind
  pn_session :: "string option"
  pn_dropped :: nat
  pn_openedAt :: int
  pn_open :: "string \<times> wire_target"
  pn_waiting :: bool

record relay_connection =
  rc_id :: string
  rc_host :: string
  rc_label :: string
  rc_user :: string
  rc_socket :: nat
  rc_bufferBytes :: nat
  rc_panes :: "(string \<times> pane) list"
  rc_grace :: "int option"

datatype relay_effect =
    ToAgent nat client_frame
  | ToBrowser nat server_frame
  | CloseBrowser nat int string
  | CloseAgent nat int string
  | Audit string string string string

record relay =
  rl_conns :: "(string \<times> relay_connection) list"
  rl_graceMs :: int
  rl_attached :: bool
  rl_log :: "relay_effect list"

record surroundings =
  ev_agent_ok :: "nat \<Rightarrow> relay_effect list \<Rightarrow> bool"
  ev_browser_ok :: "nat \<Rightarrow> relay_effect list \<Rightarrow> bool"
  ev_buffered :: "nat \<Rightarrow> nat"
  ev_now :: int

definition new_relay :: relay where
  "new_relay = \<lparr>rl_conns = [], rl_graceMs = 120000, rl_attached = False, rl_log = []\<rparr>"

text \<open>\<open>/^[A-Za-z0-9_-]{1,32}$/\<close>, and \<open>Buffer.byteLength(data, "utf8")\<close> of Latin-1 code units.\<close>

definition client_term_id :: "string \<Rightarrow> bool" where
  "client_term_id t = (1 \<le> length t \<and> length t \<le> 32
     \<and> list_all (\<lambda>c. is_alnum c \<or> c = CHR ''_'' \<or> c = CHR ''-'') t)"

definition byteLength :: "string \<Rightarrow> nat" where
  "byteLength s = sum_list (map (\<lambda>c. if code c < 128 then 1 else 2) s)"

section \<open>Effects\<close>

definition effect :: "relay_effect \<Rightarrow> relay \<Rightarrow> relay" where
  "effect x w = w\<lparr>rl_log := rl_log w @ [x]\<rparr>"

definition write_agent :: "surroundings \<Rightarrow> nat \<Rightarrow> client_frame \<Rightarrow> relay \<Rightarrow> bool \<times> relay" where
  "write_agent e socket frame w =
     (if ev_agent_ok e socket (rl_log w) then (True, effect (ToAgent socket frame) w) else (False, w))"

abbreviation send_host :: "surroundings \<Rightarrow> registry \<Rightarrow> string \<Rightarrow> client_frame \<Rightarrow> relay \<Rightarrow> bool \<times> relay" where
  "send_host e \<equiv> sendToHost (write_agent e)"

text \<open>\<open>send\<close>: a browser socket that throws is logged and ignored.\<close>

definition send_browser :: "surroundings \<Rightarrow> relay_connection \<Rightarrow> server_frame \<Rightarrow> relay \<Rightarrow> relay" where
  "send_browser e c frame w =
     (if ev_browser_ok e (rc_socket c) (rl_log w) then effect (ToBrowser (rc_socket c) frame) w else w)"

definition audit :: "relay_connection \<Rightarrow> pane \<Rightarrow> string \<Rightarrow> string \<Rightarrow> relay \<Rightarrow> relay" where
  "audit c p action outcome w = effect (Audit action (rc_host c) (pn_client p) outcome) w"

definition put_conn :: "relay_connection \<Rightarrow> relay \<Rightarrow> relay" where
  "put_conn c w = w\<lparr>rl_conns := AList.update (rc_id c) c (rl_conns w)\<rparr>"

definition put_pane :: "pane \<Rightarrow> relay_connection \<Rightarrow> relay_connection" where
  "put_pane p c = c\<lparr>rc_panes := AList.update (pn_client p) p (rc_panes c)\<rparr>"

definition drop_pane :: "string \<Rightarrow> relay_connection \<Rightarrow> relay_connection" where
  "drop_pane k c = c\<lparr>rc_panes := AList.delete k (rc_panes c)\<rparr>"

section \<open>Connections\<close>

definition setGracePeriod :: "int \<Rightarrow> relay \<Rightarrow> relay" where
  "setGracePeriod ms w = w\<lparr>rl_graceMs := ms\<rparr>"

definition attach :: "relay \<Rightarrow> relay" where "attach w = w\<lparr>rl_attached := True\<rparr>"

definition detach :: "relay \<Rightarrow> relay" where "detach w = w\<lparr>rl_attached := False\<rparr>"

text \<open>The fresh id is 6 random bytes in hexadecimal, an argument.\<close>

definition openConnection ::
  "string \<Rightarrow> nat \<Rightarrow> string \<Rightarrow> string \<Rightarrow> string \<Rightarrow> nat \<Rightarrow> relay \<Rightarrow> relay" where
  "openConnection cid socket host label user bufferBytes w =
     put_conn \<lparr>rc_id = cid, rc_host = host, rc_label = label, rc_user = user, rc_socket = socket,
       rc_bufferBytes = bufferBytes, rc_panes = [], rc_grace = None\<rparr> w"

definition close_one :: "surroundings \<Rightarrow> registry \<Rightarrow> relay_connection \<Rightarrow> string \<Rightarrow> relay \<Rightarrow> string \<times> pane \<Rightarrow> relay" where
  "close_one e reg c reason w kp =
     audit c (snd kp) ''terminal.close'' reason
       (snd (send_host e reg (rc_host c) (CloseTerm (pn_agent (snd kp))) w))"

definition closeConnection :: "surroundings \<Rightarrow> registry \<Rightarrow> string \<Rightarrow> string \<Rightarrow> relay \<Rightarrow> relay" where
  "closeConnection e reg cid reason w =
     (case map_of (rl_conns w) cid of
        None \<Rightarrow> w
      | Some c \<Rightarrow>
          let w1 = foldl (close_one e reg c reason) w (rc_panes c)
          in w1\<lparr>rl_conns := AList.delete cid (rl_conns w1)\<rparr>)"

definition retryConnection :: "surroundings \<Rightarrow> registry \<Rightarrow> relay_connection \<Rightarrow> relay \<Rightarrow> relay" where
  "retryConnection e reg c w =
     effect (CloseBrowser (rc_socket c) 4001 ''host offline'')
       (closeConnection e reg (rc_id c) ''host-offline'' w)"

datatype closed_by = ByClient | ByAgent

definition closePane :: "relay_connection \<Rightarrow> pane \<Rightarrow> closed_by \<Rightarrow> relay \<Rightarrow> relay" where
  "closePane c p who w =
     audit c p ''terminal.close'' (if who = ByClient then ''closed'' else ''exited'')
       (put_conn (drop_pane (pn_client p) c) w)"

definition giveUp :: "surroundings \<Rightarrow> registry \<Rightarrow> string \<Rightarrow> relay \<Rightarrow> relay" where
  "giveUp e reg cid w =
     (case map_of (rl_conns w) cid of
        None \<Rightarrow> w
      | Some c \<Rightarrow> retryConnection e reg (c\<lparr>rc_grace := None\<rparr>) (put_conn (c\<lparr>rc_grace := None\<rparr>) w))"

section \<open>Frames from the browser\<close>

definition native_unsupported :: "registry \<Rightarrow> string \<Rightarrow> bool" where
  "native_unsupported reg host =
     (let ability = terminalAbility reg host in \<not> ab_native ability \<or> ab_screen ability \<noteq> 1)"

definition agent_term_id :: "relay_connection \<Rightarrow> string \<Rightarrow> string" where
  "agent_term_id c term = rc_id c @ CHR '':'' # term"

definition new_pane :: "surroundings \<Rightarrow> relay_connection \<Rightarrow> string \<Rightarrow> wire_target \<Rightarrow> pane" where
  "new_pane e c term target =
     \<lparr>pn_client = term, pn_agent = agent_term_id c term, pn_kind = t_kind target,
      pn_session = t_session target, pn_dropped = 0, pn_openedAt = ev_now e,
      pn_open = (agent_term_id c term, target), pn_waiting = False\<rparr>"

definition openPane :: "surroundings \<Rightarrow> registry \<Rightarrow> relay_connection \<Rightarrow> string \<Rightarrow> wire_target \<Rightarrow> relay \<Rightarrow> relay" where
  "openPane e reg c term target w =
     (if t_backend target = Some Native \<and> \<not> hasHello reg (rc_host c) then retryConnection e reg c w
      else if t_backend target = Some Native \<and> native_unsupported reg (rc_host c)
      then send_browser e c (ErrorFrame term ''NATIVE_SESSIONS_UNSUPPORTED'') w
      else if map_of (rc_panes c) term \<noteq> None
      then send_browser e c (ErrorFrame term ''terminal already open'') w
      else (case send_host e reg (rc_host c) (Open (agent_term_id c term) target) w of
              (sent, w1) \<Rightarrow>
                if \<not> sent then retryConnection e reg c w1
                else let p = new_pane e c term target
                  in audit c p ''terminal.open'' ''opened'' (put_conn (put_pane p c) w1)))"

definition forward :: "surroundings \<Rightarrow> registry \<Rightarrow> relay_connection \<Rightarrow> client_frame \<Rightarrow> relay \<Rightarrow> relay" where
  "forward e reg c frame w =
     (case send_host e reg (rc_host c) frame w of
        (sent, w1) \<Rightarrow> if sent then w1 else retryConnection e reg c w1)"

fun pane_frame :: "surroundings \<Rightarrow> registry \<Rightarrow> relay_connection \<Rightarrow> pane \<Rightarrow> client_frame \<Rightarrow> relay \<Rightarrow> relay" where
  "pane_frame e reg c p (CloseTerm t) w =
     closePane c p ByClient (snd (send_host e reg (rc_host c) (CloseTerm (pn_agent p)) w))"
| "pane_frame e reg c p frame w =
     (if pn_waiting p then w else forward e reg c (with_term (pn_agent p) frame) w)"

fun client_frame_to :: "surroundings \<Rightarrow> registry \<Rightarrow> relay_connection \<Rightarrow> client_frame \<Rightarrow> relay \<Rightarrow> relay" where
  "client_frame_to e reg c (Open t target) w = openPane e reg c t target w"
| "client_frame_to e reg c frame w =
     (case map_of (rc_panes c) (client_term frame) of
        None \<Rightarrow> send_browser e c (Exit (client_term frame) None)
          (send_browser e c (ErrorFrame (client_term frame) ''unknown terminal'') w)
      | Some p \<Rightarrow> pane_frame e reg c p frame w)"

text \<open>
  The frame comes validated: \<open>Inl\<close> is the validator's message, \<open>Inr\<close> the frame it accepted.
\<close>

definition handleClientFrame ::
  "surroundings \<Rightarrow> registry \<Rightarrow> string \<Rightarrow> string + client_frame \<Rightarrow> relay \<Rightarrow> relay" where
  "handleClientFrame e reg cid parsed w =
     (case map_of (rl_conns w) cid of
        None \<Rightarrow> w
      | Some c \<Rightarrow>
          (case parsed of
             Inl err \<Rightarrow> send_browser e c (ErrorFrame [] (''invalid frame: '' @ err)) w
           | Inr frame \<Rightarrow>
               if \<not> client_term_id (client_term frame)
               then send_browser e c (ErrorFrame (client_term frame) ''invalid termId'') w
               else client_frame_to e reg c frame w))"

section \<open>Frames from the agent\<close>

definition deliverOutput ::
  "surroundings \<Rightarrow> relay_connection \<Rightarrow> pane \<Rightarrow> string \<Rightarrow> int \<Rightarrow> relay \<Rightarrow> relay" where
  "deliverOutput e c p data agentDropped w =
     (let bytes = byteLength data in
      if rc_bufferBytes c < ev_buffered e (rc_socket c) + bytes
      then put_conn (put_pane (p\<lparr>pn_dropped := pn_dropped p + bytes\<rparr>) c) w
      else send_browser e c (Output (pn_client p) data agentDropped)
        (if 0 < pn_dropped p
         then put_conn (put_pane (p\<lparr>pn_dropped := 0\<rparr>) c)
           (send_browser e c (Output (pn_client p) [] (int (pn_dropped p))) w)
         else w))"

text \<open>What a \<open>ready\<close> frame changes in the frame that would open the pane again.\<close>

definition ready_target :: "ready_frame \<Rightarrow> wire_target \<Rightarrow> wire_target" where
  "ready_target r target =
     (let t1 = (if truthy (rd_tmuxId r)
                then target\<lparr>t_backend := Some Tmux, t_tmuxId := rd_tmuxId r\<rparr> else target)
      in if rd_backend r = Some Native \<and> truthy (rd_sessionId r)
         then t1\<lparr>t_backend := Some Native, t_sessionId := rd_sessionId r, t_intent := Some AttachTo,
           t_tmuxId := None\<rparr>
         else t1)"

fun ready_pane :: "server_frame \<Rightarrow> pane \<Rightarrow> pane" where
  "ready_pane (Ready _ r) p = p\<lparr>pn_open := (fst (pn_open p), ready_target r (snd (pn_open p)))\<rparr>"
| "ready_pane _ p = p"

fun over_buffer :: "surroundings \<Rightarrow> relay_connection \<Rightarrow> server_frame \<Rightarrow> bool" where
  "over_buffer e c (Screen _ s) =
     (rc_bufferBytes c < ev_buffered e (rc_socket c) + byteLength (sc_data s))"
| "over_buffer e c _ = False"

fun ends_pane :: "server_frame \<Rightarrow> bool" where
  "ends_pane (Exit _ _) = True"
| "ends_pane (ErrorFrame _ _) = True"
| "ends_pane _ = False"

fun agent_frame_to :: "surroundings \<Rightarrow> registry \<Rightarrow> relay_connection \<Rightarrow> pane \<Rightarrow> server_frame \<Rightarrow> relay \<Rightarrow> relay" where
  "agent_frame_to e reg c p (Output t data dropped) w = deliverOutput e c p data dropped w"
| "agent_frame_to e reg c p frame w =
     (let p1 = ready_pane frame p; c1 = put_pane p1 c; w1 = put_conn c1 w in
      if over_buffer e c1 frame then retryConnection e reg c1 w1
      else let w2 = send_browser e c1 (server_with_term (pn_client p) frame) w1
        in if ends_pane frame then closePane c1 p1 ByAgent w2 else w2)"

definition addressee :: "string \<Rightarrow> server_frame \<Rightarrow> relay \<Rightarrow> (relay_connection \<times> pane) option" where
  "addressee host frame w =
     (let separator = index_of (server_term frame) CHR '':'' in
      if separator \<le> 0 then None
      else case map_of (rl_conns w) (take (nat separator) (server_term frame)) of
        None \<Rightarrow> None
      | Some c \<Rightarrow>
          if rc_host c \<noteq> host then None
          else map_option (Pair c) (map_of (rc_panes c) (drop (nat separator + 1) (server_term frame))))"

definition handleAgentFrame ::
  "surroundings \<Rightarrow> registry \<Rightarrow> string \<Rightarrow> server_frame \<Rightarrow> relay \<Rightarrow> relay" where
  "handleAgentFrame e reg host frame w =
     (case addressee host frame w of
        None \<Rightarrow> w
      | Some (c, p) \<Rightarrow> agent_frame_to e reg c p frame w)"

section \<open>The agent goes and comes back\<close>

definition hold :: "surroundings \<Rightarrow> int \<Rightarrow> relay_connection \<Rightarrow> relay_connection" where
  "hold e graceMs c = c\<lparr>rc_panes := map_values (\<lambda>p. p\<lparr>pn_waiting := True\<rparr>) (rc_panes c),
     rc_grace := Some (ev_now e + graceMs)\<rparr>"

definition handleHostDisconnect :: "surroundings \<Rightarrow> string \<Rightarrow> relay \<Rightarrow> relay" where
  "handleHostDisconnect e host w =
     w\<lparr>rl_conns := map_values (\<lambda>c. if rc_host c = host \<and> rc_panes c \<noteq> []
       then hold e (rl_graceMs w) c else c) (rl_conns w)\<rparr>"

text \<open>
  One waiting pane. The result says whether the loop goes on: a send that fails starts the grace
  timer again and leaves the whole handler.
\<close>

definition reopen_sent ::
  "surroundings \<Rightarrow> registry \<Rightarrow> relay_connection \<Rightarrow> pane \<Rightarrow> relay \<Rightarrow> bool \<times> relay" where
  "reopen_sent e reg c p w =
     (case send_host e reg (rc_host c) (Open (fst (pn_open p)) (snd (pn_open p))) w of
        (sent, w1) \<Rightarrow>
          if \<not> sent then (False, put_conn (c\<lparr>rc_grace := Some (ev_now e + rl_graceMs w1)\<rparr>) w1)
          else (True, audit c p ''terminal.open'' ''agent-reattached''
            (put_conn (put_pane (p\<lparr>pn_waiting := False\<rparr>) c) w1)))"

definition reopen_pane ::
  "surroundings \<Rightarrow> registry \<Rightarrow> string \<Rightarrow> string \<Rightarrow> pane \<Rightarrow> relay \<Rightarrow> bool \<times> relay" where
  "reopen_pane e reg host cid p w =
     (case map_of (rl_conns w) cid of
        None \<Rightarrow> (True, w)
      | Some c \<Rightarrow>
          if t_backend (snd (pn_open p)) = Some Native \<and> \<not> hasHello reg host then (True, w)
          else if t_backend (snd (pn_open p)) = Some Native \<and> native_unsupported reg host
          then (True, closePane c p ByAgent
            (send_browser e c (ErrorFrame (pn_client p) ''NATIVE_SESSIONS_UNSUPPORTED'') w))
          else reopen_sent e reg c p w)"

text \<open>A loop that may be left early: the first component of the state says whether it goes on.\<close>

fun loop :: "('x \<Rightarrow> 'w \<Rightarrow> bool \<times> 'w) \<Rightarrow> 'x list \<Rightarrow> 'w \<Rightarrow> bool \<times> 'w" where
  "loop f [] w = (True, w)"
| "loop f (x # xs) w = (case f x w of (go_on, w1) \<Rightarrow> if go_on then loop f xs w1 else (False, w1))"

definition waiting_panes :: "relay_connection \<Rightarrow> pane list" where
  "waiting_panes c = filter pn_waiting (map snd (rc_panes c))"

definition reopen_connection ::
  "surroundings \<Rightarrow> registry \<Rightarrow> string \<Rightarrow> relay_connection \<Rightarrow> relay \<Rightarrow> bool \<times> relay" where
  "reopen_connection e reg host c w =
     (if rc_host c \<noteq> host \<or> waiting_panes c = [] then (True, w)
      else loop (reopen_pane e reg host (rc_id c)) (waiting_panes c)
        (put_conn (c\<lparr>rc_grace := None\<rparr>) w))"

definition handleHostConnect :: "surroundings \<Rightarrow> registry \<Rightarrow> string \<Rightarrow> relay \<Rightarrow> relay" where
  "handleHostConnect e reg host w =
     snd (loop (reopen_connection e reg host) (map snd (rl_conns w)) w)"

section \<open>The relay as a subscriber of the registry\<close>

definition relay_handler :: "surroundings \<Rightarrow> registry \<Rightarrow> registry_event \<Rightarrow> relay \<Rightarrow> relay" where
  "relay_handler e reg ev w =
     (if \<not> rl_attached w then w
      else case ev of
        Disconnected host _ \<Rightarrow> handleHostDisconnect e host w
      | Connected host \<Rightarrow> handleHostConnect e reg host w)"

definition relay_hub :: "surroundings \<Rightarrow> relay hub" where
  "relay_hub e = \<lparr>hub_close = \<lambda>socket status reason w. effect (CloseAgent socket status reason) w,
     hub_handlers = [relay_handler e]\<rparr>"

definition emitTerminalFrame :: "surroundings \<Rightarrow> registry \<Rightarrow> string \<Rightarrow> server_frame \<Rightarrow> relay \<Rightarrow> relay" where
  "emitTerminalFrame e reg host frame w =
     (if rl_attached w then handleAgentFrame e reg host frame w else w)"

definition paneCount :: "relay \<Rightarrow> string \<Rightarrow> nat" where
  "paneCount w cid = (case map_of (rl_conns w) cid of Some c \<Rightarrow> length (rc_panes c) | None \<Rightarrow> 0)"

definition connectionCount :: "relay \<Rightarrow> nat" where
  "connectionCount w = length (rl_conns w)"

text \<open>The whole system: the registry and the relay, one event at a time.\<close>

datatype relay_event =
    Attach
  | Detach
  | BrowserOpens string nat string string string nat
  | BrowserFrame string "string + client_frame"
  | BrowserGone string string
  | GraceOver string
  | Agents registry_op
  | AgentFrame string server_frame

text \<open>A fresh connection id: hexadecimal digits.\<close>

definition hex_id :: "string \<Rightarrow> bool" where
  "hex_id cid = (cid \<noteq> [] \<and> list_all is_hex cid)"

fun relay_step :: "registry \<times> relay \<Rightarrow> surroundings \<times> relay_event \<Rightarrow> registry \<times> relay" where
  "relay_step (reg, w) (e, Attach) = (reg, attach w)"
| "relay_step (reg, w) (e, Detach) = (reg, detach w)"
| "relay_step (reg, w) (e, BrowserOpens cid socket host label user bytes) =
     (reg, if hex_id cid then openConnection cid socket host label user bytes w else w)"
| "relay_step (reg, w) (e, BrowserFrame cid parsed) = (reg, handleClientFrame e reg cid parsed w)"
| "relay_step (reg, w) (e, BrowserGone cid reason) = (reg, closeConnection e reg cid reason w)"
| "relay_step (reg, w) (e, GraceOver cid) =
     (reg, case map_of (rl_conns w) cid of
        Some c \<Rightarrow> (case rc_grace c of
          Some t \<Rightarrow> if t \<le> ev_now e then giveUp e reg cid w else w | None \<Rightarrow> w)
      | None \<Rightarrow> w)"
| "relay_step (reg, w) (e, Agents op) = registry_step (relay_hub e) (reg, w) op"
| "relay_step (reg, w) (e, AgentFrame host frame) = (reg, emitTerminalFrame e reg host frame w)"

section \<open>Well-formed relays\<close>

definition pane_ok :: "relay_connection \<Rightarrow> string \<Rightarrow> pane \<Rightarrow> bool" where
  "pane_ok c k p = (pn_client p = k \<and> client_term_id k \<and> pn_agent p = agent_term_id c k
     \<and> fst (pn_open p) = pn_agent p)"

definition conn_ok :: "relay_connection \<Rightarrow> bool" where
  "conn_ok c = (distinct (map fst (rc_panes c)) \<and>
     (\<forall>k p. map_of (rc_panes c) k = Some p \<longrightarrow> pane_ok c k p))"

definition relay_ok :: "relay \<Rightarrow> bool" where
  "relay_ok w = (distinct (map fst (rl_conns w)) \<and>
     (\<forall>cid c. map_of (rl_conns w) cid = Some c \<longrightarrow> rc_id c = cid \<and> hex_id cid \<and> conn_ok c))"

lemma effect_simps [simp]:
  "rl_conns (effect x w) = rl_conns w" "rl_log (effect x w) = rl_log w @ [x]"
  "rl_graceMs (effect x w) = rl_graceMs w" "rl_attached (effect x w) = rl_attached w"
  by (simp_all add: effect_def)

lemma put_conn_simps [simp]:
  "rl_conns (put_conn c w) = AList.update (rc_id c) c (rl_conns w)" "rl_log (put_conn c w) = rl_log w"
  "rl_graceMs (put_conn c w) = rl_graceMs w" "rl_attached (put_conn c w) = rl_attached w"
  by (simp_all add: put_conn_def)

lemma put_pane_simps [simp]:
  "rc_id (put_pane p c) = rc_id c" "rc_host (put_pane p c) = rc_host c" "rc_socket (put_pane p c) = rc_socket c"
  "rc_panes (put_pane p c) = AList.update (pn_client p) p (rc_panes c)" "rc_bufferBytes (put_pane p c) = rc_bufferBytes c"
  "rc_grace (put_pane p c) = rc_grace c"
  by (simp_all add: put_pane_def)

lemma drop_pane_simps [simp]:
  "rc_id (drop_pane k c) = rc_id c" "rc_host (drop_pane k c) = rc_host c" "rc_socket (drop_pane k c) = rc_socket c"
  "rc_panes (drop_pane k c) = AList.delete k (rc_panes c)" "rc_grace (drop_pane k c) = rc_grace c"
  by (simp_all add: drop_pane_def)

lemma send_browser_conns [simp]: "rl_conns (send_browser e c f w) = rl_conns w"
  "rl_graceMs (send_browser e c f w) = rl_graceMs w" "rl_attached (send_browser e c f w) = rl_attached w"
  by (simp_all add: send_browser_def)

lemma audit_simps [simp]: "rl_conns (audit c p a r w) = rl_conns w" "rl_graceMs (audit c p a r w) = rl_graceMs w"
  "rl_attached (audit c p a r w) = rl_attached w"
  by (simp_all add: audit_def)

lemma send_host_conns [simp]: "rl_conns (snd (send_host e reg h f w)) = rl_conns w"
  "rl_graceMs (snd (send_host e reg h f w)) = rl_graceMs w" "rl_attached (snd (send_host e reg h f w)) = rl_attached w"
  by (simp_all add: sendToHost_def write_agent_def split: option.splits)

lemma send_host_cases:
  obtains w1 where "send_host e reg h f w = (False, w1)" "w1 = w"
  | w1 s where "send_host e reg h f w = (True, w1)" "w1 = effect (ToAgent s f) w"
      "map_option k_socket (map_of (r_conns reg) h) = Some s"
proof (cases "map_of (r_conns reg) h")
  case None
  then show ?thesis using that(1) by (simp add: sendToHost_def)
next
  case (Some c)
  then show ?thesis using that
    by (cases "ev_agent_ok e (k_socket c) (rl_log w)") (simp_all add: sendToHost_def write_agent_def)
qed

lemma relay_ok_effect [simp]: "relay_ok (effect x w) = relay_ok w"
  by (simp add: relay_ok_def)

lemma relay_ok_send_browser [simp]: "relay_ok (send_browser e c f w) = relay_ok w"
  by (simp add: relay_ok_def)

lemma relay_ok_audit [simp]: "relay_ok (audit c p a r w) = relay_ok w"
  by (simp add: relay_ok_def)

lemma relay_ok_send_host [simp]: "relay_ok (snd (send_host e reg h f w)) = relay_ok w"
  by (simp add: relay_ok_def)

lemma relay_okD:
  "relay_ok w \<Longrightarrow> map_of (rl_conns w) cid = Some c \<Longrightarrow> rc_id c = cid \<and> hex_id cid \<and> conn_ok c"
  by (simp add: relay_ok_def)

lemma relay_ok_distinct: "relay_ok w \<Longrightarrow> distinct (map fst (rl_conns w))"
  by (simp add: relay_ok_def)

lemma relay_ok_mem:
  "relay_ok w \<Longrightarrow> (k, c) \<in> set (rl_conns w) \<Longrightarrow> rc_id c = k \<and> hex_id k \<and> conn_ok c"
  by (rule relay_okD [OF _ map_of_is_SomeI [OF relay_ok_distinct]])

lemma relay_ok_put_conn: "relay_ok w \<Longrightarrow> hex_id (rc_id c) \<Longrightarrow> conn_ok c \<Longrightarrow> relay_ok (put_conn c w)"
  by (simp add: relay_ok_def)

lemma conn_ok_put_pane: "conn_ok c \<Longrightarrow> pane_ok c (pn_client p) p \<Longrightarrow> conn_ok (put_pane p c)"
  by (simp add: conn_ok_def pane_ok_def agent_term_id_def)

lemma conn_ok_drop_pane: "conn_ok c \<Longrightarrow> conn_ok (drop_pane k c)"
  by (simp add: conn_ok_def pane_ok_def agent_term_id_def)

lemma conn_ok_grace [simp]: "conn_ok (c\<lparr>rc_grace := g\<rparr>) = conn_ok c"
  by (simp add: conn_ok_def pane_ok_def agent_term_id_def)

lemma conn_okD: "conn_ok c \<Longrightarrow> map_of (rc_panes c) k = Some p \<Longrightarrow> pane_ok c k p"
  by (simp add: conn_ok_def)

lemma conn_ok_mem: "conn_ok c \<Longrightarrow> (k, p) \<in> set (rc_panes c) \<Longrightarrow> pane_ok c k p"
proof -
  assume ok: "conn_ok c" and m: "(k, p) \<in> set (rc_panes c)"
  from ok have "distinct (map fst (rc_panes c))" by (simp add: conn_ok_def)
  then show ?thesis using map_of_is_SomeI m conn_okD ok by metis
qed

lemma pane_ok_update [simp]:
  "pane_ok c k (p\<lparr>pn_waiting := b\<rparr>) = pane_ok c k p" "pane_ok c k (p\<lparr>pn_dropped := n\<rparr>) = pane_ok c k p"
  by (simp_all add: pane_ok_def)

lemma pane_ok_client: "pane_ok c k p \<Longrightarrow> pn_client p = k"
  by (simp add: pane_ok_def)

lemma pane_ok_ready: "pane_ok c k p \<Longrightarrow> pane_ok c k (ready_pane f p) \<and> pn_client (ready_pane f p) = pn_client p"
  by (cases f) (simp_all add: pane_ok_def)

section \<open>What an operation on one connection may touch\<close>

text \<open>A connection keeps its id, its host and its socket for life.\<close>

type_synonym owner = "string \<times> string \<times> nat"

definition owner :: "relay_connection \<Rightarrow> owner" where
  "owner c = (rc_id c, rc_host c, rc_socket c)"

lemma owner_simps [simp]: "owner (put_pane p c) = owner c" "owner (drop_pane k c) = owner c"
  "owner (c\<lparr>rc_grace := g\<rparr>) = owner c"
  by (simp_all add: owner_def)

fun effect_of :: "registry \<Rightarrow> owner \<Rightarrow> relay_effect \<Rightarrow> bool" where
  "effect_of reg (cid, host, socket) (ToAgent s f) =
     (map_option k_socket (map_of (r_conns reg) host) = Some s \<and> starts_with (client_term f) (cid @ '':''))"
| "effect_of reg (cid, host, socket) (ToBrowser s f) = (s = socket)"
| "effect_of reg (cid, host, socket) (CloseBrowser s _ _) = (s = socket)"
| "effect_of reg (cid, host, socket) (CloseAgent _ _ _) = False"
| "effect_of reg (cid, host, socket) (Audit _ h _ _) = (h = host)"

definition confined :: "registry \<Rightarrow> owner \<Rightarrow> relay \<Rightarrow> relay \<Rightarrow> bool" where
  "confined reg own w w' =
     ((\<exists>xs. rl_log w' = rl_log w @ xs \<and> list_all (effect_of reg own) xs)
      \<and> (\<forall>k. k \<noteq> fst own \<longrightarrow> map_of (rl_conns w') k = map_of (rl_conns w) k))"

interpretation confinement: frame_rule "confined reg own" for reg own
proof
  fix s t u
  show "confined reg own s s" by (simp add: confined_def)
  assume "confined reg own s t" and "confined reg own t u"
  then show "confined reg own s u" unfolding confined_def by (metis append_assoc list_all_append)
qed

lemmas confined_trans = confinement.ok_trans
lemmas confined_refl [simp] = confinement.ok_refl

lemma confined_effect: "confined reg own w v \<Longrightarrow> effect_of reg own x \<Longrightarrow> confined reg own w (effect x v)"
  unfolding confined_def by (auto intro: exI [of _ "_ @ [x]"])

lemma confined_put_conn: "confined reg own w v \<Longrightarrow> rc_id c = fst own \<Longrightarrow> confined reg own w (put_conn c v)"
  unfolding confined_def by auto

lemma confined_send_browser:
  "confined reg own w v \<Longrightarrow> owner c = own \<Longrightarrow> confined reg own w (send_browser e c f v)"
  by (auto simp: send_browser_def owner_def intro!: confined_effect)

lemma confined_audit: "confined reg own w v \<Longrightarrow> owner c = own \<Longrightarrow> confined reg own w (audit c p a r v)"
  by (auto simp: audit_def owner_def intro!: confined_effect)

lemma confined_send_host:
  assumes "confined reg own w v" and "owner c = own" and "starts_with (client_term f) (rc_id c @ '':'')"
  shows "confined reg own w (snd (send_host e reg (rc_host c) f v))"
proof (rule send_host_cases [of e reg "rc_host c" f v])
  fix v1 s assume "send_host e reg (rc_host c) f v = (True, v1)" "v1 = effect (ToAgent s f) v"
    "map_option k_socket (map_of (r_conns reg) (rc_host c)) = Some s"
  with assms show ?thesis by (auto simp: owner_def intro!: confined_effect)
qed (use assms in auto)

lemmas confined_steps = confined_audit confined_send_browser confined_put_conn

lemma agent_term_prefix [simp]: "starts_with (agent_term_id c k) (rc_id c @ '':'')"
  using starts_with_append [of "rc_id c @ '':''" k] by (simp add: agent_term_id_def)

lemma closeConnection_ok: "relay_ok w \<Longrightarrow> relay_ok (closeConnection e reg cid r w)"
proof -
  assume ok: "relay_ok w"
  have "rl_conns (foldl (close_one e reg c r) w ps) = rl_conns w" for c ps
    by (induction ps arbitrary: w) (simp_all add: close_one_def)
  with ok show ?thesis
    by (auto simp: closeConnection_def Let_def relay_ok_def split: option.splits if_splits)
qed

lemma closeConnection_confined:
  assumes ok: "relay_ok w" and own: "\<forall>c. map_of (rl_conns w) cid = Some c \<longrightarrow> owner c = own" and "fst own = cid"
  shows "confined reg own w (closeConnection e reg cid r w)"
proof (cases "map_of (rl_conns w) cid")
  case (Some c)
  with ok own have c: "conn_ok c" "owner c = own" by (auto dest: relay_okD)
  have "confined reg own w (foldl (close_one e reg c r) w (rc_panes c))"
  proof (rule confinement.ok_foldl)
    fix v kp assume "kp \<in> set (rc_panes c)"
    then have "pane_ok c (fst kp) (snd kp)" using conn_ok_mem [OF c(1)] by simp
    then have "pn_agent (snd kp) = agent_term_id c (fst kp)" by (simp add: pane_ok_def)
    then have "starts_with (client_term (CloseTerm (pn_agent (snd kp)))) (rc_id c @ '':'')" by simp
    then show "confined reg own v (close_one e reg c r v kp)"
      unfolding close_one_def by (intro confined_audit confined_send_host c(2) confined_refl)
  qed
  with Some assms(3) show ?thesis
    by (auto simp: closeConnection_def Let_def confined_def)
qed (simp add: closeConnection_def)

lemma retryConnection_ok: "relay_ok w \<Longrightarrow> relay_ok (retryConnection e reg c w)"
  by (simp add: retryConnection_def closeConnection_ok)

lemma retryConnection_confined:
  assumes "confined reg own w v" and "relay_ok v" and "owner c = own"
    and "\<forall>d. map_of (rl_conns v) (rc_id c) = Some d \<longrightarrow> owner d = own"
  shows "confined reg own w (retryConnection e reg c v)"
proof -
  have "confined reg own v (closeConnection e reg (rc_id c) ''host-offline'' v)"
    using assms by (intro closeConnection_confined) (auto simp: owner_def)
  with assms show ?thesis
    by (auto simp: retryConnection_def owner_def intro!: confined_effect elim: confined_trans)
qed

end
