(* ===== verification/RelaySafety.thy ===== *)
theory RelaySafety
  imports Relay
begin

text \<open>
  What the relay keeps and what it may touch: the invariant of its connections and panes over any
  run of the whole system, and the confinement of every frame to the connection that owns it.
\<close>

section \<open>One handler at a time\<close>

text \<open>A handler that works for one connection: the relay stays well formed and only that connection
  and the sockets it belongs to are touched.\<close>

definition serves :: "registry \<Rightarrow> owner \<Rightarrow> relay \<Rightarrow> relay \<Rightarrow> bool" where
  "serves reg own w w' = (relay_ok w' \<and> confined reg own w w')"

lemma servesI: "relay_ok w' \<Longrightarrow> confined reg own w w' \<Longrightarrow> serves reg own w w'"
  by (simp add: serves_def)

lemma serves_refl: "relay_ok w \<Longrightarrow> serves reg own w w"
  by (simp add: serves_def)

lemma serves_send_browser: "serves reg own w v \<Longrightarrow> owner c = own \<Longrightarrow> serves reg own w (send_browser e c f v)"
  by (simp add: serves_def confined_send_browser)

lemma serves_audit: "serves reg own w v \<Longrightarrow> owner c = own \<Longrightarrow> serves reg own w (audit c p a r v)"
  by (simp add: serves_def confined_audit)

lemma owner_fst: "owner c = own \<Longrightarrow> rc_id c = fst own"
  by (auto simp: owner_def)

lemma serves_put_conn:
  "serves reg own w v \<Longrightarrow> owner c = own \<Longrightarrow> hex_id (rc_id c) \<Longrightarrow> conn_ok c \<Longrightarrow> serves reg own w (put_conn c v)"
  by (simp add: serves_def relay_ok_put_conn confined_put_conn owner_fst)

lemma serves_send_host:
  "serves reg own w v \<Longrightarrow> owner c = own \<Longrightarrow> starts_with (client_term f) (rc_id c @ '':'')
   \<Longrightarrow> serves reg own w (snd (send_host e reg (rc_host c) f v))"
  by (simp add: serves_def confined_send_host)

lemma serves_retry:
  "serves reg own w v \<Longrightarrow> owner c = own
   \<Longrightarrow> (\<And>d. map_of (rl_conns v) (rc_id c) = Some d \<Longrightarrow> owner d = own)
   \<Longrightarrow> serves reg own w (retryConnection e reg c v)"
  by (simp add: serves_def retryConnection_ok retryConnection_confined)

lemmas serves_intros = serves_send_browser serves_audit serves_put_conn serves_send_host serves_retry serves_refl

lemma send_host_sent: "snd (send_host e reg h f w) = v \<Longrightarrow> rl_conns v = rl_conns w"
  using send_host_conns(1) by blast

lemma serves_openPane:
  assumes ok: "relay_ok w" and c: "map_of (rl_conns w) cid = Some c" and t: "client_term_id term"
  shows "serves reg (owner c) w (openPane e reg c term target w)"
proof -
  have id: "rc_id c = cid" "hex_id cid" "conn_ok c" using relay_okD [OF ok c] by simp_all
  have own: "owner d = owner c" if "map_of (rl_conns w) (rc_id c) = Some d" for d
    using that c id by simp
  obtain sent v where v: "send_host e reg (rc_host c) (Open (agent_term_id c term) target) w = (sent, v)"
    by fastforce
  have s: "serves reg (owner c) w v"
    using serves_send_host [OF serves_refl [OF ok], of c "owner c" "Open (agent_term_id c term) target" reg e] v by simp
  have vc: "rl_conns v = rl_conns w" using send_host_sent [of e reg "rc_host c"] v by (metis snd_conv)
  have "pane_ok c term (new_pane e c term target)" "pn_client (new_pane e c term target) = term"
    using t by (simp_all add: pane_ok_def new_pane_def)
  then have pane: "conn_ok (put_pane (new_pane e c term target) c)"
    using id(3) by (simp add: conn_ok_put_pane)
  have "serves reg (owner c) w (retryConnection e reg c w)" using ok own by (intro serves_intros) auto
  moreover have "serves reg (owner c) w (retryConnection e reg c v)"
    using s own vc by (intro serves_intros) auto
  moreover have "serves reg (owner c) w (audit c p a r (put_conn (put_pane (new_pane e c term target) c) v))" for p a r
    using s pane id by (intro serves_intros) auto
  moreover have "serves reg (owner c) w (send_browser e c f w)" for f using ok by (intro serves_intros) auto
  ultimately show ?thesis unfolding openPane_def v by (simp add: Let_def)
qed

lemma serves_closePane:
  assumes "serves reg (owner c) w v" and "hex_id (rc_id c)" and "conn_ok c"
  shows "serves reg (owner c) w (closePane c p b v)"
  unfolding closePane_def using assms by (intro serves_intros conn_ok_drop_pane) simp_all

lemma serves_forward:
  assumes ok: "relay_ok w" and c: "map_of (rl_conns w) cid = Some c"
    and t: "starts_with (client_term f) (rc_id c @ '':'')"
  shows "serves reg (owner c) w (forward e reg c f w)"
proof -
  obtain sent v where v: "send_host e reg (rc_host c) f w = (sent, v)" by fastforce
  have s: "serves reg (owner c) w v"
    using serves_send_host [OF serves_refl [OF ok] refl t, of reg e] v by simp
  have vc: "rl_conns v = rl_conns w" using send_host_sent [of e reg "rc_host c"] v by (metis snd_conv)
  have "serves reg (owner c) w (retryConnection e reg c v)"
    using s c vc relay_okD [OF ok c] by (intro serves_intros) auto
  with s v show ?thesis by (simp add: forward_def)
qed

lemma serves_pane_frame:
  assumes ok: "relay_ok w" and c: "map_of (rl_conns w) cid = Some c" and p: "map_of (rc_panes c) k = Some p"
  shows "serves reg (owner c) w (pane_frame e reg c p f w)"
proof -
  have id: "rc_id c = cid" "hex_id cid" "conn_ok c" using relay_okD [OF ok c] by simp_all
  have a: "pn_agent p = agent_term_id c k" using conn_okD [OF id(3) p] by (simp add: pane_ok_def)
  have fwd: "serves reg (owner c) w (forward e reg c (with_term (pn_agent p) g) w)" for g
    using ok c by (rule serves_forward) (simp add: a)
  show ?thesis
  proof (cases f)
    case (CloseTerm t)
    have "serves reg (owner c) w (snd (send_host e reg (rc_host c) (CloseTerm (pn_agent p)) w))"
      using serves_send_host [OF serves_refl [OF ok], of c "owner c" "CloseTerm (pn_agent p)"] by (simp add: a)
    with CloseTerm id show ?thesis by (simp add: serves_closePane)
  qed (auto simp del: with_term.simps intro: fwd serves_refl [OF ok])
qed

lemma serves_client_frame_to:
  assumes ok: "relay_ok w" and c: "map_of (rl_conns w) cid = Some c" and t: "client_term_id (client_term f)"
  shows "serves reg (owner c) w (client_frame_to e reg c f w)"
proof -
  have unknown: "serves reg (owner c) w (send_browser e c g (send_browser e c h w))" for g h
    using ok by (intro serves_intros) auto
  show ?thesis
  proof (cases f)
    case (Open tm target)
    with t serves_openPane [OF ok c] show ?thesis by simp
  qed (use unknown serves_pane_frame [OF ok c] in \<open>auto simp del: pane_frame.simps split: option.split\<close>)
qed

lemma serves_handleClientFrame:
  assumes ok: "relay_ok w" and c: "map_of (rl_conns w) cid = Some c"
  shows "serves reg (owner c) w (handleClientFrame e reg cid parsed w)"
proof -
  have "serves reg (owner c) w (send_browser e c g w)" for g using ok by (intro serves_intros) auto
  with c serves_client_frame_to [OF ok c] show ?thesis
    by (auto simp: handleClientFrame_def split: sum.split)
qed

lemma handleClientFrame_unknown: "map_of (rl_conns w) cid = None \<Longrightarrow> handleClientFrame e reg cid parsed w = w"
  by (simp add: handleClientFrame_def)

lemma serves_deliverOutput:
  assumes ok: "relay_ok w" and c: "map_of (rl_conns w) cid = Some c" and p: "map_of (rc_panes c) k = Some p"
  shows "serves reg (owner c) w (deliverOutput e c p d n w)"
proof -
  have id: "rc_id c = cid" "hex_id cid" "conn_ok c" using relay_okD [OF ok c] by simp_all
  have pk: "pane_ok c k p" "pn_client p = k" using conn_okD [OF id(3) p] pane_ok_client by auto
  then have upd: "conn_ok (put_pane (p\<lparr>pn_dropped := m\<rparr>) c)" for m
    using id(3) by (simp add: conn_ok_put_pane)
  have "serves reg (owner c) w (put_conn (put_pane (p\<lparr>pn_dropped := m\<rparr>) c) w)" for m
    using ok upd id by (intro serves_intros) auto
  moreover have "serves reg (owner c) w (send_browser e c f (put_conn (put_pane (p\<lparr>pn_dropped := 0\<rparr>) c) (send_browser e c g w)))" for f g
    using ok upd id by (intro serves_intros) auto
  moreover have "serves reg (owner c) w (send_browser e c f w)" for f using ok by (intro serves_intros) auto
  ultimately show ?thesis by (simp add: deliverOutput_def Let_def)
qed

lemma serves_agent_frame_to:
  assumes ok: "relay_ok w" and c: "map_of (rl_conns w) cid = Some c" and p: "map_of (rc_panes c) k = Some p"
  shows "serves reg (owner c) w (agent_frame_to e reg c p f w)"
proof -
  have id: "rc_id c = cid" "hex_id cid" "conn_ok c" using relay_okD [OF ok c] by simp_all
  let ?p = "ready_pane f p" let ?c = "put_pane ?p c" let ?w = "put_conn ?c w"
  have pk: "pane_ok c k ?p" using pane_ok_ready [OF conn_okD [OF id(3) p]] by simp
  then have "pn_client ?p = k" by (rule pane_ok_client)
  with pk have co: "conn_ok ?c" using id(3) by (simp add: conn_ok_put_pane)
  have s: "serves reg (owner ?c) w ?w"
    by (rule serves_put_conn [OF serves_refl [OF ok] refl]) (use co id in simp_all)
  have "serves reg (owner ?c) w (retryConnection e reg ?c ?w)"
    using s by (rule serves_retry) auto
  moreover have "serves reg (owner ?c) w (send_browser e ?c g ?w)" for g
    using s refl by (rule serves_send_browser)
  moreover have "serves reg (owner ?c) w (closePane ?c ?p ByAgent (send_browser e ?c g ?w))" for g
    using calculation(2) id co by (intro serves_closePane) auto
  ultimately show ?thesis using serves_deliverOutput [OF ok c p]
    by (cases f) (simp_all add: Let_def)
qed

lemma addresseeD:
  assumes "addressee host f w = Some (c, p)" and "relay_ok w"
  shows "map_of (rl_conns w) (rc_id c) = Some c \<and> rc_host c = host
    \<and> (\<exists>k. server_term f = agent_term_id c k \<and> map_of (rc_panes c) k = Some p)"
proof -
  let ?t = "server_term f" let ?n = "nat (index_of ?t CHR '':'')"
  have pos: "0 < index_of ?t CHR '':''"
    and c: "map_of (rl_conns w) (take ?n ?t) = Some c" "rc_host c = host" "map_of (rc_panes c) (drop (?n + 1) ?t) = Some p"
    using assms(1) by (auto simp: addressee_def Let_def nat_add_distrib split: if_splits option.splits)
  have "rc_id c = take ?n ?t" using relay_okD [OF assms(2) c(1)] by simp
  moreover have "?n < length ?t \<and> ?t ! ?n = CHR '':''"
    using find_index_nonneg [of "\<lambda>d. d = CHR '':''" ?t] pos by (simp add: index_of_def)
  then have "?t = take ?n ?t @ CHR '':'' # drop (?n + 1) ?t" using id_take_nth_drop [of ?n ?t] by simp
  ultimately have "?t = agent_term_id c (drop (?n + 1) ?t)" by (simp add: agent_term_id_def)
  with c \<open>rc_id c = take ?n ?t\<close> show ?thesis by auto
qed

lemma serves_handleAgentFrame:
  assumes ok: "relay_ok w" and a: "addressee host f w = Some (c, p)"
  shows "serves reg (owner c) w (handleAgentFrame e reg host f w)"
  using serves_agent_frame_to [OF ok] addresseeD [OF a ok] a by (auto simp: handleAgentFrame_def)

section \<open>Disconnection and reconnection\<close>

lemma loop_inv:
  assumes "\<And>x w. x \<in> set xs \<Longrightarrow> P w \<Longrightarrow> P (snd (f x w))" and "P w"
  shows "P (snd (loop f xs w))"
  using assms
proof (induction xs arbitrary: w)
  case (Cons x xs)
  obtain b v where fx: "f x w = (b, v)" by fastforce
  have v: "P v" using Cons.prems(1) [of x w] Cons.prems(2) fx by simp
  have "P (snd (loop f xs v))"
    by (rule Cons.IH) (use Cons.prems(1) v in simp_all)
  with fx v show ?case by simp
qed simp

lemma pane_ok_same_id: "rc_id c = rc_id d \<Longrightarrow> pane_ok c k p = pane_ok d k p"
  by (simp add: pane_ok_def agent_term_id_def)

lemma conn_ok_waiting: "conn_ok c \<Longrightarrow> p \<in> set (waiting_panes c) \<Longrightarrow> pane_ok c (pn_client p) p"
proof -
  assume ok: "conn_ok c" and "p \<in> set (waiting_panes c)"
  then obtain k where "(k, p) \<in> set (rc_panes c)" by (auto simp: waiting_panes_def)
  then have k: "pane_ok c k p" using conn_ok_mem [OF ok] by simp
  with pane_ok_client [OF k] show ?thesis by simp
qed

lemma relay_ok_reopen_sent:
  assumes "relay_ok w" and "map_of (rl_conns w) cid = Some c" and "pane_ok c (pn_client p) p"
  shows "relay_ok (snd (reopen_sent e reg c p w))"
proof -
  have id: "rc_id c = cid" "hex_id cid" "conn_ok c" using relay_okD [OF assms(1,2)] by simp_all
  obtain sent v where v: "send_host e reg (rc_host c) (Open (fst (pn_open p)) (snd (pn_open p))) w = (sent, v)"
    by fastforce
  then have "relay_ok v" using relay_ok_send_host [of e reg "rc_host c" "Open (fst (pn_open p)) (snd (pn_open p))" w] assms(1) by simp
  with id assms(3) show ?thesis unfolding reopen_sent_def v
    by (simp add: relay_ok_put_conn conn_ok_put_pane)
qed

lemma relay_ok_reopen_pane:
  assumes "relay_ok w" and "\<And>c. rc_id c = cid \<Longrightarrow> pane_ok c (pn_client p) p"
  shows "relay_ok (snd (reopen_pane e reg host cid p w))"
proof (cases "map_of (rl_conns w) cid")
  case (Some c)
  have id: "rc_id c = cid" "hex_id cid" "conn_ok c" using relay_okD [OF assms(1) Some] by simp_all
  then have "relay_ok (closePane c p ByAgent (send_browser e c f w))" for f
    using assms(1) by (simp add: closePane_def relay_ok_put_conn conn_ok_drop_pane)
  with Some relay_ok_reopen_sent [OF assms(1) Some] assms(2) id(1) show ?thesis
    by (simp add: reopen_pane_def assms(1))
qed (simp add: reopen_pane_def assms(1))

lemma relay_ok_reopen_connection:
  assumes "relay_ok w" and "hex_id (rc_id c)" and "conn_ok c"
  shows "relay_ok (snd (reopen_connection e reg host c w))"
proof -
  have "relay_ok (snd (loop (reopen_pane e reg host (rc_id c)) (waiting_panes c) (put_conn (c\<lparr>rc_grace := None\<rparr>) w)))"
  proof (rule loop_inv)
    show "relay_ok (put_conn (c\<lparr>rc_grace := None\<rparr>) w)" using assms by (simp add: relay_ok_put_conn)
    fix p v assume "p \<in> set (waiting_panes c)" "relay_ok v"
    then have p: "pane_ok c (pn_client p) p" and v: "relay_ok v" using conn_ok_waiting [OF assms(3)] by simp_all
    show "relay_ok (snd (reopen_pane e reg host (rc_id c) p v))"
      by (rule relay_ok_reopen_pane [OF v]) (use p pane_ok_same_id in blast)
  qed
  then show ?thesis using assms(1) by (simp add: reopen_connection_def)
qed

lemma relay_ok_handleHostConnect:
  assumes "relay_ok w"
  shows "relay_ok (handleHostConnect e reg host w)"
  unfolding handleHostConnect_def
proof (rule loop_inv)
  fix c v assume "c \<in> set (map snd (rl_conns w))" "relay_ok v"
  then show "relay_ok (snd (reopen_connection e reg host c v))"
    using relay_ok_mem [OF assms] by (auto intro: relay_ok_reopen_connection)
qed (rule assms)

lemma conn_ok_hold: "conn_ok c \<Longrightarrow> conn_ok (hold e ms c)"
  by (auto simp: conn_ok_def hold_def pane_ok_def agent_term_id_def)

lemma hold_id [simp]: "rc_id (hold e ms c) = rc_id c"
  by (simp add: hold_def)

lemma relay_ok_map_values:
  assumes "relay_ok w" and "\<And>c. rc_id (f c) = rc_id c" and "\<And>c. conn_ok c \<Longrightarrow> conn_ok (f c)"
  shows "relay_ok (w\<lparr>rl_conns := map_values f (rl_conns w)\<rparr>)"
  using assms by (auto simp: relay_ok_def)

lemma relay_ok_handleHostDisconnect: "relay_ok w \<Longrightarrow> relay_ok (handleHostDisconnect e host w)"
  unfolding handleHostDisconnect_def by (rule relay_ok_map_values) (simp_all add: conn_ok_hold)

interpretation relay_subscriber: subscriber "relay_hub e" relay_ok for e
proof
  fix w reg ev assume ok: "relay_ok w"
  then show "relay_ok (emit_event (relay_hub e) reg ev w)"
    by (cases ev) (simp_all add: emit_event_def relay_hub_def relay_handler_def
        relay_ok_handleHostConnect relay_ok_handleHostDisconnect)
  show "relay_ok (hub_close (relay_hub e) socket status reason w)" for socket status reason
    using ok by (simp add: relay_hub_def)
qed

section \<open>The whole system\<close>

definition system_ok :: "registry \<times> relay \<Rightarrow> bool" where
  "system_ok s = (registry_ok (fst s) \<and> relay_ok (snd s))"

lemma relay_ok_openConnection:
  "relay_ok w \<Longrightarrow> hex_id cid \<Longrightarrow> relay_ok (openConnection cid k h l u b w)"
  by (simp add: openConnection_def relay_ok_put_conn conn_ok_def)

lemma relay_ok_giveUp: "relay_ok w \<Longrightarrow> relay_ok (giveUp e reg cid w)"
proof (cases "map_of (rl_conns w) cid")
  case (Some c)
  then show "relay_ok w \<Longrightarrow> ?thesis"
    using relay_okD [of w cid c] by (simp add: giveUp_def retryConnection_ok relay_ok_put_conn)
qed (simp add: giveUp_def)

lemma relay_ok_attached [simp]: "relay_ok (attach w) = relay_ok w" "relay_ok (detach w) = relay_ok w"
  by (simp_all add: relay_ok_def attach_def detach_def)

lemma relay_ok_handleClientFrame: "relay_ok w \<Longrightarrow> relay_ok (handleClientFrame e reg cid parsed w)"
  using serves_handleClientFrame [of w cid] handleClientFrame_unknown [of w cid]
  by (cases "map_of (rl_conns w) cid") (auto simp: serves_def)

lemma relay_ok_handleAgentFrame: "relay_ok w \<Longrightarrow> relay_ok (handleAgentFrame e reg host f w)"
proof (cases "addressee host f w")
  case (Some cp)
  then show "relay_ok w \<Longrightarrow> ?thesis"
    using serves_handleAgentFrame [of w host f "fst cp" "snd cp"] by (auto simp: serves_def)
qed (simp add: handleAgentFrame_def)

lemma system_step_ok: "system_ok s \<Longrightarrow> system_ok (relay_step s ev)"
proof -
  assume ok: "system_ok s"
  obtain reg w where s: "s = (reg, w)" by fastforce
  obtain e x where ev: "ev = (e, x)" by fastforce
  have r: "registry_ok reg" and w: "relay_ok w" using ok by (simp_all add: s system_ok_def)
  show ?thesis
  proof (cases x)
    case (Agents op)
    then show ?thesis using r w registry_step_ok [of "(reg, w)" "relay_hub e" op]
        relay_subscriber.step_good [of "(reg, w)" e op] by (simp add: s ev system_ok_def)
  qed (use r w in \<open>simp_all add: s ev system_ok_def relay_ok_openConnection closeConnection_ok
      relay_ok_giveUp relay_ok_handleClientFrame relay_ok_handleAgentFrame emitTerminalFrame_def
      split: option.split\<close>)
qed

interpretation system_machine: invariant_machine relay_step system_ok
  by unfold_locales (rule system_step_ok)

definition after :: "(surroundings \<times> relay_event) list \<Rightarrow> registry \<times> relay" where
  "after es = run relay_step (no_registry, new_relay) es"

lemma system_ok_after: "system_ok (after es)"
  unfolding after_def
  by (rule system_machine.run_inv) (simp add: system_ok_def no_registry_def new_relay_def registry_ok_def relay_ok_def)

definition all_panes :: "relay \<Rightarrow> pane list" where
  "all_panes w = concat (map (\<lambda>(_, c). map snd (rc_panes c)) (rl_conns w))"

text \<open>A connection with its panes: their ids are its own id, a colon and the browser's id.\<close>

definition fits :: "relay_connection \<Rightarrow> bool" where
  "fits c = list_all (\<lambda>(k, p). client_term_id k \<and> pn_client p = k
     \<and> pn_agent p = rc_id c @ CHR '':'' # k \<and> fst (pn_open p) = pn_agent p) (rc_panes c)"

lemma hex_id_no_colon: "hex_id cid \<Longrightarrow> CHR '':'' \<notin> set cid"
  by (auto simp: hex_id_def list_all_iff is_hex_def is_digit_def)

lemma conn_ok_fits: "conn_ok c \<Longrightarrow> fits c"
  unfolding fits_def list_all_iff using conn_ok_mem [of c] by (auto simp: pane_ok_def agent_term_id_def)

lemma agent_ids_of: "conn_ok c \<Longrightarrow> map pn_agent (map snd (rc_panes c)) = map (agent_term_id c) (map fst (rc_panes c))"
  using conn_ok_mem [of c] by (auto simp: pane_ok_def)

lemma agent_ids_distinct:
  assumes "distinct (map fst cs)" and "\<And>k c. (k, c) \<in> set cs \<Longrightarrow> rc_id c = k \<and> hex_id k \<and> conn_ok c"
  shows "distinct (concat (map (\<lambda>(_, c). map pn_agent (map snd (rc_panes c))) cs))"
  using assms
proof (induction cs)
  case (Cons x cs)
  obtain k c where x: "x = (k, c)" by fastforce
  have c: "rc_id c = k" "hex_id k" "conn_ok c" using Cons.prems(2) [of k c] x by simp_all
  have d: "distinct (map fst (rc_panes c))" using c(3) by (simp add: conn_ok_def)
  then have "distinct (map (agent_term_id c) (map fst (rc_panes c)))"
    by (subst distinct_map) (simp add: inj_on_def agent_term_id_def)
  moreover have "set (map (agent_term_id c) (map fst (rc_panes c)))
    \<inter> set (concat (map (\<lambda>(_, c). map pn_agent (map snd (rc_panes c))) cs)) = {}"
  proof -
    have "False" if "(k', c') \<in> set cs" "(t, p) \<in> set (rc_panes c')" "pn_agent p = agent_term_id c u" for k' c' t p u
    proof -
      have c': "rc_id c' = k'" "hex_id k'" "conn_ok c'" using Cons.prems(2) [of k' c'] that(1) by simp_all
      then have "pn_agent p = agent_term_id c' t" using conn_ok_mem that(2) by (simp add: pane_ok_def)
      with that(3) c c' have "k @ CHR '':'' # u = k' @ CHR '':'' # t" by (simp add: agent_term_id_def)
      then have "k = k'" using append_sep_inject hex_id_no_colon c(2) c'(2) by metis
      with that(1) Cons.prems(1) x show False by force
    qed
    from this [OF _ _ sym] show ?thesis by auto
  qed
  moreover have "distinct (concat (map (\<lambda>(_, c). map pn_agent (map snd (rc_panes c))) cs))"
    by (rule Cons.IH) (use Cons.prems(1) in simp, rule Cons.prems(2), simp)
  ultimately show ?case unfolding x by (simp only: list.map split_conv concat.simps distinct_append
      agent_ids_of [OF c(3)] simp_thms)
qed simp

lemma relay_ok_agent_ids: "relay_ok w \<Longrightarrow> distinct (map pn_agent (all_panes w))"
proof -
  assume ok: "relay_ok w"
  have "map pn_agent (all_panes w) = concat (map (\<lambda>(_, c). map pn_agent (map snd (rc_panes c))) (rl_conns w))"
    by (simp add: all_panes_def map_concat comp_def split_def)
  then show ?thesis using agent_ids_distinct [OF relay_ok_distinct relay_ok_mem] ok by simp
qed

text \<open>
  C3 (\<open>relay_invariant\<close>): whatever browsers, agents, timers and revocations do, and whether or not
  the sockets accept what they are sent, every connection is filed under its own id, every pane is
  addressed towards the agent as its connection's id, a colon and the id the browser chose, also in
  the frame that would reopen it, and no two panes of the whole server share an agent id.
\<close>

theorem relay_invariant:
  "list_all (\<lambda>(cid, c). rc_id c = cid \<and> hex_id cid \<and> fits c) (rl_conns (snd (after es)))
   \<and> distinct (map fst (rl_conns (snd (after es)))) \<and> distinct (map pn_agent (all_panes (snd (after es))))"
proof -
  have ok: "relay_ok (snd (after es))" using system_ok_after [of es] by (simp add: system_ok_def)
  with relay_ok_distinct relay_ok_agent_ids show ?thesis
    using relay_ok_mem [OF ok] conn_ok_fits by (auto simp: list_all_iff)
qed

text \<open>
  C2 (\<open>frames_stay_with_their_connection\<close>): in every reachable state a frame from a browser or from
  an agent changes at most one connection: the browser's own, or the one whose id prefixes the
  frame's id, provided it is a connection to the host that sent the frame and has that pane. What
  it writes goes to that connection's own browser socket, or to the agent of that connection's
  host under an id that starts with the connection's id and a colon.
\<close>

theorem frames_stay_with_their_connection:
  "(case map_of (rl_conns (snd (after es))) cid of
      None \<Rightarrow> handleClientFrame e (fst (after es)) cid parsed (snd (after es)) = snd (after es)
    | Some c \<Rightarrow> confined (fst (after es)) (owner c) (snd (after es))
        (handleClientFrame e (fst (after es)) cid parsed (snd (after es))))
   \<and> (case addressee host f (snd (after es)) of
        None \<Rightarrow> handleAgentFrame e (fst (after es)) host f (snd (after es)) = snd (after es)
      | Some (c, p) \<Rightarrow> rc_host c = host \<and> server_term f = rc_id c @ CHR '':'' # pn_client p
          \<and> confined (fst (after es)) (owner c) (snd (after es))
              (handleAgentFrame e (fst (after es)) host f (snd (after es))))"
proof -
  let ?w = "snd (after es)" let ?reg = "fst (after es)"
  have ok: "relay_ok ?w" using system_ok_after [of es] by (simp add: system_ok_def)
  have client: "case map_of (rl_conns ?w) cid of None \<Rightarrow> handleClientFrame e ?reg cid parsed ?w = ?w
      | Some c \<Rightarrow> confined ?reg (owner c) ?w (handleClientFrame e ?reg cid parsed ?w)"
    using serves_handleClientFrame [OF ok] handleClientFrame_unknown
    by (auto simp: serves_def split: option.split)
  have "rc_host c = host \<and> server_term f = rc_id c @ CHR '':'' # pn_client p
      \<and> confined ?reg (owner c) ?w (handleAgentFrame e ?reg host f ?w)" if a: "addressee host f ?w = Some (c, p)" for c p
  proof -
    obtain k where k: "map_of (rl_conns ?w) (rc_id c) = Some c" "rc_host c = host"
      "server_term f = agent_term_id c k" "map_of (rc_panes c) k = Some p"
      using addresseeD [OF a ok] by blast
    have "pane_ok c k p" using relay_okD [OF ok k(1)] k(4) by (simp add: conn_okD)
    then have "pn_client p = k" by (rule pane_ok_client)
    with k serves_handleAgentFrame [OF ok a, of ?reg e] show ?thesis
      by (simp add: serves_def agent_term_id_def)
  qed
  with client show ?thesis by (auto simp: handleAgentFrame_def split: option.split)
qed

end
