(* ===== verification/RelayRecovery.thy ===== *)
theory RelayRecovery
  imports RelaySafety
begin

text \<open>
  What the relay does over time: what becomes of the output of a pane, how the panes of a host are
  reopened when another agent attaches and says hello, and three places where a hold or a stale hello
  ends a terminal that could have gone on.
\<close>

section \<open>Back-pressure\<close>

fun output_amount :: "nat \<Rightarrow> string \<Rightarrow> relay_effect \<Rightarrow> int" where
  "output_amount s t (ToBrowser s' (Output t' d n)) = (if s' = s \<and> t' = t then int (byteLength d) + n else 0)"
| "output_amount s t _ = 0"

text \<open>What the frames to a pane amount to: the bytes they carry and the bytes they say were dropped.\<close>

definition delivered :: "nat \<Rightarrow> string \<Rightarrow> relay \<Rightarrow> int" where
  "delivered s t w = sum_list (map (output_amount s t) (rl_log w))"

definition pane_at :: "string \<Rightarrow> string \<Rightarrow> relay \<Rightarrow> pane option" where
  "pane_at cid k w = (case map_of (rl_conns w) cid of Some c \<Rightarrow> map_of (rc_panes c) k | None \<Rightarrow> None)"

definition pending :: "string \<Rightarrow> string \<Rightarrow> relay \<Rightarrow> int" where
  "pending cid k w = (case pane_at cid k w of Some p \<Rightarrow> int (pn_dropped p) | None \<Rightarrow> 0)"

definition congested :: "surroundings \<Rightarrow> relay_connection \<Rightarrow> string \<Rightarrow> bool" where
  "congested e c data = (rc_bufferBytes c < ev_buffered e (rc_socket c) + byteLength data)"

lemma byteLength_Nil [simp]: "byteLength [] = 0"
  by (simp add: byteLength_def)

lemma addressee_agent_id:
  assumes "hex_id cid" and "map_of (rl_conns w) cid = Some c" and "map_of (rc_panes c) k = Some p"
    and "server_term f = cid @ CHR '':'' # k"
  shows "addressee (rc_host c) f w = Some (c, p)"
proof -
  have "cid \<noteq> []" "CHR '':'' \<notin> set cid" using assms(1) hex_id_no_colon by (auto simp: hex_id_def)
  then have "index_of (server_term f) CHR '':'' = int (length cid)" "0 < int (length cid)"
    using assms(4) index_of_present by auto
  with assms show ?thesis by (simp add: addressee_def Let_def nat_add_distrib)
qed

text \<open>A run of output frames to one pane, each at its own moment.\<close>

definition feed :: "registry \<Rightarrow> string \<Rightarrow> string \<Rightarrow> relay \<Rightarrow> surroundings \<times> string \<times> int \<Rightarrow> relay" where
  "feed reg host aid w x = (case x of (e, data, n) \<Rightarrow> handleAgentFrame e reg host (Output aid data n) w)"

lemma deliverOutput_amount:
  assumes c: "map_of (rl_conns w) cid = Some c" "rc_id c = cid" and p: "map_of (rc_panes c) k = Some p" "pn_client p = k"
    and open_socket: "\<And>l. ev_browser_ok e (rc_socket c) l"
  shows "\<exists>c' p'. map_of (rl_conns (deliverOutput e c p data n w)) cid = Some c' \<and> rc_id c' = cid
      \<and> rc_host c' = rc_host c \<and> rc_socket c' = rc_socket c \<and> rc_bufferBytes c' = rc_bufferBytes c
      \<and> map_of (rc_panes c') k = Some p' \<and> pn_client p' = k
      \<and> delivered (rc_socket c) k (deliverOutput e c p data n w) + int (pn_dropped p')
        = delivered (rc_socket c) k w + int (pn_dropped p)
          + int (byteLength data) + (if congested e c data then 0 else n)"
proof -
  have put: "map_of (rl_conns (put_conn (put_pane (p\<lparr>pn_dropped := m\<rparr>) c) v)) cid = Some (put_pane (p\<lparr>pn_dropped := m\<rparr>) c)"
    "map_of (rc_panes (put_pane (p\<lparr>pn_dropped := m\<rparr>) c)) k = Some (p\<lparr>pn_dropped := m\<rparr>)" for m v
    using c(2) p(2) by simp_all
  consider "congested e c data" | "\<not> congested e c data" "0 < pn_dropped p" | "\<not> congested e c data" "pn_dropped p = 0"
    by auto
  then show ?thesis
  proof cases
    case 1
    have "deliverOutput e c p data n w = put_conn (put_pane (p\<lparr>pn_dropped := pn_dropped p + byteLength data\<rparr>) c) w"
      using 1 by (simp add: deliverOutput_def Let_def congested_def)
    with put(1) [of "pn_dropped p + byteLength data" w] put(2) [of "pn_dropped p + byteLength data"] 1 show ?thesis
      using c p by (simp add: delivered_def)
  next
    case 2
    have "deliverOutput e c p data n w = send_browser e c (Output k data n)
        (put_conn (put_pane (p\<lparr>pn_dropped := 0\<rparr>) c) (send_browser e c (Output k [] (int (pn_dropped p))) w))"
      using 2 p(2) by (simp add: deliverOutput_def Let_def congested_def)
    with put(1) [of 0] put(2) [of 0] 2 show ?thesis using c p open_socket by (simp add: delivered_def send_browser_def)
  next
    case 3
    have "deliverOutput e c p data n w = send_browser e c (Output k data n) w"
      using 3 p(2) by (simp add: deliverOutput_def Let_def congested_def)
    with 3 show ?thesis using c p open_socket by (simp add: delivered_def send_browser_def)
  qed
qed

lemma feed_amounts:
  assumes "hex_id cid" and "map_of (rl_conns w) cid = Some c" "rc_id c = cid" and "map_of (rc_panes c) k = Some p" "pn_client p = k"
    and "\<And>e data n l. (e, data, n) \<in> set xs \<Longrightarrow> ev_browser_ok e (rc_socket c) l"
  shows "delivered (rc_socket c) k (foldl (feed reg (rc_host c) (cid @ CHR '':'' # k)) w xs)
      + pending cid k (foldl (feed reg (rc_host c) (cid @ CHR '':'' # k)) w xs)
    = delivered (rc_socket c) k w + int (pn_dropped p)
      + (\<Sum>(e, data, n) \<leftarrow> xs. int (byteLength data) + (if congested e c data then 0 else n))"
  using assms(2-)
proof (induction xs arbitrary: w c p)
  case Nil
  then show ?case by (simp add: pending_def pane_at_def)
next
  case (Cons x xs)
  obtain e data n where x: "x = (e, data, n)" by (cases x) auto
  have "feed reg (rc_host c) (cid @ CHR '':'' # k) w x = deliverOutput e c p data n w"
    using addressee_agent_id [OF assms(1) Cons.prems(1,3)] by (simp add: feed_def x handleAgentFrame_def)
  moreover obtain c' p' where c': "map_of (rl_conns (deliverOutput e c p data n w)) cid = Some c'" "rc_id c' = cid"
      "map_of (rc_panes c') k = Some p'" "pn_client p' = k"
    and same: "rc_host c' = rc_host c" "rc_socket c' = rc_socket c" "rc_bufferBytes c' = rc_bufferBytes c"
    and amount: "delivered (rc_socket c) k (deliverOutput e c p data n w) + int (pn_dropped p')
        = delivered (rc_socket c) k w + int (pn_dropped p)
          + int (byteLength data) + (if congested e c data then 0 else n)"
    using deliverOutput_amount [OF Cons.prems(1-4), of e data n] Cons.prems(5) [of e data n] x by auto
  moreover have "congested e' c' d = congested e' c d" for e' d using same by (simp add: congested_def)
  moreover have "delivered (rc_socket c') k (foldl (feed reg (rc_host c') (cid @ CHR '':'' # k)) (deliverOutput e c p data n w) xs)
      + pending cid k (foldl (feed reg (rc_host c') (cid @ CHR '':'' # k)) (deliverOutput e c p data n w) xs)
    = delivered (rc_socket c') k (deliverOutput e c p data n w) + int (pn_dropped p')
      + (\<Sum>(e, data, n) \<leftarrow> xs. int (byteLength data) + (if congested e c' data then 0 else n))"
  proof (rule Cons.IH [OF c'(1,2,3,4)])
    show "ev_browser_ok e (rc_socket c') l" if "(e, data, n) \<in> set xs" for e data n l
      using Cons.prems(5) [of e data n l] that same by simp
  qed
  ultimately show ?case by (simp add: x)
qed

text \<open>
  The drops an agent reports are not always forwarded: over any sequence of output frames to an open
  pane, the bytes the browser was sent, the bytes it was told were dropped and the bytes still to be
  reported add up to the bytes the agent sent, plus the drops the agent itself reported, except those on
  frames the relay dropped: their own count is lost with them.
\<close>

lemma output_accounted:
  assumes "relay_ok w" and "map_of (rl_conns w) cid = Some c" and "map_of (rc_panes c) k = Some p"
    and "list_all (\<lambda>(e, data, n). \<forall>l. ev_browser_ok e (rc_socket c) l) xs"
  shows "delivered (rc_socket c) k (foldl (feed reg (rc_host c) (pn_agent p)) w xs)
      + pending cid k (foldl (feed reg (rc_host c) (pn_agent p)) w xs)
    = delivered (rc_socket c) k w + int (pn_dropped p)
      + (\<Sum>(e, data, n) \<leftarrow> xs. int (byteLength data) + (if congested e c data then 0 else n))"
proof -
  have id: "rc_id c = cid" "hex_id cid" "conn_ok c" using relay_okD [OF assms(1,2)] by simp_all
  have k: "pane_ok c k p" using conn_okD [OF id(3) assms(3)] .
  then have a: "pn_agent p = cid @ CHR '':'' # k" using id(1) by (simp add: pane_ok_def agent_term_id_def)
  have "ev_browser_ok e (rc_socket c) l" if "(e, data, n) \<in> set xs" for e data n l
    using assms(4) that by (auto simp: list_all_iff)
  from feed_amounts [OF id(2) assms(2) id(1) assms(3) pane_ok_client [OF k] this, where reg = reg] show ?thesis
    unfolding a by simp
qed

text \<open>A browser connection with one open pane, on a host with an agent.\<close>

definition calm :: surroundings where
  "calm = \<lparr>ev_agent_ok = \<lambda>_ _. True, ev_browser_ok = \<lambda>_ _. True, ev_buffered = \<lambda>_. 0, ev_now = 0\<rparr>"

definition busy :: surroundings where
  "busy = calm\<lparr>ev_buffered := \<lambda>_. 100\<rparr>"

definition shell_pane :: pane where
  "shell_pane = new_pane calm \<lparr>rc_id = ''ab'', rc_host = ''h'', rc_label = ''h'', rc_user = ''u'', rc_socket = 7,
     rc_bufferBytes = 50, rc_panes = [], rc_grace = None\<rparr> ''t''
     \<lparr>t_kind = TShell, t_session = None, t_backend = None, t_sessionId = None, t_tmuxId = None,
      t_intent = None, t_cols = 80, t_rows = 24\<rparr>"

definition one_conn :: relay_connection where
  "one_conn = \<lparr>rc_id = ''ab'', rc_host = ''h'', rc_label = ''h'', rc_user = ''u'', rc_socket = 7,
     rc_bufferBytes = 50, rc_panes = [(''t'', shell_pane)], rc_grace = None\<rparr>"

definition one_pane :: relay where
  "one_pane = \<lparr>rl_conns = [(''ab'', one_conn)], rl_graceMs = 120000, rl_attached = True, rl_log = []\<rparr>"

lemma one_pane_ok: "relay_ok one_pane" "map_of (rl_conns one_pane) ''ab'' = Some one_conn"
  "map_of (rc_panes one_conn) ''t'' = Some shell_pane" "rc_socket one_conn = 7" "rc_host one_conn = ''h''"
  "pn_agent shell_pane = ''ab:t''" "pn_dropped shell_pane = 0" "rc_bufferBytes one_conn = 50"
proof -
  have "hex_id ''ab''" by (simp add: hex_id_def is_hex_def is_digit_def)
  moreover have "client_term_id ''t''" by (simp add: client_term_id_def is_alnum_def is_lower_def)
  ultimately show "relay_ok one_pane"
    by (simp add: relay_ok_def one_pane_def one_conn_def conn_ok_def pane_ok_def shell_pane_def new_pane_def
        agent_term_id_def)
qed (simp_all add: one_pane_def one_conn_def shell_pane_def new_pane_def agent_term_id_def)

lemma output_accounted_example:
  "delivered 7 ''t'' (foldl (feed no_registry ''h'' ''ab:t'') one_pane [(busy, ''abc'', 2), (calm, ''xy'', 1)])
   + pending ''ab'' ''t'' (foldl (feed no_registry ''h'' ''ab:t'') one_pane [(busy, ''abc'', 2), (calm, ''xy'', 1)]) = 6"
proof -
  have bytes: "byteLength ''abc'' = 3" "byteLength ''xy'' = 2" by (simp_all add: byteLength_def)
  have "delivered 7 ''t'' one_pane = 0" by (simp add: delivered_def one_pane_def)
  with output_accounted [OF one_pane_ok(1-3), of "[(busy, ''abc'', 2), (calm, ''xy'', 1)]" no_registry]
  show ?thesis by (simp add: busy_def calm_def congested_def one_pane_ok bytes)
qed

section \<open>Reopening\<close>

text \<open>What the agent must be able to do for a pane to be reopened now.\<close>

definition native_pane :: "pane \<Rightarrow> bool" where
  "native_pane p = (t_backend (snd (pn_open p)) = Some Native)"

definition reopens :: "registry \<Rightarrow> string \<Rightarrow> pane \<Rightarrow> bool" where
  "reopens reg host p = (\<not> native_pane p \<or>
     (hasHello reg host \<and> \<not> native_unsupported reg host))"

definition reopen_effects :: "nat \<Rightarrow> relay_connection \<Rightarrow> pane \<Rightarrow> relay_effect list" where
  "reopen_effects socket c p = [ToAgent socket (Open (fst (pn_open p)) (snd (pn_open p))),
     Audit ''terminal.open'' (rc_host c) (pn_client p) ''agent-reattached'']"

lemma update_update [simp]: "AList.update k v (AList.update k u m) = AList.update k v m"
  by (induction m) auto

lemma update_same: "map_of m k = Some v \<Longrightarrow> AList.update k v m = m"
  by (induction m) (auto split: if_splits)

lemma update_middle: "k \<notin> fst ` set xs \<Longrightarrow> AList.update k v (xs @ (k, u) # ys) = xs @ (k, v) # ys"
  by (induction xs) auto

lemma reopen_pane_sent:
  assumes c: "map_of (rl_conns w) cid = Some c" "rc_id c = cid" "rc_host c = host"
    and r: "map_option k_socket (map_of (r_conns reg) host) = Some socket" and ok: "\<And>l. ev_agent_ok e socket l"
    and p: "reopens reg host p"
  shows "reopen_pane e reg host cid p w
    = (True, w\<lparr>rl_conns := AList.update cid (put_pane (p\<lparr>pn_waiting := False\<rparr>) c) (rl_conns w),
        rl_log := rl_log w @ reopen_effects socket c p\<rparr>)"
proof -
  have "send_host e reg host (Open (fst (pn_open p)) (snd (pn_open p))) w
      = (True, effect (ToAgent socket (Open (fst (pn_open p)) (snd (pn_open p)))) w)"
    using r ok by (auto simp: sendToHost_def write_agent_def split: option.splits)
  then show ?thesis using c p
    by (auto simp: reopen_pane_def reopens_def native_pane_def reopen_sent_def reopen_effects_def audit_def effect_def put_conn_def)
qed

text \<open>
  A pane that is not reopened now is passed over when it is native and the host has said no hello yet.
  (An agent that said hello and knows no native sessions ends the pane instead.)
\<close>

definition passed_over :: "registry \<Rightarrow> string \<Rightarrow> pane \<Rightarrow> bool" where
  "passed_over reg host p = (native_pane p \<and> \<not> hasHello reg host)"

abbreviation taken_up :: "pane \<Rightarrow> pane" where
  "taken_up p \<equiv> p\<lparr>pn_waiting := False\<rparr>"

lemma loop_reopen:
  assumes r: "map_option k_socket (map_of (r_conns reg) host) = Some socket" and ok: "\<And>l. ev_agent_ok e socket l"
    and c: "map_of (rl_conns w) cid = Some c" "rc_id c = cid" "rc_host c = host"
    and p: "\<And>p. p \<in> set ps \<Longrightarrow> reopens reg host p \<or> passed_over reg host p"
  shows "loop (reopen_pane e reg host cid) ps w
    = (True, w\<lparr>rl_conns := AList.update cid (foldl (\<lambda>c p. put_pane (taken_up p) c) c (filter (reopens reg host) ps)) (rl_conns w),
        rl_log := rl_log w @ concat (map (reopen_effects socket c) (filter (reopens reg host) ps))\<rparr>)"
  using c p
proof (induction ps arbitrary: w c)
  case Nil
  then show ?case by (simp add: update_same)
next
  case (Cons q ps)
  show ?case
  proof (cases "reopens reg host q")
    case True
    let ?c = "put_pane (taken_up q) c"
    let ?w = "w\<lparr>rl_conns := AList.update cid ?c (rl_conns w), rl_log := rl_log w @ reopen_effects socket c q\<rparr>"
    from reopen_pane_sent [OF Cons.prems(1-3) r ok True] have "reopen_pane e reg host cid q w = (True, ?w)" .
    moreover have "loop (reopen_pane e reg host cid) ps ?w
      = (True, ?w\<lparr>rl_conns := AList.update cid (foldl (\<lambda>c p. put_pane (taken_up p) c) ?c (filter (reopens reg host) ps)) (rl_conns ?w),
          rl_log := rl_log ?w @ concat (map (reopen_effects socket ?c) (filter (reopens reg host) ps))\<rparr>)"
      by (rule Cons.IH) (use Cons.prems in simp_all)
    moreover have "reopen_effects socket ?c = reopen_effects socket c"
      by (rule ext) (simp add: reopen_effects_def)
    ultimately show ?thesis using True by simp
  next
    case False
    then have "reopen_pane e reg host cid q w = (True, w)"
      using Cons.prems(1) Cons.prems(4) [of q] by (simp add: reopen_pane_def passed_over_def native_pane_def)
    with Cons.IH [OF Cons.prems(1-3)] Cons.prems(4) False show ?thesis by simp
  qed
qed

lemma fold_put_panes:
  assumes "distinct (map fst (xs @ ps))" and "\<And>k p. (k, p) \<in> set ps \<Longrightarrow> pn_client p = k" and "rc_panes c = xs @ ps"
  shows "foldl (\<lambda>c p. put_pane (taken_up p) c) c (filter P (map snd ps))
    = c\<lparr>rc_panes := xs @ map_values (\<lambda>p. if P p then taken_up p else p) ps\<rparr>"
  using assms
proof (induction ps arbitrary: c xs)
  case Nil
  then show ?case by (simp add: map_values_def)
next
  case (Cons kp ps)
  obtain k p where kp: "kp = (k, p)" by fastforce
  let ?p = "if P p then taken_up p else p" and ?c = "if P p then put_pane (taken_up p) c else c"
  have k: "pn_client p = k" using Cons.prems(2) [of k p] kp by simp
  have "k \<notin> fst ` set xs" using Cons.prems(1) kp by auto
  then have c: "rc_panes ?c = (xs @ [(k, ?p)]) @ ps"
    using Cons.prems(3) kp k by (simp add: update_middle)
  have "foldl (\<lambda>c p. put_pane (taken_up p) c) ?c (filter P (map snd ps))
    = ?c\<lparr>rc_panes := (xs @ [(k, ?p)]) @ map_values (\<lambda>p. if P p then taken_up p else p) ps\<rparr>"
  proof (rule Cons.IH [OF _ _ c])
    show "distinct (map fst ((xs @ [(k, ?p)]) @ ps))" using Cons.prems(1) kp by simp
    show "pn_client p' = k'" if "(k', p') \<in> set ps" for k' p' using Cons.prems(2) [of k' p'] that by simp
  qed
  then show ?case using kp by (cases "P p") (simp_all add: map_values_def put_pane_def)
qed

text \<open>What a connection is, and what was sent for it, after the host was found connected.\<close>

definition ready_now :: "registry \<Rightarrow> string \<Rightarrow> pane \<Rightarrow> bool" where
  "ready_now reg host p = (pn_waiting p \<and> reopens reg host p)"

definition taken_up_now :: "registry \<Rightarrow> string \<Rightarrow> relay_connection \<Rightarrow> relay_connection" where
  "taken_up_now reg host c =
     (if rc_host c \<noteq> host \<or> waiting_panes c = [] then c
      else c\<lparr>rc_grace := None, rc_panes := map_values (\<lambda>p. if ready_now reg host p then taken_up p else p) (rc_panes c)\<rparr>)"

definition opens :: "(pane \<Rightarrow> bool) \<Rightarrow> nat \<Rightarrow> string \<Rightarrow> relay_connection \<Rightarrow> relay_effect list" where
  "opens P socket host c = (if rc_host c = host
     then concat (map (reopen_effects socket c) (filter P (map snd (rc_panes c)))) else [])"

lemma reopen_connection_resumes:
  assumes r: "map_option k_socket (map_of (r_conns reg) host) = Some socket" and ok: "\<And>l. ev_agent_ok e socket l"
    and c: "conn_ok c" "map_of (rl_conns w) (rc_id c) = Some c"
    and p: "\<And>k p. rc_host c = host \<Longrightarrow> (k, p) \<in> set (rc_panes c) \<Longrightarrow> pn_waiting p \<Longrightarrow> reopens reg host p \<or> passed_over reg host p"
  shows "reopen_connection e reg host c w
    = (True, w\<lparr>rl_conns := AList.update (rc_id c) (taken_up_now reg host c) (rl_conns w),
        rl_log := rl_log w @ opens (ready_now reg host) socket host c\<rparr>)"
proof (cases "rc_host c \<noteq> host \<or> waiting_panes c = []")
  case True
  then have "opens (ready_now reg host) socket host c = []"
    by (auto simp: opens_def ready_now_def waiting_panes_def filter_empty_conv)
  with True c(2) show ?thesis by (auto simp: reopen_connection_def taken_up_now_def update_same)
next
  case False
  let ?c = "c\<lparr>rc_grace := None\<rparr>"
  let ?now = "filter (reopens reg host) (waiting_panes c)"
  have now: "?now = filter (ready_now reg host) (map snd (rc_panes c))"
    unfolding waiting_panes_def filter_filter by (rule filter_cong) (auto simp: ready_now_def)
  have "loop (reopen_pane e reg host (rc_id c)) (waiting_panes c) (put_conn ?c w)
    = (True, (put_conn ?c w)\<lparr>rl_conns := AList.update (rc_id c) (foldl (\<lambda>c p. put_pane (taken_up p) c) ?c ?now) (rl_conns (put_conn ?c w)),
        rl_log := rl_log (put_conn ?c w) @ concat (map (reopen_effects socket ?c) ?now)\<rparr>)"
  proof (rule loop_reopen [OF r ok])
    show "map_of (rl_conns (put_conn ?c w)) (rc_id c) = Some ?c" "rc_id ?c = rc_id c" "rc_host ?c = host" using False by simp_all
    show "reopens reg host q \<or> passed_over reg host q" if "q \<in> set (waiting_panes c)" for q
    proof -
      from that obtain k where "(k, q) \<in> set (rc_panes c)" "pn_waiting q" by (auto simp: waiting_panes_def)
      with p False show ?thesis by blast
    qed
  qed
  moreover have "foldl (\<lambda>c p. put_pane (taken_up p) c) ?c ?now = taken_up_now reg host c"
  proof -
    have "distinct (map fst ([] @ rc_panes c))" using c(1) by (simp add: conn_ok_def)
    moreover have "pn_client q = k" if "(k, q) \<in> set (rc_panes c)" for k q
      using pane_ok_client [OF conn_ok_mem [OF c(1) that]] .
    ultimately show ?thesis using False fold_put_panes [of "[]" "rc_panes c" ?c "ready_now reg host"]
      by (simp add: taken_up_now_def now)
  qed
  moreover have "reopen_effects socket ?c = reopen_effects socket c"
    by (rule ext) (simp add: reopen_effects_def)
  ultimately show ?thesis using False by (simp add: reopen_connection_def put_conn_def opens_def now)
qed

lemma loop_connections:
  assumes r: "map_option k_socket (map_of (r_conns reg) host) = Some socket" and ok: "\<And>l. ev_agent_ok e socket l"
    and "rl_conns w = xs @ cs" and "distinct (map fst (xs @ cs))"
    and "\<And>k c. (k, c) \<in> set cs \<Longrightarrow> rc_id c = k \<and> conn_ok c"
    and "\<And>k c k' p. (k, c) \<in> set cs \<Longrightarrow> rc_host c = host \<Longrightarrow> (k', p) \<in> set (rc_panes c) \<Longrightarrow> pn_waiting p \<Longrightarrow>
      reopens reg host p \<or> passed_over reg host p"
  shows "loop (reopen_connection e reg host) (map snd cs) w
    = (True, w\<lparr>rl_conns := xs @ map_values (taken_up_now reg host) cs,
        rl_log := rl_log w @ concat (map (\<lambda>(_, c). opens (ready_now reg host) socket host c) cs)\<rparr>)"
  using assms(3-)
proof (induction cs arbitrary: w xs)
  case Nil
  then show ?case by (simp add: map_values_def)
next
  case (Cons kc cs)
  obtain k c where kc: "kc = (k, c)" by fastforce
  have c: "rc_id c = k" "conn_ok c" using Cons.prems(3) [of k c] kc by simp_all
  let ?c = "taken_up_now reg host c"
  let ?w = "w\<lparr>rl_conns := (xs @ [(k, ?c)]) @ cs, rl_log := rl_log w @ opens (ready_now reg host) socket host c\<rparr>"
  have k: "k \<notin> fst ` set xs" using Cons.prems(2) kc by auto
  then have "map_of (rl_conns w) (rc_id c) = Some c"
    using map_of_eq_None_iff [of xs k] by (simp add: Cons.prems(1) kc c(1) map_add_def)
  moreover have "reopens reg host p \<or> passed_over reg host p"
    if "rc_host c = host" "(k', p) \<in> set (rc_panes c)" "pn_waiting p" for k' p
    using Cons.prems(4) [of k c k' p] that kc by simp
  note reopen_connection_resumes [OF r ok c(2) calculation this]
  ultimately have "reopen_connection e reg host c w = (True, ?w)"
    by (simp add: Cons.prems(1) kc c(1) update_middle [OF k])
  moreover have "loop (reopen_connection e reg host) (map snd cs) ?w
    = (True, ?w\<lparr>rl_conns := (xs @ [(k, ?c)]) @ map_values (taken_up_now reg host) cs,
        rl_log := rl_log ?w @ concat (map (\<lambda>(_, c). opens (ready_now reg host) socket host c) cs)\<rparr>)"
  proof (rule Cons.IH)
    show "distinct (map fst ((xs @ [(k, ?c)]) @ cs))" using Cons.prems(2) kc by simp
    show "rc_id d = j \<and> conn_ok d" if "(j, d) \<in> set cs" for j d using Cons.prems(3) [of j d] that by simp
    show "reopens reg host p \<or> passed_over reg host p"
      if "(j, d) \<in> set cs" "rc_host d = host" "(k', p) \<in> set (rc_panes d)" "pn_waiting p" for j d k' p
      using Cons.prems(4) [of j d k' p] that by simp
  qed simp
  ultimately show ?case by (simp add: kc map_values_def)
qed

lemma handleHostConnect_resumes:
  assumes ok: "relay_ok w"
    and r: "map_option k_socket (map_of (r_conns reg) host) = Some socket" and agent: "\<And>l. ev_agent_ok e socket l"
    and able: "\<And>k c k' p. (k, c) \<in> set (rl_conns w) \<Longrightarrow> rc_host c = host \<Longrightarrow> (k', p) \<in> set (rc_panes c) \<Longrightarrow> pn_waiting p \<Longrightarrow>
      reopens reg host p \<or> passed_over reg host p"
  shows "handleHostConnect e reg host w
    = w\<lparr>rl_conns := map_values (taken_up_now reg host) (rl_conns w),
        rl_log := rl_log w @ concat (map (\<lambda>(_, c). opens (ready_now reg host) socket host c) (rl_conns w))\<rparr>"
proof -
  have "loop (reopen_connection e reg host) (map snd (rl_conns w)) w
    = (True, w\<lparr>rl_conns := [] @ map_values (taken_up_now reg host) (rl_conns w),
        rl_log := rl_log w @ concat (map (\<lambda>(_, c). opens (ready_now reg host) socket host c) (rl_conns w))\<rparr>)"
    by (rule loop_connections [OF r agent])
      (use relay_ok_distinct [OF ok] relay_ok_mem [OF ok] able in simp_all)
  then show ?thesis by (simp add: handleHostConnect_def)
qed

subsection \<open>An agent goes, another comes and says hello\<close>

definition holds_panes :: "string \<Rightarrow> relay_connection \<Rightarrow> bool" where
  "holds_panes host c = (rc_host c = host \<and> rc_panes c \<noteq> [])"

text \<open>The panes that wait, those that are wanted; no timer runs.\<close>

definition awaiting :: "(pane \<Rightarrow> bool) \<Rightarrow> string \<Rightarrow> relay_connection \<Rightarrow> relay_connection" where
  "awaiting P host c = (if holds_panes host c
     then c\<lparr>rc_grace := None, rc_panes := map_values (\<lambda>p. p\<lparr>pn_waiting := P p\<rparr>) (rc_panes c)\<rparr> else c)"

definition off_hold :: "surroundings \<Rightarrow> int \<Rightarrow> string \<Rightarrow> relay_connection \<Rightarrow> relay_connection" where
  "off_hold e ms host c = (if holds_panes host c then hold e ms c else c)"

lemma handleHostDisconnect_holds:
  "handleHostDisconnect e host w = w\<lparr>rl_conns := map_values (off_hold e (rl_graceMs w) host) (rl_conns w)\<rparr>"
proof -
  have "off_hold e (rl_graceMs w) host = (\<lambda>c. if rc_host c = host \<and> rc_panes c \<noteq> [] then hold e (rl_graceMs w) c else c)"
    by (rule ext) (simp add: off_hold_def holds_panes_def)
  then show ?thesis by (simp add: handleHostDisconnect_def)
qed

lemma map_values_comp: "map_values f (map_values g m) = map_values (\<lambda>x. f (g x)) m"
  by (simp add: map_values_def split_def comp_def)

lemma map_values_cong: "(\<And>k v. (k, v) \<in> set m \<Longrightarrow> f v = g v) \<Longrightarrow> map_values f m = map_values g m"
  by (auto simp: map_values_def)

lemma map_values_mem: "(k, y) \<in> set (map_values f m) \<Longrightarrow> \<exists>x. (k, x) \<in> set m \<and> y = f x"
  by (auto simp: map_values_def)

lemma snd_map_values: "map snd (map_values f m) = map f (map snd m)"
  by (simp add: map_values_def split_def)

lemma first_without_hello:
  assumes "\<not> hasHello reg host"
  shows "taken_up_now reg host (off_hold e ms host c) = awaiting native_pane host c"
    and "opens (ready_now reg host) socket host (off_hold e ms host c) = opens (\<lambda>p. \<not> native_pane p) socket host c"
proof -
  have now: "ready_now reg host (p\<lparr>pn_waiting := True\<rparr>) = (\<not> native_pane p)" for p
    using assms by (simp add: ready_now_def reopens_def native_pane_def)
  have fn: "(if \<not> native_pane p then taken_up (p\<lparr>pn_waiting := True\<rparr>) else p\<lparr>pn_waiting := True\<rparr>)
      = p\<lparr>pn_waiting := native_pane p\<rparr>" for p by simp
  show "taken_up_now reg host (off_hold e ms host c) = awaiting native_pane host c"
  proof (cases "holds_panes host c")
    case True
    then have "waiting_panes (hold e ms c) \<noteq> []"
      by (simp add: holds_panes_def waiting_panes_def hold_def snd_map_values filter_empty_conv neq_Nil_conv)
    with True show ?thesis
      by (simp add: taken_up_now_def off_hold_def awaiting_def map_values_comp now fn holds_panes_def)
        (simp add: hold_def map_values_comp now fn)
  next
    case False
    then show ?thesis
      by (auto simp: taken_up_now_def off_hold_def awaiting_def holds_panes_def waiting_panes_def)
  qed
  have "reopen_effects socket (hold e ms c) (p\<lparr>pn_waiting := True\<rparr>) = reopen_effects socket c p" for p
    by (simp add: reopen_effects_def hold_def)
  then show "opens (ready_now reg host) socket host (off_hold e ms host c) = opens (\<lambda>p. \<not> native_pane p) socket host c"
    by (cases "rc_panes c") (simp_all add: opens_def off_hold_def holds_panes_def hold_def snd_map_values filter_map comp_def now)
qed

lemma then_with_hello:
  assumes "hasHello reg host" and "\<not> native_unsupported reg host"
  shows "taken_up_now reg host (awaiting native_pane host c) = awaiting (\<lambda>_. False) host c"
    and "opens (ready_now reg host) socket host (awaiting native_pane host c)
      = (if holds_panes host c then opens native_pane socket host c else opens pn_waiting socket host c)"
proof -
  have now: "ready_now reg host p = pn_waiting p" for p using assms by (simp add: ready_now_def reopens_def)
  have fn: "(if native_pane p then taken_up (p\<lparr>pn_waiting := native_pane p\<rparr>) else p\<lparr>pn_waiting := native_pane p\<rparr>)
      = taken_up p" for p by (cases p) simp
  show "taken_up_now reg host (awaiting native_pane host c) = awaiting (\<lambda>_. False) host c"
  proof (cases "holds_panes host c \<and> waiting_panes (awaiting native_pane host c) = []")
    case True
    then have "\<not> native_pane p" if "(k, p) \<in> set (rc_panes c)" for k p
      using that by (fastforce simp: awaiting_def waiting_panes_def snd_map_values filter_empty_conv)
    then have "map_values (\<lambda>p. p\<lparr>pn_waiting := native_pane p\<rparr>) (rc_panes c) = map_values taken_up (rc_panes c)"
      by (intro map_values_cong) simp
    then have "awaiting native_pane host c = awaiting (\<lambda>_. False) host c" by (simp add: awaiting_def)
    moreover have "taken_up_now reg host (awaiting native_pane host c) = awaiting native_pane host c"
      using True by (simp add: taken_up_now_def)
    ultimately show ?thesis by simp
  next
    case False
    then show ?thesis
    proof (cases "holds_panes host c")
      case True
      with False show ?thesis
        by (simp add: taken_up_now_def awaiting_def) (simp add: holds_panes_def map_values_comp now fn)
    next
      case False
      then show ?thesis by (auto simp: taken_up_now_def awaiting_def holds_panes_def waiting_panes_def)
    qed
  qed
  have "reopen_effects socket (c\<lparr>rc_grace := None, rc_panes := ps\<rparr>) (p\<lparr>pn_waiting := b\<rparr>) = reopen_effects socket c p" for ps p b
    by (simp add: reopen_effects_def)
  then show "opens (ready_now reg host) socket host (awaiting native_pane host c)
      = (if holds_panes host c then opens native_pane socket host c else opens pn_waiting socket host c)"
    by (simp add: opens_def awaiting_def snd_map_values filter_map comp_def now)
qed

lemma opens_nothing: "\<not> holds_panes host c \<Longrightarrow> opens P socket host c = []"
  by (auto simp: opens_def holds_panes_def)

lemma relay_ok_log: "relay_ok (w\<lparr>rl_log := l\<rparr>) = relay_ok w"
  by (simp add: relay_ok_def)

lemma reattached:
  assumes ok: "relay_ok w" and r: "map_option k_socket (map_of (r_conns reg) host) = Some socket" and no: "\<not> hasHello reg host"
    and agent: "\<And>l. ev_agent_ok e socket l"
  shows "handleHostConnect e reg host (handleHostDisconnect e0 host w)
    = w\<lparr>rl_conns := map_values (awaiting native_pane host) (rl_conns w),
        rl_log := rl_log w @ concat (map (\<lambda>(_, c). opens (\<lambda>p. \<not> native_pane p) socket host c) (rl_conns w))\<rparr>"
proof -
  have "handleHostConnect e reg host (handleHostDisconnect e0 host w)
    = (handleHostDisconnect e0 host w)\<lparr>
        rl_conns := map_values (taken_up_now reg host) (rl_conns (handleHostDisconnect e0 host w)),
        rl_log := rl_log (handleHostDisconnect e0 host w)
          @ concat (map (\<lambda>(_, c). opens (ready_now reg host) socket host c) (rl_conns (handleHostDisconnect e0 host w)))\<rparr>"
    by (rule handleHostConnect_resumes [OF relay_ok_handleHostDisconnect [OF ok] r agent])
      (use no in \<open>simp add: reopens_def passed_over_def disj_commute\<close>)
  then show ?thesis
    by (simp add: handleHostDisconnect_holds map_values_comp first_without_hello [OF no])
      (simp add: map_values_def split_def comp_def first_without_hello [OF no])
qed

lemma greeted:
  assumes ok: "relay_ok w" "relay_ok (w\<lparr>rl_conns := map_values (awaiting native_pane host) (rl_conns w)\<rparr>)"
    and r: "map_option k_socket (map_of (r_conns reg) host) = Some socket"
    and able: "hasHello reg host" "\<not> native_unsupported reg host" and agent: "\<And>l. ev_agent_ok e socket l"
  shows "handleHostConnect e reg host (w\<lparr>rl_conns := map_values (awaiting native_pane host) (rl_conns w), rl_log := l\<rparr>)
    = w\<lparr>rl_conns := map_values (awaiting (\<lambda>_. False) host) (rl_conns w),
        rl_log := l @ concat (map (\<lambda>(_, c). opens native_pane socket host c) (rl_conns w))\<rparr>"
proof -
  let ?w = "w\<lparr>rl_conns := map_values (awaiting native_pane host) (rl_conns w), rl_log := l\<rparr>"
  have w: "relay_ok ?w" using ok(2) by (simp only: relay_ok_log)
  have o: "opens (ready_now reg host) socket host (awaiting native_pane host c) = opens native_pane socket host c" for c
    unfolding then_with_hello(2) [OF able]
    using opens_nothing [of host c native_pane socket] opens_nothing [of host c pn_waiting socket] by (cases "holds_panes host c") simp_all
  have "handleHostConnect e reg host ?w
    = ?w\<lparr>rl_conns := map_values (taken_up_now reg host) (rl_conns ?w),
        rl_log := rl_log ?w @ concat (map (\<lambda>(_, c). opens (ready_now reg host) socket host c) (rl_conns ?w))\<rparr>"
    by (rule handleHostConnect_resumes [OF w r agent]) (use able in \<open>simp add: reopens_def\<close>)
  then show ?thesis
    by (simp add: map_values_comp then_with_hello(1) [OF able])
      (simp add: map_values_def split_def comp_def o)
qed

text \<open>
  C4 (\<open>panes_are_reopened\<close>): the agent of a host goes, another attaches, which forgets what the old one
  said it could do, and says hello with native sessions, and each of its writes is accepted. When it
  attaches, every pane that is not native is opened again with the frame that opened it, in the order of
  the panes, and waits no longer; a native pane still waits, and no grace timer is left to end that wait.
  When it says hello the native panes are opened in the same way and none waits. Connections to other
  hosts are untouched throughout.
\<close>

theorem panes_are_reopened:
  assumes "relay_ok w" and "rl_attached w" and "map_option k_socket (map_of (r_conns reg) host) = Some k0"
    and "\<forall>l. ev_agent_ok e1 k l \<and> ev_agent_ok e2 k l" and "ab_native a \<and> ab_screen a = 1"
  shows "snd (run relay_step (reg, w) [(e0, Agents (Unregister host k0)), (e1, Agents (Register host k tok))])
      = w\<lparr>rl_conns := map_values (awaiting native_pane host) (rl_conns w),
          rl_log := rl_log w @ concat (map (\<lambda>(_, c). opens (\<lambda>p. \<not> native_pane p) k host c) (rl_conns w))\<rparr>
    \<and> snd (run relay_step (reg, w)
        [(e0, Agents (Unregister host k0)), (e1, Agents (Register host k tok)), (e2, Agents (SetAbility host a))])
      = w\<lparr>rl_conns := map_values (awaiting (\<lambda>_. False) host) (rl_conns w),
          rl_log := rl_log w @ concat (map (\<lambda>(_, c). opens (\<lambda>p. \<not> native_pane p) k host c) (rl_conns w))
            @ concat (map (\<lambda>(_, c). opens native_pane k host c) (rl_conns w))\<rparr>"
proof -
  have gone: "unregister (relay_hub e0) host k0 (reg, w) = (forget_conn host reg, handleHostDisconnect e0 host w)"
    using assms(2,3) by (simp add: unregister_def emit_event_def relay_hub_def relay_handler_def Let_def)
  define new where "new = reg\<lparr>r_abil := AList.delete host (r_abil reg),
      r_conns := AList.update host \<lparr>k_socket = k, k_token = tok\<rparr> (AList.delete host (r_conns reg))\<rparr>"
  define said where "said = new\<lparr>r_abil := AList.update host a (r_abil new)\<rparr>"
  let ?w = "handleHostConnect e1 new host (handleHostDisconnect e0 host w)"
  have att: "rl_attached (handleHostDisconnect e0 host w)" using assms(2) by (simp add: handleHostDisconnect_def)
  have came: "register (relay_hub e1) host k tok (forget_conn host reg, handleHostDisconnect e0 host w) = (new, ?w)"
    using att by (simp add: new_def register_def forget_conn_def emit_event_def relay_hub_def relay_handler_def Let_def)
  have w: "?w = w\<lparr>rl_conns := map_values (awaiting native_pane host) (rl_conns w),
      rl_log := rl_log w @ concat (map (\<lambda>(_, c). opens (\<lambda>p. \<not> native_pane p) k host c) (rl_conns w))\<rparr>"
    by (rule reattached [OF assms(1)]) (use assms(4) in \<open>simp_all add: new_def hasHello_def\<close>)
  have "relay_ok ?w" by (intro relay_ok_handleHostConnect relay_ok_handleHostDisconnect assms(1))
  then have ok: "relay_ok (w\<lparr>rl_conns := map_values (awaiting native_pane host) (rl_conns w)\<rparr>)"
    unfolding w by (simp only: relay_ok_log)
  have hello: "setTerminalAbility (relay_hub e2) host a (new, ?w) = (said, handleHostConnect e2 said host ?w)"
    using assms(2) unfolding w by (simp add: said_def setTerminalAbility_def emit_event_def relay_hub_def relay_handler_def Let_def)
  have "handleHostConnect e2 said host ?w = w\<lparr>rl_conns := map_values (awaiting (\<lambda>_. False) host) (rl_conns w),
      rl_log := (rl_log w @ concat (map (\<lambda>(_, c). opens (\<lambda>p. \<not> native_pane p) k host c) (rl_conns w)))
        @ concat (map (\<lambda>(_, c). opens native_pane k host c) (rl_conns w))\<rparr>"
    unfolding w by (rule greeted [OF assms(1) ok])
      (use assms(4,5) in \<open>simp_all add: said_def new_def hasHello_def native_unsupported_def terminalAbility_def isConnected_def Let_def\<close>)
  then show ?thesis using gone came hello w by simp
qed

definition native_target :: wire_target where
  "native_target = \<lparr>t_kind = TSession, t_session = Some ''w1'', t_backend = Some Native, t_sessionId = None,
     t_tmuxId = None, t_intent = Some Ensure, t_cols = 80, t_rows = 24\<rparr>"

definition one_agent :: registry where
  "one_agent = \<lparr>r_conns = [(''h'', \<lparr>k_socket = 3, k_token = ''a''\<rparr>)], r_abil = []\<rparr>"

lemma shell_reopens: "reopens one_agent ''h'' shell_pane"
  by (simp add: reopens_def native_pane_def shell_pane_def new_pane_def)

text \<open>A connection with a native pane before the shell.\<close>

definition session_pane :: pane where
  "session_pane = new_pane calm one_conn ''n'' native_target"

definition two_panes :: relay_connection where
  "two_panes = one_conn\<lparr>rc_panes := [(''n'', session_pane), (''t'', shell_pane)]\<rparr>"

definition mixed :: relay where
  "mixed = one_pane\<lparr>rl_conns := [(''ab'', two_panes)]\<rparr>"

lemma mixed_ok: "relay_ok mixed"
proof -
  have "hex_id ''ab''" by (simp add: hex_id_def is_hex_def is_digit_def)
  moreover have "client_term_id ''t''" "client_term_id ''n''" by (simp_all add: client_term_id_def is_alnum_def is_lower_def)
  ultimately show ?thesis
    by (simp add: relay_ok_def mixed_def two_panes_def one_pane_def one_conn_def conn_ok_def pane_ok_def session_pane_def
        shell_pane_def new_pane_def agent_term_id_def)
qed

theorem panes_are_reopened_witness:
  "rl_log (snd (run relay_step (one_agent, mixed)
      [(calm, Agents (Unregister ''h'' 3)), (calm, Agents (Register ''h'' 4 ''b'')),
       (calm, Agents (SetAbility ''h'' \<lparr>ab_native = True, ab_screen = 1, ab_rename = None\<rparr>))]))
    = reopen_effects 4 two_panes shell_pane @ reopen_effects 4 two_panes session_pane"
proof -
  have r: "map_option k_socket (map_of (r_conns one_agent) ''h'') = Some 3" by (simp add: one_agent_def)
  have a: "rl_attached mixed" by (simp add: mixed_def one_pane_def)
  have e: "\<forall>l. ev_agent_ok calm 4 l \<and> ev_agent_ok calm 4 l" by (simp add: calm_def)
  have n: "ab_native \<lparr>ab_native = True, ab_screen = 1, ab_rename = None\<rparr>
      \<and> ab_screen \<lparr>ab_native = True, ab_screen = 1, ab_rename = None\<rparr> = 1" by simp
  have p: "rl_conns mixed = [(''ab'', two_panes)]" "rl_log mixed = []" "rc_host two_panes = ''h''"
      "rc_panes two_panes = [(''n'', session_pane), (''t'', shell_pane)]" "native_pane session_pane" "\<not> native_pane shell_pane"
    by (simp_all add: mixed_def one_pane_def two_panes_def one_conn_def native_pane_def session_pane_def shell_pane_def
        new_pane_def native_target_def)
  note panes_are_reopened [OF mixed_ok a r e n, THEN conjunct2, of calm "''b''"]
  then show ?thesis by (simp only: p) (simp add: opens_def p)
qed

section \<open>Where a terminal ends that could have gone on\<close>

lemma hello_outlives_agent:
  "hasHello (fst (run (registry_step hub) s [Register h k t, SetAbility h a, Unregister h k])) h
   \<and> \<not> isConnected (fst (run (registry_step hub) s [Register h k t, SetAbility h a, Unregister h k])) h"
  by (simp add: register_def setTerminalAbility_def unregister_def forget_conn_def hasHello_def isConnected_def Let_def)

lemma offline_unsupported: "\<not> isConnected reg host \<Longrightarrow> native_unsupported reg host"
  by (simp add: native_unsupported_def terminalAbility_def no_ability_def Let_def)

text \<open>
  The hello of an agent that went away is remembered, so while
  its host is offline an open of a native session is answered with an error, which ends the pane
  for good, where an open of any other session closes the socket so that the browser retries.
\<close>

theorem offline_native_open_is_refused:
  assumes "map_of (rl_conns w) cid = Some c" and "client_term_id t" and "map_of (rc_panes c) t = None"
    and "reg = fst (run (registry_step hub) s [Register (rc_host c) k tok, SetAbility (rc_host c) a, Unregister (rc_host c) k])"
    and "\<forall>l. ev_browser_ok e (rc_socket c) l"
  shows "handleClientFrame e reg cid (Inr (Open t target)) w
    = (if t_backend target = Some Native
       then effect (ToBrowser (rc_socket c) (ErrorFrame t ''NATIVE_SESSIONS_UNSUPPORTED'')) w
       else retryConnection e reg c w)"
proof -
  have reg: "hasHello reg (rc_host c)" "\<not> isConnected reg (rc_host c)"
    using hello_outlives_agent [of hub s "rc_host c" k tok a] unfolding assms(4) by blast+
  have "send_host e reg (rc_host c) f w = (False, w)" for f
    using reg(2) by (simp add: sendToHost_def isConnected_def)
  with reg(1) offline_unsupported [OF reg(2)] assms(1,2,3,5) show ?thesis
    by (simp add: handleClientFrame_def openPane_def send_browser_def)
qed

theorem offline_native_open_is_refused_witness:
  "rl_log (handleClientFrame calm
     (fst (run (registry_step (relay_hub calm)) (no_registry, new_relay)
       [Register ''h'' 3 ''a'', SetAbility ''h'' \<lparr>ab_native = True, ab_screen = 1, ab_rename = None\<rparr>, Unregister ''h'' 3]))
     ''ab'' (Inr (Open ''u'' native_target)) one_pane)
   = [ToBrowser 7 (ErrorFrame ''u'' ''NATIVE_SESSIONS_UNSUPPORTED'')]"
proof -
  have u: "client_term_id ''u''" by (simp add: client_term_id_def is_alnum_def is_lower_def)
  have p: "map_of (rc_panes one_conn) ''u'' = None" "\<forall>l. ev_browser_ok calm (rc_socket one_conn) l"
    by (simp_all add: one_conn_def calm_def)
  note open_native = offline_native_open_is_refused [OF one_pane_ok(2) u p(1) refl p(2),
      of "relay_hub calm" "(no_registry, new_relay)" 3 "''a''" "\<lparr>ab_native = True, ab_screen = 1, ab_rename = None\<rparr>" native_target]
  then show ?thesis by (simp add: one_pane_ok native_target_def one_pane_def)
qed

text \<open>The agent goes, the browser closes its waiting pane, the agent comes back, the browser opens another.\<close>

definition bare_shell :: wire_target where
  "bare_shell = snd (pn_open shell_pane)"

definition held :: relay where
  "held = handleHostDisconnect calm ''h'' one_pane"

definition emptied :: relay where
  "emptied = handleClientFrame calm no_registry ''ab'' (Inr (CloseTerm ''t'')) held"

definition returned :: relay where
  "returned = handleHostConnect calm one_agent ''h'' emptied"

definition working :: relay where
  "working = handleClientFrame calm one_agent ''ab'' (Inr (Open ''u'' bare_shell)) returned"

definition later :: surroundings where
  "later = calm\<lparr>ev_now := 120000\<rparr>"

lemma held_eq: "held = one_pane\<lparr>rl_conns := [(''ab'', hold calm 120000 one_conn)]\<rparr>"
  by (simp add: held_def handleHostDisconnect_def one_pane_def map_values_def one_conn_def)

definition lone :: relay_connection where
  "lone = one_conn\<lparr>rc_panes := [], rc_grace := Some 120000\<rparr>"

lemma emptied_conns: "rl_conns emptied = [(''ab'', lone)]"
proof -
  have t: "client_term_id ''t''" by (simp add: client_term_id_def is_alnum_def is_lower_def)
  have "map_of (rc_panes (hold calm 120000 one_conn)) ''t'' = Some (shell_pane\<lparr>pn_waiting := True\<rparr>)"
    by (simp add: hold_def one_conn_def map_values_def)
  with t show ?thesis
    by (simp add: emptied_def handleClientFrame_def held_eq closePane_def drop_pane_def hold_def lone_def
        one_conn_def calm_def sendToHost_def no_registry_def map_values_def shell_pane_def new_pane_def AList.delete_eq)
qed

lemma returned_conns: "returned = emptied"
  by (simp add: returned_def handleHostConnect_def emptied_conns reopen_connection_def waiting_panes_def lone_def)

lemma working_conns: "rl_conns working = [(''ab'', put_pane (new_pane calm lone ''u'' bare_shell) lone)]"
proof -
  have u: "client_term_id ''u''" by (simp add: client_term_id_def is_alnum_def is_lower_def)
  have b: "t_backend bare_shell = None" by (simp add: bare_shell_def shell_pane_def new_pane_def)
  have l: "rc_panes lone = []" "rc_host lone = ''h''" "rc_id lone = ''ab''"
    by (simp_all add: lone_def one_conn_def)
  show ?thesis
    by (simp add: working_def returned_conns handleClientFrame_def emptied_conns u b l openPane_def
        sendToHost_def one_agent_def write_agent_def calm_def Let_def)
qed

lemma giveUp_closes:
  assumes "map_of (rl_conns w) cid = Some c" and "rc_id c = cid"
  shows "rl_conns (giveUp e reg cid w) = AList.delete cid (rl_conns w)
    \<and> last (rl_log (giveUp e reg cid w)) = CloseBrowser (rc_socket c) 4001 ''host offline''"
proof -
  have "rl_conns (foldl (close_one e reg d r) v ps) = rl_conns v" for d r v ps
    by (induction ps arbitrary: v) (simp_all add: close_one_def)
  moreover have "AList.delete cid (AList.update cid d m) = AList.delete cid m" for d and m :: "(string \<times> relay_connection) list"
    by (induction m) (auto simp: AList.delete_eq)
  ultimately show ?thesis using assms
    by (simp add: giveUp_def retryConnection_def closeConnection_def Let_def)
qed

text \<open>
  Closing the last waiting pane does not stop the grace timer and
  neither does the agent's return, so a terminal opened afterwards, with the agent attached and
  nothing waiting, is closed with its socket as "host offline" when the old timer fires.
\<close>

theorem grace_timer_ends_live_pane:
  "isConnected one_agent ''h'' \<and> pane_at ''ab'' ''u'' working = Some (new_pane calm lone ''u'' bare_shell)
   \<and> \<not> pn_waiting (new_pane calm lone ''u'' bare_shell)
   \<and> connectionCount (snd (relay_step (one_agent, working) (later, GraceOver ''ab''))) = 0
   \<and> last (rl_log (snd (relay_step (one_agent, working) (later, GraceOver ''ab'')))) = CloseBrowser 7 4001 ''host offline''"
proof -
  let ?c = "put_pane (new_pane calm lone ''u'' bare_shell) lone"
  have g: "rc_grace ?c = Some 120000" "rc_socket ?c = 7" "rc_id ?c = ''ab''" "rc_id lone = ''ab''"
    by (simp_all add: lone_def one_conn_def)
  have "pane_at ''ab'' ''u'' working = Some (new_pane calm lone ''u'' bare_shell)"
    by (simp add: pane_at_def working_conns new_pane_def)
  moreover have fires: "snd (relay_step (one_agent, working) (later, GraceOver ''ab'')) = giveUp later one_agent ''ab'' working"
    using g by (simp add: working_conns later_def)
  moreover have "map_of (rl_conns working) ''ab'' = Some ?c" by (simp add: working_conns)
  note giveUp_closes [OF this g(3), of later one_agent]
  ultimately show ?thesis using g
    by (simp add: connectionCount_def working_conns isConnected_def one_agent_def AList.delete_eq new_pane_def)
qed

end
