(* ===== verification/History.thy ===== *)
theory History
  imports Prelude
begin

text \<open>
  \<^verbatim>\<open>packages/core/src/terminal-history.ts\<close>: terminal output as attributed text. One line of
  terminal bytes becomes a plain string or a list of runs sharing their attributes; escapes that
  are not colours are dropped and the text around them is kept.
\<close>

unbundle bit_operations_syntax

section \<open>Lines\<close>

datatype history_color = Palette int | Rgb int

record history_attrs =
  a_fg :: "history_color option"
  a_bg :: "history_color option"
  a_bold :: bool
  a_dim :: bool
  a_italic :: bool
  a_underline :: bool
  a_strike :: bool
  a_inverse :: bool

text \<open>A run: an attribute that is \<open>undefined\<close> is \<open>False\<close> or \<open>None\<close> here.\<close>

type_synonym history_span = "string \<times> history_attrs"

datatype history_line = Plain string | Spans "history_span list"

fun historyText :: "history_line \<Rightarrow> string" where
  "historyText (Plain s) = s"
| "historyText (Spans ss) = concat (map fst ss)"

definition historyPlain :: "history_line list \<Rightarrow> string" where
  "historyPlain ls = js_join [CHR 0x0A] (map historyText ls)"

definition HISTORY_FOLD_CHARS :: nat where "HISTORY_FOLD_CHARS = 400"

definition historyFoldable :: "history_line \<Rightarrow> bool" where
  "historyFoldable l = (HISTORY_FOLD_CHARS < length (historyText l))"

section \<open>The palette\<close>

definition pack_rgb :: "int \<Rightarrow> int \<Rightarrow> int \<Rightarrow> int" where
  "pack_rgb r g b = push_bit 16 r OR push_bit 8 g OR b"

definition cube_step :: "int \<Rightarrow> int" where
  "cube_step v = (if v = 0 then 0 else 95 + (v - 1) * 40)"

definition xterm256 :: "jsnum \<Rightarrow> int" where
  "xterm256 index =
     (if \<not> is_integer index \<or> int_of index < 16 \<or> int_of index > 255 then 0
      else if int_of index \<ge> 232 then let level = 8 + (int_of index - 232) * 10 in pack_rgb level level level
      else let offset = int_of index - 16
        in pack_rgb (cube_step (offset div 36 mod 6)) (cube_step (offset div 6 mod 6)) (cube_step (offset mod 6)))"

section \<open>Attributes\<close>

definition blank :: history_attrs where
  "blank = \<lparr>a_fg = None, a_bg = None, a_bold = False, a_dim = False, a_italic = False,
     a_underline = False, a_strike = False, a_inverse = False\<rparr>"

text \<open>\<open>Number.parseInt(part, 10)\<close>: \<open>None\<close> is \<open>NaN\<close>.\<close>

definition parse_int :: "string \<Rightarrow> int option" where
  "parse_int part =
     (let s = dropWhile is_space part;
          negative = (s \<noteq> [] \<and> hd s = CHR ''-'');
          s1 = (if s \<noteq> [] \<and> (hd s = CHR ''-'' \<or> hd s = CHR ''+'') then tl s else s);
          digits = takeWhile is_digit s1
      in if digits = [] then None
         else Some (if negative then - int (js_number digits) else int (js_number digits)))"

definition clamp_byte :: "int option \<Rightarrow> int" where
  "clamp_byte v = (case v of None \<Rightarrow> 0 | Some n \<Rightarrow> min 255 (max 0 n))"

text \<open>
  \<open>extended\<close>, given the codes after the 38 or 48: the colour it sets, if any, and how many of
  those codes it consumes. A \<open>NaN\<close> component is 0 after the shift.
\<close>

definition extended :: "int option list \<Rightarrow> history_color option \<times> nat" where
  "extended cs =
     (if nth_opt cs 0 = Some (Some 5) then
        (case nth_opt cs 1 of
           Some (Some index) \<Rightarrow> (if 0 \<le> index \<and> index \<le> 255 then Some (Palette index) else None, 2)
         | _ \<Rightarrow> (None, 2))
      else if nth_opt cs 0 = Some (Some 2) then
        (case (nth_opt cs 1, nth_opt cs 2, nth_opt cs 3) of
           (Some r, Some g, Some b) \<Rightarrow> (Some (Rgb (pack_rgb (clamp_byte r) (clamp_byte g) (clamp_byte b))), 4)
         | _ \<Rightarrow> (None, 4))
      else (None, 0))"

definition set_fg :: "history_color option \<Rightarrow> history_attrs \<Rightarrow> history_attrs" where
  "set_fg c a = (case c of None \<Rightarrow> a | Some _ \<Rightarrow> a\<lparr>a_fg := c\<rparr>)"

definition set_bg :: "history_color option \<Rightarrow> history_attrs \<Rightarrow> history_attrs" where
  "set_bg c a = (case c of None \<Rightarrow> a | Some _ \<Rightarrow> a\<lparr>a_bg := c\<rparr>)"

definition simple_code :: "int \<Rightarrow> history_attrs \<Rightarrow> history_attrs" where
  "simple_code n a =
     (if n = 0 then blank
      else if n = 1 then a\<lparr>a_bold := True\<rparr>
      else if n = 2 then a\<lparr>a_dim := True\<rparr>
      else if n = 3 then a\<lparr>a_italic := True\<rparr>
      else if n = 4 then a\<lparr>a_underline := True\<rparr>
      else if n = 7 then a\<lparr>a_inverse := True\<rparr>
      else if n = 9 then a\<lparr>a_strike := True\<rparr>
      else if n = 22 then a\<lparr>a_bold := False, a_dim := False\<rparr>
      else if n = 23 then a\<lparr>a_italic := False\<rparr>
      else if n = 24 then a\<lparr>a_underline := False\<rparr>
      else if n = 27 then a\<lparr>a_inverse := False\<rparr>
      else if n = 29 then a\<lparr>a_strike := False\<rparr>
      else if 30 \<le> n \<and> n \<le> 37 then a\<lparr>a_fg := Some (Palette (n - 30))\<rparr>
      else if n = 39 then a\<lparr>a_fg := None\<rparr>
      else if 40 \<le> n \<and> n \<le> 47 then a\<lparr>a_bg := Some (Palette (n - 40))\<rparr>
      else if n = 49 then a\<lparr>a_bg := None\<rparr>
      else if 90 \<le> n \<and> n \<le> 97 then a\<lparr>a_fg := Some (Palette (n - 90 + 8))\<rparr>
      else if 100 \<le> n \<and> n \<le> 107 then a\<lparr>a_bg := Some (Palette (n - 100 + 8))\<rparr>
      else a)"

fun apply_codes :: "history_attrs \<Rightarrow> int option list \<Rightarrow> history_attrs" where
  "apply_codes a [] = a"
| "apply_codes a (None # cs) = apply_codes a cs"
| "apply_codes a (Some n # cs) =
     (if n = 38 then apply_codes (set_fg (fst (extended cs)) a) (drop (snd (extended cs)) cs)
      else if n = 48 then apply_codes (set_bg (fst (extended cs)) a) (drop (snd (extended cs)) cs)
      else apply_codes (simple_code n a) cs)"

definition applySgr :: "history_attrs \<Rightarrow> string \<Rightarrow> history_attrs" where
  "applySgr a params =
     apply_codes a (map (\<lambda>part. if part = [] then Some 0 else parse_int part) (js_split CHR '';'' params))"

section \<open>Parsing a line\<close>

abbreviation ESC :: char where "ESC \<equiv> CHR 0x1B"

definition is_blank :: "char \<Rightarrow> bool" where
  "is_blank c = (c = CHR '' '' \<or> c = CHR 0x09)"

definition trimEnd :: "string \<Rightarrow> string" where
  "trimEnd s = rev (dropWhile is_blank (rev s))"

fun trim_rev :: "history_span list \<Rightarrow> history_span list" where
  "trim_rev [] = []"
| "trim_rev ((t, a) # ss) = (if trimEnd t \<noteq> [] then (trimEnd t, a) # ss else trim_rev ss)"

definition trimSpans :: "history_span list \<Rightarrow> history_span list" where
  "trimSpans ss = rev (trim_rev (rev ss))"

definition isPlain :: "history_span \<Rightarrow> bool" where
  "isPlain s = (snd s = blank)"

record parse_state =
  h_spans :: "history_span list"
  h_attrs :: history_attrs
  h_text :: string

definition flush :: "parse_state \<Rightarrow> parse_state" where
  "flush st =
     (if h_text st = [] then st
      else if h_spans st \<noteq> [] \<and> snd (last (h_spans st)) = h_attrs st
      then st\<lparr>h_spans := butlast (h_spans st) @ [(fst (last (h_spans st)) @ h_text st, h_attrs st)], h_text := []\<rparr>
      else st\<lparr>h_spans := h_spans st @ [(h_text st, h_attrs st)], h_text := []\<rparr>)"

definition csi_final :: "char \<Rightarrow> bool" where
  "csi_final c = (64 \<le> code c \<and> code c \<le> 126)"

definition intermediate :: "char \<Rightarrow> bool" where
  "intermediate c = (32 \<le> code c \<and> code c \<le> 47)"

text \<open>Past an OSC: up to and including BEL, or ESC and a backslash.\<close>

fun skip_osc :: "string \<Rightarrow> string" where
  "skip_osc [] = []"
| "skip_osc (c # r) = (if c = CHR 0x07 then r
     else if c = ESC \<and> r \<noteq> [] \<and> hd r = CHR 0x5C then tl r
     else skip_osc r)"

lemma skip_osc_length: "length (skip_osc s) \<le> length s"
  by (induction s rule: skip_osc.induct) auto

definition sgr :: "string \<Rightarrow> parse_state \<Rightarrow> parse_state" where
  "sgr params st = (let st1 = flush st in st1\<lparr>h_attrs := applySgr (h_attrs st1) params\<rparr>)"

text \<open>The walk over the line: the rest of the line stands for the index.\<close>

function scan :: "parse_state \<Rightarrow> string \<Rightarrow> parse_state" where
  "scan st [] = st"
| "scan st (c # r) =
     (if c \<noteq> ESC then scan (st\<lparr>h_text := h_text st @ [c]\<rparr>) r
      else case r of
        [] \<Rightarrow> st
      | next # r2 \<Rightarrow>
          if next = CHR ''['' then
            (case dropWhile (\<lambda>d. \<not> csi_final d) r2 of
               [] \<Rightarrow> st
             | final # rest \<Rightarrow>
                 scan (if final = CHR ''m'' then sgr (takeWhile (\<lambda>d. \<not> csi_final d) r2) st else st) rest)
          else if next = CHR '']'' then scan st (skip_osc r2)
          else if intermediate next then scan st (drop 1 (dropWhile intermediate r))
          else scan st r2)"
  by pat_completeness auto
termination
proof (relation "measure (length \<circ> snd)", goal_cases)
  case (3 st c r n r2 d ds)
  then have "length (d # ds) \<le> length r2" by (metis length_dropWhile_le)
  then show ?case using 3 by simp
next
  case (4 st c r n r2)
  then show ?case using skip_osc_length [of r2] by simp
next
  case (5 st c r n r2)
  then show ?case using length_dropWhile_le [of intermediate r2] by auto
qed auto

definition start :: parse_state where
  "start = \<lparr>h_spans = [], h_attrs = blank, h_text = []\<rparr>"

definition parseAnsiLine :: "string \<Rightarrow> history_line" where
  "parseAnsiLine raw =
     (if ESC \<notin> set raw then Plain (trimEnd raw)
      else let spans = trimSpans (h_spans (flush (scan start raw))) in
        if spans = [] then Plain []
        else if length spans = 1 \<and> isPlain (hd spans) then Plain (fst (hd spans))
        else Spans spans)"

fun drop_blank :: "history_line list \<Rightarrow> history_line list" where
  "drop_blank [] = []"
| "drop_blank (l # ls) = (if historyText l = [] then drop_blank ls else l # ls)"

definition parseAnsiLines :: "string list \<Rightarrow> history_line list" where
  "parseAnsiLines raw = rev (drop_blank (rev (map parseAnsiLine raw)))"

section \<open>The text of a line\<close>

text \<open>
  The grammar of a line, apart from colours: characters, control sequences, operating system
  commands, escapes with intermediate bytes, two-byte escapes, and the truncated forms of each at
  the end of the line. \<open>line_text raw t\<close>: the visible text of \<open>raw\<close> is \<open>t\<close>.
\<close>

abbreviation BEL :: char where "BEL \<equiv> CHR 0x07"
abbreviation BSL :: char where "BSL \<equiv> CHR 0x5C"

fun osc_body :: "string \<Rightarrow> bool" where
  "osc_body [] = True"
| "osc_body (c # r) = (c \<noteq> BEL \<and> \<not> (c = ESC \<and> r \<noteq> [] \<and> hd r = BSL) \<and> osc_body r)"

inductive line_text :: "string \<Rightarrow> string \<Rightarrow> bool" where
  lt_end: "line_text [] []"
| lt_char: "c \<noteq> ESC \<Longrightarrow> line_text r t \<Longrightarrow> line_text (c # r) (c # t)"
| lt_csi: "list_all (\<lambda>d. \<not> csi_final d) ps \<Longrightarrow> csi_final f \<Longrightarrow> line_text r t
    \<Longrightarrow> line_text (ESC # CHR ''['' # ps @ f # r) t"
| lt_csi_cut: "list_all (\<lambda>d. \<not> csi_final d) ps \<Longrightarrow> line_text (ESC # CHR ''['' # ps) []"
| lt_osc_bel: "osc_body b \<Longrightarrow> line_text r t \<Longrightarrow> line_text (ESC # CHR '']'' # b @ BEL # r) t"
| lt_osc_st: "osc_body b \<Longrightarrow> line_text r t \<Longrightarrow> line_text (ESC # CHR '']'' # b @ ESC # BSL # r) t"
| lt_osc_cut: "osc_body b \<Longrightarrow> line_text (ESC # CHR '']'' # b) []"
| lt_inter: "ps \<noteq> [] \<Longrightarrow> list_all intermediate ps \<Longrightarrow> \<not> intermediate f \<Longrightarrow> line_text r t
    \<Longrightarrow> line_text (ESC # ps @ f # r) t"
| lt_inter_cut: "ps \<noteq> [] \<Longrightarrow> list_all intermediate ps \<Longrightarrow> line_text (ESC # ps) []"
| lt_pair: "n \<noteq> CHR ''['' \<Longrightarrow> n \<noteq> CHR '']'' \<Longrightarrow> \<not> intermediate n \<Longrightarrow> line_text r t
    \<Longrightarrow> line_text (ESC # n # r) t"
| lt_esc: "line_text [ESC] []"

lemma skip_osc_body:
  "osc_body b \<Longrightarrow> skip_osc (b @ BEL # r) = r"
  "osc_body b \<Longrightarrow> skip_osc (b @ ESC # BSL # r) = r"
  "osc_body b \<Longrightarrow> skip_osc b = []"
proof (induction b)
  case (Cons c b)
  { case 1 then show ?case using Cons.IH(1) by (cases b) auto }
  { case 2 then show ?case using Cons.IH(2) by (cases b) auto }
  { case 3 then show ?case using Cons.IH(3) by (cases b) auto }
qed auto

lemma not_intermediate_brackets [simp]: "\<not> intermediate CHR ''[''" "\<not> intermediate CHR '']''"
  by (simp_all add: intermediate_def)

lemma dropWhile_all: "list_all P xs \<Longrightarrow> dropWhile P (xs @ ys) = dropWhile P ys"
  by (induction xs) auto

lemma takeWhile_all: "list_all P xs \<Longrightarrow> takeWhile P (xs @ ys) = xs @ takeWhile P ys"
  by (induction xs) auto

definition state_text :: "parse_state \<Rightarrow> string" where
  "state_text st = concat (map fst (h_spans st)) @ h_text st"

lemma flush_text: "concat (map fst (h_spans (flush st))) = state_text st"
proof -
  have "concat (map fst (butlast ss)) @ fst (last ss) = concat (map fst ss)" if "ss \<noteq> []" for ss :: "history_span list"
    using that by (induction ss rule: rev_induct) auto
  then show ?thesis by (auto simp: flush_def state_text_def simp flip: append_assoc)
qed

lemma flush_no_text [simp]: "h_text (flush st) = []" "h_attrs (flush st) = h_attrs st"
  by (simp_all add: flush_def)

lemma sgr_text [simp]: "state_text (sgr ps st) = state_text st"
  by (simp add: sgr_def Let_def state_text_def flush_text)

lemma scan_text: "line_text raw t \<Longrightarrow> state_text (scan st raw) = state_text st @ t"
proof (induction arbitrary: st rule: line_text.induct)
  case (lt_char c r t)
  then show ?case by (simp add: state_text_def)
next
  case (lt_csi ps f r t)
  then show ?case by (simp add: dropWhile_all takeWhile_all)
next
  case (lt_csi_cut ps)
  then have "dropWhile (\<lambda>d. \<not> csi_final d) ps = []" by (simp add: list_all_iff)
  then show ?case by (simp del: dropWhile_eq_Nil_conv)
next
  case (lt_osc_bel b r t)
  then show ?case by (simp add: skip_osc_body)
next
  case (lt_osc_st b r t)
  then show ?case by (simp add: skip_osc_body)
next
  case (lt_osc_cut b)
  then show ?case by (simp add: skip_osc_body)
next
  case (lt_inter ps f r t)
  obtain p qs where ps: "ps = p # qs" using lt_inter.hyps(1) by (cases ps) auto
  then have p: "intermediate p" "p \<noteq> CHR ''[''" "p \<noteq> CHR '']''"
    using lt_inter.hyps(2) not_intermediate_brackets by auto
  have "dropWhile intermediate (ps @ f # r) = f # r" using lt_inter.hyps by (simp add: dropWhile_all)
  with ps p lt_inter.IH show ?case by simp
next
  case (lt_inter_cut ps)
  obtain p qs where ps: "ps = p # qs" using lt_inter_cut.hyps(1) by (cases ps) auto
  then have p: "intermediate p" "p \<noteq> CHR ''[''" "p \<noteq> CHR '']''"
    using lt_inter_cut.hyps(2) not_intermediate_brackets by auto
  have "dropWhile intermediate qs = []" using lt_inter_cut.hyps ps by (simp add: list_all_iff)
  with ps p show ?case by (simp del: dropWhile_eq_Nil_conv)
next
  case (lt_pair n r t)
  then show ?case by simp
qed simp_all

lemma span_split: "list_all P s \<or> (\<exists>ps f r. s = ps @ f # r \<and> list_all P ps \<and> \<not> P f)"
proof (induction s)
  case (Cons c s)
  show ?case
  proof (cases "P c")
    case True
    from Cons show ?thesis
    proof
      assume "\<exists>ps f r. s = ps @ f # r \<and> list_all P ps \<and> \<not> P f"
      then obtain ps f r where "s = ps @ f # r" "list_all P ps" "\<not> P f" by blast
      then have "c # s = (c # ps) @ f # r" "list_all P (c # ps)" "\<not> P f" using True by simp_all
      then show ?thesis by blast
    qed (use True in simp)
  next
    case False
    then have "c # s = [] @ c # s" "list_all P []" "\<not> P c" by simp_all
    then show ?thesis by blast
  qed
qed simp

lemma osc_split: "osc_body b \<or> (\<exists>u v. osc_body u \<and> (b = u @ BEL # v \<or> b = u @ ESC # BSL # v))"
proof (induction b)
  case (Cons d b)
  consider "d = BEL" | "d = ESC" "b \<noteq> []" "hd b = BSL"
    | "d \<noteq> BEL" "\<not> (d = ESC \<and> b \<noteq> [] \<and> hd b = BSL)" by blast
  then show ?case
  proof cases
    case 1
    then show ?thesis by (metis append_Nil osc_body.simps(1))
  next
    case 2
    then show ?thesis by (metis append_Nil hd_Cons_tl osc_body.simps(1))
  next
    case 3
    from Cons show ?thesis
    proof
      assume "\<exists>u v. osc_body u \<and> (b = u @ BEL # v \<or> b = u @ ESC # BSL # v)"
      then obtain u v where u: "osc_body u" "b = u @ BEL # v \<or> b = u @ ESC # BSL # v" by blast
      then have "osc_body (d # u)" using 3 by (cases u) auto
      with u(2) show ?thesis by (metis append_Cons)
    qed (use 3 in simp)
  qed
qed simp

lemma line_text_csi:
  assumes "\<And>r. length r \<le> length s \<Longrightarrow> \<exists>t. line_text r t"
  shows "\<exists>t. line_text (ESC # CHR ''['' # s) t"
  using span_split [of "\<lambda>d. \<not> csi_final d" s]
proof
  assume "\<exists>ps f r. s = ps @ f # r \<and> list_all (\<lambda>d. \<not> csi_final d) ps \<and> \<not> \<not> csi_final f"
  then obtain ps f r where s: "s = ps @ f # r" "list_all (\<lambda>d. \<not> csi_final d) ps" "csi_final f" by blast
  then obtain t where "line_text r t" using assms [of r] by auto
  with s show ?thesis using lt_csi by blast
qed (use lt_csi_cut in blast)

lemma line_text_osc:
  assumes "\<And>r. length r \<le> length s \<Longrightarrow> \<exists>t. line_text r t"
  shows "\<exists>t. line_text (ESC # CHR '']'' # s) t"
  using osc_split [of s]
proof
  assume "\<exists>u v. osc_body u \<and> (s = u @ BEL # v \<or> s = u @ ESC # BSL # v)"
  then obtain u v where s: "osc_body u" "s = u @ BEL # v \<or> s = u @ ESC # BSL # v" by blast
  then obtain t where "line_text v t" using assms [of v] by auto
  with s show ?thesis using lt_osc_bel lt_osc_st by metis
qed (use lt_osc_cut in blast)

lemma line_text_inter:
  assumes "\<And>r. length r \<le> length s \<Longrightarrow> \<exists>t. line_text r t" and "intermediate n"
  shows "\<exists>t. line_text (ESC # n # s) t"
  using span_split [of intermediate s]
proof
  assume "list_all intermediate s"
  then show ?thesis using lt_inter_cut [of "n # s"] assms(2) by auto
next
  assume "\<exists>ps f r. s = ps @ f # r \<and> list_all intermediate ps \<and> \<not> intermediate f"
  then obtain ps f r where s: "s = ps @ f # r" "list_all intermediate ps" "\<not> intermediate f" by blast
  then obtain t where "line_text r t" using assms(1) [of r] by auto
  then show ?thesis using lt_inter [of "n # ps" f r t] s assms(2) by auto
qed

lemma line_text_total: "\<exists>t. line_text raw t"
proof (induction raw rule: length_induct)
  case (1 raw)
  then have shorter: "\<exists>t. line_text r t" if "length r < length raw" for r using that by blast
  show ?case
  proof (cases raw)
    case Nil
    then show ?thesis using lt_end by blast
  next
    case raw: (Cons c r)
    show ?thesis
    proof (cases "c = ESC \<and> r \<noteq> []")
      case True
      then obtain n s where r: "r = n # s" by (cases r) auto
      have less: "\<exists>t. line_text r t" if "length r \<le> length s" for r
        using shorter [of r] that raw r by simp
      consider "n = CHR ''[''" | "n = CHR '']''" | "intermediate n"
        | "n \<noteq> CHR ''[''" "n \<noteq> CHR '']''" "\<not> intermediate n" by blast
      then show ?thesis
        using line_text_csi [OF less] line_text_osc [OF less] line_text_inter [OF less] less [of s] lt_pair
        unfolding raw r using True by cases blast+
    next
      case False
      obtain t where "line_text r t" using shorter [of r] raw by auto
      then show ?thesis using False raw lt_char lt_esc by (cases "c = ESC") auto
    qed
  qed
qed

section \<open>Trimming\<close>

lemma trimEnd_append: "trimEnd (xs @ ys) = (if trimEnd ys = [] then trimEnd xs else xs @ trimEnd ys)"
proof -
  have "dropWhile is_blank (rev ys @ rev xs) = (if dropWhile is_blank (rev ys) = [] then dropWhile is_blank (rev xs)
      else dropWhile is_blank (rev ys) @ rev xs)"
    by (metis append_Nil dropWhile_append1 dropWhile_append2 dropWhile_eq_Nil_conv set_rev)
  then show ?thesis by (auto simp: trimEnd_def)
qed

lemma trimEnd_Nil [simp]: "trimEnd [] = []"
  by (simp add: trimEnd_def)

lemma trimEnd_idem [simp]: "trimEnd (trimEnd s) = trimEnd s"
proof -
  have "dropWhile P (dropWhile P xs) = dropWhile P xs" for P :: "char \<Rightarrow> bool" and xs by (induction xs) auto
  then show ?thesis by (simp add: trimEnd_def)
qed

lemma trim_rev_text: "concat (map fst (rev (trim_rev ss))) = trimEnd (concat (map fst (rev ss)))"
  by (induction ss rule: trim_rev.induct) (auto simp: trimEnd_append)

lemma trimSpans_text: "concat (map fst (trimSpans ss)) = trimEnd (concat (map fst ss))"
  using trim_rev_text [of "rev ss"] by (simp add: trimSpans_def)

lemma line_text_plain: "line_text raw t \<Longrightarrow> ESC \<notin> set raw \<Longrightarrow> t = raw"
  by (induction rule: line_text.induct) auto

lemma parse_text: "line_text raw t \<Longrightarrow> historyText (parseAnsiLine raw) = trimEnd t"
proof -
  assume t: "line_text raw t"
  let ?ss = "trimSpans (h_spans (flush (scan start raw)))"
  have "concat (map fst ?ss) = trimEnd t"
    using scan_text [OF t, of start] by (simp add: trimSpans_text flush_text) (simp add: state_text_def start_def)
  moreover have "ESC \<notin> set raw \<Longrightarrow> t = raw" using line_text_plain [OF t] by simp
  moreover have "length ?ss = 1 \<Longrightarrow> concat (map fst ?ss) = fst (hd ?ss)" by (cases ?ss) auto
  ultimately show ?thesis by (auto simp: parseAnsiLine_def Let_def)
qed

text \<open>
  Every line of terminal bytes has a visible text under the grammar
  of escapes, and what the sheet shows of the line is exactly that text without its trailing
  padding: no escape is printed and no text around one is lost, however the runs are merged.
\<close>

theorem parseAnsiLine_keeps_text:
  "(\<exists>t. line_text raw t) \<and> (line_text raw t \<longrightarrow> historyText (parseAnsiLine raw) = trimEnd t)"
  by (simp add: line_text_total parse_text)

theorem parseAnsiLine_keeps_text_witness:
  "historyText (parseAnsiLine (ESC # ''[1mab'' @ [ESC] @ ''[0m  '')) = ''ab''"
proof -
  have f: "csi_final (CHR ''m'')" "\<not> csi_final (CHR ''1'')" "\<not> csi_final (CHR ''0'')" by (simp_all add: csi_final_def)
  have "line_text ''  '' ''  ''" by (simp add: lt_char lt_end)
  then have "line_text (ESC # CHR ''['' # ''0'' @ CHR ''m'' # ''  '') ''  ''" using f by (intro lt_csi) simp_all
  then have "line_text (''ab'' @ ESC # CHR ''['' # ''0'' @ CHR ''m'' # ''  '') ''ab  ''" by (simp add: lt_char)
  then have "line_text (ESC # CHR ''['' # ''1'' @ CHR ''m'' # ''ab'' @ ESC # CHR ''['' # ''0'' @ CHR ''m'' # ''  '') ''ab  ''"
    using f by (intro lt_csi) simp_all
  then have "line_text (ESC # ''[1mab'' @ [ESC] @ ''[0m  '') ''ab  ''" by simp
  with parseAnsiLine_keeps_text [of "ESC # ''[1mab'' @ [ESC] @ ''[0m  ''" "''ab  ''"]
  show ?thesis by (simp add: trimEnd_def is_blank_def)
qed

section \<open>Runs\<close>

definition runs_ok :: "history_span list \<Rightarrow> bool" where
  "runs_ok ss = (list_all (\<lambda>s. fst s \<noteq> []) ss \<and> successively (\<lambda>s t. snd s \<noteq> snd t) ss)"

lemma runs_ok_snoc: "runs_ok (ss @ [s]) \<longleftrightarrow> runs_ok ss \<and> fst s \<noteq> [] \<and> (ss \<noteq> [] \<longrightarrow> snd (last ss) \<noteq> snd s)"
  by (auto simp: runs_ok_def successively_append_iff)

lemma flush_runs: "runs_ok (h_spans st) \<Longrightarrow> runs_ok (h_spans (flush st))"
proof (cases "h_spans st" rule: rev_cases)
  case (snoc ss s)
  then show "runs_ok (h_spans st) \<Longrightarrow> ?thesis"
    using runs_ok_snoc [of "ss @ [s]" "(h_text st, h_attrs st)"] by (auto simp: flush_def runs_ok_snoc)
qed (simp add: flush_def runs_ok_def)

lemma scan_runs: "runs_ok (h_spans st) \<Longrightarrow> runs_ok (h_spans (scan st raw))"
proof (induction st raw rule: scan.induct)
  case (2 st c r)
  have "runs_ok (h_spans (sgr ps st))" for ps using 2(6) by (simp add: sgr_def Let_def flush_runs)
  then show ?case using 2 by (auto split: list.split)
qed simp

lemma trim_rev_runs: "runs_ok (rev ss) \<Longrightarrow> runs_ok (rev (trim_rev ss))
   \<and> (trim_rev ss \<noteq> [] \<longrightarrow> trimEnd (fst (hd (trim_rev ss))) = fst (hd (trim_rev ss)))"
  by (induction ss rule: trim_rev.induct) (auto simp: runs_ok_snoc)

definition line_ok :: "history_line \<Rightarrow> bool" where
  "line_ok l = (case l of
     Plain s \<Rightarrow> trimEnd s = s
   | Spans ss \<Rightarrow> ss \<noteq> [] \<and> runs_ok ss \<and> trimEnd (fst (last ss)) = fst (last ss) \<and> map snd ss \<noteq> [blank])"

lemma trimSpans_last: "runs_ok ss \<Longrightarrow> trimSpans ss \<noteq> [] \<Longrightarrow> trimEnd (fst (last (trimSpans ss))) = fst (last (trimSpans ss))"
  using trim_rev_runs [of "rev ss"] by (simp add: trimSpans_def last_rev)

lemma parse_line_ok: "line_ok (parseAnsiLine raw)"
proof (cases "ESC \<in> set raw")
  case True
  define ss where "ss = trimSpans (h_spans (flush (scan start raw)))"
  have ok: "runs_ok (h_spans (flush (scan start raw)))"
    by (rule flush_runs, rule scan_runs) (simp add: start_def runs_ok_def)
  then have "runs_ok ss" using trim_rev_runs [of "rev (h_spans (flush (scan start raw)))"]
    by (simp add: ss_def trimSpans_def)
  moreover have "ss \<noteq> [] \<Longrightarrow> trimEnd (fst (last ss)) = fst (last ss)"
    using trimSpans_last [OF ok] by (simp add: ss_def)
  moreover have "map snd ss = [blank] \<Longrightarrow> length ss = 1 \<and> isPlain (hd ss)" by (auto simp: isPlain_def)
  moreover have "length ss = 1 \<Longrightarrow> last ss = hd ss" by (cases ss) auto
  ultimately show ?thesis using True by (auto simp: parseAnsiLine_def line_ok_def Let_def simp flip: ss_def)
qed (simp add: parseAnsiLine_def line_ok_def)

text \<open>
  A parsed line has no more runs than it needs: no run is empty,
  neighbouring runs differ in their attributes, nothing ends in padding, and a line without
  attributes is a plain string.
\<close>

theorem parseAnsiLine_normal:
  "case parseAnsiLine raw of
     Plain s \<Rightarrow> trimEnd s = s
   | Spans ss \<Rightarrow> ss \<noteq> [] \<and> list_all (\<lambda>s. fst s \<noteq> []) ss \<and> successively (\<lambda>s t. snd s \<noteq> snd t) ss
       \<and> trimEnd (fst (last ss)) = fst (last ss) \<and> map snd ss \<noteq> [blank]"
  using parse_line_ok [of raw] by (cases "parseAnsiLine raw") (simp_all add: line_ok_def runs_ok_def)

section \<open>Writing a line and reading it back\<close>

text \<open>The codes that set every attribute of a run from scratch, and the bytes of a line of runs.\<close>

fun color_codes :: "nat \<Rightarrow> history_color option \<Rightarrow> nat list" where
  "color_codes n None = []"
| "color_codes n (Some (Palette i)) = [n, 5, nat i]"
| "color_codes n (Some (Rgb v)) = [n, 2, nat (v div 65536), nat (v div 256 mod 256), nat (v mod 256)]"

definition flag_codes :: "history_attrs \<Rightarrow> nat list" where
  "flag_codes a = (if a_bold a then [1] else []) @ (if a_dim a then [2] else []) @ (if a_italic a then [3] else [])
     @ (if a_underline a then [4] else []) @ (if a_inverse a then [7] else []) @ (if a_strike a then [9] else [])"

definition attr_codes :: "history_attrs \<Rightarrow> nat list" where
  "attr_codes a = 0 # flag_codes a @ color_codes 38 (a_fg a) @ color_codes 48 (a_bg a)"

definition span_bytes :: "history_span \<Rightarrow> string" where
  "span_bytes s = ESC # CHR ''['' # js_join '';'' (map nat_str (attr_codes (snd s))) @ CHR ''m'' # fst s"

fun line_bytes :: "history_line \<Rightarrow> string" where
  "line_bytes (Plain s) = s"
| "line_bytes (Spans ss) = concat (map span_bytes ss)"

fun color_ok :: "history_color option \<Rightarrow> bool" where
  "color_ok None = True"
| "color_ok (Some (Palette i)) = (0 \<le> i \<and> i \<le> 255)"
| "color_ok (Some (Rgb v)) = (0 \<le> v \<and> v < 16777216)"

definition printable_line :: "history_line \<Rightarrow> bool" where
  "printable_line l = (line_ok l \<and> (case l of Plain s \<Rightarrow> ESC \<notin> set s
     | Spans ss \<Rightarrow> list_all (\<lambda>s. ESC \<notin> set (fst s) \<and> color_ok (a_fg (snd s)) \<and> color_ok (a_bg (snd s))) ss))"

lemma push_or_sum: "0 \<le> b \<Longrightarrow> b < 2 ^ n \<Longrightarrow> push_bit n a OR b = a * 2 ^ n + (b :: int)"
proof -
  assume "0 \<le> b" and "b < 2 ^ n"
  then have b: "take_bit n b = b" by (simp add: take_bit_int_eq_self)
  then have "push_bit n a OR b = concat_bit n b a" by (simp add: concat_bit_def or.commute)
  also have "\<dots> = take_bit n b + push_bit n a" by (simp add: concat_bit_eq)
  finally show ?thesis using b by (simp add: push_bit_eq_mult)
qed

lemma pack_rgb_sum:
  assumes "0 \<le> g" "g < 256" "0 \<le> b" "b < 256"
  shows "pack_rgb r g b = r * 65536 + g * 256 + b"
proof -
  have "push_bit 16 r OR push_bit 8 g = push_bit 8 (push_bit 8 r OR g)" by (simp add: push_bit_or)
  also have "push_bit 8 r OR g = r * 256 + g" using push_or_sum [of g 8 r] assms by simp
  also have "push_bit 8 (r * 256 + g) OR b = (r * 256 + g) * 256 + b" using push_or_sum [of b 8] assms by simp
  finally show ?thesis by (simp add: pack_rgb_def or.assoc)
qed

lemma pack_rgb_bytes:
  assumes "0 \<le> v" and "v < 16777216"
  shows "pack_rgb (v div 65536) (v div 256 mod 256) (v mod 256) = v"
proof -
  have "v div 65536 = v div 256 div 256" by (simp add: zdiv_zmult2_eq [symmetric])
  then have "v div 65536 * 65536 + v div 256 mod 256 * 256 + v mod 256 = v"
    using div_mult_mod_eq [of v 256] div_mult_mod_eq [of "v div 256" 256] by linarith
  then show ?thesis using pack_rgb_sum [of "v div 256 mod 256" "v mod 256"] by simp
qed

lemma cube_step_byte: "0 \<le> v \<Longrightarrow> v < 6 \<Longrightarrow> 0 \<le> cube_step v \<and> cube_step v < 256"
  by (simp add: cube_step_def)

text \<open>A palette index outside the six-level cube and the grey ramp is black, and every colour is a
  24-bit colour.\<close>

lemma xterm256_bounds: "0 \<le> xterm256 i \<and> xterm256 i < 16777216"
proof -
  have "0 \<le> pack_rgb r g b \<and> pack_rgb r g b < 16777216"
    if "0 \<le> r" "r < 256" "0 \<le> g" "g < 256" "0 \<le> b" "b < 256" for r g b
    using that by (simp add: pack_rgb_sum)
  with cube_step_byte show ?thesis by (simp add: xterm256_def Let_def)
qed

section \<open>Reading the codes\<close>

abbreviation codes :: "nat list \<Rightarrow> int option list" where
  "codes ns \<equiv> map (\<lambda>n. Some (int n)) ns"

lemma apply_flag:
  "apply_codes a (codes ((if b then [n] else []) @ ns)) = apply_codes (if b then simple_code (int n) a else a) (codes ns)"
  if "n \<noteq> 38" "n \<noteq> 48"
  using that by simp

lemma apply_color:
  assumes "color_ok c"
  shows "apply_codes a (codes (color_codes 38 c @ ns)) = apply_codes (set_fg c a) (codes ns)"
    and "apply_codes a (codes (color_codes 48 c @ ns)) = apply_codes (set_bg c a) (codes ns)"
proof -
  have e: "c = Some d \<Longrightarrow> extended (codes (tl (color_codes n c) @ ns)) = (c, length (tl (color_codes n c)))" for n d
    using assms by (cases d) (auto simp: extended_def nth_opt_def clamp_byte_def pack_rgb_bytes)
  show "apply_codes a (codes (color_codes 38 c @ ns)) = apply_codes (set_fg c a) (codes ns)"
    using e [of _ 38] by (cases c; cases "the c") (auto simp: set_fg_def)
  show "apply_codes a (codes (color_codes 48 c @ ns)) = apply_codes (set_bg c a) (codes ns)"
    using e [of _ 48] by (cases c; cases "the c") (auto simp: set_bg_def)
qed

lemma apply_attr_codes:
  assumes "color_ok (a_fg a)" and "color_ok (a_bg a)"
  shows "apply_codes a0 (codes (attr_codes a)) = a"
proof -
  have "apply_codes a0 (codes (attr_codes a)) = apply_codes blank (codes (flag_codes a @ color_codes 38 (a_fg a) @ color_codes 48 (a_bg a)))"
    by (simp add: attr_codes_def simple_code_def)
  also have "\<dots> = apply_codes (blank\<lparr>a_bold := a_bold a, a_dim := a_dim a, a_italic := a_italic a,
      a_underline := a_underline a, a_inverse := a_inverse a, a_strike := a_strike a\<rparr>)
      (codes (color_codes 38 (a_fg a) @ color_codes 48 (a_bg a)))"
    unfolding flag_codes_def append_assoc
    by (simp only: apply_flag) (simp add: simple_code_def blank_def)
  also have "\<dots> = a"
    using apply_color(1) [OF assms(1), of _ "color_codes 48 (a_bg a)"] apply_color(2) [OF assms(2), of _ "[]"]
    by (cases "a_fg a"; cases "a_bg a") (simp_all add: set_fg_def set_bg_def blank_def)
  finally show ?thesis .
qed

lemma parse_int_nat_str: "n < 2 ^ 53 \<Longrightarrow> parse_int (nat_str n) = Some (int n)"
proof -
  assume n: "n < 2 ^ 53"
  obtain c s where ns: "nat_str n = c # s" by (cases "nat_str n") auto
  have d: "is_digit c" "\<forall>x \<in> set s. is_digit x" using nat_str_digits [of n] ns by auto
  then have "\<not> is_space c" "c \<noteq> CHR ''-''" "c \<noteq> CHR ''+''" by (auto simp: is_digit_def is_space_def)
  then show ?thesis using d js_number_nat_str [OF n] ns by (simp add: parse_int_def Let_def takeWhile_eq_all_conv [THEN iffD2])
qed

lemma color_codes_small: "color_ok c \<Longrightarrow> n < 256 \<Longrightarrow> m \<in> set (color_codes n c) \<Longrightarrow> m < 256"
  by (cases c rule: color_ok.cases) (auto simp: nat_less_iff)

lemma attr_codes_small:
  "color_ok (a_fg a) \<Longrightarrow> color_ok (a_bg a) \<Longrightarrow> m \<in> set (attr_codes a) \<Longrightarrow> m < 2 ^ 53"
  using color_codes_small [of "a_fg a" 38 m] color_codes_small [of "a_bg a" 48 m]
  by (auto simp: attr_codes_def flag_codes_def split: if_splits)

lemma applySgr_attr_codes:
  assumes "color_ok (a_fg a)" and "color_ok (a_bg a)"
  shows "applySgr a0 (js_join '';'' (map nat_str (attr_codes a))) = a"
proof -
  have "js_split CHR '';'' (js_join '';'' (map nat_str (attr_codes a))) = map nat_str (attr_codes a)"
    by (rule js_split_join) (auto simp: attr_codes_def is_digit_def)
  moreover have "map (\<lambda>part. if part = [] then Some 0 else parse_int part) (map nat_str (attr_codes a)) = codes (attr_codes a)"
    using parse_int_nat_str attr_codes_small [OF assms] by simp
  ultimately show ?thesis unfolding applySgr_def by (simp only: apply_attr_codes [OF assms])
qed

lemma js_join_chars: "set (js_join sep ws) \<subseteq> set sep \<union> \<Union> (set ` set ws)"
  by (induction sep ws rule: js_join.induct) auto

lemma codes_not_final: "list_all (\<lambda>d. \<not> csi_final d) (js_join '';'' (map nat_str ns))"
proof -
  have "\<not> csi_final d" if "d \<in> set (js_join '';'' (map nat_str ns))" for d
  proof -
    have "d = CHR '';'' \<or> is_digit d" using js_join_chars [of "'';''" "map nat_str ns"] that nat_str_digits by fastforce
    then show ?thesis by (auto simp: csi_final_def is_digit_def)
  qed
  then show ?thesis by (simp add: list_all_iff)
qed

lemma scan_chars: "ESC \<notin> set s \<Longrightarrow> scan st (s @ r) = scan (st\<lparr>h_text := h_text st @ s\<rparr>) r"
  by (induction s arbitrary: st) auto

lemma scan_span:
  assumes "color_ok (a_fg (snd s))" and "color_ok (a_bg (snd s))" and "ESC \<notin> set (fst s)"
  shows "scan st (span_bytes s @ r) = scan ((flush st)\<lparr>h_attrs := snd s, h_text := fst s\<rparr>) r"
proof -
  let ?ps = "js_join '';'' (map nat_str (attr_codes (snd s)))"
  have m: "csi_final CHR ''m''" by (simp add: csi_final_def)
  have "scan st (span_bytes s @ r) = scan (sgr ?ps st) (fst s @ r)"
    using dropWhile_all [OF codes_not_final [of "attr_codes (snd s)"], of "CHR ''m'' # fst s @ r"]
      takeWhile_all [OF codes_not_final [of "attr_codes (snd s)"], of "CHR ''m'' # fst s @ r"] m
    by (simp add: span_bytes_def)
  also have "\<dots> = scan ((sgr ?ps st)\<lparr>h_text := fst s\<rparr>) r"
    using scan_chars [OF assms(3), of "sgr ?ps st" r] by (simp add: sgr_def Let_def)
  finally show ?thesis using applySgr_attr_codes [OF assms(1,2), of "h_attrs st"] by (simp add: sgr_def Let_def)
qed

lemma flush_span:
  "runs_ok (ss @ [s]) \<Longrightarrow> flush (st\<lparr>h_spans := ss, h_attrs := snd s, h_text := fst s\<rparr>)
    = st\<lparr>h_spans := ss @ [s], h_attrs := snd s, h_text := []\<rparr>"
  by (auto simp: runs_ok_snoc flush_def)

lemma scan_spans:
  assumes "list_all (\<lambda>s. ESC \<notin> set (fst s) \<and> color_ok (a_fg (snd s)) \<and> color_ok (a_bg (snd s))) ss"
    and "runs_ok (done @ ss)" and "h_spans (flush st) = done"
  shows "h_spans (flush (scan st (concat (map span_bytes ss)))) = done @ ss"
  using assms
proof (induction ss arbitrary: "done" st)
  case (Cons s ss)
  let ?st = "(flush st)\<lparr>h_attrs := snd s, h_text := fst s\<rparr>"
  have ok: "runs_ok (done @ [s])" using Cons.prems(2) by (auto simp: runs_ok_def successively_append_iff)
  have "scan st (concat (map span_bytes (s # ss))) = scan ?st (concat (map span_bytes ss))"
    using scan_span [of s st "concat (map span_bytes ss)"] Cons.prems(1) by simp
  moreover have "h_spans (flush ?st) = done @ [s]"
    using flush_span [OF ok, of "flush st"] Cons.prems(3) by auto
  ultimately show ?case using Cons.IH [of "done @ [s]" ?st] Cons.prems by simp
qed simp

lemma trimSpans_trimmed: "runs_ok ss \<Longrightarrow> ss \<noteq> [] \<Longrightarrow> trimEnd (fst (last ss)) = fst (last ss) \<Longrightarrow> trimSpans ss = ss"
  by (cases ss rule: rev_cases) (auto simp: trimSpans_def runs_ok_snoc)

lemma parse_line_bytes:
  assumes "printable_line l"
  shows "parseAnsiLine (line_bytes l) = l"
proof (cases l)
  case (Plain s)
  with assms show ?thesis by (simp add: printable_line_def parseAnsiLine_def line_ok_def)
next
  case (Spans ss)
  have ok: "ss \<noteq> []" "runs_ok ss" "trimEnd (fst (last ss)) = fst (last ss)" "map snd ss \<noteq> [blank]"
    and each: "list_all (\<lambda>s. ESC \<notin> set (fst s) \<and> color_ok (a_fg (snd s)) \<and> color_ok (a_bg (snd s))) ss"
    using assms Spans by (simp_all add: printable_line_def line_ok_def)
  have "h_spans (flush (scan start (concat (map span_bytes ss)))) = [] @ ss"
    by (rule scan_spans [OF each]) (use ok in \<open>simp_all add: start_def flush_def\<close>)
  moreover have "ESC \<in> set (concat (map span_bytes ss))"
    using ok(1) by (cases ss) (auto simp: span_bytes_def)
  moreover have "\<not> (length ss = 1 \<and> isPlain (hd ss))" using ok(1,4) by (cases ss) (auto simp: isPlain_def)
  ultimately show ?thesis using Spans ok by (simp add: parseAnsiLine_def trimSpans_trimmed)
qed

interpretation history_text: codec line_bytes "\<lambda>raw. Some (parseAnsiLine raw)" printable_line
  by unfold_locales (simp add: parse_line_bytes)

text \<open>
  C32 (\<open>history_roundtrip\<close>): every attributed line in normal form, whatever its attributes, palette
  indices and true colours, is read back exactly from the bytes that set each run's attributes in
  full before its text.
\<close>

theorem history_roundtrip:
  assumes "printable_line l"
  shows "parseAnsiLine (line_bytes l) = l"
  using assms by (rule parse_line_bytes)

theorem history_roundtrip_witness:
  "parseAnsiLine (line_bytes (Spans [(''err'', blank\<lparr>a_fg := Some (Palette 9), a_bold := True\<rparr>), ('' ok'', blank\<lparr>a_bg := Some (Rgb 1122867)\<rparr>)]))
   = Spans [(''err'', blank\<lparr>a_fg := Some (Palette 9), a_bold := True\<rparr>), ('' ok'', blank\<lparr>a_bg := Some (Rgb 1122867)\<rparr>)]"
  by (rule history_roundtrip)
    (simp add: printable_line_def line_ok_def runs_ok_def trimEnd_def is_blank_def blank_def)

section \<open>Sheets and colours\<close>

lemma drop_blank_hd: "drop_blank ls \<noteq> [] \<Longrightarrow> historyText (hd (drop_blank ls)) \<noteq> []"
  by (induction ls) auto

lemma drop_blank_split: "\<exists>bs. ls = bs @ drop_blank ls \<and> list_all (\<lambda>l. historyText l = []) bs"
proof (induction ls)
  case (Cons l ls)
  then obtain bs where bs: "ls = bs @ drop_blank ls" "list_all (\<lambda>l. historyText l = []) bs" by blast
  show ?case
  proof (cases "historyText l = []")
    case True
    then have "l # ls = (l # bs) @ drop_blank (l # ls)" "list_all (\<lambda>l. historyText l = []) (l # bs)"
      using bs by simp_all
    then show ?thesis by blast
  qed simp
qed simp

lemma parseAnsiLines_tail:
  "(\<exists>bs. map parseAnsiLine raw = parseAnsiLines raw @ bs \<and> list_all (\<lambda>l. historyText l = []) bs)
   \<and> (parseAnsiLines raw \<noteq> [] \<longrightarrow> historyText (last (parseAnsiLines raw)) \<noteq> [])"
proof -
  obtain bs where "rev (map parseAnsiLine raw) = bs @ drop_blank (rev (map parseAnsiLine raw))"
    "list_all (\<lambda>l. historyText l = []) bs" using drop_blank_split by blast
  then have "map parseAnsiLine raw = parseAnsiLines raw @ rev bs" "list_all (\<lambda>l. historyText l = []) (rev bs)"
    by (metis parseAnsiLines_def rev_append rev_rev_ident, simp)
  moreover have "parseAnsiLines raw \<noteq> [] \<Longrightarrow> historyText (last (parseAnsiLines raw)) \<noteq> []"
    using drop_blank_hd by (simp add: parseAnsiLines_def last_rev)
  ultimately show ?thesis by blast
qed

end
