(* ===== verification/Keys.thy ===== *)
theory Keys
  imports Machines
begin

text \<open>
  \<^verbatim>\<open>packages/core/src/terminal-keys.ts\<close>: which keystrokes the terminal answers itself, and the
  bytes of the helper row of a phone, with its latched Ctrl.
\<close>

section \<open>Claimed keystrokes\<close>

text \<open>An absent modifier is false.\<close>

record key_event =
  ke_type :: "string option"
  ke_key :: "string option"
  ke_code :: "string option"
  ke_keyCode :: "int option"
  ke_ctrl :: bool
  ke_shift :: bool
  ke_alt :: bool
  ke_meta :: bool

datatype key_action = Copy | Newline | Pass

definition isCopyCombo :: "key_event \<Rightarrow> bool" where
  "isCopyCombo e =
     (if ke_alt e then False
      else if (ke_key e = Some ''Insert'' \<or> ke_code e = Some ''Insert'') \<and> ke_ctrl e \<and> \<not> ke_meta e then True
      else let isC = ke_key e = Some ''c'' \<or> ke_key e = Some ''C'' \<or> ke_code e = Some ''KeyC'' in
        if \<not> isC then False
        else if ke_meta e \<and> \<not> ke_ctrl e then True
        else if ke_ctrl e \<and> ke_shift e then True
        else False)"

definition isNewlineCombo :: "key_event \<Rightarrow> bool" where
  "isNewlineCombo e =
     (let enter = ke_key e = Some ''Enter'' \<or> ke_code e = Some ''Enter'' \<or> ke_keyCode e = Some 13 in
      if \<not> enter \<or> \<not> ke_shift e then False
      else \<not> (ke_ctrl e \<or> ke_alt e \<or> ke_meta e))"

definition terminalKeyAction :: "key_event option \<Rightarrow> key_action" where
  "terminalKeyAction ev =
     (case ev of
        None \<Rightarrow> Pass
      | Some e \<Rightarrow>
          if truthy (ke_type e) \<and> ke_type e \<noteq> Some ''keydown'' then Pass
          else if isNewlineCombo e then Newline
          else if isCopyCombo e then Copy else Pass)"

definition TERMINAL_NEWLINE :: string where "TERMINAL_NEWLINE = [CHR 0x0A]"

section \<open>The helper row\<close>

text \<open>Every key but \<open>ctrl\<close>, which sends nothing of its own.\<close>

datatype plain_key = KEsc | KTab | KUp | KDown | KLeft | KRight | KEnter | KShiftTab | KHome | KEnd
  | KPageUp | KPageDown | KDelete | KBackspace | KF1 | KF2 | KF3 | KF4 | KF5 | KF6 | KF7 | KF8 | KF9
  | KF10 | KF11 | KF12 | KCtrlA | KCtrlC | KCtrlD | KCtrlE | KCtrlK | KCtrlL | KCtrlR | KCtrlU
  | KCtrlW | KCtrlZ

datatype helper_key = KCtrl | Key plain_key

definition HELPER_KEYS :: "helper_key list" where
  "HELPER_KEYS = map Key [KEsc, KLeft, KDown, KUp, KRight]"

definition HELPER_KEY_SETS :: "(string \<times> helper_key list) list" where
  "HELPER_KEY_SETS =
     [(''nav'', HELPER_KEYS),
      (''edit'', map Key [KShiftTab, KTab, KEnter, KBackspace, KDelete]),
      (''move'', map Key [KHome, KEnd, KPageUp, KPageDown]),
      (''ctrl'', map Key [KCtrlC, KCtrlD, KCtrlZ, KCtrlL, KCtrlR])]"

abbreviation esc_seq :: "string \<Rightarrow> string" where "esc_seq s \<equiv> CHR 0x1B # s"

fun PLAIN :: "plain_key \<Rightarrow> string" where
  "PLAIN KEsc = [CHR 0x1B]"
| "PLAIN KTab = [CHR 0x09]"
| "PLAIN KEnter = [CHR 0x0D]"
| "PLAIN KUp = esc_seq ''[A''"
| "PLAIN KDown = esc_seq ''[B''"
| "PLAIN KRight = esc_seq ''[C''"
| "PLAIN KLeft = esc_seq ''[D''"
| "PLAIN KShiftTab = esc_seq ''[Z''"
| "PLAIN KHome = esc_seq ''[H''"
| "PLAIN KEnd = esc_seq ''[F''"
| "PLAIN KPageUp = esc_seq ''[5~''"
| "PLAIN KPageDown = esc_seq ''[6~''"
| "PLAIN KDelete = esc_seq ''[3~''"
| "PLAIN KBackspace = [CHR 0x7F]"
| "PLAIN KF1 = esc_seq ''OP''"
| "PLAIN KF2 = esc_seq ''OQ''"
| "PLAIN KF3 = esc_seq ''OR''"
| "PLAIN KF4 = esc_seq ''OS''"
| "PLAIN KF5 = esc_seq ''[15~''"
| "PLAIN KF6 = esc_seq ''[17~''"
| "PLAIN KF7 = esc_seq ''[18~''"
| "PLAIN KF8 = esc_seq ''[19~''"
| "PLAIN KF9 = esc_seq ''[20~''"
| "PLAIN KF10 = esc_seq ''[21~''"
| "PLAIN KF11 = esc_seq ''[23~''"
| "PLAIN KF12 = esc_seq ''[24~''"
| "PLAIN KCtrlA = [CHR 0x01]"
| "PLAIN KCtrlC = [CHR 0x03]"
| "PLAIN KCtrlD = [CHR 0x04]"
| "PLAIN KCtrlE = [CHR 0x05]"
| "PLAIN KCtrlK = [CHR 0x0B]"
| "PLAIN KCtrlL = [CHR 0x0C]"
| "PLAIN KCtrlR = [CHR 0x12]"
| "PLAIN KCtrlU = [CHR 0x15]"
| "PLAIN KCtrlW = [CHR 0x17]"
| "PLAIN KCtrlZ = [CHR 0x1A]"

fun CTRL_ARROW :: "plain_key \<Rightarrow> string option" where
  "CTRL_ARROW KUp = Some (esc_seq ''[1;5A'')"
| "CTRL_ARROW KDown = Some (esc_seq ''[1;5B'')"
| "CTRL_ARROW KRight = Some (esc_seq ''[1;5C'')"
| "CTRL_ARROW KLeft = Some (esc_seq ''[1;5D'')"
| "CTRL_ARROW _ = None"

text \<open>\<open>pressHelperKey\<close>: the bytes and the latch that follows.\<close>

fun pressHelperKey :: "bool \<Rightarrow> helper_key \<Rightarrow> string \<times> bool" where
  "pressHelperKey ctrl KCtrl = ([], \<not> ctrl)"
| "pressHelperKey ctrl (Key k) =
     (case (ctrl, CTRL_ARROW k) of
        (True, Some bytes) \<Rightarrow> (bytes, False)
      | _ \<Rightarrow>
          if ctrl \<and> k = KEsc then (PLAIN KEsc, False)
          else if ctrl \<and> k = KEnter then ([CHR 0x0A], False)
          else if ctrl \<and> k = KTab then (PLAIN KTab, False)
          else (PLAIN k, ctrl))"

definition ctrlChord :: "string \<Rightarrow> string option" where
  "ctrlChord s =
     (case s of
        [c] \<Rightarrow>
          if 97 \<le> code c \<and> code c \<le> 122 then Some [char_of (code c - 96)]
          else if 65 \<le> code c \<and> code c \<le> 90 then Some [char_of (code c - 64)]
          else if 64 \<le> code c \<and> code c \<le> 95 then Some [char_of (code c - 64)]
          else if c = CHR ''?'' then Some [CHR 0x7F]
          else if c = CHR '' '' then Some [CHR 0x00]
          else None
      | _ \<Rightarrow> None)"

section \<open>Claims\<close>

text \<open>
  Whatever else a key event carries, Ctrl+C without Shift is
  passed on, so it interrupts; a copy is claimed only with Ctrl or Cmd and without Alt, a newline
  only for Shift+Enter alone, and nothing but a key-down is claimed.
\<close>

theorem ctrl_c_reaches_the_shell:
  "terminalKeyAction (Some (e\<lparr>ke_key := Some ''c'', ke_code := Some ''KeyC'', ke_keyCode := Some 67,
      ke_ctrl := True, ke_shift := False\<rparr>)) = Pass
   \<and> (terminalKeyAction (Some e) = Copy \<longrightarrow> (ke_ctrl e \<or> ke_meta e) \<and> \<not> ke_alt e \<and> \<not> isNewlineCombo e)
   \<and> (terminalKeyAction (Some e) = Newline \<longrightarrow> ke_shift e \<and> \<not> ke_ctrl e \<and> \<not> ke_alt e \<and> \<not> ke_meta e \<and> \<not> isCopyCombo e)
   \<and> (terminalKeyAction (Some (e\<lparr>ke_type := Some ''keyup''\<rparr>)) = Pass)"
proof -
  have "ke_key e' = Some ''c'' \<Longrightarrow> ke_code e' = Some ''KeyC'' \<Longrightarrow> ke_ctrl e' \<Longrightarrow> \<not> ke_shift e' \<Longrightarrow> \<not> isCopyCombo e'"
    and "\<not> ke_shift e' \<Longrightarrow> \<not> isNewlineCombo e'" for e'
    by (simp_all add: isCopyCombo_def isNewlineCombo_def Let_def)
  moreover have "isCopyCombo e \<Longrightarrow> (ke_ctrl e \<or> ke_meta e) \<and> \<not> ke_alt e"
    and "isNewlineCombo e \<Longrightarrow> ke_shift e \<and> \<not> ke_ctrl e \<and> \<not> ke_alt e \<and> \<not> ke_meta e"
    by (auto simp: isCopyCombo_def isNewlineCombo_def Let_def split: if_splits)
  ultimately show ?thesis by (auto simp: terminalKeyAction_def split: if_splits)
qed

theorem ctrl_c_reaches_the_shell_witness:
  "terminalKeyAction (Some \<lparr>ke_type = Some ''keydown'', ke_key = Some ''C'', ke_code = Some ''KeyC'', ke_keyCode = Some 67,
     ke_ctrl = True, ke_shift = True, ke_alt = False, ke_meta = False\<rparr>) = Copy"
  using ctrl_c_reaches_the_shell [of "\<lparr>ke_type = Some ''keydown'', ke_key = Some ''C'', ke_code = Some ''KeyC'', ke_keyCode = Some 67,
     ke_ctrl = True, ke_shift = True, ke_alt = False, ke_meta = False\<rparr>"]
  by (simp add: terminalKeyAction_def isNewlineCombo_def isCopyCombo_def)

definition plain_keys :: "plain_key list" where
  "plain_keys = [KEsc, KTab, KUp, KDown, KLeft, KRight, KEnter, KShiftTab, KHome, KEnd, KPageUp, KPageDown,
     KDelete, KBackspace, KF1, KF2, KF3, KF4, KF5, KF6, KF7, KF8, KF9, KF10, KF11, KF12,
     KCtrlA, KCtrlC, KCtrlD, KCtrlE, KCtrlK, KCtrlL, KCtrlR, KCtrlU, KCtrlW, KCtrlZ]"

lemma set_plain_keys: "set plain_keys = UNIV"
proof -
  have "k \<in> set plain_keys" for k by (cases k) (simp_all add: plain_keys_def)
  then show ?thesis by blast
qed

lemma PLAIN_inject: "inj PLAIN"
proof -
  have "distinct (map PLAIN plain_keys)" by (simp add: plain_keys_def)
  then show ?thesis by (simp add: distinct_map set_plain_keys)
qed

text \<open>The letter whose chord a key of the \<open>ctrl\<close> page is.\<close>

fun ctrl_letter :: "plain_key \<Rightarrow> string option" where
  "ctrl_letter KCtrlA = Some ''a''"
| "ctrl_letter KCtrlC = Some ''c''"
| "ctrl_letter KCtrlD = Some ''d''"
| "ctrl_letter KCtrlE = Some ''e''"
| "ctrl_letter KCtrlK = Some ''k''"
| "ctrl_letter KCtrlL = Some ''l''"
| "ctrl_letter KCtrlR = Some ''r''"
| "ctrl_letter KCtrlU = Some ''u''"
| "ctrl_letter KCtrlW = Some ''w''"
| "ctrl_letter KCtrlZ = Some ''z''"
| "ctrl_letter _ = None"

lemma char_of_code: "code c = n \<Longrightarrow> char_of n = c"
  by auto

lemma ctrl_keys_are_chords: "ctrl_letter k = Some l \<Longrightarrow> ctrlChord l = Some (PLAIN k)"
  by (cases k) (auto simp: ctrlChord_def intro!: char_of_code)

lemma control_char: "n < 32 \<Longrightarrow> [char_of n] = t \<Longrightarrow> \<exists>c. t = [c] \<and> (code c < 32 \<or> code c = 127)" for n :: nat
  by auto

lemma ctrlChord_control:
  assumes "ctrlChord s = Some t" shows "\<exists>c. t = [c] \<and> (code c < 32 \<or> code c = 127)"
proof -
  obtain c where s: "s = [c]" using assms by (auto simp: ctrlChord_def split: list.splits)
  have "97 \<le> code c \<and> code c \<le> 122 \<and> t = [char_of (code c - 96)] \<or> 64 \<le> code c \<and> code c \<le> 95 \<and> t = [char_of (code c - 64)]
    \<or> t = [CHR 0x7F] \<or> t = [CHR 0x00]"
    using assms unfolding ctrlChord_def s
    by (cases "97 \<le> code c \<and> code c \<le> 122"; cases "65 \<le> code c \<and> code c \<le> 90"; cases "64 \<le> code c \<and> code c \<le> 95";
        cases "c = CHR ''?''"; cases "c = CHR '' ''") simp_all
  then show ?thesis
  proof (elim disjE conjE)
    assume "97 \<le> code c" "code c \<le> 122" "t = [char_of (code c - 96)]"
    then show ?thesis by (intro control_char [of "code c - 96"]) simp_all
  next
    assume "64 \<le> code c" "code c \<le> 95" "t = [char_of (code c - 64)]"
    then show ?thesis by (intro control_char [of "code c - 64"]) simp_all
  qed simp_all
qed

text \<open>
  No two keys of the helper row send the same bytes, a control key sends
  exactly the byte that the latched Ctrl makes of its letter, every chord is one control byte, and
  no page of the row has more than five keys.
\<close>

theorem helper_row_bytes:
  "inj PLAIN \<and> (\<forall>k l. ctrl_letter k = Some l \<longrightarrow> ctrlChord l = Some (PLAIN k))
   \<and> (\<forall>s t. ctrlChord s = Some t \<longrightarrow> (\<exists>c. t = [c] \<and> (code c < 32 \<or> code c = 127)))
   \<and> list_all (\<lambda>(_, keys). length keys \<le> 5 \<and> distinct keys) HELPER_KEY_SETS"
proof (intro conjI)
  show "\<forall>k l. ctrl_letter k = Some l \<longrightarrow> ctrlChord l = Some (PLAIN k)" by (simp add: ctrl_keys_are_chords)
  show "\<forall>s t. ctrlChord s = Some t \<longrightarrow> (\<exists>c. t = [c] \<and> (code c < 32 \<or> code c = 127))"
    using ctrlChord_control by blast
  show "list_all (\<lambda>(_, keys). length keys \<le> 5 \<and> distinct keys) HELPER_KEY_SETS"
    by (simp add: HELPER_KEY_SETS_def HELPER_KEYS_def)
qed (rule PLAIN_inject)

theorem helper_row_bytes_witness: "ctrlChord ''z'' = Some (PLAIN KCtrlZ)"
  using helper_row_bytes [THEN conjunct2, THEN conjunct1, rule_format, of KCtrlZ "''z''"] by simp

section \<open>The latch\<close>

definition spends :: "plain_key \<Rightarrow> bool" where
  "spends k = (CTRL_ARROW k \<noteq> None \<or> k \<in> {KEsc, KEnter, KTab})"

lemma latch_after: "snd (pressHelperKey ctrl (Key k)) = (ctrl \<and> \<not> spends k)"
  by (cases ctrl; cases k) (simp_all add: spends_def)

fun press_all :: "bool \<Rightarrow> helper_key list \<Rightarrow> bool" where
  "press_all ctrl [] = ctrl"
| "press_all ctrl (k # ks) = press_all (snd (pressHelperKey ctrl k)) ks"

lemma latch_kept: "list_all (\<lambda>k. \<exists>p. k = Key p \<and> \<not> spends p) ks \<Longrightarrow> press_all True ks"
proof (induction ks)
  case (Cons k ks)
  then obtain p where "k = Key p" "\<not> spends p" by auto
  then have "snd (pressHelperKey True k)" by (simp only: latch_after) simp
  then show ?case using Cons by simp
qed simp

lemma unarmed_stays: "KCtrl \<notin> set ks \<Longrightarrow> \<not> press_all False ks"
proof (induction ks)
  case (Cons k ks)
  then obtain p where "k = Key p" by (cases k) auto
  then have "\<not> snd (pressHelperKey False k)" by (simp only: latch_after) simp
  then show ?case using Cons by simp
qed simp

text \<open>
  Only Ctrl arms the latch, and only an arrow, Esc, Enter or Tab
  spends it: after any number of the other keys (Home, Page Up, Backspace, F1 and so on) it is
  still armed.
\<close>

theorem latch_survives_most_keys:
  "(KCtrl \<notin> set ks \<longrightarrow> \<not> press_all False ks)
   \<and> (list_all (\<lambda>k. k \<in> Key ` {KHome, KEnd, KPageUp, KPageDown, KDelete, KBackspace, KShiftTab, KF1}) ks
      \<longrightarrow> press_all True ks)"
proof -
  have "press_all True ks" if "list_all (\<lambda>k. k \<in> Key ` {KHome, KEnd, KPageUp, KPageDown, KDelete, KBackspace, KShiftTab, KF1}) ks"
  proof -
    have "list_all (\<lambda>k. \<exists>p. k = Key p \<and> \<not> spends p) ks" using that by (auto simp: list_all_iff spends_def)
    then show ?thesis by (simp add: latch_kept)
  qed
  then show ?thesis using unarmed_stays by blast
qed

theorem latch_survives_most_keys_witness: "press_all True [Key KHome, Key KBackspace]"
  using latch_survives_most_keys [of "[Key KHome, Key KBackspace]"] by simp

end
