(* ===== verification/Listing.thy ===== *)
theory Listing
  imports Ordering "HOL-Library.Sublist" "HOL-Library.Word"
begin

unbundle bit_operations_syntax

text \<open>
  \<^verbatim>\<open>packages/core/src/fs-sort.ts\<close>, \<^verbatim>\<open>fs-columns.ts\<close> and \<^verbatim>\<open>file-format.ts\<close>: the order, the columns and the
  labels of a directory listing. \<open>localeCompare\<close> on names is the parameter \<open>lc\<close>, a comparator;
  the lemmas of the order rest on an interpretation of that contract.
\<close>

section \<open>The order of a listing\<close>

datatype fs_sort_key = ByName | BySize | ByModified | ByMode

datatype fs_dir = Asc | Desc

record fs_sort =
  sort_key :: fs_sort_key
  sort_dir :: fs_dir

definition DEFAULT_FS_SORT :: fs_sort where
  "DEFAULT_FS_SORT = \<lparr>sort_key = ByName, sort_dir = Asc\<rparr>"

definition isDefaultFsSort :: "fs_sort \<Rightarrow> bool" where
  "isDefaultFsSort s = (sort_key s = sort_key DEFAULT_FS_SORT \<and> sort_dir s = sort_dir DEFAULT_FS_SORT)"

definition nextFsSort :: "fs_sort \<Rightarrow> fs_sort_key \<Rightarrow> fs_sort" where
  "nextFsSort current k =
     (if sort_key current \<noteq> k then \<lparr>sort_key = k, sort_dir = Asc\<rparr>
      else \<lparr>sort_key = k, sort_dir = (if sort_dir current = Asc then Desc else Asc)\<rparr>)"

record fs_entry =
  fe_name :: string
  fe_dir :: bool
  fe_size :: int
  fe_modified :: int
  fe_mode :: int

definition byName :: "string cmp \<Rightarrow> fs_entry cmp" where
  "byName lc a b = lc (fe_name a) (fe_name b)"

definition or_else :: "int \<Rightarrow> int \<Rightarrow> int" where
  "or_else m n = (if m \<noteq> 0 then m else n)"

definition fs_compare :: "string cmp \<Rightarrow> fs_sort \<Rightarrow> fs_entry cmp" where
  "fs_compare lc s a b =
     (if fe_dir a \<noteq> fe_dir b then (if fe_dir a then -1 else 1)
      else let flip = (if sort_dir s = Desc then -1 else 1) in
        if sort_key s = ByName then flip * byName lc a b
        else if sort_key s = BySize then
          (if fe_dir a then byName lc a b else or_else (flip * (fe_size a - fe_size b)) (byName lc a b))
        else
          let left = (if sort_key s = ByModified then fe_modified a else fe_mode a);
              right = (if sort_key s = ByModified then fe_modified b else fe_mode b)
          in if (left = 0) \<noteq> (right = 0) then (if left \<noteq> 0 then -1 else 1)
             else or_else (flip * (left - right)) (byName lc a b))"

definition sortFsEntries :: "string cmp \<Rightarrow> fs_entry list \<Rightarrow> fs_sort \<Rightarrow> fs_entry list" where
  "sortFsEntries lc entries s = js_sort (fs_compare lc s) entries"

text \<open>The comparison as a lexicographic one: its keys in the order they decide.\<close>

definition stamp :: "fs_sort \<Rightarrow> fs_entry \<Rightarrow> int" where
  "stamp s e = (case sort_key s of ByModified \<Rightarrow> fe_modified e | ByMode \<Rightarrow> fe_mode e
      | BySize \<Rightarrow> (if fe_dir e then 0 else fe_size e) | ByName \<Rightarrow> 0)"

definition unknown_rank :: "fs_sort \<Rightarrow> fs_entry \<Rightarrow> int" where
  "unknown_rank s e = (if sort_key s \<in> {ByModified, ByMode} \<and> stamp s e = 0 then 1 else 0)"

definition sign_of :: "fs_sort \<Rightarrow> int" where
  "sign_of s = (if sort_dir s = Desc then -1 else 1)"

definition name_order :: "string cmp \<Rightarrow> fs_sort \<Rightarrow> fs_entry cmp" where
  "name_order lc s a b = (if sort_key s = ByName then sign_of s else 1) * lc (fe_name a) (fe_name b)"

lemma fs_compare_lexicographic:
  "fs_compare lc s =
     then_by (by_key (\<lambda>e. if fe_dir e then 0 else 1))
    (then_by (by_key (unknown_rank s))
    (then_by (by_key (\<lambda>e. sign_of s * stamp s e)) (name_order lc s)))"
proof (intro ext)
  fix a b
  show "fs_compare lc s a b =
     then_by (by_key (\<lambda>e. if fe_dir e then 0 else 1))
    (then_by (by_key (unknown_rank s))
    (then_by (by_key (\<lambda>e. sign_of s * stamp s e)) (name_order lc s))) a b"
    by (cases "sort_key s"; cases "sort_dir s")
      (auto simp: fs_compare_def then_by_def by_key_def byName_def name_order_def or_else_def
        unknown_rank_def stamp_def sign_of_def Let_def)
qed

lemma comparator_name_order: "comparator lc \<Longrightarrow> comparator (name_order lc s)"
proof -
  assume lc: "comparator lc"
  have c: "comparator (\<lambda>a b. lc (fe_name a) (fe_name b))" by (rule comparator_on [OF lc])
  show ?thesis
  proof (cases "sort_key s = ByName \<and> sort_dir s = Desc")
    case True
    then have "name_order lc s = (\<lambda>a b. - lc (fe_name a) (fe_name b))"
      by (intro ext) (simp add: name_order_def sign_of_def)
    then show ?thesis using comparator_flip [OF c] by simp
  next
    case False
    then have "name_order lc s = (\<lambda>a b. lc (fe_name a) (fe_name b))"
      by (intro ext) (auto simp: name_order_def sign_of_def)
    then show ?thesis using c by simp
  qed
qed

lemma comparator_fs_compare: "comparator lc \<Longrightarrow> comparator (fs_compare lc s)"
  unfolding fs_compare_lexicographic
  by (intro comparator_then_by comparator_by_key comparator_name_order)

interpretation code_unit_listing: comparator "fs_compare str_cmp s" for s
  by (rule comparator_fs_compare) (rule strings.comparator_axioms)

text \<open>What the screen promises of two rows, the first above the second.\<close>

definition rows_in_order :: "fs_sort \<Rightarrow> fs_entry \<Rightarrow> fs_entry \<Rightarrow> bool" where
  "rows_in_order s a b \<longleftrightarrow>
     (fe_dir b \<longrightarrow> fe_dir a)
     \<and> (fe_dir a = fe_dir b \<and> sort_key s \<in> {ByModified, ByMode} \<and> stamp s b \<noteq> 0 \<longrightarrow>
          stamp s a \<noteq> 0 \<and> (if sort_dir s = Asc then stamp s a \<le> stamp s b else stamp s b \<le> stamp s a))
     \<and> (\<not> fe_dir a \<and> \<not> fe_dir b \<and> sort_key s = BySize \<longrightarrow>
          (if sort_dir s = Asc then fe_size a \<le> fe_size b else fe_size b \<le> fe_size a))"

lemma rows_in_order_iff: "fs_compare lc s a b \<le> 0 \<Longrightarrow> rows_in_order s a b"
  unfolding fs_compare_lexicographic rows_in_order_def
  by (cases "sort_dir s"; cases "sort_key s")
    (auto simp: then_by_def by_key_def unknown_rank_def stamp_def sign_of_def split: if_splits)

text \<open>
  Whatever collation compares the names, a sorted listing is the listing it
  was given, rearranged: folders stand above files for every column and both directions, a
  timestamp or a mode the host did not report stands last in both directions, the reported ones
  run in the direction asked, equal rows keep their order, and sorting again changes nothing.
\<close>

theorem listing_order:
  assumes lc: "comparator lc"
  shows "mset (sortFsEntries lc es s) = mset es
    \<and> sorted_wrt (rows_in_order s) (sortFsEntries lc es s)
    \<and> sortFsEntries lc (sortFsEntries lc es s) s = sortFsEntries lc es s
    \<and> (\<forall>k. filter (\<lambda>e. fs_compare lc s k e = 0) (sortFsEntries lc es s) = filter (\<lambda>e. fs_compare lc s k e = 0) es)"
proof (intro conjI allI)
  note cmp = comparator_fs_compare [OF lc, of s]
  show "mset (sortFsEntries lc es s) = mset es" by (simp add: sortFsEntries_def)
  show "sorted_wrt (rows_in_order s) (sortFsEntries lc es s)"
    unfolding sortFsEntries_def
    by (rule sorted_wrt_mono_rel [OF _ comparator.ordered_js_sort [OF cmp]]) (rule rows_in_order_iff)
  show "sortFsEntries lc (sortFsEntries lc es s) s = sortFsEntries lc es s"
    unfolding sortFsEntries_def by (rule comparator.js_sort_idem [OF cmp])
  show "filter (\<lambda>e. fs_compare lc s k e = 0) (sortFsEntries lc es s) = filter (\<lambda>e. fs_compare lc s k e = 0) es" for k
    unfolding sortFsEntries_def by (rule comparator.js_sort_stable [OF cmp])
qed

theorem listing_order_witness:
  "sortFsEntries str_cmp
     [\<lparr>fe_name = ''b'', fe_dir = False, fe_size = 3, fe_modified = 0, fe_mode = 420\<rparr>,
      \<lparr>fe_name = ''a'', fe_dir = False, fe_size = 3, fe_modified = 9, fe_mode = 420\<rparr>,
      \<lparr>fe_name = ''src'', fe_dir = True, fe_size = 0, fe_modified = 5, fe_mode = 493\<rparr>]
     \<lparr>sort_key = ByModified, sort_dir = Desc\<rparr> =
     [\<lparr>fe_name = ''src'', fe_dir = True, fe_size = 0, fe_modified = 5, fe_mode = 493\<rparr>,
      \<lparr>fe_name = ''a'', fe_dir = False, fe_size = 3, fe_modified = 9, fe_mode = 420\<rparr>,
      \<lparr>fe_name = ''b'', fe_dir = False, fe_size = 3, fe_modified = 0, fe_mode = 420\<rparr>]
   \<and> sorted_wrt (rows_in_order \<lparr>sort_key = ByModified, sort_dir = Desc\<rparr>)
      (sortFsEntries str_cmp
       [\<lparr>fe_name = ''b'', fe_dir = False, fe_size = 3, fe_modified = 0, fe_mode = 420\<rparr>,
        \<lparr>fe_name = ''src'', fe_dir = True, fe_size = 0, fe_modified = 5, fe_mode = 493\<rparr>]
       \<lparr>sort_key = ByModified, sort_dir = Desc\<rparr>)"
proof (rule conjI)
  show "sorted_wrt (rows_in_order \<lparr>sort_key = ByModified, sort_dir = Desc\<rparr>)
      (sortFsEntries str_cmp
       [\<lparr>fe_name = ''b'', fe_dir = False, fe_size = 3, fe_modified = 0, fe_mode = 420\<rparr>,
        \<lparr>fe_name = ''src'', fe_dir = True, fe_size = 0, fe_modified = 5, fe_mode = 493\<rparr>]
       \<lparr>sort_key = ByModified, sort_dir = Desc\<rparr>)"
    using listing_order [OF strings.comparator_axioms] by blast
qed (simp add: sortFsEntries_def fs_compare_def)

text \<open>Clicking a header twice: ascending, then descending, then ascending again.\<close>

lemma click_header:
  "sort_key (nextFsSort s k) = k"
  "sort_key s \<noteq> k \<Longrightarrow> sort_dir (nextFsSort s k) = Asc"
  "sort_dir (nextFsSort (nextFsSort s k) k) \<noteq> sort_dir (nextFsSort s k)"
  "isDefaultFsSort s \<longleftrightarrow> s = DEFAULT_FS_SORT"
  by (cases s; auto simp: nextFsSort_def isDefaultFsSort_def DEFAULT_FS_SORT_def)+

section \<open>The columns of a listing\<close>

datatype fs_column = SizeCol | ModifiedCol | ModeCol

type_synonym fs_columns = "fs_column \<Rightarrow> rat"

definition FS_COLUMN_ORDER :: "fs_column list" where
  "FS_COLUMN_ORDER = [SizeCol, ModifiedCol, ModeCol]"

fun FS_COLUMN_DEFAULTS :: fs_columns where
  "FS_COLUMN_DEFAULTS SizeCol = 64"
| "FS_COLUMN_DEFAULTS ModifiedCol = 116"
| "FS_COLUMN_DEFAULTS ModeCol = 82"

fun FS_COLUMN_MIN :: "fs_column \<Rightarrow> int" where
  "FS_COLUMN_MIN SizeCol = 48"
| "FS_COLUMN_MIN ModifiedCol = 64"
| "FS_COLUMN_MIN ModeCol = 56"

definition FS_COLUMN_MAX :: int where "FS_COLUMN_MAX = 240"

definition FS_NAME_MIN :: int where "FS_NAME_MIN = 96"

definition FS_ROW_GAP :: int where "FS_ROW_GAP = 8"

definition FS_ROW_CHROME :: int where "FS_ROW_CHROME = 26"

definition FS_CHECK_W :: int where "FS_CHECK_W = 14"

definition fsColumnRoom :: "jsnum \<Rightarrow> bool \<Rightarrow> jsnum" where
  "fsColumnRoom listingWidth checkboxes =
     (case listingWidth of
        Fin w \<Rightarrow> if \<not> checkboxes \<or> w \<le> 0 then Fin w
                 else Fin (max 1 (w - of_int FS_CHECK_W - of_int FS_ROW_GAP))
      | other \<Rightarrow> other)"

definition fs_clamp :: "rat \<Rightarrow> int \<Rightarrow> int \<Rightarrow> int" where
  "fs_clamp px lo hi = min hi (max lo (js_round px))"

definition nameRoom :: "rat \<Rightarrow> fs_columns \<Rightarrow> fs_column list \<Rightarrow> rat" where
  "nameRoom panelWidth columns keys =
     panelWidth - foldl (\<lambda>total k. total + columns k + of_int FS_ROW_GAP) (of_int (FS_ROW_CHROME + FS_ROW_GAP)) keys"

definition defaultFsColumns :: fs_columns where
  "defaultFsColumns = FS_COLUMN_DEFAULTS"

fun fitting :: "rat \<Rightarrow> fs_columns \<Rightarrow> fs_column list \<Rightarrow> fs_column list" where
  "fitting panelWidth columns keys =
     (if 1 < length keys \<and> nameRoom panelWidth columns keys < of_int FS_NAME_MIN
      then fitting panelWidth columns (butlast keys) else keys)"

declare fitting.simps [simp del]

definition visibleFsColumns :: "jsnum \<Rightarrow> fs_columns \<Rightarrow> fs_column list" where
  "visibleFsColumns panelWidth columns =
     (case panelWidth of
        Fin w \<Rightarrow> if w \<le> 0 then FS_COLUMN_ORDER
                 else fitting w columns FS_COLUMN_ORDER
      | _ \<Rightarrow> FS_COLUMN_ORDER)"

definition setFsColumnWidth :: "fs_columns \<Rightarrow> fs_column \<Rightarrow> jsnum \<Rightarrow> jsnum \<Rightarrow> fs_columns" where
  "setFsColumnWidth columns k px panelWidth =
     (case px of
        Fin p \<Rightarrow>
          let wanted = fs_clamp p (FS_COLUMN_MIN k) FS_COLUMN_MAX in
          (case panelWidth of
             Fin w \<Rightarrow>
               if 0 < w then
                 let visible = visibleFsColumns panelWidth columns in
                 if k \<notin> set visible then columns
                 else
                   let others = filter (\<lambda>other. other \<noteq> k) visible;
                       room = nameRoom w columns others - of_int FS_NAME_MIN - of_int FS_ROW_GAP
                   in columns(k := of_int (min wanted (max (FS_COLUMN_MIN k) (js_round room))))
               else columns(k := of_int wanted)
           | _ \<Rightarrow> columns(k := of_int wanted))
      | _ \<Rightarrow> columns)"

text \<open>The widths a session can hold: whole numbers, never below a column's header.\<close>

definition columns_ok :: "fs_columns \<Rightarrow> bool" where
  "columns_ok columns \<longleftrightarrow> (\<forall>k. \<exists>n. columns k = of_int n \<and> FS_COLUMN_MIN k \<le> n \<and> n \<le> FS_COLUMN_MAX)"

lemma columns_ok_default: "columns_ok defaultFsColumns"
proof -
  have "\<exists>n. FS_COLUMN_DEFAULTS k = of_int n \<and> FS_COLUMN_MIN k \<le> n \<and> n \<le> FS_COLUMN_MAX" for k
    by (rule exI [of _ "\<lfloor>FS_COLUMN_DEFAULTS k\<rfloor>"], cases k) (simp_all add: FS_COLUMN_MAX_def)
  then show ?thesis by (simp add: columns_ok_def defaultFsColumns_def)
qed

lemma columns_ok_update:
  "columns_ok columns \<Longrightarrow> FS_COLUMN_MIN k \<le> n \<Longrightarrow> n \<le> FS_COLUMN_MAX \<Longrightarrow> columns_ok (columns(k := of_int n))"
  by (auto simp: columns_ok_def)

lemma min_le_max: "FS_COLUMN_MIN k \<le> FS_COLUMN_MAX"
  by (cases k) (simp_all add: FS_COLUMN_MAX_def)

lemma columns_ok_set: "columns_ok columns \<Longrightarrow> columns_ok (setFsColumnWidth columns k px panelWidth)"
  using min_le_max [of k]
  by (auto simp: setFsColumnWidth_def fs_clamp_def Let_def min_def max_def split: jsnum.splits intro!: columns_ok_update)

lemma nameRoom_sum:
  "nameRoom w columns keys = w - of_int (FS_ROW_CHROME + FS_ROW_GAP) - (\<Sum>k\<leftarrow>keys. columns k + of_int FS_ROW_GAP)"
proof -
  have "foldl (\<lambda>total k. total + columns k + of_int FS_ROW_GAP) a keys = a + (\<Sum>k\<leftarrow>keys. columns k + of_int FS_ROW_GAP)" for a
    by (induction keys arbitrary: a) (simp_all add: algebra_simps)
  then show ?thesis by (simp add: nameRoom_def)
qed

text \<open>Dropping columns from the right stops at the first row that leaves the name its room.\<close>

lemma fitting_prefix: "prefix (fitting w columns keys) keys"
proof (induction w columns keys rule: fitting.induct)
  case (1 w columns keys)
  have "prefix (butlast keys) keys" by (cases keys rule: rev_cases) simp_all
  with 1 show ?case by (subst fitting.simps) (auto intro: prefix_order.trans)
qed

lemma fitting_stops:
  "keys \<noteq> [] \<Longrightarrow> fitting w columns keys \<noteq> [] \<and>
     (length (fitting w columns keys) = 1 \<or> of_int FS_NAME_MIN \<le> nameRoom w columns (fitting w columns keys))"
proof (induction w columns keys rule: fitting.induct)
  case (1 w columns keys)
  show ?case
  proof (cases "1 < length keys \<and> nameRoom w columns keys < of_int FS_NAME_MIN")
    case True
    then have "butlast keys \<noteq> []" by (cases keys) auto
    with True 1 show ?thesis by (simp add: fitting.simps [of w columns keys])
  next
    case False
    moreover have "length keys = 1 \<or> 1 < length keys" using 1(2) by (cases keys) auto
    ultimately show ?thesis using 1(2) by (auto simp: fitting.simps [of w columns keys])
  qed
qed

lemma fitting_longest:
  "prefix ps keys \<Longrightarrow> of_int FS_NAME_MIN \<le> nameRoom w columns ps \<or> length ps = 1 \<Longrightarrow> ps \<noteq> []
     \<Longrightarrow> prefix ps (fitting w columns keys)"
proof (induction w columns keys rule: fitting.induct)
  case (1 w columns keys)
  show ?case
  proof (cases "1 < length keys \<and> nameRoom w columns keys < of_int FS_NAME_MIN")
    case True
    then have "ps \<noteq> keys" using 1(3) by auto
    then have "prefix ps (butlast keys)" using 1(2) by (metis prefix_snoc append_butlast_last_id prefix_Nil)
    then show ?thesis using 1 True by (subst fitting.simps) simp
  qed (use 1(2) in \<open>auto simp: fitting.simps [of w columns keys]\<close>)
qed

lemma visible_measured:
  assumes "0 < w"
  shows "prefix (visibleFsColumns (Fin w) columns) FS_COLUMN_ORDER"
    and "visibleFsColumns (Fin w) columns \<noteq> []"
    and "length (visibleFsColumns (Fin w) columns) = 1 \<or>
           of_int FS_NAME_MIN \<le> nameRoom w columns (visibleFsColumns (Fin w) columns)"
    and "prefix ps FS_COLUMN_ORDER \<Longrightarrow> ps \<noteq> [] \<Longrightarrow> length ps = 1 \<or> of_int FS_NAME_MIN \<le> nameRoom w columns ps
           \<Longrightarrow> prefix ps (visibleFsColumns (Fin w) columns)"
proof -
  have v: "visibleFsColumns (Fin w) columns = fitting w columns FS_COLUMN_ORDER"
    using assms by (simp add: visibleFsColumns_def)
  have ne: "FS_COLUMN_ORDER \<noteq> []" by (simp add: FS_COLUMN_ORDER_def)
  show "prefix (visibleFsColumns (Fin w) columns) FS_COLUMN_ORDER" by (simp add: v fitting_prefix)
  show "visibleFsColumns (Fin w) columns \<noteq> []"
    and "length (visibleFsColumns (Fin w) columns) = 1 \<or>
           of_int FS_NAME_MIN \<le> nameRoom w columns (visibleFsColumns (Fin w) columns)"
    using fitting_stops [OF ne, of w columns] by (simp_all add: v)
  show "prefix ps FS_COLUMN_ORDER \<Longrightarrow> ps \<noteq> [] \<Longrightarrow> length ps = 1 \<or> of_int FS_NAME_MIN \<le> nameRoom w columns ps
           \<Longrightarrow> prefix ps (visibleFsColumns (Fin w) columns)"
    by (auto simp: v intro: fitting_longest)
qed

lemma nameRoom_others:
  assumes "distinct keys" and "k \<in> set keys"
  shows "nameRoom w columns keys = nameRoom w columns (filter (\<lambda>j. j \<noteq> k) keys) - columns k - of_int FS_ROW_GAP"
proof -
  have "remove1 k keys = filter (\<lambda>j. j \<noteq> k) keys"
    using assms(1) by (simp add: distinct_remove1_removeAll removeAll_filter_not_eq eq_commute)
  then have "(\<Sum>j\<leftarrow>keys. columns j + of_int FS_ROW_GAP) =
      columns k + of_int FS_ROW_GAP + (\<Sum>j\<leftarrow>filter (\<lambda>j. j \<noteq> k) keys. columns j + of_int FS_ROW_GAP)"
    using sum_list_map_remove1 [OF assms(2), of "\<lambda>j. columns j + of_int FS_ROW_GAP"] by simp
  then show ?thesis by (simp add: nameRoom_sum)
qed

lemma nameRoom_cong: "(\<And>k. k \<in> set keys \<Longrightarrow> columns k = columns' k) \<Longrightarrow> nameRoom w columns keys = nameRoom w columns' keys"
  by (simp add: nameRoom_sum cong: map_cong)

lemma nameRoom_integral: "columns_ok columns \<Longrightarrow> \<exists>n. nameRoom (of_int w) columns keys = of_int n"
proof (induction keys rule: rev_induct)
  case Nil
  have "nameRoom (of_int w) columns [] = of_int (w - (FS_ROW_CHROME + FS_ROW_GAP))" by (simp add: nameRoom_def)
  then show ?case by blast
next
  case (snoc k keys)
  then obtain n m where "nameRoom (of_int w) columns keys = of_int n" "columns k = of_int m"
    by (meson columns_ok_def)
  then have "nameRoom (of_int w) columns (keys @ [k]) = of_int (n - m - FS_ROW_GAP)"
    by (simp add: nameRoom_sum)
  then show ?case by blast
qed

text \<open>A drag with room to spare: the row keeps the width the name must have.\<close>

lemma drag_room:
  assumes ok: "columns_ok columns" and w: "0 < w" and k: "k \<in> set v"
    and v: "v = visibleFsColumns (Fin (of_int w)) columns" and more: "length v \<noteq> 1"
  shows "of_int FS_NAME_MIN \<le> nameRoom (of_int w) (setFsColumnWidth columns k px (Fin (of_int w))) v"
proof -
  let ?w = "rat_of_int w"
  let ?others = "filter (\<lambda>j. j \<noteq> k) v"
  have w': "0 < ?w" using w by simp
  have d: "distinct v"
    using visible_measured(1) [OF w', of columns] unfolding v [symmetric]
    by (auto simp: FS_COLUMN_ORDER_def prefix_def distinct_append) (metis distinct_append distinct.simps fs_column.distinct list.set empty_iff insert_iff)
  have floor: "of_int FS_NAME_MIN \<le> nameRoom ?w columns v"
    using visible_measured(3) [OF w', of columns] more by (simp add: v)
  show ?thesis
  proof (cases px)
    case (Fin p)
    obtain n m where n: "nameRoom ?w columns ?others = of_int n" and m: "columns k = of_int m" "FS_COLUMN_MIN k \<le> m"
      using nameRoom_integral [OF ok] ok by (meson columns_ok_def)
    define next_w where "next_w = min (fs_clamp p (FS_COLUMN_MIN k) FS_COLUMN_MAX) (max (FS_COLUMN_MIN k) (n - FS_NAME_MIN - FS_ROW_GAP))"
    have "rat_of_int FS_NAME_MIN \<le> of_int (n - m - FS_ROW_GAP)"
      using floor nameRoom_others [OF d k, of ?w columns] n m by simp
    then have "FS_NAME_MIN \<le> n - m - FS_ROW_GAP" by (simp only: of_int_le_iff)
    then have le: "next_w \<le> n - FS_NAME_MIN - FS_ROW_GAP" using m(2) by (simp add: next_w_def)
    have "js_round (nameRoom ?w columns ?others - of_int FS_NAME_MIN - of_int FS_ROW_GAP) = n - FS_NAME_MIN - FS_ROW_GAP"
      unfolding n by (simp flip: of_int_diff)
    then have upd: "setFsColumnWidth columns k px (Fin ?w) = columns(k := of_int next_w)"
      using w k by (simp add: setFsColumnWidth_def Fin Let_def next_w_def v)
    have "nameRoom ?w (columns(k := of_int next_w)) v = of_int (n - next_w - FS_ROW_GAP)"
      using nameRoom_others [OF d k, of ?w "columns(k := of_int next_w)"] n
        nameRoom_cong [of ?others "columns(k := of_int next_w)" columns ?w] by simp
    then show ?thesis using le upd by (simp only: of_int_le_iff)
  qed (use floor in \<open>simp_all add: setFsColumnWidth_def\<close>)
qed

text \<open>
  Dragging a column edge of a measured panel keeps every width
  a whole number between the column's minimum and the maximum, leaves a hidden column alone, and
  never hides a column that was on screen: what is visible afterwards extends what was visible,
  and the name keeps its minimum unless only the size column is left.
\<close>

theorem drag_keeps_the_name_column:
  fixes w :: int and k :: fs_column and px :: jsnum
  assumes "columns_ok columns" and "0 < w"
  defines "v \<equiv> visibleFsColumns (Fin (of_int w)) columns"
    and "columns' \<equiv> setFsColumnWidth columns k px (Fin (of_int w))"
  shows "columns_ok columns' \<and> (k \<notin> set v \<longrightarrow> columns' = columns)
    \<and> prefix v (visibleFsColumns (Fin (of_int w)) columns')
    \<and> (of_int FS_NAME_MIN \<le> nameRoom (of_int w) columns' v \<or> v = [SizeCol])"
proof -
  have w': "0 < rat_of_int w" using assms(2) by simp
  have hidden: "columns' = columns" if "k \<notin> set v"
    using that assms(2) unfolding columns'_def v_def by (cases px) (simp_all add: setFsColumnWidth_def Let_def)
  have room: "of_int FS_NAME_MIN \<le> nameRoom (of_int w) columns' v \<or> length v = 1"
  proof (cases "k \<in> set v")
    case True
    then show ?thesis using drag_room [OF assms(1,2) True v_def [THEN meta_eq_to_obj_eq]] unfolding columns'_def by blast
  next
    case False
    then show ?thesis using visible_measured(3) [OF w', of columns] hidden by (auto simp: v_def)
  qed
  have v: "prefix v FS_COLUMN_ORDER" "v \<noteq> []" using visible_measured(1,2) [OF w', of columns] by (simp_all add: v_def)
  then have "length v = 1 \<Longrightarrow> v = [SizeCol]" by (auto simp: FS_COLUMN_ORDER_def prefix_Cons length_Suc_conv)
  moreover have "prefix v (visibleFsColumns (Fin (of_int w)) columns')"
    using visible_measured(4) [OF w' v] room by blast
  ultimately show ?thesis using room hidden columns_ok_set [OF assms(1)] by (auto simp: columns'_def)
qed

theorem drag_keeps_the_name_column_witness:
  "visibleFsColumns (Fin 420) defaultFsColumns = FS_COLUMN_ORDER
   \<and> columns_ok (setFsColumnWidth defaultFsColumns SizeCol (Fin 500) (Fin (of_int 420)))"
  using drag_keeps_the_name_column [OF columns_ok_default, of 420 SizeCol "Fin 500"]
  by (simp add: visibleFsColumns_def fitting.simps FS_COLUMN_ORDER_def nameRoom_def defaultFsColumns_def
      FS_ROW_CHROME_def FS_ROW_GAP_def FS_NAME_MIN_def)

text \<open>An unmeasured panel shows every column, and the checkbox column is charged to no other.\<close>

lemma unmeasured_shows_all: "w \<le> 0 \<Longrightarrow> visibleFsColumns (Fin w) columns = FS_COLUMN_ORDER"
  by (simp add: visibleFsColumns_def)

lemma fsColumnRoom_measured: "0 < w \<Longrightarrow> \<exists>r. fsColumnRoom (Fin w) c = Fin r \<and> 0 < r"
  by (simp add: fsColumnRoom_def) (auto simp: max_def)

section \<open>Labels\<close>

text \<open>\<open>UNKNOWN_VALUE\<close>, an em dash, is \<open>None\<close>; every other label is \<open>Some\<close> text.\<close>

definition units :: "string list" where
  "units = [''KB'', ''MB'', ''GB'', ''TB'']"

function scale_unit :: "rat \<Rightarrow> nat \<Rightarrow> rat \<times> nat" where
  "scale_unit v unit =
     (if 1024 \<le> v \<and> unit < length units - 1 then scale_unit (v / 1024) (unit + 1) else (v, unit))"
  by pat_completeness auto
termination by (relation "measure (\<lambda>(_, unit). length units - unit)") auto

declare scale_unit.simps [simp del]

text \<open>\<open>toFixed(1)\<close> of a nonnegative number below \<open>10^21\<close>: the nearest tenth, the larger of two.\<close>

definition to_fixed1 :: "rat \<Rightarrow> string" where
  "to_fixed1 v = (let n = nat \<lfloor>10 * v + 1 / 2\<rfloor> in nat_str (n div 10) @ CHR ''.'' # nat_str (n mod 10))"

definition humanSize :: "jsnum \<Rightarrow> string option" where
  "humanSize bytes =
     (case bytes of
        Fin b \<Rightarrow>
          if b < 0 then None
          else if b < 1024 then Some (num_String (Fin (of_int (js_round b))) @ '' B'')
          else
            let (v, unit) = scale_unit (b / 1024) 0
            in Some ((if v < 10 then to_fixed1 v else num_String (Fin (of_int (js_round v)))) @ '' '' @ units ! unit)
      | _ \<Rightarrow> None)"

definition triad_label :: "int \<Rightarrow> string" where
  "triad_label triad =
     [if triad AND 4 \<noteq> 0 then CHR ''r'' else CHR ''-'',
      if triad AND 2 \<noteq> 0 then CHR ''w'' else CHR ''-'',
      if triad AND 1 \<noteq> 0 then CHR ''x'' else CHR ''-'']"

definition modeLabel :: "jsnum \<Rightarrow> string option" where
  "modeLabel mode =
     (if \<not> is_integer mode \<or> int_of mode \<le> 0 then None
      else let bits = to_int32 (int_of mode) AND 511 in
        Some (concat (map (\<lambda>shift. triad_label (drop_bit shift bits AND 7)) [6, 3, 0])))"

lemma scale_unit_value:
  "scale_unit v unit = (v', unit') \<Longrightarrow> unit < length units \<Longrightarrow>
     unit \<le> unit' \<and> unit' < length units \<and> v = v' * 1024 ^ (unit' - unit) \<and> (v' < 1024 \<or> unit' = length units - 1)"
proof (induction v unit rule: scale_unit.induct)
  case (1 v unit)
  show ?case
  proof (cases "1024 \<le> v \<and> unit < length units - 1")
    case True
    then have "scale_unit (v / 1024) (unit + 1) = (v', unit')" using 1(2) by (simp add: scale_unit.simps [of v])
    from 1(1) [OF True this] True have "unit + 1 \<le> unit'" "unit' < length units" "v / 1024 = v' * 1024 ^ (unit' - (unit + 1))"
      "v' < 1024 \<or> unit' = length units - 1" by auto
    moreover from this have "unit' - unit = Suc (unit' - (unit + 1))" by simp
    ultimately show ?thesis by simp
  qed (use 1(2,3) in \<open>auto simp: scale_unit.simps [of v] split: if_splits\<close>)
qed

text \<open>The label of a size names the number it rounds.\<close>

lemma humanSize_unit:
  assumes "1024 \<le> b"
  obtains v unit where "humanSize (Fin b) = Some ((if v < 10 then to_fixed1 v else num_String (Fin (of_int (js_round v)))) @ '' '' @ units ! unit)"
    and "b = v * 1024 ^ (unit + 1)" and "unit < length units" and "v < 1024 \<or> unit = length units - 1"
proof -
  obtain v unit where s: "scale_unit (b / 1024) 0 = (v, unit)" by fastforce
  then have "b / 1024 = v * 1024 ^ unit" "unit < length units" "v < 1024 \<or> unit = length units - 1"
    using scale_unit_value [OF s] by (simp_all add: units_def)
  then show thesis using that [of v unit] s assms by (simp add: humanSize_def)
qed

lemma int32_low_bits: "to_int32 n AND 511 = n mod 512"
proof -
  define q where "q = (n + 2 ^ 31) div 2 ^ 32"
  have "(n + 2 ^ 31) mod 2 ^ 32 = n + 2 ^ 31 - 2 ^ 32 * q"
    unfolding q_def by (rule minus_mult_div_eq_mod [symmetric])
  then have "to_int32 n = n + 512 * (- (8388608 * q))" by (simp add: to_int32_def)
  then have "to_int32 n mod 512 = n mod 512" using mod_mult_self2 [of n 512 "- (8388608 * q)"] by simp
  moreover have "(511 :: int) = mask 9" by (simp add: mask_eq_exp_minus_1)
  then have "to_int32 n AND 511 = take_bit 9 (to_int32 n)" by (simp only: take_bit_eq_mask)
  ultimately show ?thesis by (simp add: take_bit_eq_mod)
qed

lemma triad_label_bits:
  "triad_label (drop_bit s n AND 7) =
     [if bit n (s + 2) then CHR ''r'' else CHR ''-'', if bit n (s + 1) then CHR ''w'' else CHR ''-'',
      if bit n s then CHR ''x'' else CHR ''-'']" for n :: int
proof -
  have seven: "(7 :: int) = mask 3" by (simp add: mask_eq_exp_minus_1)
  have four: "m AND 4 = 0 \<longleftrightarrow> \<not> bit m 2" and two: "m AND 2 = 0 \<longleftrightarrow> \<not> bit m 1" for m :: int
    using and_exp_eq_0_iff_not_bit [of m 2] and_exp_eq_0_iff_not_bit [of m 1] by simp_all
  have one: "m AND 1 = 0 \<longleftrightarrow> \<not> bit m 0" for m :: int
    using and_exp_eq_0_iff_not_bit [of m 0] by simp
  show ?thesis
    unfolding triad_label_def four two one seven by (simp add: bit_simps add.commute)
qed

lemma modeLabel_bits:
  "0 < n \<Longrightarrow> modeLabel (Fin (of_int n)) =
     Some (map (\<lambda>i. if bit n (8 - i) then ''rwxrwxrwx'' ! i else CHR ''-'') [0..<9])"
proof -
  assume n: "0 < n"
  have low: "n mod 512 = take_bit 9 n" by (simp add: take_bit_eq_mod)
  have "bit (take_bit 9 n) i = bit n i" if "i < 9" for i using that by (simp add: bit_simps)
  then have "concat (map (\<lambda>shift. triad_label (drop_bit shift (take_bit 9 n) AND 7)) [6, 3, 0]) =
      map (\<lambda>i. if bit n (8 - i) then ''rwxrwxrwx'' ! i else CHR ''-'') [0..<9]"
    by (simp add: triad_label_bits upt_rec numeral_nat)
  then show ?thesis using n unfolding modeLabel_def by (simp add: int32_low_bits low del: list.map)
qed

text \<open>Two modes print the same exactly when their permission bits agree.\<close>

lemma modeLabel_inject:
  assumes "0 < m" and "0 < n"
  shows "modeLabel (Fin (of_int m)) = modeLabel (Fin (of_int n)) \<longleftrightarrow> m mod 512 = n mod 512"
proof
  assume "modeLabel (Fin (of_int m)) = modeLabel (Fin (of_int n))"
  then have "\<And>i. i < 9 \<Longrightarrow> (if bit m (8 - i) then ''rwxrwxrwx'' ! i else CHR ''-'') =
      (if bit n (8 - i) then ''rwxrwxrwx'' ! i else CHR ''-'')"
    using assms by (simp add: modeLabel_bits)
  moreover have "''rwxrwxrwx'' ! i \<noteq> CHR ''-''" if "i < 9" for i
    using that by (simp add: less_Suc_eq numeral_nat) auto
  ultimately have same: "bit m (8 - i) = bit n (8 - i)" if "i < 9" for i using that by metis
  have "bit m j = bit n j" if "j < 9" for j using same [of "8 - j"] that by simp
  then have "take_bit 9 m = take_bit 9 n" by (auto simp: bit_eq_iff bit_simps)
  then show "m mod 512 = n mod 512" by (simp add: take_bit_eq_mod)
next
  assume "m mod 512 = n mod 512"
  then show "modeLabel (Fin (of_int m)) = modeLabel (Fin (of_int n))"
    using assms by (simp add: modeLabel_def int32_low_bits)
qed

end
