(* ===== verification/Files.thy ===== *)
theory Files
  imports Ordering "HOL-Library.AList"
begin

text \<open>
  \<^verbatim>\<open>packages/core/src/commit-files.ts\<close>: the tree and the list of a commit's changed files, and the
  comparison of a remote with the tracking refs of the last fetch. \<open>localeCompare\<close> is the
  parameter \<open>lc\<close>, a comparator; the payload of the tree is a type parameter with its path.
\<close>

declare map_of_eq_Some_iff [simp del] Some_eq_map_of_iff [simp del]

section \<open>The tree\<close>

datatype 'a file_node =
    DirNode (node_path: string) (node_label: string) (node_children: "'a file_node list")
  | FileNode (node_path: string) (node_label: string) (node_file: 'a)

definition cat_path :: "string \<Rightarrow> string \<Rightarrow> string" where
  "cat_path parent segment = (if parent = [] then segment else parent @ CHR ''/'' # segment)"

text \<open>The directory of a path among the children, made at the end when it is not there.\<close>

fun in_dir :: "string \<Rightarrow> string \<Rightarrow> ('a file_node list \<Rightarrow> 'a file_node list) \<Rightarrow> 'a file_node list \<Rightarrow> 'a file_node list" where
  "in_dir path segment f [] = [DirNode path segment (f [])]"
| "in_dir path segment f (DirNode p l ks # cs) =
     (if p = path then DirNode p l (f ks) # cs else DirNode p l ks # in_dir path segment f cs)"
| "in_dir path segment f (FileNode p l x # cs) = FileNode p l x # in_dir path segment f cs"

text \<open>The walk of the cursor down the segments, and the file pushed where it ends.\<close>

fun put_file :: "string \<Rightarrow> string list \<Rightarrow> 'a file_node \<Rightarrow> 'a file_node list \<Rightarrow> 'a file_node list" where
  "put_file cursor [] leaf cs = cs @ [leaf]"
| "put_file cursor (segment # segments) leaf cs =
     in_dir (cat_path cursor segment) segment (put_file (cat_path cursor segment) segments leaf) cs"

definition path_segments :: "string \<Rightarrow> string list" where
  "path_segments path = filter (\<lambda>segment. segment \<noteq> []) (js_split CHR ''/'' path)"

definition add_file :: "('a \<Rightarrow> string) \<Rightarrow> 'a file_node list \<Rightarrow> 'a \<Rightarrow> 'a file_node list" where
  "add_file path_of children x =
     (let segments = path_segments (path_of x) in
      if segments = [] then children
      else put_file [] (butlast segments) (FileNode (path_of x) (last segments) x) children)"

text \<open>Folding a directory whose only child is a directory.\<close>

fun fold_chain :: "string \<Rightarrow> string \<Rightarrow> 'a file_node list \<Rightarrow> 'a file_node" where
  "fold_chain p l [DirNode p' l' ks] = fold_chain p' (if l \<noteq> [] then l @ CHR ''/'' # l' else l') ks"
| "fold_chain p l cs = DirNode p l cs"

fun collapse_node :: "'a file_node \<Rightarrow> 'a file_node" where
  "collapse_node (DirNode p l cs) = fold_chain p l (map collapse_node cs)"
| "collapse_node (FileNode p l x) = FileNode p l x"

definition is_dir :: "'a file_node \<Rightarrow> bool" where
  "is_dir n = (case n of DirNode _ _ _ \<Rightarrow> True | FileNode _ _ _ \<Rightarrow> False)"

definition node_cmp :: "string cmp \<Rightarrow> 'a file_node cmp" where
  "node_cmp lc a b =
     (if is_dir a \<noteq> is_dir b then (if \<not> is_dir a then -1 else 1) else lc (node_label a) (node_label b))"

fun sort_node :: "string cmp \<Rightarrow> 'a file_node \<Rightarrow> 'a file_node" where
  "sort_node lc (DirNode p l cs) = DirNode p l (js_sort (node_cmp lc) (map (sort_node lc) cs))"
| "sort_node lc (FileNode p l x) = FileNode p l x"

definition sort_nodes :: "string cmp \<Rightarrow> 'a file_node list \<Rightarrow> 'a file_node list" where
  "sort_nodes lc cs = js_sort (node_cmp lc) (map (sort_node lc) cs)"

definition treeOf :: "string cmp \<Rightarrow> ('a \<Rightarrow> string) \<Rightarrow> 'a list \<Rightarrow> 'a file_node list" where
  "treeOf lc path_of files = sort_nodes lc (map collapse_node (foldl (add_file path_of) [] files))"

datatype change_status = Added | Modified | Deleted | Renamed

record changed_file =
  cf_path :: string
  cf_status :: change_status
  cf_add :: int
  cf_del :: int

definition fileTree :: "string cmp \<Rightarrow> changed_file list \<Rightarrow> changed_file file_node list" where
  "fileTree lc files = treeOf lc cf_path files"

definition fileList :: "string cmp \<Rightarrow> changed_file list \<Rightarrow> changed_file list" where
  "fileList lc files = js_sort (\<lambda>a b. lc (cf_path a) (cf_path b)) files"

lemma comparator_node_cmp: "comparator lc \<Longrightarrow> comparator (node_cmp lc)"
proof -
  assume lc: "comparator lc"
  have "node_cmp lc = then_by (by_key (\<lambda>n. if is_dir n then 1 else 0)) (\<lambda>a b. lc (node_label a) (node_label b))"
    by (intro ext) (simp add: node_cmp_def then_by_def by_key_def)
  then show ?thesis using comparator_then_by [OF comparator_by_key comparator_on [OF lc]] by metis
qed

interpretation code_unit_tree: comparator "node_cmp str_cmp"
  by (rule comparator_node_cmp) (rule strings.comparator_axioms)

section \<open>What the tree shows\<close>

text \<open>
  Every file below a list of rows, with the path its rows spell: the labels from the top joined
  by slashes.
\<close>

fun spelled_node :: "string \<Rightarrow> 'a file_node \<Rightarrow> (string \<times> 'a) list" where
  "spelled_node pre (DirNode p l cs) = concat (map (spelled_node (cat_path pre l)) cs)"
| "spelled_node pre (FileNode p l x) = [(cat_path pre l, x)]"

definition spelled :: "string \<Rightarrow> 'a file_node list \<Rightarrow> (string \<times> 'a) list" where
  "spelled pre cs = concat (map (spelled_node pre) cs)"

lemma spelled_simps [simp]:
  "spelled pre [] = []"
  "spelled pre (n # cs) = spelled_node pre n @ spelled pre cs"
  "spelled pre (cs @ ds) = spelled pre cs @ spelled pre ds"
  "spelled_node pre (DirNode p l cs) = spelled (cat_path pre l) cs"
  by (simp_all add: spelled_def)

text \<open>The segment of a directory's label that stands next to its parent.\<close>

definition first_segment :: "string \<Rightarrow> string" where
  "first_segment l = takeWhile (\<lambda>c. c \<noteq> CHR ''/'') l"

definition dir_labels :: "'a file_node list \<Rightarrow> string list" where
  "dir_labels cs = map node_label (filter is_dir cs)"

text \<open>
  Rows below a directory of a path: every directory is filed under the path its rows spell, is not
  empty, and no two siblings begin with the same segment.
\<close>

fun row_ok :: "string \<Rightarrow> 'a file_node \<Rightarrow> bool" where
  "row_ok pre (DirNode p l cs) \<longleftrightarrow> p = cat_path pre l \<and> l \<noteq> [] \<and> hd l \<noteq> CHR ''/'' \<and> cs \<noteq> []
     \<and> (\<forall>n \<in> set cs. row_ok p n) \<and> distinct (map first_segment (dir_labels cs))"
| "row_ok pre (FileNode p l x) \<longleftrightarrow> l \<noteq> [] \<and> CHR ''/'' \<notin> set l"

definition rows_ok :: "string \<Rightarrow> 'a file_node list \<Rightarrow> bool" where
  "rows_ok pre cs \<longleftrightarrow> (\<forall>n \<in> set cs. row_ok pre n) \<and> distinct (map first_segment (dir_labels cs))"

lemma row_ok_dir [simp]:
  "row_ok pre (DirNode p l cs) \<longleftrightarrow> p = cat_path pre l \<and> l \<noteq> [] \<and> hd l \<noteq> CHR ''/'' \<and> cs \<noteq> [] \<and> rows_ok p cs"
  by (auto simp: rows_ok_def)

declare row_ok.simps(1) [simp del] spelled_node.simps(1) [simp del]

lemma row_ok_dirD:
  assumes "row_ok pre (DirNode p l cs)"
  shows "p = cat_path pre l" "l \<noteq> []" "hd l \<noteq> CHR ''/''" "cs \<noteq> []" "rows_ok p cs"
  using assms by auto

text \<open>While the tree grows every directory is one segment.\<close>

fun one_segment :: "'a file_node \<Rightarrow> bool" where
  "one_segment (DirNode p l cs) \<longleftrightarrow> CHR ''/'' \<notin> set l \<and> (\<forall>n \<in> set cs. one_segment n)"
| "one_segment (FileNode p l x) \<longleftrightarrow> True"

definition grown :: "string \<Rightarrow> 'a file_node list \<Rightarrow> bool" where
  "grown pre cs \<longleftrightarrow> rows_ok pre cs \<and> (\<forall>n \<in> set cs. one_segment n)"

lemma cat_path_inject [simp]: "cat_path pre l = cat_path pre l' \<longleftrightarrow> l = l'"
  by (simp add: cat_path_def)

lemma cat_path_not_Nil [simp]: "l \<noteq> [] \<Longrightarrow> cat_path pre l \<noteq> []"
  by (simp add: cat_path_def)

lemma cat_path_assoc: "l \<noteq> [] \<Longrightarrow> cat_path (cat_path pre l) l' = cat_path pre (l @ CHR ''/'' # l')"
  by (simp add: cat_path_def)

lemma first_segment_plain: "CHR ''/'' \<notin> set l \<Longrightarrow> first_segment l = l"
  unfolding first_segment_def takeWhile_eq_all_conv by blast

lemma first_segment_append [simp]: "first_segment (l @ CHR ''/'' # l') = first_segment l"
  unfolding first_segment_def by (induction l) auto

lemma dir_labels_simps [simp]:
  "dir_labels [] = []"
  "dir_labels (DirNode p l ks # cs) = l # dir_labels cs"
  "dir_labels (FileNode p l x # cs) = dir_labels cs"
  "dir_labels (cs @ ds) = dir_labels cs @ dir_labels ds"
  by (simp_all add: dir_labels_def is_dir_def)

lemma dir_labels_mem: "l \<in> set (dir_labels cs) \<Longrightarrow> \<exists>p ks. DirNode p l ks \<in> set cs"
proof -
  assume "l \<in> set (dir_labels cs)"
  then obtain n where n: "n \<in> set cs" "is_dir n" "node_label n = l" by (auto simp: dir_labels_def)
  have "is_dir n \<Longrightarrow> n = DirNode (node_path n) (node_label n) (node_children n)"
    by (cases n) (simp_all add: is_dir_def)
  with n have "n = DirNode (node_path n) l (node_children n)" by simp
  then show ?thesis using n(1) by metis
qed

text \<open>What one step of the walk does, given what the rest of the walk does below it.\<close>

lemma grown_dir: "grown pre (DirNode p l ks # cs) \<longleftrightarrow> p = cat_path pre l \<and> l \<noteq> [] \<and> CHR ''/'' \<notin> set l \<and> ks \<noteq> []
    \<and> grown p ks \<and> grown pre cs \<and> first_segment l \<notin> first_segment ` set (dir_labels cs)"
proof -
  have "l \<noteq> [] \<Longrightarrow> CHR ''/'' \<notin> set l \<Longrightarrow> hd l \<noteq> CHR ''/''" by (cases l) auto
  then show ?thesis by (auto simp: grown_def rows_ok_def)
qed

lemma grown_file: "grown pre (FileNode p l x # cs) \<longleftrightarrow> l \<noteq> [] \<and> CHR ''/'' \<notin> set l \<and> grown pre cs"
  by (auto simp: grown_def rows_ok_def)

lemma grown_Nil: "grown pre []"
  by (simp add: grown_def rows_ok_def)

lemmas grown_simps = grown_Nil grown_dir grown_file

lemma in_dir_grown:
  assumes f: "\<And>ks. grown (cat_path pre seg) ks \<Longrightarrow> f ks \<noteq> [] \<and> grown (cat_path pre seg) (f ks)
      \<and> mset (spelled (cat_path pre seg) (f ks)) = add_mset y (mset (spelled (cat_path pre seg) ks))"
    and seg: "seg \<noteq> []" "CHR ''/'' \<notin> set seg"
  shows "grown pre cs \<Longrightarrow> grown pre (in_dir (cat_path pre seg) seg f cs)
     \<and> set (dir_labels (in_dir (cat_path pre seg) seg f cs)) = insert seg (set (dir_labels cs))
     \<and> mset (spelled pre (in_dir (cat_path pre seg) seg f cs)) = add_mset y (mset (spelled pre cs))"
proof (induction cs)
  case Nil
  show ?case using f [OF grown_Nil] seg by (simp add: grown_simps)
next
  case (Cons n cs)
  show ?case
  proof (cases n)
    case n: (DirNode p l ks)
    note facts = Cons.prems [unfolded n grown_dir]
    then have IH: "grown pre (in_dir (cat_path pre seg) seg f cs)"
      "set (dir_labels (in_dir (cat_path pre seg) seg f cs)) = insert seg (set (dir_labels cs))"
      "mset (spelled pre (in_dir (cat_path pre seg) seg f cs)) = add_mset y (mset (spelled pre cs))"
      using Cons.IH by simp_all
    show ?thesis
    proof (cases "l = seg")
      case True
      moreover from this facts have "grown (cat_path pre seg) ks" by auto
      ultimately show ?thesis using f [of ks] facts by (simp add: n grown_dir)
    next
      case False
      then have "first_segment l \<noteq> first_segment seg" using seg(2) facts by (simp add: first_segment_plain)
      moreover from facts have "grown (cat_path pre l) ks" "p = cat_path pre l" by auto
      ultimately show ?thesis using IH facts False by (simp add: n grown_dir insert_commute)
    qed
  next
    case n: (FileNode p l x)
    then show ?thesis using Cons by (simp add: grown_file)
  qed
qed

lemma grown_snoc: "grown pre cs \<Longrightarrow> l \<noteq> [] \<Longrightarrow> CHR ''/'' \<notin> set l \<Longrightarrow> grown pre (cs @ [FileNode p l x])"
  by (auto simp: grown_def rows_ok_def)

lemma put_file_grown:
  assumes "\<And>seg. seg \<in> set segs \<Longrightarrow> seg \<noteq> [] \<and> CHR ''/'' \<notin> set seg" and "l \<noteq> []" and "CHR ''/'' \<notin> set l"
  shows "grown pre cs \<Longrightarrow> put_file pre segs (FileNode p l x) cs \<noteq> []
     \<and> grown pre (put_file pre segs (FileNode p l x) cs)
     \<and> mset (spelled pre (put_file pre segs (FileNode p l x) cs)) =
         add_mset (foldl cat_path pre (segs @ [l]), x) (mset (spelled pre cs))"
  using assms(1)
proof (induction segs arbitrary: pre cs)
  case Nil
  then show ?case using assms(2,3) by (simp add: grown_snoc)
next
  case (Cons seg segs)
  let ?f = "put_file (cat_path pre seg) segs (FileNode p l x)"
  have step: "grown pre (in_dir (cat_path pre seg) seg ?f cs)
     \<and> set (dir_labels (in_dir (cat_path pre seg) seg ?f cs)) = insert seg (set (dir_labels cs))
     \<and> mset (spelled pre (in_dir (cat_path pre seg) seg ?f cs)) =
         add_mset (foldl cat_path (cat_path pre seg) (segs @ [l]), x) (mset (spelled pre cs))"
    by (rule in_dir_grown [OF Cons.IH]) (use Cons.prems in auto)
  then have "in_dir (cat_path pre seg) seg ?f cs \<noteq> []" by auto
  with step show ?case by simp
qed

lemma js_join_snoc: "ws \<noteq> [] \<Longrightarrow> js_join sep (ws @ [w]) = js_join sep ws @ sep @ w"
  by (induction sep ws rule: js_join.induct) auto

lemma foldl_cat_path_join:
  "s \<noteq> [] \<Longrightarrow> list_all (\<lambda>s. s \<noteq> []) segs \<Longrightarrow>
     foldl cat_path (js_join ''/'' (s # ss)) segs = js_join ''/'' ((s # ss) @ segs)"
proof (induction segs arbitrary: ss)
  case (Cons t segs)
  have "js_join ''/'' (s # ss) \<noteq> []" using Cons.prems by (cases ss) simp_all
  then have "cat_path (js_join ''/'' (s # ss)) t = js_join ''/'' ((s # ss) @ [t])"
    by (subst js_join_snoc) (simp_all add: cat_path_def)
  then show ?case using Cons.IH [of "ss @ [t]"] Cons.prems by simp
qed simp

lemma foldl_cat_path: "list_all (\<lambda>s. s \<noteq> []) segs \<Longrightarrow> foldl cat_path [] segs = js_join ''/'' segs"
proof (cases segs)
  case (Cons s ss)
  moreover assume "list_all (\<lambda>s. s \<noteq> []) segs"
  ultimately show ?thesis using foldl_cat_path_join [of s ss "[]"] by (simp add: cat_path_def)
qed simp

lemma path_segments_mem: "seg \<in> set (path_segments path) \<Longrightarrow> seg \<noteq> [] \<and> CHR ''/'' \<notin> set seg"
  by (auto simp: path_segments_def dest: js_split_no_sep)

definition spelled_path :: "string \<Rightarrow> string" where
  "spelled_path path = js_join ''/'' (path_segments path)"

lemma add_file_grown:
  assumes "grown [] cs"
  shows "grown [] (add_file path_of cs x)
    \<and> mset (spelled [] (add_file path_of cs x)) =
        mset (spelled [] cs) + (if path_segments (path_of x) = [] then {#} else {#(spelled_path (path_of x), x)#})"
proof (cases "path_segments (path_of x) = []")
  case False
  define segs where "segs = path_segments (path_of x)"
  have segs: "segs \<noteq> []" "\<And>seg. seg \<in> set segs \<Longrightarrow> seg \<noteq> [] \<and> CHR ''/'' \<notin> set seg"
    using False path_segments_mem by (simp_all add: segs_def)
  have l: "last segs \<noteq> []" "CHR ''/'' \<notin> set (last segs)" using segs by auto
  have "foldl cat_path [] (butlast segs @ [last segs]) = spelled_path (path_of x)"
    using segs foldl_cat_path [of segs] by (simp add: spelled_path_def segs_def list_all_iff)
  then show ?thesis
    using put_file_grown [OF _ l assms, of "butlast segs" "path_of x" x] segs
    by (simp add: add_file_def Let_def in_set_butlastD flip: segs_def)
qed (use assms in \<open>simp add: add_file_def\<close>)

lemma built_grown:
  "grown [] cs \<Longrightarrow> grown [] (foldl (add_file path_of) cs xs)
    \<and> mset (spelled [] (foldl (add_file path_of) cs xs)) = mset (spelled [] cs)
       + mset (map (\<lambda>x. (spelled_path (path_of x), x)) (filter (\<lambda>x. path_segments (path_of x) \<noteq> []) xs))"
  by (induction xs arbitrary: cs) (use add_file_grown [of _ path_of] in auto)

section \<open>Folding and sorting keep what the tree shows\<close>

text \<open>No directory, however deep, holds a single directory and nothing else.\<close>

fun folded :: "'a file_node \<Rightarrow> bool" where
  "folded (DirNode p l cs) \<longleftrightarrow> \<not> (length cs = 1 \<and> is_dir (hd cs)) \<and> (\<forall>n \<in> set cs. folded n)"
| "folded (FileNode p l x) \<longleftrightarrow> True"

text \<open>Two rows that stand for the same thing next to their parent.\<close>

definition same_row :: "string \<Rightarrow> 'a file_node \<Rightarrow> 'a file_node \<Rightarrow> bool" where
  "same_row pre m n \<longleftrightarrow> is_dir m = is_dir n \<and> first_segment (node_label m) = first_segment (node_label n)
     \<and> row_ok pre m = row_ok pre n \<and> mset (spelled_node pre m) = mset (spelled_node pre n)"

lemma is_dir_simps [simp]: "is_dir (DirNode p l cs)" "\<not> is_dir (FileNode p l x)"
  by (simp_all add: is_dir_def)

lemma hd_append_label: "l \<noteq> [] \<Longrightarrow> hd (l @ CHR ''/'' # l') = hd l"
  by simp

lemma fold_chain_row:
  assumes "p = cat_path pre l" and "l \<noteq> []" and "hd l \<noteq> CHR ''/''" and "cs \<noteq> []" and "rows_ok p cs"
    and "\<forall>n \<in> set cs. folded n"
  shows "row_ok pre (fold_chain p l cs) \<and> folded (fold_chain p l cs) \<and> is_dir (fold_chain p l cs)
    \<and> first_segment (node_label (fold_chain p l cs)) = first_segment l
    \<and> spelled_node pre (fold_chain p l cs) = spelled (cat_path pre l) cs"
  using assms
proof (induction p l cs rule: fold_chain.induct)
  case (1 p l p' l' ks)
  then have "row_ok p (DirNode p' l' ks)" and f: "\<forall>n \<in> set ks. folded n"
    by (auto simp: rows_ok_def)
  note row = row_ok_dirD [OF this(1)]
  have "cat_path p l' = cat_path pre (l @ CHR ''/'' # l')" using 1(2,3) by (simp add: cat_path_assoc)
  then show ?case using 1 row f by simp
qed simp_all

lemma dir_labels_map:
  assumes "\<And>n. n \<in> set cs \<Longrightarrow> is_dir (f n) = is_dir n \<and> first_segment (node_label (f n)) = first_segment (node_label n)"
  shows "map first_segment (dir_labels (map f cs)) = map first_segment (dir_labels cs)"
  using assms by (induction cs) (auto simp: dir_labels_def)

lemma rows_ok_map:
  assumes "\<And>n. n \<in> set cs \<Longrightarrow> is_dir (f n) = is_dir n \<and> first_segment (node_label (f n)) = first_segment (node_label n)"
    and "\<And>n. n \<in> set cs \<Longrightarrow> row_ok pre (f n)" and "rows_ok pre cs"
  shows "rows_ok pre (map f cs)"
  using assms(2,3) dir_labels_map [of cs f] assms(1) by (auto simp: rows_ok_def)

lemma spelled_map:
  "(\<And>n. n \<in> set cs \<Longrightarrow> mset (spelled_node pre (f n)) = mset (spelled_node pre n)) \<Longrightarrow>
     mset (spelled pre (map f cs)) = mset (spelled pre cs)"
  by (induction cs) auto

lemma collapse_node_row:
  "row_ok pre n \<Longrightarrow> row_ok pre (collapse_node n) \<and> folded (collapse_node n) \<and> is_dir (collapse_node n) = is_dir n
     \<and> first_segment (node_label (collapse_node n)) = first_segment (node_label n)
     \<and> mset (spelled_node pre (collapse_node n)) = mset (spelled_node pre n)"
proof (induction n arbitrary: pre rule: collapse_node.induct)
  case (1 p l cs)
  note row = row_ok_dirD [OF 1(2)]
  have kids: "row_ok p (collapse_node n) \<and> folded (collapse_node n) \<and> is_dir (collapse_node n) = is_dir n
     \<and> first_segment (node_label (collapse_node n)) = first_segment (node_label n)
     \<and> mset (spelled_node p (collapse_node n)) = mset (spelled_node p n)" if "n \<in> set cs" for n
    using 1(1) [OF that, of p] row(5) that by (auto simp: rows_ok_def)
  have "rows_ok p (map collapse_node cs)" using kids row(5) by (intro rows_ok_map) auto
  moreover have "mset (spelled p (map collapse_node cs)) = mset (spelled p cs)" using kids by (intro spelled_map) auto
  ultimately show ?case
    using fold_chain_row [OF row(1-3), of "map collapse_node cs"] kids row by auto
qed simp

text \<open>Sorting.\<close>

fun nodes_sorted :: "string cmp \<Rightarrow> 'a file_node \<Rightarrow> bool" where
  "nodes_sorted lc (DirNode p l cs) \<longleftrightarrow>
     sorted_wrt (\<lambda>a b. node_cmp lc a b \<le> 0) cs \<and> (\<forall>n \<in> set cs. nodes_sorted lc n)"
| "nodes_sorted lc (FileNode p l x) \<longleftrightarrow> True"

lemma spelled_mset: "mset cs = mset ds \<Longrightarrow> mset (spelled pre cs) = mset (spelled pre ds)"
proof -
  have "mset (spelled pre cs) = \<Sum>\<^sub># (image_mset (\<lambda>n. mset (spelled_node pre n)) (mset cs))" for cs :: "'a file_node list"
    by (induction cs) simp_all
  then show "mset cs = mset ds \<Longrightarrow> ?thesis" by simp
qed

lemma rows_ok_mset: "mset cs = mset ds \<Longrightarrow> rows_ok pre cs \<longleftrightarrow> rows_ok pre ds"
proof -
  assume eq: "mset cs = mset ds"
  then have "set cs = set ds" by (rule mset_eq_setD)
  moreover have "mset (map first_segment (dir_labels cs)) = mset (map first_segment (dir_labels ds))"
    using eq by (simp add: dir_labels_def)
  then have "distinct (map first_segment (dir_labels cs)) = distinct (map first_segment (dir_labels ds))"
    by (rule mset_eq_imp_distinct_iff)
  ultimately show ?thesis by (simp add: rows_ok_def)
qed

lemma sort_node_row:
  assumes lc: "comparator lc"
  shows "row_ok pre n \<Longrightarrow> row_ok pre (sort_node lc n) \<and> (folded n \<longrightarrow> folded (sort_node lc n)) \<and> is_dir (sort_node lc n) = is_dir n
     \<and> node_label (sort_node lc n) = node_label n \<and> nodes_sorted lc (sort_node lc n)
     \<and> mset (spelled_node pre (sort_node lc n)) = mset (spelled_node pre n)"
proof (induction n arbitrary: pre rule: collapse_node.induct)
  case (1 p l cs)
  note row = row_ok_dirD [OF 1(2)]
  have kids: "row_ok p (sort_node lc n) \<and> (folded n \<longrightarrow> folded (sort_node lc n)) \<and> is_dir (sort_node lc n) = is_dir n
     \<and> node_label (sort_node lc n) = node_label n \<and> nodes_sorted lc (sort_node lc n)
     \<and> mset (spelled_node p (sort_node lc n)) = mset (spelled_node p n)" if "n \<in> set cs" for n
    using 1(1) [OF that, of p] row(5) that by (auto simp: rows_ok_def)
  let ?ms = "map (sort_node lc) cs"
  let ?ss = "js_sort (node_cmp lc) ?ms"
  have "rows_ok p ?ms" using kids row(5) by (intro rows_ok_map) auto
  then have "rows_ok p ?ss" using rows_ok_mset [of ?ss ?ms p] by simp
  moreover have "mset (spelled p ?ss) = mset (spelled p ?ms)" by (rule spelled_mset) simp
  moreover have "mset (spelled p ?ms) = mset (spelled p cs)" using kids by (intro spelled_map) auto
  moreover have "sorted_wrt (\<lambda>a b. node_cmp lc a b \<le> 0) ?ss"
    by (rule comparator.ordered_js_sort [OF comparator_node_cmp [OF lc]])
  moreover have "folded (DirNode p l cs) \<longrightarrow> folded (DirNode p l ?ss)"
  proof (intro impI)
    assume f: "folded (DirNode p l cs)"
    have "\<not> (length ?ss = 1 \<and> is_dir (hd ?ss))"
    proof
      assume one: "length ?ss = 1 \<and> is_dir (hd ?ss)"
      then obtain n where "cs = [n]" by (auto simp: length_Suc_conv)
      then show False using one f kids [of n] by simp
    qed
    then show "folded (DirNode p l ?ss)" using f kids by auto
  qed
  moreover have "?ss \<noteq> []" using row(4) length_js_sort [of "node_cmp lc" ?ms] by (metis length_0_conv length_map)
  ultimately show ?case using row kids by auto
qed simp

lemma spelled_path_plain: "list_all (\<lambda>s. s \<noteq> []) (js_split CHR ''/'' path) \<Longrightarrow> spelled_path path = path"
proof -
  assume "list_all (\<lambda>s. s \<noteq> []) (js_split CHR ''/'' path)"
  then have "path_segments path = js_split CHR ''/'' path"
    unfolding path_segments_def list_all_iff by (rule filter_True)
  then show ?thesis by (simp add: spelled_path_def js_join_split)
qed

lemma rows_of_tree:
  fixes path_of :: "'a \<Rightarrow> string" and xs :: "'a list"
  assumes lc: "comparator lc"
  defines "tree \<equiv> treeOf lc path_of xs"
  shows "rows_ok [] tree" and "list_all folded tree" and "list_all (nodes_sorted lc) tree"
    and "sorted_wrt (\<lambda>a b. node_cmp lc a b \<le> 0) tree"
    and "mset (spelled [] tree) =
      mset (map (\<lambda>x. (spelled_path (path_of x), x)) (filter (\<lambda>x. path_segments (path_of x) \<noteq> []) xs))"
proof -
  define built where "built = foldl (add_file path_of) [] xs"
  have b: "rows_ok [] built" "mset (spelled [] built) =
      mset (map (\<lambda>x. (spelled_path (path_of x), x)) (filter (\<lambda>x. path_segments (path_of x) \<noteq> []) xs))"
    using built_grown [OF grown_Nil, of path_of xs] by (simp_all add: built_def grown_def)
  define rows where "rows = map collapse_node built"
  have c: "n \<in> set built \<Longrightarrow> row_ok [] (collapse_node n) \<and> folded (collapse_node n) \<and> is_dir (collapse_node n) = is_dir n
     \<and> first_segment (node_label (collapse_node n)) = first_segment (node_label n)
     \<and> mset (spelled_node [] (collapse_node n)) = mset (spelled_node [] n)" for n
    using b(1) by (intro collapse_node_row) (auto simp: rows_ok_def)
  then have r: "rows_ok [] rows" "mset (spelled [] rows) = mset (spelled [] built)" "list_all folded rows"
    using rows_ok_map [of built collapse_node "[]"] spelled_map [of built "[]" collapse_node] b(1)
    by (simp_all add: rows_def list_all_iff)
  have s: "n \<in> set rows \<Longrightarrow> row_ok [] (sort_node lc n) \<and> (folded n \<longrightarrow> folded (sort_node lc n)) \<and> is_dir (sort_node lc n) = is_dir n
     \<and> node_label (sort_node lc n) = node_label n \<and> nodes_sorted lc (sort_node lc n)
     \<and> mset (spelled_node [] (sort_node lc n)) = mset (spelled_node [] n)" for n
    using r(1) by (intro sort_node_row [OF lc]) (auto simp: rows_ok_def)
  let ?ms = "map (sort_node lc) rows"
  have t: "tree = js_sort (node_cmp lc) ?ms" by (simp add: tree_def treeOf_def sort_nodes_def rows_def built_def)
  then have "mset tree = mset ?ms" by simp
  then have st: "set tree = set ?ms" by (rule mset_eq_setD)
  show "list_all folded tree" "list_all (nodes_sorted lc) tree"
    using s r(3) unfolding list_all_iff st by auto
  have "rows_ok [] ?ms" using s r(1) by (intro rows_ok_map) auto
  then show "rows_ok [] tree" using rows_ok_mset [OF \<open>mset tree = mset ?ms\<close>] by simp
  show "sorted_wrt (\<lambda>a b. node_cmp lc a b \<le> 0) tree"
    unfolding t by (rule comparator.ordered_js_sort [OF comparator_node_cmp [OF lc]])
  have "mset (spelled [] tree) = mset (spelled [] ?ms)" by (rule spelled_mset) fact
  also have "\<dots> = mset (spelled [] rows)" using s by (intro spelled_map) auto
  finally show "mset (spelled [] tree) =
      mset (map (\<lambda>x. (spelled_path (path_of x), x)) (filter (\<lambda>x. path_segments (path_of x) \<noteq> []) xs))"
    using r(2) b(2) by simp
qed

text \<open>
  C33 (\<open>tree_shows_every_file\<close>): the tree of a list of files shows every file whose path names
  something exactly once, under rows whose labels spell that path; every directory is filed under
  the path its rows spell and holds something, no two folders side by side begin with the same
  segment, no folder below the top holds a single folder, and every level lists files before
  folders in the order of the collation.
\<close>

theorem tree_shows_every_file:
  assumes "comparator lc"
  shows "mset (spelled [] (treeOf lc path_of xs)) =
      mset (map (\<lambda>x. (spelled_path (path_of x), x)) (filter (\<lambda>x. path_segments (path_of x) \<noteq> []) xs))
    \<and> rows_ok [] (treeOf lc path_of xs) \<and> list_all folded (treeOf lc path_of xs)
    \<and> list_all (nodes_sorted lc) (treeOf lc path_of xs)
    \<and> sorted_wrt (\<lambda>a b. node_cmp lc a b \<le> 0) (treeOf lc path_of xs)"
  using rows_of_tree [OF assms, of path_of xs] by blast

theorem tree_shows_every_file_witness:
  "treeOf str_cmp (\<lambda>x. x) [''apps/api/src/main.ts'', ''README.md'', ''apps/api/src/mcp/gateway.ts''] =
     [FileNode ''README.md'' ''README.md'' ''README.md'',
      DirNode ''apps/api/src'' ''apps/api/src''
        [FileNode ''apps/api/src/main.ts'' ''main.ts'' ''apps/api/src/main.ts'',
         DirNode ''apps/api/src/mcp'' ''mcp''
           [FileNode ''apps/api/src/mcp/gateway.ts'' ''gateway.ts'' ''apps/api/src/mcp/gateway.ts'']]]
   \<and> list_all folded (treeOf str_cmp (\<lambda>x. x) [''apps/api/src/main.ts'', ''README.md'', ''apps/api/src/mcp/gateway.ts''])"
proof (rule conjI)
  show "list_all folded (treeOf str_cmp (\<lambda>x. x) [''apps/api/src/main.ts'', ''README.md'', ''apps/api/src/mcp/gateway.ts''])"
    using tree_shows_every_file [OF strings.comparator_axioms] by blast
qed code_simp

section \<open>The remote, compared\<close>

datatype local_ref_kind = LocalBranch | RemoteBranch | LocalTag

record local_ref =
  lr_name :: string
  lr_sha :: string
  lr_kind :: local_ref_kind

record remote_ref =
  rr_name :: string
  rr_sha :: string
  rr_branch :: bool

datatype remote_status = Same | Moved | Appeared | Gone

record comparison_row =
  cr_name :: string
  cr_status :: remote_status
  cr_behind :: "int option"

text \<open>The branch a remote-tracking name stands for: what follows its first slash.\<close>

definition tracked_branch :: "string \<Rightarrow> string option" where
  "tracked_branch name =
     (let slash = index_of name CHR ''/'' in if slash \<le> 0 then None else Some (drop (nat slash + 1) name))"

definition track :: "(string \<times> string) list \<Rightarrow> local_ref \<Rightarrow> (string \<times> string) list" where
  "track m r =
     (if lr_kind r \<noteq> RemoteBranch then m
      else case tracked_branch (lr_name r) of None \<Rightarrow> m | Some branch \<Rightarrow> AList.update branch (lr_sha r) m)"

definition compare_ref ::
    "(string \<Rightarrow> string \<Rightarrow> int option) \<Rightarrow> (string \<times> string) list \<Rightarrow> remote_ref \<Rightarrow> comparison_row" where
  "compare_ref distance tracking r =
     (case map_of tracking (rr_name r) of
        None \<Rightarrow> \<lparr>cr_name = rr_name r, cr_status = Appeared, cr_behind = None\<rparr>
      | Some known \<Rightarrow>
          if known = rr_sha r then \<lparr>cr_name = rr_name r, cr_status = Same, cr_behind = None\<rparr>
          else \<lparr>cr_name = rr_name r, cr_status = Moved, cr_behind = distance known (rr_sha r)\<rparr>)"

fun status_rank :: "remote_status \<Rightarrow> int" where
  "status_rank Moved = 0"
| "status_rank Appeared = 1"
| "status_rank Gone = 2"
| "status_rank Same = 3"

definition row_cmp :: "string cmp \<Rightarrow> comparison_row cmp" where
  "row_cmp lc = then_by (by_key (\<lambda>r. status_rank (cr_status r))) (\<lambda>a b. lc (cr_name a) (cr_name b))"

definition remoteComparison ::
    "string cmp \<Rightarrow> local_ref list \<Rightarrow> remote_ref list \<Rightarrow> (string \<Rightarrow> string \<Rightarrow> int option) \<Rightarrow> comparison_row list" where
  "remoteComparison lc local remote distance =
     (let tracking = foldl track [] local;
          branches = filter rr_branch remote;
          seen = map rr_name branches
      in js_sort (row_cmp lc)
           (map (compare_ref distance tracking) branches
            @ map (\<lambda>(name, _). \<lparr>cr_name = name, cr_status = Gone, cr_behind = None\<rparr>)
                (filter (\<lambda>(name, _). name \<notin> set seen) tracking)))"

text \<open>The sha a branch of the remote had at the last fetch: the last tracking ref of that name.\<close>

definition tracked_sha :: "local_ref list \<Rightarrow> string \<Rightarrow> string option" where
  "tracked_sha local branch =
     map_option lr_sha (List.find (\<lambda>r. lr_kind r = RemoteBranch \<and> tracked_branch (lr_name r) = Some branch) (rev local))"

lemma track_find:
  "map_of (foldl track [] local) branch = tracked_sha local branch \<and> distinct (map fst (foldl track [] local))"
proof (induction local rule: rev_induct)
  case (snoc r local)
  then show ?case
    by (auto simp: track_def tracked_sha_def update_conv' distinct_update split: option.splits)
qed (simp add: tracked_sha_def)

definition row_of :: "(string \<Rightarrow> string \<Rightarrow> int option) \<Rightarrow> local_ref list \<Rightarrow> remote_ref list \<Rightarrow> string \<Rightarrow> comparison_row option" where
  "row_of distance local remote name =
     (case (tracked_sha local name, List.find (\<lambda>r. rr_branch r \<and> rr_name r = name) remote) of
        (None, None) \<Rightarrow> None
      | (Some _, None) \<Rightarrow> Some \<lparr>cr_name = name, cr_status = Gone, cr_behind = None\<rparr>
      | (None, Some _) \<Rightarrow> Some \<lparr>cr_name = name, cr_status = Appeared, cr_behind = None\<rparr>
      | (Some known, Some r) \<Rightarrow>
          if known = rr_sha r then Some \<lparr>cr_name = name, cr_status = Same, cr_behind = None\<rparr>
          else Some \<lparr>cr_name = name, cr_status = Moved, cr_behind = distance known (rr_sha r)\<rparr>)"

lemma find_branch:
  "distinct (map rr_name (filter rr_branch remote)) \<Longrightarrow> r \<in> set remote \<Longrightarrow> rr_branch r \<Longrightarrow>
     List.find (\<lambda>q. rr_branch q \<and> rr_name q = rr_name r) remote = Some r"
  by (induction remote) (auto simp: image_iff split: if_splits)

lemma remoteComparison_rows:
  assumes "distinct (map rr_name (filter rr_branch remote))"
  shows "r \<in> set (remoteComparison lc local remote distance) \<longleftrightarrow> row_of distance local remote (cr_name r) = Some r"
proof -
  let ?t = "foldl track [] local"
  have t: "map_of ?t = tracked_sha local" "distinct (map fst ?t)" using track_find by auto
  have gone: "(name, s) \<in> set ?t \<longleftrightarrow> tracked_sha local name = Some s" for name s
    using map_of_eq_Some_iff [OF t(2), of name s] t(1) by simp
  show ?thesis
  proof
    assume "r \<in> set (remoteComparison lc local remote distance)"
    then consider ref where "ref \<in> set remote" "rr_branch ref" "r = compare_ref distance ?t ref"
      | name s where "tracked_sha local name = Some s" "name \<notin> rr_name ` set (filter rr_branch remote)"
          "r = \<lparr>cr_name = name, cr_status = Gone, cr_behind = None\<rparr>"
      by (auto simp: remoteComparison_def Let_def gone)
    then show "row_of distance local remote (cr_name r) = Some r"
    proof cases
      case 1
      then show ?thesis using find_branch [OF assms, of ref]
        by (auto simp: compare_ref_def row_of_def t(1) split: option.splits)
    next
      case 2
      then show ?thesis by (auto simp: row_of_def find_None_iff split: option.splits)
    qed
  next
    assume r: "row_of distance local remote (cr_name r) = Some r"
    show "r \<in> set (remoteComparison lc local remote distance)"
    proof (cases "List.find (\<lambda>q. rr_branch q \<and> rr_name q = cr_name r) remote")
      case None
      obtain s where s: "tracked_sha local (cr_name r) = Some s" and
          g: "r = \<lparr>cr_name = cr_name r, cr_status = Gone, cr_behind = None\<rparr>"
        using r None by (auto simp: row_of_def split: option.splits)
      have "cr_name r \<notin> rr_name ` set (filter rr_branch remote)" using None by (auto simp: find_None_iff)
      then have "r \<in> set (map (\<lambda>(name, _). \<lparr>cr_name = name, cr_status = Gone, cr_behind = None\<rparr>)
          (filter (\<lambda>(name, _). name \<notin> set (map rr_name (filter rr_branch remote))) ?t))"
        using s g gone [of "cr_name r" s] by (force simp: image_iff)
      then show ?thesis by (simp add: remoteComparison_def Let_def del: set_map)
    next
      case (Some ref)
      then have "ref \<in> set remote" "rr_branch ref" "rr_name ref = cr_name r" using find_Some_in [OF Some] by auto
      moreover from this r Some have "r = compare_ref distance ?t ref"
        by (auto simp: compare_ref_def row_of_def t(1) split: option.splits if_splits)
      ultimately show ?thesis by (auto simp: remoteComparison_def Let_def)
    qed
  qed
qed

lemma cr_name_compare_ref [simp]: "cr_name (compare_ref distance tracking r) = rr_name r"
  by (simp add: compare_ref_def split: option.splits)

lemma comparison_names_distinct:
  assumes "distinct (map rr_name (filter rr_branch remote))"
  shows "distinct (map cr_name (remoteComparison lc local remote distance))"
proof -
  let ?t = "foldl track [] local"
  let ?gone = "filter (\<lambda>(name, _). name \<notin> set (map rr_name (filter rr_branch remote))) ?t"
  let ?rows = "map (compare_ref distance ?t) (filter rr_branch remote)
      @ map (\<lambda>(name, _). \<lparr>cr_name = name, cr_status = Gone, cr_behind = None\<rparr>) ?gone"
  have g: "map cr_name (map (\<lambda>(name, _). \<lparr>cr_name = name, cr_status = Gone, cr_behind = None\<rparr>) ps) = map fst ps"
    for ps :: "(string \<times> string) list" by (induction ps) auto
  have b: "map cr_name (map (compare_ref distance ?t) rs) = map rr_name rs" for rs by (induction rs) auto
  have "map cr_name ?rows = map rr_name (filter rr_branch remote) @ map fst ?gone"
    by (simp only: map_append g b)
  moreover have "distinct (map fst ?gone)" using track_find [of local] by (intro distinct_map_filter) (rule conjunct2)
  moreover have "x \<notin> set (map rr_name (filter rr_branch remote))" if "x \<in> set (map fst ?gone)" for x
    using that by auto
  then have "set (map rr_name (filter rr_branch remote)) \<inter> set (map fst ?gone) = {}" by blast
  ultimately have "distinct (map cr_name ?rows)" using assms by (simp only: distinct_append)
  then show ?thesis unfolding remoteComparison_def Let_def distinct_map_js_sort .
qed

lemma comparator_row_cmp: "comparator lc \<Longrightarrow> comparator (row_cmp lc)"
  unfolding row_cmp_def by (rule comparator_then_by [OF comparator_by_key]) (rule comparator_on)

text \<open>
  Against a remote that names each branch once, there is
  exactly one row for every branch the remote has or a tracking ref stands for, and it says what
  the two shas say: a count of commits behind only for a branch that moved, the branches that
  moved first, then new ones, then vanished ones, unchanged ones last.
\<close>

theorem comparison_covers_both_sides:
  assumes "comparator lc" and "distinct (map rr_name (filter rr_branch remote))"
  shows "(\<forall>r. r \<in> set (remoteComparison lc local remote distance) \<longleftrightarrow> row_of distance local remote (cr_name r) = Some r)
    \<and> distinct (map cr_name (remoteComparison lc local remote distance))
    \<and> sorted_wrt (\<lambda>a b. status_rank (cr_status a) \<le> status_rank (cr_status b)) (remoteComparison lc local remote distance)"
proof (intro conjI allI)
  show "sorted_wrt (\<lambda>a b. status_rank (cr_status a) \<le> status_rank (cr_status b)) (remoteComparison lc local remote distance)"
    unfolding remoteComparison_def Let_def
    by (rule sorted_wrt_mono_rel [OF _ comparator.ordered_js_sort [OF comparator_row_cmp [OF assms(1)]]])
      (auto simp: row_cmp_def then_by_def by_key_def split: if_splits)
qed (rule remoteComparison_rows [OF assms(2)] comparison_names_distinct [OF assms(2)])+

theorem comparison_covers_both_sides_witness:
  "remoteComparison str_cmp
     [\<lparr>lr_name = ''origin/main'', lr_sha = ''a'', lr_kind = RemoteBranch\<rparr>,
      \<lparr>lr_name = ''main'', lr_sha = ''a'', lr_kind = LocalBranch\<rparr>,
      \<lparr>lr_name = ''origin/old'', lr_sha = ''b'', lr_kind = RemoteBranch\<rparr>]
     [\<lparr>rr_name = ''main'', rr_sha = ''c'', rr_branch = True\<rparr>,
      \<lparr>rr_name = ''v1'', rr_sha = ''d'', rr_branch = False\<rparr>]
     (\<lambda>_ _. None) =
   [\<lparr>cr_name = ''main'', cr_status = Moved, cr_behind = None\<rparr>,
    \<lparr>cr_name = ''old'', cr_status = Gone, cr_behind = None\<rparr>]
   \<and> distinct (map cr_name (remoteComparison str_cmp [] [\<lparr>rr_name = ''main'', rr_sha = ''c'', rr_branch = True\<rparr>] (\<lambda>_ _. None)))"
proof (rule conjI)
  have d: "distinct (map rr_name (filter rr_branch [\<lparr>rr_name = ''main'', rr_sha = ''c'', rr_branch = True\<rparr>]))" by simp
  show "distinct (map cr_name (remoteComparison str_cmp [] [\<lparr>rr_name = ''main'', rr_sha = ''c'', rr_branch = True\<rparr>] (\<lambda>_ _. None)))"
    using comparison_covers_both_sides [OF strings.comparator_axioms d] by blast
qed code_simp

end
