(* ===== verification/FileKinds.thy ===== *)
theory FileKinds
  imports Prelude
begin

text \<open>
  \<^verbatim>\<open>packages/core/src/file-kind.ts\<close> and \<^verbatim>\<open>file-icon.ts\<close>: what a file name says about a file. The tables
  are objects, so a look-up also finds what every object inherits; \<open>prop_value\<close> keeps that case.
\<close>

section \<open>Look-ups in an object\<close>

datatype 'v prop_value = Own 'v | Inherited | Missing

definition object_prototype :: "string list" where
  "object_prototype = [''constructor'', ''__proto__'', ''__defineGetter__'', ''__defineSetter__'',
     ''__lookupGetter__'', ''__lookupSetter__'', ''hasOwnProperty'', ''isPrototypeOf'',
     ''propertyIsEnumerable'', ''toLocaleString'', ''toString'', ''valueOf'']"

definition js_prop :: "(string \<times> 'v) list \<Rightarrow> string \<Rightarrow> 'v prop_value" where
  "js_prop table k =
     (case map_of table k of Some v \<Rightarrow> Own v
      | None \<Rightarrow> if k \<in> set object_prototype then Inherited else Missing)"

text \<open>\<open>a ?? b\<close>.\<close>

fun or_missing :: "'v prop_value \<Rightarrow> 'v prop_value \<Rightarrow> 'v prop_value" where
  "or_missing Missing d = d"
| "or_missing v _ = v"

section \<open>Kinds\<close>

datatype file_kind = KindDir | KindCode | KindData | KindDoc | KindImage | KindMedia | KindArchive
  | KindBinary | KindPlain

definition KIND_BY_NAME :: "(string \<times> file_kind) list" where
  "KIND_BY_NAME =
     [(''makefile'', KindCode), (''dockerfile'', KindCode), (''license'', KindDoc), (''readme'', KindDoc)]"

definition KIND_BY_EXT :: "(string \<times> file_kind) list" where
  "KIND_BY_EXT =
     [(''ts'', KindCode), (''tsx'', KindCode), (''js'', KindCode), (''jsx'', KindCode), (''mjs'', KindCode), (''cjs'', KindCode),
      (''svelte'', KindCode), (''vue'', KindCode), (''go'', KindCode), (''rs'', KindCode), (''py'', KindCode), (''rb'', KindCode),
      (''php'', KindCode), (''java'', KindCode), (''kt'', KindCode), (''swift'', KindCode), (''c'', KindCode), (''h'', KindCode),
      (''cc'', KindCode), (''cpp'', KindCode), (''hpp'', KindCode), (''cs'', KindCode), (''sh'', KindCode), (''bash'', KindCode),
      (''zsh'', KindCode), (''fish'', KindCode), (''sql'', KindCode), (''css'', KindCode), (''scss'', KindCode), (''html'', KindCode),
      (''json'', KindData), (''jsonc'', KindData), (''yaml'', KindData), (''yml'', KindData), (''toml'', KindData), (''ini'', KindData),
      (''conf'', KindData), (''env'', KindData), (''csv'', KindData), (''tsv'', KindData), (''xml'', KindData), (''lock'', KindData),
      (''md'', KindDoc), (''markdown'', KindDoc), (''mdx'', KindDoc), (''txt'', KindDoc), (''rst'', KindDoc), (''adoc'', KindDoc),
      (''pdf'', KindDoc), (''png'', KindImage), (''jpg'', KindImage), (''jpeg'', KindImage), (''gif'', KindImage), (''webp'', KindImage),
      (''svg'', KindImage), (''avif'', KindImage), (''bmp'', KindImage), (''ico'', KindImage), (''mp3'', KindMedia), (''wav'', KindMedia),
      (''flac'', KindMedia), (''ogg'', KindMedia), (''mp4'', KindMedia), (''mov'', KindMedia), (''mkv'', KindMedia), (''webm'', KindMedia),
      (''zip'', KindArchive), (''tar'', KindArchive), (''gz'', KindArchive), (''tgz'', KindArchive), (''bz2'', KindArchive), (''xz'', KindArchive),
      (''zst'', KindArchive), (''rar'', KindArchive), (''7z'', KindArchive), (''exe'', KindBinary), (''dll'', KindBinary), (''so'', KindBinary),
      (''dylib'', KindBinary), (''bin'', KindBinary), (''o'', KindBinary), (''a'', KindBinary), (''wasm'', KindBinary), (''doc'', KindBinary),
      (''docx'', KindBinary), (''xls'', KindBinary), (''xlsx'', KindBinary), (''ppt'', KindBinary), (''pptx'', KindBinary), (''odt'', KindBinary),
      (''ods'', KindBinary), (''odp'', KindBinary)]"

datatype media_kind = AudioMedia | VideoMedia

definition MEDIA :: "(string \<times> media_kind \<times> string) list" where
  "MEDIA =
     [(''mp3'', (AudioMedia, ''audio/mpeg'')), (''wav'', (AudioMedia, ''audio/wav'')),
      (''ogg'', (AudioMedia, ''audio/ogg'')), (''oga'', (AudioMedia, ''audio/ogg'')),
      (''m4a'', (AudioMedia, ''audio/mp4'')), (''aac'', (AudioMedia, ''audio/aac'')),
      (''flac'', (AudioMedia, ''audio/flac'')), (''mp4'', (VideoMedia, ''video/mp4'')),
      (''m4v'', (VideoMedia, ''video/mp4'')), (''webm'', (VideoMedia, ''video/webm'')),
      (''ogv'', (VideoMedia, ''video/ogg'')), (''mov'', (VideoMedia, ''video/quicktime''))]"

datatype file_preview_kind = TextPreview | MarkdownPreview | ImagePreview | PdfPreview | MediaPreview media_kind

definition last_index_of :: "string \<Rightarrow> char \<Rightarrow> int" where
  "last_index_of s c =
     (if c \<in> set s then int (length s) - 1 - index_of (rev s) c else -1)"

definition extensionOf :: "string \<Rightarrow> string" where
  "extensionOf name =
     (let dot = last_index_of name CHR ''.'' in
      if dot \<le> 0 \<or> dot = int (length name) - 1 then [] else to_lower (drop (nat dot + 1) name))"

definition stem_of :: "string \<Rightarrow> string" where
  "stem_of lower = take (nat (index_of lower CHR ''.'')) lower"

definition fileKindOf :: "string \<Rightarrow> bool \<Rightarrow> file_kind prop_value" where
  "fileKindOf name isDir =
     (if isDir then Own KindDir
      else let trimmed = js_trim name in
        if trimmed = [] then Own KindPlain
        else let lower = to_lower trimmed; ext = extensionOf trimmed in
          if js_prop MEDIA ext \<noteq> Missing then Own KindMedia
          else if ext \<noteq> [] then
            or_missing (js_prop KIND_BY_EXT ext)
              (or_missing (js_prop KIND_BY_NAME (stem_of lower)) (Own KindPlain))
          else or_missing (js_prop KIND_BY_NAME lower) (Own KindPlain))"

text \<open>\<open>Missing\<close> is the \<open>undefined\<close> of a property read off an inherited value, \<open>Own None\<close> is \<open>null\<close>.\<close>

definition previewableAs :: "string \<Rightarrow> file_preview_kind option prop_value" where
  "previewableAs name =
     (let ext = extensionOf name in
      if ext = ''md'' \<or> ext = ''markdown'' then Own (Some MarkdownPreview)
      else if ext = ''pdf'' then Own (Some PdfPreview)
      else case js_prop MEDIA ext of
          Own (k, _) \<Rightarrow> Own (Some (MediaPreview k))
        | Inherited \<Rightarrow> Missing
        | Missing \<Rightarrow>
            let kind = fileKindOf name False in
            if kind = Own KindImage then Own (Some (if ext = ''svg'' then TextPreview else ImagePreview))
            else if kind = Own KindCode \<or> kind = Own KindData then Own (Some TextPreview)
            else if kind = Own KindDoc then Own (if ext = ''pdf'' then None else Some TextPreview)
            else Own (if kind = Own KindPlain then Some TextPreview else None))"

definition MIME_BY_EXT :: "(string \<times> string) list" where
  "MIME_BY_EXT =
     [(''png'', ''image/png''), (''jpg'', ''image/jpeg''), (''jpeg'', ''image/jpeg''),
      (''gif'', ''image/gif''), (''webp'', ''image/webp''), (''avif'', ''image/avif''),
      (''bmp'', ''image/bmp''), (''ico'', ''image/x-icon''), (''svg'', ''image/svg+xml''),
      (''pdf'', ''application/pdf''), (''json'', ''application/json''), (''txt'', ''text/plain''),
      (''md'', ''text/markdown''), (''csv'', ''text/csv''), (''html'', ''text/html''),
      (''css'', ''text/css''), (''js'', ''text/javascript''), (''zip'', ''application/zip''),
      (''gz'', ''application/gzip''), (''tar'', ''application/x-tar''), (''mp3'', ''audio/mpeg''),
      (''wav'', ''audio/wav''), (''mp4'', ''video/mp4''), (''webm'', ''video/webm'')]"

definition mimeOf :: "string \<Rightarrow> string prop_value" where
  "mimeOf name =
     (let ext = extensionOf name in
      case js_prop MEDIA ext of
        Own (_, mime) \<Rightarrow> Own mime
      | _ \<Rightarrow> or_missing (js_prop MIME_BY_EXT ext) (Own ''application/octet-stream''))"

definition INLINE_SAFE :: "string list" where
  "INLINE_SAFE =
     [''image/png'', ''image/jpeg'', ''image/gif'', ''image/webp'', ''image/avif'', ''image/bmp'',
      ''image/x-icon'', ''application/pdf''] @ rev (remdups (rev (map (\<lambda>(_, _, mime). mime) MEDIA)))"

definition inlineSafe :: "string prop_value \<Rightarrow> bool" where
  "inlineSafe mime = (case mime of Own m \<Rightarrow> m \<in> set INLINE_SAFE | _ \<Rightarrow> False)"

section \<open>Icons\<close>

definition FILE_ICON_NAMES :: "string list" where
  "FILE_ICON_NAMES =
     [''default_file'', ''default_folder'', ''default_folder_opened'', ''default_root_folder'',
      ''file_type_binary'', ''file_type_config'', ''file_type_image'', ''file_type_text'',
      ''file_type_video'', ''file_type_zip'', ''file_type_audio'', ''file_type_c'',
      ''file_type_cpp'', ''file_type_csharp'', ''file_type_css'', ''file_type_go'',
      ''file_type_html'', ''file_type_java'', ''file_type_js'', ''file_type_kotlin'',
      ''file_type_lua'', ''file_type_perl2'', ''file_type_php'', ''file_type_python'',
      ''file_type_reactjs'', ''file_type_reactts'', ''file_type_ruby'', ''file_type_rust'',
      ''file_type_scss'', ''file_type_shell'', ''file_type_sql'', ''file_type_svelte'',
      ''file_type_swift'', ''file_type_typescript'', ''file_type_typescriptdef'', ''file_type_vue'',
      ''file_type_ini'', ''file_type_json'', ''file_type_log'', ''file_type_markdown'',
      ''file_type_pdf2'', ''file_type_toml'', ''file_type_xml'', ''file_type_yaml'',
      ''file_type_docker'', ''file_type_dotenv'', ''file_type_font'', ''file_type_git'',
      ''file_type_nginx'', ''file_type_npm'', ''file_type_pnpm'', ''file_type_terraform'',
      ''file_type_yarn'']"

definition LIGHT_TWINS :: "string list" where
  "LIGHT_TWINS =
     [''file_type_config'', ''file_type_font'', ''file_type_ini'', ''file_type_js'', ''file_type_json'',
      ''file_type_pnpm'', ''file_type_rust'', ''file_type_toml'', ''file_type_yaml'']"

definition hasLightTwin :: "string \<Rightarrow> bool" where
  "hasLightTwin name = (name \<in> set LIGHT_TWINS)"

definition lightTwinOf :: "string \<Rightarrow> string" where
  "lightTwinOf name =
     (if starts_with name ''file_type_'' then ''file_type_light_'' @ drop 10 name else name)"

definition ICON_BY_NAME :: "(string \<times> string) list" where
  "ICON_BY_NAME =
     [(''makefile'', ''file_type_config''), (''dockerfile'', ''file_type_docker''),
      (''containerfile'', ''file_type_docker''), (''docker-compose.yml'', ''file_type_docker''),
      (''docker-compose.yaml'', ''file_type_docker''), (''compose.yml'', ''file_type_docker''),
      (''compose.yaml'', ''file_type_docker''), (''license'', ''file_type_text''),
      (''readme'', ''file_type_text''), (''package.json'', ''file_type_npm''),
      (''package-lock.json'', ''file_type_npm''), (''.npmrc'', ''file_type_npm''),
      (''yarn.lock'', ''file_type_yarn''), (''pnpm-lock.yaml'', ''file_type_pnpm''),
      (''pnpm-workspace.yaml'', ''file_type_pnpm''), (''go.mod'', ''file_type_go''),
      (''go.sum'', ''file_type_go''), (''cargo.toml'', ''file_type_rust''),
      (''cargo.lock'', ''file_type_rust''), (''gemfile'', ''file_type_ruby''),
      (''gemfile.lock'', ''file_type_ruby''), (''requirements.txt'', ''file_type_python''),
      (''pyproject.toml'', ''file_type_python''), (''nginx.conf'', ''file_type_nginx''),
      (''.gitignore'', ''file_type_git''), (''.gitattributes'', ''file_type_git''),
      (''.gitmodules'', ''file_type_git''), (''.gitkeep'', ''file_type_git''),
      (''.env'', ''file_type_dotenv''), (''.bashrc'', ''file_type_shell''),
      (''.bash_profile'', ''file_type_shell''), (''.zshrc'', ''file_type_shell''),
      (''.profile'', ''file_type_shell'')]"

definition ICON_BY_EXT :: "(string \<times> string) list" where
  "ICON_BY_EXT =
     [(''ts'', ''file_type_typescript''), (''mts'', ''file_type_typescript''), (''cts'', ''file_type_typescript''),
      (''tsx'', ''file_type_reactts''), (''js'', ''file_type_js''), (''mjs'', ''file_type_js''),
      (''cjs'', ''file_type_js''), (''jsx'', ''file_type_reactjs''), (''svelte'', ''file_type_svelte''),
      (''vue'', ''file_type_vue''), (''go'', ''file_type_go''), (''py'', ''file_type_python''),
      (''pyi'', ''file_type_python''), (''rs'', ''file_type_rust''), (''rb'', ''file_type_ruby''),
      (''php'', ''file_type_php''), (''java'', ''file_type_java''), (''kt'', ''file_type_kotlin''),
      (''kts'', ''file_type_kotlin''), (''swift'', ''file_type_swift''), (''c'', ''file_type_c''),
      (''h'', ''file_type_c''), (''cc'', ''file_type_cpp''), (''cpp'', ''file_type_cpp''),
      (''cxx'', ''file_type_cpp''), (''hpp'', ''file_type_cpp''), (''hh'', ''file_type_cpp''),
      (''cs'', ''file_type_csharp''), (''sh'', ''file_type_shell''), (''bash'', ''file_type_shell''),
      (''zsh'', ''file_type_shell''), (''fish'', ''file_type_shell''), (''lua'', ''file_type_lua''),
      (''pl'', ''file_type_perl2''), (''pm'', ''file_type_perl2''), (''sql'', ''file_type_sql''),
      (''css'', ''file_type_css''), (''scss'', ''file_type_scss''), (''sass'', ''file_type_scss''),
      (''html'', ''file_type_html''), (''htm'', ''file_type_html''), (''json'', ''file_type_json''),
      (''jsonc'', ''file_type_json''), (''yaml'', ''file_type_yaml''), (''yml'', ''file_type_yaml''),
      (''toml'', ''file_type_toml''), (''ini'', ''file_type_ini''), (''cfg'', ''file_type_ini''),
      (''conf'', ''file_type_ini''), (''xml'', ''file_type_xml''), (''md'', ''file_type_markdown''),
      (''mdx'', ''file_type_markdown''), (''pdf'', ''file_type_pdf2''), (''log'', ''file_type_log''),
      (''env'', ''file_type_dotenv''), (''lock'', ''file_type_config''), (''tf'', ''file_type_terraform''),
      (''tfvars'', ''file_type_terraform''), (''ttf'', ''file_type_font''), (''otf'', ''file_type_font''),
      (''woff'', ''file_type_font''), (''woff2'', ''file_type_font'')]"

fun ICON_BY_KIND :: "file_kind \<Rightarrow> string" where
  "ICON_BY_KIND KindDir = ''default_folder''"
| "ICON_BY_KIND KindCode = ''default_file''"
| "ICON_BY_KIND KindData = ''file_type_config''"
| "ICON_BY_KIND KindDoc = ''file_type_text''"
| "ICON_BY_KIND KindImage = ''file_type_image''"
| "ICON_BY_KIND KindMedia = ''file_type_video''"
| "ICON_BY_KIND KindArchive = ''file_type_zip''"
| "ICON_BY_KIND KindBinary = ''file_type_binary''"
| "ICON_BY_KIND KindPlain = ''default_file''"

definition AUDIO_EXT :: "string list" where
  "AUDIO_EXT = [''mp3'', ''wav'', ''flac'', ''ogg'', ''m4a'', ''aac'']"

record icon_options =
  io_open :: bool
  io_root :: bool

definition fileIconOf :: "string \<Rightarrow> bool \<Rightarrow> icon_options \<Rightarrow> string prop_value" where
  "fileIconOf name isDir options =
     (if isDir then
        (if io_root options then Own ''default_root_folder''
         else Own (if io_open options then ''default_folder_opened'' else ''default_folder''))
      else let trimmed = js_trim name in
        if trimmed = [] then Own ''default_file''
        else let lower = to_lower trimmed; byName = js_prop ICON_BY_NAME lower in
          if byName \<noteq> Missing then byName
          else if ends_with lower ''.d.ts'' then Own ''file_type_typescriptdef''
          else if lower = ''.env'' \<or> starts_with lower ''.env.'' then Own ''file_type_dotenv''
          else let ext = extensionOf trimmed in
            if ext \<noteq> [] \<and> ext \<in> set AUDIO_EXT then Own ''file_type_audio''
            else let byExt = (if ext \<noteq> [] then js_prop ICON_BY_EXT ext else Missing) in
              if byExt \<noteq> Missing then byExt
              else let byStem = (if ext \<noteq> [] then js_prop ICON_BY_NAME (stem_of lower) else Missing) in
                if byStem \<noteq> Missing then byStem
                else case fileKindOf trimmed False of Own k \<Rightarrow> Own (ICON_BY_KIND k) | _ \<Rightarrow> Missing)"

section \<open>Claims\<close>

lemma js_prop_Own: "js_prop table k = Own v \<Longrightarrow> (k, v) \<in> set table"
  by (auto simp: js_prop_def dest: map_of_SomeD split: option.splits if_splits)

lemma js_prop_Inherited: "js_prop table k = Inherited \<Longrightarrow> k \<in> set object_prototype"
  by (auto simp: js_prop_def split: option.splits if_splits)

lemma or_missing_Own: "or_missing v (Own d) \<noteq> Missing"
  by (cases v) simp_all

lemma icon_tables:
  "list_all (\<lambda>(_, n). n \<in> set FILE_ICON_NAMES) ICON_BY_NAME" "list_all (\<lambda>(_, n). n \<in> set FILE_ICON_NAMES) ICON_BY_EXT"
  by code_simp+

lemma icon_kinds: "ICON_BY_KIND k \<in> set FILE_ICON_NAMES"
  by (cases k) (simp_all add: FILE_ICON_NAMES_def)

text \<open>A shipped icon, or what an object inherits under one of the names the look-up tries.\<close>

definition icon_ok :: "string list \<Rightarrow> string prop_value \<Rightarrow> bool" where
  "icon_ok tried v \<longleftrightarrow> (\<exists>n \<in> set FILE_ICON_NAMES. v = Own n) \<or> (v = Inherited \<and> (\<exists>k \<in> set tried. k \<in> set object_prototype))"

lemma icon_ok_Own: "n \<in> set FILE_ICON_NAMES \<Longrightarrow> icon_ok tried (Own n)"
  by (simp add: icon_ok_def)

lemma icon_ok_named [simp]:
  "icon_ok tried (Own ''default_file'')" "icon_ok tried (Own ''default_folder'')"
  "icon_ok tried (Own ''default_folder_opened'')" "icon_ok tried (Own ''default_root_folder'')"
  "icon_ok tried (Own ''file_type_typescriptdef'')" "icon_ok tried (Own ''file_type_dotenv'')"
  "icon_ok tried (Own ''file_type_audio'')"
  by (rule icon_ok_Own, simp add: FILE_ICON_NAMES_def)+

lemma icon_ok_table:
  "list_all (\<lambda>(_, n). n \<in> set FILE_ICON_NAMES) table \<Longrightarrow> js_prop table k \<noteq> Missing \<Longrightarrow> k \<in> set tried
     \<Longrightarrow> icon_ok tried (js_prop table k)"
  by (cases "js_prop table k") (auto simp: icon_ok_def list_all_iff dest: js_prop_Own js_prop_Inherited)

lemma or_missing_cases [simp]:
  "or_missing v d = Inherited \<longleftrightarrow> v = Inherited \<or> v = Missing \<and> d = Inherited"
  "or_missing v d = Missing \<longleftrightarrow> v = Missing \<and> d = Missing"
  by (cases v; simp)+

lemma js_prop_prototype: "k \<in> set object_prototype \<Longrightarrow> js_prop table k \<noteq> Missing"
  by (simp add: js_prop_def split: option.splits)

lemma fileKindOf_not_Missing: "fileKindOf name d \<noteq> Missing"
  by (simp add: fileKindOf_def Let_def)

text \<open>A kind that is inherited was looked up under a name the icon tables find too.\<close>

lemma fileKindOf_Inherited:
  "fileKindOf name False = Inherited \<Longrightarrow>
     to_lower (js_trim name) \<in> set object_prototype
     \<or> (extensionOf (js_trim name) \<noteq> [] \<and>
         (extensionOf (js_trim name) \<in> set object_prototype \<or> stem_of (to_lower (js_trim name)) \<in> set object_prototype))"
  by (auto simp: fileKindOf_def Let_def dest!: js_prop_Inherited split: if_splits)

lemma trim_prefix: "js_trim s \<noteq> [] \<Longrightarrow> \<not> is_space (hd (js_trim s)) \<and> \<not> is_space (last (js_trim s))"
proof -
  let ?u = "dropWhile is_space s"
  assume ne: "js_trim s \<noteq> []"
  then have d: "dropWhile is_space (rev ?u) \<noteq> []" by (auto simp: js_trim_def simp del: dropWhile_eq_Nil_conv)
  have "rev (takeWhile is_space (rev ?u) @ dropWhile is_space (rev ?u)) = rev (rev ?u)"
    by (simp only: takeWhile_dropWhile_id)
  then have u: "?u = js_trim s @ rev (takeWhile is_space (rev ?u))"
    unfolding js_trim_def by (simp only: rev_append rev_rev_ident)
  then have "hd ?u = hd (js_trim s)" and "?u \<noteq> []" using ne u by (metis hd_append2, metis append_is_Nil_conv)
  moreover have "last (js_trim s) = hd (dropWhile is_space (rev ?u))" using d by (simp add: js_trim_def last_rev)
  ultimately show ?thesis using d hd_dropWhile by metis
qed

lemma js_trim_idem [simp]: "js_trim (js_trim s) = js_trim s"
proof (cases "js_trim s = []")
  case False
  from trim_prefix [OF this] have "dropWhile is_space (js_trim s) = js_trim s"
    and "dropWhile is_space (rev (js_trim s)) = rev (js_trim s)"
    using False by (metis dropWhile.simps(2) list.collapse, metis dropWhile.simps(2) hd_rev list.collapse rev_is_Nil_conv)
  then show ?thesis by (simp add: js_trim_def [of "js_trim s"])
next
  case True
  then have "js_trim (js_trim s) = js_trim []" by simp
  also have "\<dots> = js_trim s" by (simp only: True) (simp add: js_trim_def)
  finally show ?thesis .
qed

lemma if_holds: "(c \<Longrightarrow> P x) \<Longrightarrow> (\<not> c \<Longrightarrow> P y) \<Longrightarrow> P (if c then x else y)"
  by simp

definition icon_names_tried :: "string \<Rightarrow> string list" where
  "icon_names_tried name =
     (let trimmed = js_trim name; lower = to_lower trimmed in [lower, extensionOf trimmed, stem_of lower])"

text \<open>
  For every name, directory flag and options, the icon is one of the
  icons the product ships, unless the whole name, its extension or its stem, in lower case, is the
  name of a property that every object inherits (such as \<open>constructor\<close>); and the light twin of an
  icon that has one is named \<open>file_type_light_\<close> and the rest of its own name.
\<close>

theorem every_row_has_an_icon:
  "icon_ok (icon_names_tried name) (fileIconOf name isDir options)
   \<and> (hasLightTwin icon \<longrightarrow> icon \<in> set FILE_ICON_NAMES \<and> (\<exists>rest. icon = ''file_type_'' @ rest \<and> lightTwinOf icon = ''file_type_light_'' @ rest))"
proof (rule conjI)
  let ?t = "js_trim name" and ?lower = "to_lower (js_trim name)" and ?tried = "icon_names_tried name"
  have tried: "?lower \<in> set ?tried" "extensionOf ?t \<in> set ?tried" "stem_of ?lower \<in> set ?tried"
    by (simp_all add: icon_names_tried_def Let_def)
  have last: "icon_ok ?tried (case fileKindOf ?t False of Own k \<Rightarrow> Own (ICON_BY_KIND k) | _ \<Rightarrow> Missing)"
    if "js_prop ICON_BY_NAME ?lower = Missing" "extensionOf ?t \<noteq> [] \<Longrightarrow> js_prop ICON_BY_EXT (extensionOf ?t) = Missing"
      "extensionOf ?t \<noteq> [] \<Longrightarrow> js_prop ICON_BY_NAME (stem_of ?lower) = Missing"
  proof (cases "fileKindOf ?t False")
    case Inherited
    then have False using fileKindOf_Inherited [of ?t] that js_prop_prototype by fastforce
    then show ?thesis ..
  qed (simp_all add: icon_ok_Own icon_kinds fileKindOf_not_Missing)
  show "icon_ok ?tried (fileIconOf name isDir options)"
    unfolding fileIconOf_def Let_def
    by (intro if_holds [of _ "icon_ok ?tried"])
      (simp_all add: last icon_ok_table [OF icon_tables(1) _ tried(1)] icon_ok_table [OF icon_tables(2) _ tried(2)]
        icon_ok_table [OF icon_tables(1) _ tried(3)] split: if_splits)
next
  show "hasLightTwin icon \<longrightarrow> icon \<in> set FILE_ICON_NAMES \<and> (\<exists>rest. icon = ''file_type_'' @ rest \<and> lightTwinOf icon = ''file_type_light_'' @ rest)"
    by (auto simp: hasLightTwin_def LIGHT_TWINS_def FILE_ICON_NAMES_def lightTwinOf_def starts_with_def)
qed

theorem every_row_has_an_icon_witness:
  "fileIconOf ''Dockerfile.dev'' False \<lparr>io_open = False, io_root = False\<rparr> = Own ''file_type_docker''
   \<and> fileIconOf ''constructor'' False \<lparr>io_open = False, io_root = False\<rparr> = Inherited
   \<and> ''file_type_yaml'' \<in> set FILE_ICON_NAMES"
proof (intro conjI)
  show "''file_type_yaml'' \<in> set FILE_ICON_NAMES"
    using every_row_has_an_icon [of _ _ _ "''file_type_yaml''"] by (simp add: hasLightTwin_def LIGHT_TWINS_def)
qed code_simp+

text \<open>
  A file name leads to a type the browser may render in place
  exactly when its extension is one of the raster images, PDF or the listed audio and video types;
  in particular never for SVG or HTML.
\<close>

theorem inline_rendering_is_listed:
  "inlineSafe (mimeOf name) =
     (extensionOf name \<in> set ([''png'', ''jpg'', ''jpeg'', ''gif'', ''webp'', ''avif'', ''bmp'', ''ico'', ''pdf''] @ map fst MEDIA))"
proof -
  let ?e = "extensionOf name"
  have m: "list_all (\<lambda>(k, _, mime). mime \<in> set INLINE_SAFE) MEDIA" by code_simp
  have s: "list_all (\<lambda>(k, mime). (mime \<in> set INLINE_SAFE) =
      (k \<in> set ([''png'', ''jpg'', ''jpeg'', ''gif'', ''webp'', ''avif'', ''bmp'', ''ico'', ''pdf''] @ map fst MEDIA))) MIME_BY_EXT"
    by code_simp
  have k: "list_all (\<lambda>k. k \<in> set (map fst MIME_BY_EXT)) [''png'', ''jpg'', ''jpeg'', ''gif'', ''webp'', ''avif'', ''bmp'', ''ico'', ''pdf'']"
    by code_simp
  have o: "''application/octet-stream'' \<notin> set INLINE_SAFE" by code_simp
  show ?thesis
  proof (cases "map_of MEDIA ?e")
    case (Some v)
    moreover from this have "(?e, v) \<in> set MEDIA" by (rule map_of_SomeD)
    moreover from this have "?e \<in> set (map fst MEDIA)" by force
    ultimately show ?thesis using m by (cases v) (auto simp: mimeOf_def js_prop_def inlineSafe_def list_all_iff)
  next
    case no_media: None
    then have e: "?e \<notin> set (map fst MEDIA)" by (simp add: map_of_eq_None_iff)
    have "mimeOf name = or_missing (js_prop MIME_BY_EXT ?e) (Own ''application/octet-stream'')"
      using no_media by (simp add: mimeOf_def js_prop_def Let_def)
    then show ?thesis
    proof (cases "map_of MIME_BY_EXT ?e")
      case (Some v)
      then have "(?e, v) \<in> set MIME_BY_EXT" by (rule map_of_SomeD)
      with s have "(v \<in> set INLINE_SAFE) =
          (?e \<in> set ([''png'', ''jpg'', ''jpeg'', ''gif'', ''webp'', ''avif'', ''bmp'', ''ico'', ''pdf''] @ map fst MEDIA))"
        unfolding list_all_iff by blast
      moreover have "mimeOf name = Own v" using Some no_media by (simp add: mimeOf_def js_prop_def Let_def)
      ultimately show ?thesis by (simp add: inlineSafe_def)
    next
      case None
      then have "?e \<notin> set (map fst MIME_BY_EXT)" by (simp add: map_of_eq_None_iff)
      then have "?e \<notin> set ([''png'', ''jpg'', ''jpeg'', ''gif'', ''webp'', ''avif'', ''bmp'', ''ico'', ''pdf''] @ map fst MEDIA)"
        using k e unfolding list_all_iff set_append by blast
      moreover have "\<not> inlineSafe (mimeOf name)" using None no_media o by (simp add: mimeOf_def js_prop_def inlineSafe_def Let_def)
      ultimately show ?thesis by simp
    qed
  qed
qed

end
