(* ===== verification/Listeners.thy ===== *)
theory Listeners
  imports Ordering
begin

text \<open>
  \<^verbatim>\<open>packages/core/src/listeners.ts\<close>: which of the ports a host listens on are shown, which are folded
  and why, the search over them, and the label a port gets when it becomes a service.
\<close>

section \<open>Ports\<close>

record listener =
  l_port :: jsnum
  l_process :: "string option"
  l_loopback :: "bool option"

datatype fold_reason = Ephemeral | SystemPort | SystemProcess

record discovered_port =
  dp_port :: int
  dp_process :: string
  dp_loopback :: bool
  dp_folded :: "fold_reason option"

record discovered_ports =
  dps_shown :: "discovered_port list"
  dps_folded :: "discovered_port list"

definition EPHEMERAL_PORT_MIN :: int where "EPHEMERAL_PORT_MIN = 49152"

definition SYSTEM_PORTS :: "int list" where
  "SYSTEM_PORTS = [22, 25, 53, 88, 111, 123, 137, 138, 139, 445, 548, 631, 3283, 5353, 5900, 5000, 7000]"

definition SYSTEM_PROCESSES :: "string list" where
  "SYSTEM_PROCESSES =
     [''controlcenter'', ''rapportd'', ''sharingd'', ''airplayxpchelper'', ''remoted'', ''mdnsresponder'',
      ''netbiosd'', ''identityservicesd'', ''launchd'',
      ''systemd'', ''systemd-resolve'', ''systemd-resolved'', ''sshd'', ''cupsd'', ''avahi-daemon'',
      ''chronyd'', ''rpcbind'', ''dnsmasq'', ''networkmanager'',
      ''google chrome'', ''google chrome helper'', ''chromium'', ''firefox'', ''safari'', ''msedge'',
      ''microsoft edge'']"

fun normalisePort :: "jsnum \<Rightarrow> int option" where
  "normalisePort (Fin q) = (let port = js_trunc q in if 1 \<le> port \<and> port \<le> 65535 then Some port else None)"
| "normalisePort _ = None"

definition process_name :: "listener \<Rightarrow> string" where
  "process_name l = js_trim (case l_process l of None \<Rightarrow> [] | Some p \<Rightarrow> p)"

definition foldReason :: "listener \<Rightarrow> fold_reason option" where
  "foldReason l =
     (case normalisePort (l_port l) of
        None \<Rightarrow> None
      | Some port \<Rightarrow>
          if port \<in> set SYSTEM_PORTS then Some SystemPort
          else if to_lower (process_name l) \<in> set SYSTEM_PROCESSES then Some SystemProcess
          else if EPHEMERAL_PORT_MIN \<le> port then Some Ephemeral
          else None)"

text \<open>One turn of the loop: the ports seen, and the two lists it pushes to.\<close>

definition discovered_item :: "int \<Rightarrow> listener \<Rightarrow> discovered_port" where
  "discovered_item port l =
     \<lparr>dp_port = port, dp_process = process_name l, dp_loopback = (l_loopback l = Some True), dp_folded = foldReason l\<rparr>"

definition discover :: "int list \<Rightarrow> discovered_port list \<Rightarrow> listener \<Rightarrow> discovered_port list" where
  "discover registered found l =
     (case normalisePort (l_port l) of
        None \<Rightarrow> found
      | Some port \<Rightarrow>
          if port \<in> set registered \<or> port \<in> set (map dp_port found) then found
          else found @ [discovered_item port l])"

definition registered_ports :: "jsnum list option \<Rightarrow> int list" where
  "registered_ports ps = List.map_filter normalisePort (case ps of None \<Rightarrow> [] | Some ps \<Rightarrow> ps)"

definition discoveredPorts :: "listener list option \<Rightarrow> jsnum list option \<Rightarrow> discovered_ports" where
  "discoveredPorts listeners registeredPorts =
     (let found = foldl (discover (registered_ports registeredPorts)) [] (case listeners of None \<Rightarrow> [] | Some ls \<Rightarrow> ls)
      in \<lparr>dps_shown = js_sort (by_key dp_port) (filter (\<lambda>i. dp_folded i = None) found),
          dps_folded = js_sort (by_key dp_port) (filter (\<lambda>i. dp_folded i \<noteq> None) found)\<rparr>)"

section \<open>The search\<close>

fun contains_str :: "string \<Rightarrow> string \<Rightarrow> bool" where
  "contains_str [] needle = (needle = [])"
| "contains_str (c # s) needle = (starts_with (c # s) needle \<or> contains_str s needle)"

definition filterPorts :: "discovered_port list option \<Rightarrow> string option \<Rightarrow> discovered_port list" where
  "filterPorts ports query =
     (let rows = (case ports of None \<Rightarrow> [] | Some ps \<Rightarrow> ps);
          needle = to_lower (js_trim (case query of None \<Rightarrow> [] | Some q \<Rightarrow> q))
      in if needle = [] then rows
         else filter (\<lambda>row. contains_str (num_String (Fin (of_int (dp_port row)))) needle
                \<or> contains_str (to_lower (dp_process row)) needle) rows)"

section \<open>The label of a promoted port\<close>

definition LABEL_MAX :: nat where "LABEL_MAX = 64"

definition slug_char :: "char \<Rightarrow> bool" where
  "slug_char c = (is_lower c \<or> is_digit c)"

function dash_runs :: "string \<Rightarrow> string" where
  "dash_runs [] = []"
| "dash_runs (c # s) =
     (if slug_char c then c # dash_runs s else CHR ''-'' # dash_runs (dropWhile (\<lambda>d. \<not> slug_char d) s))"
  by pat_completeness auto
termination by (relation "measure length") (auto simp: less_Suc_eq_le length_dropWhile_le)

definition strip_dashes :: "string \<Rightarrow> string" where
  "strip_dashes s = rev (dropWhile (\<lambda>c. c = CHR ''-'') (rev (dropWhile (\<lambda>c. c = CHR ''-'') s)))"

definition label_base :: "listener \<Rightarrow> string" where
  "label_base l =
     (let port = (case normalisePort (l_port l) of None \<Rightarrow> 0 | Some p \<Rightarrow> p);
          slug = strip_dashes (dash_runs (to_lower (process_name l)))
      in take LABEL_MAX ((if slug \<noteq> [] then slug else ''port'') @ CHR ''-'' # nat_str (nat port)))"

definition label_candidate :: "string \<Rightarrow> nat \<Rightarrow> string" where
  "label_candidate base suffix =
     (let tail = CHR ''-'' # nat_str suffix in take (LABEL_MAX - length tail) base @ tail)"

definition suggestServiceLabel :: "listener \<Rightarrow> string option list option \<Rightarrow> string" where
  "suggestServiceLabel l taken =
     (let base = label_base l;
          used = map (\<lambda>v. to_lower (js_trim (case v of None \<Rightarrow> [] | Some t \<Rightarrow> t))) (case taken of None \<Rightarrow> [] | Some ts \<Rightarrow> ts)
      in if to_lower base \<notin> set used then base
         else case List.find (\<lambda>suffix. to_lower (label_candidate base suffix) \<notin> set used) [2..<100] of
                Some suffix \<Rightarrow> label_candidate base suffix
              | None \<Rightarrow> base)"

section \<open>Every port is shown or folded\<close>

interpretation ports: comparator "by_key dp_port"
  by (rule comparator_by_key)

text \<open>The listener that stands for a port: the first one with that number.\<close>

definition first_listener :: "listener list \<Rightarrow> int \<Rightarrow> listener option" where
  "first_listener ls port = List.find (\<lambda>l. normalisePort (l_port l) = Some port) ls"

lemma first_listener_snoc:
  "first_listener (ls @ [l]) port = Some l' \<longleftrightarrow>
     first_listener ls port = Some l' \<or> (first_listener ls port = None \<and> normalisePort (l_port l) = Some port \<and> l' = l)"
  unfolding first_listener_def by (induction ls) auto

lemma dp_port_item [simp]: "dp_port (discovered_item port l) = port"
  by (simp add: discovered_item_def)

definition discovered_set :: "int list \<Rightarrow> listener list \<Rightarrow> discovered_port set" where
  "discovered_set registered ls =
     {discovered_item port l |port l. first_listener ls port = Some l \<and> port \<notin> set registered}"

lemma discovered_set_snoc:
  "discovered_set registered (ls @ [l]) =
     (case normalisePort (l_port l) of None \<Rightarrow> discovered_set registered ls
      | Some port \<Rightarrow> if port \<in> set registered \<or> first_listener ls port \<noteq> None then discovered_set registered ls
                     else insert (discovered_item port l) (discovered_set registered ls))"
  by (auto simp: discovered_set_def first_listener_snoc split: option.splits if_splits)

lemma discovered_ports_of: "dp_port ` discovered_set registered ls = {port. first_listener ls port \<noteq> None \<and> port \<notin> set registered}"
  by (force simp: discovered_set_def image_iff)

lemma discover_found:
  "set (foldl (discover registered) [] ls) = discovered_set registered ls
   \<and> distinct (map dp_port (foldl (discover registered) [] ls))"
proof (induction ls rule: rev_induct)
  case Nil
  then show ?case by (simp add: discovered_set_def first_listener_def)
next
  case (snoc l ls)
  let ?found = "foldl (discover registered) [] ls"
  have "set (map dp_port ?found) = {port. first_listener ls port \<noteq> None \<and> port \<notin> set registered}"
    using snoc discovered_ports_of [of registered ls] by simp
  then show ?case using snoc
    by (cases "normalisePort (l_port l)") (auto simp: discover_def discovered_set_snoc)
qed

lemma sort_ports:
  assumes "distinct (map dp_port xs)"
  shows "sorted_wrt (\<lambda>a b. dp_port a < dp_port b) (js_sort (by_key dp_port) xs)"
proof -
  have "sorted_wrt (\<lambda>a b. by_key dp_port a b \<le> 0) (js_sort (by_key dp_port) xs)" by (rule ports.ordered_js_sort)
  moreover have "distinct (map dp_port (js_sort (by_key dp_port) xs))" using assms by (simp add: distinct_map_js_sort)
  then have "sorted_wrt (\<lambda>a b. dp_port a \<noteq> dp_port b) (js_sort (by_key dp_port) xs)"
    by (simp add: distinct_map sorted_wrt_map distinct_conv_nth sorted_wrt_iff_nth_less nth_eq_iff_index_eq)
  ultimately show ?thesis by (auto simp: sorted_wrt_iff_nth_less by_key_def order.strict_iff_order)
qed

text \<open>
  Every port a host listens on that is a real port and not registered
  appears exactly once, under the first listener that named it: among the folded ones with the
  reason that folds it, or among the shown ones; both lists run upwards by port.
\<close>

theorem ports_shown_or_folded:
  "set (dps_shown (discoveredPorts (Some ls) reg)) \<union> set (dps_folded (discoveredPorts (Some ls) reg))
     = discovered_set (registered_ports reg) ls
   \<and> list_all (\<lambda>i. dp_folded i = None) (dps_shown (discoveredPorts (Some ls) reg))
   \<and> list_all (\<lambda>i. dp_folded i \<noteq> None) (dps_folded (discoveredPorts (Some ls) reg))
   \<and> sorted_wrt (\<lambda>a b. dp_port a < dp_port b) (dps_shown (discoveredPorts (Some ls) reg))
   \<and> sorted_wrt (\<lambda>a b. dp_port a < dp_port b) (dps_folded (discoveredPorts (Some ls) reg))"
proof -
  let ?found = "foldl (discover (registered_ports reg)) [] ls"
  have f: "set ?found = discovered_set (registered_ports reg) ls" "distinct (map dp_port ?found)"
    using discover_found [of "registered_ports reg" ls] by simp_all
  have "distinct (map dp_port (filter P ?found))" for P using f(2) by (rule distinct_map_filter)
  note sorted = sort_ports [OF this]
  show ?thesis
    by (simp add: discoveredPorts_def Let_def sorted list_all_iff f(1)) (auto simp flip: f(1))
qed

section \<open>A label that is free\<close>

declare upt_rec_numeral [simp del]

lemma slug_lower: "slug_char c \<Longrightarrow> lower_char c = c"
  by (auto simp: slug_char_def lower_char_def is_lower_def is_upper_def is_digit_def)

definition label_chars :: "string \<Rightarrow> bool" where
  "label_chars s = list_all (\<lambda>c. slug_char c \<or> c = CHR ''-'') s"

lemma label_chars_lower: "label_chars s \<Longrightarrow> to_lower s = s"
proof -
  have "lower_char CHR ''-'' = CHR ''-''" by (simp add: lower_char_def is_upper_def)
  then show "label_chars s \<Longrightarrow> ?thesis"
    by (induction s) (auto simp: label_chars_def to_lower_def slug_lower)
qed

lemma label_chars_append [simp]: "label_chars (s @ t) \<longleftrightarrow> label_chars s \<and> label_chars t"
  by (simp add: label_chars_def)

lemma label_chars_Cons [simp]: "label_chars (c # s) \<longleftrightarrow> (slug_char c \<or> c = CHR ''-'') \<and> label_chars s"
  by (simp add: label_chars_def)

lemma label_chars_Nil [simp]: "label_chars []"
  by (simp add: label_chars_def)

lemma label_chars_subset: "set s \<subseteq> set t \<Longrightarrow> label_chars t \<Longrightarrow> label_chars s"
  by (auto simp: label_chars_def list_all_iff)

lemma label_chars_dash_runs: "label_chars (dash_runs s)"
  by (induction s rule: dash_runs.induct) (auto simp: label_chars_def)

lemma label_chars_strip: "label_chars s \<Longrightarrow> label_chars (strip_dashes s)"
  by (rule label_chars_subset [of _ s]) (auto simp: strip_dashes_def dest!: set_dropWhileD)

lemma label_chars_nat: "label_chars (nat_str n)"
  using nat_str_digits [of n] by (simp add: label_chars_def list_all_iff slug_char_def)

lemma label_chars_base: "label_chars (label_base l)"
proof -
  have "label_chars ''port''" by (simp add: slug_char_def is_lower_def)
  then have "label_chars ((if slug \<noteq> [] then slug else ''port'') @ CHR ''-'' # nat_str n)" if "label_chars slug" for slug n
    using that label_chars_nat by simp
  then show ?thesis
    unfolding label_base_def Let_def
    by (rule label_chars_subset [OF set_take_subset]) (intro label_chars_strip label_chars_dash_runs)
qed

lemma label_chars_candidate: "label_chars base \<Longrightarrow> label_chars (label_candidate base n)"
  using label_chars_subset [OF set_take_subset] label_chars_nat by (simp add: label_candidate_def Let_def)

lemma length_base: "length (label_base l) \<le> LABEL_MAX"
  by (simp add: label_base_def Let_def)

lemma length_candidate: "n < 100 \<Longrightarrow> length (label_candidate base n) \<le> LABEL_MAX"
proof -
  assume n: "n < 100"
  have one: "m < 10 \<Longrightarrow> length (nat_str m) = 1" for m by (subst nat_str.simps) simp
  have "length (nat_str n) \<le> 2"
  proof (cases "n < 10")
    case False
    then have "length (nat_str n) = Suc (length (nat_str (n div 10)))" by (subst nat_str.simps) simp
    moreover have "length (nat_str (n div 10)) = 1" using n by (intro one) simp
    ultimately show ?thesis by simp
  qed (use one in simp)
  then show ?thesis by (simp add: label_candidate_def Let_def LABEL_MAX_def)
qed

lemma takeWhile_upto: "c \<notin> set xs \<Longrightarrow> takeWhile (\<lambda>d. d \<noteq> c) (xs @ c # ys) = xs"
  by (induction xs) auto

lemma candidate_inject:
  assumes "label_candidate base m = label_candidate base n" shows "m = n"
proof -
  have dash: "CHR ''-'' \<notin> set (nat_str k)" for k by (rule nat_str_no_char) (simp add: is_digit_def)
  have r: "rev (label_candidate base k) = rev (nat_str k) @ CHR ''-'' # rev (take (LABEL_MAX - length (CHR ''-'' # nat_str k)) base)" for k
    by (simp add: label_candidate_def Let_def)
  have tk: "takeWhile (\<lambda>c. c \<noteq> CHR ''-'') (rev (label_candidate base k)) = rev (nat_str k)" for k
    unfolding r by (rule takeWhile_upto) (simp add: dash)
  have "rev (nat_str m) = rev (nat_str n)" unfolding tk [of m, symmetric] tk [of n, symmetric] assms ..
  then show ?thesis by simp
qed

lemma free_candidate:
  assumes "length used < 98"
  obtains suffix where "suffix \<in> set [2..<100]" and "label_candidate base suffix \<notin> set used"
proof -
  have "inj_on (label_candidate base) {2..<100}" by (rule inj_onI) (rule candidate_inject)
  then have "card (label_candidate base ` {2..<100}) = 98" by (simp add: card_image)
  moreover have "card (set used) < 98" using assms card_length [of used] by linarith
  ultimately have "\<not> label_candidate base ` {2..<100} \<subseteq> set used"
    using card_mono [of "set used" "label_candidate base ` {2..<100}"] by auto
  then obtain suffix where "suffix \<in> {2..<100}" "label_candidate base suffix \<notin> set used" by blast
  then show thesis using that [of suffix] unfolding set_upt by blast
qed

text \<open>
  The label suggested for a port is at most 64 characters of lower-case
  letters, digits and dashes, and as long as fewer than 98 labels are taken it is none of them,
  compared the way the API compares labels: trimmed and without regard to case.
\<close>

theorem suggested_label_is_free:
  assumes "length taken < 98"
  shows "suggestServiceLabel l (Some taken) \<notin> set (map (\<lambda>v. to_lower (js_trim (case v of None \<Rightarrow> [] | Some t \<Rightarrow> t))) taken)
    \<and> length (suggestServiceLabel l (Some taken)) \<le> LABEL_MAX \<and> label_chars (suggestServiceLabel l (Some taken))"
proof -
  let ?used = "map (\<lambda>v. to_lower (js_trim (case v of None \<Rightarrow> [] | Some t \<Rightarrow> t))) taken"
  let ?base = "label_base l"
  have low: "to_lower ?base = ?base" "to_lower (label_candidate ?base n) = label_candidate ?base n" for n
    using label_chars_lower label_chars_base label_chars_candidate by blast+
  show ?thesis
  proof (cases "?base \<in> set ?used")
    case True
    have "length ?used < 98" using assms by simp
    then obtain n where "n \<in> set [2..<100]" "label_candidate ?base n \<notin> set ?used" by (rule free_candidate)
    then have "List.find (\<lambda>n. label_candidate ?base n \<notin> set ?used) [2..<100] \<noteq> None" unfolding find_None_iff by blast
    then obtain suffix where s: "List.find (\<lambda>n. label_candidate ?base n \<notin> set ?used) [2..<100] = Some suffix" by blast
    then have "label_candidate ?base suffix \<notin> set ?used" "suffix < 100"
      using find_Some_in [OF s] by auto
    moreover have "suggestServiceLabel l (Some taken) = label_candidate ?base suffix"
      using True s by (simp add: suggestServiceLabel_def Let_def low del: set_map)
    ultimately show ?thesis using length_candidate [of suffix ?base] label_chars_candidate [OF label_chars_base] by simp
  next
    case False
    then show ?thesis using length_base label_chars_base by (simp add: suggestServiceLabel_def Let_def low del: set_map)
  qed
qed

theorem suggested_label_is_free_witness:
  "label_chars (suggestServiceLabel \<lparr>l_port = Fin 5432, l_process = None, l_loopback = None\<rparr> (Some [None, Some ''port-5432'']))"
  using suggested_label_is_free [of "[None, Some ''port-5432'']"] by simp

end
