(* ===== verification/Renames.thy ===== *)
theory Renames
  imports Wire Registry
begin

text \<open>
  \<^verbatim>\<open>apps/api/src/terminal/session-renames.ts\<close>: the tmux renames made through the product, by which a
  saved pane of another window follows its session to its new name. The \<open>Map\<close>s are association
  lists in insertion order.
\<close>

section \<open>State and operations\<close>

record rename_event =
  re_host :: string
  re_tmux :: string
  re_from :: string
  re_to :: string

record rename_record =
  rn_name :: string
  rn_previous :: "string list"

type_synonym host_renames = "(string \<times> rename_record) list"

type_synonym session_renames = "(string \<times> host_renames) list"

definition MAX_PREVIOUS :: nat where "MAX_PREVIOUS = 8"

definition MAX_SESSIONS :: nat where "MAX_SESSIONS = 64"

definition isSessionRenamedEvent :: "jsval \<Rightarrow> bool" where
  "isSessionRenamedEvent event =
     (is_object event \<and> js_get event ''type'' = JStr ''host.session-renamed''
      \<and> as_string (js_get event ''hostId'') \<noteq> None
      \<and> (case as_string (js_get event ''tmuxId'') of Some t \<Rightarrow> is_tmux_id t | None \<Rightarrow> False)
      \<and> truthy (as_string (js_get event ''from'')) \<and> truthy (as_string (js_get event ''to'')))"

text \<open>\<open>slice(-n)\<close> and dropping the oldest keys while there are more than \<open>n\<close>.\<close>

definition last_n :: "nat \<Rightarrow> 'a list \<Rightarrow> 'a list" where
  "last_n n xs = drop (length xs - n) xs"

definition earlier_names :: "rename_record option \<Rightarrow> rename_event \<Rightarrow> string list" where
  "earlier_names known event =
     (case known of Some k \<Rightarrow> if rn_name k = re_from event then rn_previous k else [] | None \<Rightarrow> [])"

definition renames_of :: "session_renames \<Rightarrow> string \<Rightarrow> host_renames" where
  "renames_of st host = (case map_of st host of Some sessions \<Rightarrow> sessions | None \<Rightarrow> [])"

definition record_rename :: "rename_event \<Rightarrow> session_renames \<Rightarrow> session_renames" where
  "record_rename event st =
     (if re_from event = re_to event then st
      else let sessions = renames_of st (re_host event); known = map_of sessions (re_tmux event) in
        if (case known of Some k \<Rightarrow> rn_name k = re_to event | None \<Rightarrow> False) then st
        else
          let previous = last_n MAX_PREVIOUS
                (filter (\<lambda>name. name \<noteq> re_to event \<and> name \<noteq> re_from event) (earlier_names known event) @ [re_from event]);
              added = AList.delete (re_tmux event) sessions @ [(re_tmux event, \<lparr>rn_name = re_to event, rn_previous = previous\<rparr>)]
          in AList.update (re_host event) (last_n MAX_SESSIONS added) st)"

definition forget_host :: "string \<Rightarrow> session_renames \<Rightarrow> session_renames" where
  "forget_host host st = AList.delete host st"

text \<open>The name each live tmux session has; of two sessions with one id the later counts.\<close>

definition live_name :: "grid_session list \<Rightarrow> string \<Rightarrow> string option" where
  "live_name sessions tmuxId =
     map_option gs_name (List.find (\<lambda>g. gs_backend g \<noteq> Some Native \<and> truthy (gs_tmuxId g) \<and> gs_tmuxId g = Some tmuxId) (rev sessions))"

definition borne_out :: "grid_session list \<Rightarrow> string \<times> rename_record \<Rightarrow> bool" where
  "borne_out sessions r =
     (case live_name sessions (fst r) of
        None \<Rightarrow> False
      | Some name \<Rightarrow> name = rn_name (snd r) \<or> name \<in> set (rn_previous (snd r)))"

definition annotate_session :: "host_renames \<Rightarrow> grid_session \<Rightarrow> grid_session" where
  "annotate_session records g =
     (case (if gs_backend g \<noteq> Some Native \<and> truthy (gs_tmuxId g) then map_of records (the (gs_tmuxId g)) else None) of
        Some r \<Rightarrow> if rn_name r = gs_name g then g\<lparr>gs_previous := rn_previous r\<rparr> else g
      | None \<Rightarrow> g)"

definition annotate :: "string \<Rightarrow> grid_session list \<Rightarrow> session_renames \<Rightarrow> grid_session list \<times> session_renames" where
  "annotate host sessions st =
     (let records = renames_of st host in
      if records = [] then (sessions, st)
      else
        let kept = filter (borne_out sessions) records in
        (map (annotate_session kept) sessions,
         if kept = [] then AList.delete host st else AList.update host kept st))"

section \<open>The invariant\<close>

definition record_ok :: "rename_record \<Rightarrow> bool" where
  "record_ok r \<longleftrightarrow> rn_previous r \<noteq> [] \<and> length (rn_previous r) \<le> MAX_PREVIOUS
     \<and> distinct (rn_name r # rn_previous r)"

definition renames_ok :: "session_renames \<Rightarrow> bool" where
  "renames_ok st \<longleftrightarrow> distinct (map fst st) \<and>
     (\<forall>(host, sessions) \<in> set st. sessions \<noteq> [] \<and> length sessions \<le> MAX_SESSIONS
        \<and> distinct (map fst sessions) \<and> (\<forall>(tmuxId, r) \<in> set sessions. record_ok r))"

definition sessions_ok :: "host_renames \<Rightarrow> bool" where
  "sessions_ok sessions \<longleftrightarrow> length sessions \<le> MAX_SESSIONS
     \<and> distinct (map fst sessions) \<and> (\<forall>(tmuxId, r) \<in> set sessions. record_ok r)"

lemma renames_ok_alt:
  "renames_ok st \<longleftrightarrow> distinct (map fst st) \<and> (\<forall>(host, sessions) \<in> set st. sessions \<noteq> [] \<and> sessions_ok sessions)"
  by (auto simp: renames_ok_def sessions_ok_def)

lemma renames_of_ok: "renames_ok st \<Longrightarrow> sessions_ok (renames_of st host)"
  by (auto simp: renames_ok_alt renames_of_def sessions_ok_def dest: map_of_SomeD split: option.splits)

lemma mem_update: "x \<in> set (AList.update k v m) \<Longrightarrow> x = (k, v) \<or> x \<in> set m"
  by (induction m) (auto split: if_splits)

lemma mem_delete: "x \<in> set (AList.delete k m) \<Longrightarrow> x \<in> set m \<and> fst x \<noteq> k"
  by (induction m) (auto split: if_splits)

lemma renames_ok_update:
  "renames_ok st \<Longrightarrow> sessions \<noteq> [] \<Longrightarrow> sessions_ok sessions \<Longrightarrow> renames_ok (AList.update host sessions st)"
  unfolding renames_ok_alt by (auto dest!: mem_update)

lemma renames_ok_delete: "renames_ok st \<Longrightarrow> renames_ok (AList.delete host st)"
  unfolding renames_ok_alt by (auto dest!: mem_delete)

lemma set_last_n: "set (last_n n xs) \<subseteq> set xs"
  by (simp add: last_n_def set_drop_subset)

lemma length_last_n: "length (last_n n xs) \<le> n"
  by (simp add: last_n_def)

lemma last_n_snoc: "0 < n \<Longrightarrow> last_n n (xs @ [x]) = last_n (n - 1) xs @ [x]"
  by (cases n) (simp_all add: last_n_def)

lemma ball_subset: "A \<subseteq> B \<Longrightarrow> \<forall>x \<in> B. P x \<Longrightarrow> \<forall>x \<in> A. P x"
  by blast

lemma distinct_last_n: "distinct (map f xs) \<Longrightarrow> distinct (map f (last_n n xs))"
  unfolding last_n_def by (metis distinct_drop drop_map)

lemma sessions_ok_delete: "sessions_ok sessions \<Longrightarrow> sessions_ok (AList.delete k sessions)"
  unfolding sessions_ok_def
  by (auto dest!: mem_delete intro: order_trans [OF length_delete_le])

lemma sessions_ok_filter: "sessions_ok sessions \<Longrightarrow> sessions_ok (filter P sessions)"
  unfolding sessions_ok_def
  by (auto intro: order_trans [OF length_filter_le] distinct_map_filter)

lemma earlier_names_distinct:
  "sessions_ok sessions \<Longrightarrow> distinct (earlier_names (map_of sessions k) event)"
  by (auto simp: earlier_names_def sessions_ok_def record_ok_def dest: map_of_SomeD split: option.splits)

lemma record_rename_ok:
  assumes ok: "renames_ok st"
  shows "renames_ok (record_rename event st)"
proof (cases "record_rename event st = st")
  case False
  define sessions where "sessions = renames_of st (re_host event)"
  define kept where "kept = filter (\<lambda>name. name \<noteq> re_to event \<and> name \<noteq> re_from event) (earlier_names (map_of sessions (re_tmux event)) event)"
  define r where "r = \<lparr>rn_name = re_to event, rn_previous = last_n MAX_PREVIOUS (kept @ [re_from event])\<rparr>"
  have s: "sessions_ok sessions" using renames_of_ok [OF ok] by (simp add: sessions_def)
  have ne: "re_from event \<noteq> re_to event" and upd: "record_rename event st =
      AList.update (re_host event) (last_n MAX_SESSIONS (AList.delete (re_tmux event) sessions @ [(re_tmux event, r)])) st"
    using False by (auto simp: record_rename_def Let_def sessions_def kept_def r_def split: if_splits)
  have "distinct kept" using earlier_names_distinct [OF s] by (simp add: kept_def)
  then have "record_ok r"
    using set_last_n [of "MAX_PREVIOUS - 1" kept] ne length_last_n [of "MAX_PREVIOUS - 1" kept]
    by (auto simp: record_ok_def r_def last_n_snoc MAX_PREVIOUS_def last_n_def kept_def)
  let ?all = "AList.delete (re_tmux event) sessions @ [(re_tmux event, r)]"
  have "distinct (map fst ?all)" using s distinct_keys_delete by (auto simp: sessions_ok_def dest!: mem_delete)
  then have "distinct (map fst (last_n MAX_SESSIONS ?all))" by (rule distinct_last_n)
  moreover have "\<forall>(tmuxId, q) \<in> set ?all. record_ok q"
    using sessions_ok_delete [OF s, of "re_tmux event"] \<open>record_ok r\<close> by (auto simp: sessions_ok_def)
  then have "\<forall>(tmuxId, q) \<in> set (last_n MAX_SESSIONS ?all). record_ok q"
    by (rule ball_subset [OF set_last_n])
  ultimately have new: "sessions_ok (last_n MAX_SESSIONS ?all)"
    using length_last_n [of MAX_SESSIONS ?all] unfolding sessions_ok_def by blast
  have "last_n MAX_SESSIONS ?all \<noteq> []" by (simp add: last_n_snoc MAX_SESSIONS_def)
  then show ?thesis unfolding upd using new by (rule renames_ok_update [OF ok])
qed (use ok in simp)

lemma annotate_ok:
  assumes "renames_ok st" shows "renames_ok (snd (annotate host sessions st))"
proof -
  have "sessions_ok (filter (borne_out sessions) (renames_of st host))"
    by (rule sessions_ok_filter [OF renames_of_ok [OF assms]])
  then show ?thesis
    using assms by (auto simp: annotate_def Let_def intro: renames_ok_delete renames_ok_update)
qed

datatype renames_input = Renamed rename_event | AgentBack string | HostView string "grid_session list"

fun renames_step :: "session_renames \<Rightarrow> renames_input \<Rightarrow> session_renames" where
  "renames_step st (Renamed event) = record_rename event st"
| "renames_step st (AgentBack host) = forget_host host st"
| "renames_step st (HostView host sessions) = snd (annotate host sessions st)"

interpretation renames: invariant_machine renames_step renames_ok
proof
  fix st input
  assume "renames_ok st"
  then show "renames_ok (renames_step st input)"
    by (cases input) (simp_all add: record_rename_ok annotate_ok forget_host_def renames_ok_delete)
qed

text \<open>The records of a process that has just started stay within their bounds.\<close>

lemma renames_run_ok: "renames_ok (run renames_step [] inputs)"
  by (rule renames.run_inv) (simp add: renames_ok_def)

section \<open>Following a rename\<close>

definition tmux_session :: "string \<Rightarrow> grid_session \<Rightarrow> bool" where
  "tmux_session tmuxId g \<longleftrightarrow> gs_backend g \<noteq> Some Native \<and> gs_tmuxId g = Some tmuxId"

definition tmux_slot :: "string \<Rightarrow> string \<Rightarrow> string \<Rightarrow> terminal_slot \<Rightarrow> bool" where
  "tmux_slot host tmuxId name slot \<longleftrightarrow> s_host slot = host \<and> s_kind slot \<noteq> Shell \<and> s_backend slot \<noteq> Some Native
     \<and> s_tmuxId slot = Some tmuxId \<and> s_session slot = Some name"

lemma recorded:
  assumes "renames_ok st" and "re_from event \<noteq> re_to event"
    and "\<And>k. map_of (renames_of st (re_host event)) (re_tmux event) = Some k \<Longrightarrow> rn_name k \<noteq> re_to event"
  obtains r where "map_of (renames_of (record_rename event st) (re_host event)) (re_tmux event) = Some r"
    and "rn_name r = re_to event" and "re_from event \<in> set (rn_previous r)"
proof -
  define sessions where "sessions = renames_of st (re_host event)"
  define kept where "kept = filter (\<lambda>name. name \<noteq> re_to event \<and> name \<noteq> re_from event) (earlier_names (map_of sessions (re_tmux event)) event)"
  define r where "r = \<lparr>rn_name = re_to event, rn_previous = last_n MAX_PREVIOUS (kept @ [re_from event])\<rparr>"
  define all where "all = AList.delete (re_tmux event) sessions @ [(re_tmux event, r)]"
  have upd: "record_rename event st = AList.update (re_host event) (last_n MAX_SESSIONS all) st"
    using assms(2,3) by (auto simp: record_rename_def Let_def sessions_def kept_def r_def all_def split: option.splits)
  have "distinct (map fst sessions)" using renames_of_ok [OF assms(1)] by (simp add: sessions_def sessions_ok_def)
  then have "distinct (map fst all)" unfolding all_def by (auto dest!: mem_delete)
  then have d: "distinct (map fst (last_n MAX_SESSIONS all))" by (rule distinct_last_n)
  have "(re_tmux event, r) \<in> set (last_n MAX_SESSIONS all)" by (simp add: all_def last_n_snoc MAX_SESSIONS_def)
  then have m: "map_of (last_n MAX_SESSIONS all) (re_tmux event) = Some r" by (rule map_of_is_SomeI [OF d])
  show thesis
  proof (rule that)
    show "map_of (renames_of (record_rename event st) (re_host event)) (re_tmux event) = Some r"
      by (simp add: renames_of_def upd m)
  qed (simp_all add: r_def last_n_snoc MAX_PREVIOUS_def)
qed

text \<open>A session of the view under the name of its record carries the record's names.\<close>

lemma annotated_session:
  assumes ok: "renames_ok st" and r: "map_of (renames_of st host) tmuxId = Some r" and id: "tmuxId \<noteq> []"
    and name: "\<And>g. g \<in> set live \<Longrightarrow> tmux_session tmuxId g \<Longrightarrow> gs_name g = rn_name r"
    and g: "g \<in> set (fst (annotate host live st))" "tmux_session tmuxId g"
  shows "gs_name g = rn_name r \<and> gs_previous g = rn_previous r"
proof -
  have ne: "renames_of st host \<noteq> []" using r by auto
  let ?kept = "filter (borne_out live) (renames_of st host)"
  obtain g0 where g0: "g0 \<in> set live" "g = annotate_session ?kept g0"
    using g(1) ne by (auto simp: annotate_def Let_def)
  have same: "gs_backend (annotate_session m h) = gs_backend h" "gs_tmuxId (annotate_session m h) = gs_tmuxId h"
    "gs_name (annotate_session m h) = gs_name h" for m h
    by (simp_all add: annotate_session_def split: option.splits)
  have t0: "tmux_session tmuxId g0" using g(2) g0(2) by (simp add: tmux_session_def same)
  have n0: "gs_name g0 = rn_name r" by (rule name [OF g0(1) t0])
  have "live_name live tmuxId \<noteq> None"
    using g0(1) t0 id unfolding live_name_def by (auto simp: find_None_iff tmux_session_def intro!: exI [of _ g0])
  then obtain h where h: "List.find (\<lambda>g. gs_backend g \<noteq> Some Native \<and> truthy (gs_tmuxId g) \<and> gs_tmuxId g = Some tmuxId) (rev live) = Some h"
    by (auto simp: live_name_def)
  then have "h \<in> set live" "tmux_session tmuxId h" using find_Some_in [OF h] by (auto simp: tmux_session_def)
  then have "live_name live tmuxId = Some (rn_name r)" using h name by (simp add: live_name_def)
  then have "borne_out live (tmuxId, r)" by (simp add: borne_out_def)
  moreover have "distinct (map fst (renames_of st host))" using renames_of_ok [OF ok] by (simp add: sessions_ok_def)
  moreover from this have "distinct (map fst ?kept)" by (rule distinct_map_filter)
  ultimately have "map_of ?kept tmuxId = Some r"
    using r by (intro map_of_is_SomeI) (auto dest: map_of_SomeD)
  then show ?thesis using t0 id n0 g0(2) by (simp add: annotate_session_def tmux_session_def)
qed

text \<open>
  C22 (\<open>rename_reaches_saved_panes\<close>): when a tmux session is renamed through the product and the host
  then reports its id under the new name, the view of that host lets every saved pane that still
  has the old name follow it: the pane takes the new name and nothing else of it changes.
\<close>

theorem rename_reaches_saved_panes:
  assumes ok: "renames_ok st" and ev: "re_from event \<noteq> re_to event" "re_from event \<noteq> []" "re_tmux event \<noteq> []"
    and new: "\<And>k. map_of (renames_of st (re_host event)) (re_tmux event) = Some k \<Longrightarrow> rn_name k \<noteq> re_to event"
    and live: "\<exists>g \<in> set live. tmux_session (re_tmux event) g"
      "\<And>g. g \<in> set live \<Longrightarrow> tmux_session (re_tmux event) g \<Longrightarrow> gs_name g = re_to event"
    and slot: "tmux_slot (re_host event) (re_tmux event) (re_from event) slot"
    and hosts: "sessions_of hosts (re_host event) = fst (annotate (re_host event) live (record_rename event st))"
  shows "resolveSessionSlot slot hosts = slot\<lparr>s_session := Some (re_to event)\<rparr>"
proof -
  obtain r where r: "map_of (renames_of (record_rename event st) (re_host event)) (re_tmux event) = Some r"
    "rn_name r = re_to event" "re_from event \<in> set (rn_previous r)"
    by (rule recorded [OF ok ev(1) new])
  let ?view = "fst (annotate (re_host event) live (record_rename event st))"
  have view: "gs_name g = re_to event \<and> gs_previous g = rn_previous r" if "g \<in> set ?view" "tmux_session (re_tmux event) g" for g
    using annotated_session [OF record_rename_ok [OF ok] r(1) ev(3) _ that] live(2) r(2) by simp
  have "\<exists>g \<in> set ?view. tmux_session (re_tmux event) g"
    using live(1) by (auto simp: annotate_def Let_def tmux_session_def annotate_session_def split: option.splits)
  then obtain g where g: "List.find (\<lambda>g. gs_backend g \<noteq> Some Native \<and> gs_tmuxId g = s_tmuxId slot) ?view = Some g"
    using slot by (cases "List.find (\<lambda>g. gs_backend g \<noteq> Some Native \<and> gs_tmuxId g = s_tmuxId slot) ?view")
      (auto simp: find_None_iff tmux_session_def tmux_slot_def)
  have "gs_name g = re_to event \<and> gs_previous g = rn_previous r"
    using find_Some_in [OF g] slot by (intro view) (auto simp: tmux_session_def tmux_slot_def)
  then show ?thesis
    using slot g r(3) ev by (simp add: resolveSessionSlot_def Let_def tmux_slot_def hosts)
qed

theorem rename_reaches_saved_panes_witness:
  "resolveSessionSlot
     \<lparr>s_id = ''s1'', s_host = ''h'', s_kind = Attach, s_session = Some ''w1'', s_backend = Some Tmux,
      s_sessionId = None, s_tmuxId = Some ''$0'', s_intent = None, s_label = None, s_tags = []\<rparr>
     [\<lparr>h_id = ''h'', h_name = ''h'', h_online = True, h_native = False, h_sessions =
        fst (annotate ''h'' [\<lparr>gs_backend = Some Tmux, gs_sessionId = None, gs_tmuxId = Some ''$0'', gs_name = ''build'', gs_previous = []\<rparr>]
          (record_rename \<lparr>re_host = ''h'', re_tmux = ''$0'', re_from = ''w1'', re_to = ''build''\<rparr> [])),
       h_update = None\<rparr>] =
     \<lparr>s_id = ''s1'', s_host = ''h'', s_kind = Attach, s_session = Some ''build'', s_backend = Some Tmux,
      s_sessionId = None, s_tmuxId = Some ''$0'', s_intent = None, s_label = None, s_tags = []\<rparr>"
  (is "resolveSessionSlot ?slot [\<lparr>h_id = _, h_name = _, h_online = _, h_native = _,
      h_sessions = fst (annotate ''h'' ?live (record_rename ?event [])), h_update = _\<rparr>] = _")
proof -
  have "resolveSessionSlot ?slot
      [\<lparr>h_id = ''h'', h_name = ''h'', h_online = True, h_native = False,
        h_sessions = fst (annotate ''h'' ?live (record_rename ?event [])), h_update = None\<rparr>] =
      ?slot\<lparr>s_session := Some (re_to ?event)\<rparr>"
    by (rule rename_reaches_saved_panes [of "[]" ?event ?live])
      (simp_all add: renames_ok_def renames_of_def tmux_session_def tmux_slot_def sessions_of_def host_of_def)
  then show ?thesis by simp
qed

text \<open>Once the host stops reporting an id under the names of its record, the record is gone.\<close>

lemma forgotten:
  assumes ok: "renames_ok st" and gone: "\<And>r. map_of (renames_of st host) tmuxId = Some r \<Longrightarrow> \<not> borne_out live (tmuxId, r)"
  shows "map_of (renames_of (snd (annotate host live st)) host) tmuxId = None"
proof -
  let ?records = "renames_of st host"
  have d: "distinct (map fst ?records)" using renames_of_ok [OF ok] by (simp add: sessions_ok_def)
  have kept: "map_of (filter (borne_out live) ?records) tmuxId = None"
  proof (rule ccontr)
    assume "\<not> ?thesis"
    then obtain r where "(tmuxId, r) \<in> set (filter (borne_out live) ?records)" by (auto dest: map_of_SomeD)
    then have "(tmuxId, r) \<in> set ?records" "borne_out live (tmuxId, r)" by auto
    then show False using gone [of r] map_of_is_SomeI [OF d] by blast
  qed
  show ?thesis
  proof (cases "?records = []")
    case True
    then show ?thesis by (simp add: annotate_def)
  next
    case False
    then have "renames_of (snd (annotate host live st)) host = filter (borne_out live) ?records"
      by (simp add: annotate_def Let_def renames_of_def)
    then show ?thesis using kept by simp
  qed
qed

lemma unannotated:
  assumes "map_of (renames_of st host) tmuxId = None" and "g \<in> set (fst (annotate host live st))" and "tmux_session tmuxId g"
  shows "g \<in> set live"
proof -
  have n: "map_of (filter P (renames_of st host)) tmuxId = None" for P
    using assms(1) by (auto simp: map_of_eq_None_iff)
  have same: "gs_backend (annotate_session m h) = gs_backend h" "gs_tmuxId (annotate_session m h) = gs_tmuxId h" for m h
    by (simp_all add: annotate_session_def split: option.splits)
  show ?thesis
  proof (cases "renames_of st host = []")
    case False
    then obtain g0 where g0: "g0 \<in> set live" "g = annotate_session (filter (borne_out live) (renames_of st host)) g0"
      using assms(2) by (auto simp: annotate_def Let_def)
    moreover from this assms(3) have "gs_tmuxId g0 = Some tmuxId" by (simp add: tmux_session_def same)
    ultimately show ?thesis using n by (simp add: annotate_session_def split: if_splits)
  qed (use assms(2) in \<open>simp add: annotate_def\<close>)
qed

text \<open>
  C24 (\<open>reused_id_is_not_followed\<close>): after a view of the host in which a session id is missing, or is
  reported under a name its record does not know, no record of that id is left: whatever session
  a later view shows under the id, no saved pane takes its name.
\<close>

theorem reused_id_is_not_followed:
  assumes ok: "renames_ok st"
    and gone: "\<And>r. map_of (renames_of st host) tmuxId = Some r \<Longrightarrow> \<not> borne_out live (tmuxId, r)"
    and fresh: "\<forall>g \<in> set later. gs_previous g = []"
    and slot: "tmux_slot host tmuxId name slot" and id: "tmuxId \<noteq> []"
    and hosts: "sessions_of hosts host = fst (annotate host later (snd (annotate host live st)))"
  shows "resolveSessionSlot slot hosts = slot"
proof -
  let ?view = "fst (annotate host later (snd (annotate host live st)))"
  have view: "gs_previous g = []" if "g \<in> set ?view" "tmux_session tmuxId g" for g
    using unannotated [OF forgotten [OF ok gone] that] fresh by simp
  show ?thesis
  proof (cases "List.find (\<lambda>g. gs_backend g \<noteq> Some Native \<and> gs_tmuxId g = s_tmuxId slot) ?view")
    case None
    then show ?thesis using slot id by (simp add: resolveSessionSlot_def Let_def tmux_slot_def hosts)
  next
    case (Some g)
    then have "gs_previous g = []"
      using find_Some_in [OF Some] slot by (intro view) (auto simp: tmux_session_def tmux_slot_def)
    then show ?thesis using Some slot id by (simp add: resolveSessionSlot_def Let_def tmux_slot_def hosts)
  qed
qed

theorem reused_id_is_not_followed_witness:
  "resolveSessionSlot
     \<lparr>s_id = ''s1'', s_host = ''h'', s_kind = Attach, s_session = Some ''w1'', s_backend = Some Tmux,
      s_sessionId = None, s_tmuxId = Some ''$0'', s_intent = None, s_label = None, s_tags = []\<rparr>
     [\<lparr>h_id = ''h'', h_name = ''h'', h_online = True, h_native = False, h_sessions =
        fst (annotate ''h'' [\<lparr>gs_backend = Some Tmux, gs_sessionId = None, gs_tmuxId = Some ''$0'', gs_name = ''build'', gs_previous = []\<rparr>]
          (snd (annotate ''h'' [] (record_rename \<lparr>re_host = ''h'', re_tmux = ''$0'', re_from = ''w1'', re_to = ''build''\<rparr> [])))),
       h_update = None\<rparr>] =
     \<lparr>s_id = ''s1'', s_host = ''h'', s_kind = Attach, s_session = Some ''w1'', s_backend = Some Tmux,
      s_sessionId = None, s_tmuxId = Some ''$0'', s_intent = None, s_label = None, s_tags = []\<rparr>"
proof (rule reused_id_is_not_followed [where host = "''h''" and live = "[]" and tmuxId = "''$0''" and
    later = "[\<lparr>gs_backend = Some Tmux, gs_sessionId = None, gs_tmuxId = Some ''$0'', gs_name = ''build'', gs_previous = []\<rparr>]"])
  show "renames_ok (record_rename \<lparr>re_host = ''h'', re_tmux = ''$0'', re_from = ''w1'', re_to = ''build''\<rparr> [])"
    by (rule record_rename_ok) (simp add: renames_ok_def)
qed (simp_all add: borne_out_def live_name_def tmux_slot_def sessions_of_def host_of_def)

end
