(* ===== verification/DetailRequests.thy ===== *)
theory DetailRequests
  imports Registry
begin

text \<open>
  \<^verbatim>\<open>apps/api/src/agents/agent-detail-request.service.ts\<close>: asking a host's agent for a commit's patch,
  a tree or a file when somebody clicks, without letting a polling browser become a flood. It
  sends through the registry and is one of its subscribers; times are epoch milliseconds.
\<close>

section \<open>State and operations\<close>

datatype git_request = DetailRequest string | TreeRequest string | BlobRequest string string

datatype git_frame = CommitDetail string "string list" | FileTreeFrame string string | FileContent string string string

type_synonym outstanding = "(string \<times> int) list"

definition DETAIL_REQUEST_TTL_MS :: int where "DETAIL_REQUEST_TTL_MS = 30000"

definition DETAIL_REQUEST_CAP :: nat where "DETAIL_REQUEST_CAP = 50"

definition KEY_SEPARATOR :: char where "KEY_SEPARATOR = CHR 0x00"

fun request_kind :: "git_request \<Rightarrow> string" where
  "request_kind (DetailRequest _) = ''detail''"
| "request_kind (TreeRequest _) = ''tree''"
| "request_kind (BlobRequest _ _) = ''blob''"

fun request_sha :: "git_request \<Rightarrow> string" where
  "request_sha (DetailRequest s) = s"
| "request_sha (TreeRequest s) = s"
| "request_sha (BlobRequest s _) = s"

definition outstandingKey :: "string \<Rightarrow> string \<Rightarrow> git_request \<Rightarrow> string" where
  "outstandingKey hostId repoPath request =
     hostId @ KEY_SEPARATOR # repoPath @ KEY_SEPARATOR # request_kind request @ KEY_SEPARATOR # request_sha request
     @ (case request of BlobRequest _ path \<Rightarrow> KEY_SEPARATOR # path | _ \<Rightarrow> [])"

fun frameFor :: "string \<Rightarrow> git_request \<Rightarrow> git_frame" where
  "frameFor repoPath (TreeRequest sha) = FileTreeFrame repoPath sha"
| "frameFor repoPath (BlobRequest sha path) = FileContent repoPath sha path"
| "frameFor repoPath (DetailRequest sha) = CommitDetail repoPath [sha]"

definition host_key :: "string \<Rightarrow> string \<Rightarrow> bool" where
  "host_key hostId key = starts_with key (hostId @ [KEY_SEPARATOR])"

definition forgetHost :: "string \<Rightarrow> outstanding \<Rightarrow> outstanding" where
  "forgetHost hostId out = filter (\<lambda>(key, _). \<not> host_key hostId key) out"

definition expire :: "int \<Rightarrow> outstanding \<Rightarrow> outstanding" where
  "expire now out = filter (\<lambda>(_, expiresAt). \<not> expiresAt \<le> now) out"

definition countForHost :: "string \<Rightarrow> outstanding \<Rightarrow> nat" where
  "countForHost hostId out = length (filter (\<lambda>(key, _). host_key hostId key) out)"

definition request ::
    "(nat \<Rightarrow> git_frame \<Rightarrow> 'w \<Rightarrow> bool \<times> 'w) \<Rightarrow> registry \<Rightarrow> string \<Rightarrow> string \<Rightarrow> git_request \<Rightarrow> int
      \<Rightarrow> outstanding \<times> 'w \<Rightarrow> bool \<times> outstanding \<times> 'w" where
  "request write reg hostId repoPath req now s =
     (let out = expire now (fst s); key = outstandingKey hostId repoPath req in
      if map_of out key \<noteq> None then (True, out, snd s)
      else if \<not> isConnected reg hostId then (False, out, snd s)
      else if DETAIL_REQUEST_CAP \<le> countForHost hostId out then (False, out, snd s)
      else case sendToHost write reg hostId (frameFor repoPath req) (snd s) of
          (False, w) \<Rightarrow> (False, out, w)
        | (True, w) \<Rightarrow> (True, AList.update key (now + DETAIL_REQUEST_TTL_MS) out, w))"

definition outstandingCount :: "outstanding \<Rightarrow> nat" where
  "outstandingCount out = length out"

text \<open>What \<open>connect\<close> subscribes to the registry.\<close>

definition on_disconnect :: "registry_event \<Rightarrow> outstanding \<Rightarrow> outstanding" where
  "on_disconnect ev out = (case ev of Disconnected hostId _ \<Rightarrow> forgetHost hostId out | Connected _ \<Rightarrow> out)"

section \<open>The service beside the registry\<close>

text \<open>
  The history of the service, newest first: a frame it sent for a key, or a host whose agent went
  away. A socket accepts a frame or not (\<open>accepts\<close>).
\<close>

datatype detail_event = Asked string int | AgentGone string

type_synonym detail_state = "outstanding \<times> detail_event list"

definition detail_hub :: "detail_state hub" where
  "detail_hub = \<lparr>hub_close = \<lambda>_ _ _ s. s, hub_handlers =
     [\<lambda>_ ev s. (on_disconnect ev (fst s),
        case ev of Disconnected hostId _ \<Rightarrow> AgentGone hostId # snd s | Connected _ \<Rightarrow> snd s)]\<rparr>"

datatype detail_input = RegistryDoes registry_op | Click string string git_request int

fun input_time :: "detail_input \<Rightarrow> int option" where
  "input_time (RegistryDoes _) = None"
| "input_time (Click _ _ _ now) = Some now"

definition click ::
    "(nat \<Rightarrow> git_frame \<Rightarrow> bool) \<Rightarrow> registry \<Rightarrow> string \<Rightarrow> string \<Rightarrow> git_request \<Rightarrow> int \<Rightarrow> detail_state \<Rightarrow> detail_state" where
  "click accepts reg hostId repoPath req now s =
     (let key = outstandingKey hostId repoPath req;
          (_, out, sent) = request (\<lambda>socket frame sent. (accepts socket frame, sent \<or> accepts socket frame)) reg hostId repoPath req now (fst s, False)
      in (out, if sent then Asked key now # snd s else snd s))"

fun detail_step :: "(nat \<Rightarrow> git_frame \<Rightarrow> bool) \<Rightarrow> registry \<times> detail_state \<Rightarrow> detail_input \<Rightarrow> registry \<times> detail_state" where
  "detail_step accepts (reg, s) (RegistryDoes op) = registry_step detail_hub (reg, s) op"
| "detail_step accepts (reg, s) (Click hostId repoPath req now) = (reg, click accepts reg hostId repoPath req now s)"

section \<open>One request per window\<close>

fun last_asked :: "string \<Rightarrow> detail_event list \<Rightarrow> int option" where
  "last_asked key [] = None"
| "last_asked key (Asked k t # es) = (if k = key then Some t else last_asked key es)"
| "last_asked key (AgentGone h # es) = (if host_key h key then None else last_asked key es)"

fun spaced :: "detail_event list \<Rightarrow> bool" where
  "spaced [] = True"
| "spaced (Asked k t # es) \<longleftrightarrow> (case last_asked k es of None \<Rightarrow> True | Some t' \<Rightarrow> t' + DETAIL_REQUEST_TTL_MS \<le> t) \<and> spaced es"
| "spaced (AgentGone h # es) = spaced es"

definition detail_ok :: "int \<Rightarrow> detail_state \<Rightarrow> bool" where
  "detail_ok now s \<longleftrightarrow> distinct (map fst (fst s)) \<and> spaced (snd s)
     \<and> (\<forall>h. KEY_SEPARATOR \<notin> set h \<longrightarrow> countForHost h (fst s) \<le> DETAIL_REQUEST_CAP)
     \<and> (\<forall>key t. last_asked key (snd s) = Some t \<longrightarrow> now < t + DETAIL_REQUEST_TTL_MS \<longrightarrow>
           map_of (fst s) key = Some (t + DETAIL_REQUEST_TTL_MS))"

lemma host_key_outstanding:
  "KEY_SEPARATOR \<notin> set h \<Longrightarrow> KEY_SEPARATOR \<notin> set host \<Longrightarrow> host_key h (outstandingKey host repo req) \<longleftrightarrow> h = host"
proof -
  assume no: "KEY_SEPARATOR \<notin> set h" "KEY_SEPARATOR \<notin> set host"
  define rest where "rest = repo @ KEY_SEPARATOR # request_kind req @ KEY_SEPARATOR # request_sha req
     @ (case req of BlobRequest _ path \<Rightarrow> KEY_SEPARATOR # path | _ \<Rightarrow> [])"
  have key: "outstandingKey host repo req = host @ KEY_SEPARATOR # rest" by (simp add: outstandingKey_def rest_def)
  show ?thesis
  proof
    assume "host_key h (outstandingKey host repo req)"
    then obtain r where "host @ KEY_SEPARATOR # rest = h @ KEY_SEPARATOR # r"
      unfolding host_key_def key by (auto elim: starts_withE)
    then show "h = host" using append_sep_inject [OF no(2,1)] by blast
  next
    assume "h = host"
    moreover have "starts_with ((host @ [KEY_SEPARATOR]) @ rest) (host @ [KEY_SEPARATOR])" by (rule starts_with_append)
    ultimately show "host_key h (outstandingKey host repo req)" by (simp add: host_key_def key)
  qed
qed

lemma map_of_expire:
  "distinct (map fst out) \<Longrightarrow> map_of (expire now out) key =
     (case map_of out key of Some e \<Rightarrow> if e \<le> now then None else Some e | None \<Rightarrow> None)"
  unfolding expire_def using map_of_filter_values [of out "\<lambda>e. \<not> e \<le> now" key] by (auto split: option.splits)

lemma count_filter: "countForHost h (filter P out) \<le> countForHost h out"
  unfolding countForHost_def by (induction out) auto

lemma distinct_expire: "distinct (map fst out) \<Longrightarrow> distinct (map fst (expire now out))"
  unfolding expire_def by (rule distinct_map_filter)

lemma count_expire: "countForHost h (expire now out) \<le> countForHost h out"
  unfolding expire_def by (rule count_filter)

lemma detail_ok_expire: "detail_ok now s \<Longrightarrow> now \<le> now' \<Longrightarrow> detail_ok now' (expire now' (fst s), snd s)"
  unfolding detail_ok_def
  by (auto simp: map_of_expire distinct_expire intro: order_trans [OF count_expire])

lemma map_of_forget:
  "\<not> host_key h key \<Longrightarrow> map_of (forgetHost h out) key = map_of out key"
  unfolding forgetHost_def by (induction out) auto

lemma distinct_forget: "distinct (map fst out) \<Longrightarrow> distinct (map fst (forgetHost h out))"
  unfolding forgetHost_def by (rule distinct_map_filter)

lemma count_forget: "countForHost h (forgetHost h' out) \<le> countForHost h out"
  unfolding forgetHost_def by (rule count_filter)

lemma detail_ok_gone: "detail_ok now s \<Longrightarrow> detail_ok now (forgetHost h (fst s), AgentGone h # snd s)"
  unfolding detail_ok_def
  by (auto simp: map_of_forget distinct_forget intro: order_trans [OF count_forget])

lemma count_update:
  "countForHost h (AList.update key e out) \<le> countForHost h out + (if host_key h key then 1 else 0)"
  unfolding countForHost_def by (induction out) auto

lemma detail_ok_asked:
  assumes ok: "detail_ok now (out, es)" and free: "map_of out key = None"
    and cap: "\<And>h. KEY_SEPARATOR \<notin> set h \<Longrightarrow> host_key h key \<Longrightarrow> countForHost h out < DETAIL_REQUEST_CAP"
  shows "detail_ok now (AList.update key (now + DETAIL_REQUEST_TTL_MS) out, Asked key now # es)"
proof -
  have "\<not> now < t + DETAIL_REQUEST_TTL_MS" if "last_asked key es = Some t" for t
    using ok free that by (auto simp: detail_ok_def)
  then have "spaced (Asked key now # es)" using ok by (auto simp: detail_ok_def split: option.splits)
  moreover have "countForHost h (AList.update key e out) \<le> DETAIL_REQUEST_CAP" if "KEY_SEPARATOR \<notin> set h" for h e
    using count_update [of h key e out] cap [OF that] ok that by (fastforce simp: detail_ok_def split: if_splits)
  ultimately show ?thesis using ok by (simp add: detail_ok_def)
qed

lemma click_ok:
  assumes ok: "detail_ok now0 s" and le: "now0 \<le> now" and host: "KEY_SEPARATOR \<notin> set hostId"
  shows "detail_ok now (click accepts reg hostId repoPath req now s)"
proof -
  let ?out = "expire now (fst s)" and ?key = "outstandingKey hostId repoPath req"
  have ex: "detail_ok now (?out, snd s)" by (rule detail_ok_expire [OF ok le])
  show ?thesis
  proof (cases "map_of ?out ?key = None \<and> isConnected reg hostId \<and> countForHost hostId ?out < DETAIL_REQUEST_CAP")
    case True
    then obtain c where c: "map_of (r_conns reg) hostId = Some c" by (auto simp: isConnected_def)
    have "detail_ok now (AList.update ?key (now + DETAIL_REQUEST_TTL_MS) ?out, Asked ?key now # snd s)"
      using True host by (intro detail_ok_asked [OF ex]) (auto simp: host_key_outstanding)
    then show ?thesis using True ex c
      by (cases "accepts (k_socket c) (frameFor repoPath req)") (auto simp: click_def request_def sendToHost_def Let_def)
  qed (use ex in \<open>auto simp: click_def request_def Let_def\<close>)
qed

text \<open>What holds of the subscriber's state through every event holds through every registry operation.\<close>

lemma emit_inv:
  assumes "\<And>f reg ev w. f \<in> set (hub_handlers hub) \<Longrightarrow> P w \<Longrightarrow> P (f reg ev w)" and "P w"
  shows "P (emit_event hub reg ev w)"
proof -
  have "P (foldl (\<lambda>w f. f reg ev w) w fs)" if "set fs \<subseteq> set (hub_handlers hub)" for fs
    using that assms(2) by (induction fs arbitrary: w) (auto intro: assms(1))
  then show ?thesis by (simp add: emit_event_def)
qed

lemma registry_step_subscriber:
  assumes h: "\<And>f reg ev w. f \<in> set (hub_handlers hub) \<Longrightarrow> P w \<Longrightarrow> P (f reg ev w)"
    and c: "\<And>k st r w. P w \<Longrightarrow> P (hub_close hub k st r w)"
  shows "P (snd s) \<Longrightarrow> P (snd (registry_step hub s op))"
proof -
  assume s: "P (snd s)"
  have e: "P w \<Longrightarrow> P (emit_event hub reg ev w)" for reg ev w
    using emit_inv [of hub P] h by blast
  have close: "P (snd s) \<Longrightarrow> P (snd (snd (closeHost hub h st r s)))" for h st r s
    by (auto simp: closeHost_def Let_def intro!: e c split: option.splits)
  have closes: "P (snd s) \<Longrightarrow> P (snd (foldl (\<lambda>s h. snd (closeHost hub h st r s)) s hs))" for hs st r s
  proof (induction hs arbitrary: s)
    case (Cons h hs)
    then show ?case using Cons.IH [of "snd (closeHost hub h st r s)"] close by simp
  qed simp
  show ?thesis
    using s by (cases op) (auto simp: register_def unregister_def setTerminalAbility_def closeForToken_def Let_def
        intro!: e c close closes split: option.splits)
qed

lemma registry_keeps: "detail_ok now (snd s) \<Longrightarrow> detail_ok now (snd (registry_step detail_hub s op))"
proof (rule registry_step_subscriber)
  fix f reg ev w
  assume "f \<in> set (hub_handlers detail_hub)" and ok: "detail_ok now w"
  then show "detail_ok now (f reg ev w)"
    by (cases ev) (auto simp: detail_hub_def on_disconnect_def detail_ok_gone)
qed (simp_all add: detail_hub_def)

text \<open>Clicks whose times do not run backwards, about hosts whose ids hold no separator.\<close>

fun clicks_in_order :: "int \<Rightarrow> detail_input list \<Rightarrow> bool" where
  "clicks_in_order t [] = True"
| "clicks_in_order t (RegistryDoes op # is) = clicks_in_order t is"
| "clicks_in_order t (Click hostId repoPath req now # is) \<longleftrightarrow>
     t \<le> now \<and> KEY_SEPARATOR \<notin> set hostId \<and> clicks_in_order now is"

lemma detail_run_ok:
  "clicks_in_order t is \<Longrightarrow> detail_ok t (snd s) \<Longrightarrow> \<exists>t'. detail_ok t' (snd (run (detail_step accepts) s is))"
proof (induction t "is" arbitrary: s rule: clicks_in_order.induct)
  case (2 t op "is")
  have "detail_ok t (snd (detail_step accepts s (RegistryDoes op)))"
    using registry_keeps [OF 2(3), of op] by (cases s) simp
  then show ?case using 2 by simp
next
  case (3 t hostId repoPath req now "is")
  then have "detail_ok now (snd (detail_step accepts s (Click hostId repoPath req now)))"
    using click_ok [of t "snd s" now hostId accepts "fst s" repoPath req] by (cases s) simp
  then show ?case using 3 by simp
qed auto

text \<open>
  C29 (\<open>one_request_per_window\<close>): however often browsers ask, and whatever agents come and go, two
  frames sent for the same commit, tree or file lie at least the 30 second window apart unless the
  host's agent went away between them, and no host ever has more than 50 requests outstanding.
\<close>

theorem one_request_per_window:
  assumes "clicks_in_order t is"
  shows "spaced (snd (snd (run (detail_step accepts) (reg, [], []) is)))
    \<and> (KEY_SEPARATOR \<notin> set h \<longrightarrow> countForHost h (fst (snd (run (detail_step accepts) (reg, [], []) is))) \<le> DETAIL_REQUEST_CAP)"
proof -
  have "detail_ok t (snd (reg, [], []))" by (simp add: detail_ok_def countForHost_def)
  from detail_run_ok [OF assms this, of accepts] show ?thesis by (auto simp: detail_ok_def)
qed

theorem one_request_per_window_witness:
  "snd (snd (run (detail_step (\<lambda>_ _. True)) (no_registry, [], [])
     [RegistryDoes (Register ''h'' 1 ''t''), Click ''h'' ''r'' (TreeRequest ''a'') 0,
      Click ''h'' ''r'' (TreeRequest ''a'') 29999, Click ''h'' ''r'' (TreeRequest ''a'') 30000])) =
     [Asked (outstandingKey ''h'' ''r'' (TreeRequest ''a'')) 30000, Asked (outstandingKey ''h'' ''r'' (TreeRequest ''a'')) 0]
   \<and> spaced (snd (snd (run (detail_step (\<lambda>_ _. True)) (no_registry, [], []) [Click ''h'' ''r'' (TreeRequest ''a'') 0])))"
proof (rule conjI)
  have "clicks_in_order 0 [Click ''h'' ''r'' (TreeRequest ''a'') 0]" by (simp add: KEY_SEPARATOR_def)
  then show "spaced (snd (snd (run (detail_step (\<lambda>_ _. True)) (no_registry, [], []) [Click ''h'' ''r'' (TreeRequest ''a'') 0])))"
    using one_request_per_window [of 0 "[Click ''h'' ''r'' (TreeRequest ''a'') 0]"] by blast
qed code_simp

text \<open>An unanswered request is asked again once its window is over.\<close>

lemma asked_again:
  assumes "map_of (expire now (fst s)) (outstandingKey hostId repoPath req) = None"
    and "isConnected reg hostId" and "countForHost hostId (expire now (fst s)) < DETAIL_REQUEST_CAP" and "\<And>k f. accepts k f"
  shows "snd (click accepts reg hostId repoPath req now s) = Asked (outstandingKey hostId repoPath req) now # snd s"
  using assms by (auto simp: click_def request_def sendToHost_def isConnected_def Let_def)

text \<open>Different questions have different keys.\<close>

definition request_parts :: "git_request \<Rightarrow> string list" where
  "request_parts req = request_kind req # request_sha req # (case req of BlobRequest _ path \<Rightarrow> [path] | _ \<Rightarrow> [])"

lemma request_parts_inject: "request_parts q = request_parts r \<Longrightarrow> q = r"
  by (cases q; cases r) (simp_all add: request_parts_def)

lemma outstandingKey_join: "outstandingKey host repo req = js_join [KEY_SEPARATOR] (host # repo # request_parts req)"
  by (simp add: outstandingKey_def request_parts_def split: git_request.splits)

lemma outstandingKey_inject:
  assumes "list_all (\<lambda>s. KEY_SEPARATOR \<notin> set s) (host # repo # request_parts req)"
    and "list_all (\<lambda>s. KEY_SEPARATOR \<notin> set s) (host' # repo' # request_parts req')"
  shows "outstandingKey host repo req = outstandingKey host' repo' req' \<longleftrightarrow> host = host' \<and> repo = repo' \<and> req = req'"
proof
  assume "outstandingKey host repo req = outstandingKey host' repo' req'"
  then have "js_split KEY_SEPARATOR (outstandingKey host repo req) = js_split KEY_SEPARATOR (outstandingKey host' repo' req')"
    by simp
  then have "host # repo # request_parts req = host' # repo' # request_parts req'"
    unfolding outstandingKey_join using assms by (simp only: js_split_join list_all_iff list.simps simp_thms)
  then show "host = host' \<and> repo = repo' \<and> req = req'" using request_parts_inject by blast
qed simp

end
