(* ===== verification/Jobs.thy ===== *)
theory Jobs
  imports Ordering Machines "HOL-Library.AList"
begin

text \<open>
  \<^verbatim>\<open>apps/api/src/jobs-local/local-job.queue.ts\<close>: the job queue kept in one database table, its workers and
  its schedules. The table is a list of rows in the order they were inserted. The order the
  database gives texts (\<open>lc\<close>), the next time of a cron expression (\<open>cron\<close>), the random id of a job,
  the outcome of a handler and the
  package's checks of a schedule are arguments; times are epoch milliseconds. Of rows added in the same
  millisecond the one added first is taken first, which the query leaves open.
\<close>

declare map_of_eq_Some_iff [simp del] Some_eq_map_of_iff [simp del]

section \<open>The table\<close>

datatype job_status = Waiting | Active | Completed | Failed

record job_row =
  j_id :: string
  j_name :: string
  j_payload :: string
  j_status :: job_status
  j_attempts :: int
  j_max :: int
  j_available :: int
  j_created :: int
  j_updated :: int
  j_error :: "string option"

record enqueue_options =
  eo_key :: "string option"
  eo_attempts :: "jsnum option"
  eo_delay :: "jsnum option"

datatype job_error = PayloadNotJson | BadAttempts | BadDelay | HandlerExists string | BadSchedule

definition is_safe_integer :: "jsnum \<Rightarrow> bool" where
  "is_safe_integer x = (is_integer x \<and> \<bar>int_of x\<bar> < 2 ^ 53)"

text \<open>\<open>INSERT ... ON CONFLICT DO NOTHING\<close>.\<close>

definition insert_row :: "job_row \<Rightarrow> job_row list \<Rightarrow> job_row list" where
  "insert_row r rows = (if j_id r \<in> set (map j_id rows) then rows else rows @ [r])"

definition job_id :: "string \<Rightarrow> enqueue_options \<Rightarrow> string \<Rightarrow> string" where
  "job_id name opts random = (if truthy (eo_key opts) then name @ CHR '':'' # the (eo_key opts) else random)"

definition enqueue ::
    "int \<Rightarrow> string \<Rightarrow> string \<Rightarrow> string option \<Rightarrow> enqueue_options \<Rightarrow> job_row list \<Rightarrow> job_error + (job_row list \<times> string)" where
  "enqueue now random name encoded opts rows =
     (case encoded of
        None \<Rightarrow> Inl PayloadNotJson
      | Some payload \<Rightarrow>
          let key = job_id name opts random;
              attempts = (case eo_attempts opts of Some n \<Rightarrow> n | None \<Rightarrow> Fin 1);
              delayMs = (case eo_delay opts of Some n \<Rightarrow> n | None \<Rightarrow> Fin 0)
          in if \<not> is_safe_integer attempts \<or> int_of attempts < 1 then Inl BadAttempts
             else if \<not> is_safe_integer delayMs \<or> int_of delayMs < 0 then Inl BadDelay
             else Inr (insert_row \<lparr>j_id = key, j_name = name, j_payload = payload, j_status = Waiting, j_attempts = 0,
                    j_max = int_of attempts, j_available = now + int_of delayMs, j_created = now, j_updated = now,
                    j_error = None\<rparr> rows, key))"

record job_snapshot =
  js_id :: string
  js_name :: string
  js_status :: job_status
  js_attempts :: int
  js_created :: int
  js_updated :: int
  js_error :: "string option"

definition snapshot :: "job_row \<Rightarrow> job_snapshot" where
  "snapshot r = \<lparr>js_id = j_id r, js_name = j_name r, js_status = j_status r, js_attempts = j_attempts r,
     js_created = j_created r, js_updated = j_updated r,
     js_error = (if truthy (j_error r) then j_error r else None)\<rparr>"

definition get_job :: "string \<Rightarrow> job_row list \<Rightarrow> job_snapshot option" where
  "get_job key rows = map_option snapshot (List.find (\<lambda>r. j_id r = key) rows)"

text \<open>\<open>UPDATE ... WHERE "id" = \<dots>\<close>.\<close>

definition update_row :: "string \<Rightarrow> (job_row \<Rightarrow> job_row) \<Rightarrow> job_row list \<Rightarrow> job_row list" where
  "update_row key f rows = map (\<lambda>r. if j_id r = key then f r else r) rows"

section \<open>Schedules\<close>

datatype repeat_options = EveryMs int | Cron string "string option"

record schedule_entry =
  sc_id :: string
  sc_name :: string
  sc_payload :: string
  sc_repeat :: repeat_options
  sc_keepCompleted :: nat
  sc_keepFailed :: nat

definition SCHEDULE_KEY :: string where "SCHEDULE_KEY = ''schedule:''"

definition MAX_TIMER_DELAY_MS :: int where "MAX_TIMER_DELAY_MS = 2 ^ 31 - 1"

fun nextScheduledTime :: "(string \<Rightarrow> string \<Rightarrow> int \<Rightarrow> int) \<Rightarrow> repeat_options \<Rightarrow> int \<Rightarrow> int" where
  "nextScheduledTime cron (EveryMs every) after = (after div every + 1) * every"
| "nextScheduledTime cron (Cron expr zone) after =
     cron expr (case zone of Some z \<Rightarrow> z | None \<Rightarrow> ''UTC'') after"

text \<open>One wait of \<open>waitUntil\<close>: the first timer, and what each firing does.\<close>

definition first_wait :: "int \<Rightarrow> int \<Rightarrow> int" where
  "first_wait at_ms now = max 0 (min (at_ms - now) MAX_TIMER_DELAY_MS)"

datatype wait_result = RunTask | WaitMore int

definition wait_step :: "int \<Rightarrow> int \<Rightarrow> wait_result" where
  "wait_step at_ms now =
     (let remaining = at_ms - now in if remaining \<le> 0 then RunTask else WaitMore (min remaining MAX_TIMER_DELAY_MS))"

definition schedule_prefix :: "schedule_entry \<Rightarrow> string" where
  "schedule_prefix s = sc_name s @ CHR '':'' # SCHEDULE_KEY @ sc_id s @ '':''"

definition scheduled_as :: "schedule_entry \<Rightarrow> job_row \<Rightarrow> bool" where
  "scheduled_as s r =
     (let tail = drop (length (schedule_prefix s)) (j_id r) in
      sc_name s = j_name r \<and> starts_with (j_id r) (schedule_prefix s) \<and> tail \<noteq> [] \<and> list_all is_digit tail)"

definition scheduleOf :: "(string \<times> schedule_entry) list \<Rightarrow> job_row \<Rightarrow> schedule_entry option" where
  "scheduleOf schedules r = List.find (\<lambda>s. scheduled_as s r) (map snd schedules)"

text \<open>The newest finished rows: \<open>ORDER BY "updatedAt" DESC, "id" DESC\<close>.\<close>

definition newest_first :: "string cmp \<Rightarrow> job_row cmp" where
  "newest_first lc = then_by (\<lambda>a b. j_updated b - j_updated a) (\<lambda>a b. lc (j_id b) (j_id a))"

definition same_kind :: "job_row \<Rightarrow> job_status \<Rightarrow> job_row \<Rightarrow> bool" where
  "same_kind r status q = (j_name q = j_name r \<and> j_status q = status)"

definition trim_finished :: "string cmp \<Rightarrow> job_row \<Rightarrow> job_status \<Rightarrow> nat \<Rightarrow> job_row list \<Rightarrow> job_row list" where
  "trim_finished lc r status keep rows =
     (let kept = map j_id (take keep (js_sort (newest_first lc) (filter (same_kind r status) rows))) in
      filter (\<lambda>q. \<not> (same_kind r status q \<and> j_id q \<notin> set kept)) rows)"

definition removeFinished ::
    "string cmp \<Rightarrow> (string \<times> schedule_entry) list \<Rightarrow> job_row \<Rightarrow> job_status \<Rightarrow> job_row list \<Rightarrow> job_row list" where
  "removeFinished lc schedules r status rows =
     (case scheduleOf schedules r of
        None \<Rightarrow> rows
      | Some s \<Rightarrow>
          let keep = (if status = Completed then sc_keepCompleted s else sc_keepFailed s) in
          if keep = 0 then filter (\<lambda>q. j_id q \<noteq> j_id r) rows
          else trim_finished lc r status keep rows)"

section \<open>Running a job\<close>

text \<open>The waiting row that has waited longest, of those whose time has come.\<close>

definition claimable :: "int \<Rightarrow> job_row \<Rightarrow> bool" where
  "claimable now r = (j_status r = Waiting \<and> j_available r \<le> now)"

definition next_row :: "int \<Rightarrow> job_row list \<Rightarrow> job_row option" where
  "next_row now rows = (case js_sort (by_key j_created) (filter (claimable now) rows) of [] \<Rightarrow> None | r # _ \<Rightarrow> Some r)"

definition claim_row :: "int \<Rightarrow> job_row list \<Rightarrow> job_row list \<times> job_row option" where
  "claim_row now rows =
     (case next_row now rows of
        None \<Rightarrow> (rows, None)
      | Some r \<Rightarrow>
          let taken = r\<lparr>j_status := Active, j_attempts := j_attempts r + 1, j_updated := now\<rparr>
          in (update_row (j_id r) (\<lambda>_. taken) rows, Some taken))"

definition complete ::
    "string cmp \<Rightarrow> (string \<times> schedule_entry) list \<Rightarrow> int \<Rightarrow> job_row \<Rightarrow> job_row list \<Rightarrow> job_row list" where
  "complete lc schedules now r rows =
     removeFinished lc schedules r Completed
       (update_row (j_id r) (\<lambda>q. q\<lparr>j_status := Completed, j_updated := now, j_error := None\<rparr>) rows)"

definition fail_row ::
    "string cmp \<Rightarrow> int \<Rightarrow> (string \<times> schedule_entry) list \<Rightarrow> int \<Rightarrow> job_row \<Rightarrow> string \<Rightarrow> job_row list \<Rightarrow> job_row list" where
  "fail_row lc pollIntervalMs schedules now r message rows =
     (let retry = (j_attempts r < j_max r);
          rows' = update_row (j_id r) (\<lambda>q. q\<lparr>j_status := (if retry then Waiting else Failed),
                    j_available := (if retry then now + pollIntervalMs else now), j_updated := now,
                    j_error := Some (take 2000 message)\<rparr>) rows
      in if \<not> retry then removeFinished lc schedules r Failed rows' else rows')"

datatype job_outcome = HandlerDone | HandlerThrew string

definition no_handler :: "job_row \<Rightarrow> string" where
  "no_handler r = ''No handler is registered for job '' @ j_name r"

section \<open>The queue\<close>

text \<open>
  \<open>q_running\<close> are the rows some worker took and has not settled, each with whether a handler was
  there for it; \<open>q_armed\<close> are the schedules whose timer runs, with the time it waits for.
\<close>

record queue =
  q_rows :: "job_row list"
  q_running :: "(job_row \<times> bool) list"
  q_handlers :: "string list"
  q_schedules :: "(string \<times> schedule_entry) list"
  q_armed :: "(string \<times> int) list"
  q_started :: bool

definition empty_queue :: queue where
  "empty_queue = \<lparr>q_rows = [], q_running = [], q_handlers = [], q_schedules = [], q_armed = [], q_started = False\<rparr>"

record queue_env =
  env_lc :: "string cmp"
  env_cron :: "string \<Rightarrow> string \<Rightarrow> int \<Rightarrow> int"
  env_poll :: int
  env_valid :: "schedule_entry \<Rightarrow> bool"

definition arm :: "queue_env \<Rightarrow> schedule_entry \<Rightarrow> int \<Rightarrow> queue \<Rightarrow> queue" where
  "arm env s after q =
     q\<lparr>q_armed := AList.update (sc_id s) (nextScheduledTime (env_cron env) (sc_repeat s) after) (q_armed q)\<rparr>"

definition start_queue :: "queue_env \<Rightarrow> int \<Rightarrow> queue \<Rightarrow> queue" where
  "start_queue env now q =
     (if q_started q then q
      else foldl (\<lambda>q s. arm env s now q) (q\<lparr>q_started := True\<rparr>) (map snd (q_schedules q)))"

definition close_queue :: "queue \<Rightarrow> queue" where
  "close_queue q = q\<lparr>q_started := False, q_armed := [], q_handlers := []\<rparr>"

definition schedule_job ::
    "queue_env \<Rightarrow> int \<Rightarrow> schedule_entry \<Rightarrow> string option \<Rightarrow> queue \<Rightarrow> job_error + queue" where
  "schedule_job env now given encoded q =
     (if \<not> env_valid env given then Inl BadSchedule
      else case encoded of
          None \<Rightarrow> Inl PayloadNotJson
        | Some payload \<Rightarrow>
            let s = given\<lparr>sc_payload := payload\<rparr>;
                q1 = q\<lparr>q_schedules := AList.update (sc_id s) s (q_schedules q), q_armed := AList.delete (sc_id s) (q_armed q)\<rparr>
            in Inr (if q_started q then arm env s now q1 else q1))"

definition unschedule :: "string \<Rightarrow> queue \<Rightarrow> queue" where
  "unschedule key q = q\<lparr>q_schedules := AList.delete key (q_schedules q), q_armed := AList.delete key (q_armed q)\<rparr>"

definition enqueue_job ::
    "int \<Rightarrow> string \<Rightarrow> string \<Rightarrow> string option \<Rightarrow> enqueue_options \<Rightarrow> queue \<Rightarrow> queue" where
  "enqueue_job now random name encoded opts q =
     (case enqueue now random name encoded opts (q_rows q) of
        Inl _ \<Rightarrow> q | Inr (rows, _) \<Rightarrow> q\<lparr>q_rows := rows\<rparr>)"

text \<open>A timer whose time has come: the schedule's job for that time, and the next timer.\<close>

definition schedule_options :: "string \<Rightarrow> int \<Rightarrow> enqueue_options" where
  "schedule_options key at_ms =
     \<lparr>eo_key = Some (SCHEDULE_KEY @ key @ CHR '':'' # num_String (Fin (of_int at_ms))), eo_attempts = None, eo_delay = None\<rparr>"

definition fire :: "queue_env \<Rightarrow> string \<Rightarrow> int \<Rightarrow> queue \<Rightarrow> queue" where
  "fire env key now q =
     (case map_of (q_armed q) key of
        None \<Rightarrow> q
      | Some at_ms \<Rightarrow>
          if wait_step at_ms now \<noteq> RunTask then q
          else case map_of (q_schedules q) key of
              None \<Rightarrow> q\<lparr>q_armed := AList.delete key (q_armed q)\<rparr>
            | Some s \<Rightarrow>
                if \<not> q_started q then q\<lparr>q_armed := AList.delete key (q_armed q)\<rparr>
                else arm env s (max now at_ms)
                  (enqueue_job now [] (sc_name s) (Some (sc_payload s)) (schedule_options key at_ms) q))"

definition process_jobs :: "string \<Rightarrow> queue \<Rightarrow> job_error + queue" where
  "process_jobs name q =
     (if name \<in> set (q_handlers q) then Inl (HandlerExists name) else Inr (q\<lparr>q_handlers := q_handlers q @ [name]\<rparr>))"

definition stop_processing :: "string \<Rightarrow> queue \<Rightarrow> queue" where
  "stop_processing name q = q\<lparr>q_handlers := removeAll name (q_handlers q)\<rparr>"

text \<open>\<open>runOnce\<close> in its two halves: a row is taken, and its handler returns or throws.\<close>

definition take_job :: "int \<Rightarrow> queue \<Rightarrow> queue" where
  "take_job now q =
     (case claim_row now (q_rows q) of
        (rows, None) \<Rightarrow> q
      | (rows, Some r) \<Rightarrow> q\<lparr>q_rows := rows, q_running := q_running q @ [(r, j_name r \<in> set (q_handlers q))]\<rparr>)"

definition settle :: "queue_env \<Rightarrow> string \<Rightarrow> job_outcome \<Rightarrow> int \<Rightarrow> queue \<Rightarrow> queue" where
  "settle env key outcome now q =
     (case List.find (\<lambda>(r, _). j_id r = key) (q_running q) of
        None \<Rightarrow> q
      | Some (r, handled) \<Rightarrow>
          let q1 = q\<lparr>q_running := filter (\<lambda>(r, _). j_id r \<noteq> key) (q_running q)\<rparr>;
              failed = (\<lambda>message. q1\<lparr>q_rows := fail_row (env_lc env) (env_poll env) (q_schedules q) now r message (q_rows q)\<rparr>)
          in if \<not> handled then failed (no_handler r)
             else case outcome of
                 HandlerThrew message \<Rightarrow> failed message
               | HandlerDone \<Rightarrow> q1\<lparr>q_rows := complete (env_lc env) (q_schedules q) now r (q_rows q)\<rparr>)"

text \<open>The process ends: the table stays.\<close>

definition crash :: "queue \<Rightarrow> queue" where
  "crash q = empty_queue\<lparr>q_rows := q_rows q\<rparr>"

datatype queue_input =
    Start int
  | Close
  | AddSchedule int schedule_entry "string option"
  | Unschedule string
  | Fire string int
  | Enqueue int string string "string option" enqueue_options
  | Process string
  | StopProcessing string
  | TakeJob int
  | Settle string job_outcome int
  | Crash

fun queue_step :: "queue_env \<Rightarrow> queue \<Rightarrow> queue_input \<Rightarrow> queue" where
  "queue_step env q (Start now) = start_queue env now q"
| "queue_step env q Close = close_queue q"
| "queue_step env q (AddSchedule now s encoded) = (case schedule_job env now s encoded q of Inl _ \<Rightarrow> q | Inr q' \<Rightarrow> q')"
| "queue_step env q (Unschedule key) = unschedule key q"
| "queue_step env q (Fire key now) = fire env key now q"
| "queue_step env q (Enqueue now random name encoded opts) = enqueue_job now random name encoded opts q"
| "queue_step env q (Process name) = (case process_jobs name q of Inl _ \<Rightarrow> q | Inr q' \<Rightarrow> q')"
| "queue_step env q (StopProcessing name) = stop_processing name q"
| "queue_step env q (TakeJob now) = take_job now q"
| "queue_step env q (Settle key outcome now) = settle env key outcome now q"
| "queue_step env q Crash = crash q"

section \<open>The invariant\<close>

definition row_sane :: "job_row \<Rightarrow> bool" where
  "row_sane r \<longleftrightarrow> 0 \<le> j_attempts r \<and> 1 \<le> j_max r \<and> j_attempts r \<le> j_max r
     \<and> (j_status r = Waiting \<longrightarrow> j_attempts r < j_max r) \<and> (j_status r = Active \<longrightarrow> 1 \<le> j_attempts r)
     \<and> (j_status r = Failed \<longrightarrow> j_attempts r = j_max r)"

definition table_ok :: "job_row list \<Rightarrow> bool" where
  "table_ok rows \<longleftrightarrow> distinct (map j_id rows) \<and> (\<forall>r \<in> set rows. row_sane r)"

definition queue_ok :: "queue \<Rightarrow> bool" where
  "queue_ok q \<longleftrightarrow> table_ok (q_rows q)
     \<and> distinct (map (j_id \<circ> fst) (q_running q))
     \<and> (\<forall>(r, _) \<in> set (q_running q). r \<in> set (q_rows q) \<and> j_status r = Active)"

subsection \<open>What each statement does to the table\<close>

lemma update_row_ids: "(\<And>r. j_id (f r) = j_id r) \<Longrightarrow> map j_id (update_row key f rows) = map j_id rows"
  by (simp add: update_row_def)

lemma update_row_other: "r \<in> set rows \<Longrightarrow> j_id r \<noteq> key \<Longrightarrow> r \<in> set (update_row key f rows)"
  by (force simp: update_row_def image_iff)

lemma update_row_ok:
  assumes "table_ok rows" and "\<And>r. r \<in> set rows \<Longrightarrow> j_id r = key \<Longrightarrow> row_sane (f r)"
    and "\<And>r. r \<in> set rows \<Longrightarrow> j_id r = key \<Longrightarrow> j_id (f r) = key"
  shows "table_ok (update_row key f rows)"
proof -
  have "map j_id (update_row key f rows) = map j_id rows" using assms(3) by (simp add: update_row_def)
  moreover have "row_sane r" if "r \<in> set (update_row key f rows)" for r
    using that assms(1,2) by (auto simp: update_row_def table_ok_def)
  ultimately show ?thesis using assms(1) by (simp add: table_ok_def)
qed

lemma filter_ok: "table_ok rows \<Longrightarrow> table_ok (filter P rows)"
  by (simp add: table_ok_def distinct_map_filter)

lemma row_unique: "table_ok rows \<Longrightarrow> r \<in> set rows \<Longrightarrow> q \<in> set rows \<Longrightarrow> j_id r = j_id q \<Longrightarrow> r = q"
  by (auto simp: table_ok_def distinct_map dest: inj_onD)

lemma removeFinished_filter:
  obtains P where "removeFinished lc schedules r status rows = filter P rows"
    and "\<And>q. j_id q \<noteq> j_id r \<Longrightarrow> j_status q \<noteq> status \<Longrightarrow> P q"
proof (cases "scheduleOf schedules r")
  case None
  show thesis by (rule that [of "\<lambda>_. True"]) (simp_all add: removeFinished_def None)
next
  case (Some s)
  define keep where "keep = (if status = Completed then sc_keepCompleted s else sc_keepFailed s)"
  show thesis
  proof (cases "keep = 0")
    case True
    show thesis
      by (rule that [of "\<lambda>q. j_id q \<noteq> j_id r"]) (use True in \<open>simp_all add: removeFinished_def Some keep_def\<close>)
  next
    case False
    show thesis
    proof (rule that)
      show "removeFinished lc schedules r status rows = filter (\<lambda>q. \<not> (same_kind r status q
          \<and> j_id q \<notin> set (map j_id (take keep (js_sort (newest_first lc) (filter (same_kind r status) rows)))))) rows"
        using False by (simp add: removeFinished_def Some Let_def trim_finished_def flip: keep_def)
    qed (simp add: same_kind_def)
  qed
qed

lemma removeFinished_ok: "table_ok rows \<Longrightarrow> table_ok (removeFinished lc schedules r status rows)"
  by (rule removeFinished_filter [of lc schedules r status rows]) (simp add: filter_ok)

lemma removeFinished_keeps:
  "q \<in> set rows \<Longrightarrow> j_id q \<noteq> j_id r \<Longrightarrow> j_status q \<noteq> status \<Longrightarrow> q \<in> set (removeFinished lc schedules r status rows)"
  by (rule removeFinished_filter [of lc schedules r status rows]) simp

lemma next_row_claimable: "next_row now rows = Some r \<Longrightarrow> r \<in> set rows \<and> claimable now r"
proof -
  assume a: "next_row now rows = Some r"
  let ?xs = "js_sort (by_key j_created) (filter (claimable now) rows)"
  from a obtain xs where "?xs = r # xs" by (auto simp: next_row_def split: list.splits)
  then have "r \<in> set ?xs" by (metis list.set_intros(1))
  then show ?thesis by simp
qed

text \<open>Settling a row: the table stays sound, and the other rows that run stay.\<close>

lemma complete_ok:
  assumes "table_ok rows" "r \<in> set rows" "j_status r = Active"
  shows "table_ok (complete lc schedules now r rows)"
proof -
  have "row_sane r" using assms by (simp add: table_ok_def)
  then have "row_sane (q\<lparr>j_status := Completed, j_updated := now, j_error := None\<rparr>)" if "q \<in> set rows" "j_id q = j_id r" for q
    using row_unique [OF assms(1) that(1) assms(2) that(2)] by (auto simp: row_sane_def)
  then show ?thesis unfolding complete_def by (intro removeFinished_ok update_row_ok assms) auto
qed

lemma fail_row_ok:
  assumes "table_ok rows" "r \<in> set rows" "j_status r = Active"
  shows "table_ok (fail_row lc poll schedules now r message rows)"
proof -
  define f where "f = (\<lambda>q :: job_row. q\<lparr>j_status := (if j_attempts r < j_max r then Waiting else Failed),
    j_available := (if j_attempts r < j_max r then now + poll else now), j_updated := now, j_error := Some (take 2000 message)\<rparr>)"
  have "row_sane r" using assms by (simp add: table_ok_def)
  then have "row_sane (f q)" if "q \<in> set rows" "j_id q = j_id r" for q
    using row_unique [OF assms(1) that(1) assms(2) that(2)] by (auto simp: row_sane_def f_def)
  then have "table_ok (update_row (j_id r) f rows)" by (rule update_row_ok [OF assms(1)]) (auto simp: f_def)
  then show ?thesis by (cases "j_attempts r < j_max r") (simp_all add: fail_row_def f_def removeFinished_ok)
qed

lemma complete_keeps:
  "q \<in> set rows \<Longrightarrow> j_id q \<noteq> j_id r \<Longrightarrow> j_status q = Active \<Longrightarrow> q \<in> set (complete lc schedules now r rows)"
  by (simp add: complete_def removeFinished_keeps update_row_other)

lemma fail_row_keeps:
  "q \<in> set rows \<Longrightarrow> j_id q \<noteq> j_id r \<Longrightarrow> j_status q = Active \<Longrightarrow> q \<in> set (fail_row lc poll schedules now r message rows)"
  by (simp add: fail_row_def Let_def removeFinished_keeps update_row_other)

lemma insert_row_keeps: "q \<in> set rows \<Longrightarrow> q \<in> set (insert_row r rows)"
  by (simp add: insert_row_def)

lemma enqueue_rows:
  assumes "enqueue now random name encoded opts rows = Inr (rows', key)"
  obtains r where "rows' = insert_row r rows" and "row_sane r"
  using assms by (auto simp: enqueue_def Let_def row_sane_def split: option.splits if_splits)

lemma insert_row_ok: "table_ok rows \<Longrightarrow> row_sane r \<Longrightarrow> table_ok (insert_row r rows)"
  by (auto simp: insert_row_def table_ok_def)

subsection \<open>Every step keeps the queue sound\<close>

lemma arm_rows [simp]: "q_rows (arm env s now q) = q_rows q" "q_running (arm env s now q) = q_running q"
  by (simp_all add: arm_def)

lemma arm_all_rows:
  "q_rows (foldl (\<lambda>q s. arm env s now q) q ss) = q_rows q"
  "q_running (foldl (\<lambda>q s. arm env s now q) q ss) = q_running q"
  by (induction ss arbitrary: q) simp_all

lemma queue_ok_cong:
  "queue_ok q \<Longrightarrow> q_rows q' = q_rows q \<Longrightarrow> q_running q' = q_running q \<Longrightarrow> queue_ok q'"
  by (simp add: queue_ok_def)

lemma enqueue_job_keeps: "q_running (enqueue_job now random name encoded opts q) = q_running q"
  by (simp add: enqueue_job_def split: sum.splits)

lemma queue_ok_enqueue: "queue_ok q \<Longrightarrow> queue_ok (enqueue_job now random name encoded opts q)"
proof (cases "enqueue now random name encoded opts (q_rows q)")
  case (Inl e)
  then show "queue_ok q \<Longrightarrow> ?thesis" by (simp add: enqueue_job_def)
next
  case (Inr p)
  then obtain rows key where p: "enqueue now random name encoded opts (q_rows q) = Inr (rows, key)" by (cases p) auto
  then obtain r where "rows = insert_row r (q_rows q)" "row_sane r" by (rule enqueue_rows)
  then show "queue_ok q \<Longrightarrow> ?thesis"
    using p by (auto simp: enqueue_job_def queue_ok_def insert_row_ok intro: insert_row_keeps)
qed

lemma queue_ok_fire: "queue_ok q \<Longrightarrow> queue_ok (fire env key now q)"
proof -
  assume ok: "queue_ok q"
  have disarmed: "queue_ok (q\<lparr>q_armed := AList.delete key (q_armed q)\<rparr>)" by (rule queue_ok_cong [OF ok]) simp_all
  have added: "queue_ok (arm env s t (enqueue_job now [] (sc_name s) (Some (sc_payload s)) opts q))" for s t opts
    by (rule queue_ok_cong [OF queue_ok_enqueue [OF ok]]) simp_all
  show ?thesis using ok disarmed added by (simp add: fire_def split: option.split)
qed

lemma queue_ok_take:
  assumes ok: "queue_ok q" shows "queue_ok (take_job now q)"
proof (cases "next_row now (q_rows q)")
  case None
  then show ?thesis using ok by (simp add: take_job_def claim_row_def)
next
  case (Some r)
  define t where "t = r\<lparr>j_status := Active, j_attempts := j_attempts r + 1, j_updated := now\<rparr>"
  have r: "r \<in> set (q_rows q)" "j_status r = Waiting" using next_row_claimable [OF Some] by (auto simp: claimable_def)
  have t: "row_sane t" "j_id t = j_id r" "j_status t = Active"
    using r ok by (auto simp: t_def row_sane_def queue_ok_def table_ok_def)
  have sane: "table_ok (update_row (j_id r) (\<lambda>_. t) (q_rows q))"
    using ok t by (intro update_row_ok) (simp_all add: queue_ok_def)
  have fresh: "j_id s \<noteq> j_id r" if "(s, b) \<in> set (q_running q)" for s b
    using that ok r row_unique [of "q_rows q" s r] by (auto simp: queue_ok_def)
  have mem: "t \<in> set (update_row (j_id r) (\<lambda>_. t) (q_rows q))"
    using r by (force simp: update_row_def)
  have "take_job now q = q\<lparr>q_rows := update_row (j_id r) (\<lambda>_. t) (q_rows q),
      q_running := q_running q @ [(t, j_name t \<in> set (q_handlers q))]\<rparr>"
    by (simp add: take_job_def claim_row_def Some t_def Let_def)
  moreover have "j_id t \<notin> set (map (j_id \<circ> fst) (q_running q))" using fresh t by fastforce
  ultimately show ?thesis using ok sane mem t fresh by (auto simp: queue_ok_def intro: update_row_other)
qed

lemma settle_ok:
  assumes ok: "queue_ok q" and r: "(r, b) \<in> set (q_running q)" and "table_ok rows"
    and "\<And>s. s \<in> set (q_rows q) \<Longrightarrow> j_id s \<noteq> j_id r \<Longrightarrow> j_status s = Active \<Longrightarrow> s \<in> set rows"
  shows "queue_ok (q\<lparr>q_running := filter (\<lambda>(s, _). j_id s \<noteq> j_id r) (q_running q), q_rows := rows\<rparr>)"
  using assms by (auto simp: queue_ok_def distinct_map_filter)

lemma queue_ok_settle:
  assumes ok: "queue_ok q" shows "queue_ok (settle env key outcome now q)"
proof (cases "List.find (\<lambda>(r, _). j_id r = key) (q_running q)")
  case None
  then show ?thesis using ok by (simp add: settle_def)
next
  case (Some p)
  then obtain r b where p: "p = (r, b)" and r: "(r, b) \<in> set (q_running q)" and key: "key = j_id r"
    using find_Some_in [OF Some] by (cases p) auto
  have row: "r \<in> set (q_rows q)" "j_status r = Active" "table_ok (q_rows q)" using ok r by (auto simp: queue_ok_def)
  note settled = settle_ok [OF ok r]
  have "queue_ok (q\<lparr>q_running := filter (\<lambda>(s, _). j_id s \<noteq> key) (q_running q),
      q_rows := fail_row (env_lc env) (env_poll env) (q_schedules q) now r message (q_rows q)\<rparr>)" for message
    unfolding key by (rule settled) (use row in \<open>auto intro: fail_row_ok fail_row_keeps\<close>)
  moreover have "queue_ok (q\<lparr>q_running := filter (\<lambda>(s, _). j_id s \<noteq> key) (q_running q),
      q_rows := complete (env_lc env) (q_schedules q) now r (q_rows q)\<rparr>)"
    unfolding key by (rule settled) (use row in \<open>auto intro: complete_ok complete_keeps\<close>)
  ultimately show ?thesis using Some p by (simp add: settle_def Let_def split: job_outcome.splits)
qed

lemma queue_ok_step: "queue_ok q \<Longrightarrow> queue_ok (queue_step env q e)"
proof (cases e)
  case (Start now)
  then show "queue_ok q \<Longrightarrow> ?thesis"
    by (auto simp: start_queue_def arm_all_rows elim!: queue_ok_cong)
next
  case (AddSchedule now s encoded)
  then show "queue_ok q \<Longrightarrow> ?thesis"
    by (auto simp: schedule_job_def Let_def split: option.split elim!: queue_ok_cong)
next
  case (Process name)
  then show "queue_ok q \<Longrightarrow> ?thesis" by (auto simp: process_jobs_def elim!: queue_ok_cong)
next
  case Crash
  then show "queue_ok q \<Longrightarrow> ?thesis" by (simp add: queue_ok_def crash_def empty_queue_def)
qed (auto simp: close_queue_def unschedule_def stop_processing_def queue_ok_fire
      queue_ok_enqueue queue_ok_take queue_ok_settle elim!: queue_ok_cong)

lemma queue_ok_empty: "queue_ok empty_queue"
  by (simp add: queue_ok_def empty_queue_def table_ok_def)

interpretation job_queue: invariant_machine "queue_step env" queue_ok for env
  by unfold_locales (rule queue_ok_step)

text \<open>
  C30 (\<open>jobs_run_within_their_attempts\<close>): whatever is enqueued, scheduled, taken, settled, stopped and
  restarted, and in whatever order, ids stay unique, no job is tried more often than it asks for,
  and a job is with at most one worker, whose row the table holds as active.
\<close>

theorem jobs_run_within_their_attempts:
  "let q = run (queue_step env) empty_queue es in
     distinct (map j_id (q_rows q))
     \<and> (\<forall>r \<in> set (q_rows q). j_attempts r \<le> j_max r \<and> (j_status r = Waiting \<longrightarrow> j_attempts r < j_max r))
     \<and> distinct (map (j_id \<circ> fst) (q_running q))
     \<and> (\<forall>(r, _) \<in> set (q_running q). r \<in> set (q_rows q) \<and> j_status r = Active)"
  using job_queue.run_inv [OF queue_ok_empty, of env es]
  by (auto simp: queue_ok_def table_ok_def row_sane_def)

definition example_env :: queue_env where
  "example_env = \<lparr>env_lc = str_cmp, env_cron = (\<lambda>_ _ t. t + 1), env_poll = 250, env_valid = (\<lambda>_. True)\<rparr>"

definition example_run :: "queue_input list" where
  "example_run = [Process ''demo'',
     Enqueue 1000 ''u1'' ''demo'' (Some ''{}'') \<lparr>eo_key = None, eo_attempts = Some (Fin 2), eo_delay = None\<rparr>,
     TakeJob 1000]"

lemma jobs_run_within_their_attempts_witness:
  "map (\<lambda>r. (j_id r, j_status r, j_attempts r)) (q_rows (run (queue_step example_env) empty_queue example_run))
     = [(''u1'', Active, 1)]
   \<and> distinct (map j_id (q_rows (run (queue_step example_env) empty_queue example_run)))"
  using jobs_run_within_their_attempts [of example_env example_run] by (simp add: Let_def) code_simp

subsection \<open>A job that runs when the process ends\<close>

definition lost :: "job_row \<Rightarrow> queue \<Rightarrow> bool" where
  "lost r q \<longleftrightarrow> r \<in> set (q_rows q) \<and> j_status r = Active \<and> j_id r \<notin> (j_id \<circ> fst) ` set (q_running q)"

lemma lost_cong: "lost r q \<Longrightarrow> q_rows q' = q_rows q \<Longrightarrow> q_running q' = q_running q \<Longrightarrow> lost r q'"
  by (simp add: lost_def)

lemma lost_enqueue: "lost r q \<Longrightarrow> lost r (enqueue_job now random name encoded opts q)"
  by (auto simp: lost_def enqueue_job_def insert_row_keeps split: sum.splits elim!: enqueue_rows)

lemma lost_fire:
  assumes "lost r q" shows "lost r (fire env key now q)"
proof -
  have "lost r (q\<lparr>q_armed := AList.delete key (q_armed q)\<rparr>)" by (rule lost_cong [OF assms]) simp_all
  moreover have "lost r (arm env s t (enqueue_job now [] (sc_name s) (Some (sc_payload s)) opts q))" for s t opts
    by (rule lost_cong [OF lost_enqueue [OF assms]]) simp_all
  ultimately show ?thesis using assms by (simp add: fire_def split: option.split)
qed

lemma lost_take:
  assumes ok: "queue_ok q" and lost: "lost r q" shows "lost r (take_job now q)"
proof (cases "next_row now (q_rows q)")
  case None
  then show ?thesis using lost by (simp add: take_job_def claim_row_def)
next
  case (Some s)
  have s: "s \<in> set (q_rows q)" "j_status s = Waiting" using next_row_claimable [OF Some] by (auto simp: claimable_def)
  then have "j_id r \<noteq> j_id s"
    using row_unique [of "q_rows q" r s] ok lost by (auto simp: lost_def queue_ok_def)
  then show ?thesis using lost by (simp add: take_job_def claim_row_def Some lost_def Let_def update_row_other)
qed

lemma lost_settle:
  assumes "lost r q" shows "lost r (settle env key outcome now q)"
proof (cases "List.find (\<lambda>(r, _). j_id r = key) (q_running q)")
  case None
  then show ?thesis using assms by (simp add: settle_def)
next
  case (Some p)
  then obtain s b where p: "p = (s, b)" and s: "(s, b) \<in> set (q_running q)" and key: "key = j_id s"
    using find_Some_in [OF Some] by (cases p) auto
  have "j_id r \<noteq> j_id s" using assms s by (force simp: lost_def)
  then show ?thesis using assms Some p
    by (auto simp: lost_def settle_def Let_def fail_row_keeps complete_keeps split: job_outcome.split)
qed

lemma lost_step: "queue_ok q \<Longrightarrow> lost r q \<Longrightarrow> lost r (queue_step env q e)"
proof (cases e)
  case (Start now)
  then show "lost r q \<Longrightarrow> ?thesis"
    by (auto simp: start_queue_def arm_all_rows elim!: lost_cong)
next
  case (AddSchedule now s encoded)
  then show "lost r q \<Longrightarrow> ?thesis"
    by (auto simp: schedule_job_def Let_def split: option.split elim!: lost_cong)
next
  case (Process name)
  then show "lost r q \<Longrightarrow> ?thesis" by (auto simp: process_jobs_def elim!: lost_cong)
next
  case Crash
  then show "lost r q \<Longrightarrow> ?thesis" by (simp add: lost_def crash_def empty_queue_def)
qed (auto simp: close_queue_def unschedule_def stop_processing_def lost_fire
      lost_enqueue lost_take lost_settle elim!: lost_cong)

text \<open>
  C31 (\<open>interrupted_job_is_never_retried\<close>): a job that a worker holds when the process ends keeps its
  active row, attempts and all, through everything a later process does: it is not taken again,
  whatever attempts it has left, not marked failed, and not trimmed.
\<close>

theorem interrupted_job_is_never_retried:
  assumes "(r, handled) \<in> set (q_running (run (queue_step env) empty_queue before))"
  shows "r \<in> set (q_rows (run (queue_step env) empty_queue (before @ [Crash] @ later))) \<and> j_status r = Active"
proof -
  let ?q = "run (queue_step env) empty_queue before"
  have ok: "queue_ok ?q" using job_queue.run_inv [OF queue_ok_empty] .
  have "lost r (crash ?q)" using assms ok by (auto simp: lost_def crash_def queue_ok_def empty_queue_def)
  moreover have "queue_ok (crash ?q)" using queue_ok_step [OF ok, of env Crash] by simp
  ultimately have "lost r (run (queue_step env) (crash ?q) later)"
    using job_queue.run_kept [of "lost r" env "crash ?q" later] lost_step by blast
  then show ?thesis by (simp add: lost_def)
qed

lemma interrupted_job_is_never_retried_witness:
  "let lost = \<lparr>j_id = ''u1'', j_name = ''demo'', j_payload = ''{}'', j_status = Active, j_attempts = 1, j_max = 2,
      j_available = 1000, j_created = 1000, j_updated = 1000, j_error = None\<rparr>
   in lost \<in> set (q_rows (run (queue_step example_env) empty_queue
        (example_run @ [Crash] @ [Start 2000, Process ''demo'', TakeJob 2000, TakeJob 90000])))"
  unfolding Let_def
  by (rule interrupted_job_is_never_retried [where handled = True, THEN conjunct1]) code_simp

section \<open>Retention and schedules\<close>

definition kept_first :: "'a cmp \<Rightarrow> 'a list \<Rightarrow> 'a list \<Rightarrow> bool" where
  "kept_first c kept all \<longleftrightarrow> (\<forall>k \<in> set kept. \<forall>d \<in> set all. d \<notin> set kept \<longrightarrow> c k d \<le> 0)"

lemma comparator_newest_first: "comparator lc \<Longrightarrow> comparator (newest_first lc)"
proof -
  assume lc: "comparator lc"
  have "comparator (\<lambda>(a :: job_row) b. j_updated b - j_updated a)"
    by unfold_locales (auto simp: sgn_if)
  moreover have "comparator (\<lambda>(a :: job_row) b. lc (j_id b) (j_id a))"
  proof
    fix a b c :: job_row
    show "sgn (lc (j_id b) (j_id a)) = - sgn (lc (j_id a) (j_id b))" by (rule comparator.cmp_antisym [OF lc])
    show "lc (j_id b) (j_id a) \<le> 0 \<Longrightarrow> lc (j_id c) (j_id b) \<le> 0 \<Longrightarrow> lc (j_id c) (j_id a) \<le> 0"
      using comparator.cmp_trans [OF lc] by blast
  qed
  ultimately show "comparator (newest_first lc)"
    unfolding newest_first_def by (intro comparator_then_by) simp_all
qed

lemma trim_finished_kept:
  fixes r :: job_row and status :: job_status
  assumes lc: "comparator lc" and ids: "distinct (map j_id rows)"
  defines "F \<equiv> filter (same_kind r status)"
  shows "length (F (trim_finished lc r status keep rows)) = min keep (length (F rows))"
    and "kept_first (newest_first lc) (F (trim_finished lc r status keep rows)) (F rows)"
    and "filter (\<lambda>q. \<not> same_kind r status q) (trim_finished lc r status keep rows) = filter (\<lambda>q. \<not> same_kind r status q) rows"
proof -
  define S where "S = js_sort (newest_first lc) (F rows)"
  let ?kept = "F (trim_finished lc r status keep rows)"
  have trim: "trim_finished lc r status keep rows
      = filter (\<lambda>q. \<not> (same_kind r status q \<and> j_id q \<notin> set (map j_id (take keep S)))) rows"
    by (simp add: trim_finished_def S_def F_def)
  have S: "set S = set (F rows)" "distinct S" "length S = length (F rows)"
    using ids by (simp_all add: S_def F_def distinct_map)
  have inj: "inj_on j_id (set rows)" using ids by (simp add: distinct_map)
  have kept: "set ?kept = set (take keep S)"
  proof
    have rows: "k \<in> set rows" if "k \<in> set (take keep S)" for k
      using in_set_takeD [OF that] S(1) by (simp add: F_def)
    have "q \<in> set (take keep S)" if q: "q \<in> set rows" "j_id q \<in> j_id ` set (take keep S)" for q
    proof -
      from q(2) obtain k where k: "k \<in> set (take keep S)" "j_id q = j_id k" by (rule imageE)
      then have "q = k" using inj_onD [OF inj _ q(1) rows [OF k(1)]] by simp
      then show ?thesis using k by simp
    qed
    then show "set ?kept \<subseteq> set (take keep S)" by (auto simp: F_def trim)
    have "set (take keep S) \<subseteq> set (F rows)" using S(1) set_take_subset by metis
    then show "set (take keep S) \<subseteq> set ?kept"
      unfolding trim F_def filter_filter by auto
  qed
  have "distinct ?kept" using ids by (simp add: F_def trim distinct_map)
  then have "length ?kept = card (set (take keep S))" using kept distinct_card by metis
  then show "length ?kept = min keep (length (F rows))"
    using S(2,3) by (simp add: distinct_card)
  have "sorted_wrt (\<lambda>a b. newest_first lc a b \<le> 0) (take keep S @ drop keep S)"
    using comparator.ordered_js_sort [OF comparator_newest_first [OF lc]] by (simp add: S_def)
  then have "newest_first lc k d \<le> 0" if "k \<in> set (take keep S)" "d \<in> set (drop keep S)" for k d
    using that unfolding sorted_wrt_append by blast
  moreover have "d \<in> set (drop keep S)" if "d \<in> set (F rows)" "d \<notin> set (take keep S)" for d
    using that S(1) by (metis Un_iff append_take_drop_id set_append)
  ultimately show "kept_first (newest_first lc) ?kept (F rows)" by (simp add: kept_first_def kept)
  show "filter (\<lambda>q. \<not> same_kind r status q) (trim_finished lc r status keep rows) = filter (\<lambda>q. \<not> same_kind r status q) rows"
    by (simp add: trim, rule filter_cong) auto
qed

text \<open>
  When a run of a schedule completes, of the completed jobs of its
  name exactly the newest stay, as many as the schedule keeps (with a limit of 0 only the run itself
  goes), and no job of another name or status is touched.
\<close>

theorem finished_runs_are_trimmed:
  fixes r :: job_row and now :: int
  assumes "comparator lc" and "distinct (map j_id rows)" and "scheduleOf schedules r = Some s"
  defines "done_rows \<equiv> update_row (j_id r) (\<lambda>q. q\<lparr>j_status := Completed, j_updated := now, j_error := None\<rparr>) rows"
    and "F \<equiv> filter (same_kind r Completed)"
  shows "if sc_keepCompleted s = 0 then complete lc schedules now r rows = filter (\<lambda>q. j_id q \<noteq> j_id r) done_rows
     else length (F (complete lc schedules now r rows)) = min (sc_keepCompleted s) (length (F done_rows))
       \<and> kept_first (newest_first lc) (F (complete lc schedules now r rows)) (F done_rows)
       \<and> filter (\<lambda>q. \<not> same_kind r Completed q) (complete lc schedules now r rows)
           = filter (\<lambda>q. \<not> same_kind r Completed q) done_rows"
proof -
  have "distinct (map j_id done_rows)" using assms(2) by (simp add: done_rows_def update_row_ids)
  note trimmed = trim_finished_kept [OF assms(1) this, of r Completed "sc_keepCompleted s"]
  then show ?thesis
    by (simp add: complete_def removeFinished_def assms(3) F_def flip: done_rows_def)
qed

definition example_schedule :: schedule_entry where
  "example_schedule = \<lparr>sc_id = ''tick'', sc_name = ''report'', sc_payload = ''{}'', sc_repeat = EveryMs 1000,
     sc_keepCompleted = 1, sc_keepFailed = 1\<rparr>"

definition example_row :: "string \<Rightarrow> job_status \<Rightarrow> int \<Rightarrow> job_row" where
  "example_row t st n = \<lparr>j_id = ''report:schedule:tick:'' @ t, j_name = ''report'', j_payload = ''{}'', j_status = st,
     j_attempts = 1, j_max = 1, j_available = n, j_created = n, j_updated = n, j_error = None\<rparr>"

lemma finished_runs_are_trimmed_witness:
  "map j_id (complete str_cmp [(''tick'', example_schedule)] 3000 (example_row ''2000'' Active 2000)
       [example_row ''1000'' Completed 1000, example_row ''2000'' Active 2000]) = [''report:schedule:tick:2000'']
   \<and> length (filter (same_kind (example_row ''2000'' Active 2000) Completed)
       (complete str_cmp [(''tick'', example_schedule)] 3000 (example_row ''2000'' Active 2000)
         [example_row ''1000'' Completed 1000, example_row ''2000'' Active 2000])) = 1"
proof -
  have s: "scheduleOf [(''tick'', example_schedule)] (example_row ''2000'' Active 2000) = Some example_schedule" by code_simp
  have d: "distinct (map j_id [example_row ''1000'' Completed 1000, example_row ''2000'' Active 2000])" by code_simp
  have k: "sc_keepCompleted example_schedule = 1" by (simp add: example_schedule_def)
  have "length (filter (same_kind (example_row ''2000'' Active 2000) Completed) (update_row (j_id (example_row ''2000'' Active 2000))
      (\<lambda>q. q\<lparr>j_status := Completed, j_updated := 3000, j_error := None\<rparr>)
      [example_row ''1000'' Completed 1000, example_row ''2000'' Active 2000])) = 2" by code_simp
  then show ?thesis
    using finished_runs_are_trimmed [OF strings.comparator_axioms d s, of 3000] k by simp code_simp
qed

subsection \<open>The runs of a schedule\<close>

lemma digits_after_colon:
  assumes "a @ CHR '':'' # d = b @ CHR '':'' # e" and "list_all is_digit d" and "list_all is_digit e"
  shows "a = b"
proof -
  have colon: "CHR '':'' \<notin> set ds" if "list_all is_digit ds" for ds
    using that by (auto simp: list_all_iff is_digit_def)
  have "takeWhile (\<lambda>c. c \<noteq> CHR '':'') (rev (x @ CHR '':'' # ds)) = rev ds" if "list_all is_digit ds" for x ds
    using colon [OF that] by (simp add: takeWhile_append takeWhile_eq_all_conv)
  then have "d = e" using assms by (metis rev_rev_ident)
  then show ?thesis using assms(1) by simp
qed

lemma nextScheduledTime_every:
  assumes "0 < n"
  shows "after < nextScheduledTime cron (EveryMs n) after" and "nextScheduledTime cron (EveryMs n) after \<le> after + n"
proof -
  have "after = n * (after div n) + after mod n" "0 \<le> after mod n" "after mod n < n" using assms by simp_all
  moreover have "nextScheduledTime cron (EveryMs n) after = n * (after div n) + n" by (simp add: algebra_simps)
  ultimately show "after < nextScheduledTime cron (EveryMs n) after" "nextScheduledTime cron (EveryMs n) after \<le> after + n"
    by linarith+
qed

lemma num_String_nat: "0 \<le> t \<Longrightarrow> num_String (Fin (of_int t)) = nat_str (nat t)"
  by simp

text \<open>
  A job's id names its schedule unambiguously, whatever characters
  the ids of the schedules have: no row is taken for a run of two schedules.
\<close>

theorem row_belongs_to_one_schedule:
  assumes "scheduled_as s r" and "scheduled_as s' r"
  shows "sc_id s = sc_id s' \<and> sc_name s = sc_name s'"
proof -
  obtain d where d: "j_id r = schedule_prefix s @ d" "list_all is_digit d"
    using assms(1) by (auto simp: scheduled_as_def Let_def elim!: starts_withE)
  obtain e where e: "j_id r = schedule_prefix s' @ e" "list_all is_digit e"
    using assms(2) by (auto simp: scheduled_as_def Let_def elim!: starts_withE)
  have names: "sc_name s = sc_name s'" using assms by (simp add: scheduled_as_def Let_def)
  then have "sc_id s @ CHR '':'' # d = sc_id s' @ CHR '':'' # e"
    using d(1) e(1) by (simp add: schedule_prefix_def)
  then have "sc_id s = sc_id s'" by (rule digits_after_colon) (use d e in simp_all)
  then show ?thesis using names by simp
qed

lemma row_belongs_to_one_schedule_witness:
  "scheduled_as example_schedule (example_row ''1000'' Active 1000) \<and> sc_id example_schedule = sc_id example_schedule"
  using row_belongs_to_one_schedule [of example_schedule "example_row ''1000'' Active 1000" example_schedule]
  by code_simp

text \<open>
  When the timer of a running interval schedule fires, the table has exactly
  one job for that time, added at most once, which the schedule recognises as its own; the next
  timer is strictly later, at most one interval ahead of the clock.
\<close>

theorem timer_adds_one_run:
  assumes "q_started q" and armed: "map_of (q_armed q) (sc_id s) = Some t" and s: "map_of (q_schedules q) (sc_id s) = Some s"
    and time: "0 \<le> t" "t \<le> now" and every: "sc_repeat s = EveryMs n" "0 < n"
  shows "let q' = fire env (sc_id s) now q; key = schedule_prefix s @ nat_str (nat t) in
    (\<exists>added. q_rows q' = q_rows q @ added \<and> length added = (if key \<in> set (map j_id (q_rows q)) then 0 else 1)
        \<and> list_all (\<lambda>r. j_id r = key \<and> scheduled_as s r) added)
    \<and> (\<exists>t'. map_of (q_armed q') (sc_id s) = Some t' \<and> t < t' \<and> now < t' \<and> t' \<le> now + n)"
proof -
  let ?key = "schedule_prefix s @ nat_str (nat t)"
  define r where "r = \<lparr>j_id = ?key, j_name = sc_name s, j_payload = sc_payload s, j_status = Waiting, j_attempts = 0,
    j_max = 1, j_available = now, j_created = now, j_updated = now, j_error = None\<rparr>"
  have id: "job_id (sc_name s) (schedule_options (sc_id s) t) [] = ?key"
    using num_String_nat [OF time(1)]
    by (simp add: job_id_def schedule_options_def schedule_prefix_def SCHEDULE_KEY_def del: num_String.simps)
  have "enqueue now [] (sc_name s) (Some (sc_payload s)) (schedule_options (sc_id s) t) (q_rows q)
      = Inr (insert_row r (q_rows q), ?key)"
    by (simp add: enqueue_def Let_def id r_def) (simp add: schedule_options_def is_safe_integer_def)
  then have fired: "fire env (sc_id s) now q = arm env s now (q\<lparr>q_rows := insert_row r (q_rows q)\<rparr>)"
    using assms by (simp add: fire_def wait_step_def enqueue_job_def)
  have "scheduled_as s r"
    using nat_str_digits by (simp add: scheduled_as_def r_def list_all_iff)
  then have "\<exists>added. q_rows (fire env (sc_id s) now q) = q_rows q @ added
      \<and> length added = (if ?key \<in> set (map j_id (q_rows q)) then 0 else 1)
      \<and> list_all (\<lambda>r. j_id r = ?key \<and> scheduled_as s r) added"
    by (intro exI [of _ "if ?key \<in> set (map j_id (q_rows q)) then [] else [r]"]) (simp add: fired insert_row_def r_def)
  moreover have "map_of (q_armed (fire env (sc_id s) now q)) (sc_id s) = Some (nextScheduledTime (env_cron env) (EveryMs n) now)"
    by (simp add: fired arm_def update_conv' every(1) del: nextScheduledTime.simps)
  ultimately show ?thesis
    using nextScheduledTime_every [OF every(2), where after = now and cron = "env_cron env"] time(2) unfolding Let_def by fastforce
qed

definition example_queue :: queue where
  "example_queue = run (queue_step example_env) empty_queue [Start 10500, AddSchedule 10500 example_schedule (Some ''{}'')]"

lemma timer_adds_one_run_witness:
  "length (q_rows (fire example_env ''tick'' 11000 example_queue)) = 1
   \<and> (\<exists>t'. map_of (q_armed (fire example_env ''tick'' 11000 example_queue)) ''tick'' = Some t' \<and> 11000 < t' \<and> t' \<le> 12000)"
proof -
  have tick: "sc_id example_schedule = ''tick''" by code_simp
  have "q_started example_queue" "map_of (q_armed example_queue) ''tick'' = Some 11000" "q_rows example_queue = []"
    "map_of (q_schedules example_queue) ''tick'' = Some example_schedule" "sc_repeat example_schedule = EveryMs 1000"
    by code_simp+
  then show ?thesis
    using timer_adds_one_run [of example_queue example_schedule 11000 11000 1000 example_env] unfolding Let_def tick by auto
qed

end
