(* ===== verification/Gauges.thy ===== *)
theory Gauges
  imports Prelude
begin

text \<open>
  The readings of a host card: \<^verbatim>\<open>packages/core/src/metrics.ts\<close> (percentages, the trend ring and its
  sparkline), \<^verbatim>\<open>packages/core/src/usage.ts\<close> (remaining budgets), \<^verbatim>\<open>packages/core/src/time.ts\<close> (ages) and
  \<^verbatim>\<open>packages/core/src/viewport.ts\<close> (the software keyboard). Feeds are values of unknown type; the
  arithmetic on their finite numbers is exact. The clock (\<open>now\<close>) is an argument.
\<close>

section \<open>Percentages\<close>

definition HOT_PCT :: rat where "HOT_PCT = 80"
definition SWAP_HOT_PCT :: rat where "SWAP_HOT_PCT = 50"
definition SPARK_W :: rat where "SPARK_W = 120"
definition SPARK_H :: rat where "SPARK_H = 20"
definition METRICS_MAX_AGE_MS :: rat where "METRICS_MAX_AGE_MS = 30000"

datatype metric_key = Cpu | Mem | Disk | Swap

definition METRIC_KEYS :: "metric_key list" where "METRIC_KEYS = [Cpu, Mem, Disk, Swap]"

fun metric_name :: "metric_key \<Rightarrow> string" where
  "metric_name Cpu = ''cpu''"
| "metric_name Mem = ''mem''"
| "metric_name Disk = ''disk''"
| "metric_name Swap = ''swap''"

text \<open>\<open>Math.max(0, Math.min(100, Math.round(value)))\<close> of a finite number, otherwise \<open>null\<close>.\<close>

definition round_pct :: "jsval \<Rightarrow> int option" where
  "round_pct v = map_option (\<lambda>q. max 0 (min 100 (js_round q))) (finite_val v)"

record usage_cell =
  uc_pct :: "int option"
  uc_hot :: bool

definition usageCell :: "jsval \<Rightarrow> rat \<Rightarrow> usage_cell" where
  "usageCell v hotPct =
     (let pct = round_pct v in
      \<lparr>uc_pct = pct, uc_hot = (case pct of None \<Rightarrow> False | Some p \<Rightarrow> hotPct \<le> of_int p)\<rparr>)"

text \<open>The fast feed: its rows, or nothing once it is stale or malformed.\<close>

definition freshMetrics :: "jsval \<Rightarrow> rat \<Rightarrow> rat \<Rightarrow> jsval list option" where
  "freshMetrics feed now maxAgeMs =
     (if \<not> is_object feed then None
      else case (finite_val (js_get feed ''ts''), as_array (js_get feed ''hosts'')) of
          (Some ts, Some rows) \<Rightarrow>
            if now - ts * 1000 > maxAgeMs then None
            else Some (filter (\<lambda>row. as_string (js_get row ''id'') \<noteq> None) rows)
        | _ \<Rightarrow> None)"

section \<open>The trend ring\<close>

record sample =
  sm_t :: rat
  sm_v :: "rat option"

type_synonym host_series = "metric_key \<Rightarrow> sample list"

text \<open>One column: the stamps and the values are read up to the shorter array.\<close>

fun series_of :: "jsval list \<Rightarrow> jsval list \<Rightarrow> sample list" where
  "series_of (t # ts) (v # vs) =
     (case finite_val t of
        None \<Rightarrow> series_of ts vs
      | Some s \<Rightarrow> \<lparr>sm_t = s, sm_v = finite_val v\<rparr> # series_of ts vs)"
| "series_of _ _ = []"

definition array_or_empty :: "jsval \<Rightarrow> jsval list" where
  "array_or_empty v = (case as_array v of Some vs \<Rightarrow> vs | None \<Rightarrow> [])"

definition historySeries :: "jsval \<Rightarrow> string \<Rightarrow> host_series" where
  "historySeries feed hostId =
     (let stamps = array_or_empty (js_get feed ''t'') in
      case List.find (\<lambda>h. js_get h ''id'' = JStr hostId) (array_or_empty (js_get feed ''hosts'')) of
        None \<Rightarrow> (\<lambda>_. [])
      | Some row \<Rightarrow> (\<lambda>key. series_of stamps (array_or_empty (js_get row (metric_name key)))))"

section \<open>The sparkline\<close>

record spark_options =
  so_now :: "rat option"
  so_window :: "rat option"
  so_w :: "rat option"
  so_h :: "rat option"
  so_hotPct :: "rat option"

record point =
  p_x :: rat
  p_y :: rat
  p_v :: rat

text \<open>
  \<open>toFixed(2)\<close>: the nearest hundredth, of two the one further from zero, and its text. The sign is
  printed also when the rounded number is zero.
\<close>

definition hundredths :: "rat \<Rightarrow> nat" where
  "hundredths q = nat (js_round (\<bar>q\<bar> * 100))"

definition fixed2 :: "rat \<Rightarrow> rat" where
  "fixed2 q = (if q < 0 then - of_nat (hundredths q) / 100 else of_nat (hundredths q) / 100)"

definition toFixed2 :: "rat \<Rightarrow> string" where
  "toFixed2 q = (let n = hundredths q in
     (if q < 0 then ''-'' else []) @ nat_str (n div 100) @ CHR ''.'' # [digit_char (n div 10 mod 10), digit_char (n mod 10)])"

text \<open>A value of a sample on the 0-100 scale: \<open>NaN\<close> and what is no number leave a gap.\<close>

fun scale_value :: "jsval \<Rightarrow> rat option" where
  "scale_value (JNum (Fin q)) = Some (max 0 (min 100 q))"
| "scale_value (JNum PosInf) = Some 100"
| "scale_value (JNum NegInf) = Some 0"
| "scale_value _ = None"

definition spark_point :: "rat \<Rightarrow> rat \<Rightarrow> rat \<Rightarrow> rat \<Rightarrow> rat \<Rightarrow> rat \<Rightarrow> point" where
  "spark_point now window w h t v = \<lparr>p_x = w - (now - t) / window * w, p_y = h - v / 100 * h, p_v = v\<rparr>"

text \<open>The samples inside the window, a gap as \<open>None\<close>.\<close>

fun spark_points :: "rat \<Rightarrow> rat \<Rightarrow> rat \<Rightarrow> rat \<Rightarrow> jsval list \<Rightarrow> point option list" where
  "spark_points now window w h [] = []"
| "spark_points now window w h (raw # rest) =
     (case finite_val (js_get raw ''t'') of
        None \<Rightarrow> spark_points now window w h rest
      | Some t \<Rightarrow>
          if now - t < 0 \<or> now - t > window then spark_points now window w h rest
          else map_option (spark_point now window w h t) (scale_value (js_get raw ''v''))
                 # spark_points now window w h rest)"

text \<open>The loop over the points: \<open>run\<close> is flushed at a gap and at the end, when it is not empty.\<close>

definition flush_run :: "point list \<Rightarrow> point list list" where
  "flush_run run = (if run = [] then [] else [run])"

fun spark_runs :: "point list \<Rightarrow> point option list \<Rightarrow> point list list" where
  "spark_runs run [] = flush_run run"
| "spark_runs run (Some p # ps) = spark_runs (run @ [p]) ps"
| "spark_runs run (None # ps) = flush_run run @ spark_runs [] ps"

definition drawn_run :: "point list \<Rightarrow> point list" where
  "drawn_run run = (case run of [first] \<Rightarrow> [first\<lparr>p_x := max 0 (p_x first - 1)\<rparr>, first] | _ \<Rightarrow> run)"

definition path_node :: "char \<Rightarrow> point \<Rightarrow> string" where
  "path_node c p = c # toFixed2 (p_x p) @ CHR '' '' # toFixed2 (p_y p)"

definition line_path :: "point list \<Rightarrow> string" where
  "line_path drawn = js_join '' '' (case drawn of [] \<Rightarrow> [] | p # ps \<Rightarrow> path_node CHR ''M'' p # map (path_node CHR ''L'') ps)"

definition area_path :: "rat \<Rightarrow> point list \<Rightarrow> string" where
  "area_path h drawn =
     line_path drawn @ '' L'' @ toFixed2 (p_x (last drawn)) @ CHR '' '' # num_String (Fin h)
     @ '' L'' @ toFixed2 (p_x (hd drawn)) @ CHR '' '' # num_String (Fin h) @ '' Z''"

record spark_geometry =
  sg_line :: "string list"
  sg_area :: "string list"
  sg_hotY :: rat
  sg_last :: "rat option"
  sg_max :: "rat option"

definition opt_or :: "rat option \<Rightarrow> rat \<Rightarrow> rat" where
  "opt_or v d = (case v of Some x \<Rightarrow> x | None \<Rightarrow> d)"

definition hot_y :: "rat \<Rightarrow> rat \<Rightarrow> rat" where
  "hot_y h hotPct = h * (1 - hotPct / 100)"

definition sparkGeometry :: "rat \<Rightarrow> jsval \<Rightarrow> spark_options \<Rightarrow> spark_geometry" where
  "sparkGeometry clock samples opts =
     (let now = opt_or (so_now opts) clock; window = opt_or (so_window opts) 3600;
          w = opt_or (so_w opts) SPARK_W; h = opt_or (so_h opts) SPARK_H;
          hotPct = opt_or (so_hotPct opts) HOT_PCT;
          points = spark_points now window w h (array_or_empty samples);
          lines = map drawn_run (spark_runs [] points);
          values = map p_v (List.map_filter (\<lambda>p. p) points)
      in \<lparr>sg_line = map line_path lines, sg_area = map (area_path h) lines, sg_hotY = fixed2 (hot_y h hotPct),
          sg_last = (if values = [] then None else Some (last values)),
          sg_max = (if values = [] then None else Some (foldl max (hd values) values))\<rparr>)"

section \<open>Ages\<close>

datatype age_unit = AgeNow | AgeMinute | AgeHour

record relative_age =
  ra_known :: bool
  ra_ageMs :: rat
  ra_unit :: age_unit
  ra_value :: int
  ra_stale :: bool

definition UNKNOWN_AGE :: relative_age where
  "UNKNOWN_AGE = \<lparr>ra_known = False, ra_ageMs = 0, ra_unit = AgeNow, ra_value = 0, ra_stale = False\<rparr>"

definition relativeAge :: "jsval \<Rightarrow> rat \<Rightarrow> rat \<Rightarrow> relative_age" where
  "relativeAge ts now staleMs =
     (case finite_val ts of
        None \<Rightarrow> UNKNOWN_AGE
      | Some t \<Rightarrow>
          if t \<le> 0 then UNKNOWN_AGE
          else let ageMs = max 0 (now - t * 1000);
                   minutes = \<lfloor>ageMs / 60000\<rfloor>;
                   stale = (staleMs < ageMs)
               in if ageMs < 60000 then \<lparr>ra_known = True, ra_ageMs = ageMs, ra_unit = AgeNow, ra_value = 0, ra_stale = stale\<rparr>
                  else if minutes < 60 then \<lparr>ra_known = True, ra_ageMs = ageMs, ra_unit = AgeMinute, ra_value = minutes, ra_stale = stale\<rparr>
                  else \<lparr>ra_known = True, ra_ageMs = ageMs, ra_unit = AgeHour, ra_value = js_round (of_int minutes / 60), ra_stale = stale\<rparr>)"

section \<open>Remaining budgets\<close>

definition GAUGE_W :: rat where "GAUGE_W = 100"
definition LOW_REMAINING_PCT :: int where "LOW_REMAINING_PCT = 20"
definition USAGE_STALE_MS :: rat where "USAGE_STALE_MS = 2 * 60 * 60000"

record gauge_cell =
  gc_pct :: "int option"
  gc_width :: rat
  gc_low :: bool

definition gaugeCell :: "jsval \<Rightarrow> gauge_cell" where
  "gaugeCell remaining =
     (let pct = round_pct remaining in
      \<lparr>gc_pct = pct, gc_width = (case pct of None \<Rightarrow> 0 | Some p \<Rightarrow> of_int p * GAUGE_W / 100),
       gc_low = (case pct of None \<Rightarrow> False | Some p \<Rightarrow> p \<le> LOW_REMAINING_PCT)\<rparr>)"

definition usageAge :: "jsval \<Rightarrow> rat \<Rightarrow> relative_age" where
  "usageAge ts now = relativeAge ts now USAGE_STALE_MS"

record window_row =
  wr_cell :: gauge_cell
  wr_key :: string
  wr_label :: "string option"
  wr_usedPct :: jsnum
  wr_remainingPct :: int

record agent_row =
  ar_provider :: string
  ar_processes :: jsnum
  ar_ts :: "rat option"
  ar_age :: relative_age
  ar_windows :: "window_row list"

fun round_num :: "jsnum \<Rightarrow> jsnum" where
  "round_num (Fin q) = Fin (of_int (js_round q))"
| "round_num x = x"

text \<open>A window whose reset has passed: \<open>resetsAt > 0\<close> and \<open>resetsAt * 1000 \<le> now\<close>.\<close>

definition has_reset :: "jsval \<Rightarrow> rat \<Rightarrow> bool" where
  "has_reset resetsAt now = (case finite_val resetsAt of Some r \<Rightarrow> 0 < r \<and> r * 1000 \<le> now | None \<Rightarrow> False)"

definition window_row_of :: "rat \<Rightarrow> jsval \<Rightarrow> window_row option" where
  "window_row_of now win =
     (case as_string (js_get win ''key'') of
        None \<Rightarrow> None
      | Some key \<Rightarrow>
          if key = [] \<or> has_reset (js_get win ''resetsAt'') now then None
          else let cell = gaugeCell (js_get win ''remainingPct'') in
            (case gc_pct cell of
               None \<Rightarrow> None
             | Some pct \<Rightarrow> Some \<lparr>wr_cell = cell, wr_key = key,
                 wr_label = (if truthy (as_string (js_get win ''label'')) then as_string (js_get win ''label'') else None),
                 wr_usedPct = (case as_number (js_get win ''usedPct'') of
                     Some u \<Rightarrow> round_num u | None \<Rightarrow> Fin (of_int (100 - pct))),
                 wr_remainingPct = pct\<rparr>))"

definition process_count :: "jsval \<Rightarrow> jsnum" where
  "process_count v = (case as_number v of
     Some (Fin q) \<Rightarrow> if 0 \<le> q then Fin (of_int (js_trunc q)) else Fin 0
   | Some PosInf \<Rightarrow> PosInf
   | _ \<Rightarrow> Fin 0)"

definition agentRow :: "jsval \<Rightarrow> rat \<Rightarrow> agent_row" where
  "agentRow usage now =
     (let ts = finite_val (js_get usage ''ts'') in
      \<lparr>ar_provider = (case as_string (js_get usage ''provider'') of Some p \<Rightarrow> p | None \<Rightarrow> []),
       ar_processes = process_count (js_get usage ''processes''),
       ar_ts = ts,
       ar_age = usageAge (case ts of Some t \<Rightarrow> JNum (Fin t) | None \<Rightarrow> JNull) now,
       ar_windows = List.map_filter (window_row_of now) (array_or_empty (js_get usage ''windows''))\<rparr>)"

definition agentRows :: "jsval \<Rightarrow> string list \<Rightarrow> rat \<Rightarrow> agent_row list" where
  "agentRows usage providers now =
     map (\<lambda>provider.
       let found = List.find (\<lambda>u. js_get u ''provider'' = JStr provider) (array_or_empty usage) in
       (agentRow (case found of Some u \<Rightarrow> u | None \<Rightarrow> JObj [(''provider'', JStr provider)]) now)\<lparr>ar_provider := provider\<rparr>) providers"

section \<open>The software keyboard\<close>

definition KEYBOARD_MIN_PX :: rat where "KEYBOARD_MIN_PX = 120"

record viewport_sample =
  vs_layoutHeight :: jsval
  vs_viewportHeight :: jsval
  vs_offsetTop :: jsval

record keyboard_inset =
  ki_open :: bool
  ki_height :: int
  ki_keyboard :: int

definition finite_or :: "jsval \<Rightarrow> rat \<Rightarrow> rat" where
  "finite_or v fallback = (case finite_val v of Some q \<Rightarrow> q | None \<Rightarrow> fallback)"

definition keyboardInset :: "viewport_sample \<Rightarrow> jsval \<Rightarrow> keyboard_inset" where
  "keyboardInset sample minPx =
     (let layout = max 0 (finite_or (vs_layoutHeight sample) 0);
          visual = max 0 (finite_or (vs_viewportHeight sample) layout);
          offset = max 0 (finite_or (vs_offsetTop sample) 0);
          keyboard = max 0 (js_round (layout - visual - offset));
          threshold = max 0 (finite_or minPx KEYBOARD_MIN_PX);
          up = (threshold \<le> of_int keyboard \<and> 0 < visual)
      in \<lparr>ki_open = up, ki_height = (if up then js_round visual else js_round layout), ki_keyboard = (if up then keyboard else 0)\<rparr>)"

section \<open>What the readings guarantee\<close>

lemma round_pct_bounds: "round_pct v = Some p \<Longrightarrow> 0 \<le> p \<and> p \<le> 100"
  by (auto simp: round_pct_def)

lemma js_round_mono: "a \<le> b \<Longrightarrow> js_round a \<le> js_round b"
  unfolding js_round_def by (intro floor_mono) simp

text \<open>A larger reading is never shown smaller, and never cools a hot one.\<close>

lemma usageCell_mono:
  assumes "a \<le> b"
  shows "\<exists>p q. uc_pct (usageCell (JNum (Fin a)) hot) = Some p \<and> uc_pct (usageCell (JNum (Fin b)) hot) = Some q \<and> p \<le> q
    \<and> (uc_hot (usageCell (JNum (Fin a)) hot) \<longrightarrow> uc_hot (usageCell (JNum (Fin b)) hot))"
proof -
  let ?p = "max 0 (min 100 (js_round a))" and ?q = "max 0 (min 100 (js_round b))"
  have "?p \<le> ?q" using js_round_mono [OF assms] by linarith
  moreover from this have "(of_int ?p :: rat) \<le> of_int ?q" by (simp only: of_int_le_iff)
  ultimately show ?thesis by (auto simp: usageCell_def round_pct_def Let_def)
qed

lemma as_string_iff: "as_string v = Some t \<longleftrightarrow> v = JStr t"
  by (cases v) auto

lemma freshMetrics_rows:
  "freshMetrics feed now maxAge = Some rows \<Longrightarrow>
     (\<forall>row \<in> set rows. \<exists>i. js_get row ''id'' = JStr i) \<and> (\<exists>ts. finite_val (js_get feed ''ts'') = Some ts \<and> now - ts * 1000 \<le> maxAge)"
  by (auto simp: freshMetrics_def as_string_iff split: option.splits if_splits)

text \<open>A sample pairs a stamp with the value at the same index.\<close>

lemma series_of_pairs:
  "x \<in> set (series_of ts vs) \<Longrightarrow> \<exists>i. i < length ts \<and> i < length vs \<and> finite_val (ts ! i) = Some (sm_t x) \<and> finite_val (vs ! i) = sm_v x"
proof (induction ts vs rule: series_of.induct)
  case (1 t ts v vs)
  have later: ?case if tail: "x \<in> set (series_of ts vs)"
  proof -
    have "\<exists>i. i < length ts \<and> i < length vs \<and> finite_val (ts ! i) = Some (sm_t x) \<and> finite_val (vs ! i) = sm_v x"
      using tail 1 by (cases "finite_val t") auto
    then obtain i where "i < length ts" "i < length vs" "finite_val (ts ! i) = Some (sm_t x)" "finite_val (vs ! i) = sm_v x"
      by blast
    then show ?thesis by (intro exI [of _ "Suc i"]) simp
  qed
  show ?case
  proof (cases "finite_val t")
    case None
    then show ?thesis using later 1 by simp
  next
    case (Some s)
    then show ?thesis using later 1 by (cases "x \<in> set (series_of ts vs)") (auto intro!: exI [of _ 0])
  qed
qed simp_all

section \<open>The sparkline draws what was measured\<close>

lemma concat_spark_runs: "concat (spark_runs run ps) = run @ List.map_filter (\<lambda>p. p) ps"
  by (induction run ps rule: spark_runs.induct) (simp_all add: flush_run_def map_filter_simps)

lemma spark_runs_nonempty: "r \<in> set (spark_runs run ps) \<Longrightarrow> r \<noteq> []"
  by (induction run ps rule: spark_runs.induct) (auto simp: flush_run_def split: if_splits)

text \<open>A run is a stretch of the points between two gaps (or the ends of the list).\<close>

definition stretch :: "'a list \<Rightarrow> 'a option list \<Rightarrow> bool" where
  "stretch r ps \<longleftrightarrow> (\<exists>before after. ps = before @ map Some r @ after
     \<and> (before = [] \<or> last before = None) \<and> (after = [] \<or> hd after = None))"

lemma stretch_prefixed:
  assumes "stretch r ps" and "pre \<noteq> []" and "last pre = None"
  shows "stretch r (pre @ ps)"
proof -
  obtain before after where s: "ps = before @ map Some r @ after" "before = [] \<or> last before = None" "after = [] \<or> hd after = None"
    using assms(1) by (auto simp: stretch_def)
  have "pre @ ps = (pre @ before) @ map Some r @ after" "last (pre @ before) = None"
    using s assms by (cases "before = []"; simp)+
  then show ?thesis using s(3) unfolding stretch_def by blast
qed

lemma spark_runs_stretch: "r \<in> set (spark_runs run ps) \<Longrightarrow> stretch r (map Some run @ ps)"
proof (induction run ps rule: spark_runs.induct)
  case (1 run)
  then have "r = run" by (simp add: flush_run_def split: if_splits)
  moreover have "map Some run = [] @ map Some run @ []" by simp
  ultimately show ?case unfolding stretch_def by (metis append_Nil2)
next
  case (2 run p ps)
  then show ?case by simp
next
  case (3 run ps)
  show ?case
  proof (cases "r \<in> set (flush_run run)")
    case True
    then have "r = run" by (simp add: flush_run_def split: if_splits)
    moreover have "map Some run @ None # ps = [] @ map Some run @ (None # ps)" by simp
    ultimately show ?thesis unfolding stretch_def by (metis list.sel(1))
  next
    case False
    then have "stretch r ([] @ ps)" using 3 by simp
    then show ?thesis using stretch_prefixed [of r ps "map Some run @ [None]"] by simp
  qed
qed

text \<open>Every point lies in the box, and in the red band exactly from the threshold on.\<close>

definition in_box :: "rat \<Rightarrow> rat \<Rightarrow> rat \<Rightarrow> point \<Rightarrow> bool" where
  "in_box w h hotPct p \<longleftrightarrow> 0 \<le> p_x p \<and> p_x p \<le> w \<and> 0 \<le> p_y p \<and> p_y p \<le> h \<and> 0 \<le> p_v p \<and> p_v p \<le> 100
     \<and> (p_y p \<le> hot_y h hotPct \<longleftrightarrow> hotPct \<le> p_v p)"

lemma scale_value_bounds: "scale_value v = Some q \<Longrightarrow> 0 \<le> q \<and> q \<le> 100"
  by (cases v rule: scale_value.cases) auto

lemma spark_point_in_box:
  assumes "0 < window" "0 \<le> w" "0 < h" and age: "0 \<le> now - t" "now - t \<le> window" and v: "0 \<le> v" "v \<le> 100"
  shows "in_box w h hotPct (spark_point now window w h t v)"
proof -
  let ?a = "(now - t) / window"
  have "0 \<le> ?a" "?a \<le> 1" using assms by (simp_all add: divide_simps)
  then have x: "0 \<le> ?a * w" "?a * w \<le> w"
    using assms(2) mult_nonneg_nonneg [of ?a w] mult_left_le_one_le [of w ?a] by blast+
  have y: "0 \<le> v / 100 * h" "v / 100 * h \<le> h" using v assms(3) by (simp_all add: mult_left_le_one_le)
  have "h - v / 100 * h \<le> hot_y h hotPct \<longleftrightarrow> hotPct * h \<le> v * h" by (simp add: hot_y_def field_simps)
  also have "\<dots> \<longleftrightarrow> hotPct \<le> v" using assms(3) by simp
  finally show ?thesis using x y v by (simp add: in_box_def spark_point_def)
qed

lemma spark_points_in_box:
  assumes "0 < window" "0 \<le> w" "0 < h"
  shows "Some p \<in> set (spark_points now window w h samples) \<Longrightarrow> in_box w h hotPct p"
proof (induction samples)
  case (Cons raw rest)
  show ?case
  proof (cases "Some p \<in> set (spark_points now window w h rest)")
    case True
    then show ?thesis by (rule Cons.IH)
  next
    case False
    then obtain t v where "finite_val (js_get raw ''t'') = Some t" "0 \<le> now - t" "now - t \<le> window"
      "scale_value (js_get raw ''v'') = Some v" "p = spark_point now window w h t v"
      using Cons.prems by (auto simp: map_option_case split: option.splits if_splits)
    then show ?thesis using spark_point_in_box [OF assms] scale_value_bounds by simp
  qed
qed simp

lemma drawn_run_in_box:
  assumes "0 \<le> w" and "\<forall>p \<in> set run. in_box w h hotPct p" and "p \<in> set (drawn_run run)"
  shows "in_box w h hotPct p"
  using assms by (auto simp: drawn_run_def in_box_def split: list.splits)

lemma stretch_elements: "stretch r ps \<Longrightarrow> x \<in> set r \<Longrightarrow> Some x \<in> set ps"
  by (auto simp: stretch_def)

text \<open>
  Every line of a sparkline is a run of measured samples
  between two gaps, so no line crosses a gap; the lines together are the measured samples of the
  window, in order; every drawn point lies inside the box, and lies in the red band exactly when its
  value is at least the threshold.
\<close>

theorem sparkline_draws_what_was_measured:
  fixes now window w h hotPct :: rat and samples :: "jsval list"
  defines "points \<equiv> spark_points now window w h samples"
  assumes "0 < window" "0 \<le> w" "0 < h"
  shows "concat (spark_runs [] points) = List.map_filter (\<lambda>p. p) points
    \<and> (\<forall>run \<in> set (spark_runs [] points). run \<noteq> [] \<and> stretch run points
        \<and> (\<forall>p \<in> set (drawn_run run). in_box w h hotPct p))"
proof -
  have "in_box w h hotPct p" if "run \<in> set (spark_runs [] points)" "p \<in> set (drawn_run run)" for run p
  proof -
    have "stretch run points" using spark_runs_stretch [OF that(1)] by simp
    then have "\<forall>q \<in> set run. in_box w h hotPct q"
      using spark_points_in_box [OF assms(2-4), of _ now samples hotPct] stretch_elements [of run points] unfolding points_def by blast
    then show ?thesis using drawn_run_in_box [OF assms(3)] that(2) by blast
  qed
  then show ?thesis
    using concat_spark_runs [of "[]" points] spark_runs_nonempty spark_runs_stretch [of _ "[]" points] by auto
qed

end
