(* ===== verification/Vm.thy ===== *)
theory Vm
  imports Prelude
begin

text \<open>
  The machine behind a host and the changes made to it: \<^verbatim>\<open>apps/api/src/vm/host-vm.entity.ts\<close> and
  \<^verbatim>\<open>vm-provider.ts\<close> (the row and what a provider is asked), \<^verbatim>\<open>host-vms.service.ts\<close> (what a state allows),
  \<^verbatim>\<open>vm-operations.service.ts\<close> and \<^verbatim>\<open>vm-lifecycle.service.ts\<close> (the driver of one change).

  A driver is an automaton: its state is the copy of the row it works on and the call it waits for,
  and \<open>advance\<close> is what it does between an answer and its next call. Statements to the database take
  effect when they are made. The clock, the answers of the provider and of the enrollment service
  and the stored row are arguments; a call may also throw, with the code of an \<open>AppException\<close> or none.
\<close>

section \<open>The row\<close>

datatype vm_action = Start | Hibernate | Shutdown | Stop | Reboot | Reset

datatype vm_state = Running | Hibernated | Stopped | Paused | Unknown | Missing

datatype vm_operation = PowerChange vm_action | CreateChange | DeleteChange | EnrollChange

datatype vm_origin = Created | Linked

record vm_ref =
  ref_node :: string
  ref_vmid :: nat

record vm_spec =
  sp_cores :: nat
  sp_memoryMb :: nat
  sp_diskGb :: "nat option"
  sp_template :: "vm_ref option"
  sp_pool :: "string option option"

record vm_row =
  vm_id :: string
  vm_organization :: string
  vm_host :: string
  vm_provider :: string
  vm_location :: string
  vm_external :: nat
  vm_name :: string
  vm_origin :: vm_origin
  vm_spec :: vm_spec
  vm_tags :: "string list"
  vm_observed :: vm_state
  vm_observedAt :: "int option"
  vm_operation :: "vm_operation option"
  vm_step :: "string option"
  vm_task :: "string option"
  vm_byId :: "string option"
  vm_byName :: "string option"
  vm_startedAt :: "int option"
  vm_updatedAt :: "int option"
  vm_error :: "string option"
  vm_errorAt :: "int option"
  vm_key :: "string option"
  vm_version :: nat

record observed_vm =
  ob_ref :: vm_ref
  ob_name :: string
  ob_state :: vm_state
  ob_tags :: "string list"
  ob_template :: bool

record provider_task =
  tk_id :: string
  tk_node :: string

datatype task_result = TaskRuns | TaskOk | TaskFailed string

text \<open>The settings of a provider the changes read.\<close>

record vm_config =
  cf_sleepRequiresTag :: "string option"
  cf_backupBeforeSleep :: "string option"
  cf_enrollUrl :: "string option"
  cf_pool :: "string option"
  cf_storage :: "string option"
  cf_fullClone :: bool

definition refOf :: "vm_row \<Rightarrow> vm_ref" where
  "refOf row = \<lparr>ref_node = vm_location row, ref_vmid = vm_external row\<rparr>"

definition taskFrom :: "vm_row \<Rightarrow> provider_task" where
  "taskFrom row =
     (let key = (case vm_task row of Some t \<Rightarrow> t | None \<Rightarrow> []) in
      \<lparr>tk_id = key, tk_node = (case nth_opt (js_split CHR '':'' key) 1 of Some n \<Rightarrow> n | None \<Rightarrow> vm_location row)\<rparr>)"

definition templateOf :: "vm_row \<Rightarrow> vm_ref" where
  "templateOf row = (case sp_template (vm_spec row) of Some t \<Rightarrow> t | None \<Rightarrow> \<lparr>ref_node = [], ref_vmid = 0\<rparr>)"

section \<open>What a state allows\<close>

definition ENROLL_RETRY_ERRORS :: "string list" where
  "ENROLL_RETRY_ERRORS = [''VM_ENROLL_TIMEOUT'', ''VM_ENROLL_FAILED'']"

definition sleep_allowed :: "vm_row \<Rightarrow> vm_config \<Rightarrow> bool" where
  "sleep_allowed vm config = (case cf_sleepRequiresTag config of None \<Rightarrow> True | Some tag \<Rightarrow> tag \<in> set (vm_tags vm))"

definition may_enroll :: "vm_row \<Rightarrow> bool" where
  "may_enroll vm = (vm_origin vm = Created \<and> (case vm_error vm of None \<Rightarrow> False | Some e \<Rightarrow> e \<in> set ENROLL_RETRY_ERRORS))"

definition availableActions :: "vm_row \<Rightarrow> vm_config \<Rightarrow> vm_operation \<Rightarrow> bool" where
  "availableActions vm config change =
     (vm_operation vm = None \<and>
      (case vm_observed vm of
         Running \<Rightarrow> (case change of
             PowerChange Hibernate \<Rightarrow> sleep_allowed vm config
           | PowerChange Start \<Rightarrow> False
           | PowerChange _ \<Rightarrow> True
           | DeleteChange \<Rightarrow> vm_origin vm = Created
           | EnrollChange \<Rightarrow> may_enroll vm
           | CreateChange \<Rightarrow> False)
       | Hibernated \<Rightarrow> change = PowerChange Start \<or> (change = DeleteChange \<and> vm_origin vm = Created)
       | Stopped \<Rightarrow> change = PowerChange Start \<or> (change = DeleteChange \<and> vm_origin vm = Created)
           \<or> (change = EnrollChange \<and> may_enroll vm)
       | Paused \<Rightarrow> change = PowerChange Stop \<or> change = PowerChange Reset \<or> (change = DeleteChange \<and> vm_origin vm = Created)
       | Missing \<Rightarrow> change = DeleteChange \<and> vm_origin vm = Created
       | Unknown \<Rightarrow> False))"

section \<open>Deadlines\<close>

fun DEADLINE_MS :: "vm_action \<Rightarrow> int" where
  "DEADLINE_MS Start = 5 * 60000"
| "DEADLINE_MS Hibernate = 15 * 60000"
| "DEADLINE_MS Shutdown = 6 * 60000"
| "DEADLINE_MS Stop = 2 * 60000"
| "DEADLINE_MS Reboot = 6 * 60000"
| "DEADLINE_MS Reset = 2 * 60000"

definition BACKUP_DEADLINE_MS :: int where "BACKUP_DEADLINE_MS = 60 * 60000"
definition STALE_MS :: int where "STALE_MS = 2 * 60000"
definition HUNG_MS :: int where "HUNG_MS = 2 * STALE_MS"
definition BACKUP_FRESH_MS :: int where "BACKUP_FRESH_MS = 24 * 60 * 60000"
definition SETTLE_MS :: int where "SETTLE_MS = 90000"
definition CLONE_MS :: int where "CLONE_MS = 30 * 60000"
definition START_MS :: int where "START_MS = 5 * 60000"
definition REMOVE_MS :: int where "REMOVE_MS = 10 * 60000"
definition RESIZE_MS :: int where "RESIZE_MS = 5 * 60000"
definition ENROLL_POLL_MS :: int where "ENROLL_POLL_MS = 3000"
definition CREATED_TAG :: string where "CREATED_TAG = ''pdmux''"

fun SETTLES_TO :: "vm_action \<Rightarrow> vm_state" where
  "SETTLES_TO Start = Running"
| "SETTLES_TO Hibernate = Hibernated"
| "SETTLES_TO Shutdown = Stopped"
| "SETTLES_TO Stop = Stopped"
| "SETTLES_TO Reboot = Running"
| "SETTLES_TO Reset = Running"

section \<open>Calls, answers, effects\<close>

text \<open>What a driver waits for a task for.\<close>

datatype wait_for =
    ResumedBackup | FreshBackup | PowerTask vm_action
  | CloneTask | ResizeTask | BootTask | OffTask nat | RemoveTask

fun deadline :: "wait_for \<Rightarrow> int" where
  "deadline ResumedBackup = BACKUP_DEADLINE_MS"
| "deadline FreshBackup = BACKUP_DEADLINE_MS"
| "deadline (PowerTask a) = DEADLINE_MS a"
| "deadline CloneTask = CLONE_MS"
| "deadline ResizeTask = RESIZE_MS"
| "deadline BootTask = START_MS"
| "deadline (OffTask _) = START_MS"
| "deadline RemoveTask = REMOVE_MS"

text \<open>The call a driver waits for. A wait carries when it began and how often it polled.\<close>

datatype vm_call =
    GetProvider
  | LastBackup string
  | MakeBackup
  | PollTask wait_for provider_task int nat
  | SleepTask wait_for provider_task int nat int
  | PowerCall vm_action
  | SettleStatus vm_state int
  | SettleSleep vm_state int int
  | FinishStatus "string option"
  | CloneStatus
  | CloneCall
  | CloneAfter string
  | ConfigureCall
  | ResizeCall
  | MintCall
  | FirmwareCall
  | BootStatus
  | BootCall
  | EnrollPoll
  | EnrollSleep int
  | ClearCall
  | OffStatus nat
  | OffCall nat
  | RemoveCall
  | ReleaseCall "string option"
  | Ended

datatype enroll_state = Enrolled | Waiting | Expired

datatype vm_answer =
    Fine
  | ProviderIs vm_config
  | Seen "observed_vm option"
  | TaskIs provider_task
  | MaybeTask "provider_task option"
  | BackupAt "int option"
  | TaskState task_result
  | EnrollCode string
  | EnrollIs enroll_state
  | Threw "string option"

text \<open>What the provider is told to do.\<close>

datatype vm_command =
    DoPower vm_ref vm_action
  | DoBackup vm_ref string
  | DoClone vm_ref vm_ref string "string option" bool "string option"
  | DoConfigure vm_ref nat nat "string list"
  | DoFirmware vm_ref string string
  | DoClearFirmware vm_ref
  | DoResize vm_ref nat
  | DoRemove vm_ref

datatype vm_effect =
    WriteStep string "string option" int
  | Beat int
  | WriteFinish "observed_vm option" "string option" int
  | ReleaseRow
  | Audit "vm_operation option" "string option"
  | Tell vm_command

record vm_drive =
  dr_row :: vm_row
  dr_config :: vm_config
  dr_ref :: vm_ref
  dr_call :: vm_call

type_synonym vm_outcome = "vm_drive \<times> vm_effect list"

section \<open>Effects on the stored row\<close>

definition observedPatch :: "observed_vm \<Rightarrow> int \<Rightarrow> vm_row \<Rightarrow> vm_row" where
  "observedPatch ob now row =
     row\<lparr>vm_observed := ob_state ob, vm_observedAt := Some now, vm_location := ref_node (ob_ref ob), vm_tags := ob_tags ob,
       vm_name := (if ob_name ob \<noteq> [] then ob_name ob else vm_name row)\<rparr>"

definition step_row :: "string \<Rightarrow> string option \<Rightarrow> int \<Rightarrow> vm_row \<Rightarrow> vm_row" where
  "step_row s task now row = row\<lparr>vm_step := Some s, vm_task := task, vm_updatedAt := Some now\<rparr>"

definition finish_row :: "observed_vm option \<Rightarrow> string option \<Rightarrow> int \<Rightarrow> vm_row \<Rightarrow> vm_row" where
  "finish_row ob err now row =
     (case ob of Some vm \<Rightarrow> observedPatch vm now row | None \<Rightarrow> row)
       \<lparr>vm_operation := None, vm_step := None, vm_task := None, vm_byId := None, vm_byName := None, vm_startedAt := None,
        vm_updatedAt := None, vm_error := err, vm_errorAt := (if truthy err then Some now else None)\<rparr>"

fun apply_effect :: "vm_effect \<Rightarrow> vm_row \<Rightarrow> vm_row" where
  "apply_effect (WriteStep s task now) row = step_row s task now row"
| "apply_effect (Beat now) row = row\<lparr>vm_updatedAt := Some now\<rparr>"
| "apply_effect (WriteFinish ob err now) row = finish_row ob err now row"
| "apply_effect _ row = row"

section \<open>The driver\<close>

text \<open>Going on to the next call; \<open>cur\<close> says whether the driver is still the current one of its change.\<close>

definition pend :: "vm_call \<Rightarrow> vm_drive \<Rightarrow> vm_outcome" where
  "pend c d = (d\<lparr>dr_call := c\<rparr>, [])"

definition issue :: "vm_call \<Rightarrow> vm_command \<Rightarrow> vm_drive \<Rightarrow> vm_outcome" where
  "issue c cmd d = (d\<lparr>dr_call := c\<rparr>, [Tell cmd])"

definition step_then :: "int \<Rightarrow> string \<Rightarrow> provider_task option \<Rightarrow> (vm_drive \<Rightarrow> vm_outcome) \<Rightarrow> vm_drive \<Rightarrow> vm_outcome" where
  "step_then now s task f d =
     (let t = map_option tk_id task; (d', effs) = f (d\<lparr>dr_row := step_row s t now (dr_row d)\<rparr>)
      in (d', WriteStep s t now # effs))"

definition when_current :: "bool \<Rightarrow> vm_call \<Rightarrow> vm_drive \<Rightarrow> vm_outcome" where
  "when_current cur c d = pend (if cur then c else Ended) d"

definition finish :: "bool \<Rightarrow> string option \<Rightarrow> vm_drive \<Rightarrow> vm_outcome" where
  "finish cur err d = when_current cur (FinishStatus err) d"

definition caught :: "bool \<Rightarrow> string option \<Rightarrow> vm_drive \<Rightarrow> vm_outcome" where
  "caught cur c d = finish cur (Some (case c of Some e \<Rightarrow> e | None \<Rightarrow> ''VM_TASK_FAILED'')) d"

definition enter_wait :: "bool \<Rightarrow> int \<Rightarrow> wait_for \<Rightarrow> provider_task \<Rightarrow> vm_drive \<Rightarrow> vm_outcome" where
  "enter_wait cur now w t d = when_current cur (PollTask w t now 0) d"

definition in_step :: "string \<Rightarrow> vm_drive \<Rightarrow> bool" where
  "in_step s d = (vm_step (dr_row d) = Some s)"

definition has_task :: "vm_drive \<Rightarrow> bool" where
  "has_task d = truthy (vm_task (dr_row d))"

subsection \<open>Power changes\<close>

definition power_go :: "bool \<Rightarrow> int \<Rightarrow> vm_action \<Rightarrow> vm_drive \<Rightarrow> vm_outcome" where
  "power_go cur now a d =
     (if in_step ''request'' d \<or> \<not> has_task d then issue (PowerCall a) (DoPower (dr_ref d) a) d
      else enter_wait cur now (PowerTask a) (taskFrom (dr_row d)) d)"

definition reread :: "vm_row option \<Rightarrow> vm_drive \<Rightarrow> vm_drive" where
  "reread stored d = (case stored of Some row \<Rightarrow> d\<lparr>dr_row := row\<rparr> | None \<Rightarrow> d)"

definition after_backup :: "bool \<Rightarrow> int \<Rightarrow> vm_row option \<Rightarrow> vm_action \<Rightarrow> vm_drive \<Rightarrow> vm_outcome" where
  "after_backup cur now stored a d =
     step_then now ''request'' None
       (\<lambda>d. power_go cur now a (reread (map_option (step_row ''request'' None now) stored) d)) d"

definition run_power :: "bool \<Rightarrow> int \<Rightarrow> vm_row option \<Rightarrow> vm_action \<Rightarrow> vm_drive \<Rightarrow> vm_outcome" where
  "run_power cur now stored a d =
     (if in_step ''backup'' d then
        if truthy (cf_backupBeforeSleep (dr_config d)) then
          if has_task d then enter_wait cur now ResumedBackup (taskFrom (dr_row d)) d
          else pend (LastBackup (the (cf_backupBeforeSleep (dr_config d)))) d
        else after_backup cur now stored a d
      else power_go cur now a (reread stored d))"

text \<open>The action of the change a driver was started for (its row keeps it until the driver ends).\<close>

definition power_action :: "vm_drive \<Rightarrow> vm_action" where
  "power_action d = (case vm_operation (dr_row d) of Some (PowerChange a) \<Rightarrow> a | _ \<Rightarrow> Start)"

subsection \<open>Creating and enrolling\<close>

definition enroll_wait :: "bool \<Rightarrow> int \<Rightarrow> vm_drive \<Rightarrow> vm_outcome" where
  "enroll_wait cur now d = (if cur then (d\<lparr>dr_call := EnrollPoll\<rparr>, [Beat now]) else pend Ended d)"

definition boot_step :: "bool \<Rightarrow> int \<Rightarrow> vm_drive \<Rightarrow> vm_outcome" where
  "boot_step cur now d = (if has_task d then enter_wait cur now BootTask (taskFrom (dr_row d)) d else pend BootStatus d)"

definition booted :: "bool \<Rightarrow> int \<Rightarrow> vm_drive \<Rightarrow> vm_outcome" where
  "booted cur now d = step_then now ''enroll'' None (enroll_wait cur now) d"

definition clear_step :: "vm_drive \<Rightarrow> vm_outcome" where
  "clear_step d = issue ClearCall (DoClearFirmware (dr_ref d)) d"

definition enrollFrom :: "bool \<Rightarrow> int \<Rightarrow> vm_drive \<Rightarrow> vm_outcome" where
  "enrollFrom cur now d =
     (if in_step ''firmware'' d then pend MintCall d
      else if in_step ''start'' d \<or> in_step ''restart'' d then boot_step cur now d
      else if in_step ''enroll'' d then enroll_wait cur now d
      else if in_step ''clear'' d then clear_step d
      else finish cur None d)"

text \<open>\<open>"start"\<close> for a create, \<open>"restart"\<close> for a new enrollment.\<close>

definition boot_name :: "vm_drive \<Rightarrow> string" where
  "boot_name d = (if vm_operation (dr_row d) = Some CreateChange then ''start'' else ''restart'')"

definition configure_step :: "vm_drive \<Rightarrow> vm_outcome" where
  "configure_step d =
     (let sp = vm_spec (dr_row d); tag = cf_sleepRequiresTag (dr_config d) in
      issue ConfigureCall (DoConfigure (dr_ref d) (sp_cores sp) (sp_memoryMb sp)
        (CREATED_TAG # (if truthy tag \<and> tag \<noteq> Some CREATED_TAG then [the tag] else []))) d)"

definition configured :: "bool \<Rightarrow> int \<Rightarrow> vm_drive \<Rightarrow> vm_outcome" where
  "configured cur now d = step_then now ''firmware'' None (enrollFrom cur now) d"

definition cloned :: "int \<Rightarrow> vm_drive \<Rightarrow> vm_outcome" where
  "cloned now d = step_then now ''configure'' None configure_step d"

definition abandon :: "bool \<Rightarrow> string \<Rightarrow> vm_drive \<Rightarrow> vm_outcome" where
  "abandon cur e d = when_current cur (ReleaseCall (Some e)) d"

definition clone_command :: "vm_drive \<Rightarrow> vm_command" where
  "clone_command d =
     DoClone (templateOf (dr_row d)) (dr_ref d) (vm_name (dr_row d))
       (case sp_pool (vm_spec (dr_row d)) of Some pool \<Rightarrow> pool | None \<Rightarrow> cf_pool (dr_config d))
       (cf_fullClone (dr_config d)) (cf_storage (dr_config d))"

definition run_create :: "bool \<Rightarrow> int \<Rightarrow> vm_drive \<Rightarrow> vm_outcome" where
  "run_create cur now d =
     (if in_step ''clone'' d then
        if has_task d then enter_wait cur now CloneTask (taskFrom (dr_row d)) d else pend CloneStatus d
      else if in_step ''configure'' d then configure_step d
      else enrollFrom cur now d)"

subsection \<open>Deleting\<close>

definition off_round :: "bool \<Rightarrow> int \<Rightarrow> nat \<Rightarrow> vm_drive \<Rightarrow> vm_outcome" where
  "off_round cur now rnd d =
     (if 3 \<le> rnd then finish cur (Some ''VM_DELETE_FAILED'') d
      else if has_task d then enter_wait cur now (OffTask rnd) (taskFrom (dr_row d)) d
      else pend (OffStatus rnd) d)"

definition remove_step :: "bool \<Rightarrow> int \<Rightarrow> vm_drive \<Rightarrow> vm_outcome" where
  "remove_step cur now d =
     (if has_task d then enter_wait cur now RemoveTask (taskFrom (dr_row d)) d
      else issue RemoveCall (DoRemove (dr_ref d)) d)"

definition release_step :: "bool \<Rightarrow> vm_drive \<Rightarrow> vm_outcome" where
  "release_step cur d = when_current cur (ReleaseCall None) d"

definition removed :: "bool \<Rightarrow> int \<Rightarrow> vm_drive \<Rightarrow> vm_outcome" where
  "removed cur now d = step_then now ''release'' None (release_step cur) d"

definition run_delete :: "bool \<Rightarrow> int \<Rightarrow> vm_drive \<Rightarrow> vm_outcome" where
  "run_delete cur now d =
     (if in_step ''stop'' d then off_round cur now 0 d
      else if in_step ''remove'' d then remove_step cur now d
      else if in_step ''release'' d then release_step cur d
      else pend Ended d)"

subsection \<open>A task ends\<close>

fun task_done :: "bool \<Rightarrow> int \<Rightarrow> vm_row option \<Rightarrow> wait_for \<Rightarrow> vm_drive \<Rightarrow> vm_outcome" where
  "task_done cur now stored ResumedBackup d = after_backup cur now stored (power_action d) d"
| "task_done cur now stored FreshBackup d = after_backup cur now stored (power_action d) d"
| "task_done cur now stored (PowerTask a) d = when_current cur (SettleStatus (SETTLES_TO a) now) d"
| "task_done cur now stored CloneTask d = cloned now d"
| "task_done cur now stored ResizeTask d = configured cur now d"
| "task_done cur now stored BootTask d = booted cur now d"
| "task_done cur now stored (OffTask rnd) d = step_then now ''stop'' None (pend (OffStatus rnd)) d"
| "task_done cur now stored RemoveTask d = removed cur now d"

fun task_failed :: "bool \<Rightarrow> wait_for \<Rightarrow> string \<Rightarrow> vm_drive \<Rightarrow> vm_outcome" where
  "task_failed cur FreshBackup e d = finish cur (Some ''VM_BACKUP_FAILED'') d"
| "task_failed cur CloneTask e d = pend (CloneAfter e) d"
| "task_failed cur _ e d = finish cur (Some e) d"

definition poll_delay :: "nat \<Rightarrow> int" where
  "poll_delay polls = (if polls < 10 then 1000 else 3000)"

definition polled ::
    "bool \<Rightarrow> int \<Rightarrow> vm_row option \<Rightarrow> wait_for \<Rightarrow> provider_task \<Rightarrow> int \<Rightarrow> nat \<Rightarrow> task_result \<Rightarrow> vm_drive \<Rightarrow> vm_outcome" where
  "polled cur now stored w t started polls result d =
     (case result of
        TaskOk \<Rightarrow> task_done cur now stored w d
      | TaskFailed e \<Rightarrow> task_failed cur w e d
      | TaskRuns \<Rightarrow>
          if now - started > deadline w then task_failed cur w ''VM_TASK_TIMEOUT'' d
          else (d\<lparr>dr_call := SleepTask w t started polls (now + poll_delay polls)\<rparr>, [Beat now]))"

subsection \<open>From an answer to the next call\<close>

text \<open>
  An answer of another kind than the call's is a call that threw. Before its timer rings a sleeping
  driver does nothing. The clock of the last answer (\<open>FinishStatus\<close>) is the one \<open>finish\<close> read before it
  asked; only the times it writes depend on it.
\<close>

definition got_provider :: "bool \<Rightarrow> int \<Rightarrow> vm_row option \<Rightarrow> vm_answer \<Rightarrow> vm_drive \<Rightarrow> vm_outcome" where
  "got_provider cur now stored ans d =
     (case ans of
        ProviderIs config \<Rightarrow>
          let d = d\<lparr>dr_config := config, dr_ref := refOf (dr_row d)\<rparr> in
          (case vm_operation (dr_row d) of
             Some (PowerChange a) \<Rightarrow> run_power cur now stored a d
           | Some CreateChange \<Rightarrow> run_create cur now d
           | Some EnrollChange \<Rightarrow> enrollFrom cur now d
           | Some DeleteChange \<Rightarrow> run_delete cur now d
           | None \<Rightarrow> pend Ended d)
      | _ \<Rightarrow> pend Ended d)"

definition backup_known :: "bool \<Rightarrow> int \<Rightarrow> vm_row option \<Rightarrow> string \<Rightarrow> vm_answer \<Rightarrow> vm_drive \<Rightarrow> vm_outcome" where
  "backup_known cur now stored storage ans d =
     (case ans of
        BackupAt newest \<Rightarrow>
          if (case newest of Some t \<Rightarrow> now - t < BACKUP_FRESH_MS | None \<Rightarrow> False)
          then after_backup cur now stored (power_action d) d
          else issue MakeBackup (DoBackup (dr_ref d) storage) d
      | Threw c \<Rightarrow> caught cur c d | _ \<Rightarrow> caught cur None d)"

definition seen_of :: "vm_answer \<Rightarrow> observed_vm option" where
  "seen_of ans = (case ans of Seen ob \<Rightarrow> ob | _ \<Rightarrow> None)"

definition seen_state :: "observed_vm option \<Rightarrow> vm_state option" where
  "seen_state ob = map_option ob_state ob"

definition task_started :: "bool \<Rightarrow> int \<Rightarrow> string \<Rightarrow> (provider_task \<Rightarrow> vm_drive \<Rightarrow> vm_outcome) \<Rightarrow> vm_answer \<Rightarrow> vm_drive \<Rightarrow> vm_outcome" where
  "task_started cur now s f ans d =
     (case ans of
        TaskIs t \<Rightarrow> step_then now s (Some t) (f t) d
      | Threw c \<Rightarrow> caught cur c d | _ \<Rightarrow> caught cur None d)"

definition settled_status :: "bool \<Rightarrow> int \<Rightarrow> vm_state \<Rightarrow> int \<Rightarrow> vm_answer \<Rightarrow> vm_drive \<Rightarrow> vm_outcome" where
  "settled_status cur now target started ans d =
     (case seen_of ans of
        None \<Rightarrow> finish cur None d
      | Some ob \<Rightarrow>
          if ob_state ob = target \<or> now - started > SETTLE_MS then finish cur None d
          else (d\<lparr>dr_call := SettleSleep target started (now + 2000)\<rparr>, [Beat now]))"

definition clone_status :: "bool \<Rightarrow> int \<Rightarrow> vm_answer \<Rightarrow> vm_drive \<Rightarrow> vm_outcome" where
  "clone_status cur now ans d =
     (case ans of
        Seen None \<Rightarrow> issue CloneCall (clone_command d) d
      | Seen (Some ob) \<Rightarrow> if ob_name ob = vm_name (dr_row d) then cloned now d else abandon cur ''VM_ID_TAKEN'' d
      | Threw c \<Rightarrow> caught cur c d | _ \<Rightarrow> caught cur None d)"

definition clone_asked :: "bool \<Rightarrow> int \<Rightarrow> vm_answer \<Rightarrow> vm_drive \<Rightarrow> vm_outcome" where
  "clone_asked cur now ans d =
     (case ans of
        TaskIs t \<Rightarrow> step_then now ''clone'' (Some t) (enter_wait cur now CloneTask t) d
      | Threw (Some c) \<Rightarrow> abandon cur c d | _ \<Rightarrow> abandon cur ''VM_TASK_FAILED'' d)"

definition clone_after :: "bool \<Rightarrow> string \<Rightarrow> vm_answer \<Rightarrow> vm_drive \<Rightarrow> vm_outcome" where
  "clone_after cur e ans d =
     (case seen_of ans of
        Some ob \<Rightarrow> if ob_name ob = vm_name (dr_row d) then finish cur (Some e) d else abandon cur e d
      | None \<Rightarrow> abandon cur e d)"

definition configure_done :: "bool \<Rightarrow> int \<Rightarrow> vm_answer \<Rightarrow> vm_drive \<Rightarrow> vm_outcome" where
  "configure_done cur now ans d =
     (case ans of
        Fine \<Rightarrow> (case sp_diskGb (vm_spec (dr_row d)) of
            Some (Suc n) \<Rightarrow> issue ResizeCall (DoResize (dr_ref d) (Suc n)) d
          | _ \<Rightarrow> configured cur now d)
      | Threw c \<Rightarrow> caught cur c d | _ \<Rightarrow> caught cur None d)"

definition resize_asked :: "bool \<Rightarrow> int \<Rightarrow> vm_answer \<Rightarrow> vm_drive \<Rightarrow> vm_outcome" where
  "resize_asked cur now ans d =
     (case ans of
        MaybeTask None \<Rightarrow> configured cur now d
      | MaybeTask (Some t) \<Rightarrow> enter_wait cur now ResizeTask t d
      | Threw c \<Rightarrow> caught cur c d | _ \<Rightarrow> caught cur None d)"

definition minted :: "bool \<Rightarrow> string \<Rightarrow> vm_answer \<Rightarrow> vm_drive \<Rightarrow> vm_outcome" where
  "minted cur serverUrl ans d =
     (case ans of
        EnrollCode c \<Rightarrow> issue FirmwareCall (DoFirmware (dr_ref d) c
          (case cf_enrollUrl (dr_config d) of Some url \<Rightarrow> url | None \<Rightarrow> serverUrl)) d
      | Threw c \<Rightarrow> caught cur c d | _ \<Rightarrow> caught cur None d)"

definition firmware_set :: "bool \<Rightarrow> int \<Rightarrow> vm_answer \<Rightarrow> vm_drive \<Rightarrow> vm_outcome" where
  "firmware_set cur now ans d =
     (case ans of
        Fine \<Rightarrow> step_then now (boot_name d) None (boot_step cur now) d
      | Threw c \<Rightarrow> caught cur c d | _ \<Rightarrow> caught cur None d)"

definition boot_status :: "bool \<Rightarrow> int \<Rightarrow> vm_answer \<Rightarrow> vm_drive \<Rightarrow> vm_outcome" where
  "boot_status cur now ans d =
     (case ans of
        Seen ob \<Rightarrow>
          if in_step ''start'' d \<and> seen_state ob = Some Running then booted cur now d
          else issue BootCall (DoPower (dr_ref d) (if seen_state ob = Some Running then Reboot else Start)) d
      | Threw c \<Rightarrow> caught cur c d | _ \<Rightarrow> caught cur None d)"

definition boot_asked :: "bool \<Rightarrow> int \<Rightarrow> vm_answer \<Rightarrow> vm_drive \<Rightarrow> vm_outcome" where
  "boot_asked cur now ans d =
     task_started cur now (case vm_step (dr_row d) of Some s \<Rightarrow> s | None \<Rightarrow> []) (enter_wait cur now BootTask) ans d"

definition enroll_state_known :: "bool \<Rightarrow> int \<Rightarrow> vm_answer \<Rightarrow> vm_drive \<Rightarrow> vm_outcome" where
  "enroll_state_known cur now ans d =
     (case ans of
        EnrollIs Enrolled \<Rightarrow> step_then now ''clear'' None clear_step d
      | EnrollIs Expired \<Rightarrow> finish cur (Some ''VM_ENROLL_TIMEOUT'') d
      | EnrollIs Waiting \<Rightarrow> pend (EnrollSleep (now + ENROLL_POLL_MS)) d
      | Threw c \<Rightarrow> caught cur c d | _ \<Rightarrow> caught cur None d)"

definition off_status :: "bool \<Rightarrow> int \<Rightarrow> nat \<Rightarrow> vm_answer \<Rightarrow> vm_drive \<Rightarrow> vm_outcome" where
  "off_status cur now rnd ans d =
     (case ans of
        Seen ob \<Rightarrow>
          if ob = None \<or> seen_state ob = Some Stopped then step_then now ''remove'' None (remove_step cur now) d
          else issue (OffCall rnd) (DoPower (dr_ref d) (if seen_state ob = Some Hibernated then Start else Stop)) d
      | Threw c \<Rightarrow> caught cur c d | _ \<Rightarrow> caught cur None d)"

definition remove_asked :: "bool \<Rightarrow> int \<Rightarrow> vm_answer \<Rightarrow> vm_drive \<Rightarrow> vm_outcome" where
  "remove_asked cur now ans d =
     (case ans of
        MaybeTask None \<Rightarrow> removed cur now d
      | MaybeTask (Some t) \<Rightarrow> step_then now ''remove'' (Some t) (enter_wait cur now RemoveTask t) d
      | Threw c \<Rightarrow> caught cur c d | _ \<Rightarrow> caught cur None d)"

definition released :: "bool \<Rightarrow> string option \<Rightarrow> vm_answer \<Rightarrow> vm_drive \<Rightarrow> vm_outcome" where
  "released cur reason ans d =
     (case ans of
        Fine \<Rightarrow> (d\<lparr>dr_call := Ended\<rparr>, [ReleaseRow, Audit (vm_operation (dr_row d)) reason])
      | Threw c \<Rightarrow> caught cur c d | _ \<Rightarrow> caught cur None d)"

definition advance :: "string \<Rightarrow> bool \<Rightarrow> int \<Rightarrow> vm_row option \<Rightarrow> vm_answer \<Rightarrow> vm_drive \<Rightarrow> vm_outcome" where
  "advance serverUrl cur now stored ans d =
     (case dr_call d of
        GetProvider \<Rightarrow> got_provider cur now stored ans d
      | LastBackup storage \<Rightarrow> backup_known cur now stored storage ans d
      | MakeBackup \<Rightarrow> task_started cur now ''backup'' (enter_wait cur now FreshBackup) ans d
      | PollTask w t started polls \<Rightarrow>
          (case ans of
             TaskState r \<Rightarrow> polled cur now stored w t started polls r d
           | Threw c \<Rightarrow> caught cur c d | _ \<Rightarrow> caught cur None d)
      | SleepTask w t started polls ring \<Rightarrow>
          if now < ring then (d, []) else when_current cur (PollTask w t started (Suc polls)) d
      | PowerCall a \<Rightarrow> task_started cur now ''wait'' (enter_wait cur now (PowerTask a)) ans d
      | SettleStatus target started \<Rightarrow> settled_status cur now target started ans d
      | SettleSleep target started ring \<Rightarrow>
          if now < ring then (d, []) else when_current cur (SettleStatus target started) d
      | FinishStatus err \<Rightarrow>
          (d\<lparr>dr_call := Ended\<rparr>, [WriteFinish (seen_of ans) err now, Audit (vm_operation (dr_row d)) err])
      | CloneStatus \<Rightarrow> clone_status cur now ans d
      | CloneCall \<Rightarrow> clone_asked cur now ans d
      | CloneAfter e \<Rightarrow> clone_after cur e ans d
      | ConfigureCall \<Rightarrow> configure_done cur now ans d
      | ResizeCall \<Rightarrow> resize_asked cur now ans d
      | MintCall \<Rightarrow> minted cur serverUrl ans d
      | FirmwareCall \<Rightarrow> firmware_set cur now ans d
      | BootStatus \<Rightarrow> boot_status cur now ans d
      | BootCall \<Rightarrow> boot_asked cur now ans d
      | EnrollPoll \<Rightarrow> enroll_state_known cur now ans d
      | EnrollSleep ring \<Rightarrow> if now < ring then (d, []) else enroll_wait cur now d
      | ClearCall \<Rightarrow> finish cur None d
      | OffStatus rnd \<Rightarrow> off_status cur now rnd ans d
      | OffCall rnd \<Rightarrow> task_started cur now ''stop'' (\<lambda>t. off_round cur now (Suc rnd)) ans d
      | RemoveCall \<Rightarrow> remove_asked cur now ans d
      | ReleaseCall reason \<Rightarrow> released cur reason ans d
      | Ended \<Rightarrow> (d, []))"

section \<open>The guards of the link\<close>

text \<open>
  What an unlink, and the removal or the move of a host, reads before it goes on: an unlink answers the
  row it will delete, a guard the error it throws. \<open>releasing\<close> holds the hosts whose machine is being deleted.
\<close>

definition machine_of :: "vm_row list \<Rightarrow> string \<Rightarrow> string \<Rightarrow> string + vm_row" where
  "machine_of rows org h =
     (case List.find (\<lambda>row. vm_organization row = org \<and> vm_host row = h) rows of
        None \<Rightarrow> Inl ''VM_NOT_LINKED'' | Some row \<Rightarrow> Inr row)"

definition unlink_vm :: "vm_row list \<Rightarrow> string \<Rightarrow> string \<Rightarrow> string + vm_row" where
  "unlink_vm rows org h =
     (case machine_of rows org h of
        Inl e \<Rightarrow> Inl e
      | Inr row \<Rightarrow>
          if vm_origin row = Created then Inl ''VM_CREATED_BY_PDMUX''
          else if vm_operation row \<noteq> None then Inl ''VM_OPERATION_IN_PROGRESS''
          else Inr row)"

definition guardRemoval :: "string list \<Rightarrow> vm_row list \<Rightarrow> string \<Rightarrow> string \<Rightarrow> string option" where
  "guardRemoval releasing rows org h =
     (if h \<in> set releasing then None
      else case machine_of rows org h of
        Inl _ \<Rightarrow> None
      | Inr row \<Rightarrow> if vm_origin row = Created then Some ''VM_DELETE_REQUIRED''
          else if vm_operation row \<noteq> None then Some ''VM_OPERATION_IN_PROGRESS'' else None)"

definition guardMove :: "vm_row list \<Rightarrow> string \<Rightarrow> string \<Rightarrow> string option" where
  "guardMove rows org h = (case machine_of rows org h of Inl _ \<Rightarrow> None | Inr _ \<Rightarrow> Some ''VM_HOST_MOVE_BLOCKED'')"

end
