(* ===== verification/VmDrive.thy ===== *)
theory VmDrive
  imports Vm Machines
begin

text \<open>
  One driver from its start to its end: every change ends, in the way it ends the row is freed or
  gone, and the provider is told to act only where the code means it to.
\<close>

section \<open>The next call\<close>

definition next_call :: "vm_outcome \<Rightarrow> vm_call" where
  "next_call out = dr_call (fst out)"

lemma next_call_simps [simp]:
  "next_call (d, effs) = dr_call d"
  "next_call (pend c d) = c"
  "next_call (issue c cmd d) = c"
  "next_call (step_then now s task f d) = next_call (f (d\<lparr>dr_row := step_row s (map_option tk_id task) now (dr_row d)\<rparr>))"
  "next_call (when_current cur c d) = (if cur then c else Ended)"
  "next_call (finish cur err d) = (if cur then FinishStatus err else Ended)"
  "next_call (enter_wait cur now w t d) = (if cur then PollTask w t now 0 else Ended)"
  by (simp_all add: next_call_def pend_def issue_def step_then_def when_current_def finish_def enter_wait_def Let_def split_beta)

lemma next_call_caught [simp]:
  "next_call (caught cur c d) = (if cur then FinishStatus (Some (case c of Some e \<Rightarrow> e | None \<Rightarrow> ''VM_TASK_FAILED'')) else Ended)"
  by (simp add: caught_def)

lemma has_task_stepped [simp]:
  "has_task (d\<lparr>dr_row := step_row s t now row\<rparr>) = truthy t"
  by (simp add: has_task_def step_row_def)

lemma in_step_stepped [simp]:
  "in_step s' (d\<lparr>dr_row := step_row s t now row\<rparr>) = (s = s')"
  by (simp add: in_step_def step_row_def)

lemmas create_defs = run_create_def enrollFrom_def boot_step_def booted_def enroll_wait_def clear_step_def
  configure_step_def configured_def cloned_def abandon_def
lemmas delete_defs = run_delete_def off_round_def remove_step_def removed_def release_step_def
lemmas power_defs = run_power_def after_backup_def power_go_def
lemmas answer_defs = got_provider_def backup_known_def task_started_def polled_def settled_status_def
  clone_status_def clone_asked_def clone_after_def configure_done_def resize_asked_def minted_def firmware_set_def
  boot_status_def boot_asked_def enroll_state_known_def off_status_def remove_asked_def released_def

section \<open>Every change ends\<close>

text \<open>
  How many answers a driver may still need, seen from the clock \<open>c\<close>: the stages that are left, and
  of the wait it is in two for every second that is left. \<open>T\<close> is a time from which on the enrollment
  service no longer says \<open>waiting\<close> (a code lives for a bounded time).
\<close>

definition wait_budget :: "int \<Rightarrow> int \<Rightarrow> nat" where
  "wait_budget limit c = 2 * nat ((limit + 1000 - c) div 1000) + 2"

definition STAGE :: nat where "STAGE = 8000"

fun wait_base :: "nat \<Rightarrow> wait_for \<Rightarrow> nat" where
  "wait_base e ResumedBackup = 3 * STAGE"
| "wait_base e FreshBackup = 3 * STAGE"
| "wait_base e (PowerTask a) = STAGE"
| "wait_base e CloneTask = 5 * STAGE + e"
| "wait_base e ResizeTask = 3 * STAGE + e"
| "wait_base e BootTask = STAGE + e"
| "wait_base e (OffTask r) = (3 + 2 * (3 - r)) * STAGE + 1"
| "wait_base e RemoveTask = STAGE"

fun patience :: "int \<Rightarrow> int \<Rightarrow> vm_call \<Rightarrow> nat" where
  "patience T c Ended = 0"
| "patience T c (FinishStatus _) = 1"
| "patience T c ClearCall = 2"
| "patience T c (ReleaseCall _) = 2"
| "patience T c (CloneAfter _) = 3"
| "patience T c (SettleStatus _ started) = wait_budget (started + SETTLE_MS) c"
| "patience T c (SettleSleep _ started ring) = wait_budget (started + SETTLE_MS) ring + 1"
| "patience T c (PollTask w t started polls) = wait_base (wait_budget T c) w + wait_budget (started + deadline w) c"
| "patience T c (SleepTask w t started polls ring) = wait_base (wait_budget T c) w + wait_budget (started + deadline w) ring + 1"
| "patience T c (PowerCall _) = 2 * STAGE"
| "patience T c MakeBackup = 4 * STAGE"
| "patience T c (LastBackup _) = 4 * STAGE + 1"
| "patience T c EnrollPoll = wait_budget T c + 1"
| "patience T c (EnrollSleep ring) = wait_budget T ring + 2"
| "patience T c BootCall = 2 * STAGE + wait_budget T c"
| "patience T c BootStatus = 2 * STAGE + 1 + wait_budget T c"
| "patience T c FirmwareCall = 2 * STAGE + 2 + wait_budget T c"
| "patience T c MintCall = 2 * STAGE + 3 + wait_budget T c"
| "patience T c ResizeCall = 4 * STAGE + wait_budget T c"
| "patience T c ConfigureCall = 4 * STAGE + 1 + wait_budget T c"
| "patience T c CloneCall = 6 * STAGE + wait_budget T c"
| "patience T c CloneStatus = 6 * STAGE + 1 + wait_budget T c"
| "patience T c RemoveCall = 2 * STAGE"
| "patience T c (OffStatus r) = (3 + 2 * (3 - r)) * STAGE"
| "patience T c (OffCall r) = (3 + 2 * (3 - r)) * STAGE - 1"
| "patience T c GetProvider = 20 * STAGE + wait_budget T c"

lemma wait_budget_ge: "2 \<le> wait_budget limit c"
  by (simp add: wait_budget_def)

lemma wait_budget_mono: "c \<le> c' \<Longrightarrow> wait_budget limit c' \<le> wait_budget limit c"
  by (simp add: wait_budget_def zdiv_mono1 nat_mono)

text \<open>A wait that begins now lasts less than a stage.\<close>

lemma deadline_bounds: "0 < deadline w" "deadline w \<le> 3600000"
proof -
  have "0 < DEADLINE_MS a \<and> DEADLINE_MS a \<le> 3600000" for a by (cases a) simp_all
  then show "0 < deadline w" "deadline w \<le> 3600000"
    by (cases w; simp add: BACKUP_DEADLINE_MS_def CLONE_MS_def START_MS_def REMOVE_MS_def RESIZE_MS_def)+
qed

lemma fresh_wait: "wait_budget (now + deadline w) now < STAGE"
proof -
  have "(deadline w + 1000) div 1000 \<le> (3600000 + 1000) div 1000"
    by (rule zdiv_mono1) (use deadline_bounds [of w] in simp_all)
  then show ?thesis by (simp add: wait_budget_def STAGE_def algebra_simps)
qed

lemma fresh_settle: "wait_budget (now + SETTLE_MS) now < STAGE"
  by (simp add: wait_budget_def STAGE_def SETTLE_MS_def)

text \<open>Falling asleep and waking up both use the budget.\<close>

lemma asleep:
  assumes "c \<le> now" "now \<le> limit" "now + 1000 \<le> ring"
  shows "wait_budget limit ring + 1 < wait_budget limit c"
proof -
  have "(limit + 1000 - ring) div 1000 \<le> (limit - c) div 1000" by (rule zdiv_mono1) (use assms in simp_all)
  moreover have "(limit + 1000 - c) div 1000 = (limit - c) div 1000 + 1"
    using div_add_self2 [of 1000 "limit - c"] by (simp add: algebra_simps)
  moreover have "0 \<le> (limit - c) div 1000" using assms by (simp add: pos_imp_zdiv_nonneg_iff)
  ultimately show ?thesis by (simp add: wait_budget_def)
qed

subsection \<open>The stages go down\<close>

lemma patience_wait: "patience T now (next_call (enter_wait cur now w t d)) \<le> wait_base (wait_budget T now) w + STAGE - 1"
  using fresh_wait [of now w] by (simp add: STAGE_def)

lemma patience_wait_less:
  "wait_base (wait_budget T now) w + STAGE \<le> n \<Longrightarrow> patience T now (next_call (enter_wait cur now w t d)) < n"
  using fresh_wait [of now w] by (simp add: STAGE_def)

lemma patience_finish: "patience T now (next_call (finish cur err d)) \<le> 1"
  by simp

lemma power_go_patience: "patience T now (next_call (power_go cur now a d)) \<le> 2 * STAGE"
  using fresh_wait [of now "PowerTask a"] by (simp add: power_go_def STAGE_def)

lemma after_backup_patience: "patience T now (next_call (after_backup cur now stored a d)) \<le> 2 * STAGE"
  by (simp add: after_backup_def power_go_patience)

lemma run_power_patience: "patience T now (next_call (run_power cur now stored a d)) \<le> 4 * STAGE + 1"
  using fresh_wait [of now ResumedBackup] after_backup_patience [of T now cur stored a d]
    power_go_patience [of T now cur a "reread stored d"]
  by (simp add: run_power_def STAGE_def)

lemma enroll_wait_patience: "patience T now (next_call (enroll_wait cur now d)) \<le> wait_budget T now + 1"
  by (simp add: enroll_wait_def)

lemma booted_patience: "patience T now (next_call (booted cur now d)) \<le> wait_budget T now + 1"
  using enroll_wait_patience by (simp add: booted_def)

lemma boot_step_patience: "patience T now (next_call (boot_step cur now d)) \<le> 2 * STAGE + 1 + wait_budget T now"
  using fresh_wait [of now BootTask] by (simp add: boot_step_def STAGE_def)

lemma enrollFrom_patience: "patience T now (next_call (enrollFrom cur now d)) \<le> 2 * STAGE + 3 + wait_budget T now"
  using boot_step_patience [of T now cur d] enroll_wait_patience [of T now cur d]
  by (simp add: enrollFrom_def clear_step_def)

lemma configured_patience: "patience T now (next_call (configured cur now d)) \<le> 2 * STAGE + 3 + wait_budget T now"
  by (simp add: configured_def enrollFrom_patience del: next_call_simps(6))

lemma run_create_patience: "patience T now (next_call (run_create cur now d)) \<le> 6 * STAGE + 1 + wait_budget T now"
  using fresh_wait [of now CloneTask] enrollFrom_patience [of T now cur d]
  by (simp add: run_create_def configure_step_def Let_def STAGE_def)

lemma cloned_call [simp]: "next_call (cloned now d) = ConfigureCall"
  by (simp add: cloned_def configure_step_def Let_def)

lemma abandon_call [simp]: "next_call (abandon cur e d) = (if cur then ReleaseCall (Some e) else Ended)"
  by (simp add: abandon_def)

lemma remove_step_patience: "patience T now (next_call (remove_step cur now d)) \<le> 2 * STAGE"
  using fresh_wait [of now RemoveTask] by (simp add: remove_step_def STAGE_def)

lemma removed_call [simp]: "next_call (removed cur now d) = (if cur then ReleaseCall None else Ended)"
  by (simp add: removed_def release_step_def)

lemma off_round_patience: "patience T now (next_call (off_round cur now r d)) \<le> (if 3 \<le> r then 1 else (4 + 2 * (3 - r)) * STAGE)"
  using fresh_wait [of now "OffTask r"] by (simp add: off_round_def STAGE_def)

lemma run_delete_patience: "patience T now (next_call (run_delete cur now d)) \<le> 10 * STAGE"
  using off_round_patience [of T now cur 0 d] remove_step_patience [of T now cur d]
  by (simp add: run_delete_def release_step_def STAGE_def)

lemmas patience_bounds = after_backup_patience run_power_patience booted_patience boot_step_patience enrollFrom_patience
  configured_patience run_create_patience remove_step_patience run_delete_patience

subsection \<open>Every answer uses up patience\<close>

text \<open>The timers ring when they are due, and the enrollment service answers \<open>waiting\<close> only before \<open>T\<close>.\<close>

fun timely_answer :: "int \<Rightarrow> int \<Rightarrow> vm_call \<Rightarrow> vm_answer \<Rightarrow> bool" where
  "timely_answer T now (SleepTask _ _ _ _ ring) _ = (ring \<le> now)"
| "timely_answer T now (SettleSleep _ _ ring) _ = (ring \<le> now)"
| "timely_answer T now (EnrollSleep ring) _ = (ring \<le> now)"
| "timely_answer T now EnrollPoll ans = (ans = EnrollIs Waiting \<longrightarrow> now < T)"
| "timely_answer T now _ _ = True"

lemma task_done_patience:
  assumes "c \<le> now"
  shows "patience T now (next_call (task_done cur now stored w d)) < patience T c (PollTask w t started polls)"
proof -
  have e: "wait_budget T now \<le> wait_budget T c" by (rule wait_budget_mono [OF assms])
  have b: "2 \<le> wait_budget (started + deadline w) c" by (rule wait_budget_ge)
  show ?thesis
  proof (cases w)
    case (PowerTask a)
    then show ?thesis using fresh_settle [of now] b by simp
  next
    case (OffTask r)
    then show ?thesis using b by (simp add: STAGE_def)
  qed (use e b patience_bounds [of T now cur] in \<open>simp_all add: STAGE_def le_less_trans [OF after_backup_patience]
      le_less_trans [OF configured_patience] le_less_trans [OF booted_patience]\<close>)
qed

lemma task_failed_patience: "patience T now (next_call (task_failed cur w e d)) < patience T c (PollTask w t started polls)"
proof -
  have "2 \<le> wait_budget (started + deadline w) c" by (rule wait_budget_ge)
  then show ?thesis by (cases w) (simp_all add: STAGE_def)
qed

lemma poll_delay_ge: "1000 \<le> poll_delay polls"
  by (simp add: poll_delay_def)

lemma wait_base_mono: "e \<le> e' \<Longrightarrow> wait_base e w \<le> wait_base e' w"
  by (cases w) simp_all

lemma polled_patience:
  assumes "c \<le> now"
  shows "patience T now (next_call (polled cur now stored w t started polls r d)) < patience T c (PollTask w t started polls)"
proof (cases r)
  case TaskRuns
  have "wait_base (wait_budget T now) w \<le> wait_base (wait_budget T c) w"
    by (rule wait_base_mono [OF wait_budget_mono [OF assms]])
  moreover have "wait_budget (started + deadline w) (now + poll_delay polls) + 1 < wait_budget (started + deadline w) c"
    if "now - started \<le> deadline w"
    by (rule asleep [OF assms]) (use that poll_delay_ge [of polls] in simp_all)
  ultimately show ?thesis
    using TaskRuns task_failed_patience [of T now cur w "''VM_TASK_TIMEOUT''" d c t started polls]
    by (cases "now - started > deadline w") (simp_all add: polled_def)
qed (use assms task_done_patience task_failed_patience in \<open>auto simp: polled_def\<close>)

lemma task_started_patience:
  assumes "\<And>t d. patience T now (next_call (f t d)) < n" and "1 < n"
  shows "patience T now (next_call (task_started cur now s f ans d)) < n"
  using assms by (cases ans) (simp_all add: task_started_def)

lemmas patience_less = patience_bounds [THEN le_less_trans]

lemma advance_patience:
  assumes "c \<le> now" and "dr_call d \<noteq> Ended" and "timely_answer T now (dr_call d) ans"
  shows "patience T now (next_call (advance url cur now stored ans d)) < patience T c (dr_call d)"
proof -
  have e: "wait_budget T now \<le> wait_budget T c" by (rule wait_budget_mono [OF assms(1)])
  have wait: "patience T now (next_call (enter_wait cur now w t d)) < n" if "wait_base (wait_budget T now) w + STAGE \<le> n" for w t d n
    using that by (rule patience_wait_less)
  show ?thesis
  proof (cases "dr_call d")
    case GetProvider
    then show ?thesis
      using e by (auto simp: advance_def got_provider_def Let_def STAGE_def intro!: patience_less
          split: vm_answer.split option.split vm_operation.split)
  next
    case (LastBackup st)
    then show ?thesis using e
      by (auto simp: advance_def backup_known_def STAGE_def intro!: patience_less split: vm_answer.split)
  next
    case MakeBackup
    then show ?thesis
      by (auto simp: advance_def STAGE_def intro!: task_started_patience wait)
  next
    case (PollTask w t started polls)
    have "1 < patience T c (PollTask w t started polls)" using wait_budget_ge [of "started + deadline w" c] by simp
    then show ?thesis using PollTask polled_patience [OF assms(1)]
      by (auto simp: advance_def split: vm_answer.split)
  next
    case (SleepTask w t started polls ring)
    then have "wait_budget (started + deadline w) now \<le> wait_budget (started + deadline w) ring"
      using assms(3) by (intro wait_budget_mono) simp
    moreover have "wait_base (wait_budget T now) w \<le> wait_base (wait_budget T c) w" by (rule wait_base_mono [OF e])
    ultimately show ?thesis using SleepTask assms(3) by (simp add: advance_def)
  next
    case (PowerCall a)
    then show ?thesis by (auto simp: advance_def STAGE_def intro!: task_started_patience wait)
  next
    case (SettleStatus target started)
    have "wait_budget (started + SETTLE_MS) (now + 2000) + 1 < wait_budget (started + SETTLE_MS) c" if "now - started \<le> SETTLE_MS"
      by (rule asleep [OF assms(1)]) (use that in simp_all)
    then show ?thesis using SettleStatus wait_budget_ge [of "started + SETTLE_MS" c]
      by (auto simp: advance_def settled_status_def split: option.split)
  next
    case (SettleSleep target started ring)
    then have "wait_budget (started + SETTLE_MS) now \<le> wait_budget (started + SETTLE_MS) ring"
      using assms(3) by (intro wait_budget_mono) simp
    then show ?thesis using SettleSleep assms(3) by (simp add: advance_def)
  next
    case CloneCall
    then show ?thesis using e fresh_wait [of now CloneTask]
      by (auto simp: advance_def clone_asked_def STAGE_def intro!: wait split: vm_answer.split option.split)
  next
    case ConfigureCall
    then show ?thesis using e
      by (auto simp: advance_def configure_done_def STAGE_def intro!: patience_less split: vm_answer.split option.split nat.split)
  next
    case ResizeCall
    then show ?thesis using e fresh_wait [of now ResizeTask]
      by (auto simp: advance_def resize_asked_def STAGE_def intro!: patience_less wait split: vm_answer.split option.split)
  next
    case FirmwareCall
    then show ?thesis using e
      by (auto simp: advance_def firmware_set_def STAGE_def intro!: patience_less split: vm_answer.split)
  next
    case BootStatus
    then show ?thesis using e
      by (auto simp: advance_def boot_status_def STAGE_def intro!: patience_less split: vm_answer.split)
  next
    case BootCall
    then show ?thesis using e
      by (auto simp: advance_def boot_asked_def STAGE_def intro!: task_started_patience wait)
  next
    case EnrollPoll
    have "wait_budget T (now + ENROLL_POLL_MS) + 1 < wait_budget T c" if "now < T"
      by (rule asleep [OF assms(1)]) (use that in \<open>simp_all add: ENROLL_POLL_MS_def\<close>)
    then show ?thesis using EnrollPoll assms(3) wait_budget_ge [of T c]
      by (auto simp: advance_def enroll_state_known_def clear_step_def split: vm_answer.split enroll_state.split)
  next
    case (EnrollSleep ring)
    then have "wait_budget T now \<le> wait_budget T ring" using assms(3) by (intro wait_budget_mono) simp
    then show ?thesis using EnrollSleep assms(3) enroll_wait_patience [of T now cur d] by (simp add: advance_def)
  next
    case (OffStatus r)
    then show ?thesis using e
      by (auto simp: advance_def off_status_def STAGE_def intro!: patience_less split: vm_answer.split)
  next
    case (OffCall r)
    have "patience T now (next_call (off_round cur now (Suc r) d')) < (3 + 2 * (3 - r)) * STAGE - 1" for d'
    proof -
      have "(if 3 \<le> Suc r then 1 else (4 + 2 * (3 - Suc r)) * STAGE) < (3 + 2 * (3 - r)) * STAGE - 1"
        by (simp add: STAGE_def) linarith
      then show ?thesis using off_round_patience [of T now cur "Suc r" d'] by (rule le_less_trans [rotated])
    qed
    then show ?thesis using OffCall by (auto simp: advance_def STAGE_def intro!: task_started_patience)
  next
    case RemoveCall
    then show ?thesis using fresh_wait [of now RemoveTask] by (auto simp: advance_def remove_asked_def STAGE_def intro!: wait split: vm_answer.split option.split)
  qed (use assms e in \<open>auto simp: advance_def clone_status_def clone_after_def minted_def released_def STAGE_def
      split: vm_answer.split option.split\<close>)
qed

section \<open>Runs of a driver\<close>

text \<open>An event: whether the driver is still current, the clock, the stored row, the answer.\<close>

type_synonym drive_event = "bool \<times> int \<times> vm_row option \<times> vm_answer"

fun drive_step :: "string \<Rightarrow> int \<times> vm_drive \<Rightarrow> drive_event \<Rightarrow> (int \<times> vm_drive) \<times> vm_effect list" where
  "drive_step url (c, d) (cur, now, stored, ans) =
     (let (d', effs) = advance url cur now stored ans d in ((now, d'), effs))"

definition drive_next :: "string \<Rightarrow> int \<times> vm_drive \<Rightarrow> drive_event \<Rightarrow> int \<times> vm_drive" where
  "drive_next url s e = fst (drive_step url s e)"

fun answer_allowed :: "int \<Rightarrow> int \<times> vm_drive \<Rightarrow> drive_event \<Rightarrow> bool" where
  "answer_allowed T (c, d) (cur, now, stored, ans) = (c \<le> now \<and> timely_answer T now (dr_call d) ans)"

definition has_ended :: "int \<times> vm_drive \<Rightarrow> bool" where
  "has_ended s = (dr_call (snd s) = Ended)"

lemma drive_next_call: "dr_call (snd (drive_next url (c, d) (cur, now, stored, ans))) = next_call (advance url cur now stored ans d)"
  by (simp add: drive_next_def next_call_def split_beta Let_def)

interpretation driver: ranked_machine "drive_next url" "answer_allowed T" "\<lambda>s. patience T (fst s) (dr_call (snd s))" has_ended for url T
proof
  fix s :: "int \<times> vm_drive" and e :: drive_event
  obtain c d where s: "s = (c, d)" by (cases s)
  obtain cur now stored ans where e: "e = (cur, now, stored, ans)" by (cases e)
  show "has_ended s \<Longrightarrow> has_ended (drive_next url s e)"
    by (simp add: has_ended_def s e drive_next_call) (simp add: advance_def)
  assume "\<not> has_ended s" and "answer_allowed T s e"
  moreover have "fst (drive_next url s e) = now" by (simp add: s e drive_next_def split_beta Let_def)
  ultimately show "patience T (fst (drive_next url s e)) (dr_call (snd (drive_next url s e))) < patience T (fst s) (dr_call (snd s))"
    using advance_patience [of c now d T ans url cur stored] by (simp add: s e has_ended_def drive_next_call)
qed


text \<open>A machine, a provider, and the answers to a reboot that takes the machine two polls.\<close>

definition example_vm :: "vm_operation \<Rightarrow> string \<Rightarrow> vm_row" where
  "example_vm change s = \<lparr>vm_id = ''m1'', vm_organization = ''o1'', vm_host = ''h1'', vm_provider = ''p1'', vm_location = ''n1'',
     vm_external = 500, vm_name = ''web'', vm_origin = Created,
     vm_spec = \<lparr>sp_cores = 4, sp_memoryMb = 4096, sp_diskGb = None, sp_template = None, sp_pool = None\<rparr>, vm_tags = [],
     vm_observed = Running, vm_observedAt = None, vm_operation = Some change, vm_step = Some s, vm_task = None,
     vm_byId = None, vm_byName = None, vm_startedAt = Some 0, vm_updatedAt = Some 0, vm_error = None, vm_errorAt = None,
     vm_key = None, vm_version = 2\<rparr>"

definition example_config :: "string option \<Rightarrow> vm_config" where
  "example_config backup = \<lparr>cf_sleepRequiresTag = None, cf_backupBeforeSleep = backup, cf_enrollUrl = None, cf_pool = None,
     cf_storage = None, cf_fullClone = False\<rparr>"

definition example_drive :: "vm_operation \<Rightarrow> string \<Rightarrow> vm_drive" where
  "example_drive change s = \<lparr>dr_row = example_vm change s, dr_config = example_config None,
     dr_ref = \<lparr>ref_node = [], ref_vmid = 0\<rparr>, dr_call = GetProvider\<rparr>"

definition example_task :: provider_task where
  "example_task = \<lparr>tk_id = ''UPID:n1:1'', tk_node = ''n1''\<rparr>"

definition example_seen :: "vm_state \<Rightarrow> vm_answer" where
  "example_seen st = Seen (Some \<lparr>ob_ref = \<lparr>ref_node = ''n1'', ref_vmid = 500\<rparr>, ob_name = ''web'', ob_state = st, ob_tags = [],
     ob_template = False\<rparr>)"

definition reboot_events :: "drive_event list" where
  "reboot_events = [(True, 0, None, ProviderIs (example_config None)), (True, 100, None, TaskIs example_task),
     (True, 200, None, TaskState TaskRuns), (True, 1200, None, Fine), (True, 1300, None, TaskState TaskOk),
     (True, 1400, None, example_seen Stopped), (True, 3400, None, Fine), (True, 3500, None, example_seen Running),
     (True, 3600, None, example_seen Running)]"

lemma allowed_run_append:
  "allowed_run ok step s (xs @ ys) \<longleftrightarrow> allowed_run ok step s xs \<and> allowed_run ok step (run step s xs) ys"
  by (induction xs arbitrary: s) simp_all

lemma ended_idles:
  "dr_call d = Ended \<Longrightarrow> allowed_run (answer_allowed T) (drive_next url) (c, d) (replicate n (True, c, None, Fine))"
  by (induction n) (simp_all add: drive_next_def advance_def)


section \<open>How a change ends\<close>

fun closing :: "vm_effect \<Rightarrow> bool" where
  "closing (WriteFinish _ _ _) = True"
| "closing ReleaseRow = True"
| "closing (Audit _ _) = True"
| "closing _ = False"

text \<open>The steps a row has while its change runs (the ones the code writes).\<close>

definition known_step :: "vm_drive \<Rightarrow> bool" where
  "known_step d \<longleftrightarrow> (vm_operation (dr_row d) = Some DeleteChange \<longrightarrow> in_step ''stop'' d \<or> in_step ''remove'' d \<or> in_step ''release'' d)"

text \<open>Until its last answer a current driver closes nothing.\<close>

definition goes_on :: "vm_outcome \<Rightarrow> bool" where
  "goes_on out \<longleftrightarrow> next_call out \<noteq> Ended \<and> next_call out \<noteq> GetProvider \<and> list_all (\<lambda>e. \<not> closing e) (snd out)"

lemma effects_simps [simp]:
  "snd (pend c d) = []"
  "snd (issue c cmd d) = [Tell cmd]"
  "snd (step_then now s task f d) = WriteStep s (map_option tk_id task) now # snd (f (d\<lparr>dr_row := step_row s (map_option tk_id task) now (dr_row d)\<rparr>))"
  "snd (when_current cur c d) = []"
  "snd (finish cur err d) = []"
  "snd (caught cur e d) = []"
  "snd (enter_wait cur now w t d) = []"
  by (simp_all add: pend_def issue_def step_then_def when_current_def finish_def caught_def enter_wait_def Let_def split_beta)

lemma helpers_go_on:
  "goes_on (power_go True now a d)" "goes_on (after_backup True now stored a d)" "goes_on (run_power True now stored a d)"
  "goes_on (enroll_wait True now d)" "goes_on (boot_step True now d)" "goes_on (booted True now d)"
  "goes_on (enrollFrom True now d)" "goes_on (configured True now d)" "goes_on (cloned now d)" "goes_on (abandon True e d)"
  "goes_on (run_create True now d)" "goes_on (off_round True now r d)" "goes_on (remove_step True now d)"
  "goes_on (removed True now d)"
  by (simp_all add: goes_on_def power_defs create_defs delete_defs Let_def)

lemma started_goes_on: "(\<And>t d. goes_on (f t d)) \<Longrightarrow> goes_on (task_started True now s f ans d)"
  by (cases ans) (simp_all add: task_started_def goes_on_def)

lemma wait_goes_on: "goes_on (enter_wait True now w t d)"
  by (simp add: goes_on_def)

lemma task_done_goes_on: "goes_on (task_done True now stored w d)"
  using helpers_go_on by (cases w) (simp_all add: goes_on_def)

lemma task_failed_goes_on: "goes_on (task_failed True w e d)"
  by (cases w) (simp_all add: goes_on_def)

lemma polled_goes_on: "goes_on (polled True now stored w t started polls r d)"
  using task_done_goes_on task_failed_goes_on by (cases r) (simp_all add: polled_def goes_on_def)

lemma stepped_goes_on: "(\<And>d. goes_on (f d)) \<Longrightarrow> goes_on (step_then now s t f d)"
  by (simp add: goes_on_def)

lemma simple_goes_on: "goes_on (caught True c d)" "goes_on (finish True e d)" "c' \<noteq> Ended \<Longrightarrow> c' \<noteq> GetProvider \<Longrightarrow> goes_on (pend c' d)"
  "c' \<noteq> Ended \<Longrightarrow> c' \<noteq> GetProvider \<Longrightarrow> goes_on (issue c' cmd d)" "goes_on (clear_step d)"
  by (simp_all add: goes_on_def clear_step_def)

lemmas goes_on_intros = helpers_go_on started_goes_on wait_goes_on polled_goes_on stepped_goes_on simple_goes_on

lemma current_goes_on:
  assumes "dr_call d \<noteq> Ended" "\<And>e. dr_call d \<noteq> FinishStatus e" "\<And>r. dr_call d \<noteq> ReleaseCall r" "dr_call d \<noteq> GetProvider"
  shows "goes_on (advance url True now stored ans d)"
proof (cases "dr_call d")
  case (SettleStatus target started)
  then show ?thesis by (auto simp: advance_def settled_status_def goes_on_def split: option.split)
next
  case CloneStatus
  then show ?thesis by (auto simp: advance_def clone_status_def intro!: goes_on_intros split: vm_answer.split option.split)
next
  case CloneCall
  then show ?thesis by (auto simp: advance_def clone_asked_def intro!: goes_on_intros split: vm_answer.split option.split)
next
  case (CloneAfter e)
  then show ?thesis by (auto simp: advance_def clone_after_def intro!: goes_on_intros split: option.split)
next
  case ConfigureCall
  then show ?thesis
    by (auto simp: advance_def configure_done_def intro!: goes_on_intros split: vm_answer.split option.split nat.split)
next
  case ResizeCall
  then show ?thesis by (auto simp: advance_def resize_asked_def intro!: goes_on_intros split: vm_answer.split option.split)
next
  case EnrollPoll
  then show ?thesis
    by (auto simp: advance_def enroll_state_known_def intro!: goes_on_intros split: vm_answer.split enroll_state.split)
next
  case (OffStatus r)
  then show ?thesis by (auto simp: advance_def off_status_def intro!: goes_on_intros split: vm_answer.split)
next
  case RemoveCall
  then show ?thesis by (auto simp: advance_def remove_asked_def intro!: goes_on_intros split: vm_answer.split option.split)
next
  case (SleepTask w t started polls ring)
  then show ?thesis by (simp add: advance_def goes_on_def)
next
  case (SettleSleep target started ring)
  then show ?thesis by (simp add: advance_def goes_on_def)
next
  case (EnrollSleep ring)
  then show ?thesis using helpers_go_on(4) by (simp add: advance_def goes_on_def)
qed (use assms in \<open>auto simp: advance_def backup_known_def minted_def firmware_set_def boot_status_def boot_asked_def
    intro!: goes_on_intros split: vm_answer.split option.split\<close>)

lemma start_goes_on:
  assumes "dr_call d = GetProvider" "vm_operation (dr_row d) = Some change" "known_step d"
  shows "goes_on (advance url True now stored (ProviderIs config) d)"
proof -
  define d' where "d' = d\<lparr>dr_config := config, dr_ref := refOf (dr_row d)\<rparr>"
  have "goes_on (run_delete True now d')" if "change = DeleteChange"
    using that assms by (auto simp: known_step_def in_step_def run_delete_def release_step_def d'_def goes_on_def
        intro!: helpers_go_on(12,13) [unfolded goes_on_def])
  moreover have "vm_operation (dr_row d') = Some change" using assms(2) by (simp add: d'_def)
  ultimately show ?thesis using assms(1) helpers_go_on(3,7,11)
    by (cases change) (simp_all add: advance_def got_provider_def Let_def flip: d'_def)
qed

text \<open>The change a driver works on stays the one of its row, if the stored row still carries it.\<close>

definition row_change :: "vm_outcome \<Rightarrow> vm_operation option" where
  "row_change out = vm_operation (dr_row (fst out))"

lemma step_row_operation [simp]: "vm_operation (step_row s t now row) = vm_operation row"
  by (simp add: step_row_def)

lemma row_change_simps [simp]:
  "row_change (d, effs) = vm_operation (dr_row d)"
  "row_change (pend c d) = vm_operation (dr_row d)"
  "row_change (issue c cmd d) = vm_operation (dr_row d)"
  "row_change (step_then now s task f d) = row_change (f (d\<lparr>dr_row := step_row s (map_option tk_id task) now (dr_row d)\<rparr>))"
  "row_change (when_current cur c d) = vm_operation (dr_row d)"
  "row_change (finish cur err d) = vm_operation (dr_row d)"
  "row_change (caught cur e d) = vm_operation (dr_row d)"
  "row_change (enter_wait cur now w t d) = vm_operation (dr_row d)"
  by (simp_all add: row_change_def pend_def issue_def step_then_def when_current_def finish_def caught_def enter_wait_def Let_def split_beta)

text \<open>\<open>stored\<close> agrees with the driver's copy on the change.\<close>

definition same_change :: "vm_row option \<Rightarrow> vm_operation option \<Rightarrow> bool" where
  "same_change stored change = (\<forall>row. stored = Some row \<longrightarrow> vm_operation row = change)"

lemma reread_change: "same_change stored (vm_operation (dr_row d)) \<Longrightarrow> vm_operation (dr_row (reread stored d)) = vm_operation (dr_row d)"
  by (auto simp: reread_def same_change_def split: option.split)

lemma same_change_step: "same_change stored change \<Longrightarrow> same_change (map_option (step_row s t now) stored) change"
  by (auto simp: same_change_def)

lemma power_change_kept:
  "same_change stored (vm_operation (dr_row d)) \<Longrightarrow> row_change (after_backup cur now stored a d) = vm_operation (dr_row d)"
  "same_change stored (vm_operation (dr_row d)) \<Longrightarrow> row_change (run_power cur now stored a d) = vm_operation (dr_row d)"
  by (simp_all add: power_defs reread_change same_change_step)

lemma helper_change_kept [simp]:
  "row_change (enroll_wait cur now d) = vm_operation (dr_row d)" "row_change (boot_step cur now d) = vm_operation (dr_row d)"
  "row_change (booted cur now d) = vm_operation (dr_row d)" "row_change (enrollFrom cur now d) = vm_operation (dr_row d)"
  "row_change (configured cur now d) = vm_operation (dr_row d)" "row_change (cloned now d) = vm_operation (dr_row d)"
  "row_change (abandon cur e d) = vm_operation (dr_row d)" "row_change (run_create cur now d) = vm_operation (dr_row d)"
  "row_change (off_round cur now r d) = vm_operation (dr_row d)" "row_change (remove_step cur now d) = vm_operation (dr_row d)"
  "row_change (removed cur now d) = vm_operation (dr_row d)" "row_change (run_delete cur now d) = vm_operation (dr_row d)"
  "row_change (clear_step d) = vm_operation (dr_row d)"
  by (simp_all add: create_defs delete_defs Let_def)

lemma advance_keeps_change:
  assumes "same_change stored (vm_operation (dr_row d))"
  shows "row_change (advance url cur now stored ans d) = vm_operation (dr_row d)"
proof -
  note power = power_change_kept [OF assms]
  have done_kept: "row_change (task_done cur now stored w d) = vm_operation (dr_row d)" for w
    using power by (cases w) simp_all
  have failed_kept: "row_change (task_failed cur w e d) = vm_operation (dr_row d)" for w e
    by (cases w) simp_all
  have started: "row_change (task_started cur now s f ans d) = vm_operation (dr_row d)"
    if "\<And>t d. row_change (f t d) = vm_operation (dr_row d)" for s f
    using that by (cases ans) (simp_all add: task_started_def)
  have provider: "row_change (got_provider cur now stored ans d) = vm_operation (dr_row d)"
  proof (cases ans)
    case (ProviderIs config)
    let ?d = "d\<lparr>dr_config := config, dr_ref := refOf (dr_row d)\<rparr>"
    have "row_change (run_power cur now stored a ?d) = vm_operation (dr_row d)" for a
      using power_change_kept(2) [of stored ?d] assms by simp
    then show ?thesis using ProviderIs
      by (auto simp: got_provider_def Let_def split: option.split vm_operation.split)
  qed (simp_all add: got_provider_def)
  show ?thesis using provider done_kept failed_kept power
    by (cases "dr_call d")
      (auto simp: advance_def backup_known_def polled_def settled_status_def clone_status_def clone_asked_def clone_after_def
        configure_done_def resize_asked_def minted_def firmware_set_def boot_status_def boot_asked_def
        enroll_state_known_def off_status_def remove_asked_def released_def
        intro!: started split: vm_answer.split option.split nat.split task_result.split enroll_state.split)
qed

text \<open>The calls of a create or a delete only: among them the one that removes the host.\<close>

fun removing_wait :: "wait_for \<Rightarrow> bool" where
  "removing_wait CloneTask = True"
| "removing_wait ResizeTask = True"
| "removing_wait (OffTask _) = True"
| "removing_wait RemoveTask = True"
| "removing_wait _ = False"

definition removing_call :: "vm_call \<Rightarrow> bool" where
  "removing_call c = (case c of
      ReleaseCall _ \<Rightarrow> True | CloneStatus \<Rightarrow> True | CloneCall \<Rightarrow> True | CloneAfter _ \<Rightarrow> True | ConfigureCall \<Rightarrow> True
    | ResizeCall \<Rightarrow> True | OffStatus _ \<Rightarrow> True | OffCall _ \<Rightarrow> True | RemoveCall \<Rightarrow> True
    | PollTask w _ _ _ \<Rightarrow> removing_wait w | SleepTask w _ _ _ _ \<Rightarrow> removing_wait w | _ \<Rightarrow> False)"

lemma not_removing:
  "\<not> removing_call (next_call (power_go cur now a d))" "\<not> removing_call (next_call (after_backup cur now stored a d))"
  "\<not> removing_call (next_call (run_power cur now stored a d))" "\<not> removing_call (next_call (enroll_wait cur now d))"
  "\<not> removing_call (next_call (boot_step cur now d))" "\<not> removing_call (next_call (booted cur now d))"
  "\<not> removing_call (next_call (enrollFrom cur now d))"
  by (simp_all add: removing_call_def power_defs create_defs)

lemma advance_not_removing:
  assumes "vm_operation (dr_row d) \<notin> {Some CreateChange, Some DeleteChange}" and "\<not> removing_call (dr_call d)"
  shows "\<not> removing_call (next_call (advance url cur now stored ans d))"
proof -
  have started: "\<not> removing_call (next_call (task_started cur now s f ans d))"
    if "\<And>t d. \<not> removing_call (next_call (f t d))" for s f
    using that by (cases ans) (simp_all add: task_started_def removing_call_def)
  have done_ok: "\<not> removing_call (next_call (task_done cur now stored w d))" if "\<not> removing_wait w" for w
    using that not_removing by (cases w) (simp_all add: removing_call_def)
  have failed_ok: "\<not> removing_call (next_call (task_failed cur w e d))" if "\<not> removing_wait w" for w e
    using that by (cases w) (simp_all add: removing_call_def)
  have wait_ok: "\<not> removing_call (next_call (enter_wait cur now w t d))" if "\<not> removing_wait w" for w t d
    using that by (simp add: removing_call_def)
  have plain: "\<not> removing_call (FinishStatus e)" "\<not> removing_call Ended" "\<not> removing_call MakeBackup" "\<not> removing_call FirmwareCall"
    "\<not> removing_call BootCall" "\<not> removing_call ClearCall" "\<not> removing_call (EnrollSleep r)" "\<not> removing_call (SettleStatus st r)"
    "\<not> removing_call (SettleSleep st r q)" for e r st q
    by (simp_all add: removing_call_def)
  show ?thesis
  proof (cases "dr_call d")
    case GetProvider
    then show ?thesis using assms(1) not_removing plain
      by (auto simp: advance_def got_provider_def Let_def split: vm_answer.split option.split vm_operation.split)
  next
    case (PollTask w t started polls)
    moreover from this assms(2) have w: "\<not> removing_wait w" by (simp add: removing_call_def)
    moreover have "\<not> removing_call (SleepTask w t started polls r)" for r using w by (simp add: removing_call_def)
    ultimately show ?thesis using done_ok failed_ok plain
      by (auto simp: advance_def polled_def split: vm_answer.split task_result.split)
  next
    case (SleepTask w t started polls ring)
    with assms(2) show ?thesis by (simp add: advance_def removing_call_def)
  next
    case FirmwareCall
    then show ?thesis using not_removing plain by (auto simp: advance_def firmware_set_def split: vm_answer.split)
  next
    case EnrollPoll
    then show ?thesis using plain
      by (auto simp: advance_def enroll_state_known_def clear_step_def split: vm_answer.split enroll_state.split)
  qed (use assms(2) not_removing plain in \<open>auto simp: advance_def backup_known_def settled_status_def minted_def boot_status_def
      boot_asked_def removing_call_def [of "ReleaseCall _"] removing_call_def [of CloneStatus] removing_call_def [of CloneCall]
      removing_call_def [of "CloneAfter _"] removing_call_def [of ConfigureCall] removing_call_def [of ResizeCall]
      removing_call_def [of "OffStatus _"] removing_call_def [of "OffCall _"] removing_call_def [of RemoveCall]
      intro!: started wait_ok split: vm_answer.split option.split\<close>)
qed

text \<open>Exactly one end: the row is freed, or (only for a create or a delete) gone; and one record of it.\<close>

definition closes :: "vm_operation \<Rightarrow> vm_effect list \<Rightarrow> bool" where
  "closes change effs \<longleftrightarrow> (\<exists>err. (\<exists>ob t. effs = [WriteFinish ob err t, Audit (Some change) err])
     \<or> (effs = [ReleaseRow, Audit (Some change) err] \<and> change \<in> {CreateChange, DeleteChange}))"

definition undisturbed :: "vm_operation \<Rightarrow> drive_event list \<Rightarrow> bool" where
  "undisturbed change events = list_all (\<lambda>(cur, now, stored, ans). cur \<and> same_change stored (Some change)) events"

lemma ended_outputs: "dr_call d = Ended \<Longrightarrow> outputs (drive_step url) (c, d) es = []"
  by (induction es arbitrary: c) (auto simp: advance_def)

definition under_way :: "vm_operation \<Rightarrow> vm_drive \<Rightarrow> bool" where
  "under_way change d \<longleftrightarrow> dr_call d \<noteq> GetProvider \<and> dr_call d \<noteq> Ended \<and> vm_operation (dr_row d) = Some change
     \<and> (removing_call (dr_call d) \<longrightarrow> change \<in> {CreateChange, DeleteChange})"

lemma advance_under_way:
  assumes "under_way change d" and "same_change stored (Some change)" and "goes_on (advance url cur now stored ans d)"
  shows "under_way change (fst (advance url cur now stored ans d))"
proof -
  have "vm_operation (dr_row (fst (advance url cur now stored ans d))) = Some change"
    using advance_keeps_change [of stored d url cur now ans] assms(1,2) by (simp add: under_way_def row_change_def)
  moreover have "\<not> removing_call (next_call (advance url cur now stored ans d))" if "change \<notin> {CreateChange, DeleteChange}"
    using that assms(1) by (intro advance_not_removing) (auto simp: under_way_def)
  ultimately show ?thesis using assms(3) by (auto simp: under_way_def goes_on_def next_call_def)
qed

lemma filter_closing_none: "list_all (\<lambda>e. \<not> closing e) effs \<Longrightarrow> filter closing effs = []"
  by (simp add: list_all_iff filter_empty_conv)

lemma drive_step_eq: "drive_step url (c, d) (cur, now, stored, ans)
    = ((now, fst (advance url cur now stored ans d)), snd (advance url cur now stored ans d))"
  by (simp add: split_beta Let_def)

lemma under_way_closes:
  assumes "under_way change d" and "undisturbed change es" and "dr_call (snd (run (drive_next url) (c, d) es)) = Ended"
  shows "closes change (filter closing (outputs (drive_step url) (c, d) es))"
  using assms
proof (induction es arbitrary: c d)
  case Nil
  then show ?case by (simp add: under_way_def)
next
  case (Cons e es)
  obtain cur now stored ans where e: "e = (cur, now, stored, ans)" by (cases e)
  have cur: cur "same_change stored (Some change)" "undisturbed change es" using Cons.prems(2) by (auto simp: undisturbed_def e)
  let ?out = "advance url True now stored ans d"
  have step: "drive_step url (c, d) e = ((now, fst ?out), snd ?out)" using cur(1) by (simp add: e drive_step_eq del: drive_step.simps)
  have later: ?case if on: "goes_on ?out"
  proof -
    have "closes change (filter closing (outputs (drive_step url) (now, fst ?out) es))"
      using Cons.IH [of "fst ?out" now] advance_under_way [OF Cons.prems(1) cur(2) on] cur(3) Cons.prems(3)
      by (simp add: drive_next_def step)
    then show ?thesis using on by (simp add: step goes_on_def filter_closing_none)
  qed
  have last_one: ?case if "dr_call (fst ?out) = Ended" "closes change (filter closing (snd ?out))"
    using that ended_outputs [of "fst ?out" url now es] by (simp add: step)
  consider (finish) err where "dr_call d = FinishStatus err" | (release) r where "dr_call d = ReleaseCall r"
    | (other) "\<And>e. dr_call d \<noteq> FinishStatus e" "\<And>r. dr_call d \<noteq> ReleaseCall r" by blast
  then show ?case
  proof cases
    case finish
    then show ?thesis using Cons.prems(1) by (intro last_one) (auto simp: advance_def closes_def under_way_def)
  next
    case release
    then have "change \<in> {CreateChange, DeleteChange}" using Cons.prems(1) by (simp add: under_way_def removing_call_def)
    with release Cons.prems(1) have "ans = Fine \<Longrightarrow> ?thesis"
      by (intro last_one) (auto simp: advance_def released_def closes_def under_way_def)
    moreover have "ans \<noteq> Fine \<Longrightarrow> goes_on ?out"
      using release by (cases ans) (simp_all add: advance_def released_def simple_goes_on)
    ultimately show ?thesis using later by blast
  next
    case other
    then show ?thesis using Cons.prems(1) by (intro later current_goes_on) (simp_all add: under_way_def)
  qed
qed



section \<open>What must come before the provider is told\<close>

fun drive_pass :: "(vm_call \<Rightarrow> int \<Rightarrow> vm_answer \<Rightarrow> bool) \<Rightarrow> int \<times> vm_drive \<Rightarrow> drive_event \<Rightarrow> bool" where
  "drive_pass p (c, d) (cur, now, stored, ans) = p (dr_call d) now ans"

subsection \<open>A backup before a sleep\<close>

fun backup_wait :: "wait_for \<Rightarrow> bool" where
  "backup_wait ResumedBackup = True"
| "backup_wait FreshBackup = True"
| "backup_wait _ = False"

text \<open>A backup younger than a day is known, or a backup task ended well, or the provider asks for none.\<close>

fun backed_up :: "vm_call \<Rightarrow> int \<Rightarrow> vm_answer \<Rightarrow> bool" where
  "backed_up GetProvider now (ProviderIs config) = (\<not> truthy (cf_backupBeforeSleep config))"
| "backed_up (LastBackup _) now (BackupAt (Some t)) = (now - t < BACKUP_FRESH_MS)"
| "backed_up (PollTask w _ _ _) now (TaskState TaskOk) = backup_wait w"
| "backed_up _ _ _ = False"

definition before_backup :: "int \<times> vm_drive \<Rightarrow> bool" where
  "before_backup s = (let d = snd s in case dr_call d of
      GetProvider \<Rightarrow> (\<exists>a. vm_operation (dr_row d) = Some (PowerChange a)) \<and> in_step ''backup'' d
    | LastBackup _ \<Rightarrow> True | MakeBackup \<Rightarrow> True | FinishStatus _ \<Rightarrow> True | Ended \<Rightarrow> True
    | PollTask w _ _ _ \<Rightarrow> backup_wait w | SleepTask w _ _ _ _ \<Rightarrow> backup_wait w | _ \<Rightarrow> False)"

fun power_told :: "vm_effect \<Rightarrow> bool" where
  "power_told (Tell (DoPower _ _)) = True"
| "power_told _ = False"

text \<open>An outcome that stays before the gate and tells no power change.\<close>

definition held :: "(vm_call \<Rightarrow> bool) \<Rightarrow> (vm_effect \<Rightarrow> bool) \<Rightarrow> vm_outcome \<Rightarrow> bool" where
  "held stay guarded out \<longleftrightarrow> stay (next_call out) \<and> list_all (\<lambda>e. \<not> guarded e) (snd out)"

definition backup_stage :: "vm_call \<Rightarrow> bool" where
  "backup_stage c = (case c of LastBackup _ \<Rightarrow> True | MakeBackup \<Rightarrow> True | FinishStatus _ \<Rightarrow> True | Ended \<Rightarrow> True
    | PollTask w _ _ _ \<Rightarrow> backup_wait w | SleepTask w _ _ _ _ \<Rightarrow> backup_wait w | _ \<Rightarrow> False)"

lemma before_backup_stage: "backup_stage (dr_call d) \<Longrightarrow> before_backup (c, d)"
  by (auto simp: before_backup_def backup_stage_def split: vm_call.splits)

lemma advance_before_backup:
  assumes "before_backup (c, d)" and "\<not> backed_up (dr_call d) now ans"
  shows "held backup_stage power_told (advance url cur now stored ans d)"
proof (cases "dr_call d")
  case GetProvider
  then obtain a where a: "vm_operation (dr_row d) = Some (PowerChange a)" "in_step ''backup'' d"
    using assms(1) by (auto simp: before_backup_def)
  show ?thesis
  proof (cases ans)
    case (ProviderIs config)
    then show ?thesis using GetProvider a assms(2)
      by (simp add: advance_def got_provider_def Let_def run_power_def held_def backup_stage_def in_step_def)
  qed (use GetProvider in \<open>simp_all add: advance_def got_provider_def held_def backup_stage_def\<close>)
next
  case (LastBackup storage)
  then show ?thesis using assms(2)
    by (auto simp: advance_def backup_known_def held_def backup_stage_def split: vm_answer.split option.split)
next
  case MakeBackup
  then show ?thesis by (cases ans) (simp_all add: advance_def task_started_def held_def backup_stage_def)
next
  case (PollTask w t started polls)
  then have "backup_wait w" using assms(1) by (simp add: before_backup_def)
  then show ?thesis using PollTask assms(2)
    by (cases w) (auto simp: advance_def polled_def held_def backup_stage_def split: vm_answer.split task_result.split)
next
  case (SleepTask w t started polls ring)
  then show ?thesis using assms(1) by (simp add: advance_def held_def backup_stage_def before_backup_def)
qed (use assms(1) in \<open>simp_all add: advance_def held_def backup_stage_def before_backup_def\<close>)

interpretation sleeping: gated_machine "drive_step url" before_backup "drive_pass backed_up" power_told for url
proof
  fix s :: "int \<times> vm_drive" and e :: drive_event and x
  obtain c d where s: "s = (c, d)" by (cases s)
  obtain cur now stored ans where e: "e = (cur, now, stored, ans)" by (cases e)
  assume before: "before_backup s" and pass: "\<not> drive_pass backed_up s e"
  then have "held backup_stage power_told (advance url cur now stored ans d)"
    using advance_before_backup [of c d now ans] by (simp add: s e)
  then show "before_backup (fst (drive_step url s e))" and "x \<in> set (snd (drive_step url s e)) \<Longrightarrow> \<not> power_told x"
    by (auto simp: s e drive_step_eq held_def next_call_def list_all_iff before_backup_stage simp del: drive_step.simps)
qed

text \<open>
  C12 (\<open>no_sleep_without_its_backup\<close>): a change that was claimed with a backup before it (a hibernation
  on a provider that asks for one) tells the provider to power the machine down only after a backup of
  the last day was found, or the backup task it started or resumed ended well, or the provider, which the
  driver reads again before the step, had stopped asking for a backup since the claim; a refused, failed
  or timed-out backup tells it nothing.
\<close>

theorem no_sleep_without_its_backup:
  assumes "dr_call d = GetProvider" and "vm_operation (dr_row d) = Some (PowerChange a)" and "in_step ''backup'' d"
    and "Tell (DoPower ref b) \<in> set (outputs (drive_step url) (c, d) events)"
  shows "passes (drive_pass backed_up) (drive_step url) (c, d) events"
  by (rule sleeping.guarded_after_pass [OF _ assms(4)]) (use assms(1-3) in \<open>simp_all add: before_backup_def\<close>)

definition sleep_events :: "drive_event list" where
  "sleep_events = [(True, 0, None, ProviderIs (example_config (Some ''pbs''))), (True, 100, None, BackupAt None),
     (True, 200, None, TaskIs example_task), (True, 300, None, TaskState TaskOk)]"

lemma no_sleep_without_its_backup_witness:
  "passes (drive_pass backed_up) (drive_step []) (0, example_drive (PowerChange Hibernate) ''backup'') sleep_events"
proof (rule no_sleep_without_its_backup)
  show "Tell (DoPower \<lparr>ref_node = ''n1'', ref_vmid = 500\<rparr> Hibernate)
      \<in> set (outputs (drive_step []) (0, example_drive (PowerChange Hibernate) ''backup'') sleep_events)" by code_simp
qed (simp_all add: example_drive_def example_vm_def in_step_def)

subsection \<open>Off before it is removed\<close>

fun seen_off :: "vm_call \<Rightarrow> int \<Rightarrow> vm_answer \<Rightarrow> bool" where
  "seen_off (OffStatus _) now (Seen ob) = (ob = None \<or> seen_state ob = Some Stopped)"
| "seen_off _ _ _ = False"

fun off_wait :: "wait_for \<Rightarrow> bool" where
  "off_wait (OffTask _) = True"
| "off_wait _ = False"

definition off_stage :: "vm_call \<Rightarrow> bool" where
  "off_stage c = (case c of OffStatus _ \<Rightarrow> True | OffCall _ \<Rightarrow> True | FinishStatus _ \<Rightarrow> True | Ended \<Rightarrow> True
    | PollTask w _ _ _ \<Rightarrow> off_wait w | SleepTask w _ _ _ _ \<Rightarrow> off_wait w | _ \<Rightarrow> False)"

definition before_off :: "int \<times> vm_drive \<Rightarrow> bool" where
  "before_off s = (off_stage (dr_call (snd s)) \<or> dr_call (snd s) = GetProvider
     \<and> vm_operation (dr_row (snd s)) = Some DeleteChange \<and> in_step ''stop'' (snd s))"

fun removal_told :: "vm_effect \<Rightarrow> bool" where
  "removal_told (Tell (DoRemove _)) = True"
| "removal_told ReleaseRow = True"
| "removal_told _ = False"

lemma off_round_held: "held off_stage removal_told (off_round cur now r d)"
  by (simp add: off_round_def held_def off_stage_def)

lemma advance_before_off:
  assumes "before_off (c, d)" and "\<not> seen_off (dr_call d) now ans"
  shows "held off_stage removal_told (advance url cur now stored ans d)"
proof (cases "dr_call d")
  case GetProvider
  then have "vm_operation (dr_row d) = Some DeleteChange" "in_step ''stop'' d"
    using assms(1) by (auto simp: before_off_def off_stage_def)
  then show ?thesis using GetProvider off_round_held [of cur now 0]
    by (cases ans) (simp_all add: advance_def got_provider_def Let_def run_delete_def in_step_def held_def off_stage_def)
next
  case (OffStatus r)
  then show ?thesis using assms(2)
    by (auto simp: advance_def off_status_def held_def off_stage_def split: vm_answer.split)
next
  case (OffCall r)
  then show ?thesis using off_round_held [of cur now "Suc r"]
    by (cases ans) (simp_all add: advance_def task_started_def held_def off_stage_def)
next
  case (PollTask w t started polls)
  then have "off_wait w" using assms(1) by (simp add: before_off_def off_stage_def)
  then show ?thesis using PollTask
    by (cases w) (auto simp: advance_def polled_def held_def off_stage_def split: vm_answer.split task_result.split)
next
  case (SleepTask w t started polls ring)
  then show ?thesis using assms(1) by (simp add: advance_def held_def off_stage_def before_off_def)
qed (use assms(1) in \<open>simp_all add: advance_def held_def off_stage_def before_off_def\<close>)

interpretation deleting: gated_machine "drive_step url" before_off "drive_pass seen_off" removal_told for url
proof
  fix s :: "int \<times> vm_drive" and e :: drive_event and x
  obtain c d where s: "s = (c, d)" by (cases s)
  obtain cur now stored ans where e: "e = (cur, now, stored, ans)" by (cases e)
  assume before: "before_off s" and pass: "\<not> drive_pass seen_off s e"
  then have "held off_stage removal_told (advance url cur now stored ans d)"
    using advance_before_off [of c d now ans] by (simp add: s e)
  then show "before_off (fst (drive_step url s e))" and "x \<in> set (snd (drive_step url s e)) \<Longrightarrow> \<not> removal_told x"
    by (auto simp: s e drive_step_eq held_def next_call_def list_all_iff before_off_def simp del: drive_step.simps)
qed

text \<open>
  C11 (\<open>only_a_stopped_machine_is_removed\<close>): a delete from its start asks the provider to remove the
  machine, and lets its host go, only after the provider said that the machine is stopped or that there
  is none; while it runs, sleeps or cannot be asked, nothing is removed.
\<close>

theorem only_a_stopped_machine_is_removed:
  assumes "dr_call d = GetProvider" and "vm_operation (dr_row d) = Some DeleteChange" and "in_step ''stop'' d"
    and "x \<in> set (outputs (drive_step url) (c, d) events)" and "removal_told x"
  shows "passes (drive_pass seen_off) (drive_step url) (c, d) events"
  by (rule deleting.guarded_after_pass [OF _ assms(4,5)]) (use assms(1-3) in \<open>simp_all add: before_off_def\<close>)

definition delete_events :: "drive_event list" where
  "delete_events = [(True, 0, None, ProviderIs (example_config None)), (True, 100, None, example_seen Hibernated),
     (True, 200, None, TaskIs example_task), (True, 300, None, TaskState TaskOk), (True, 400, None, example_seen Running),
     (True, 500, None, TaskIs example_task), (True, 600, None, TaskState TaskOk), (True, 700, None, example_seen Stopped),
     (True, 800, None, MaybeTask None), (True, 900, None, Fine)]"

lemma only_a_stopped_machine_is_removed_witness:
  "passes (drive_pass seen_off) (drive_step []) (0, example_drive DeleteChange ''stop'') delete_events"
proof (rule only_a_stopped_machine_is_removed)
  show "ReleaseRow \<in> set (outputs (drive_step []) (0, example_drive DeleteChange ''stop'') delete_events)" by code_simp
qed (simp_all add: example_drive_def example_vm_def in_step_def)

end
