(* ===== verification/VmReplaced.thy ===== *)
theory VmReplaced
  imports VmDrive
begin

text \<open>
  Which answers of a driver close its change (\<^verbatim>\<open>finish\<close>, \<^verbatim>\<open>release\<close> and \<^verbatim>\<open>record\<close> of
  \<^verbatim>\<open>vm-operations.service.ts\<close> and \<^verbatim>\<open>vm-lifecycle.service.ts\<close>), and that a driver another one replaced
  closes nothing.
\<close>

section \<open>Who closes a change\<close>

text \<open>The calls after whose answer a driver closes its change. A driver that was replaced gets no further than where it is.\<close>

fun closing_call :: "vm_call \<Rightarrow> bool" where
  "closing_call (FinishStatus _) = True"
| "closing_call (ReleaseCall _) = True"
| "closing_call _ = False"

definition leaves_open :: "bool \<Rightarrow> vm_outcome \<Rightarrow> bool" where
  "leaves_open cur out \<longleftrightarrow> list_all (\<lambda>e. \<not> closing e) (snd out) \<and> (cur \<or> \<not> closing_call (next_call out))"

lemma leaves_open_simps [simp]:
  "leaves_open cur (pend c d) = (cur \<or> \<not> closing_call c)"
  "leaves_open cur (issue c cmd d) = (cur \<or> \<not> closing_call c)"
  "leaves_open cur (step_then now s task f d) = leaves_open cur (f (d\<lparr>dr_row := step_row s (map_option tk_id task) now (dr_row d)\<rparr>))"
  "leaves_open cur (when_current cur c d)" "leaves_open cur (finish cur e d)" "leaves_open cur (caught cur e' d)"
  "leaves_open cur (enter_wait cur now w t d)"
  by (auto simp: leaves_open_def finish_def caught_def when_current_def enter_wait_def)

lemma helpers_leave_open [simp]:
  "leaves_open cur (power_go cur now a d)" "leaves_open cur (after_backup cur now stored a d)" "leaves_open cur (run_power cur now stored a d)"
  "leaves_open cur (boot_step cur now d)" "leaves_open cur (cloned now d)" "leaves_open cur (abandon cur e d)"
  "leaves_open cur (off_round cur now r d)" "leaves_open cur (remove_step cur now d)" "leaves_open cur (removed cur now d)"
  "leaves_open cur (clear_step d)" "leaves_open cur (release_step cur d)"
  by (simp_all add: power_defs boot_step_def cloned_def configure_step_def abandon_def off_round_def remove_step_def
      removed_def release_step_def clear_step_def Let_def)

lemma enroll_leaves_open [simp]:
  "leaves_open cur (enroll_wait cur now d)" "leaves_open cur (booted cur now d)" "leaves_open cur (enrollFrom cur now d)"
  "leaves_open cur (configured cur now d)" "leaves_open cur (run_create cur now d)" "leaves_open cur (run_delete cur now d)"
proof -
  show wait: "leaves_open cur (enroll_wait cur now d)" for d by (simp add: enroll_wait_def leaves_open_def)
  show booted: "leaves_open cur (booted cur now d)" for d by (simp add: booted_def wait)
  show enroll: "leaves_open cur (enrollFrom cur now d)" for d by (simp add: enrollFrom_def wait)
  show "leaves_open cur (configured cur now d)" by (simp add: configured_def enroll)
  show "leaves_open cur (run_create cur now d)" by (simp add: run_create_def enroll configure_step_def Let_def)
  show "leaves_open cur (run_delete cur now d)" by (simp add: run_delete_def)
qed

lemma started_leaves_open [simp]:
  "(\<And>t d. leaves_open cur (f t d)) \<Longrightarrow> leaves_open cur (task_started cur now s f ans d)"
  by (cases ans) (simp_all add: task_started_def)

lemma task_leaves_open [simp]:
  "leaves_open cur (task_done cur now stored w d)" "leaves_open cur (task_failed cur w e d)"
  by (cases w; simp add:)+

lemma polled_leaves_open [simp]: "leaves_open cur (polled cur now stored w t started polls r d)"
  by (cases r) (simp_all add: polled_def leaves_open_def [of _ "(_, _)"] next_call_def)

lemmas answer_rest = got_provider_def backup_known_def settled_status_def clone_status_def clone_asked_def clone_after_def
  configure_done_def resize_asked_def minted_def firmware_set_def boot_status_def boot_asked_def enroll_state_known_def
  off_status_def remove_asked_def

lemma answered_leaves_open:
  assumes "\<not> closing_call (dr_call d)"
  shows "leaves_open cur (advance url cur now stored ans d)"
proof -
  have call: "leaves_open cur (d\<lparr>dr_call := c\<rparr>, effs) = (list_all (\<lambda>e. \<not> closing e) effs \<and> (cur \<or> \<not> closing_call c))" for c effs
    by (simp add: leaves_open_def next_call_def)
  have same: "leaves_open cur (d, [])" using assms by (simp add: leaves_open_def next_call_def)
  show ?thesis
    by (cases "dr_call d") (use assms same in \<open>auto simp: advance_def answer_rest call Let_def
      split: vm_answer.split option.split vm_operation.split nat.split enroll_state.split\<close>)
qed

fun still_current :: "int \<times> vm_drive \<Rightarrow> drive_event \<Rightarrow> bool" where
  "still_current s (cur, now, st, ans) = cur"

fun before_closing :: "int \<times> vm_drive \<Rightarrow> bool" where
  "before_closing (c, d) = (\<not> closing_call (dr_call d))"

interpretation replaced: gated_machine "drive_step url" before_closing still_current closing for url
proof
  fix s :: "int \<times> vm_drive" and e :: drive_event and x
  obtain c d where s: "s = (c, d)" by (cases s)
  obtain cur now st ans where e: "e = (cur, now, st, ans)" by (cases e)
  assume "before_closing s" and "\<not> still_current s e"
  then have "leaves_open False (advance url cur now st ans d)" and "\<not> cur"
    using answered_leaves_open [of d cur url now st ans] by (simp_all add: s e)
  then show "before_closing (fst (drive_step url s e))" and "x \<in> set (snd (drive_step url s e)) \<Longrightarrow> \<not> closing x"
    by (auto simp: s e drive_step_eq leaves_open_def next_call_def list_all_iff simp del: drive_step.simps)
qed

text \<open>
  C14 (\<open>a_replaced_driver_closes_nothing\<close>): a driver that another one replaced in its process, before it
  came to its last call, neither frees the row of the machine, nor removes that row, nor records an end,
  whatever it is still answered and however long it lives on. Only the row is protected: what the driver
  asks of the provider (to power off, to remove the machine) still goes out.
\<close>

theorem a_replaced_driver_closes_nothing:
  assumes "\<not> closing_call (dr_call d)" and "list_all (\<lambda>(cur, _). \<not> cur) events"
  shows "list_all (\<lambda>e. \<not> closing e) (outputs (drive_step url) (c, d) events)"
proof -
  have "\<not> passes still_current (drive_step url) s events" for s
    using assms(2) by (induction events arbitrary: s) auto
  then show ?thesis using replaced.guarded_after_pass [of "(c, d)" _ url events] assms(1)
    by (auto simp: list_all_iff)
qed

lemma a_replaced_driver_closes_nothing_witness:
  "list_all (\<lambda>e. \<not> closing e) (outputs (drive_step []) (0, example_drive (PowerChange Reboot) ''request'')
     (map (\<lambda>(cur, rest). (False, rest)) reboot_events))"
  by (rule a_replaced_driver_closes_nothing) (simp_all add: example_drive_def list_all_iff split_beta)

end
