(* ===== verification/VmFleet.thy ===== *)
theory VmFleet
  imports VmReplaced "HOL-Library.AList"
begin

text \<open>
  The machines of a fleet and the processes that change them: requests that read a row, ask the
  provider and claim the change (\<^verbatim>\<open>VmOperationsService.power\<close>, \<^verbatim>\<open>claim\<close>, \<^verbatim>\<open>VmLifecycleService.start\<close>),
  the drivers of several processes at once, and the reconcile that resumes a change. Every step of
  the world is one stretch between two awaits; which process goes next is free.

  A process numbers its drivers by a counter of its own and only compares numbers it gave itself, so
  one counter for all processes tells the same drivers apart.
\<close>

declare map_of_eq_Some_iff [simp del] Some_eq_map_of_iff [simp del]

section \<open>The state\<close>

record vm_request =
  rq_row :: vm_row
  rq_change :: vm_operation
  rq_byId :: string
  rq_byName :: string

record vm_driver =
  dv_process :: nat
  dv_id :: string
  dv_drive :: vm_drive

text \<open>A removal that passed its guard: of a row (an unlink), or of a host, with which the database removes its row.\<close>

datatype vm_removal = UnlinkRow string | RemoveHost string

record vm_world =
  w_rows :: "(string \<times> vm_row) list"
  w_used :: "string list"
  w_requests :: "(nat \<times> nat \<times> vm_request) list"
  w_live :: "(nat \<times> vm_driver) list"
  w_current :: "((nat \<times> string) \<times> nat) list"
  w_generation :: nat
  w_passes :: "((nat \<times> string) \<times> vm_row) list"
  w_removals :: "(nat \<times> nat \<times> vm_removal) list"
  w_claims :: "(string \<times> nat) list"
  w_audits :: "(string \<times> vm_operation option \<times> string option) list"

definition empty_world :: vm_world where
  "empty_world = \<lparr>w_rows = [], w_used = [], w_requests = [], w_live = [], w_current = [], w_generation = 0,
     w_passes = [], w_removals = [], w_claims = [], w_audits = []\<rparr>"

text \<open>\<open>UPDATE ... WHERE id = ...\<close>.\<close>

definition update_vm :: "string \<Rightarrow> (vm_row \<Rightarrow> vm_row) \<Rightarrow> vm_world \<Rightarrow> vm_world" where
  "update_vm key f w = w\<lparr>w_rows := AList.map_entry key f (w_rows w)\<rparr>"

definition stored_vm :: "vm_world \<Rightarrow> string \<Rightarrow> vm_row option" where
  "stored_vm w key = map_of (w_rows w) key"

section \<open>Drivers\<close>

definition current_driver :: "vm_world \<Rightarrow> nat \<Rightarrow> string \<Rightarrow> nat option" where
  "current_driver w p key = map_of (w_current w) (p, key)"

text \<open>\<open>drive\<close>: a new generation, unless one drives already and is not to be replaced; \<open>run\<close> reads the row.\<close>

definition new_drive :: "vm_row \<Rightarrow> vm_drive" where
  "new_drive row = \<lparr>dr_row = row, dr_config = \<lparr>cf_sleepRequiresTag = None, cf_backupBeforeSleep = None, cf_enrollUrl = None,
     cf_pool = None, cf_storage = None, cf_fullClone = False\<rparr>, dr_ref = refOf row, dr_call = GetProvider\<rparr>"

definition drive_vm :: "nat \<Rightarrow> string \<Rightarrow> bool \<Rightarrow> vm_world \<Rightarrow> vm_world" where
  "drive_vm p key replace w =
     (if current_driver w p key \<noteq> None \<and> \<not> replace then w
      else let g = Suc (w_generation w) in
        (case stored_vm w key of
           Some row \<Rightarrow>
             if vm_operation row = None then w\<lparr>w_generation := g, w_current := AList.delete (p, key) (w_current w)\<rparr>
             else w\<lparr>w_generation := g, w_current := AList.update (p, key) g (w_current w),
                 w_live := (g, \<lparr>dv_process = p, dv_id = key, dv_drive = new_drive row\<rparr>) # w_live w\<rparr>
         | None \<Rightarrow> w\<lparr>w_generation := g, w_current := AList.delete (p, key) (w_current w)\<rparr>))"

definition audits_of :: "string \<Rightarrow> vm_effect list \<Rightarrow> (string \<times> vm_operation option \<times> string option) list" where
  "audits_of key effs = List.map_filter (\<lambda>e. case e of Audit change err \<Rightarrow> Some (key, change, err) | _ \<Rightarrow> None) effs"

definition write_effects :: "string \<Rightarrow> vm_effect list \<Rightarrow> vm_world \<Rightarrow> vm_world" where
  "write_effects key effs w =
     (let w1 = update_vm key (\<lambda>row. fold apply_effect effs row) w in
      w1\<lparr>w_rows := if ReleaseRow \<in> set effs then AList.delete key (w_rows w1) else w_rows w1,
         w_audits := w_audits w @ audits_of key effs\<rparr>)"

text \<open>An answer reaches driver \<open>g\<close>: it goes on to its next call; an ended driver leaves the maps.\<close>

definition answer_vm :: "string \<Rightarrow> nat \<Rightarrow> int \<Rightarrow> vm_answer \<Rightarrow> vm_world \<Rightarrow> vm_world" where
  "answer_vm url g now ans w =
     (case map_of (w_live w) g of
        None \<Rightarrow> w
      | Some dv \<Rightarrow>
          let key = dv_id dv; p = dv_process dv; cur = (current_driver w p key = Some g);
              (d, effs) = advance url cur now (stored_vm w key) ans (dv_drive dv);
              w1 = write_effects key effs w
          in if dr_call d = Ended
             then w1\<lparr>w_live := AList.delete g (w_live w), w_current := (if cur then AList.delete (p, key) (w_current w) else w_current w)\<rparr>
             else w1\<lparr>w_live := AList.update g (dv\<lparr>dv_drive := d\<rparr>) (w_live w)\<rparr>)"

section \<open>Requests\<close>

text \<open>\<open>claim\<close>: a write that only matches the version that was read, while nothing holds the machine.\<close>

definition claim_vm ::
    "int \<Rightarrow> vm_operation \<Rightarrow> string \<Rightarrow> (vm_row \<Rightarrow> vm_row) \<Rightarrow> nat \<Rightarrow> vm_request \<Rightarrow> vm_world \<Rightarrow> string + vm_world" where
  "claim_vm now change s patch p rq w =
     (let key = vm_id (rq_row rq); version = vm_version (rq_row rq) in
      case stored_vm w key of
        Some row \<Rightarrow>
          if vm_version row = version \<and> vm_operation row = None then
            let claimed = (patch row)\<lparr>vm_operation := Some change, vm_step := Some s, vm_task := None,
                  vm_byId := Some (rq_byId rq), vm_byName := Some (rq_byName rq), vm_startedAt := Some now,
                  vm_updatedAt := Some now, vm_error := None, vm_errorAt := None, vm_version := version + 1\<rparr>
            in Inr (drive_vm p key False ((update_vm key (\<lambda>_. claimed) w)\<lparr>w_claims := (key, version) # w_claims w\<rparr>))
          else Inl ''VM_OPERATION_IN_PROGRESS''
      | None \<Rightarrow> Inl ''VM_OPERATION_IN_PROGRESS'')"

text \<open>\<open>power\<close> after the provider answered its \<open>status\<close>.\<close>

definition state_patch :: "vm_state \<Rightarrow> int \<Rightarrow> vm_row \<Rightarrow> vm_row" where
  "state_patch st now row = row\<lparr>vm_observed := st, vm_observedAt := Some now\<rparr>"

definition first_step :: "vm_config \<Rightarrow> vm_action \<Rightarrow> string" where
  "first_step config a = (if a = Hibernate \<and> truthy (cf_backupBeforeSleep config) then ''backup'' else ''request'')"

definition decide_power ::
    "int \<Rightarrow> vm_config \<Rightarrow> observed_vm option \<Rightarrow> nat \<Rightarrow> vm_request \<Rightarrow> vm_action \<Rightarrow> vm_world \<Rightarrow> (string \<times> vm_world) + vm_world" where
  "decide_power now config seen p rq a w =
     (let key = vm_id (rq_row rq) in
      case seen of
        None \<Rightarrow> Inl (''VM_NOT_FOUND'', update_vm key (state_patch Missing now) w)
      | Some ob \<Rightarrow>
          if \<not> availableActions ((observedPatch ob now (rq_row rq))\<lparr>vm_operation := None\<rparr>) config (PowerChange a)
          then Inl (''VM_ACTION_NOT_AVAILABLE'', update_vm key (observedPatch ob now) w)
          else (case claim_vm now (PowerChange a) (first_step config a) (observedPatch ob now) p rq w of
              Inl e \<Rightarrow> Inl (e, w) | Inr w' \<Rightarrow> Inr w'))"

text \<open>\<open>start\<close> of the lifecycle service: a delete or a new enrollment.\<close>

definition decide_lifecycle ::
    "int \<Rightarrow> vm_config \<Rightarrow> observed_vm option \<Rightarrow> nat \<Rightarrow> vm_request \<Rightarrow> vm_operation \<Rightarrow> string \<Rightarrow> vm_world \<Rightarrow> (string \<times> vm_world) + vm_world" where
  "decide_lifecycle now config seen p rq change s w =
     (let st = (case seen of Some ob \<Rightarrow> ob_state ob | None \<Rightarrow> Missing) in
      if \<not> availableActions ((rq_row rq)\<lparr>vm_observed := st, vm_operation := None\<rparr>) config change
      then Inl (''VM_ACTION_NOT_AVAILABLE'', w)
      else (case claim_vm now change s (state_patch st now) p rq w of Inl e \<Rightarrow> Inl (e, w) | Inr w' \<Rightarrow> Inr w'))"

definition decide_vm :: "int \<Rightarrow> vm_config \<Rightarrow> observed_vm option \<Rightarrow> nat \<Rightarrow> vm_request \<Rightarrow> vm_world \<Rightarrow> (string \<times> vm_world) + vm_world" where
  "decide_vm now config seen p rq w =
     (case rq_change rq of
        PowerChange a \<Rightarrow> decide_power now config seen p rq a w
      | DeleteChange \<Rightarrow> decide_lifecycle now config seen p rq DeleteChange ''stop'' w
      | EnrollChange \<Rightarrow> decide_lifecycle now config seen p rq EnrollChange ''firmware'' w
      | CreateChange \<Rightarrow> Inl ('''', w))"

text \<open>
  A request that reads the row of its host: there is none, it may not be deleted from here, the name
  was typed wrongly, or another change holds it; else the provider is asked (\<open>confirm\<close> is only read
  by a delete).
\<close>

definition ask_vm :: "nat \<Rightarrow> nat \<Rightarrow> string \<Rightarrow> vm_operation \<Rightarrow> string \<Rightarrow> string \<Rightarrow> string \<Rightarrow> vm_world \<Rightarrow> string + vm_world" where
  "ask_vm p r key change confirm byId byName w =
     (case stored_vm w key of
        None \<Rightarrow> Inl ''VM_NOT_LINKED''
      | Some row \<Rightarrow>
          if change = DeleteChange \<and> vm_origin row \<noteq> Created then Inl ''VM_NOT_CREATED_BY_PDMUX''
          else if change = DeleteChange \<and> js_trim confirm \<noteq> vm_name row then Inl ''VM_DELETE_NAME_MISMATCH''
          else if vm_operation row \<noteq> None then Inl ''VM_OPERATION_IN_PROGRESS''
          else Inr (w\<lparr>w_requests := AList.update r (p, \<lparr>rq_row = row, rq_change = change, rq_byId = byId, rq_byName = byName\<rparr>) (w_requests w)\<rparr>))"

section \<open>The reconcile\<close>

definition resume_if_stale :: "nat \<Rightarrow> int \<Rightarrow> vm_row \<Rightarrow> vm_world \<Rightarrow> vm_world" where
  "resume_if_stale p now row w =
     (if vm_operation row = None then w
      else let idle = now - (case vm_updatedAt row of Some t \<Rightarrow> t | None \<Rightarrow> 0) in
        if STALE_MS < idle \<and> (current_driver w p (vm_id row) = None \<or> HUNG_MS < idle)
        then drive_vm p (vm_id row) True w else w)"

text \<open>One row of a pass: \<open>row\<close> is what the pass read when it began, \<open>seen\<close> what the provider listed since.\<close>

definition reconcile_row :: "nat \<Rightarrow> int \<Rightarrow> observed_vm option \<Rightarrow> vm_row \<Rightarrow> vm_world \<Rightarrow> vm_world" where
  "reconcile_row p now seen row w =
     (if seen = None \<and> vm_operation row = Some CreateChange then resume_if_stale p now row w
      else resume_if_stale p now row
        (update_vm (vm_id row) (case seen of Some ob \<Rightarrow> observedPatch ob now | None \<Rightarrow> state_patch Missing now) w))"

text \<open>The lease of a provider's reconcile: free, or run out.\<close>

definition claimLease :: "int \<Rightarrow> int \<Rightarrow> int option \<Rightarrow> bool \<times> int option" where
  "claimLease now till lease =
     (case lease of
        None \<Rightarrow> (True, Some till)
      | Some t \<Rightarrow> if t < now then (True, Some till) else (False, lease))"

section \<open>Taking a row away\<close>

text \<open>
  An unlink and the removal of a host read the row, and delete in a later step; the sweep of stale hosts
  deletes without looking at a machine. A host goes with the row of its machine.
\<close>

fun removes :: "vm_removal \<Rightarrow> vm_row \<Rightarrow> bool" where
  "removes (UnlinkRow key) row = (vm_id row = key)"
| "removes (RemoveHost host) row = (vm_host row = host)"

definition delete_vms :: "vm_removal \<Rightarrow> vm_world \<Rightarrow> vm_world" where
  "delete_vms rm w = w\<lparr>w_rows := filter (\<lambda>(_, row). \<not> removes rm row) (w_rows w)\<rparr>"

text \<open>While a driver removes the host of the machine it deleted, its process lets any removal of that host pass.\<close>

definition releasing_hosts :: "nat \<Rightarrow> vm_world \<Rightarrow> string list" where
  "releasing_hosts p w = map (\<lambda>(_, dv). vm_host (dr_row (dv_drive dv))) (filter (\<lambda>(_, dv). dv_process dv = p
     \<and> (case dr_call (dv_drive dv) of ReleaseCall _ \<Rightarrow> True | _ \<Rightarrow> False)) (w_live w))"

definition ask_unlink :: "string \<Rightarrow> string \<Rightarrow> vm_world \<Rightarrow> string + vm_removal" where
  "ask_unlink org host w =
     (case unlink_vm (map snd (w_rows w)) org host of Inl e \<Rightarrow> Inl e | Inr row \<Rightarrow> Inr (UnlinkRow (vm_id row)))"

definition ask_host_removal :: "nat \<Rightarrow> string \<Rightarrow> string \<Rightarrow> vm_world \<Rightarrow> string + vm_removal" where
  "ask_host_removal p org host w =
     (case guardRemoval (releasing_hosts p w) (map snd (w_rows w)) org host of Some e \<Rightarrow> Inl e | None \<Rightarrow> Inr (RemoveHost host))"

definition allow_removal :: "nat \<Rightarrow> nat \<Rightarrow> string + vm_removal \<Rightarrow> vm_world \<Rightarrow> vm_world" where
  "allow_removal p r allowed w =
     (case allowed of Inl _ \<Rightarrow> w | Inr rm \<Rightarrow> w\<lparr>w_removals := AList.update r (p, rm) (w_removals w)\<rparr>)"

definition finish_removal :: "nat \<Rightarrow> vm_world \<Rightarrow> vm_world" where
  "finish_removal r w =
     (case map_of (w_removals w) r of
        None \<Rightarrow> w
      | Some (_, rm) \<Rightarrow> (delete_vms rm w)\<lparr>w_removals := AList.delete r (w_removals w)\<rparr>)"

section \<open>Steps of the world\<close>

datatype vm_event =
    InsertRow nat vm_row
  | AskChange nat nat string vm_operation string string string
  | DecideChange nat int vm_config "observed_vm option"
  | AnswerDriver nat int vm_answer
  | BeginPass nat string
  | PassRow nat string int "observed_vm option"
  | CrashProcess nat
  | AskUnlink nat nat string string
  | AskRemoveHost nat nat string string
  | FinishRemoval nat
  | SweepHost string

definition insert_vm :: "nat \<Rightarrow> vm_row \<Rightarrow> vm_world \<Rightarrow> vm_world" where
  "insert_vm p row w =
     (if vm_id row \<in> set (w_used w) then w
      else drive_vm p (vm_id row) False
        (w\<lparr>w_rows := (vm_id row, row) # w_rows w, w_used := vm_id row # w_used w\<rparr>))"

definition begin_pass :: "nat \<Rightarrow> string \<Rightarrow> vm_world \<Rightarrow> vm_world" where
  "begin_pass p provider w =
     w\<lparr>w_passes := map (\<lambda>(key, row). ((p, key), row)) (filter (\<lambda>(_, row). vm_provider row = provider) (w_rows w))
        @ filter (\<lambda>((q, _), _). q \<noteq> p) (w_passes w)\<rparr>"

definition crash_process :: "nat \<Rightarrow> vm_world \<Rightarrow> vm_world" where
  "crash_process p w =
     w\<lparr>w_requests := filter (\<lambda>(_, q, _). q \<noteq> p) (w_requests w), w_live := filter (\<lambda>(_, dv). dv_process dv \<noteq> p) (w_live w),
       w_current := filter (\<lambda>((q, _), _). q \<noteq> p) (w_current w), w_passes := filter (\<lambda>((q, _), _). q \<noteq> p) (w_passes w),
       w_removals := filter (\<lambda>(_, q, _). q \<noteq> p) (w_removals w)\<rparr>"

fun world_step :: "string \<Rightarrow> vm_world \<Rightarrow> vm_event \<Rightarrow> vm_world" where
  "world_step url w (InsertRow p row) = insert_vm p row w"
| "world_step url w (AskChange p r key change confirm byId byName) =
     (case ask_vm p r key change confirm byId byName w of Inl _ \<Rightarrow> w | Inr w' \<Rightarrow> w')"
| "world_step url w (DecideChange r now config seen) =
     (case map_of (w_requests w) r of
        None \<Rightarrow> w
      | Some (p, rq) \<Rightarrow>
          let w0 = w\<lparr>w_requests := AList.delete r (w_requests w)\<rparr> in
          (case decide_vm now config seen p rq w0 of Inl (_, w') \<Rightarrow> w' | Inr w' \<Rightarrow> w'))"
| "world_step url w (AnswerDriver g now ans) = answer_vm url g now ans w"
| "world_step url w (BeginPass p provider) = begin_pass p provider w"
| "world_step url w (PassRow p key now seen) =
     (case map_of (w_passes w) (p, key) of None \<Rightarrow> w | Some row \<Rightarrow> reconcile_row p now seen row w)"
| "world_step url w (CrashProcess p) = crash_process p w"
| "world_step url w (AskUnlink p r org host) = allow_removal p r (ask_unlink org host w) w"
| "world_step url w (AskRemoveHost p r org host) = allow_removal p r (ask_host_removal p org host w) w"
| "world_step url w (FinishRemoval r) = finish_removal r w"
| "world_step url w (SweepHost host) = delete_vms (RemoveHost host) w"

section \<open>The rows and the claims\<close>

definition rows_ok :: "vm_world \<Rightarrow> bool" where
  "rows_ok w \<longleftrightarrow> distinct (map fst (w_rows w))
     \<and> (\<forall>key row. stored_vm w key = Some row \<longrightarrow> key \<in> set (w_used w) \<and> vm_id row = key)
     \<and> distinct (w_claims w)
     \<and> (\<forall>key v. (key, v) \<in> set (w_claims w) \<longrightarrow> key \<in> set (w_used w))
     \<and> (\<forall>key v row. (key, v) \<in> set (w_claims w) \<longrightarrow> stored_vm w key = Some row \<longrightarrow> v < vm_version row)"

lemma rows_ok_cong:
  "rows_ok w \<Longrightarrow> w_rows w' = w_rows w \<Longrightarrow> w_used w' = w_used w \<Longrightarrow> w_claims w' = w_claims w \<Longrightarrow> rows_ok w'"
  by (simp add: rows_ok_def stored_vm_def)

lemma drive_vm_frame [simp]:
  "w_rows (drive_vm p key r w) = w_rows w" "w_used (drive_vm p key r w) = w_used w" "w_claims (drive_vm p key r w) = w_claims w"
  "w_audits (drive_vm p key r w) = w_audits w"
  by (simp_all add: drive_vm_def Let_def split: option.split)

lemma stored_vm_update: "stored_vm (update_vm key f w) k = (if k = key then map_option f (stored_vm w key) else stored_vm w k)"
  by (simp add: stored_vm_def update_vm_def AList.map_of_map_entry split: option.split)

lemma map_entry_keys [simp]: "map fst (AList.map_entry key f xs) = map fst xs"
  by (induction xs) auto

lemma update_vm_frame [simp]:
  "w_used (update_vm key f w) = w_used w" "w_claims (update_vm key f w) = w_claims w" "w_live (update_vm key f w) = w_live w"
  "w_current (update_vm key f w) = w_current w" "w_generation (update_vm key f w) = w_generation w"
  "map fst (w_rows (update_vm key f w)) = map fst (w_rows w)"
  by (simp_all add: update_vm_def)

text \<open>A write that keeps the row's id and version keeps the invariant.\<close>

lemma rows_ok_update:
  assumes "rows_ok w" and "\<And>row. vm_id (f row) = vm_id row" and "\<And>row. vm_version (f row) = vm_version row"
  shows "rows_ok (update_vm key f w)"
proof -
  have "\<exists>row'. stored_vm w k = Some row' \<and> vm_id row' = vm_id row \<and> vm_version row' = vm_version row"
    if "stored_vm (update_vm key f w) k = Some row" for k row
    using that assms(2,3) by (auto simp: stored_vm_update split: if_splits)
  then show ?thesis using assms(1) unfolding rows_ok_def update_vm_frame by fastforce
qed

lemma patches_keep_version [simp]:
  "vm_id (observedPatch ob now row) = vm_id row" "vm_version (observedPatch ob now row) = vm_version row"
  "vm_id (state_patch st now row) = vm_id row" "vm_version (state_patch st now row) = vm_version row"
  by (simp_all add: observedPatch_def state_patch_def)

lemma effects_keep_version:
  "vm_id (fold apply_effect effs row) = vm_id row \<and> vm_version (fold apply_effect effs row) = vm_version row"
proof (induction effs arbitrary: row)
  case (Cons e effs)
  have "vm_id (apply_effect e row) = vm_id row \<and> vm_version (apply_effect e row) = vm_version row"
    by (cases e) (simp_all add: step_row_def finish_row_def split: option.split)
  then show ?case using Cons by simp
qed simp

lemma rows_ok_drive [simp]: "rows_ok (drive_vm p key r w) = rows_ok w"
  by (metis drive_vm_frame rows_ok_cong)

lemma resume_frame [simp]:
  "w_rows (resume_if_stale p now row w) = w_rows w" "w_used (resume_if_stale p now row w) = w_used w"
  "w_claims (resume_if_stale p now row w) = w_claims w" "w_audits (resume_if_stale p now row w) = w_audits w"
  by (simp_all add: resume_if_stale_def Let_def)

lemma rows_ok_resume [simp]: "rows_ok (resume_if_stale p now row w) = rows_ok w"
  by (simp add: resume_if_stale_def Let_def)

lemma rows_ok_delete: "rows_ok w \<Longrightarrow> rows_ok (w\<lparr>w_rows := AList.delete key (w_rows w)\<rparr>)"
  by (auto simp: rows_ok_def stored_vm_def AList.delete_conv' distinct_delete split: if_splits)

lemma map_of_kept_rows:
  "distinct (map fst rows) \<Longrightarrow> map_of (filter (\<lambda>(_, row). \<not> P row) rows) key
    = (case map_of rows key of None \<Rightarrow> None | Some row \<Rightarrow> if P row then None else Some row)"
  by (induction rows) (auto split: option.splits dest: map_of_SomeD simp: rev_image_eqI)

lemma stored_vm_delete_vms:
  "distinct (map fst (w_rows w)) \<Longrightarrow> stored_vm (delete_vms rm w) key
    = (case stored_vm w key of None \<Rightarrow> None | Some row \<Rightarrow> if removes rm row then None else Some row)"
  unfolding stored_vm_def delete_vms_def by (simp add: map_of_kept_rows)

lemma delete_vms_frame [simp]:
  "w_used (delete_vms rm w) = w_used w" "w_claims (delete_vms rm w) = w_claims w" "w_audits (delete_vms rm w) = w_audits w"
  by (simp_all add: delete_vms_def)

lemma rows_ok_delete_vms: "rows_ok w \<Longrightarrow> rows_ok (delete_vms rm w)"
proof -
  assume ok: "rows_ok w"
  then have d: "distinct (map fst (w_rows w))" by (simp add: rows_ok_def)
  have "stored_vm w key = Some row" if "stored_vm (delete_vms rm w) key = Some row" for key row
    using that by (auto simp: stored_vm_delete_vms [OF d] split: option.splits if_splits)
  moreover have "distinct (map fst (w_rows (delete_vms rm w)))" using d by (simp add: delete_vms_def distinct_map_filter)
  ultimately show ?thesis using ok unfolding rows_ok_def delete_vms_frame by blast
qed

lemma rows_ok_finish: "rows_ok w \<Longrightarrow> rows_ok (finish_removal r w)"
  by (auto simp: finish_removal_def split: option.split elim!: rows_ok_cong [OF rows_ok_delete_vms])

lemma allow_removal_frame [simp]:
  "w_rows (allow_removal p r a w) = w_rows w" "w_used (allow_removal p r a w) = w_used w" "w_claims (allow_removal p r a w) = w_claims w"
  by (simp_all add: allow_removal_def split: sum.split)

lemma rows_ok_write:
  assumes "rows_ok w" shows "rows_ok (write_effects key effs w)"
proof -
  have "rows_ok (update_vm key (\<lambda>row. fold apply_effect effs row) w)"
    using assms by (rule rows_ok_update) (simp_all add: effects_keep_version)
  from this rows_ok_delete [OF this, of key] show ?thesis
    unfolding write_effects_def Let_def by (auto elim: rows_ok_cong)
qed

lemma answer_vm_none: "map_of (w_live w) g = None \<Longrightarrow> answer_vm url g now ans w = w"
  by (simp add: answer_vm_def)

definition effects_of :: "string \<Rightarrow> nat \<Rightarrow> int \<Rightarrow> vm_answer \<Rightarrow> vm_driver \<Rightarrow> vm_world \<Rightarrow> vm_effect list" where
  "effects_of url g now ans dv w =
     snd (advance url (current_driver w (dv_process dv) (dv_id dv) = Some g) now (stored_vm w (dv_id dv)) ans (dv_drive dv))"

lemma answer_vm_frame:
  assumes "map_of (w_live w) g = Some dv"
  shows "w_rows (answer_vm url g now ans w) = w_rows (write_effects (dv_id dv) (effects_of url g now ans dv w) w)"
    and "w_used (answer_vm url g now ans w) = w_used (write_effects (dv_id dv) (effects_of url g now ans dv w) w)"
    and "w_claims (answer_vm url g now ans w) = w_claims (write_effects (dv_id dv) (effects_of url g now ans dv w) w)"
    and "w_audits (answer_vm url g now ans w) = w_audits (write_effects (dv_id dv) (effects_of url g now ans dv w) w)"
  by (simp_all add: answer_vm_def assms effects_of_def Let_def split_beta)

lemma claim_vm_ok:
  assumes "rows_ok w" and "claim_vm now change s patch p rq w = Inr w'" and "\<And>row. vm_id (patch row) = vm_id row"
  shows "rows_ok w'"
proof -
  let ?key = "vm_id (rq_row rq)" and ?v = "vm_version (rq_row rq)"
  obtain row where row: "stored_vm w ?key = Some row" "vm_version row = ?v"
    using assms(2) by (auto simp: claim_vm_def Let_def split: option.splits if_splits)
  define claimed where "claimed = (patch row)\<lparr>vm_operation := Some change, vm_step := Some s, vm_task := None,
    vm_byId := Some (rq_byId rq), vm_byName := Some (rq_byName rq), vm_startedAt := Some now,
    vm_updatedAt := Some now, vm_error := None, vm_errorAt := None, vm_version := ?v + 1\<rparr>"
  define w1 where "w1 = (update_vm ?key (\<lambda>_. claimed) w)\<lparr>w_claims := (?key, ?v) # w_claims w\<rparr>"
  have w': "w' = drive_vm p ?key False w1"
    using assms(2) row by (auto simp: claim_vm_def Let_def claimed_def w1_def split: if_splits)
  have id: "vm_id row = ?key" "?key \<in> set (w_used w)" using assms(1) row by (auto simp: rows_ok_def)
  have st: "stored_vm w1 k = (if k = ?key then Some claimed else stored_vm w k)" for k
    using row stored_vm_update [of ?key "\<lambda>_. claimed" w k] by (simp add: w1_def stored_vm_def)
  have older: "v < ?v" if "(?key, v) \<in> set (w_claims w)" for v
    using that assms(1) row unfolding rows_ok_def by metis
  then have new: "(?key, ?v) \<notin> set (w_claims w)" by blast
  have frame: "map fst (w_rows w1) = map fst (w_rows w)" "w_used w1 = w_used w" "w_claims w1 = (?key, ?v) # w_claims w"
    by (simp_all add: w1_def)
  have "vm_id claimed = ?key" "vm_version claimed = ?v + 1" using id assms(3) by (simp_all add: claimed_def)
  then have "rows_ok w1"
    using assms(1) id new older unfolding rows_ok_def frame st by (auto simp: less_Suc_eq split: if_splits)
  then show ?thesis by (simp add: w')
qed

lemma decide_power_ok:
  assumes "rows_ok w" shows "rows_ok (case decide_power now config seen p rq a w of Inl (e, w') \<Rightarrow> w' | Inr w' \<Rightarrow> w')"
  unfolding decide_power_def Let_def
  by (auto intro!: rows_ok_update assms split: option.split sum.split elim!: claim_vm_ok [OF assms])

lemma decide_lifecycle_ok:
  assumes "rows_ok w" shows "rows_ok (case decide_lifecycle now config seen p rq change s w of Inl (e, w') \<Rightarrow> w' | Inr w' \<Rightarrow> w')"
  unfolding decide_lifecycle_def Let_def
  by (auto intro!: assms split: sum.split elim!: claim_vm_ok [OF assms])

lemma decide_vm_ok:
  assumes "rows_ok w" shows "rows_ok (case decide_vm now config seen p rq w of Inl (e, w') \<Rightarrow> w' | Inr w' \<Rightarrow> w')"
  unfolding decide_vm_def
  by (cases "rq_change rq") (simp_all only: vm_operation.case sum.case prod.case decide_power_ok decide_lifecycle_ok assms)

lemma rows_ok_step: "rows_ok w \<Longrightarrow> rows_ok (world_step url w e)"
proof (cases e)
  case (InsertRow p row)
  have "rows_ok (w\<lparr>w_rows := (vm_id row, row) # w_rows w, w_used := vm_id row # w_used w\<rparr>)"
    if "rows_ok w" "vm_id row \<notin> set (w_used w)"
  proof -
    have "map_of (w_rows w) (vm_id row) = None"
      using that by (cases "map_of (w_rows w) (vm_id row)") (auto simp: rows_ok_def stored_vm_def)
    then have "vm_id row \<notin> set (map fst (w_rows w))" by (simp add: map_of_eq_None_iff)
    then show ?thesis using that by (fastforce simp: rows_ok_def stored_vm_def)
  qed
  then show "rows_ok w \<Longrightarrow> ?thesis" using InsertRow by (simp add: insert_vm_def)
next
  case (AskChange p r key change confirm byId byName)
  then show "rows_ok w \<Longrightarrow> ?thesis"
    by (auto simp: ask_vm_def split: option.split elim!: rows_ok_cong)
next
  case (DecideChange r now config seen)
  have "rows_ok w \<Longrightarrow> rows_ok (w\<lparr>w_requests := AList.delete r (w_requests w)\<rparr>)" by (erule rows_ok_cong) simp_all
  then show "rows_ok w \<Longrightarrow> ?thesis"
    using DecideChange by (simp add: Let_def decide_vm_ok split: option.split)
next
  case (AnswerDriver g now ans)
  then show "rows_ok w \<Longrightarrow> ?thesis"
    by (cases "map_of (w_live w) g")
      (simp_all add: answer_vm_none rows_ok_cong [OF rows_ok_write answer_vm_frame(1) answer_vm_frame(2) answer_vm_frame(3)])
next
  case (PassRow p key now seen)
  then show "rows_ok w \<Longrightarrow> ?thesis"
    by (auto simp: reconcile_row_def intro!: rows_ok_update split: option.split)
next
  case (BeginPass p provider)
  then show "rows_ok w \<Longrightarrow> ?thesis" by (auto simp: begin_pass_def elim!: rows_ok_cong)
next
  case (CrashProcess p)
  then show "rows_ok w \<Longrightarrow> ?thesis" by (auto simp: crash_process_def elim!: rows_ok_cong)
next
  case (AskUnlink p r org host)
  then show "rows_ok w \<Longrightarrow> ?thesis" by (auto elim!: rows_ok_cong)
next
  case (AskRemoveHost p r org host)
  then show "rows_ok w \<Longrightarrow> ?thesis" by (auto elim!: rows_ok_cong)
qed (simp_all add: rows_ok_finish rows_ok_delete_vms)

lemma rows_ok_empty: "rows_ok empty_world"
  by (simp add: rows_ok_def empty_world_def stored_vm_def)

interpretation vm_rows: invariant_machine "world_step url" rows_ok for url
  by unfold_locales (rule rows_ok_step)

text \<open>
  C13 (\<open>one_claim_per_version\<close>): however the requests, drivers and reconciles of any number of processes
  interleave, no two requests ever take the same machine at the same version, and what a version was
  claimed at lies behind: the version of the row is a later one.
\<close>

theorem one_claim_per_version:
  "let w = run (world_step url) empty_world es in
     distinct (w_claims w)
     \<and> list_all (\<lambda>(key, v). case stored_vm w key of Some row \<Rightarrow> v < vm_version row | None \<Rightarrow> True) (w_claims w)"
proof -
  have "rows_ok (run (world_step url) empty_world es)" by (rule vm_rows.run_inv [OF rows_ok_empty])
  then show ?thesis by (auto simp: rows_ok_def Let_def list_all_iff split: option.split)
qed

section \<open>What becomes of a change\<close>

lemma change_kept_by_patch [simp]:
  "vm_operation (observedPatch ob now row) = vm_operation row" "vm_operation (state_patch st now row) = vm_operation row"
  by (simp_all add: observedPatch_def state_patch_def)

text \<open>\<open>keeps_changes w w'\<close>: no change that was held is another one or gone.\<close>

definition keeps_changes :: "vm_world \<Rightarrow> vm_world \<Rightarrow> bool" where
  "keeps_changes w w' = (\<forall>key row change. stored_vm w key = Some row \<longrightarrow> vm_operation row = Some change
     \<longrightarrow> (\<exists>row'. stored_vm w' key = Some row' \<and> vm_operation row' = Some change))"

lemma keeps_changes_same: "w_rows w' = w_rows w \<Longrightarrow> keeps_changes w w'"
  by (simp add: keeps_changes_def stored_vm_def)

lemma keeps_changes_update:
  "(\<And>row. vm_operation (f row) = vm_operation row) \<Longrightarrow> w_rows w' = w_rows (update_vm key f w) \<Longrightarrow> keeps_changes w w'"
  using stored_vm_update [of key f w] by (auto simp: keeps_changes_def stored_vm_def)

lemma claim_keeps_changes:
  assumes "claim_vm now change s patch p rq w = Inr w'" shows "keeps_changes w w'"
proof -
  let ?key = "vm_id (rq_row rq)"
  obtain row f where row: "stored_vm w ?key = Some row" "vm_operation row = None" "w_rows w' = w_rows (update_vm ?key f w)"
    using assms by (auto simp: claim_vm_def Let_def split: option.splits if_splits)
  then show ?thesis using stored_vm_update [of ?key f w] by (auto simp: keeps_changes_def stored_vm_def)
qed

lemma decide_keeps_changes: "keeps_changes w (case decide_vm now config seen p rq w of Inl (e, w') \<Rightarrow> w' | Inr w' \<Rightarrow> w')"
proof -
  have power: "keeps_changes w (case decide_power now config seen p rq a w of Inl (e, w') \<Rightarrow> w' | Inr w' \<Rightarrow> w')" for a
    unfolding decide_power_def Let_def
    by (auto intro: keeps_changes_same keeps_changes_update [OF _ refl] split: option.split sum.split elim!: claim_keeps_changes)
  have life: "keeps_changes w (case decide_lifecycle now config seen p rq change s w of Inl (e, w') \<Rightarrow> w' | Inr w' \<Rightarrow> w')" for change s
    unfolding decide_lifecycle_def Let_def
    by (auto intro: keeps_changes_same split: sum.split elim!: claim_keeps_changes)
  show ?thesis unfolding decide_vm_def
    by (cases "rq_change rq") (simp_all only: vm_operation.case sum.case prod.case power life keeps_changes_same)
qed

lemma quiet_step_keeps_changes:
  assumes "rows_ok w" and "\<And>g now ans. e \<noteq> AnswerDriver g now ans" and "\<And>r. e \<noteq> FinishRemoval r" and "\<And>host. e \<noteq> SweepHost host"
  shows "keeps_changes w (world_step url w e)"
proof (cases e)
  case (InsertRow p row)
  have "stored_vm w (vm_id row) = None" if "vm_id row \<notin> set (w_used w)"
    using that assms(1) by (cases "stored_vm w (vm_id row)") (auto simp: rows_ok_def)
  then show ?thesis by (auto simp: InsertRow insert_vm_def keeps_changes_def stored_vm_def)
next
  case (AskChange p r key change confirm byId byName)
  then show ?thesis by (auto simp: ask_vm_def keeps_changes_same split: option.split)
next
  case (DecideChange r now config seen)
  have "keeps_changes (w\<lparr>w_requests := rs\<rparr>) w' = keeps_changes w w'" for rs w'
    by (simp add: keeps_changes_def stored_vm_def)
  then show ?thesis
    using decide_keeps_changes [of "w\<lparr>w_requests := AList.delete r (w_requests w)\<rparr>"]
    by (simp add: DecideChange Let_def keeps_changes_same split: option.split)
next
  case (AnswerDriver g now ans)
  then show ?thesis using assms(2) by blast
next
  case (BeginPass p provider)
  then show ?thesis by (simp add: begin_pass_def keeps_changes_same)
next
  case (PassRow p key now seen)
  have patched: "keeps_changes w (resume_if_stale p now row (update_vm k f w))"
    if "\<And>row. vm_operation (f row) = vm_operation row" for k f row
    by (rule keeps_changes_update [OF that]) simp_all
  have "keeps_changes w (reconcile_row p now seen row w)" for row
    by (auto simp: reconcile_row_def keeps_changes_same intro!: patched split: option.split)
  then show ?thesis by (simp add: PassRow keeps_changes_same split: option.split)
next
  case (CrashProcess p)
  then show ?thesis by (simp add: crash_process_def keeps_changes_same)
qed (use assms(3,4) in \<open>simp_all add: keeps_changes_same\<close>)

lemma quiet_effects_keep_change:
  "list_all (\<lambda>e. \<not> closing e) effs \<Longrightarrow> vm_operation (fold apply_effect effs row) = vm_operation row"
proof (induction effs arbitrary: row)
  case (Cons e effs)
  then show ?case by (cases e) simp_all
qed simp

lemma quiet_write_keeps_changes:
  assumes "list_all (\<lambda>e. \<not> closing e) effs" shows "keeps_changes w (write_effects key effs w)"
proof -
  have "ReleaseRow \<notin> set effs" using assms by (auto simp: list_all_iff)
  then show ?thesis using assms
    by (intro keeps_changes_update [of "\<lambda>row. fold apply_effect effs row" _ key])
      (simp_all add: quiet_effects_keep_change write_effects_def Let_def)
qed

text \<open>What a last call writes: one end and one record of it, or nothing yet.\<close>

definition ends_row :: "vm_effect \<Rightarrow> string option \<Rightarrow> int \<Rightarrow> bool" where
  "ends_row e err now = (e = ReleaseRow \<or> (\<exists>ob. e = WriteFinish ob err now))"

lemma last_effects:
  assumes "closing_call (dr_call d)"
  shows "list_all (\<lambda>e. \<not> closing e) (snd (advance url cur now st ans d))
    \<or> (\<exists>first err. ends_row first err now
        \<and> snd (advance url cur now st ans d) = [first, Audit (vm_operation (dr_row d)) err])"
  using assms by (cases "dr_call d") (auto simp: advance_def released_def ends_row_def split: vm_answer.split)

lemma closing_write:
  assumes "ends_row first err now"
  shows "stored_vm (write_effects key [first, Audit change err] w) k
    = (if k \<noteq> key then stored_vm w k else if first = ReleaseRow then None
       else map_option (apply_effect first) (stored_vm w k))"
    and "w_audits (write_effects key [first, Audit change err] w) = w_audits w @ [(key, change, err)]"
  using assms stored_vm_update [of key "\<lambda>row. apply_effect first row" w k]
  by (auto simp: ends_row_def write_effects_def Let_def stored_vm_def audits_of_def List.map_filter_def AList.delete_conv')

lemma driver_ends_change:
  assumes ok: "rows_ok w" and "stored_vm w key = Some row" and "vm_operation row = Some change"
    and "\<nexists>row'. stored_vm (world_step url w e) key = Some row' \<and> vm_operation row' = Some change"
    and e: "e = AnswerDriver g now ans"
  shows "\<exists>g now ans dv err change'. e = AnswerDriver g now ans \<and> map_of (w_live w) g = Some dv \<and> dv_id dv = key
    \<and> closing_call (dr_call (dv_drive dv))
    \<and> (case stored_vm (world_step url w e) key of None \<Rightarrow> True | Some row' \<Rightarrow> vm_operation row' = None \<and> vm_error row' = err)
    \<and> w_audits (world_step url w e) = w_audits w @ [(key, change', err)]"
proof -
  have lost: "\<not> keeps_changes w (world_step url w e)" using assms(2-4) by (auto simp: keeps_changes_def)
  from lost have "map_of (w_live w) g \<noteq> None"
    by (cases "map_of (w_live w) g") (auto simp: e answer_vm_none keeps_changes_same)
  then obtain dv where dv: "map_of (w_live w) g = Some dv" by blast
  let ?effs = "effects_of url g now ans dv w" and ?d = "dv_drive dv"
  note frame = answer_vm_frame [OF dv, of url now ans]
  have st: "stored_vm (world_step url w e) k = stored_vm (write_effects (dv_id dv) ?effs w) k" for k
    by (simp add: e stored_vm_def frame)
  have loud: "\<not> list_all (\<lambda>e. \<not> closing e) ?effs"
    using lost quiet_write_keeps_changes [of ?effs w "dv_id dv"] by (auto simp: keeps_changes_def st)
  then have closing: "closing_call (dr_call ?d)"
    using answered_leaves_open [of ?d "current_driver w (dv_process dv) (dv_id dv) = Some g" url now "stored_vm w (dv_id dv)" ans]
    unfolding effects_of_def leaves_open_def by blast
  from last_effects [OF this, of url "current_driver w (dv_process dv) (dv_id dv) = Some g" now "stored_vm w (dv_id dv)" ans] loud
  obtain first err where
    first: "ends_row first err now" and effs: "?effs = [first, Audit (vm_operation (dr_row ?d)) err]"
    unfolding effects_of_def by (elim disjE exE conjE) simp_all
  have key: "dv_id dv = key"
  proof (rule ccontr)
    assume "dv_id dv \<noteq> key"
    then have "stored_vm (world_step url w e) key = Some row" using assms(2) closing_write(1) [OF first] by (simp add: st effs)
    then show False using assms(3,4) by blast
  qed
  have "case stored_vm (world_step url w e) key of None \<Rightarrow> True | Some row' \<Rightarrow> vm_operation row' = None \<and> vm_error row' = err"
    using first closing_write(1) [OF first, of key _ w key] assms(2)
    by (auto simp: st key effs ends_row_def finish_row_def split: option.split)
  moreover have "w_audits (world_step url w e) = w_audits w @ [(key, vm_operation (dr_row ?d), err)]"
    using closing_write(2) [OF first, of key _ w] frame(4) by (simp add: e key effs)
  ultimately show ?thesis using e dv key closing by blast
qed

text \<open>
  C9 (\<open>a_change_only_ends_in_a_driver\<close>): from no state the fleet can reach does a step give a machine that
  one change holds to another change. What takes it out of that change is the last answer of a driver of
  this very machine, which frees the row or removes it and records the end; or the row goes as a whole,
  with nothing recorded: by an unlink or a removal of its host that passed its guard in an earlier step and
  deletes without looking again, or by the sweep of stale hosts, which does not look at all.
\<close>

theorem a_change_only_ends_in_a_driver:
  assumes "w = run (world_step url) empty_world es"
    and "stored_vm w key = Some row" and "vm_operation row = Some change"
    and "\<nexists>row'. stored_vm (world_step url w e) key = Some row' \<and> vm_operation row' = Some change"
  shows "(\<exists>g now ans dv err change'. e = AnswerDriver g now ans \<and> map_of (w_live w) g = Some dv \<and> dv_id dv = key
      \<and> closing_call (dr_call (dv_drive dv))
      \<and> (case stored_vm (world_step url w e) key of None \<Rightarrow> True | Some row' \<Rightarrow> vm_operation row' = None \<and> vm_error row' = err)
      \<and> w_audits (world_step url w e) = w_audits w @ [(key, change', err)])
    \<or> (stored_vm (world_step url w e) key = None \<and> w_audits (world_step url w e) = w_audits w
      \<and> ((\<exists>r p rm. e = FinishRemoval r \<and> map_of (w_removals w) r = Some (p, rm) \<and> removes rm row) \<or> e = SweepHost (vm_host row)))"
proof -
  have ok: "rows_ok w" unfolding assms(1) by (rule vm_rows.run_inv [OF rows_ok_empty])
  have d: "distinct (map fst (w_rows w))" using ok by (simp add: rows_ok_def)
  have lost: "\<not> keeps_changes w (world_step url w e)" using assms(2-4) by (auto simp: keeps_changes_def)
  with quiet_step_keeps_changes [OF ok] consider (answer) g now ans where "e = AnswerDriver g now ans"
    | (removal) r where "e = FinishRemoval r" | (sweep) host where "e = SweepHost host" by metis
  then show ?thesis
  proof cases
    case removal
    have same: "stored_vm (w'\<lparr>w_removals := rs\<rparr>) k = stored_vm w' k" for w' rs k by (simp add: stored_vm_def)
    show ?thesis using removal assms(2-4)
      by (cases "map_of (w_removals w) r") (auto simp: finish_removal_def same stored_vm_delete_vms [OF d] split: if_splits)
  next
    case sweep
    then show ?thesis using assms(2-4) by (auto simp: stored_vm_delete_vms [OF d] split: if_splits)
  next
    case e: answer
    then show ?thesis using driver_ends_change [OF ok assms(2-4)] by blast
  qed
qed

text \<open>A machine that is rebooted, by the answers of the example above.\<close>

definition idle_vm :: vm_row where
  "idle_vm = (example_vm (PowerChange Reboot) '''')\<lparr>vm_operation := None, vm_step := None, vm_startedAt := None, vm_updatedAt := None\<rparr>"

definition idle_seen :: "observed_vm option" where
  "idle_seen = seen_of (example_seen Running)"

definition ask_events :: "nat \<Rightarrow> nat \<Rightarrow> vm_operation \<Rightarrow> int \<Rightarrow> vm_event list" where
  "ask_events p r change now = [AskChange p r ''m1'' change [] ''u1'' ''User'', DecideChange r now (example_config None) idle_seen]"

text \<open>What unfolds a concrete run.\<close>

lemmas world_eval = world_step.simps insert_vm_def ask_vm_def decide_vm_def decide_power_def claim_vm_def drive_vm_def stored_vm_def
  current_driver_def update_vm_def empty_world_def answer_vm_def write_effects_def audits_of_def List.map_filter_def advance_def
  begin_pass_def reconcile_row_def resume_if_stale_def new_drive_def example_vm_def idle_vm_def idle_seen_def example_seen_def
  example_config_def example_task_def ask_events_def seen_of_def first_step_def observedPatch_def availableActions_def sleep_allowed_def
  power_defs answer_defs pend_def issue_def step_then_def when_current_def finish_def caught_def enter_wait_def
  in_step_def has_task_def nth_opt_def poll_delay_def taskFrom_def refOf_def reread_def STALE_MS_def HUNG_MS_def SETTLE_MS_def step_row_def finish_row_def Let_def

definition reboot_world :: "vm_event list" where
  "reboot_world = InsertRow 0 idle_vm # ask_events 0 0 (PowerChange Reboot) 0
     @ map (\<lambda>(cur, now, st, ans). AnswerDriver 2 now ans) reboot_events"

lemma a_change_only_ends_in_a_driver_witness:
  "let w = run (world_step []) empty_world (butlast reboot_world) in
     (\<exists>g now ans dv err change'. List.last reboot_world = AnswerDriver g now ans \<and> map_of (w_live w) g = Some dv \<and> dv_id dv = ''m1''
       \<and> closing_call (dr_call (dv_drive dv))
       \<and> (case stored_vm (world_step [] w (List.last reboot_world)) ''m1'' of None \<Rightarrow> True
          | Some row' \<Rightarrow> vm_operation row' = None \<and> vm_error row' = err)
       \<and> w_audits (world_step [] w (List.last reboot_world)) = w_audits w @ [(''m1'', change', err)])
     \<or> (stored_vm (world_step [] w (List.last reboot_world)) ''m1'' = None \<and> w_audits (world_step [] w (List.last reboot_world)) = w_audits w
       \<and> ((\<exists>r p rm. List.last reboot_world = FinishRemoval r \<and> map_of (w_removals w) r = Some (p, rm) \<and> removes rm (the (stored_vm w ''m1'')))
          \<or> List.last reboot_world = SweepHost (vm_host (the (stored_vm w ''m1'')))))"
  unfolding Let_def
proof (rule a_change_only_ends_in_a_driver [OF refl])
  let ?w = "run (world_step []) empty_world (butlast reboot_world)"
  have op: "map_option vm_operation (stored_vm ?w ''m1'') = Some (Some (PowerChange Reboot))"
    by (simp add: reboot_world_def reboot_events_def world_eval)
  then show "stored_vm ?w ''m1'' = Some (the (stored_vm ?w ''m1''))"
    and "vm_operation (the (stored_vm ?w ''m1'')) = Some (PowerChange Reboot)" by (cases "stored_vm ?w ''m1''"; simp)+
  have "map_option vm_operation (stored_vm (world_step [] ?w (List.last reboot_world)) ''m1'') = Some None"
    by (simp add: reboot_world_def reboot_events_def world_eval)
  then show "\<nexists>row'. stored_vm (world_step [] ?w (List.last reboot_world)) ''m1'' = Some row' \<and> vm_operation row' = Some (PowerChange Reboot)"
    by auto
qed

text \<open>
  The guard of an unlink and the delete it allows are two statements, so a change that is claimed between
  them loses its row; and the sweep of stale hosts takes the row of a machine that a change holds away,
  also of one that was created here, which an unlink and the removal of its host refuse.
\<close>

definition held_events :: "vm_row \<Rightarrow> vm_event list" where
  "held_events row = [InsertRow 0 row, AskUnlink 0 7 ''o1'' ''h1''] @ ask_events 0 0 (PowerChange Reboot) 0"

lemma an_unlink_takes_a_held_row_away:
  "let w = run (world_step []) empty_world (held_events (idle_vm\<lparr>vm_origin := Linked\<rparr>)) in
     map_option vm_operation (stored_vm w ''m1'') = Some (Some (PowerChange Reboot))
     \<and> ask_unlink ''o1'' ''h1'' w = Inl ''VM_OPERATION_IN_PROGRESS''
     \<and> stored_vm (world_step [] w (FinishRemoval 7)) ''m1'' = None"
  by code_simp

lemma the_sweep_takes_a_created_machine_away:
  "let row = idle_vm\<lparr>vm_origin := Created\<rparr>; w = run (world_step []) empty_world (held_events row) in
     map_option vm_operation (stored_vm w ''m1'') = Some (Some (PowerChange Reboot))
     \<and> ask_host_removal 0 ''o1'' ''h1'' w = Inl ''VM_DELETE_REQUIRED''
     \<and> stored_vm (world_step [] w (SweepHost (vm_host row))) ''m1'' = None"
  by code_simp

section \<open>Two processes and one change\<close>

text \<open>
  Process 0 stands still in its first wait (a suspended container, a long pause of the runtime). Process 1
  finds the reboot idle for more than two minutes, takes it over and ends it; then somebody asks for a
  hibernation. Process 0 wakes up and goes on where it was.
\<close>

definition stalled_events :: "vm_event list" where
  "stalled_events = InsertRow 0 idle_vm # ask_events 0 0 (PowerChange Reboot) 0
     @ [AnswerDriver 2 0 (ProviderIs (example_config None)), AnswerDriver 2 100 (TaskIs example_task),
        AnswerDriver 2 200 (TaskState TaskRuns), BeginPass 1 ''p1'', PassRow 1 ''m1'' 200000 idle_seen,
        AnswerDriver 3 200100 (ProviderIs (example_config None)), AnswerDriver 3 200200 (TaskState TaskOk),
        AnswerDriver 3 200300 (example_seen Running), AnswerDriver 3 200400 (example_seen Running)]
     @ ask_events 1 1 (PowerChange Hibernate) 300000 @ [AnswerDriver 4 300100 (ProviderIs (example_config None))]"

definition woken_events :: "vm_event list" where
  "woken_events = [AnswerDriver 2 300200 Fine, AnswerDriver 2 300300 (TaskState TaskOk),
     AnswerDriver 2 300400 (example_seen Running), AnswerDriver 2 300500 (example_seen Running)]"

text \<open>
  The generation a driver is checked by is one of its own
  process, and its last write names the row by its id only. So a driver that woke up after another
  process took over and ended its change frees the machine from the next change, which is still being
  driven; the reboot is recorded as completed twice, and the machine takes a third change at once.
\<close>

lemma a_stalled_process_frees_a_later_change:
  "let w = run (world_step []) empty_world stalled_events; w' = run (world_step []) w woken_events in
     map_option vm_operation (stored_vm w ''m1'') = Some (Some (PowerChange Hibernate))
     \<and> map_option vm_operation (stored_vm w' ''m1'') = Some None
     \<and> (case map_of (w_live w') 4 of None \<Rightarrow> False
         | Some dv \<Rightarrow> (case dr_call (dv_drive dv) of PowerCall a \<Rightarrow> a = Hibernate | _ \<Rightarrow> False))
     \<and> w_audits w' = [(''m1'', Some (PowerChange Reboot), None), (''m1'', Some (PowerChange Reboot), None)]
     \<and> (case ask_vm 1 2 ''m1'' (PowerChange Stop) [] ''u2'' ''Other'' w' of Inl _ \<Rightarrow> False | Inr _ \<Rightarrow> True)"
  unfolding Let_def stalled_events_def woken_events_def
  by (intro conjI; simp add: world_eval)

end
