(* ===== verification/VmCreate.thy ===== *)
theory VmCreate
  imports Vm
begin

text \<open>
  How a machine comes to be: its name, its template and pool, its id, its row and the host it becomes
  (\<^verbatim>\<open>createOnce\<close>, \<^verbatim>\<open>nextFree\<close>, \<^verbatim>\<open>machineName\<close> and \<^verbatim>\<open>taggedTemplate\<close> of
  \<^verbatim>\<open>vm-lifecycle.service.ts\<close>), and how a machine that exists is linked to a host
  (\<^verbatim>\<open>host-vms.service.ts\<close>).

  The provider's answers, the outcome of saving a row and Unicode normalisation are parameters. No id
  is asked for or saved twice in one create, so an answer may depend on the id alone.
\<close>

section \<open>The name\<close>

text \<open>\<open>replace\<close> of every run of characters by one hyphen.\<close>

function squash_runs :: "(char \<Rightarrow> bool) \<Rightarrow> string \<Rightarrow> string" where
  "squash_runs P [] = []"
| "squash_runs P (c # cs) = (if P c then CHR ''-'' # squash_runs P (dropWhile P cs) else c # squash_runs P cs)"
  by pat_completeness auto
termination by (relation "measure (\<lambda>(P, s). length s)") (auto simp: less_Suc_eq_le length_dropWhile_le)

definition name_char :: "char \<Rightarrow> bool" where
  "name_char c = (is_lower c \<or> is_digit c \<or> c = CHR ''-'')"

definition is_hyphen :: "char \<Rightarrow> bool" where
  "is_hyphen c = (c = CHR ''-'')"

definition strip_end :: "(char \<Rightarrow> bool) \<Rightarrow> string \<Rightarrow> string" where
  "strip_end P s = rev (dropWhile P (rev s))"

definition machineName :: "(string \<Rightarrow> string) \<Rightarrow> string \<Rightarrow> nat \<Rightarrow> string" where
  "machineName nfkd label vmid =
     (let cleaned = squash_runs (\<lambda>c. \<not> name_char c) (to_lower (nfkd label));
          name = strip_end is_hyphen (take 63 (dropWhile is_hyphen (squash_runs is_hyphen cleaned)))
      in if name \<noteq> [] then name else ''pdmux-'' @ nat_str vmid)"

section \<open>The template and the pool\<close>

record catalog_template =
  ct_ref :: vm_ref
  ct_name :: string
  ct_tags :: "string list"

record catalog_storage =
  cs_node :: string
  cs_id :: string
  cs_content :: "string list"

record vm_catalog =
  ca_templates :: "catalog_template list"
  ca_storages :: "catalog_storage list"
  ca_pools :: "string list"

record vm_defaults =
  de_template :: "vm_ref option"
  de_pool :: "string option"
  de_vmidMin :: nat
  de_vmidMax :: nat
  de_cores :: nat
  de_memoryMb :: nat
  de_diskGb :: "nat option"

record create_input =
  ci_provider :: string
  ci_label :: string
  ci_template :: "vm_ref option"
  ci_cores :: "nat option"
  ci_memoryMb :: "nat option"
  ci_diskGb :: "nat option"
  ci_key :: string

definition TEMPLATE_TAG :: string where "TEMPLATE_TAG = ''pdmux-template''"
definition DEFAULT_POOL :: string where "DEFAULT_POOL = ''pdmux''"

definition taggedTemplate :: "vm_catalog \<Rightarrow> string + vm_ref" where
  "taggedTemplate catalog =
     (case filter (\<lambda>t. TEMPLATE_TAG \<in> set (ct_tags t)) (ca_templates catalog) of
        [t] \<Rightarrow> Inr (ct_ref t)
      | _ \<Rightarrow> Inl ''VM_TEMPLATE_REQUIRED'')"

definition chosen_template :: "create_input \<Rightarrow> vm_defaults \<Rightarrow> vm_catalog \<Rightarrow> string + vm_ref" where
  "chosen_template input defaults catalog =
     (case ci_template input of Some t \<Rightarrow> Inr t
      | None \<Rightarrow> (case de_template defaults of Some t \<Rightarrow> Inr t | None \<Rightarrow> taggedTemplate catalog))"

definition chosen_pool :: "vm_defaults \<Rightarrow> vm_catalog \<Rightarrow> string option" where
  "chosen_pool defaults catalog =
     (case de_pool defaults of Some p \<Rightarrow> Some p
      | None \<Rightarrow> if DEFAULT_POOL \<in> set (ca_pools catalog) then Some DEFAULT_POOL else None)"

definition backup_stores :: "vm_ref \<Rightarrow> vm_catalog \<Rightarrow> string list" where
  "backup_stores template catalog =
     map cs_id (filter (\<lambda>st. cs_node st = ref_node template \<and> ''backup'' \<in> set (cs_content st)) (ca_storages catalog))"

section \<open>The id\<close>

text \<open>What the provider answers: whether an id is free, and the newest backup of it in a store.\<close>

record id_oracle =
  io_free :: "nat \<Rightarrow> bool"
  io_backup :: "nat \<Rightarrow> string \<Rightarrow> int option"

definition id_usable :: "id_oracle \<Rightarrow> string list \<Rightarrow> nat list \<Rightarrow> nat \<Rightarrow> bool" where
  "id_usable ids stores ours vmid =
     (vmid \<notin> set ours \<and> io_free ids vmid \<and> list_all (\<lambda>st. io_backup ids vmid st = None) stores)"

function nextFree :: "id_oracle \<Rightarrow> string list \<Rightarrow> nat list \<Rightarrow> nat \<Rightarrow> nat \<Rightarrow> string + nat" where
  "nextFree ids stores ours vmid to =
     (if vmid \<le> to then
        if id_usable ids stores ours vmid then Inr vmid else nextFree ids stores ours (Suc vmid) to
      else Inl ''VM_ID_RANGE_FULL'')"
  by pat_completeness auto
termination by (relation "measure (\<lambda>(_, _, _, vmid, to). Suc to - vmid)") auto

declare nextFree.simps [simp del]

lemma nextFree_bounds: "nextFree ids stores ours vmid to = Inr v \<Longrightarrow> vmid \<le> v \<and> v \<le> to"
proof (induction ids stores ours vmid to rule: nextFree.induct)
  case (1 ids stores ours vmid to)
  then show ?case by (subst (asm) (2) nextFree.simps) (auto split: if_splits)
qed

section \<open>The row and the host\<close>

text \<open>
  Saving a row: it is stored, another row has the request's key (read again), its id was taken, or the
  statement failed otherwise.
\<close>

datatype save_result = Saved | SameKey "vm_row option" | IdTaken | SaveFailed string

datatype create_result = CreatedRow vm_row | AnsweredBy vm_row | CreateFailed string

text \<open>What is known once the provider's catalog was read.\<close>

record create_plan =
  pl_ids :: id_oracle
  pl_save :: "vm_row \<Rightarrow> save_result"
  pl_stores :: "string list"
  pl_max :: nat
  pl_row :: "nat \<Rightarrow> vm_row"

definition new_row ::
    "(string \<Rightarrow> string) \<Rightarrow> string \<Rightarrow> string \<Rightarrow> string \<Rightarrow> create_input \<Rightarrow> vm_defaults \<Rightarrow> vm_ref \<Rightarrow> string option
     \<Rightarrow> string \<Rightarrow> string \<Rightarrow> int \<Rightarrow> nat \<Rightarrow> vm_row" where
  "new_row nfkd key org host input defaults template pool byId byName now vmid =
     \<lparr>vm_id = key, vm_organization = org, vm_host = host, vm_provider = ci_provider input, vm_location = ref_node template,
      vm_external = vmid, vm_name = machineName nfkd (ci_label input) vmid, vm_origin = Created,
      vm_spec = \<lparr>sp_cores = (case ci_cores input of Some n \<Rightarrow> n | None \<Rightarrow> de_cores defaults),
        sp_memoryMb = (case ci_memoryMb input of Some n \<Rightarrow> n | None \<Rightarrow> de_memoryMb defaults),
        sp_diskGb = (case ci_diskGb input of Some n \<Rightarrow> Some n | None \<Rightarrow> de_diskGb defaults),
        sp_template = Some template, sp_pool = Some pool\<rparr>,
      vm_tags = [], vm_observed = Unknown, vm_observedAt = None, vm_operation = Some CreateChange, vm_step = Some ''clone'',
      vm_task = None, vm_byId = Some byId, vm_byName = Some byName, vm_startedAt = Some now, vm_updatedAt = Some now,
      vm_error = None, vm_errorAt = None, vm_key = Some (ci_key input), vm_version = 1\<rparr>"

text \<open>
  The loop over the ids. The flag says whether the host made for this create is kept; an abandoned
  create removes it again (a failure of that removal is only logged).
\<close>

function save_loop :: "create_plan \<Rightarrow> nat list \<Rightarrow> nat \<Rightarrow> create_result \<times> bool" where
  "save_loop pl ours vmid =
     (case pl_save pl (pl_row pl vmid) of
        Saved \<Rightarrow> (CreatedRow (pl_row pl vmid), True)
      | SaveFailed e \<Rightarrow> (CreateFailed e, False)
      | SameKey (Some other) \<Rightarrow> (AnsweredBy other, False)
      | SameKey None \<Rightarrow> (CreateFailed ''23505'', False)
      | IdTaken \<Rightarrow>
          (case nextFree (pl_ids pl) (pl_stores pl) (vmid # ours) (Suc vmid) (pl_max pl) of
             Inl e \<Rightarrow> (CreateFailed e, False)
           | Inr v \<Rightarrow> save_loop pl (vmid # ours) v))"
  by pat_completeness auto
termination by (relation "measure (\<lambda>(pl, _, vmid). pl_max pl - vmid)") (auto dest!: nextFree_bounds)

declare save_loop.simps [simp del]

definition createOnce ::
    "(string \<Rightarrow> string) \<Rightarrow> vm_row list \<Rightarrow> vm_defaults \<Rightarrow> vm_catalog \<Rightarrow> id_oracle \<Rightarrow> (vm_row \<Rightarrow> save_result) \<Rightarrow> string \<Rightarrow> string
     \<Rightarrow> string \<Rightarrow> create_input \<Rightarrow> string \<Rightarrow> string \<Rightarrow> int \<Rightarrow> create_result \<times> bool" where
  "createOnce nfkd rows defaults catalog ids save key org host input byId byName now =
     (case List.find (\<lambda>row. vm_organization row = org \<and> vm_key row = Some (ci_key input)) rows of
        Some earlier \<Rightarrow> (AnsweredBy earlier, False)
      | None \<Rightarrow>
          (case chosen_template input defaults catalog of
             Inl e \<Rightarrow> (CreateFailed e, False)
           | Inr template \<Rightarrow>
               let stores = backup_stores template catalog;
                   ours = map vm_external (filter (\<lambda>row. vm_provider row = ci_provider input) rows)
               in (case nextFree ids stores ours (de_vmidMin defaults) (de_vmidMax defaults) of
                     Inl e \<Rightarrow> (CreateFailed e, False)
                   | Inr vmid \<Rightarrow>
                       save_loop \<lparr>pl_ids = ids, pl_save = save, pl_stores = stores, pl_max = de_vmidMax defaults,
                         pl_row = new_row nfkd key org host input defaults template (chosen_pool defaults catalog) byId byName now\<rparr>
                         ours vmid)))"

section \<open>Linking a machine that exists\<close>

record link_input =
  li_provider :: string
  li_node :: string
  li_vmid :: nat

text \<open>
  \<open>host\<close> and \<open>provider\<close> are what reading them answered; \<open>seen\<close> is the provider's status of the machine.
\<close>

definition link_vm ::
    "string + string \<Rightarrow> string + string \<Rightarrow> vm_row list \<Rightarrow> observed_vm option \<Rightarrow> (nat option \<times> nat option) \<Rightarrow> string \<Rightarrow> string
     \<Rightarrow> link_input \<Rightarrow> int \<Rightarrow> string + vm_row" where
  "link_vm host provider rows seen sizes key org input now =
     (case host of Inl e \<Rightarrow> Inl e | Inr h \<Rightarrow>
      (case provider of Inl e \<Rightarrow> Inl e | Inr p \<Rightarrow>
        if list_ex (\<lambda>row. vm_host row = h) rows then Inl ''VM_ALREADY_LINKED''
        else if list_ex (\<lambda>row. vm_provider row = p \<and> vm_external row = li_vmid input) rows then Inl ''VM_LINKED_ELSEWHERE''
        else (case seen of
            None \<Rightarrow> Inl ''VM_NOT_FOUND''
          | Some ob \<Rightarrow>
              if ob_template ob then Inl ''VM_IS_TEMPLATE''
              else Inr \<lparr>vm_id = key, vm_organization = org, vm_host = h, vm_provider = p, vm_location = ref_node (ob_ref ob),
                vm_external = li_vmid input, vm_name = (if ob_name ob \<noteq> [] then ob_name ob else nat_str (li_vmid input)),
                vm_origin = Linked,
                vm_spec = \<lparr>sp_cores = (case fst sizes of Some n \<Rightarrow> n | None \<Rightarrow> 0),
                  sp_memoryMb = (case snd sizes of Some n \<Rightarrow> n | None \<Rightarrow> 0), sp_diskGb = None, sp_template = None, sp_pool = None\<rparr>,
                vm_tags = ob_tags ob, vm_observed = ob_state ob, vm_observedAt = Some now, vm_operation = None, vm_step = None,
                vm_task = None, vm_byId = None, vm_byName = None, vm_startedAt = None, vm_updatedAt = None, vm_error = None,
                vm_errorAt = None, vm_key = None, vm_version = 1\<rparr>)))"

section \<open>Names are labels\<close>

lemma squash_runs_set: "c \<in> set (squash_runs P s) \<Longrightarrow> c = CHR ''-'' \<or> (c \<in> set s \<and> \<not> P c)"
  by (induction P s rule: squash_runs.induct) (auto split: if_splits dest: set_dropWhileD)

lemma squash_runs_hd: "squash_runs is_hyphen s = x # xs \<Longrightarrow> x = hd s"
  by (cases s) (auto simp: is_hyphen_def split: if_splits)

definition two_hyphens :: "char \<Rightarrow> char \<Rightarrow> bool" where
  "two_hyphens a b = (is_hyphen a \<and> is_hyphen b)"

lemma squash_hyphens: "successively (\<lambda>a b. \<not> two_hyphens a b) (squash_runs is_hyphen s)"
proof (induction is_hyphen s rule: squash_runs.induct)
  case (2 c cs)
  have hd_ok: "\<not> is_hyphen (hd (squash_runs is_hyphen t))" if "t \<noteq> []" "\<not> is_hyphen (hd t)" for t
    using that by (cases t) auto
  show ?case
  proof (cases "is_hyphen c")
    case True
    let ?r = "dropWhile is_hyphen cs"
    have "?r = [] \<or> \<not> is_hyphen (hd ?r)" by (metis hd_dropWhile)
    moreover have "squash_runs is_hyphen t = [] \<longleftrightarrow> t = []" for t by (cases t) auto
    ultimately show ?thesis using True 2(1) hd_ok [of ?r] by (auto simp: successively_Cons two_hyphens_def)
  next
    case False
    then show ?thesis using 2(2) by (auto simp: successively_Cons two_hyphens_def)
  qed
qed simp

lemma successively_take: "successively P xs \<Longrightarrow> successively P (take n xs)"
  by (metis append_take_drop_id successively_append_iff)

lemma successively_drop: "successively P xs \<Longrightarrow> successively P (dropWhile Q xs)"
  by (metis dropWhile_eq_drop append_take_drop_id successively_append_iff)

lemma strip_end_prefix: "\<exists>ys. s = strip_end P s @ ys"
  by (metis strip_end_def rev_append rev_rev_ident takeWhile_dropWhile_id)

lemma last_strip_end: "strip_end P s \<noteq> [] \<Longrightarrow> \<not> P (List.last (strip_end P s))"
  by (simp add: strip_end_def last_rev hd_dropWhile)

lemma if_not_swap: "(if a \<noteq> b then x else y) = (if a = b then y else x)"
  by simp

lemma fallback_name:
  "list_all name_char (''pdmux-'' @ nat_str n)" "\<not> is_hyphen (List.last (''pdmux-'' @ nat_str n))"
  "successively (\<lambda>a b. \<not> two_hyphens a b) (''pdmux-'' @ nat_str n)"
proof -
  have digits: "is_digit c \<and> name_char c \<and> \<not> is_hyphen c" if "c \<in> set (nat_str n)" for c
  proof -
    have "is_digit c" using that nat_str_digits by blast
    moreover have "\<not> is_digit (CHR ''-'')" by code_simp
    ultimately show ?thesis unfolding name_char_def is_hyphen_def by metis
  qed
  moreover have "list_all name_char ''pdmux-''" by code_simp
  ultimately show "list_all name_char (''pdmux-'' @ nat_str n)" unfolding list_all_append by (simp add: list_all_iff)
  show "\<not> is_hyphen (List.last (''pdmux-'' @ nat_str n))" using digits by simp
  have "successively (\<lambda>a b. \<not> two_hyphens a b) xs" if "\<forall>c \<in> set xs. \<not> is_hyphen c" for xs
    using that by (induction xs rule: induct_list012) (auto simp: two_hyphens_def)
  then have "successively (\<lambda>a b. \<not> two_hyphens a b) (nat_str n)" and "\<not> is_hyphen (hd (nat_str n))"
    using digits nat_str_not_Nil by auto
  then show "successively (\<lambda>a b. \<not> two_hyphens a b) (''pdmux-'' @ nat_str n)"
    by (simp add: successively_append_iff successively_Cons two_hyphens_def is_hyphen_def)
qed

definition label_ok :: "nat \<Rightarrow> string \<Rightarrow> bool" where
  "label_ok longest name \<longleftrightarrow> name \<noteq> [] \<and> list_all name_char name \<and> \<not> is_hyphen (hd name) \<and> \<not> is_hyphen (List.last name)
     \<and> successively (\<lambda>a b. \<not> two_hyphens a b) name \<and> length name \<le> longest"

lemma cleaned_label:
  assumes "\<And>c. c \<in> set t \<Longrightarrow> name_char c" and "successively (\<lambda>a b. \<not> two_hyphens a b) t"
    and "n = strip_end is_hyphen (take 63 (dropWhile is_hyphen t))" and "n \<noteq> []"
  shows "label_ok 63 n"
proof -
  let ?u = "take 63 (dropWhile is_hyphen t)"
  obtain ys where ys: "?u = n @ ys" using strip_end_prefix [of ?u is_hyphen] assms(3) by blast
  have "list_all name_char n"
  proof (simp add: list_all_iff, intro ballI)
    fix c assume "c \<in> set n"
    then have "c \<in> set t" using ys by (metis Un_iff in_set_takeD set_append set_dropWhileD)
    then show "name_char c" by (rule assms(1))
  qed
  moreover have "successively (\<lambda>a b. \<not> two_hyphens a b) n"
    using successively_take [OF successively_drop [OF assms(2)], of 63 is_hyphen] ys by (metis successively_append_iff)
  moreover have "\<not> is_hyphen (hd n)"
  proof -
    have "hd n = hd ?u" using ys assms(4) by (metis hd_append2)
    moreover have u: "?u \<noteq> []" using ys assms(4) by (metis append_is_Nil_conv)
    moreover have "hd ?u = hd (dropWhile is_hyphen t)" by simp
    ultimately show ?thesis using hd_dropWhile [of is_hyphen t] by (metis take_Nil)
  qed
  moreover have "length n \<le> 63"
    using ys by (metis le_add1 length_append length_take min.bounded_iff order_trans nat_le_iff_add)
  moreover have "\<not> is_hyphen (List.last n)" using assms(3,4) last_strip_end by blast
  ultimately show ?thesis using assms(4) by (simp add: label_ok_def)
qed

lemma fallback_label: "label_ok (6 + length (nat_str n)) (''pdmux-'' @ nat_str n)"
  using fallback_name [of n] by (simp add: label_ok_def is_hyphen_def)

text \<open>
  C37 (\<open>a_machine_name_is_a_label\<close>): whatever a host is called, in any script, its machine gets a name
  the provider takes: not empty, of lower-case letters, digits and hyphens, with no hyphen at its ends and
  no two in a row, and of at most 63 characters (the fallback with the id counts its own digits).
\<close>

theorem a_machine_name_is_a_label: "label_ok (max 63 (6 + length (nat_str vmid))) (machineName nfkd label vmid)"
proof -
  define t where "t = squash_runs is_hyphen (squash_runs (\<lambda>c. \<not> name_char c) (to_lower (nfkd label)))"
  define n where "n = strip_end is_hyphen (take 63 (dropWhile is_hyphen t))"
  have mono: "label_ok k s \<Longrightarrow> k \<le> m \<Longrightarrow> label_ok m s" for k m s by (auto simp: label_ok_def)
  have "machineName nfkd label vmid = (if n = [] then ''pdmux-'' @ nat_str vmid else n)"
    unfolding machineName_def Let_def n_def t_def by (rule if_not_swap)
  moreover have "label_ok 63 n" if "n \<noteq> []"
  proof (rule cleaned_label [OF _ _ n_def that])
    show "successively (\<lambda>a b. \<not> two_hyphens a b) t" unfolding t_def by (rule squash_hyphens)
    have "name_char CHR ''-''" by (simp add: name_char_def)
    then show "c \<in> set t \<Longrightarrow> name_char c" for c unfolding t_def by (auto dest!: squash_runs_set)
  qed
  ultimately show ?thesis using fallback_label [of vmid] mono by (cases "n = []") simp_all
qed

section \<open>A create takes an id nothing remembers\<close>

lemma nextFree_first:
  "nextFree ids stores ours vmid to = Inr v \<Longrightarrow> id_usable ids stores ours v \<and> list_all (\<lambda>u. \<not> id_usable ids stores ours u) [vmid..<v]"
proof (induction ids stores ours vmid to rule: nextFree.induct)
  case (1 ids stores ours vmid to)
  show ?case
  proof (cases "id_usable ids stores ours vmid")
    case True
    then show ?thesis using 1(2) by (subst (asm) nextFree.simps) (auto split: if_splits)
  next
    case False
    then have le: "vmid \<le> to" and rest: "nextFree ids stores ours (Suc vmid) to = Inr v"
      using 1(2) by (subst (asm) nextFree.simps; auto split: if_splits)+
    then have "Suc vmid \<le> v" using nextFree_bounds by blast
    then have "[vmid..<v] = vmid # [Suc vmid..<v]" by (simp add: upt_conv_Cons)
    then show ?thesis using 1(1) [OF le False rest] False by simp
  qed
qed

lemma nextFree_full:
  "nextFree ids stores ours vmid to = Inl e \<Longrightarrow> e = ''VM_ID_RANGE_FULL'' \<and> list_all (\<lambda>u. \<not> id_usable ids stores ours u) [vmid..<Suc to]"
proof (induction ids stores ours vmid to rule: nextFree.induct)
  case (1 ids stores ours vmid to)
  show ?case
  proof (cases "vmid \<le> to")
    case True
    then have "\<not> id_usable ids stores ours vmid" and rest: "nextFree ids stores ours (Suc vmid) to = Inl e"
      using 1(2) by (subst (asm) nextFree.simps; auto split: if_splits)+
    moreover have "[vmid..<Suc to] = vmid # [Suc vmid..<Suc to]" using True by (simp add: upt_conv_Cons)
    ultimately show ?thesis using 1(1) [OF True _ rest] by simp
  next
    case False
    then show ?thesis using 1(2) by (subst (asm) nextFree.simps) simp
  qed
qed

text \<open>
  The id a create takes is the lowest of its range that no
  machine of this provider's rows has, the provider reports free and no backup store remembers; only when
  there is none does it end with \<open>VM_ID_RANGE_FULL\<close>.
\<close>

theorem the_lowest_unremembered_id_is_taken:
  "case nextFree ids stores ours low high of
     Inr v \<Rightarrow> low \<le> v \<and> v \<le> high \<and> id_usable ids stores ours v \<and> list_all (\<lambda>u. \<not> id_usable ids stores ours u) [low..<v]
   | Inl e \<Rightarrow> e = ''VM_ID_RANGE_FULL'' \<and> list_all (\<lambda>u. \<not> id_usable ids stores ours u) [low..<Suc high]"
  by (cases "nextFree ids stores ours low high") (auto dest: nextFree_first nextFree_full nextFree_bounds)

lemma usable_mono: "id_usable ids stores ours v \<Longrightarrow> set theirs \<subseteq> set ours \<Longrightarrow> id_usable ids stores theirs v"
  by (auto simp: id_usable_def)

lemma save_loop_outcome:
  assumes "id_usable (pl_ids pl) (pl_stores pl) ours vmid" and "low \<le> vmid" and "vmid \<le> pl_max pl"
  shows "case save_loop pl ours vmid of
      (CreatedRow row, kept) \<Rightarrow> kept \<and> (\<exists>v. row = pl_row pl v \<and> pl_save pl row = Saved \<and> low \<le> v \<and> v \<le> pl_max pl
        \<and> id_usable (pl_ids pl) (pl_stores pl) ours v)
    | (AnsweredBy _, kept) \<Rightarrow> \<not> kept
    | (CreateFailed _, kept) \<Rightarrow> \<not> kept"
  using assms
proof (induction pl ours vmid rule: save_loop.induct)
  case (1 pl ours vmid)
  show ?case
  proof (cases "pl_save pl (pl_row pl vmid)")
    case Saved
    then show ?thesis using 1(2-4) by (subst save_loop.simps) auto
  next
    case (SameKey other)
    then show ?thesis by (subst save_loop.simps) (auto split: option.split)
  next
    case (SaveFailed e)
    then show ?thesis by (subst save_loop.simps) simp
  next
    case IdTaken
    show ?thesis
    proof (cases "nextFree (pl_ids pl) (pl_stores pl) (vmid # ours) (Suc vmid) (pl_max pl)")
      case (Inl e)
      then show ?thesis using IdTaken by (subst save_loop.simps) simp
    next
      case (Inr v)
      have v: "id_usable (pl_ids pl) (pl_stores pl) (vmid # ours) v" "low \<le> v" "v \<le> pl_max pl"
        using nextFree_first [OF Inr] nextFree_bounds [OF Inr] 1(3) by auto
      have "save_loop pl ours vmid = save_loop pl (vmid # ours) v" using IdTaken Inr by (subst save_loop.simps) simp
      then show ?thesis using 1(1) [OF IdTaken Inr v]
        by (fastforce split: create_result.splits dest: usable_mono [where theirs = ours])
    qed
  qed
qed

lemma nextFree_find:
  "nextFree ids stores ours vmid to = (case List.find (id_usable ids stores ours) [vmid..<Suc to] of
     None \<Rightarrow> Inl ''VM_ID_RANGE_FULL'' | Some v \<Rightarrow> Inr v)"
proof (induction ids stores ours vmid to rule: nextFree.induct)
  case (1 ids stores ours vmid to)
  show ?case
  proof (cases "vmid \<le> to")
    case True
    then have "[vmid..<Suc to] = vmid # [Suc vmid..<Suc to]" by (simp add: upt_conv_Cons)
    then show ?thesis using 1 True by (subst nextFree.simps) simp
  qed (subst nextFree.simps, simp)
qed

text \<open>
  What a create comes to, said at once: the first id of the range that nothing remembers and that the
  database does not refuse decides.
\<close>

definition settle_create :: "create_plan \<Rightarrow> nat option \<Rightarrow> create_result \<times> bool" where
  "settle_create pl v =
     (case v of
        None \<Rightarrow> (CreateFailed ''VM_ID_RANGE_FULL'', False)
      | Some n \<Rightarrow> (case pl_save pl (pl_row pl n) of
            Saved \<Rightarrow> (CreatedRow (pl_row pl n), True)
          | SaveFailed e \<Rightarrow> (CreateFailed e, False)
          | SameKey (Some other) \<Rightarrow> (AnsweredBy other, False)
          | SameKey None \<Rightarrow> (CreateFailed ''23505'', False)
          | IdTaken \<Rightarrow> (CreateFailed ''VM_ID_RANGE_FULL'', False)))"

definition create_spec ::
    "(string \<Rightarrow> string) \<Rightarrow> vm_row list \<Rightarrow> vm_defaults \<Rightarrow> vm_catalog \<Rightarrow> id_oracle \<Rightarrow> (vm_row \<Rightarrow> save_result) \<Rightarrow> string \<Rightarrow> string
     \<Rightarrow> string \<Rightarrow> create_input \<Rightarrow> string \<Rightarrow> string \<Rightarrow> int \<Rightarrow> create_result \<times> bool" where
  "create_spec nfkd rows defaults catalog ids save key org host input byId byName now =
     (case List.find (\<lambda>row. vm_organization row = org \<and> vm_key row = Some (ci_key input)) rows of
        Some earlier \<Rightarrow> (AnsweredBy earlier, False)
      | None \<Rightarrow>
          (case chosen_template input defaults catalog of
             Inl e \<Rightarrow> (CreateFailed e, False)
           | Inr template \<Rightarrow>
               let pl = \<lparr>pl_ids = ids, pl_save = save, pl_stores = backup_stores template catalog, pl_max = de_vmidMax defaults,
                     pl_row = new_row nfkd key org host input defaults template (chosen_pool defaults catalog) byId byName now\<rparr>;
                   free = filter (id_usable ids (pl_stores pl) (map vm_external (filter (\<lambda>row. vm_provider row = ci_provider input) rows)))
                     [de_vmidMin defaults..<Suc (de_vmidMax defaults)]
               in settle_create pl (List.find (\<lambda>n. save (pl_row pl n) \<noteq> IdTaken) free)))"

lemma save_loop_search:
  assumes "id_usable (pl_ids pl) (pl_stores pl) ours vmid" and "vmid \<le> pl_max pl"
  shows "save_loop pl ours vmid = settle_create pl (List.find (\<lambda>n. pl_save pl (pl_row pl n) \<noteq> IdTaken)
    (filter (id_usable (pl_ids pl) (pl_stores pl) ours) [vmid..<Suc (pl_max pl)]))"
  using assms
proof (induction pl ours vmid rule: save_loop.induct)
  case (1 pl ours vmid)
  let ?free = "id_usable (pl_ids pl) (pl_stores pl) ours" and ?free' = "id_usable (pl_ids pl) (pl_stores pl) (vmid # ours)"
  let ?ok = "\<lambda>n. pl_save pl (pl_row pl n) \<noteq> IdTaken"
  have upt: "[vmid..<Suc (pl_max pl)] = vmid # [Suc vmid..<Suc (pl_max pl)]" using 1(3) by (simp add: upt_conv_Cons)
  show ?case
  proof (cases "?ok vmid")
    case True
    then show ?thesis using 1(2)
      by (subst save_loop.simps) (auto simp: upt settle_create_def simp del: upt_Suc split: save_result.split option.split)
  next
    case taken: False
    have same: "filter ?free' [u..<Suc (pl_max pl)] = filter ?free [u..<Suc (pl_max pl)]" if "vmid < u" for u
      by (rule filter_cong [OF refl]) (use that in \<open>auto simp: id_usable_def\<close>)
    have rest: "List.find ?ok (filter ?free [vmid..<Suc (pl_max pl)]) = List.find ?ok (filter ?free' [Suc vmid..<Suc (pl_max pl)])"
      using taken by (simp add: upt same del: upt_Suc)
    show ?thesis
    proof (cases "nextFree (pl_ids pl) (pl_stores pl) (vmid # ours) (Suc vmid) (pl_max pl)")
      case (Inl e)
      note full = nextFree_full [OF Inl]
      then have "filter ?free' [Suc vmid..<Suc (pl_max pl)] = []" by (auto simp: list_all_iff filter_empty_conv)
      then show ?thesis using taken Inl full unfolding rest by (subst save_loop.simps) (simp add: settle_create_def)
    next
      case (Inr v)
      note v = nextFree_first [OF Inr] nextFree_bounds [OF Inr]
      then have "[Suc vmid..<Suc (pl_max pl)] = [Suc vmid..<v] @ [v..<Suc (pl_max pl)]"
        using upt_add_eq_append [of "Suc vmid" v "Suc (pl_max pl) - v"] by simp
      moreover have "filter ?free' [Suc vmid..<v] = []" using v by (auto simp: list_all_iff filter_empty_conv)
      ultimately have "filter ?free' [Suc vmid..<Suc (pl_max pl)] = filter ?free' [v..<Suc (pl_max pl)]" by simp
      then show ?thesis
        using taken Inr 1(1) [OF _ Inr] v unfolding rest by (subst save_loop.simps) simp
    qed
  qed
qed

lemma createOnce_search:
  "createOnce nfkd rows defaults catalog ids save key org host input byId byName now
   = create_spec nfkd rows defaults catalog ids save key org host input byId byName now"
proof (cases "List.find (\<lambda>row. vm_organization row = org \<and> vm_key row = Some (ci_key input)) rows")
  case new: None
  show ?thesis
  proof (cases "chosen_template input defaults catalog")
    case (Inr template)
    let ?stores = "backup_stores template catalog"
    let ?ours = "map vm_external (filter (\<lambda>row. vm_provider row = ci_provider input) rows)"
    let ?pl = "\<lparr>pl_ids = ids, pl_save = save, pl_stores = ?stores, pl_max = de_vmidMax defaults,
       pl_row = new_row nfkd key org host input defaults template (chosen_pool defaults catalog) byId byName now\<rparr>"
    let ?range = "[de_vmidMin defaults..<Suc (de_vmidMax defaults)]"
    show ?thesis
    proof (cases "nextFree ids ?stores ?ours (de_vmidMin defaults) (de_vmidMax defaults)")
      case (Inl e)
      note full = nextFree_full [OF Inl]
      then have "filter (id_usable ids ?stores ?ours) ?range = []" by (auto simp: list_all_iff filter_empty_conv)
      then show ?thesis using new Inr Inl full by (simp add: createOnce_def create_spec_def Let_def settle_create_def del: upt_Suc)
    next
      case first: (Inr v)
      note v = nextFree_first [OF first] nextFree_bounds [OF first]
      then have "?range = [de_vmidMin defaults..<v] @ [v..<Suc (de_vmidMax defaults)]"
        using upt_add_eq_append [of "de_vmidMin defaults" v "Suc (de_vmidMax defaults) - v"] by simp
      moreover have "filter (id_usable ids ?stores ?ours) [de_vmidMin defaults..<v] = []"
        using v by (auto simp: list_all_iff filter_empty_conv)
      ultimately have range: "filter (id_usable ids ?stores ?ours) ?range = filter (id_usable ids ?stores ?ours) [v..<Suc (de_vmidMax defaults)]"
        by simp
      have "save_loop ?pl ?ours v = settle_create ?pl (List.find (\<lambda>n. save (pl_row ?pl n) \<noteq> IdTaken)
          (filter (id_usable ids ?stores ?ours) [v..<Suc (de_vmidMax defaults)]))"
        using save_loop_search [of ?pl ?ours v] v by simp
      then show ?thesis using new Inr first unfolding createOnce_def create_spec_def Let_def
        by (simp add: range del: upt_Suc)
    qed
  qed (use new in \<open>simp add: createOnce_def create_spec_def\<close>)
qed (simp add: createOnce_def create_spec_def)

lemma created_row:
  "case createOnce nfkd rows defaults catalog ids save key org host input byId byName now of
     (CreatedRow row, kept) \<Rightarrow> kept \<and> save row = Saved \<and> vm_host row = host \<and> vm_operation row = Some CreateChange
       \<and> vm_step row = Some ''clone'' \<and> de_vmidMin defaults \<le> vm_external row \<and> vm_external row \<le> de_vmidMax defaults
       \<and> vm_name row = machineName nfkd (ci_label input) (vm_external row)
       \<and> (\<exists>template. chosen_template input defaults catalog = Inr template \<and> vm_location row = ref_node template
           \<and> id_usable ids (backup_stores template catalog)
               (map vm_external (filter (\<lambda>r. vm_provider r = ci_provider input) rows)) (vm_external row))
   | (AnsweredBy row, kept) \<Rightarrow> \<not> kept
   | (CreateFailed e, kept) \<Rightarrow> \<not> kept"
proof -
  let ?earlier = "List.find (\<lambda>row. vm_organization row = org \<and> vm_key row = Some (ci_key input)) rows"
  let ?ours = "map vm_external (filter (\<lambda>r. vm_provider r = ci_provider input) rows)"
  consider (early) r where "?earlier = Some r" | (no_template) e where "?earlier = None" "chosen_template input defaults catalog = Inl e"
    | (template) t where "?earlier = None" "chosen_template input defaults catalog = Inr t"
    by (cases ?earlier; cases "chosen_template input defaults catalog") auto
  then show ?thesis
  proof cases
    case template
    let ?stores = "backup_stores t catalog"
    let ?pl = "\<lparr>pl_ids = ids, pl_save = save, pl_stores = ?stores, pl_max = de_vmidMax defaults,
      pl_row = new_row nfkd key org host input defaults t (chosen_pool defaults catalog) byId byName now\<rparr>"
    show ?thesis
    proof (cases "nextFree ids ?stores ?ours (de_vmidMin defaults) (de_vmidMax defaults)")
      case (Inl e)
      then show ?thesis using template by (simp add: createOnce_def Let_def)
    next
      case (Inr v)
      have "createOnce nfkd rows defaults catalog ids save key org host input byId byName now = save_loop ?pl ?ours v"
        using template Inr by (simp add: createOnce_def Let_def)
      moreover have "case save_loop ?pl ?ours v of
          (CreatedRow row, kept) \<Rightarrow> kept \<and> (\<exists>v. row = pl_row ?pl v \<and> pl_save ?pl row = Saved \<and> de_vmidMin defaults \<le> v
            \<and> v \<le> pl_max ?pl \<and> id_usable (pl_ids ?pl) (pl_stores ?pl) ?ours v)
        | (AnsweredBy _, kept) \<Rightarrow> \<not> kept
        | (CreateFailed _, kept) \<Rightarrow> \<not> kept"
        by (rule save_loop_outcome) (use nextFree_first [OF Inr] nextFree_bounds [OF Inr] in auto)
      ultimately show ?thesis using template
        by (auto simp: new_row_def split: create_result.splits)
    qed
  qed (simp_all add: createOnce_def)
qed

text \<open>
  C25 (\<open>a_create_keeps_a_host_only_for_its_machine\<close>): a create comes to what the first id of the range
  decides that no machine of these rows has, the provider reports free, no backup store of the template's
  node remembers and the database does not refuse: if its row is saved the create succeeds with that row and
  the host stays; a repeated key, another failure to save, no template or no such id leave no host behind
  (the removal of the host made for it is taken to succeed). The saved row is the host's, starts at its
  clone, on the template's node.
\<close>

theorem a_create_keeps_a_host_only_for_its_machine:
  "createOnce nfkd rows defaults catalog ids save key org host input byId byName now
     = create_spec nfkd rows defaults catalog ids save key org host input byId byName now
   \<and> (case createOnce nfkd rows defaults catalog ids save key org host input byId byName now of
     (CreatedRow row, kept) \<Rightarrow> kept \<and> save row = Saved \<and> vm_host row = host \<and> vm_operation row = Some CreateChange
       \<and> vm_step row = Some ''clone'' \<and> de_vmidMin defaults \<le> vm_external row \<and> vm_external row \<le> de_vmidMax defaults
       \<and> vm_name row = machineName nfkd (ci_label input) (vm_external row)
       \<and> (\<exists>template. chosen_template input defaults catalog = Inr template \<and> vm_location row = ref_node template
           \<and> id_usable ids (backup_stores template catalog)
               (map vm_external (filter (\<lambda>r. vm_provider r = ci_provider input) rows)) (vm_external row))
   | (AnsweredBy row, kept) \<Rightarrow> \<not> kept
   | (CreateFailed e, kept) \<Rightarrow> \<not> kept)"
  by (intro conjI createOnce_search created_row)

end
