(* ===== verification/BrowserRelay.thy ===== *)
theory BrowserRelay
  imports Frames Machines "HOL-Library.AList"
begin

text \<open>
  \<^verbatim>\<open>apps/web/src/lib/dashboard/terminal-relay.ts\<close>: the browser's end of the terminal path. One socket
  per host carries the frames of all its panes; a socket that is lost is dialled again with a growing
  delay, and every pane is opened again on it.

  An entry is the object \<open>open\<close> makes for a pane; the handle the caller holds keeps naming it after the
  pane is gone, so entries live in a store of their own, numbered by a counter that also numbers the
  sockets. What the relay does to the outside is its log, oldest first. The outside is an argument:
  whether a socket can be made, whether a socket accepts a write given everything written before, the
  clock, the random number of the jitter and the wording of the notices. Listeners do not call back
  into the relay.
\<close>

declare map_of_eq_Some_iff [simp del] Some_eq_map_of_iff [simp del]

section \<open>State\<close>

datatype relay_status = RsIdle | RsConnecting | RsOpen | RsReconnecting | RsClosed

datatype ready_state = Dialling | Live | Gone

record client_socket =
  sk_id :: nat
  sk_state :: ready_state

record pane_entry =
  pe_term :: string
  pe_host :: string
  pe_target :: wire_target
  pe_data :: "nat list"
  pe_exit :: "nat list"
  pe_onSession :: "nat list"
  pe_onView :: "nat list"
  pe_onRestored :: "nat list"
  pe_onMissing :: "nat list"
  pe_viewport :: "screen_frame option"
  pe_restored :: bool
  pe_missing :: bool
  pe_buffered :: string
  pe_started :: bool
  pe_attached :: bool
  pe_offline :: bool
  pe_closed :: bool

record host_conn =
  hc_socket :: "client_socket option"
  hc_attempts :: nat
  hc_retry :: "int option"
  hc_connect :: "nat option"
  hc_had :: bool
  hc_offline :: bool
  hc_panes :: "(string \<times> nat) list"
  hc_status :: relay_status
  hc_reachable :: "bool option"
  hc_ping :: "nat option"
  hc_inbound :: int
  hc_pong :: bool

datatype client_effect =
    Dial string nat
  | Hangup nat
  | SendFrame nat client_frame
  | SendPing nat int
  | Data nat nat string
  | ExitTo nat nat "int option"
  | SessionTo nat nat string
  | ViewTo nat nat screen_frame
  | RestoredTo nat nat
  | MissingTo nat nat
  | ShowStatus relay_status
  | ShowHost string relay_status

record browser_relay =
  br_conns :: "(string \<times> host_conn) list"
  br_entries :: "(nat \<times> pane_entry) list"
  br_status :: relay_status
  br_disposed :: bool
  br_next :: nat
  br_log :: "client_effect list"

record relay_words =
  wd_reconnecting :: string
  wd_hostOffline :: string
  wd_restored :: string
  wd_dropped :: "int \<Rightarrow> string"
  wd_failed :: "string \<Rightarrow> string"
  wd_missing :: string

record page =
  pg_dial :: bool
  pg_send :: "nat \<Rightarrow> client_effect list \<Rightarrow> bool"
  pg_now :: int
  pg_random :: rat
  pg_words :: relay_words

definition new_browser_relay :: browser_relay where
  "new_browser_relay = \<lparr>br_conns = [], br_entries = [], br_status = RsIdle, br_disposed = False, br_next = 0, br_log = []\<rparr>"

definition new_conn :: host_conn where
  "new_conn = \<lparr>hc_socket = None, hc_attempts = 0, hc_retry = None, hc_connect = None, hc_had = False, hc_offline = False,
     hc_panes = [], hc_status = RsIdle, hc_reachable = None, hc_ping = None, hc_inbound = 0, hc_pong = False\<rparr>"

definition PING_INTERVAL_MS :: int where "PING_INTERVAL_MS = 10000"
definition PING_MISSES :: rat where "PING_MISSES = 5 / 2"
definition HOST_OFFLINE_CLOSE :: int where "HOST_OFFLINE_CLOSE = 4001"
definition RETRY_BASE_MS :: rat where "RETRY_BASE_MS = 500"
definition RETRY_MAX_MS :: rat where "RETRY_MAX_MS = 8000"

definition pane_notice :: "string \<Rightarrow> string" where
  "pane_notice text =
     [CHR 0x0D, CHR 0x0A, CHR 0x1B] @ ''[2m[pdmux] '' @ text @ [CHR 0x1B] @ ''[0m'' @ [CHR 0x0D, CHR 0x0A]"

section \<open>Reading and writing the state\<close>

definition conn_of :: "browser_relay \<Rightarrow> string \<Rightarrow> host_conn option" where
  "conn_of w host = map_of (br_conns w) host"

definition entry_of :: "browser_relay \<Rightarrow> nat \<Rightarrow> pane_entry option" where
  "entry_of w h = map_of (br_entries w) h"

definition upd_conn :: "string \<Rightarrow> (host_conn \<Rightarrow> host_conn) \<Rightarrow> browser_relay \<Rightarrow> browser_relay" where
  "upd_conn host f w = w\<lparr>br_conns := AList.map_entry host f (br_conns w)\<rparr>"

definition upd_entry :: "nat \<Rightarrow> (pane_entry \<Rightarrow> pane_entry) \<Rightarrow> browser_relay \<Rightarrow> browser_relay" where
  "upd_entry h f w = w\<lparr>br_entries := AList.map_entry h f (br_entries w)\<rparr>"

definition log_all :: "client_effect list \<Rightarrow> browser_relay \<Rightarrow> browser_relay" where
  "log_all effs w = w\<lparr>br_log := br_log w @ effs\<rparr>"

text \<open>What a pane is told: the listeners it has get it now, else it is kept for the first one.\<close>

definition say :: "nat \<Rightarrow> string \<Rightarrow> browser_relay \<Rightarrow> browser_relay" where
  "say h chunk w =
     (case entry_of w h of
        None \<Rightarrow> w
      | Some p \<Rightarrow>
          if pe_data p = [] then upd_entry h (\<lambda>p. p\<lparr>pe_buffered := pe_buffered p @ chunk\<rparr>) w
          else log_all (map (\<lambda>l. Data h l chunk) (pe_data p)) w)"

section \<open>Status\<close>

definition pane_attached :: "browser_relay \<Rightarrow> nat \<Rightarrow> bool" where
  "pane_attached w h = (case entry_of w h of Some p \<Rightarrow> pe_attached p | None \<Rightarrow> False)"

definition connectionStatus :: "browser_relay \<Rightarrow> host_conn \<Rightarrow> relay_status" where
  "connectionStatus w c =
     (if hc_panes c = [] then RsIdle
      else if hc_offline c then RsIdle
      else if hc_retry c \<noteq> None \<or> (hc_had c \<and> hc_socket c = None) then RsReconnecting
      else if map_option sk_state (hc_socket c) = Some Live \<and> list_all (\<lambda>(_, h). pane_attached w h) (hc_panes c) then RsOpen
      else if 0 < hc_attempts c then RsReconnecting
      else if hc_socket c \<noteq> None then RsConnecting else RsIdle)"

definition setStatus :: "relay_status \<Rightarrow> browser_relay \<Rightarrow> browser_relay" where
  "setStatus s w = (if br_status w = s then w else log_all [ShowStatus s] (w\<lparr>br_status := s\<rparr>))"

definition show_host :: "browser_relay \<Rightarrow> string \<times> relay_status \<Rightarrow> browser_relay" where
  "show_host w hs =
     (case conn_of w (fst hs) of
        None \<Rightarrow> w
      | Some c \<Rightarrow> if hc_status c = snd hs then w
          else log_all [ShowHost (fst hs) (snd hs)] (upd_conn (fst hs) (\<lambda>c. c\<lparr>hc_status := snd hs\<rparr>) w))"

definition worst :: "relay_status list \<Rightarrow> relay_status" where
  "worst ss = (if RsReconnecting \<in> set ss then RsReconnecting else if RsConnecting \<in> set ss then RsConnecting
     else if RsOpen \<in> set ss then RsOpen else RsIdle)"

definition host_statuses :: "browser_relay \<Rightarrow> (string \<times> relay_status) list" where
  "host_statuses w = map (\<lambda>(host, c). (host, connectionStatus w c)) (br_conns w)"

definition refreshStatus :: "browser_relay \<Rightarrow> browser_relay" where
  "refreshStatus w =
     (if br_disposed w then setStatus RsClosed w
      else let ss = host_statuses w in setStatus (worst (map snd ss)) (foldl show_host w ss))"

definition statusOf :: "browser_relay \<Rightarrow> string \<Rightarrow> relay_status" where
  "statusOf w host =
     (if br_disposed w then RsClosed
      else case conn_of w host of Some c \<Rightarrow> connectionStatus w c | None \<Rightarrow> RsIdle)"

text \<open>The toolbar's word: the worst of the hosts that should answer.\<close>

definition bannerStatus :: "(string \<times> relay_status) list \<Rightarrow> string list \<Rightarrow> relay_status" where
  "bannerStatus statuses reachable =
     (let counted = map snd (filter (\<lambda>(host, _). host \<in> set reachable) statuses) in
      if RsReconnecting \<in> set counted then RsReconnecting
      else if RsConnecting \<in> set counted then RsConnecting
      else if RsOpen \<in> set counted then RsOpen
      else if RsClosed \<in> set counted then RsClosed else RsIdle)"

definition paneTotal :: "browser_relay \<Rightarrow> nat" where
  "paneTotal w = sum_list (map (\<lambda>(_, c). length (hc_panes c)) (br_conns w))"

section \<open>Sockets\<close>

definition closeSocket :: "string \<Rightarrow> browser_relay \<Rightarrow> browser_relay" where
  "closeSocket host w =
     (case conn_of w host of
        None \<Rightarrow> w
      | Some c \<Rightarrow>
          log_all (case hc_socket c of Some s \<Rightarrow> [Hangup (sk_id s)] | None \<Rightarrow> [])
            (upd_conn host (\<lambda>c. c\<lparr>hc_connect := None, hc_ping := None, hc_socket := None\<rparr>) w))"

text \<open>The delay before the next dial: doubled with every attempt up to a cap, spread by 30 percent.\<close>

definition retry_delay :: "nat \<Rightarrow> rat \<Rightarrow> int" where
  "retry_delay attempts r = js_round (min RETRY_MAX_MS (RETRY_BASE_MS * 2 ^ attempts) * (7 / 10 + r * (6 / 10)))"

definition retry_conn :: "page \<Rightarrow> string \<Rightarrow> browser_relay \<Rightarrow> browser_relay" where
  "retry_conn e host w =
     (case conn_of w host of
        None \<Rightarrow> w
      | Some c \<Rightarrow>
          if br_disposed w \<or> hc_retry c \<noteq> None then w
          else upd_conn host (\<lambda>c. c\<lparr>hc_attempts := Suc (hc_attempts c), hc_retry := Some (retry_delay (hc_attempts c) (pg_random e))\<rparr>) w)"

definition ensureSocket :: "page \<Rightarrow> string \<Rightarrow> browser_relay \<Rightarrow> browser_relay" where
  "ensureSocket e host w =
     (case conn_of w host of
        None \<Rightarrow> w
      | Some c \<Rightarrow>
          if br_disposed w \<or> hc_socket c \<noteq> None \<or> hc_retry c \<noteq> None \<or> hc_panes c = [] then w
          else if \<not> pg_dial e then refreshStatus (retry_conn e host w)
          else let n = br_next w in
            refreshStatus (log_all [Dial host n]
              (upd_conn host (\<lambda>c. c\<lparr>hc_socket := Some \<lparr>sk_id = n, sk_state = Dialling\<rparr>, hc_connect := Some n\<rparr>)
                (w\<lparr>br_next := Suc n\<rparr>))))"

definition pane_lost :: "page \<Rightarrow> bool \<Rightarrow> browser_relay \<Rightarrow> nat \<Rightarrow> browser_relay" where
  "pane_lost e off w h =
     (case entry_of w h of
        None \<Rightarrow> w
      | Some p \<Rightarrow>
          let w1 = (if off then (if pe_offline p then w else say h (pane_notice (wd_hostOffline (pg_words e))) w)
                    else if pe_attached p then say h (pane_notice (wd_reconnecting (pg_words e))) w else w)
          in upd_entry h (\<lambda>p. p\<lparr>pe_offline := (off \<or> pe_offline p), pe_attached := False\<rparr>) w1)"

definition dropped :: "page \<Rightarrow> string \<Rightarrow> int option \<Rightarrow> browser_relay \<Rightarrow> browser_relay" where
  "dropped e host close_code w =
     (case conn_of w host of
        None \<Rightarrow> w
      | Some c \<Rightarrow>
          if br_disposed w \<or> hc_socket c = None then w
          else let off = (close_code = Some HOST_OFFLINE_CLOSE);
                   w1 = upd_conn host (\<lambda>c. c\<lparr>hc_offline := off\<rparr>) (closeSocket host w);
                   w2 = foldl (pane_lost e off) w1 (map snd (hc_panes c))
            in refreshStatus (if hc_panes c \<noteq> [] then retry_conn e host w2 else w2))"

definition send_frame :: "page \<Rightarrow> string \<Rightarrow> client_frame \<Rightarrow> browser_relay \<Rightarrow> browser_relay" where
  "send_frame e host frame w =
     (case conn_of w host of
        None \<Rightarrow> w
      | Some c \<Rightarrow>
          (case hc_socket c of
             Some s \<Rightarrow>
               if sk_state s \<noteq> Live then ensureSocket e host w
               else if pg_send e (sk_id s) (br_log w) then log_all [SendFrame (sk_id s) frame] w
               else dropped e host None w
           | None \<Rightarrow> ensureSocket e host w))"

text \<open>The target of an \<open>open\<close> frame: a tmux id only for a pane that is not native.\<close>

definition open_target :: "wire_target \<Rightarrow> wire_target" where
  "open_target t = t\<lparr>t_tmuxId := (if truthy (t_tmuxId t) \<and> t_backend t \<noteq> Some Native then t_tmuxId t else None)\<rparr>"

definition sendOpen :: "page \<Rightarrow> string \<Rightarrow> browser_relay \<Rightarrow> nat \<Rightarrow> browser_relay" where
  "sendOpen e host w h =
     (case entry_of w h of
        None \<Rightarrow> w
      | Some p \<Rightarrow> send_frame e host (Open (pe_term p) (open_target (pe_target p))) w)"

section \<open>Panes\<close>

definition release_pane :: "string \<Rightarrow> nat \<Rightarrow> int option \<Rightarrow> browser_relay \<Rightarrow> browser_relay" where
  "release_pane host h exit_code w =
     (case entry_of w h of
        None \<Rightarrow> w
      | Some p \<Rightarrow>
          refreshStatus (log_all (map (\<lambda>l. ExitTo h l exit_code) (pe_exit p))
            (upd_entry h (\<lambda>p. p\<lparr>pe_closed := True, pe_data := [], pe_exit := []\<rparr>)
              (upd_conn host (\<lambda>c. c\<lparr>hc_panes := AList.delete (pe_term p) (hc_panes c)\<rparr>) w))))"

definition release_term :: "string \<Rightarrow> browser_relay \<Rightarrow> string \<Rightarrow> browser_relay" where
  "release_term term w host =
     (case conn_of w host of
        None \<Rightarrow> w
      | Some c \<Rightarrow> (case map_of (hc_panes c) term of None \<Rightarrow> w | Some h \<Rightarrow> release_pane host h None w))"

definition releaseByTermId :: "string \<Rightarrow> browser_relay \<Rightarrow> browser_relay" where
  "releaseByTermId term w = foldl (release_term term) w (map fst (br_conns w))"

definition connectionFor :: "string \<Rightarrow> browser_relay \<Rightarrow> browser_relay" where
  "connectionFor host w =
     (case conn_of w host of Some _ \<Rightarrow> w | None \<Rightarrow> w\<lparr>br_conns := br_conns w @ [(host, new_conn)]\<rparr>)"

definition only_truthy :: "string option \<Rightarrow> string option" where
  "only_truthy s = (if truthy s then s else None)"

definition new_entry :: "string \<Rightarrow> string \<Rightarrow> wire_target \<Rightarrow> pane_entry" where
  "new_entry term host t =
     \<lparr>pe_term = term, pe_host = host,
      pe_target = t\<lparr>t_session := only_truthy (t_session t), t_tmuxId := only_truthy (t_tmuxId t), t_sessionId := only_truthy (t_sessionId t)\<rparr>,
      pe_data = [], pe_exit = [], pe_onSession = [], pe_onView = [], pe_onRestored = [], pe_onMissing = [], pe_viewport = None,
      pe_restored = False, pe_missing = False, pe_buffered = [], pe_started = False, pe_attached = False, pe_offline = False,
      pe_closed = False\<rparr>"

definition open_pane :: "page \<Rightarrow> string \<Rightarrow> string \<Rightarrow> wire_target \<Rightarrow> browser_relay \<Rightarrow> browser_relay" where
  "open_pane e term host t w =
     (let w1 = connectionFor host (releaseByTermId term w); h = br_next w1;
          w2 = upd_conn host (\<lambda>c. c\<lparr>hc_panes := AList.update term h (hc_panes c)\<rparr>)
                 (w1\<lparr>br_entries := (h, new_entry term host t) # br_entries w1, br_next := Suc h\<rparr>)
      in sendOpen e host (ensureSocket e host w2) h)"

section \<open>What a handle can do\<close>

datatype pane_call =
    ResolveTmux string "string option"
  | ScrollHistory int
  | MoveView int int bool
  | SendInput string bool
  | ResizePane int int
  | OnData nat
  | OnExit nat
  | OnSession nat
  | OnView nat
  | OnRestored nat
  | OnMissing nat
  | ForgetData nat
  | ForgetExit nat
  | ForgetSession nat
  | ForgetView nat
  | ForgetRestored nat
  | ForgetMissing nat
  | ClosePane

text \<open>A \<open>Set\<close> of listeners, in the order they came.\<close>

definition with_listener :: "nat \<Rightarrow> nat list \<Rightarrow> nat list" where
  "with_listener l ls = (if l \<in> set ls then ls else ls @ [l])"

definition resolve_tmux :: "string \<Rightarrow> string option \<Rightarrow> wire_target \<Rightarrow> wire_target" where
  "resolve_tmux key name t =
     (if \<not> is_tmux_id key \<or> t_backend t = Some Native then t
      else (if truthy name \<and> target_session_name (the name) \<and> (\<not> truthy (t_tmuxId t) \<or> t_tmuxId t = Some key)
            then t\<lparr>t_session := name\<rparr> else t)\<lparr>t_tmuxId := Some key, t_backend := Some Tmux\<rparr>)"

fun call_pane :: "page \<Rightarrow> nat \<Rightarrow> pane_entry \<Rightarrow> pane_call \<Rightarrow> browser_relay \<Rightarrow> browser_relay" where
  "call_pane e h p (ResolveTmux key name) w = upd_entry h (\<lambda>p. p\<lparr>pe_target := resolve_tmux key name (pe_target p)\<rparr>) w"
| "call_pane e h p (ScrollHistory delta) w = send_frame e (pe_host p) (Viewport (pe_term p) 0 0 False delta) w"
| "call_pane e h p (MoveView x y follow) w = send_frame e (pe_host p) (Viewport (pe_term p) x y follow 0) w"
| "call_pane e h p (SendInput s wheel) w = (if pe_closed p then w else send_frame e (pe_host p) (Input (pe_term p) s wheel) w)"
| "call_pane e h p (ResizePane c r) w =
     (if pe_closed p \<or> (c = t_cols (pe_target p) \<and> r = t_rows (pe_target p)) then w
      else send_frame e (pe_host p) (Resize (pe_term p) c r)
        (upd_entry h (\<lambda>p. p\<lparr>pe_target := (pe_target p)\<lparr>t_cols := c, t_rows := r\<rparr>\<rparr>) w))"
| "call_pane e h p (OnData l) w =
     log_all (if pe_buffered p \<noteq> [] then [Data h l (pe_buffered p)] else [])
       (upd_entry h (\<lambda>p. p\<lparr>pe_data := with_listener l (pe_data p), pe_buffered := []\<rparr>) w)"
| "call_pane e h p (OnExit l) w = upd_entry h (\<lambda>p. p\<lparr>pe_exit := with_listener l (pe_exit p)\<rparr>) w"
| "call_pane e h p (OnSession l) w =
     log_all (case t_sessionId (pe_target p) of Some s \<Rightarrow> [SessionTo h l s] | None \<Rightarrow> [])
       (upd_entry h (\<lambda>p. p\<lparr>pe_onSession := with_listener l (pe_onSession p)\<rparr>) w)"
| "call_pane e h p (OnView l) w =
     log_all (case pe_viewport p of Some v \<Rightarrow> [ViewTo h l v] | None \<Rightarrow> [])
       (upd_entry h (\<lambda>p. p\<lparr>pe_onView := with_listener l (pe_onView p)\<rparr>) w)"
| "call_pane e h p (OnRestored l) w =
     log_all (if pe_restored p then [RestoredTo h l] else [])
       (upd_entry h (\<lambda>p. p\<lparr>pe_onRestored := with_listener l (pe_onRestored p)\<rparr>) w)"
| "call_pane e h p (OnMissing l) w =
     log_all (if pe_missing p then [MissingTo h l] else [])
       (upd_entry h (\<lambda>p. p\<lparr>pe_onMissing := with_listener l (pe_onMissing p)\<rparr>) w)"
| "call_pane e h p (ForgetData l) w = upd_entry h (\<lambda>p. p\<lparr>pe_data := removeAll l (pe_data p)\<rparr>) w"
| "call_pane e h p (ForgetExit l) w = upd_entry h (\<lambda>p. p\<lparr>pe_exit := removeAll l (pe_exit p)\<rparr>) w"
| "call_pane e h p (ForgetSession l) w = upd_entry h (\<lambda>p. p\<lparr>pe_onSession := removeAll l (pe_onSession p)\<rparr>) w"
| "call_pane e h p (ForgetView l) w = upd_entry h (\<lambda>p. p\<lparr>pe_onView := removeAll l (pe_onView p)\<rparr>) w"
| "call_pane e h p (ForgetRestored l) w = upd_entry h (\<lambda>p. p\<lparr>pe_onRestored := removeAll l (pe_onRestored p)\<rparr>) w"
| "call_pane e h p (ForgetMissing l) w = upd_entry h (\<lambda>p. p\<lparr>pe_onMissing := removeAll l (pe_onMissing p)\<rparr>) w"
| "call_pane e h p ClosePane w =
     (if pe_closed p then w
      else refreshStatus (upd_conn (pe_host p) (\<lambda>c. c\<lparr>hc_panes := AList.delete (pe_term p) (hc_panes c)\<rparr>)
        (send_frame e (pe_host p) (CloseTerm (pe_term p)) (upd_entry h (\<lambda>p. p\<lparr>pe_closed := True\<rparr>) w))))"

section \<open>Frames from the server\<close>

definition attached_pane :: "page \<Rightarrow> string \<Rightarrow> nat \<Rightarrow> browser_relay \<Rightarrow> browser_relay" where
  "attached_pane e host h w =
     (case entry_of w h of
        None \<Rightarrow> w
      | Some p \<Rightarrow>
          let w1 = (if (pe_started p \<or> pe_offline p) \<and> \<not> pe_attached p
                    then say h (pane_notice (wd_restored (pg_words e))) w else w)
          in refreshStatus (upd_conn host (\<lambda>c. c\<lparr>hc_attempts := 0, hc_offline := False\<rparr>)
               (upd_entry h (\<lambda>p. p\<lparr>pe_started := True, pe_attached := True, pe_offline := False\<rparr>) w1)))"

definition ready_entry :: "ready_frame \<Rightarrow> pane_entry \<Rightarrow> pane_entry" where
  "ready_entry r p =
     (let p1 = (if truthy (rd_tmuxId r)
                then p\<lparr>pe_target := (pe_target p)\<lparr>t_tmuxId := rd_tmuxId r, t_backend := Some Tmux\<rparr>\<rparr> else p);
          p2 = (if rd_backend r = Some Native \<and> truthy (rd_sessionId r)
                then p1\<lparr>pe_target := (pe_target p1)\<lparr>t_backend := Some Native, t_sessionId := rd_sessionId r,
                  t_intent := Some AttachTo, t_tmuxId := None\<rparr>\<rparr> else p1)
      in p2\<lparr>pe_restored := (rd_restored r \<or> pe_restored p2)\<rparr>)"

definition ready_told :: "nat \<Rightarrow> ready_frame \<Rightarrow> pane_entry \<Rightarrow> client_effect list" where
  "ready_told h r p =
     (if rd_backend r = Some Native \<and> truthy (rd_sessionId r) then map (\<lambda>l. SessionTo h l (the (rd_sessionId r))) (pe_onSession p) else [])
     @ (if rd_restored r then map (RestoredTo h) (pe_onRestored p) else [])"

fun pane_receives :: "page \<Rightarrow> string \<Rightarrow> nat \<Rightarrow> pane_entry \<Rightarrow> server_frame \<Rightarrow> browser_relay \<Rightarrow> browser_relay" where
  "pane_receives e host h p (Ready _ r) w =
     attached_pane e host h (log_all (ready_told h r p) (upd_entry h (ready_entry r) w))"
| "pane_receives e host h p (Screen _ s) w =
     say h (sc_data s) (log_all (map (\<lambda>l. ViewTo h l s) (pe_onView p))
       (upd_entry h (\<lambda>p. p\<lparr>pe_viewport := Some s\<rparr>) (attached_pane e host h w)))"
| "pane_receives e host h p (SessionResult _ _) w = w"
| "pane_receives e host h p (Output _ d n) w =
     (let w1 = attached_pane e host h w in
      say h d (if 0 < n then say h (pane_notice (wd_dropped (pg_words e) n)) w1 else w1))"
| "pane_receives e host h p (Exit _ c) w = release_pane host h c w"
| "pane_receives e host h p (ErrorFrame _ m) w =
     (let missing = (m = ''SESSION_NOT_FOUND'');
          w1 = say h (pane_notice (if missing then wd_missing (pg_words e) else wd_failed (pg_words e) m)) w;
          w2 = (if missing then log_all (map (MissingTo h) (pe_onMissing p)) (upd_entry h (\<lambda>p. p\<lparr>pe_missing := True\<rparr>) w1) else w1)
      in release_pane host h None w2)"

definition is_pong :: "jsval \<Rightarrow> bool" where
  "is_pong v = (js_get v ''type'' = JStr ''pong'')"

text \<open>\<open>payload\<close> is \<open>None\<close> when it is not JSON.\<close>

definition receive :: "page \<Rightarrow> string \<Rightarrow> jsval option \<Rightarrow> browser_relay \<Rightarrow> browser_relay" where
  "receive e host payload w =
     (let w0 = upd_conn host (\<lambda>c. c\<lparr>hc_inbound := pg_now e\<rparr>) w in
      case payload of
        None \<Rightarrow> w0
      | Some v \<Rightarrow>
          if is_pong v then upd_conn host (\<lambda>c. c\<lparr>hc_pong := True\<rparr>) w0
          else (case parseTerminalServerFrame v of
              Inl _ \<Rightarrow> w0
            | Inr frame \<Rightarrow>
                (case conn_of w0 host of
                   None \<Rightarrow> w0
                 | Some c \<Rightarrow>
                     (case map_of (hc_panes c) (server_term frame) of
                        None \<Rightarrow> w0
                      | Some h \<Rightarrow> (case entry_of w0 h of None \<Rightarrow> w0 | Some p \<Rightarrow> pane_receives e host h p frame w0)))))"

section \<open>Timers and the page\<close>

definition socket_opened :: "page \<Rightarrow> string \<Rightarrow> browser_relay \<Rightarrow> browser_relay" where
  "socket_opened e host w =
     (case conn_of w host of
        None \<Rightarrow> w
      | Some c \<Rightarrow>
          (case hc_socket c of
             None \<Rightarrow> w
           | Some s \<Rightarrow>
               if sk_state s \<noteq> Dialling then w
               else let w1 = upd_conn host (\<lambda>c. c\<lparr>hc_socket := Some (s\<lparr>sk_state := Live\<rparr>), hc_connect := None, hc_had := True,
                       hc_inbound := pg_now e, hc_pong := False, hc_ping := Some (sk_id s)\<rparr>) w
                 in refreshStatus (foldl (sendOpen e host) w1 (map snd (hc_panes c)))))"

definition connect_timeout :: "page \<Rightarrow> string \<Rightarrow> browser_relay \<Rightarrow> browser_relay" where
  "connect_timeout e host w =
     (case conn_of w host of
        None \<Rightarrow> w
      | Some c \<Rightarrow>
          (case (hc_connect c, hc_socket c) of
             (Some n, Some s) \<Rightarrow> if sk_id s = n \<and> sk_state s \<noteq> Live then dropped e host None w else w
           | _ \<Rightarrow> w))"

definition retry_fires :: "page \<Rightarrow> string \<Rightarrow> browser_relay \<Rightarrow> browser_relay" where
  "retry_fires e host w =
     (case conn_of w host of
        None \<Rightarrow> w
      | Some c \<Rightarrow> if hc_retry c = None then w else ensureSocket e host (upd_conn host (\<lambda>c. c\<lparr>hc_retry := None\<rparr>) w))"

definition ping_tick :: "page \<Rightarrow> string \<Rightarrow> browser_relay \<Rightarrow> browser_relay" where
  "ping_tick e host w =
     (case conn_of w host of
        None \<Rightarrow> w
      | Some c \<Rightarrow>
          (case hc_ping c of
             None \<Rightarrow> w
           | Some n \<Rightarrow>
               let w1 = upd_conn host (\<lambda>c. c\<lparr>hc_ping := None\<rparr>) w in
               (case hc_socket c of
                  Some s \<Rightarrow>
                    if sk_id s \<noteq> n \<or> sk_state s \<noteq> Live then w1
                    else if hc_pong c \<and> of_int PING_INTERVAL_MS * PING_MISSES < of_int (pg_now e - hc_inbound c) then dropped e host None w1
                    else if pg_send e n (br_log w1) then upd_conn host (\<lambda>c. c\<lparr>hc_ping := Some n\<rparr>) (log_all [SendPing n (pg_now e)] w1)
                    else dropped e host None w1
                | None \<Rightarrow> w1)))"

definition wakeConnection :: "page \<Rightarrow> browser_relay \<Rightarrow> string \<Rightarrow> browser_relay" where
  "wakeConnection e w host =
     (case conn_of w host of
        None \<Rightarrow> w
      | Some c \<Rightarrow> if hc_socket c \<noteq> None then w
          else ensureSocket e host (upd_conn host (\<lambda>c. c\<lparr>hc_retry := None, hc_attempts := 0\<rparr>) w))"

definition wake :: "page \<Rightarrow> browser_relay \<Rightarrow> browser_relay" where
  "wake e w = (if br_disposed w then w else refreshStatus (foldl (wakeConnection e) w (map fst (br_conns w))))"

definition note_host :: "page \<Rightarrow> string list \<Rightarrow> bool \<times> browser_relay \<Rightarrow> string \<Rightarrow> bool \<times> browser_relay" where
  "note_host e reachable s host =
     (case conn_of (snd s) host of
        None \<Rightarrow> s
      | Some c \<Rightarrow>
          let now = host \<in> set reachable; woke = (now \<and> hc_reachable c = Some False);
              w1 = (if woke then wakeConnection e (snd s) host else snd s)
          in (fst s \<or> woke, upd_conn host (\<lambda>c. c\<lparr>hc_reachable := Some now\<rparr>) w1))"

definition noteReachable :: "page \<Rightarrow> string list \<Rightarrow> browser_relay \<Rightarrow> browser_relay" where
  "noteReachable e reachable w =
     (if br_disposed w then w
      else let (woke, w') = foldl (note_host e reachable) (False, w) (map fst (br_conns w))
        in if woke then refreshStatus w' else w')"

definition dispose_conn :: "browser_relay \<Rightarrow> string \<Rightarrow> browser_relay" where
  "dispose_conn w host =
     (case conn_of w host of
        None \<Rightarrow> w
      | Some c \<Rightarrow>
          let w1 = foldl (\<lambda>w h. upd_entry h (\<lambda>p. p\<lparr>pe_closed := True\<rparr>) w)
                     (upd_conn host (\<lambda>c. c\<lparr>hc_retry := None, hc_panes := []\<rparr>) w) (map snd (hc_panes c));
              w2 = closeSocket host w1
          in if hc_status c = RsClosed then w2
             else log_all [ShowHost host RsClosed] (upd_conn host (\<lambda>c. c\<lparr>hc_status := RsClosed\<rparr>) w2))"

definition dispose :: "browser_relay \<Rightarrow> browser_relay" where
  "dispose w = setStatus RsClosed ((foldl dispose_conn (w\<lparr>br_disposed := True\<rparr>) (map fst (br_conns w)))\<lparr>br_conns := []\<rparr>)"

section \<open>Runs\<close>

datatype page_event =
    OpenPane string string wire_target
  | CallPane nat pane_call
  | SocketOpened string
  | SocketMessage string "jsval option"
  | SocketClosed string int
  | SocketError string
  | SocketGone string
  | ConnectTimeout string
  | RetryFires string
  | PingTick string
  | Wake
  | NoteReachable "string list"
  | Dispose

text \<open>The handlers of a socket that was let go are gone; a closing socket is \<open>Gone\<close> before it says so.\<close>

definition has_socket :: "browser_relay \<Rightarrow> string \<Rightarrow> bool" where
  "has_socket w host = (case conn_of w host of Some c \<Rightarrow> hc_socket c \<noteq> None | None \<Rightarrow> False)"

fun page_step :: "browser_relay \<Rightarrow> page \<times> page_event \<Rightarrow> browser_relay" where
  "page_step w (e, OpenPane term host t) = open_pane e term host t w"
| "page_step w (e, CallPane h call) = (case entry_of w h of None \<Rightarrow> w | Some p \<Rightarrow> call_pane e h p call w)"
| "page_step w (e, SocketOpened host) = socket_opened e host w"
| "page_step w (e, SocketMessage host payload) = (if has_socket w host then receive e host payload w else w)"
| "page_step w (e, SocketClosed host close_code) = dropped e host (Some close_code) w"
| "page_step w (e, SocketError host) = dropped e host None w"
| "page_step w (e, SocketGone host) = upd_conn host (\<lambda>c. c\<lparr>hc_socket := map_option (\<lambda>s. s\<lparr>sk_state := Gone\<rparr>) (hc_socket c)\<rparr>) w"
| "page_step w (e, ConnectTimeout host) = connect_timeout e host w"
| "page_step w (e, RetryFires host) = retry_fires e host w"
| "page_step w (e, PingTick host) = ping_tick e host w"
| "page_step w (e, Wake) = wake e w"
| "page_step w (e, NoteReachable hosts) = noteReachable e hosts w"
| "page_step w (e, Dispose) = dispose w"

end
