(* ===== verification/BrowserRelayFacts.thy ===== *)
theory BrowserRelayFacts
  imports BrowserRelay Relay
begin

text \<open>
  What the browser's end of the terminal path keeps: a pane that is on the screen is always on its
  way back, a new socket opens every pane again with the session both ends agreed on, and what a pane
  is told reaches its first listener in full.
\<close>

section \<open>What the helpers leave alone\<close>

lemma conn_of_upd [simp]: "conn_of (upd_conn host f w) k = (if k = host then map_option f (conn_of w k) else conn_of w k)"
  by (simp add: conn_of_def upd_conn_def AList.map_of_map_entry split: option.split)

lemma entry_of_upd [simp]: "entry_of (upd_entry h f w) k = (if k = h then map_option f (entry_of w k) else entry_of w k)"
  by (simp add: entry_of_def upd_entry_def AList.map_of_map_entry split: option.split)

lemma conn_of_frame [simp]:
  "conn_of (upd_entry h g w) k = conn_of w k" "conn_of (log_all effs w) k = conn_of w k" "conn_of (setStatus s w) k = conn_of w k"
  "conn_of (say h chunk w) k = conn_of w k" "conn_of (w\<lparr>br_next := n\<rparr>) k = conn_of w k" "conn_of (w\<lparr>br_entries := es\<rparr>) k = conn_of w k"
  by (simp_all add: conn_of_def upd_entry_def log_all_def setStatus_def say_def split: option.split)

lemma entry_of_frame [simp]:
  "entry_of (upd_conn host f w) k = entry_of w k" "entry_of (log_all effs w) k = entry_of w k" "entry_of (setStatus s w) k = entry_of w k"
  "entry_of (w\<lparr>br_next := n\<rparr>) k = entry_of w k"
  by (simp_all add: entry_of_def upd_conn_def log_all_def setStatus_def)

lemma disposed_frame [simp]:
  "br_disposed (upd_conn host f w) = br_disposed w" "br_disposed (upd_entry h g w) = br_disposed w"
  "br_disposed (log_all effs w) = br_disposed w" "br_disposed (setStatus s w) = br_disposed w" "br_disposed (say h chunk w) = br_disposed w"
  by (simp_all add: upd_conn_def upd_entry_def log_all_def setStatus_def say_def split: option.split)

lemma show_host_frame [simp]: "br_disposed (show_host w hs) = br_disposed w" "entry_of (show_host w hs) k = entry_of w k"
  by (simp_all add: show_host_def split: option.split)

lemma shown_frame [simp]: "br_disposed (foldl show_host w ss) = br_disposed w" "entry_of (foldl show_host w ss) k = entry_of w k"
  by (induction ss arbitrary: w) simp_all

lemma refresh_frame [simp]: "br_disposed (refreshStatus w) = br_disposed w" "entry_of (refreshStatus w) k = entry_of w k"
  by (simp_all add: refreshStatus_def Let_def)

text \<open>Showing a status changes nothing of a connection but the status shown.\<close>

lemma show_host_conn: "conn_of (show_host w hs) k = Some c \<Longrightarrow> \<exists>c0. conn_of w k = Some c0 \<and> c = c0\<lparr>hc_status := hc_status c\<rparr>"
  by (auto simp: show_host_def split: option.splits if_splits)

lemma shown_conn: "conn_of (foldl show_host w ss) k = Some c \<Longrightarrow> \<exists>c0. conn_of w k = Some c0 \<and> c = c0\<lparr>hc_status := hc_status c\<rparr>"
proof (induction ss arbitrary: w)
  case Nil
  then show ?case by (intro exI [of _ c]) simp
next
  case (Cons hs ss)
  then obtain c1 where c1: "conn_of (show_host w hs) k = Some c1" "c = c1\<lparr>hc_status := hc_status c\<rparr>" by auto
  from show_host_conn [OF c1(1)] obtain c0 where "conn_of w k = Some c0" "c1 = c0\<lparr>hc_status := hc_status c1\<rparr>" by blast
  then show ?case using c1(2) by (metis host_conn.update_convs(8) host_conn.surjective)
qed

lemma refresh_conn: "conn_of (refreshStatus w) k = Some c \<Longrightarrow> \<exists>c0. conn_of w k = Some c0 \<and> c = c0\<lparr>hc_status := hc_status c\<rparr>"
  by (cases "br_disposed w") (auto simp: refreshStatus_def Let_def dest: shown_conn)

section \<open>Every pane is on its way\<close>

text \<open>
  Facts about every connection, or every one but \<open>host\<close>'s. \<open>P\<close> does not look at the status shown.
\<close>

definition each_conn :: "(host_conn \<Rightarrow> bool) \<Rightarrow> browser_relay \<Rightarrow> bool" where
  "each_conn P w = (\<forall>k c. conn_of w k = Some c \<longrightarrow> P c)"

definition each_other :: "string \<Rightarrow> (host_conn \<Rightarrow> bool) \<Rightarrow> browser_relay \<Rightarrow> bool" where
  "each_other host P w = (\<forall>k c. k \<noteq> host \<longrightarrow> conn_of w k = Some c \<longrightarrow> P c)"

text \<open>A dialling socket has its time limit, a live one its next ping, and no socket is dialled beside a retry.\<close>

definition conn_sound :: "host_conn \<Rightarrow> bool" where
  "conn_sound c \<longleftrightarrow> (case hc_socket c of
       None \<Rightarrow> True
     | Some s \<Rightarrow> hc_retry c = None \<and> (sk_state s = Dialling \<longrightarrow> hc_connect c = Some (sk_id s))
         \<and> (sk_state s = Live \<longrightarrow> hc_ping c = Some (sk_id s)))"

definition on_its_way :: "host_conn \<Rightarrow> bool" where
  "on_its_way c \<longleftrightarrow> conn_sound c \<and> (hc_panes c \<noteq> [] \<longrightarrow> hc_socket c \<noteq> None \<or> hc_retry c \<noteq> None)"

lemma status_blind [simp]: "conn_sound (c\<lparr>hc_status := s\<rparr>) = conn_sound c" "on_its_way (c\<lparr>hc_status := s\<rparr>) = on_its_way c"
  by (simp_all add: conn_sound_def on_its_way_def split: option.split)

lemma each_conn_same: "(\<And>k. conn_of w' k = conn_of w k) \<Longrightarrow> each_conn P w' = each_conn P w"
  by (simp add: each_conn_def)

lemma each_conn_frame [simp]:
  "each_conn P (upd_entry h g w) = each_conn P w" "each_conn P (log_all effs w) = each_conn P w" "each_conn P (say h chunk w) = each_conn P w"
  "each_conn P (w\<lparr>br_next := n\<rparr>) = each_conn P w"
  by (simp_all add: each_conn_def)

lemma each_conn_refresh:
  assumes "\<And>c s. P (c\<lparr>hc_status := s\<rparr>) = P c" and "each_conn P w" shows "each_conn P (refreshStatus w)"
  unfolding each_conn_def
proof (intro allI impI)
  fix k c assume "conn_of (refreshStatus w) k = Some c"
  from refresh_conn [OF this] obtain c0 where "conn_of w k = Some c0" "c = c0\<lparr>hc_status := hc_status c\<rparr>" by blast
  then show "P c" using assms by (metis each_conn_def)
qed

lemma each_conn_upd:
  "each_other host P w \<Longrightarrow> (\<And>c. conn_of w host = Some c \<Longrightarrow> P (f c)) \<Longrightarrow> each_conn P (upd_conn host f w)"
  by (auto simp: each_conn_def each_other_def)

lemma each_other_upd [simp]: "each_other host P (upd_conn host f w) = each_other host P w"
  by (simp add: each_other_def)

lemma each_other_frame [simp]:
  "each_other host P (upd_entry h g w) = each_other host P w" "each_other host P (log_all effs w) = each_other host P w"
  "each_other host P (say h chunk w) = each_other host P w" "each_other host P (w\<lparr>br_next := n\<rparr>) = each_other host P w"
  by (simp_all add: each_other_def)

lemma each_otherI: "each_conn P w \<Longrightarrow> each_other host P w"
  by (simp add: each_conn_def each_other_def)

lemma each_conn_whole:
  "each_other host P w \<Longrightarrow> (\<And>c. conn_of w host = Some c \<Longrightarrow> P c) \<Longrightarrow> each_conn P w"
  unfolding each_conn_def each_other_def by metis

lemma each_conn_kept:
  "each_conn P w \<Longrightarrow> (\<And>c. conn_of w host = Some c \<Longrightarrow> P c \<Longrightarrow> P (f c)) \<Longrightarrow> each_conn P (upd_conn host f w)"
  by (rule each_conn_upd [OF each_otherI]) (auto simp: each_conn_def)

lemmas way_refresh = each_conn_refresh [of on_its_way, OF status_blind(2)]

lemma retry_way:
  assumes "each_other host on_its_way w" and "\<And>c. conn_of w host = Some c \<Longrightarrow> hc_socket c = None" and "\<not> br_disposed w"
  shows "each_conn on_its_way (retry_conn e host w)"
proof (cases "conn_of w host")
  case None
  then show ?thesis by (auto simp: retry_conn_def intro: each_conn_whole [OF assms(1)])
next
  case (Some c)
  have "on_its_way c" if "hc_retry c \<noteq> None" using that assms(2) [OF Some] by (simp add: on_its_way_def conn_sound_def)
  moreover have "on_its_way (c\<lparr>hc_attempts := n, hc_retry := Some d\<rparr>)" for n d
    using assms(2) [OF Some] by (simp add: on_its_way_def conn_sound_def)
  ultimately show ?thesis using assms(1,3) Some
    by (auto simp: retry_conn_def intro!: each_conn_upd each_conn_whole [OF assms(1)])
qed

lemma ensure_way:
  assumes "each_other host on_its_way w" and "\<And>c. conn_of w host = Some c \<Longrightarrow> conn_sound c" and "\<not> br_disposed w"
  shows "each_conn on_its_way (ensureSocket e host w)"
proof (cases "conn_of w host")
  case None
  then show ?thesis by (auto simp: ensureSocket_def intro: each_conn_whole [OF assms(1)])
next
  case (Some c)
  consider (there) "hc_socket c \<noteq> None \<or> hc_retry c \<noteq> None \<or> hc_panes c = []"
    | (failed) "hc_socket c = None" "hc_retry c = None" "hc_panes c \<noteq> []" "\<not> pg_dial e"
    | (dialled) "hc_socket c = None" "hc_retry c = None" "hc_panes c \<noteq> []" "pg_dial e" by blast
  then show ?thesis
  proof cases
    case there
    then have "on_its_way c" using assms(2) [OF Some] by (auto simp: on_its_way_def)
    then show ?thesis using there Some by (auto simp: ensureSocket_def intro!: each_conn_whole [OF assms(1)])
  next
    case failed
    then have "each_conn on_its_way (retry_conn e host w)" using Some assms by (intro retry_way) auto
    then show ?thesis using failed Some assms(3) by (simp add: ensureSocket_def way_refresh)
  next
    case dialled
    have "on_its_way (c\<lparr>hc_socket := Some \<lparr>sk_id = n, sk_state = Dialling\<rparr>, hc_connect := Some n\<rparr>)" for n
      using dialled by (simp add: on_its_way_def conn_sound_def)
    then show ?thesis using dialled Some assms(1,3)
      by (auto simp: ensureSocket_def Let_def intro!: way_refresh each_conn_upd)
  qed
qed

lemma closed_conn: "conn_of (closeSocket host w) k = (if k = host
    then map_option (\<lambda>c. c\<lparr>hc_connect := None, hc_ping := None, hc_socket := None\<rparr>) (conn_of w k) else conn_of w k)"
  by (simp add: closeSocket_def split: option.split)

lemma closed_frame [simp]: "br_disposed (closeSocket host w) = br_disposed w" "entry_of (closeSocket host w) k = entry_of w k"
  by (simp_all add: closeSocket_def split: option.split)

lemma pane_lost_frame [simp]: "br_disposed (pane_lost e off w h) = br_disposed w" "conn_of (pane_lost e off w h) k = conn_of w k"
  by (simp_all add: pane_lost_def Let_def split: option.split)

lemma panes_lost_frame [simp]:
  "br_disposed (foldl (pane_lost e off) w hs) = br_disposed w" "conn_of (foldl (pane_lost e off) w hs) k = conn_of w k"
  by (induction hs arbitrary: w) simp_all

lemma dropped_way:
  assumes "each_other host on_its_way w" and "\<And>c. conn_of w host = Some c \<Longrightarrow> hc_socket c = None \<Longrightarrow> on_its_way c"
    and "\<not> br_disposed w" and "\<And>c s. conn_of w host = Some c \<Longrightarrow> hc_socket c = Some s \<Longrightarrow> hc_retry c = None"
  shows "each_conn on_its_way (dropped e host close_code w)"
proof (cases "conn_of w host")
  case None
  then show ?thesis by (auto simp: dropped_def intro: each_conn_whole [OF assms(1)])
next
  case (Some c)
  show ?thesis
  proof (cases "hc_socket c")
    case None
    then show ?thesis using Some assms(2) by (auto simp: dropped_def intro: each_conn_whole [OF assms(1)])
  next
    case (Some s)
    let ?w1 = "upd_conn host (\<lambda>c. c\<lparr>hc_offline := (close_code = Some HOST_OFFLINE_CLOSE)\<rparr>) (closeSocket host w)"
    let ?w2 = "foldl (pane_lost e (close_code = Some HOST_OFFLINE_CLOSE)) ?w1 (map snd (hc_panes c))"
    have other: "each_other host on_its_way ?w2" using assms(1) by (simp add: each_other_def closed_conn)
    have conn: "conn_of ?w2 host = Some (c\<lparr>hc_connect := None, hc_ping := None, hc_socket := None,
        hc_offline := (close_code = Some HOST_OFFLINE_CLOSE)\<rparr>)"
      using \<open>conn_of w host = Some c\<close> by (simp add: closed_conn)
    have "each_conn on_its_way (if hc_panes c \<noteq> [] then retry_conn e host ?w2 else ?w2)"
    proof (cases "hc_panes c = []")
      case True
      then have "each_conn on_its_way ?w2"
        using conn by (intro each_conn_whole [OF other]) (auto simp: on_its_way_def conn_sound_def)
      then show ?thesis using True by simp
    next
      case False
      have "each_conn on_its_way (retry_conn e host ?w2)"
        by (rule retry_way [OF other]) (use conn assms(3) in auto)
      then show ?thesis using False by simp
    qed
    then show ?thesis using Some \<open>conn_of w host = Some c\<close> assms(3) by (simp add: dropped_def Let_def way_refresh)
  qed
qed

lemma each_connD: "each_conn P w \<Longrightarrow> conn_of w k = Some c \<Longrightarrow> P c"
  by (simp add: each_conn_def)

lemma way_no_retry: "on_its_way c \<Longrightarrow> hc_socket c = Some s \<Longrightarrow> hc_retry c = None"
  by (simp add: on_its_way_def conn_sound_def)

lemma dropped_way': "each_conn on_its_way w \<Longrightarrow> \<not> br_disposed w \<Longrightarrow> each_conn on_its_way (dropped e host close_code w)"
  by (rule dropped_way [OF each_otherI]) (auto dest: each_connD way_no_retry)

lemma send_way:
  assumes "each_conn on_its_way w" and "\<not> br_disposed w" shows "each_conn on_its_way (send_frame e host frame w)"
proof -
  have "each_conn on_its_way (ensureSocket e host w)"
    by (rule ensure_way [OF each_otherI]) (use assms in \<open>auto simp: each_conn_def on_its_way_def\<close>)
  then show ?thesis using assms dropped_way' by (auto simp: send_frame_def split: option.split)
qed

lemma retry_frame [simp]: "br_disposed (retry_conn e host w) = br_disposed w" "entry_of (retry_conn e host w) k = entry_of w k"
  by (simp_all add: retry_conn_def split: option.split)

lemma ensure_frame [simp]: "br_disposed (ensureSocket e host w) = br_disposed w" "entry_of (ensureSocket e host w) k = entry_of w k"
  by (simp_all add: ensureSocket_def Let_def split: option.split)

lemma dropped_disposed [simp]: "br_disposed (dropped e host c w) = br_disposed w"
  by (simp add: dropped_def Let_def split: option.split)

lemma send_disposed [simp]: "br_disposed (send_frame e host frame w) = br_disposed w"
  by (simp add: send_frame_def split: option.split)

lemma sendOpen_disposed [simp]: "br_disposed (sendOpen e host w h) = br_disposed w"
  by (simp add: sendOpen_def split: option.split)

lemma opens_way:
  "each_conn on_its_way w \<Longrightarrow> \<not> br_disposed w \<Longrightarrow> each_conn on_its_way (foldl (sendOpen e host) w hs)"
proof (induction hs arbitrary: w)
  case (Cons h hs)
  then have "each_conn on_its_way (sendOpen e host w h)" by (simp add: sendOpen_def send_way split: option.split)
  then show ?case using Cons by simp
qed simp

lemma opens_disposed [simp]: "br_disposed (foldl (sendOpen e host) w hs) = br_disposed w"
  by (induction hs arbitrary: w) simp_all

text \<open>Fewer panes need less.\<close>

lemma fewer_panes [simp]:
  "conn_sound (c\<lparr>hc_panes := ps\<rparr>) = conn_sound c" "on_its_way c \<Longrightarrow> on_its_way (c\<lparr>hc_panes := AList.delete t (hc_panes c)\<rparr>)"
  by (auto simp: conn_sound_def on_its_way_def split: option.split)

lemma release_way: "each_conn on_its_way w \<Longrightarrow> each_conn on_its_way (release_pane host h c w)"
  by (auto simp: release_pane_def split: option.split intro!: way_refresh each_conn_kept)

lemma release_disposed [simp]: "br_disposed (release_pane host h c w) = br_disposed w"
  by (simp add: release_pane_def split: option.split)

lemma release_term_way: "each_conn on_its_way w \<Longrightarrow> each_conn on_its_way (release_term term w host)"
  by (simp add: release_term_def release_way split: option.split)

lemma release_all_way: "each_conn on_its_way w \<Longrightarrow> each_conn on_its_way (foldl (release_term term) w hosts)"
  by (induction hosts arbitrary: w) (simp_all add: release_term_way)

lemma release_term_disposed [simp]: "br_disposed (release_term term w host) = br_disposed w"
  by (simp add: release_term_def split: option.split)

lemma release_all_disposed [simp]: "br_disposed (foldl (release_term term) w hosts) = br_disposed w"
  by (induction hosts arbitrary: w) simp_all

lemma way_sound: "on_its_way c \<Longrightarrow> conn_sound c"
  by (simp add: on_its_way_def)

lemma new_conn_way: "on_its_way new_conn"
  by (simp add: on_its_way_def conn_sound_def new_conn_def)

lemma conn_of_connectionFor: "conn_of (connectionFor host w) k = (if k = host \<and> conn_of w k = None then Some new_conn else conn_of w k)"
  by (auto simp: connectionFor_def conn_of_def map_add_def split: option.split)

lemma connectionFor_disposed [simp]: "br_disposed (connectionFor host w) = br_disposed w"
  by (simp add: connectionFor_def split: option.split)

lemma open_way:
  assumes "each_conn on_its_way w" and "\<not> br_disposed w" shows "each_conn on_its_way (open_pane e term host t w)"
proof -
  define w1 where "w1 = connectionFor host (releaseByTermId term w)"
  have way: "each_conn on_its_way w1"
    using release_all_way [OF assms(1)] new_conn_way by (auto simp: w1_def each_conn_def conn_of_connectionFor releaseByTermId_def)
  define w2 where "w2 = upd_conn host (\<lambda>c. c\<lparr>hc_panes := AList.update term (br_next w1) (hc_panes c)\<rparr>)
      (w1\<lparr>br_entries := (br_next w1, new_entry term host t) # br_entries w1, br_next := Suc (br_next w1)\<rparr>)"
  have live: "\<not> br_disposed w2" using assms(2) by (simp add: w2_def w1_def releaseByTermId_def)
  have other: "each_other host on_its_way w2" using way by (simp add: w2_def each_other_def each_conn_def)
  have sound: "conn_sound c" if "conn_of w2 host = Some c" for c
  proof -
    from that obtain c0 where "conn_of w1 host = Some c0" "c = c0\<lparr>hc_panes := AList.update term (br_next w1) (hc_panes c0)\<rparr>"
      by (auto simp: w2_def)
    then show ?thesis using way_sound [OF each_connD [OF way]] by simp
  qed
  have "each_conn on_its_way (ensureSocket e host w2)" by (rule ensure_way [OF other sound live])
  then show ?thesis using live
    by (simp add: open_pane_def Let_def sendOpen_def send_way flip: w1_def w2_def split: option.split)
qed

lemma open_disposed [simp]: "br_disposed (open_pane e term host t w) = br_disposed w"
  by (simp add: open_pane_def Let_def releaseByTermId_def)

lemma call_way: "each_conn on_its_way w \<Longrightarrow> \<not> br_disposed w \<Longrightarrow> each_conn on_its_way (call_pane e h p call w)"
  by (cases call) (auto intro!: send_way way_refresh each_conn_kept)

lemma call_disposed [simp]: "br_disposed (call_pane e h p call w) = br_disposed w"
  by (cases call) simp_all

lemma attached_way: "each_conn on_its_way w \<Longrightarrow> each_conn on_its_way (attached_pane e host h w)"
  by (auto simp: attached_pane_def Let_def split: option.split intro!: way_refresh each_conn_kept)
    (auto simp: on_its_way_def conn_sound_def split: option.split)

lemma attached_disposed [simp]: "br_disposed (attached_pane e host h w) = br_disposed w"
  by (simp add: attached_pane_def Let_def split: option.split)

lemma receives_way: "each_conn on_its_way w \<Longrightarrow> each_conn on_its_way (pane_receives e host h p frame w)"
  by (cases frame) (auto simp: Let_def intro!: attached_way release_way)

lemma receives_disposed [simp]: "br_disposed (pane_receives e host h p frame w) = br_disposed w"
  by (cases frame) (simp_all add: Let_def)

lemma receive_way: "each_conn on_its_way w \<Longrightarrow> each_conn on_its_way (receive e host payload w)"
  by (auto simp: receive_def Let_def split: option.split sum.split intro!: receives_way each_conn_kept)
    (auto simp: on_its_way_def conn_sound_def split: option.split)

lemma receive_disposed [simp]: "br_disposed (receive e host payload w) = br_disposed w"
  by (simp add: receive_def Let_def split: option.split sum.split)

lemma opened_way:
  assumes "each_conn on_its_way w" and "\<not> br_disposed w" shows "each_conn on_its_way (socket_opened e host w)"
proof -
  have sound: "on_its_way (c\<lparr>hc_socket := Some (s\<lparr>sk_state := Live\<rparr>), hc_connect := None, hc_had := True, hc_inbound := pg_now e,
      hc_pong := False, hc_ping := Some (sk_id s)\<rparr>)" if "conn_of w host = Some c" "hc_socket c = Some s" for c s
    using each_connD [OF assms(1) that(1)] that(2) by (simp add: on_its_way_def conn_sound_def)
  show ?thesis using assms
    by (auto simp: socket_opened_def Let_def split: option.split intro!: way_refresh opens_way each_conn_upd [OF each_otherI] sound)
qed

lemma opened_disposed [simp]: "br_disposed (socket_opened e host w) = br_disposed w"
  by (simp add: socket_opened_def Let_def split: option.split)

lemma timeout_way: "each_conn on_its_way w \<Longrightarrow> \<not> br_disposed w \<Longrightarrow> each_conn on_its_way (connect_timeout e host w)"
  by (auto simp: connect_timeout_def split: option.split intro!: dropped_way')

lemma timeout_disposed [simp]: "br_disposed (connect_timeout e host w) = br_disposed w"
  by (simp add: connect_timeout_def split: option.split)

lemma retry_fires_way:
  assumes "each_conn on_its_way w" and "\<not> br_disposed w" shows "each_conn on_its_way (retry_fires e host w)"
proof -
  have "conn_sound (c\<lparr>hc_retry := None\<rparr>)" if "conn_of w host = Some c" for c
    using way_sound [OF each_connD [OF assms(1) that]] by (simp add: conn_sound_def split: option.splits)
  then have "each_conn on_its_way (ensureSocket e host (upd_conn host (\<lambda>c. c\<lparr>hc_retry := None\<rparr>) w))"
    using assms by (intro ensure_way) (auto intro: each_otherI)
  then show ?thesis using assms(1) by (simp add: retry_fires_def split: option.split)
qed

lemma retry_fires_disposed [simp]: "br_disposed (retry_fires e host w) = br_disposed w"
  by (simp add: retry_fires_def split: option.split)

lemma ping_way:
  assumes "each_conn on_its_way w" and "\<not> br_disposed w" shows "each_conn on_its_way (ping_tick e host w)"
proof (cases "conn_of w host")
  case None
  then show ?thesis using assms(1) by (simp add: ping_tick_def)
next
  case (Some c)
  have way: "on_its_way c" by (rule each_connD [OF assms(1) Some])
  define w1 where "w1 = upd_conn host (\<lambda>c. c\<lparr>hc_ping := None\<rparr>) w"
  have other: "each_other host on_its_way w1" using assms(1) by (simp add: w1_def each_otherI)
  have conn: "conn_of w1 host = Some (c\<lparr>hc_ping := None\<rparr>)" using Some by (simp add: w1_def)
  have calm: "each_conn on_its_way w1" if "hc_socket c = None \<or> (\<exists>s. hc_socket c = Some s \<and> sk_state s \<noteq> Live)"
    using that way conn by (intro each_conn_whole [OF other]) (auto simp: on_its_way_def conn_sound_def)
  have live: "sk_id s = n" if "hc_socket c = Some s" "sk_state s = Live" "hc_ping c = Some n" for s n
    using that way by (simp add: on_its_way_def conn_sound_def)
  have present: "\<not> br_disposed w1" using assms(2) by (simp add: w1_def)
  have drop: "each_conn on_its_way (dropped e host None w1)" if "hc_socket c = Some s" for s
    using that way conn present by (intro dropped_way [OF other]) (auto simp: on_its_way_def conn_sound_def)
  have again: "each_conn on_its_way (upd_conn host (\<lambda>c. c\<lparr>hc_ping := Some n\<rparr>) (log_all effs w1))" if "hc_ping c = Some n" for n effs
    using that way conn other by (intro each_conn_upd) (auto simp: on_its_way_def conn_sound_def split: option.splits)
  show ?thesis
  proof (cases "hc_ping c")
    case None
    then show ?thesis using \<open>conn_of w host = Some c\<close> assms(1) by (simp add: ping_tick_def)
  next
    case (Some n)
    show ?thesis
    proof (cases "\<exists>s. hc_socket c = Some s \<and> sk_state s = Live")
      case True
      then obtain s where s: "hc_socket c = Some s" "sk_state s = Live" by blast
      let ?quiet = "hc_pong c \<and> of_int PING_INTERVAL_MS * PING_MISSES < of_int (pg_now e - hc_inbound c)"
      have "ping_tick e host w = (if ?quiet then dropped e host None w1
          else if pg_send e n (br_log w1) then upd_conn host (\<lambda>c. c\<lparr>hc_ping := Some n\<rparr>) (log_all [SendPing n (pg_now e)] w1)
          else dropped e host None w1)"
        using s Some live [OF s Some] \<open>conn_of w host = Some c\<close> by (simp add: ping_tick_def w1_def Let_def)
      then show ?thesis using drop [OF s(1)] again [OF Some] by simp
    next
      case False
      then have "ping_tick e host w = w1" using Some \<open>conn_of w host = Some c\<close>
        by (auto simp: ping_tick_def w1_def Let_def split: option.split)
      moreover have "hc_socket c = None \<or> (\<exists>s. hc_socket c = Some s \<and> sk_state s \<noteq> Live)"
        using False by (cases "hc_socket c") auto
      ultimately show ?thesis using calm by simp
    qed
  qed
qed

lemma ping_disposed [simp]: "br_disposed (ping_tick e host w) = br_disposed w"
  by (simp add: ping_tick_def Let_def split: option.split)

lemma wake_conn_way:
  assumes "each_conn on_its_way w" and "\<not> br_disposed w" shows "each_conn on_its_way (wakeConnection e w host)"
proof (cases "conn_of w host")
  case None
  then show ?thesis using assms(1) by (simp add: wakeConnection_def)
next
  case (Some c)
  have "each_conn on_its_way (ensureSocket e host (upd_conn host (\<lambda>c. c\<lparr>hc_retry := None, hc_attempts := 0\<rparr>) w))"
    if "hc_socket c = None"
    using Some that assms by (intro ensure_way) (auto intro: each_otherI simp: conn_sound_def)
  then show ?thesis using Some assms(1) by (simp add: wakeConnection_def)
qed

lemma wake_conn_disposed [simp]: "br_disposed (wakeConnection e w host) = br_disposed w"
  by (simp add: wakeConnection_def split: option.split)

lemma wake_all_way:
  "each_conn on_its_way w \<Longrightarrow> \<not> br_disposed w \<Longrightarrow> each_conn on_its_way (foldl (wakeConnection e) w hosts)
    \<and> \<not> br_disposed (foldl (wakeConnection e) w hosts)"
  by (induction hosts arbitrary: w) (simp_all add: wake_conn_way)

lemma wake_way: "each_conn on_its_way w \<Longrightarrow> \<not> br_disposed w \<Longrightarrow> each_conn on_its_way (wake e w)"
  by (simp add: wake_def way_refresh wake_all_way)

lemma note_host_way:
  "each_conn on_its_way (snd s) \<Longrightarrow> \<not> br_disposed (snd s) \<Longrightarrow>
    each_conn on_its_way (snd (note_host e reachable s host)) \<and> \<not> br_disposed (snd (note_host e reachable s host))"
  by (auto simp: note_host_def Let_def wake_conn_way split: option.split intro!: each_conn_kept)
    (auto simp: on_its_way_def conn_sound_def split: option.splits)

lemma note_all_way:
  "each_conn on_its_way (snd s) \<Longrightarrow> \<not> br_disposed (snd s) \<Longrightarrow>
    each_conn on_its_way (snd (foldl (note_host e reachable) s hosts)) \<and> \<not> br_disposed (snd (foldl (note_host e reachable) s hosts))"
proof (induction hosts arbitrary: s)
  case (Cons host hosts)
  then show ?case using note_host_way [of s e reachable host] by simp
qed simp

lemma note_way: "each_conn on_its_way w \<Longrightarrow> \<not> br_disposed w \<Longrightarrow> each_conn on_its_way (noteReachable e hosts w)"
  using note_all_way [of "(False, w)" e hosts "map fst (br_conns w)"]
  by (simp add: noteReachable_def split_beta Let_def way_refresh)

lemma dispose_disposed: "br_disposed (dispose w)"
proof -
  have entries: "br_disposed (foldl (\<lambda>w h. upd_entry h (\<lambda>p. p\<lparr>pe_closed := True\<rparr>) w) v hs) = br_disposed v" for v hs
    by (induction hs arbitrary: v) simp_all
  have "br_disposed (dispose_conn v host) = br_disposed v" for v host
    by (simp add: dispose_conn_def Let_def entries split: option.split)
  then have "br_disposed (foldl dispose_conn v hosts) = br_disposed v" for v hosts
    by (induction hosts arbitrary: v) simp_all
  then show ?thesis by (simp add: dispose_def setStatus_def log_all_def)
qed

lemma disposed_stays: "br_disposed w \<Longrightarrow> br_disposed (page_step w (e, event))"
  by (cases event) (simp_all add: wake_def noteReachable_def dispose_disposed split: option.split)

definition page_ok :: "browser_relay \<Rightarrow> bool" where
  "page_ok w = (br_disposed w \<or> each_conn on_its_way w)"

lemma page_step_way:
  assumes "each_conn on_its_way w" and "\<not> br_disposed w"
  shows "page_ok (page_step w (e, event))"
proof (cases event)
  case Dispose
  then show ?thesis by (simp add: page_ok_def dispose_disposed)
next
  case (SocketGone host)
  have "on_its_way (c\<lparr>hc_socket := map_option (\<lambda>s. s\<lparr>sk_state := Gone\<rparr>) (hc_socket c)\<rparr>)" if "on_its_way c" for c
    using that by (auto simp: on_its_way_def conn_sound_def split: option.splits)
  then show ?thesis using SocketGone assms(1) by (auto simp: page_ok_def intro!: each_conn_kept)
qed (use assms in \<open>auto simp: page_ok_def open_way call_way opened_way receive_way dropped_way' timeout_way retry_fires_way ping_way
    wake_way note_way split: option.split\<close>)

interpretation page: invariant_machine page_step page_ok
proof
  fix w and s :: "page \<times> page_event"
  assume "page_ok w"
  then show "page_ok (page_step w s)"
    using page_step_way [of w "fst s" "snd s"] disposed_stays [of w "fst s" "snd s"] by (auto simp: page_ok_def)
qed

lemma page_ok_new: "page_ok new_browser_relay"
  by (simp add: page_ok_def each_conn_def conn_of_def new_browser_relay_def)

text \<open>
  C15 (\<open>every_pane_is_on_its_way\<close>): whatever happened on the page until it is left, a host with panes on the
  screen has a socket or a retry pending, and never both; a socket that is being dialled has its time
  limit pending, and one that is open its next ping. So no pane waits for something that will not come.
\<close>

theorem every_pane_is_on_its_way:
  assumes "w = run page_step new_browser_relay es" and "\<not> br_disposed w" and "conn_of w host = Some c"
  shows "(hc_panes c = [] \<or> hc_socket c \<noteq> None \<or> hc_retry c \<noteq> None)
    \<and> (case hc_socket c of None \<Rightarrow> True
       | Some s \<Rightarrow> hc_retry c = None
           \<and> (case sk_state s of Dialling \<Rightarrow> hc_connect c = Some (sk_id s) | Live \<Rightarrow> hc_ping c = Some (sk_id s) | Gone \<Rightarrow> True))"
proof -
  have "page_ok w" unfolding assms(1) by (rule page.run_inv [OF page_ok_new])
  then have "on_its_way c" using assms(2,3) each_connD by (auto simp: page_ok_def)
  then show ?thesis by (auto simp: on_its_way_def conn_sound_def split: option.splits ready_state.split)
qed

section \<open>One pane per slot\<close>

definition panes_of :: "browser_relay \<Rightarrow> string \<Rightarrow> (string \<times> nat) list option" where
  "panes_of w host = map_option hc_panes (conn_of w host)"

definition id_of :: "browser_relay \<Rightarrow> nat \<Rightarrow> (string \<times> string \<times> bool) option" where
  "id_of w h = map_option (\<lambda>p. (pe_term p, pe_host p, pe_closed p)) (entry_of w h)"

text \<open>What most of the code leaves alone: which panes there are.\<close>

definition same_panes :: "browser_relay \<Rightarrow> browser_relay \<Rightarrow> bool" where
  "same_panes w w' \<longleftrightarrow> panes_of w' = panes_of w \<and> id_of w' = id_of w \<and> br_next w \<le> br_next w'"

interpretation panes: frame_rule same_panes
  by unfold_locales (auto simp: same_panes_def)

lemma next_frame [simp]:
  "br_next (upd_conn host f w) = br_next w" "br_next (upd_entry h g w) = br_next w" "br_next (log_all effs w) = br_next w"
  "br_next (setStatus s w) = br_next w" "br_next (say h chunk w) = br_next w"
  by (simp_all add: upd_conn_def upd_entry_def log_all_def setStatus_def say_def split: option.split)

lemma same_log: "same_panes w (log_all effs w)" and same_next: "br_next w \<le> n \<Longrightarrow> same_panes w (w\<lparr>br_next := n\<rparr>)"
  by (auto simp: same_panes_def panes_of_def id_of_def)

lemma same_setStatus: "same_panes w (setStatus s w)"
  by (simp add: same_panes_def panes_of_def id_of_def fun_eq_iff)

lemma same_conn: "(\<And>c. hc_panes (f c) = hc_panes c) \<Longrightarrow> same_panes w (upd_conn host f w)"
  by (auto simp: same_panes_def panes_of_def id_of_def fun_eq_iff option.map_comp comp_def)

lemma same_entry:
  "(\<And>p. pe_term (g p) = pe_term p \<and> pe_host (g p) = pe_host p \<and> pe_closed (g p) = pe_closed p) \<Longrightarrow> same_panes w (upd_entry h g w)"
  by (auto simp: same_panes_def panes_of_def id_of_def fun_eq_iff option.map_comp comp_def)

lemma same_say: "same_panes w (say h chunk w)"
  by (auto simp: say_def panes.ok_refl intro: same_log same_entry split: option.split)

lemma same_show: "same_panes w (show_host w hs)"
  by (auto simp: show_host_def panes.ok_refl intro!: panes.ok_trans [OF same_conn same_log] split: option.split)

lemma same_refresh: "same_panes w (refreshStatus w)"
  by (auto simp: refreshStatus_def Let_def intro!: same_setStatus panes.ok_trans [OF panes.ok_foldl same_setStatus] same_show)

lemma same_close: "same_panes w (closeSocket host w)"
  by (auto simp: closeSocket_def panes.ok_refl intro!: panes.ok_trans [OF same_conn same_log] split: option.split)

lemma same_retry: "same_panes w (retry_conn e host w)"
  by (auto simp: retry_conn_def panes.ok_refl intro!: same_conn split: option.split)

lemma same_ensure: "same_panes w (ensureSocket e host w)"
  by (auto simp: ensureSocket_def Let_def panes.ok_refl split: option.split
      intro!: panes.ok_trans [OF same_retry same_refresh]
        panes.ok_trans [OF panes.ok_trans [OF panes.ok_trans [OF same_next same_conn] same_log] same_refresh])

lemma same_lost: "same_panes w (pane_lost e off w h)"
  by (auto simp: pane_lost_def Let_def panes.ok_refl intro!: same_entry panes.ok_trans [OF same_say same_entry] split: option.split)

lemma same_dropped: "same_panes w (dropped e host c w)"
proof -
  have off: "same_panes w (upd_conn host (\<lambda>c. c\<lparr>hc_offline := b\<rparr>) (closeSocket host w))" for b
    by (rule panes.ok_trans [OF same_close same_conn]) simp
  then have lost: "same_panes w (foldl (pane_lost e b) (upd_conn host (\<lambda>c. c\<lparr>hc_offline := b'\<rparr>) (closeSocket host w)) hs)" for b b' hs
    by (rule panes.ok_trans) (rule panes.ok_foldl, rule same_lost)
  show ?thesis
    by (auto simp: dropped_def Let_def panes.ok_refl split: option.split
        intro!: panes.ok_trans [OF off same_refresh] panes.ok_trans [OF lost same_refresh] panes.ok_trans [OF panes.ok_trans [OF lost same_retry] same_refresh])
qed

lemma same_send: "same_panes w (send_frame e host frame w)"
  by (auto simp: send_frame_def panes.ok_refl intro!: same_ensure same_log same_dropped split: option.split)

lemma same_sendOpen: "same_panes w (sendOpen e host w h)"
  by (auto simp: sendOpen_def panes.ok_refl intro!: same_send split: option.split)

lemma same_attached: "same_panes w (attached_pane e host h w)"
proof -
  have "same_panes v (refreshStatus (upd_conn host (\<lambda>c. c\<lparr>hc_attempts := 0, hc_offline := False\<rparr>)
      (upd_entry h (\<lambda>p. p\<lparr>pe_started := True, pe_attached := True, pe_offline := False\<rparr>) v)))" for v
    by (intro panes.ok_trans [OF panes.ok_trans [OF same_entry same_conn] same_refresh]) simp_all
  then show ?thesis
    by (auto simp: attached_pane_def Let_def panes.ok_refl intro: panes.ok_trans [OF same_say] split: option.split)
qed

text \<open>
  The panes a connection lists are exactly the handles that were not released, each under its own slot
  and host, and no two handles that were not released share a slot.
\<close>

definition listed :: "browser_relay \<Rightarrow> nat \<Rightarrow> string \<Rightarrow> string \<Rightarrow> bool" where
  "listed w h term host = (\<exists>ps. panes_of w host = Some ps \<and> map_of ps term = Some h)"

definition slots_ok :: "browser_relay \<Rightarrow> bool" where
  "slots_ok w \<longleftrightarrow> (\<forall>h term host. listed w h term host \<longleftrightarrow> id_of w h = Some (term, host, False))
     \<and> (\<forall>h h' term host host'. id_of w h = Some (term, host, False) \<longrightarrow> id_of w h' = Some (term, host', False) \<longrightarrow> h = h')
     \<and> (\<forall>h. br_next w \<le> h \<longrightarrow> id_of w h = None)
     \<and> (\<forall>host ps. panes_of w host = Some ps \<longrightarrow> distinct (map fst ps))"

lemma slots_listed: "slots_ok w \<Longrightarrow> listed w h term host \<longleftrightarrow> id_of w h = Some (term, host, False)"
  and slots_one: "slots_ok w \<Longrightarrow> id_of w h = Some (term, host, False) \<Longrightarrow> id_of w h' = Some (term, host', False) \<Longrightarrow> h = h'"
  and slots_fresh: "slots_ok w \<Longrightarrow> br_next w \<le> h \<Longrightarrow> id_of w h = None"
  and slots_distinct: "slots_ok w \<Longrightarrow> panes_of w host = Some ps \<Longrightarrow> distinct (map fst ps)"
  unfolding slots_ok_def by blast+

lemma slots_okI:
  assumes "\<And>h term host. listed w h term host \<longleftrightarrow> id_of w h = Some (term, host, False)"
    and "\<And>h h' term host host'. id_of w h = Some (term, host, False) \<Longrightarrow> id_of w h' = Some (term, host', False) \<Longrightarrow> h = h'"
    and "\<And>h. br_next w \<le> h \<Longrightarrow> id_of w h = None" and "\<And>host ps. panes_of w host = Some ps \<Longrightarrow> distinct (map fst ps)"
  shows "slots_ok w"
  using assms unfolding slots_ok_def by blast

lemma same_slots: "same_panes w w' \<Longrightarrow> slots_ok w \<Longrightarrow> slots_ok w'"
  by (auto simp: same_panes_def slots_ok_def listed_def)

text \<open>Releasing takes one handle off the lists.\<close>

lemma panes_of_upd: "panes_of (upd_conn host f w) k = (if k = host then map_option (\<lambda>c. hc_panes (f c)) (conn_of w k) else panes_of w k)"
  by (simp add: panes_of_def option.map_comp comp_def)

lemma id_of_upd: "id_of (upd_entry h g w) k = (if k = h then map_option (\<lambda>p. (pe_term (g p), pe_host (g p), pe_closed (g p))) (entry_of w k)
    else id_of w k)"
  by (simp add: id_of_def option.map_comp comp_def)

lemma freed_slots:
  assumes ok: "slots_ok w" and p: "id_of w h = Some (term, host, False)"
    and nxt: "br_next w \<le> br_next w'"
    and panes': "\<And>k. panes_of w' k = (if k = host then map_option (AList.delete term) (panes_of w k) else panes_of w k)"
    and ids': "\<And>k. id_of w' k = (if k = h then Some (term, host, True) else id_of w k)"
  shows "slots_ok w'"
proof -
  from ok p have "listed w h term host" by (simp add: slots_listed)
  then obtain ps where ps: "panes_of w host = Some ps" "map_of ps term = Some h" by (auto simp: listed_def)
  have was: "id_of w k = Some (t, k', False)" if "id_of w' k = Some (t, k', False)" for k t k'
    using that by (auto simp: ids' split: if_splits)
  show ?thesis
  proof (rule slots_okI)
    fix k t host'
    have "listed w' k t host' \<longleftrightarrow> listed w k t host' \<and> \<not> (host' = host \<and> t = term)"
      using ps by (auto simp: listed_def panes' AList.delete_conv')
    moreover have "\<not> (host' = host \<and> t = term)" if "id_of w' k = Some (t, host', False)"
    proof
      assume same: "host' = host \<and> t = term"
      then have "listed w k term host" using was [OF that] slots_listed [OF ok] by simp
      then show False using ps that same by (auto simp: listed_def ids')
    qed
    moreover have "id_of w' k = id_of w k" if "id_of w k = Some (t, host', False)" "\<not> (host' = host \<and> t = term)"
      using that p by (auto simp: ids')
    ultimately show "listed w' k t host' \<longleftrightarrow> id_of w' k = Some (t, host', False)"
      using was slots_listed [OF ok] by metis
  next
    show "k = k'" if "id_of w' k = Some (t, a, False)" "id_of w' k' = Some (t, b, False)" for k k' t a b
      using slots_one [OF ok was [OF that(1)] was [OF that(2)]] .
  next
    show "id_of w' k = None" if "br_next w' \<le> k" for k
      using slots_fresh [OF ok, of k] that nxt p by (auto simp: ids')
  next
    show "distinct (map fst qs)" if "panes_of w' k = Some qs" for k qs
      using that slots_distinct [OF ok] by (auto simp: panes' distinct_delete split: if_splits)
  qed
qed

lemma release_slots:
  assumes "slots_ok w" and "id_of w h = Some (term, host, False)"
  shows "slots_ok (release_pane host h c w)"
proof -
  obtain p where p: "entry_of w h = Some p" "pe_term p = term" "pe_host p = host" using assms(2) by (auto simp: id_of_def)
  let ?v = "upd_entry h (\<lambda>p. p\<lparr>pe_closed := True, pe_data := [], pe_exit := []\<rparr>)
    (upd_conn host (\<lambda>c. c\<lparr>hc_panes := AList.delete (pe_term p) (hc_panes c)\<rparr>) w)"
  have "slots_ok ?v"
  proof (rule freed_slots [OF assms])
    show "panes_of ?v k = (if k = host then map_option (AList.delete term) (panes_of w k) else panes_of w k)" for k
      using p by (simp add: panes_of_def option.map_comp comp_def)
    show "id_of ?v k = (if k = h then Some (term, host, True) else id_of w k)" for k
      using p by (simp add: id_of_upd) (simp add: id_of_def)
  qed simp
  then have "slots_ok (refreshStatus (log_all effs ?v))" for effs
    by (rule same_slots [OF panes.ok_trans [OF same_log same_refresh]])
  then show ?thesis using p(1) by (simp add: release_pane_def)
qed

lemma gone_slots: "id_of w h = None \<Longrightarrow> release_pane host h c w = w"
  by (simp add: release_pane_def id_of_def)

lemma listed_id: "slots_ok w \<Longrightarrow> conn_of w host = Some c \<Longrightarrow> map_of (hc_panes c) term = Some h \<Longrightarrow> id_of w h = Some (term, host, False)"
  using slots_listed [of w h "term" host] by (auto simp: listed_def panes_of_def)

lemma release_term_slots: "slots_ok w \<Longrightarrow> slots_ok (release_term term w host)"
  by (auto simp: release_term_def intro: release_slots listed_id split: option.split)

lemma release_all_slots: "slots_ok w \<Longrightarrow> slots_ok (foldl (release_term term) w hosts)"
  by (induction hosts arbitrary: w) (simp_all add: release_term_slots)

lemma call_slots:
  assumes ok: "slots_ok w" and p: "entry_of w h = Some p"
  shows "slots_ok (call_pane e h p call w)"
proof (cases "call = ClosePane")
  case True
  show ?thesis
  proof (cases "pe_closed p")
    case True
    then show ?thesis using \<open>call = ClosePane\<close> ok by simp
  next
    case False
    let ?v1 = "upd_entry h (\<lambda>p. p\<lparr>pe_closed := True\<rparr>) w"
    let ?v2 = "send_frame e (pe_host p) (CloseTerm (pe_term p)) ?v1"
    let ?v = "upd_conn (pe_host p) (\<lambda>c. c\<lparr>hc_panes := AList.delete (pe_term p) (hc_panes c)\<rparr>) ?v2"
    have same: "panes_of ?v2 = panes_of ?v1" "id_of ?v2 = id_of ?v1" "br_next ?v1 \<le> br_next ?v2"
      using same_send [of ?v1] by (simp_all add: same_panes_def)
    have "slots_ok ?v"
    proof (rule freed_slots [OF ok])
      show "id_of w h = Some (pe_term p, pe_host p, False)" using p False by (simp add: id_of_def)
      show "br_next w \<le> br_next ?v" using same(3) by simp
      show "panes_of ?v k = (if k = pe_host p then map_option (AList.delete (pe_term p)) (panes_of w k) else panes_of w k)" for k
      proof -
        have "panes_of ?v k = (if k = pe_host p then map_option (AList.delete (pe_term p)) (panes_of ?v2 k) else panes_of ?v2 k)"
          by (simp add: panes_of_def option.map_comp comp_def)
        then show ?thesis by (simp add: same(1)) (simp add: panes_of_def)
      qed
      show "id_of ?v k = (if k = h then Some (pe_term p, pe_host p, True) else id_of w k)" for k
      proof -
        have "id_of ?v k = id_of ?v2 k" by (simp add: id_of_def)
        then show ?thesis using p by (simp add: same(2) id_of_upd)
      qed
    qed
    then have "slots_ok (refreshStatus ?v)" by (rule same_slots [OF same_refresh])
    then show ?thesis using True False by simp
  qed
next
  case False
  then have "same_panes w (call_pane e h p call w)"
    by (cases call) (auto intro!: same_send panes.ok_refl same_entry panes.ok_trans [OF same_entry same_log] panes.ok_trans [OF same_entry same_send])
  then show ?thesis using ok by (rule same_slots)
qed

lemma panes_of_release: "entry_of w h = Some p \<Longrightarrow>
    panes_of (release_pane host h c w) k = (if k = host then map_option (AList.delete (pe_term p)) (panes_of w k) else panes_of w k)"
proof -
  assume p: "entry_of w h = Some p"
  let ?v = "upd_entry h (\<lambda>p. p\<lparr>pe_closed := True, pe_data := [], pe_exit := []\<rparr>)
    (upd_conn host (\<lambda>c. c\<lparr>hc_panes := AList.delete (pe_term p) (hc_panes c)\<rparr>) w)"
  have "panes_of (refreshStatus (log_all effs ?v)) = panes_of ?v" for effs
    using panes.ok_trans [OF same_log same_refresh] by (simp add: same_panes_def)
  then show ?thesis using p by (simp add: release_pane_def) (simp add: panes_of_def option.map_comp comp_def)
qed

text \<open>After \<open>releaseByTermId\<close> no connection lists the slot.\<close>

lemma release_term_listed:
  assumes "slots_ok w" and "listed (release_term term w host) h t k"
  shows "listed w h t k \<and> \<not> (host = k \<and> t = term)"
proof (cases "conn_of w host")
  case None
  then show ?thesis using assms(2) by (auto simp: release_term_def listed_def panes_of_def)
next
  case (Some c)
  show ?thesis
  proof (cases "map_of (hc_panes c) term")
    case None
    then show ?thesis using assms(2) Some by (auto simp: release_term_def listed_def panes_of_def)
  next
    case (Some h')
    obtain p where "entry_of w h' = Some p" "pe_term p = term"
      using listed_id [OF assms(1) \<open>conn_of w host = Some c\<close> Some] by (auto simp: id_of_def)
    then show ?thesis using assms(2) Some \<open>conn_of w host = Some c\<close>
      by (auto simp: release_term_def listed_def panes_of_release AList.delete_conv' split: if_splits)
  qed
qed

lemma release_all_listed:
  "slots_ok w \<Longrightarrow> listed (foldl (release_term term) w hosts) h t k \<Longrightarrow> listed w h t k \<and> \<not> (k \<in> set hosts \<and> t = term)"
proof (induction hosts arbitrary: w)
  case (Cons host hosts)
  then show ?case using release_term_listed [OF Cons.prems(1)] release_term_slots [OF Cons.prems(1)] by fastforce
qed simp

lemma releaseByTermId_frees:
  assumes "slots_ok w" shows "slots_ok (releaseByTermId term w)" and "\<not> listed (releaseByTermId term w) h term k"
proof -
  show "slots_ok (releaseByTermId term w)" using assms by (simp add: releaseByTermId_def release_all_slots)
  show "\<not> listed (releaseByTermId term w) h term k"
  proof
    assume "listed (releaseByTermId term w) h term k"
    then have "listed w h term k" "k \<notin> set (map fst (br_conns w))"
      using release_all_listed [OF assms] unfolding releaseByTermId_def by blast+
    then show False by (auto simp: listed_def panes_of_def conn_of_def dest!: map_of_SomeD) (metis fst_conv image_eqI)
  qed
qed

lemma connectionFor_slots: "slots_ok w \<Longrightarrow> slots_ok (connectionFor host w)"
proof -
  assume ok: "slots_ok w"
  have panes: "panes_of (connectionFor host w) k = (if k = host \<and> panes_of w k = None then Some [] else panes_of w k)" for k
    by (auto simp: panes_of_def conn_of_connectionFor new_conn_def)
  have "id_of (connectionFor host w) = id_of w" "br_next (connectionFor host w) = br_next w"
    by (auto simp: connectionFor_def id_of_def entry_of_def fun_eq_iff split: option.split)
  moreover have "listed (connectionFor host w) h t k = listed w h t k" for h t k
    by (auto simp: listed_def panes split: if_splits)
  ultimately show ?thesis using ok
    by (intro slots_okI) (auto simp: panes slots_listed slots_fresh slots_distinct split: if_splits dest: slots_one)
qed

lemma open_slots:
  assumes "slots_ok w" shows "slots_ok (open_pane e term host t w)"
proof -
  define w1 where "w1 = connectionFor host (releaseByTermId term w)"
  define h where "h = br_next w1"
  define w2 where "w2 = upd_conn host (\<lambda>c. c\<lparr>hc_panes := AList.update term h (hc_panes c)\<rparr>)
      (w1\<lparr>br_entries := (h, new_entry term host t) # br_entries w1, br_next := Suc h\<rparr>)"
  have ok: "slots_ok w1" unfolding w1_def by (rule connectionFor_slots [OF releaseByTermId_frees(1) [OF assms]])
  have free: "\<not> listed w1 k term g" for k g
  proof
    assume "listed w1 k term g"
    then have "listed (releaseByTermId term w) k term g"
      by (auto simp: w1_def listed_def panes_of_def conn_of_connectionFor new_conn_def split: if_splits)
    then show False using releaseByTermId_frees(2) [OF assms] by blast
  qed
  obtain c1 where c1: "conn_of w1 host = Some c1" by (cases "conn_of (releaseByTermId term w) host") (auto simp: w1_def conn_of_connectionFor)
  have conn: "conn_of w2 k = (if k = host then Some (c1\<lparr>hc_panes := AList.update term h (hc_panes c1)\<rparr>) else conn_of w1 k)" for k
    using c1 by (auto simp: w2_def conn_of_def upd_conn_def AList.map_of_map_entry)
  have ids: "id_of w2 k = (if k = h then Some (term, host, False) else id_of w1 k)" for k
    by (simp add: w2_def id_of_def entry_of_def upd_conn_def new_entry_def)
  have listed2: "listed w2 k s g \<longleftrightarrow> (k = h \<and> s = term \<and> g = host) \<or> listed w1 k s g" for k s g
    using free [of k g] c1 by (auto simp: listed_def panes_of_def conn update_conv' split: if_splits)
  have fresh: "id_of w1 h = None" using slots_fresh [OF ok, of h] by (simp add: h_def)
  have "slots_ok w2"
  proof (rule slots_okI)
    show "listed w2 k s g \<longleftrightarrow> id_of w2 k = Some (s, g, False)" for k s g
      using slots_listed [OF ok] fresh by (auto simp: listed2 ids)
    show "k = k'" if "id_of w2 k = Some (s, g, False)" "id_of w2 k' = Some (s, g', False)" for k k' s g g'
      using that slots_one [OF ok] free slots_listed [OF ok] by (auto simp: ids split: if_splits)
    show "id_of w2 k = None" if "br_next w2 \<le> k" for k
    proof -
      have "br_next w2 = Suc h" by (simp add: w2_def)
      then show ?thesis using that slots_fresh [OF ok, of k] by (simp add: ids flip: h_def)
    qed
    show "distinct (map fst ps)" if "panes_of w2 g = Some ps" for g ps
      using that c1 slots_distinct [OF ok, of g] by (auto simp: panes_of_def conn distinct_update split: if_splits)
  qed
  moreover have "same_panes w2 (sendOpen e host (ensureSocket e host w2) h)" by (rule panes.ok_trans [OF same_ensure same_sendOpen])
  ultimately show ?thesis unfolding open_pane_def Let_def by (simp add: same_slots flip: w1_def h_def w2_def)
qed

lemma same_ready: "same_panes w (upd_entry h (ready_entry r) w)"
  by (rule same_entry) (simp add: ready_entry_def Let_def)

lemma receives_slots:
  assumes ok: "slots_ok w" and p: "id_of w h = Some (term, host, False)"
  shows "slots_ok (pane_receives e host h p frame w)"
proof (cases frame)
  case (Ready t r)
  then show ?thesis
    using same_slots [OF panes.ok_trans [OF panes.ok_trans [OF same_ready same_log] same_attached] ok] by simp
next
  case (Screen t s)
  have "same_panes (attached_pane e host h w) (say h (sc_data s) (log_all effs
      (upd_entry h (\<lambda>p. p\<lparr>pe_viewport := Some s\<rparr>) (attached_pane e host h w))))" for effs
    by (rule panes.ok_trans [OF panes.ok_trans [OF same_entry same_log] same_say]) simp
  then show ?thesis unfolding Screen pane_receives.simps by (rule same_slots [OF panes.ok_trans [OF same_attached] ok])
next
  case (Output t d n)
  have "same_panes v (say h d (if b then say h x v else v))" for v b x
    by (cases b) (simp_all add: same_say panes.ok_trans [OF same_say same_say])
  then have "same_panes w (say h d (if b then say h x (attached_pane e host h w) else attached_pane e host h w))" for b x
    by (rule panes.ok_trans [OF same_attached])
  then show ?thesis unfolding Output pane_receives.simps Let_def by (rule same_slots) (rule ok)
next
  case (Exit t c)
  then show ?thesis using release_slots [OF assms] by simp
next
  case (ErrorFrame t m)
  have "same_panes w (say h x w)" "same_panes w (log_all effs (upd_entry h (\<lambda>p. p\<lparr>pe_missing := True\<rparr>) (say h x w)))" for x effs
    by (auto intro!: same_say panes.ok_trans [OF panes.ok_trans [OF same_say same_entry] same_log])
  moreover have "slots_ok (release_pane host h None w')" if "same_panes w w'" for w'
    using release_slots [OF same_slots [OF that ok], of h "term" host] that p by (simp add: same_panes_def)
  ultimately show ?thesis using ErrorFrame by (simp add: Let_def)
qed (use ok in simp)

lemma receive_slots:
  assumes "slots_ok w" shows "slots_ok (receive e host payload w)"
proof -
  let ?w0 = "upd_conn host (\<lambda>c. c\<lparr>hc_inbound := pg_now e\<rparr>) w"
  have ok: "slots_ok ?w0" by (rule same_slots [OF same_conn assms]) simp
  have pong: "slots_ok (upd_conn host (\<lambda>c. c\<lparr>hc_pong := True\<rparr>) ?w0)" by (rule same_slots [OF same_conn ok]) simp
  have "slots_ok (pane_receives e host h p frame ?w0)"
    if "conn_of ?w0 host = Some c" "map_of (hc_panes c) t = Some h" for c t h p frame
    by (rule receives_slots [OF ok listed_id [OF ok that]])
  then show ?thesis using ok pong unfolding receive_def Let_def
    by (simp split: option.split sum.split)
qed

lemma same_wakeConnection: "same_panes w (wakeConnection e w host)"
  by (auto simp: wakeConnection_def panes.ok_refl intro!: panes.ok_trans [OF same_conn same_ensure] split: option.split)

lemma same_opened: "same_panes w (socket_opened e host w)"
proof -
  have reopened: "same_panes v (refreshStatus (foldl (sendOpen e host) v hs))" for v hs
    by (rule panes.ok_trans [OF panes.ok_foldl same_refresh]) (rule same_sendOpen)
  have "same_panes w (refreshStatus (foldl (sendOpen e host) (upd_conn host f w) hs))" if "\<And>c. hc_panes (f c) = hc_panes c" for f hs
    by (rule panes.ok_trans [OF same_conn [OF that] reopened])
  then show ?thesis unfolding socket_opened_def Let_def by (simp add: panes.ok_refl split: option.split)
qed

lemma same_ping: "same_panes w (ping_tick e host w)"
proof -
  let ?w1 = "upd_conn host (\<lambda>c. c\<lparr>hc_ping := None\<rparr>) w"
  have quiet: "same_panes w ?w1" by (rule same_conn) simp
  have lost: "same_panes w (dropped e host None ?w1)" by (rule panes.ok_trans [OF quiet same_dropped])
  have again: "same_panes w (upd_conn host (\<lambda>c. c\<lparr>hc_ping := Some n\<rparr>) (log_all effs ?w1))" for n effs
    by (rule panes.ok_trans [OF panes.ok_trans [OF quiet same_log] same_conn]) simp
  show ?thesis unfolding ping_tick_def Let_def
    by (simp add: quiet lost again panes.ok_refl split: option.split)
qed

lemma same_note: "same_panes (snd s) (snd (note_host e reachable s host))"
proof -
  have seen: "same_panes v (upd_conn host (\<lambda>c. c\<lparr>hc_reachable := r\<rparr>) v)" for v r by (rule same_conn) simp
  then have "same_panes v (upd_conn host (\<lambda>c. c\<lparr>hc_reachable := r\<rparr>) (wakeConnection e v host))" for v r
    by (rule panes.ok_trans [OF same_wakeConnection])
  then have "same_panes v (upd_conn host (\<lambda>c. c\<lparr>hc_reachable := r\<rparr>) (if b then wakeConnection e v host else v))" for v r b
    using seen by (cases b) auto
  then show ?thesis by (cases "conn_of (snd s) host") (simp_all only: note_host_def Let_def option.case snd_conv panes.ok_refl)
qed

lemma same_notes: "same_panes (snd s) (snd (foldl (note_host e reachable) s hosts))"
proof (induction hosts arbitrary: s)
  case (Cons host hosts)
  show ?case using panes.ok_trans [OF same_note Cons] by simp
qed (simp add: panes.ok_refl)

lemma same_noteReachable: "same_panes w (noteReachable e hosts w)"
  using same_notes [of "(False, w)" e hosts "map fst (br_conns w)"]
  by (auto simp: noteReachable_def Let_def split_beta panes.ok_refl intro: panes.ok_trans [OF _ same_refresh])

definition page_slots :: "browser_relay \<Rightarrow> bool" where
  "page_slots w = (br_disposed w \<or> slots_ok w)"

lemma page_step_slots:
  assumes "slots_ok w" shows "page_slots (page_step w (e, event))"
proof (cases event)
  case Dispose
  then show ?thesis by (simp add: page_slots_def dispose_disposed)
next
  case (CallPane h call)
  then show ?thesis using call_slots [OF assms] assms by (auto simp: page_slots_def split: option.split)
next
  case Wake
  have "same_panes w (wake e w)"
    by (auto simp: wake_def panes.ok_refl intro!: panes.ok_trans [OF panes.ok_foldl same_refresh] same_wakeConnection)
  then show ?thesis using assms Wake by (auto simp: page_slots_def intro: same_slots)
next
  case (ConnectTimeout host)
  have "same_panes w (connect_timeout e host w)"
    by (auto simp: connect_timeout_def panes.ok_refl intro!: same_dropped split: option.split)
  then show ?thesis using assms ConnectTimeout by (auto simp: page_slots_def intro: same_slots)
next
  case (RetryFires host)
  have "same_panes w (retry_fires e host w)"
    by (auto simp: retry_fires_def panes.ok_refl intro!: panes.ok_trans [OF same_conn same_ensure] split: option.split)
  then show ?thesis using assms RetryFires by (auto simp: page_slots_def intro: same_slots)
qed (use assms in \<open>auto simp: page_slots_def open_slots receive_slots
    intro: same_slots [OF same_opened] same_slots [OF same_dropped] same_slots [OF same_ping] same_slots [OF same_noteReachable]
      same_slots [OF same_conn]\<close>)

interpretation slots: invariant_machine page_step page_slots
proof
  fix w and s :: "page \<times> page_event"
  assume "page_slots w"
  then show "page_slots (page_step w s)"
    using page_step_slots [of w "fst s" "snd s"] disposed_stays [of w "fst s" "snd s"] by (auto simp: page_slots_def)
qed

lemma page_slots_new: "page_slots new_browser_relay"
  by (auto simp: page_slots_def slots_ok_def listed_def panes_of_def id_of_def conn_of_def entry_of_def new_browser_relay_def)

section \<open>The properties\<close>

text \<open>
  C16 (\<open>one_pane_per_slot\<close>): whatever the page did until it is left, re-targeting panes onto other hosts
  included, at most one handle of a slot was not released, and it is the pane its host's connection
  lists under the slot: the frames of a host reach the pane that was opened last.
\<close>

theorem one_pane_per_slot:
  assumes "w = run page_step new_browser_relay es" and "\<not> br_disposed w"
    and "entry_of w h = Some p" and "\<not> pe_closed p"
    and "entry_of w h' = Some p'" and "\<not> pe_closed p'" and "pe_term p' = pe_term p"
  shows "h' = h \<and> (\<exists>c. conn_of w (pe_host p) = Some c \<and> map_of (hc_panes c) (pe_term p) = Some h)"
proof -
  have "page_slots w" unfolding assms(1) by (rule slots.run_inv [OF page_slots_new])
  then have ok: "slots_ok w" using assms(2) by (simp add: page_slots_def)
  have h: "id_of w h = Some (pe_term p, pe_host p, False)" "id_of w h' = Some (pe_term p, pe_host p', False)"
    using assms(3-7) by (simp_all add: id_of_def)
  moreover have "listed w h (pe_term p) (pe_host p)" using h(1) slots_listed [OF ok] by simp
  ultimately show ?thesis using slots_one [OF ok] by (auto simp: listed_def panes_of_def)
qed

fun is_shown :: "client_effect \<Rightarrow> bool" where
  "is_shown (ShowStatus _) = True"
| "is_shown (ShowHost _ _) = True"
| "is_shown _ = False"

lemma log_log [simp]: "br_log (log_all effs w) = br_log w @ effs"
  by (simp add: log_all_def)

lemma upd_log [simp]: "br_log (upd_conn host f w) = br_log w" "br_log (upd_entry h g w) = br_log w"
  by (simp_all add: upd_conn_def upd_entry_def)

lemma setStatus_log: "\<exists>shown. br_log (setStatus s w) = br_log w @ shown \<and> list_all is_shown shown"
  by (cases "br_status w = s") (simp_all add: setStatus_def)

lemma show_one_log: "\<exists>shown. br_log (show_host w hs) = br_log w @ shown \<and> list_all is_shown shown"
proof (cases "conn_of w (fst hs)")
  case (Some c)
  then show ?thesis by (cases "hc_status c = snd hs") (simp_all add: show_host_def)
qed (simp add: show_host_def)

lemma show_log: "\<exists>shown. br_log (foldl show_host w ss) = br_log w @ shown \<and> list_all is_shown shown"
proof (induction ss arbitrary: w)
  case (Cons hs ss)
  obtain shown where "br_log (foldl show_host (show_host w hs) ss) = br_log (show_host w hs) @ shown" "list_all is_shown shown"
    using Cons by blast
  moreover obtain shown' where "br_log (show_host w hs) = br_log w @ shown'" "list_all is_shown shown'"
    using show_one_log by blast
  ultimately show ?case by (intro exI [of _ "shown' @ shown"]) simp
qed simp

lemma refresh_log: "\<exists>shown. br_log (refreshStatus w) = br_log w @ shown \<and> list_all is_shown shown"
proof (cases "br_disposed w")
  case True
  then show ?thesis using setStatus_log by (simp add: refreshStatus_def)
next
  case False
  obtain a where a: "br_log (foldl show_host w (host_statuses w)) = br_log w @ a" "list_all is_shown a" using show_log by blast
  obtain b where b: "br_log (setStatus (worst (map snd (host_statuses w))) (foldl show_host w (host_statuses w)))
      = br_log (foldl show_host w (host_statuses w)) @ b" "list_all is_shown b"
    using setStatus_log by blast
  show ?thesis using a b False by (intro exI [of _ "a @ b"]) (simp add: refreshStatus_def Let_def)
qed

lemma opens_log:
  assumes "conn_of w host = Some c" and "hc_socket c = Some s" and "sk_state s = Live" and "\<And>log. pg_send e (sk_id s) log"
    and "list_all (\<lambda>(t, h). \<exists>p. entry_of w h = Some p \<and> pe_term p = t) ps"
  shows "br_log (foldl (sendOpen e host) w (map snd ps))
    = br_log w @ map (\<lambda>(t, h). SendFrame (sk_id s) (Open t (open_target (pe_target (the (entry_of w h)))))) ps"
  using assms
proof (induction ps arbitrary: w)
  case (Cons th ps)
  obtain t h where th: "th = (t, h)" by (cases th)
  from Cons.prems(5) obtain p where p: "entry_of w h = Some p" "pe_term p = t" by (auto simp: th)
  have step: "sendOpen e host w h = log_all [SendFrame (sk_id s) (Open t (open_target (pe_target p)))] w"
    using Cons.prems(1-4) p by (simp add: sendOpen_def send_frame_def)
  have rest: "list_all (\<lambda>(t, h). \<exists>p. entry_of (sendOpen e host w (snd th)) h = Some p \<and> pe_term p = t) ps"
    using Cons.prems(5) by (simp add: step th)
  have "br_log (foldl (sendOpen e host) (sendOpen e host w (snd th)) (map snd ps)) = br_log (sendOpen e host w (snd th))
      @ map (\<lambda>(t, h). SendFrame (sk_id s) (Open t (open_target (pe_target (the (entry_of (sendOpen e host w (snd th)) h)))))) ps"
    by (rule Cons.IH [OF _ Cons.prems(2,3,4) rest]) (use Cons.prems(1) in \<open>simp add: step th\<close>)
  then show ?case using p(1) by (simp add: step th)
qed simp

text \<open>
  C17 (\<open>a_new_socket_opens_every_pane\<close>): when a socket that was dialled opens and takes what is written to
  it, every pane of its host is opened on it again, once, in the order of the screen, under its slot and
  with the session it holds by now; nothing else is sent before.
\<close>

theorem a_new_socket_opens_every_pane:
  assumes "w = run page_step new_browser_relay es" and "\<not> br_disposed w" and "conn_of w host = Some c"
    and "hc_socket c = Some s" and "sk_state s = Dialling" and "\<And>log. pg_send e (sk_id s) log"
  shows "\<exists>shown. br_log (page_step w (e, SocketOpened host)) = br_log w
      @ map (\<lambda>(t, h). SendFrame (sk_id s) (Open t (open_target (pe_target (the (entry_of w h)))))) (hc_panes c) @ shown
    \<and> list_all is_shown shown"
proof -
  have "page_slots w" unfolding assms(1) by (rule slots.run_inv [OF page_slots_new])
  then have ok: "slots_ok w" using assms(2) by (simp add: page_slots_def)
  have "distinct (map fst (hc_panes c))" using slots_distinct [OF ok, of host] assms(3) by (simp add: panes_of_def)
  then have there: "list_all (\<lambda>(t, h). \<exists>p. entry_of w h = Some p \<and> pe_term p = t) (hc_panes c)"
    using listed_id [OF ok assms(3) map_of_is_SomeI] by (fastforce simp: list_all_iff id_of_def)
  let ?w1 = "upd_conn host (\<lambda>c. c\<lparr>hc_socket := Some (s\<lparr>sk_state := Live\<rparr>), hc_connect := None, hc_had := True,
    hc_inbound := pg_now e, hc_pong := False, hc_ping := Some (sk_id s)\<rparr>) w"
  obtain shown where "br_log (refreshStatus (foldl (sendOpen e host) ?w1 (map snd (hc_panes c))))
      = br_log (foldl (sendOpen e host) ?w1 (map snd (hc_panes c))) @ shown" "list_all is_shown shown"
    using refresh_log by blast
  moreover have "br_log (foldl (sendOpen e host) ?w1 (map snd (hc_panes c))) = br_log ?w1
      @ map (\<lambda>(t, h). SendFrame (sk_id (s\<lparr>sk_state := Live\<rparr>)) (Open t (open_target (pe_target (the (entry_of ?w1 h)))))) (hc_panes c)"
    by (rule opens_log [where c = "c\<lparr>hc_socket := Some (s\<lparr>sk_state := Live\<rparr>), hc_connect := None, hc_had := True,
      hc_inbound := pg_now e, hc_pong := False, hc_ping := Some (sk_id s)\<rparr>"]) (use assms there in simp_all)
  ultimately show ?thesis using assms(3-5) by (simp add: socket_opened_def Let_def)
qed

text \<open>
  C18 (\<open>both_ends_hold_the_same_session\<close>): the browser and the server's relay each remember from the
  \<open>ready\<close> frames of a terminal which session it holds, in code of their own. After any frames, what the
  browser asks for when it opens the pane again is what the relay asks the agent for.
\<close>

theorem both_ends_hold_the_same_session:
  "open_target (pe_target (fold ready_entry rs p)) = fold ready_target rs (open_target (pe_target p))"
proof (induction rs arbitrary: p)
  case (Cons r rs)
  have "open_target (pe_target (ready_entry r p)) = ready_target r (open_target (pe_target p))"
    by (simp add: open_target_def ready_entry_def ready_target_def Let_def)
  then show ?case using Cons by simp
qed simp

text \<open>
  The delay before a dial is between 0.35 and 10.4 seconds, at most
  650 milliseconds after the first loss, and at least 5.6 seconds from the fifth attempt on, however many
  attempts failed and whatever the jitter draws.
\<close>

theorem retries_stay_within_bounds:
  assumes "0 \<le> r" and "r \<le> 1"
  shows "350 \<le> retry_delay n r \<and> retry_delay n r \<le> 10400 \<and> retry_delay n r \<le> 650 * 2 ^ n
    \<and> (n < 4 \<or> 5600 \<le> retry_delay n r)"
proof -
  let ?b = "min RETRY_MAX_MS (RETRY_BASE_MS * 2 ^ n) :: rat"
  let ?f = "7 / 10 + r * (6 / 10)"
  have f: "7 / 10 \<le> ?f" "?f \<le> 13 / 10" using assms by auto
  have pow: "(1::rat) \<le> 2 ^ n" by simp
  have b: "500 \<le> ?b" "?b \<le> 8000" "?b \<le> 500 * 2 ^ n" using pow by (auto simp: RETRY_MAX_MS_def RETRY_BASE_MS_def)
  have low: "k * (7 / 10) \<le> ?b * ?f" if "k \<le> ?b" "0 \<le> k" for k
    using mult_mono [OF that(1) f(1)] b(1) that(2) by simp
  have high: "?b * ?f \<le> k * (13 / 10)" if "?b \<le> k" for k using mult_mono [OF that f(2)] b(1) f(1) that by simp
  have round_ge: "k \<le> js_round q" if "of_int k \<le> q" for k q using that by (simp add: js_round_def le_floor_iff)
  have round_le: "js_round q \<le> k" if "q \<le> of_int k" for k q
    using that by (simp add: js_round_def floor_le_iff)
  have "350 \<le> retry_delay n r" using low [of 500] b(1) by (auto simp: retry_delay_def intro: round_ge)
  moreover have "retry_delay n r \<le> 10400" using high [of 8000] b(2) by (auto simp: retry_delay_def intro: round_le)
  moreover have "retry_delay n r \<le> 650 * 2 ^ n" using high [OF b(3)] by (auto simp: retry_delay_def intro!: round_le)
  moreover have "5600 \<le> retry_delay n r" if "4 \<le> n"
  proof -
    have "(2::rat) ^ 4 \<le> 2 ^ n" using that by (rule power_increasing) simp
    then have "8000 \<le> ?b" by (simp add: RETRY_MAX_MS_def RETRY_BASE_MS_def)
    then show ?thesis using low [of 8000] by (auto simp: retry_delay_def intro: round_ge)
  qed
  ultimately show ?thesis by linarith
qed

section \<open>A page that loses its relay\<close>

definition example_page :: page where
  "example_page = \<lparr>pg_dial = True, pg_send = (\<lambda>_ _. True), pg_now = 0, pg_random = 1 / 2,
     pg_words = \<lparr>wd_reconnecting = ''reconnecting'', wd_hostOffline = ''offline'', wd_restored = ''back'', wd_dropped = (\<lambda>_. ''dropped''),
       wd_failed = (\<lambda>m. m), wd_missing = ''missing''\<rparr>\<rparr>"

definition example_target :: wire_target where
  "example_target = \<lparr>t_kind = TSession, t_session = Some ''main'', t_backend = None, t_sessionId = None, t_tmuxId = None,
     t_intent = None, t_cols = 80, t_rows = 24\<rparr>"

definition example_page_events :: "(page \<times> page_event) list" where
  "example_page_events = map (\<lambda>event. (example_page, event))
     [OpenPane ''a'' ''h1'' example_target, OpenPane ''b'' ''h1'' example_target, OpenPane ''a'' ''h2'' example_target,
      SocketClosed ''h2'' 1006, RetryFires ''h2'']"

lemmas page_eval = example_page_events_def example_page_def example_target_def new_browser_relay_def open_pane_def releaseByTermId_def
  connectionFor_def ensureSocket_def sendOpen_def send_frame_def release_term_def release_pane_def dropped_def retry_conn_def
  retry_fires_def pane_lost_def closeSocket_def refreshStatus_def host_statuses_def show_host_def setStatus_def log_all_def
  upd_conn_def upd_entry_def conn_of_def entry_of_def new_conn_def new_entry_def connectionStatus_def pane_attached_def
  only_truthy_def worst_def say_def HOST_OFFLINE_CLOSE_def Let_def

lemma every_pane_is_on_its_way_witness:
  "\<exists>c. conn_of (run page_step new_browser_relay example_page_events) ''h2'' = Some c
    \<and> (hc_panes c = [] \<or> hc_socket c \<noteq> None \<or> hc_retry c \<noteq> None)
    \<and> (case hc_socket c of None \<Rightarrow> True
       | Some s \<Rightarrow> hc_retry c = None
           \<and> (case sk_state s of Dialling \<Rightarrow> hc_connect c = Some (sk_id s) | Live \<Rightarrow> hc_ping c = Some (sk_id s) | Gone \<Rightarrow> True))"
proof -
  let ?w = "run page_step new_browser_relay example_page_events"
  have live: "\<not> br_disposed ?w" by (simp add: page_eval)
  have "conn_of ?w ''h2'' \<noteq> None" by (simp add: page_eval)
  then obtain c where c: "conn_of ?w ''h2'' = Some c" by blast
  show ?thesis by (rule exI, rule conjI [OF c every_pane_is_on_its_way [OF refl live c]])
qed

lemma one_pane_per_slot_witness:
  "\<exists>p. entry_of (run page_step new_browser_relay example_page_events) 2 = Some p \<and> pe_term p = ''b''
    \<and> (2 :: nat) = 2 \<and> (\<exists>c. conn_of (run page_step new_browser_relay example_page_events) (pe_host p) = Some c
      \<and> map_of (hc_panes c) (pe_term p) = Some 2)"
proof -
  let ?w = "run page_step new_browser_relay example_page_events"
  have live: "\<not> br_disposed ?w" by (simp add: page_eval)
  have "map_option (\<lambda>p. (pe_term p, pe_closed p)) (entry_of ?w 2) = Some (''b'', False)" by (simp add: page_eval)
  then obtain p where p: "entry_of ?w 2 = Some p" "pe_term p = ''b''" "\<not> pe_closed p" by auto
  show ?thesis
    by (rule exI, rule conjI [OF p(1)], rule conjI [OF p(2)], rule one_pane_per_slot [OF refl live p(1,3) p(1,3) refl])
qed

definition dialled_events :: "(page \<times> page_event) list" where
  "dialled_events = take 2 example_page_events"

lemma a_new_socket_opens_every_pane_witness:
  "\<exists>c (s :: client_socket). conn_of (run page_step new_browser_relay dialled_events) ''h1'' = Some c \<and> length (hc_panes c) = 2 \<and>
     (\<exists>shown. br_log (page_step (run page_step new_browser_relay dialled_events) (example_page, SocketOpened ''h1''))
       = br_log (run page_step new_browser_relay dialled_events)
         @ map (\<lambda>(t, h). SendFrame (sk_id s) (Open t (open_target (pe_target (the (entry_of (run page_step new_browser_relay dialled_events) h))))))
             (hc_panes c) @ shown
     \<and> list_all is_shown shown)"
proof -
  let ?w = "run page_step new_browser_relay dialled_events"
  have live: "\<not> br_disposed ?w" by (simp add: dialled_events_def page_eval)
  have "map_option (\<lambda>c. (length (hc_panes c), map_option sk_state (hc_socket c))) (conn_of ?w ''h1'') = Some (2, Some Dialling)"
    by (simp add: dialled_events_def page_eval)
  then obtain c s where c: "conn_of ?w ''h1'' = Some c" "length (hc_panes c) = 2" "hc_socket c = Some s" "sk_state s = Dialling"
    by auto
  have takes: "pg_send example_page (sk_id s) log" for log by (simp add: example_page_def)
  show ?thesis
    by (rule exI [of _ c], rule exI [of _ s], intro conjI c(1,2))
      (rule a_new_socket_opens_every_pane [OF refl live c(1,3,4) takes])
qed

lemma retries_stay_within_bounds_witness: "350 \<le> retry_delay 6 (1 / 2) \<and> retry_delay 6 (1 / 2) \<le> 10400
    \<and> retry_delay 6 (1 / 2) \<le> 650 * 2 ^ 6 \<and> (6 < (4 :: nat) \<or> 5600 \<le> retry_delay 6 (1 / 2))"
  by (rule retries_stay_within_bounds) simp_all

section \<open>What a handle that was released still does\<close>

text \<open>Input, a new size and another close of a released handle go nowhere; a scroll reaches the pane that took its slot.\<close>

lemma released_handle_is_silent:
  "entry_of w h = Some p \<Longrightarrow> pe_closed p \<Longrightarrow> call \<in> {SendInput s b, ResizePane c r, ClosePane} \<Longrightarrow> page_step w (e, CallPane h call) = w"
  by auto

definition retargeted_events :: "(page \<times> page_event) list" where
  "retargeted_events = map (\<lambda>event. (example_page, event))
     [OpenPane ''a'' ''h1'' example_target, SocketOpened ''h1'', OpenPane ''a'' ''h1'' example_target]"

lemma released_handle_still_scrolls:
  "let w = run page_step new_browser_relay retargeted_events in
     map_option pe_closed (entry_of w 0) = Some True
     \<and> List.last (br_log (page_step w (example_page, CallPane 0 (ScrollHistory 5)))) = SendFrame 1 (Viewport ''a'' 0 0 False 5)"
  unfolding Let_def retargeted_events_def by (intro conjI; simp add: page_eval socket_opened_def)

text \<open>A pane opened on a socket that is open is not counted until something else happens: the page is not told.\<close>

definition output_json :: jsval where
  "output_json = JObj [(''type'', JStr ''output''), (''termId'', JStr ''a''), (''data'', JStr ''x''), (''dropped'', JNum (Fin 0))]"

lemma output_parsed: "parseTerminalServerFrame output_json = Inr (Output ''a'' ''x'' 0)" "\<not> is_pong output_json"
  by (simp_all add: output_json_def parseTerminalServerFrame_def parse_output_def is_pong_def Let_def int_field_def int_within_def
      text_where_def absent_or_def nullish_or_def)

definition attached_events :: "(page \<times> page_event) list" where
  "attached_events = map (\<lambda>event. (example_page, event))
     [OpenPane ''a'' ''h1'' example_target, SocketOpened ''h1'', SocketMessage ''h1'' (Some output_json), OpenPane ''b'' ''h1'' example_target]"

lemma a_further_pane_is_not_shown_connecting:
  "let w = run page_step new_browser_relay attached_events in br_status w = RsOpen \<and> statusOf w ''h1'' = RsConnecting"
  unfolding Let_def attached_events_def
  by (intro conjI; simp add: page_eval socket_opened_def statusOf_def has_socket_def receive_def output_parsed attached_pane_def)

end
