(* ===== verification/DiffPaths.thy ===== *)
theory DiffPaths
  imports Prelude
begin

text \<open>
  \<^verbatim>\<open>packages/core/src/git-diff-paths.ts\<close>: repairing the file paths of a diff that an older agent cut
  out of a quoted header of git. Paths are lists of UTF-16 code units, what a string of the source
  is, because the quoted bytes are UTF-8 of any character. \<open>TextEncoder\<close> and \<open>TextDecoder\<close> are
  written out below.
\<close>

type_synonym code_units = "nat list"

section \<open>UTF-8 and UTF-16\<close>

definition surrogate :: "nat \<Rightarrow> bool" where
  "surrogate p \<longleftrightarrow> 0xD800 \<le> p \<and> p \<le> 0xDFFF"

definition utf16 :: "nat \<Rightarrow> code_units" where
  "utf16 p = (if p < 0x10000 then [p] else [0xD800 + (p - 0x10000) div 1024, 0xDC00 + (p - 0x10000) mod 1024])"

text \<open>The encoder writes U+FFFD for a lone surrogate.\<close>

definition utf8 :: "nat \<Rightarrow> nat list" where
  "utf8 p =
     (if p < 0x80 then [p]
      else if p < 0x800 then [0xC0 + p div 64, 0x80 + p mod 64]
      else if surrogate p then [0xEF, 0xBF, 0xBD]
      else if p < 0x10000 then [0xE0 + p div 64 div 64, 0x80 + p div 64 mod 64, 0x80 + p mod 64]
      else [0xF0 + p div 64 div 64 div 64, 0x80 + p div 64 div 64 mod 64, 0x80 + p div 64 mod 64, 0x80 + p mod 64])"

definition continues :: "nat \<Rightarrow> bool" where
  "continues b \<longleftrightarrow> 0x80 \<le> b \<and> b \<le> 0xBF"

text \<open>The decoder with \<open>fatal\<close>: no overlong form, no surrogate, nothing beyond U+10FFFF.\<close>

fun code_points :: "nat list \<Rightarrow> nat list option" where
  "code_points [] = Some []"
| "code_points (b # bs) =
     (if b < 0x80 then map_option (Cons b) (code_points bs)
      else if 0xC2 \<le> b \<and> b \<le> 0xDF then
        (case bs of c # r \<Rightarrow>
           if continues c then map_option (Cons ((b - 0xC0) * 64 + (c - 0x80))) (code_points r) else None
         | [] \<Rightarrow> None)
      else if 0xE0 \<le> b \<and> b \<le> 0xEF then
        (case bs of c # d # r \<Rightarrow>
           if (if b = 0xE0 then 0xA0 else 0x80) \<le> c \<and> c \<le> (if b = 0xED then 0x9F else 0xBF) \<and> continues d
           then map_option (Cons (((b - 0xE0) * 64 + (c - 0x80)) * 64 + (d - 0x80))) (code_points r) else None
         | _ \<Rightarrow> None)
      else if 0xF0 \<le> b \<and> b \<le> 0xF4 then
        (case bs of c # d # e # r \<Rightarrow>
           if (if b = 0xF0 then 0x90 else 0x80) \<le> c \<and> c \<le> (if b = 0xF4 then 0x8F else 0xBF)
              \<and> continues d \<and> continues e
           then map_option (Cons ((((b - 0xF0) * 64 + (c - 0x80)) * 64 + (d - 0x80)) * 64 + (e - 0x80))) (code_points r)
           else None
         | _ \<Rightarrow> None)
      else None)"

text \<open>A byte order mark at the start is dropped.\<close>

definition decode_utf8 :: "nat list \<Rightarrow> code_units option" where
  "decode_utf8 bytes =
     (case code_points bytes of None \<Rightarrow> None
      | Some ps \<Rightarrow> Some (concat (map utf16 (case ps of p # r \<Rightarrow> if p = 0xFEFF then r else ps | [] \<Rightarrow> ps))))"

text \<open>\<open>codePointAt\<close> of a unit and what follows it.\<close>

definition code_point_at :: "nat \<Rightarrow> code_units \<Rightarrow> nat" where
  "code_point_at c rest =
     (case rest of d # _ \<Rightarrow>
        if 0xD800 \<le> c \<and> c \<le> 0xDBFF \<and> 0xDC00 \<le> d \<and> d \<le> 0xDFFF
        then 0x10000 + (c - 0xD800) * 1024 + (d - 0xDC00) else c
      | [] \<Rightarrow> c)"

section \<open>A quoted path\<close>

definition octal_digit :: "nat \<Rightarrow> bool" where
  "octal_digit c \<longleftrightarrow> 48 \<le> c \<and> c \<le> 55"

definition escapes :: "(nat \<times> nat) list" where
  "escapes = [(97, 7), (98, 8), (116, 9), (110, 10), (118, 11), (102, 12), (114, 13), (34, 34), (92, 92)]"

text \<open>The loop of \<open>quotedPath\<close> from \<open>index\<close> on; the list holds the units from there.\<close>

function scan_quoted :: "code_units \<Rightarrow> nat \<Rightarrow> nat list \<Rightarrow> (code_units \<times> nat) option" where
  "scan_quoted [] index bytes = None"
| "scan_quoted (c # cs) index bytes =
     (if c = 34 then map_option (\<lambda>v. (v, index + 1)) (decode_utf8 bytes)
      else if c = 92 then
        (case cs of [] \<Rightarrow> None
         | e # es \<Rightarrow>
             if octal_digit e then
               (case es of d1 # d0 # rest \<Rightarrow>
                  if octal_digit d1 \<and> octal_digit d0 then
                    let byte = ((e - 48) * 8 + (d1 - 48)) * 8 + (d0 - 48) in
                    if byte = 0 \<or> 255 < byte then None else scan_quoted rest (index + 4) (bytes @ [byte])
                  else None
                | _ \<Rightarrow> None)
             else (case map_of escapes e of None \<Rightarrow> None
               | Some byte \<Rightarrow> scan_quoted es (index + 2) (bytes @ [byte])))
      else let point = code_point_at c cs in
           if 0xFFFF < point then scan_quoted (tl cs) (index + 2) (bytes @ utf8 point)
           else scan_quoted cs (index + 1) (bytes @ utf8 point))"
  by pat_completeness auto
termination
  by (relation "measure (\<lambda>(cs, _, _). length cs)") auto

definition quotedPath :: "code_units \<Rightarrow> (code_units \<times> nat) option" where
  "quotedPath input = (case input of c # cs \<Rightarrow> if c = 34 then scan_quoted cs 1 [] else None | [] \<Rightarrow> None)"

section \<open>The header of a diff\<close>

definition begins :: "code_units \<Rightarrow> code_units \<Rightarrow> bool" where
  "begins s p \<longleftrightarrow> take (length p) s = p"

definition finishes :: "code_units \<Rightarrow> code_units \<Rightarrow> bool" where
  "finishes s p \<longleftrightarrow> length p \<le> length s \<and> drop (length s - length p) s = p"

fun find_units :: "code_units \<Rightarrow> code_units \<Rightarrow> int" where
  "find_units p [] = (if p = [] then 0 else -1)"
| "find_units p (c # cs) =
     (if begins (c # cs) p then 0 else let i = find_units p cs in if i < 0 then -1 else i + 1)"

definition quote_b :: code_units where
  "quote_b = [32, 34, 98, 47]"

definition quotedHeader :: "code_units \<Rightarrow> (code_units \<times> code_units) option" where
  "quotedHeader body =
     (let first = quotedPath body;
          delimiter = (case first of Some (_, e) \<Rightarrow> int e | None \<Rightarrow> find_units quote_b body)
      in if delimiter < 0 \<or> nth_opt body delimiter \<noteq> Some 32 then None
         else
           let old = (case first of Some (v, _) \<Rightarrow> v | None \<Rightarrow> take (nat delimiter) body);
               rest = drop (nat delimiter + 1) body;
               second = quotedPath rest
           in if begins rest [34] \<and> (case second of None \<Rightarrow> True | Some (_, e) \<Rightarrow> e \<noteq> length rest) then None
              else let path = (case second of Some (v, _) \<Rightarrow> v | None \<Rightarrow> rest)
                   in if \<not> begins old [97, 47] \<or> \<not> begins path [98, 47] then None
                      else Some (drop 2 old, drop 2 path))"

record diff_paths =
  df_path :: code_units
  df_oldPath :: "code_units option"

definition normalizeDiffFilePaths :: "('a diff_paths_scheme) \<Rightarrow> ('a diff_paths_scheme)" where
  "normalizeDiffFilePaths f =
     (let pair = (if begins (df_path f) [47] \<and> 0 \<le> find_units quote_b (df_path f)
                  then quotedHeader ([34, 97] @ df_path f) else None)
      in case pair of
        Some (old, path) \<Rightarrow> f\<lparr>df_path := path, df_oldPath := (if old = path then None else Some old)\<rparr>
      | None \<Rightarrow>
          (case df_oldPath f of None \<Rightarrow> f
           | Some op \<Rightarrow>
               if begins op [47] \<and> finishes op [34] then
                 (case quotedPath ([34, 97] @ op) of None \<Rightarrow> f
                  | Some (v, e) \<Rightarrow>
                      if e = length op + 2 \<and> begins v [97, 47] then f\<lparr>df_oldPath := Some (drop 2 v)\<rparr> else f)
               else f))"

section \<open>What git writes\<close>

text \<open>
  A header of git quotes the bytes of a name in the manner of C. The older agent took what followed
  \<open>"a\<close> for the path.
\<close>

definition escape_byte :: "nat \<Rightarrow> code_units" where
  "escape_byte b =
     (case map_of (map prod.swap escapes) b of
        Some letter \<Rightarrow> [92, letter]
      | None \<Rightarrow> if b < 32 \<or> 127 \<le> b then [92, 48 + b div 64, 48 + b div 8 mod 8, 48 + b mod 8] else [b])"

definition name_bytes :: "nat list \<Rightarrow> nat list" where
  "name_bytes ps = concat (map utf8 ps)"

definition quoted_name :: "nat \<Rightarrow> nat list \<Rightarrow> code_units" where
  "quoted_name side ps = 34 # concat (map escape_byte (name_bytes (side # 47 # ps))) @ [34]"

definition legacy_path :: "nat list \<Rightarrow> nat list \<Rightarrow> code_units" where
  "legacy_path old path = drop 2 (quoted_name 97 old @ 32 # quoted_name 98 path)"

definition legacy_oldPath :: "nat list \<Rightarrow> code_units" where
  "legacy_oldPath old = drop 2 (quoted_name 97 old)"

definition units_of :: "nat list \<Rightarrow> code_units" where
  "units_of ps = concat (map utf16 ps)"

text \<open>Characters a file name can have: any but NUL.\<close>

definition name_point :: "nat \<Rightarrow> bool" where
  "name_point p \<longleftrightarrow> 0 < p \<and> p < 0x110000 \<and> \<not> surrogate p"

lemma code_points_utf8:
  assumes "name_point p"
  shows "code_points (utf8 p @ bs) = map_option (Cons p) (code_points bs)"
proof -
  consider "p < 0x80" | "0x80 \<le> p \<and> p < 0x800" | "0x800 \<le> p \<and> p < 0x10000" | "0x10000 \<le> p" by linarith
  then show ?thesis
  proof cases
    case 1 then show ?thesis by (simp add: utf8_def)
  next
    case 2
    then have "2 \<le> p div 64 \<and> p div 64 < 32" by auto
    moreover have "p mod 64 \<le> 63" using mod_less_divisor [of 64 p] by linarith
    ultimately show ?thesis using 2 by (simp add: utf8_def continues_def)
  next
    case 3
    define q r where "q = p div 64" and "r = p mod 64"
    have p: "p = q * 64 + r" "r < 64" by (simp_all add: q_def r_def)
    define a b where "a = q div 64" and "b = q mod 64"
    have q: "q = a * 64 + b" "b < 64" by (simp_all add: a_def b_def)
    have u: "utf8 p = [0xE0 + a, 0x80 + b, 0x80 + r]"
      using 3 assms by (simp add: utf8_def name_point_def q_def r_def a_def b_def)
    have a: "a < 16" "a = 0 \<Longrightarrow> 32 \<le> b" "a = 13 \<Longrightarrow> b < 32"
      using 3 assms p q by (auto simp: name_point_def surrogate_def)
    have "code_points ([0xE0 + a, 0x80 + b, 0x80 + r] @ bs) = map_option (Cons ((a * 64 + b) * 64 + r)) (code_points bs)"
      using a p(2) q(2) by (auto simp: continues_def)
    then show ?thesis unfolding u using p(1) q(1) by simp
  next
    case 4
    define q r where "q = p div 64" and "r = p mod 64"
    have p: "p = q * 64 + r" "r < 64" by (simp_all add: q_def r_def)
    define q' b where "q' = q div 64" and "b = q mod 64"
    have q: "q = q' * 64 + b" "b < 64" by (simp_all add: q'_def b_def)
    define a c where "a = q' div 64" and "c = q' mod 64"
    have q': "q' = a * 64 + c" "c < 64" by (simp_all add: a_def c_def)
    have u: "utf8 p = [0xF0 + a, 0x80 + c, 0x80 + b, 0x80 + r]"
      using 4 assms by (simp add: utf8_def name_point_def surrogate_def q_def r_def q'_def a_def b_def c_def)
    have a: "a < 5" "a = 0 \<Longrightarrow> 16 \<le> c" "a = 4 \<Longrightarrow> c < 16"
      using 4 assms p q q' by (auto simp: name_point_def)
    have "code_points ([0xF0 + a, 0x80 + c, 0x80 + b, 0x80 + r] @ bs)
      = map_option (Cons (((a * 64 + c) * 64 + b) * 64 + r)) (code_points bs)"
      using a p(2) q(2) q'(2) by (auto simp: continues_def)
    then show ?thesis unfolding u using p(1) q(1) q'(1) by simp
  qed
qed

lemma code_points_name:
  "\<forall>p \<in> set ps. name_point p \<Longrightarrow> code_points (name_bytes ps) = Some ps"
  by (induction ps) (simp_all add: name_bytes_def code_points_utf8)

lemma utf8_byte: "name_point p \<Longrightarrow> b \<in> set (utf8 p) \<Longrightarrow> 0 < b \<and> b < 256"
  by (auto simp: utf8_def name_point_def split: if_splits)



lemma scan_escape:
  assumes "0 < b" and "b < 256"
  shows "scan_quoted (escape_byte b @ s) n bytes
    = scan_quoted s (n + length (escape_byte b)) (bytes @ [b])"
proof (cases "map_of (map prod.swap escapes) b")
  case (Some letter)
  then have "(letter, b) \<in> set escapes" by (auto dest: map_of_SomeD)
  then show ?thesis using Some by (auto simp: escape_byte_def escapes_def octal_digit_def)
next
  case None
  show ?thesis
  proof (cases "b < 32 \<or> 127 \<le> b")
    case True
    define q r where "q = b div 8" and "r = b mod 8"
    have b: "b = q * 8 + r" "r < 8" by (simp_all add: q_def r_def)
    define a d where "a = q div 8" and "d = q mod 8"
    have q: "q = a * 8 + d" "d < 8" by (simp_all add: a_def d_def)
    have eb: "escape_byte b = [92, 48 + a, 48 + d, 48 + r]"
      using True None by (simp add: escape_byte_def q_def r_def a_def d_def flip: div_mult2_eq)
    then have len: "length (escape_byte b) = 4" by simp
    have "a < 4" using b q assms by linarith
    moreover have "((48 + a - 48) * 8 + (48 + d - 48)) * 8 + (48 + r - 48) = b" using b(1) q(1) by simp
    ultimately show ?thesis unfolding len using b(2) q(2) assms
      by (simp add: eb octal_digit_def Let_def)
  next
    case False
    then have "escape_byte b = [b]" using None by (simp add: escape_byte_def)
    moreover have "b \<noteq> 34 \<and> b \<noteq> 92" using None by (auto simp: escapes_def)
    moreover have "code_point_at b s = b" using False by (cases s) (simp_all add: code_point_at_def)
    ultimately show ?thesis using False by (simp add: utf8_def)
  qed
qed

lemma scan_escapes:
  assumes "\<forall>b \<in> set bs. 0 < b \<and> b < 256"
  shows "scan_quoted (concat (map escape_byte bs) @ s) n bytes
    = scan_quoted s (n + length (concat (map escape_byte bs))) (bytes @ bs)"
  using assms
proof (induction bs arbitrary: n bytes)
  case (Cons b bs)
  then show ?case by (simp add: scan_escape add.assoc)
qed simp

text \<open>Reading what git wrote: the name, and where the quoted text ends.\<close>

lemma quotedPath_quoted:
  assumes "\<forall>p \<in> set ps. name_point p" and "side = 97 \<or> side = 98"
  shows "quotedPath (quoted_name side ps @ rest)
    = Some (side # 47 # units_of ps, length (quoted_name side ps))"
proof -
  let ?all = "side # 47 # ps"
  have all: "\<forall>p \<in> set ?all. name_point p" using assms by (auto simp: name_point_def surrogate_def)
  then have "\<forall>b \<in> set (name_bytes ?all). 0 < b \<and> b < 256"
    unfolding name_bytes_def using utf8_byte by fastforce
  moreover have "decode_utf8 (name_bytes ?all) = Some (side # 47 # units_of ps)"
    using code_points_name [OF all] assms(2) by (auto simp: decode_utf8_def units_of_def utf16_def)
  ultimately show ?thesis
    by (simp add: quotedPath_def quoted_name_def scan_escapes)
qed


lemma quoted_name_start:
  "side = 97 \<or> side = 98 \<Longrightarrow> \<exists>s. quoted_name side ps = [34, side, 47] @ s @ [34]"
  by (auto simp: quoted_name_def name_bytes_def utf8_def escape_byte_def escapes_def)

lemma begins_append [simp]: "begins (p @ s) p"
  by (simp add: begins_def)

lemma find_units_append: "0 \<le> find_units p (xs @ p @ ys)"
proof (induction xs)
  case Nil
  have "begins (p @ ys) p" by simp
  then show ?case by (cases "p @ ys") auto
next
  case (Cons c xs)
  then show ?case by (simp add: Let_def)
qed

lemma legacy_path_start:
  "\<exists>s. legacy_path old path = 47 # s" "0 \<le> find_units quote_b (legacy_path old path)"
  "[34, 97] @ legacy_path old path = quoted_name 97 old @ 32 # quoted_name 98 path"
proof -
  obtain s t where s: "quoted_name 97 old = [34, 97, 47] @ s @ [34]" "quoted_name 98 path = [34, 98, 47] @ t @ [34]"
    using quoted_name_start [of 97 old] quoted_name_start [of 98 path] by auto
  then show "\<exists>s. legacy_path old path = 47 # s"
    "[34, 97] @ legacy_path old path = quoted_name 97 old @ 32 # quoted_name 98 path"
    by (simp_all add: legacy_path_def)
  have "legacy_path old path = (47 # s @ [34]) @ quote_b @ t @ [34]"
    using s by (simp add: legacy_path_def quote_b_def)
  then show "0 \<le> find_units quote_b (legacy_path old path)" by (simp only: find_units_append)
qed

lemma quotedHeader_quoted:
  assumes "\<forall>p \<in> set old. name_point p" and "\<forall>p \<in> set path. name_point p"
  shows "quotedHeader (quoted_name 97 old @ 32 # quoted_name 98 path) = Some (units_of old, units_of path)"
proof -
  let ?body = "quoted_name 97 old @ 32 # quoted_name 98 path"
  have first: "quotedPath ?body = Some (97 # 47 # units_of old, length (quoted_name 97 old))"
    using quotedPath_quoted [OF assms(1), of 97] by simp
  have second: "quotedPath (quoted_name 98 path) = Some (98 # 47 # units_of path, length (quoted_name 98 path))"
    using quotedPath_quoted [OF assms(2), of 98 "[]"] by simp
  have "nth_opt ?body (int (length (quoted_name 97 old))) = Some 32" by simp
  moreover have "drop (nat (int (length (quoted_name 97 old))) + 1) ?body = quoted_name 98 path" by simp
  ultimately show ?thesis by (simp add: quotedHeader_def Let_def first second begins_def)
qed

text \<open>No name of git starts with a slash, and such a name is left as it is.\<close>

definition relative_name :: "nat list \<Rightarrow> bool" where
  "relative_name ps \<longleftrightarrow> (\<forall>p \<in> set ps. name_point p) \<and> take 1 ps \<noteq> [47]"

lemma relative_units: "relative_name ps \<Longrightarrow> \<not> begins (units_of ps) [47]"
  by (cases ps) (auto simp: relative_name_def units_of_def utf16_def begins_def)

lemma normalize_relative:
  "\<not> begins (df_path f) [47] \<Longrightarrow> (\<And>op. df_oldPath f = Some op \<Longrightarrow> \<not> begins op [47])
    \<Longrightarrow> normalizeDiffFilePaths f = f"
  by (simp add: normalizeDiffFilePaths_def split: option.split)

lemma an_old_path_is_repaired:
  assumes "relative_name old" and "\<not> begins (df_path f) [47]" and "df_oldPath f = Some (legacy_oldPath old)"
  shows "normalizeDiffFilePaths f = f\<lparr>df_oldPath := Some (units_of old)\<rparr>"
proof -
  obtain s where s: "quoted_name 97 old = [34, 97, 47] @ s @ [34]" using quoted_name_start [of 97 old] by auto
  have "quotedPath (quoted_name 97 old) = Some (97 # 47 # units_of old, length (quoted_name 97 old))"
    using quotedPath_quoted [of old 97 "[]"] assms(1) by (simp add: relative_name_def)
  moreover have "[34, 97] @ legacy_oldPath old = quoted_name 97 old" using s by (simp add: legacy_oldPath_def)
  moreover have "begins (legacy_oldPath old) [47]" "finishes (legacy_oldPath old) [34]"
    using s by (simp_all add: legacy_oldPath_def begins_def finishes_def)
  moreover have "length (quoted_name 97 old) = length (legacy_oldPath old) + 2"
    using s by (simp add: legacy_oldPath_def)
  ultimately show ?thesis
    using assms(2, 3) by (simp add: normalizeDiffFilePaths_def begins_def)
qed

text \<open>
  C38 (\<open>a_quoted_path_is_repaired\<close>): where git quoted the old name of a header, alone or with the new
  name, and an older agent stored what it cut out of that header, reading it back gives the two names git
  had, whatever characters they are made of, and reading that again changes nothing. (Of a header in which
  only the new name is quoted the older agent stored a path that looks like an ordinary one; it is left.)
\<close>
theorem a_quoted_path_is_repaired:
  assumes "relative_name old" and "relative_name path"
    and "df_path f = legacy_path old path
      \<or> df_path f = units_of path \<and> df_oldPath f = Some (legacy_oldPath old) \<and> units_of old \<noteq> units_of path"
  shows "normalizeDiffFilePaths f = f\<lparr>df_path := units_of path,
      df_oldPath := (if units_of old = units_of path then None else Some (units_of old))\<rparr>
    \<and> normalizeDiffFilePaths (normalizeDiffFilePaths f) = normalizeDiffFilePaths f"
proof -
  let ?g = "f\<lparr>df_path := units_of path,
      df_oldPath := (if units_of old = units_of path then None else Some (units_of old))\<rparr>"
  have "normalizeDiffFilePaths f = ?g"
    using assms(3)
  proof
    assume both: "df_path f = legacy_path old path"
    have names: "\<forall>p \<in> set old. name_point p" "\<forall>p \<in> set path. name_point p"
      using assms by (simp_all add: relative_name_def)
    obtain s where "legacy_path old path = 47 # s" using legacy_path_start(1) by blast
    then have "begins (df_path f) [47]" using both by (simp add: begins_def)
    moreover have "quotedHeader ([34, 97] @ df_path f) = Some (units_of old, units_of path)"
      using quotedHeader_quoted [OF names] by (simp only: both legacy_path_start(3))
    ultimately show ?thesis
      using legacy_path_start(2) [of old path] by (simp add: normalizeDiffFilePaths_def both)
  next
    assume one: "df_path f = units_of path \<and> df_oldPath f = Some (legacy_oldPath old) \<and> units_of old \<noteq> units_of path"
    then have "normalizeDiffFilePaths f = f\<lparr>df_oldPath := Some (units_of old)\<rparr>"
      using relative_units [OF assms(2)] by (intro an_old_path_is_repaired [OF assms(1)]) simp_all
    moreover have "?g = f\<lparr>df_oldPath := Some (units_of old)\<rparr>" using one by (cases f) simp
    ultimately show ?thesis by simp
  qed
  moreover have "normalizeDiffFilePaths ?g = ?g"
    using relative_units [OF assms(1)] relative_units [OF assms(2)]
    by (intro normalize_relative) (auto split: if_splits)
  ultimately show ?thesis by simp
qed

lemma a_quoted_path_is_repaired_witness:
  "normalizeDiffFilePaths \<lparr>df_path = legacy_path [0xBCA0] [0x1F600, 34], df_oldPath = None\<rparr>
   = \<lparr>df_path = [0xD83D, 0xDE00, 34], df_oldPath = Some [0xBCA0]\<rparr>
   \<and> normalizeDiffFilePaths \<lparr>df_path = [110], df_oldPath = Some (legacy_oldPath [0xBCA0])\<rparr>
   = \<lparr>df_path = [110], df_oldPath = Some [0xBCA0]\<rparr>"
  using a_quoted_path_is_repaired [of "[0xBCA0]" "[0x1F600, 34]"
      "\<lparr>df_path = legacy_path [0xBCA0] [0x1F600, 34], df_oldPath = None\<rparr>"]
    a_quoted_path_is_repaired [of "[0xBCA0]" "[110]" "\<lparr>df_path = [110], df_oldPath = Some (legacy_oldPath [0xBCA0])\<rparr>"]
  by (simp add: relative_name_def name_point_def surrogate_def units_of_def utf16_def)

end
