(* ===== verification/GitStore.thy ===== *)
theory GitStore
  imports DiffPaths CommitOrder "HOL-Library.AList"
begin

text \<open>
  What the server keeps of a host's checkouts: the rows of \<^verbatim>\<open>apps/api/src/git/repo.entity.ts\<close>,
  \<^verbatim>\<open>repo-commit.entity.ts\<close> and \<^verbatim>\<open>repo-ref.entity.ts\<close>, the objects of \<^verbatim>\<open>git-detail.service.ts\<close> under the
  keys of \<^verbatim>\<open>git-storage.ts\<close>, and the file contents in transit of \<^verbatim>\<open>git-blob-buffer.service.ts\<close>.
  An object is stored as the value its JSON text stands for. A row of a commit or a ref has no id of
  its own: the unique indexes name it. Dates are milliseconds.
\<close>

section \<open>What agents report\<close>

record patch_file = diff_paths +
  pf_status :: char
  pf_add :: int
  pf_del :: int
  pf_binary :: bool
  pf_truncated :: bool
  pf_lines :: "code_units list"

record commit_detail =
  cd_sha :: string
  cd_subject :: string
  cd_body :: string
  cd_bodyTruncated :: bool
  cd_authorEmail :: string
  cd_committer :: string
  cd_committerEmail :: string
  cd_committerDate :: "int option"
  cd_files :: "patch_file list"
  cd_dropped :: int
  cd_truncated :: bool
  cd_empty :: bool

record working_diff =
  wd_staged :: "patch_file list"
  wd_unstaged :: "patch_file list"
  wd_untracked :: "patch_file list"
  wd_dropped :: int
  wd_truncated :: bool

record git_tree =
  gt_sha :: string
  gt_entries :: "(string \<times> int) list"
  gt_dropped :: int
  gt_truncated :: bool
  gt_error :: "string option"

record git_blob =
  gb_sha :: string
  gb_path :: string
  gb_lines :: "string list"
  gb_binary :: bool
  gb_truncated :: bool
  gb_bytes :: int
  gb_error :: "string option"

datatype snapshot_ref_kind = LocalRef | RemoteRef | TagRef

record git_ref =
  gr_name :: string
  gr_kind :: snapshot_ref_kind
  gr_sha :: string
  gr_upstream :: "string option"
  gr_ahead :: "int option"
  gr_behind :: "int option"
  gr_gone :: bool

record git_commit =
  gc_commit :: commit
  gc_refs :: "string list"
  gc_author :: string
  gc_date :: "int option"
  gc_subject :: string

record remote_check =
  rc_checkedAt :: int
  rc_refs :: "(string \<times> string \<times> bool) list"
  rc_error :: "string option"

record git_head =
  gh_branch :: "string option"
  gh_sha :: "string option"
  gh_detached :: bool
  gh_ahead :: "int option"
  gh_behind :: "int option"

record repo_snapshot =
  sn_path :: string
  sn_name :: string
  sn_ts :: int
  sn_head :: git_head
  sn_refs :: "git_ref list"
  sn_commits :: "git_commit list"
  sn_uncommitted :: "(int \<times> int) option"
  sn_truncated :: bool
  sn_limit :: int
  sn_details :: "commit_detail list"
  sn_workingDiff :: "working_diff option"
  sn_pending :: int
  sn_remote :: "remote_check option"
  sn_tree :: "git_tree option"
  sn_blob :: "git_blob option"
  sn_partial :: bool
  sn_error :: "string option"

text \<open>Of \<open>uncommitted\<close> the server reads the total and the submodules.\<close>

section \<open>Rows\<close>

record repo_row =
  rp_id :: string
  rp_host :: string
  rp_path :: string
  rp_name :: string
  rp_headBranch :: "string option"
  rp_headSha :: "string option"
  rp_detached :: bool
  rp_ahead :: "int option"
  rp_behind :: "int option"
  rp_dirtyCount :: int
  rp_dirtySubmodules :: int
  rp_truncated :: bool
  rp_limit :: int
  rp_pendingDetails :: int
  rp_hasWorkingDiff :: bool
  rp_lastSnapshotAt :: "int option"
  rp_missingSince :: "int option"
  rp_error :: "string option"
  rp_remoteRefs :: "(string \<times> string \<times> bool) list option"
  rp_remoteCheckedAt :: "int option"
  rp_remoteError :: "string option"

record commit_row =
  cr_repo :: string
  cr_commit :: commit
  cr_seq :: "nat option"
  cr_refs :: "string list"
  cr_author :: string
  cr_date :: "int option"
  cr_subject :: string
  cr_hasDetail :: bool
  cr_detailEmpty :: bool

abbreviation cr_sha :: "commit_row \<Rightarrow> string" where
  "cr_sha r \<equiv> sha (cr_commit r)"

type_synonym ref_row = "string \<times> git_ref"

section \<open>Keys of stored objects\<close>

definition hex_lower :: "char \<Rightarrow> bool" where
  "hex_lower c \<longleftrightarrow> is_digit c \<or> (97 \<le> code c \<and> code c \<le> 102)"

definition isValidSha :: "string \<Rightarrow> bool" where
  "isValidSha s \<longleftrightarrow> 7 \<le> length s \<and> length s \<le> 40 \<and> list_all hex_lower s"

definition uuid_text :: "string \<Rightarrow> bool" where
  "uuid_text s \<longleftrightarrow> length s = 36 \<and> list_all (\<lambda>c. is_hex c \<or> c = CHR ''-'') s"

text \<open>A key, or \<open>None\<close> where the source throws.\<close>

definition repoPrefix :: "string \<Rightarrow> string \<Rightarrow> string option" where
  "repoPrefix hostId repoId =
     (if uuid_text hostId \<and> uuid_text repoId
      then Some (''hosts/'' @ hostId @ ''/repos/'' @ repoId) else None)"

definition commitDetailKey :: "string \<Rightarrow> string \<Rightarrow> string \<Rightarrow> string option" where
  "commitDetailKey hostId repoId s =
     (if \<not> isValidSha s then None
      else map_option (\<lambda>p. p @ ''/'' @ s @ ''.json'') (repoPrefix hostId repoId))"

definition workingDiffKey :: "string \<Rightarrow> string \<Rightarrow> string option" where
  "workingDiffKey hostId repoId = map_option (\<lambda>p. p @ ''/working.json'') (repoPrefix hostId repoId)"

definition fileTreeKey :: "string \<Rightarrow> string \<Rightarrow> string \<Rightarrow> string option" where
  "fileTreeKey hostId repoId s =
     (if \<not> isValidSha s then None
      else map_option (\<lambda>p. p @ ''/'' @ s @ ''.tree.json'') (repoPrefix hostId repoId))"

section \<open>The detail service\<close>

text \<open>
  The bucket is a map. A put may fail and so may a delete (\<open>bucket_faults\<close>); \<open>put_object\<close> is
  \<open>None\<close> where the source throws.
\<close>

datatype git_object = DetailObject commit_detail | TreeObject git_tree | WorkingObject working_diff

type_synonym bucket = "string \<rightharpoonup> git_object"

record bucket_faults =
  put_fails :: "string \<Rightarrow> bool"
  delete_fails :: "string \<Rightarrow> bool"

definition put_object :: "bucket_faults \<Rightarrow> string option \<Rightarrow> git_object \<Rightarrow> bucket \<Rightarrow> bucket option" where
  "put_object e key v b =
     (case key of None \<Rightarrow> None | Some k \<Rightarrow> if put_fails e k then None else Some (b(k \<mapsto> v)))"

definition delete_object :: "bucket_faults \<Rightarrow> string option \<Rightarrow> bucket \<Rightarrow> bucket" where
  "delete_object e key b =
     (case key of None \<Rightarrow> b | Some k \<Rightarrow> if delete_fails e k then b else b(k := None))"

definition read_object :: "string option \<Rightarrow> bucket \<Rightarrow> git_object option" where
  "read_object key b = Option.bind key b"

definition putCommitDetail ::
    "bucket_faults \<Rightarrow> string \<Rightarrow> string \<Rightarrow> commit_detail \<Rightarrow> bucket \<Rightarrow> bucket option" where
  "putCommitDetail e hostId repoId detail b =
     put_object e (commitDetailKey hostId repoId (cd_sha detail)) (DetailObject detail) b"

definition getCommitDetail :: "string \<Rightarrow> string \<Rightarrow> string \<Rightarrow> bucket \<Rightarrow> commit_detail option" where
  "getCommitDetail hostId repoId s b =
     (case read_object (commitDetailKey hostId repoId s) b of
        Some (DetailObject d) \<Rightarrow> Some (d\<lparr>cd_files := map normalizeDiffFilePaths (cd_files d)\<rparr>)
      | _ \<Rightarrow> None)"

definition deleteCommitDetail :: "bucket_faults \<Rightarrow> string \<Rightarrow> string \<Rightarrow> string \<Rightarrow> bucket \<Rightarrow> bucket" where
  "deleteCommitDetail e hostId repoId s b = delete_object e (commitDetailKey hostId repoId s) b"

definition putFileTree :: "bucket_faults \<Rightarrow> string \<Rightarrow> string \<Rightarrow> git_tree \<Rightarrow> bucket \<Rightarrow> bucket option" where
  "putFileTree e hostId repoId tree b =
     put_object e (fileTreeKey hostId repoId (gt_sha tree)) (TreeObject tree) b"

definition getFileTree :: "string \<Rightarrow> string \<Rightarrow> string \<Rightarrow> bucket \<Rightarrow> git_tree option" where
  "getFileTree hostId repoId s b =
     (case read_object (fileTreeKey hostId repoId s) b of Some (TreeObject t) \<Rightarrow> Some t | _ \<Rightarrow> None)"

definition deleteFileTree :: "bucket_faults \<Rightarrow> string \<Rightarrow> string \<Rightarrow> string \<Rightarrow> bucket \<Rightarrow> bucket" where
  "deleteFileTree e hostId repoId s b = delete_object e (fileTreeKey hostId repoId s) b"

definition putWorkingDiff ::
    "bucket_faults \<Rightarrow> string \<Rightarrow> string \<Rightarrow> working_diff \<Rightarrow> bucket \<Rightarrow> bucket option" where
  "putWorkingDiff e hostId repoId diff b =
     put_object e (workingDiffKey hostId repoId) (WorkingObject diff) b"

definition getWorkingDiff :: "string \<Rightarrow> string \<Rightarrow> bucket \<Rightarrow> working_diff option" where
  "getWorkingDiff hostId repoId b =
     (case read_object (workingDiffKey hostId repoId) b of
        Some (WorkingObject d) \<Rightarrow> Some (d\<lparr>wd_staged := map normalizeDiffFilePaths (wd_staged d),
          wd_unstaged := map normalizeDiffFilePaths (wd_unstaged d),
          wd_untracked := map normalizeDiffFilePaths (wd_untracked d)\<rparr>)
      | _ \<Rightarrow> None)"

definition deleteWorkingDiff :: "bucket_faults \<Rightarrow> string \<Rightarrow> string \<Rightarrow> bucket \<Rightarrow> bucket" where
  "deleteWorkingDiff e hostId repoId b = delete_object e (workingDiffKey hostId repoId) b"

section \<open>Keys do not meet\<close>

text \<open>A slash ends a host id and a repository id, so two keys agree only part by part.\<close>

lemma uuid_no_slash: "uuid_text s \<Longrightarrow> CHR ''/'' \<notin> set s"
  by (auto simp: uuid_text_def list_all_iff is_hex_def is_digit_def)

lemma sha_no_dot: "isValidSha s \<Longrightarrow> CHR ''.'' \<notin> set s"
  by (auto simp: isValidSha_def list_all_iff hex_lower_def is_digit_def)

lemma sha_not_working: "isValidSha s \<Longrightarrow> s \<noteq> ''working''"
  by (auto simp: isValidSha_def hex_lower_def is_digit_def)

lemma repoPrefix_slash_inject:
  assumes "repoPrefix h r = Some p" and "repoPrefix h' r' = Some p'"
  shows "p @ CHR ''/'' # s = p' @ CHR ''/'' # s' \<longleftrightarrow> h = h' \<and> r = r' \<and> s = s'"
proof -
  have ids: "CHR ''/'' \<notin> set h" "CHR ''/'' \<notin> set h'" "CHR ''/'' \<notin> set r" "CHR ''/'' \<notin> set r'"
    using assms by (auto simp: repoPrefix_def uuid_no_slash split: if_splits)
  have "p = ''hosts/'' @ h @ ''/repos/'' @ r" "p' = ''hosts/'' @ h' @ ''/repos/'' @ r'"
    using assms by (simp_all add: repoPrefix_def split: if_splits)
  then show ?thesis using ids by (simp add: append_sep_inject)
qed

lemma key_inject:
  "commitDetailKey h r s = Some k \<Longrightarrow> commitDetailKey h' r' s' = Some k \<Longrightarrow> h = h' \<and> r = r' \<and> s = s'"
  by (auto simp: commitDetailKey_def repoPrefix_slash_inject split: if_splits)

lemma detail_key_not_tree: "commitDetailKey h r s = Some k \<Longrightarrow> fileTreeKey h' r' s' \<noteq> Some k"
proof
  assume k: "commitDetailKey h r s = Some k" "fileTreeKey h' r' s' = Some k"
  then have v: "isValidSha s" "isValidSha s'"
    by (auto simp: commitDetailKey_def fileTreeKey_def split: if_splits)
  then have "s @ CHR ''.'' # ''json'' = s' @ CHR ''.'' # ''tree.json''"
    using k by (auto simp: commitDetailKey_def fileTreeKey_def repoPrefix_slash_inject)
  then show False using v sha_no_dot by (simp add: append_sep_inject)
qed

lemma detail_key_not_working: "commitDetailKey h r s = Some k \<Longrightarrow> workingDiffKey h' r' \<noteq> Some k"
proof
  assume k: "commitDetailKey h r s = Some k" "workingDiffKey h' r' = Some k"
  then have v: "isValidSha s" by (auto simp: commitDetailKey_def split: if_splits)
  then have "s @ CHR ''.'' # ''json'' = ''working'' @ CHR ''.'' # ''json''"
    using k by (auto simp: commitDetailKey_def workingDiffKey_def repoPrefix_slash_inject)
  then show False using v sha_not_working by simp
qed

section \<open>File contents in transit\<close>

record blob_entry =
  be_blob :: git_blob
  be_expiresAt :: int
  be_bytes :: int

text \<open>The map of the source keeps the order of insertion.\<close>

record blob_buffer =
  bb_entries :: "(string \<times> blob_entry) list"
  bb_bytes :: int

definition empty_buffer :: blob_buffer where
  "empty_buffer = \<lparr>bb_entries = [], bb_bytes = 0\<rparr>"

definition BLOB_TTL_MS :: int where "BLOB_TTL_MS = 60000"

definition BLOB_BUFFER_MAX_ENTRIES :: nat where "BLOB_BUFFER_MAX_ENTRIES = 200"

definition BLOB_BUFFER_MAX_BYTES :: int where "BLOB_BUFFER_MAX_BYTES = 32000000"

definition bufferKey :: "string \<Rightarrow> string \<Rightarrow> string \<Rightarrow> string" where
  "bufferKey repoId s path = repoId @ CHR 0x00 # s @ CHR 0x00 # path"

definition estimate_blob :: "git_blob \<Rightarrow> int" where
  "estimate_blob blob =
     fold (\<lambda>line bytes. bytes + (int (length line) + 8)) (gb_lines blob) (int (length (gb_path blob)) + 64)"

definition drop_blob :: "string \<Rightarrow> blob_buffer \<Rightarrow> blob_buffer" where
  "drop_blob key b =
     (case map_of (bb_entries b) key of None \<Rightarrow> b
      | Some existing \<Rightarrow> b\<lparr>bb_bytes := bb_bytes b - be_bytes existing, bb_entries := AList.delete key (bb_entries b)\<rparr>)"

text \<open>The loop over the entries, oldest first; it reads the entries it started with.\<close>

fun expire_from :: "int \<Rightarrow> (string \<times> blob_entry) list \<Rightarrow> blob_buffer \<Rightarrow> blob_buffer" where
  "expire_from now [] b = b"
| "expire_from now ((key, e) # es) b = (if now < be_expiresAt e then b else expire_from now es (drop_blob key b))"

definition expire_blobs :: "int \<Rightarrow> blob_buffer \<Rightarrow> blob_buffer" where
  "expire_blobs now b = expire_from now (bb_entries b) b"

function evict_blobs :: "blob_buffer \<Rightarrow> blob_buffer" where
  "evict_blobs b =
     (if BLOB_BUFFER_MAX_ENTRIES < length (bb_entries b) \<or> BLOB_BUFFER_MAX_BYTES < bb_bytes b then
        (case bb_entries b of [] \<Rightarrow> b | (oldest, _) # _ \<Rightarrow> evict_blobs (drop_blob oldest b))
      else b)"
  by pat_completeness auto
termination
proof (relation "measure (\<lambda>b. length (bb_entries b))", goal_cases)
  case (2 b x xs oldest e)
  then have "length (AList.delete oldest xs) \<le> length xs" by (simp add: AList.length_delete_le)
  then show ?case using 2 by (auto simp: drop_blob_def le_imp_less_Suc)
qed simp

declare evict_blobs.simps [simp del]

definition put_blob :: "string \<Rightarrow> git_blob \<Rightarrow> int \<Rightarrow> blob_buffer \<Rightarrow> blob_buffer" where
  "put_blob repoId blob now b =
     (let key = bufferKey repoId (gb_sha blob) (gb_path blob);
          dropped = drop_blob key (expire_blobs now b);
          bytes = estimate_blob blob
      in evict_blobs (dropped\<lparr>
           bb_entries := bb_entries dropped @ [(key, \<lparr>be_blob = blob, be_expiresAt = now + BLOB_TTL_MS, be_bytes = bytes\<rparr>)],
           bb_bytes := bb_bytes dropped + bytes\<rparr>))"

definition take_blob :: "string \<Rightarrow> string \<Rightarrow> string \<Rightarrow> int \<Rightarrow> blob_buffer \<Rightarrow> git_blob option \<times> blob_buffer" where
  "take_blob repoId s path now b =
     (let b' = expire_blobs now b; key = bufferKey repoId s path in
      case map_of (bb_entries b') key of None \<Rightarrow> (None, b')
      | Some e \<Rightarrow> (Some (be_blob e), drop_blob key b'))"

definition buffer_size :: "blob_buffer \<Rightarrow> nat" where
  "buffer_size b = length (bb_entries b)"

end
