(* ===== verification/GitBuffer.thy ===== *)
theory GitBuffer
  imports GitStore "HOL-Library.Multiset"
begin

text \<open>
  The bounds of the buffer of \<^verbatim>\<open>git-blob-buffer.service.ts\<close>, and that it hands a file over at most
  once. Its operations come in any order, at any times.
\<close>

declare map_of_eq_Some_iff [simp del] Some_eq_map_of_iff [simp del]

datatype buffer_op = PutBlob string git_blob int | TakeBlob string string string int

fun buffer_step :: "buffer_op \<Rightarrow> blob_buffer \<Rightarrow> blob_buffer" where
  "buffer_step (PutBlob repo blob now) b = put_blob repo blob now b"
| "buffer_step (TakeBlob repo s path now) b = snd (take_blob repo s path now b)"

definition total_bytes :: "(string \<times> blob_entry) list \<Rightarrow> int" where
  "total_bytes es = (\<Sum>(_, e) \<leftarrow> es. be_bytes e)"

definition keeps_count :: "blob_buffer \<Rightarrow> bool" where
  "keeps_count b \<longleftrightarrow> distinct (map fst (bb_entries b)) \<and> bb_bytes b = total_bytes (bb_entries b)
    \<and> (\<forall>(_, e) \<in> set (bb_entries b). be_bytes e = estimate_blob (be_blob e))"

definition within_caps :: "blob_buffer \<Rightarrow> bool" where
  "within_caps b \<longleftrightarrow> length (bb_entries b) \<le> BLOB_BUFFER_MAX_ENTRIES \<and> bb_bytes b \<le> BLOB_BUFFER_MAX_BYTES"

lemma total_bytes_simps [simp]:
  "total_bytes [] = 0" "total_bytes ((k, e) # es) = be_bytes e + total_bytes es"
  "total_bytes (xs @ ys) = total_bytes xs + total_bytes ys"
  by (simp_all add: total_bytes_def)

lemma total_bytes_delete:
  "distinct (map fst es) \<Longrightarrow> map_of es k = Some e \<Longrightarrow> total_bytes (AList.delete k es) = total_bytes es - be_bytes e"
proof (induction es)
  case (Cons x es)
  obtain k' e' where "x = (k', e')" by (cases x)
  moreover have "k \<notin> fst ` set es \<Longrightarrow> AList.delete k es = es" by (rule AList.delete_id)
  ultimately show ?case using Cons by (auto split: if_splits)
qed simp

lemma estimate_positive: "64 \<le> estimate_blob blob"
proof -
  have "n \<le> fold (\<lambda>line bytes. bytes + (int (length line) + 8)) ls n" for ls :: "string list" and n
  proof (induction ls arbitrary: n)
    case (Cons l ls)
    have "n \<le> n + (int (length l) + 8)" by simp
    also have "\<dots> \<le> fold (\<lambda>line bytes. bytes + (int (length line) + 8)) ls (n + (int (length l) + 8))"
      by (rule Cons.IH)
    finally show ?case by simp
  qed simp
  from this [of "int (length (gb_path blob)) + 64"] show ?thesis
    unfolding estimate_blob_def by (rule order_trans [rotated]) simp
qed

lemma delete_subset: "set (AList.delete k es) \<subseteq> set es"
  by (auto simp: AList.delete_eq)

lemma drop_keeps: "keeps_count b \<Longrightarrow> keeps_count (drop_blob key b)"
  using delete_subset [of key "bb_entries b"]
  by (auto simp: keeps_count_def drop_blob_def total_bytes_delete AList.distinct_delete split: option.split)

lemma drop_within: "keeps_count b \<Longrightarrow> within_caps b \<Longrightarrow> within_caps (drop_blob key b)"
proof -
  assume b: "keeps_count b" "within_caps b"
  have "0 \<le> be_bytes e" if "map_of (bb_entries b) key = Some e" for e
    using map_of_SomeD [OF that] b(1) estimate_positive [of "be_blob e"] by (auto simp: keeps_count_def)
  moreover have "length (AList.delete key (bb_entries b)) \<le> length (bb_entries b)" by (rule AList.length_delete_le)
  ultimately show ?thesis using b(2) by (auto simp: within_caps_def drop_blob_def split: option.split)
qed

lemma drop_absent: "key \<notin> fst ` set (bb_entries (drop_blob key b))"
  by (auto simp: drop_blob_def AList.delete_eq map_of_eq_None_iff split: option.split)

lemma expire_from_keeps:
  "keeps_count b \<Longrightarrow> keeps_count (expire_from now es b) \<and> (within_caps b \<longrightarrow> within_caps (expire_from now es b))"
  by (induction now es b rule: expire_from.induct) (auto simp: drop_keeps drop_within)

lemma evict_done: "within_caps b \<Longrightarrow> evict_blobs b = b"
  by (subst evict_blobs.simps) (auto simp: within_caps_def)

text \<open>An empty buffer is within its caps, so a buffer over them has an oldest entry.\<close>

lemma evict_turn:
  assumes "keeps_count b" and "\<not> within_caps b"
  shows "\<exists>k. evict_blobs b = evict_blobs (drop_blob k b) \<and> length (bb_entries (drop_blob k b)) < length (bb_entries b)"
proof -
  obtain k e es where es: "bb_entries b = (k, e) # es"
    using assms by (cases "bb_entries b")
      (auto simp: within_caps_def keeps_count_def BLOB_BUFFER_MAX_ENTRIES_def BLOB_BUFFER_MAX_BYTES_def)
  then have "evict_blobs b = evict_blobs (drop_blob k b)"
    using assms(2) by (subst evict_blobs.simps) (auto simp: within_caps_def)
  moreover have "length (AList.delete k es) \<le> length es" by (rule AList.length_delete_le)
  ultimately show ?thesis using es by (intro exI [of _ k]) (simp add: drop_blob_def)
qed

lemma evict_keeps: "keeps_count b \<Longrightarrow> keeps_count (evict_blobs b) \<and> within_caps (evict_blobs b)"
proof (induction "length (bb_entries b)" arbitrary: b rule: less_induct)
  case less
  then show ?case
    using evict_turn [of b] evict_done [of b] drop_keeps [of b] by (cases "within_caps b") metis+
qed

lemma put_keeps: "keeps_count b \<Longrightarrow> keeps_count (put_blob repo blob now b) \<and> within_caps (put_blob repo blob now b)"
proof -
  assume "keeps_count b"
  then have "keeps_count (drop_blob (bufferKey repo (gb_sha blob) (gb_path blob)) (expire_blobs now b))"
    by (simp add: expire_blobs_def drop_keeps expire_from_keeps)
  then show ?thesis
    using drop_absent [of "bufferKey repo (gb_sha blob) (gb_path blob)" "expire_blobs now b"]
    by (auto simp: put_blob_def Let_def intro!: evict_keeps)
      (auto simp: keeps_count_def)
qed

lemma take_keeps:
  "keeps_count b \<and> within_caps b \<Longrightarrow> keeps_count (snd (take_blob repo s path now b)) \<and> within_caps (snd (take_blob repo s path now b))"
  by (auto simp: take_blob_def expire_blobs_def Let_def expire_from_keeps drop_keeps drop_within split: option.split)

lemma buffer_step_keeps: "keeps_count b \<and> within_caps b \<Longrightarrow> keeps_count (buffer_step op b) \<and> within_caps (buffer_step op b)"
  by (cases op) (simp_all add: put_keeps take_keeps)

lemma buffer_run_keeps:
  "keeps_count b \<and> within_caps b \<Longrightarrow> keeps_count (fold buffer_step ops b) \<and> within_caps (fold buffer_step ops b)"
proof (induction ops arbitrary: b)
  case (Cons op ops)
  then show ?case using buffer_step_keeps by simp
qed simp

text \<open>
  C39 (\<open>buffer_stays_within_bounds\<close>): whatever is put and taken, and whatever the clock does, the
  buffer holds at most 200 files of at most 32 million bytes together, each under its own key, and
  the number it keeps for its bytes is their sum.
\<close>
theorem buffer_stays_within_bounds:
  fixes ops :: "buffer_op list"
  defines "b \<equiv> fold buffer_step ops empty_buffer"
  shows "buffer_size b \<le> 200 \<and> bb_bytes b \<le> 32000000 \<and> distinct (map fst (bb_entries b))
    \<and> bb_bytes b = (\<Sum>(_, e) \<leftarrow> bb_entries b. estimate_blob (be_blob e))"
proof -
  have "keeps_count empty_buffer \<and> within_caps empty_buffer"
    by (simp add: empty_buffer_def keeps_count_def within_caps_def BLOB_BUFFER_MAX_BYTES_def)
  then have b: "keeps_count b" "within_caps b" unfolding b_def using buffer_run_keeps by blast+
  have "(\<Sum>(_, e) \<leftarrow> bb_entries b. estimate_blob (be_blob e)) = total_bytes (bb_entries b)"
    unfolding total_bytes_def using b(1)
    by (intro arg_cong [where f = sum_list] map_cong) (auto simp: keeps_count_def)
  then show ?thesis
    using b by (simp add: keeps_count_def within_caps_def buffer_size_def BLOB_BUFFER_MAX_ENTRIES_def BLOB_BUFFER_MAX_BYTES_def)
qed

section \<open>Handing over\<close>

text \<open>Every file put under its key, and every file handed over under the key it was asked for.\<close>

definition entry_pairs :: "(string \<times> blob_entry) list \<Rightarrow> (string \<times> git_blob) multiset" where
  "entry_pairs es = image_mset (\<lambda>(k, e). (k, be_blob e)) (mset es)"

definition contents :: "blob_buffer \<Rightarrow> (string \<times> git_blob) multiset" where
  "contents b = entry_pairs (bb_entries b)"

fun put_into :: "buffer_op \<Rightarrow> (string \<times> git_blob) multiset" where
  "put_into (PutBlob repo blob now) = {# (bufferKey repo (gb_sha blob) (gb_path blob), blob) #}"
| "put_into (TakeBlob _ _ _ _) = {#}"

fun handed_over :: "buffer_op \<Rightarrow> blob_buffer \<Rightarrow> (string \<times> git_blob) multiset" where
  "handed_over (PutBlob _ _ _) b = {#}"
| "handed_over (TakeBlob repo s path now) b =
     (case fst (take_blob repo s path now b) of None \<Rightarrow> {#} | Some blob \<Rightarrow> {# (bufferKey repo s path, blob) #})"

fun all_handed_over :: "buffer_op list \<Rightarrow> blob_buffer \<Rightarrow> (string \<times> git_blob) multiset" where
  "all_handed_over [] b = {#}"
| "all_handed_over (op # ops) b = handed_over op b + all_handed_over ops (buffer_step op b)"

definition all_put :: "buffer_op list \<Rightarrow> (string \<times> git_blob) multiset" where
  "all_put ops = \<Sum>\<^sub># (mset (map put_into ops))"

lemma filter_mset_single: "x \<in># M \<Longrightarrow> \<not> P x \<Longrightarrow> add_mset x (filter_mset P M) \<subseteq># M"
  by (auto dest!: multi_member_split)

lemma entry_pairs_delete: "entry_pairs (AList.delete k es) = filter_mset (\<lambda>(k', _). k' \<noteq> k) (entry_pairs es)"
  by (induction es) (auto simp: entry_pairs_def AList.delete_eq)

lemma entry_pairs_mem: "map_of es k = Some e \<Longrightarrow> (k, be_blob e) \<in># entry_pairs es"
  by (auto simp: entry_pairs_def dest: map_of_SomeD)

lemma drop_contents: "contents (drop_blob k b) \<subseteq># contents b"
  by (auto simp: contents_def drop_blob_def entry_pairs_delete split: option.split)

lemma drop_found:
  "map_of (bb_entries b) k = Some e \<Longrightarrow> add_mset (k, be_blob e) (contents (drop_blob k b)) \<subseteq># contents b"
  by (simp add: contents_def drop_blob_def entry_pairs_delete filter_mset_single entry_pairs_mem)

lemma expire_contents: "contents (expire_blobs now b) \<subseteq># contents b"
proof -
  have "contents (expire_from now es b) \<subseteq># contents b" for es
    by (induction now es b rule: expire_from.induct) (auto intro: subset_mset.order_trans drop_contents)
  then show ?thesis by (simp add: expire_blobs_def)
qed

lemma evict_contents: "contents (evict_blobs b) \<subseteq># contents b"
proof (induction b rule: evict_blobs.induct)
  case (1 b)
  have "contents (evict_blobs (drop_blob k b)) \<subseteq># contents b"
    if "bb_entries b = (k, e) # es" and "BLOB_BUFFER_MAX_ENTRIES < length (bb_entries b) \<or> BLOB_BUFFER_MAX_BYTES < bb_bytes b"
    for k e es
    using 1 [OF that(2,1) refl] drop_contents by (rule subset_mset.order_trans)
  then show ?case by (subst evict_blobs.simps) (auto split: list.split)
qed

lemma put_contents:
  "contents (put_blob repo blob now b) \<subseteq># add_mset (bufferKey repo (gb_sha blob) (gb_path blob), blob) (contents b)"
proof -
  let ?k = "bufferKey repo (gb_sha blob) (gb_path blob)"
  let ?d = "drop_blob ?k (expire_blobs now b)"
  let ?full = "?d\<lparr>bb_entries := bb_entries ?d @ [(?k, \<lparr>be_blob = blob, be_expiresAt = now + BLOB_TTL_MS, be_bytes = estimate_blob blob\<rparr>)],
      bb_bytes := bb_bytes ?d + estimate_blob blob\<rparr>"
  have "put_blob repo blob now b = evict_blobs ?full" by (simp add: put_blob_def Let_def)
  then have "contents (put_blob repo blob now b) \<subseteq># contents ?full" using evict_contents by metis
  also have "contents ?full = add_mset (?k, blob) (contents ?d)" by (simp add: contents_def entry_pairs_def)
  finally have "contents (put_blob repo blob now b) \<subseteq># add_mset (?k, blob) (contents ?d)" .
  moreover have "contents ?d \<subseteq># contents b"
    using drop_contents expire_contents by (rule subset_mset.order_trans)
  ultimately show ?thesis by (meson mset_subset_eq_add_mset_cancel subset_mset.order_trans)
qed

lemma take_contents:
  "handed_over (TakeBlob repo s path now) b + contents (snd (take_blob repo s path now b)) \<subseteq># contents b"
proof (cases "map_of (bb_entries (expire_blobs now b)) (bufferKey repo s path)")
  case None
  then show ?thesis by (simp add: take_blob_def Let_def expire_contents)
next
  case (Some e)
  then show ?thesis
    using subset_mset.order_trans [OF drop_found [OF Some] expire_contents] by (simp add: take_blob_def Let_def)
qed

lemma step_contents: "handed_over op b + contents (buffer_step op b) \<subseteq># put_into op + contents b"
  using put_contents take_contents by (cases op) (auto simp del: handed_over.simps(2))

lemma run_contents: "all_handed_over ops b \<subseteq># all_put ops + contents b"
proof (induction ops arbitrary: b)
  case (Cons op ops)
  have "all_handed_over (op # ops) b \<subseteq># handed_over op b + (all_put ops + contents (buffer_step op b))"
    using Cons.IH by simp
  also have "\<dots> = all_put ops + (handed_over op b + contents (buffer_step op b))" by (simp add: ac_simps)
  also have "\<dots> \<subseteq># all_put ops + (put_into op + contents b)" using step_contents by simp
  finally show ?case by (simp add: all_put_def ac_simps)
qed (simp add: all_put_def)

text \<open>
  Every file that was put is handed over at most once, to someone who asked for exactly that
  repository, sha and path, and nothing else is ever handed over.
\<close>

theorem a_blob_is_handed_over_once: "all_handed_over ops empty_buffer \<subseteq># all_put ops"
  using run_contents [of ops empty_buffer] by (simp add: contents_def entry_pairs_def empty_buffer_def)

lemma bufferKey_inject:
  assumes "CHR 0x00 \<notin> set repo" "CHR 0x00 \<notin> set repo'" "CHR 0x00 \<notin> set s" "CHR 0x00 \<notin> set s'"
  shows "bufferKey repo s path = bufferKey repo' s' path' \<longleftrightarrow> repo = repo' \<and> s = s' \<and> path = path'"
  using assms by (simp add: bufferKey_def append_sep_inject)

end
