(* ===== verification/GitIngest.thy ===== *)
theory GitIngest
  imports GitStore
begin

text \<open>
  \<^verbatim>\<open>apps/api/src/git/git-ingest.service.ts\<close>: what a \<open>repos\<close> frame of an agent does to the rows, the
  bucket and the buffer. Statements take effect when they are made and one frame is applied at a
  time. A step that throws gives \<open>None\<close> beside the state it leaves. Inserting a second row under a
  unique index throws, and a save in chunks is one transaction. The id of a new row of a checkout
  comes from outside.
\<close>

section \<open>State\<close>

record git_db =
  db_repos :: "repo_row list"
  db_commits :: "commit_row list"
  db_refs :: "ref_row list"
  db_bucket :: bucket
  db_blobs :: blob_buffer

record ingest_one =
  io_newCommits :: nat
  io_storedDetails :: nat
  io_skippedDetails :: nat
  io_prunedCommits :: nat

definition EMPTY_RESULT :: ingest_one where
  "EMPTY_RESULT = \<lparr>io_newCommits = 0, io_storedDetails = 0, io_skippedDetails = 0, io_prunedCommits = 0\<rparr>"

record ingest_summary =
  gs_repos :: nat
  gs_newCommits :: nat
  gs_storedDetails :: nat
  gs_skippedDetails :: nat
  gs_prunedCommits :: nat
  gs_prunedRepos :: nat
  gs_newDetailPaths :: "string list"

definition REPO_MISSING_GRACE_MS :: int where "REPO_MISSING_GRACE_MS = 30 * 60000"

definition PRUNE_CHUNK :: nat where "PRUNE_CHUNK = 200"

text \<open>The sizes in use are positive.\<close>

function chunked :: "'a list \<Rightarrow> nat \<Rightarrow> 'a list list" where
  "chunked items n =
     (if items = [] \<or> n = 0 then [] else take n items # chunked (drop n items) n)"
  by pat_completeness auto
termination by (relation "measure (\<lambda>(items, _). length items)") auto

declare chunked.simps [simp del]

lemma concat_chunked: "0 < n \<Longrightarrow> concat (chunked items n) = items"
  by (induction items n rule: chunked.induct) (subst chunked.simps, simp)

text \<open>The oldest date of a window, in milliseconds.\<close>

definition windowFloor :: "git_commit list \<Rightarrow> int option" where
  "windowFloor commits =
     map_option (\<lambda>d. d * 1000)
       (fold (\<lambda>c oldest. case gc_date c of None \<Rightarrow> oldest
          | Some d \<Rightarrow> (case oldest of None \<Rightarrow> Some d | Some m \<Rightarrow> if d < m then Some d else oldest)) commits None)"

section \<open>Statements\<close>

definition upd_repo :: "string \<Rightarrow> (repo_row \<Rightarrow> repo_row) \<Rightarrow> git_db \<Rightarrow> git_db" where
  "upd_repo i f db = db\<lparr>db_repos := map (\<lambda>r. if rp_id r = i then f r else r) (db_repos db)\<rparr>"

text \<open>An update of the rows of a checkout whose sha satisfies \<open>P\<close>.\<close>

definition upd_commits :: "string \<Rightarrow> (commit_row \<Rightarrow> bool) \<Rightarrow> (commit_row \<Rightarrow> commit_row) \<Rightarrow> git_db \<Rightarrow> git_db" where
  "upd_commits repo P f db =
     db\<lparr>db_commits := map (\<lambda>r. if cr_repo r = repo \<and> P r then f r else r) (db_commits db)\<rparr>"

definition delete_commits :: "string \<Rightarrow> string list \<Rightarrow> git_db \<Rightarrow> git_db" where
  "delete_commits repo shas db =
     db\<lparr>db_commits := filter (\<lambda>r. \<not> (cr_repo r = repo \<and> cr_sha r \<in> set shas)) (db_commits db)\<rparr>"

definition commits_of :: "string \<Rightarrow> git_db \<Rightarrow> commit_row list" where
  "commits_of repo db = filter (\<lambda>r. cr_repo r = repo) (db_commits db)"

definition on_bucket :: "(bucket \<Rightarrow> bucket) \<Rightarrow> git_db \<Rightarrow> git_db" where
  "on_bucket f db = db\<lparr>db_bucket := f (db_bucket db)\<rparr>"

section \<open>One checkout\<close>

definition snapshot_patch :: "string \<Rightarrow> repo_snapshot \<Rightarrow> repo_row \<Rightarrow> repo_row" where
  "snapshot_patch hostId sn r =
     r\<lparr>rp_host := hostId, rp_path := sn_path sn, rp_name := sn_name sn,
       rp_headBranch := gh_branch (sn_head sn), rp_headSha := gh_sha (sn_head sn),
       rp_detached := gh_detached (sn_head sn), rp_ahead := gh_ahead (sn_head sn),
       rp_behind := gh_behind (sn_head sn),
       rp_dirtyCount := (case sn_uncommitted sn of None \<Rightarrow> 0 | Some (t, _) \<Rightarrow> t),
       rp_dirtySubmodules := (case sn_uncommitted sn of None \<Rightarrow> 0 | Some (_, m) \<Rightarrow> m),
       rp_truncated := sn_truncated sn, rp_limit := sn_limit sn, rp_pendingDetails := sn_pending sn,
       rp_lastSnapshotAt := Some (sn_ts sn * 1000), rp_error := sn_error sn\<rparr>"

text \<open>A row with the defaults of its columns.\<close>

definition default_repo :: "string \<Rightarrow> repo_row" where
  "default_repo fresh =
     \<lparr>rp_id = fresh, rp_host = [], rp_path = [], rp_name = [],
       rp_headBranch = None, rp_headSha = None, rp_detached = False, rp_ahead = None, rp_behind = None,
       rp_dirtyCount = 0, rp_dirtySubmodules = 0, rp_truncated = False, rp_limit = 300,
       rp_pendingDetails = 0, rp_hasWorkingDiff = False, rp_lastSnapshotAt = None,
       rp_missingSince = None, rp_error = None, rp_remoteRefs = None, rp_remoteCheckedAt = None,
       rp_remoteError = None\<rparr>"

definition upsertRepo :: "string \<Rightarrow> string \<Rightarrow> repo_snapshot \<Rightarrow> git_db \<Rightarrow> repo_row \<times> git_db" where
  "upsertRepo fresh hostId sn db =
     (case List.find (\<lambda>r. rp_host r = hostId \<and> rp_path r = sn_path sn) (db_repos db) of
        Some existing \<Rightarrow> (snapshot_patch hostId sn existing, upd_repo (rp_id existing) (snapshot_patch hostId sn) db)
      | None \<Rightarrow>
          (let r = snapshot_patch hostId sn (default_repo fresh) in (r, db\<lparr>db_repos := db_repos db @ [r]\<rparr>)))"

definition replaceRefs :: "string \<Rightarrow> repo_snapshot \<Rightarrow> git_db \<Rightarrow> git_db \<times> unit option" where
  "replaceRefs repo sn db =
     (let cleared = db\<lparr>db_refs := filter (\<lambda>(i, _). i \<noteq> repo) (db_refs db)\<rparr> in
      if distinct (map (\<lambda>f. (gr_kind f, gr_name f)) (sn_refs sn))
      then (cleared\<lparr>db_refs := db_refs cleared @ map (Pair repo) (sn_refs sn)\<rparr>, Some ())
      else (cleared, None))"

definition NUL_JOIN :: "string list \<Rightarrow> string" where
  "NUL_JOIN refs = js_join [CHR 0x00] refs"

text \<open>The rows the window finds, read once: \<open>bySha\<close>.\<close>

definition known_rows :: "string \<Rightarrow> repo_snapshot \<Rightarrow> git_db \<Rightarrow> commit_row list" where
  "known_rows repo sn db =
     filter (\<lambda>r. cr_sha r \<in> set (map (sha \<circ> gc_commit) (sn_commits sn)) \<union> set (map cd_sha (sn_details sn)))
       (commits_of repo db)"

definition new_commit_row :: "string \<Rightarrow> nat \<Rightarrow> git_commit \<Rightarrow> commit_row" where
  "new_commit_row repo index c =
     \<lparr>cr_repo = repo, cr_commit = gc_commit c, cr_seq = Some index, cr_refs = gc_refs c, cr_author = gc_author c,
      cr_date = map_option (\<lambda>d. d * 1000) (gc_date c), cr_subject = gc_subject c,
      cr_hasDetail = False, cr_detailEmpty = False\<rparr>"

definition patch_row :: "commit_row \<Rightarrow> nat \<Rightarrow> git_commit \<Rightarrow> commit_row \<Rightarrow> commit_row" where
  "patch_row row index c r =
     (let r' = (if NUL_JOIN (cr_refs row) \<noteq> NUL_JOIN (gc_refs c) then r\<lparr>cr_refs := gc_refs c\<rparr> else r)
      in if cr_seq row \<noteq> Some index then r'\<lparr>cr_seq := Some index\<rparr> else r')"

fun upsert_loop :: "string \<Rightarrow> commit_row list \<Rightarrow> (nat \<times> git_commit) list \<Rightarrow> commit_row list \<times> git_db
    \<Rightarrow> commit_row list \<times> git_db" where
  "upsert_loop repo bySha [] s = s"
| "upsert_loop repo bySha ((index, c) # cs) (inserts, db) =
     (case List.find (\<lambda>r. cr_sha r = sha (gc_commit c)) bySha of
        None \<Rightarrow> upsert_loop repo bySha cs (inserts @ [new_commit_row repo index c], db)
      | Some row \<Rightarrow> upsert_loop repo bySha cs
          (inserts, upd_commits repo (\<lambda>r. cr_sha r = cr_sha row) (patch_row row index c) db))"

definition upsertCommits :: "string \<Rightarrow> repo_snapshot \<Rightarrow> git_db \<Rightarrow> git_db \<times> (nat \<times> (string \<rightharpoonup> bool)) option" where
  "upsertCommits repo sn db =
     (let existing = known_rows repo sn db;
          (inserts, db') = upsert_loop repo existing (enumerate 0 (sn_commits sn)) ([], db);
          state = map_of (rev (map (\<lambda>r. (cr_sha r, cr_hasDetail r)) existing @ map (\<lambda>r. (cr_sha r, False)) inserts))
      in if distinct (map cr_sha inserts)
         then (db'\<lparr>db_commits := db_commits db' @ inserts\<rparr>, Some (length inserts, state))
         else (db', None))"

definition stale_rows :: "string \<Rightarrow> repo_snapshot \<Rightarrow> git_db \<Rightarrow> commit_row list" where
  "stale_rows repo sn db =
     (let keep = map (sha \<circ> gc_commit) (sn_commits sn) @ map cd_sha (sn_details sn) in
      filter (\<lambda>r. cr_sha r \<notin> set keep \<and>
          (\<not> sn_truncated sn \<or> (case (cr_date r, windowFloor (sn_commits sn)) of
             (Some d, Some bottom) \<Rightarrow> bottom < d | _ \<Rightarrow> False)))
        (commits_of repo db))"

definition delete_in_chunks :: "string \<Rightarrow> string list \<Rightarrow> git_db \<Rightarrow> git_db" where
  "delete_in_chunks repo shas db = fold (delete_commits repo) (chunked shas PRUNE_CHUNK) db"

definition pruneCommits :: "bucket_faults \<Rightarrow> repo_row \<Rightarrow> repo_snapshot \<Rightarrow> git_db \<Rightarrow> git_db \<times> nat" where
  "pruneCommits e repo sn db =
     (if sn_commits sn = [] then (db, 0)
      else
        let stale = stale_rows (rp_id repo) sn db;
            rows_gone = delete_in_chunks (rp_id repo) (map cr_sha stale) db
        in (fold (\<lambda>r d. if cr_hasDetail r then on_bucket (deleteCommitDetail e (rp_host repo) (rp_id repo) (cr_sha r)) d else d)
              stale rows_gone, length stale))"

definition clearStaleWindowPositions :: "string \<Rightarrow> repo_snapshot \<Rightarrow> git_db \<Rightarrow> git_db" where
  "clearStaleWindowPositions repo sn db =
     (if sn_commits sn = [] then db
      else upd_commits repo
        (\<lambda>r. cr_sha r \<notin> set (map (sha \<circ> gc_commit) (sn_commits sn)) \<and> cr_seq r \<noteq> None) (cr_seq_update (\<lambda>_. None)) db)"

text \<open>The loop over the details of a frame; \<open>detailState\<close> is not written.\<close>

fun storeDetails :: "bucket_faults \<Rightarrow> string \<Rightarrow> repo_row \<Rightarrow> (string \<rightharpoonup> bool) \<Rightarrow> commit_detail list
    \<Rightarrow> git_db \<times> nat \<times> nat \<Rightarrow> git_db \<times> (nat \<times> nat) option" where
  "storeDetails e hostId repo detailState [] (db, stored, skipped) = (db, Some (stored, skipped))"
| "storeDetails e hostId repo detailState (d # ds) (db, stored, skipped) =
     (if \<not> isValidSha (cd_sha d) then storeDetails e hostId repo detailState ds (db, stored, skipped)
      else if detailState (cd_sha d) = Some True
      then storeDetails e hostId repo detailState ds (db, stored, skipped + 1)
      else case putCommitDetail e hostId (rp_id repo) d (db_bucket db) of
          None \<Rightarrow> (db, None)
        | Some b \<Rightarrow> storeDetails e hostId repo detailState ds
            (upd_commits (rp_id repo) (\<lambda>r. cr_sha r = cd_sha d)
               (\<lambda>r. r\<lparr>cr_hasDetail := True, cr_detailEmpty := cd_empty d\<rparr>) (db\<lparr>db_bucket := b\<rparr>), stored + 1, skipped))"

definition storeWorkingDiff :: "bucket_faults \<Rightarrow> string \<Rightarrow> repo_row \<Rightarrow> repo_snapshot \<Rightarrow> git_db \<Rightarrow> git_db \<times> unit option" where
  "storeWorkingDiff e hostId repo sn db =
     (case sn_workingDiff sn of
        Some w \<Rightarrow>
          (case putWorkingDiff e hostId (rp_id repo) w (db_bucket db) of
             None \<Rightarrow> (db, None)
           | Some b \<Rightarrow> (let db' = db\<lparr>db_bucket := b\<rparr> in
               (if \<not> rp_hasWorkingDiff repo then upd_repo (rp_id repo) (rp_hasWorkingDiff_update (\<lambda>_. True)) db' else db', Some ())))
      | None \<Rightarrow>
          (if rp_hasWorkingDiff repo
           then upd_repo (rp_id repo) (rp_hasWorkingDiff_update (\<lambda>_. False))
                  (on_bucket (deleteWorkingDiff e hostId (rp_id repo)) db)
           else db, Some ()))"

definition ingestOne_full ::
    "bucket_faults \<Rightarrow> string \<Rightarrow> string \<Rightarrow> repo_snapshot \<Rightarrow> git_db \<Rightarrow> git_db \<times> ingest_one option" where
  "ingestOne_full e fresh hostId sn db =
     (let (repo, db1) = upsertRepo fresh hostId sn db in
      if sn_error sn \<noteq> None \<and> sn_error sn \<noteq> Some [] then (db1, Some EMPTY_RESULT)
      else case replaceRefs (rp_id repo) sn db1 of
        (db2, None) \<Rightarrow> (db2, None)
      | (db2, Some _) \<Rightarrow>
          (case upsertCommits (rp_id repo) sn db2 of
             (db3, None) \<Rightarrow> (db3, None)
           | (db3, Some (newCommits, detailState)) \<Rightarrow>
               (let (db4, pruned) = pruneCommits e repo sn db3;
                    db5 = clearStaleWindowPositions (rp_id repo) sn db4
                in case storeDetails e hostId repo detailState (sn_details sn) (db5, 0, 0) of
                     (db6, None) \<Rightarrow> (db6, None)
                   | (db6, Some (stored, skipped)) \<Rightarrow>
                       (case storeWorkingDiff e hostId repo sn db6 of
                          (db7, None) \<Rightarrow> (db7, None)
                        | (db7, Some _) \<Rightarrow>
                            (db7, Some \<lparr>io_newCommits = newCommits, io_storedDetails = stored,
                                        io_skippedDetails = skipped, io_prunedCommits = pruned\<rparr>)))))"

section \<open>The answer to a click\<close>

definition loadDetailState :: "string \<Rightarrow> string list \<Rightarrow> git_db \<Rightarrow> (string \<rightharpoonup> bool)" where
  "loadDetailState repo shas db =
     map_of (rev (map (\<lambda>r. (cr_sha r, cr_hasDetail r)) (filter (\<lambda>r. cr_sha r \<in> set shas) (commits_of repo db))))"

definition partial_patch :: "repo_row \<Rightarrow> repo_snapshot \<Rightarrow> nat \<Rightarrow> repo_row \<Rightarrow> repo_row" where
  "partial_patch repo sn stored r =
     (let seen = r\<lparr>rp_lastSnapshotAt := Some (sn_ts sn * 1000)\<rparr>;
          checked = (case sn_remote sn of None \<Rightarrow> seen
            | Some c \<Rightarrow> seen\<lparr>rp_remoteRefs := Some (rc_refs c), rp_remoteCheckedAt := Some (rc_checkedAt c * 1000),
                rp_remoteError := rc_error c\<rparr>)
      in if 0 < stored then checked\<lparr>rp_pendingDetails := max 0 (rp_pendingDetails repo - int stored)\<rparr> else checked)"

definition ingestPartial ::
    "bucket_faults \<Rightarrow> int \<Rightarrow> string \<Rightarrow> repo_snapshot \<Rightarrow> git_db \<Rightarrow> git_db \<times> ingest_one option" where
  "ingestPartial e now hostId sn db =
     (case List.find (\<lambda>r. rp_host r = hostId \<and> rp_path r = sn_path sn) (db_repos db) of
        None \<Rightarrow> (db, Some EMPTY_RESULT)
      | Some repo \<Rightarrow>
          (case storeDetails e hostId repo (loadDetailState (rp_id repo) (map cd_sha (sn_details sn)) db)
                  (sn_details sn) (db, 0, 0) of
             (db1, None) \<Rightarrow> (db1, None)
           | (db1, Some (stored, skipped)) \<Rightarrow>
               (let kept = (case sn_tree sn of
                      Some t \<Rightarrow> if gt_error t = None then putFileTree e hostId (rp_id repo) t (db_bucket db1)
                                else Some (db_bucket db1)
                    | None \<Rightarrow> Some (db_bucket db1))
                in case kept of None \<Rightarrow> (db1, None)
                   | Some b \<Rightarrow>
                       (let db2 = db1\<lparr>db_bucket := b\<rparr>;
                            db3 = (case sn_blob sn of None \<Rightarrow> db2
                              | Some blob \<Rightarrow> db2\<lparr>db_blobs := put_blob (rp_id repo) blob now (db_blobs db2)\<rparr>)
                        in (upd_repo (rp_id repo) (partial_patch repo sn stored) db3,
                            Some \<lparr>io_newCommits = 0, io_storedDetails = stored, io_skippedDetails = skipped,
                                  io_prunedCommits = 0\<rparr>)))))"

definition ingestOne ::
    "bucket_faults \<Rightarrow> int \<Rightarrow> string \<Rightarrow> string \<Rightarrow> repo_snapshot \<Rightarrow> git_db \<Rightarrow> git_db \<times> ingest_one option" where
  "ingestOne e now fresh hostId sn db =
     (if sn_partial sn then ingestPartial e now hostId sn db else ingestOne_full e fresh hostId sn db)"

section \<open>Which checkouts exist\<close>

definition dropRepo :: "bucket_faults \<Rightarrow> repo_row \<Rightarrow> git_db \<Rightarrow> git_db" where
  "dropRepo e repo db =
     (let commits = commits_of (rp_id repo) db;
          db1 = delete_in_chunks (rp_id repo) (map cr_sha commits) db;
          db2 = db1\<lparr>db_refs := filter (\<lambda>(i, _). i \<noteq> rp_id repo) (db_refs db1),
                    db_repos := filter (\<lambda>r. rp_id r \<noteq> rp_id repo) (db_repos db1)\<rparr>;
          db3 = fold (\<lambda>r d. on_bucket (deleteFileTree e (rp_host repo) (rp_id repo) (cr_sha r))
                  (if cr_hasDetail r then on_bucket (deleteCommitDetail e (rp_host repo) (rp_id repo) (cr_sha r)) d else d))
                  commits db2
      in if rp_hasWorkingDiff repo then on_bucket (deleteWorkingDiff e (rp_host repo) (rp_id repo)) db3 else db3)"

fun reconcile_loop :: "bucket_faults \<Rightarrow> int \<Rightarrow> string set \<Rightarrow> repo_row list \<Rightarrow> git_db \<times> nat \<Rightarrow> git_db \<times> nat" where
  "reconcile_loop e now reported [] s = s"
| "reconcile_loop e now reported (row # rows) (db, dropped) =
     reconcile_loop e now reported rows
       (if rp_path row \<in> reported then
          (if rp_missingSince row \<noteq> None then upd_repo (rp_id row) (rp_missingSince_update (\<lambda>_. None)) db else db, dropped)
        else case rp_missingSince row of
            None \<Rightarrow> (upd_repo (rp_id row) (rp_missingSince_update (\<lambda>_. Some now)) db, dropped)
          | Some since \<Rightarrow>
              if now - since < REPO_MISSING_GRACE_MS then (db, dropped) else (dropRepo e row db, dropped + 1))"

definition reconcileRepos :: "bucket_faults \<Rightarrow> int \<Rightarrow> string \<Rightarrow> repo_snapshot list \<Rightarrow> git_db \<Rightarrow> git_db \<times> nat" where
  "reconcileRepos e now hostId snapshots db =
     (if snapshots = [] \<or> (\<exists>sn \<in> set snapshots. sn_partial sn) then (db, 0)
      else reconcile_loop e now (sn_path ` set snapshots)
        (filter (\<lambda>r. rp_host r = hostId) (db_repos db)) (db, 0))"

text \<open>
  The loop over the checkouts of a frame. Each comes with an id for its row should it be new.
\<close>

definition fold_one :: "repo_snapshot \<Rightarrow> ingest_one option \<Rightarrow> ingest_summary \<Rightarrow> ingest_summary" where
  "fold_one sn one m =
     (case one of None \<Rightarrow> m
      | Some r \<Rightarrow> m\<lparr>gs_repos := gs_repos m + 1, gs_newCommits := gs_newCommits m + io_newCommits r,
          gs_storedDetails := gs_storedDetails m + io_storedDetails r,
          gs_skippedDetails := gs_skippedDetails m + io_skippedDetails r,
          gs_prunedCommits := gs_prunedCommits m + io_prunedCommits r,
          gs_newDetailPaths := (if 0 < io_storedDetails r then gs_newDetailPaths m @ [sn_path sn] else gs_newDetailPaths m)\<rparr>)"

fun ingest_loop :: "bucket_faults \<Rightarrow> int \<Rightarrow> string \<Rightarrow> (string \<times> repo_snapshot) list \<Rightarrow> git_db \<times> ingest_summary
    \<Rightarrow> git_db \<times> ingest_summary" where
  "ingest_loop e now hostId [] s = s"
| "ingest_loop e now hostId ((fresh, sn) # sns) (db, m) =
     (let (db', one) = ingestOne e now fresh hostId sn db
      in ingest_loop e now hostId sns (db', fold_one sn one m))"

definition ingest :: "bucket_faults \<Rightarrow> int \<Rightarrow> string \<Rightarrow> (string \<times> repo_snapshot) list \<Rightarrow> git_db \<Rightarrow> git_db \<times> ingest_summary" where
  "ingest e now hostId frame db =
     (let (db1, m) = ingest_loop e now hostId frame (db, \<lparr>gs_repos = 0, gs_newCommits = 0, gs_storedDetails = 0,
            gs_skippedDetails = 0, gs_prunedCommits = 0, gs_prunedRepos = 0, gs_newDetailPaths = []\<rparr>);
          (db2, dropped) = reconcileRepos e now hostId (map snd frame) db1
      in (db2, m\<lparr>gs_prunedRepos := dropped\<rparr>))"

end
