(* ===== verification/GitFacts.thy ===== *)
theory GitFacts
  imports GitIngest
begin

text \<open>
  What \<^verbatim>\<open>git-ingest.service.ts\<close> keeps true of the rows and the bucket, whatever frames arrive and
  whichever calls of the bucket fail.
\<close>

declare map_of_eq_Some_iff [simp del] Some_eq_map_of_iff [simp del]

section \<open>A consistent database\<close>

definition place :: "repo_row \<Rightarrow> string \<times> string \<times> string" where
  "place p = (rp_id p, rp_host p, rp_path p)"

definition row_key :: "commit_row \<Rightarrow> string \<times> string" where
  "row_key r = (cr_repo r, cr_sha r)"

definition detail_stored :: "bucket \<Rightarrow> repo_row \<Rightarrow> string \<Rightarrow> bool" where
  "detail_stored b p s \<longleftrightarrow>
     (\<exists>d. read_object (commitDetailKey (rp_host p) (rp_id p) s) b = Some (DetailObject d) \<and> cd_sha d = s)"

definition working_stored :: "bucket \<Rightarrow> repo_row \<Rightarrow> bool" where
  "working_stored b p \<longleftrightarrow>
     (\<exists>w. read_object (workingDiffKey (rp_host p) (rp_id p)) b = Some (WorkingObject w))"

text \<open>The constraints of the tables.\<close>

definition tables_ok :: "git_db \<Rightarrow> bool" where
  "tables_ok db \<longleftrightarrow> distinct (map rp_id (db_repos db))
     \<and> distinct (map (\<lambda>p. (rp_host p, rp_path p)) (db_repos db))
     \<and> distinct (map row_key (db_commits db))
     \<and> cr_repo ` set (db_commits db) \<subseteq> rp_id ` set (db_repos db)"

text \<open>A row that says it has a patch, or a checkout that says it has a working diff, has it in the bucket.\<close>

definition flags_ok :: "git_db \<Rightarrow> bool" where
  "flags_ok db \<longleftrightarrow> (\<forall>p \<in> set (db_repos db).
     (\<forall>r \<in> set (db_commits db). cr_repo r = rp_id p \<longrightarrow> cr_hasDetail r \<longrightarrow> detail_stored (db_bucket db) p (cr_sha r))
     \<and> (rp_hasWorkingDiff p \<longrightarrow> working_stored (db_bucket db) p))"

definition git_ok :: "git_db \<Rightarrow> bool" where
  "git_ok db \<longleftrightarrow> tables_ok db \<and> flags_ok db"

lemma flags_okD:
  "flags_ok db \<Longrightarrow> p \<in> set (db_repos db) \<Longrightarrow> r \<in> set (db_commits db) \<Longrightarrow> cr_repo r = rp_id p
    \<Longrightarrow> cr_hasDetail r \<Longrightarrow> detail_stored (db_bucket db) p (cr_sha r)"
  by (auto simp: flags_ok_def)

section \<open>What a change of one table needs\<close>

lemma places_split:
  assumes "map place ps = map place qs"
  shows "map rp_id ps = map rp_id qs" "map (\<lambda>p. (rp_host p, rp_path p)) ps = map (\<lambda>p. (rp_host p, rp_path p)) qs"
proof -
  have "map fst (map place ps) = map fst (map place qs)" "map snd (map place ps) = map snd (map place qs)"
    using assms by simp_all
  then show "map rp_id ps = map rp_id qs" "map (\<lambda>p. (rp_host p, rp_path p)) ps = map (\<lambda>p. (rp_host p, rp_path p)) qs"
    by (simp_all add: place_def comp_def)
qed

lemma place_in:
  assumes "map place ps = map place qs" and "p \<in> set ps"
  obtains q where "q \<in> set qs" "rp_id q = rp_id p" "rp_host q = rp_host p" "rp_path q = rp_path p"
proof -
  have "place p \<in> set (map place qs)" using assms by (metis image_eqI set_map)
  then show ?thesis using that by (auto simp: place_def)
qed

lemma stored_place:
  "rp_id q = rp_id p \<Longrightarrow> rp_host q = rp_host p \<Longrightarrow> detail_stored b q s = detail_stored b p s"
  "rp_id q = rp_id p \<Longrightarrow> rp_host q = rp_host p \<Longrightarrow> working_stored b q = working_stored b p"
  by (simp_all add: detail_stored_def working_stored_def)

lemma git_ok_repos:
  assumes "git_ok db" and "map place ps = map place (db_repos db)"
    and "\<forall>p \<in> set ps. rp_hasWorkingDiff p \<longrightarrow> working_stored (db_bucket db) p"
  shows "git_ok (db\<lparr>db_repos := ps\<rparr>)"
proof -
  have "rp_id ` set ps = rp_id ` set (db_repos db)"
    using places_split(1) [OF assms(2)] by (metis set_map)
  moreover have "detail_stored (db_bucket db) p (cr_sha r)"
    if r: "p \<in> set ps" "r \<in> set (db_commits db)" "cr_repo r = rp_id p" "cr_hasDetail r" for p r
  proof -
    obtain q where "q \<in> set (db_repos db)" "rp_id q = rp_id p" "rp_host q = rp_host p"
      using place_in [OF assms(2) r(1)] by blast
    then show ?thesis using flags_okD [of db q r] assms(1) r stored_place(1) [of q p]
      by (simp add: git_ok_def)
  qed
  ultimately show ?thesis
    using assms places_split [OF assms(2)] by (simp add: git_ok_def tables_ok_def flags_ok_def)
qed

text \<open>Rows that are kept, changed or added say they have a patch only where a row said so before.\<close>

lemma git_ok_commits:
  assumes "git_ok db" and "distinct (map row_key rows)"
    and "\<forall>r \<in> set rows. cr_repo r \<in> rp_id ` set (db_repos db)
      \<and> (cr_hasDetail r \<longrightarrow> (\<exists>r' \<in> set (db_commits db). row_key r' = row_key r \<and> cr_hasDetail r'))"
  shows "git_ok (db\<lparr>db_commits := rows\<rparr>)"
proof -
  have "detail_stored (db_bucket db) p (cr_sha r)"
    if r: "p \<in> set (db_repos db)" "r \<in> set rows" "cr_repo r = rp_id p" "cr_hasDetail r" for p r
  proof -
    obtain r' where "r' \<in> set (db_commits db)" "row_key r' = row_key r" "cr_hasDetail r'"
      using assms(3) r by blast
    then show ?thesis using flags_okD [of db p r'] assms(1) r by (simp add: git_ok_def row_key_def)
  qed
  moreover have "cr_repo ` set rows \<subseteq> rp_id ` set (db_repos db)" using assms(3) by blast
  ultimately show ?thesis using assms by (simp add: git_ok_def tables_ok_def flags_ok_def)
qed

lemma git_ok_bucket:
  assumes "git_ok db"
    and "\<And>p r. p \<in> set (db_repos db) \<Longrightarrow> r \<in> set (db_commits db) \<Longrightarrow> cr_repo r = rp_id p \<Longrightarrow> cr_hasDetail r
      \<Longrightarrow> detail_stored (db_bucket db) p (cr_sha r) \<Longrightarrow> detail_stored b p (cr_sha r)"
    and "\<And>p. p \<in> set (db_repos db) \<Longrightarrow> rp_hasWorkingDiff p \<Longrightarrow> working_stored (db_bucket db) p \<Longrightarrow> working_stored b p"
  shows "git_ok (db\<lparr>db_bucket := b\<rparr>)"
  using assms by (auto simp: git_ok_def tables_ok_def flags_ok_def)

lemma git_ok_refs [simp]: "git_ok (db\<lparr>db_refs := x\<rparr>) = git_ok db"
  by (simp add: git_ok_def tables_ok_def flags_ok_def)

lemma git_ok_blobs [simp]: "git_ok (db\<lparr>db_blobs := x\<rparr>) = git_ok db"
  by (simp add: git_ok_def tables_ok_def flags_ok_def)

section \<open>Every step keeps it\<close>

lemma git_ok_upd_repo:
  assumes "git_ok db"
    and "\<And>p. p \<in> set (db_repos db) \<Longrightarrow> rp_id p = i \<Longrightarrow>
      place (f p) = place p \<and> (rp_hasWorkingDiff (f p) \<longrightarrow> working_stored (db_bucket db) p)"
  shows "git_ok (upd_repo i f db)"
  unfolding upd_repo_def
proof (rule git_ok_repos [OF assms(1)])
  show "map place (map (\<lambda>r. if rp_id r = i then f r else r) (db_repos db)) = map place (db_repos db)"
    using assms(2) by simp
  have "working_stored b (f p) = working_stored b p" if "p \<in> set (db_repos db)" "rp_id p = i" for b p
    using assms(2) [OF that] stored_place(2) [of "f p" p] by (simp add: place_def)
  then show "\<forall>p \<in> set (map (\<lambda>r. if rp_id r = i then f r else r) (db_repos db)).
      rp_hasWorkingDiff p \<longrightarrow> working_stored (db_bucket db) p"
    using assms by (auto simp: git_ok_def flags_ok_def)
qed

lemma git_ok_upd_commits:
  assumes "git_ok db" and "\<And>r. row_key (f r) = row_key r" and "\<And>r. cr_hasDetail (f r) \<longrightarrow> cr_hasDetail r"
  shows "git_ok (upd_commits repo P f db)"
proof -
  define g where "g = (\<lambda>r. if cr_repo r = repo \<and> P r then f r else r)"
  have g: "row_key (g r) = row_key r" "cr_repo (g r) = cr_repo r" "cr_hasDetail (g r) \<longrightarrow> cr_hasDetail r" for r
    using assms(2,3) [of r] by (simp_all add: g_def row_key_def)
  have "git_ok (db\<lparr>db_commits := map g (db_commits db)\<rparr>)"
  proof (rule git_ok_commits [OF assms(1)])
    have "map row_key (map g (db_commits db)) = map row_key (db_commits db)" by (simp add: g(1))
    then show "distinct (map row_key (map g (db_commits db)))"
      using assms(1) by (simp only: git_ok_def tables_ok_def)
    show "\<forall>r \<in> set (map g (db_commits db)). cr_repo r \<in> rp_id ` set (db_repos db)
      \<and> (cr_hasDetail r \<longrightarrow> (\<exists>r' \<in> set (db_commits db). row_key r' = row_key r \<and> cr_hasDetail r'))"
    proof
      fix r assume "r \<in> set (map g (db_commits db))"
      then obtain r0 where r0: "r0 \<in> set (db_commits db)" "r = g r0" by auto
      have "cr_repo r0 \<in> rp_id ` set (db_repos db)" using assms(1) r0(1) by (auto simp: git_ok_def tables_ok_def)
      then show "cr_repo r \<in> rp_id ` set (db_repos db)
        \<and> (cr_hasDetail r \<longrightarrow> (\<exists>r' \<in> set (db_commits db). row_key r' = row_key r \<and> cr_hasDetail r'))"
        using r0 g [of r0] by auto
    qed
  qed
  then show ?thesis by (simp add: upd_commits_def g_def)
qed

lemma git_ok_filter_commits: "git_ok db \<Longrightarrow> git_ok (db\<lparr>db_commits := filter P (db_commits db)\<rparr>)"
  by (rule git_ok_commits) (auto simp: git_ok_def tables_ok_def distinct_map_filter)

text \<open>What the statements leave alone.\<close>

lemma untouched [simp]:
  "db_repos (upd_commits repo P g db) = db_repos db" "db_bucket (upd_commits repo P g db) = db_bucket db"
  "db_repos (delete_commits repo ss db) = db_repos db" "db_bucket (delete_commits repo ss db) = db_bucket db"
  "db_repos (on_bucket h db) = db_repos db" "db_commits (on_bucket h db) = db_commits db"
  "db_bucket (on_bucket h db) = h (db_bucket db)"
  "db_commits (upd_repo i f db) = db_commits db" "db_bucket (upd_repo i f db) = db_bucket db"
  by (simp_all add: upd_commits_def delete_commits_def on_bucket_def upd_repo_def)

lemma row_of_id:
  "tables_ok db \<Longrightarrow> p \<in> set (db_repos db) \<Longrightarrow> q \<in> set (db_repos db) \<Longrightarrow> rp_id p = rp_id q \<Longrightarrow> p = q"
  by (auto simp: tables_ok_def distinct_map inj_on_def)

lemma snapshot_patch_keeps [simp]:
  "rp_id (snapshot_patch h sn p) = rp_id p" "rp_host (snapshot_patch h sn p) = h"
  "rp_path (snapshot_patch h sn p) = sn_path sn" "rp_hasWorkingDiff (snapshot_patch h sn p) = rp_hasWorkingDiff p"
  "rp_missingSince (snapshot_patch h sn p) = rp_missingSince p"
  by (simp_all add: snapshot_patch_def)

lemma git_ok_new_repo:
  assumes "git_ok db" and "rp_id p \<notin> rp_id ` set (db_repos db)" and "\<not> rp_hasWorkingDiff p"
    and "\<forall>q \<in> set (db_repos db). \<not> (rp_host q = rp_host p \<and> rp_path q = rp_path p)"
  shows "git_ok (db\<lparr>db_repos := db_repos db @ [p]\<rparr>)"
proof -
  have t: "tables_ok db" "flags_ok db" using assms(1) by (simp_all add: git_ok_def)
  have "cr_repo r \<noteq> rp_id p" if "r \<in> set (db_commits db)" for r
    using t(1) assms(2) that unfolding tables_ok_def by (metis image_eqI subsetD)
  then have "flags_ok (db\<lparr>db_repos := db_repos db @ [p]\<rparr>)"
    using t(2) assms(3) by (simp add: flags_ok_def)
  moreover have "tables_ok (db\<lparr>db_repos := db_repos db @ [p]\<rparr>)"
    using t(1) assms(2,4) unfolding tables_ok_def by auto
  ultimately show ?thesis by (simp add: git_ok_def)
qed

lemma upsertRepo_ok:
  assumes "git_ok db" and "fresh \<notin> rp_id ` set (db_repos db)" and "upsertRepo fresh hostId sn db = (repo, db')"
  shows "git_ok db' \<and> repo \<in> set (db_repos db') \<and> rp_host repo = hostId \<and> rp_path repo = sn_path sn
    \<and> db_commits db' = db_commits db \<and> db_bucket db' = db_bucket db
    \<and> rp_id ` set (db_repos db') \<subseteq> insert fresh (rp_id ` set (db_repos db))"
proof (cases "List.find (\<lambda>r. rp_host r = hostId \<and> rp_path r = sn_path sn) (db_repos db)")
  case None
  then have new: "\<forall>p \<in> set (db_repos db). \<not> (rp_host p = hostId \<and> rp_path p = sn_path sn)"
    by (auto simp: find_None_iff)
  have db': "db' = db\<lparr>db_repos := db_repos db @ [repo]\<rparr>" and r: "repo = snapshot_patch hostId sn (default_repo fresh)"
    using assms(3) None by (auto simp: upsertRepo_def Let_def)
  have repo: "rp_id repo = fresh" "rp_host repo = hostId" "rp_path repo = sn_path sn" "\<not> rp_hasWorkingDiff repo"
    by (simp_all add: r default_repo_def)
  have "git_ok db'" unfolding db' using assms(1,2) new repo by (intro git_ok_new_repo) auto
  then show ?thesis using repo by (simp add: db')
next
  case (Some p)
  then have p: "p \<in> set (db_repos db)" "rp_host p = hostId" "rp_path p = sn_path sn" by (auto dest: find_Some_in)
  define f where "f = snapshot_patch hostId sn"
  have f: "repo = f p" "db' = upd_repo (rp_id p) f db"
    "\<And>q. place (f q) = (rp_id q, hostId, sn_path sn)" "\<And>q. rp_hasWorkingDiff (f q) = rp_hasWorkingDiff q"
    using assms(3) Some by (simp_all add: upsertRepo_def f_def place_def)
  have "git_ok db'"
    unfolding f(2)
  proof (rule git_ok_upd_repo [OF assms(1)])
    fix q assume q: "q \<in> set (db_repos db)" "rp_id q = rp_id p"
    then have "q = p" using row_of_id assms(1) p(1) by (auto simp: git_ok_def)
    then show "place (f q) = place q \<and> (rp_hasWorkingDiff (f q) \<longrightarrow> working_stored (db_bucket db) q)"
      using f(3,4) p assms(1) by (simp add: place_def git_ok_def flags_ok_def)
  qed
  moreover have "rp_id (f q) = rp_id q" for q using f(3) [of q] by (simp add: place_def)
  ultimately show ?thesis using f(3) [of p] p(1) by (auto simp: f(1,2) upd_repo_def place_def)
qed

lemma replaceRefs_ok:
  "git_ok db \<Longrightarrow> replaceRefs repo sn db = (db', r) \<Longrightarrow>
    git_ok db' \<and> db_repos db' = db_repos db \<and> db_commits db' = db_commits db \<and> db_bucket db' = db_bucket db"
  by (auto simp: replaceRefs_def Let_def split: if_splits)

lemma patch_row_keeps [simp]:
  "row_key (patch_row row i c r) = row_key r" "cr_hasDetail (patch_row row i c r) = cr_hasDetail r"
  "cr_commit (patch_row row i c r) = cr_commit r" "cr_date (patch_row row i c r) = cr_date r"
  "cr_repo (patch_row row i c r) = cr_repo r"
  by (simp_all add: patch_row_def row_key_def Let_def)

text \<open>The window is read against the rows known beforehand: what is not among them is inserted.\<close>

lemma upsert_loop_ok:
  "git_ok db \<Longrightarrow> upsert_loop repo bySha cs (inserts, db) = (inserts', db') \<Longrightarrow>
    git_ok db' \<and> db_repos db' = db_repos db \<and> db_bucket db' = db_bucket db
    \<and> map row_key (db_commits db') = map row_key (db_commits db)
    \<and> (\<exists>news. inserts' = inserts @ news \<and>
        (\<forall>r \<in> set news. cr_repo r = repo \<and> \<not> cr_hasDetail r \<and> cr_sha r \<notin> cr_sha ` set bySha
          \<and> cr_sha r \<in> (sha \<circ> gc_commit \<circ> snd) ` set cs))"
proof (induction repo bySha cs "(inserts, db)" arbitrary: inserts db rule: upsert_loop.induct)
  case (2 repo bySha index c cs inserts db)
  show ?case
  proof (cases "List.find (\<lambda>r. cr_sha r = sha (gc_commit c)) bySha")
    case None
    then have "sha (gc_commit c) \<notin> cr_sha ` set bySha" by (auto simp: find_None_iff)
    then show ?thesis using 2(1) [OF None 2(3)] 2(4) None by (auto simp: new_commit_row_def)
  next
    case (Some row)
    have "map row_key (db_commits (upd_commits repo P (patch_row row index c) db)) = map row_key (db_commits db)" for P
      by (simp add: upd_commits_def)
    then show ?thesis
      using 2(2) [OF Some git_ok_upd_commits [OF 2(3)]] 2(4) Some by auto
  qed
qed simp

lemma known_rows_mem:
  "r \<in> set (known_rows repo sn db) \<longleftrightarrow> r \<in> set (db_commits db) \<and> cr_repo r = repo
    \<and> cr_sha r \<in> (sha \<circ> gc_commit) ` set (sn_commits sn) \<union> cd_sha ` set (sn_details sn)"
  by (auto simp: known_rows_def commits_of_def)

lemma image_enumerate: "f ` snd ` set (enumerate n xs) = f ` set xs"
  by (metis image_set map_snd_enumerate)

lemma upsertCommits_ok:
  assumes "git_ok db" and "repo \<in> rp_id ` set (db_repos db)" and "upsertCommits repo sn db = (db', r)"
  shows "git_ok db' \<and> db_repos db' = db_repos db \<and> db_bucket db' = db_bucket db"
proof -
  obtain inserts db1 where loop:
    "upsert_loop repo (known_rows repo sn db) (enumerate 0 (sn_commits sn)) ([], db) = (inserts, db1)" by force
  note after = upsert_loop_ok [OF assms(1) loop]
  show ?thesis
  proof (cases "distinct (map cr_sha inserts)")
    case False
    then show ?thesis using assms(3) loop after by (auto simp: upsertCommits_def Let_def)
  next
    case True
    then have db': "db' = db1\<lparr>db_commits := db_commits db1 @ inserts\<rparr>"
      using assms(3) loop by (auto simp: upsertCommits_def Let_def)
    have new: "cr_repo r = repo" "\<not> cr_hasDetail r" "cr_sha r \<notin> cr_sha ` set (known_rows repo sn db)"
      "cr_sha r \<in> (sha \<circ> gc_commit) ` set (sn_commits sn)" if "r \<in> set inserts" for r
      using after that image_enumerate [of "sha \<circ> gc_commit" 0 "sn_commits sn"] by (auto simp: image_comp)
    have fresh: "row_key r \<notin> row_key ` set (db_commits db)" if r: "r \<in> set inserts" for r
    proof
      assume "row_key r \<in> row_key ` set (db_commits db)"
      then obtain x where x: "x \<in> set (db_commits db)" "row_key x = row_key r" by auto
      then have "x \<in> set (known_rows repo sn db)"
        using new(1,4) [OF r] by (simp add: known_rows_mem row_key_def)
      then have "cr_sha x \<in> cr_sha ` set (known_rows repo sn db)" by (rule imageI)
      then show False using new(3) [OF r] x(2) by (simp add: row_key_def)
    qed
    have same: "map row_key (db_commits db1) = map row_key (db_commits db)" using after by blast
    have "distinct (map row_key inserts)"
      using True new(1) by (auto simp: distinct_map inj_on_def row_key_def)
    moreover have "distinct (map row_key (db_commits db))" using assms(1) by (simp add: git_ok_def tables_ok_def)
    moreover have "row_key ` set (db_commits db) \<inter> row_key ` set inserts = {}"
      using fresh by (intro equals0I) (elim IntE imageE, metis imageI)
    ultimately have "distinct (map row_key (db_commits db1 @ inserts))"
      by (simp only: map_append same distinct_append set_map simp_thms)
    moreover have "\<forall>r \<in> set (db_commits db1 @ inserts). cr_repo r \<in> rp_id ` set (db_repos db1)
      \<and> (cr_hasDetail r \<longrightarrow> (\<exists>r' \<in> set (db_commits db1). row_key r' = row_key r \<and> cr_hasDetail r'))"
      using after new assms(2) by (auto simp: git_ok_def tables_ok_def)
    ultimately have "git_ok db'" unfolding db' using after by (intro git_ok_commits) auto
    then show ?thesis using after by (simp add: db')
  qed
qed

section \<open>The bucket\<close>

lemma tree_key_not_working: "fileTreeKey h r s = Some k \<Longrightarrow> workingDiffKey h' r' \<noteq> Some k"
proof
  assume k: "fileTreeKey h r s = Some k" "workingDiffKey h' r' = Some k"
  then have v: "isValidSha s" by (auto simp: fileTreeKey_def split: if_splits)
  then have "s @ CHR ''.'' # ''tree.json'' = ''working'' @ CHR ''.'' # ''json''"
    using k by (auto simp: fileTreeKey_def workingDiffKey_def repoPrefix_slash_inject)
  then show False using v sha_no_dot by (simp add: append_sep_inject flip: append.simps)
qed

text \<open>A change of the bucket under one key leaves what is stored under the others.\<close>

lemma detail_elsewhere:
  assumes "detail_stored b p s" and "\<And>k. commitDetailKey (rp_host p) (rp_id p) s = Some k \<Longrightarrow> b' k = b k"
  shows "detail_stored b' p s"
  using assms by (auto simp: detail_stored_def read_object_def bind_eq_Some_conv)

lemma working_elsewhere:
  assumes "working_stored b p" and "\<And>k. workingDiffKey (rp_host p) (rp_id p) = Some k \<Longrightarrow> b' k = b k"
  shows "working_stored b' p"
  using assms by (auto simp: working_stored_def read_object_def bind_eq_Some_conv)

lemma delete_object_other: "key \<noteq> Some k \<Longrightarrow> delete_object e key b k = b k"
  by (auto simp: delete_object_def split: option.split)

lemma put_object_other: "put_object e key v b = Some b' \<Longrightarrow> key \<noteq> Some k \<Longrightarrow> b' k = b k"
  by (auto simp: put_object_def split: option.splits if_splits)

lemma put_object_stored: "put_object e key v b = Some b' \<Longrightarrow> read_object key b' = Some v"
  by (auto simp: put_object_def read_object_def split: option.splits if_splits)

lemma delete_detail_ok:
  assumes "git_ok db" and "\<forall>r \<in> set (db_commits db). \<not> (cr_repo r = i \<and> cr_sha r = s)"
  shows "git_ok (on_bucket (deleteCommitDetail e h i s) db)"
  unfolding on_bucket_def
proof (rule git_ok_bucket [OF assms(1)])
  fix p r assume r: "r \<in> set (db_commits db)" "cr_repo r = rp_id p" "detail_stored (db_bucket db) p (cr_sha r)"
  then have "commitDetailKey (rp_host p) (rp_id p) (cr_sha r) = Some k \<Longrightarrow> commitDetailKey h i s \<noteq> Some k" for k
    using assms(2) key_inject by metis
  then show "detail_stored (deleteCommitDetail e h i s (db_bucket db)) p (cr_sha r)"
    using r(3) by (intro detail_elsewhere [OF r(3)]) (metis deleteCommitDetail_def delete_object_other)
next
  fix p assume "working_stored (db_bucket db) p"
  then show "working_stored (deleteCommitDetail e h i s (db_bucket db)) p"
    by (rule working_elsewhere) (metis deleteCommitDetail_def delete_object_other detail_key_not_working)
qed

lemma delete_tree_ok: "git_ok db \<Longrightarrow> git_ok (on_bucket (deleteFileTree e h i s) db)"
  unfolding on_bucket_def
  by (rule git_ok_bucket, assumption)
    (metis deleteFileTree_def delete_object_other detail_elsewhere detail_key_not_tree,
     metis deleteFileTree_def delete_object_other working_elsewhere tree_key_not_working)

lemma put_tree_ok:
  assumes "git_ok db" and "putFileTree e h i t (db_bucket db) = Some b"
  shows "git_ok (db\<lparr>db_bucket := b\<rparr>)"
  by (rule git_ok_bucket [OF assms(1)])
    (metis assms(2) putFileTree_def put_object_other detail_elsewhere detail_key_not_tree,
     metis assms(2) putFileTree_def put_object_other working_elsewhere tree_key_not_working)

lemma working_key_inject:
  "workingDiffKey h r = Some k \<Longrightarrow> workingDiffKey h' r' = Some k \<Longrightarrow> h = h' \<and> r = r'"
  using repoPrefix_slash_inject [of h r _ h' r' _ "[]" "[]"] by (auto simp: workingDiffKey_def)

lemma delete_working_ok:
  assumes "git_ok db" and "\<forall>p \<in> set (db_repos db). rp_id p = i \<longrightarrow> \<not> rp_hasWorkingDiff p"
  shows "git_ok (on_bucket (deleteWorkingDiff e h i) db)"
  unfolding on_bucket_def
proof (rule git_ok_bucket [OF assms(1)])
  fix p s assume "detail_stored (db_bucket db) p s"
  then show "detail_stored (deleteWorkingDiff e h i (db_bucket db)) p s"
    by (rule detail_elsewhere) (metis deleteWorkingDiff_def delete_object_other detail_key_not_working)
next
  fix p assume p: "p \<in> set (db_repos db)" "rp_hasWorkingDiff p" "working_stored (db_bucket db) p"
  then have "workingDiffKey (rp_host p) (rp_id p) = Some k \<Longrightarrow> workingDiffKey h i \<noteq> Some k" for k
    using assms(2) working_key_inject by metis
  then show "working_stored (deleteWorkingDiff e h i (db_bucket db)) p"
    by (intro working_elsewhere [OF p(3)]) (metis deleteWorkingDiff_def delete_object_other)
qed

lemma put_working_ok:
  assumes "git_ok db" and "putWorkingDiff e h i w (db_bucket db) = Some b"
  shows "git_ok (db\<lparr>db_bucket := b\<rparr>)"
proof (rule git_ok_bucket [OF assms(1)])
  fix p s assume "detail_stored (db_bucket db) p s"
  then show "detail_stored b p s"
    by (rule detail_elsewhere) (metis assms(2) putWorkingDiff_def put_object_other detail_key_not_working)
next
  fix p assume p: "working_stored (db_bucket db) p"
  show "working_stored b p"
  proof (cases "workingDiffKey (rp_host p) (rp_id p) = workingDiffKey h i")
    case True
    then show ?thesis using put_object_stored [OF assms(2) [unfolded putWorkingDiff_def]] by (simp add: working_stored_def)
  next
    case False
    then show ?thesis by (intro working_elsewhere [OF p]) (metis assms(2) putWorkingDiff_def put_object_other)
  qed
qed

section \<open>One checkout\<close>

lemma git_ok_delete_commits: "git_ok db \<Longrightarrow> git_ok (delete_commits repo ss db)"
  by (simp add: delete_commits_def git_ok_filter_commits)

lemma delete_in_chunks_all: "delete_in_chunks repo ss db = delete_commits repo ss db"
proof -
  have "fold (delete_commits repo) css db = delete_commits repo (concat css) db" for css
  proof (induction css arbitrary: db)
    case (Cons c css)
    have "filter (\<lambda>r. \<not> (cr_repo r = repo \<and> cr_sha r \<in> set t)) (filter (\<lambda>r. \<not> (cr_repo r = repo \<and> cr_sha r \<in> set u)) rs)
      = filter (\<lambda>r. \<not> (cr_repo r = repo \<and> cr_sha r \<in> set (u @ t))) rs" for t u rs
      by (induction rs) auto
    then have "delete_commits repo t (delete_commits repo u db) = delete_commits repo (u @ t) db" for t u
      by (simp add: delete_commits_def del: filter_filter)
    then show ?case using Cons by simp
  qed (simp add: delete_commits_def)
  then show ?thesis by (simp add: delete_in_chunks_def concat_chunked PRUNE_CHUNK_def)
qed

lemma on_bucket_tables [simp]:
  "db_repos (fold (\<lambda>r d. if P r then on_bucket (f r) d else d) rs db) = db_repos db"
  "db_commits (fold (\<lambda>r d. if P r then on_bucket (f r) d else d) rs db) = db_commits db"
  by (induction rs arbitrary: db) simp_all

lemma pruneCommits_ok:
  assumes "git_ok db" and "pruneCommits e repo sn db = (db', n)"
  shows "git_ok db' \<and> db_repos db' = db_repos db"
proof (cases "sn_commits sn = []")
  case False
  define stale where "stale = stale_rows (rp_id repo) sn db"
  define gone where "gone = delete_commits (rp_id repo) (map cr_sha stale) db"
  have "git_ok d \<Longrightarrow> db_commits d = db_commits gone \<Longrightarrow> set rs \<subseteq> set stale \<Longrightarrow>
    git_ok (fold (\<lambda>r d. if cr_hasDetail r then on_bucket (deleteCommitDetail e (rp_host repo) (rp_id repo) (cr_sha r)) d else d) rs d)"
    for rs d
  proof (induction rs arbitrary: d)
    case (Cons r rs)
    have "\<forall>x \<in> set (db_commits d). \<not> (cr_repo x = rp_id repo \<and> cr_sha x = cr_sha r)"
      using Cons.prems(2,3) by (auto simp: gone_def delete_commits_def)
    then show ?case using Cons by (simp add: delete_detail_ok)
  qed simp
  from this [of gone stale] show ?thesis
    using assms False
    by (auto simp: pruneCommits_def Let_def delete_in_chunks_all git_ok_delete_commits gone_def stale_def)
qed (use assms in \<open>simp add: pruneCommits_def\<close>)

lemma clear_ok:
  "git_ok db \<Longrightarrow> git_ok (clearStaleWindowPositions repo sn db)
    \<and> db_repos (clearStaleWindowPositions repo sn db) = db_repos db"
  by (auto simp: clearStaleWindowPositions_def row_key_def intro!: git_ok_upd_commits)

text \<open>The object first, then the flag.\<close>

lemma tables_ok_map:
  assumes "tables_ok db" and "\<And>r. row_key (g r) = row_key r" and "db_repos db' = db_repos db"
    and "db_commits db' = map g (db_commits db)"
  shows "tables_ok db'"
proof -
  have "map row_key (db_commits db') = map row_key (db_commits db)" by (simp add: assms(2,4))
  moreover have "cr_repo (g r) = cr_repo r" for r using assms(2) [of r] by (simp add: row_key_def)
  then have "cr_repo ` set (db_commits db') = cr_repo ` set (db_commits db)" by (simp add: assms(4) image_image)
  ultimately show ?thesis using assms(1,3) by (simp only: tables_ok_def)
qed

lemma put_detail_ok:
  assumes "git_ok db" and "p \<in> set (db_repos db)" "rp_id p = i" "rp_host p = h"
    and "putCommitDetail e h i d (db_bucket db) = Some b"
  shows "git_ok (upd_commits i (\<lambda>r. cr_sha r = cd_sha d)
    (\<lambda>r. r\<lparr>cr_hasDetail := True, cr_detailEmpty := cd_empty d\<rparr>) (db\<lparr>db_bucket := b\<rparr>))"
proof -
  define f where "f = (\<lambda>r. if cr_repo r = i \<and> cr_sha r = cd_sha d then r\<lparr>cr_hasDetail := True, cr_detailEmpty := cd_empty d\<rparr> else r)"
  note put = assms(5) [unfolded putCommitDetail_def]
  have new: "detail_stored b p (cd_sha d)"
    using put_object_stored [OF put] assms(3,4) by (simp add: detail_stored_def)
  have old: "detail_stored b q s" if "detail_stored (db_bucket db) q s" for q s
  proof (cases "commitDetailKey (rp_host q) (rp_id q) s = commitDetailKey h i (cd_sha d)")
    case True
    obtain k where "commitDetailKey h i (cd_sha d) = Some k" using put by (auto simp: put_object_def split: option.splits)
    then have "s = cd_sha d" using key_inject [of "rp_host q" "rp_id q" s k h i "cd_sha d"] True by simp
    then show ?thesis using put_object_stored [OF put] True by (simp add: detail_stored_def)
  next
    case False
    then show ?thesis using put_object_other [OF put] by (intro detail_elsewhere [OF that]) auto
  qed
  have work: "working_stored b q" if "working_stored (db_bucket db) q" for q
    using put_object_other [OF put] detail_key_not_working by (intro working_elsewhere [OF that]) metis
  have "tables_ok (db\<lparr>db_bucket := b, db_commits := map f (db_commits db)\<rparr>)"
    using assms(1) by - (rule tables_ok_map [of db f], simp_all add: git_ok_def row_key_def f_def)
  moreover have "detail_stored b q (cr_sha (f r))"
    if r: "q \<in> set (db_repos db)" "r \<in> set (db_commits db)" "cr_repo (f r) = rp_id q" "cr_hasDetail (f r)" for q r
  proof (cases "cr_repo r = i \<and> cr_sha r = cd_sha d")
    case True
    then have "q = p" using row_of_id [of db q p] assms(1-3) r by (simp add: git_ok_def f_def)
    then show ?thesis using True new by (simp add: f_def)
  next
    case False
    then have "f r = r" by (simp only: f_def if_False)
    then have "cr_repo r = rp_id q" "cr_hasDetail r" using r(3,4) by simp_all
    then show ?thesis using \<open>f r = r\<close> flags_okD [OF _ r(1,2)] assms(1) old by (simp add: git_ok_def)
  qed
  then have "flags_ok (db\<lparr>db_bucket := b, db_commits := map f (db_commits db)\<rparr>)"
    using assms(1) work by (auto simp: git_ok_def flags_ok_def)
  ultimately show ?thesis by (simp add: git_ok_def upd_commits_def f_def)
qed

lemma storeDetails_ok:
  "git_ok db \<Longrightarrow> \<exists>p \<in> set (db_repos db). rp_id p = rp_id repo \<and> rp_host p = hostId
    \<Longrightarrow> storeDetails e hostId repo st ds (db, k, m) = (db', r) \<Longrightarrow> git_ok db' \<and> db_repos db' = db_repos db"
proof (induction e hostId repo st ds "(db, k, m)" arbitrary: db k m rule: storeDetails.induct)
  case (2 e hostId repo st d ds db k m)
  consider "\<not> isValidSha (cd_sha d)" | "isValidSha (cd_sha d)" "st (cd_sha d) = Some True"
    | "isValidSha (cd_sha d)" "st (cd_sha d) \<noteq> Some True" by blast
  then show ?case
  proof cases
    case 3
    obtain p where p: "p \<in> set (db_repos db)" "rp_id p = rp_id repo" "rp_host p = hostId" using 2(5) by blast
    show ?thesis
    proof (cases "putCommitDetail e hostId (rp_id repo) d (db_bucket db)")
      case (Some b)
      show ?thesis using 2(3) [OF _ 3(2) Some put_detail_ok [OF 2(4) p Some]] 2(5,6) 3 Some by simp
    qed (use 2 3 in simp)
  qed (use 2 in simp_all)
qed simp

lemma storeWorkingDiff_ok:
  assumes "git_ok db" and "repo' \<in> set (db_repos db)" "rp_id repo' = rp_id repo" "rp_host repo' = hostId"
    and "rp_hasWorkingDiff repo' = rp_hasWorkingDiff repo"
    and "storeWorkingDiff e hostId repo sn db = (db', r)"
  shows "git_ok db' \<and> map place (db_repos db') = map place (db_repos db)"
proof -
  have stored: "p = repo'" if "p \<in> set (db_repos db)" "rp_id p = rp_id repo" for p
    using row_of_id [of db p repo'] assms(1-3) that by (simp add: git_ok_def)
  have same: "map place (db_repos (upd_repo i (rp_hasWorkingDiff_update f) d)) = map place (db_repos d)" for i f d
    by (simp add: upd_repo_def place_def)
  show ?thesis
  proof (cases "sn_workingDiff sn")
    case None
    have flip: "upd_repo i f (on_bucket g d) = on_bucket g (upd_repo i f d)" for i f g d
      by (simp add: upd_repo_def on_bucket_def)
    have "git_ok (upd_repo (rp_id repo) (rp_hasWorkingDiff_update (\<lambda>_. False)) db)"
      by (rule git_ok_upd_repo [OF assms(1)]) (simp add: place_def)
    then have "git_ok (on_bucket (deleteWorkingDiff e hostId (rp_id repo))
        (upd_repo (rp_id repo) (rp_hasWorkingDiff_update (\<lambda>_. False)) db))"
      by (rule delete_working_ok) (auto simp: upd_repo_def)
    then show ?thesis using assms(1,6) None same
      by (auto simp: storeWorkingDiff_def flip split: if_splits)
  next
    case (Some w)
    show ?thesis
    proof (cases "putWorkingDiff e hostId (rp_id repo) w (db_bucket db)")
      case (Some b)
      have put: "working_stored b repo'"
        using put_object_stored [OF Some [unfolded putWorkingDiff_def]] assms(3,4) by (simp add: working_stored_def)
      have "git_ok (upd_repo (rp_id repo) (rp_hasWorkingDiff_update (\<lambda>_. True)) (db\<lparr>db_bucket := b\<rparr>))"
        using stored put by (intro git_ok_upd_repo [OF put_working_ok [OF assms(1) Some]]) (auto simp: place_def)
      then show ?thesis using assms(6) \<open>sn_workingDiff sn = Some w\<close> Some put_working_ok [OF assms(1) Some] same [of _ _ "db\<lparr>db_bucket := b\<rparr>"]
        by (auto simp: storeWorkingDiff_def Let_def split: if_splits)
    qed (use assms(1,6) Some in \<open>simp add: storeWorkingDiff_def\<close>)
  qed
qed

lemma place_owner:
  "map place ps = map place qs \<Longrightarrow> \<exists>p \<in> set qs. rp_id p = i \<and> rp_host p = h \<Longrightarrow> \<exists>p \<in> set ps. rp_id p = i \<and> rp_host p = h"
  by (metis place_in)

lemma ids_of_places: "map place ps = map place qs \<Longrightarrow> rp_id ` set ps = rp_id ` set qs"
  by (metis places_split(1) set_map)

definition reports_error :: "repo_snapshot \<Rightarrow> bool" where
  "reports_error sn \<longleftrightarrow> sn_error sn \<noteq> None \<and> sn_error sn \<noteq> Some []"

lemma ingestOne_full_run:
  assumes "upsertRepo fresh hostId sn db = (repo, db1)" and "replaceRefs (rp_id repo) sn db1 = (db2, r2)"
    and "upsertCommits (rp_id repo) sn db2 = (db3, r3)" and "pruneCommits e repo sn db3 = (db4, pruned)"
    and "db5 = clearStaleWindowPositions (rp_id repo) sn db4"
  shows "ingestOne_full e fresh hostId sn db =
    (if reports_error sn then (db1, Some EMPTY_RESULT)
     else case r2 of None \<Rightarrow> (db2, None) | Some _ \<Rightarrow>
       (case r3 of None \<Rightarrow> (db3, None) | Some (new, st) \<Rightarrow>
         (case storeDetails e hostId repo st (sn_details sn) (db5, 0, 0) of
            (db6, None) \<Rightarrow> (db6, None)
          | (db6, Some (stored, skipped)) \<Rightarrow>
              (case storeWorkingDiff e hostId repo sn db6 of
                 (db7, None) \<Rightarrow> (db7, None)
               | (db7, Some _) \<Rightarrow> (db7, Some \<lparr>io_newCommits = new, io_storedDetails = stored,
                   io_skippedDetails = skipped, io_prunedCommits = pruned\<rparr>)))))"
  using assms by (simp add: ingestOne_full_def reports_error_def split: option.split)

lemma ingestOne_full_ok:
  assumes "git_ok db" and "fresh \<notin> rp_id ` set (db_repos db)" and "ingestOne_full e fresh hostId sn db = (db', r)"
  shows "git_ok db' \<and> rp_id ` set (db_repos db') \<subseteq> insert fresh (rp_id ` set (db_repos db))"
proof -
  obtain repo db1 where 1: "upsertRepo fresh hostId sn db = (repo, db1)" by force
  obtain db2 r2 where 2: "replaceRefs (rp_id repo) sn db1 = (db2, r2)" by force
  obtain db3 r3 where 3: "upsertCommits (rp_id repo) sn db2 = (db3, r3)" by force
  obtain db4 pruned where 4: "pruneCommits e repo sn db3 = (db4, pruned)" by force
  define db5 where "db5 = clearStaleWindowPositions (rp_id repo) sn db4"
  note ok1 = upsertRepo_ok [OF assms(1,2) 1]
  then have ok2: "git_ok db2" "db_repos db2 = db_repos db1" using replaceRefs_ok [OF _ 2] by auto
  then have ok3: "git_ok db3" "db_repos db3 = db_repos db1" using upsertCommits_ok [OF _ _ 3] ok1 by auto
  then have "git_ok db4" "db_repos db4 = db_repos db1" using pruneCommits_ok [OF _ 4] by auto
  then have ok5: "git_ok db5" "db_repos db5 = db_repos db1" using clear_ok by (simp_all add: db5_def)
  have own: "\<exists>p \<in> set (db_repos db5). rp_id p = rp_id repo \<and> rp_host p = hostId" using ok1 ok5 by auto
  have store: "git_ok db6 \<and> db_repos db6 = db_repos db1"
    if "storeDetails e hostId repo st (sn_details sn) (db5, 0, 0) = (db6, r6)" for st db6 r6
    using storeDetails_ok [OF ok5(1) own that] ok5 by simp
  have work: "git_ok db7 \<and> rp_id ` set (db_repos db7) = rp_id ` set (db_repos db1)"
    if "git_ok db6 \<and> db_repos db6 = db_repos db1" "storeWorkingDiff e hostId repo sn db6 = (db7, r7)" for db6 db7 r7
    using storeWorkingDiff_ok [OF _ _ refl _ refl that(2)] ok1 that(1) ids_of_places [of "db_repos db7"] by auto
  have fin: ?thesis if "git_ok db' \<and> rp_id ` set (db_repos db') = rp_id ` set (db_repos db1)"
    using that ok1 by simp
  note run = assms(3) [unfolded ingestOne_full_run [OF 1 2 3 4 db5_def]]
  show ?thesis
  proof (cases "reports_error sn \<or> r2 = None \<or> r3 = None")
    case True
    then show ?thesis using run ok1 ok2 ok3 by (intro fin) (auto split: if_splits option.splits)
  next
    case False
    then obtain new st where r3: "r3 = Some (new, st)" by auto
    obtain db6 r6 where 6: "storeDetails e hostId repo st (sn_details sn) (db5, 0, 0) = (db6, r6)" by force
    obtain db7 r7 where 7: "storeWorkingDiff e hostId repo sn db6 = (db7, r7)" by force
    have "db' = db6 \<or> db' = db7" using run False by (auto simp: r3 6 7 split: option.splits)
    then show ?thesis using store [OF 6] work [OF store [OF 6] 7] by (intro fin) auto
  qed
qed

lemma partial_patch_keeps [simp]:
  "rp_id (partial_patch q sn n p) = rp_id p" "rp_host (partial_patch q sn n p) = rp_host p"
  "rp_path (partial_patch q sn n p) = rp_path p" "rp_hasWorkingDiff (partial_patch q sn n p) = rp_hasWorkingDiff p"
  "rp_missingSince (partial_patch q sn n p) = rp_missingSince p"
  by (simp_all add: partial_patch_def Let_def split: option.split)

lemma ingestPartial_ok:
  assumes "git_ok db" and "ingestPartial e now hostId sn db = (db', r)"
  shows "git_ok db' \<and> rp_id ` set (db_repos db') = rp_id ` set (db_repos db)"
proof (cases "List.find (\<lambda>r. rp_host r = hostId \<and> rp_path r = sn_path sn) (db_repos db)")
  case (Some repo)
  then have repo: "repo \<in> set (db_repos db)" "rp_host repo = hostId" by (auto dest: find_Some_in)
  obtain db1 r1 where 1: "storeDetails e hostId repo (loadDetailState (rp_id repo) (map cd_sha (sn_details sn)) db)
      (sn_details sn) (db, 0, 0) = (db1, r1)" by force
  have ok1: "git_ok db1" "db_repos db1 = db_repos db" using storeDetails_ok [OF assms(1) _ 1] repo by auto
  have tree: "git_ok (db1\<lparr>db_bucket := b\<rparr>)" if "putFileTree e hostId (rp_id repo) t (db_bucket db1) = Some b" for t b
    using put_tree_ok [OF ok1(1) that] .
  have patch: "git_ok (upd_repo i (partial_patch repo sn n) d) \<and> rp_id ` set (db_repos (upd_repo i (partial_patch repo sn n) d)) = rp_id ` set (db_repos db)"
    if "git_ok d" "db_repos d = db_repos db" for i n d
  proof
    show "git_ok (upd_repo i (partial_patch repo sn n) d)"
      using that(1) by (intro git_ok_upd_repo) (auto simp: place_def git_ok_def flags_ok_def)
    have "map place (db_repos (upd_repo i (partial_patch repo sn n) d)) = map place (db_repos db)"
      using that(2) by (simp add: upd_repo_def place_def)
    then show "rp_id ` set (db_repos (upd_repo i (partial_patch repo sn n) d)) = rp_id ` set (db_repos db)"
      by (rule ids_of_places)
  qed
  show ?thesis
    using assms(2) Some 1 ok1 tree
    by (auto simp: ingestPartial_def Let_def patch split: option.splits if_splits del: equalityI)
qed (use assms in \<open>auto simp: ingestPartial_def\<close>)

section \<open>A frame\<close>

lemma ingestOne_ok:
  assumes "git_ok db" and "fresh \<notin> rp_id ` set (db_repos db)" and "ingestOne e now fresh hostId sn db = (db', r)"
  shows "git_ok db' \<and> rp_id ` set (db_repos db') \<subseteq> insert fresh (rp_id ` set (db_repos db))"
  using assms ingestOne_full_ok ingestPartial_ok unfolding ingestOne_def by (metis subset_insertI)

lemma drop_rows: "delete_commits i (map cr_sha (commits_of i db)) db = db\<lparr>db_commits := filter (\<lambda>r. cr_repo r \<noteq> i) (db_commits db)\<rparr>"
proof -
  have "filter (\<lambda>r. \<not> (cr_repo r = i \<and> cr_sha r \<in> set (map cr_sha (commits_of i db)))) (db_commits db)
      = filter (\<lambda>r. cr_repo r \<noteq> i) (db_commits db)"
    by (rule filter_cong) (auto simp: commits_of_def)
  then show ?thesis by (simp add: delete_commits_def)
qed

lemma git_ok_forget:
  assumes "git_ok db"
  shows "git_ok (db\<lparr>db_commits := filter (\<lambda>r. cr_repo r \<noteq> i) (db_commits db),
    db_repos := filter (\<lambda>p. rp_id p \<noteq> i) (db_repos db)\<rparr>)"
proof -
  have "cr_repo ` {r \<in> set (db_commits db). cr_repo r \<noteq> i} \<subseteq> rp_id ` {p \<in> set (db_repos db). rp_id p \<noteq> i}"
    using assms by (auto simp: git_ok_def tables_ok_def)
  then show ?thesis
    using assms by (simp add: git_ok_def tables_ok_def flags_ok_def distinct_map_filter)
qed

lemma dropRepo_ok:
  assumes "git_ok db"
  shows "git_ok (dropRepo e repo db) \<and> db_repos (dropRepo e repo db) = filter (\<lambda>p. rp_id p \<noteq> rp_id repo) (db_repos db)"
proof -
  define gone where "gone = db\<lparr>db_commits := filter (\<lambda>r. cr_repo r \<noteq> rp_id repo) (db_commits db),
    db_refs := filter (\<lambda>(i, _). i \<noteq> rp_id repo) (db_refs db),
    db_repos := filter (\<lambda>p. rp_id p \<noteq> rp_id repo) (db_repos db)\<rparr>"
  let ?step = "\<lambda>r d. on_bucket (deleteFileTree e (rp_host repo) (rp_id repo) (cr_sha r))
    (if cr_hasDetail r then on_bucket (deleteCommitDetail e (rp_host repo) (rp_id repo) (cr_sha r)) d else d)"
  have loop: "git_ok (fold ?step rs d) \<and> db_repos (fold ?step rs d) = db_repos d \<and> db_commits (fold ?step rs d) = db_commits d"
    if "git_ok d" "\<forall>x \<in> set (db_commits d). cr_repo x \<noteq> rp_id repo" for rs d
    using that
  proof (induction rs arbitrary: d)
    case (Cons r rs)
    have "git_ok (?step r d)" using Cons.prems by (simp add: delete_detail_ok delete_tree_ok)
    then show ?case using Cons.IH [of "?step r d"] Cons.prems(2) by simp
  qed simp
  have "git_ok gone" using git_ok_forget [OF assms, of "rp_id repo"] by (simp add: gone_def git_ok_def tables_ok_def flags_ok_def)
  moreover have "\<forall>x \<in> set (db_commits gone). cr_repo x \<noteq> rp_id repo" by (simp add: gone_def)
  ultimately have "git_ok (fold ?step (commits_of (rp_id repo) db) gone)
    \<and> db_repos (fold ?step (commits_of (rp_id repo) db) gone) = db_repos gone" using loop by blast
  moreover have "dropRepo e repo db = (let d = fold ?step (commits_of (rp_id repo) db) gone in
      if rp_hasWorkingDiff repo then on_bucket (deleteWorkingDiff e (rp_host repo) (rp_id repo)) d else d)"
    by (simp add: dropRepo_def Let_def delete_in_chunks_all drop_rows gone_def)
  ultimately show ?thesis using delete_working_ok by (auto simp: Let_def gone_def)
qed

lemma missing_ok:
  "git_ok db \<Longrightarrow> git_ok (upd_repo i (rp_missingSince_update f) db)
    \<and> map place (db_repos (upd_repo i (rp_missingSince_update f) db)) = map place (db_repos db)"
proof -
  assume ok: "git_ok db"
  then have "git_ok (upd_repo i (rp_missingSince_update f) db)"
    by (rule git_ok_upd_repo) (use ok in \<open>auto simp: place_def git_ok_def flags_ok_def\<close>)
  then show ?thesis by (simp add: upd_repo_def place_def)
qed

lemma reconcile_loop_ok:
  "git_ok db \<Longrightarrow> reconcile_loop e now reported rows (db, n) = (db', m)
    \<Longrightarrow> git_ok db' \<and> rp_id ` set (db_repos db') \<subseteq> rp_id ` set (db_repos db)"
proof (induction e now reported rows "(db, n)" arbitrary: db n rule: reconcile_loop.induct)
  case (2 e now reported row rows db n)
  define s where "s = (if rp_path row \<in> reported then
          (if rp_missingSince row \<noteq> None then upd_repo (rp_id row) (rp_missingSince_update (\<lambda>_. None)) db else db, n)
        else case rp_missingSince row of
            None \<Rightarrow> (upd_repo (rp_id row) (rp_missingSince_update (\<lambda>_. Some now)) db, n)
          | Some since \<Rightarrow>
              if now - since < REPO_MISSING_GRACE_MS then (db, n) else (dropRepo e row db, n + 1))"
  have mark: "rp_id ` set (db_repos (upd_repo i (rp_missingSince_update f) db)) \<subseteq> rp_id ` set (db_repos db)" for i f
    using missing_ok [OF 2(2)] ids_of_places by (metis order_refl)
  have "git_ok (fst s) \<and> rp_id ` set (db_repos (fst s)) \<subseteq> rp_id ` set (db_repos db)"
    using 2(2) missing_ok [OF 2(2)] mark dropRepo_ok [OF 2(2), of e row]
    by (simp add: s_def image_mono split: option.split)
  then show ?case using 2(1) [folded s_def, of "fst s" "snd s"] 2(3)
    unfolding reconcile_loop.simps s_def [symmetric] by (metis prod.collapse subset_trans)
qed simp

lemma ingest_loop_ok:
  "git_ok db \<Longrightarrow> distinct (map fst frame) \<Longrightarrow> fst ` set frame \<inter> rp_id ` set (db_repos db) = {}
    \<Longrightarrow> ingest_loop e now hostId frame (db, m) = (db', m')
    \<Longrightarrow> git_ok db' \<and> rp_id ` set (db_repos db') \<subseteq> fst ` set frame \<union> rp_id ` set (db_repos db)"
proof (induction e now hostId frame "(db, m)" arbitrary: db m rule: ingest_loop.induct)
  case (2 e now hostId fresh sn sns db m)
  obtain db1 one where 1: "ingestOne e now fresh hostId sn db = (db1, one)" by force
  have ok: "git_ok db1" "rp_id ` set (db_repos db1) \<subseteq> insert fresh (rp_id ` set (db_repos db))"
    using ingestOne_ok [OF 2(2) _ 1] 2(4) by auto
  have "fst ` set sns \<inter> insert fresh (rp_id ` set (db_repos db)) = {}" using 2(3,4) by auto
  then have "fst ` set sns \<inter> rp_id ` set (db_repos db1) = {}" using ok(2) by blast
  then have "git_ok db' \<and> rp_id ` set (db_repos db') \<subseteq> fst ` set sns \<union> rp_id ` set (db_repos db1)"
    using 2(1) [OF 1 [symmetric] refl ok(1)] 2(3,5) 1 by simp
  then show ?case using ok(2) by (simp only: list.set image_insert fst_conv) blast
qed simp

lemma ingest_ok:
  assumes "git_ok db" and "distinct (map fst frame)" and "fst ` set frame \<inter> rp_id ` set (db_repos db) = {}"
  shows "git_ok (fst (ingest e now hostId frame db))
    \<and> rp_id ` set (db_repos (fst (ingest e now hostId frame db))) \<subseteq> fst ` set frame \<union> rp_id ` set (db_repos db)"
proof -
  obtain db1 m where 1: "ingest_loop e now hostId frame (db, \<lparr>gs_repos = 0, gs_newCommits = 0, gs_storedDetails = 0,
            gs_skippedDetails = 0, gs_prunedCommits = 0, gs_prunedRepos = 0, gs_newDetailPaths = []\<rparr>) = (db1, m)" by force
  obtain db2 n where 2: "reconcileRepos e now hostId (map snd frame) db1 = (db2, n)" by force
  have ok: "git_ok db1 \<and> rp_id ` set (db_repos db1) \<subseteq> fst ` set frame \<union> rp_id ` set (db_repos db)"
    by (rule ingest_loop_ok [OF assms 1])
  then have "git_ok db2 \<and> rp_id ` set (db_repos db2) \<subseteq> rp_id ` set (db_repos db1)"
    using 2 reconcile_loop_ok by (auto simp: reconcileRepos_def split: if_splits)
  moreover have "fst (ingest e now hostId frame db) = db2" using 1 2 by (simp add: ingest_def)
  ultimately show ?thesis using ok by (simp only:) blast
qed

end
