(* ===== verification/GitRead.thy ===== *)
theory GitRead
  imports GitIngest DetailRequests Ordering
begin

text \<open>
  \<^verbatim>\<open>apps/api/src/git/git.service.ts\<close>: what browsers read of a checkout. The look-up of a host is a
  parameter (it is scoped by organization elsewhere), the request for a detail is the listener the
  agents' side registers and may throw, and the database orders texts by a comparison of its own.
  A date travels as its milliseconds.
\<close>

datatype git_error = HostNotFound | RepoNotFound | InvalidSha | InvalidPath | CommitNotFound

type_synonym 'a answer = "git_error + 'a"

record 'a detail_response =
  dr_available :: bool
  dr_detail :: "'a option"
  dr_pending :: int

record graph_commit =
  gq_sha :: string
  gq_parents :: "string list"
  gq_refs :: "string list"
  gq_author :: string
  gq_date :: "int option"
  gq_subject :: string
  gq_hasDetail :: bool

record repo_graph =
  rg_repo :: repo_row
  rg_refs :: "git_ref list"
  rg_commits :: "graph_commit list"

text \<open>The host of an organization, and the listener: \<open>None\<close> where it throws.\<close>

record 's git_env =
  host_of :: "string \<Rightarrow> string \<Rightarrow> string option"
  listener :: "string \<Rightarrow> string \<Rightarrow> git_request \<Rightarrow> 's \<Rightarrow> bool option \<times> 's"
  text_cmp :: "string cmp"

section \<open>Lists\<close>

definition listReposForHost :: "'s git_env \<Rightarrow> string \<Rightarrow> git_db \<Rightarrow> repo_row list" where
  "listReposForHost env hostId db =
     js_sort (\<lambda>a b. text_cmp env (rp_name a) (rp_name b)) (filter (\<lambda>r. rp_host r = hostId) (db_repos db))"

definition listRepos :: "'s git_env \<Rightarrow> string \<Rightarrow> string \<Rightarrow> git_db \<Rightarrow> repo_row list answer" where
  "listRepos env org hostId db =
     (case host_of env org hostId of None \<Rightarrow> Inl HostNotFound | Some h \<Rightarrow> Inr (listReposForHost env h db))"

text \<open>\<open>seq ASC NULLS LAST, date DESC\<close>; the database puts a missing date before every other one.\<close>

fun seq_cmp :: "nat option cmp" where
  "seq_cmp (Some i) (Some j) = int i - int j"
| "seq_cmp (Some _) None = -1"
| "seq_cmp None (Some _) = 1"
| "seq_cmp None None = 0"

fun date_desc :: "int option cmp" where
  "date_desc (Some a) (Some b) = b - a"
| "date_desc None (Some _) = -1"
| "date_desc (Some _) None = 1"
| "date_desc None None = 0"

definition commit_row_cmp :: "commit_row cmp" where
  "commit_row_cmp a b = (if seq_cmp (cr_seq a) (cr_seq b) \<noteq> 0 then seq_cmp (cr_seq a) (cr_seq b)
     else date_desc (cr_date a) (cr_date b))"

definition collectedShas :: "string \<Rightarrow> git_db \<Rightarrow> string list" where
  "collectedShas repo db =
     map cr_sha (js_sort (\<lambda>a b. date_desc (cr_date a) (cr_date b)) (filter cr_hasDetail (commits_of repo db)))"

definition getRepo :: "'s git_env \<Rightarrow> string \<Rightarrow> string \<Rightarrow> string \<Rightarrow> git_db \<Rightarrow> repo_row answer" where
  "getRepo env org hostId repoId db =
     (case host_of env org hostId of None \<Rightarrow> Inl HostNotFound
      | Some h \<Rightarrow> (case List.find (\<lambda>r. rp_id r = repoId \<and> rp_host r = h) (db_repos db) of
            None \<Rightarrow> Inl RepoNotFound | Some r \<Rightarrow> Inr r))"

text \<open>\<open>stableTopoOrder\<close> over rows.\<close>

definition ordered_rows :: "commit_row list \<Rightarrow> commit_row list" where
  "ordered_rows rows =
     (if length rows < 2 then rows
      else map (\<lambda>i. rows ! i) (topo_positions heap_push heap_pop [] (map cr_commit rows)))"

definition window_rows :: "repo_row \<Rightarrow> git_db \<Rightarrow> commit_row list" where
  "window_rows repo db = take (nat (rp_limit repo)) (js_sort commit_row_cmp (commits_of (rp_id repo) db))"

definition kind_rank :: "snapshot_ref_kind \<Rightarrow> int" where
  "kind_rank k = (case k of LocalRef \<Rightarrow> 0 | RemoteRef \<Rightarrow> 1 | TagRef \<Rightarrow> 2)"

definition graph_commit_of :: "commit_row \<Rightarrow> graph_commit" where
  "graph_commit_of r =
     \<lparr>gq_sha = cr_sha r, gq_parents = parents (cr_commit r), gq_refs = cr_refs r, gq_author = cr_author r,
      gq_date = cr_date r, gq_subject = cr_subject r, gq_hasDetail = cr_hasDetail r\<rparr>"

text \<open>The kinds order as their names do: local, remote, tag.\<close>

definition graph :: "'s git_env \<Rightarrow> string \<Rightarrow> string \<Rightarrow> string \<Rightarrow> git_db \<Rightarrow> repo_graph answer" where
  "graph env org hostId repoId db =
     (case getRepo env org hostId repoId db of Inl err \<Rightarrow> Inl err
      | Inr repo \<Rightarrow> Inr
          \<lparr>rg_repo = repo,
           rg_refs = js_sort (\<lambda>a b. if kind_rank (gr_kind a) \<noteq> kind_rank (gr_kind b)
               then kind_rank (gr_kind a) - kind_rank (gr_kind b) else text_cmp env (gr_name a) (gr_name b))
             (map snd (filter (\<lambda>(i, _). i = rp_id repo) (db_refs db))),
           rg_commits = map graph_commit_of (ordered_rows (window_rows repo db))\<rparr>)"

section \<open>One commit\<close>

definition askAgent :: "'s git_env \<Rightarrow> repo_row \<Rightarrow> git_request \<Rightarrow> 's \<Rightarrow> bool \<times> 's" where
  "askAgent env repo req s =
     (case listener env (rp_host repo) (rp_path repo) req s of (None, s') \<Rightarrow> (False, s') | (Some b, s') \<Rightarrow> (b, s'))"

definition notCollected :: "'s git_env \<Rightarrow> repo_row \<Rightarrow> string \<Rightarrow> 's \<Rightarrow> commit_detail detail_response \<times> 's" where
  "notCollected env repo s st =
     (let (outstanding, st') = askAgent env repo (DetailRequest s) st in
      (\<lparr>dr_available = False, dr_detail = None,
        dr_pending = (if outstanding then max (rp_pendingDetails repo) 1 else rp_pendingDetails repo)\<rparr>, st'))"

definition find_commit :: "repo_row \<Rightarrow> string \<Rightarrow> git_db \<Rightarrow> commit_row option" where
  "find_commit repo s db = List.find (\<lambda>r. cr_sha r = s) (commits_of (rp_id repo) db)"

definition commitDetail ::
    "'s git_env \<Rightarrow> string \<Rightarrow> string \<Rightarrow> string \<Rightarrow> string \<Rightarrow> git_db \<Rightarrow> 's
      \<Rightarrow> commit_detail detail_response answer \<times> git_db \<times> 's" where
  "commitDetail env org hostId repoId s db st =
     (if \<not> isValidSha s then (Inl InvalidSha, db, st)
      else case getRepo env org hostId repoId db of Inl err \<Rightarrow> (Inl err, db, st)
      | Inr repo \<Rightarrow>
          (case find_commit repo s db of None \<Rightarrow> (Inl CommitNotFound, db, st)
           | Some commit \<Rightarrow>
               if \<not> cr_hasDetail commit then
                 (let (a, st') = notCollected env repo s st in (Inr a, db, st'))
               else case getCommitDetail (rp_host repo) (rp_id repo) s (db_bucket db) of
                   None \<Rightarrow>
                     (let db' = upd_commits (rp_id repo) (\<lambda>r. cr_sha r = s) (cr_hasDetail_update (\<lambda>_. False)) db;
                          (a, st') = notCollected env repo s st
                      in (Inr a, db', st'))
                 | Some d \<Rightarrow> (Inr \<lparr>dr_available = True, dr_detail = Some d, dr_pending = rp_pendingDetails repo\<rparr>, db, st)))"

definition workingDiff ::
    "'s git_env \<Rightarrow> string \<Rightarrow> string \<Rightarrow> string \<Rightarrow> git_db \<Rightarrow> working_diff detail_response answer" where
  "workingDiff env org hostId repoId db =
     (case getRepo env org hostId repoId db of Inl err \<Rightarrow> Inl err
      | Inr repo \<Rightarrow>
          (let none = \<lparr>dr_available = False, dr_detail = None, dr_pending = 0\<rparr> in
           if \<not> rp_hasWorkingDiff repo then Inr none
           else case getWorkingDiff (rp_host repo) (rp_id repo) (db_bucket db) of
               None \<Rightarrow> Inr none
             | Some w \<Rightarrow> Inr \<lparr>dr_available = True, dr_detail = Some w, dr_pending = 0\<rparr>))"

definition commitTree ::
    "'s git_env \<Rightarrow> string \<Rightarrow> string \<Rightarrow> string \<Rightarrow> string \<Rightarrow> git_db \<Rightarrow> 's \<Rightarrow> git_tree detail_response answer \<times> 's" where
  "commitTree env org hostId repoId s db st =
     (if \<not> isValidSha s then (Inl InvalidSha, st)
      else case getRepo env org hostId repoId db of Inl err \<Rightarrow> (Inl err, st)
      | Inr repo \<Rightarrow>
          (case find_commit repo s db of None \<Rightarrow> (Inl CommitNotFound, st)
           | Some _ \<Rightarrow>
               (case getFileTree (rp_host repo) (rp_id repo) s (db_bucket db) of
                  Some t \<Rightarrow> (Inr \<lparr>dr_available = True, dr_detail = Some t, dr_pending = 0\<rparr>, st)
                | None \<Rightarrow>
                    (let (b, st') = askAgent env repo (TreeRequest s) st
                     in (Inr \<lparr>dr_available = False, dr_detail = None, dr_pending = (if b then 1 else 0)\<rparr>, st')))))"

definition commitBlob ::
    "'s git_env \<Rightarrow> int \<Rightarrow> string \<Rightarrow> string \<Rightarrow> string \<Rightarrow> string \<Rightarrow> string \<Rightarrow> git_db \<Rightarrow> 's
      \<Rightarrow> git_blob detail_response answer \<times> git_db \<times> 's" where
  "commitBlob env now org hostId repoId s path db st =
     (if \<not> isValidSha s then (Inl InvalidSha, db, st)
      else if path = [] \<or> 1024 < length path then (Inl InvalidPath, db, st)
      else case getRepo env org hostId repoId db of Inl err \<Rightarrow> (Inl err, db, st)
      | Inr repo \<Rightarrow>
          (case find_commit repo s db of None \<Rightarrow> (Inl CommitNotFound, db, st)
           | Some _ \<Rightarrow>
               (case take_blob (rp_id repo) s path now (db_blobs db) of
                  (Some blob, b) \<Rightarrow>
                    (Inr \<lparr>dr_available = True, dr_detail = Some blob, dr_pending = 0\<rparr>, db\<lparr>db_blobs := b\<rparr>, st)
                | (None, b) \<Rightarrow>
                    (let (out, st') = askAgent env repo (BlobRequest s path) st
                     in (Inr \<lparr>dr_available = False, dr_detail = None, dr_pending = (if out then 1 else 0)\<rparr>,
                         db\<lparr>db_blobs := b\<rparr>, st')))))"

section \<open>Acknowledging what is stored\<close>

text \<open>
  \<^verbatim>\<open>apps/api/src/agents/agent-ack.service.ts\<close>: the agent is told which patches it need not rebuild,
  in frames of at most a thousand; the first frame it does not take ends its checkout.
\<close>

definition ACK_CHUNK :: nat where "ACK_CHUNK = 1000"

definition chunkShas :: "string list \<Rightarrow> string list list" where
  "chunkShas shas = chunked shas ACK_CHUNK"

text \<open>\<open>online\<close> and \<open>deliver\<close> are the registry; \<open>deliver\<close> says whether the frame was taken.\<close>

fun ack_chunks :: "(string \<Rightarrow> string list \<Rightarrow> 's \<Rightarrow> bool \<times> 's) \<Rightarrow> string \<Rightarrow> string list list \<Rightarrow> nat \<times> 's \<Rightarrow> nat \<times> 's" where
  "ack_chunks deliver path [] s = s"
| "ack_chunks deliver path (c # cs) (frames, st) =
     (case deliver path c st of (False, st') \<Rightarrow> (frames, st')
      | (True, st') \<Rightarrow> ack_chunks deliver path cs (frames + 1, st'))"

definition ackRepo ::
    "('s \<Rightarrow> bool) \<Rightarrow> (string \<Rightarrow> string list \<Rightarrow> 's \<Rightarrow> bool \<times> 's) \<Rightarrow> repo_row \<Rightarrow> git_db \<Rightarrow> 's \<Rightarrow> nat \<times> 's" where
  "ackRepo online deliver repo db st =
     (if \<not> online st then (0, st)
      else ack_chunks deliver (rp_path repo) (chunkShas (collectedShas (rp_id repo) db)) (0, st))"

definition ack_rows ::
    "('s \<Rightarrow> bool) \<Rightarrow> (string \<Rightarrow> string list \<Rightarrow> 's \<Rightarrow> bool \<times> 's) \<Rightarrow> git_db \<Rightarrow> repo_row list \<Rightarrow> 's \<Rightarrow> nat \<times> 's" where
  "ack_rows online deliver db rows st =
     fold (\<lambda>repo (frames, st). let (n, st') = ackRepo online deliver repo db st in (frames + n, st')) rows (0, st)"

definition ackAllRepos ::
    "'s git_env \<Rightarrow> ('s \<Rightarrow> bool) \<Rightarrow> (string \<Rightarrow> string list \<Rightarrow> 's \<Rightarrow> bool \<times> 's) \<Rightarrow> string \<Rightarrow> git_db \<Rightarrow> 's \<Rightarrow> nat \<times> 's" where
  "ackAllRepos env online deliver hostId db st = ack_rows online deliver db (listReposForHost env hostId db) st"

definition ackRepoPaths ::
    "'s git_env \<Rightarrow> ('s \<Rightarrow> bool) \<Rightarrow> (string \<Rightarrow> string list \<Rightarrow> 's \<Rightarrow> bool \<times> 's) \<Rightarrow> string \<Rightarrow> string list
      \<Rightarrow> git_db \<Rightarrow> 's \<Rightarrow> nat \<times> 's" where
  "ackRepoPaths env online deliver hostId paths db st =
     (if paths = [] then (0, st)
      else ack_rows online deliver db (filter (\<lambda>r. rp_path r \<in> set paths) (listReposForHost env hostId db)) st)"

end
