(* ===== verification/GitWindow.thy ===== *)
theory GitWindow
  imports GitFacts GitRead
begin

text \<open>
  What one full report of a checkout leaves in its rows, and what the graph then shows.
\<close>

declare map_of_eq_Some_iff [simp del] Some_eq_map_of_iff [simp del]

section \<open>The window written to the rows\<close>

abbreviation gc_sha :: "git_commit \<Rightarrow> string" where
  "gc_sha c \<equiv> sha (gc_commit c)"

definition win_of :: "(nat \<times> git_commit) list \<Rightarrow> string \<Rightarrow> (nat \<times> git_commit) option" where
  "win_of cs s = map_of (map (\<lambda>(i, c). (gc_sha c, (i, c))) cs) s"

definition placed :: "string \<Rightarrow> (nat \<times> git_commit) list \<Rightarrow> commit_row \<Rightarrow> commit_row" where
  "placed repo cs r =
     (if cr_repo r = repo then (case win_of cs (cr_sha r) of None \<Rightarrow> r | Some (i, c) \<Rightarrow> patch_row r i c r) else r)"

lemma win_of_Cons: "win_of ((i, c) # cs) s = (if s = gc_sha c then Some (i, c) else win_of cs s)"
  by (simp add: win_of_def)

lemma win_of_None: "win_of cs s = None \<longleftrightarrow> s \<notin> gc_sha ` snd ` set cs"
  by (force simp: win_of_def map_of_eq_None_iff)

lemma placed_keeps [simp]:
  "row_key (placed repo cs r) = row_key r" "cr_repo (placed repo cs r) = cr_repo r"
  "cr_commit (placed repo cs r) = cr_commit r" "cr_date (placed repo cs r) = cr_date r"
  "cr_hasDetail (placed repo cs r) = cr_hasDetail r"
  by (auto simp: placed_def split: option.split)

lemma row_of_key:
  "distinct (map row_key rows) \<Longrightarrow> r \<in> set rows \<Longrightarrow> q \<in> set rows \<Longrightarrow> cr_repo r = cr_repo q \<Longrightarrow> cr_sha r = cr_sha q \<Longrightarrow> r = q"
  by (auto simp: distinct_map inj_on_def row_key_def)

text \<open>
  The rows found beforehand are those of the table: every row of the window is written once, from
  itself.
\<close>

lemma upsert_loop_spec:
  assumes "distinct (map (gc_sha \<circ> snd) cs)" and "distinct (map row_key (db_commits db))"
    and "\<And>r. r \<in> set (db_commits db) \<Longrightarrow> cr_repo r = repo \<Longrightarrow> cr_sha r \<in> gc_sha ` snd ` set cs \<Longrightarrow> r \<in> set bySha"
    and "\<And>r. r \<in> set bySha \<Longrightarrow> cr_sha r \<in> gc_sha ` snd ` set cs \<Longrightarrow> r \<in> set (db_commits db) \<and> cr_repo r = repo"
  shows "upsert_loop repo bySha cs (ins, db) =
    (ins @ map (\<lambda>(i, c). new_commit_row repo i c) (filter (\<lambda>(i, c). gc_sha c \<notin> cr_sha ` set bySha) cs),
     db\<lparr>db_commits := map (placed repo cs) (db_commits db)\<rparr>)"
  using assms
proof (induction cs arbitrary: ins db)
  case Nil
  then show ?case by (simp add: placed_def win_of_def map_idI)
next
  case (Cons x cs)
  obtain i c where x: "x = (i, c)" by (cases x)
  have later: "gc_sha c \<notin> gc_sha ` snd ` set cs" using Cons.prems(1) by (auto simp: x image_comp)
  show ?case
  proof (cases "List.find (\<lambda>r. cr_sha r = gc_sha c) bySha")
    case None
    then have new: "gc_sha c \<notin> cr_sha ` set bySha" by (auto simp: find_None_iff)
    have "cr_repo r \<noteq> repo \<or> cr_sha r \<noteq> gc_sha c" if "r \<in> set (db_commits db)" for r
    proof (rule ccontr)
      assume "\<not> ?thesis"
      moreover from this have "r \<in> set bySha" using Cons.prems(3) [OF that] by (simp add: x)
      then have "cr_sha r \<in> cr_sha ` set bySha" by (rule imageI)
      ultimately show False using new by simp
    qed
    then have "placed repo (x # cs) r = placed repo cs r" if "r \<in> set (db_commits db)" for r
      using that by (auto simp: placed_def x win_of_Cons)
    then have "map (placed repo (x # cs)) (db_commits db) = map (placed repo cs) (db_commits db)" by simp
    have "upsert_loop repo bySha cs (ins @ [new_commit_row repo i c], db) =
      ((ins @ [new_commit_row repo i c]) @ map (\<lambda>(i, c). new_commit_row repo i c) (filter (\<lambda>(i, c). gc_sha c \<notin> cr_sha ` set bySha) cs),
       db\<lparr>db_commits := map (placed repo cs) (db_commits db)\<rparr>)"
    proof (rule Cons.IH)
      show "distinct (map (gc_sha \<circ> snd) cs)" using Cons.prems(1) by (simp add: comp_def)
      show "r \<in> set bySha"
        if "r \<in> set (db_commits db)" "cr_repo r = repo" "cr_sha r \<in> gc_sha ` snd ` set cs" for r
        using Cons.prems(3) [OF that(1,2)] that(3) by simp
      show "r \<in> set (db_commits db) \<and> cr_repo r = repo"
        if "r \<in> set bySha" "cr_sha r \<in> gc_sha ` snd ` set cs" for r
        using Cons.prems(4) [OF that(1)] that(2) by simp
    qed (rule Cons.prems(2))
    then show ?thesis using None new \<open>map (placed repo (x # cs)) (db_commits db) = map (placed repo cs) (db_commits db)\<close>
      by (simp add: x)
  next
    case (Some row)
    then have row: "row \<in> set bySha" "cr_sha row = gc_sha c" by (auto dest: find_Some_in)
    then have rd: "row \<in> set (db_commits db)" "cr_repo row = repo" using Cons.prems(4) by (auto simp: x)
    define db' where "db' = upd_commits repo (\<lambda>r. cr_sha r = cr_sha row) (patch_row row i c) db"
    define g where "g = (\<lambda>r. if cr_repo r = repo \<and> cr_sha r = cr_sha row then patch_row row i c r else r)"
    have db': "db_commits db' = map g (db_commits db)" by (simp add: db'_def upd_commits_def g_def)
    have g: "row_key (g r) = row_key r" "cr_repo (g r) = cr_repo r" "cr_sha (g r) = cr_sha r" for r
      by (simp_all add: g_def)
    have keep: "g r = r" if "cr_sha r \<in> gc_sha ` snd ` set cs" for r
    proof -
      have "cr_sha r \<noteq> cr_sha row" using later that row(2) by metis
      then show ?thesis by (simp add: g_def)
    qed
    have step: "placed repo cs (g r) = placed repo (x # cs) r" if r: "r \<in> set (db_commits db)" for r
    proof (cases "cr_repo r = repo \<and> cr_sha r = cr_sha row")
      case True
      then have "r = row" using row_of_key [OF Cons.prems(2) r rd(1)] rd(2) by simp
      moreover have "win_of cs (gc_sha c) = None" using later by (simp add: win_of_None)
      ultimately show ?thesis using True by (simp add: placed_def g_def x win_of_Cons row(2) rd(2))
    next
      case False
      then show ?thesis by (auto simp: placed_def g_def x win_of_Cons row(2))
    qed
    have "upsert_loop repo bySha cs (ins, db') =
      (ins @ map (\<lambda>(i, c). new_commit_row repo i c) (filter (\<lambda>(i, c). gc_sha c \<notin> cr_sha ` set bySha) cs),
       db'\<lparr>db_commits := map (placed repo cs) (db_commits db')\<rparr>)"
    proof (rule Cons.IH)
      show "distinct (map (gc_sha \<circ> snd) cs)" using Cons.prems(1) by (simp add: comp_def)
      have "map row_key (db_commits db') = map row_key (db_commits db)" by (simp add: db' g(1))
      then show "distinct (map row_key (db_commits db'))" using Cons.prems(2) by simp
    next
      fix r assume r: "r \<in> set (db_commits db')" "cr_repo r = repo" "cr_sha r \<in> gc_sha ` snd ` set cs"
      then obtain q where "q \<in> set (db_commits db)" "r = g q" by (auto simp: db')
      then show "r \<in> set bySha" using r g [of q] keep [of q] Cons.prems(3) [of q] by auto
    next
      fix r assume r: "r \<in> set bySha" "cr_sha r \<in> gc_sha ` snd ` set cs"
      then have "r \<in> set (db_commits db)" "cr_repo r = repo" using Cons.prems(4) [of r] by auto
      then show "r \<in> set (db_commits db') \<and> cr_repo r = repo"
        using keep [OF r(2)] by (auto simp: db' intro: rev_image_eqI)
    qed
    moreover have "map (placed repo cs) (db_commits db') = map (placed repo (x # cs)) (db_commits db)"
      using step by (simp add: db')
    moreover have "gc_sha c \<in> cr_sha ` set bySha" using row by (metis imageI)
    moreover have "db'\<lparr>db_commits := ys\<rparr> = db\<lparr>db_commits := ys\<rparr>" for ys by (simp add: db'_def upd_commits_def)
    ultimately show ?thesis using Some by (simp add: x db'_def)
  qed
qed

definition win :: "repo_snapshot \<Rightarrow> (nat \<times> git_commit) list" where
  "win sn = enumerate 0 (sn_commits sn)"

definition new_rows :: "string \<Rightarrow> repo_snapshot \<Rightarrow> git_db \<Rightarrow> commit_row list" where
  "new_rows repo sn db = map (\<lambda>(i, c). new_commit_row repo i c)
     (filter (\<lambda>(i, c). gc_sha c \<notin> cr_sha ` set (known_rows repo sn db)) (win sn))"

lemma win_shas: "gc_sha ` snd ` set (win sn) = gc_sha ` set (sn_commits sn)"
  unfolding win_def by (rule image_enumerate)

lemma map_snd_win: "map (gc_sha \<circ> snd) (win sn) = map gc_sha (sn_commits sn)"
  unfolding win_def by (metis map_map map_snd_enumerate)

lemma upsertCommits_spec:
  assumes "tables_ok db" and "distinct (map gc_sha (sn_commits sn))"
  shows "\<exists>st. upsertCommits repo sn db =
    (db\<lparr>db_commits := map (placed repo (win sn)) (db_commits db) @ new_rows repo sn db\<rparr>,
     Some (length (new_rows repo sn db), st))"
proof -
  have "upsert_loop repo (known_rows repo sn db) (win sn) ([], db) =
    ([] @ new_rows repo sn db, db\<lparr>db_commits := map (placed repo (win sn)) (db_commits db)\<rparr>)"
    unfolding new_rows_def
  proof (rule upsert_loop_spec)
    show "distinct (map (gc_sha \<circ> snd) (win sn))" using assms(2) by (simp only: map_snd_win)
    show "distinct (map row_key (db_commits db))" using assms(1) by (simp add: tables_ok_def)
  qed (auto simp: win_shas known_rows_mem)
  moreover have "map cr_sha (new_rows repo sn db)
      = map (gc_sha \<circ> snd) (filter (\<lambda>(i, c). gc_sha c \<notin> cr_sha ` set (known_rows repo sn db)) (win sn))"
    by (auto simp: new_rows_def new_commit_row_def)
  then have "distinct (map cr_sha (new_rows repo sn db))"
    using assms(2) by (simp add: distinct_map_filter map_snd_win)
  ultimately show ?thesis by (simp add: upsertCommits_def Let_def win_def)
qed

text \<open>What a reader of the graph sees of a row besides its flag.\<close>

definition seen :: "commit_row \<Rightarrow> string \<times> commit \<times> nat option \<times> string list \<times> int option" where
  "seen r = (cr_repo r, cr_commit r, cr_seq r, cr_refs r, cr_date r)"

lemma storeDetails_seen:
  "storeDetails e hostId repo st ds (db, k, m) = (db', r) \<Longrightarrow> map seen (db_commits db') = map seen (db_commits db)"
proof (induction e hostId repo st ds "(db, k, m)" arbitrary: db k m rule: storeDetails.induct)
  case (2 e hostId repo st d ds db k m)
  have same: "map seen (db_commits (upd_commits i P (\<lambda>r. r\<lparr>cr_hasDetail := True, cr_detailEmpty := x\<rparr>) (db0\<lparr>db_bucket := b\<rparr>)))
    = map seen (db_commits db0)" for i P x b db0
    by (simp add: upd_commits_def seen_def)
  show ?case
    using 2 same by (auto split: if_splits option.splits)
qed simp

text \<open>The rows after a window, before details are stored.\<close>

definition written_rows :: "string \<Rightarrow> repo_snapshot \<Rightarrow> git_db \<Rightarrow> commit_row list" where
  "written_rows repo sn db = map (placed repo (win sn)) (db_commits db) @ new_rows repo sn db"

definition after_window :: "repo_row \<Rightarrow> repo_snapshot \<Rightarrow> git_db \<Rightarrow> commit_row list" where
  "after_window repo sn db =
     (let rows = written_rows (rp_id repo) sn db;
          stale = stale_rows (rp_id repo) sn (db\<lparr>db_commits := rows\<rparr>)
      in map (\<lambda>r. if cr_repo r = rp_id repo \<and> cr_sha r \<notin> gc_sha ` set (sn_commits sn) then r\<lparr>cr_seq := None\<rparr> else r)
           (filter (\<lambda>r. \<not> (cr_repo r = rp_id repo \<and> cr_sha r \<in> cr_sha ` set stale)) rows))"

lemma pruned_rows:
  "sn_commits sn \<noteq> [] \<Longrightarrow> db_commits (fst (pruneCommits e repo sn db))
    = filter (\<lambda>r. \<not> (cr_repo r = rp_id repo \<and> cr_sha r \<in> cr_sha ` set (stale_rows (rp_id repo) sn db))) (db_commits db)"
  by (simp add: pruneCommits_def Let_def delete_in_chunks_all delete_commits_def)

lemma cleared_rows:
  "sn_commits sn \<noteq> [] \<Longrightarrow> db_commits (clearStaleWindowPositions i sn db)
    = map (\<lambda>r. if cr_repo r = i \<and> cr_sha r \<notin> gc_sha ` set (sn_commits sn) then r\<lparr>cr_seq := None\<rparr> else r) (db_commits db)"
  by (auto simp: clearStaleWindowPositions_def upd_commits_def image_comp intro!: commit_row.equality)

lemma written_rows_cong: "db_commits db1 = db_commits db2 \<Longrightarrow> written_rows i sn db1 = written_rows i sn db2"
  by (simp add: written_rows_def new_rows_def known_rows_def commits_of_def)

lemma stale_rows_cong: "db_commits db1 = db_commits db2 \<Longrightarrow> stale_rows i sn db1 = stale_rows i sn db2"
  by (simp add: stale_rows_def commits_of_def Let_def)

lemma after_window_cong: "rp_id p = rp_id q \<Longrightarrow> after_window p sn db = after_window q sn db"
  by (simp add: after_window_def)

definition repo_core :: "repo_row \<Rightarrow> string \<times> string \<times> string \<times> int" where
  "repo_core p = (rp_id p, rp_host p, rp_path p, rp_limit p)"

lemma storeWorkingDiff_rows:
  "storeWorkingDiff e h repo sn db = (db', r) \<Longrightarrow>
    db_commits db' = db_commits db \<and> map repo_core (db_repos db') = map repo_core (db_repos db)"
  by (auto simp: storeWorkingDiff_def Let_def on_bucket_def upd_repo_def repo_core_def split: option.splits if_splits)

lemma full_report_rows:
  assumes "git_ok db" and "fresh \<notin> rp_id ` set (db_repos db)"
    and run: "ingestOne_full e fresh h sn db = (db', Some r)" and "\<not> reports_error sn"
    and "sn_commits sn \<noteq> []" and "distinct (map gc_sha (sn_commits sn))"
  shows "\<exists>repo \<in> set (db_repos db'). rp_host repo = h \<and> rp_path repo = sn_path sn \<and> rp_limit repo = sn_limit sn
    \<and> map seen (db_commits db') = map seen (after_window repo sn db)"
proof -
  obtain repo db1 where 1: "upsertRepo fresh h sn db = (repo, db1)" by force
  obtain db2 r2 where 2: "replaceRefs (rp_id repo) sn db1 = (db2, r2)" by force
  note ok1 = upsertRepo_ok [OF assms(1,2) 1]
  then have ok2: "git_ok db2" "db_repos db2 = db_repos db1" "db_commits db2 = db_commits db"
    using replaceRefs_ok [OF _ 2] by auto
  obtain db3 r3 where 3: "upsertCommits (rp_id repo) sn db2 = (db3, r3)" by force
  then have db3: "db3 = db2\<lparr>db_commits := map (placed (rp_id repo) (win sn)) (db_commits db2) @ new_rows (rp_id repo) sn db2\<rparr>"
    using upsertCommits_spec [of db2 sn "rp_id repo"] ok2(1) assms(6) by (auto simp: git_ok_def)
  obtain db4 pruned where 4: "pruneCommits e repo sn db3 = (db4, pruned)" by force
  define db5 where "db5 = clearStaleWindowPositions (rp_id repo) sn db4"
  have rows3: "db_commits db3 = written_rows (rp_id repo) sn db"
    using written_rows_cong [OF ok2(3)] by (simp add: db3 written_rows_def)
  have "stale_rows (rp_id repo) sn db3 = stale_rows (rp_id repo) sn (db\<lparr>db_commits := written_rows (rp_id repo) sn db\<rparr>)"
    by (rule stale_rows_cong) (simp add: rows3)
  then have rows5: "db_commits db5 = after_window repo sn db"
    using pruned_rows [OF assms(5), of e repo db3] 4 cleared_rows [OF assms(5)]
    by (simp add: db5_def after_window_def rows3 Let_def)
  have repos5: "db_repos db5 = db_repos db1"
  proof -
    have "git_ok db3 \<and> db_repos db3 = db_repos db1" using upsertCommits_ok [OF ok2(1) _ 3] ok1 ok2 by auto
    then show ?thesis using pruneCommits_ok [OF _ 4] clear_ok by (auto simp: db5_def)
  qed
  obtain new st stored skipped db6 where 6: "r3 = Some (new, st)"
    "storeDetails e h repo st (sn_details sn) (db5, 0, 0) = (db6, Some (stored, skipped))"
    and 7: "\<exists>r7. storeWorkingDiff e h repo sn db6 = (db', r7)"
    using run assms(4) unfolding ingestOne_full_run [OF 1 2 3 4 db5_def]
    by (auto split: option.splits prod.splits if_splits)
  have "git_ok db5" using upsertCommits_ok [OF ok2(1) _ 3] pruneCommits_ok [OF _ 4] clear_ok ok1 ok2(2) by (auto simp: db5_def)
  then have db6: "git_ok db6" "db_repos db6 = db_repos db1"
    using storeDetails_ok [OF _ _ 6(2)] ok1 repos5 by auto
  have limit: "rp_limit repo = sn_limit sn"
    using 1 by (auto simp: upsertRepo_def snapshot_patch_def Let_def split: option.splits)
  obtain r7 where 7: "storeWorkingDiff e h repo sn db6 = (db', r7)" using 7 by blast
  have w: "db_commits db' = db_commits db6" "map repo_core (db_repos db') = map repo_core (db_repos db1)"
    using storeWorkingDiff_rows [OF 7] db6(2) by simp_all
  then have "repo_core repo \<in> set (map repo_core (db_repos db'))" using ok1 by simp
  then obtain p where p: "p \<in> set (db_repos db')" "rp_id p = rp_id repo" "rp_host p = h" "rp_path p = sn_path sn"
    "rp_limit p = sn_limit sn" using ok1 limit by (auto simp: repo_core_def)
  have "map seen (db_commits db') = map seen (after_window p sn db)"
    using storeDetails_seen [OF 6(2)] w(1) rows5 after_window_cong [OF p(2)] by simp
  then show ?thesis using p by blast
qed

section \<open>What is in it\<close>

definition spared :: "repo_snapshot \<Rightarrow> commit_row \<Rightarrow> bool" where
  "spared sn r \<longleftrightarrow> cr_sha r \<in> cd_sha ` set (sn_details sn)
     \<or> sn_truncated sn \<and> \<not> (\<exists>d bottom. cr_date r = Some d \<and> windowFloor (sn_commits sn) = Some bottom \<and> bottom < d)"

lemma stale_iff:
  "r \<in> set (stale_rows i sn db) \<longleftrightarrow> r \<in> set (db_commits db) \<and> cr_repo r = i
    \<and> cr_sha r \<notin> gc_sha ` set (sn_commits sn) \<and> \<not> spared sn r"
  by (auto simp: stale_rows_def commits_of_def spared_def Let_def image_comp split: option.splits)

lemma win_of_win:
  assumes "win_of (win sn) s = Some (i, c)"
  shows "i < length (sn_commits sn) \<and> sn_commits sn ! i = c \<and> gc_sha c = s"
proof -
  have "(s, i, c) \<in> set (map (\<lambda>(i, c). (gc_sha c, (i, c))) (win sn))"
    using assms unfolding win_of_def by (rule map_of_SomeD)
  then show ?thesis by (auto simp: win_def in_set_enumerate_eq)
qed

lemma patch_row_self:
  "cr_seq (patch_row r i c r) = Some i" "NUL_JOIN (cr_refs (patch_row r i c r)) = NUL_JOIN (gc_refs c)"
  by (auto simp: patch_row_def Let_def)

lemma placed_in_window:
  assumes "cr_repo r = repo" and "cr_sha r \<in> gc_sha ` set (sn_commits sn)"
  shows "\<exists>i < length (sn_commits sn). gc_sha (sn_commits sn ! i) = cr_sha r \<and> cr_seq (placed repo (win sn) r) = Some i
    \<and> NUL_JOIN (cr_refs (placed repo (win sn) r)) = NUL_JOIN (gc_refs (sn_commits sn ! i))"
proof -
  have "win_of (win sn) (cr_sha r) \<noteq> None" using assms(2) by (simp add: win_of_None win_shas)
  then obtain i c where "win_of (win sn) (cr_sha r) = Some (i, c)" by auto
  then show ?thesis using win_of_win [of sn "cr_sha r" i c] assms(1) patch_row_self by (auto simp: placed_def)
qed

lemma new_rows_iff:
  "q \<in> set (new_rows repo sn db) \<longleftrightarrow> (\<exists>i < length (sn_commits sn). q = new_commit_row repo i (sn_commits sn ! i)
    \<and> gc_sha (sn_commits sn ! i) \<notin> cr_sha ` set (known_rows repo sn db))"
  by (auto simp: new_rows_def win_def in_set_enumerate_eq)

text \<open>A row of the checkout after the window: of the window, or spared.\<close>

definition of_window :: "repo_snapshot \<Rightarrow> nat \<Rightarrow> commit_row \<Rightarrow> bool" where
  "of_window sn i q \<longleftrightarrow> i < length (sn_commits sn) \<and> cr_sha q = gc_sha (sn_commits sn ! i) \<and> cr_seq q = Some i
     \<and> NUL_JOIN (cr_refs q) = NUL_JOIN (gc_refs (sn_commits sn ! i))"

lemma after_window_rows:
  assumes "q \<in> set (after_window repo sn db)" and "cr_repo q = rp_id repo"
  shows "(\<exists>i. of_window sn i q) \<or>
    (cr_sha q \<notin> gc_sha ` set (sn_commits sn) \<and> cr_seq q = None \<and> spared sn q
     \<and> (\<exists>r \<in> set (db_commits db). row_key r = row_key q))"
proof -
  let ?i = "rp_id repo" and ?W = "gc_sha ` set (sn_commits sn)" and ?rows = "written_rows (rp_id repo) sn db"
  obtain r where r: "r \<in> set ?rows" "\<not> (cr_repo r = ?i \<and> cr_sha r \<in> cr_sha ` set (stale_rows ?i sn (db\<lparr>db_commits := ?rows\<rparr>)))"
    "q = (if cr_repo r = ?i \<and> cr_sha r \<notin> ?W then r\<lparr>cr_seq := None\<rparr> else r)"
    using assms(1) unfolding after_window_def Let_def set_map set_filter by blast
  have ri: "cr_repo r = ?i" using r(3) assms(2) by (simp split: if_splits)
  show ?thesis
  proof (cases "cr_sha r \<in> ?W")
    case True
    then have q: "q = r" using r(3) by simp
    show ?thesis
    proof (cases "r \<in> set (new_rows ?i sn db)")
      case True
      then show ?thesis unfolding q by (auto simp: new_rows_iff of_window_def new_commit_row_def)
    next
      case False
      then obtain r0 where r0: "r0 \<in> set (db_commits db)" "r = placed ?i (win sn) r0"
        using r(1) by (auto simp: written_rows_def)
      then have "cr_repo r0 = ?i" "cr_sha r0 \<in> ?W" using ri \<open>cr_sha r \<in> ?W\<close> by auto
      from placed_in_window [OF this] show ?thesis unfolding q r0(2) by (auto simp: of_window_def)
    qed
  next
    case False
    then have "r \<notin> set (new_rows ?i sn db)" by (auto simp: new_rows_iff new_commit_row_def)
    then obtain r0 where r0: "r0 \<in> set (db_commits db)" "r = placed ?i (win sn) r0"
        using r(1) by (auto simp: written_rows_def)
    have "r \<notin> set (stale_rows ?i sn (db\<lparr>db_commits := ?rows\<rparr>))" using r(2) ri by blast
    then have "spared sn r" using r(1) ri False by (simp add: stale_iff)
    then have "spared sn q" using r(3) by (simp add: spared_def)
    moreover have "row_key r0 = row_key q" using r0(2) r(3) by (simp add: row_key_def)
    ultimately show ?thesis using r(3) ri False r0(1) by auto
  qed
qed

lemma after_window_has:
  assumes "distinct (map gc_sha (sn_commits sn))" and "i < length (sn_commits sn)"
  shows "\<exists>q \<in> set (after_window repo sn db). cr_repo q = rp_id repo \<and> of_window sn i q"
proof -
  let ?i = "rp_id repo" and ?c = "sn_commits sn ! i"
  have "\<exists>q \<in> set (written_rows ?i sn db). cr_repo q = ?i \<and> of_window sn i q"
  proof (cases "gc_sha ?c \<in> cr_sha ` set (known_rows ?i sn db)")
    case True
    then obtain r where r: "r \<in> set (db_commits db)" "cr_repo r = ?i" "cr_sha r = gc_sha ?c"
      by (auto simp: known_rows_mem)
    then have "cr_sha r \<in> gc_sha ` set (sn_commits sn)" using assms(2) by auto
    from placed_in_window [OF r(2) this] obtain j where j: "j < length (sn_commits sn)"
      "gc_sha (sn_commits sn ! j) = cr_sha r" "of_window sn j (placed ?i (win sn) r)"
      by (auto simp: of_window_def)
    then have "j = i" using assms r(3) by (simp add: distinct_conv_nth) metis
    then show ?thesis using j(3) r(1,2) by (auto simp: written_rows_def intro!: bexI [of _ "placed ?i (win sn) r"])
  next
    case False
    then have "new_commit_row ?i i ?c \<in> set (new_rows ?i sn db)" using assms(2) by (auto simp: new_rows_iff)
    then show ?thesis using assms(2)
      by (auto simp: written_rows_def of_window_def new_commit_row_def intro!: bexI [of _ "new_commit_row ?i i ?c"])
  qed
  then obtain q where q: "q \<in> set (written_rows ?i sn db)" "cr_repo q = ?i" "of_window sn i q" by blast
  have w: "cr_sha q \<in> gc_sha ` set (sn_commits sn)" using q(3) by (auto simp: of_window_def)
  then have "cr_sha q \<notin> cr_sha ` set (stale_rows ?i sn (db\<lparr>db_commits := written_rows ?i sn db\<rparr>))"
    by (auto simp: stale_iff)
  then have "q \<in> set (after_window repo sn db)"
    using q(1) w unfolding after_window_def Let_def set_map set_filter by (intro image_eqI [of _ _ q]) auto
  then show ?thesis using q by blast
qed

lemma after_window_others:
  "filter (\<lambda>r. cr_repo r \<noteq> rp_id repo) (after_window repo sn db) = filter (\<lambda>r. cr_repo r \<noteq> rp_id repo) (db_commits db)"
proof -
  have map_other: "filter P (map g xs) = filter P xs"
    if "\<And>x. P (g x) = P x" "\<And>x. P x \<Longrightarrow> g x = x" for P :: "commit_row \<Rightarrow> bool" and g xs
    using that by (induction xs) auto
  have "filter (\<lambda>r. cr_repo r \<noteq> rp_id repo) (new_rows (rp_id repo) sn db) = []"
    by (auto simp: filter_empty_conv new_rows_iff new_commit_row_def)
  then have written: "filter (\<lambda>r. cr_repo r \<noteq> rp_id repo) (written_rows (rp_id repo) sn db)
      = filter (\<lambda>r. cr_repo r \<noteq> rp_id repo) (db_commits db)"
    by (simp add: written_rows_def) (rule map_other, simp, simp add: placed_def)
  have skip: "filter (\<lambda>r. cr_repo r \<noteq> rp_id repo) (filter (\<lambda>r. \<not> (cr_repo r = rp_id repo \<and> Q r)) xs)
      = filter (\<lambda>r. cr_repo r \<noteq> rp_id repo) xs" for Q xs
    by (induction xs) auto
  show ?thesis
    unfolding after_window_def Let_def by (subst map_other, simp, simp, subst skip, rule written)
qed

lemma seen_fields:
  "seen q = seen r \<Longrightarrow> cr_repo q = cr_repo r \<and> cr_commit q = cr_commit r \<and> cr_seq q = cr_seq r
    \<and> cr_refs q = cr_refs r \<and> cr_date q = cr_date r"
  by (simp add: seen_def)

lemma seen_mem: "map seen xs = map seen ys \<Longrightarrow> q \<in> set xs \<Longrightarrow> \<exists>r \<in> set ys. seen r = seen q"
proof -
  assume "map seen xs = map seen ys" "q \<in> set xs"
  then have "seen q \<in> set (map seen ys)" by (metis imageI set_map)
  then show ?thesis by auto
qed

definition from_report_or_before :: "repo_snapshot \<Rightarrow> git_db \<Rightarrow> commit_row \<Rightarrow> bool" where
  "from_report_or_before sn db q \<longleftrightarrow> cr_commit q \<in> gc_commit ` set (sn_commits sn) \<or> cr_commit q \<in> cr_commit ` set (db_commits db)"

lemma after_window_commits: "q \<in> set (after_window repo sn db) \<Longrightarrow> from_report_or_before sn db q"
  by (auto simp: after_window_def Let_def written_rows_def new_rows_iff new_commit_row_def from_report_or_before_def)

lemma report_rows:
  assumes "git_ok db" and "fresh \<notin> rp_id ` set (db_repos db)"
    and "ingestOne e now fresh h sn db = (db', Some r)" and "\<not> sn_partial sn" and "\<not> reports_error sn"
    and "sn_commits sn \<noteq> []" and "distinct (map gc_sha (sn_commits sn))"
  shows "\<exists>repo \<in> set (db_repos db'). rp_host repo = h \<and> rp_path repo = sn_path sn \<and> rp_limit repo = sn_limit sn
    \<and> (\<forall>i < length (sn_commits sn). \<exists>q \<in> set (commits_of (rp_id repo) db'). of_window sn i q)
    \<and> (\<forall>q \<in> set (commits_of (rp_id repo) db'). (\<exists>i. of_window sn i q) \<or>
        cr_sha q \<notin> gc_sha ` set (sn_commits sn) \<and> cr_seq q = None \<and> spared sn q
        \<and> (\<exists>q0 \<in> set (db_commits db). row_key q0 = row_key q))
    \<and> (\<forall>q \<in> set (commits_of (rp_id repo) db'). from_report_or_before sn db q)
    \<and> map seen (filter (\<lambda>q. cr_repo q \<noteq> rp_id repo) (db_commits db'))
      = map seen (filter (\<lambda>q. cr_repo q \<noteq> rp_id repo) (db_commits db))"
proof -
  have "ingestOne_full e fresh h sn db = (db', Some r)" using assms(3,4) by (simp add: ingestOne_def)
  from full_report_rows [OF assms(1,2) this assms(5-7)] obtain repo where repo:
    "repo \<in> set (db_repos db')" "rp_host repo = h" "rp_path repo = sn_path sn" "rp_limit repo = sn_limit sn"
    and rows: "map seen (db_commits db') = map seen (after_window repo sn db)" by blast
  have same: "of_window sn i q = of_window sn i q'" "spared sn q = spared sn q'" "row_key q = row_key q'"
    if "seen q = seen q'" for i q q'
    using seen_fields [OF that] by (simp_all add: of_window_def spared_def row_key_def)
  have "\<exists>q \<in> set (commits_of (rp_id repo) db'). of_window sn i q" if i: "i < length (sn_commits sn)" for i
  proof -
    obtain q where q: "q \<in> set (after_window repo sn db)" "cr_repo q = rp_id repo" "of_window sn i q"
      using after_window_has [OF assms(7) i] by blast
    then obtain q' where q': "q' \<in> set (db_commits db')" "seen q' = seen q" using seen_mem [OF rows [symmetric]] by blast
    have "of_window sn i q'" using q(3) unfolding same(1) [OF q'(2)] .
    moreover have "q' \<in> set (commits_of (rp_id repo) db')"
      using q'(1) seen_fields [OF q'(2)] q(2) by (simp add: commits_of_def)
    ultimately show ?thesis by blast
  qed
  moreover have "(\<exists>i. of_window sn i q) \<or> cr_sha q \<notin> gc_sha ` set (sn_commits sn) \<and> cr_seq q = None \<and> spared sn q
        \<and> (\<exists>q0 \<in> set (db_commits db). row_key q0 = row_key q)"
    if q: "q \<in> set (commits_of (rp_id repo) db')" for q
  proof -
    have "q \<in> set (db_commits db')" "cr_repo q = rp_id repo" using q by (simp_all add: commits_of_def)
    then obtain q' where q': "q' \<in> set (after_window repo sn db)" "seen q' = seen q" using seen_mem [OF rows] by blast
    have f: "cr_repo q' = cr_repo q" "cr_commit q' = cr_commit q" "cr_seq q' = cr_seq q"
      using seen_fields [OF q'(2)] by simp_all
    from after_window_rows [OF q'(1)] show ?thesis
      unfolding same(1) [OF q'(2)] same(2) [OF q'(2)] same(3) [OF q'(2)] f
      using \<open>cr_repo q = rp_id repo\<close> by blast
  qed
  moreover have "map seen (filter (\<lambda>q. cr_repo q \<noteq> rp_id repo) (db_commits db'))
      = map seen (filter (\<lambda>q. cr_repo q \<noteq> rp_id repo) (db_commits db))"
  proof -
    have filt: "map seen (filter (\<lambda>q. cr_repo q \<noteq> rp_id repo) xs) = filter (\<lambda>t. fst t \<noteq> rp_id repo) (map seen xs)" for xs
      by (induction xs) (auto simp: seen_def)
    show ?thesis using after_window_others [of repo sn db] unfolding filt rows by (metis filt)
  qed
  moreover have "from_report_or_before sn db q" if q: "q \<in> set (commits_of (rp_id repo) db')" for q
  proof -
    have "q \<in> set (db_commits db')" using q by (simp add: commits_of_def)
    then obtain q' where q': "q' \<in> set (after_window repo sn db)" "seen q' = seen q" using seen_mem [OF rows] by blast
    then show ?thesis using after_window_commits [OF q'(1)] seen_fields [OF q'(2)] by (simp add: from_report_or_before_def)
  qed
  ultimately show ?thesis using repo by blast
qed


text \<open>
  C27 (\<open>the_window_is_authoritative\<close>): after a full report of a checkout was applied, each of its
  commits has a row with its place in the report and its decorations, and any other row of the
  checkout has lost its place and is there only because the report gave its patch or, in a truncated
  report, because it is not newer than the whole window. No other checkout is touched.
\<close>
theorem the_window_is_authoritative:
  assumes "git_ok db" and "fresh \<notin> rp_id ` set (db_repos db)"
    and "ingestOne e now fresh h sn db = (db', Some r)" and "\<not> sn_partial sn" and "\<not> reports_error sn"
    and "sn_commits sn \<noteq> []" and "distinct (map gc_sha (sn_commits sn))"
  shows "\<exists>repo \<in> set (db_repos db'). rp_host repo = h \<and> rp_path repo = sn_path sn \<and> rp_limit repo = sn_limit sn
    \<and> (\<forall>i < length (sn_commits sn). \<exists>q \<in> set (commits_of (rp_id repo) db'). of_window sn i q)
    \<and> (\<forall>q \<in> set (commits_of (rp_id repo) db'). (\<exists>i. of_window sn i q) \<or>
        cr_sha q \<notin> gc_sha ` set (sn_commits sn) \<and> cr_seq q = None \<and> spared sn q
        \<and> (\<exists>q0 \<in> set (db_commits db). row_key q0 = row_key q))
    \<and> map seen (filter (\<lambda>q. cr_repo q \<noteq> rp_id repo) (db_commits db'))
      = map seen (filter (\<lambda>q. cr_repo q \<noteq> rp_id repo) (db_commits db))"
proof -
  from report_rows [OF assms] show ?thesis by blast
qed

end
