(* ===== verification/GitGraph.thy ===== *)
theory GitGraph
  imports GitWindow
begin

text \<open>
  The report of an agent, the rows of the database and the graph of a browser together:
  \<^verbatim>\<open>git-ingest.service.ts\<close>, \<^verbatim>\<open>git.service.ts\<close> and \<^verbatim>\<open>commit-order.ts\<close>.
\<close>

section \<open>The order of the query\<close>

lemma seq_cmp_sgn: "sgn (seq_cmp a b) = - sgn (seq_cmp b a)"
  by (cases a; cases b) (auto simp: sgn_if)

lemma date_desc_sgn: "sgn (date_desc a b) = - sgn (date_desc b a)"
  by (cases a; cases b) (auto simp: sgn_if)

lemma seq_cmp_zero: "seq_cmp a b = 0 \<longleftrightarrow> a = b"
  by (cases a; cases b) auto

lemma row_cmp_le:
  "commit_row_cmp a b \<le> 0 \<longleftrightarrow> seq_cmp (cr_seq a) (cr_seq b) < 0 \<or> cr_seq a = cr_seq b \<and> date_desc (cr_date a) (cr_date b) \<le> 0"
  by (auto simp: commit_row_cmp_def seq_cmp_zero [symmetric])

lemma seq_cmp_less_trans: "seq_cmp a b < 0 \<Longrightarrow> seq_cmp b c < 0 \<Longrightarrow> seq_cmp a c < 0"
  by (cases a; cases b; cases c) auto

lemma date_desc_trans: "date_desc a b \<le> 0 \<Longrightarrow> date_desc b c \<le> 0 \<Longrightarrow> date_desc a c \<le> 0"
  by (cases a; cases b; cases c) auto

interpretation rows: comparator commit_row_cmp
proof
  show "sgn (commit_row_cmp a b) = - sgn (commit_row_cmp b a)" for a b
    using seq_cmp_sgn [of "cr_seq a" "cr_seq b"] date_desc_sgn [of "cr_date a" "cr_date b"]
    by (simp add: commit_row_cmp_def seq_cmp_zero)
  show "commit_row_cmp a c \<le> 0" if "commit_row_cmp a b \<le> 0" "commit_row_cmp b c \<le> 0" for a b c
    using that unfolding row_cmp_le by (metis seq_cmp_less_trans date_desc_trans)
qed

text \<open>Rows with a place come first, in the order of their places.\<close>

lemma sorted_split:
  assumes "sorted_wrt R xs" and "\<And>x y. R x y \<Longrightarrow> P y \<Longrightarrow> P x"
  shows "xs = filter P xs @ filter (\<lambda>x. \<not> P x) xs"
  using assms(1)
proof (induction xs)
  case (Cons x xs)
  show ?case
  proof (cases "P x")
    case False
    then have "\<forall>y \<in> set xs. \<not> P y" using Cons.prems assms(2) by auto
    then show ?thesis using False by (simp add: filter_empty_conv)
  qed (use Cons in simp)
qed simp

lemma placed_prefix:
  assumes "\<And>i. i < n \<Longrightarrow> \<exists>q \<in> set rows. cr_seq q = Some i"
    and "\<And>q i. q \<in> set rows \<Longrightarrow> cr_seq q = Some i \<Longrightarrow> i < n"
    and "\<And>p q i. p \<in> set rows \<Longrightarrow> q \<in> set rows \<Longrightarrow> cr_seq p = Some i \<Longrightarrow> cr_seq q = Some i \<Longrightarrow> p = q"
    and "distinct rows"
  shows "\<exists>ys zs. js_sort commit_row_cmp rows = ys @ zs \<and> map cr_seq ys = map Some [0..<n] \<and> (\<forall>z \<in> set zs. cr_seq z = None)"
proof -
  let ?s = "js_sort commit_row_cmp rows" and ?P = "\<lambda>q. cr_seq q \<noteq> None"
  let ?ys = "filter ?P ?s"
  have up: "commit_row_cmp x y \<le> 0 \<Longrightarrow> ?P y \<Longrightarrow> ?P x" for x y
    by (cases "cr_seq x"; cases "cr_seq y") (auto simp: row_cmp_le)
  have split: "?s = ?ys @ filter (\<lambda>q. \<not> ?P q) ?s"
    by (rule sorted_split [OF rows.ordered_js_sort]) (rule up)
  have inj: "inj_on (the \<circ> cr_seq) (set ?ys)"
    using assms(3) by (auto simp: inj_on_def)
  have "sorted_wrt (\<lambda>a b. commit_row_cmp a b \<le> 0) ?ys" by (intro sorted_wrt_filter rows.ordered_js_sort)
  then have "sorted_wrt (\<lambda>a b. the (cr_seq a) \<le> the (cr_seq b)) ?ys"
    by (rule sorted_wrt_mono_rel [rotated]) (auto simp: row_cmp_le)
  then have "sorted (map (the \<circ> cr_seq) ?ys)" by (simp add: sorted_map comp_def)
  moreover have "distinct (map (the \<circ> cr_seq) ?ys)" using inj assms(4) by (simp add: distinct_map)
  moreover have "set (map (the \<circ> cr_seq) ?ys) = set [0..<n]"
  proof -
    have "i \<in> (the \<circ> cr_seq) ` set ?ys" if "i < n" for i
      using assms(1) [OF that] by (force intro!: rev_image_eqI)
    then show ?thesis using assms(2) by (auto simp del: comp_apply) (auto simp: assms(2))
  qed
  ultimately have "map (the \<circ> cr_seq) ?ys = [0..<n]"
    by (intro sorted_distinct_set_unique) simp_all
  moreover have "map cr_seq ?ys = map Some (map (the \<circ> cr_seq) ?ys)" by (auto simp del: map_eq_conv) (auto intro!: map_cong)
  ultimately have "map cr_seq ?ys = map Some [0..<n]" by simp
  then show ?thesis using split by (intro exI [of _ ?ys] exI [of _ "filter (\<lambda>q. \<not> ?P q) ?s"]) simp
qed

lemma ordered_rows_commits: "map cr_commit (ordered_rows rows) = stableTopoOrder (map cr_commit rows)"
proof -
  have "set (topo_positions heap_push heap_pop [] (map cr_commit rows)) = {0..<length rows}"
    using heap.topo_positions_perm [of "map cr_commit rows"] by (metis length_map mset_eq_setD set_upt)
  then show ?thesis by (auto simp: ordered_rows_def stableTopoOrder_def)
qed

section \<open>The graph after a report\<close>

definition shows_commits :: "repo_graph \<Rightarrow> (string \<times> string list) list" where
  "shows_commits g = map (\<lambda>c. (gq_sha c, gq_parents c)) (rg_commits g)"

lemma shows_commits_rows:
  "shows_commits \<lparr>rg_repo = p, rg_refs = fs, rg_commits = map graph_commit_of rows\<rparr>
    = map (\<lambda>c. (sha c, parents c)) (map cr_commit rows)"
  by (simp add: shows_commits_def graph_commit_of_def)

text \<open>Either the window fills the limit of the graph, or it is all the rows there are.\<close>

definition covers_graph :: "repo_snapshot \<Rightarrow> bool" where
  "covers_graph sn \<longleftrightarrow> nat (sn_limit sn) \<le> length (sn_commits sn)
     \<or> \<not> sn_truncated sn \<and> cd_sha ` set (sn_details sn) \<subseteq> gc_sha ` set (sn_commits sn)"

text \<open>A sha names one commit.\<close>

definition same_history :: "repo_snapshot \<Rightarrow> git_db \<Rightarrow> bool" where
  "same_history sn db \<longleftrightarrow> (\<forall>q \<in> set (db_commits db). \<forall>c \<in> set (sn_commits sn).
     cr_sha q = gc_sha c \<longrightarrow> cr_commit q = gc_commit c)"

lemma window_commit:
  assumes "of_window sn i q" and "from_report_or_before sn db q" and "same_history sn db"
    and "distinct (map gc_sha (sn_commits sn))"
  shows "cr_commit q = gc_commit (sn_commits sn ! i)"
  using assms(2) unfolding from_report_or_before_def
proof
  assume "cr_commit q \<in> gc_commit ` set (sn_commits sn)"
  then obtain c where c: "c \<in> set (sn_commits sn)" "cr_commit q = gc_commit c" by auto
  moreover have "sn_commits sn ! i \<in> set (sn_commits sn)" "gc_sha c = gc_sha (sn_commits sn ! i)"
    using assms(1) c(2) by (auto simp: of_window_def)
  ultimately have "c = sn_commits sn ! i" using assms(4) by (auto simp: distinct_map dest: inj_onD)
  then show ?thesis using c(2) by simp
next
  assume "cr_commit q \<in> cr_commit ` set (db_commits db)"
  then obtain q0 where "q0 \<in> set (db_commits db)" "cr_commit q = cr_commit q0" by auto
  then show ?thesis using assms(1,3) by (simp add: of_window_def same_history_def)
qed

lemma window_rows_shown:
  assumes rows: "\<forall>i < length (sn_commits sn). \<exists>q \<in> set rows. of_window sn i q"
    and all: "\<forall>q \<in> set rows. (\<exists>i. of_window sn i q) \<or> cr_sha q \<notin> gc_sha ` set (sn_commits sn) \<and> cr_seq q = None \<and> spared sn q"
    and from_rep: "\<forall>q \<in> set rows. from_report_or_before sn db q"
    and "distinct (map cr_sha rows)" and "distinct (map gc_sha (sn_commits sn))"
    and "same_history sn db" and "covers_graph sn"
  shows "map cr_commit (take (nat (sn_limit sn)) (js_sort commit_row_cmp rows)) = map gc_commit (take (nat (sn_limit sn)) (sn_commits sn))"
proof -
  let ?n = "length (sn_commits sn)" and ?L = "nat (sn_limit sn)"
  have idx: "of_window sn i q" if "q \<in> set rows" "cr_seq q = Some i" for q i
    using all that by (auto simp: of_window_def)
  have "\<exists>ys zs. js_sort commit_row_cmp rows = ys @ zs \<and> map cr_seq ys = map Some [0..<?n] \<and> (\<forall>z \<in> set zs. cr_seq z = None)"
  proof (rule placed_prefix)
    show "\<exists>q \<in> set rows. cr_seq q = Some i" if "i < ?n" for i
      using rows that by (auto simp: of_window_def)
    show "i < ?n" if "q \<in> set rows" "cr_seq q = Some i" for q i using idx [OF that] by (simp add: of_window_def)
    show "p = q" if "p \<in> set rows" "q \<in> set rows" "cr_seq p = Some i" "cr_seq q = Some i" for p q i
      using idx [OF that(1,3)] idx [OF that(2,4)] assms(4) that(1,2) by (auto simp: of_window_def distinct_map inj_on_def)
    show "distinct rows" using assms(4) by (simp add: distinct_map)
  qed
  then obtain ys zs where s: "js_sort commit_row_cmp rows = ys @ zs" "map cr_seq ys = map Some [0..<?n]"
    "\<forall>z \<in> set zs. cr_seq z = None" by blast
  have sub: "set (ys @ zs) = set rows" using s(1) by (metis set_js_sort)
  have len: "length ys = ?n" using s(2) by (metis length_map length_upt minus_nat.diff_0)
  have ys: "map cr_commit ys = map gc_commit (sn_commits sn)"
  proof (rule nth_equalityI)
    show "map cr_commit ys ! i = map gc_commit (sn_commits sn) ! i" if "i < length (map cr_commit ys)" for i
    proof -
      have i: "i < ?n" using that len by simp
      then have "cr_seq (ys ! i) = Some i" using s(2) len by (metis add_0 diff_zero length_upt nth_map nth_upt)
      moreover have "ys ! i \<in> set rows" using i len sub by (metis Un_iff nth_mem set_append)
      ultimately show ?thesis
        using window_commit [OF idx _ assms(6,5)] from_rep i len by simp
    qed
  qed (simp add: len)
  have "zs = []" if "?n < ?L"
  proof (rule ccontr)
    assume "zs \<noteq> []"
    then have z: "hd zs \<in> set rows" "cr_seq (hd zs) = None" using s(3) sub by auto
    then have "cr_sha (hd zs) \<notin> gc_sha ` set (sn_commits sn)" "spared sn (hd zs)"
      using all by (auto simp: of_window_def)
    then show False using assms(7) that by (auto simp: covers_graph_def spared_def)
  qed
  then have "map cr_commit (take ?L (ys @ zs)) = take ?L (map cr_commit ys)"
    using len by (cases "?n < ?L") (simp_all add: take_map)
  then show ?thesis by (simp add: s(1) ys take_map)
qed

text \<open>
  C28 (\<open>the_graph_shows_the_window\<close>): after a full report whose window fills the graph or is the whole
  history, the graph a browser asks for shows the commits of the report, up to its limit, in the
  order the agent walked them, whatever rows were stored before.
\<close>
theorem the_graph_shows_the_window:
  assumes "git_ok db" and "fresh \<notin> rp_id ` set (db_repos db)"
    and "ingestOne e now fresh h sn db = (db', Some r)" and "\<not> sn_partial sn" and "\<not> reports_error sn"
    and "sn_commits sn \<noteq> []" and "distinct (map gc_sha (sn_commits sn))"
    and "same_history sn db" and "covers_graph sn"
    and "sorted_wrt (\<lambda>c d. sha c \<notin> set (parents d)) (map gc_commit (sn_commits sn))"
    and "host_of env org hostId = Some h"
  shows "\<exists>repoId g. graph env org hostId repoId db' = Inr g \<and> rp_path (rg_repo g) = sn_path sn
    \<and> shows_commits g = map (\<lambda>c. (gc_sha c, parents (gc_commit c))) (take (nat (sn_limit sn)) (sn_commits sn))"
proof -
  obtain repo where repo: "repo \<in> set (db_repos db')" "rp_host repo = h" "rp_path repo = sn_path sn" "rp_limit repo = sn_limit sn"
    and rows: "\<forall>i < length (sn_commits sn). \<exists>q \<in> set (commits_of (rp_id repo) db'). of_window sn i q"
      "\<forall>q \<in> set (commits_of (rp_id repo) db'). (\<exists>i. of_window sn i q) \<or>
        cr_sha q \<notin> gc_sha ` set (sn_commits sn) \<and> cr_seq q = None \<and> spared sn q"
      "\<forall>q \<in> set (commits_of (rp_id repo) db'). from_report_or_before sn db q"
    using report_rows [OF assms(1-7)] by blast
  have ok: "tables_ok db'" using ingestOne_ok [OF assms(1-3)] by (simp add: git_ok_def)
  then have "List.find (\<lambda>p. rp_id p = rp_id repo \<and> rp_host p = h) (db_repos db') = Some repo"
    using repo(1,2) row_of_id [OF ok _ repo(1)]
    by (cases "List.find (\<lambda>p. rp_id p = rp_id repo \<and> rp_host p = h) (db_repos db')")
      (auto simp: find_None_iff dest: find_Some_in)
  then have get: "getRepo env org hostId (rp_id repo) db' = Inr repo" using assms(11) by (simp add: getRepo_def)
  have "distinct (map row_key (commits_of (rp_id repo) db'))"
    using ok by (simp add: tables_ok_def commits_of_def distinct_map_filter)
  then have "distinct (map cr_sha (commits_of (rp_id repo) db'))"
    by (auto simp: distinct_map inj_on_def row_key_def commits_of_def)
  from window_rows_shown [OF rows this assms(7-9)]
  have shown: "map cr_commit (window_rows repo db') = map gc_commit (take (nat (sn_limit sn)) (sn_commits sn))"
    by (simp add: window_rows_def repo(4))
  have "sorted_wrt (\<lambda>c d. sha c \<notin> set (parents d)) (map gc_commit (take (nat (sn_limit sn)) (sn_commits sn)))"
    using sorted_wrt_take [OF assms(10), of "nat (sn_limit sn)"] by (simp add: take_map)
  from stableTopoOrder_noop [OF this]
  have "map cr_commit (ordered_rows (window_rows repo db')) = map gc_commit (take (nat (sn_limit sn)) (sn_commits sn))"
    by (simp add: ordered_rows_commits shown)
  then show ?thesis
    using get repo(3) by (intro exI [of _ "rp_id repo"]) (simp add: graph_def shows_commits_rows)
qed

end
