(* ===== verification/GitRuns.thy ===== *)
theory GitRuns
  imports GitGraph
begin

text \<open>
  Runs of the server over the tables of \<^verbatim>\<open>git-ingest.service.ts\<close>: frames of any hosts and reads of
  browsers, in any order, with any calls of the bucket failing.
\<close>

section \<open>Runs\<close>

datatype git_event =
    Frame bucket_faults int string "(string \<times> repo_snapshot) list"
  | ReadDetail string string string string
  | ReadBlob int string string string string string

fun git_step :: "'s git_env \<Rightarrow> git_event \<Rightarrow> git_db \<times> 's \<Rightarrow> git_db \<times> 's" where
  "git_step env (Frame e now hostId frame) (db, st) = (fst (ingest e now hostId frame db), st)"
| "git_step env (ReadDetail org hostId repoId s) (db, st) = snd (commitDetail env org hostId repoId s db st)"
| "git_step env (ReadBlob now org hostId repoId s path) (db, st) = snd (commitBlob env now org hostId repoId s path db st)"

definition empty_db :: git_db where
  "empty_db = \<lparr>db_repos = [], db_commits = [], db_refs = [], db_bucket = Map.empty, db_blobs = empty_buffer\<rparr>"

definition git_run :: "'s git_env \<Rightarrow> git_event list \<Rightarrow> git_db \<times> 's \<Rightarrow> git_db \<times> 's" where
  "git_run env evs s = fold (git_step env) evs s"

text \<open>The ids offered for new rows.\<close>

fun offered_ids :: "git_event \<Rightarrow> string list" where
  "offered_ids (Frame _ _ _ frame) = map fst frame"
| "offered_ids _ = []"

definition fresh_ids :: "git_event list \<Rightarrow> bool" where
  "fresh_ids evs \<longleftrightarrow> distinct (concat (map offered_ids evs))"

abbreviation repo_ids :: "git_db \<Rightarrow> string set" where
  "repo_ids db \<equiv> rp_id ` set (db_repos db)"

lemma commitDetail_ok:
  assumes "git_ok db" and "commitDetail env org hostId repoId s db st = (a, db', st')"
  shows "git_ok db' \<and> db_repos db' = db_repos db"
proof -
  have "db' = db \<or> (\<exists>i P. db' = upd_commits i P (cr_hasDetail_update (\<lambda>_. False)) db)"
    using assms(2) by (auto simp: commitDetail_def Let_def split: if_splits sum.splits option.splits prod.splits)
  then show ?thesis using assms(1) git_ok_upd_commits [OF assms(1), of "cr_hasDetail_update (\<lambda>_. False)"]
    by (auto simp: row_key_def)
qed

lemma commitBlob_ok:
  "commitBlob env now org hostId repoId s path db st = (a, db', st') \<Longrightarrow>
    git_ok db' = git_ok db \<and> db_repos db' = db_repos db"
  by (auto simp: commitBlob_def Let_def split: if_splits sum.splits option.splits prod.splits)

lemma git_step_ok:
  assumes "git_ok (fst s)" and "distinct (offered_ids ev)" and "set (offered_ids ev) \<inter> repo_ids (fst s) = {}"
  shows "git_ok (fst (git_step env ev s)) \<and> repo_ids (fst (git_step env ev s)) \<subseteq> set (offered_ids ev) \<union> repo_ids (fst s)"
proof (cases s)
  case (Pair db st)
  show ?thesis
  proof (cases ev)
    case (Frame e now hostId frame)
    then show ?thesis using ingest_ok [of db frame e now hostId] assms Pair by simp
  next
    case (ReadDetail org hostId repoId x)
    obtain a db' st' where "commitDetail env org hostId repoId x db st = (a, db', st')" by (metis prod_cases3)
    then show ?thesis using commitDetail_ok [of db] assms(1) Pair ReadDetail by force
  next
    case (ReadBlob now org hostId repoId x path)
    obtain a db' st' where r: "commitBlob env now org hostId repoId x path db st = (a, db', st')" by (metis prod_cases3)
    from commitBlob_ok [OF r] show ?thesis using r assms(1) Pair ReadBlob by simp
  qed
qed

lemma git_run_ok:
  assumes "git_ok (fst s)" and "fresh_ids evs" and "set (concat (map offered_ids evs)) \<inter> repo_ids (fst s) = {}"
  shows "git_ok (fst (git_run env evs s))
    \<and> repo_ids (fst (git_run env evs s)) \<subseteq> set (concat (map offered_ids evs)) \<union> repo_ids (fst s)"
  using assms
proof (induction evs arbitrary: s)
  case (Cons ev evs)
  have d: "distinct (offered_ids ev)" "fresh_ids evs" "set (offered_ids ev) \<inter> set (concat (map offered_ids evs)) = {}"
    using Cons.prems(2) by (auto simp: fresh_ids_def)
  have step: "git_ok (fst (git_step env ev s))" "repo_ids (fst (git_step env ev s)) \<subseteq> set (offered_ids ev) \<union> repo_ids (fst s)"
    using git_step_ok [OF Cons.prems(1) d(1), of env] Cons.prems(3) by auto
  then have "set (concat (map offered_ids evs)) \<inter> repo_ids (fst (git_step env ev s)) = {}"
    using d(3) Cons.prems(3) by auto
  from Cons.IH [OF step(1) d(2) this] step(2) show ?case by (simp add: git_run_def) blast
qed (simp add: git_run_def)

lemma empty_db_ok: "git_ok empty_db"
  by (simp add: empty_db_def git_ok_def tables_ok_def flags_ok_def)

lemma run_from_empty: "fresh_ids evs \<Longrightarrow> git_ok (fst (git_run env evs (empty_db, st)))"
  using git_run_ok [of "(empty_db, st)" evs env] empty_db_ok by (simp add: empty_db_def)

lemma run_offers:
  assumes "fresh_ids (evs @ [ev])"
  shows "set (offered_ids ev) \<inter> repo_ids (fst (git_run env evs (empty_db, st))) = {}"
proof -
  have f: "fresh_ids evs" "set (offered_ids ev) \<inter> set (concat (map offered_ids evs)) = {}"
    using assms by (auto simp: fresh_ids_def)
  have "repo_ids empty_db = {}" by (simp add: empty_db_def)
  then have "repo_ids (fst (git_run env evs (empty_db, st))) \<subseteq> set (concat (map offered_ids evs))"
    using git_run_ok [OF _ f(1), of "(empty_db, st)" env] empty_db_ok by simp
  then show ?thesis using f(2) by blast
qed

text \<open>
  C23 (\<open>a_recorded_patch_can_be_read\<close>): whatever hosts report and browsers read, and whichever puts and
  deletes fail, a commit that is marked as collected has its own patch in the bucket, and a checkout
  marked as having a working diff has that.
\<close>
theorem a_recorded_patch_can_be_read:
  assumes "fresh_ids evs" and "p \<in> set (db_repos (fst (git_run env evs (empty_db, st))))"
  shows "(\<forall>q \<in> set (commits_of (rp_id p) (fst (git_run env evs (empty_db, st)))). cr_hasDetail q \<longrightarrow>
      (\<exists>d. getCommitDetail (rp_host p) (rp_id p) (cr_sha q) (db_bucket (fst (git_run env evs (empty_db, st)))) = Some d
        \<and> cd_sha d = cr_sha q))
    \<and> (rp_hasWorkingDiff p \<longrightarrow>
      getWorkingDiff (rp_host p) (rp_id p) (db_bucket (fst (git_run env evs (empty_db, st)))) \<noteq> None)"
  using run_from_empty [OF assms(1), of env st] assms(2)
  by (fastforce simp: git_ok_def flags_ok_def commits_of_def detail_stored_def working_stored_def
      getCommitDetail_def getWorkingDiff_def)

section \<open>When a checkout is forgotten\<close>

type_synonym repo_mark = "(string \<times> string \<times> string) \<times> int option"

definition mark_of :: "repo_row \<Rightarrow> repo_mark" where
  "mark_of p = (place p, rp_missingSince p)"

definition marks :: "git_db \<Rightarrow> repo_mark list" where
  "marks db = map mark_of (db_repos db)"

text \<open>What one report makes of a mark: \<open>None\<close> where the row goes.\<close>

definition reconciled :: "int \<Rightarrow> string set \<Rightarrow> string \<Rightarrow> int option \<Rightarrow> int option option" where
  "reconciled now reported path m =
     (if path \<in> reported then Some None
      else case m of None \<Rightarrow> Some (Some now)
        | Some since \<Rightarrow> if now - since < REPO_MISSING_GRACE_MS then Some (Some since) else None)"

lemma marks_upd:
  "marks (upd_repo i f db) = map (\<lambda>p. mark_of (if rp_id p = i then f p else p)) (db_repos db)"
  by (simp add: marks_def upd_repo_def comp_def)

lemma marks_same: "(\<And>p. mark_of (f p) = mark_of p) \<Longrightarrow> marks (upd_repo i f db) = marks db"
  unfolding marks_upd by (simp add: marks_def)

lemma marks_storeWorkingDiff: "storeWorkingDiff e h repo sn db = (db', r) \<Longrightarrow> marks db' = marks db"
  by (auto simp: storeWorkingDiff_def Let_def on_bucket_def upd_repo_def marks_def mark_of_def place_def
      split: option.splits if_splits)

text \<open>Applying a report adds at most the row of its checkout and marks nothing.\<close>

lemma ingestOne_marks:
  assumes "git_ok db" and "fresh \<notin> repo_ids db" and "ingestOne e now fresh h sn db = (db', r)"
  shows "marks db' = marks db \<or> marks db' = marks db @ [((fresh, h, sn_path sn), None)]"
proof (cases "sn_partial sn")
  case True
  then have run: "ingestPartial e now h sn db = (db', r)" using assms(3) by (simp add: ingestOne_def)
  show ?thesis
  proof (cases "List.find (\<lambda>r. rp_host r = h \<and> rp_path r = sn_path sn) (db_repos db)")
    case (Some repo)
    then have repo: "repo \<in> set (db_repos db)" "rp_host repo = h" by (auto dest: find_Some_in)
    obtain db1 r1 where 1: "storeDetails e h repo (loadDetailState (rp_id repo) (map cd_sha (sn_details sn)) db)
        (sn_details sn) (db, 0, 0) = (db1, r1)" by force
    have "db_repos db1 = db_repos db" using storeDetails_ok [OF assms(1) _ 1] repo by auto
    then have "marks db1 = marks db" by (simp add: marks_def)
    moreover have "marks (upd_repo i (partial_patch repo sn n) d) = marks d" for i n d
      by (rule marks_same) (simp add: mark_of_def place_def)
    moreover have "marks (d\<lparr>db_bucket := b\<rparr>) = marks d" "marks (d\<lparr>db_blobs := x\<rparr>) = marks d" for d b x
      by (simp_all add: marks_def)
    ultimately show ?thesis using run Some 1
      by (auto simp: ingestPartial_def Let_def split: option.splits if_splits)
  qed (use run in \<open>auto simp: ingestPartial_def\<close>)
next
  case False
  then have run: "ingestOne_full e fresh h sn db = (db', r)" using assms(3) by (simp add: ingestOne_def)
  obtain repo db1 where 1: "upsertRepo fresh h sn db = (repo, db1)" by force
  obtain db2 r2 where 2: "replaceRefs (rp_id repo) sn db1 = (db2, r2)" by force
  obtain db3 r3 where 3: "upsertCommits (rp_id repo) sn db2 = (db3, r3)" by force
  obtain db4 pruned where 4: "pruneCommits e repo sn db3 = (db4, pruned)" by force
  define db5 where "db5 = clearStaleWindowPositions (rp_id repo) sn db4"
  note ok1 = upsertRepo_ok [OF assms(1,2) 1]
  then have ok2: "git_ok db2" "db_repos db2 = db_repos db1" using replaceRefs_ok [OF _ 2] by auto
  then have ok3: "git_ok db3" "db_repos db3 = db_repos db1" using upsertCommits_ok [OF _ _ 3] ok1 by auto
  then have "git_ok db4" "db_repos db4 = db_repos db1" using pruneCommits_ok [OF _ 4] by auto
  then have ok5: "git_ok db5" "db_repos db5 = db_repos db1" using clear_ok by (simp_all add: db5_def)
  have "marks db' = marks db1"
  proof (cases "reports_error sn \<or> r2 = None \<or> r3 = None")
    case True
    then show ?thesis using run ok2 ok3 unfolding ingestOne_full_run [OF 1 2 3 4 db5_def]
      by (auto simp: marks_def split: if_splits option.splits)
  next
    case False
    then obtain new st where r3: "r3 = Some (new, st)" by auto
    obtain db6 r6 where 6: "storeDetails e h repo st (sn_details sn) (db5, 0, 0) = (db6, r6)" by force
    obtain db7 r7 where 7: "storeWorkingDiff e h repo sn db6 = (db7, r7)" by force
    have "db' = db6 \<or> db' = db7"
      using run False unfolding ingestOne_full_run [OF 1 2 3 4 db5_def] by (auto simp: r3 6 7 split: option.splits)
    moreover have "\<exists>p \<in> set (db_repos db5). rp_id p = rp_id repo \<and> rp_host p = h" using ok1 ok5(2) by auto
    then have "marks db6 = marks db1" using storeDetails_ok [OF ok5(1) _ 6] ok5(2) by (simp add: marks_def)
    ultimately show ?thesis using marks_storeWorkingDiff [OF 7] by auto
  qed
  moreover have "marks db1 = marks db \<or> marks db1 = marks db @ [((fresh, h, sn_path sn), None)]"
  proof (cases "List.find (\<lambda>r. rp_host r = h \<and> rp_path r = sn_path sn) (db_repos db)")
    case None
    then show ?thesis using 1
      by (auto simp: upsertRepo_def Let_def marks_def mark_of_def place_def default_repo_def)
  next
    case (Some p)
    then have p: "p \<in> set (db_repos db)" "rp_host p = h" "rp_path p = sn_path sn" by (auto dest: find_Some_in)
    have self: "q = p" if "q \<in> set (db_repos db)" "rp_id q = rp_id p" for q
      using row_of_id [of db q p] assms(1) p(1) that by (simp add: git_ok_def)
    have "mark_of (if rp_id q = rp_id p then snapshot_patch h sn q else q) = mark_of q" if "q \<in> set (db_repos db)" for q
      using self [OF that] p(2,3) by (cases "rp_id q = rp_id p") (simp_all add: mark_of_def place_def)
    then have "marks (upd_repo (rp_id p) (snapshot_patch h sn) db) = marks db"
      unfolding marks_upd by (simp add: marks_def)
    then show ?thesis using 1 Some by (simp add: upsertRepo_def)
  qed
  ultimately show ?thesis by simp
qed

lemma ingest_loop_marks:
  "git_ok db \<Longrightarrow> distinct (map fst frame) \<Longrightarrow> fst ` set frame \<inter> repo_ids db = {}
    \<Longrightarrow> ingest_loop e now h frame (db, m) = (db', m')
    \<Longrightarrow> \<exists>new. marks db' = marks db @ new \<and> (\<forall>x \<in> set new. snd x = None)"
proof (induction e now h frame "(db, m)" arbitrary: db m rule: ingest_loop.induct)
  case (2 e now h fresh sn sns db m)
  obtain db1 one where 1: "ingestOne e now fresh h sn db = (db1, one)" by force
  have ok: "git_ok db1" "repo_ids db1 \<subseteq> insert fresh (repo_ids db)"
    using ingestOne_ok [OF 2(2) _ 1] 2(4) by auto
  have "fst ` set sns \<inter> insert fresh (repo_ids db) = {}" using 2(3,4) by auto
  then have "fst ` set sns \<inter> repo_ids db1 = {}" using ok(2) by blast
  then obtain new where new: "marks db' = marks db1 @ new" "\<forall>x \<in> set new. snd x = None"
    using 2(1) [OF 1 [symmetric] refl ok(1)] 2(3,5) 1 by auto
  have "marks db1 = marks db \<or> marks db1 = marks db @ [((fresh, h, sn_path sn), None)]"
    using ingestOne_marks [OF 2(2) _ 1] 2(4) by simp
  then show ?case
  proof
    assume "marks db1 = marks db"
    then show ?thesis using new by (intro exI [of _ new]) simp
  next
    assume "marks db1 = marks db @ [((fresh, h, sn_path sn), None)]"
    then show ?thesis using new by (intro exI [of _ "((fresh, h, sn_path sn), None) # new"]) simp
  qed
qed simp

text \<open>The rows of the host are gone through once, each from what it was.\<close>

lemma marks_drop: "git_ok db \<Longrightarrow> marks (dropRepo e row db) = filter (\<lambda>x. fst (fst x) \<noteq> rp_id row) (marks db)"
  using dropRepo_ok [of db e row] by (simp add: marks_def filter_map comp_def mark_of_def place_def)

lemma marks_ids: "fst ` fst ` set (marks db) = repo_ids db"
  by (auto simp: marks_def mark_of_def place_def image_image)

lemma marks_unique:
  "git_ok db \<Longrightarrow> x \<in> set (marks db) \<Longrightarrow> y \<in> set (marks db) \<Longrightarrow> fst (fst x) = fst (fst y) \<Longrightarrow> x = y"
proof -
  assume db: "git_ok db" "x \<in> set (marks db)" "y \<in> set (marks db)" "fst (fst x) = fst (fst y)"
  then obtain p q where "p \<in> set (db_repos db)" "q \<in> set (db_repos db)" "x = mark_of p" "y = mark_of q"
    by (auto simp: marks_def)
  then show ?thesis using row_of_id [of db p q] db by (simp add: git_ok_def mark_of_def place_def)
qed

lemma marks_missing:
  assumes "git_ok db" and "(pl, m) \<in> set (marks db)" and "fst pl = i"
  shows "x \<in> set (marks (upd_repo i (rp_missingSince_update (\<lambda>_. m')) db))
    \<longleftrightarrow> x \<in> set (marks db) \<and> fst (fst x) \<noteq> i \<or> x = (pl, m')"
proof -
  have unique: "p = q" if "p \<in> set (db_repos db)" "q \<in> set (db_repos db)" "rp_id p = rp_id q" for p q
    using row_of_id [of db p q] assms(1) that by (simp add: git_ok_def)
  obtain p where p: "p \<in> set (db_repos db)" "place p = pl" "rp_id p = i"
    using assms(2,3) by (auto simp: marks_def mark_of_def place_def)
  have at: "mark_of (if rp_id q = i then rp_missingSince_update (\<lambda>_. m') q else q)
      = (if rp_id q = i then (pl, m') else mark_of q)" if "q \<in> set (db_repos db)" for q
    using unique [OF that p(1)] p by (auto simp: mark_of_def place_def)
  then have "set (marks (upd_repo i (rp_missingSince_update (\<lambda>_. m')) db))
      = (\<lambda>q. if rp_id q = i then (pl, m') else mark_of q) ` set (db_repos db)"
    unfolding marks_upd set_map by (rule image_cong [OF refl])
  then show ?thesis using p by (auto simp: marks_def mark_of_def place_def)
qed

lemma reconcile_marks:
  "git_ok db \<Longrightarrow> distinct (map rp_id rows) \<Longrightarrow> mark_of ` set rows \<subseteq> set (marks db)
    \<Longrightarrow> reconcile_loop e now reported rows (db, n) = (db', n')
    \<Longrightarrow> x \<in> set (marks db') \<longleftrightarrow> x \<in> set (marks db) \<and> fst (fst x) \<notin> rp_id ` set rows
      \<or> (\<exists>row \<in> set rows. fst x = place row \<and> reconciled now reported (rp_path row) (rp_missingSince row) = Some (snd x))"
proof (induction e now reported rows "(db, n)" arbitrary: db n rule: reconcile_loop.induct)
  case (2 e now reported row rows db n)
  define s where "s = (if rp_path row \<in> reported then
          (if rp_missingSince row \<noteq> None then upd_repo (rp_id row) (rp_missingSince_update (\<lambda>_. None)) db else db, n)
        else case rp_missingSince row of
            None \<Rightarrow> (upd_repo (rp_id row) (rp_missingSince_update (\<lambda>_. Some now)) db, n)
          | Some since \<Rightarrow>
              if now - since < REPO_MISSING_GRACE_MS then (db, n) else (dropRepo e row db, n + 1))"
  have here: "(place row, rp_missingSince row) \<in> set (marks db)" using 2(4) by (auto simp: mark_of_def)
  have ok: "git_ok (fst s)"
    using 2(2) missing_ok [OF 2(2)] dropRepo_ok [OF 2(2), of e row] by (simp add: s_def split: option.split)
  have same: "y \<in> set (marks db) \<longleftrightarrow> y \<in> set (marks db) \<and> fst (fst y) \<noteq> rp_id row \<or> y = (place row, rp_missingSince row)" for y
  proof (cases "fst (fst y) = rp_id row")
    case True
    then have "y \<in> set (marks db) \<Longrightarrow> y = (place row, rp_missingSince row)"
      using marks_unique [OF 2(2) _ here, of y] by (simp add: place_def)
    then show ?thesis using True here by blast
  qed (auto simp: place_def)
  have one: "y \<in> set (marks (fst s)) \<longleftrightarrow> y \<in> set (marks db) \<and> fst (fst y) \<noteq> rp_id row
      \<or> fst y = place row \<and> reconciled now reported (rp_path row) (rp_missingSince row) = Some (snd y)" for y
  proof (cases "reconciled now reported (rp_path row) (rp_missingSince row)")
    case None
    then have "fst s = dropRepo e row db" by (auto simp: s_def reconciled_def split: option.splits if_splits)
    then show ?thesis using None marks_drop [OF 2(2), of e row] by simp
  next
    case (Some m)
    have e: "y = (place row, m) \<longleftrightarrow> fst y = place row \<and> reconciled now reported (rp_path row) (rp_missingSince row) = Some (snd y)"
      using Some by (cases y) auto
    have "fst s = db \<and> m = rp_missingSince row \<or> fst s = upd_repo (rp_id row) (rp_missingSince_update (\<lambda>_. m)) db"
      using Some by (auto simp: s_def reconciled_def split: option.splits if_splits)
    moreover have "y \<in> set (marks (upd_repo (rp_id row) (rp_missingSince_update (\<lambda>_. m)) db))
        \<longleftrightarrow> y \<in> set (marks db) \<and> fst (fst y) \<noteq> rp_id row \<or> y = (place row, m)"
      by (rule marks_missing [OF 2(2) here]) (simp add: place_def)
    ultimately show ?thesis using same [of y] unfolding e [symmetric] by metis
  qed
  have "distinct (map rp_id rows)" using 2(3) by simp
  moreover have "mark_of ` set rows \<subseteq> set (marks (fst s))"
  proof (rule image_subsetI)
    fix r assume r: "r \<in> set rows"
    then have "rp_id row \<noteq> rp_id r" using 2(3) by force
    moreover have "mark_of r \<in> set (marks db)" using 2(4) r by auto
    ultimately show "mark_of r \<in> set (marks (fst s))"
      using one [of "mark_of r"] by (simp add: mark_of_def place_def)
  qed
  ultimately have "x \<in> set (marks db') \<longleftrightarrow> x \<in> set (marks (fst s)) \<and> fst (fst x) \<notin> rp_id ` set rows
      \<or> (\<exists>r \<in> set rows. fst x = place r \<and> reconciled now reported (rp_path r) (rp_missingSince r) = Some (snd x))"
    using 2(1) [folded s_def, of "fst s" "snd s"] ok 2(5) unfolding reconcile_loop.simps s_def [symmetric] by simp
  moreover have "rp_id row \<notin> rp_id ` set rows" using 2(3) by simp
  ultimately show ?case using one [of x] by (auto simp: place_def)
qed simp

text \<open>A frame reconciles when it is not empty and no part of it is partial.\<close>

definition full_frame :: "(string \<times> repo_snapshot) list \<Rightarrow> bool" where
  "full_frame frame \<longleftrightarrow> frame \<noteq> [] \<and> (\<forall>x \<in> set frame. \<not> sn_partial (snd x))"

definition frame_paths :: "(string \<times> repo_snapshot) list \<Rightarrow> string set" where
  "frame_paths frame = sn_path ` snd ` set frame"

definition mark_after :: "int \<Rightarrow> string \<Rightarrow> (string \<times> repo_snapshot) list \<Rightarrow> repo_mark list \<Rightarrow> repo_mark \<Rightarrow> bool" where
  "mark_after now h frame xs x \<longleftrightarrow>
     (if full_frame frame then
        (\<exists>y \<in> set xs. if fst (snd (fst y)) = h
           then fst x = fst y \<and> reconciled now (frame_paths frame) (snd (snd (fst y))) (snd y) = Some (snd x) else x = y)
      else x \<in> set xs)"

text \<open>What a frame makes of the marks there were; a row it adds is not marked as missing.\<close>

lemma ingest_marks:
  assumes "git_ok db" and "distinct (map fst frame)" and "fst ` set frame \<inter> repo_ids db = {}"
  obtains new where "\<And>y. y \<in> set new \<Longrightarrow> snd y = None"
    "\<And>x. x \<in> set (marks (fst (ingest e now h frame db))) \<longleftrightarrow> mark_after now h frame (marks db @ new) x"
proof -
  obtain db1 m where 1: "ingest_loop e now h frame (db, \<lparr>gs_repos = 0, gs_newCommits = 0, gs_storedDetails = 0,
            gs_skippedDetails = 0, gs_prunedCommits = 0, gs_prunedRepos = 0, gs_newDetailPaths = []\<rparr>) = (db1, m)" by force
  obtain db2 n where 2: "reconcileRepos e now h (map snd frame) db1 = (db2, n)" by force
  have db2: "fst (ingest e now h frame db) = db2" using 1 2 by (simp add: ingest_def)
  obtain new where new: "marks db1 = marks db @ new" "\<forall>x \<in> set new. snd x = None"
    using ingest_loop_marks [OF assms 1] by blast
  have ok1: "git_ok db1" using ingest_loop_ok [OF assms 1] by simp
  let ?rows = "filter (\<lambda>r. rp_host r = h) (db_repos db1)"
  have "x \<in> set (marks db2) \<longleftrightarrow> mark_after now h frame (marks db1) x" for x
  proof (cases "full_frame frame")
    case True
    then have a: "reconcile_loop e now (frame_paths frame) ?rows (db1, 0) = (db2, n)"
      using 2 by (auto simp: reconcileRepos_def full_frame_def frame_paths_def image_image split: if_splits)
    have b: "distinct (map rp_id ?rows)" using ok1 by (simp add: git_ok_def tables_ok_def distinct_map_filter)
    have c: "mark_of ` set ?rows \<subseteq> set (marks db1)" by (auto simp: marks_def)
    have r: "x \<in> set (marks db2) \<longleftrightarrow> x \<in> set (marks db1) \<and> fst (fst x) \<notin> rp_id ` set ?rows
      \<or> (\<exists>row \<in> set ?rows. fst x = place row \<and> reconciled now (frame_paths frame) (rp_path row) (rp_missingSince row) = Some (snd x))"
      by (rule reconcile_marks [OF ok1 b c a])
    have host: "rp_id p \<in> rp_id ` set ?rows \<longleftrightarrow> rp_host p = h" if p: "p \<in> set (db_repos db1)" for p
    proof
      assume "rp_id p \<in> rp_id ` set ?rows"
      then obtain q where "q \<in> set (db_repos db1)" "rp_host q = h" "rp_id p = rp_id q" by auto
      then show "rp_host p = h" using row_of_id [of db1 p q] ok1 p by (simp add: git_ok_def)
    qed (use p in auto)
    have "(\<exists>y \<in> set (marks db1). if fst (snd (fst y)) = h
            then fst x = fst y \<and> reconciled now (frame_paths frame) (snd (snd (fst y))) (snd y) = Some (snd x) else x = y)
      \<longleftrightarrow> (\<exists>p \<in> set (db_repos db1). if rp_host p = h
            then fst x = place p \<and> reconciled now (frame_paths frame) (rp_path p) (rp_missingSince p) = Some (snd x) else x = mark_of p)"
      by (simp add: marks_def mark_of_def place_def)
    also have "\<dots> \<longleftrightarrow> (\<exists>p \<in> set (db_repos db1). x = mark_of p \<and> rp_id p \<notin> rp_id ` set ?rows)
      \<or> (\<exists>row \<in> set ?rows. fst x = place row \<and> reconciled now (frame_paths frame) (rp_path row) (rp_missingSince row) = Some (snd x))"
      using host by auto
    also have "(\<exists>p \<in> set (db_repos db1). x = mark_of p \<and> rp_id p \<notin> rp_id ` set ?rows)
      \<longleftrightarrow> x \<in> set (marks db1) \<and> fst (fst x) \<notin> rp_id ` set ?rows"
      by (auto simp: marks_def mark_of_def place_def)
    finally show ?thesis using r True by (simp add: mark_after_def)
  next
    case False
    then have "db2 = db1" using 2 by (auto simp: reconcileRepos_def full_frame_def split: if_splits)
    then show ?thesis using False by (simp add: mark_after_def)
  qed
  then show ?thesis using new that [of new] by (simp add: db2)
qed
text \<open>
  Since the frame at \<open>t0\<close>, which did not report the checkout, no full report of its host has.
\<close>

definition not_reporting :: "string \<Rightarrow> string \<Rightarrow> git_event \<Rightarrow> bool" where
  "not_reporting h path ev \<longleftrightarrow>
     (case ev of Frame _ _ h' frame \<Rightarrow> h' = h \<longrightarrow> full_frame frame \<longrightarrow> path \<notin> frame_paths frame | _ \<Rightarrow> True)"

definition absent_since :: "string \<Rightarrow> string \<Rightarrow> int \<Rightarrow> git_event list \<Rightarrow> bool" where
  "absent_since h path t0 evs \<longleftrightarrow>
     (\<exists>before e frame rest. evs = before @ Frame e t0 h frame # rest \<and> full_frame frame \<and> path \<notin> frame_paths frame
        \<and> list_all (not_reporting h path) rest)"

lemma absent_since_later:
  "absent_since h path t0 evs \<Longrightarrow> not_reporting h path ev \<Longrightarrow> absent_since h path t0 (evs @ [ev])"
proof -
  assume "absent_since h path t0 evs" and ev: "not_reporting h path ev"
  then obtain before e frame rest where "evs = before @ Frame e t0 h frame # rest" "full_frame frame"
    "path \<notin> frame_paths frame" "list_all (not_reporting h path) rest" unfolding absent_since_def by blast
  then show ?thesis unfolding absent_since_def using ev
    by (intro exI [of _ before] exI [of _ e] exI [of _ frame] exI [of _ "rest @ [ev]"]) simp
qed

lemma absent_since_now:
  "full_frame frame \<Longrightarrow> path \<notin> frame_paths frame \<Longrightarrow> absent_since h path t0 (evs @ [Frame e t0 h frame])"
  unfolding absent_since_def by (intro exI [of _ evs] exI [of _ e] exI [of _ frame] exI [of _ "[]"]) simp

definition marks_true :: "git_event list \<Rightarrow> git_db \<Rightarrow> bool" where
  "marks_true evs db \<longleftrightarrow> (\<forall>x \<in> set (marks db). \<forall>t0. snd x = Some t0 \<longrightarrow>
     absent_since (fst (snd (fst x))) (snd (snd (fst x))) t0 evs)"

lemma read_marks:
  assumes "git_ok (fst s)" and "\<forall>e t h f. ev \<noteq> Frame e t h f"
  shows "marks (fst (git_step env ev s)) = marks (fst s)"
proof (cases s; cases ev)
  fix db st org hostId repoId x assume s: "s = (db, st)" "ev = ReadDetail org hostId repoId x"
  obtain a db' st' where "commitDetail env org hostId repoId x db st = (a, db', st')" by (metis prod_cases3)
  then show ?thesis using commitDetail_ok [of db] assms(1) s by (fastforce simp: marks_def)
next
  fix db st now org hostId repoId x path assume s: "s = (db, st)" "ev = ReadBlob now org hostId repoId x path"
  obtain a db' st' where r: "commitBlob env now org hostId repoId x path db st = (a, db', st')" by (metis prod_cases3)
  then show ?thesis using commitBlob_ok [OF r] s by (simp add: marks_def)
qed (use assms(2) in auto)

lemma marks_true_step:
  assumes "git_ok (fst s)" and "distinct (offered_ids ev)" and "set (offered_ids ev) \<inter> repo_ids (fst s) = {}"
    and "marks_true evs (fst s)"
  shows "marks_true (evs @ [ev]) (fst (git_step env ev s))"
proof (cases "\<exists>e t h f. ev = Frame e t h f")
  case False
  then have "not_reporting h path ev" for h path by (cases ev) (auto simp: not_reporting_def)
  moreover have "marks (fst (git_step env ev s)) = marks (fst s)" using read_marks [OF assms(1)] False by blast
  ultimately show ?thesis using assms(4) unfolding marks_true_def by (intro ballI allI impI absent_since_later) simp_all
next
  case True
  then obtain e t h f where ev: "ev = Frame e t h f" by blast
  obtain db st where s: "s = (db, st)" by (cases s)
  have pre: "git_ok db" "distinct (map fst f)" "fst ` set f \<inter> repo_ids db = {}"
    using assms(1-3) by (auto simp: ev s)
  obtain new where new: "\<And>y. y \<in> set new \<Longrightarrow> snd y = None"
    and m: "\<And>x. x \<in> set (marks (fst (ingest e t h f db))) \<longleftrightarrow> mark_after t h f (marks db @ new) x"
    by (rule ingest_marks [OF pre, of e t h]) blast
  have old: "absent_since (fst (snd (fst y))) (snd (snd (fst y))) t0 (evs @ [ev])"
    if y: "y \<in> set (marks db @ new)" "snd y = Some t0" "not_reporting (fst (snd (fst y))) (snd (snd (fst y))) ev" for y t0
  proof -
    have "y \<in> set (marks db)" using y(1,2) new [of y] by (cases "y \<in> set new") simp_all
    then have "absent_since (fst (snd (fst y))) (snd (snd (fst y))) t0 evs"
      using assms(4) y(2) by (simp add: marks_true_def s)
    then show ?thesis using y(3) by (rule absent_since_later)
  qed
  show ?thesis
    unfolding marks_true_def
  proof (intro ballI allI impI)
    fix x t0 assume "x \<in> set (marks (fst (git_step env ev s)))" and t0: "snd x = Some t0"
    then have x: "x \<in> set (marks (fst (ingest e t h f db)))" by (simp add: ev s)
    show "absent_since (fst (snd (fst x))) (snd (snd (fst x))) t0 (evs @ [ev])"
    proof (cases "full_frame f")
      case False
      then have "x \<in> set (marks db @ new)" using x m [of x] by (simp add: mark_after_def)
      then show ?thesis using old [of x t0] t0 False by (simp add: not_reporting_def ev)
    next
      case True
      then obtain y where y: "y \<in> set (marks db @ new)" "if fst (snd (fst y)) = h
          then fst x = fst y \<and> reconciled t (frame_paths f) (snd (snd (fst y))) (snd y) = Some (snd x) else x = y"
        using x m [of x] unfolding mark_after_def by auto
      show ?thesis
      proof (cases "fst (snd (fst y)) = h")
        case False
        then show ?thesis using old [of y t0] y t0 by (simp add: not_reporting_def ev)
      next
        case True
        then have r: "fst x = fst y" "reconciled t (frame_paths f) (snd (snd (fst y))) (snd y) = Some (Some t0)"
          using y(2) t0 by simp_all
        then have p: "snd (snd (fst y)) \<notin> frame_paths f" and c: "snd y = None \<and> t0 = t \<or> snd y = Some t0"
          by (auto simp: reconciled_def split: if_splits option.splits)
        from c show ?thesis
        proof
          assume "snd y = None \<and> t0 = t"
          then show ?thesis using absent_since_now [OF \<open>full_frame f\<close> p, of h t evs e] r(1) True by (simp add: ev)
        next
          assume "snd y = Some t0"
          then show ?thesis using old [OF y(1)] p r(1) by (simp add: not_reporting_def ev)
        qed
      qed
    qed
  qed
qed

lemma run_marks_true:
  "fresh_ids evs \<Longrightarrow> marks_true evs (fst (git_run env evs (empty_db, st)))"
proof (induction evs rule: rev_induct)
  case (snoc ev evs)
  let ?s = "git_run env evs (empty_db, st)"
  have f: "fresh_ids evs" "distinct (offered_ids ev)" "set (offered_ids ev) \<inter> set (concat (map offered_ids evs)) = {}"
    using snoc.prems by (auto simp: fresh_ids_def)
  have "set (offered_ids ev) \<inter> repo_ids (fst ?s) = {}" by (rule run_offers [OF snoc.prems])
  from marks_true_step [OF run_from_empty [OF f(1)] f(2) this snoc.IH [OF f(1)]]
  show ?case by (simp add: git_run_def)
qed (simp add: git_run_def marks_true_def marks_def empty_db_def)

text \<open>A checkout whose mark no frame leaves behind was swept by that frame.\<close>

lemma swept_by_frame:
  assumes new: "\<And>x. x \<in> set ms \<longleftrightarrow> mark_after t h frame olds x" and "mark_of p \<in> set olds"
    and out: "\<And>z. fst z = place p \<Longrightarrow> z \<notin> set ms"
  shows "full_frame frame" and "rp_host p = h"
    and "reconciled t (frame_paths frame) (rp_path p) (rp_missingSince p) = None"
proof -
  have no: "\<not> mark_after t h frame olds (mark_of p)"
    using out [of "mark_of p"] new [of "mark_of p"] by (simp add: mark_of_def)
  show full: "full_frame frame"
  proof (rule ccontr)
    assume "\<not> full_frame frame"
    then show False using no assms(2) by (simp add: mark_after_def)
  qed
  show h: "rp_host p = h"
  proof (rule ccontr)
    assume "rp_host p \<noteq> h"
    then have "mark_after t h frame olds (mark_of p)"
      unfolding mark_after_def using assms(2) by (intro if_bool_eq_conj [THEN iffD2] conjI impI bexI [of _ "mark_of p"])
        (simp_all add: mark_of_def place_def)
    then show False using no by simp
  qed
  show "reconciled t (frame_paths frame) (rp_path p) (rp_missingSince p) = None"
  proof (rule ccontr)
    assume "\<not> ?thesis"
    then obtain m' where m': "reconciled t (frame_paths frame) (rp_path p) (rp_missingSince p) = Some m'" by blast
    then have "(place p, m') \<in> set ms"
      using new [of "(place p, m')"] assms(2) full h by (auto simp: mark_after_def mark_of_def place_def intro!: bexI [of _ "mark_of p"])
    then show False using out [of "(place p, m')"] by simp
  qed
qed

text \<open>
  C26 (\<open>a_checkout_outlives_every_single_report\<close>): a checkout is forgotten only by a full report of its
  host that does not name it, and only when an earlier full report, at least half an hour before, did
  not name it either and none in between has. An empty frame, an answer to a click or one bad pass
  never removes it.
\<close>
theorem a_checkout_outlives_every_single_report:
  assumes "fresh_ids (evs @ [ev])" and "p \<in> set (db_repos (fst (git_run env evs (empty_db, st))))"
    and "rp_id p \<notin> repo_ids (fst (git_run env (evs @ [ev]) (empty_db, st)))"
  shows "\<exists>e t frame t0. ev = Frame e t (rp_host p) frame \<and> full_frame frame \<and> rp_path p \<notin> frame_paths frame
    \<and> absent_since (rp_host p) (rp_path p) t0 evs \<and> 30 * 60 * 1000 \<le> t - t0"
proof -
  let ?s = "git_run env evs (empty_db, st)"
  have f: "fresh_ids evs" "distinct (offered_ids ev)" "set (offered_ids ev) \<inter> set (concat (map offered_ids evs)) = {}"
    using assms(1) by (auto simp: fresh_ids_def)
  have disj: "set (offered_ids ev) \<inter> repo_ids (fst ?s) = {}" by (rule run_offers [OF assms(1)])
  note ok = run_from_empty [OF f(1), of env st]
  have gone: "rp_id p \<notin> repo_ids (fst (git_step env ev ?s))" using assms(3) by (simp add: git_run_def)
  have x: "mark_of p \<in> set (marks (fst ?s))" using assms(2) by (simp add: marks_def)
  show ?thesis
  proof (cases "\<exists>e t h f. ev = Frame e t h f")
    case False
    then have "marks (fst (git_step env ev ?s)) = marks (fst ?s)" using read_marks [OF ok] by blast
    then have "rp_id p \<in> repo_ids (fst (git_step env ev ?s))"
      using assms(2) marks_ids [of "fst ?s"] marks_ids [of "fst (git_step env ev ?s)"] by (metis imageI)
    then show ?thesis using gone by simp
  next
    case True
    then obtain e t h frame where ev: "ev = Frame e t h frame" by blast
    obtain db st' where s: "?s = (db, st')" by (cases ?s)
    have pre: "git_ok db" "distinct (map fst frame)" "fst ` set frame \<inter> repo_ids db = {}"
      using ok f(2) disj s by (auto simp: ev)
    obtain new where m: "\<And>x. x \<in> set (marks (fst (ingest e t h frame db))) \<longleftrightarrow> mark_after t h frame (marks db @ new) x"
      by (rule ingest_marks [OF pre, of e t h]) blast
    have out: "z \<notin> set (marks (fst (ingest e t h frame db)))" if "fst z = place p" for z
    proof
      assume "z \<in> set (marks (fst (ingest e t h frame db)))"
      then have "fst (fst z) \<in> repo_ids (fst (ingest e t h frame db))" unfolding marks_ids [symmetric] by (intro imageI)
      then show False using gone that by (simp add: ev s place_def)
    qed
    have px: "mark_of p \<in> set (marks db @ new)" using x s by simp
    note swept = swept_by_frame [OF m px out]
    from swept(3) obtain t0 where r: "rp_path p \<notin> frame_paths frame" "rp_missingSince p = Some t0" "30 * 60 * 1000 \<le> t - t0"
      by (auto simp: reconciled_def REPO_MISSING_GRACE_MS_def split: if_splits option.splits)
    have "absent_since (rp_host p) (rp_path p) t0 evs"
      using run_marks_true [OF f(1), of env st] x r(2) by (auto simp: marks_true_def mark_of_def place_def)
    then show ?thesis using ev swept(1,2) r by blast
  qed
qed

section \<open>A small run\<close>

definition sample_uuid :: "nat \<Rightarrow> string" where
  "sample_uuid n = replicate 35 CHR ''a'' @ [digit_char n]"

definition sample_commit :: "string \<Rightarrow> string list \<Rightarrow> git_commit" where
  "sample_commit s ps = \<lparr>gc_commit = \<lparr>sha = s, parents = ps\<rparr>, gc_refs = [], gc_author = [], gc_date = Some 5, gc_subject = []\<rparr>"

definition sample_detail :: "string \<Rightarrow> commit_detail" where
  "sample_detail s = \<lparr>cd_sha = s, cd_subject = [], cd_body = [], cd_bodyTruncated = False, cd_authorEmail = [],
     cd_committer = [], cd_committerEmail = [], cd_committerDate = None, cd_files = [], cd_dropped = 0,
     cd_truncated = False, cd_empty = False\<rparr>"

definition sample_snapshot :: "string \<Rightarrow> git_commit list \<Rightarrow> commit_detail list \<Rightarrow> repo_snapshot" where
  "sample_snapshot path cs ds =
     \<lparr>sn_path = path, sn_name = path, sn_ts = 1,
      sn_head = \<lparr>gh_branch = None, gh_sha = None, gh_detached = False, gh_ahead = None, gh_behind = None\<rparr>,
      sn_refs = [], sn_commits = cs, sn_uncommitted = None, sn_truncated = False, sn_limit = 300, sn_details = ds,
      sn_workingDiff = None, sn_pending = 0, sn_remote = None, sn_tree = None, sn_blob = None, sn_partial = False,
      sn_error = None\<rparr>"

definition sound_bucket :: bucket_faults where
  "sound_bucket = \<lparr>put_fails = \<lambda>_. False, delete_fails = \<lambda>_. False\<rparr>"

definition quiet_env :: "unit git_env" where
  "quiet_env = \<lparr>host_of = \<lambda>_ h. Some h, listener = \<lambda>_ _ _ s. (Some False, s), text_cmp = str_cmp\<rparr>"

definition first_report :: git_event where
  "first_report = Frame sound_bucket 0 (sample_uuid 0)
     [(sample_uuid 1, sample_snapshot ''/a'' [sample_commit ''abcdef0'' []] [sample_detail ''abcdef0''])]"

definition plain_report :: "string \<Rightarrow> string \<Rightarrow> int \<Rightarrow> git_event" where
  "plain_report i path now = Frame sound_bucket now ''h'' [(i, sample_snapshot path [] [])]"

lemmas sample_eval = git_run_def first_report_def plain_report_def sample_snapshot_def sample_commit_def sample_detail_def
  sound_bucket_def ingest_def ingestOne_def ingestOne_full_def upsertRepo_def snapshot_patch_def default_repo_def
  replaceRefs_def upsertCommits_def known_rows_def commits_of_def new_commit_row_def pruneCommits_def stale_rows_def
  delete_in_chunks_def clearStaleWindowPositions_def storeWorkingDiff_def putCommitDetail_def put_object_def
  upd_commits_def upd_repo_def fold_one_def reconcileRepos_def dropRepo_def REPO_MISSING_GRACE_MS_def EMPTY_RESULT_def
  empty_db_def chunked.simps Let_def on_bucket_def deleteCommitDetail_def deleteFileTree_def delete_object_def
  delete_commits_def

lemma sample_key: "commitDetailKey (sample_uuid 0) (sample_uuid 1) ''abcdef0'' \<noteq> None"
  by (simp add: commitDetailKey_def isValidSha_def hex_lower_def is_digit_def repoPrefix_def uuid_text_def
      sample_uuid_def digit_char_def is_hex_def list_all_iff)

lemma first_report_rows:
  "map (\<lambda>p. (rp_id p, rp_host p, rp_path p)) (db_repos (fst (git_run quiet_env [first_report] (empty_db, ()))))
    = [(sample_uuid 1, sample_uuid 0, ''/a'')]"
proof -
  obtain k where "commitDetailKey (sample_uuid 0) (sample_uuid 1) ''abcdef0'' = Some k" using sample_key by blast
  then show ?thesis by (simp add: sample_eval isValidSha_def hex_lower_def is_digit_def)
qed

lemma first_report_commits:
  "map (\<lambda>q. (cr_repo q, cr_sha q, cr_hasDetail q)) (db_commits (fst (git_run quiet_env [first_report] (empty_db, ()))))
    = [(sample_uuid 1, ''abcdef0'', True)]"
proof -
  obtain k where "commitDetailKey (sample_uuid 0) (sample_uuid 1) ''abcdef0'' = Some k" using sample_key by blast
  then show ?thesis by (simp add: sample_eval isValidSha_def hex_lower_def is_digit_def)
qed

lemma a_recorded_patch_can_be_read_witness:
  "\<exists>d. getCommitDetail (sample_uuid 0) (sample_uuid 1) ''abcdef0''
      (db_bucket (fst (git_run quiet_env [first_report] (empty_db, ())))) = Some d \<and> cd_sha d = ''abcdef0''"
proof -
  let ?db = "fst (git_run quiet_env [first_report] (empty_db, ()))"
  obtain p where p: "p \<in> set (db_repos ?db)" "rp_id p = sample_uuid 1" "rp_host p = sample_uuid 0"
    using first_report_rows by (auto simp: map_eq_Cons_conv)
  obtain q where q: "q \<in> set (db_commits ?db)" "cr_repo q = sample_uuid 1" "cr_sha q = ''abcdef0''" "cr_hasDetail q"
    using first_report_commits by (auto simp: map_eq_Cons_conv)
  have "fresh_ids [first_report]" by (simp add: fresh_ids_def first_report_def)
  from a_recorded_patch_can_be_read [OF this p(1)] show ?thesis using p q by (auto simp: commits_of_def)
qed

lemma plain_report_rows:
  "map mark_of (db_repos (fst (git_run quiet_env [plain_report ''i'' ''/a'' 0] (empty_db, ())))) = [((''i'', ''h'', ''/a''), None)]"
  "map mark_of (db_repos (fst (git_run quiet_env [plain_report ''i'' ''/a'' 0, plain_report ''j'' ''/b'' 1000] (empty_db, ()))))
    = [((''i'', ''h'', ''/a''), Some 1000), ((''j'', ''h'', ''/b''), None)]"
  by (simp_all add: sample_eval mark_of_def place_def)

lemma plain_report_commits:
  "db_commits (fst (git_run quiet_env [plain_report ''i'' ''/a'' 0, plain_report ''j'' ''/b'' 1000] (empty_db, ()))) = []"
  by (simp add: sample_eval)

lemma forgotten_by_the_third:
  assumes "map mark_of (db_repos (fst s)) = [((''i'', ''h'', ''/a''), Some 1000), ((''j'', ''h'', ''/b''), None)]"
    and "db_commits (fst s) = []"
  shows "repo_ids (fst (git_step quiet_env (plain_report ''k'' ''/b'' 1801000) s)) = {''j''}"
proof -
  obtain p q where "db_repos (fst s) = [p, q]" "rp_id p = ''i''" "rp_host p = ''h''" "rp_path p = ''/a''" "rp_missingSince p = Some 1000"
    "rp_id q = ''j''" "rp_host q = ''h''" "rp_path q = ''/b''" "rp_missingSince q = None"
    using assms(1) by (auto simp: map_eq_Cons_conv mark_of_def place_def)
  then show ?thesis using assms(2) by (cases s) (simp add: sample_eval)
qed

lemma forgotten_report_rows:
  "repo_ids (fst (git_run quiet_env [plain_report ''i'' ''/a'' 0, plain_report ''j'' ''/b'' 1000, plain_report ''k'' ''/b'' 1801000]
     (empty_db, ()))) = {''j''}"
  using forgotten_by_the_third [OF plain_report_rows(2) plain_report_commits] by (simp add: git_run_def)

lemma a_checkout_outlives_every_single_report_witness:
  "\<exists>e t frame t0. plain_report ''k'' ''/b'' 1801000 = Frame e t ''h'' frame \<and> full_frame frame \<and> ''/a'' \<notin> frame_paths frame
    \<and> absent_since ''h'' ''/a'' t0 [plain_report ''i'' ''/a'' 0, plain_report ''j'' ''/b'' 1000] \<and> 30 * 60 * 1000 \<le> t - t0"
proof -
  let ?evs = "[plain_report ''i'' ''/a'' 0, plain_report ''j'' ''/b'' 1000]" and ?ev = "plain_report ''k'' ''/b'' 1801000"
  have "((''i'', ''h'', ''/a''), Some 1000) \<in> set (marks (fst (git_run quiet_env ?evs (empty_db, ()))))"
    by (simp add: marks_def plain_report_rows del: set_map)
  then obtain p where p: "p \<in> set (db_repos (fst (git_run quiet_env ?evs (empty_db, ()))))" "rp_id p = ''i''"
      "rp_host p = ''h''" "rp_path p = ''/a''"
    by (auto simp: marks_def mark_of_def place_def)
  have "rp_id p \<notin> repo_ids (fst (git_run quiet_env (?evs @ [?ev]) (empty_db, ())))"
    using p(2) forgotten_report_rows by simp
  moreover have "fresh_ids (?evs @ [?ev])" by (simp add: fresh_ids_def plain_report_def)
  ultimately show ?thesis
    using a_checkout_outlives_every_single_report [of ?evs ?ev p quiet_env "()"] p(1) unfolding p(3,4) by blast
qed

text \<open>A window of two commits, the younger one first.\<close>

definition two_commits :: repo_snapshot where
  "two_commits = sample_snapshot ''/a'' [sample_commit ''c1'' [''c0''], sample_commit ''c0'' []] []"

lemma empty_ok: "git_ok empty_db"
  by (simp add: git_ok_def tables_ok_def flags_ok_def empty_db_def)

lemma two_commits_facts:
  "\<not> sn_partial two_commits" "\<not> reports_error two_commits" "sn_commits two_commits \<noteq> []"
  "distinct (map gc_sha (sn_commits two_commits))" "same_history two_commits empty_db" "covers_graph two_commits"
  "sorted_wrt (\<lambda>c d. sha c \<notin> set (parents d)) (map gc_commit (sn_commits two_commits))"
  "sn_limit two_commits = 300" "sn_path two_commits = ''/a''"
  "map (\<lambda>c. (gc_sha c, parents (gc_commit c))) (sn_commits two_commits) = [(''c1'', [''c0'']), (''c0'', [])]"
  by (simp_all add: two_commits_def sample_snapshot_def sample_commit_def reports_error_def same_history_def covers_graph_def
      empty_db_def)

lemma two_commits_inserted:
  assumes "db_commits db = []"
  shows "\<exists>db' n st. upsertCommits i two_commits db = (db', Some (n, st))"
  using assms by (simp add: upsertCommits_def known_rows_def commits_of_def two_commits_def sample_snapshot_def
      sample_commit_def new_commit_row_def upd_commits_def Let_def)

lemma two_commits_applied: "\<exists>db' r. ingestOne sound_bucket 0 ''i'' ''h'' two_commits empty_db = (db', Some r)"
proof -
  obtain repo db1 where up: "upsertRepo ''i'' ''h'' two_commits empty_db = (repo, db1)" by force
  then have none: "db_commits db1 = []" by (auto simp: upsertRepo_def empty_db_def Let_def upd_repo_def split: option.splits if_splits)
  obtain db2 where refs: "replaceRefs (rp_id repo) two_commits db1 = (db2, Some ())" and none2: "db_commits db2 = []"
    using none by (simp add: replaceRefs_def two_commits_def sample_snapshot_def)
  obtain db3 n st where ins: "upsertCommits (rp_id repo) two_commits db2 = (db3, Some (n, st))"
    using two_commits_inserted [OF none2] by blast
  obtain db4 m where prune: "pruneCommits sound_bucket repo two_commits db3 = (db4, m)" by force
  have more: "sn_details two_commits = []" "sn_workingDiff two_commits = None" "\<not> reports_error two_commits" "\<not> sn_partial two_commits"
    by (simp_all add: two_commits_def sample_snapshot_def reports_error_def)
  show ?thesis
    by (simp add: ingestOne_def ingestOne_full_run [OF up refs ins prune refl] more storeWorkingDiff_def)
qed

lemma the_window_is_authoritative_witness:
  "\<exists>db' r repo q. ingestOne sound_bucket 0 ''i'' ''h'' two_commits empty_db = (db', Some r) \<and> repo \<in> set (db_repos db')
    \<and> rp_path repo = ''/a'' \<and> rp_limit repo = 300 \<and> q \<in> set (commits_of (rp_id repo) db') \<and> of_window two_commits 1 q"
proof -
  obtain db' r where run: "ingestOne sound_bucket 0 ''i'' ''h'' two_commits empty_db = (db', Some r)"
    using two_commits_applied by blast
  have one: "(1::nat) < length (sn_commits two_commits)" by (simp add: two_commits_def sample_snapshot_def)
  have "''i'' \<notin> rp_id ` set (db_repos empty_db)" by (simp add: empty_db_def)
  from the_window_is_authoritative [OF empty_ok this run two_commits_facts(1-4)]
  obtain repo where repo: "repo \<in> set (db_repos db')" "rp_path repo = sn_path two_commits" "rp_limit repo = sn_limit two_commits"
    and rows: "\<forall>i < length (sn_commits two_commits). \<exists>q \<in> set (commits_of (rp_id repo) db'). of_window two_commits i q"
    by blast
  from rows one obtain q where "q \<in> set (commits_of (rp_id repo) db')" "of_window two_commits 1 q" by blast
  then show ?thesis using run repo unfolding two_commits_facts(8,9) by blast
qed

lemma the_graph_shows_the_window_witness:
  "\<exists>db' r repoId g. ingestOne sound_bucket 0 ''i'' ''h'' two_commits empty_db = (db', Some r)
    \<and> graph quiet_env ''o'' ''h'' repoId db' = Inr g \<and> shows_commits g = [(''c1'', [''c0'']), (''c0'', [])]"
proof -
  obtain db' r where run: "ingestOne sound_bucket 0 ''i'' ''h'' two_commits empty_db = (db', Some r)"
    using two_commits_applied by blast
  have "''i'' \<notin> rp_id ` set (db_repos empty_db)" "host_of quiet_env ''o'' ''h'' = Some ''h''"
    by (simp_all add: empty_db_def quiet_env_def)
  from the_graph_shows_the_window [OF empty_ok this(1) run two_commits_facts(1-7) this(2)]
  obtain repoId g where "graph quiet_env ''o'' ''h'' repoId db' = Inr g"
    "shows_commits g = map (\<lambda>c. (gc_sha c, parents (gc_commit c))) (take (nat (sn_limit two_commits)) (sn_commits two_commits))"
    by blast
  moreover have "length (sn_commits two_commits) \<le> nat (sn_limit two_commits)" by (simp add: two_commits_def sample_snapshot_def)
  ultimately have "shows_commits g = [(''c1'', [''c0'']), (''c0'', [])]" using two_commits_facts(10) by simp
  then show ?thesis using run \<open>graph quiet_env ''o'' ''h'' repoId db' = Inr g\<close> by blast
qed

end
