(* ===== verification/Threads.thy ===== *)
theory Threads
  imports Machines
begin

text \<open>
  Operations that run beside each other in one process: a thread is a chain of stretches between two
  awaits. A stretch acts on the shared world and may start further threads, which it names; between
  stretches a thread may put a question to the outside, or wait for a lock. An operation that may fail
  is written in the style of its continuation (\<open>task\<close>).

  Properties of all interleavings rest on a rely-guarantee contract (the locale \<open>contract\<close>): what
  each stretch promises given the locks its thread holds, and what a thread knows is only what the
  promises of the others cannot take away.
\<close>

section \<open>Threads\<close>

datatype ('w, 't, 'q, 'a) proc =
    Done
  | Act "string set \<Rightarrow> 'w \<Rightarrow> 'w \<times> 't list \<times> ('w, 't, 'q, 'a) proc"
  | Ask 'q "'a \<Rightarrow> ('w, 't, 'q, 'a) proc"
  | Acquire string "('w, 't, 'q, 'a) proc"
  | Release string "('w, 't, 'q, 'a) proc"

text \<open>The world, the locks each thread holds, and the questions answered so far, the last one first.\<close>

record ('w, 't, 'q, 'a) system =
  world :: 'w
  threads :: "(string set \<times> ('w, 't, 'q, 'a) proc) list"
  answered :: "('q \<times> 'a) list"

definition held :: "('w, 't, 'q, 'a) system \<Rightarrow> string set" where
  "held s = \<Union> (fst ` set (threads s))"

text \<open>The next stretch of thread \<open>i\<close>; a question is answered by \<open>a\<close>, a named thread runs \<open>body\<close>.\<close>

definition thread_step :: "('t \<Rightarrow> ('w, 't, 'q, 'a) proc) \<Rightarrow> nat \<Rightarrow> 'a \<Rightarrow> ('w, 't, 'q, 'a) system \<Rightarrow> ('w, 't, 'q, 'a) system" where
  "thread_step body i a s =
     (if i < length (threads s) then
        (case threads s ! i of (own, p) \<Rightarrow>
          (case p of
             Done \<Rightarrow> s
           | Act f \<Rightarrow> (case f (held s) (world s) of (w, started, p') \<Rightarrow>
               s\<lparr>world := w, threads := (threads s)[i := (own, p')] @ map (\<lambda>t. ({}, body t)) started\<rparr>)
           | Ask q k \<Rightarrow> s\<lparr>threads := (threads s)[i := (own, k a)], answered := (q, a) # answered s\<rparr>
           | Acquire key p' \<Rightarrow>
               if key \<in> held s then s else s\<lparr>threads := (threads s)[i := (insert key own, p')]\<rparr>
           | Release key p' \<Rightarrow> s\<lparr>threads := (threads s)[i := (own - {key}, p')]\<rparr>))
      else s)"

definition launch :: "('w, 't, 'q, 'a) proc \<Rightarrow> ('w, 't, 'q, 'a) system \<Rightarrow> ('w, 't, 'q, 'a) system" where
  "launch p s = s\<lparr>threads := threads s @ [({}, p)]\<rparr>"

section \<open>Operations that may fail\<close>

type_synonym ('e, 'w, 't, 'q, 'a, 'r) task = "('e + 'r \<Rightarrow> ('w, 't, 'q, 'a) proc) \<Rightarrow> ('w, 't, 'q, 'a) proc"

definition ret :: "'r \<Rightarrow> ('e, 'w, 't, 'q, 'a, 'r) task" where
  "ret x = (\<lambda>k. k (Inr x))"

definition raise :: "'e \<Rightarrow> ('e, 'w, 't, 'q, 'a, 'r) task" where
  "raise e = (\<lambda>k. k (Inl e))"

definition bnd :: "('e, 'w, 't, 'q, 'a, 'r) task \<Rightarrow> ('r \<Rightarrow> ('e, 'w, 't, 'q, 'a, 's) task) \<Rightarrow> ('e, 'w, 't, 'q, 'a, 's) task" where
  "bnd m f = (\<lambda>k. m (\<lambda>r. case r of Inl e \<Rightarrow> k (Inl e) | Inr x \<Rightarrow> f x k))"

definition attempt :: "('e, 'w, 't, 'q, 'a, 'r) task \<Rightarrow> ('e, 'w, 't, 'q, 'a, 'e + 'r) task" where
  "attempt m = (\<lambda>k. m (\<lambda>r. k (Inr r)))"

definition query :: "('w \<Rightarrow> 'r) \<Rightarrow> ('e, 'w, 't, 'q, 'a, 'r) task" where
  "query g = (\<lambda>k. Act (\<lambda>_ w. (w, [], k (Inr (g w)))))"

definition statement :: "('w \<Rightarrow> 'w) \<Rightarrow> ('e, 'w, 't, 'q, 'a, unit) task" where
  "statement f = (\<lambda>k. Act (\<lambda>_ w. (f w, [], k (Inr ()))))"

definition is_locked :: "string \<Rightarrow> ('e, 'w, 't, 'q, 'a, bool) task" where
  "is_locked key = (\<lambda>k. Act (\<lambda>locks w. (w, [], k (Inr (key \<in> locks)))))"

text \<open>A read-modify-write of the memory of the process, which may start a thread.\<close>

definition atomically :: "('w \<Rightarrow> 'w \<times> 't list \<times> 'r) \<Rightarrow> ('e, 'w, 't, 'q, 'a, 'r) task" where
  "atomically f = (\<lambda>k. Act (\<lambda>_ w. (case f w of (w', ts, x) \<Rightarrow> (w', ts, k (Inr x)))))"

definition spawn :: "'t \<Rightarrow> ('e, 'w, 't, 'q, 'a, unit) task" where
  "spawn t = atomically (\<lambda>w. (w, [t], ()))"

definition ask :: "'q \<Rightarrow> ('e, 'w, 't, 'q, 'a, 'a) task" where
  "ask q = (\<lambda>k. Ask q (\<lambda>a. k (Inr a)))"

definition locked :: "string \<Rightarrow> ('e, 'w, 't, 'q, 'a, 'r) task \<Rightarrow> ('e, 'w, 't, 'q, 'a, 'r) task" where
  "locked key m = (\<lambda>k. Acquire key (m (\<lambda>r. Release key (k r))))"

primrec for_each :: "('x \<Rightarrow> ('e, 'w, 't, 'q, 'a, unit) task) \<Rightarrow> 'x list \<Rightarrow> ('e, 'w, 't, 'q, 'a, unit) task" where
  "for_each f [] = ret ()"
| "for_each f (x # xs) = bnd (f x) (\<lambda>_. for_each f xs)"

lemmas task_defs = ret_def raise_def bnd_def attempt_def query_def statement_def is_locked_def atomically_def
  spawn_def ask_def locked_def

lemma bnd_ret: "bnd (ret x) f = f x"
  by (simp add: bnd_def ret_def)

lemma bnd_raise: "bnd (raise e) f = raise e"
  by (simp add: bnd_def raise_def)

section \<open>What is asked\<close>

text \<open>Every question a thread may put, whatever the world and the answers are, satisfies \<open>P\<close>.\<close>

inductive asks :: "('q \<Rightarrow> bool) \<Rightarrow> ('w, 't, 'q, 'a) proc \<Rightarrow> bool" for P :: "'q \<Rightarrow> bool" where
  asks_Done: "asks P Done"
| asks_Act: "(\<And>L w. asks P (snd (snd (f L w)))) \<Longrightarrow> asks P (Act f)"
| asks_Ask: "P q \<Longrightarrow> (\<And>a. asks P (k a)) \<Longrightarrow> asks P (Ask q k)"
| asks_Acquire: "asks P p \<Longrightarrow> asks P (Acquire key p)"
| asks_Release: "asks P p \<Longrightarrow> asks P (Release key p)"

inductive_simps asks_simps: "asks P Done" "asks P (Act f)" "asks P (Ask q k)" "asks P (Acquire key p)" "asks P (Release key p)"

definition only_asks :: "('q \<Rightarrow> bool) \<Rightarrow> ('e, 'w, 't, 'q, 'a, 'r) task \<Rightarrow> bool" where
  "only_asks P m \<longleftrightarrow> (\<forall>k. (\<forall>r. asks P (k r)) \<longrightarrow> asks P (m k))"

lemma only_asks_intros:
  "only_asks P (ret y)" "only_asks P (raise e)" "only_asks P (query r)" "only_asks P (statement f)" "only_asks P (is_locked key)"
  "P q \<Longrightarrow> only_asks P (ask q)"
  "only_asks P m \<Longrightarrow> only_asks P (attempt m)"
  "only_asks P m \<Longrightarrow> only_asks P (locked key m)"
  "only_asks P m \<Longrightarrow> (\<And>x. only_asks P (g x)) \<Longrightarrow> only_asks P (bnd m g)"
  "only_asks P (atomically h)"
  by (auto simp: only_asks_def task_defs asks_simps case_prod_beta split: sum.split)

lemma only_asks_spawn: "only_asks P (spawn t)"
  unfolding spawn_def by (rule only_asks_intros)

lemma only_asks_for_each: "(\<And>x. x \<in> set xs \<Longrightarrow> only_asks P (f x)) \<Longrightarrow> only_asks P (for_each f xs)"
  by (induction xs) (auto intro: only_asks_intros)

lemma only_asks_run: "only_asks P m \<Longrightarrow> asks P (m (\<lambda>_. Done))"
  by (simp add: only_asks_def asks_simps)

text \<open>A pool of threads that ask nothing else has never been answered anything else.\<close>

definition pool_asks :: "('q \<Rightarrow> bool) \<Rightarrow> ('w, 't, 'q, 'a) system \<Rightarrow> bool" where
  "pool_asks P s \<longleftrightarrow> (\<forall>t \<in> set (threads s). asks P (snd t)) \<and> (\<forall>x \<in> set (answered s). P (fst x))"

lemma pool_asks_step:
  assumes "pool_asks P s" and "\<And>t. asks P (body t)"
  shows "pool_asks P (thread_step body i a s)"
proof (cases "i < length (threads s)")
  case True
  obtain own p where t: "threads s ! i = (own, p)" by (cases "threads s ! i")
  then have "asks P p" using assms True nth_mem [OF True] by (fastforce simp: pool_asks_def)
  then show ?thesis
    using assms True t
    by (cases p) (auto simp: thread_step_def pool_asks_def asks_simps case_prod_beta
        dest!: set_update_subset_insert [THEN subsetD])
qed (simp add: thread_step_def assms)

lemma pool_asks_launch: "pool_asks P s \<Longrightarrow> asks P p \<Longrightarrow> pool_asks P (launch p s)"
  by (auto simp: pool_asks_def launch_def)

section \<open>What interleaved threads keep\<close>

text \<open>
  \<open>I\<close> is an invariant of the world and the answers so far, \<open>G own w w'\<close> what a stretch of a thread that
  holds the locks \<open>own\<close> may do. A thread knows \<open>A\<close>, which no stretch of another thread undoes.
\<close>

type_synonym ('w, 'q, 'a) fact = "'w \<Rightarrow> ('q \<times> 'a) list \<Rightarrow> bool"

definition stable ::
    "('w, 'q, 'a) fact \<Rightarrow> (string set \<Rightarrow> 'w \<Rightarrow> 'w \<Rightarrow> bool) \<Rightarrow> string set \<Rightarrow> ('w, 'q, 'a) fact \<Rightarrow> bool" where
  "stable I G own A \<longleftrightarrow> (\<forall>w l. A w l \<longrightarrow> (\<forall>x. A w (x # l)) \<and>
     (\<forall>w' other. I w l \<and> I w' l \<and> own \<inter> other = {} \<and> G other w w' \<longrightarrow> A w' l))"

inductive keeps ::
    "('w, 'q, 'a) fact \<Rightarrow> (string set \<Rightarrow> 'w \<Rightarrow> 'w \<Rightarrow> bool) \<Rightarrow> ('w, 't, 'q, 'a) proc \<Rightarrow> string set \<Rightarrow> ('w, 'q, 'a) fact \<Rightarrow> bool"
  for I G where
  keeps_Done: "keeps I G Done own A"
| keeps_Act:
    "(\<And>L w l. I w l \<Longrightarrow> A w l \<Longrightarrow> I (fst (f L w)) l \<and> G own w (fst (f L w))
       \<and> (\<exists>B. B (fst (f L w)) l \<and> stable I G own B \<and> keeps I G (snd (snd (f L w))) own B))
     \<Longrightarrow> keeps I G (Act f) own A"
| keeps_Ask:
    "(\<And>a. \<exists>B. (\<forall>w l. I w l \<and> A w l \<longrightarrow> B w ((q, a) # l)) \<and> stable I G own B \<and> keeps I G (k a) own B)
     \<Longrightarrow> keeps I G (Ask q k) own A"
| keeps_Acquire: "(key \<notin> own \<Longrightarrow> keeps I G p (insert key own) A) \<Longrightarrow> keeps I G (Acquire key p) own A"
| keeps_Release:
    "(\<And>w l. A w l \<Longrightarrow> B w l) \<Longrightarrow> stable I G (own - {key}) B \<Longrightarrow> keeps I G p (own - {key}) B
     \<Longrightarrow> keeps I G (Release key p) own A"

inductive_cases keeps_ActE: "keeps I G (Act f) own A"
inductive_cases keeps_AskE: "keeps I G (Ask q k) own A"
inductive_cases keeps_AcquireE: "keeps I G (Acquire key p) own A"
inductive_cases keeps_ReleaseE: "keeps I G (Release key p) own A"

lemma stable_True: "stable I G own (\<lambda>_ _. True)"
  by (simp add: stable_def)

lemma stable_answer: "stable I G own A \<Longrightarrow> A w l \<Longrightarrow> A w (x # l)"
  unfolding stable_def by blast

lemma stable_world:
  "stable I G own A \<Longrightarrow> A w l \<Longrightarrow> I w l \<Longrightarrow> I w' l \<Longrightarrow> own \<inter> other = {} \<Longrightarrow> G other w w' \<Longrightarrow> A w' l"
  unfolding stable_def by blast

lemma stableI:
  assumes "\<And>w l x. A w l \<Longrightarrow> A w (x # l)"
    and "\<And>w w' l other. A w l \<Longrightarrow> I w l \<Longrightarrow> I w' l \<Longrightarrow> own \<inter> other = {} \<Longrightarrow> G other w w' \<Longrightarrow> A w' l"
  shows "stable I G own A"
  unfolding stable_def using assms by blast

lemma stable_subset:
  assumes "stable I G own A" and "own \<subseteq> own'"
  shows "stable I G own' A"
proof (rule stableI)
  fix w w' l other
  assume "A w l" "I w l" "I w' l" "own' \<inter> other = {}" "G other w w'"
  moreover from this(4) assms(2) have "own \<inter> other = {}" by blast
  ultimately show "A w' l" using stable_world [OF assms(1)] by blast
qed (rule stable_answer [OF assms(1)])

lemma stable_insert: "stable I G own A \<Longrightarrow> stable I G (insert key own) A"
  by (erule stable_subset) blast

lemma keeps_weaken: "keeps I G p own B \<Longrightarrow> (\<And>w l. A w l \<Longrightarrow> B w l) \<Longrightarrow> keeps I G p own A"
proof (induction arbitrary: A rule: keeps.induct)
  case (keeps_Act B f own)
  show ?case
  proof (rule keeps.keeps_Act)
    fix L w l
    assume "I w l" "A w l"
    from keeps_Act.IH [OF this(1) keeps_Act.prems [OF this(2)], of L]
    show "I (fst (f L w)) l \<and> G own w (fst (f L w))
      \<and> (\<exists>B. B (fst (f L w)) l \<and> stable I G own B \<and> keeps I G (snd (snd (f L w))) own B)" by blast
  qed
next
  case (keeps_Ask B q own k)
  show ?case
  proof (rule keeps.keeps_Ask)
    fix a
    obtain C where C: "\<forall>w l. I w l \<and> B w l \<longrightarrow> C w ((q, a) # l)" "stable I G own C" "keeps I G (k a) own C"
      using keeps_Ask.IH [of a] by blast
    show "\<exists>C. (\<forall>w l. I w l \<and> A w l \<longrightarrow> C w ((q, a) # l)) \<and> stable I G own C \<and> keeps I G (k a) own C"
      by (rule exI [of _ C]) (use C keeps_Ask.prems in blast)
  qed
next
  case (keeps_Release B1 B2 own key p)
  show ?case by (rule keeps.keeps_Release [OF _ keeps_Release.hyps(2,3)]) (use keeps_Release in blast)
qed (auto intro: keeps.intros)

definition thread_knows ::
    "('w, 'q, 'a) fact \<Rightarrow> (string set \<Rightarrow> 'w \<Rightarrow> 'w \<Rightarrow> bool) \<Rightarrow> 'w \<Rightarrow> ('q \<times> 'a) list \<Rightarrow> string set \<times> ('w, 't, 'q, 'a) proc \<Rightarrow> bool" where
  "thread_knows I G w l t \<longleftrightarrow> (\<exists>A. A w l \<and> stable I G (fst t) A \<and> keeps I G (snd t) (fst t) A)"

definition apart :: "(string set \<times> 'p) list \<Rightarrow> bool" where
  "apart ts \<longleftrightarrow> (\<forall>i < length ts. \<forall>j < length ts. i \<noteq> j \<longrightarrow> fst (ts ! i) \<inter> fst (ts ! j) = {})"

definition pool_keeps :: "('w, 'q, 'a) fact \<Rightarrow> (string set \<Rightarrow> 'w \<Rightarrow> 'w \<Rightarrow> bool) \<Rightarrow> ('w, 't, 'q, 'a) system \<Rightarrow> bool" where
  "pool_keeps I G s \<longleftrightarrow> I (world s) (answered s) \<and> apart (threads s)
     \<and> (\<forall>t \<in> set (threads s). thread_knows I G (world s) (answered s) t)"

locale contract =
  fixes I :: "('w, 'q, 'a) fact"
    and G :: "string set \<Rightarrow> 'w \<Rightarrow> 'w \<Rightarrow> bool"
    and body :: "'t \<Rightarrow> ('w, 't, 'q, 'a) proc"
  assumes answers_kept: "I w l \<Longrightarrow> I w (x # l)"
    and body_keeps: "keeps I G (body t) {} (\<lambda>_ _. True)"
begin

lemma knows_world:
  assumes "thread_knows I G w l t" and "I w l" and "I w' l" and "fst t \<inter> other = {}" and "G other w w'"
  shows "thread_knows I G w' l t"
proof -
  obtain A where A: "A w l" "stable I G (fst t) A" "keeps I G (snd t) (fst t) A"
    using assms(1) unfolding thread_knows_def by blast
  have "A w' l" by (rule stable_world [OF A(2,1) assms(2-5)])
  then show ?thesis using A unfolding thread_knows_def by blast
qed

lemma knows_answer:
  assumes "thread_knows I G w l t"
  shows "thread_knows I G w (x # l) t"
proof -
  obtain A where A: "A w l" "stable I G (fst t) A" "keeps I G (snd t) (fst t) A"
    using assms unfolding thread_knows_def by blast
  have "A w (x # l)" by (rule stable_answer [OF A(2,1)])
  then show ?thesis using A unfolding thread_knows_def by blast
qed

lemma apart_update:
  assumes "apart ts" and "i < length ts" and "\<And>j. j < length ts \<Longrightarrow> j \<noteq> i \<Longrightarrow> own \<inter> fst (ts ! j) = {}"
  shows "apart (ts[i := (own, p)])"
  using assms by (auto simp: apart_def nth_list_update)

lemma apartD: "apart ts \<Longrightarrow> i < length ts \<Longrightarrow> j < length ts \<Longrightarrow> i \<noteq> j \<Longrightarrow> fst (ts ! i) \<inter> fst (ts ! j) = {}"
  unfolding apart_def by blast

lemma apart_append: "apart ts \<Longrightarrow> apart (ts @ map (\<lambda>t. ({}, body t)) ps)"
  by (auto simp: apart_def nth_append)

text \<open>The four kinds of a step.\<close>

lemma act_kept:
  assumes s: "pool_keeps I G s" and i: "i < length (threads s)" "threads s ! i = (own, Act f)"
    and f: "f (held s) (world s) = (w, started, p)"
  shows "pool_keeps I G (s\<lparr>world := w, threads := (threads s)[i := (own, p)] @ map (\<lambda>t. ({}, body t)) started\<rparr>)"
proof -
  let ?l = "answered s"
  have inv: "I (world s) ?l" and ap: "apart (threads s)" using s by (simp_all add: pool_keeps_def)
  have "thread_knows I G (world s) ?l (own, Act f)" using s i by (metis nth_mem pool_keeps_def)
  then obtain A where A: "A (world s) ?l" "keeps I G (Act f) own A" by (auto simp: thread_knows_def)
  from keeps_ActE [OF A(2)] have post: "I (fst (f L w)) l \<and> G own w (fst (f L w))
       \<and> (\<exists>B. B (fst (f L w)) l \<and> stable I G own B \<and> keeps I G (snd (snd (f L w))) own B)" if "I w l" "A w l" for L w l
    using that by metis
  from post [OF inv A(1), of "held s"] have w: "I w ?l" "G own (world s) w"
    and p: "thread_knows I G w ?l (own, p)"
    by (auto simp: f thread_knows_def)
  have "thread_knows I G w ?l t" if t: "t \<in> set ((threads s)[i := (own, p)])" for t
  proof -
    obtain j where j: "j < length (threads s)" "t = (threads s)[i := (own, p)] ! j" using t by (auto simp: in_set_conv_nth)
    show ?thesis
    proof (cases "j = i")
      case False
      then have "thread_knows I G (world s) ?l t" "fst t \<inter> own = {}"
        using s j apartD [OF ap j(1) i(1)] i nth_mem [OF j(1)] by (simp_all add: pool_keeps_def)
      from knows_world [OF this(1) inv w(1) this(2) w(2)] show ?thesis .
    qed (use j p in simp)
  qed
  moreover have "thread_knows I G w ?l ({}, body t)" for t
    unfolding thread_knows_def using stable_True body_keeps by fastforce
  moreover have "apart ((threads s)[i := (own, p)])"
    using i apartD [OF ap i(1)] by (intro apart_update [OF ap]) auto
  ultimately show ?thesis using w(1) by (auto simp: pool_keeps_def intro: apart_append)
qed

lemma other_kept:
  assumes s: "pool_keeps I G s" and i: "i < length (threads s)"
    and know: "thread_knows I G (world s) l (own, p)" and inv: "I (world s) l" and l: "l = answered s \<or> (\<exists>x. l = x # answered s)"
    and own: "\<And>j. j < length (threads s) \<Longrightarrow> j \<noteq> i \<Longrightarrow> own \<inter> fst (threads s ! j) = {}"
  shows "pool_keeps I G (s\<lparr>threads := (threads s)[i := (own, p)], answered := l\<rparr>)"
proof -
  have "thread_knows I G (world s) l t" if "t \<in> set (threads s)" for t
    using s that l knows_answer [of "world s" "answered s" t] unfolding pool_keeps_def by blast
  then show ?thesis
    using s know inv apart_update [OF _ i own] by (auto simp: pool_keeps_def dest!: set_update_subset_insert [THEN subsetD])
qed

lemma pool_keeps_step:
  assumes s: "pool_keeps I G s"
  shows "pool_keeps I G (thread_step body i a s)"
proof (cases "i < length (threads s)")
  case i: True
  obtain own p where t: "threads s ! i = (own, p)" by (cases "threads s ! i")
  have ap: "own \<inter> fst (threads s ! j) = {}" if "j < length (threads s)" "j \<noteq> i" for j
    using s apartD [OF _ i that(1)] that(2) by (simp add: pool_keeps_def t)
  have inv: "I (world s) (answered s)" using s by (simp add: pool_keeps_def)
  have "thread_knows I G (world s) (answered s) (own, p)" using s i t by (metis nth_mem pool_keeps_def)
  then obtain A where A: "A (world s) (answered s)" "stable I G own A" "keeps I G p own A" by (auto simp: thread_knows_def)
  show ?thesis
  proof (cases p)
    case Done
    then show ?thesis using assms i t by (simp add: thread_step_def)
  next
    case (Act f)
    then show ?thesis using act_kept [OF s i] t i by (auto simp: thread_step_def case_prod_beta)
  next
    case (Ask q k)
    then have "keeps I G (Ask q k) own A" using A by simp
    from keeps_AskE [OF this] obtain B where "B (world s) ((q, a) # answered s)" "stable I G own B" "keeps I G (k a) own B"
      using inv A(1) by metis
    then have "thread_knows I G (world s) ((q, a) # answered s) (own, k a)" by (auto simp: thread_knows_def)
    from other_kept [OF s i this answers_kept [OF inv] _ ap] show ?thesis using Ask i t by (simp add: thread_step_def)
  next
    case (Acquire key p')
    then have "thread_knows I G (world s) (answered s) (insert key own, p')" if "key \<notin> held s"
    proof -
      have "key \<notin> own" using that nth_mem [OF i] t by (fastforce simp: held_def)
      then have "keeps I G p' (insert key own) A" using A Acquire by (auto elim!: keeps_AcquireE)
      then show ?thesis using A(1) stable_insert [OF A(2), of key] unfolding thread_knows_def fst_conv snd_conv by blast
    qed
    moreover have "key \<notin> fst (threads s ! j)" if "key \<notin> held s" "j < length (threads s)" for j
      using that nth_mem by (fastforce simp: held_def)
    ultimately show ?thesis
      using other_kept [OF s i _ inv, of "insert key own" p'] ap Acquire i t s by (auto simp: thread_step_def)
  next
    case (Release key p')
    then have "keeps I G (Release key p') own A" using A by simp
    from keeps_ReleaseE [OF this] have "thread_knows I G (world s) (answered s) (own - {key}, p')"
      using A(1) unfolding thread_knows_def by (metis fst_conv snd_conv)
    moreover have "(own - {key}) \<inter> fst (threads s ! j) = {}" if "j < length (threads s)" "j \<noteq> i" for j
      using ap [OF that] by blast
    ultimately show ?thesis
      using other_kept [OF s i _ inv, of "own - {key}" p'] Release i t by (simp add: thread_step_def)
  qed
qed (simp add: thread_step_def s)

text \<open>The world moves on its own, and a process starts over with one thread.\<close>

lemma pool_keeps_world:
  assumes "pool_keeps I G s" and "I w (answered s)" and "G {} (world s) w"
  shows "pool_keeps I G (s\<lparr>world := w\<rparr>)"
proof -
  have "thread_knows I G w (answered s) t" if "t \<in> set (threads s)" for t
    by (rule knows_world [of "world s" _ _ _ "{}"]) (use assms that in \<open>auto simp: pool_keeps_def\<close>)
  then show ?thesis using assms by (simp add: pool_keeps_def)
qed

end

lemma pool_keeps_fresh:
  assumes "I w l" and "keeps I G p {} (\<lambda>_ _. True)"
  shows "pool_keeps I G \<lparr>world = w, threads = [({}, p)], answered = l\<rparr>"
proof -
  have "thread_knows I G w l ({}, p)" unfolding thread_knows_def using assms(2) stable_True by fastforce
  then show ?thesis using assms(1) by (simp add: pool_keeps_def apart_def)
qed

section \<open>Rules for operations\<close>

text \<open>
  A thread that holds \<open>own\<close> and knows \<open>A\<close> runs \<open>m\<close>; what it knows afterwards, by the result, is \<open>Q\<close>.
\<close>

definition does ::
    "('w, 'q, 'a) fact \<Rightarrow> (string set \<Rightarrow> 'w \<Rightarrow> 'w \<Rightarrow> bool) \<Rightarrow> string set \<Rightarrow> ('w, 'q, 'a) fact
      \<Rightarrow> ('e, 'w, 't, 'q, 'a, 'r) task \<Rightarrow> ('e + 'r \<Rightarrow> ('w, 'q, 'a) fact) \<Rightarrow> bool" where
  "does I G own A m Q \<longleftrightarrow> (\<forall>k. (\<forall>r. keeps I G (k r) own (Q r)) \<longrightarrow> keeps I G (m k) own A)"

abbreviation nothing :: "('w, 'q, 'a) fact" where
  "nothing \<equiv> \<lambda>_ _. True"

abbreviation plain ::
    "('w, 'q, 'a) fact \<Rightarrow> (string set \<Rightarrow> 'w \<Rightarrow> 'w \<Rightarrow> bool) \<Rightarrow> string set \<Rightarrow> ('e, 'w, 't, 'q, 'a, 'r) task \<Rightarrow> bool" where
  "plain I G own m \<equiv> does I G own nothing m (\<lambda>_. nothing)"

lemma does_weaken:
  fixes m :: "('e, 'w, 't, 'q, 'a, 'r) task"
  assumes "does I G own B m R" and w: "\<And>w l. A w l \<Longrightarrow> B w l" "\<And>r w l. R r w l \<Longrightarrow> Q r w l"
  shows "does I G own A m Q"
  unfolding does_def
proof (intro allI impI)
  fix k :: "'e + 'r \<Rightarrow> ('w, 't, 'q, 'a) proc"
  assume k: "\<forall>r. keeps I G (k r) own (Q r)"
  have "keeps I G (k r) own (R r)" for r by (rule keeps_weaken [OF k [rule_format] w(2)])
  then have "keeps I G (m k) own B" using assms(1) by (simp add: does_def)
  then show "keeps I G (m k) own A" by (rule keeps_weaken [OF _ w(1)])
qed

text \<open>The result of a stretch says what is known after it.\<close>

lemma keeps_stretch:
  assumes "\<And>L w l. I w l \<Longrightarrow> A w l \<Longrightarrow> I (fst (f L w)) l \<and> G own w (fst (f L w)) \<and> Q (r L w) (fst (f L w)) l"
    and "\<And>L w. stable I G own (Q (r L w)) \<and> keeps I G (snd (snd (f L w))) own (Q (r L w))"
  shows "keeps I G (Act f) own A"
proof (rule keeps_Act)
  fix L w l
  assume "I w l" "A w l"
  then show "I (fst (f L w)) l \<and> G own w (fst (f L w))
      \<and> (\<exists>B. B (fst (f L w)) l \<and> stable I G own B \<and> keeps I G (snd (snd (f L w))) own B)"
    using assms(1) [of w l L] assms(2) [of L w] by blast
qed

lemma does_ret: "(\<And>w l. A w l \<Longrightarrow> Q (Inr x) w l) \<Longrightarrow> does I G own A (ret x) Q"
  unfolding does_def ret_def by (meson keeps_weaken)

lemma does_raise: "(\<And>w l. A w l \<Longrightarrow> Q (Inl e) w l) \<Longrightarrow> does I G own A (raise e) Q"
  unfolding does_def raise_def by (meson keeps_weaken)

lemma does_bnd:
  fixes m :: "('e, 'w, 't, 'q, 'a, 'r) task" and g :: "'r \<Rightarrow> ('e, 'w, 't, 'q, 'a, 's) task"
  assumes "does I G own A m R" and "\<And>x. does I G own (R (Inr x)) (g x) Q" and "\<And>e w l. R (Inl e) w l \<Longrightarrow> Q (Inl e) w l"
  shows "does I G own A (bnd m g) Q"
  unfolding does_def bnd_def
proof (intro allI impI)
  fix k :: "'e + 's \<Rightarrow> ('w, 't, 'q, 'a) proc"
  assume k: "\<forall>r. keeps I G (k r) own (Q r)"
  have "keeps I G (case r of Inl e \<Rightarrow> k (Inl e) | Inr x \<Rightarrow> g x k) own (R r)" for r
  proof (cases r)
    case (Inl e)
    then show ?thesis using keeps_weaken [of I G "k (Inl e)" own "Q (Inl e)"] k assms(3) by fastforce
  next
    case (Inr x)
    then show ?thesis using assms(2) k by (simp add: does_def)
  qed
  then show "keeps I G (m (\<lambda>r. case r of Inl e \<Rightarrow> k (Inl e) | Inr x \<Rightarrow> g x k)) own A"
    using assms(1) by (simp add: does_def)
qed

lemma does_attempt: "does I G own A m (\<lambda>r. Q (Inr r)) \<Longrightarrow> does I G own A (attempt m) Q"
  by (simp add: does_def attempt_def)

lemma does_query:
  assumes "\<And>x. stable I G own (Q (Inr x))" and "\<And>w l. I w l \<Longrightarrow> A w l \<Longrightarrow> Q (Inr (g w)) w l \<and> G own w w"
  shows "does I G own A (query g) Q"
  unfolding does_def query_def
proof (intro allI impI)
  fix k
  assume k: "\<forall>r. keeps I G (k r) own (Q r)"
  show "keeps I G (Act (\<lambda>_ w. (w, [], k (Inr (g w))))) own A"
    by (rule keeps_stretch [where r = "\<lambda>_ w. Inr (g w)" and Q = Q]) (use assms k in auto)
qed

lemma does_is_locked:
  assumes "\<And>x. stable I G own (Q (Inr x))" and "\<And>w l b. I w l \<Longrightarrow> A w l \<Longrightarrow> Q (Inr b) w l \<and> G own w w"
  shows "does I G own A (is_locked key) Q"
  unfolding does_def is_locked_def
proof (intro allI impI)
  fix k
  assume k: "\<forall>r. keeps I G (k r) own (Q r)"
  show "keeps I G (Act (\<lambda>locks w. (w, [], k (Inr (key \<in> locks))))) own A"
    by (rule keeps_stretch [where r = "\<lambda>L w. Inr (key \<in> L)" and Q = Q]) (use assms k in auto)
qed

lemma does_statement:
  assumes "stable I G own (Q (Inr ()))"
    and "\<And>w l. I w l \<Longrightarrow> A w l \<Longrightarrow> I (f w) l \<and> G own w (f w) \<and> Q (Inr ()) (f w) l"
  shows "does I G own A (statement f) Q"
  unfolding does_def statement_def
proof (intro allI impI)
  fix k
  assume k: "\<forall>r. keeps I G (k r) own (Q r)"
  show "keeps I G (Act (\<lambda>_ w. (f w, [], k (Inr ())))) own A"
    by (rule keeps_stretch [where r = "\<lambda>_ w. Inr ()" and Q = Q]) (use assms k in auto)
qed

lemma does_atomically:
  fixes f :: "'w \<Rightarrow> 'w \<times> 't list \<times> 'r" and Q :: "'e + 'r \<Rightarrow> ('w, 'q, 'a) fact"
  assumes "\<And>x. stable I G own (Q (Inr x))"
    and "\<And>w l. I w l \<Longrightarrow> A w l \<Longrightarrow> I (fst (f w)) l \<and> G own w (fst (f w)) \<and> Q (Inr (snd (snd (f w)))) (fst (f w)) l"
  shows "does I G own A (atomically f) Q"
  unfolding does_def atomically_def
proof (intro allI impI)
  fix k :: "'e + 'r \<Rightarrow> ('w, 't, 'q, 'a) proc"
  assume k: "\<forall>r. keeps I G (k r) own (Q r)"
  show "keeps I G (Act (\<lambda>_ w. (case f w of (w', ts, x) \<Rightarrow> (w', ts, k (Inr x))))) own A"
    by (intro keeps_stretch [where r = "\<lambda>_ w. Inr (snd (snd (f w)))" and Q = Q])
      (use assms(1,2) k in \<open>auto simp: case_prod_beta\<close>)
qed

lemma does_spawn:
  assumes "stable I G own (Q (Inr ()))" and "\<And>w l. I w l \<Longrightarrow> A w l \<Longrightarrow> G own w w \<and> Q (Inr ()) w l"
  shows "does I G own A (spawn t) Q"
  unfolding spawn_def by (rule does_atomically) (use assms in auto)

lemma does_ask:
  assumes "\<And>a. stable I G own (Q (Inr a))" and "\<And>w l a. I w l \<Longrightarrow> A w l \<Longrightarrow> Q (Inr a) w ((q, a) # l)"
  shows "does I G own A (ask q) Q"
  unfolding does_def ask_def
proof (intro allI impI)
  fix k
  assume "\<forall>r. keeps I G (k r) own (Q r)"
  then show "keeps I G (Ask q (\<lambda>a. k (Inr a))) own A"
    by (intro keeps_Ask) (use assms in blast)
qed

text \<open>What is known when the lock is given back must hold without it.\<close>

lemma does_locked:
  fixes m :: "('e, 'w, 't, 'q, 'a, 'r) task"
  assumes "does I G (insert key own) A m Q" and "\<And>r. stable I G own (Q r)"
  shows "does I G own A (locked key m) Q"
  unfolding does_def locked_def
proof (intro allI impI)
  fix k :: "'e + 'r \<Rightarrow> ('w, 't, 'q, 'a) proc"
  assume k: "\<forall>r. keeps I G (k r) own (Q r)"
  have "keeps I G (Release key (k r)) (insert key own) (Q r)" if "key \<notin> own" for r
  proof -
    have "insert key own - {key} = own" using that by blast
    then show ?thesis by (intro keeps_Release [where B = "Q r"]) (use k assms(2) in auto)
  qed
  then show "keeps I G (Acquire key (m (\<lambda>r. Release key (k r)))) own A"
    using assms(1) by (auto simp: does_def intro!: keeps_Acquire)
qed

lemma does_for_each:
  assumes "\<And>x. x \<in> set xs \<Longrightarrow> does I G own A (f x) (\<lambda>_. A)"
  shows "does I G own A (for_each f xs) (\<lambda>_. A)"
  using assms by (induction xs) (auto intro!: does_bnd does_ret)

lemmas plain_intros = does_ret does_raise does_bnd does_attempt does_query does_statement does_spawn does_ask
  does_is_locked stable_True

lemma launch_keeps:
  assumes "pool_keeps I G s" and "plain I G {} m"
  shows "pool_keeps I G (launch (m (\<lambda>_. Done)) s)"
proof -
  have "keeps I G (m (\<lambda>_. Done)) {} nothing" using assms(2) by (simp add: does_def keeps_Done)
  then have "thread_knows I G (world s) (answered s) ({}, m (\<lambda>_. Done))"
    unfolding thread_knows_def using stable_True by fastforce
  then show ?thesis using assms(1) by (auto simp: pool_keeps_def launch_def apart_def nth_append)
qed

text \<open>Facts about values are assumptions.\<close>

lemma keeps_False: "keeps I G p own (\<lambda>_ _. False)"
proof (induction p arbitrary: own)
  case (Ask q k)
  have "stable I G own (\<lambda>_ _. False)" by (simp add: stable_def)
  then show ?case by (intro keeps_Ask exI [of _ "\<lambda>_ _. False"]) (use Ask in auto)
next
  case (Release key p)
  then show ?case by (intro keeps_Release [where B = "\<lambda>_ _. False"]) (auto simp: stable_def)
qed (auto intro: keeps_Done keeps_Act keeps_Acquire)

lemma does_pure: "(c \<Longrightarrow> does I G own B m Q) \<Longrightarrow> does I G own (\<lambda>w l. c \<and> B w l) m Q"
  by (cases c) (simp_all add: does_def keeps_False)

lemma does_const: "(c \<Longrightarrow> does I G own (\<lambda>_ _. True) m Q) \<Longrightarrow> does I G own (\<lambda>_ _. c) m Q"
  using does_pure [of c I G own "\<lambda>_ _. True" m Q] by simp

lemma stable_implies: "stable I G own A \<Longrightarrow> stable I G own (\<lambda>w l. c \<longrightarrow> A w l)"
  by (cases c) (simp_all add: stable_True)

lemma stable_const: "stable I G own (\<lambda>_ _. c)"
  by (simp add: stable_def)

end
