(* ===== verification/Transfers.thy ===== *)
theory Transfers
  imports Threads Ordering
begin

text \<open>
  \<^verbatim>\<open>apps/api/src/file-transfers/file-transfers.service.ts\<close> with its rows (\<^verbatim>\<open>file-transfer.entity.ts\<close>) and
  the requests and results of \<^verbatim>\<open>packages/protocol/src/file-transfer.ts\<close>: uploads of files to a host and
  archives of files from it. Each operation is a task of \<open>Threads\<close>: every statement to the database,
  every call of an agent and every call of the file system is a stretch of its own, a transaction is
  one stretch, and the queue of a lock may wake its waiters in any order.

  The look-up of a host, the answers of agents, the file system, the archiver, SHA-256 and random ids
  are outside: questions, or the parameter \<open>sha256\<close>. A file of the spool is its size. Headers that only name the
  file are left out.
\<close>

section \<open>Rows and frames\<close>

definition FILE_TRANSFER_CHUNK_BYTES :: int where "FILE_TRANSFER_CHUNK_BYTES = 1048576"

definition FILE_TRANSFER_TTL_MS :: int where "FILE_TRANSFER_TTL_MS = 24 * 60 * 60 * 1000"

definition MAX_SAFE :: int where "MAX_SAFE = 2 ^ 53 - 1"

datatype transfer_state = Draft | Queued | Running | Paused | Ready | Completed | Failed | Cancelled | Expired

datatype entry_state = Pending | Committed | Skipped

datatype direction = Upload | Download

datatype entry_kind = FileKind | DirKind | LinkKind | SpecialKind | MissingKind

record transfer_owner =
  ow_user :: string
  ow_org :: string
  ow_host :: string

record transfer_job =
  tj_id :: string
  tj_owner :: transfer_owner
  tj_direction :: direction
  tj_basePath :: string
  tj_selection :: "string list"
  tj_state :: transfer_state
  tj_bytes :: int
  tj_totalBytes :: int
  tj_completedEntries :: int
  tj_totalEntries :: int
  tj_currentPath :: string
  tj_errorCode :: string
  tj_exclusions :: "string list"
  tj_archiveBytes :: int
  tj_etag :: string
  tj_updated :: int
  tj_created :: int

record transfer_entry =
  te_id :: string
  te_transferId :: string
  te_path :: string
  te_kind :: entry_kind
  te_size :: int
  te_offset :: int
  te_fingerprint :: string
  te_modified :: string
  te_state :: entry_state
  te_replace :: bool

datatype fs_action = FsList | FsStat | FsMkdir | FsRead | FsWrite | FsCommit | FsDiscard

record fs_request =
  fr_transferId :: string
  fr_entryId :: string
  fr_action :: fs_action
  fr_path :: string
  fr_offset :: int
  fr_size :: int
  fr_data :: string
  fr_digest :: string
  fr_modified :: string
  fr_replace :: bool

record target_entry =
  fe_path :: string
  fe_kind :: entry_kind
  fe_size :: int
  fe_modified :: string

record fs_result =
  fs_entries :: "target_entry list"
  fs_next :: "int option"
  fs_offset :: int
  fs_committed :: bool
  fs_data :: string

text \<open>What is thrown: an \<open>AppException\<close> with its code and status, an error of a full disk, or any other.\<close>

datatype failure = AppError string nat | NoSpace | OtherError

record host_info =
  hi_enabled :: bool
  hi_transfers :: bool

datatype transfer_question =
    HostGet string string
  | AgentTransfer string string fs_request
  | RandomUUID
  | DiskFree
  | MakeSpool
  | ZipEntry string
  | ZipFinish string
  | ZipDigest string
  | RenameFile string string
  | UnlinkFile string

text \<open>One answer fits every question: a question reads its own field.\<close>

record transfer_answer =
  ta_host :: "failure + host_info"
  ta_agent :: "failure + fs_result"
  ta_text :: "failure + string"
  ta_number :: "failure + int"

text \<open>The rows, the files of the spool with their sizes, and the memory of the process.\<close>

record transfer_world =
  tw_jobs :: "transfer_job list"
  tw_entries :: "transfer_entry list"
  tw_spool :: "(string \<times> int) list"
  tw_workers :: "string set"
  tw_stopping :: bool
  tw_now :: int

text \<open>The threads an operation starts and does not wait for.\<close>

datatype transfer_thread = Worker transfer_owner string | Advance string | Discard transfer_job

type_synonym 'r op = "(failure, transfer_world, transfer_thread, transfer_question, transfer_answer, 'r) task"

record transfer_limits =
  maxBytes :: int
  maxEntries :: nat
  spoolBytes :: int
  sha256 :: "string \<Rightarrow> string"

section \<open>Texts\<close>

definition low_hex :: "char \<Rightarrow> bool" where
  "low_hex c \<longleftrightarrow> is_digit c \<or> 97 \<le> code c \<and> code c \<le> 102"

definition uuid :: "string \<Rightarrow> bool" where
  "uuid s \<longleftrightarrow> map length (js_split CHR ''-'' s) = [8, 4, 4, 4, 12] \<and> (\<forall>part \<in> set (js_split CHR ''-'' s). list_all low_hex part)"

definition digestPattern :: "string \<Rightarrow> bool" where
  "digestPattern s \<longleftrightarrow> length s = 64 \<and> list_all low_hex s"

definition bad_part :: "string \<Rightarrow> bool" where
  "bad_part part \<longleftrightarrow> part = [] \<or> part = ''.'' \<or> part = ''..'' \<or> part = ''.pdmux-file-transfers''
     \<or> starts_with part ''.pdmux-transfer-''"

definition transferPath :: "string \<Rightarrow> bool \<Rightarrow> failure + string" where
  "transferPath path is_root =
     (if is_root \<and> path = [] then Inr path
      else if path = [] \<or> 1024 < length path \<or> (\<exists>c \<in> set path. c = CHR 0x5C \<or> c = CHR 0x00 \<or> c = CHR '':'')
        \<or> (\<exists>part \<in> set (js_split CHR ''/'' path). bad_part part)
      then Inl (AppError ''FILES_TRANSFER_PATH'' 400)
      else Inr path)"

definition destination :: "transfer_job \<Rightarrow> string \<Rightarrow> failure + string" where
  "destination job path =
     transferPath (if tj_basePath job \<noteq> [] then tj_basePath job @ ''/'' @ path else path) False"

definition safeInteger :: "jsnum \<Rightarrow> int option" where
  "safeInteger v = (if is_integer v \<and> \<bar>int_of v\<bar> \<le> MAX_SAFE then Some (int_of v) else None)"

text \<open>Base64 over bytes, as the runtime writes it and as it reads it: how many bytes a text stands for.\<close>

definition b64_char :: "nat \<Rightarrow> char" where
  "b64_char n = ''ABCDEFGHIJKLMNOPQRSTUVWXYZabcdefghijklmnopqrstuvwxyz0123456789+/'' ! n"

fun base64 :: "string \<Rightarrow> string" where
  "base64 [] = []"
| "base64 [a] = [b64_char (code a div 4), b64_char (code a mod 4 * 16), CHR ''='', CHR ''='']"
| "base64 [a, b] = [b64_char (code a div 4), b64_char (code a mod 4 * 16 + code b div 16), b64_char (code b mod 16 * 4), CHR ''='']"
| "base64 (a # b # c # rest) =
     b64_char (code a div 4) # b64_char (code a mod 4 * 16 + code b div 16)
     # b64_char (code b mod 16 * 4 + code c div 64) # b64_char (code c mod 64) # base64 rest"

definition b64_length :: "string \<Rightarrow> nat" where
  "b64_length s = length (filter (\<lambda>c. is_alnum c \<or> c \<in> set ''+/-_'') (takeWhile (\<lambda>c. c \<noteq> CHR ''='') s)) * 3 div 4"
section \<open>Statements\<close>

definition find_job :: "string \<Rightarrow> transfer_world \<Rightarrow> transfer_job option" where
  "find_job i w = List.find (\<lambda>j. tj_id j = i) (tw_jobs w)"

definition upd_job :: "string \<Rightarrow> (transfer_job \<Rightarrow> transfer_job) \<Rightarrow> transfer_world \<Rightarrow> transfer_world" where
  "upd_job i f w = w\<lparr>tw_jobs := map (\<lambda>j. if tj_id j = i then f j else j) (tw_jobs w)\<rparr>"

text \<open>\<open>save\<close> writes over the row of the same id, or adds one.\<close>

definition save_job :: "transfer_job \<Rightarrow> transfer_world \<Rightarrow> transfer_world" where
  "save_job job w =
     (if \<exists>j \<in> set (tw_jobs w). tj_id j = tj_id job then upd_job (tj_id job) (\<lambda>_. job) w
      else w\<lparr>tw_jobs := tw_jobs w @ [job]\<rparr>)"

definition save_entry :: "transfer_entry \<Rightarrow> transfer_world \<Rightarrow> transfer_world" where
  "save_entry entry w =
     (if \<exists>e \<in> set (tw_entries w). te_id e = te_id entry
      then w\<lparr>tw_entries := map (\<lambda>e. if te_id e = te_id entry then entry else e) (tw_entries w)\<rparr>
      else w\<lparr>tw_entries := tw_entries w @ [entry]\<rparr>)"

definition entries_of :: "string \<Rightarrow> transfer_world \<Rightarrow> transfer_entry list" where
  "entries_of i w = filter (\<lambda>e. te_transferId e = i) (tw_entries w)"

definition delete_entries :: "string \<Rightarrow> transfer_world \<Rightarrow> transfer_world" where
  "delete_entries i w = w\<lparr>tw_entries := filter (\<lambda>e. te_transferId e \<noteq> i) (tw_entries w)\<rparr>"

definition delete_jobs :: "(transfer_job \<Rightarrow> bool) \<Rightarrow> transfer_world \<Rightarrow> transfer_world" where
  "delete_jobs P w = w\<lparr>tw_jobs := filter (\<lambda>j. \<not> P j) (tw_jobs w)\<rparr>"

definition spool_put :: "string \<Rightarrow> int \<Rightarrow> transfer_world \<Rightarrow> transfer_world" where
  "spool_put name n w = w\<lparr>tw_spool := (name, n) # filter (\<lambda>f. fst f \<noteq> name) (tw_spool w)\<rparr>"

definition spool_remove :: "string \<Rightarrow> transfer_world \<Rightarrow> transfer_world" where
  "spool_remove name w = w\<lparr>tw_spool := filter (\<lambda>f. fst f \<noteq> name) (tw_spool w)\<rparr>"

definition result :: "failure + 'r \<Rightarrow> 'r op" where
  "result r = (\<lambda>k. k r)"

definition fail :: "string \<Rightarrow> nat \<Rightarrow> 'r op" where
  "fail err status = raise (AppError err status)"

definition guard_that :: "bool \<Rightarrow> string \<Rightarrow> nat \<Rightarrow> unit op" where
  "guard_that ok err status = (if ok then ret () else fail err status)"

definition clock :: "int op" where
  "clock = query tw_now"

text \<open>\<open>update(id, \<dots>)\<close> with the time of the call.\<close>

definition update_job :: "string \<Rightarrow> (int \<Rightarrow> transfer_job \<Rightarrow> transfer_job) \<Rightarrow> unit op" where
  "update_job i f = bnd clock (\<lambda>now. statement (upd_job i (f now)))"

definition find_or_fail :: "'r option \<Rightarrow> 'r op" where
  "find_or_fail x = (case x of None \<Rightarrow> fail ''FILES_TRANSFER_NOT_FOUND'' 404 | Some y \<Rightarrow> ret y)"

section \<open>Reading\<close>

definition closed :: "transfer_state \<Rightarrow> bool" where
  "closed s \<longleftrightarrow> s \<in> {Completed, Cancelled, Expired}"

definition authorize :: "transfer_owner \<Rightarrow> unit op" where
  "authorize owner =
     bnd (ask (HostGet (ow_org owner) (ow_host owner))) (\<lambda>a.
     bnd (result (ta_host a)) (\<lambda>host.
     if \<not> hi_enabled host then fail ''HOST_DISABLED'' 409
     else if \<not> hi_transfers host then fail ''HOST_FILES_TRANSFER_UNSUPPORTED'' 409
     else ret ()))"

definition transfer_get :: "transfer_owner \<Rightarrow> string \<Rightarrow> transfer_job op" where
  "transfer_get owner i =
     (if \<not> uuid i then fail ''FILES_TRANSFER_INVALID'' 400 else
      bnd (authorize owner) (\<lambda>_.
      bnd (query (\<lambda>w. List.find (\<lambda>j. tj_id j = i \<and> tj_owner j = owner) (tw_jobs w))) (\<lambda>found.
      bnd (find_or_fail found) (\<lambda>job.
      bnd clock (\<lambda>now.
      if \<not> closed (tj_state job) \<and> FILE_TRANSFER_TTL_MS \<le> now - tj_updated job
      then bnd (statement (upd_job i (\<lambda>j. j\<lparr>tj_state := Expired\<rparr>))) (\<lambda>_. ret (job\<lparr>tj_state := Expired\<rparr>))
      else ret job)))))"

definition transfer_list :: "transfer_owner \<Rightarrow> transfer_job list op" where
  "transfer_list owner =
     bnd (authorize owner) (\<lambda>_.
     query (\<lambda>w. take 100 (js_sort (by_key (\<lambda>j. - tj_created j)) (filter (\<lambda>j. tj_owner j = owner) (tw_jobs w)))))"

definition transfer_entries :: "string cmp \<Rightarrow> transfer_owner \<Rightarrow> string \<Rightarrow> transfer_entry list op" where
  "transfer_entries text_cmp owner i =
     bnd (transfer_get owner i) (\<lambda>_.
     query (\<lambda>w. js_sort (\<lambda>a b. text_cmp (te_path a) (te_path b)) (entries_of i w)))"

section \<open>Talking to the agent\<close>

definition request_of :: "transfer_job \<Rightarrow> transfer_entry \<Rightarrow> fs_action \<Rightarrow> string \<Rightarrow> fs_request" where
  "request_of job entry action path =
     \<lparr>fr_transferId = tj_id job, fr_entryId = te_id entry, fr_action = action, fr_path = path, fr_offset = 0,
      fr_size = te_size entry, fr_data = [], fr_digest = [], fr_modified = te_modified entry, fr_replace = False\<rparr>"

definition ask_agent :: "transfer_job \<Rightarrow> transfer_entry \<Rightarrow> fs_action \<Rightarrow> (fs_request \<Rightarrow> fs_request) \<Rightarrow> fs_result op" where
  "ask_agent job entry action extra =
     bnd (result (destination job (te_path entry))) (\<lambda>path.
     bnd (ask (AgentTransfer (ow_org (tj_owner job)) (ow_host (tj_owner job)) (extra (request_of job entry action path)))) (\<lambda>a.
     result (ta_agent a)))"

definition unlink :: "string \<Rightarrow> unit op" where
  "unlink name = bnd (ask (UnlinkFile name)) (\<lambda>a. bnd (result (ta_number a)) (\<lambda>_. statement (spool_remove name)))"

text \<open>A file that is not there is no error.\<close>

definition discard :: "transfer_job \<Rightarrow> unit op" where
  "discard job =
     bnd (for_each (\<lambda>suffix. unlink (tj_id job @ suffix)) [''.zip'', ''.partial'']) (\<lambda>_.
     bnd (if tj_direction job = Upload \<and> tj_state job \<noteq> Completed
          then bnd (query (\<lambda>w. filter (\<lambda>e. te_kind e = FileKind) (entries_of (tj_id job) w))) (\<lambda>files.
               for_each (\<lambda>entry. bnd (ask_agent job entry FsDiscard id) (\<lambda>_. ret ())) files)
          else ret ()) (\<lambda>_.
     bnd (statement (delete_entries (tj_id job))) (\<lambda>_.
     statement (upd_job (tj_id job) (\<lambda>j. j\<lparr>tj_archiveBytes := 0\<rparr>)))))"

definition transfer_remove :: "transfer_owner \<Rightarrow> string \<Rightarrow> string op" where
  "transfer_remove owner i =
     bnd (locked (ow_host owner)
       (bnd (transfer_get owner i) (\<lambda>job.
        bnd (guard_that (closed (tj_state job)) ''FILES_TRANSFER_STATE'' 409) (\<lambda>_.
        bnd (discard job) (\<lambda>_.
        statement (delete_jobs (\<lambda>j. tj_id j = i \<and> tj_owner j = owner))))))) (\<lambda>_.
     ret i)"

section \<open>Creating a transfer and naming its files\<close>

record create_transfer =
  ct_id :: string
  ct_direction :: direction
  ct_basePath :: string
  ct_selection :: "string list"

definition new_job :: "transfer_owner \<Rightarrow> create_transfer \<Rightarrow> int \<Rightarrow> transfer_job" where
  "new_job owner input now =
     \<lparr>tj_id = ct_id input, tj_owner = owner, tj_direction = ct_direction input, tj_basePath = ct_basePath input,
      tj_selection = ct_selection input, tj_state = Draft, tj_bytes = 0, tj_totalBytes = 0, tj_completedEntries = 0,
      tj_totalEntries = 0, tj_currentPath = [], tj_errorCode = [], tj_exclusions = [], tj_archiveBytes = 0,
      tj_etag = [], tj_updated = now, tj_created = now\<rparr>"

definition transfer_create :: "transfer_owner \<Rightarrow> create_transfer \<Rightarrow> transfer_job op" where
  "transfer_create owner input =
     bnd (authorize owner) (\<lambda>_.
     bnd (guard_that (uuid (ct_id input)) ''FILES_TRANSFER_INVALID'' 400) (\<lambda>_.
     bnd (result (transferPath (ct_basePath input) True)) (\<lambda>_.
     bnd (guard_that (length (ct_selection input) \<le> 250 \<and> \<not> (ct_direction input = Download \<and> ct_selection input = []))
            ''FILES_TRANSFER_LIMIT'' 400) (\<lambda>_.
     bnd (for_each (\<lambda>path. bnd (result (transferPath path False)) (\<lambda>_. ret ())) (ct_selection input)) (\<lambda>_.
     locked (''create:'' @ ow_host owner)
       (bnd (query (find_job (ct_id input))) (\<lambda>found.
        case found of
          Some existing \<Rightarrow>
            if tj_owner existing \<noteq> owner then fail ''FILES_TRANSFER_NOT_FOUND'' 404
            else if tj_direction existing \<noteq> ct_direction input \<or> tj_basePath existing \<noteq> ct_basePath input
              \<or> tj_selection existing \<noteq> ct_selection input then fail ''FILES_TRANSFER_INVALID'' 400
            else ret existing
        | None \<Rightarrow>
            bnd (query (\<lambda>w. length (filter (\<lambda>j. tj_owner j = owner \<and> \<not> closed (tj_state j)) (tw_jobs w)))) (\<lambda>open_jobs.
            if 32 \<le> open_jobs then fail ''FILES_TRANSFER_LIMIT'' 429 else
            bnd clock (\<lambda>now.
            bnd (statement (save_job (new_job owner input now))) (\<lambda>_.
            ret (new_job owner input now)))))))))))"

record manifest_entry =
  me_id :: string
  me_path :: string
  me_kind :: entry_kind
  me_size :: jsnum
  me_fingerprint :: string
  me_modified :: string

definition manifest_item_ok :: "manifest_entry \<Rightarrow> bool" where
  "manifest_item_ok item \<longleftrightarrow> uuid (me_id item)
     \<and> (case safeInteger (me_size item) of None \<Rightarrow> False | Some n \<Rightarrow> 0 \<le> n \<and> (me_kind item = DirKind \<longrightarrow> n = 0))
     \<and> me_kind item \<in> {FileKind, DirKind}
     \<and> (me_kind item = FileKind \<longrightarrow> digestPattern (me_fingerprint item))"

definition entry_of_item :: "string \<Rightarrow> manifest_entry \<Rightarrow> transfer_entry" where
  "entry_of_item i item =
     \<lparr>te_id = me_id item, te_transferId = i, te_path = me_path item, te_kind = me_kind item, te_size = int_of (me_size item),
      te_offset = 0, te_fingerprint = me_fingerprint item, te_modified = me_modified item, te_state = Pending,
      te_replace = False\<rparr>"

text \<open>The loop of the transaction.\<close>

fun manifest_rows :: "string \<Rightarrow> manifest_entry list \<Rightarrow> transfer_world \<Rightarrow> failure + transfer_world" where
  "manifest_rows i [] w = Inr w"
| "manifest_rows i (item # items) w =
     (let new = entry_of_item i item in
      case List.find (\<lambda>e. te_id e = me_id item) (tw_entries w) of
        Some old \<Rightarrow>
          if te_transferId old \<noteq> i \<or> te_path old \<noteq> te_path new \<or> te_kind old \<noteq> te_kind new \<or> te_size old \<noteq> te_size new
            \<or> te_fingerprint old \<noteq> te_fingerprint new
          then Inl (AppError ''FILES_TRANSFER_SOURCE_CHANGED'' 409)
          else manifest_rows i items w
      | None \<Rightarrow>
          if \<exists>e \<in> set (entries_of i w). te_path e = me_path item
          then Inl (AppError ''FILES_TRANSFER_INVALID'' 400)
          else manifest_rows i items (save_entry new w))"

text \<open>A transaction that fails leaves nothing behind.\<close>

definition manifest_transaction ::
    "transfer_limits \<Rightarrow> string \<Rightarrow> manifest_entry list \<Rightarrow> transfer_world \<Rightarrow> transfer_world \<times> (failure + unit)" where
  "manifest_transaction lims i items w =
     (case manifest_rows i items w of
        Inl e \<Rightarrow> (w, Inl e)
      | Inr w' \<Rightarrow>
          (let all_entries = entries_of i w'; bytes = sum_list (map te_size all_entries) in
           if maxEntries lims < length all_entries \<or> maxBytes lims < bytes then (w, Inl (AppError ''FILES_TRANSFER_LIMIT'' 413))
           else (upd_job i (\<lambda>j. j\<lparr>tj_totalEntries := int (length all_entries), tj_totalBytes := bytes,
                   tj_updated := tw_now w\<rparr>) w', Inr ())))"

definition transfer_manifest :: "transfer_limits \<Rightarrow> transfer_owner \<Rightarrow> string \<Rightarrow> manifest_entry list \<Rightarrow> transfer_job op" where
  "transfer_manifest lims owner i items =
     locked ''manifest''
       (bnd (transfer_get owner i) (\<lambda>job.
        bnd (guard_that (tj_direction job = Upload \<and> tj_state job = Draft) ''FILES_TRANSFER_STATE'' 409) (\<lambda>_.
        bnd (guard_that (length items \<le> 250) ''FILES_TRANSFER_LIMIT'' 400) (\<lambda>_.
        bnd (for_each (\<lambda>item.
               bnd (result (transferPath (me_path item) False)) (\<lambda>_.
               bnd (result (destination job (me_path item))) (\<lambda>_.
               guard_that (manifest_item_ok item) ''FILES_TRANSFER_INVALID'' 400))) items) (\<lambda>_.
        bnd (atomically (\<lambda>w. case manifest_transaction lims i items w of (w', r) \<Rightarrow> (w', [], r))) (\<lambda>r.
        bnd (result r) (\<lambda>_.
        transfer_get owner i)))))))"

section \<open>Starting, pausing and cancelling\<close>

definition schedule :: "transfer_owner \<Rightarrow> string \<Rightarrow> unit op" where
  "schedule owner i =
     atomically (\<lambda>w. if i \<in> tw_workers w \<or> tw_stopping w then (w, [], ())
                     else (w\<lparr>tw_workers := insert i (tw_workers w)\<rparr>, [Worker owner i], ()))"

definition transfer_advance :: "string \<Rightarrow> unit op" where
  "transfer_advance hostId =
     bnd (query (\<lambda>w. tw_stopping w \<or> (\<exists>j \<in> set (tw_jobs w). ow_host (tj_owner j) = hostId \<and> tj_state j = Running))) (\<lambda>busy.
     if busy then ret () else
     bnd (query (\<lambda>w. js_sort (by_key tj_created)
            (filter (\<lambda>j. ow_host (tj_owner j) = hostId \<and> tj_state j = Queued) (tw_jobs w)))) (\<lambda>waiting.
     case waiting of [] \<Rightarrow> ret () | job # _ \<Rightarrow> schedule (tj_owner job) (tj_id job)))"

datatype transfer_action = Start | Pause | Cancel

text \<open>No file lies under another file.\<close>

definition types_conflict :: "transfer_entry list \<Rightarrow> bool" where
  "types_conflict entries \<longleftrightarrow>
     (\<exists>e \<in> set entries. let parts = js_split CHR ''/'' (te_path e) in
        \<exists>i \<in> set [1..<length parts]. \<exists>f \<in> set entries. te_kind f = FileKind \<and> te_path f = js_join ''/'' (take i parts))"

definition transfer_control :: "transfer_owner \<Rightarrow> string \<Rightarrow> transfer_action \<Rightarrow> transfer_job op" where
  "transfer_control owner i action =
     bnd (transfer_get owner i) (\<lambda>job.
     if closed (tj_state job) then ret job
     else if action = Pause \<and> tj_state job = Ready then ret job
     else if action = Pause \<or> action = Cancel then
       bnd (update_job i (\<lambda>now j. j\<lparr>tj_state := if action = Pause then Paused else Cancelled, tj_updated := now\<rparr>)) (\<lambda>_.
       bnd (if action = Cancel then spawn (Discard job) else ret ()) (\<lambda>_.
       bnd (spawn (Advance (ow_host owner))) (\<lambda>_.
       transfer_get owner i)))
     else if tj_state job \<in> {Ready, Running, Queued} then ret job
     else if tj_direction job = Upload \<and> tj_totalEntries job = 0 then fail ''FILES_TRANSFER_EMPTY'' 400
     else
       bnd (if tj_direction job = Upload
            then bnd (query (entries_of i)) (\<lambda>entries. guard_that (\<not> types_conflict entries) ''FILES_TRANSFER_TYPE_CONFLICT'' 409)
            else ret ()) (\<lambda>_.
       bnd (update_job i (\<lambda>now j. j\<lparr>tj_state := Queued, tj_errorCode := [], tj_updated := now\<rparr>)) (\<lambda>_.
       bnd (schedule owner i) (\<lambda>_.
       transfer_get owner i))))"

section \<open>An upload\<close>

definition progress :: "string \<Rightarrow> string \<Rightarrow> unit op" where
  "progress i currentPath =
     bnd (query (entries_of i)) (\<lambda>entries.
     bnd (update_job i (\<lambda>now j. j\<lparr>
            tj_bytes := sum_list (map (\<lambda>e. if te_state e = Skipped then 0 else te_offset e) entries),
            tj_completedEntries := int (length (filter (\<lambda>e. te_state e \<noteq> Pending) entries)),
            tj_currentPath := currentPath, tj_updated := now\<rparr>)) (\<lambda>_.
     bnd (query (find_job i)) (\<lambda>found.
     case found of
       None \<Rightarrow> ret ()
     | Some job \<Rightarrow>
         if tj_direction job = Upload \<and> entries \<noteq> [] \<and> (\<forall>e \<in> set entries. te_state e \<noteq> Pending) \<and> tj_state job = Running
         then bnd (statement (upd_job i (\<lambda>j. j\<lparr>tj_state := Completed\<rparr>))) (\<lambda>_. spawn (Advance (ow_host (tj_owner job))))
         else ret ())))"

definition transfer_active :: "transfer_owner \<Rightarrow> string \<Rightarrow> string \<Rightarrow> (transfer_job \<times> transfer_entry) op" where
  "transfer_active owner i entryId =
     bnd (guard_that (uuid entryId) ''FILES_TRANSFER_INVALID'' 400) (\<lambda>_.
     bnd (transfer_get owner i) (\<lambda>job.
     bnd (guard_that (tj_direction job = Upload \<and> tj_state job = Running) ''FILES_TRANSFER_STATE'' 409) (\<lambda>_.
     bnd (query (\<lambda>w. List.find (\<lambda>e. te_id e = entryId \<and> te_transferId e = i) (tw_entries w))) (\<lambda>found.
     bnd (find_or_fail found) (\<lambda>entry.
     ret (job, entry))))))"

text \<open>\<open>save(entry)\<close> and the progress of its transfer.\<close>

definition save_progress :: "string \<Rightarrow> transfer_entry \<Rightarrow> transfer_entry op" where
  "save_progress i entry =
     bnd (statement (save_entry entry)) (\<lambda>_. bnd (progress i (te_path entry)) (\<lambda>_. ret entry))"

definition transfer_reconcile :: "transfer_owner \<Rightarrow> string \<Rightarrow> string \<Rightarrow> transfer_entry op" where
  "transfer_reconcile owner i entryId =
     locked (ow_host owner)
       (bnd (transfer_active owner i entryId) (\<lambda>(job, entry).
        if te_kind entry = DirKind \<or> te_state entry = Skipped then ret entry else
        bnd (ask_agent job entry FsStat id) (\<lambda>answer.
        if te_size entry < fs_offset answer \<or> fs_offset answer < 0 then fail ''FILES_TRANSFER_RESPONSE'' 502
        else save_progress (tj_id job) (entry\<lparr>te_offset := fs_offset answer,
               te_state := if fs_committed answer then Committed else te_state entry\<rparr>))))"

datatype decision = Replace | Skip

definition kind_of_target :: "fs_result \<Rightarrow> entry_kind option" where
  "kind_of_target answer = map_option fe_kind (case fs_entries answer of [] \<Rightarrow> None | e # _ \<Rightarrow> Some e)"

definition transfer_decide :: "transfer_owner \<Rightarrow> string \<Rightarrow> string \<Rightarrow> decision \<Rightarrow> transfer_entry op" where
  "transfer_decide owner i entryId action =
     locked (ow_host owner)
       (bnd (transfer_active owner i entryId) (\<lambda>(job, entry).
        if te_state entry \<noteq> Pending then ret entry
        else if action = Skip then
          bnd (if te_kind entry = FileKind then bnd (ask_agent job entry FsDiscard id) (\<lambda>_. ret ()) else ret ()) (\<lambda>_.
          bnd (statement (save_entry (entry\<lparr>te_state := Skipped\<rparr>))) (\<lambda>_.
          bnd (if te_kind entry = DirKind
               then bnd (query (entries_of i)) (\<lambda>children.
                 for_each (\<lambda>child.
                   if starts_with (te_path child) (te_path entry @ ''/'') \<and> te_state child = Pending
                   then statement (\<lambda>w. w\<lparr>tw_entries := map (\<lambda>e. if te_id e = te_id child then e\<lparr>te_state := Skipped\<rparr> else e) (tw_entries w)\<rparr>)
                   else ret ()) children)
               else ret ()) (\<lambda>_.
          bnd (progress i (te_path entry)) (\<lambda>_.
          ret (entry\<lparr>te_state := Skipped\<rparr>)))))
        else
          bnd (ask_agent job entry FsStat id) (\<lambda>answer.
          if te_kind entry \<noteq> FileKind \<or> kind_of_target answer \<notin> {Some MissingKind, Some FileKind}
          then fail ''FILES_TRANSFER_TYPE_CONFLICT'' 409
          else save_progress i (entry\<lparr>te_replace := True\<rparr>))))"

definition transfer_chunk ::
    "transfer_limits \<Rightarrow> transfer_owner \<Rightarrow> string \<Rightarrow> string \<Rightarrow> jsnum \<Rightarrow> string \<Rightarrow> string \<Rightarrow> transfer_entry op" where
  "transfer_chunk lims owner i entryId offset digest data =
     (case safeInteger offset of None \<Rightarrow> fail ''FILES_TRANSFER_CHUNK'' 400
      | Some from_byte \<Rightarrow>
        if FILE_TRANSFER_CHUNK_BYTES < int (length data) \<or> \<not> digestPattern digest \<or> sha256 lims data \<noteq> digest \<or> from_byte < 0
        then fail ''FILES_TRANSFER_CHUNK'' 400 else
        locked (ow_host owner)
          (bnd (transfer_active owner i entryId) (\<lambda>(job, entry).
           bnd (guard_that (te_kind entry = FileKind \<and> te_state entry = Pending) ''FILES_TRANSFER_STATE'' 409) (\<lambda>_.
           bnd (if from_byte = 0
                then bnd (ask_agent job entry FsStat id) (\<lambda>target.
                  let kind = kind_of_target target in
                  if kind \<noteq> Some MissingKind \<and> \<not> fs_committed target \<and> (\<not> te_replace entry \<or> kind \<noteq> Some FileKind)
                  then fail (if kind = Some FileKind then ''FILES_TRANSFER_CONFLICT'' else ''FILES_TRANSFER_TYPE_CONFLICT'') 409
                  else ret ())
                else ret ()) (\<lambda>_.
           bnd (ask_agent job entry FsWrite (\<lambda>r. r\<lparr>fr_offset := from_byte, fr_digest := digest, fr_data := base64 data\<rparr>)) (\<lambda>answer.
           if fs_offset answer < from_byte + int (length data) \<or> te_size entry < fs_offset answer
           then fail ''FILES_TRANSFER_RESPONSE'' 502
           else save_progress i (entry\<lparr>te_offset := fs_offset answer\<rparr>)))))))"

definition transfer_commit :: "transfer_owner \<Rightarrow> string \<Rightarrow> string \<Rightarrow> transfer_entry op" where
  "transfer_commit owner i entryId =
     locked (ow_host owner)
       (bnd (transfer_active owner i entryId) (\<lambda>(job, entry).
        if te_state entry \<noteq> Pending then ret entry else
        bnd (ask_agent job entry (if te_kind entry = DirKind then FsMkdir else FsCommit)
              (\<lambda>r. r\<lparr>fr_digest := te_fingerprint entry, fr_replace := te_replace entry\<rparr>)) (\<lambda>answer.
        if \<not> fs_committed answer then fail ''FILES_TRANSFER_RESPONSE'' 502
        else save_progress i (entry\<lparr>te_state := Committed, te_offset := te_size entry\<rparr>))))"

section \<open>An archive\<close>

definition checkpoint :: "transfer_job \<Rightarrow> unit op" where
  "checkpoint job =
     bnd (query (\<lambda>w. (tw_stopping w, find_job (tj_id job) w))) (\<lambda>(stopping, current).
     guard_that (\<not> stopping \<and> map_option tj_state current = Some Running) ''FILES_TRANSFER_PAUSED'' 409)"

record scan_state =
  sc_seen :: "string list"
  sc_entries :: "transfer_entry list"
  sc_exclusions :: "string list"
  sc_totalBytes :: int

text \<open>The children of one page; \<open>visit\<close> is the walk of one of them.\<close>

fun scan_children :: "(string \<Rightarrow> scan_state \<Rightarrow> scan_state op) \<Rightarrow> transfer_job \<Rightarrow> string \<Rightarrow> target_entry list \<Rightarrow> scan_state \<Rightarrow> scan_state op" where
  "scan_children visit job relative [] st = ret st"
| "scan_children visit job relative (child # children) st =
     (let prefix = (if tj_basePath job \<noteq> [] then tj_basePath job @ ''/'' else []);
          childPath = drop (length prefix) (fe_path child) in
      if \<not> starts_with (fe_path child) prefix then fail ''FILES_TRANSFER_RESPONSE'' 502
      else if \<not> starts_with childPath (relative @ ''/'') \<or> CHR ''/'' \<in> set (drop (length relative + 1) childPath)
      then fail ''FILES_TRANSFER_RESPONSE'' 502
      else bnd (visit childPath st) (\<lambda>st'. scan_children visit job relative children st'))"

text \<open>The pages of a directory. A number beyond the safe integers does not pass the schema of a result.\<close>

function scan_pages :: "(string \<Rightarrow> scan_state \<Rightarrow> scan_state op) \<Rightarrow> transfer_job \<Rightarrow> transfer_entry \<Rightarrow> int \<Rightarrow> scan_state \<Rightarrow> scan_state op" where
  "scan_pages visit job entry offset st =
     bnd (ask_agent job entry FsList (\<lambda>r. r\<lparr>fr_offset := offset\<rparr>)) (\<lambda>page.
     bnd (scan_children visit job (te_path entry) (fs_entries page) st) (\<lambda>st'.
     case fs_next page of
       None \<Rightarrow> ret st'
     | Some following \<Rightarrow>
         if following \<le> offset \<or> MAX_SAFE < following then fail ''FILES_TRANSFER_RESPONSE'' 502
         else scan_pages visit job entry following st'))"
  by pat_completeness auto
termination
  by (relation "measure (\<lambda>(_, _, _, offset, _). nat (MAX_SAFE + 1 - offset))") auto

declare scan_pages.simps [simp del]

lemma scan_children_cong [fundef_cong]:
  assumes "job = job'" and "relative = relative'" and "children = children'" and "st = st'"
    and "\<And>c s. starts_with c (relative' @ ''/'') \<Longrightarrow> visit c s = visit' c s"
  shows "scan_children visit job relative children st = scan_children visit' job' relative' children' st'"
  unfolding assms(1-4)
proof (induction children' arbitrary: st')
  case (Cons child children)
  then have "scan_children visit job' relative' children = scan_children visit' job' relative' children" by (intro ext) simp
  then show ?case using assms(5) by (simp add: Let_def)
qed simp

lemma scan_pages_cong [fundef_cong]:
  assumes "job = job'" and "entry = entry'" and "offset = offset'" and "st = st'"
    and "\<And>c s. starts_with c (te_path entry' @ ''/'') \<Longrightarrow> visit c s = visit' c s"
  shows "scan_pages visit job entry offset st = scan_pages visit' job' entry' offset' st'"
  unfolding assms(1-4) using assms(5)
proof (induction visit' job' entry' offset' st' arbitrary: visit rule: scan_pages.induct)
  case (1 visit' job entry offset st)
  have "scan_children visit job (te_path entry) cs s = scan_children visit' job (te_path entry) cs s" for cs s
    by (rule scan_children_cong) (use 1(2) in simp_all)
  then have "scan_children visit job (te_path entry) = scan_children visit' job (te_path entry)" by (intro ext) simp
  moreover have eq: "scan_pages visit job entry n s = scan_pages visit' job entry n s"
    if "fs_next page = Some n" "\<not> (n \<le> offset \<or> MAX_SAFE < n)" for n s and page :: fs_result
    by (rule 1(1) [OF that]) (rule 1(2))
  moreover have "(\<lambda>st'. case fs_next page of None \<Rightarrow> ret st'
      | Some following \<Rightarrow> if following \<le> offset \<or> MAX_SAFE < following then fail ''FILES_TRANSFER_RESPONSE'' 502
          else scan_pages visit job entry following st')
    = (\<lambda>st'. case fs_next page of None \<Rightarrow> ret st'
      | Some following \<Rightarrow> if following \<le> offset \<or> MAX_SAFE < following then fail ''FILES_TRANSFER_RESPONSE'' 502
          else scan_pages visit' job entry following st')" for page :: fs_result
    by (intro ext) (auto split: option.split simp: eq)
  ultimately show ?case by (subst (1 2) scan_pages.simps) simp
qed

text \<open>One path of the selection and everything below it. Every path is longer than its parent's.\<close>

definition found_entry :: "transfer_job \<Rightarrow> string \<Rightarrow> string \<Rightarrow> transfer_entry" where
  "found_entry job i path =
     \<lparr>te_id = i, te_transferId = tj_id job, te_path = path, te_kind = FileKind, te_size = 0, te_offset = 0,
      te_fingerprint = [], te_modified = [], te_state = Pending, te_replace = False\<rparr>"

lemma found_entry_path: "te_path (found_entry job i path) = path"
  by (simp add: found_entry_def)

lemma transferPath_Inr: "transferPath path False = Inr p \<Longrightarrow> p = path \<and> path \<noteq> [] \<and> length path \<le> 1024"
  by (auto simp: transferPath_def split: if_splits)

lemma starts_with_longer: "starts_with s (p @ [c]) \<Longrightarrow> length p < length s"
  by (auto elim!: starts_withE)

function scan_visit :: "transfer_limits \<Rightarrow> transfer_job \<Rightarrow> string \<Rightarrow> scan_state \<Rightarrow> scan_state op" where
  "scan_visit lims job relative st =
     (if relative \<in> set (sc_seen st) then ret st else
      let st1 = st\<lparr>sc_seen := sc_seen st @ [relative]\<rparr> in
      if maxEntries lims < length (sc_seen st1) then fail ''FILES_TRANSFER_LIMIT'' 413 else
      bnd (checkpoint job) (\<lambda>_.
      bnd (ask RandomUUID) (\<lambda>a.
      bnd (result (ta_text a)) (\<lambda>i.
      case transferPath relative False of Inl e \<Rightarrow> raise e | Inr path \<Rightarrow>
      bnd (ask_agent job (found_entry job i path) FsStat id) (\<lambda>answer.
      case fs_entries answer of
        [] \<Rightarrow> fail ''FILES_TRANSFER_SOURCE_CHANGED'' 409
      | info # _ \<Rightarrow>
          if fe_kind info = MissingKind then fail ''FILES_TRANSFER_SOURCE_CHANGED'' 409
          else if fe_kind info \<in> {LinkKind, SpecialKind}
          then ret (st1\<lparr>sc_exclusions := sc_exclusions st1 @ [relative]\<rparr>)
          else
            let entry = (found_entry job i path)\<lparr>te_kind := fe_kind info, te_size := fe_size info, te_modified := fe_modified info\<rparr>;
                st2 = st1\<lparr>sc_entries := sc_entries st1 @ [entry], sc_totalBytes := sc_totalBytes st1 + te_size entry\<rparr> in
            if maxEntries lims < length (sc_entries st2) \<or> maxBytes lims < sc_totalBytes st2
            then fail ''FILES_TRANSFER_LIMIT'' 413
            else if te_kind entry = DirKind then scan_pages (scan_visit lims job) job entry 0 st2
            else ret st2)))))"
  by pat_completeness auto
termination
proof (relation "measure (\<lambda>(_, _, relative, _). 1025 - length relative)", goal_cases)
  case (2 lims job relative st st1 a i path answer info rest entry st2 child s)
  then have "length relative \<le> 1024" "length relative < length s"
    using starts_with_longer [of s relative "CHR ''/''"] by (auto dest!: transferPath_Inr simp: found_entry_path)
  then show ?case by auto
qed simp

declare scan_visit.simps [simp del]

text \<open>The walk goes down to longer and longer paths, which are bounded.\<close>

lemma longer_paths_induct:
  assumes "\<And>relative st. (\<And>c s. length relative \<le> 1024 \<Longrightarrow> length relative < length c \<Longrightarrow> P c s) \<Longrightarrow> P relative st"
  shows "P (relative :: string) st"
proof (induction "1025 - length relative" arbitrary: relative st rule: less_induct)
  case less
  show ?case by (rule assms) (rule less, auto)
qed

lemma scan_pages_below:
  "scan_pages visit job entry offset st =
     scan_pages (\<lambda>c s. if length (te_path entry) < length c then visit c s else ret s) job entry offset st"
  by (rule scan_pages_cong) (auto dest: starts_with_longer)

definition save_all :: "transfer_entry list \<Rightarrow> transfer_world \<Rightarrow> transfer_world" where
  "save_all entries w = fold save_entry entries w"

definition scan_selection :: "transfer_limits \<Rightarrow> transfer_job \<Rightarrow> string list \<Rightarrow> scan_state \<Rightarrow> scan_state op" where
  "scan_selection lims job paths st =
     foldl (\<lambda>m path. bnd m (scan_visit lims job path)) (ret st) paths"

definition scan_files :: "transfer_limits \<Rightarrow> transfer_job \<Rightarrow> transfer_entry list op" where
  "scan_files lims job =
     bnd (statement (delete_entries (tj_id job))) (\<lambda>_.
     bnd (scan_selection lims job (js_sort str_cmp (tj_selection job))
            \<lparr>sc_seen = [], sc_entries = [], sc_exclusions = [], sc_totalBytes = 0\<rparr>) (\<lambda>st.
     bnd (statement (save_all (sc_entries st))) (\<lambda>_.
     bnd (update_job (tj_id job) (\<lambda>now j. j\<lparr>tj_totalBytes := sc_totalBytes st,
            tj_totalEntries := int (length (sc_entries st)), tj_exclusions := sc_exclusions st, tj_bytes := 0,
            tj_completedEntries := 0, tj_updated := now\<rparr>)) (\<lambda>_.
     if sc_exclusions st \<noteq> [] \<and> tj_exclusions job \<noteq> sc_exclusions st
     then bnd (statement (upd_job (tj_id job) (\<lambda>j. j\<lparr>tj_state := Paused, tj_errorCode := ''FILES_TRANSFER_EXCLUDED''\<rparr>))) (\<lambda>_.
          fail ''FILES_TRANSFER_EXCLUDED'' 409)
     else ret (sc_entries st)))))"

text \<open>One file of an archive, read to its end and once more behind it.\<close>

function readEntry :: "transfer_job \<Rightarrow> transfer_entry \<Rightarrow> int \<Rightarrow> unit op" where
  "readEntry job entry offset =
     (if offset < te_size entry then
        bnd (checkpoint job) (\<lambda>_.
        bnd (ask_agent job entry FsRead (\<lambda>r. r\<lparr>fr_offset := offset\<rparr>)) (\<lambda>answer.
        let n = int (b64_length (fs_data answer)) in
        if fs_offset answer \<noteq> offset \<or> n \<noteq> min FILE_TRANSFER_CHUNK_BYTES (te_size entry - offset)
        then fail ''FILES_TRANSFER_SOURCE_CHANGED'' 409
        else
          bnd (statement (upd_job (tj_id job) (\<lambda>j. j\<lparr>tj_bytes := tj_bytes j + n\<rparr>))) (\<lambda>_.
          bnd (update_job (tj_id job) (\<lambda>now j. j\<lparr>tj_currentPath := te_path entry, tj_updated := now\<rparr>)) (\<lambda>_.
          readEntry job entry (offset + n)))))
      else
        bnd (ask_agent job entry FsRead (\<lambda>r. r\<lparr>fr_offset := te_size entry\<rparr>)) (\<lambda>answer.
        guard_that (fs_data answer = []) ''FILES_TRANSFER_SOURCE_CHANGED'' 409))"
  by pat_completeness auto
termination
  by (relation "measure (\<lambda>(_, entry, offset). nat (te_size entry - offset))") (auto simp: FILE_TRANSFER_CHUNK_BYTES_def)

declare readEntry.simps [simp del]

definition reserve_of :: "transfer_entry list \<Rightarrow> int" where
  "reserve_of entries = 4096 + sum_list (map (\<lambda>e. te_size e + 2048) entries)"

definition reserve_spool :: "transfer_limits \<Rightarrow> transfer_job \<Rightarrow> int \<Rightarrow> unit op" where
  "reserve_spool lims job reserve =
     locked ''spool-budget''
       (bnd (query (\<lambda>w. sum_list (map tj_archiveBytes
               (filter (\<lambda>j. tj_state j \<in> {Ready, Running} \<and> tj_id j \<noteq> tj_id job) (tw_jobs w))))) (\<lambda>used.
        bnd (ask DiskFree) (\<lambda>a.
        bnd (result (ta_number a)) (\<lambda>available.
        if spoolBytes lims < used + reserve \<or> available < reserve + 64 * 1024 ^ 2
        then fail ''FILES_TRANSFER_DISK_FULL'' 507
        else statement (upd_job (tj_id job) (\<lambda>j. j\<lparr>tj_archiveBytes := reserve\<rparr>))))))"

definition add_to_archive :: "transfer_job \<Rightarrow> transfer_entry \<Rightarrow> unit op" where
  "add_to_archive job entry =
     bnd (checkpoint job) (\<lambda>_.
     bnd (if te_kind entry = DirKind then ret () else readEntry job entry 0) (\<lambda>_.
     bnd (ask (ZipEntry (te_path entry))) (\<lambda>a.
     bnd (result (ta_number a)) (\<lambda>_.
     statement (upd_job (tj_id job) (\<lambda>j. j\<lparr>tj_completedEntries := tj_completedEntries j + 1\<rparr>))))))"

text \<open>The archive is written beside its name, read back for its digest, and published only while the job runs.\<close>

definition write_archive :: "transfer_job \<Rightarrow> int \<Rightarrow> transfer_entry list \<Rightarrow> unit op" where
  "write_archive job reserve entries =
     (let partial = tj_id job @ ''.partial''; zip_file = tj_id job @ ''.zip'' in
      bnd (statement (spool_put partial 0)) (\<lambda>_.
      bnd (for_each (add_to_archive job) entries) (\<lambda>_.
      bnd (ask (ZipFinish partial)) (\<lambda>a.
      bnd (result (ta_number a)) (\<lambda>n.
      bnd (statement (spool_put partial n)) (\<lambda>_.
      bnd (checkpoint job) (\<lambda>_.
      if reserve < n then fail ''FILES_TRANSFER_DISK_FULL'' 507 else
      bnd (for_each (\<lambda>_. checkpoint job) (replicate (nat ((n + FILE_TRANSFER_CHUNK_BYTES - 1) div FILE_TRANSFER_CHUNK_BYTES)) ())) (\<lambda>_.
      bnd (ask (ZipDigest partial)) (\<lambda>d.
      bnd (result (ta_text d)) (\<lambda>digest.
      bnd (checkpoint job) (\<lambda>_.
      bnd (ask (RenameFile partial zip_file)) (\<lambda>r.
      bnd (result (ta_number r)) (\<lambda>_.
      bnd (statement (\<lambda>w. spool_put zip_file n (spool_remove partial w))) (\<lambda>_.
      bnd clock (\<lambda>now.
      bnd (atomically (\<lambda>w. (upd_job (tj_id job) (\<lambda>j. if tj_state j = Running
             then j\<lparr>tj_state := Ready, tj_archiveBytes := n, tj_etag := ''\"'' @ digest @ ''\"'', tj_updated := now\<rparr> else j) w, [],
             map_option tj_state (find_job (tj_id job) w) = Some Running))) (\<lambda>published.
      if published then ret ()
      else bnd (unlink zip_file) (\<lambda>_. fail ''FILES_TRANSFER_PAUSED'' 409)))))))))))))))))"

definition prepareDownload :: "transfer_limits \<Rightarrow> transfer_job \<Rightarrow> unit op" where
  "prepareDownload lims job =
     bnd (scan_files lims job) (\<lambda>entries.
     bnd (reserve_spool lims job (reserve_of entries)) (\<lambda>_.
     bnd (attempt (write_archive job (reserve_of entries) entries)) (\<lambda>outcome.
     case outcome of
       Inr _ \<Rightarrow> ret ()
     | Inl e \<Rightarrow>
         bnd (attempt (unlink (tj_id job @ ''.partial''))) (\<lambda>_.
         bnd (statement (upd_job (tj_id job) (\<lambda>j. j\<lparr>tj_archiveBytes := 0\<rparr>))) (\<lambda>_.
         raise e)))))"

section \<open>The worker of a host\<close>

definition run_queued :: "transfer_limits \<Rightarrow> transfer_owner \<Rightarrow> string \<Rightarrow> unit op" where
  "run_queued lims owner i =
     bnd (transfer_get owner i) (\<lambda>job.
     if tj_state job \<noteq> Queued then ret () else
     bnd (query (\<lambda>w. List.find (\<lambda>j. ow_host (tj_owner j) = ow_host (tj_owner job) \<and> tj_state j = Running) (tw_jobs w))) (\<lambda>busy.
     if busy \<noteq> None \<and> map_option tj_id busy \<noteq> Some i then ret () else
     bnd (update_job i (\<lambda>now j. j\<lparr>tj_state := Running, tj_updated := now\<rparr>)) (\<lambda>_.
     if tj_direction job = Download then prepareDownload lims (job\<lparr>tj_state := Running\<rparr>) else ret ())))"

fun error_code :: "failure \<Rightarrow> string" where
  "error_code (AppError c _) = c"
| "error_code NoSpace = ''FILES_TRANSFER_DISK_FULL''"
| "error_code OtherError = ''FILES_TRANSFER_IO''"

definition worker :: "transfer_limits \<Rightarrow> transfer_owner \<Rightarrow> string \<Rightarrow> unit op" where
  "worker lims owner i =
     bnd (attempt (locked (ow_host owner) (run_queued lims owner i))) (\<lambda>outcome.
     bnd (case outcome of
            Inr _ \<Rightarrow> ret ()
          | Inl e \<Rightarrow>
              bnd (query (find_job i)) (\<lambda>found.
              case found of
                None \<Rightarrow> ret ()
              | Some job \<Rightarrow>
                  if tj_state job \<in> {Paused, Cancelled, Expired} then ret ()
                  else statement (upd_job i (\<lambda>j. j\<lparr>tj_state := Failed, tj_errorCode := error_code e\<rparr>)))) (\<lambda>_.
     atomically (\<lambda>w. (w\<lparr>tw_workers := tw_workers w - {i}\<rparr>, [Advance (ow_host owner)], ()))))"

definition transfer_body ::
    "transfer_limits \<Rightarrow> transfer_thread \<Rightarrow> (transfer_world, transfer_thread, transfer_question, transfer_answer) proc" where
  "transfer_body lims t =
     (case t of
        Worker owner i \<Rightarrow> worker lims owner i
      | Advance hostId \<Rightarrow> transfer_advance hostId
      | Discard job \<Rightarrow> locked (ow_host (tj_owner job)) (discard job)) (\<lambda>_. Done)"

section \<open>Downloading\<close>

datatype range_reply = Whole | Part int int | NotSatisfiable

definition digits :: "string \<Rightarrow> bool" where
  "digits s \<longleftrightarrow> list_all is_digit s"

text \<open>The two halves of \<open>bytes=<digits>-<digits>\<close>.\<close>

definition parse_range :: "string \<Rightarrow> (string \<times> string) option" where
  "parse_range r =
     (if \<not> starts_with r ''bytes='' then None else
      case js_split CHR ''-'' (drop 6 r) of
        [a, b] \<Rightarrow> if digits a \<and> digits b then Some (a, b) else None
      | _ \<Rightarrow> None)"

definition range_of :: "int \<Rightarrow> string \<Rightarrow> range_reply" where
  "range_of n r =
     (case parse_range r of
        None \<Rightarrow> NotSatisfiable
      | Some (a, b) \<Rightarrow>
          if a = [] \<and> b = [] then NotSatisfiable else
          let from_byte = (if a = [] then max 0 (n - int (js_number b)) else int (js_number a));
              to_byte = (if a \<noteq> [] \<and> b \<noteq> [] then min (n - 1) (int (js_number b)) else n - 1) in
          if MAX_SAFE < \<bar>from_byte\<bar> \<or> MAX_SAFE < \<bar>to_byte\<bar> \<or> to_byte < from_byte \<or> n \<le> from_byte then NotSatisfiable
          else Part from_byte to_byte)"

record transfer_response =
  re_status :: nat
  re_file :: string
  re_first :: int
  re_last :: int
  re_total :: int
  re_length :: int
  re_etag :: string

definition respond :: "string \<Rightarrow> transfer_job \<Rightarrow> int \<Rightarrow> range_reply \<Rightarrow> transfer_response" where
  "respond file job n reply =
     (case reply of
        NotSatisfiable \<Rightarrow> \<lparr>re_status = 416, re_file = [], re_first = 0, re_last = -1, re_total = n, re_length = 0, re_etag = []\<rparr>
      | Whole \<Rightarrow> \<lparr>re_status = 200, re_file = file, re_first = 0, re_last = n - 1, re_total = n, re_length = n, re_etag = tj_etag job\<rparr>
      | Part a b \<Rightarrow> \<lparr>re_status = 206, re_file = file, re_first = a, re_last = b, re_total = n, re_length = b - a + 1,
                     re_etag = tj_etag job\<rparr>)"

text \<open>A request: the header of the range and the one it is conditional on.\<close>

definition transfer_download :: "transfer_owner \<Rightarrow> string \<Rightarrow> string option \<Rightarrow> string option \<Rightarrow> transfer_response op" where
  "transfer_download owner i rng if_range =
     bnd (transfer_get owner i) (\<lambda>job.
     bnd (guard_that (tj_state job = Ready \<and> tj_direction job = Download) ''FILES_TRANSFER_NOT_READY'' 409) (\<lambda>_.
     bnd (query (\<lambda>w. map_of (tw_spool w) (tj_id job @ ''.zip''))) (\<lambda>found.
     case found of
       None \<Rightarrow> fail ''FILES_TRANSFER_EXPIRED'' 410
     | Some n \<Rightarrow>
         if n \<noteq> tj_archiveBytes job then fail ''FILES_TRANSFER_EXPIRED'' 410 else
         let reply = (if truthy rng \<and> (if_range = None \<or> if_range = Some (tj_etag job)) then range_of n (the rng) else Whole) in
         if reply = NotSatisfiable then ret (respond (tj_id job @ ''.zip'') job n reply) else
         bnd (update_job i (\<lambda>now j. j\<lparr>tj_updated := now\<rparr>)) (\<lambda>_.
         ret (respond (tj_id job @ ''.zip'') job n reply)))))"

section \<open>Every minute, and at the start\<close>

definition sweep_abandoned :: "transfer_job \<Rightarrow> unit op" where
  "sweep_abandoned job =
     bnd (is_locked (ow_host (tj_owner job))) (\<lambda>busy.
     if busy then ret () else
     bnd (statement (upd_job (tj_id job) (\<lambda>j. j\<lparr>tj_state := Paused, tj_errorCode := ''FILES_TRANSFER_TIMEOUT''\<rparr>))) (\<lambda>_.
     transfer_advance (ow_host (tj_owner job))))"

definition sweep_stale :: "transfer_job \<Rightarrow> unit op" where
  "sweep_stale job =
     bnd (query (\<lambda>w. tj_id job \<in> tw_workers w)) (\<lambda>busy.
     if busy then ret () else
     bnd (if tj_state job \<noteq> Cancelled then statement (upd_job (tj_id job) (\<lambda>j. j\<lparr>tj_state := Expired\<rparr>)) else ret ()) (\<lambda>_.
     bnd (attempt (locked (ow_host (tj_owner job))
            (bnd (discard job) (\<lambda>_. statement (delete_jobs (\<lambda>j. tj_id j = tj_id job)))))) (\<lambda>_.
     ret ())))"

definition cleanup :: "unit op" where
  "cleanup =
     bnd clock (\<lambda>now.
     bnd (query (\<lambda>w. filter (\<lambda>j. tj_direction j = Upload \<and> tj_state j = Running \<and> tj_updated j < now - 90000) (tw_jobs w))) (\<lambda>abandoned.
     bnd (for_each sweep_abandoned abandoned) (\<lambda>_.
     bnd clock (\<lambda>now'.
     bnd (query (\<lambda>w. filter (\<lambda>j. tj_updated j < now' - FILE_TRANSFER_TTL_MS) (tw_jobs w))) (\<lambda>stale.
     for_each sweep_stale stale)))))"

definition leftover :: "string \<Rightarrow> bool" where
  "leftover name \<longleftrightarrow> length name = 44 \<and> ends_with name ''.partial''
     \<and> list_all (\<lambda>c. low_hex c \<or> c = CHR ''-'') (take 36 name)"

definition initialize :: "unit op" where
  "initialize =
     bnd (atomically (\<lambda>w. (w\<lparr>tw_stopping := False\<rparr>, [], ()))) (\<lambda>_.
     bnd (ask MakeSpool) (\<lambda>a.
     bnd (result (ta_number a)) (\<lambda>_.
     bnd (statement (\<lambda>w. w\<lparr>tw_jobs := map (\<lambda>j. if tj_state j \<in> {Running, Queued}
            then j\<lparr>tj_state := Paused, tj_errorCode := ''FILES_TRANSFER_RESTARTED''\<rparr> else j) (tw_jobs w)\<rparr>)) (\<lambda>_.
     bnd (query (\<lambda>w. filter leftover (map fst (tw_spool w)))) (\<lambda>names.
     bnd (for_each unlink names) (\<lambda>_.
     cleanup))))))"

section \<open>The service\<close>

datatype transfer_request =
    List transfer_owner
  | Get transfer_owner string
  | Entries transfer_owner string
  | Create transfer_owner create_transfer
  | Manifest transfer_owner string "manifest_entry list"
  | Control transfer_owner string transfer_action
  | Reconcile transfer_owner string string
  | Decide transfer_owner string string decision
  | Chunk transfer_owner string string jsnum string string
  | Commit transfer_owner string string
  | Remove transfer_owner string
  | Download_zip transfer_owner string "string option" "string option"
  | Cleanup

definition forget :: "'r op \<Rightarrow> unit op" where
  "forget m = bnd m (\<lambda>_. ret ())"

definition request_op :: "transfer_limits \<Rightarrow> string cmp \<Rightarrow> transfer_request \<Rightarrow> unit op" where
  "request_op lims text_cmp r =
     (case r of
        List owner \<Rightarrow> forget (transfer_list owner)
      | Get owner i \<Rightarrow> forget (transfer_get owner i)
      | Entries owner i \<Rightarrow> forget (transfer_entries text_cmp owner i)
      | Create owner input \<Rightarrow> forget (transfer_create owner input)
      | Manifest owner i items \<Rightarrow> forget (transfer_manifest lims owner i items)
      | Control owner i action \<Rightarrow> forget (transfer_control owner i action)
      | Reconcile owner i e \<Rightarrow> forget (transfer_reconcile owner i e)
      | Decide owner i e action \<Rightarrow> forget (transfer_decide owner i e action)
      | Chunk owner i e offset digest data \<Rightarrow> forget (transfer_chunk lims owner i e offset digest data)
      | Commit owner i e \<Rightarrow> forget (transfer_commit owner i e)
      | Remove owner i \<Rightarrow> forget (transfer_remove owner i)
      | Download_zip owner i rng if_range \<Rightarrow> forget (transfer_download owner i rng if_range)
      | Cleanup \<Rightarrow> cleanup)"

type_synonym transfer_system = "(transfer_world, transfer_thread, transfer_question, transfer_answer) system"

text \<open>
  What may happen next: a request arrives, thread \<open>i\<close> goes on (with the answer to its question), time
  passes, the service is told to stop, or the process ends and another one starts.
\<close>

datatype transfer_event =
    Arrives transfer_request
  | Goes_on nat transfer_answer
  | Passes nat
  | Closes
  | Restarts

definition transfer_step :: "transfer_limits \<Rightarrow> string cmp \<Rightarrow> transfer_system \<Rightarrow> transfer_event \<Rightarrow> transfer_system" where
  "transfer_step lims text_cmp s ev =
     (case ev of
        Arrives r \<Rightarrow> launch (request_op lims text_cmp r (\<lambda>_. Done)) s
      | Goes_on i a \<Rightarrow> thread_step (transfer_body lims) i a s
      | Passes n \<Rightarrow> s\<lparr>world := (world s)\<lparr>tw_now := tw_now (world s) + int n\<rparr>\<rparr>
      | Closes \<Rightarrow> s\<lparr>world := (world s)\<lparr>tw_stopping := True\<rparr>\<rparr>
      | Restarts \<Rightarrow> s\<lparr>world := (world s)\<lparr>tw_workers := {}\<rparr>, threads := [({}, initialize (\<lambda>_. Done))]\<rparr>)"

definition empty_service :: transfer_system where
  "empty_service = \<lparr>world = \<lparr>tw_jobs = [], tw_entries = [], tw_spool = [], tw_workers = {}, tw_stopping = False, tw_now = 0\<rparr>,
     threads = [({}, initialize (\<lambda>_. Done))], answered = []\<rparr>"

end
