(* ===== verification/TransferFacts.thy ===== *)
theory TransferFacts
  imports Transfers
begin

text \<open>
  Which paths the agents are asked about by file transfers, and which bytes of an archive a range names.
\<close>

section \<open>Paths\<close>

text \<open>Where a path leads from a directory: \<open>None\<close> when it leaves it.\<close>

fun walk_down :: "string list \<Rightarrow> string list \<Rightarrow> string list option" where
  "walk_down here [] = Some here"
| "walk_down here (part # parts) =
     (if part = [] \<or> part = ''.'' then walk_down here parts
      else if part = ''..'' then (if here = [] then None else walk_down (butlast here) parts)
      else walk_down (here @ [part]) parts)"

definition stays_inside :: "string \<Rightarrow> bool" where
  "stays_inside path \<longleftrightarrow> length path \<le> 1024 \<and> CHR 0x5C \<notin> set path \<and> CHR 0x00 \<notin> set path \<and> CHR '':'' \<notin> set path
     \<and> (\<exists>below. walk_down [] (js_split CHR ''/'' path) = Some below \<and> below \<noteq> []
          \<and> (\<forall>part \<in> set below. part \<noteq> ''.pdmux-file-transfers'' \<and> \<not> starts_with part ''.pdmux-transfer-''))"

lemma walk_plain: "\<forall>part \<in> set parts. \<not> bad_part part \<Longrightarrow> walk_down here parts = Some (here @ parts)"
  by (induction parts arbitrary: here) (auto simp: bad_part_def)

lemma transferPath_inside:
  assumes "transferPath path False = Inr p"
  shows "stays_inside p"
proof -
  have p: "p = path" "length path \<le> 1024" "\<not> (\<exists>c \<in> set path. c = CHR 0x5C \<or> c = CHR 0x00 \<or> c = CHR '':'')"
    "\<forall>part \<in> set (js_split CHR ''/'' path). \<not> bad_part part"
    using assms by (auto simp: transferPath_def split: if_splits)
  moreover have "walk_down [] (js_split CHR ''/'' path) = Some (js_split CHR ''/'' path)"
    using walk_plain [OF p(4), of "[]"] by simp
  moreover have "js_split CHR ''/'' path \<noteq> []" by simp
  ultimately show ?thesis by (auto simp: stays_inside_def bad_part_def)
qed

definition inside_question :: "transfer_question \<Rightarrow> bool" where
  "inside_question q \<longleftrightarrow> (case q of AgentTransfer _ _ r \<Rightarrow> stays_inside (fr_path r) | _ \<Rightarrow> True)"

named_theorems asking

lemma asks_result [asking]: "only_asks P (result r)"
  by (simp add: only_asks_def result_def)

lemma asks_basic [asking]:
  "only_asks P (fail c n)" "only_asks P (guard_that b c n)" "only_asks P clock" "only_asks P (update_job i f)"
  "only_asks P (find_or_fail x)"
  by (auto simp: fail_def guard_that_def clock_def update_job_def find_or_fail_def intro!: only_asks_intros split: option.split)

lemma asks_agent:
  assumes "\<And>r. fr_path (extra r) = fr_path r"
  shows "only_asks inside_question (ask_agent job entry action extra)"
proof (cases "destination job (te_path entry)")
  case (Inl e)
  then show ?thesis by (simp add: only_asks_def ask_agent_def bnd_def result_def)
next
  case (Inr path)
  then have "stays_inside path" by (auto simp: destination_def intro: transferPath_inside)
  then have "only_asks inside_question (ask (AgentTransfer o' h (extra (request_of job entry action path))))" for o' h
    by (intro only_asks_intros(6)) (simp add: inside_question_def assms request_of_def)
  then have "only_asks inside_question
      (bnd (ask (AgentTransfer o' h (extra (request_of job entry action path)))) (\<lambda>a. result (ta_agent a)))" for o' h
    by (rule only_asks_intros(9)) (rule asking)
  then show ?thesis using Inr by (simp add: only_asks_def ask_agent_def bnd_def result_def)
qed

lemma asks_outside [asking]:
  "only_asks inside_question (ask (HostGet x y))" "only_asks inside_question (ask RandomUUID)"
  "only_asks inside_question (ask DiskFree)" "only_asks inside_question (ask MakeSpool)"
  "only_asks inside_question (ask (ZipEntry n))" "only_asks inside_question (ask (ZipFinish n))"
  "only_asks inside_question (ask (ZipDigest n))" "only_asks inside_question (ask (RenameFile n m))"
  "only_asks inside_question (ask (UnlinkFile n))"
  by (auto intro!: only_asks_intros simp: inside_question_def)

lemma asks_agent_plain [asking]:
  "only_asks inside_question (ask_agent job entry action id)"
  "only_asks inside_question (ask_agent job entry action (\<lambda>r. r\<lparr>fr_offset := n\<rparr>))"
  "only_asks inside_question (ask_agent job entry action (\<lambda>r. r\<lparr>fr_offset := n, fr_digest := d, fr_data := x\<rparr>))"
  "only_asks inside_question (ask_agent job entry action (\<lambda>r. r\<lparr>fr_digest := d, fr_replace := b\<rparr>))"
  by (auto intro!: asks_agent)

lemmas ask_rules = only_asks_intros(1-5,7-10) only_asks_spawn only_asks_for_each

lemma asks_get [asking]: "only_asks inside_question (transfer_get owner i)"
  unfolding transfer_get_def authorize_def by (auto intro!: ask_rules asking)

lemma asks_unlink [asking]: "only_asks inside_question (unlink name)"
  unfolding unlink_def by (auto intro!: ask_rules asking)

lemma asks_discard [asking]: "only_asks inside_question (discard job)"
  unfolding discard_def by (auto intro!: ask_rules asking)

lemma asks_schedule [asking]: "only_asks P (schedule owner i)"
  unfolding schedule_def by (rule ask_rules)

lemma asks_advance [asking]: "only_asks inside_question (transfer_advance h)"
  unfolding transfer_advance_def by (auto intro!: ask_rules asking split: list.split)

lemma asks_progress [asking]: "only_asks inside_question (progress i p)"
  unfolding progress_def by (auto intro!: ask_rules asking split: option.split)

lemma asks_active [asking]: "only_asks inside_question (transfer_active owner i e)"
  unfolding transfer_active_def by (auto intro!: ask_rules asking)

lemma asks_save_progress [asking]: "only_asks inside_question (save_progress i e)"
  unfolding save_progress_def by (auto intro!: ask_rules asking)

lemma asks_checkpoint [asking]: "only_asks inside_question (checkpoint job)"
  unfolding checkpoint_def by (auto intro!: ask_rules asking split: prod.split)

lemma asks_uploads [asking]:
  "only_asks inside_question (transfer_reconcile owner i e)"
  "only_asks inside_question (transfer_decide owner i e action)"
  "only_asks inside_question (transfer_chunk lims owner i e offset digest data)"
  "only_asks inside_question (transfer_commit owner i e)"
  unfolding transfer_reconcile_def transfer_decide_def transfer_chunk_def transfer_commit_def Let_def
  by (auto intro!: ask_rules asking split: prod.split option.split)
lemma asks_children:
  assumes "\<And>c s. only_asks inside_question (visit c s)"
  shows "only_asks inside_question (scan_children visit job relative cs st)"
proof (induction cs arbitrary: st)
  case (Cons c cs)
  then show ?case using assms by (auto simp: Let_def intro!: ask_rules asking)
qed (auto intro: ask_rules)

lemma asks_pages:
  assumes "\<And>c s. only_asks inside_question (visit c s)"
  shows "only_asks inside_question (scan_pages visit job entry offset st)"
  using assms
proof (induction visit job entry offset st rule: scan_pages.induct)
  case (1 visit job entry offset st)
  then show ?case
    by (subst scan_pages.simps) (auto intro!: ask_rules asking asks_children split: option.split)
qed

lemma asks_visit [asking]: "only_asks inside_question (scan_visit lims job relative st)"
proof (induction relative st rule: longer_paths_induct)
  case (1 relative st)
  have pages: "only_asks inside_question (scan_pages (scan_visit lims job) job entry 0 s)"
    if "length relative \<le> 1024" "te_path entry = relative" for entry s
    by (subst scan_pages_below, rule asks_pages) (use 1 that in \<open>auto intro: ask_rules\<close>)
  show ?case
    by (subst scan_visit.simps) (auto simp: Let_def found_entry_path dest!: transferPath_Inr
        intro!: ask_rules asking pages split: sum.split list.split)
qed

lemma asks_selection [asking]: "only_asks inside_question (scan_selection lims job paths st)"
proof -
  have "only_asks inside_question (foldl (\<lambda>m path. bnd m (scan_visit lims job path)) m paths)"
    if "only_asks inside_question m" for m :: "scan_state op"
    using that by (induction paths arbitrary: m) (auto intro!: ask_rules asking)
  then show ?thesis by (simp add: scan_selection_def ask_rules)
qed

lemma asks_read [asking]: "only_asks inside_question (readEntry job entry offset)"
proof (induction job entry offset rule: readEntry.induct)
  case (1 job entry offset)
  then show ?case by (subst readEntry.simps) (auto simp: Let_def intro!: ask_rules asking)
qed

lemma asks_archive [asking]:
  "only_asks inside_question (scan_files lims job)"
  "only_asks inside_question (reserve_spool lims job n)"
  "only_asks inside_question (add_to_archive job entry)"
  unfolding scan_files_def reserve_spool_def add_to_archive_def by (auto intro!: ask_rules asking)

lemma asks_write_archive [asking]: "only_asks inside_question (write_archive job n entries)"
  unfolding write_archive_def Let_def by (auto intro!: ask_rules asking)

lemma asks_worker [asking]: "only_asks inside_question (worker lims owner i)"
  unfolding worker_def run_queued_def prepareDownload_def
  by (auto intro!: ask_rules asking split: sum.split option.split)

lemma asks_sweeps [asking]: "only_asks inside_question cleanup"
  unfolding cleanup_def sweep_abandoned_def sweep_stale_def by (auto intro!: ask_rules asking)

lemma asks_initialize [asking]: "only_asks inside_question initialize"
  unfolding initialize_def by (auto intro!: ask_rules asking)

lemma asks_requests [asking]:
  "only_asks inside_question (transfer_list owner)"
  "only_asks inside_question (transfer_entries text_cmp owner i)"
  "only_asks inside_question (transfer_create owner input)"
  "only_asks inside_question (transfer_manifest lims owner i items)"
  "only_asks inside_question (transfer_control owner i action)"
  "only_asks inside_question (transfer_remove owner i)"
  "only_asks inside_question (transfer_download owner i r c)"
  unfolding transfer_list_def transfer_entries_def transfer_create_def transfer_manifest_def transfer_control_def
    transfer_remove_def transfer_download_def authorize_def Let_def
  by (auto intro!: ask_rules asking split: option.split)

lemma asks_request: "only_asks inside_question (request_op lims text_cmp r)"
  unfolding request_op_def forget_def by (auto intro!: ask_rules asking split: transfer_request.split)

lemma asks_body: "asks inside_question (transfer_body lims t)"
  unfolding transfer_body_def by (rule only_asks_run) (auto intro!: ask_rules asking split: transfer_thread.split)

interpretation asking_service: invariant_machine "transfer_step lims text_cmp" "pool_asks inside_question" for lims text_cmp
proof
  fix s :: transfer_system and e
  assume s: "pool_asks inside_question s"
  show "pool_asks inside_question (transfer_step lims text_cmp s e)"
  proof (cases e)
    case (Arrives r)
    then show ?thesis
      using pool_asks_launch [OF s only_asks_run [OF asks_request]] by (simp add: transfer_step_def)
  next
    case (Goes_on i a)
    then show ?thesis using pool_asks_step [OF s asks_body] by (simp add: transfer_step_def)
  qed (use s only_asks_run [OF asks_initialize] in \<open>auto simp: transfer_step_def pool_asks_def\<close>)
qed

text \<open>
  C21 (\<open>agents_stay_in_their_directory\<close>): whatever browsers ask for, agents answer and when, every
  request an agent gets names a path that stays below the directory it serves, on every system it may
  run on, and never names its staging files.
\<close>
theorem agents_stay_in_their_directory:
  "list_all (\<lambda>(q, a). case q of AgentTransfer org host r \<Rightarrow> stays_inside (fr_path r) | _ \<Rightarrow> True)
     (answered (run (transfer_step lims text_cmp) empty_service evs))"
proof -
  have "pool_asks inside_question empty_service"
    using only_asks_run [OF asks_initialize] by (simp add: pool_asks_def empty_service_def)
  from asking_service.run_inv [OF this, of lims text_cmp evs]
  have "inside_question (fst x)" if "x \<in> set (answered (run (transfer_step lims text_cmp) empty_service evs))" for x
    using that by (simp add: pool_asks_def)
  then show ?thesis by (fastforce simp: inside_question_def list_all_iff split: transfer_question.split)
qed

section \<open>Ranges\<close>

text \<open>
  C40 (\<open>a_range_lies_in_the_archive\<close>): whatever range a browser asks an archive for, the answer names
  bytes the archive has, at least one, at most what was asked for from where it was asked, or says that it cannot.
\<close>
theorem a_range_lies_in_the_archive:
  assumes "range_of n r = Part from_byte to_byte"
  shows "0 \<le> from_byte \<and> from_byte \<le> to_byte \<and> to_byte < n \<and> re_length (respond file job n (range_of n r)) = to_byte - from_byte + 1
    \<and> (\<exists>a b. parse_range r = Some (a, b) \<and> (a \<noteq> [] \<longrightarrow> from_byte = int (js_number a) \<and> (b \<noteq> [] \<longrightarrow> to_byte \<le> int (js_number b)))
        \<and> (a = [] \<longrightarrow> to_byte = n - 1 \<and> to_byte - from_byte + 1 = min n (int (js_number b))))"
proof -
  obtain a b where p: "parse_range r = Some (a, b)" using assms by (auto simp: range_of_def split: option.splits)
  show ?thesis using assms unfolding range_of_def p by (auto simp: Let_def respond_def range_of_def p split: if_splits)
qed

lemma a_range_lies_in_the_archive_witness:
  "range_of 10 ''bytes=-3'' = Part 7 9 \<and> (\<forall>file job. re_length (respond file job 10 (range_of 10 ''bytes=-3'')) = 3)"
proof -
  have "range_of 10 ''bytes=-3'' = Part 7 9"
    by (simp add: range_of_def parse_range_def digits_def is_digit_def starts_with_def js_number_def nat_of_str_def digit_val_def
        dbl_exact MAX_SAFE_def Let_def)
  then show ?thesis using a_range_lies_in_the_archive [of 10 "''bytes=-3''" 7 9] by simp
qed

end
