(* ===== verification/TransferRuns.thy ===== *)
theory TransferRuns
  imports Transfers
begin

text \<open>
  What holds of file transfers however requests, workers, agents, sweeps and restarts interleave: a
  host runs one transfer at a time, and a file counts as stored only after its agent said so. And one
  thing that does not hold: a pause that was granted may be lost.
\<close>

section \<open>One transfer at a time\<close>

definition running :: "string \<Rightarrow> transfer_world \<Rightarrow> string set" where
  "running h w = tj_id ` {j \<in> set (tw_jobs w). ow_host (tj_owner j) = h \<and> tj_state j = Running}"

text \<open>The agent of the host of its transfer said that it has the entry, in answer to a question about it.\<close>

definition acknowledged :: "(string \<Rightarrow> string) \<Rightarrow> (transfer_question \<times> transfer_answer) list \<Rightarrow> transfer_entry \<Rightarrow> bool" where
  "acknowledged home l e \<longleftrightarrow> (\<exists>org r a res. (AgentTransfer org (home (te_transferId e)) r, a) \<in> set l \<and> fr_transferId r = te_transferId e
     \<and> fr_entryId r = te_id e \<and> fr_action r \<in> {FsStat, FsMkdir, FsCommit} \<and> ta_agent a = Inr res \<and> fs_committed res)"

definition transfers_ok ::
    "(string \<Rightarrow> string) \<Rightarrow> transfer_world \<Rightarrow> (transfer_question \<times> transfer_answer) list \<Rightarrow> bool" where
  "transfers_ok home w l \<longleftrightarrow> distinct (map tj_id (tw_jobs w))
     \<and> (\<forall>j \<in> set (tw_jobs w). ow_host (tj_owner j) = home (tj_id j))
     \<and> (\<forall>h. \<forall>i \<in> running h w. \<forall>i' \<in> running h w. i = i')
     \<and> (\<forall>e \<in> set (tw_entries w). te_state e = Committed \<longrightarrow> acknowledged home l e)"

text \<open>Only the holder of the lock of a host sets one of its transfers running.\<close>

definition starts_locked :: "string set \<Rightarrow> transfer_world \<Rightarrow> transfer_world \<Rightarrow> bool" where
  "starts_locked own w w' \<longleftrightarrow> (\<forall>h. h \<notin> own \<longrightarrow> running h w' \<subseteq> running h w)"

lemma acknowledgedI:
  assumes "(AgentTransfer org (home (te_transferId e)) r, a) \<in> set l" and "fr_transferId r = te_transferId e" and "fr_entryId r = te_id e"
    and "fr_action r \<in> {FsStat, FsMkdir, FsCommit}" and "ta_agent a = Inr res" and "fs_committed res"
  shows "acknowledged home l e"
  unfolding acknowledged_def using assms by blast

lemma acknowledged_more: "acknowledged home l e \<Longrightarrow> acknowledged home (x # l) e"
  unfolding acknowledged_def by (meson list.set_intros(2))

lemma starts_locked_refl: "starts_locked own w w"
  by (simp add: starts_locked_def)

lemma transfers_ok_more: "transfers_ok home w l \<Longrightarrow> transfers_ok home w (x # l)"
  using acknowledged_more unfolding transfers_ok_def by blast

lemma transfers_okI:
  assumes "distinct (map tj_id (tw_jobs w))" and "\<And>j. j \<in> set (tw_jobs w) \<Longrightarrow> ow_host (tj_owner j) = home (tj_id j)"
    and "\<And>h i i'. i \<in> running h w \<Longrightarrow> i' \<in> running h w \<Longrightarrow> i = i'"
    and "\<And>e. e \<in> set (tw_entries w) \<Longrightarrow> te_state e = Committed \<Longrightarrow> acknowledged home l e"
  shows "transfers_ok home w l"
  unfolding transfers_ok_def using assms by blast

lemma transfers_okD:
  assumes "transfers_ok home w l"
  shows "distinct (map tj_id (tw_jobs w))" and "j \<in> set (tw_jobs w) \<Longrightarrow> ow_host (tj_owner j) = home (tj_id j)"
    and "i \<in> running h w \<Longrightarrow> i' \<in> running h w \<Longrightarrow> i = i'"
    and "e \<in> set (tw_entries w) \<Longrightarrow> te_state e = Committed \<Longrightarrow> acknowledged home l e"
  using assms unfolding transfers_ok_def by blast+

text \<open>A statement that neither adds a job nor sets one running, and stores no entry without its word.\<close>

definition tame :: "(transfer_job \<Rightarrow> transfer_job) \<Rightarrow> bool" where
  "tame f \<longleftrightarrow> (\<forall>j. tj_id (f j) = tj_id j \<and> tj_owner (f j) = tj_owner j \<and> (tj_state (f j) = Running \<longrightarrow> tj_state j = Running))"

definition harmless :: "transfer_world \<Rightarrow> transfer_world \<Rightarrow> bool" where
  "harmless w w' \<longleftrightarrow> (\<exists>f. tame f \<and> tw_jobs w' = map f (tw_jobs w)) \<and> tw_entries w' = tw_entries w"

lemma running_map:
  assumes "tame f" and "tw_jobs w' = map f (tw_jobs w)"
  shows "running h w' \<subseteq> running h w"
  using assms by (auto simp: running_def tame_def)

lemma ok_fewer:
  assumes "transfers_ok home w l" and "\<And>h. running h w' \<subseteq> running h w" and "distinct (map tj_id (tw_jobs w'))"
    and "\<And>j. j \<in> set (tw_jobs w') \<Longrightarrow> ow_host (tj_owner j) = home (tj_id j)"
    and "\<And>e. e \<in> set (tw_entries w') \<Longrightarrow> te_state e = Committed \<Longrightarrow> acknowledged home l e"
  shows "transfers_ok home w' l \<and> starts_locked own w w'"
proof -
  have "i = i'" if "i \<in> running h w'" "i' \<in> running h w'" for h i i'
  proof -
    have "i \<in> running h w" "i' \<in> running h w" using assms(2) that by blast+
    then show ?thesis using assms(1) unfolding transfers_ok_def by blast
  qed
  then show ?thesis using assms(2-5) by (auto simp: transfers_ok_def starts_locked_def)
qed

lemma harmless_ok:
  assumes "transfers_ok home w l" and "harmless w w'"
  shows "transfers_ok home w' l \<and> starts_locked own w w'"
proof -
  obtain f where f: "tame f" "tw_jobs w' = map f (tw_jobs w)" "tw_entries w' = tw_entries w"
    using assms(2) by (auto simp: harmless_def)
  then have "map tj_id (tw_jobs w') = map tj_id (tw_jobs w)" by (auto simp: tame_def)
  moreover have "ow_host (tj_owner j) = home (tj_id j)" if "j \<in> set (tw_jobs w')" for j
    using that f(1,2) assms(1) by (auto simp: tame_def transfers_ok_def)
  moreover have "acknowledged home l e" if "e \<in> set (tw_entries w')" "te_state e = Committed" for e
    using that f(3) assms(1) by (auto simp: transfers_ok_def)
  ultimately show ?thesis
    using assms(1) by (intro ok_fewer [OF assms(1) running_map [OF f(1,2)]]) (auto simp: transfers_ok_def)
qed

lemma harmless_upd: "tame f \<Longrightarrow> harmless w (upd_job i f w)"
  unfolding harmless_def upd_job_def by (intro conjI exI [of _ "\<lambda>j. if tj_id j = i then f j else j"]) (auto simp: tame_def)

lemma harmless_same: "tw_jobs w' = tw_jobs w \<Longrightarrow> tw_entries w' = tw_entries w \<Longrightarrow> harmless w w'"
  unfolding harmless_def by (intro conjI exI [of _ "\<lambda>j. j"]) (auto simp: tame_def)

abbreviation plainly :: "(string \<Rightarrow> string) \<Rightarrow> string set \<Rightarrow> 'r op \<Rightarrow> bool" where
  "plainly home own m \<equiv> plain (transfers_ok home) starts_locked own m"

named_theorems plain_rules

lemma plain_basic [plain_rules]:
  "plainly home own (ret y)" "plainly home own (raise e)" "plainly home own (query r)" "plainly home own (is_locked key)"
  "plainly home own (spawn t)" "plainly home own (ask q)" "plainly home own (result x)"
  "plainly home own m \<Longrightarrow> plainly home own (attempt m)"
  "plainly home (insert key own) m \<Longrightarrow> plainly home own (locked key m)"
  "plainly home own m \<Longrightarrow> (\<And>x. plainly home own (g x)) \<Longrightarrow> plainly home own (bnd m g)"
  "(\<And>x. x \<in> set xs \<Longrightarrow> plainly home own (n x)) \<Longrightarrow> plainly home own (for_each n xs)"
  by (rule does_ret does_raise does_query does_is_locked does_spawn does_ask does_attempt does_locked does_bnd does_for_each
      stable_True TrueI conjI starts_locked_refl | assumption | simp add: does_def result_def)+

lemma plain_harmless [plain_rules]:
  assumes "\<And>w. harmless w (f w)"
  shows "plainly home own (statement f)"
proof (rule does_statement [OF stable_True])
  fix w :: transfer_world and l :: "(transfer_question \<times> transfer_answer) list"
  assume "transfers_ok home w l"
  from harmless_ok [OF this assms, of own]
  show "transfers_ok home (f w) l \<and> starts_locked own w (f w) \<and> True" by simp
qed

lemma plain_memory [plain_rules]:
  assumes "\<And>w. harmless w (fst (f w))"
  shows "plainly home own (atomically f)"
proof (rule does_atomically [OF stable_True])
  fix w :: transfer_world and l :: "(transfer_question \<times> transfer_answer) list"
  assume "transfers_ok home w l"
  from harmless_ok [OF this assms, of own]
  show "transfers_ok home (fst (f w)) l \<and> starts_locked own w (fst (f w)) \<and> True" by simp
qed

lemma tame_intros [plain_rules]:
  "(\<And>j. tj_id (f j) = tj_id j \<and> tj_owner (f j) = tj_owner j \<and> (tj_state (f j) = Running \<longrightarrow> tj_state j = Running)) \<Longrightarrow> tame f"
  by (simp add: tame_def)

lemma plain_ends [plain_rules]:
  "plainly home own (fail c n)" "plainly home own (guard_that b c n)" "plainly home own clock"
  "plainly home own (find_or_fail x)"
  by (auto simp: fail_def guard_that_def clock_def find_or_fail_def intro!: plain_rules split: option.split)

lemma plain_upd [plain_rules]: "tame f \<Longrightarrow> plainly home own (statement (upd_job i f))"
  by (rule plain_harmless) (rule harmless_upd)

lemma plain_update [plain_rules]: "(\<And>now. tame (f now)) \<Longrightarrow> plainly home own (update_job i f)"
  unfolding update_job_def by (rule plain_basic(10)) (auto intro: plain_ends plain_upd)

lemma plain_filtered [plain_rules]:
  assumes "\<And>w. tw_jobs (f w) = filter (P w) (tw_jobs w)" and "\<And>w. set (tw_entries (f w)) \<subseteq> set (tw_entries w)"
  shows "plainly home own (statement f)"
proof (rule does_statement [OF stable_True])
  fix w :: transfer_world and l :: "(transfer_question \<times> transfer_answer) list"
  assume ok: "transfers_ok home w l"
  have "transfers_ok home (f w) l \<and> starts_locked own w (f w)"
  proof (rule ok_fewer [OF ok])
    fix e
    assume "e \<in> set (tw_entries (f w))" "te_state e = Committed"
    then show "acknowledged home l e" using ok assms(2) unfolding transfers_ok_def by blast
  next
    show "running h (f w) \<subseteq> running h w" for h by (auto simp: assms(1) running_def)
  next
    show "distinct (map tj_id (tw_jobs (f w)))" using ok by (simp add: assms(1) transfers_ok_def distinct_map_filter)
  next
    show "ow_host (tj_owner j) = home (tj_id j)" if "j \<in> set (tw_jobs (f w))" for j
      using ok that by (simp add: assms(1) transfers_ok_def)
  qed
  then show "transfers_ok home (f w) l \<and> starts_locked own w (f w) \<and> True" by simp
qed

lemma plain_deletes [plain_rules]:
  "plainly home own (statement (delete_entries i))" "plainly home own (statement (delete_jobs P))"
  by (rule plain_filtered [where P = "\<lambda>_ _. True"] plain_filtered [where P = "\<lambda>_ j. \<not> P j"];
      auto simp: delete_entries_def delete_jobs_def)+

text \<open>A row of an entry that does not claim to be stored may always be written.\<close>

lemma entry_saved:
  assumes "transfers_ok home w l" and "te_state entry = Committed \<Longrightarrow> acknowledged home l entry"
  shows "transfers_ok home (save_entry entry w) l \<and> starts_locked own w (save_entry entry w)"
proof (rule ok_fewer [OF assms(1)])
  have same: "tw_jobs (save_entry entry w) = tw_jobs w" by (simp add: save_entry_def)
  then show "running h (save_entry entry w) \<subseteq> running h w" for h by (simp add: running_def)
  show "distinct (map tj_id (tw_jobs (save_entry entry w)))" using assms(1) same by (simp add: transfers_ok_def)
  show "ow_host (tj_owner j) = home (tj_id j)" if "j \<in> set (tw_jobs (save_entry entry w))" for j
    using assms(1) that same by (simp add: transfers_ok_def)
next
  fix e
  assume e: "e \<in> set (tw_entries (save_entry entry w))" "te_state e = Committed"
  then have "e = entry \<or> e \<in> set (tw_entries w)" by (auto simp: save_entry_def split: if_splits)
  then show "acknowledged home l e" using e(2) assms by (auto simp: transfers_ok_def)
qed

lemma plain_save_entry [plain_rules]: "te_state entry \<noteq> Committed \<Longrightarrow> plainly home own (statement (save_entry entry))"
  by (rule does_statement [OF stable_True]) (use entry_saved in blast)

lemma plain_get [plain_rules]: "plainly home own (transfer_get owner i)"
  unfolding transfer_get_def authorize_def by (auto intro!: plain_rules)

lemma plain_unlink [plain_rules]: "plainly home own (unlink name)"
  unfolding unlink_def by (auto intro!: plain_rules harmless_same simp: spool_remove_def)

lemma plain_agent [plain_rules]: "plainly home own (ask_agent job entry action extra)"
  unfolding ask_agent_def by (auto intro!: plain_rules)

lemma plain_discard [plain_rules]: "plainly home own (discard job)"
  unfolding discard_def by (auto intro!: plain_rules)

lemma plain_schedule [plain_rules]: "plainly home own (schedule owner i)"
  unfolding schedule_def by (auto intro!: plain_rules harmless_same)

lemma plain_advance [plain_rules]: "plainly home own (transfer_advance h)"
  unfolding transfer_advance_def by (auto intro!: plain_rules split: list.split)

lemma plain_progress [plain_rules]: "plainly home own (progress i p)"
  unfolding progress_def by (auto intro!: plain_rules split: option.split)

section \<open>What a stretch knows\<close>

abbreviation doing where
  "doing home \<equiv> does (transfers_ok home) starts_locked"

text \<open>An operation whose result satisfies \<open>K\<close>.\<close>

abbreviation gives :: "(string \<Rightarrow> string) \<Rightarrow> string set \<Rightarrow> 'r op \<Rightarrow> ('r \<Rightarrow> bool) \<Rightarrow> bool" where
  "gives home own m K \<equiv> doing home own nothing m (\<lambda>r _ _. \<forall>x. r = Inr x \<longrightarrow> K x)"

lemma gives_bnd:
  assumes "gives home own m K" and "\<And>x. K x \<Longrightarrow> doing home own nothing (g x) Q" and "\<And>e w l. Q (Inl e) w l"
  shows "doing home own nothing (bnd m g) Q"
proof (rule does_bnd [OF assms(1)])
  fix x
  show "doing home own (\<lambda>_ _. \<forall>y. Inr x = Inr y \<longrightarrow> K y) (g x) Q" by (rule does_const) (rule assms(2), simp)
qed (rule assms(3))

lemma plain_gives: "plainly home own m \<Longrightarrow> gives home own m (\<lambda>_. True)"
  by (erule does_weaken) simp_all

lemma gives_then:
  assumes "plainly home own m" and "\<And>x. doing home own nothing (g x) Q" and "\<And>e w l. Q (Inl e) w l"
  shows "doing home own nothing (bnd m g) Q"
  by (rule gives_bnd [OF plain_gives [OF assms(1)]]) (use assms(2,3) in auto)

lemma gives_ret: "K x \<Longrightarrow> gives home own (ret x) K"
  by (rule does_ret) simp

lemma gives_raise: "gives home own (raise e) K"
  by (rule does_raise) simp

lemma gives_fail: "gives home own (fail c n) K"
  unfolding fail_def by (rule gives_raise)

lemma gives_query:
  assumes "\<And>w l. transfers_ok home w l \<Longrightarrow> K (g w)"
  shows "gives home own (query g) K"
proof (rule does_query)
  fix w :: transfer_world and l :: "(transfer_question \<times> transfer_answer) list"
  assume "transfers_ok home w l"
  with assms have "K (g w)" by blast
  then show "(\<forall>x. Inr (g w) = (Inr x :: failure + _) \<longrightarrow> K x) \<and> starts_locked own w w" by (simp add: starts_locked_refl)
qed (rule stable_const)

lemma get_gives: "gives home own (transfer_get owner i) (\<lambda>job. tj_id job = i \<and> tj_owner job = owner \<and> home i = ow_host owner)"
proof -
  let ?K = "\<lambda>job. tj_id job = i \<and> tj_owner job = owner \<and> home i = ow_host owner"
  have found: "gives home own (query (\<lambda>w. List.find (\<lambda>j. tj_id j = i \<and> tj_owner j = owner) (tw_jobs w)))
      (\<lambda>found. \<forall>job. found = Some job \<longrightarrow> ?K job)"
  proof (rule gives_query, intro allI impI)
    fix w :: transfer_world and l :: "(transfer_question \<times> transfer_answer) list" and job
    assume ok: "transfers_ok home w l" and "List.find (\<lambda>j. tj_id j = i \<and> tj_owner j = owner) (tw_jobs w) = Some job"
    from find_Some_in [OF this(2)] ok show "?K job" by (auto simp: transfers_ok_def)
  qed
  have known: "gives home own (find_or_fail found) ?K" if "\<forall>job. found = Some job \<longrightarrow> ?K job" for found
    using that by (auto simp: find_or_fail_def intro!: gives_ret gives_fail split: option.split)
  have late: "gives home own (bnd clock (\<lambda>now.
      if \<not> closed (tj_state job) \<and> FILE_TRANSFER_TTL_MS \<le> now - tj_updated job
      then bnd (statement (upd_job i (\<lambda>j. j\<lparr>tj_state := Expired\<rparr>))) (\<lambda>_. ret (job\<lparr>tj_state := Expired\<rparr>))
      else ret job)) ?K" if "?K job" for job
    using that by (auto intro!: gives_then gives_ret plain_rules)
  have "gives home own (bnd (authorize owner) (\<lambda>_.
      bnd (query (\<lambda>w. List.find (\<lambda>j. tj_id j = i \<and> tj_owner j = owner) (tw_jobs w))) (\<lambda>found.
      bnd (find_or_fail found) (\<lambda>job.
      bnd clock (\<lambda>now.
      if \<not> closed (tj_state job) \<and> FILE_TRANSFER_TTL_MS \<le> now - tj_updated job
      then bnd (statement (upd_job i (\<lambda>j. j\<lparr>tj_state := Expired\<rparr>))) (\<lambda>_. ret (job\<lparr>tj_state := Expired\<rparr>))
      else ret job))))) ?K"
  proof (rule gives_then)
    show "plainly home own (authorize owner)" unfolding authorize_def by (auto intro!: plain_rules)
  next
    show "gives home own (bnd (query (\<lambda>w. List.find (\<lambda>j. tj_id j = i \<and> tj_owner j = owner) (tw_jobs w))) (\<lambda>found.
      bnd (find_or_fail found) (\<lambda>job.
      bnd clock (\<lambda>now.
      if \<not> closed (tj_state job) \<and> FILE_TRANSFER_TTL_MS \<le> now - tj_updated job
      then bnd (statement (upd_job i (\<lambda>j. j\<lparr>tj_state := Expired\<rparr>))) (\<lambda>_. ret (job\<lparr>tj_state := Expired\<rparr>))
      else ret job)))) ?K"
      by (rule gives_bnd [OF found], rule gives_bnd [OF known], assumption, rule late, simp_all)
  qed simp
  then show ?thesis unfolding transfer_get_def by (auto intro: gives_fail)
qed

section \<open>The worker\<close>

text \<open>With the lock of the host held, nobody else sets one of its transfers running.\<close>

lemma stable_running: "h \<in> own \<Longrightarrow> stable (transfers_ok home) starts_locked own (\<lambda>w l. running h w \<subseteq> {i})"
proof (rule stableI)
  fix w w' l other
  assume "h \<in> own" "running h w \<subseteq> {i}" "own \<inter> other = {}" "starts_locked other w w'"
  moreover from this have "h \<notin> other" by blast
  ultimately show "running h w' \<subseteq> {i}" unfolding starts_locked_def by blast
qed

lemma starts_running:
  assumes "transfers_ok home w l" and "running (home i) w \<subseteq> {i}" and "home i \<in> own"
    and "\<And>j. tj_id (f j) = tj_id j \<and> tj_owner (f j) = tj_owner j"
  shows "transfers_ok home (upd_job i f w) l \<and> starts_locked own w (upd_job i f w)"
proof -
  let ?g = "\<lambda>j. if tj_id j = i then f j else j"
  have run: "running h (upd_job i f w) \<subseteq> (if h = home i then {i} else running h w)" for h
  proof
    fix k
    assume "k \<in> running h (upd_job i f w)"
    then obtain j where j: "j \<in> set (tw_jobs w)" "k = tj_id j" "ow_host (tj_owner j) = h" "tj_id j \<noteq> i \<Longrightarrow> tj_state j = Running"
      using assms(4) by (auto simp: running_def upd_job_def split: if_splits)
    have h: "h = home (tj_id j)" using j assms(1) by (simp add: transfers_ok_def)
    show "k \<in> (if h = home i then {i} else running h w)"
    proof (cases "tj_id j = i")
      case False
      then have "k \<in> running h w" using j by (auto simp: running_def)
      then show ?thesis using assms(2) by auto
    qed (use h j in simp)
  qed
  have one: "i1 = i2" if "i1 \<in> running h (upd_job i f w)" "i2 \<in> running h (upd_job i f w)" for h i1 i2
  proof (cases "h = home i")
    case True
    then show ?thesis using run [of h] that by auto
  next
    case False
    then have "i1 \<in> running h w" "i2 \<in> running h w" using run [of h] that by auto
    then show ?thesis using assms(1) unfolding transfers_ok_def by blast
  qed
  have "map tj_id (tw_jobs (upd_job i f w)) = map tj_id (tw_jobs w)" using assms(4) by (auto simp: upd_job_def)
  then have ids: "distinct (map tj_id (tw_jobs (upd_job i f w)))" using assms(1) by (simp add: transfers_ok_def)
  have hosts: "ow_host (tj_owner j) = home (tj_id j)" if "j \<in> set (tw_jobs (upd_job i f w))" for j
    using that assms(1,4) by (auto simp: upd_job_def transfers_ok_def split: if_splits)
  have "tw_entries (upd_job i f w) = tw_entries w" by (simp add: upd_job_def)
  then have acks: "acknowledged home l e" if "e \<in> set (tw_entries (upd_job i f w))" "te_state e = Committed" for e
    using that assms(1) by (simp add: transfers_ok_def)
  have "transfers_ok home (upd_job i f w) l"
    by (rule transfers_okI) (fact ids, erule hosts, erule (1) one, erule (1) acks)
  moreover have "starts_locked own w (upd_job i f w)"
    unfolding starts_locked_def using run assms(3) by metis
  ultimately show ?thesis by blast
qed

lemma plain_checkpoint [plain_rules]: "plainly home own (checkpoint job)"
  unfolding checkpoint_def by (auto intro!: plain_rules split: prod.split)

lemma plain_read [plain_rules]: "plainly home own (readEntry job entry offset)"
proof (induction job entry offset rule: readEntry.induct)
  case (1 job entry offset)
  then show ?case by (subst readEntry.simps) (auto simp: Let_def intro!: plain_rules)
qed

lemma plain_spool [plain_rules]:
  "plainly home own (statement (spool_put name n))" "plainly home own (statement (spool_remove name))"
  "plainly home own (statement (\<lambda>w. spool_put name n (spool_remove name' w)))"
  by (auto intro!: plain_harmless harmless_same simp: spool_put_def spool_remove_def)

lemma plain_archive [plain_rules]:
  "plainly home own (reserve_spool lims job n)"
  "plainly home own (add_to_archive job entry)"
  unfolding reserve_spool_def add_to_archive_def by (auto intro!: plain_rules)

lemma plain_publish [plain_rules]:
  "plainly home own (atomically (\<lambda>w. (upd_job i (\<lambda>j. if tj_state j = Running
      then j\<lparr>tj_state := Ready, tj_archiveBytes := n, tj_etag := d, tj_updated := now\<rparr> else j) w, [], P w)))"
  by (rule plain_memory) (auto intro!: harmless_upd tame_intros split: if_splits)

lemma plain_write_archive [plain_rules]: "plainly home own (write_archive job n entries)"
  unfolding write_archive_def Let_def by (auto intro!: plain_rules)

section \<open>The entries a scan finds are not stored yet\<close>

definition pending_only :: "scan_state \<Rightarrow> bool" where
  "pending_only st \<longleftrightarrow> (\<forall>e \<in> set (sc_entries st). te_state e = Pending)"

lemma children_pending:
  assumes "\<And>c s. pending_only s \<Longrightarrow> gives home own (visit c s) pending_only" and "pending_only st"
  shows "gives home own (scan_children visit job relative cs st) pending_only"
  using assms(2)
proof (induction cs arbitrary: st)
  case (Cons c cs)
  have "gives home own (bnd (visit path st) (scan_children visit job relative cs)) pending_only" for path
    by (rule gives_bnd [OF assms(1) [OF Cons.prems]]) (use Cons.IH in auto)
  then show ?case by (auto simp: Let_def intro: gives_fail)
qed (auto intro: gives_ret)

lemma pages_pending:
  assumes "\<And>c s. pending_only s \<Longrightarrow> gives home own (visit c s) pending_only" and "pending_only st"
  shows "gives home own (scan_pages visit job entry offset st) pending_only"
  using assms
proof (induction visit job entry offset st rule: scan_pages.induct)
  case (1 visit job entry offset st)
  show ?case
    by (subst scan_pages.simps, rule gives_then [OF plain_agent], rule gives_bnd [OF children_pending [OF 1(2,3)]])
      (use 1 in \<open>auto intro: gives_ret gives_fail split: option.split\<close>)
qed

lemma found_entry_pending: "te_state (found_entry job i path) = Pending"
  by (simp add: found_entry_def)

lemma pending_only_simps:
  "pending_only (sc_seen_update f s) = pending_only s" "pending_only (sc_exclusions_update g s) = pending_only s"
  "pending_only (sc_totalBytes_update h s) = pending_only s"
  "pending_only (sc_entries_update (\<lambda>_. sc_entries st @ [e]) s) \<longleftrightarrow> pending_only st \<and> te_state e = Pending"
  by (auto simp: pending_only_def)

lemma visit_pending: "pending_only st \<Longrightarrow> gives home own (scan_visit lims job relative st) pending_only"
proof (induction relative st rule: longer_paths_induct)
  case (1 relative st)
  have pages: "gives home own (scan_pages (scan_visit lims job) job entry 0 s) pending_only"
    if "length relative \<le> 1024" "te_path entry = relative" "pending_only s" for entry s
    by (subst scan_pages_below, rule pages_pending) (use 1 that in \<open>auto intro: gives_ret\<close>)
  show ?case
    by (subst scan_visit.simps)
      (use 1(2) in \<open>auto simp: Let_def found_entry_path pending_only_simps found_entry_pending dest!: transferPath_Inr
        intro!: gives_then gives_ret gives_fail gives_raise pages plain_rules split: sum.split list.split\<close>)
qed

lemma selection_pending:
  assumes "pending_only st"
  shows "gives home own (scan_selection lims job paths st) pending_only"
proof -
  have "gives home own (foldl (\<lambda>m path. bnd m (scan_visit lims job path)) m paths) pending_only"
    if "gives home own m pending_only" for m
    using that
  proof (induction paths arbitrary: m)
    case (Cons path paths)
    have "gives home own (bnd m (scan_visit lims job path)) pending_only"
      by (rule gives_bnd [OF Cons.prems visit_pending]) simp_all
    then show ?case using Cons.IH by simp
  qed simp
  then show ?thesis unfolding scan_selection_def using gives_ret [of pending_only st] assms by blast
qed

lemma saved_all:
  assumes "transfers_ok home w l" and "\<forall>e \<in> set entries. te_state e = Pending"
  shows "transfers_ok home (save_all entries w) l \<and> starts_locked own w (save_all entries w)"
  using assms
proof (induction entries arbitrary: w)
  case (Cons e entries)
  have one: "transfers_ok home (save_entry e w) l \<and> starts_locked own w (save_entry e w)"
    by (rule entry_saved [OF Cons.prems(1)]) (use Cons.prems(2) in simp)
  then have "transfers_ok home (save_all entries (save_entry e w)) l \<and>
      starts_locked own (save_entry e w) (save_all entries (save_entry e w))"
    using Cons.IH Cons.prems(2) by simp
  then show ?case using one by (auto simp: save_all_def starts_locked_def)
qed (simp add: save_all_def starts_locked_refl)

lemma plain_scan [plain_rules]: "plainly home own (scan_files lims job)"
proof -
  have save: "plainly home own (statement (save_all (sc_entries st)))" if "pending_only st" for st
    by (rule does_statement [OF stable_True]) (use saved_all that in \<open>simp add: pending_only_def\<close>)
  have start: "pending_only \<lparr>sc_seen = [], sc_entries = [], sc_exclusions = [], sc_totalBytes = 0\<rparr>"
    by (simp add: pending_only_def)
  show ?thesis
    unfolding scan_files_def
    by (rule gives_then [OF plain_deletes(1)], rule gives_bnd [OF selection_pending [OF start]])
      (auto intro!: plain_rules save)
qed

lemma plain_download [plain_rules]: "plainly home own (prepareDownload lims job)"
  unfolding prepareDownload_def by (auto intro!: plain_rules split: sum.split)

lemma looks_for_running:
  "doing home (insert h own) nothing
     (query (\<lambda>w. List.find (\<lambda>j. ow_host (tj_owner j) = h \<and> tj_state j = Running) (tw_jobs w)) :: transfer_job option op)
     (\<lambda>r w l. \<forall>busy. r = Inr busy \<longrightarrow> busy = None \<or> map_option tj_id busy = Some i \<longrightarrow> running h w \<subseteq> {i})"
proof (rule does_query)
  fix busy :: "transfer_job option"
  have "stable (transfers_ok home) starts_locked (insert h own)
      (\<lambda>w l. busy = None \<or> map_option tj_id busy = Some i \<longrightarrow> running h w \<subseteq> {i})"
    by (intro stable_implies stable_running) simp
  then show "stable (transfers_ok home) starts_locked (insert h own)
      (\<lambda>w l. \<forall>b. (Inr busy :: failure + _) = Inr b \<longrightarrow> b = None \<or> map_option tj_id b = Some i \<longrightarrow> running h w \<subseteq> {i})"
    by simp
next
  fix w :: transfer_world and l :: "(transfer_question \<times> transfer_answer) list"
  let ?busy = "List.find (\<lambda>j. ow_host (tj_owner j) = h \<and> tj_state j = Running) (tw_jobs w)"
  assume ok: "transfers_ok home w l"
  have "running h w \<subseteq> {i}" if free: "?busy = None \<or> map_option tj_id ?busy = Some i"
  proof
    fix k
    assume k: "k \<in> running h w"
    then have "?busy \<noteq> None" by (auto simp: running_def find_None_iff)
    then obtain b where b: "?busy = Some b" "tj_id b = i" using free by auto
    have "i \<in> running h w" using find_Some_in [OF b(1)] b(2) by (auto simp: running_def)
    then show "k \<in> {i}" using transfers_okD(3) [OF ok k] by simp
  qed
  then show "(\<forall>busy. (Inr ?busy :: failure + _) = Inr busy \<longrightarrow> busy = None \<or> map_option tj_id busy = Some i
      \<longrightarrow> running h w \<subseteq> {i}) \<and> starts_locked (insert h own) w w"
    using starts_locked_refl by simp
qed

lemma sets_running:
  assumes "home i = h"
  shows "doing home (insert h own) (\<lambda>w l. running h w \<subseteq> {i})
    (update_job i (\<lambda>now j. j\<lparr>tj_state := Running, tj_updated := now\<rparr>)) (\<lambda>_. nothing)"
  unfolding update_job_def
proof (rule does_bnd [where R = "\<lambda>_ w l. running h w \<subseteq> {i}"])
  show "doing home (insert h own) (\<lambda>w l. running h w \<subseteq> {i}) clock (\<lambda>_ w l. running h w \<subseteq> {i})"
    unfolding clock_def by (rule does_query) (simp_all add: stable_running starts_locked_refl)
next
  fix now
  show "doing home (insert h own) (\<lambda>w l. running h w \<subseteq> {i})
      (statement (upd_job i (\<lambda>j. j\<lparr>tj_state := Running, tj_updated := now\<rparr>))) (\<lambda>_. nothing)"
  proof (rule does_statement [OF stable_True])
    fix w :: transfer_world and l :: "(transfer_question \<times> transfer_answer) list"
    assume "transfers_ok home w l" "running h w \<subseteq> {i}"
    with starts_running [of home w l i "insert h own"] assms
    show "transfers_ok home (upd_job i (\<lambda>j. j\<lparr>tj_state := Running, tj_updated := now\<rparr>) w) l
      \<and> starts_locked (insert h own) w (upd_job i (\<lambda>j. j\<lparr>tj_state := Running, tj_updated := now\<rparr>) w) \<and> True" by simp
  qed
qed simp

lemma plain_worker_start: "plainly home (insert (ow_host owner) own) (run_queued lims owner i)"
  unfolding run_queued_def
proof (rule gives_bnd [OF get_gives], goal_cases)
  case (1 job)
  let ?h = "ow_host owner"
  let ?go = "bnd (update_job i (\<lambda>now j. j\<lparr>tj_state := Running, tj_updated := now\<rparr>)) (\<lambda>_.
      if tj_direction job = Download then prepareDownload lims (job\<lparr>tj_state := Running\<rparr>) else ret ())"
  let ?busy = "query (\<lambda>w. List.find (\<lambda>j. ow_host (tj_owner j) = ow_host (tj_owner job) \<and> tj_state j = Running) (tw_jobs w))"
  have go: "doing home (insert ?h own) (\<lambda>w l. running ?h w \<subseteq> {i}) ?go (\<lambda>_. nothing)"
    by (rule does_bnd [OF sets_running]) (use 1 in \<open>auto intro: plain_rules\<close>)
  have "doing home (insert ?h own) (\<lambda>w l. \<forall>b. (Inr busy :: failure + _) = Inr b \<longrightarrow> b = None \<or> map_option tj_id b = Some i \<longrightarrow> running ?h w \<subseteq> {i})
      (if busy \<noteq> None \<and> map_option tj_id busy \<noteq> Some i then ret () else ?go) (\<lambda>_. nothing)" for busy :: "transfer_job option"
  proof (cases "busy \<noteq> None \<and> map_option tj_id busy \<noteq> Some i")
    case True
    then show ?thesis by (simp only: if_True simp_thms) (simp add: does_ret)
  next
    case False
    then show ?thesis by (simp only: if_False) (rule does_weaken [OF go], auto)
  qed
  moreover have host: "ow_host (tj_owner job) = ?h" using 1 by simp
  ultimately have "plainly home (insert ?h own) (bnd ?busy (\<lambda>busy. if busy \<noteq> None \<and> map_option tj_id busy \<noteq> Some i then ret () else ?go))"
    unfolding host by (intro does_bnd [OF looks_for_running [of home ?h own i]]) simp_all
  then show ?case by (auto intro: plain_rules)
qed simp

lemma plain_worker [plain_rules]: "plainly home own (worker lims owner i)"
  unfolding worker_def
  by (auto intro!: plain_rules plain_worker_start harmless_same split: sum.split option.split)

section \<open>What is known of an entry\<close>

lemma acknowledged_same [simp]:
  "acknowledged home l (e\<lparr>te_offset := n\<rparr>) = acknowledged home l e" "acknowledged home l (e\<lparr>te_state := st\<rparr>) = acknowledged home l e"
  "acknowledged home l (e\<lparr>te_replace := b\<rparr>) = acknowledged home l e"
  by (simp_all add: acknowledged_def)

lemma stable_ack: "stable (transfers_ok home) starts_locked own (\<lambda>_ l. c \<longrightarrow> acknowledged home l e)"
  by (rule stableI) (auto intro: acknowledged_more)

text \<open>The entry a request is about.\<close>

definition known_entry :: "(string \<Rightarrow> string) \<Rightarrow> string \<Rightarrow> transfer_entry \<Rightarrow> (transfer_question \<times> transfer_answer) list \<Rightarrow> bool" where
  "known_entry home i e l \<longleftrightarrow> te_transferId e = i \<and> (te_state e = Committed \<longrightarrow> acknowledged home l e)"

lemma stable_known: "stable (transfers_ok home) starts_locked own (\<lambda>_ l. c \<longrightarrow> known_entry home i e l)"
  by (rule stableI) (auto simp: known_entry_def intro: acknowledged_more)

definition transfer_on :: "(string \<Rightarrow> string) \<Rightarrow> string \<Rightarrow> transfer_job \<Rightarrow> bool" where
  "transfer_on home i job \<longleftrightarrow> tj_id job = i \<and> ow_host (tj_owner job) = home i"

lemma active_knows:
  "doing home own nothing (transfer_active owner i entryId)
     (\<lambda>r _ l. \<forall>job entry. r = Inr (job, entry) \<longrightarrow> transfer_on home i job \<and> known_entry home i entry l)"
proof -
  let ?find = "query (\<lambda>w. List.find (\<lambda>e. te_id e = entryId \<and> te_transferId e = i) (tw_entries w)) :: transfer_entry option op"
  have found: "doing home own nothing ?find (\<lambda>r _ l. \<forall>e. r = Inr (Some e) \<longrightarrow> known_entry home i e l)"
  proof (rule does_query)
    fix w :: transfer_world and l :: "(transfer_question \<times> transfer_answer) list"
    assume ok: "transfers_ok home w l"
    have "known_entry home i e l" if "List.find (\<lambda>e. te_id e = entryId \<and> te_transferId e = i) (tw_entries w) = Some e" for e
      using find_Some_in [OF that] transfers_okD(4) [OF ok] by (auto simp: known_entry_def)
    then show "(\<forall>e. (Inr (List.find (\<lambda>e. te_id e = entryId \<and> te_transferId e = i) (tw_entries w)) :: failure + _) = Inr (Some e)
        \<longrightarrow> known_entry home i e l) \<and> starts_locked own w w" by (simp add: starts_locked_refl)
  next
    fix x :: "transfer_entry option"
    show "stable (transfers_ok home) starts_locked own (\<lambda>_ l. \<forall>e. (Inr x :: failure + _) = Inr (Some e) \<longrightarrow> known_entry home i e l)"
      by (cases x) (use stable_known [where c = True] in \<open>auto simp: stable_True\<close>)
  qed
  have taken: "doing home own nothing (bnd ?find (\<lambda>found. bnd (find_or_fail found) (\<lambda>entry. ret (job, entry))))
      (\<lambda>r _ l. \<forall>job entry. r = Inr (job, entry) \<longrightarrow> transfer_on home i job \<and> known_entry home i entry l)" if "transfer_on home i job" for job
  proof (rule does_bnd [OF found])
    fix found :: "transfer_entry option"
    show "doing home own (\<lambda>_ l. \<forall>e. (Inr found :: failure + _) = Inr (Some e) \<longrightarrow> known_entry home i e l)
        (bnd (find_or_fail found) (\<lambda>entry. ret (job, entry)))
        (\<lambda>r _ l. \<forall>job entry. r = Inr (job, entry) \<longrightarrow> transfer_on home i job \<and> known_entry home i entry l)"
      by (cases found) (auto simp: find_or_fail_def fail_def bnd_raise bnd_ret that intro!: does_raise does_ret)
  qed simp
  show ?thesis
    unfolding transfer_active_def
    by (rule gives_then [OF plain_ends(2)], rule gives_bnd [OF get_gives], rule gives_then [OF plain_ends(2)], rule taken)
      (simp_all add: transfer_on_def)
qed

lemma agent_says:
  assumes "\<And>r. fr_transferId (extra r) = fr_transferId r \<and> fr_entryId (extra r) = fr_entryId r \<and> fr_action (extra r) = fr_action r"
    and "action \<in> {FsStat, FsMkdir, FsCommit}" and "transfer_on home (te_transferId entry) job"
  shows "doing home own (\<lambda>_ l. c \<longrightarrow> acknowledged home l entry) (ask_agent job entry action extra)
    (\<lambda>r _ l. \<forall>res. r = Inr res \<longrightarrow> (c \<or> fs_committed res \<longrightarrow> acknowledged home l entry))"
proof -
  let ?req = "\<lambda>path. extra (request_of job entry action path)"
  let ?said = "\<lambda>r _ l. \<forall>a res. r = Inr a \<longrightarrow> ta_agent a = Inr res \<longrightarrow> (c \<or> fs_committed res \<longrightarrow> acknowledged home l entry)"
  have asked: "doing home own (\<lambda>_ l. c \<longrightarrow> acknowledged home l entry)
      (ask (AgentTransfer (ow_org (tj_owner job)) (ow_host (tj_owner job)) (?req path)) :: transfer_answer op) ?said" for path
  proof (rule does_ask)
    fix a :: transfer_answer
    show "stable (transfers_ok home) starts_locked own (?said (Inr a :: failure + _))"
    proof (cases "ta_agent a")
      case (Inr res)
      then show ?thesis using stable_ack [where c = "c \<or> fs_committed res"] by simp
    qed (simp add: stable_True)
  next
    fix w :: transfer_world and l :: "(transfer_question \<times> transfer_answer) list" and a :: transfer_answer
    let ?q = "AgentTransfer (ow_org (tj_owner job)) (ow_host (tj_owner job)) (?req path)"
    assume "c \<longrightarrow> acknowledged home l entry"
    moreover have "acknowledged home ((?q, a) # l) entry" if "ta_agent a = Inr res" "fs_committed res" for res
      by (rule acknowledgedI [where r = "?req path", OF _ _ _ _ that]) (use assms in \<open>auto simp: request_of_def transfer_on_def\<close>)
    ultimately show "?said (Inr a :: failure + _) w ((?q, a) # l)" using acknowledged_more by auto
  qed
  have answered: "doing home own (?said (Inr a :: failure + _)) (result (ta_agent a))
      (\<lambda>r _ l. \<forall>res. r = Inr res \<longrightarrow> (c \<or> fs_committed res \<longrightarrow> acknowledged home l entry))" for a
    unfolding result_def does_def using keeps_weaken by (auto intro!: keeps_weaken)
  have located: "doing home own (\<lambda>_ l. c \<longrightarrow> acknowledged home l entry) (result (destination job (te_path entry)))
      (\<lambda>_ _ l. c \<longrightarrow> acknowledged home l entry)"
    by (simp add: result_def does_def)
  show ?thesis
    unfolding ask_agent_def
    by (rule does_bnd [OF located], rule does_bnd [OF asked answered]) simp_all
qed

lemma with_active:
  assumes "\<And>job entry. transfer_on home i job \<Longrightarrow> te_transferId entry = i \<Longrightarrow>
    doing home own (\<lambda>_ l. te_state entry = Committed \<longrightarrow> acknowledged home l entry) (g (job, entry)) (\<lambda>_. nothing)"
  shows "plainly home own (bnd (transfer_active owner i entryId) g)"
proof (rule does_bnd [OF active_knows])
  fix x :: "transfer_job \<times> transfer_entry"
  obtain job entry where x: "x = (job, entry)" by (cases x)
  have "doing home own (\<lambda>_ l. transfer_on home i job \<and> te_transferId entry = i \<and> (te_state entry = Committed \<longrightarrow> acknowledged home l entry))
      (g (job, entry)) (\<lambda>_. nothing)"
    by (intro does_pure assms)
  then show "doing home own (\<lambda>_ l. \<forall>job entry. (Inr x :: failure + _) = Inr (job, entry) \<longrightarrow> transfer_on home i job \<and> known_entry home i entry l)
      (g x) (\<lambda>_. nothing)"
    unfolding x by (rule does_weaken) (auto simp: known_entry_def)
qed simp

lemma plain_known: "plainly home own m \<Longrightarrow> doing home own A m (\<lambda>_. nothing)"
  by (erule does_weaken) simp_all

lemma after_agent:
  assumes "\<And>r. fr_transferId (extra r) = fr_transferId r \<and> fr_entryId (extra r) = fr_entryId r \<and> fr_action (extra r) = fr_action r"
    and "action \<in> {FsStat, FsMkdir, FsCommit}" and "transfer_on home (te_transferId entry) job"
    and "\<And>res. doing home own (\<lambda>_ l. c \<or> fs_committed res \<longrightarrow> acknowledged home l entry) (g res) (\<lambda>_. nothing)"
  shows "doing home own (\<lambda>_ l. c \<longrightarrow> acknowledged home l entry) (bnd (ask_agent job entry action extra) g) (\<lambda>_. nothing)"
  by (rule does_bnd [OF agent_says [OF assms(1-3)]]) (use assms(4) in simp_all)

lemma plain_guard [plain_rules]:
  "(b \<Longrightarrow> plainly home own (g ())) \<Longrightarrow> plainly home own (bnd (guard_that b c n) g)"
  by (cases b) (simp_all add: guard_that_def fail_def bnd_ret bnd_raise plain_basic)

lemma does_save_progress:
  "doing home own (\<lambda>_ l. te_state entry = Committed \<longrightarrow> acknowledged home l entry) (save_progress i entry) (\<lambda>_. nothing)"
proof -
  have "doing home own (\<lambda>_ l. te_state entry = Committed \<longrightarrow> acknowledged home l entry) (statement (save_entry entry)) (\<lambda>_. nothing)"
    by (rule does_statement [OF stable_True]) (use entry_saved in blast)
  then show ?thesis unfolding save_progress_def by (rule does_bnd) (auto intro: plain_rules)
qed

lemma plain_save_progress [plain_rules]: "te_state entry \<noteq> Committed \<Longrightarrow> plainly home own (save_progress i entry)"
  using does_save_progress [of home own entry i] by simp

section \<open>Every operation\<close>

lemma plain_entries:
  assumes "\<And>w. tw_jobs (f w) = tw_jobs w"
    and "\<And>w e. e \<in> set (tw_entries (f w)) \<Longrightarrow> te_state e = Committed \<Longrightarrow> e \<in> set (tw_entries w)"
  shows "plainly home own (statement f)"
proof (rule does_statement [OF stable_True])
  fix w :: transfer_world and l :: "(transfer_question \<times> transfer_answer) list"
  assume ok: "transfers_ok home w l"
  have "transfers_ok home (f w) l \<and> starts_locked own w (f w)"
  proof (rule ok_fewer [OF ok])
    show "acknowledged home l e" if "e \<in> set (tw_entries (f w))" "te_state e = Committed" for e
      by (rule transfers_okD(4) [OF ok assms(2)]) (fact that)+
  qed (use transfers_okD(1,2) [OF ok] assms(1) in \<open>simp_all add: running_def\<close>)
  then show "transfers_ok home (f w) l \<and> starts_locked own w (f w) \<and> True" by simp
qed

lemma plain_reconcile [plain_rules]: "plainly home own (transfer_reconcile owner i entryId)"
  unfolding transfer_reconcile_def
proof (rule plain_basic(9), rule with_active, goal_cases)
  case (1 job entry)
  have "doing home (insert (ow_host owner) own) (\<lambda>_ l. te_state entry = Committed \<longrightarrow> acknowledged home l entry)
      (bnd (ask_agent job entry FsStat id) (\<lambda>answer.
        if te_size entry < fs_offset answer \<or> fs_offset answer < 0 then fail ''FILES_TRANSFER_RESPONSE'' 502
        else save_progress (tj_id job) (entry\<lparr>te_offset := fs_offset answer,
               te_state := if fs_committed answer then Committed else te_state entry\<rparr>))) (\<lambda>_. nothing)"
  proof (rule after_agent, goal_cases)
    case (4 answer)
    show ?case by (auto intro: plain_known plain_ends intro!: does_weaken [OF does_save_progress])
  qed (use 1 in auto)
  then show ?case by (auto intro: plain_known plain_basic)
qed

lemma plain_commit [plain_rules]: "plainly home own (transfer_commit owner i entryId)"
  unfolding transfer_commit_def
proof (rule plain_basic(9), rule with_active, goal_cases)
  case (1 job entry)
  have "doing home (insert (ow_host owner) own) (\<lambda>_ l. False \<longrightarrow> acknowledged home l entry)
      (bnd (ask_agent job entry (if te_kind entry = DirKind then FsMkdir else FsCommit)
              (\<lambda>r. r\<lparr>fr_digest := te_fingerprint entry, fr_replace := te_replace entry\<rparr>)) (\<lambda>answer.
        if \<not> fs_committed answer then fail ''FILES_TRANSFER_RESPONSE'' 502
        else save_progress i (entry\<lparr>te_state := Committed, te_offset := te_size entry\<rparr>))) (\<lambda>_. nothing)"
  proof (rule after_agent, goal_cases)
    case (4 answer)
    show ?case by (auto intro: plain_known plain_ends intro!: does_weaken [OF does_save_progress])
  qed (use 1 in auto)
  then have "doing home (insert (ow_host owner) own) (\<lambda>_ l. te_state entry = Committed \<longrightarrow> acknowledged home l entry)
      (bnd (ask_agent job entry (if te_kind entry = DirKind then FsMkdir else FsCommit)
              (\<lambda>r. r\<lparr>fr_digest := te_fingerprint entry, fr_replace := te_replace entry\<rparr>)) (\<lambda>answer.
        if \<not> fs_committed answer then fail ''FILES_TRANSFER_RESPONSE'' 502
        else save_progress i (entry\<lparr>te_state := Committed, te_offset := te_size entry\<rparr>))) (\<lambda>_. nothing)"
    by (rule does_weaken) simp_all
  then show ?case by (auto intro: plain_known plain_basic)
qed

lemma plain_active [plain_rules]: "plainly home own (transfer_active owner i entryId)"
  by (rule does_weaken [OF active_knows]) simp_all

lemma plain_chunk [plain_rules]: "plainly home own (transfer_chunk lims owner i entryId offset digest data)"
  unfolding transfer_chunk_def by (auto simp: Let_def intro!: plain_rules split: option.split)

lemma plain_skipped [plain_rules]:
  "plainly home own (statement (\<lambda>w. w\<lparr>tw_entries := map (\<lambda>e. if te_id e = k then e\<lparr>te_state := Skipped\<rparr> else e) (tw_entries w)\<rparr>))"
  by (rule plain_entries) (auto split: if_splits)

lemma plain_decide [plain_rules]: "plainly home own (transfer_decide owner i entryId action)"
  unfolding transfer_decide_def by (auto intro!: plain_rules)

lemma saved_job:
  assumes "transfers_ok home w l" and "tj_state job \<noteq> Running" and "ow_host (tj_owner job) = home (tj_id job)"
  shows "transfers_ok home (save_job job w) l \<and> starts_locked own w (save_job job w)"
proof (rule ok_fewer [OF assms(1)])
  have "map tj_id (tw_jobs (upd_job (tj_id job) (\<lambda>_. job) w)) = map tj_id (tw_jobs w)" by (simp add: upd_job_def)
  then show "distinct (map tj_id (tw_jobs (save_job job w)))"
    using transfers_okD(1) [OF assms(1)] by (auto simp: save_job_def)
next
  show "running h (save_job job w) \<subseteq> running h w" for h
    using assms(2) by (auto simp: save_job_def upd_job_def running_def split: if_splits)
next
  fix j
  assume "j \<in> set (tw_jobs (save_job job w))"
  then have "j = job \<or> j \<in> set (tw_jobs w)" by (auto simp: save_job_def upd_job_def split: if_splits)
  then show "ow_host (tj_owner j) = home (tj_id j)" using assms(3) transfers_okD(2) [OF assms(1)] by blast
next
  fix e
  assume "e \<in> set (tw_entries (save_job job w))" "te_state e = Committed"
  then show "acknowledged home l e" by (intro transfers_okD(4) [OF assms(1)]) (simp_all add: save_job_def upd_job_def split: if_splits)
qed

lemma plain_create:
  assumes "home (ct_id input) = ow_host owner"
  shows "plainly home own (transfer_create owner input)"
proof -
  have save: "plainly home own' (statement (save_job (new_job owner input now)))" for own' now
    by (rule does_statement [OF stable_True]) (use saved_job [where job = "new_job owner input now"] assms in \<open>simp add: new_job_def\<close>)
  show ?thesis
    unfolding transfer_create_def authorize_def by (auto intro!: save plain_rules split: option.split)
qed

lemma manifest_rows_adds:
  "manifest_rows i items w = Inr w' \<Longrightarrow> tw_jobs w' = tw_jobs w \<and>
     (\<forall>e \<in> set (tw_entries w'). te_state e = Committed \<longrightarrow> e \<in> set (tw_entries w))"
proof (induction i items w rule: manifest_rows.induct)
  case (2 i item items w)
  have saved: "tw_jobs (save_entry (entry_of_item i item) w) = tw_jobs w"
    "e \<in> set (tw_entries (save_entry (entry_of_item i item) w)) \<Longrightarrow> te_state e = Committed \<Longrightarrow> e \<in> set (tw_entries w)" for e
    by (auto simp: save_entry_def entry_of_item_def split: if_splits)
  show ?case
  proof (cases "List.find (\<lambda>e. te_id e = me_id item) (tw_entries w)")
    case None
    with 2(3) have "manifest_rows i items (save_entry (entry_of_item i item) w) = Inr w'"
      by (auto simp: Let_def split: if_splits)
    moreover have "\<not> (\<exists>e \<in> set (entries_of i w). te_path e = me_path item)" using 2(3) None by (auto simp: Let_def split: if_splits)
    ultimately show ?thesis using 2(1) [OF refl None] saved by auto
  next
    case (Some old)
    with 2(3) show ?thesis using 2(2) [OF refl Some] by (auto simp: Let_def split: if_splits)
  qed
qed simp

lemma manifest_ok:
  assumes "transfers_ok home w l"
  shows "transfers_ok home (fst (manifest_transaction lims i items w)) l
    \<and> starts_locked own w (fst (manifest_transaction lims i items w))"
proof -
  have "transfers_ok home (upd_job i f w') l \<and> starts_locked own w (upd_job i f w')"
    if rows: "manifest_rows i items w = Inr w'" and f: "tame f" for w' f
  proof -
    note added = manifest_rows_adds [OF rows]
    have mid: "transfers_ok home w' l \<and> starts_locked own w w'"
    proof (rule ok_fewer [OF assms])
      show "acknowledged home l e" if "e \<in> set (tw_entries w')" "te_state e = Committed" for e
        by (rule transfers_okD(4) [OF assms]) (use added that in blast)+
    qed (use added transfers_okD(1,2) [OF assms] in \<open>simp_all add: running_def\<close>)
    have "transfers_ok home (upd_job i f w') l \<and> starts_locked own w' (upd_job i f w')"
      using harmless_ok harmless_upd [OF f] mid by blast
    then show ?thesis using mid unfolding starts_locked_def by blast
  qed
  then show ?thesis
    using assms starts_locked_refl by (auto simp: manifest_transaction_def Let_def tame_def split: sum.split)
qed

lemma plain_manifest_stored [plain_rules]:
  assumes "\<And>r. plainly home own (g r)"
  shows "plainly home own (bnd (atomically (\<lambda>w. case manifest_transaction lims i items w of (w', r) \<Rightarrow> (w', [], r))) g)"
proof (rule plain_basic(10) [OF _ assms])
  show "plainly home own (atomically (\<lambda>w. case manifest_transaction lims i items w of (w', r) \<Rightarrow> (w', [], r)))"
    by (rule does_atomically [OF stable_True]) (use manifest_ok in \<open>simp add: case_prod_beta\<close>)
qed

lemma plain_manifest [plain_rules]: "plainly home own (transfer_manifest lims owner i items)"
  unfolding transfer_manifest_def by (auto intro!: plain_rules)

lemma plain_control [plain_rules]: "plainly home own (transfer_control owner i action)"
  unfolding transfer_control_def by (auto intro!: plain_rules)

lemma plain_reads [plain_rules]:
  "plainly home own (transfer_list owner)" "plainly home own (transfer_entries text_cmp owner i)"
  "plainly home own (transfer_download owner i rng if_range)"
  unfolding transfer_list_def authorize_def transfer_entries_def transfer_download_def
  by (auto simp: Let_def intro!: plain_rules split: option.split)

lemma plain_remove [plain_rules]: "plainly home own (transfer_remove owner i)"
  unfolding transfer_remove_def by (auto intro!: plain_rules)

lemma plain_cleanup [plain_rules]: "plainly home own cleanup"
  unfolding cleanup_def sweep_abandoned_def sweep_stale_def by (auto intro!: plain_rules)

lemma plain_initialize: "plainly home own initialize"
proof -
  have "harmless w (w\<lparr>tw_jobs := map (\<lambda>j. if tj_state j \<in> {Running, Queued}
            then j\<lparr>tj_state := Paused, tj_errorCode := ''FILES_TRANSFER_RESTARTED''\<rparr> else j) (tw_jobs w)\<rparr>)" for w
    unfolding harmless_def by (intro conjI exI [of _ "\<lambda>j. if tj_state j \<in> {Running, Queued}
            then j\<lparr>tj_state := Paused, tj_errorCode := ''FILES_TRANSFER_RESTARTED''\<rparr> else j"]) (auto simp: tame_def)
  then have paused: "plainly home own (statement (\<lambda>w. w\<lparr>tw_jobs := map (\<lambda>j. if tj_state j \<in> {Running, Queued}
            then j\<lparr>tj_state := Paused, tj_errorCode := ''FILES_TRANSFER_RESTARTED''\<rparr> else j) (tw_jobs w)\<rparr>))"
    by (rule plain_harmless)
  show ?thesis
    unfolding initialize_def by (intro plain_basic(10) plain_memory harmless_same paused plain_cleanup plain_basic plain_unlink) simp_all
qed


lemma operations_keep: "keeps (transfers_ok home) starts_locked (transfer_body lims t) {} nothing"
proof -
  have end_keeps: "keeps (transfers_ok home) starts_locked (m (\<lambda>_. Done)) {} nothing" if "plainly home {} m" for m :: "unit op"
    using that by (simp add: does_def keeps_Done)
  show ?thesis
    by (cases t) (auto simp: transfer_body_def intro!: end_keeps plain_rules)
qed

interpretation ft: contract "transfers_ok home" starts_locked "transfer_body lims" for home lims
  by unfold_locales (simp_all add: transfers_ok_more operations_keep)

lemma plain_forget: "plainly home own m \<Longrightarrow> plainly home own (forget m)"
  unfolding forget_def by (auto intro: plain_basic)

lemma plain_request:
  assumes "\<And>owner input. r = Create owner input \<Longrightarrow> home (ct_id input) = ow_host owner"
  shows "plainly home own (request_op lims text_cmp r)"
  using assms by (cases r) (auto simp: request_op_def intro!: plain_forget plain_create plain_rules)

section \<open>Runs of one host\<close>

definition sample_owner :: transfer_owner where
  "sample_owner = \<lparr>ow_user = ''u'', ow_org = ''o'', ow_host = ''h''\<rparr>"

definition sample_id :: "char \<Rightarrow> string" where
  "sample_id c = ''00000000-0000-0000-0000-00000000000'' @ [c]"

definition sample_transfer :: "direction \<Rightarrow> char \<Rightarrow> create_transfer" where
  "sample_transfer d c = \<lparr>ct_id = sample_id c, ct_direction = d, ct_basePath = [], ct_selection = [''a'']\<rparr>"

text \<open>The host is enabled, and its agent has what it is asked about.\<close>

definition sample_answer :: transfer_answer where
  "sample_answer = \<lparr>ta_host = Inr \<lparr>hi_enabled = True, hi_transfers = True\<rparr>,
     ta_agent = Inr \<lparr>fs_entries = [], fs_next = None, fs_offset = 0, fs_committed = True, fs_data = []\<rparr>,
     ta_text = Inr [], ta_number = Inr 0\<rparr>"

definition goes_on :: "nat \<Rightarrow> nat \<Rightarrow> transfer_event list" where
  "goes_on n i = replicate n (Goes_on i sample_answer)"

text \<open>Two downloads are started: the worker of the second waits for the lock of the host.\<close>

definition two_downloads :: "transfer_event list" where
  "two_downloads = goes_on 12 0 @ [Arrives (Create sample_owner (sample_transfer Download CHR ''a''))] @ goes_on 10 1
     @ [Arrives (Create sample_owner (sample_transfer Download CHR ''b''))] @ goes_on 10 2
     @ [Arrives (Control sample_owner (sample_id CHR ''a'') Start)] @ goes_on 10 3 @ goes_on 7 4
     @ [Arrives (Control sample_owner (sample_id CHR ''b'') Start)] @ goes_on 10 5 @ goes_on 7 6"

text \<open>A directory is uploaded: created, listed, started, made.\<close>

definition sample_item :: manifest_entry where
  "sample_item = \<lparr>me_id = sample_id CHR ''e'', me_path = ''d'', me_kind = DirKind, me_size = Fin 0, me_fingerprint = [], me_modified = []\<rparr>"

definition one_upload :: "transfer_event list" where
  "one_upload = goes_on 12 0 @ [Arrives (Create sample_owner (sample_transfer Upload CHR ''a''))] @ goes_on 10 1
     @ [Arrives (Manifest sample_owner (sample_id CHR ''a'') [sample_item])] @ goes_on 12 2
     @ [Arrives (Control sample_owner (sample_id CHR ''a'') Start)] @ goes_on 9 3 @ goes_on 12 4
     @ [Arrives (Commit sample_owner (sample_id CHR ''a'') (sample_id CHR ''e''))] @ goes_on 12 6"

text \<open>A download is started; its worker has read that it is queued when a pause is asked for, and answered.\<close>

definition paused_late :: "transfer_event list" where
  "paused_late = goes_on 12 0 @ [Arrives (Create sample_owner (sample_transfer Download CHR ''a''))] @ goes_on 10 1
     @ [Arrives (Control sample_owner (sample_id CHR ''a'') Start)] @ goes_on 10 2 @ goes_on 4 3
     @ [Arrives (Control sample_owner (sample_id CHR ''a'') Pause)] @ goes_on 10 4 @ goes_on 3 5"

text \<open>The threads that have not come to their end.\<close>

definition unfinished :: "transfer_system \<Rightarrow> nat list" where
  "unfinished s = filter (\<lambda>i. case snd (threads s ! i) of Done \<Rightarrow> False | _ \<Rightarrow> True) [0..<length (threads s)]"

definition sample_limits :: transfer_limits where
  "sample_limits = \<lparr>maxBytes = 10, maxEntries = 10, spoolBytes = 10, sha256 = (\<lambda>_. [])\<rparr>"

section \<open>Every run\<close>

lemma one_step_keeps:
  assumes s: "pool_keeps (transfers_ok home) starts_locked s"
    and "\<And>owner input. ev = Arrives (Create owner input) \<Longrightarrow> home (ct_id input) = ow_host owner"
  shows "pool_keeps (transfers_ok home) starts_locked (transfer_step lims text_cmp s ev)"
proof -
  have moved: "pool_keeps (transfers_ok home) starts_locked (s\<lparr>world := w\<rparr>)" if "harmless (world s) w" for w
  proof -
    have "transfers_ok home (world s) (answered s)" using s by (simp add: pool_keeps_def)
    from harmless_ok [OF this that, of "{}"] show ?thesis by (intro ft.pool_keeps_world s) simp_all
  qed
  show ?thesis
  proof (cases ev)
    case (Arrives r)
    with assms(2) have "plainly home {} (request_op lims text_cmp r)" by (intro plain_request) simp
    from launch_keeps [OF s this] Arrives show ?thesis by (simp add: transfer_step_def)
  next
    case (Goes_on i a)
    then show ?thesis using ft.pool_keeps_step [OF s] by (simp add: transfer_step_def)
  next
    case Restarts
    have "harmless (world s) ((world s)\<lparr>tw_workers := {}\<rparr>)" by (rule harmless_same) simp_all
    with s have "transfers_ok home ((world s)\<lparr>tw_workers := {}\<rparr>) (answered s)"
      using harmless_ok unfolding pool_keeps_def by blast
    moreover have "keeps (transfers_ok home) starts_locked (initialize (\<lambda>_. Done)) {} nothing"
      using plain_initialize [of home "{}"] by (simp add: does_def keeps_Done)
    ultimately have "pool_keeps (transfers_ok home) starts_locked
        \<lparr>world = (world s)\<lparr>tw_workers := {}\<rparr>, threads = [({}, initialize (\<lambda>_. Done))], answered = answered s\<rparr>"
      by (rule pool_keeps_fresh)
    then show ?thesis using Restarts by (cases s) (simp add: transfer_step_def)
  qed (auto simp: transfer_step_def intro!: moved harmless_same)
qed

definition transfer_run :: "transfer_limits \<Rightarrow> string cmp \<Rightarrow> transfer_event list \<Rightarrow> transfer_system" where
  "transfer_run lims text_cmp evs = foldl (transfer_step lims text_cmp) empty_service evs"

lemma runs_keep:
  "(\<And>owner input. Arrives (Create owner input) \<in> set evs \<Longrightarrow> home (ct_id input) = ow_host owner)
    \<Longrightarrow> pool_keeps (transfers_ok home) starts_locked (transfer_run lims text_cmp evs)"
proof (induction evs rule: rev_induct)
  case Nil
  have "transfers_ok home \<lparr>tw_jobs = [], tw_entries = [], tw_spool = [], tw_workers = {}, tw_stopping = False, tw_now = 0\<rparr> []"
    by (simp add: transfers_ok_def running_def)
  then show ?case
    using plain_initialize [of home "{}"]
    by (auto simp: transfer_run_def empty_service_def does_def keeps_Done intro!: pool_keeps_fresh)
next
  case (snoc ev evs)
  then have "pool_keeps (transfers_ok home) starts_locked (transfer_run lims text_cmp evs)" by simp
  from one_step_keeps [OF this] snoc.prems show ?case by (simp add: transfer_run_def)
qed

text \<open>The ids of the transfers asked for, each with its host.\<close>

definition created :: "transfer_event list \<Rightarrow> (string \<times> string) list" where
  "created evs = List.map_filter (\<lambda>ev. case ev of Arrives (Create owner input) \<Rightarrow> Some (ct_id input, ow_host owner) | _ \<Rightarrow> None) evs"

lemma created_simps:
  "created [] = []" "created (xs @ ys) = created xs @ created ys" "created (goes_on n i) = []"
  "created (Arrives (Create owner input) # evs) = (ct_id input, ow_host owner) # created evs"
  "created (Arrives (Control owner i' c) # evs) = created evs" "created (Arrives (Manifest owner i' items) # evs) = created evs"
  "created (Arrives (Commit owner i' e) # evs) = created evs"
  by (simp_all add: created_def goes_on_def List.map_filter_def filter_empty_conv)

text \<open>No id is used on two hosts: the page makes one at random for every transfer.\<close>

definition ids_name_one_host :: "transfer_event list \<Rightarrow> bool" where
  "ids_name_one_host evs \<longleftrightarrow> (\<forall>c \<in> set (created evs). \<forall>c' \<in> set (created evs). fst c = fst c' \<longrightarrow> snd c = snd c')"

lemma created_iff: "(i, h) \<in> set (created evs) \<longleftrightarrow>
    (\<exists>owner input. Arrives (Create owner input) \<in> set evs \<and> ct_id input = i \<and> ow_host owner = h)"
  unfolding created_def by (induction evs) (auto simp: List.map_filter_def split: transfer_event.splits transfer_request.splits)

lemma transfer_run_ok:
  assumes "ids_name_one_host evs"
  obtains home where "transfers_ok home (world (transfer_run lims text_cmp evs)) (answered (transfer_run lims text_cmp evs))"
    and "\<And>owner input. Arrives (Create owner input) \<in> set evs \<Longrightarrow> home (ct_id input) = ow_host owner"
proof -
  define home where "home i = the (map_of (created evs) i)" for i
  have home: "home (ct_id input) = ow_host owner" if "Arrives (Create owner input) \<in> set evs" for owner input
  proof -
    have c: "(ct_id input, ow_host owner) \<in> set (created evs)" using that by (auto simp: created_iff)
    then obtain h where h: "map_of (created evs) (ct_id input) = Some h" by (meson weak_map_of_SomeI)
    then show ?thesis using map_of_SomeD [OF h] c assms by (fastforce simp: ids_name_one_host_def home_def)
  qed
  have "pool_keeps (transfers_ok home) starts_locked (transfer_run lims text_cmp evs)" by (rule runs_keep) (rule home)
  then have "transfers_ok home (world (transfer_run lims text_cmp evs)) (answered (transfer_run lims text_cmp evs))"
    by (simp add: pool_keeps_def)
  then show thesis by (rule that) (rule home)
qed

lemma at_most_one:
  assumes "distinct (map g xs)" and "\<And>x y. x \<in> set xs \<Longrightarrow> y \<in> set xs \<Longrightarrow> g x = g y"
  shows "length xs \<le> 1"
proof (cases xs)
  case (Cons x ys)
  have "ys = []"
  proof (cases ys)
    case (Cons y zs)
    then have "g x \<noteq> g y" "g x = g y" using assms(1) assms(2) [of x y] \<open>xs = x # ys\<close> by simp_all
    then show ?thesis by simp
  qed
  then show ?thesis using \<open>xs = x # ys\<close> by simp
qed simp

section \<open>What every run keeps\<close>

text \<open>
  C19 (\<open>one_transfer_at_a_time\<close>): in every state that requests, workers, agents' answers, sweeps, the passing of
  time and restarts can lead to, in whatever order their stretches interleave, at most one transfer of a host
  is running, provided no two hosts create a transfer under the same id.\<close>

theorem one_transfer_at_a_time:
  assumes "ids_name_one_host evs"
  shows "length (filter (\<lambda>j. ow_host (tj_owner j) = h \<and> tj_state j = Running)
           (tw_jobs (world (transfer_run lims text_cmp evs)))) \<le> 1"
proof -
  obtain home where ok: "transfers_ok home (world (transfer_run lims text_cmp evs)) (answered (transfer_run lims text_cmp evs))"
    using transfer_run_ok [OF assms] .
  show ?thesis
  proof (rule at_most_one [where g = tj_id])
    fix j j'
    assume "j \<in> set (filter (\<lambda>j. ow_host (tj_owner j) = h \<and> tj_state j = Running) (tw_jobs (world (transfer_run lims text_cmp evs))))"
      and "j' \<in> set (filter (\<lambda>j. ow_host (tj_owner j) = h \<and> tj_state j = Running) (tw_jobs (world (transfer_run lims text_cmp evs))))"
    then show "tj_id j = tj_id j'" by (intro transfers_okD(3) [OF ok, of _ h]) (auto simp: running_def)
  qed (simp add: distinct_map_filter transfers_okD(1) [OF ok])
qed

lemma one_transfer_at_a_time_witness:
  "ids_name_one_host two_downloads
    \<and> map tj_state (tw_jobs (world (transfer_run sample_limits str_cmp two_downloads))) = [Running, Queued]
    \<and> length (filter (\<lambda>j. ow_host (tj_owner j) = ''h'' \<and> tj_state j = Running)
           (tw_jobs (world (transfer_run sample_limits str_cmp two_downloads)))) \<le> 1"
proof -
  have ids: "ids_name_one_host two_downloads"
    by (simp add: ids_name_one_host_def two_downloads_def created_simps sample_transfer_def sample_id_def)
  have "map tj_state (tw_jobs (world (transfer_run sample_limits str_cmp two_downloads))) = [Running, Queued]" by code_simp
  then show ?thesis using ids one_transfer_at_a_time [OF ids, of "''h''" sample_limits str_cmp] by blast
qed

text \<open>
  C20 (\<open>a_stored_file_was_acknowledged\<close>): an entry of an upload is recorded as stored only after the agent of
  the very host the upload was created for has answered, to a question about this entry of this transfer, that
  it is there: no interleaving of chunks, reconciliations, commits, decisions and restarts records a file that
  was never acknowledged.\<close>

theorem a_stored_file_was_acknowledged:
  assumes "ids_name_one_host evs" and "Arrives (Create owner input) \<in> set evs"
    and "e \<in> set (tw_entries (world (transfer_run lims text_cmp evs)))" and "te_transferId e = ct_id input" and "te_state e = Committed"
  shows "\<exists>org r a res. (AgentTransfer org (ow_host owner) r, a) \<in> set (answered (transfer_run lims text_cmp evs))
    \<and> fr_transferId r = ct_id input \<and> fr_entryId r = te_id e \<and> fr_action r \<in> {FsStat, FsMkdir, FsCommit}
    \<and> ta_agent a = Inr res \<and> fs_committed res"
proof -
  obtain home where ok: "transfers_ok home (world (transfer_run lims text_cmp evs)) (answered (transfer_run lims text_cmp evs))"
    and "home (ct_id input) = ow_host owner"
    using transfer_run_ok [OF assms(1)] assms(2) by metis
  then show ?thesis using transfers_okD(4) [OF ok assms(3,5)] assms(4) unfolding acknowledged_def by metis
qed

lemma a_stored_file_was_acknowledged_witness:
  "\<exists>e \<in> set (tw_entries (world (transfer_run sample_limits str_cmp one_upload))). te_state e = Committed
    \<and> (\<exists>org r a res. (AgentTransfer org ''h'' r, a) \<in> set (answered (transfer_run sample_limits str_cmp one_upload))
         \<and> fr_transferId r = sample_id CHR ''a'' \<and> fr_entryId r = te_id e \<and> fr_action r \<in> {FsStat, FsMkdir, FsCommit}
         \<and> ta_agent a = Inr res \<and> fs_committed res)"
proof -
  have ids: "ids_name_one_host one_upload"
    by (simp add: ids_name_one_host_def one_upload_def created_simps)
  have asked: "Arrives (Create sample_owner (sample_transfer Upload CHR ''a'')) \<in> set one_upload"
    by (simp add: one_upload_def)
  have "map (\<lambda>e. (te_transferId e, te_state e)) (tw_entries (world (transfer_run sample_limits str_cmp one_upload)))
      = [(sample_id CHR ''a'', Committed)]" by code_simp
  then obtain e where e: "e \<in> set (tw_entries (world (transfer_run sample_limits str_cmp one_upload)))"
    "te_transferId e = ct_id (sample_transfer Upload CHR ''a'')" "te_state e = Committed"
    by (auto simp: sample_transfer_def map_eq_Cons_conv)
  from a_stored_file_was_acknowledged [OF ids asked e] have "\<exists>org r a res. (AgentTransfer org ''h'' r, a) \<in> set (answered (transfer_run sample_limits str_cmp one_upload))
         \<and> fr_transferId r = sample_id CHR ''a'' \<and> fr_entryId r = te_id e \<and> fr_action r \<in> {FsStat, FsMkdir, FsCommit}
         \<and> ta_agent a = Inr res \<and> fs_committed res" by (simp add: sample_owner_def sample_transfer_def)
  then show ?thesis using e(1,3) by blast
qed

text \<open>A download is started and then paused; the pause is granted, the
  transfer is recorded as paused, and of all threads only the worker of the host is left (thread 3). It had
  read the transfer as queued before the pause came, and it now sets it running without looking again: the
  transfer runs although the last word of its owner was to pause it.\<close>

lemma a_granted_pause_may_be_lost:
  "let s = transfer_run lims text_cmp paused_late; s' = transfer_run lims text_cmp (paused_late @ goes_on 3 3) in
     map_option tj_state (find_job (sample_id CHR ''a'') (world s)) = Some Paused \<and> unfinished s = [3]
     \<and> map_option tj_state (find_job (sample_id CHR ''a'') (world s')) = Some Running"
proof -
  have after: "transfer_run lims text_cmp (paused_late @ goes_on 3 3)
      = foldl (transfer_step lims text_cmp) (transfer_run lims text_cmp paused_late) (goes_on 3 3)"
    by (simp add: transfer_run_def)
  show ?thesis unfolding after Let_def by code_simp
qed

end
