(* ===== verification/Spec2Isabelle.thy ===== *)
theory Spec2Isabelle
  imports Semver Hydrate CommitGraph Frames RelayRecovery History Keys Listing Files FileKinds Listeners Renames DetailRequests Jobs Gauges VmFleet VmCreate BrowserRelayFacts GitBuffer GitRuns TransferFacts TransferRuns
begin

text \<open>
  A verification development of the application logic of pdmux, a dashboard over a fleet of machines:
  terminals, commit graphs, gauges, discovered ports and virtual machines of many hosts in one browser
  page. Paths are relative to \<open>src/\<close>.

  \<^bold>\<open>The program.\<close> An agent on every host (\<open>agent\<close>, in Go) keeps one socket to the server
  (\<open>apps/api\<close>). It reports checkouts, metrics, ports and terminal sessions, and answers requests. A
  browser (\<open>apps/web\<close>) keeps one terminal socket per host and reads everything else by plain requests;
  what both sides compute from the same data lives in \<open>packages/core\<close>, what they exchange in
  \<open>packages/protocol\<close>. Four paths cross the server and are modelled from end to end:

  \<^item> A terminal. \<open>BrowserRelay\<close> (the page) writes the frames of \<open>Frames\<close> to \<open>Relay\<close> (the server), which
    forwards them to the agent that \<open>Registry\<close> says is attached, and brings its output back. A cell of
    the grid (\<open>Slots\<close>, \<open>Grid\<close>, \<open>Hydrate\<close>) says which session a pane shows; \<open>Renames\<close> lets it follow a
    session to a new name.
  \<^item> A commit graph. A report of an agent goes through \<open>GitIngest\<close> into the rows and objects of
    \<open>GitStore\<close>; \<open>GitRead\<close> reads them back in the order of \<open>CommitOrder\<close>; \<open>CommitGraph\<close> lays them out. A
    patch that is missing is asked for through \<open>DetailRequests\<close>, and the acknowledgements at the end of
    \<open>GitRead\<close> tell an agent which patches not to send again.
  \<^item> A machine. A request claims a change of a row (\<open>VmFleet\<close>), a driver carries it out against a
    provider (\<open>Vm\<close>, \<open>VmDrive\<close>), another process may take it over (\<open>VmReplaced\<close>), and \<open>VmCreate\<close> makes
    the row in the first place.
  \<^item> Files. An upload or an archive is a row that requests, a worker for each host, a sweep and a restart of the
    process change beside each other (\<open>Transfers\<close>), while the agent is asked about one file after another.

  \<^bold>\<open>The library.\<close>

  \<^item> \<open>Prelude\<close>: JavaScript numbers, strings and objects, the generic lists, and the locale \<open>codec\<close> of
    everything that is written and read back.
  \<^item> \<open>Ordering\<close>: comparison functions, the stable sort, the locale \<open>comparator\<close>; each sort of the program
    interprets it on its own comparison function.
  \<^item> \<open>PQueue\<close>: the locale \<open>priority_queue\<close> and the binary heap of the commit order as its instance.
  \<^item> \<open>Machines\<close>: the locales of a component that lives through a sequence of operations:
    \<open>invariant_machine\<close>, \<open>budget_machine\<close> (for proper actions, counted), \<open>ranked_machine\<close> (each step
    consumes a rank),
    \<open>gated_machine\<close> (an action needs an event before it), \<open>frame_rule\<close> (what a step may touch). The grid,
    the registry, the relay, the page, the queue, the renames and the machines are interpretations.
  \<^item> \<open>Threads\<close>: operations as chains of stretches between two awaits, with locks, questions to the outside
    and the locale \<open>contract\<close> of rely and guarantee.
  \<^item> \<open>Wire\<close>: the spelled forms of small enumerations, shared by stored layouts and frames.

  \<^bold>\<open>Theories and sources.\<close>

  \<^item> \<open>Semver\<close> (\<open>packages/protocol/src/semver.ts\<close>): parsing, precedence, the version badge. The comparison
    is the order of precedences.
  \<^item> \<open>Cards\<close> (\<open>packages/core/src/cards.ts\<close>), \<open>Keys\<close> (\<open>terminal-keys.ts\<close>), \<open>History\<close>
    (\<open>terminal-history.ts\<close>), \<open>Listing\<close> (\<open>fs-sort.ts\<close>, \<open>fs-columns.ts\<close>, \<open>file-format.ts\<close>), \<open>Files\<close>
    (\<open>commit-files.ts\<close>), \<open>FileKinds\<close> (\<open>file-kind.ts\<close>, \<open>file-icon.ts\<close>), \<open>Listeners\<close> (\<open>listeners.ts\<close>),
    \<open>Gauges\<close> (\<open>metrics.ts\<close>, \<open>usage.ts\<close>, \<open>time.ts\<close>, \<open>viewport.ts\<close>), \<open>DiffPaths\<close> (\<open>git-diff-paths.ts\<close>): the
    pure functions of the screens, with what each promises: text kept, order and permutation, every file
    shown once, a repaired path.
  \<^item> \<open>Slots\<close>, \<open>Grid\<close>, \<open>Hydrate\<close> (\<open>packages/core/src/terminal-grid.ts\<close>): the terminal grid. \<open>shape_ok\<close> is
    its invariant over any run of the reducers, \<open>layout_ok\<close> adds that no two cells share an id, which takes
    the budget of id numbers below \<open>2^53\<close> and removals at positions of the grid; hydration makes a
    well-formed layout of any stored value it does not take for a mode of its own, and gives back one it wrote.
  \<^item> \<open>Frames\<close> (\<open>packages/protocol/src/terminal.ts\<close> and the terminal part of \<open>index.ts\<close>): the frames,
    the validator of the browser, the bounds of the server's schema and where the two differ.
  \<^item> \<open>Registry\<close> (\<open>apps/api/src/agents/agent-registry.service.ts\<close>), \<open>Relay\<close>, \<open>RelaySafety\<close>,
    \<open>RelayRecovery\<close> (\<open>apps/api/src/terminal/terminal-relay.service.ts\<close>), \<open>BrowserRelay\<close>,
    \<open>BrowserRelayFacts\<close> (\<open>apps/web/src/lib/dashboard/terminal-relay.ts\<close>): the terminal path. The state of
    an end is its map of connections and panes and the log of what it did to the outside. The lemmas show
    that a frame only touches the connection that owns it, what becomes of the bytes of an output,
    that panes are opened again on both ends (on the server the native ones only after the hello of the new
    agent), and that both ends hold the same session.
  \<^item> \<open>Renames\<close> (\<open>apps/api/src/terminal/session-renames.ts\<close>): a rename reaches saved panes and a reused id
    is not followed.
  \<^item> \<open>CommitOrder\<close> (\<open>apps/api/src/git/commit-order.ts\<close>), \<open>CommitGraph\<close>
    (\<open>packages/core/src/commit-graph.ts\<close>): a stable topological order, and lanes, rows and edges.
  \<^item> \<open>GitStore\<close>, \<open>GitBuffer\<close>, \<open>GitIngest\<close>, \<open>GitRead\<close>, \<open>GitFacts\<close>, \<open>GitWindow\<close>, \<open>GitGraph\<close>, \<open>GitRuns\<close>
    (\<open>apps/api/src/git/*.ts\<close>, \<open>apps/api/src/agents/agent-ack.service.ts\<close>): \<open>git_db\<close> is the three tables, the
    bucket and the buffer of file contents. \<open>GitFacts\<close> keeps the tables and the flags true under any
    frame, \<open>GitWindow\<close> says what one full report leaves, \<open>GitGraph\<close> what a browser then sees, \<open>GitRuns\<close>
    what holds over any sequence of frames and reads.
  \<^item> \<open>DetailRequests\<close> (\<open>apps/api/src/agents/agent-detail-request.service.ts\<close>): one request per window.
  \<^item> \<open>Jobs\<close> (\<open>apps/api/src/jobs-local/local-job.queue.ts\<close>): the queue in a table, with its retries.
  \<^item> \<open>Vm\<close>, \<open>VmDrive\<close>, \<open>VmReplaced\<close>, \<open>VmFleet\<close>, \<open>VmCreate\<close> (\<open>apps/api/src/vm/*.ts\<close>): the row of a machine,
    the driver of a change as an automaton between two calls, several processes at once. In \<open>VmFleet\<close> an
    unlink and the removal of a host (\<open>apps/api/src/hosts/hosts.service.ts\<close>) check first and delete in a
    later step, and the sweep of stale hosts (\<open>stale-hosts.service.ts\<close>) deletes without a check.
  \<^item> \<open>Transfers\<close>, \<open>TransferFacts\<close>, \<open>TransferRuns\<close> (\<open>apps/api/src/file-transfers/*.ts\<close>,
    \<open>packages/protocol/src/file-transfer.ts\<close>): every operation as a thread, and any interleaving of
    them; which paths agents are asked about, which bytes a range names, that one transfer of a host runs at a
    time and that a file counts as stored only once its agent said so.

  \<^bold>\<open>Inputs of the model.\<close> What is not under \<open>src/\<close>, and what the operating system decides, is an argument:
  whether a socket accepts a write and how much it still buffers, clocks, random ids and jitter,
  \<open>localeCompare\<close> and the order the database gives texts (assumed to be comparators), the next time of a
  cron expression, the answers of a provider and of the enrollment service, which calls of the bucket
  fail, the look-up of a host within an organization, the outcome of a schema validation on the server.
  Timers are events that may fire while they are set. Statements to the database take effect when they
  are made, and the git frames of the fleet are applied one at a time.

  \<^bold>\<open>Bounds and fuel.\<close> A digit string becomes a number through \<open>dbl\<close>, which rounds above \<open>2^53\<close>; \<open>to_int32\<close>
  wraps at \<open>2^31\<close>. The loop of the commit order runs with a fuel of the length of the window plus one,
  the search for a free name with the number of names plus one; the lemmas show that neither runs out.
  A driver of a machine ends by the measure \<open>patience\<close> (the stage of its change and the polls it has left).
  The walk of a directory for an archive ends because every path is longer than its parent's and none is
  longer than 1024. Other recursion is structural or has its measure beside it.

  \<^bold>\<open>Characters and numbers.\<close> A character is a code unit from 0 to 255, one code point each; \<open>DiffPaths\<close>
  alone works on lists of UTF-16 code units. Coordinates, percentages and sizes are exact rationals where the code
  rounds doubles.

  \<^bold>\<open>Not modelled.\<close> The agent, which is a Go program; schemas of a third-party validation library;
  the HTTP routes, the accounts and the mail, which configure third-party packages around the services;
  SQL text, object storage, Redis and BullMQ; Svelte components and the terminal emulator of the page;
  Electron. Of the modelled files: the wording of log lines and notices, audit texts, the colour contrast of
  a tag (real powers), and labels upper-cased by Unicode tables. The services that only move rows
  between a request and a table (views of hosts, tokens, fleet settings, metrics) are left out as well.
\<close>

section \<open>The ordered commit graph\<close>

text \<open>
  C36 (\<open>ordered_graph_points_down\<close>): the API orders a window with \<open>stableTopoOrder\<close> and the
  client lays it out with \<open>layoutGraph\<close>: over distinct commits without a cycle, whatever order the
  rows were stored in, no line of the graph goes back up the screen.
\<close>

theorem ordered_graph_points_down:
  assumes "distinct (map sha cs)" and "acyclic_window cs" and "\<forall>c \<in> set cs. sha c \<notin> set (parents c)"
  shows "\<forall>e \<in> set (g_edges (layoutGraph (stableTopoOrder cs) opts)). e_open e \<or> e_dashed e \<or>
    (\<exists>from \<in> set (g_rows (layoutGraph (stableTopoOrder cs) opts)).
     \<exists>to \<in> set (g_rows (layoutGraph (stableTopoOrder cs) opts)).
      r_sha from = e_from e \<and> r_sha to = e_to e \<and> r_row from < r_row to \<and> r_y from < r_y to)"
proof (rule points_down)
  show "sorted_wrt (\<lambda>c d. sha c \<notin> set (parents d)) (stableTopoOrder cs)"
    using assms(1,2) by (rule stable_sorted)
  show "\<forall>c \<in> set (stableTopoOrder cs). sha c \<notin> set (parents c)"
    using assms(3) mset_stableTopoOrder [of cs] by (metis mset_eq_setD)
qed

theorem ordered_graph_points_down_witness:
  "list_all (\<lambda>e. e_open e \<or> e_dashed e \<or> e_from e \<noteq> e_to e)
     (g_edges (layoutGraph (stableTopoOrder sample_window) plain_opts))"
proof -
  let ?g = "layoutGraph (stableTopoOrder sample_window) plain_opts"
  have "distinct (map sha sample_window)" "\<forall>c \<in> set sample_window. sha c \<notin> set (parents c)"
    by (simp_all add: sample_window_def)
  note down = ordered_graph_points_down [OF this(1) acyclic_sample this(2), of plain_opts]
  have m: "mset (map sha (stableTopoOrder sample_window)) = mset (map sha sample_window)"
    by (simp add: mset_stableTopoOrder)
  then have "distinct (map sha (stableTopoOrder sample_window))"
    "UNCOMMITTED \<notin> set (map sha (stableTopoOrder sample_window))"
    using mset_eq_imp_distinct_iff [OF m] mset_eq_setD [OF m]
    by (simp_all add: sample_window_def UNCOMMITTED_def)
  then have "distinct (map r_sha (g_rows ?g))" unfolding rows_shas by simp
  then show ?thesis using down unfolding list_all_iff by (metis find_unique less_irrefl option.inject)
qed

end
